(* ===== verification/Prelude.thy ===== *)
theory Prelude
  imports Complex_Main "HOL-Library.AList" "HOL-Library.Sublist"
begin

text \<open>
  What the components share: Python's exceptions as values, a state and exception monad for the
  bodies of the \<open>async\<close> methods, dictionaries as association lists in insertion order, stable
  sorting by a key, and the contract of a body that may only move the state along a preorder.
\<close>

section \<open>Exceptions\<close>

text \<open>
  The exceptions the modelled code raises or tells apart. \<open>CancelledError\<close> is the one that is not an
  \<open>Exception\<close> in Python, so an \<open>except Exception\<close> block lets it through. \<open>ApplicationError\<close>
  carries its message, its \<open>type\<close> and \<open>non_retryable\<close>; \<open>ActivityError\<close>, Temporal's report of an
  activity that failed, its message and its \<open>__cause__\<close>. \<open>ProviderError\<close> is a failure of a call to a model's
  service: the adapter's own \<open>StreamInterrupted\<close> (a message, \<open>retryable\<close> and the tokens it used) and
  \<open>ContentBlocked\<close>, the SDK's \<open>APIStatusError\<close> (status, code, param and response headers) and bare
  \<open>APIError\<close> (the code and type of its body), and what an adapter takes for a lost connection:
  a \<open>TimeoutError\<close>, an \<open>APIConnectionError\<close> or a transport error, by its type.
\<close>

datatype provider_failure =
    StreamInterrupted string bool "int option"
  | ContentBlocked string
  | APIStatusError string int "string option" "string option" "(string \<times> string) list"
  | APIError string "string option" "string option"
  | LostConnection string string

datatype py_error =
    KeyError string
  | ValueError string
  | RuntimeError string
  | TypeError string
  | IndexError
  | AssertionError
  | PermissionError string
  | ApplicationError string "string option" bool
  | StreamCancelled
  | OtherException string string
  | ActivityError string "py_error option"
  | ProviderError provider_failure
  | CancelledError

fun failure_str :: "provider_failure \<Rightarrow> string" where
  "failure_str (StreamInterrupted m r t) = m"
| "failure_str (ContentBlocked m) = m"
| "failure_str (APIStatusError m s c p h) = m"
| "failure_str (APIError m c t) = m"
| "failure_str (LostConnection t m) = m"

fun failure_type :: "provider_failure \<Rightarrow> string" where
  "failure_type (StreamInterrupted m r t) = ''StreamInterrupted''"
| "failure_type (ContentBlocked m) = ''ContentBlocked''"
| "failure_type (APIStatusError m s c p h) = 
     (if s = 400 then ''BadRequestError'' else if s = 401 then ''AuthenticationError''
      else if s = 403 then ''PermissionDeniedError'' else if s = 404 then ''NotFoundError''
      else if s = 409 then ''ConflictError'' else if s = 422 then ''UnprocessableEntityError''
      else if s = 429 then ''RateLimitError'' else if s \<ge> 500 then ''InternalServerError'' else ''APIStatusError'')"
| "failure_type (APIError m c t) = ''APIError''"
| "failure_type (LostConnection t m) = t"

fun is_exception :: "py_error \<Rightarrow> bool" where
  "is_exception CancelledError = False"
| "is_exception _ = True"

text \<open>\<open>str(error)\<close>: the message; a \<open>KeyError\<close> prints the \<open>repr\<close> of its key, and Temporal's
  \<open>ApplicationError\<close> prints its type, when it has one, before its message.\<close>

fun err_str :: "py_error \<Rightarrow> string" where
  "err_str (KeyError k) = CHR 0x27 # k @ [CHR 0x27]"
| "err_str (ValueError m) = m"
| "err_str (RuntimeError m) = m"
| "err_str (TypeError m) = m"
| "err_str IndexError = ''list index out of range''"
| "err_str AssertionError = []"
| "err_str (PermissionError m) = m"
| "err_str (ApplicationError m t n) =
     (case t of None \<Rightarrow> m | Some s \<Rightarrow> if s = [] then m else s @ '': '' @ m)"
| "err_str StreamCancelled = []"
| "err_str (OtherException t m) = m"
| "err_str (ActivityError m c) = m"
| "err_str (ProviderError f) = failure_str f"
| "err_str CancelledError = []"

text \<open>\<open>type(error).__name__\<close>.\<close>

fun err_type :: "py_error \<Rightarrow> string" where
  "err_type (KeyError k) = ''KeyError''"
| "err_type (ValueError m) = ''ValueError''"
| "err_type (RuntimeError m) = ''RuntimeError''"
| "err_type (TypeError m) = ''TypeError''"
| "err_type IndexError = ''IndexError''"
| "err_type AssertionError = ''AssertionError''"
| "err_type (PermissionError m) = ''PermissionError''"
| "err_type (ApplicationError m t n) = ''ApplicationError''"
| "err_type StreamCancelled = ''StreamCancelled''"
| "err_type (OtherException t m) = t"
| "err_type (ActivityError m c) = ''ActivityError''"
| "err_type (ProviderError f) = failure_type f"
| "err_type CancelledError = ''CancelledError''"

section \<open>The state and exception monad\<close>

text \<open>
  An action reads and writes a state and either returns or raises. An exception keeps the state
  reached when it was raised, as Python's does. An \<open>await\<close> on code outside the repository is an
  action too: as an arbitrary state transformer it also stands for whatever other tasks do to the
  shared state while it is awaited.
\<close>

type_synonym ('s, 'a) act = "'s \<Rightarrow> (py_error + 'a) \<times> 's"

definition ret :: "'a \<Rightarrow> ('s, 'a) act" where
  "ret a s = (Inr a, s)"

definition raise :: "py_error \<Rightarrow> ('s, 'a) act" where
  "raise e s = (Inl e, s)"

definition bnd :: "('s, 'a) act \<Rightarrow> ('a \<Rightarrow> ('s, 'b) act) \<Rightarrow> ('s, 'b) act" where
  "bnd m f s = (case m s of (Inl e, t) \<Rightarrow> (Inl e, t) | (Inr a, t) \<Rightarrow> f a t)"

definition thn :: "('s, 'a) act \<Rightarrow> ('s, 'b) act \<Rightarrow> ('s, 'b) act" where
  "thn m k = bnd m (\<lambda>_. k)"

text \<open>\<open>try: m; except Exception as e: h(e)\<close>.\<close>

definition catch :: "('s, 'a) act \<Rightarrow> (py_error \<Rightarrow> ('s, 'a) act) \<Rightarrow> ('s, 'a) act" where
  "catch m h s = (case m s of
      (Inl e, t) \<Rightarrow> (if is_exception e then h e t else (Inl e, t))
    | (Inr a, t) \<Rightarrow> (Inr a, t))"

text \<open>\<open>try: m; except <some>: h; else: k\<close>: the handler for an \<open>Exception\<close>, \<open>k\<close> only after a normal
  end of \<open>m\<close>, outside the \<open>try\<close>.\<close>

definition try_else ::
  "('s, 'a) act \<Rightarrow> (py_error \<Rightarrow> ('s, 'b) act) \<Rightarrow> ('a \<Rightarrow> ('s, 'b) act) \<Rightarrow> ('s, 'b) act" where
  "try_else m h k s = (case m s of
      (Inl e, t) \<Rightarrow> (if is_exception e then h e t else (Inl e, t))
    | (Inr a, t) \<Rightarrow> k a t)"

definition getS :: "('s, 's) act" where
  "getS s = (Inr s, s)"

definition modifyS :: "('s \<Rightarrow> 's) \<Rightarrow> ('s, unit) act" where
  "modifyS f s = (Inr (), f s)"

text \<open>A read of the state that may raise.\<close>

definition readS :: "('s \<Rightarrow> py_error + 'a) \<Rightarrow> ('s, 'a) act" where
  "readS f s = (f s, s)"

text \<open>A value computed by a function that may raise.\<close>

definition from_res :: "py_error + 'a \<Rightarrow> ('s, 'a) act" where
  "from_res r = readS (\<lambda>_. r)"

definition whenM :: "bool \<Rightarrow> ('s, unit) act \<Rightarrow> ('s, unit) act" where
  "whenM b m = (if b then m else ret ())"

fun for_each :: "('a \<Rightarrow> ('s, unit) act) \<Rightarrow> 'a list \<Rightarrow> ('s, unit) act" where
  "for_each f [] = ret ()"
| "for_each f (x # xs) = thn (f x) (for_each f xs)"

fun map_act :: "('a \<Rightarrow> ('s, 'b) act) \<Rightarrow> 'a list \<Rightarrow> ('s, 'b list) act" where
  "map_act f [] = ret []"
| "map_act f (x # xs) = bnd (f x) (\<lambda>y. bnd (map_act f xs) (\<lambda>ys. ret (y # ys)))"

text \<open>\<open>asyncio.gather\<close> with every outcome kept: all run, and what each returned or raised is collected.\<close>

fun gather :: "('a \<Rightarrow> ('s, 'b) act) \<Rightarrow> 'a list \<Rightarrow> 's \<Rightarrow> (py_error + 'b) list \<times> 's" where
  "gather f [] s = ([], s)"
| "gather f (x # xs) s = (let (r, t) = f x s; (rs, u) = gather f xs t in (r # rs, u))"

fun first_error :: "(py_error + 'b) list \<Rightarrow> py_error option" where
  "first_error [] = None"
| "first_error (Inl e # rs) = Some e"
| "first_error (Inr a # rs) = first_error rs"

definition returned :: "('e + 'b) list \<Rightarrow> 'b list" where
  "returned rs = concat (map (case_sum (\<lambda>_. []) (\<lambda>a. [a])) rs)"

definition gathered :: "('a \<Rightarrow> ('s, 'b) act) \<Rightarrow> 'a list \<Rightarrow> ('s, 'b list) act" where
  "gathered f xs s = (let (rs, t) = gather f xs s in
     (case first_error rs of Some e \<Rightarrow> Inl e | None \<Rightarrow> Inr (returned rs), t))"

lemma gather_length: "gather f xs s = (rs, t) \<Longrightarrow> length rs = length xs"
  by (induction xs arbitrary: s rs) (auto split: prod.splits)

lemma returned_length: "first_error rs = None \<Longrightarrow> length (returned rs) = length rs"
  by (induction rs rule: first_error.induct) (simp_all add: returned_def)

lemma gathered_length: "gathered f xs s = (Inr ys, t) \<Longrightarrow> length ys = length xs"
  by (auto simp: gathered_def gather_length returned_length split: prod.splits option.splits)

named_theorems act_simps \<open>evaluation of actions on a state\<close>

lemmas act_defs [act_simps] =
  ret_def raise_def bnd_def thn_def catch_def try_else_def getS_def modifyS_def readS_def whenM_def

lemma bnd_Inr: "m s = (Inr a, t) \<Longrightarrow> bnd m f s = f a t"
  by (simp add: bnd_def)

lemma bnd_Inl: "m s = (Inl e, t) \<Longrightarrow> bnd m f s = (Inl e, t)"
  by (simp add: bnd_def)

lemma thn_Inr: "m s = (Inr a, t) \<Longrightarrow> thn m k s = k t"
  by (simp add: thn_def bnd_def)

lemma bnd_returns:
  "fst (bnd m f s) = Inr b \<longleftrightarrow>
     (\<exists>a. fst (m s) = Inr a \<and> fst (f a (snd (m s))) = Inr b)"
  by (auto simp: bnd_def split: prod.splits sum.splits)

lemma bnd_raises:
  "fst (bnd m f s) = Inl e \<longleftrightarrow>
     fst (m s) = Inl e \<or> (\<exists>a. fst (m s) = Inr a \<and> fst (f a (snd (m s))) = Inl e)"
  by (auto simp: bnd_def split: prod.splits sum.splits)

section \<open>What an action may do: a preorder on states\<close>

text \<open>
  \<open>keeps R m\<close>: whatever \<open>m\<close> returns or raises, the state it leaves is related to the one it started
  from. With \<open>R\<close> a preorder this composes over the monad; an invariant \<open>I\<close> is the preorder
  \<open>\<lambda>s t. I s \<longrightarrow> I t\<close>.
\<close>

definition keeps :: "('s \<Rightarrow> 's \<Rightarrow> bool) \<Rightarrow> ('s, 'a) act \<Rightarrow> bool" where
  "keeps R m \<longleftrightarrow> (\<forall>s. R s (snd (m s)))"

lemma keepsD: "keeps R m \<Longrightarrow> R s (snd (m s))"
  by (simp add: keeps_def)

lemma keepsI: "(\<And>s. R s (snd (m s))) \<Longrightarrow> keeps R m"
  by (simp add: keeps_def)

named_theorems keeps_rules \<open>actions that respect a step contract\<close>

locale step_contract =
  fixes R :: "'s \<Rightarrow> 's \<Rightarrow> bool"
  assumes step_refl: "R s s"
    and step_trans: "R s t \<Longrightarrow> R t u \<Longrightarrow> R s u"
begin

lemma keeps_ret: "keeps R (ret a)"
  by (simp add: keeps_def ret_def step_refl)

lemma keeps_raise: "keeps R (raise e)"
  by (simp add: keeps_def raise_def step_refl)

lemma keeps_getS: "keeps R getS"
  by (simp add: keeps_def getS_def step_refl)

lemma keeps_readS: "keeps R (readS f)"
  by (simp add: keeps_def readS_def step_refl)

lemma keeps_from_res: "keeps R (from_res r)"
  by (simp add: from_res_def keeps_readS)

lemma keeps_modifyS: "(\<And>s. R s (f s)) \<Longrightarrow> keeps R (modifyS f)"
  by (simp add: keeps_def modifyS_def)

lemma keeps_bnd:
  assumes m: "keeps R m" and f: "\<And>a. keeps R (f a)"
  shows "keeps R (bnd m f)"
proof (rule keepsI)
  fix s
  obtain r t where ms: "m s = (r, t)" by (cases "m s")
  with keepsD [OF m, of s] have st: "R s t" by simp
  show "R s (snd (bnd m f s))"
  proof (cases r)
    case (Inl e)
    with ms st show ?thesis by (simp add: bnd_def)
  next
    case (Inr a)
    from step_trans [OF st keepsD [OF f, of t a]] ms Inr show ?thesis by (simp add: bnd_def)
  qed
qed

lemma keeps_thn: "keeps R m \<Longrightarrow> keeps R k \<Longrightarrow> keeps R (thn m k)"
  by (simp add: thn_def keeps_bnd)

lemma keeps_try_else:
  assumes m: "keeps R m" and h: "\<And>e. keeps R (h e)" and k: "\<And>a. keeps R (k a)"
  shows "keeps R (try_else m h k)"
proof (rule keepsI)
  fix s
  obtain r t where ms: "m s = (r, t)" by (cases "m s")
  with keepsD [OF m, of s] have st: "R s t" by simp
  show "R s (snd (try_else m h k s))"
  proof (cases r)
    case (Inl e)
    from step_trans [OF st keepsD [OF h, of t e]] ms Inl st show ?thesis
      by (simp add: try_else_def)
  next
    case (Inr a)
    from step_trans [OF st keepsD [OF k, of t a]] ms Inr show ?thesis by (simp add: try_else_def)
  qed
qed

lemma catch_try_else: "catch m h = try_else m h ret"
  by (rule ext) (auto simp: catch_def try_else_def ret_def split: prod.split sum.split)

lemma keeps_catch: "keeps R m \<Longrightarrow> (\<And>e. keeps R (h e)) \<Longrightarrow> keeps R (catch m h)"
  unfolding catch_try_else by (rule keeps_try_else) (auto intro: keeps_ret)

lemma keeps_whenM: "(b \<Longrightarrow> keeps R m) \<Longrightarrow> keeps R (whenM b m)"
  by (simp add: whenM_def keeps_ret)

lemma keeps_if: "(b \<Longrightarrow> keeps R m) \<Longrightarrow> (\<not> b \<Longrightarrow> keeps R k) \<Longrightarrow> keeps R (if b then m else k)"
  by simp

lemma keeps_option:
  "keeps R m \<Longrightarrow> (\<And>a. x = Some a \<Longrightarrow> keeps R (f a)) \<Longrightarrow>
   keeps R (case x of None \<Rightarrow> m | Some a \<Rightarrow> f a)"
  by (cases x) auto

lemma keeps_for_each: "(\<And>x. x \<in> set xs \<Longrightarrow> keeps R (f x)) \<Longrightarrow> keeps R (for_each f xs)"
  by (induction xs) (auto intro: keeps_ret keeps_thn)

lemma keeps_map_act: "(\<And>x. x \<in> set xs \<Longrightarrow> keeps R (f x)) \<Longrightarrow> keeps R (map_act f xs)"
proof (induction xs)
  case Nil
  then show ?case by (simp add: keeps_ret)
next
  case (Cons x xs)
  then show ?case by (auto intro!: keeps_bnd keeps_ret)
qed

lemmas keeps_monad =
  keeps_ret keeps_raise keeps_getS keeps_readS keeps_from_res keeps_bnd keeps_thn keeps_catch keeps_try_else
  keeps_whenM keeps_if keeps_option keeps_for_each keeps_map_act

end

section \<open>What an action ensures\<close>

text \<open>The result and the final state of \<open>m\<close> started in \<open>s\<close> satisfy \<open>Q\<close>; the equations compute it over
  the monad, and an action known only by its step contract is passed with \<open>ensures_keeps\<close>.\<close>

definition ensures :: "('s, 'a) act \<Rightarrow> 's \<Rightarrow> (py_error + 'a \<Rightarrow> 's \<Rightarrow> bool) \<Rightarrow> bool" where
  "ensures m s Q \<longleftrightarrow> Q (fst (m s)) (snd (m s))"

named_theorems ensures_simps \<open>what the combinators ensure\<close>

lemma ensures_ret [ensures_simps]: "ensures (ret a) s Q \<longleftrightarrow> Q (Inr a) s"
  by (simp add: ensures_def ret_def)

lemma ensures_raise [ensures_simps]: "ensures (raise e) s Q \<longleftrightarrow> Q (Inl e) s"
  by (simp add: ensures_def raise_def)

lemma ensures_getS [ensures_simps]: "ensures getS s Q \<longleftrightarrow> Q (Inr s) s"
  by (simp add: ensures_def getS_def)

lemma ensures_readS [ensures_simps]: "ensures (readS f) s Q \<longleftrightarrow> Q (f s) s"
  by (simp add: ensures_def readS_def)

lemma ensures_from_res [ensures_simps]: "ensures (from_res r) s Q \<longleftrightarrow> Q r s"
  by (simp add: from_res_def ensures_readS)

lemma ensures_modifyS [ensures_simps]: "ensures (modifyS f) s Q \<longleftrightarrow> Q (Inr ()) (f s)"
  by (simp add: ensures_def modifyS_def)

lemma ensures_bnd [ensures_simps]:
  "ensures (bnd m f) s Q \<longleftrightarrow>
     ensures m s (\<lambda>r t. case r of Inl e \<Rightarrow> Q (Inl e) t | Inr a \<Rightarrow> ensures (f a) t Q)"
  by (simp add: ensures_def bnd_def split: prod.split sum.split)

lemma ensures_thn [ensures_simps]:
  "ensures (thn m k) s Q \<longleftrightarrow>
     ensures m s (\<lambda>r t. case r of Inl e \<Rightarrow> Q (Inl e) t | Inr a \<Rightarrow> ensures k t Q)"
  by (simp add: thn_def ensures_bnd)

lemma ensures_try_else [ensures_simps]:
  "ensures (try_else m h k) s Q \<longleftrightarrow>
     ensures m s (\<lambda>r t. case r of
        Inl e \<Rightarrow> (if is_exception e then ensures (h e) t Q else Q (Inl e) t)
      | Inr a \<Rightarrow> ensures (k a) t Q)"
  by (simp add: ensures_def try_else_def split: prod.split sum.split)

lemma ensures_catch [ensures_simps]:
  "ensures (catch m h) s Q \<longleftrightarrow>
     ensures m s (\<lambda>r t. case r of
        Inl e \<Rightarrow> (if is_exception e then ensures (h e) t Q else Q (Inl e) t)
      | Inr a \<Rightarrow> Q (Inr a) t)"
  by (simp add: ensures_def catch_def split: prod.split sum.split)

lemma ensures_whenM [ensures_simps]:
  "ensures (whenM b m) s Q \<longleftrightarrow> (if b then ensures m s Q else Q (Inr ()) s)"
  by (simp add: whenM_def ensures_ret)

lemma ensures_if [ensures_simps]:
  "ensures (if b then m else k) s Q \<longleftrightarrow> (if b then ensures m s Q else ensures k s Q)"
  by simp

lemma ensures_keeps: "keeps R m \<Longrightarrow> (\<And>r t. R s t \<Longrightarrow> Q r t) \<Longrightarrow> ensures m s Q"
  by (simp add: ensures_def keeps_def)

lemma ensures_mono: "ensures m s P \<Longrightarrow> (\<And>r t. P r t \<Longrightarrow> Q r t) \<Longrightarrow> ensures m s Q"
  by (simp add: ensures_def)

lemma ensures_conj: "ensures m s P \<Longrightarrow> ensures m s Q \<Longrightarrow> ensures m s (\<lambda>r t. P r t \<and> Q r t)"
  by (simp add: ensures_def)

lemma ensuresD: "ensures m s Q \<Longrightarrow> m s = (r, t) \<Longrightarrow> Q r t"
  by (simp add: ensures_def)

context step_contract begin

lemma bnd_after:
  assumes "keeps R m" and "R s t"
    and "\<And>e u. R s u \<Longrightarrow> Q (Inl e) u" and "\<And>a u. R s u \<Longrightarrow> ensures (f a) u Q"
  shows "ensures (bnd m f) t Q"
  unfolding ensures_bnd
  by (rule ensures_keeps [OF assms(1)]) (auto split: sum.split intro: assms(3,4) step_trans [OF assms(2)])

lemma thn_after:
  assumes "keeps R m" and "R s t"
    and "\<And>e u. R s u \<Longrightarrow> Q (Inl e) u" and "\<And>u. R s u \<Longrightarrow> ensures k u Q"
  shows "ensures (thn m k) t Q"
  unfolding thn_def by (rule bnd_after [OF assms])

lemma try_after:
  assumes "keeps R m" and "R s t"
    and "\<And>e u. R s u \<Longrightarrow> Q (Inl e) u" and "\<And>e u. R s u \<Longrightarrow> ensures (h e) u Q"
    and "\<And>a u. R s u \<Longrightarrow> ensures (k a) u Q"
  shows "ensures (try_else m h k) t Q"
  unfolding ensures_try_else
  by (rule ensures_keeps [OF assms(1)]) (auto split: sum.split intro: assms(3-5) step_trans [OF assms(2)])

end

lemma not_exception: "\<not> is_exception e \<Longrightarrow> e = CancelledError"
  by (cases e) simp_all

section \<open>Dictionaries\<close>

text \<open>
  A Python \<open>dict\<close> is an association list with distinct keys, in insertion order: assigning an
  existing key replaces its value in place, a new key goes to the end. This is \<open>AList.update\<close> of the
  library, and \<open>pop\<close> is \<open>AList.delete\<close>.
\<close>

type_synonym ('k, 'v) dict = "('k \<times> 'v) list"

abbreviation dget :: "('k, 'v) dict \<Rightarrow> 'k \<Rightarrow> 'v option" where
  "dget d k \<equiv> map_of d k"

abbreviation dset :: "'k \<Rightarrow> 'v \<Rightarrow> ('k, 'v) dict \<Rightarrow> ('k, 'v) dict" where
  "dset k v d \<equiv> AList.update k v d"

abbreviation dvalues :: "('k, 'v) dict \<Rightarrow> 'v list" where
  "dvalues d \<equiv> map snd d"

abbreviation dkeys :: "('k, 'v) dict \<Rightarrow> 'k list" where
  "dkeys d \<equiv> map fst d"

definition wf_dict :: "('k, 'v) dict \<Rightarrow> bool" where
  "wf_dict d \<longleftrightarrow> distinct (map fst d)"

definition dsetdefault :: "'k \<Rightarrow> 'v \<Rightarrow> ('k, 'v) dict \<Rightarrow> ('k, 'v) dict" where
  "dsetdefault k v d = (case dget d k of None \<Rightarrow> dset k v d | Some _ \<Rightarrow> d)"

lemma dget_dset [simp]: "dget (dset k v d) k' = (if k' = k then Some v else dget d k')"
  by (simp add: update_conv)

lemma dget_delete [simp]: "dget (AList.delete k d) k' = (if k' = k then None else dget d k')"
  by (simp add: delete_conv')

lemma wf_dict_Nil [simp]: "wf_dict []"
  by (simp add: wf_dict_def)

lemma wf_dict_dset [simp]: "wf_dict d \<Longrightarrow> wf_dict (dset k v d)"
  by (simp add: wf_dict_def distinct_update)

lemma wf_dict_delete [simp]: "wf_dict d \<Longrightarrow> wf_dict (AList.delete k d)"
  by (simp add: wf_dict_def distinct_delete)

lemma wf_dict_in_set: "wf_dict d \<Longrightarrow> (k, v) \<in> set d \<longleftrightarrow> dget d k = Some v"
  by (auto simp: wf_dict_def intro: map_of_is_SomeI dest: map_of_SomeD)

lemma dset_same: "dget d k = Some v \<Longrightarrow> dset k v d = d"
  by (rule update_triv)

lemma dkeys_dset_mem: "k \<in> set (dkeys d) \<Longrightarrow> dkeys (dset k v d) = dkeys d"
  by (simp add: update_keys)

lemma dset_new: "k \<notin> set (dkeys d) \<Longrightarrow> dset k v d = d @ [(k, v)]"
  by (induction d) auto

lemma dget_Some_key: "dget d k = Some v \<Longrightarrow> k \<in> set (dkeys d)"
  by (metis map_of_eq_None_iff option.distinct(1) set_map)

text \<open>\<open>list.index\<close>.\<close>

fun index_of :: "'a \<Rightarrow> 'a list \<Rightarrow> nat option" where
  "index_of x [] = None"
| "index_of x (y # ys) = (if y = x then Some 0 else map_option Suc (index_of x ys))"

lemma index_of_None: "index_of x xs = None \<longleftrightarrow> x \<notin> set xs"
  by (induction xs) auto

lemma index_of_Some: "index_of x xs = Some i \<Longrightarrow> i < length xs \<and> xs ! i = x \<and> x \<notin> set (take i xs)"
  by (induction xs arbitrary: i) (auto split: if_splits)

text \<open>The mapping interface the stores are written against, and its instance.\<close>

locale mapping_like =
  fixes look :: "'m \<Rightarrow> 'k \<Rightarrow> 'v option"
    and store :: "'k \<Rightarrow> 'v \<Rightarrow> 'm \<Rightarrow> 'm"
    and remove :: "'k \<Rightarrow> 'm \<Rightarrow> 'm"
  assumes look_store: "look (store k v m) k' = (if k' = k then Some v else look m k')"
    and look_remove: "look (remove k m) k' = (if k' = k then None else look m k')"
begin

lemma look_store_same: "look (store k v m) k = Some v"
  by (simp add: look_store)

lemma look_store_other: "k' \<noteq> k \<Longrightarrow> look (store k v m) k' = look m k'"
  by (simp add: look_store)

lemma store_store: "look (store k v (store k w m)) k' = look (store k v m) k'"
  by (simp add: look_store)

lemma store_swap: "k \<noteq> l \<Longrightarrow> look (store k v (store l w m)) k' = look (store l w (store k v m)) k'"
  by (simp add: look_store)

lemma remove_store: "look (remove k (store k v m)) k' = look (remove k m) k'"
  by (simp add: look_store look_remove)

end

interpretation py_dict: mapping_like "\<lambda>d k. map_of d k" AList.update AList.delete
  by unfold_locales simp_all

section \<open>Errors of a pure computation\<close>

definition try_bind :: "'e + 'a \<Rightarrow> ('a \<Rightarrow> 'e + 'b) \<Rightarrow> 'e + 'b" where
  "try_bind x f = (case x of Inl e \<Rightarrow> Inl e | Inr a \<Rightarrow> f a)"

fun try_map :: "('a \<Rightarrow> 'e + 'b) \<Rightarrow> 'a list \<Rightarrow> 'e + 'b list" where
  "try_map f [] = Inr []"
| "try_map f (x # xs) = try_bind (f x) (\<lambda>y. try_bind (try_map f xs) (\<lambda>ys. Inr (y # ys)))"

lemma try_bind_simps [simp]:
  "try_bind (Inl e) f = Inl e" "try_bind (Inr a) f = f a"
  by (simp_all add: try_bind_def)

lemma try_bind_Inr: "try_bind x f = Inr b \<longleftrightarrow> (\<exists>a. x = Inr a \<and> f a = Inr b)"
  by (cases x) simp_all

lemma try_map_cong: "(\<And>x. x \<in> set xs \<Longrightarrow> f x = g x) \<Longrightarrow> try_map f xs = try_map g xs"
  by (induction xs) simp_all

lemma try_map_Inr: "(\<And>x. x \<in> set xs \<Longrightarrow> f x = Inr (g x)) \<Longrightarrow> try_map f xs = Inr (map g xs)"
  by (induction xs) simp_all

lemma try_map_length: "try_map f xs = Inr ys \<Longrightarrow> length ys = length xs"
  by (induction xs arbitrary: ys) (auto simp: try_bind_Inr)

lemma try_map_all: "try_map f xs = Inr ys \<Longrightarrow> list_all2 (\<lambda>x y. f x = Inr y) xs ys"
  by (induction xs arbitrary: ys) (auto simp: try_bind_Inr)

section \<open>Sorting and lists\<close>

text \<open>\<open>sorted(xs, key=k)\<close> is the library's stable \<open>sort_key\<close>; strings are ordered by code point.\<close>

fun str_less :: "string \<Rightarrow> string \<Rightarrow> bool" where
  "str_less _ [] = False"
| "str_less [] (_ # _) = True"
| "str_less (a # as) (b # bs) =
     ((of_char a :: nat) < of_char b \<or> (a = b \<and> str_less as bs))"

definition str_le :: "string \<Rightarrow> string \<Rightarrow> bool" where
  "str_le a b \<longleftrightarrow> a = b \<or> str_less a b"

fun insert_by :: "('a \<Rightarrow> 'a \<Rightarrow> bool) \<Rightarrow> 'a \<Rightarrow> 'a list \<Rightarrow> 'a list" where
  "insert_by le x [] = [x]"
| "insert_by le x (y # ys) = (if le x y then x # y # ys else y # insert_by le x ys)"

definition sort_by :: "('a \<Rightarrow> 'a \<Rightarrow> bool) \<Rightarrow> 'a list \<Rightarrow> 'a list" where
  "sort_by le xs = foldr (insert_by le) xs []"

lemma set_insert_by [simp]: "set (insert_by le x ys) = insert x (set ys)"
  by (induction ys) auto

lemma set_sort_by [simp]: "set (sort_by le xs) = set xs"
  by (induction xs) (auto simp: sort_by_def)

lemma length_insert_by [simp]: "length (insert_by le x ys) = Suc (length ys)"
  by (induction ys) auto

lemma length_sort_by [simp]: "length (sort_by le xs) = length xs"
  by (induction xs) (auto simp: sort_by_def)

lemma sort_by_Nil [simp]: "sort_by le [] = []"
  by (simp add: sort_by_def)

lemma sort_by_Cons: "sort_by le (x # xs) = insert_by le x (sort_by le xs)"
  by (simp add: sort_by_def)

lemma distinct_insert_by: "distinct (map f (insert_by le x ys)) = distinct (map f (x # ys))"
  by (induction ys) auto

lemma distinct_sort_by: "distinct (map f (sort_by le xs)) = distinct (map f xs)"
  by (induction xs) (auto simp: sort_by_Cons distinct_insert_by)

lemma of_char_nat_inj: "(of_char a :: nat) = of_char b \<longleftrightarrow> a = b"
  by simp

lemma str_less_trans: "str_less a b \<Longrightarrow> str_less b c \<Longrightarrow> str_less a c"
proof (induction a b arbitrary: c rule: str_less.induct)
  case (1 a)
  then show ?case by simp
next
  case (2 b bs)
  then show ?case by (cases c) auto
next
  case (3 a as b bs)
  then show ?case by (cases c) auto
qed

lemma str_less_linear: "a = b \<or> str_less a b \<or> str_less b a"
proof (induction a b rule: str_less.induct)
  case (3 a as b bs)
  have "(of_char a :: nat) < of_char b \<or> a = b \<or> (of_char b :: nat) < of_char a"
    using linorder_neqE_nat of_char_nat_inj by blast
  with 3 show ?case by auto
next
  case (1 a)
  then show ?case by (cases a) auto
qed auto

lemma str_le_linear: "str_le a b \<or> str_le b a"
  using str_less_linear by (auto simp: str_le_def)

lemma str_le_trans: "str_le a b \<Longrightarrow> str_le b c \<Longrightarrow> str_le a c"
  using str_less_trans by (auto simp: str_le_def)

lemma sorted_insert_by:
  assumes lin: "\<And>a b. le a b \<or> le b a"
    and trans: "\<And>a b c. le a b \<Longrightarrow> le b c \<Longrightarrow> le a c"
  shows "sorted_wrt le ys \<Longrightarrow> sorted_wrt le (insert_by le x ys)"
proof (induction ys)
  case (Cons y ys)
  show ?case
  proof (cases "le x y")
    case True
    with Cons.prems show ?thesis by (auto intro: trans)
  next
    case False
    with lin have "le y x" by blast
    with Cons False show ?thesis by auto
  qed
qed simp

lemma sorted_sort_by:
  assumes "\<And>a b. le a b \<or> le b a" and "\<And>a b c. le a b \<Longrightarrow> le b c \<Longrightarrow> le a c"
  shows "sorted_wrt le (sort_by le xs)"
proof (induction xs)
  case (Cons x xs)
  then show ?case by (simp add: sort_by_Cons sorted_insert_by [OF assms])
qed simp

lemma find_append:
  "find P (xs @ ys) = (case find P xs of None \<Rightarrow> find P ys | Some x \<Rightarrow> Some x)"
  by (induction xs) auto

lemma filter_nth_append: "filter P (xs @ [x]) = filter P xs @ (if P x then [x] else [])"
  by simp

end
