(* ===== verification/Json.thy ===== *)
theory Json
  imports Prelude
begin

text \<open>
  JSON values as the code passes them around (\<open>JSONValue\<close> and \<open>JSONObject\<close> of
  \<open>actant/core.py\<close>), the text \<open>json.dumps\<close> writes and the parser \<open>json.loads\<close> is. A Python
  string is a list of characters with code points below 256; a float is carried as its text, since
  no modelled code computes with one. An object is a dictionary in insertion order.
\<close>

section \<open>Values\<close>

datatype json =
    JNull
  | JBool bool
  | JInt int
  | JFloat string
  | JStr string
  | JList "json list"
  | JObj "(string \<times> json) list"

type_synonym json_obj = "(string \<times> json) list"

section \<open>Printing: json.dumps with its defaults\<close>

definition chr_of :: "nat \<Rightarrow> char" where
  "chr_of n = char_of n"

definition digit_char :: "nat \<Rightarrow> char" where
  "digit_char d = char_of (48 + d)"

function nat_digits :: "nat \<Rightarrow> string" where
  "nat_digits n = (if n < 10 then [digit_char n] else nat_digits (n div 10) @ [digit_char (n mod 10)])"
  by pat_completeness auto
termination
  by (relation "measure id") auto

declare nat_digits.simps [simp del]

definition int_str :: "int \<Rightarrow> string" where
  "int_str i = (if i < 0 then CHR ''-'' # nat_digits (nat (- i)) else nat_digits (nat i))"

definition nat_str :: "nat \<Rightarrow> string" where
  "nat_str n = nat_digits n"

definition hex_char :: "nat \<Rightarrow> char" where
  "hex_char d = (if d < 10 then char_of (48 + d) else char_of (87 + d))"

definition esc_char :: "char \<Rightarrow> string" where
  "esc_char c =
     (if c = CHR 0x22 then [CHR 0x5C, CHR 0x22]
      else if c = CHR 0x5C then [CHR 0x5C, CHR 0x5C]
      else if c = CHR 0x0A then [CHR 0x5C, CHR ''n'']
      else if c = CHR 0x0D then [CHR 0x5C, CHR ''r'']
      else if c = CHR 0x09 then [CHR 0x5C, CHR ''t'']
      else if c = CHR 0x08 then [CHR 0x5C, CHR ''b'']
      else if c = CHR 0x0C then [CHR 0x5C, CHR ''f'']
      else if 32 \<le> (of_char c :: nat) \<and> (of_char c :: nat) \<le> 126 then [c]
      else [CHR 0x5C, CHR ''u'', CHR ''0'', CHR ''0'',
            hex_char (of_char c div 16), hex_char (of_char c mod 16)])"

definition dumps_str :: "string \<Rightarrow> string" where
  "dumps_str s = CHR 0x22 # concat (map esc_char s) @ [CHR 0x22]"

fun join_with :: "string \<Rightarrow> string list \<Rightarrow> string" where
  "join_with sep [] = []"
| "join_with sep [x] = x"
| "join_with sep (x # y # ys) = x @ sep @ join_with sep (y # ys)"

fun json_dumps :: "json \<Rightarrow> string" where
  "json_dumps JNull = ''null''"
| "json_dumps (JBool b) = (if b then ''true'' else ''false'')"
| "json_dumps (JInt i) = int_str i"
| "json_dumps (JFloat f) = f"
| "json_dumps (JStr s) = dumps_str s"
| "json_dumps (JList xs) = CHR ''['' # join_with '', '' (map json_dumps xs) @ '']''"
| "json_dumps (JObj kvs) =
     CHR 0x7B # join_with '', '' (map (\<lambda>(k, v). dumps_str k @ '': '' @ json_dumps v) kvs) @ [CHR 0x7D]"

section \<open>str and bool of a JSON value\<close>

definition repr_str :: "string \<Rightarrow> string" where
  "repr_str s =
     (if CHR 0x27 \<in> set s \<and> CHR 0x22 \<notin> set s then CHR 0x22 # s @ [CHR 0x22]
      else CHR 0x27 # concat (map (\<lambda>c. if c = CHR 0x27 then [CHR 0x5C, c] else
             if c = CHR 0x5C then [c, c] else if c = CHR 0x0A then [CHR 0x5C, CHR ''n''] else [c]) s)
           @ [CHR 0x27])"

fun py_repr :: "json \<Rightarrow> string" where
  "py_repr JNull = ''None''"
| "py_repr (JBool b) = (if b then ''True'' else ''False'')"
| "py_repr (JInt i) = int_str i"
| "py_repr (JFloat f) = f"
| "py_repr (JStr s) = repr_str s"
| "py_repr (JList xs) = CHR ''['' # join_with '', '' (map py_repr xs) @ '']''"
| "py_repr (JObj kvs) =
     CHR 0x7B # join_with '', '' (map (\<lambda>(k, v). repr_str k @ '': '' @ py_repr v) kvs) @ [CHR 0x7D]"

fun py_str :: "json \<Rightarrow> string" where
  "py_str (JStr s) = s"
| "py_str j = py_repr j"

fun truthy :: "json \<Rightarrow> bool" where
  "truthy JNull = False"
| "truthy (JBool b) = b"
| "truthy (JInt i) = (i \<noteq> 0)"
| "truthy (JFloat f) = (f \<noteq> ''0.0'' \<and> f \<noteq> ''-0.0'')"
| "truthy (JStr s) = (s \<noteq> [])"
| "truthy (JList xs) = (xs \<noteq> [])"
| "truthy (JObj kvs) = (kvs \<noteq> [])"

text \<open>\<open>str.strip()\<close>: the Unicode spaces among the first 256 code points.\<close>

definition is_py_space :: "char \<Rightarrow> bool" where
  "is_py_space c \<longleftrightarrow> (let n = of_char c :: nat in
     (9 \<le> n \<and> n \<le> 13) \<or> (28 \<le> n \<and> n \<le> 32) \<or> n = 133 \<or> n = 160)"

definition py_strip :: "string \<Rightarrow> string" where
  "py_strip s = rev (dropWhile is_py_space (rev (dropWhile is_py_space s)))"

section \<open>Parsing: json.loads\<close>

definition is_ws :: "char \<Rightarrow> bool" where
  "is_ws c \<longleftrightarrow> c = CHR '' '' \<or> c = CHR 0x09 \<or> c = CHR 0x0A \<or> c = CHR 0x0D"

fun skip_ws :: "string \<Rightarrow> string" where
  "skip_ws [] = []"
| "skip_ws (c # cs) = (if is_ws c then skip_ws cs else c # cs)"

definition is_digit :: "char \<Rightarrow> bool" where
  "is_digit c \<longleftrightarrow> 48 \<le> (of_char c :: nat) \<and> (of_char c :: nat) \<le> 57"

definition digit_val :: "char \<Rightarrow> nat" where
  "digit_val c = of_char c - 48"

fun digits_val :: "nat \<Rightarrow> string \<Rightarrow> nat" where
  "digits_val acc [] = acc"
| "digits_val acc (c # cs) = digits_val (10 * acc + digit_val c) cs"

definition hex_val :: "char \<Rightarrow> nat option" where
  "hex_val c =
     (let n = of_char c in
      if 48 \<le> n \<and> n \<le> 57 then Some (n - 48)
      else if 97 \<le> n \<and> n \<le> 102 then Some (n - 87)
      else if 65 \<le> n \<and> n \<le> 70 then Some (n - 55)
      else None)"

text \<open>The rest of a string after its opening quote. An escape above code point 255 has no character
  in this model and is refused.\<close>

fun scan_str :: "string \<Rightarrow> string \<Rightarrow> (string \<times> string) option" where
  "scan_str acc [] = None"
| "scan_str acc (c # cs) =
     (if c = CHR 0x22 then Some (rev acc, cs)
      else if c = CHR 0x5C then
        (case cs of
          [] \<Rightarrow> None
        | e # es \<Rightarrow>
            (if e = CHR 0x22 \<or> e = CHR 0x5C \<or> e = CHR ''/'' then scan_str (e # acc) es
             else if e = CHR ''n'' then scan_str (CHR 0x0A # acc) es
             else if e = CHR ''r'' then scan_str (CHR 0x0D # acc) es
             else if e = CHR ''t'' then scan_str (CHR 0x09 # acc) es
             else if e = CHR ''b'' then scan_str (CHR 0x08 # acc) es
             else if e = CHR ''f'' then scan_str (CHR 0x0C # acc) es
             else if e = CHR ''u'' then
               (case es of
                 a # b # x # y # fs \<Rightarrow>
                   (case (hex_val a, hex_val b, hex_val x, hex_val y) of
                     (Some 0, Some 0, Some h, Some l) \<Rightarrow> scan_str (char_of (16 * h + l) # acc) fs
                   | _ \<Rightarrow> None)
               | _ \<Rightarrow> None)
             else None))
      else if (of_char c :: nat) < 32 then None
      else scan_str (c # acc) cs)"

definition scan_frac :: "string \<Rightarrow> string \<times> string" where
  "scan_frac s = (case s of
      c # cs \<Rightarrow> (if c = CHR ''.'' \<and> takeWhile is_digit cs \<noteq> []
                then (c # takeWhile is_digit cs, dropWhile is_digit cs) else ([], s))
    | [] \<Rightarrow> ([], s))"

definition scan_sign :: "string \<Rightarrow> string \<times> string" where
  "scan_sign cs = (case cs of c # ds \<Rightarrow> (if c = CHR ''+'' \<or> c = CHR ''-'' then ([c], ds) else ([], cs)) | [] \<Rightarrow> ([], cs))"

definition scan_exp :: "string \<Rightarrow> string \<times> string" where
  "scan_exp s = (case s of
      e # cs \<Rightarrow> (if e = CHR ''e'' \<or> e = CHR ''E'' then
          (let (sg, ds) = scan_sign cs
           in if takeWhile is_digit ds \<noteq> []
              then (e # sg @ takeWhile is_digit ds, dropWhile is_digit ds) else ([], s))
        else ([], s))
    | [] \<Rightarrow> ([], s))"

definition scan_int :: "string \<Rightarrow> string \<times> string" where
  "scan_int t = (case t of
      c # cs \<Rightarrow> (if c = CHR ''0'' then ([c], cs) else (takeWhile is_digit t, dropWhile is_digit t))
    | [] \<Rightarrow> ([], t))"

definition scan_num :: "string \<Rightarrow> (json \<times> string) option" where
  "scan_num s =
     (let (neg, t) = (case s of c # cs \<Rightarrow> (if c = CHR ''-'' then (True, cs) else (False, s)) | [] \<Rightarrow> (False, s));
          (ds, u) = scan_int t;
          (fr, v) = scan_frac u;
          (ex, w) = scan_exp v
      in if ds = [] then None
         else if fr = [] \<and> ex = []
           then Some (JInt (if neg then - int (digits_val 0 ds) else int (digits_val 0 ds)), w)
         else Some (JFloat ((if neg then ''-'' else []) @ ds @ fr @ ex), w))"

text \<open>Each nested value spends one unit of fuel; \<open>json_loads\<close> starts with more than the input has
  characters.\<close>

fun scan :: "nat \<Rightarrow> string \<Rightarrow> (json \<times> string) option"
  and scan_elems :: "nat \<Rightarrow> json list \<Rightarrow> string \<Rightarrow> (json \<times> string) option"
  and scan_members :: "nat \<Rightarrow> json_obj \<Rightarrow> string \<Rightarrow> (json \<times> string) option"
where
  "scan 0 s = None"
| "scan (Suc n) s =
     (case s of
       [] \<Rightarrow> None
     | c # cs \<Rightarrow>
        (if c = CHR 0x22 then map_option (\<lambda>(t, r). (JStr t, r)) (scan_str [] cs)
         else if c = CHR 0x7B then
           (case skip_ws cs of
              d # ds \<Rightarrow> (if d = CHR 0x7D then Some (JObj [], ds) else scan_members n [] (d # ds))
            | [] \<Rightarrow> None)
         else if c = CHR ''['' then
           (case skip_ws cs of
              d # ds \<Rightarrow> (if d = CHR '']'' then Some (JList [], ds) else scan_elems n [] (d # ds))
            | [] \<Rightarrow> None)
         else if take 4 s = ''null'' then Some (JNull, drop 4 s)
         else if take 4 s = ''true'' then Some (JBool True, drop 4 s)
         else if take 5 s = ''false'' then Some (JBool False, drop 5 s)
         else if take 3 s = ''NaN'' then Some (JFloat ''NaN'', drop 3 s)
         else if take 8 s = ''Infinity'' then Some (JFloat ''Infinity'', drop 8 s)
         else if take 9 s = ''-Infinity'' then Some (JFloat ''-Infinity'', drop 9 s)
         else scan_num s))"
| "scan_elems 0 acc s = None"
| "scan_elems (Suc n) acc s =
     (case scan n s of
       None \<Rightarrow> None
     | Some (j, r) \<Rightarrow>
        (case skip_ws r of
           [] \<Rightarrow> None
         | d # ds \<Rightarrow>
            (if d = CHR '']'' then Some (JList (rev (j # acc)), ds)
             else if d = CHR '','' then scan_elems n (j # acc) (skip_ws ds)
             else None)))"
| "scan_members 0 acc s = None"
| "scan_members (Suc n) acc s =
     (case s of
       [] \<Rightarrow> None
     | q # qs \<Rightarrow>
        (if q \<noteq> CHR 0x22 then None
         else (case scan_str [] qs of
            None \<Rightarrow> None
          | Some (k, r) \<Rightarrow>
             (case skip_ws r of
                [] \<Rightarrow> None
              | d # ds \<Rightarrow>
                 (if d \<noteq> CHR '':'' then None
                  else (case scan n (skip_ws ds) of
                     None \<Rightarrow> None
                   | Some (v, r') \<Rightarrow>
                      (case skip_ws r' of
                         [] \<Rightarrow> None
                       | e # es \<Rightarrow>
                          (if e = CHR 0x7D then Some (JObj (dset k v acc), es)
                           else if e = CHR '','' then scan_members n (dset k v acc) (skip_ws es)
                           else None))))))))"

text \<open>\<open>None\<close> is \<open>JSONDecodeError\<close>.\<close>

definition json_loads :: "string \<Rightarrow> json option" where
  "json_loads s =
     (case scan (2 * length s + 2) (skip_ws s) of
        None \<Rightarrow> None
      | Some (j, r) \<Rightarrow> (if skip_ws r = [] then Some j else None))"

lemma loads_examples:
  "json_loads ''{}'' = Some (JObj [])"
  "json_loads [] = None"
  "json_loads (json_dumps (JObj [(''a'', JInt (-12)), (''b'', JList [JNull, JBool True, JStr ''x y''])]))
     = Some (JObj [(''a'', JInt (-12)), (''b'', JList [JNull, JBool True, JStr ''x y''])])"
  by code_simp+

end
