(* ===== verification/Messages.thy ===== *)
theory Messages
  imports Json
begin

text \<open>
  The provider-neutral message of \<open>actant/llm/messages.py\<close> and the content blocks of
  \<open>actant/blocks.py\<close>: the dataclasses as records, the block union as a datatype, and the
  conversions \<open>from_raw\<close> and \<open>to_dict\<close>. \<open>deepcopy\<close> is the identity, values being immutable here.
  The dictionaries a message is read from hold JSON values. A field the code only \<open>cast\<close>s (no check at
  run time) and that holds a value of another type is outside the model, and is an error in it.
\<close>

section \<open>Blocks\<close>

record compaction_block =
  cb_summary :: string
  cb_kept :: "string list"
  cb_reason :: string
  cb_tokens_before :: int
  cb_tokens_after :: int
  cb_images_before :: int
  cb_images_after :: int

datatype block =
    TextBlock string
  | AssetBlock string string "string option"
  | InlineImageBlock string string
  | UrlImageBlock string string
  | CompactionBlock compaction_block

text \<open>The patterns of the \<open>mime\<close> fields: \<open>^[\w.+-]+/[\w.+-]+$\<close> and \<open>^image/[\w.+-]+$\<close>.\<close>

definition is_word_char :: "char \<Rightarrow> bool" where
  "is_word_char c =
     (let n = of_char c :: nat in
      (48 \<le> n \<and> n \<le> 57) \<or> (65 \<le> n \<and> n \<le> 90) \<or> (97 \<le> n \<and> n \<le> 122) \<or> n = 95
      \<or> n = 170 \<or> n = 181 \<or> n = 186 \<or> (192 \<le> n \<and> n \<noteq> 215 \<and> n \<noteq> 247))"

definition is_mime_char :: "char \<Rightarrow> bool" where
  "is_mime_char c \<longleftrightarrow> is_word_char c \<or> c = CHR ''.'' \<or> c = CHR ''+'' \<or> c = CHR ''-''"

definition mime_token :: "string \<Rightarrow> bool" where
  "mime_token s \<longleftrightarrow> s \<noteq> [] \<and> list_all is_mime_char s"

definition valid_mime :: "string \<Rightarrow> bool" where
  "valid_mime s =
     (case dropWhile (\<lambda>c. c \<noteq> CHR ''/'') s of
        [] \<Rightarrow> False
      | _ # rest \<Rightarrow> mime_token (takeWhile (\<lambda>c. c \<noteq> CHR ''/'') s) \<and> mime_token rest)"

definition valid_image_mime :: "string \<Rightarrow> bool" where
  "valid_image_mime s \<longleftrightarrow> take 6 s = ''image/'' \<and> mime_token (drop 6 s)"

text \<open>The field constraints \<open>pydantic\<close> enforces when a block is built.\<close>

fun block_ok :: "block \<Rightarrow> bool" where
  "block_ok (AssetBlock key mime _) = (key \<noteq> [] \<and> valid_mime mime)"
| "block_ok (InlineImageBlock media _) = valid_image_mime media"
| "block_ok _ = True"

text \<open>\<open>isinstance(block, AssetBlock) and block.mime.startswith("image/")\<close> and the other kinds an image
  can be.\<close>

definition starts_with :: "string \<Rightarrow> string \<Rightarrow> bool" where
  "starts_with p s \<longleftrightarrow> take (length p) s = p"

text \<open>\<open>dump_python(mode="json")\<close> of one block: every declared field, in the declared order.\<close>

definition jopt :: "string option \<Rightarrow> json" where
  "jopt x = (case x of None \<Rightarrow> JNull | Some s \<Rightarrow> JStr s)"

fun block_to_json :: "block \<Rightarrow> json" where
  "block_to_json (TextBlock t) = JObj [(''type'', JStr ''text''), (''text'', JStr t)]"
| "block_to_json (AssetBlock key mime pid) =
     JObj [(''type'', JStr ''asset''), (''storage_key'', JStr key), (''mime'', JStr mime),
           (''asset_public_id'', jopt pid)]"
| "block_to_json (InlineImageBlock media data) =
     JObj [(''type'', JStr ''image''),
           (''source'', JObj [(''type'', JStr ''base64''), (''media_type'', JStr media),
                              (''data'', JStr data)])]"
| "block_to_json (UrlImageBlock url media) =
     JObj [(''type'', JStr ''image_url''), (''url'', JStr url), (''media_type'', JStr media)]"
| "block_to_json (CompactionBlock c) =
     JObj [(''type'', JStr ''compaction''), (''summary'', JStr (cb_summary c)),
           (''kept'', JList (map JStr (cb_kept c))), (''reason'', JStr (cb_reason c)),
           (''tokens_before'', JInt (cb_tokens_before c)), (''tokens_after'', JInt (cb_tokens_after c)),
           (''images_before'', JInt (cb_images_before c)), (''images_after'', JInt (cb_images_after c))]"

text \<open>
  \<open>validate_python\<close> of one dictionary: the discriminator picks the class, unknown keys are refused
  (\<open>extra="forbid"\<close>), every constraint is checked. \<open>as_int\<close> is \<open>pydantic\<close>'s reading of an \<open>int\<close>
  field, which accepts more than integers and is not code of the repository.
\<close>

definition invalid :: "py_error" where
  "invalid = OtherException ''ValidationError'' ''invalid block''"

definition only_keys :: "string list \<Rightarrow> json_obj \<Rightarrow> bool" where
  "only_keys ks d = list_all (\<lambda>k. k \<in> set ks) (dkeys d)"

definition field_str :: "json_obj \<Rightarrow> string \<Rightarrow> py_error + string" where
  "field_str d k = (case dget d k of Some (JStr s) \<Rightarrow> Inr s | _ \<Rightarrow> Inl invalid)"

definition field_opt_str :: "json_obj \<Rightarrow> string \<Rightarrow> py_error + string option" where
  "field_opt_str d k = (case dget d k of
      None \<Rightarrow> Inr None | Some JNull \<Rightarrow> Inr None | Some (JStr s) \<Rightarrow> Inr (Some s) | _ \<Rightarrow> Inl invalid)"

definition field_int :: "(json \<Rightarrow> int option) \<Rightarrow> json_obj \<Rightarrow> string \<Rightarrow> py_error + int" where
  "field_int as_int d k = (case dget d k of
      None \<Rightarrow> Inl invalid
    | Some j \<Rightarrow> (case as_int j of None \<Rightarrow> Inl invalid | Some i \<Rightarrow> Inr i))"

definition json_as_str :: "json \<Rightarrow> py_error + string" where
  "json_as_str j = (case j of JStr s \<Rightarrow> Inr s | _ \<Rightarrow> Inl invalid)"

definition field_kept :: "json_obj \<Rightarrow> py_error + string list" where
  "field_kept d = (case dget d ''kept'' of
      None \<Rightarrow> Inr [] | Some (JList js) \<Rightarrow> try_map json_as_str js | _ \<Rightarrow> Inl invalid)"

definition read_source :: "json_obj \<Rightarrow> py_error + string \<times> string" where
  "read_source d =
     (if \<not> only_keys [''type'', ''media_type'', ''data''] d then Inl invalid
      else if dget d ''type'' \<notin> {None, Some (JStr ''base64'')} then Inl invalid
      else try_bind (field_str d ''media_type'') (\<lambda>m. try_bind (field_str d ''data'') (\<lambda>b.
        if valid_image_mime m then Inr (m, b) else Inl invalid)))"

definition read_compaction :: "(json \<Rightarrow> int option) \<Rightarrow> json_obj \<Rightarrow> py_error + block" where
  "read_compaction as_int d =
     (if \<not> only_keys [''type'', ''summary'', ''kept'', ''reason'', ''tokens_before'', ''tokens_after'',
                       ''images_before'', ''images_after''] d then Inl invalid
      else try_bind (field_str d ''summary'') (\<lambda>s. try_bind (field_kept d) (\<lambda>k.
        try_bind (field_str d ''reason'') (\<lambda>r.
        try_bind (field_int as_int d ''tokens_before'') (\<lambda>tb.
        try_bind (field_int as_int d ''tokens_after'') (\<lambda>ta.
        try_bind (field_int as_int d ''images_before'') (\<lambda>ib.
        try_bind (field_int as_int d ''images_after'') (\<lambda>ia.
        Inr (CompactionBlock \<lparr>cb_summary = s, cb_kept = k, cb_reason = r, cb_tokens_before = tb,
              cb_tokens_after = ta, cb_images_before = ib, cb_images_after = ia\<rparr>)))))))))"

definition block_from_json :: "(json \<Rightarrow> int option) \<Rightarrow> json \<Rightarrow> py_error + block" where
  "block_from_json as_int j = (case j of
     JObj d \<Rightarrow>
      (case dget d ''type'' of
        Some (JStr t) \<Rightarrow>
         (if t = ''text'' then
            (if \<not> only_keys [''type'', ''text''] d then Inl invalid
             else try_bind (field_str d ''text'') (\<lambda>s. Inr (TextBlock s)))
          else if t = ''asset'' then
            (if \<not> only_keys [''type'', ''storage_key'', ''mime'', ''asset_public_id''] d then Inl invalid
             else try_bind (field_str d ''storage_key'') (\<lambda>key. try_bind (field_str d ''mime'') (\<lambda>m.
               try_bind (field_opt_str d ''asset_public_id'') (\<lambda>p.
               if key \<noteq> [] \<and> valid_mime m then Inr (AssetBlock key m p) else Inl invalid))))
          else if t = ''image'' then
            (if \<not> only_keys [''type'', ''source''] d then Inl invalid
             else (case dget d ''source'' of
                Some (JObj src) \<Rightarrow> try_bind (read_source src) (\<lambda>(m, b). Inr (InlineImageBlock m b))
              | _ \<Rightarrow> Inl invalid))
          else if t = ''image_url'' then
            (if \<not> only_keys [''type'', ''url'', ''media_type''] d then Inl invalid
             else try_bind (field_str d ''url'') (\<lambda>u. try_bind (field_str d ''media_type'') (\<lambda>m.
               Inr (UrlImageBlock u m))))
          else if t = ''compaction'' then read_compaction as_int d
          else Inl invalid)
      | _ \<Rightarrow> Inl invalid)
   | _ \<Rightarrow> Inl invalid)"

section \<open>Tool calls of an assistant message\<close>

record tool_fn =
  fn_name :: string
  fn_arguments :: string

record tool_call =
  tc_id :: string
  tc_function :: tool_fn
  tc_type :: string
  tc_thought_signature :: "string option"
  tc_extra_content :: json_obj

text \<open>The argument of a \<open>from_raw\<close>: an instance of the class, or another value.\<close>

datatype 'a raw = Instance 'a | Raw json

fun json_type_name :: "json \<Rightarrow> string" where
  "json_type_name JNull = ''NoneType''"
| "json_type_name (JBool _) = ''bool''"
| "json_type_name (JInt _) = ''int''"
| "json_type_name (JFloat _) = ''float''"
| "json_type_name (JStr _) = ''str''"
| "json_type_name (JList _) = ''list''"
| "json_type_name (JObj _) = ''dict''"

text \<open>\<open>value.get(k, default)\<close>.\<close>

definition jget :: "json_obj \<Rightarrow> string \<Rightarrow> json \<Rightarrow> json" where
  "jget d k dflt = (case dget d k of None \<Rightarrow> dflt | Some j \<Rightarrow> j)"

definition tool_fn_from_raw :: "tool_fn raw \<Rightarrow> py_error + tool_fn" where
  "tool_fn_from_raw v = (case v of
      Instance f \<Rightarrow> Inr \<lparr>fn_name = fn_name f, fn_arguments = fn_arguments f\<rparr>
    | Raw (JObj d) \<Rightarrow>
        (let arguments = (case jget d ''arguments'' (JStr []) of
               JNull \<Rightarrow> [] | JStr s \<Rightarrow> s | j \<Rightarrow> json_dumps j);
             name = (case jget d ''name'' (JStr []) of JNull \<Rightarrow> [] | j \<Rightarrow> py_str j)
         in Inr \<lparr>fn_name = name, fn_arguments = arguments\<rparr>)
    | Raw j \<Rightarrow> Inl (TypeError (''Expected ToolCallFunction or dict, got '' @ json_type_name j)))"

definition tool_fn_to_dict :: "tool_fn \<Rightarrow> json" where
  "tool_fn_to_dict f = JObj [(''name'', JStr (fn_name f)), (''arguments'', JStr (fn_arguments f))]"

definition tool_call_from_raw :: "tool_call raw \<Rightarrow> py_error + tool_call" where
  "tool_call_from_raw v = (case v of
      Instance c \<Rightarrow> try_bind (tool_fn_from_raw (Instance (tc_function c))) (\<lambda>f.
        Inr \<lparr>tc_id = tc_id c, tc_function = f, tc_type = tc_type c,
             tc_thought_signature = tc_thought_signature c, tc_extra_content = tc_extra_content c\<rparr>)
    | Raw (JObj d) \<Rightarrow> try_bind (tool_fn_from_raw (Raw (jget d ''function'' (JObj [])))) (\<lambda>f.
        Inr \<lparr>tc_id = (case jget d ''id'' (JStr []) of JNull \<Rightarrow> [] | j \<Rightarrow> py_str j),
             tc_function = f,
             tc_type = (case jget d ''type'' (JStr ''function'') of JNull \<Rightarrow> ''function'' | j \<Rightarrow> py_str j),
             tc_thought_signature = (case jget d ''thought_signature'' JNull of
                JNull \<Rightarrow> None | j \<Rightarrow> Some (py_str j)),
             tc_extra_content = (case jget d ''extra_content'' (JObj []) of JObj e \<Rightarrow> e | _ \<Rightarrow> [])\<rparr>)
    | Raw j \<Rightarrow> Inl (TypeError (''Expected ToolCall or dict, got '' @ json_type_name j)))"

definition tool_call_to_dict :: "tool_call \<Rightarrow> json" where
  "tool_call_to_dict c = JObj
     ([(''id'', JStr (tc_id c)), (''function'', tool_fn_to_dict (tc_function c))]
      @ (if tc_type c \<noteq> ''function'' then [(''type'', JStr (tc_type c))] else [])
      @ (case tc_thought_signature c of None \<Rightarrow> [] | Some s \<Rightarrow> [(''thought_signature'', JStr s)])
      @ (if tc_extra_content c \<noteq> [] then [(''extra_content'', JObj (tc_extra_content c))] else []))"

section \<open>Messages\<close>

datatype content = NoContent | Text string | Blocks "block list"

datatype kind = KMessage | KCompaction

record message =
  m_role :: string
  m_content :: content
  m_tool_calls :: "tool_call list option"
  m_tool_call_id :: "string option"
  m_name :: "string option"
  m_thought_summary :: "string option"
  m_thinking_signature :: "string option"
  m_reasoning_items :: "json list option"
  m_input_tokens :: "int option"
  m_output_tokens :: "int option"
  m_cache_read_tokens :: "int option"
  m_cache_write_tokens :: "int option"
  m_kind :: kind
  m_tag :: "string option"
  m_id :: "string option"

text \<open>\<open>Message(role=..., content=...)\<close> with the other fields at their defaults.\<close>

definition new_message :: "string \<Rightarrow> content \<Rightarrow> message" where
  "new_message role c = \<lparr>m_role = role, m_content = c, m_tool_calls = None, m_tool_call_id = None,
     m_name = None, m_thought_summary = None, m_thinking_signature = None, m_reasoning_items = None,
     m_input_tokens = None, m_output_tokens = None, m_cache_read_tokens = None,
     m_cache_write_tokens = None, m_kind = KMessage, m_tag = None, m_id = None\<rparr>"

text \<open>\<open>==\<close> of the dataclass: \<open>id\<close> does not take part (\<open>compare=False\<close>).\<close>

definition msg_eq :: "message \<Rightarrow> message \<Rightarrow> bool" where
  "msg_eq a b \<longleftrightarrow> a\<lparr>m_id := None\<rparr> = b\<lparr>m_id := None\<rparr>"

definition total_tokens :: "message \<Rightarrow> int option" where
  "total_tokens m =
     (if m_input_tokens m = None \<and> m_output_tokens m = None then None
      else Some (case_option 0 id (m_input_tokens m) + case_option 0 id (m_output_tokens m)))"

text \<open>\<open>str.isdigit\<close> also holds of the superscripts 1, 2 and 3, which \<open>int\<close> refuses; \<open>int\<close> takes one
  sign at most.\<close>

definition py_isdigit :: "string \<Rightarrow> bool" where
  "py_isdigit s \<longleftrightarrow> s \<noteq> [] \<and>
     list_all (\<lambda>c. is_digit c \<or> c = CHR 0xB2 \<or> c = CHR 0xB3 \<or> c = CHR 0xB9) s"

definition py_int :: "string \<Rightarrow> py_error + int" where
  "py_int s =
     (let (neg, ds) = (case s of c # cs \<Rightarrow> (if c = CHR ''-'' then (True, cs) else (False, s)) | [] \<Rightarrow> (False, s))
      in if ds \<noteq> [] \<and> list_all is_digit ds
         then Inr (if neg then - int (digits_val 0 ds) else int (digits_val 0 ds))
         else Inl (ValueError (''invalid literal for int() with base 10: '' @ repr_str s)))"

definition optional_int :: "json \<Rightarrow> py_error + int option" where
  "optional_int v = (case v of
      JInt i \<Rightarrow> Inr (Some i)
    | JStr s \<Rightarrow> (if py_isdigit (dropWhile (\<lambda>c. c = CHR ''-'') s)
                then try_bind (py_int s) (\<lambda>i. Inr (Some i)) else Inr None)
    | _ \<Rightarrow> Inr None)"

text \<open>A field read with \<open>cast(str | None, value.get(k))\<close>.\<close>

definition cast_opt_str :: "json_obj \<Rightarrow> string \<Rightarrow> py_error + string option" where
  "cast_opt_str d k = (case jget d k JNull of
      JNull \<Rightarrow> Inr None | JStr s \<Rightarrow> Inr (Some s) | _ \<Rightarrow> Inl (TypeError ''ill-typed field''))"

definition cast_role :: "json_obj \<Rightarrow> py_error + string" where
  "cast_role d = (case jget d ''role'' (JStr ''user'') of
      JStr s \<Rightarrow> Inr s | _ \<Rightarrow> Inl (TypeError ''ill-typed field''))"

definition read_content :: "(json \<Rightarrow> int option) \<Rightarrow> json \<Rightarrow> py_error + content" where
  "read_content as_int j = (case j of
      JList js \<Rightarrow> try_bind (try_map (block_from_json as_int) js) (\<lambda>bs. Inr (Blocks bs))
    | JNull \<Rightarrow> Inr NoContent
    | v \<Rightarrow> Inr (Text (py_str v)))"

definition content_to_json :: "content \<Rightarrow> json" where
  "content_to_json c = (case c of
      NoContent \<Rightarrow> JNull | Text s \<Rightarrow> JStr s | Blocks bs \<Rightarrow> JList (map block_to_json bs))"

definition read_tool_calls :: "json \<Rightarrow> py_error + tool_call list option" where
  "read_tool_calls j = (case j of
      JList js \<Rightarrow> try_bind (try_map (\<lambda>j. tool_call_from_raw (Raw j)) js) (\<lambda>cs. Inr (Some cs))
    | _ \<Rightarrow> Inr None)"

definition message_from_dict :: "(json \<Rightarrow> int option) \<Rightarrow> json_obj \<Rightarrow> py_error + message" where
  "message_from_dict as_int d =
     try_bind (cast_role d) (\<lambda>role.
     try_bind (read_content as_int (jget d ''content'' (JStr []))) (\<lambda>content.
     try_bind (read_tool_calls (jget d ''tool_calls'' JNull)) (\<lambda>calls.
     try_bind (cast_opt_str d ''tool_call_id'') (\<lambda>call_id.
     try_bind (cast_opt_str d ''name'') (\<lambda>name.
     try_bind (cast_opt_str d ''thought_summary'') (\<lambda>summary.
     try_bind (cast_opt_str d ''thinking_signature'') (\<lambda>signature.
     try_bind (optional_int (jget d ''input_tokens'' JNull)) (\<lambda>it.
     try_bind (optional_int (jget d ''output_tokens'' JNull)) (\<lambda>ot.
     try_bind (optional_int (jget d ''cache_read_tokens'' JNull)) (\<lambda>cr.
     try_bind (optional_int (jget d ''cache_write_tokens'' JNull)) (\<lambda>cw.
     try_bind (cast_opt_str d ''tag'') (\<lambda>tag.
     Inr \<lparr>m_role = role, m_content = content, m_tool_calls = calls, m_tool_call_id = call_id,
          m_name = name, m_thought_summary = summary, m_thinking_signature = signature,
          m_reasoning_items = (case jget d ''reasoning_items'' JNull of JList js \<Rightarrow> Some js | _ \<Rightarrow> None),
          m_input_tokens = it, m_output_tokens = ot, m_cache_read_tokens = cr,
          m_cache_write_tokens = cw,
          m_kind = (if jget d ''kind'' JNull = JStr ''compaction'' then KCompaction else KMessage),
          m_tag = tag, m_id = None\<rparr>))))))))))))"

definition message_from_raw :: "(json \<Rightarrow> int option) \<Rightarrow> message raw \<Rightarrow> py_error + message" where
  "message_from_raw as_int v = (case v of
      Instance m \<Rightarrow>
        try_bind (case m_tool_calls m of
             None \<Rightarrow> Inr None
           | Some cs \<Rightarrow> try_bind (try_map (\<lambda>c. tool_call_from_raw (Instance c)) cs) (\<lambda>cs. Inr (Some cs)))
         (\<lambda>calls. Inr (m\<lparr>m_tool_calls := calls\<rparr>))
    | Raw (JObj d) \<Rightarrow> message_from_dict as_int d
    | Raw j \<Rightarrow> Inl (TypeError (''Expected Message or dict, got '' @ json_type_name j)))"

definition opt_field :: "string \<Rightarrow> ('a \<Rightarrow> json) \<Rightarrow> 'a option \<Rightarrow> json_obj" where
  "opt_field k f x = (case x of None \<Rightarrow> [] | Some a \<Rightarrow> [(k, f a)])"

definition message_to_dict :: "message \<Rightarrow> json_obj" where
  "message_to_dict m =
     [(''role'', JStr (m_role m)), (''content'', content_to_json (m_content m))]
     @ opt_field ''tool_calls'' (\<lambda>cs. JList (map tool_call_to_dict cs)) (m_tool_calls m)
     @ opt_field ''tool_call_id'' JStr (m_tool_call_id m)
     @ opt_field ''name'' JStr (m_name m)
     @ opt_field ''thought_summary'' JStr (m_thought_summary m)
     @ opt_field ''thinking_signature'' JStr (m_thinking_signature m)
     @ opt_field ''reasoning_items'' JList (m_reasoning_items m)
     @ opt_field ''input_tokens'' JInt (m_input_tokens m)
     @ opt_field ''output_tokens'' JInt (m_output_tokens m)
     @ opt_field ''cache_read_tokens'' JInt (m_cache_read_tokens m)
     @ opt_field ''cache_write_tokens'' JInt (m_cache_write_tokens m)
     @ (if m_kind m \<noteq> KMessage then [(''kind'', JStr ''compaction'')] else [])
     @ opt_field ''tag'' JStr (m_tag m)"

section \<open>Round trips\<close>

definition content_ok :: "content \<Rightarrow> bool" where
  "content_ok c = (case c of Blocks bs \<Rightarrow> list_all block_ok bs | _ \<Rightarrow> True)"

lemma json_as_str_map: "try_map json_as_str (map JStr xs) = Inr xs"
  by (induction xs) (simp_all add: json_as_str_def)

lemmas block_field_defs =
  only_keys_def field_str_def field_opt_str_def field_int_def field_kept_def jopt_def

lemma block_round_trip:
  assumes "\<And>i. as_int (JInt i) = Some i" and "block_ok b"
  shows "block_from_json as_int (block_to_json b) = Inr b"
proof (cases b)
  case (AssetBlock k m p)
  with assms(2) show ?thesis
    by (cases p) (simp_all add: block_from_json_def block_field_defs)
qed (use assms in \<open>simp_all add: block_from_json_def read_source_def read_compaction_def
       json_as_str_map block_field_defs\<close>)

lemma content_round_trip:
  assumes "\<And>i. as_int (JInt i) = Some i" and "content_ok c"
  shows "read_content as_int (content_to_json c) = Inr c"
proof (cases c)
  case (Blocks bs)
  with assms(2) have "list_all block_ok bs" by (simp add: content_ok_def)
  then have "try_map (block_from_json as_int) (map block_to_json bs) = Inr bs"
    by (induction bs) (simp_all add: block_round_trip [OF assms(1)])
  with Blocks show ?thesis by (simp add: read_content_def content_to_json_def)
qed (simp_all add: read_content_def content_to_json_def)

lemma tool_fn_round_trip: "tool_fn_from_raw (Raw (tool_fn_to_dict f)) = Inr f"
  by (simp add: tool_fn_from_raw_def tool_fn_to_dict_def jget_def)

lemma tool_call_round_trip: "tool_call_from_raw (Raw (tool_call_to_dict c)) = Inr c"
  by (cases "tc_thought_signature c")
    (simp_all add: tool_call_from_raw_def tool_call_to_dict_def tool_fn_round_trip jget_def)

lemma tool_calls_round_trip:
  "try_map (\<lambda>j. tool_call_from_raw (Raw j)) (map tool_call_to_dict cs) = Inr cs"
  by (induction cs) (simp_all add: tool_call_round_trip)

text \<open>Looking up a key in a concatenation of optional fields.\<close>

lemma map_of_opt_field [simp]:
  "map_of (opt_field k f x @ d) k' =
     (if k' = k then (case x of None \<Rightarrow> map_of d k' | Some a \<Rightarrow> Some (f a)) else map_of d k')"
  by (simp add: opt_field_def split: option.split)

lemma map_of_opt_field_last [simp]:
  "map_of (opt_field k f x) k' = (if k' = k then map_option f x else None)"
  by (simp add: opt_field_def split: option.split)

lemma map_of_if_append [simp]:
  "map_of ((if b then [(k, v)] else []) @ d) k' = (if b \<and> k' = k then Some v else map_of d k')"
  by simp

lemma jget_simps:
  "jget d k v = (case map_of d k of None \<Rightarrow> v | Some j \<Rightarrow> j)"
  by (rule jget_def)

lemma to_dict_opt_str:
  assumes "map_of d k = map_option JStr x"
  shows "cast_opt_str d k = Inr x"
  using assms by (cases x) (simp_all add: cast_opt_str_def jget_def)

lemma to_dict_opt_int:
  assumes "map_of d k = map_option JInt x"
  shows "optional_int (jget d k JNull) = Inr x"
  using assms by (cases x) (simp_all add: optional_int_def jget_def)

lemma to_dict_lookup:
  fixes m :: message
  defines "d \<equiv> message_to_dict m"
  shows "map_of d ''role'' = Some (JStr (m_role m))"
    and "map_of d ''content'' = Some (content_to_json (m_content m))"
    and "map_of d ''tool_calls'' = map_option (\<lambda>cs. JList (map tool_call_to_dict cs)) (m_tool_calls m)"
    and "map_of d ''tool_call_id'' = map_option JStr (m_tool_call_id m)"
    and "map_of d ''name'' = map_option JStr (m_name m)"
    and "map_of d ''thought_summary'' = map_option JStr (m_thought_summary m)"
    and "map_of d ''thinking_signature'' = map_option JStr (m_thinking_signature m)"
    and "map_of d ''reasoning_items'' = map_option JList (m_reasoning_items m)"
    and "map_of d ''input_tokens'' = map_option JInt (m_input_tokens m)"
    and "map_of d ''output_tokens'' = map_option JInt (m_output_tokens m)"
    and "map_of d ''cache_read_tokens'' = map_option JInt (m_cache_read_tokens m)"
    and "map_of d ''cache_write_tokens'' = map_option JInt (m_cache_write_tokens m)"
    and "map_of d ''kind'' = (if m_kind m = KMessage then None else Some (JStr ''compaction''))"
    and "map_of d ''tag'' = map_option JStr (m_tag m)"
  unfolding d_def message_to_dict_def by (simp_all del: map_of_append split: option.split)

lemma read_tool_calls_to_dict:
  "map_of d ''tool_calls'' = map_option (\<lambda>cs. JList (map tool_call_to_dict cs)) x \<Longrightarrow>
   read_tool_calls (jget d ''tool_calls'' JNull) = Inr x"
  by (cases x) (simp_all add: read_tool_calls_def jget_def tool_calls_round_trip)

text \<open>A message written with \<open>to_dict\<close> and read back with \<open>from_raw\<close> is the same message in the
  sense of its \<open>==\<close>: every field but \<open>id\<close>, tool calls, blocks, token counts and compaction rows
  included, for any content whose blocks satisfy their field constraints.\<close>

theorem message_round_trip:
  assumes "\<And>i. as_int (JInt i) = Some i" and "content_ok (m_content m)"
  shows "\<exists>m'. message_from_raw as_int (Raw (JObj (message_to_dict m))) = Inr m' \<and> msg_eq m' m
              \<and> m_id m' = None"
proof -
  let ?d = "message_to_dict m"
  note look = to_dict_lookup [of m]
  have "cast_role ?d = Inr (m_role m)" by (simp add: cast_role_def jget_def look)
  moreover have "read_content as_int (jget ?d ''content'' (JStr [])) = Inr (m_content m)"
    using content_round_trip [OF assms] by (simp add: jget_def look)
  moreover have "(case jget ?d ''reasoning_items'' JNull of JList js \<Rightarrow> Some js | _ \<Rightarrow> None)
      = m_reasoning_items m"
    by (cases "m_reasoning_items m") (simp_all add: jget_def look)
  moreover have "(if jget ?d ''kind'' JNull = JStr ''compaction'' then KCompaction else KMessage)
      = m_kind m"
    by (cases "m_kind m") (simp_all add: jget_def look)
  moreover note read_tool_calls_to_dict [OF look(3)]
    look(4,5,6,7,14) [THEN to_dict_opt_str] look(9-12) [THEN to_dict_opt_int]
  ultimately have "message_from_raw as_int (Raw (JObj ?d)) = Inr (m\<lparr>m_id := None\<rparr>)"
    by (simp add: message_from_raw_def message_from_dict_def)
  then show ?thesis by (simp add: msg_eq_def)
qed

definition as_int_strict :: "json \<Rightarrow> int option" where
  "as_int_strict j = (case j of JInt i \<Rightarrow> Some i | _ \<Rightarrow> None)"

definition sample_message :: message where
  "sample_message = (new_message ''tool'' (Blocks [TextBlock ''x'', AssetBlock ''k'' ''image/png'' None]))
     \<lparr>m_tool_call_id := Some ''c1'', m_input_tokens := Some 7, m_id := Some ''m1''\<rparr>"

theorem message_round_trip_witness:
  "\<exists>m'. message_from_raw as_int_strict (Raw (JObj (message_to_dict sample_message))) = Inr m'
        \<and> msg_eq m' sample_message \<and> m_id m' = None"
  by (rule message_round_trip) (simp add: as_int_strict_def, code_simp)

end
