(* ===== verification/Tool_Types.thy ===== *)
theory Tool_Types
  imports Messages
begin

text \<open>
  The values of a tool call's life: \<open>actant/tools/calls.py\<close> (the record and its status),
  \<open>actant/tools/base.py\<close> (results, the context a tool is built for, invocations and tools) and
  \<open>actant/tools/admission.py\<close> (decisions, wait requests and resolutions). A tool's own code (\<open>build\<close>,
  \<open>execute\<close>, \<open>can_execute\<close>, \<open>on_resolve\<close>) is the application's: fields of the tool records, arbitrary
  actions on the state \<open>'s\<close> the activities run on.
\<close>

section \<open>Records of calls\<close>

text \<open>\<open>None\<close> as a stored result is \<open>JNull\<close>.\<close>

datatype tool_call_status = REQUESTED | RUNNING | WAITING | COMPLETED | BLOCKED | FAILED

fun status_str :: "tool_call_status \<Rightarrow> string" where
  "status_str REQUESTED = ''requested''"
| "status_str RUNNING = ''running''"
| "status_str WAITING = ''waiting''"
| "status_str COMPLETED = ''completed''"
| "status_str BLOCKED = ''blocked''"
| "status_str FAILED = ''failed''"

record tool_call_record =
  r_id :: string
  r_group_id :: string
  r_run_id :: string
  r_agent_id :: string
  r_thread_id :: string
  r_turn_id :: string
  r_turn_index :: int
  r_name :: string
  r_args :: json_obj
  r_status :: tool_call_status
  r_prompt :: "string option"
  r_wait_request :: "json_obj option"
  r_result :: json

section \<open>Results\<close>

text \<open>\<open>None\<close> as a result's output is \<open>JNull\<close>.\<close>

record tool_result =
  tr_output :: json
  tr_error :: "string option"
  tr_tool_call_id :: "string option"
  tr_metadata :: json_obj
  tr_content_blocks :: "block list option"

definition tool_ok :: "json \<Rightarrow> json_obj \<Rightarrow> tool_result" where
  "tool_ok output metadata = \<lparr>tr_output = output, tr_error = None, tr_tool_call_id = None,
     tr_metadata = metadata, tr_content_blocks = None\<rparr>"

definition tool_fail :: "string \<Rightarrow> json_obj \<Rightarrow> tool_result" where
  "tool_fail error metadata = \<lparr>tr_output = JNull, tr_error = Some error, tr_tool_call_id = None,
     tr_metadata = metadata, tr_content_blocks = None\<rparr>"

definition is_success :: "tool_result \<Rightarrow> bool" where
  "is_success r \<longleftrightarrow> tr_error r = None"

definition tool_result_to_dict :: "tool_result \<Rightarrow> json_obj" where
  "tool_result_to_dict r =
     (case tr_tool_call_id r of None \<Rightarrow> [] | Some i \<Rightarrow> if i = [] then [] else [(''tool_call_id'', JStr i)])
     @ (case tr_error r of
          None \<Rightarrow> [(''result'', tr_output r)]
        | Some e \<Rightarrow> if e = [] then [(''result'', tr_output r)] else [(''error'', JStr e)])
     @ (if tr_metadata r = [] then [] else [(''metadata'', JObj (tr_metadata r))])
     @ (case tr_content_blocks r of
          None \<Rightarrow> []
        | Some bs \<Rightarrow> if bs = [] then [] else [(''content_blocks'', JList (map block_to_json bs))])"

section \<open>Admission\<close>

datatype tool_decision_kind = EXECUTE | DENY | AWAIT_HUMAN

record tool_wait_request =
  wr_kind :: string
  wr_prompt :: string
  wr_payload :: json_obj

definition wait_request_to_dict :: "tool_wait_request \<Rightarrow> json_obj" where
  "wait_request_to_dict w =
     [(''kind'', JStr (wr_kind w)), (''prompt'', JStr (wr_prompt w)), (''payload'', JObj (wr_payload w))]"

record tool_resolution =
  rs_approved :: "bool option"
  rs_answer :: string
  rs_payload :: json_obj

definition resolution_from_dict :: "json_obj \<Rightarrow> tool_resolution" where
  "resolution_from_dict d =
     \<lparr>rs_approved = (case dget d ''approved'' of Some (JBool b) \<Rightarrow> Some b | _ \<Rightarrow> None),
      rs_answer = (case jget d ''answer'' (JStr []) of JStr s \<Rightarrow> s | _ \<Rightarrow> []),
      rs_payload = (case dget d ''payload'' of Some (JObj p) \<Rightarrow> p | _ \<Rightarrow> [])\<rparr>"

definition resolution_to_dict :: "tool_resolution \<Rightarrow> json_obj" where
  "resolution_to_dict r =
     [(''approved'', case rs_approved r of None \<Rightarrow> JNull | Some b \<Rightarrow> JBool b),
      (''answer'', JStr (rs_answer r)), (''payload'', JObj (rs_payload r))]"

record tool_decision =
  td_kind :: tool_decision_kind
  td_reason :: string
  td_wait_request :: "tool_wait_request option"

definition decision_execute :: tool_decision where
  "decision_execute = \<lparr>td_kind = EXECUTE, td_reason = [], td_wait_request = None\<rparr>"

definition decision_deny :: "string \<Rightarrow> tool_decision" where
  "decision_deny reason = \<lparr>td_kind = DENY, td_reason = reason, td_wait_request = None\<rparr>"

definition decision_await_human :: "tool_wait_request \<Rightarrow> tool_decision" where
  "decision_await_human w = \<lparr>td_kind = AWAIT_HUMAN, td_reason = wr_prompt w, td_wait_request = Some w\<rparr>"

lemma resolution_round_trip: "resolution_from_dict (resolution_to_dict r) = r"
  by (cases r; cases "rs_approved r")
    (simp_all add: resolution_from_dict_def resolution_to_dict_def jget_def)

section \<open>Tools\<close>

text \<open>What an agent may write in its sandbox (\<open>actant/sandbox/access.py\<close>).\<close>

record sandbox_access =
  sa_user :: string
  sa_writable :: "string list"
  sa_scratch :: bool

text \<open>
  \<open>CallContext\<close> without its \<open>asset_store\<close>, which only tool code reads. A sandbox handle is its id.
\<close>

record call_context =
  cx_agent_id :: string
  cx_thread_id :: string
  cx_run_id :: string
  cx_tool_call_id :: string
  cx_turn_id :: string
  cx_sandbox :: "string option"
  cx_sandbox_access :: "sandbox_access option"
  cx_parent_thread_id :: "string option"
  cx_context :: json_obj

record 's tool_invocation =
  inv_description :: string
  inv_execute :: "('s, tool_result) act"

text \<open>The turn a tool is admitted in, as \<open>can_execute\<close> sees it.\<close>

record turn_context =
  tx_agent_id :: string
  tx_system_prompt :: string
  tx_messages :: "message list"
  tx_thread_id :: string
  tx_turn_id :: string
  tx_turn_index :: int

text \<open>\<open>can_execute\<close> and \<open>on_resolve\<close> are optional: \<open>None\<close> is a tool without the attribute. An
  \<open>on_resolve\<close> may have a \<open>ctx\<close> parameter, which the runtime finds out by its signature.\<close>

datatype 's on_resolve =
    ResolvePlain "tool_call_record \<Rightarrow> tool_resolution \<Rightarrow> ('s, tool_result) act"
  | ResolveCtx "tool_call_record \<Rightarrow> tool_resolution \<Rightarrow> call_context \<Rightarrow> ('s, tool_result) act"

record 's tool =
  tl_name :: string
  tl_schema :: json
  tl_needs_sandbox :: bool
  tl_retry_safe :: bool
  tl_build :: "json_obj \<Rightarrow> call_context \<Rightarrow> ('s, 's tool_invocation) act"
  tl_can_execute :: "(tool_call_record \<Rightarrow> 's tool_invocation \<Rightarrow> turn_context
                       \<Rightarrow> ('s, tool_decision) act) option"
  tl_on_resolve :: "'s on_resolve option"

end
