(* ===== verification/Session.thy ===== *)
theory Session
  imports Tool_Types
begin

text \<open>
  \<open>actant/runtime/session.py\<close> and \<open>actant/runtime/types/session.py\<close>: a message taken apart into the
  parts the SQL store keeps, and put together again. \<open>as_int\<close> is \<open>pydantic\<close>'s reading of an integer
  field (\<open>Messages\<close>), \<open>blocks_str\<close> is \<open>str\<close> of a list of block objects, both code of a library.
\<close>

section \<open>Stored content\<close>

text \<open>\<open>BLOCKS.validate_python\<close> on block objects: \<open>Block\<close> has every kind but the URL image.\<close>

fun is_url_image :: "block \<Rightarrow> bool" where
  "is_url_image (UrlImageBlock _ _) = True"
| "is_url_image _ = False"

definition validate_blocks :: "block list \<Rightarrow> py_error + block list" where
  "validate_blocks bs = (if list_ex is_url_image bs then Inl invalid else Inr bs)"

text \<open>The same on JSON values.\<close>

definition blocks_from_json :: "(json \<Rightarrow> int option) \<Rightarrow> json \<Rightarrow> py_error + block list" where
  "blocks_from_json as_int j = (case j of
      JList js \<Rightarrow> try_bind (try_map (block_from_json as_int) js) validate_blocks
    | _ \<Rightarrow> Inl invalid)"

definition tool_result_blocks :: "(json \<Rightarrow> int option) \<Rightarrow> json \<Rightarrow> py_error + block list option" where
  "tool_result_blocks as_int result = (case result of
      JObj d \<Rightarrow>
        (case jget d ''content_blocks'' JNull of
           JNull \<Rightarrow> Inr None
         | j \<Rightarrow> try_bind (blocks_from_json as_int j)
                  (\<lambda>bs. Inr (if bs = [] then None else Some bs)))
    | _ \<Rightarrow> Inr None)"

definition tool_result_content :: "(json \<Rightarrow> int option) \<Rightarrow> json \<Rightarrow> py_error + content" where
  "tool_result_content as_int result =
     try_bind (tool_result_blocks as_int result) (\<lambda>bs. Inr (case bs of
        Some bs \<Rightarrow> Blocks bs | None \<Rightarrow> Text (json_dumps result)))"

section \<open>Arguments of a call\<close>

text \<open>Every value the JSON parser returns is a JSON value; the check of the code is kept.\<close>

fun is_json_value :: "json \<Rightarrow> bool" where
  "is_json_value (JList js) = list_all is_json_value js"
| "is_json_value (JObj d) = list_all (\<lambda>(k, v). is_json_value v) d"
| "is_json_value _ = True"

definition json_dict :: "json_obj \<Rightarrow> json_obj" where
  "json_dict d = filter (\<lambda>(k, v). is_json_value v) d"

definition args_to_object :: "string \<Rightarrow> json_obj" where
  "args_to_object arguments =
     (case json_loads (if arguments = [] then ''{}'' else arguments) of
        Some (JObj d) \<Rightarrow> json_dict d | _ \<Rightarrow> [])"

lemma is_json_value_all: "is_json_value j"
  by (induction j) (auto simp: list_all_iff)

lemma json_dict_id [simp]: "json_dict d = d"
  by (simp add: json_dict_def is_json_value_all)

section \<open>Parts\<close>

datatype part_kind = TEXT | THINKING | TOOL_CALL | TOOL_RESULT | USER_PROMPT

datatype wait_status = WS_PENDING | WS_APPROVED | WS_DENIED

record message_part =
  p_kind :: part_kind
  p_content :: "string option"
  p_content_blocks :: "block list option"
  p_tool_call_id :: "string option"
  p_tool_name :: "string option"
  p_args :: "json_obj option"
  p_result :: "json_obj option"
  p_wait_status :: "wait_status option"
  p_signature :: "string option"
  p_reasoning_items :: "json list option"

definition new_part :: "part_kind \<Rightarrow> message_part" where
  "new_part k = \<lparr>p_kind = k, p_content = None, p_content_blocks = None, p_tool_call_id = None,
     p_tool_name = None, p_args = None, p_result = None, p_wait_status = None, p_signature = None,
     p_reasoning_items = None\<rparr>"

text \<open>Python's truth value of an optional string.\<close>

definition str_truthy :: "string option \<Rightarrow> bool" where
  "str_truthy x = (case x of None \<Rightarrow> False | Some s \<Rightarrow> s \<noteq> [])"

definition or_empty :: "string option \<Rightarrow> string" where
  "or_empty x = (case x of None \<Rightarrow> [] | Some s \<Rightarrow> s)"

definition tool_call_part :: "tool_call \<Rightarrow> message_part" where
  "tool_call_part c = (new_part TOOL_CALL)\<lparr>p_tool_call_id := Some (tc_id c),
     p_tool_name := Some (fn_name (tc_function c)),
     p_args := Some (args_to_object (fn_arguments (tc_function c))),
     p_signature := tc_thought_signature c\<rparr>"

definition message_to_parts :: "(block list \<Rightarrow> string) \<Rightarrow> message \<Rightarrow> py_error + message_part list" where
  "message_to_parts blocks_str m =
     (if m_role m = ''user'' then
        (case m_content m of
           Blocks bs \<Rightarrow> try_bind (validate_blocks bs)
             (\<lambda>bs. Inr [(new_part USER_PROMPT)\<lparr>p_content_blocks := Some bs\<rparr>])
         | Text t \<Rightarrow> Inr [(new_part USER_PROMPT)\<lparr>p_content := Some t\<rparr>]
         | NoContent \<Rightarrow> Inr [(new_part USER_PROMPT)\<lparr>p_content := Some []\<rparr>])
      else Inr
        ((if str_truthy (m_thought_summary m)
          then [(new_part THINKING)\<lparr>p_content := m_thought_summary m,
                  p_signature := m_thinking_signature m, p_reasoning_items := m_reasoning_items m\<rparr>]
          else [])
         @ (case m_content m of
              Text t \<Rightarrow> if t = [] then [] else [(new_part TEXT)\<lparr>p_content := Some t\<rparr>]
            | Blocks bs \<Rightarrow> if bs = [] then [] else [(new_part TEXT)\<lparr>p_content := Some (blocks_str bs)\<rparr>]
            | NoContent \<Rightarrow> [])
         @ map tool_call_part (case m_tool_calls m of None \<Rightarrow> [] | Some cs \<Rightarrow> cs)))"

section \<open>Putting parts together\<close>

text \<open>The local variables of \<open>parts_to_messages\<close>.\<close>

record assembly =
  as_messages :: "message list"
  as_text :: "string list"
  as_thought :: "string option"
  as_signature :: "string option"
  as_reasoning :: "json list option"
  as_calls :: "tool_call list"
  as_results :: "message list"

definition flush_assistant :: "assembly \<Rightarrow> assembly" where
  "flush_assistant a =
     (let messages =
        (if as_text a \<noteq> [] \<or> as_calls a \<noteq> [] \<or> str_truthy (as_thought a)
            \<or> (case as_reasoning a of None \<Rightarrow> False | Some rs \<Rightarrow> rs \<noteq> [])
         then as_messages a
            @ [(new_message ''assistant'' (Text (concat (as_text a))))
                 \<lparr>m_tool_calls := (if as_calls a = [] then None else Some (as_calls a)),
                  m_thought_summary := as_thought a, m_thinking_signature := as_signature a,
                  m_reasoning_items := as_reasoning a\<rparr>]
            @ as_results a
         else as_messages a)
      in a\<lparr>as_messages := messages, as_text := [], as_calls := [], as_results := []\<rparr>)"

definition call_of_part :: "message_part \<Rightarrow> tool_call" where
  "call_of_part p =
     \<lparr>tc_id = or_empty (p_tool_call_id p),
      tc_function = \<lparr>fn_name = or_empty (p_tool_name p),
        fn_arguments = json_dumps (JObj (case p_args p of None \<Rightarrow> [] | Some d \<Rightarrow> d))\<rparr>,
      tc_type = ''function'', tc_thought_signature = p_signature p,
      tc_extra_content = (if str_truthy (p_signature p)
        then [(''google'', JObj [(''thought_signature'', JStr (or_empty (p_signature p)))])] else [])\<rparr>"

definition result_of_part :: "(json \<Rightarrow> int option) \<Rightarrow> message_part \<Rightarrow> py_error + message list" where
  "result_of_part as_int p =
     (let reply = (\<lambda>c. (new_message ''tool'' c)\<lparr>m_tool_call_id := p_tool_call_id p, m_name := p_tool_name p\<rparr>)
      in case p_result p of
           Some r \<Rightarrow> try_bind (tool_result_content as_int (JObj r)) (\<lambda>c. Inr [reply c])
         | None \<Rightarrow> Inr (if p_wait_status p = Some WS_DENIED
             then [reply (Text (json_dumps (JObj [(''error'', JStr ''Waiting tool call denied'')])))] else []))"

definition assemble_part :: "(json \<Rightarrow> int option) \<Rightarrow> message_part \<Rightarrow> assembly \<Rightarrow> py_error + assembly" where
  "assemble_part as_int p a =
     (case p_kind p of
        USER_PROMPT \<Rightarrow>
          (let b = flush_assistant a;
               content = (case p_content_blocks p of
                  Some (x # xs) \<Rightarrow> Blocks (x # xs) | _ \<Rightarrow> Text (or_empty (p_content p)))
           in Inr (b\<lparr>as_thought := None, as_signature := None, as_reasoning := None,
                     as_messages := as_messages b @ [new_message ''user'' content]\<rparr>))
      | TEXT \<Rightarrow> Inr (a\<lparr>as_text := as_text a @ [or_empty (p_content p)]\<rparr>)
      | THINKING \<Rightarrow> Inr (a\<lparr>as_thought := p_content p, as_signature := p_signature p,
                            as_reasoning := p_reasoning_items p\<rparr>)
      | TOOL_CALL \<Rightarrow>
          (if str_truthy (p_tool_call_id p) \<and> str_truthy (p_tool_name p)
           then try_bind (result_of_part as_int p) (\<lambda>rs.
             Inr (a\<lparr>as_calls := as_calls a @ [call_of_part p], as_results := as_results a @ rs\<rparr>))
           else Inr a)
      | TOOL_RESULT \<Rightarrow> Inr a)"

fun assemble :: "(json \<Rightarrow> int option) \<Rightarrow> message_part list \<Rightarrow> assembly \<Rightarrow> py_error + assembly" where
  "assemble as_int [] a = Inr a"
| "assemble as_int (p # ps) a = try_bind (assemble_part as_int p a) (assemble as_int ps)"

definition parts_to_messages :: "(json \<Rightarrow> int option) \<Rightarrow> message_part list \<Rightarrow> py_error + message list" where
  "parts_to_messages as_int parts =
     try_bind (assemble as_int parts
         \<lparr>as_messages = [], as_text = [], as_thought = None, as_signature = None, as_reasoning = None,
          as_calls = [], as_results = []\<rparr>)
       (\<lambda>a. Inr (as_messages (flush_assistant a)))"

section \<open>What survives\<close>

text \<open>What the parts of an assistant message keep of one of its calls and of the message.\<close>

definition stored_call :: "tool_call \<Rightarrow> tool_call" where
  "stored_call c = call_of_part (tool_call_part c)"

definition call_named :: "tool_call \<Rightarrow> bool" where
  "call_named c \<longleftrightarrow> tc_id c \<noteq> [] \<and> fn_name (tc_function c) \<noteq> []"

lemma tool_call_part_simps [simp]:
  "p_kind (tool_call_part c) = TOOL_CALL"
  "p_tool_call_id (tool_call_part c) = Some (tc_id c)"
  "p_tool_name (tool_call_part c) = Some (fn_name (tc_function c))"
  "p_result (tool_call_part c) = None"
  "p_wait_status (tool_call_part c) = None"
  by (simp_all add: tool_call_part_def new_part_def)

lemma assemble_tool_call:
  "assemble_part as_int (tool_call_part c) a =
     Inr (if call_named c then a\<lparr>as_calls := as_calls a @ [stored_call c]\<rparr> else a)"
  by (simp add: assemble_part_def result_of_part_def str_truthy_def call_named_def stored_call_def
      Let_def)

lemma assemble_append:
  "assemble as_int (ps @ qs) a = try_bind (assemble as_int ps a) (assemble as_int qs)"
proof (induction ps arbitrary: a)
  case (Cons p ps)
  then show ?case by (cases "assemble_part as_int p a") simp_all
qed simp

lemma assemble_tool_calls:
  "assemble as_int (map tool_call_part cs) a =
     Inr (a\<lparr>as_calls := as_calls a @ map stored_call (filter call_named cs)\<rparr>)"
  by (induction cs arbitrary: a) (simp_all add: assemble_tool_call)

text \<open>An assistant message as its parts give it back.\<close>

definition stored_assistant :: "(block list \<Rightarrow> string) \<Rightarrow> message \<Rightarrow> message" where
  "stored_assistant blocks_str m =
     (let thinks = str_truthy (m_thought_summary m);
          calls = map stored_call (filter call_named (case m_tool_calls m of None \<Rightarrow> [] | Some cs \<Rightarrow> cs))
      in (new_message ''assistant'' (Text (case m_content m of
             NoContent \<Rightarrow> [] | Text t \<Rightarrow> t | Blocks bs \<Rightarrow> if bs = [] then [] else blocks_str bs)))
         \<lparr>m_tool_calls := (if calls = [] then None else Some calls),
          m_thought_summary := (if thinks then m_thought_summary m else None),
          m_thinking_signature := (if thinks then m_thinking_signature m else None),
          m_reasoning_items := (if thinks then m_reasoning_items m else None)\<rparr>)"

definition stores_something :: "message \<Rightarrow> bool" where
  "stores_something m \<longleftrightarrow> str_truthy (m_thought_summary m)
     \<or> (case m_content m of NoContent \<Rightarrow> False | Text t \<Rightarrow> t \<noteq> [] | Blocks bs \<Rightarrow> bs \<noteq> [])
     \<or> list_ex call_named (case m_tool_calls m of None \<Rightarrow> [] | Some cs \<Rightarrow> cs)"

lemma list_ex_filter: "(\<not> list_ex P xs) = (filter P xs = [])"
  by (auto simp: list_ex_iff filter_empty_conv)

lemma assistant_parts_read:
  assumes "m_role m \<noteq> ''user''"
  shows "\<exists>ps. message_to_parts blocks_str m = Inr ps
     \<and> parts_to_messages as_int ps
         = Inr (if stores_something m then [stored_assistant blocks_str m] else [])"
proof -
  let ?cs = "case m_tool_calls m of None \<Rightarrow> [] | Some cs \<Rightarrow> cs"
  show ?thesis
    using assms
    by (cases "m_content m"; cases "str_truthy (m_thought_summary m)";
        cases "filter call_named ?cs = []")
      (simp_all add: message_to_parts_def parts_to_messages_def assemble_append assemble_tool_calls
        assemble_part_def new_part_def flush_assistant_def stores_something_def list_ex_filter
        stored_assistant_def Let_def str_truthy_def or_empty_def)
qed

text \<open>Parts round trip of an assistant message: read back from its parts it is one assistant message
  with its text, its thinking (with signature and reasoning items) when it has a non-empty summary,
  and, in order, exactly its calls that have an id and a name; a message with nothing of these gives no
  message at all.\<close>

theorem assistant_parts_round_trip:
  assumes "m_role m \<noteq> ''user''"
  shows "\<exists>ps. message_to_parts blocks_str m = Inr ps
     \<and> parts_to_messages as_int ps
         = Inr (if stores_something m then [stored_assistant blocks_str m] else [])"
  using assms by (rule assistant_parts_read)

theorem assistant_parts_round_trip_witness:
  "\<exists>ps. message_to_parts (\<lambda>_. []) (new_message ''assistant'' (Text ''hi'')) = Inr ps
     \<and> parts_to_messages as_int_strict ps
         = Inr [stored_assistant (\<lambda>_. []) (new_message ''assistant'' (Text ''hi''))]"
  using assistant_parts_round_trip [of "new_message ''assistant'' (Text ''hi'')"]
  by (simp add: new_message_def stores_something_def)

end
