(* ===== verification/Compaction.thy ===== *)
theory Compaction
  imports Tool_Types
begin

text \<open>
  \<open>actant/runtime/compaction.py\<close>: what the model is shown of a stored thread. Compaction rows are
  messages of kind \<open>KCompaction\<close> whose content is one \<open>CompactionBlock\<close>; the model's view is built from
  the rows, images past a cap become labels, and the size of a request is measured against its
  limits. Fractions (the thresholds) are exact rationals here, IEEE doubles in the code; positions
  are natural numbers.
\<close>

section \<open>Constants\<close>

definition COMPACTION_PROMPT :: string where
  "COMPACTION_PROMPT = join_with [CHR 0x0A]
    [''<compaction_request>'',
     ''Your context is nearly full. Write a summary of this conversation that will replace ever''
      @ ''ything before this point. You will continue from the summary alone, with the system prom''
      @ ''pt, so anything you leave out is gone.'',
     [],
     ''Cover, in this order:'',
     ''1. The goal: what the user asked for, and any constraints or preferences they stated.'',
     ''2. Decisions made, and why.'',
     ''3. What was verified, and how (tests run, outputs checked, results observed).'',
     ''4. Open items: every piece of unfinished work, unanswered question, or pending tool resu''
      @ ''lt. Do not omit any.'',
     ''5. Next steps, in order.'',
     ''6. Key facts to keep exactly: identifiers, paths, names, numbers, commands, errors, and ''
      @ ''anything the user must not be asked again.'',
     ''7. Image index: images before this point will not be shown again. For each notable one, ''
      @ ''its id (from the [image id=...] label before it) and a one-line caption. `recall_image(i''
      @ ''d)` shows it again.'',
     [],
     ''Write plain prose and lists. Do not call tools. Do not address the user.'',
     ''</compaction_request>'']"

definition SUMMARY_PREFIX :: string where
  "SUMMARY_PREFIX = ''<context_summary>'' @ [CHR 0x0A] @
     ''This conversation was compacted. It continues from this summary of everything before it:''
     @ [CHR 0x0A, CHR 0x0A]"

definition SUMMARY_SUFFIX :: string where
  "SUMMARY_SUFFIX = [CHR 0x0A] @ ''</context_summary>''"

definition CHARS_PER_TOKEN :: int where
  "CHARS_PER_TOKEN = 4"

definition SUMMARY_MAX_OUTPUT_TOKENS :: int where
  "SUMMARY_MAX_OUTPUT_TOKENS = 16000"

record context_measure =
  cm_tokens :: int
  cm_images :: int

record model_view =
  mv_messages :: "message list"
  mv_ids :: "string option list"
  mv_usage_from :: nat
  mv_compaction :: "compaction_block option"
  mv_compaction_id :: "string option"

section \<open>The view\<close>

text \<open>
  \<open>cast(CompactionBlock, message.content[0])\<close>: an empty list raises; a first block of another kind has
  no \<open>summary\<close>, which the callers read at once, so it raises here.
\<close>

definition compaction_of :: "message \<Rightarrow> py_error + compaction_block option" where
  "compaction_of m =
     (if m_kind m \<noteq> KCompaction then Inr None
      else case m_content m of
        Blocks [] \<Rightarrow> Inl IndexError
      | Blocks (CompactionBlock c # _) \<Rightarrow> Inr (Some c)
      | Blocks _ \<Rightarrow> Inl (OtherException ''AttributeError'' ''not a compaction block'')
      | _ \<Rightarrow> Inr None)"

definition summary_message :: "string \<Rightarrow> message" where
  "summary_message summary = new_message ''user'' (Text (SUMMARY_PREFIX @ summary @ SUMMARY_SUFFIX))"

definition opt_text :: "string option \<Rightarrow> string" where
  "opt_text x = (case x of None \<Rightarrow> ''None'' | Some s \<Rightarrow> s)"

definition retained_label :: "message \<Rightarrow> string" where
  "retained_label m =
     ''<retained tag='' @ [CHR 0x22] @ opt_text (m_tag m) @ [CHR 0x22]
     @ ''>Kept verbatim across compaction: the latest '' @ m_role m @ '' message with this tag.</retained>''"

definition retained :: "message \<Rightarrow> message" where
  "retained m =
     (if m_role m = ''user'' then m
      else
        (let body = (case m_content m of Blocks bs \<Rightarrow> bs | Text t \<Rightarrow> [TextBlock t] | NoContent \<Rightarrow> [TextBlock []])
         in (new_message ''user'' (Blocks (TextBlock (retained_label m) # body)))\<lparr>m_tag := m_tag m\<rparr>))"

definition call_ids :: "message \<Rightarrow> string list" where
  "call_ids m = map tc_id (case m_tool_calls m of None \<Rightarrow> [] | Some cs \<Rightarrow> cs)"

text \<open>The position of the last compaction row.\<close>

fun last_compaction :: "message list \<Rightarrow> nat option" where
  "last_compaction [] = None"
| "last_compaction (m # ms) =
     (case last_compaction ms of
        Some i \<Rightarrow> Some (Suc i)
      | None \<Rightarrow> (if m_kind m = KCompaction then Some 0 else None))"

text \<open>The loop of \<open>build_view\<close>: \<open>before\<close> is how many rows are left before the compaction row, \<open>calls\<close>
  the ids of the calls already in the view.\<close>

fun view_rows :: "nat \<Rightarrow> string set \<Rightarrow> message list \<Rightarrow> (message \<times> string option) list" where
  "view_rows before calls [] = []"
| "view_rows before calls (m # ms) =
     (if m_kind m = KCompaction then view_rows (before - 1) calls ms
      else
        (let m' = (if before > 0 \<and> m_role m = ''tool''
                      \<and> (case m_tool_call_id m of None \<Rightarrow> True | Some c \<Rightarrow> c \<notin> calls)
                   then retained m else m)
         in (m', m_id m) # view_rows (before - 1) (calls \<union> set (call_ids m')) ms))"

definition build_view :: "message list \<Rightarrow> py_error + model_view" where
  "build_view rows =
     (case last_compaction rows of
        None \<Rightarrow> Inr \<lparr>mv_messages = rows, mv_ids = map m_id rows, mv_usage_from = 0,
                    mv_compaction = None, mv_compaction_id = None\<rparr>
      | Some pos \<Rightarrow>
          (case compaction_of (rows ! pos) of
             Inl e \<Rightarrow> Inl e
           | Inr None \<Rightarrow> Inl AssertionError
           | Inr (Some block) \<Rightarrow>
               (let body = view_rows pos {} rows;
                    messages = summary_message (cb_summary block) # map fst body
                in Inr \<lparr>mv_messages = messages, mv_ids = None # map snd body,
                        mv_usage_from = length messages - (length rows - 1 - pos),
                        mv_compaction = Some block, mv_compaction_id = m_id (rows ! pos)\<rparr>)))"

section \<open>What a compaction keeps\<close>

fun latest_by_tag :: "string list \<Rightarrow> (string, string) dict \<Rightarrow> message list \<Rightarrow> (string, string) dict" where
  "latest_by_tag tags d [] = d"
| "latest_by_tag tags d (m # ms) =
     latest_by_tag tags
       (case (m_tag m, m_id m) of
          (Some t, Some i) \<Rightarrow> (if t \<in> set tags \<and> m_kind m = KMessage then dset t i d else d)
        | _ \<Rightarrow> d) ms"

definition kept_ids :: "message list \<Rightarrow> nat \<Rightarrow> string list \<Rightarrow> string list" where
  "kept_ids history before tags = dvalues (latest_by_tag tags [] (take before history))"

definition has_tool_calls :: "message \<Rightarrow> bool" where
  "has_tool_calls m \<longleftrightarrow> (case m_tool_calls m of None \<Rightarrow> False | Some cs \<Rightarrow> cs \<noteq> [])"

fun pending_from :: "message list \<Rightarrow> nat \<Rightarrow> nat \<Rightarrow> nat" where
  "pending_from view low 0 = low"
| "pending_from view low (Suc i) =
     (if i < low then low
      else if m_role (view ! i) = ''assistant''
        then (if has_tool_calls (view ! i) then i else Suc i)
      else pending_from view low i)"

definition pending_start :: "message list \<Rightarrow> nat \<Rightarrow> nat" where
  "pending_start view low = pending_from view low (length view)"

section \<open>Measuring a request\<close>

definition is_image :: "block \<Rightarrow> bool" where
  "is_image b = (case b of
      InlineImageBlock _ _ \<Rightarrow> True | UrlImageBlock _ _ \<Rightarrow> True
    | AssetBlock _ mime _ \<Rightarrow> starts_with ''image/'' mime | _ \<Rightarrow> False)"

definition content_blocks :: "message \<Rightarrow> block list" where
  "content_blocks m = (case m_content m of Blocks bs \<Rightarrow> bs | _ \<Rightarrow> [])"

definition count_images :: "message list \<Rightarrow> int" where
  "count_images ms = (\<Sum>m\<leftarrow>ms. int (length (filter is_image (content_blocks m))))"

definition block_text_chars :: "block \<Rightarrow> int" where
  "block_text_chars b = (case b of TextBlock t \<Rightarrow> int (length t) | _ \<Rightarrow> 0)"

definition message_chars :: "message \<Rightarrow> int" where
  "message_chars m =
     (case m_content m of
        Text t \<Rightarrow> int (length t) | Blocks bs \<Rightarrow> (\<Sum>b\<leftarrow>bs. block_text_chars b) | NoContent \<Rightarrow> 0)
     + (case m_thought_summary m of None \<Rightarrow> 0 | Some t \<Rightarrow> int (length t))
     + (\<Sum>c\<leftarrow>(case m_tool_calls m of None \<Rightarrow> [] | Some cs \<Rightarrow> cs).
          int (length (fn_name (tc_function c))) + int (length (fn_arguments (tc_function c))))
     + (case m_reasoning_items m of
          Some (r # rs) \<Rightarrow> int (length (json_dumps (JList (r # rs)))) | _ \<Rightarrow> 0)"

text \<open>\<open>math.ceil(chars / CHARS_PER_TOKEN)\<close>.\<close>

definition ceil_div :: "int \<Rightarrow> int \<Rightarrow> int" where
  "ceil_div a b = - ((- a) div b)"

definition estimate_tokens :: "message list \<Rightarrow> string \<Rightarrow> int" where
  "estimate_tokens ms system =
     ceil_div (int (length system) + (\<Sum>m\<leftarrow>ms. message_chars m)) CHARS_PER_TOKEN"

fun measure_from :: "message list \<Rightarrow> nat \<Rightarrow> nat \<Rightarrow> context_measure option" where
  "measure_from view usage_from 0 = None"
| "measure_from view usage_from (Suc i) =
     (if i < usage_from then None
      else
        (case m_input_tokens (view ! i) of
           Some n \<Rightarrow>
             (if m_role (view ! i) = ''assistant''
              then Some \<lparr>cm_tokens = n + case_option 0 id (m_output_tokens (view ! i))
                                     + estimate_tokens (drop (Suc i) view) [],
                         cm_images = count_images view\<rparr>
              else measure_from view usage_from i)
         | None \<Rightarrow> measure_from view usage_from i))"

definition measure_request :: "string \<Rightarrow> message list \<Rightarrow> nat \<Rightarrow> context_measure" where
  "measure_request system view usage_from =
     (case measure_from view usage_from (length view) of
        Some c \<Rightarrow> c
      | None \<Rightarrow> \<lparr>cm_tokens = estimate_tokens view system, cm_images = count_images view\<rparr>)"

definition crossed_limits ::
  "context_measure \<Rightarrow> int option \<Rightarrow> int option \<Rightarrow> rat \<Rightarrow> rat \<Rightarrow> string option" where
  "crossed_limits req context_window_tokens max_images_per_request threshold image_threshold =
     (let reasons =
        (case context_window_tokens of
           Some w \<Rightarrow> if of_int (cm_tokens req) > threshold * of_int w then [''tokens''] else []
         | None \<Rightarrow> [])
        @ (case max_images_per_request of
             Some n \<Rightarrow> if of_int (cm_images req) > image_threshold * of_int n then [''images''] else []
           | None \<Rightarrow> [])
      in if reasons = [] then None else Some (join_with '','' reasons))"

section \<open>The summary call and the image cap\<close>

text \<open>\<open>block.asset_public_id or block.storage_key\<close>.\<close>

definition image_id :: "string \<Rightarrow> string option \<Rightarrow> string" where
  "image_id storage_key public_id =
     (case public_id of None \<Rightarrow> storage_key | Some p \<Rightarrow> if p = [] then storage_key else p)"

fun is_media :: "block \<Rightarrow> bool" where
  "is_media (AssetBlock _ _ _) = True"
| "is_media (InlineImageBlock _ _) = True"
| "is_media (UrlImageBlock _ _) = True"
| "is_media _ = False"

definition request_block :: "bool \<Rightarrow> block \<Rightarrow> block list" where
  "request_block images b =
     (case b of
        AssetBlock key mime pid \<Rightarrow>
          if starts_with ''image/'' mime then [TextBlock (''[image id='' @ image_id key pid @ '']'')] else []
      | InlineImageBlock _ _ \<Rightarrow> if images then [] else [TextBlock ''[image]'']
      | UrlImageBlock _ _ \<Rightarrow> if images then [] else [TextBlock ''[image]'']
      | _ \<Rightarrow> [])
     @ (if images \<or> \<not> is_image b then [b] else [])"

definition label_message :: "bool \<Rightarrow> message \<Rightarrow> message" where
  "label_message images m =
     (if list_ex is_media (content_blocks m)
      then m\<lparr>m_content := Blocks (concat (map (request_block images) (content_blocks m)))\<rparr>
      else m)"

definition compaction_request ::
  "message list \<Rightarrow> string \<Rightarrow> string option \<Rightarrow> bool \<Rightarrow> message list" where
  "compaction_request view instructions prompt images =
     (let text = (case prompt of None \<Rightarrow> COMPACTION_PROMPT | Some p \<Rightarrow> p);
          text' = (if instructions = [] then text else text @ [CHR 0x0A, CHR 0x0A] @ instructions)
      in map (label_message images) view @ [new_message ''user'' (Text text')])"

definition dropped_label :: "block \<Rightarrow> string" where
  "dropped_label b =
     (case b of
        AssetBlock key mime pid \<Rightarrow>
          ''[image id='' @ image_id key pid @ ''] dropped from view; recall_image('' @ [CHR 0x22]
          @ image_id key pid @ [CHR 0x22] @ '') shows it again''
      | _ \<Rightarrow> ''[image dropped from view]'')"

fun drop_blocks :: "nat \<Rightarrow> block list \<Rightarrow> block list \<times> nat" where
  "drop_blocks n [] = ([], n)"
| "drop_blocks n (b # bs) =
     (if n > 0 \<and> is_image b
      then (case drop_blocks (n - 1) bs of (bs', k) \<Rightarrow> (TextBlock (dropped_label b) # bs', k))
      else (case drop_blocks n bs of (bs', k) \<Rightarrow> (b # bs', k)))"

fun drop_messages :: "nat \<Rightarrow> message list \<Rightarrow> message list" where
  "drop_messages n [] = []"
| "drop_messages n (m # ms) =
     (if n > 0 \<and> list_ex is_image (content_blocks m)
      then (case drop_blocks n (content_blocks m) of
              (bs, k) \<Rightarrow> m\<lparr>m_content := Blocks bs\<rparr> # drop_messages k ms)
      else m # drop_messages n ms)"

definition drop_amount :: "int \<Rightarrow> int \<Rightarrow> int" where
  "drop_amount count limit =
     (let chunk = max 1 (limit div 2) in max 0 (ceil_div (count - limit) chunk * chunk))"

definition drop_oldest_images :: "message list \<Rightarrow> int \<Rightarrow> message list" where
  "drop_oldest_images messages limit =
     (let d = drop_amount (count_images messages) limit
      in if d = 0 then messages else drop_messages (nat d) messages)"

section \<open>Facts of the view\<close>

lemma last_compaction_None: "last_compaction rows = None \<longleftrightarrow> list_all (\<lambda>m. m_kind m = KMessage) rows"
proof (induction rows)
  case (Cons m ms)
  then show ?case by (cases "m_kind m") (auto split: option.split)
qed simp

lemma last_compaction_Some:
  "last_compaction rows = Some i \<Longrightarrow>
     i < length rows \<and> m_kind (rows ! i) = KCompaction
     \<and> list_all (\<lambda>m. m_kind m = KMessage) (drop (Suc i) rows)"
proof (induction rows arbitrary: i)
  case (Cons m ms)
  then show ?case
    by (cases "last_compaction ms") (auto simp: last_compaction_None split: if_splits)
qed simp

lemma last_compaction_append:
  "list_all (\<lambda>m. m_kind m = KMessage) ys \<Longrightarrow> last_compaction (xs @ ys) = last_compaction xs"
proof (induction xs)
  case Nil
  then show ?case by (simp add: last_compaction_None)
qed (simp split: option.split)

lemma last_compaction_row:
  "m_kind m = KCompaction \<Longrightarrow> last_compaction (xs @ [m]) = Some (length xs)"
  by (induction xs) simp_all

lemma length_view_rows:
  "length (view_rows b calls ms) = length (filter (\<lambda>m. m_kind m = KMessage) ms)"
proof (induction ms arbitrary: b calls)
  case (Cons m ms)
  then show ?case by (cases "m_kind m") (simp_all add: Let_def)
qed simp

lemma retained_kind: "m_kind m = KMessage \<Longrightarrow> m_kind (retained m) = KMessage"
  by (simp add: retained_def new_message_def Let_def)

lemma view_rows_kind: "(m, i) \<in> set (view_rows b calls ms) \<Longrightarrow> m_kind m = KMessage"
proof (induction ms arbitrary: b calls)
  case (Cons n ms)
  then show ?case
    by (cases "m_kind n") (auto simp: Let_def retained_kind split: if_splits)
qed simp

lemma view_rows_ids:
  "map snd (view_rows b calls ms) = map m_id (filter (\<lambda>m. m_kind m = KMessage) ms)"
proof (induction ms arbitrary: b calls)
  case (Cons m ms)
  then show ?case by (cases "m_kind m") (simp_all add: Let_def)
qed simp

text \<open>Once the compaction row is passed nothing is rewritten.\<close>

lemma view_rows_after:
  "list_all (\<lambda>m. m_kind m = KMessage) ms \<Longrightarrow> map fst (view_rows 0 calls ms) = ms"
  by (induction ms arbitrary: calls) (simp_all add: Let_def)

lemma view_rows_append:
  "\<exists>calls'. view_rows b calls (xs @ ys)
     = view_rows b calls xs @ view_rows (b - length xs) calls' ys"
proof (induction xs arbitrary: b calls)
  case Nil
  show ?case by (rule exI [of _ calls]) simp
next
  case (Cons m xs)
  show ?case
  proof (cases "m_kind m = KCompaction")
    case True
    from Cons.IH [of "b - 1" calls] show ?thesis using True by simp
  next
    case False
    let ?m = "if b > 0 \<and> m_role m = ''tool''
        \<and> (case m_tool_call_id m of None \<Rightarrow> True | Some c \<Rightarrow> c \<notin> calls) then retained m else m"
    from Cons.IH [of "b - 1" "calls \<union> set (call_ids ?m)"] show ?thesis using False
      by (auto simp: Let_def)
  qed
qed

text \<open>Every tool result left before the boundary follows, in the view, the call it answers.\<close>

definition answered_in :: "string set \<Rightarrow> message list \<Rightarrow> message \<Rightarrow> bool" where
  "answered_in calls before m \<longleftrightarrow>
     (\<exists>c. m_tool_call_id m = Some c \<and> (c \<in> calls \<or> (\<exists>a \<in> set before. c \<in> set (call_ids a))))"

lemma retained_role: "m_role (retained m) = ''user''"
  by (simp add: retained_def new_message_def Let_def)

lemma view_rows_paired:
  assumes "i < length (view_rows b calls ms)" and "length ms \<le> b"
    and "m_role (fst (view_rows b calls ms ! i)) = ''tool''"
  shows "answered_in calls (map fst (take i (view_rows b calls ms))) (fst (view_rows b calls ms ! i))"
  using assms
proof (induction ms arbitrary: b calls i)
  case (Cons m ms)
  show ?case
  proof (cases "m_kind m = KCompaction")
    case True
    with Cons show ?thesis by (auto simp: Suc_le_eq)
  next
    case False
    define m' where "m' = (if b > 0 \<and> m_role m = ''tool''
        \<and> (case m_tool_call_id m of None \<Rightarrow> True | Some c \<Rightarrow> c \<notin> calls) then retained m else m)"
    have eq: "view_rows b calls (m # ms)
        = (m', m_id m) # view_rows (b - 1) (calls \<union> set (call_ids m')) ms"
      using False by (simp add: m'_def Let_def)
    show ?thesis
    proof (cases i)
      case 0
      with Cons.prems eq have "m_role m' = ''tool''" by simp
      then have "answered_in calls [] m'" using Cons.prems(2)
        by (auto simp: m'_def answered_in_def retained_role split: if_splits option.splits)
      with 0 eq show ?thesis by simp
    next
      case (Suc j)
      with Cons.IH [of j "b - 1" "calls \<union> set (call_ids m')"] Cons.prems eq
      have "answered_in (calls \<union> set (call_ids m'))
          (map fst (take j (view_rows (b - 1) (calls \<union> set (call_ids m')) ms)))
          (fst (view_rows (b - 1) (calls \<union> set (call_ids m')) ms ! j))"
        by simp
      then show ?thesis using eq Suc by (auto simp: answered_in_def)
    qed
  qed
qed simp

lemma build_view_none:
  "last_compaction rows = None \<Longrightarrow>
   build_view rows = Inr \<lparr>mv_messages = rows, mv_ids = map m_id rows, mv_usage_from = 0,
                          mv_compaction = None, mv_compaction_id = None\<rparr>"
  by (simp add: build_view_def)

lemma build_view_some:
  assumes "last_compaction rows = Some pos" and "compaction_of (rows ! pos) = Inr (Some block)"
  shows "build_view rows = Inr
     \<lparr>mv_messages = summary_message (cb_summary block) # map fst (view_rows pos {} rows),
      mv_ids = None # map snd (view_rows pos {} rows),
      mv_usage_from = Suc (length (view_rows pos {} rows)) - (length rows - 1 - pos),
      mv_compaction = Some block, mv_compaction_id = m_id (rows ! pos)\<rparr>"
  using assms by (simp add: build_view_def Let_def)

lemma build_view_cases:
  assumes "build_view rows = Inr v"
  obtains (plain) "last_compaction rows = None" "mv_messages v = rows" "mv_ids v = map m_id rows"
      "mv_usage_from v = 0" "mv_compaction v = None"
    | (compacted) pos block where "last_compaction rows = Some pos"
      "compaction_of (rows ! pos) = Inr (Some block)"
      "mv_messages v = summary_message (cb_summary block) # map fst (view_rows pos {} rows)"
      "mv_ids v = None # map snd (view_rows pos {} rows)"
      "mv_usage_from v = Suc (length (view_rows pos {} rows)) - (length rows - 1 - pos)"
      "mv_compaction v = Some block"
proof (cases "last_compaction rows")
  case None
  with assms plain show thesis by (auto simp: build_view_none)
next
  case (Some pos)
  with assms obtain block where "compaction_of (rows ! pos) = Inr (Some block)"
    by (auto simp: build_view_def split: sum.splits option.splits)
  with assms Some compacted show thesis by (auto simp: build_view_some)
qed

lemma summary_message_kind [simp]: "m_kind (summary_message s) = KMessage"
  by (simp add: summary_message_def new_message_def)

lemma summary_message_role [simp]: "m_role (summary_message s) = ''user''"
  by (simp add: summary_message_def new_message_def)

text \<open>The rows from the last compaction row on, in the view, verbatim and last.\<close>

lemma view_rows_split:
  assumes "last_compaction rows = Some pos"
  shows "map fst (view_rows pos {} rows)
    = map fst (view_rows pos {} (take pos rows)) @ drop (Suc pos) rows"
proof -
  from last_compaction_Some [OF assms] have lt: "pos < length rows"
    and comp: "m_kind (rows ! pos) = KCompaction"
    and after: "list_all (\<lambda>m. m_kind m = KMessage) (drop (Suc pos) rows)" by auto
  from lt have "rows = take pos rows @ rows ! pos # drop (Suc pos) rows" by (rule id_take_nth_drop)
  then obtain calls where "view_rows pos {} rows = view_rows pos {} (take pos rows)
      @ view_rows (pos - length (take pos rows)) calls (rows ! pos # drop (Suc pos) rows)"
    using view_rows_append by metis
  with lt comp view_rows_after [OF after] show ?thesis by simp
qed

section \<open>Facts of the pending part\<close>

lemma pending_from_bounds: "min low n \<le> pending_from view low n \<and> pending_from view low n \<le> max low n"
  by (induction n) auto

lemma pending_from_no_assistant:
  "pending_from view low n < i \<Longrightarrow> i < n \<Longrightarrow> m_role (view ! i) \<noteq> ''assistant''"
  by (induction n) (auto simp: less_Suc_eq split: if_splits)

lemma pending_from_first:
  "pending_from view low n < n \<Longrightarrow> low \<le> pending_from view low n \<Longrightarrow>
   m_role (view ! pending_from view low n) = ''assistant'' \<Longrightarrow>
   has_tool_calls (view ! pending_from view low n)"
proof (induction n)
  case (Suc n)
  then show ?case
    by (auto split: if_splits simp: less_Suc_eq)
qed simp

lemma pending_from_before:
  "low < pending_from view low n \<Longrightarrow>
   m_role (view ! (pending_from view low n - 1)) = ''assistant''
     \<and> \<not> has_tool_calls (view ! (pending_from view low n - 1))
   \<or> pending_from view low n < n \<and> m_role (view ! pending_from view low n) = ''assistant''
     \<and> has_tool_calls (view ! pending_from view low n)"
  by (induction n) (auto split: if_splits)

section \<open>Facts of the images\<close>

definition image_blocks :: "message list \<Rightarrow> block list" where
  "image_blocks ms = concat (map (\<lambda>m. filter is_image (content_blocks m)) ms)"

lemma count_image_blocks: "count_images ms = int (length (image_blocks ms))"
  by (induction ms) (simp_all add: count_images_def image_blocks_def)

lemma is_image_text [simp]: "\<not> is_image (TextBlock t)"
  by (simp add: is_image_def)

lemma drop_blocks_images:
  "filter is_image (fst (drop_blocks n bs)) = drop n (filter is_image bs)
   \<and> snd (drop_blocks n bs) = n - length (filter is_image bs)"
proof (induction bs arbitrary: n)
  case (Cons b bs)
  from Cons.IH [of n] Cons.IH [of "n - 1"] show ?case
    by (cases n) (auto simp: split_beta)
qed simp

lemma drop_blocks_length: "length (fst (drop_blocks n bs)) = length bs"
  by (induction n bs rule: drop_blocks.induct) (auto split: prod.split)

lemma drop_blocks_same:
  "list_all2 (\<lambda>b b'. b' = b \<or> is_image b \<and> b' = TextBlock (dropped_label b)) bs (fst (drop_blocks n bs))"
  by (induction n bs rule: drop_blocks.induct) (auto split: prod.split)

lemma filter_none_image: "\<not> list_ex is_image bs \<Longrightarrow> filter is_image bs = []"
  by (auto simp: list_ex_iff filter_empty_conv)

lemma drop_messages_images:
  "image_blocks (drop_messages n ms) = drop n (image_blocks ms)"
proof (induction ms arbitrary: n)
  case (Cons m ms)
  show ?case
  proof (cases "n > 0 \<and> list_ex is_image (content_blocks m)")
    case True
    obtain bs k where d: "drop_blocks n (content_blocks m) = (bs, k)" by fastforce
    from drop_blocks_images [of n "content_blocks m"] d
    have "filter is_image bs = drop n (filter is_image (content_blocks m))"
      and "k = n - length (filter is_image (content_blocks m))" by auto
    with True d Cons.IH [of k] show ?thesis
      by (simp add: image_blocks_def content_blocks_def)
  next
    case False
    then show ?thesis using Cons.IH [of n] filter_none_image
      by (cases n) (auto simp: image_blocks_def)
  qed
qed (simp add: image_blocks_def)

definition same_but_labels :: "message \<Rightarrow> message \<Rightarrow> bool" where
  "same_but_labels m m' \<longleftrightarrow>
     m' = m \<or> (\<exists>bs bs'. m_content m = Blocks bs \<and> m' = m\<lparr>m_content := Blocks bs'\<rparr>
        \<and> list_all2 (\<lambda>b b'. b' = b \<or> is_image b \<and> b' = TextBlock (dropped_label b)) bs bs')"

lemma content_blocks_ex: "list_ex P (content_blocks m) \<Longrightarrow> m_content m = Blocks (content_blocks m)"
  by (simp add: content_blocks_def split: content.splits)

lemma drop_messages_same: "list_all2 same_but_labels ms (drop_messages n ms)"
proof (induction n ms rule: drop_messages.induct)
  case (2 n m ms)
  show ?case
  proof (cases "n > 0 \<and> list_ex is_image (content_blocks m)")
    case True
    obtain bs k where d: "drop_blocks n (content_blocks m) = (bs, k)" by fastforce
    have "same_but_labels m (m\<lparr>m_content := Blocks bs\<rparr>)"
      using drop_blocks_same [of "content_blocks m" n] d content_blocks_ex True
      by (auto simp: same_but_labels_def)
    with True d 2 show ?thesis by simp
  next
    case False
    then have "same_but_labels m m" by (simp add: same_but_labels_def)
    with False 2 show ?thesis by auto
  qed
qed simp

lemma drop_oldest_eq:
  "drop_oldest_images ms limit
     = (if drop_amount (count_images ms) limit = 0 then ms
        else drop_messages (nat (drop_amount (count_images ms) limit)) ms)"
  by (simp add: drop_oldest_images_def Let_def)

lemma ceil_div_bounds:
  assumes b: "0 < b"
  shows "a \<le> ceil_div a b * b" and "ceil_div a b * b < a + b"
proof -
  define q r where "q = (- a) div b" and "r = (- a) mod b"
  have "q * b + r = - a" unfolding q_def r_def by (rule div_mult_mod_eq)
  moreover have "0 \<le> r" "r < b" using b by (simp_all add: r_def)
  moreover have "ceil_div a b * b = - (q * b)" by (simp add: ceil_div_def q_def)
  ultimately show "a \<le> ceil_div a b * b" and "ceil_div a b * b < a + b" by linarith+
qed

lemma drop_amount_bounds:
  assumes "limit < count"
  shows "count - limit \<le> drop_amount count limit"
    and "drop_amount count limit < count - limit + max 1 (limit div 2)"
proof -
  define c where "c = max 1 (limit div 2)"
  have c: "0 < c" by (simp add: c_def)
  have "drop_amount count limit = max 0 (ceil_div (count - limit) c * c)"
    by (simp add: drop_amount_def Let_def c_def)
  with ceil_div_bounds [OF c, of "count - limit"] assms
  show "count - limit \<le> drop_amount count limit"
    and "drop_amount count limit < count - limit + max 1 (limit div 2)"
    by (simp_all add: c_def)
qed

lemma drop_amount_zero: "count \<le> limit \<Longrightarrow> drop_amount count limit = 0"
proof -
  assume le: "count \<le> limit"
  define c where "c = max 1 (limit div 2)"
  have c: "0 < c" by (simp add: c_def)
  from le c have "0 \<le> (- (count - limit)) div c" by (simp add: pos_imp_zdiv_nonneg_iff)
  with c have "ceil_div (count - limit) c * c \<le> 0"
    by (simp add: ceil_div_def zero_le_mult_iff)
  then show ?thesis by (simp add: drop_amount_def Let_def c_def)
qed

lemma drop_amount_nonneg: "0 \<le> drop_amount count limit"
  by (simp add: drop_amount_def Let_def)

section \<open>Facts of the kept ids and of the summary call\<close>

definition keeps_tag :: "string \<Rightarrow> message \<Rightarrow> bool" where
  "keeps_tag t m \<longleftrightarrow> m_tag m = Some t \<and> m_kind m = KMessage \<and> m_id m \<noteq> None"

lemma latest_by_tag_get:
  "dget (latest_by_tag tags d ms) t =
     (if t \<in> set tags
      then (case find (keeps_tag t) (rev ms) of Some m \<Rightarrow> m_id m | None \<Rightarrow> dget d t)
      else dget d t)"
proof (induction tags d ms rule: latest_by_tag.induct)
  case (2 tags d m ms)
  let ?d = "case (m_tag m, m_id m) of
          (Some t, Some i) \<Rightarrow> (if t \<in> set tags \<and> m_kind m = KMessage then dset t i d else d)
        | _ \<Rightarrow> d"
  have "dget ?d t = (if t \<in> set tags \<and> keeps_tag t m then m_id m else dget d t)"
    by (auto simp: keeps_tag_def split: option.split)
  moreover have "find (keeps_tag t) (rev (m # ms)) = (case find (keeps_tag t) (rev ms) of
      None \<Rightarrow> if keeps_tag t m then Some m else None | Some x \<Rightarrow> Some x)"
    by (simp add: find_append cong: option.case_cong)
  ultimately show ?case
    using 2 by (simp split: option.split)
qed simp

lemma wf_latest_by_tag: "wf_dict d \<Longrightarrow> wf_dict (latest_by_tag tags d ms)"
  by (induction tags d ms rule: latest_by_tag.induct) (auto split: option.split)

lemma set_dvalues: "wf_dict d \<Longrightarrow> i \<in> set (dvalues d) \<longleftrightarrow> (\<exists>k. dget d k = Some i)"
  using wf_dict_in_set [of d] by (auto simp: image_iff Bex_def)

lemma request_block_images:
  "filter is_image (request_block images b) = (if images then filter is_image [b] else [])"
  by (cases b) (auto simp: request_block_def is_image_def)

lemma label_message_images:
  "filter is_image (content_blocks (label_message images m))
     = (if images then filter is_image (content_blocks m) else [])"
proof (cases "list_ex is_media (content_blocks m)")
  case True
  have "filter is_image (concat (map (request_block images) bs))
      = (if images then filter is_image bs else [])" for bs
    by (induction bs) (auto simp: request_block_images)
  with True show ?thesis by (simp add: label_message_def content_blocks_def)
next
  case False
  have "is_image b \<Longrightarrow> is_media b" for b by (cases b) (auto simp: is_image_def)
  with False have "\<not> list_ex is_image (content_blocks m)" by (auto simp: list_ex_iff)
  with False show ?thesis by (auto simp: label_message_def filter_none_image)
qed

lemma text_message_images [simp]: "content_blocks (new_message r (Text t)) = []"
  by (simp add: content_blocks_def new_message_def)

section \<open>Properties\<close>

text \<open>The model's view: ids and messages stay aligned, no compaction row is ever in it, its ids
  are those of the ordinary rows in order (after one \<open>None\<close> for the summary), the rows after the last
  compaction row end it verbatim, and \<open>usage_from\<close> points at the first of them; without a compaction
  row it is the rows themselves.\<close>

theorem build_view_shape:
  assumes "build_view rows = Inr v"
  shows "length (mv_ids v) = length (mv_messages v)
     \<and> list_all (\<lambda>m. m_kind m = KMessage) (mv_messages v)
     \<and> (case last_compaction rows of
          None \<Rightarrow> mv_messages v = rows \<and> mv_ids v = map m_id rows \<and> mv_usage_from v = 0
        | Some i \<Rightarrow> drop (mv_usage_from v) (mv_messages v) = drop (Suc i) rows
            \<and> mv_ids v = None # map m_id (filter (\<lambda>m. m_kind m = KMessage) rows)
            \<and> mv_messages v \<noteq> [] \<and> mv_compaction v \<noteq> None)"
  using assms
proof (cases rule: build_view_cases)
  case plain
  from plain(1) have "list_all (\<lambda>m. m_kind m = KMessage) rows" by (simp add: last_compaction_None)
  with plain show ?thesis by simp
next
  case (compacted i block)
  have kinds: "list_all (\<lambda>m. m_kind m = KMessage) (map fst (view_rows i {} rows))"
    using view_rows_kind by (fastforce simp: list_all_iff)
  have split: "map fst (view_rows i {} rows)
      = map fst (view_rows i {} (take i rows)) @ drop (Suc i) rows"
    by (rule view_rows_split [OF compacted(1)])
  then have "length (view_rows i {} rows)
      = length (view_rows i {} (take i rows)) + (length rows - Suc i)"
    by (metis length_append length_drop length_map)
  with compacted split have "drop (mv_usage_from v) (mv_messages v) = drop (Suc i) rows"
    by simp
  with compacted kinds show ?thesis by (simp add: view_rows_ids length_view_rows)
qed

definition sample_rows :: "message list" where
  "sample_rows =
     [(new_message ''tool'' (Text ''42''))\<lparr>m_tool_call_id := Some ''c1'', m_tag := Some ''tool:f'', m_id := Some ''m1''\<rparr>,
      (new_message ''user'' (Blocks [CompactionBlock \<lparr>cb_summary = ''s'', cb_kept = [''m1''], cb_reason = ''tokens'',
         cb_tokens_before = 9, cb_tokens_after = 1, cb_images_before = 0, cb_images_after = 0\<rparr>]))
         \<lparr>m_kind := KCompaction, m_id := Some ''m2''\<rparr>,
      (new_message ''user'' (Text ''go on''))\<lparr>m_id := Some ''m3''\<rparr>]"

definition sample_view :: model_view where
  "sample_view = (case build_view sample_rows of Inr v \<Rightarrow> v | Inl _ \<Rightarrow> undefined)"

lemma sample_view_eq: "build_view sample_rows = Inr sample_view"
  by code_simp

theorem build_view_shape_witness:
  "length (mv_ids sample_view) = length (mv_messages sample_view)
   \<and> drop (mv_usage_from sample_view) (mv_messages sample_view) = drop 2 sample_rows"
proof -
  have "last_compaction sample_rows = Some 1" by code_simp
  note shape = build_view_shape [OF sample_view_eq, unfolded this option.case]
  from shape show ?thesis unfolding numeral_2_eq_2 One_nat_def by blast
qed

text \<open>C19. No tool result of the replaced part reaches the model without its call: in the view, each
  message of role \<open>tool\<close> before the part stored after the compaction row answers a tool call made by a
  message earlier in the same view (the others have become user messages).\<close>

theorem view_results_follow_calls:
  assumes "build_view rows = Inr v" and "last_compaction rows \<noteq> None"
    and "i < mv_usage_from v" and "m_role (mv_messages v ! i) = ''tool''"
  shows "\<exists>c. m_tool_call_id (mv_messages v ! i) = Some c
     \<and> (\<exists>a \<in> set (take i (mv_messages v)). c \<in> set (call_ids a))"
  using assms(1)
proof (cases rule: build_view_cases)
  case plain
  with assms(2) show ?thesis by simp
next
  case (compacted b block)
  let ?front = "view_rows b {} (take b rows)"
  have split: "map fst (view_rows b {} rows) = map fst ?front @ drop (Suc b) rows"
    by (rule view_rows_split [OF compacted(1)])
  then have "length (view_rows b {} rows) = length ?front + (length rows - Suc b)"
    by (metis length_append length_drop length_map)
  with compacted assms(3) have i: "i < Suc (length ?front)" by simp
  with assms(4) compacted have "i \<noteq> 0" by (cases i) simp_all
  then obtain j where j: "i = Suc j" by (cases i) auto
  with i have lt: "j < length ?front" by simp
  from compacted split j lt
  have at: "mv_messages v ! i = fst (?front ! j)"
    and before: "take i (mv_messages v) = summary_message (cb_summary block) # map fst (take j ?front)"
    by (simp_all add: nth_append take_map)
  from view_rows_paired [OF lt] assms(4) at
  have "answered_in {} (map fst (take j ?front)) (fst (?front ! j))" by simp
  with at before show ?thesis by (auto simp: answered_in_def)
qed

definition kept_rows :: "message list" where
  "kept_rows =
     (new_message ''assistant'' NoContent)\<lparr>m_tool_calls := Some [\<lparr>tc_id = ''c1'',
        tc_function = \<lparr>fn_name = ''f'', fn_arguments = ''{}''\<rparr>, tc_type = ''function'',
        tc_thought_signature = None, tc_extra_content = []\<rparr>], m_id := Some ''m0''\<rparr> # sample_rows"

definition kept_view :: model_view where
  "kept_view = (case build_view kept_rows of Inr v \<Rightarrow> v | Inl _ \<Rightarrow> undefined)"

theorem view_results_follow_calls_witness:
  "\<exists>c. m_tool_call_id (mv_messages kept_view ! 2) = Some c
     \<and> (\<exists>a \<in> set (take 2 (mv_messages kept_view)). c \<in> set (call_ids a))"
proof (rule view_results_follow_calls)
  show "build_view kept_rows = Inr kept_view" by code_simp
  show "last_compaction kept_rows \<noteq> None" by code_simp
  show "2 < mv_usage_from kept_view" by code_simp
  show "m_role (mv_messages kept_view ! 2) = ''tool''" by code_simp
qed

text \<open>The pending part carried whole across a compaction: it starts between the floor and the end,
  holds no assistant message except possibly its first, and that one only when it made tool calls, so
  a call is never cut off from its results.\<close>

theorem pending_part_whole:
  assumes "low \<le> length view"
  shows "low \<le> pending_start view low \<and> pending_start view low \<le> length view
     \<and> (\<forall>i. pending_start view low < i \<and> i < length view \<longrightarrow> m_role (view ! i) \<noteq> ''assistant'')
     \<and> (pending_start view low < length view
          \<and> m_role (view ! pending_start view low) = ''assistant''
          \<longrightarrow> has_tool_calls (view ! pending_start view low))"
  using assms pending_from_bounds [of low "length view" view]
    pending_from_no_assistant [of view low] pending_from_first [of view low "length view"]
  by (auto simp: pending_start_def)

theorem pending_part_whole_witness: "0 \<le> pending_start kept_rows 0 \<and> pending_start kept_rows 0 \<le> 4"
  using pending_part_whole [of 0 kept_rows] by (simp add: kept_rows_def sample_rows_def)

text \<open>\<open>drop_oldest_images\<close> brings the request to at most \<open>limit\<close> images by replacing a prefix of its
  images, in order, by text labels, in a multiple of half the limit; the images it keeps are the
  latest ones, at least about half of the limit, and nothing else of any message changes.\<close>

theorem drop_oldest_images_spec:
  assumes "0 \<le> limit"
  shows "\<exists>d. image_blocks (drop_oldest_images ms limit) = drop d (image_blocks ms)
     \<and> count_images (drop_oldest_images ms limit) \<le> limit
     \<and> max 1 (limit div 2) dvd int d
     \<and> (count_images ms \<le> limit \<longrightarrow> drop_oldest_images ms limit = ms)
     \<and> (limit < count_images ms \<longrightarrow>
          limit - max 1 (limit div 2) < count_images ms - int d)
     \<and> list_all2 same_but_labels ms (drop_oldest_images ms limit)"
proof -
  let ?d = "drop_amount (count_images ms) limit"
  have images: "image_blocks (drop_oldest_images ms limit) = drop (nat ?d) (image_blocks ms)"
    by (simp add: drop_oldest_eq drop_messages_images)
  have "count_images (drop_oldest_images ms limit) \<le> limit"
  proof (cases "limit < count_images ms")
    case True
    from drop_amount_bounds(1) [OF True] images assms show ?thesis
      by (simp add: count_image_blocks)
  next
    case False
    then show ?thesis by (simp add: drop_oldest_eq drop_amount_zero)
  qed
  moreover have "max 1 (limit div 2) dvd ?d" by (simp add: drop_amount_def Let_def max_def)
  moreover have "limit < count_images ms \<Longrightarrow> limit - max 1 (limit div 2) < count_images ms - ?d"
    using drop_amount_bounds(2) [of limit "count_images ms"] by linarith
  moreover have "list_all2 same_but_labels ms (drop_oldest_images ms limit)"
    using drop_messages_same by (auto simp: drop_oldest_eq list_all2_refl same_but_labels_def)
  moreover have "count_images ms \<le> limit \<Longrightarrow> drop_oldest_images ms limit = ms"
    by (simp add: drop_oldest_eq drop_amount_zero)
  ultimately show ?thesis using images drop_amount_nonneg [of "count_images ms" limit]
    by (intro exI [of _ "nat ?d"]) simp
qed

theorem drop_oldest_images_spec_witness:
  "count_images (drop_oldest_images
     [new_message ''user'' (Blocks [UrlImageBlock ''u'' ''image/png'', UrlImageBlock ''v'' ''image/png''])] 1) \<le> 1"
  using drop_oldest_images_spec [of 1] by force

text \<open>A compaction keeps, of each configured tag, exactly the id of the latest stored ordinary
  message with that tag before the boundary, and nothing else.\<close>

theorem kept_ids_latest:
  "set (kept_ids history before tags) =
     {i. \<exists>t \<in> set tags. \<exists>m. find (keeps_tag t) (rev (take before history)) = Some m \<and> m_id m = Some i}"
proof -
  let ?d = "latest_by_tag tags [] (take before history)"
  have "i \<in> set (dvalues ?d) \<longleftrightarrow> (\<exists>t. dget ?d t = Some i)" for i
    by (rule set_dvalues) (simp add: wf_latest_by_tag)
  then have "set (kept_ids history before tags) = {i. \<exists>t. dget ?d t = Some i}"
    unfolding kept_ids_def by blast
  also have "\<dots> = {i. \<exists>t \<in> set tags. \<exists>m. find (keeps_tag t) (rev (take before history)) = Some m
      \<and> m_id m = Some i}"
    unfolding latest_by_tag_get by (auto split: option.splits if_splits)
  finally show ?thesis .
qed

text \<open>The summary call sends every message of the replaced context plus one prompt, last: with
  \<open>images\<close> all of its images in order, without them none at all.\<close>

theorem compaction_request_images:
  "image_blocks (compaction_request view instructions prompt images)
     = (if images then image_blocks view else [])
   \<and> length (compaction_request view instructions prompt images) = Suc (length view)
   \<and> m_role (last (compaction_request view instructions prompt images)) = ''user''"
proof -
  have "concat (map (\<lambda>m. filter is_image (content_blocks m)) (map (label_message images) view))
      = (if images then image_blocks view else [])"
    by (induction view) (simp_all add: label_message_images image_blocks_def)
  then show ?thesis
    by (simp add: compaction_request_def image_blocks_def Let_def new_message_def content_blocks_def)
qed

text \<open>A request crosses its limits exactly when a configured limit is exceeded, and the reasons
  name the limits in order.\<close>

theorem crossed_limits_iff:
  "crossed_limits req window cap threshold image_threshold =
     (let t = (\<exists>w. window = Some w \<and> threshold * of_int w < of_int (cm_tokens req));
          i = (\<exists>n. cap = Some n \<and> image_threshold * of_int n < of_int (cm_images req))
      in if t \<and> i then Some ''tokens,images'' else if t then Some ''tokens''
         else if i then Some ''images'' else None)"
  by (auto simp: crossed_limits_def Let_def split: option.split)

end
