(* ===== verification/Stores.thy ===== *)
theory Stores
  imports Session Compaction
begin

text \<open>
  The projection stores the runtime writes: the records of \<open>actant/runtime/types/threads.py\<close> and the
  in-memory stores of \<open>actant/runtime/stores/in_memory.py\<close>. One \<open>world\<close> record holds the dictionaries
  of all of them, the events handed to the event sink, the completions handed to the application, and
  a counter that stands for \<open>uuid4\<close>. Thread rows are copied on every read and write; run and
  tool-call rows are not, but no modelled caller changes a row it holds other than by the store.
\<close>

section \<open>Rows\<close>

datatype thread_status = ThreadIdle | ThreadActive | ThreadFailed | ThreadCancelled

datatype run_status = RunActive | RunIdle | RunExhausted | RunFailed | RunCancelled

record agent_thread =
  th_id :: string
  th_agent_id :: string
  th_status :: thread_status
  th_turn_count :: int
  th_active_run_id :: "string option"
  th_parent_thread_id :: "string option"
  th_parent_turn_id :: "string option"
  th_parent_tool_call_id :: "string option"
  th_sandbox_id :: "string option"
  th_sandbox_access :: "sandbox_access option"

definition new_thread :: "string \<Rightarrow> string \<Rightarrow> agent_thread" where
  "new_thread thread_id agent_id = \<lparr>th_id = thread_id, th_agent_id = agent_id, th_status = ThreadIdle,
     th_turn_count = 0, th_active_run_id = None, th_parent_thread_id = None, th_parent_turn_id = None,
     th_parent_tool_call_id = None, th_sandbox_id = None, th_sandbox_access = None\<rparr>"

record agent_run =
  run_id :: string
  run_agent_id :: string
  run_thread_id :: string
  run_status :: run_status
  run_turn_count :: int
  run_max_turns :: int
  run_stop_reason :: "string option"

definition remaining_turns :: "agent_run \<Rightarrow> int" where
  "remaining_turns r = max 0 (run_max_turns r - run_turn_count r)"

record message_record =
  mr_id :: string
  mr_agent_id :: string
  mr_thread_id :: string
  mr_message :: message

text \<open>What a finished run hands to the application (\<open>actant/runtime/completion.py\<close>).\<close>

record run_completion =
  rc_agent_id :: string
  rc_thread_id :: string
  rc_run_id :: string
  rc_outcome :: string
  rc_stop_reason :: "string option"
  rc_artifacts :: "json list"

record world =
  w_threads :: "(string \<times> string, agent_thread) dict"
  w_runs :: "(string, agent_run) dict"
  w_calls :: "(string, tool_call_record) dict"
  w_messages :: "(string \<times> string, message list) dict"
  w_counter :: nat
  w_turns :: "(string, string) dict"
  w_events :: "(string \<times> json_obj) list"
  w_completions :: "run_completion list"
  w_uuids :: nat

definition new_world :: world where
  "new_world = \<lparr>w_threads = [], w_runs = [], w_calls = [], w_messages = [], w_counter = 0,
     w_turns = [], w_events = [], w_completions = [], w_uuids = 0\<rparr>"

definition new_id :: "string \<Rightarrow> (world, string) act" where
  "new_id pre w = (Inr (pre @ ''_'' @ nat_str (w_uuids w)), w\<lparr>w_uuids := Suc (w_uuids w)\<rparr>)"

section \<open>Threads\<close>

definition threads_get_or_create :: "string \<Rightarrow> string \<Rightarrow> (world, agent_thread) act" where
  "threads_get_or_create agent_id thread_id w =
     (case dget (w_threads w) (agent_id, thread_id) of
        Some t \<Rightarrow> (Inr t, w)
      | None \<Rightarrow>
          (let t = new_thread thread_id agent_id
           in (Inr t, w\<lparr>w_threads := dset (agent_id, thread_id) t (w_threads w)\<rparr>)))"

definition threads_get :: "string \<Rightarrow> string \<Rightarrow> (world, agent_thread) act" where
  "threads_get agent_id thread_id = readS (\<lambda>w. case dget (w_threads w) (agent_id, thread_id) of
      Some t \<Rightarrow> Inr t | None \<Rightarrow> Inl (KeyError thread_id))"

definition threads_update :: "agent_thread \<Rightarrow> (world, unit) act" where
  "threads_update t =
     modifyS (\<lambda>w. w\<lparr>w_threads := dset (th_agent_id t, th_id t) t (w_threads w)\<rparr>)"

definition list_children :: "string \<Rightarrow> world \<Rightarrow> agent_thread list" where
  "list_children thread_id w =
     filter (\<lambda>t. th_parent_thread_id t = Some thread_id) (dvalues (w_threads w))"

definition list_for_agent :: "string \<Rightarrow> world \<Rightarrow> agent_thread list" where
  "list_for_agent agent_id w = map snd (filter (\<lambda>((a, _), _). a = agent_id) (w_threads w))"

section \<open>Runs\<close>

definition runs_create :: "string \<Rightarrow> string \<Rightarrow> string \<Rightarrow> int \<Rightarrow> (world, agent_run) act" where
  "runs_create agent_id thread_id rid max_turns w =
     (let run = \<lparr>run_id = rid, run_agent_id = agent_id, run_thread_id = thread_id,
            run_status = RunActive, run_turn_count = 0, run_max_turns = max 1 max_turns,
            run_stop_reason = None\<rparr>
      in case dget (w_runs w) rid of
           Some r \<Rightarrow> (Inr r, w)
         | None \<Rightarrow> (Inr run, w\<lparr>w_runs := dsetdefault rid run (w_runs w)\<rparr>))"

definition runs_get :: "string \<Rightarrow> (world, agent_run) act" where
  "runs_get rid = readS (\<lambda>w. case dget (w_runs w) rid of Some r \<Rightarrow> Inr r | None \<Rightarrow> Inl (KeyError rid))"

definition runs_update :: "agent_run \<Rightarrow> (world, unit) act" where
  "runs_update r = modifyS (\<lambda>w. w\<lparr>w_runs := dset (run_id r) r (w_runs w)\<rparr>)"

definition runs_for_thread :: "string \<Rightarrow> string \<Rightarrow> world \<Rightarrow> agent_run list" where
  "runs_for_thread agent_id thread_id w =
     rev (filter (\<lambda>r. run_agent_id r = agent_id \<and> run_thread_id r = thread_id) (dvalues (w_runs w)))"

definition runs_finish :: "string \<Rightarrow> run_status \<Rightarrow> string option \<Rightarrow> (world, unit) act" where
  "runs_finish rid status stop_reason = modifyS (\<lambda>w.
     case dget (w_runs w) rid of
       None \<Rightarrow> w
     | Some r \<Rightarrow>
         w\<lparr>w_runs := dset rid (r\<lparr>run_status := status, run_stop_reason := stop_reason\<rparr>) (w_runs w)\<rparr>)"

section \<open>Tool calls\<close>

definition terminal_status :: "tool_call_status \<Rightarrow> bool" where
  "terminal_status s \<longleftrightarrow> s \<in> {COMPLETED, BLOCKED, FAILED}"

definition calls_save :: "tool_call_record \<Rightarrow> (world, unit) act" where
  "calls_save tc = modifyS (\<lambda>w. w\<lparr>w_calls := dset (r_id tc) tc (w_calls w)\<rparr>)"

text \<open>\<open>result\<close> is \<open>JNull\<close> for the default \<open>None\<close>.\<close>

definition update_record ::
  "tool_call_status \<Rightarrow> json \<Rightarrow> string option \<Rightarrow> json_obj option \<Rightarrow> tool_call_record \<Rightarrow> tool_call_record" where
  "update_record status result prompt wait_request tc =
     (let tc1 = tc\<lparr>r_status := status\<rparr>;
          tc2 = (if result \<noteq> JNull then tc1\<lparr>r_result := result\<rparr> else tc1);
          tc3 = (if prompt \<noteq> None then tc2\<lparr>r_prompt := prompt\<rparr> else tc2)
      in if wait_request \<noteq> None then tc3\<lparr>r_wait_request := wait_request\<rparr> else tc3)"

definition calls_update_status ::
  "string \<Rightarrow> tool_call_status \<Rightarrow> json \<Rightarrow> string option \<Rightarrow> json_obj option \<Rightarrow> (world, bool) act" where
  "calls_update_status call_id status result prompt wait_request w =
     (case dget (w_calls w) call_id of
        None \<Rightarrow> (Inl (KeyError call_id), w)
      | Some tc \<Rightarrow>
          (if terminal_status (r_status tc) then (Inr False, w)
           else (Inr True, w\<lparr>w_calls :=
              dset call_id (update_record status result prompt wait_request tc) (w_calls w)\<rparr>)))"

definition calls_finish_waiting :: "string \<Rightarrow> tool_call_status \<Rightarrow> json \<Rightarrow> (world, bool) act" where
  "calls_finish_waiting call_id status result w =
     (case dget (w_calls w) call_id of
        None \<Rightarrow> (Inl (KeyError call_id), w)
      | Some tc \<Rightarrow>
          (if r_status tc \<noteq> WAITING then (Inr False, w)
           else (Inr True, w\<lparr>w_calls :=
              dset call_id (tc\<lparr>r_status := status, r_result := result\<rparr>) (w_calls w)\<rparr>)))"

definition calls_get :: "string \<Rightarrow> (world, tool_call_record) act" where
  "calls_get call_id = readS (\<lambda>w. case dget (w_calls w) call_id of
      Some tc \<Rightarrow> Inr tc | None \<Rightarrow> Inl (KeyError call_id))"

definition get_group :: "string \<Rightarrow> world \<Rightarrow> tool_call_record list" where
  "get_group group_id w = filter (\<lambda>tc. r_group_id tc = group_id) (dvalues (w_calls w))"

definition get_by_run :: "string \<Rightarrow> world \<Rightarrow> tool_call_record list" where
  "get_by_run rid w = filter (\<lambda>tc. r_run_id tc = rid) (dvalues (w_calls w))"

definition get_open_for_thread :: "string \<Rightarrow> string \<Rightarrow> world \<Rightarrow> tool_call_record list" where
  "get_open_for_thread agent_id thread_id w =
     filter (\<lambda>tc. r_agent_id tc = agent_id \<and> r_thread_id tc = thread_id
               \<and> r_status tc \<in> {REQUESTED, RUNNING, WAITING}) (dvalues (w_calls w))"

section \<open>Messages\<close>

definition rows_of :: "string \<Rightarrow> string \<Rightarrow> world \<Rightarrow> message list" where
  "rows_of agent_id thread_id w =
     (case dget (w_messages w) (agent_id, thread_id) of None \<Rightarrow> [] | Some ms \<Rightarrow> ms)"

definition append_row ::
  "string \<Rightarrow> string \<Rightarrow> message \<Rightarrow> string option \<Rightarrow> (world, message_record) act" where
  "append_row agent_id thread_id message turn_id w =
     (let n = Suc (w_counter w);
          mid = ''msg_'' @ nat_str n;
          m = message\<lparr>m_id := Some mid\<rparr>;
          turns = (case turn_id of None \<Rightarrow> w_turns w | Some t \<Rightarrow> dset mid t (w_turns w));
          rows = rows_of agent_id thread_id w @ [m]
      in (Inr \<lparr>mr_id = mid, mr_agent_id = agent_id, mr_thread_id = thread_id, mr_message = m\<rparr>,
          w\<lparr>w_counter := n, w_turns := turns,
            w_messages := dset (agent_id, thread_id) rows (w_messages w)\<rparr>))"

definition append_user ::
  "string \<Rightarrow> string \<Rightarrow> content \<Rightarrow> string option \<Rightarrow> string option \<Rightarrow> (world, message_record) act" where
  "append_user agent_id thread_id content tag turn_id =
     (case content of
        Blocks bs \<Rightarrow>
          (case validate_blocks bs of
             Inl e \<Rightarrow> raise e
           | Inr bs \<Rightarrow> append_row agent_id thread_id
               ((new_message ''user'' (Blocks bs))\<lparr>m_tag := tag\<rparr>) turn_id)
      | _ \<Rightarrow> append_row agent_id thread_id ((new_message ''user'' content)\<lparr>m_tag := tag\<rparr>) turn_id)"

definition append_compaction ::
  "string \<Rightarrow> string \<Rightarrow> compaction_block \<Rightarrow> (world, message_record) act" where
  "append_compaction agent_id thread_id block =
     append_row agent_id thread_id
       ((new_message ''user'' (Blocks [CompactionBlock block]))\<lparr>m_kind := KCompaction\<rparr>) None"

definition append_assistant ::
  "string \<Rightarrow> string \<Rightarrow> string \<Rightarrow> message \<Rightarrow> (world, message_record) act" where
  "append_assistant agent_id thread_id turn_id message =
     append_row agent_id thread_id message (Some turn_id)"

definition append_assistant_with_tool_calls ::
  "string \<Rightarrow> string \<Rightarrow> string \<Rightarrow> message \<Rightarrow> tool_call_record list \<Rightarrow> (world, message_record) act" where
  "append_assistant_with_tool_calls agent_id thread_id turn_id message tool_calls =
     bnd (append_assistant agent_id thread_id turn_id message) (\<lambda>r.
     thn (for_each calls_save tool_calls) (ret r))"

definition is_tool_row :: "string \<Rightarrow> message \<Rightarrow> bool" where
  "is_tool_row call_id m \<longleftrightarrow> m_role m = ''tool'' \<and> m_tool_call_id m = Some call_id"

definition tool_row :: "string \<Rightarrow> string \<Rightarrow> content \<Rightarrow> message" where
  "tool_row call_id name c = (new_message ''tool'' c)\<lparr>m_tool_call_id := Some call_id,
     m_name := Some name, m_tag := Some (''tool:'' @ name)\<rparr>"

definition append_tool_result ::
  "(json \<Rightarrow> int option) \<Rightarrow> string \<Rightarrow> string \<Rightarrow> string \<Rightarrow> string \<Rightarrow> string \<Rightarrow> json
     \<Rightarrow> (world, message_record) act" where
  "append_tool_result as_int agent_id thread_id turn_id call_id name result =
     bnd getS (\<lambda>w.
     case find (is_tool_row call_id) (rows_of agent_id thread_id w) of
       Some m \<Rightarrow> bnd (new_id ''msg'') (\<lambda>mid. ret \<lparr>mr_id = mid, mr_agent_id = agent_id,
                   mr_thread_id = thread_id, mr_message = m\<rparr>)
     | None \<Rightarrow>
         (case tool_result_content as_int result of
            Inl e \<Rightarrow> raise e
          | Inr c \<Rightarrow> append_row agent_id thread_id (tool_row call_id name c) None))"

definition list_for_thread :: "string \<Rightarrow> string \<Rightarrow> world \<Rightarrow> message list" where
  "list_for_thread agent_id thread_id w = rows_of agent_id thread_id w"

definition list_for_turn :: "string \<Rightarrow> string \<Rightarrow> string \<Rightarrow> world \<Rightarrow> message list" where
  "list_for_turn agent_id thread_id turn_id w =
     filter (\<lambda>m. case m_id m of None \<Rightarrow> False | Some i \<Rightarrow> dget (w_turns w) i = Some turn_id)
       (rows_of agent_id thread_id w)"

definition rows_for_model :: "message list \<Rightarrow> py_error + message list" where
  "rows_for_model rows =
     (case last_compaction rows of
        None \<Rightarrow> Inr rows
      | Some start \<Rightarrow> try_bind (compaction_of (rows ! start)) (\<lambda>block.
          (let kept = (case block of None \<Rightarrow> [] | Some b \<Rightarrow> cb_kept b)
           in Inr (map snd (filter (\<lambda>(i, m). start \<le> i
                 \<or> (case m_id m of None \<Rightarrow> False | Some x \<Rightarrow> x \<in> set kept)) (enumerate 0 rows))))))"

definition list_for_model :: "string \<Rightarrow> string \<Rightarrow> (world, message list) act" where
  "list_for_model agent_id thread_id = readS (\<lambda>w. rows_for_model (rows_of agent_id thread_id w))"

section \<open>Contracts\<close>

text \<open>
  What every operation on the projections does to them, saving a call under an id already in use
  excepted: a finished call is never changed, a call keeps what it was requested with, calls are only
  added, each under its own id, and transcripts only grow.
\<close>

definition same_request :: "tool_call_record \<Rightarrow> tool_call_record \<Rightarrow> bool" where
  "same_request r r' \<longleftrightarrow> r_id r' = r_id r \<and> r_group_id r' = r_group_id r \<and> r_run_id r' = r_run_id r
     \<and> r_agent_id r' = r_agent_id r \<and> r_thread_id r' = r_thread_id r \<and> r_turn_id r' = r_turn_id r
     \<and> r_turn_index r' = r_turn_index r \<and> r_name r' = r_name r \<and> r_args r' = r_args r"

definition call_step :: "tool_call_record \<Rightarrow> tool_call_record \<Rightarrow> bool" where
  "call_step r r' \<longleftrightarrow> same_request r r' \<and> (terminal_status (r_status r) \<longrightarrow> r' = r)"

definition calls_kept :: "world \<Rightarrow> world \<Rightarrow> bool" where
  "calls_kept w w' \<longleftrightarrow> prefix (dkeys (w_calls w)) (dkeys (w_calls w'))
     \<and> (\<forall>i r. dget (w_calls w) i = Some r \<longrightarrow>
          (\<exists>r'. dget (w_calls w') i = Some r' \<and> call_step r r'))
     \<and> (\<forall>i r'. dget (w_calls w') i = Some r' \<longrightarrow> dget (w_calls w) i = None \<longrightarrow> r_id r' = i)"

definition transcripts_grow :: "world \<Rightarrow> world \<Rightarrow> bool" where
  "transcripts_grow w w' \<longleftrightarrow> (\<forall>a t. prefix (rows_of a t w) (rows_of a t w'))"

definition store_step :: "world \<Rightarrow> world \<Rightarrow> bool" where
  "store_step w w' \<longleftrightarrow> calls_kept w w' \<and> transcripts_grow w w'"

lemma call_step_refl [simp]: "call_step r r"
  by (simp add: call_step_def same_request_def)

lemma call_step_trans: "call_step r s \<Longrightarrow> call_step s t \<Longrightarrow> call_step r t"
  by (auto simp: call_step_def same_request_def)

lemma calls_kept_refl: "calls_kept w w"
  by (simp add: calls_kept_def)

lemma calls_kept_call:
  "calls_kept w w' \<Longrightarrow> dget (w_calls w) i = Some r \<Longrightarrow>
   \<exists>r'. dget (w_calls w') i = Some r' \<and> call_step r r'"
  by (simp add: calls_kept_def)

lemma calls_kept_new:
  "calls_kept w w' \<Longrightarrow> dget (w_calls w) i = None \<Longrightarrow> dget (w_calls w') i = Some r \<Longrightarrow> r_id r = i"
  by (simp add: calls_kept_def)

lemma calls_kept_trans:
  assumes "calls_kept u v" and "calls_kept v w"
  shows "calls_kept u w"
  unfolding calls_kept_def
proof (intro conjI allI impI)
  show "prefix (dkeys (w_calls u)) (dkeys (w_calls w))"
    using assms unfolding calls_kept_def by (blast intro: prefix_order.trans)
next
  fix i r assume "dget (w_calls u) i = Some r"
  from calls_kept_call [OF assms(1) this] obtain s where s: "dget (w_calls v) i = Some s" "call_step r s"
    by blast
  from calls_kept_call [OF assms(2) s(1)] call_step_trans [OF s(2)]
  show "\<exists>r'. dget (w_calls w) i = Some r' \<and> call_step r r'" by blast
next
  fix i r assume r: "dget (w_calls w) i = Some r" and new: "dget (w_calls u) i = None"
  show "r_id r = i"
  proof (cases "dget (w_calls v) i")
    case None
    from calls_kept_new [OF assms(2) None r] show ?thesis .
  next
    case (Some s)
    from calls_kept_new [OF assms(1) new Some] calls_kept_call [OF assms(2) Some] r show ?thesis
      by (auto simp: call_step_def same_request_def)
  qed
qed

lemma transcripts_grow_refl: "transcripts_grow w w"
  by (simp add: transcripts_grow_def)

lemma transcripts_grow_trans: "transcripts_grow u v \<Longrightarrow> transcripts_grow v w \<Longrightarrow> transcripts_grow u w"
  unfolding transcripts_grow_def by (meson prefix_order.trans)

interpretation st: step_contract store_step
  by unfold_locales
    (auto simp: store_step_def calls_kept_refl transcripts_grow_refl
      intro: calls_kept_trans transcripts_grow_trans)

interpretation calls_contract: step_contract calls_kept
  by unfold_locales (auto intro: calls_kept_refl calls_kept_trans)

lemma store_step_same:
  "w_calls w' = w_calls w \<Longrightarrow> w_messages w' = w_messages w \<Longrightarrow> store_step w w'"
  by (simp add: store_step_def calls_kept_def transcripts_grow_def rows_of_def)

lemma store_step_finished:
  "store_step w w' \<Longrightarrow> dget (w_calls w) i = Some r \<Longrightarrow> terminal_status (r_status r) \<Longrightarrow>
   dget (w_calls w') i = Some r"
  by (fastforce simp: store_step_def calls_kept_def call_step_def)

lemma store_step_call:
  "store_step w w' \<Longrightarrow> dget (w_calls w) i = Some r \<Longrightarrow>
   \<exists>r'. dget (w_calls w') i = Some r' \<and> call_step r r'"
  by (simp add: store_step_def calls_kept_def)

lemma store_step_rows: "store_step w w' \<Longrightarrow> prefix (rows_of a t w) (rows_of a t w')"
  by (simp add: store_step_def transcripts_grow_def)

lemma same_request_update [simp]: "same_request r (update_record s res p wr r)"
  by (simp add: same_request_def update_record_def Let_def)

lemma status_update [simp]: "r_status (update_record s res p wr r) = s"
  by (simp add: update_record_def Let_def)

lemma store_step_dset_call:
  assumes "dget (w_calls w) i = Some r" and "\<not> terminal_status (r_status r)" and "same_request r r'"
  shows "store_step w (w\<lparr>w_calls := dset i r' (w_calls w)\<rparr>)"
  using assms dget_Some_key [OF assms(1)]
  by (auto simp: store_step_def calls_kept_def call_step_def transcripts_grow_def rows_of_def
      same_request_def dkeys_dset_mem)

lemma store_step_new_call:
  assumes "dget (w_calls w) (r_id r) = None"
  shows "store_step w (w\<lparr>w_calls := dset (r_id r) r (w_calls w)\<rparr>)"
proof -
  from assms have "r_id r \<notin> set (dkeys (w_calls w))" by (simp add: map_of_eq_None_iff)
  from dset_new [OF this] have "prefix (dkeys (w_calls w)) (dkeys (dset (r_id r) r (w_calls w)))" by simp
  with assms show ?thesis
    by (auto simp: store_step_def calls_kept_def transcripts_grow_def rows_of_def)
qed

lemma rows_of_append_row:
  "rows_of a t (snd (append_row agent_id thread_id m turn_id w)) =
     (if (a, t) = (agent_id, thread_id)
      then rows_of a t w @ [m\<lparr>m_id := Some (''msg_'' @ nat_str (Suc (w_counter w)))\<rparr>]
      else rows_of a t w)"
  by (simp add: append_row_def Let_def rows_of_def)

lemma calls_append_row [simp]: "w_calls (snd (append_row a t m turn w)) = w_calls w"
  by (simp add: append_row_def Let_def)

subsection \<open>The operations respect it\<close>

lemma keeps_new_id [keeps_rules]: "keeps store_step (new_id p)"
  by (rule keepsI, rule store_step_same) (simp_all add: new_id_def)

lemma keeps_threads_get_or_create [keeps_rules]: "keeps store_step (threads_get_or_create a t)"
  by (rule keepsI, rule store_step_same)
    (simp_all add: threads_get_or_create_def Let_def split: option.split)

lemma keeps_threads_get [keeps_rules]: "keeps store_step (threads_get a t)"
  by (simp add: threads_get_def st.keeps_readS)

lemma keeps_threads_update [keeps_rules]: "keeps store_step (threads_update t)"
  unfolding threads_update_def by (rule st.keeps_modifyS) (simp add: store_step_same)

lemma keeps_runs_create [keeps_rules]: "keeps store_step (runs_create a t r n)"
  by (rule keepsI, rule store_step_same) (simp_all add: runs_create_def Let_def split: option.split)

lemma keeps_runs_get [keeps_rules]: "keeps store_step (runs_get r)"
  by (simp add: runs_get_def st.keeps_readS)

lemma keeps_runs_update [keeps_rules]: "keeps store_step (runs_update r)"
  unfolding runs_update_def by (rule st.keeps_modifyS) (simp add: store_step_same)

lemma keeps_runs_finish [keeps_rules]: "keeps store_step (runs_finish r s x)"
  unfolding runs_finish_def
  by (rule st.keeps_modifyS) (simp add: store_step_same st.step_refl split: option.split)

lemma keeps_calls_get [keeps_rules]: "keeps store_step (calls_get i)"
  by (simp add: calls_get_def st.keeps_readS)

lemma keeps_calls_update_status [keeps_rules]: "keeps store_step (calls_update_status i s r p x)"
  by (rule keepsI)
    (auto simp: calls_update_status_def st.step_refl store_step_dset_call split: option.split)

lemma keeps_calls_finish_waiting [keeps_rules]: "keeps store_step (calls_finish_waiting i s r)"
  by (rule keepsI)
    (auto simp: calls_finish_waiting_def st.step_refl terminal_status_def same_request_def
      intro!: store_step_dset_call split: option.split)

lemma keeps_append_row [keeps_rules]: "keeps store_step (append_row a t m turn)"
proof (rule keepsI)
  fix w
  show "store_step w (snd (append_row a t m turn w))"
    unfolding store_step_def
  proof
    show "calls_kept w (snd (append_row a t m turn w))" by (simp add: calls_kept_def)
    show "transcripts_grow w (snd (append_row a t m turn w))"
      by (simp add: transcripts_grow_def rows_of_append_row)
  qed
qed

lemma keeps_append_user [keeps_rules]: "keeps store_step (append_user a t c tag turn)"
  by (auto simp: append_user_def st.keeps_raise keeps_append_row split: content.split sum.split)

lemma keeps_append_compaction [keeps_rules]: "keeps store_step (append_compaction a t b)"
  by (simp add: append_compaction_def keeps_append_row)

lemma keeps_append_assistant [keeps_rules]: "keeps store_step (append_assistant a t turn m)"
  by (simp add: append_assistant_def keeps_append_row)

lemma keeps_append_tool_result [keeps_rules]:
  "keeps store_step (append_tool_result as_int a t turn i n r)"
  unfolding append_tool_result_def
  by (auto intro!: st.keeps_monad keeps_rules split: option.split sum.split)

lemma keeps_list_for_model [keeps_rules]: "keeps store_step (list_for_model a t)"
  by (simp add: list_for_model_def st.keeps_readS)

section \<open>Calls that exist and calls that are finished\<close>

definition known :: "string \<Rightarrow> world \<Rightarrow> bool" where
  "known i w \<longleftrightarrow> dget (w_calls w) i \<noteq> None"

definition status_of :: "string \<Rightarrow> world \<Rightarrow> tool_call_status option" where
  "status_of i w = map_option r_status (dget (w_calls w) i)"

definition finished :: "string \<Rightarrow> world \<Rightarrow> bool" where
  "finished i w \<longleftrightarrow> (\<exists>s. status_of i w = Some s \<and> terminal_status s)"

text \<open>Each record is stored under its own id.\<close>

definition calls_keyed :: "world \<Rightarrow> bool" where
  "calls_keyed w \<longleftrightarrow> (\<forall>i r. dget (w_calls w) i = Some r \<longrightarrow> r_id r = i)"

lemma known_step: "store_step w w' \<Longrightarrow> known i w \<Longrightarrow> known i w'"
  using store_step_call by (fastforce simp: known_def)

lemma finished_step: "store_step w w' \<Longrightarrow> finished i w \<Longrightarrow> finished i w'"
  using store_step_finished by (fastforce simp: finished_def status_of_def)

lemma finished_known: "finished i w \<Longrightarrow> known i w"
  by (auto simp: finished_def known_def status_of_def)

lemma calls_keyed_step:
  assumes "store_step w w'" and "calls_keyed w"
  shows "calls_keyed w'"
  unfolding calls_keyed_def
proof (intro allI impI)
  fix i r' assume r': "dget (w_calls w') i = Some r'"
  show "r_id r' = i"
  proof (cases "dget (w_calls w) i")
    case None
    with assms(1) r' show ?thesis unfolding store_step_def by (blast intro: calls_kept_new)
  next
    case (Some r)
    with store_step_call [OF assms(1) Some] r' assms(2) show ?thesis
      by (auto simp: calls_keyed_def call_step_def same_request_def)
  qed
qed

lemma terminal_statuses [simp]:
  "terminal_status COMPLETED" "terminal_status BLOCKED" "terminal_status FAILED"
  "\<not> terminal_status REQUESTED" "\<not> terminal_status RUNNING" "\<not> terminal_status WAITING"
  by (simp_all add: terminal_status_def)

lemma ensures_update_terminal:
  assumes "known i w" and "terminal_status s"
    and "\<And>b w'. store_step w w' \<Longrightarrow> finished i w' \<Longrightarrow> Q (Inr b) w'"
  shows "ensures (calls_update_status i s res p wr) w Q"
proof -
  from assms(1) obtain r where r: "dget (w_calls w) i = Some r" by (auto simp: known_def)
  show ?thesis
  proof (cases "terminal_status (r_status r)")
    case True
    with r assms(3) [of w False] show ?thesis
      by (simp add: ensures_def calls_update_status_def st.step_refl finished_def status_of_def)
  next
    case False
    from keepsD [OF keeps_calls_update_status, of w i s res p wr] r False assms(2)
      assms(3) [of "w\<lparr>w_calls := dset i (update_record s res p wr r) (w_calls w)\<rparr>" True]
    show ?thesis by (simp add: ensures_def calls_update_status_def finished_def status_of_def)
  qed
qed

lemma ensures_update_open:
  assumes "known i w" and "\<not> terminal_status s"
    and "\<And>w'. store_step w w' \<Longrightarrow> status_of i w' = Some s \<Longrightarrow> \<not> finished i w \<Longrightarrow> Q (Inr True) w'"
    and "finished i w \<Longrightarrow> Q (Inr False) w"
  shows "ensures (calls_update_status i s res p wr) w Q"
proof -
  from assms(1) obtain r where r: "dget (w_calls w) i = Some r" by (auto simp: known_def)
  show ?thesis
  proof (cases "terminal_status (r_status r)")
    case True
    with r assms(4) show ?thesis
      by (simp add: ensures_def calls_update_status_def finished_def status_of_def)
  next
    case False
    from keepsD [OF keeps_calls_update_status, of w i s res p wr] r False
      assms(3) [of "w\<lparr>w_calls := dset i (update_record s res p wr r) (w_calls w)\<rparr>"]
    show ?thesis by (simp add: ensures_def calls_update_status_def finished_def status_of_def)
  qed
qed

lemma ensures_finish_waiting:
  assumes "known i w" and "terminal_status s"
    and "\<And>w'. store_step w w' \<Longrightarrow> finished i w' \<Longrightarrow> status_of i w = Some WAITING \<Longrightarrow> Q (Inr True) w'"
    and "status_of i w \<noteq> Some WAITING \<Longrightarrow> Q (Inr False) w"
  shows "ensures (calls_finish_waiting i s res) w Q"
proof -
  from assms(1) obtain r where r: "dget (w_calls w) i = Some r" by (auto simp: known_def)
  show ?thesis
  proof (cases "r_status r = WAITING")
    case True
    from keepsD [OF keeps_calls_finish_waiting, of w i s res] r True assms(2)
      assms(3) [of "w\<lparr>w_calls := dset i (r\<lparr>r_status := s, r_result := res\<rparr>) (w_calls w)\<rparr>"]
    show ?thesis by (simp add: ensures_def calls_finish_waiting_def finished_def status_of_def)
  next
    case False
    with r assms(4) show ?thesis
      by (simp add: ensures_def calls_finish_waiting_def finished_def status_of_def)
  qed
qed

lemma ensures_calls_get:
  assumes "known i w" and "\<And>r. dget (w_calls w) i = Some r \<Longrightarrow> Q (Inr r) w"
  shows "ensures (calls_get i) w Q"
  using assms by (auto simp: calls_get_def ensures_simps known_def)

subsection \<open>Awaiting an action known by its step contract\<close>

lemma await_bnd:
  assumes "keeps store_step m" and "store_step w v"
    and "\<And>e u. store_step w u \<Longrightarrow> Q (Inl e) u"
    and "\<And>a u. store_step v u \<Longrightarrow> store_step w u \<Longrightarrow> ensures (f a) u Q"
  shows "ensures (bnd m f) v Q"
  unfolding ensures_bnd
  by (rule ensures_keeps [OF assms(1)])
    (auto split: sum.split intro: assms(3,4) st.step_trans [OF assms(2)])

lemma await_thn:
  assumes "keeps store_step m" and "store_step w v"
    and "\<And>e u. store_step w u \<Longrightarrow> Q (Inl e) u"
    and "\<And>u. store_step v u \<Longrightarrow> store_step w u \<Longrightarrow> ensures k u Q"
  shows "ensures (thn m k) v Q"
  unfolding thn_def by (rule await_bnd [OF assms])

lemma await_try:
  assumes "keeps store_step m" and "store_step w v"
    and "\<And>u. store_step w u \<Longrightarrow> Q (Inl CancelledError) u"
    and "\<And>e u. store_step v u \<Longrightarrow> store_step w u \<Longrightarrow> ensures (h e) u Q"
    and "\<And>a u. store_step v u \<Longrightarrow> store_step w u \<Longrightarrow> ensures (k a) u Q"
  shows "ensures (try_else m h k) v Q"
  unfolding ensures_try_else
  by (rule ensures_keeps [OF assms(1)])
    (auto split: sum.split dest!: not_exception intro: assms(3-5) st.step_trans [OF assms(2)])

text \<open>The same when what \<open>m\<close> returns is known to satisfy \<open>P\<close>.\<close>

definition yields :: "('a \<Rightarrow> bool) \<Rightarrow> ('s, 'a) act \<Rightarrow> bool" where
  "yields P m \<longleftrightarrow> (\<forall>s a. fst (m s) = Inr a \<longrightarrow> P a)"

lemma yields_bnd: "(\<And>a. yields P (f a)) \<Longrightarrow> yields P (bnd m f)"
  by (auto simp: yields_def bnd_returns)

lemma yields_bnd_ret: "yields P m \<Longrightarrow> (\<And>a. P a \<Longrightarrow> Q (g a)) \<Longrightarrow> yields Q (bnd m (\<lambda>a. ret (g a)))"
  by (auto simp: yields_def bnd_returns ret_def)

lemma await_try_yields:
  assumes "keeps store_step m" and "store_step w v" and "yields P m"
    and "\<And>u. store_step w u \<Longrightarrow> Q (Inl CancelledError) u"
    and "\<And>e u. store_step v u \<Longrightarrow> store_step w u \<Longrightarrow> ensures (h e) u Q"
    and "\<And>a u. P a \<Longrightarrow> store_step v u \<Longrightarrow> store_step w u \<Longrightarrow> ensures (k a) u Q"
  shows "ensures (try_else m h k) v Q"
proof -
  from keepsD [OF assms(1)] have u: "store_step v (snd (m v))" .
  from st.step_trans [OF assms(2) this] have w: "store_step w (snd (m v))" .
  have "ensures m v (\<lambda>r t. r = fst (m v) \<and> t = snd (m v))" by (simp add: ensures_def)
  then show ?thesis unfolding ensures_try_else
    by (rule ensures_mono)
      (use assms(3-6) u w in \<open>auto simp: yields_def dest!: not_exception split: sum.split\<close>)
qed

section \<open>Posting results\<close>

text \<open>The transcript answers a call when it has a tool message for it.\<close>

definition answered :: "string \<Rightarrow> message list \<Rightarrow> bool" where
  "answered i rows \<longleftrightarrow> list_ex (is_tool_row i) rows"

text \<open>Appending the result \<open>res r\<close> of the record \<open>r\<close>, as every caller of \<open>append_tool_result\<close> does.\<close>

definition post_result ::
  "(json \<Rightarrow> int option) \<Rightarrow> (tool_call_record \<Rightarrow> json) \<Rightarrow> tool_call_record \<Rightarrow> (world, unit) act" where
  "post_result as_int res r =
     thn (append_tool_result as_int (r_agent_id r) (r_thread_id r) (r_turn_id r) (r_id r) (r_name r) (res r))
       (ret ())"

definition row_for ::
  "(json \<Rightarrow> int option) \<Rightarrow> (tool_call_record \<Rightarrow> json) \<Rightarrow> tool_call_record \<Rightarrow> message \<Rightarrow> bool" where
  "row_for as_int res r m \<longleftrightarrow> (\<exists>c. tool_result_content as_int (res r) = Inr c
     \<and> m\<lparr>m_id := None\<rparr> = tool_row (r_id r) (r_name r) c)"

definition only_messages :: "world \<Rightarrow> world \<Rightarrow> bool" where
  "only_messages w w' \<longleftrightarrow> w_calls w' = w_calls w \<and> w_threads w' = w_threads w \<and> w_runs w' = w_runs w
     \<and> w_events w' = w_events w \<and> w_completions w' = w_completions w"

lemma only_messages_refl [simp]: "only_messages w w"
  by (simp add: only_messages_def)

lemma only_messages_trans: "only_messages u v \<Longrightarrow> only_messages v w \<Longrightarrow> only_messages u w"
  by (simp add: only_messages_def)

lemma tool_row_simps [simp]:
  "m_role (tool_row i n c) = ''tool''" "m_tool_call_id (tool_row i n c) = Some i"
  "m_kind (tool_row i n c) = KMessage" "m_id (tool_row i n c) = None"
  "m_content (tool_row i n c) = c" "m_tool_calls (tool_row i n c) = None"
  by (simp_all add: tool_row_def new_message_def)

lemma row_for_simps:
  assumes "row_for as_int res r m"
  shows "m_role m = ''tool''" and "m_tool_call_id m = Some (r_id r)" and "is_tool_row i m \<longleftrightarrow> i = r_id r"
proof -
  from assms obtain c where m: "m\<lparr>m_id := None\<rparr> = tool_row (r_id r) (r_name r) c"
    by (auto simp: row_for_def)
  then have "m_role (m\<lparr>m_id := None\<rparr>) = ''tool''" "m_tool_call_id (m\<lparr>m_id := None\<rparr>) = Some (r_id r)"
    by simp_all
  then show "m_role m = ''tool''" and "m_tool_call_id m = Some (r_id r)" and "is_tool_row i m \<longleftrightarrow> i = r_id r"
    by (auto simp: is_tool_row_def)
qed

lemma answered_append [simp]: "answered i (xs @ ys) \<longleftrightarrow> answered i xs \<or> answered i ys"
  by (simp add: answered_def)

lemma answered_Nil [simp]: "\<not> answered i []"
  by (simp add: answered_def)

lemma answered_row_for: "row_for as_int res r m \<Longrightarrow> answered i [m] \<longleftrightarrow> i = r_id r"
  by (simp add: answered_def row_for_simps)

lemma answered_find: "answered i rows \<longleftrightarrow> find (is_tool_row i) rows \<noteq> None"
  by (auto simp: answered_def list_ex_iff find_None_iff)

lemma post_result_spec:
  assumes "\<exists>c. tool_result_content as_int (res r) = Inr c"
  obtains w' new where "post_result as_int res r w = (Inr (), w')" and "only_messages w w'"
    and "\<And>a t. rows_of a t w' = rows_of a t w
           @ (if (a, t) = (r_agent_id r, r_thread_id r) then new else [])"
    and "new = [] \<and> answered (r_id r) (rows_of (r_agent_id r) (r_thread_id r) w)
       \<or> \<not> answered (r_id r) (rows_of (r_agent_id r) (r_thread_id r) w)
         \<and> (\<exists>m. new = [m] \<and> row_for as_int res r m)"
proof (cases "find (is_tool_row (r_id r)) (rows_of (r_agent_id r) (r_thread_id r) w)")
  case (Some m)
  let ?w = "w\<lparr>w_uuids := Suc (w_uuids w)\<rparr>"
  from Some have "answered (r_id r) (rows_of (r_agent_id r) (r_thread_id r) w)"
    by (simp add: answered_find)
  moreover from Some have "post_result as_int res r w = (Inr (), ?w)"
    by (simp add: post_result_def append_tool_result_def new_id_def act_defs)
  ultimately show ?thesis
    by (intro that [of ?w "[]"]) (simp_all add: only_messages_def rows_of_def)
next
  case None
  from assms obtain c where c: "tool_result_content as_int (res r) = Inr c" by blast
  let ?row = "tool_row (r_id r) (r_name r) c"
  let ?app = "append_row (r_agent_id r) (r_thread_id r) ?row None"
  let ?w = "snd (?app w)"
  let ?m = "?row\<lparr>m_id := Some (''msg_'' @ nat_str (Suc (w_counter w)))\<rparr>"
  obtain rec v where app: "?app w = (Inr rec, v)" by (simp add: append_row_def Let_def)
  then have v: "?w = v" by simp
  from app None c have post: "post_result as_int res r w = (Inr (), ?w)"
    unfolding v by (simp add: post_result_def append_tool_result_def act_defs)
  have "row_for as_int res r ?m"
    by (simp add: row_for_def c tool_row_def new_message_def)
  moreover from None have "\<not> answered (r_id r) (rows_of (r_agent_id r) (r_thread_id r) w)"
    by (simp add: answered_find)
  moreover have "only_messages w ?w" by (simp add: only_messages_def append_row_def Let_def)
  moreover have "rows_of a t ?w = rows_of a t w
      @ (if (a, t) = (r_agent_id r, r_thread_id r) then [?m] else [])" for a t
    by (simp add: rows_of_append_row)
  ultimately show ?thesis using post by (intro that [of ?w "[?m]"]) blast+
qed

text \<open>Posting the results of several calls: in order, one row for each that had none.\<close>

lemma post_results_spec:
  assumes "\<And>r. r \<in> set rs \<Longrightarrow> \<exists>c. tool_result_content as_int (res r) = Inr c"
    and "\<And>r. r \<in> set rs \<Longrightarrow> r_agent_id r = a \<and> r_thread_id r = t"
    and "distinct (map r_id rs)"
  shows "\<exists>w' new. for_each (post_result as_int res) rs w = (Inr (), w') \<and> only_messages w w'
     \<and> rows_of a t w' = rows_of a t w @ new
     \<and> (\<forall>a' t'. (a', t') \<noteq> (a, t) \<longrightarrow> rows_of a' t' w' = rows_of a' t' w)
     \<and> list_all2 (row_for as_int res) (filter (\<lambda>r. \<not> answered (r_id r) (rows_of a t w)) rs) new"
  using assms
proof (induction rs arbitrary: w)
  case Nil
  show ?case by (intro exI [of _ w] exI [of _ "[]"]) (simp add: ret_def)
next
  case (Cons r rs)
  from Cons.prems(2) [of r] have r: "r_agent_id r = a" "r_thread_id r = t" by simp_all
  obtain v new where v: "post_result as_int res r w = (Inr (), v)" "only_messages w v"
    and rows: "\<And>a' t'. rows_of a' t' v = rows_of a' t' w @ (if (a', t') = (a, t) then new else [])"
    and new: "new = [] \<and> answered (r_id r) (rows_of a t w)
       \<or> \<not> answered (r_id r) (rows_of a t w) \<and> (\<exists>m. new = [m] \<and> row_for as_int res r m)"
    using post_result_spec [of as_int res r w] Cons.prems(1) [of r] unfolding r by auto
  from Cons.IH [of v] Cons.prems obtain w' news where
    w': "for_each (post_result as_int res) rs v = (Inr (), w')" "only_messages v w'"
      "rows_of a t w' = rows_of a t v @ news"
      "\<forall>a' t'. (a', t') \<noteq> (a, t) \<longrightarrow> rows_of a' t' w' = rows_of a' t' v"
      "list_all2 (row_for as_int res) (filter (\<lambda>r. \<not> answered (r_id r) (rows_of a t v)) rs) news"
    by auto
  have "filter (\<lambda>r. \<not> answered (r_id r) (rows_of a t v)) rs
      = filter (\<lambda>r. \<not> answered (r_id r) (rows_of a t w)) rs"
  proof (rule filter_cong [OF refl])
    fix s assume "s \<in> set rs"
    with Cons.prems(3) have "r_id s \<noteq> r_id r" by (metis distinct.simps(2) image_eqI list.set_map list.simps(9))
    with new rows [of a t] show "(\<not> answered (r_id s) (rows_of a t v)) = (\<not> answered (r_id s) (rows_of a t w))"
      by (auto simp: answered_row_for)
  qed
  with new w'(5) have "list_all2 (row_for as_int res)
      (filter (\<lambda>r. \<not> answered (r_id r) (rows_of a t w)) (r # rs)) (new @ news)" by auto
  moreover have "for_each (post_result as_int res) (r # rs) w = (Inr (), w')"
    using v(1) w'(1) by (simp add: thn_def bnd_def)
  ultimately show ?case using w'(2-4) v(2) rows
    by (intro exI [of _ w'] exI [of _ "new @ news"]) (auto intro: only_messages_trans)
qed

lemma answered_all:
  "list_all2 (row_for as_int res) rs new \<Longrightarrow> answered i new \<longleftrightarrow> i \<in> r_id ` set rs"
  by (induction rule: list_all2_induct) (auto simp: answered_def row_for_simps)

lemma keeps_try_yields:
  assumes "keeps store_step m" and "yields P m" and "\<And>e. keeps store_step (h e)"
    and "\<And>a. P a \<Longrightarrow> keeps store_step (k a)"
  shows "keeps store_step (try_else m h k)"
proof (rule keepsI)
  fix w
  have "ensures (try_else m h k) w (\<lambda>r u. store_step w u)"
    by (rule await_try_yields [OF assms(1) st.step_refl assms(2)])
      (auto intro: ensures_keeps [OF assms(3)] ensures_keeps [OF assms(4)] st.step_trans)
  then show "store_step w (snd (try_else m h k w))" by (simp add: ensures_def)
qed

end
