(* ===== verification/Agents.thy ===== *)
theory Agents
  imports Stores
begin

text \<open>
  Agents: the model client's interface (\<open>actant/llm/base.py\<close>), the tool registry
  (\<open>actant/tools/registry.py\<close>) and the agent definition with its call of the model
  (\<open>actant/agents.py\<close>). A model client is code outside this development: its \<open>complete\<close> is an
  arbitrary action on the world, so the events it streams to its listener, and whatever other tasks do
  meanwhile, are part of it.
\<close>

section \<open>Model clients\<close>

text \<open>\<open>llm_ref\<close> is the object's identity (the code compares clients with \<open>is\<close>); \<open>llm_attrs\<close> holds the
  attributes read with \<open>getattr\<close>.\<close>

record llm_client =
  llm_ref :: string
  llm_type_name :: string
  llm_model_id :: string
  llm_supports_allowed_tools :: bool
  llm_attrs :: json_obj
  llm_complete :: "string \<Rightarrow> message list \<Rightarrow> json list \<Rightarrow> string list \<Rightarrow> int option \<Rightarrow> (world, message) act"

text \<open>\<open>_client_limit\<close> and \<open>_provider_limit\<close> of \<open>activities/runs.py\<close>: a positive integer, no boolean.\<close>

definition client_limit :: "llm_client \<Rightarrow> string \<Rightarrow> int option" where
  "client_limit llm name =
     (case dget (llm_attrs llm) name of Some (JInt i) \<Rightarrow> if i > 0 then Some i else None | _ \<Rightarrow> None)"

section \<open>The tool registry\<close>

type_synonym registry = "(string, world tool) dict"

definition registry_register :: "world tool \<Rightarrow> registry \<Rightarrow> py_error + registry" where
  "registry_register tk reg =
     (if tl_name tk \<in> set (dkeys reg)
      then Inl (ValueError (''Tool '' @ repr_str (tl_name tk) @ '' is already registered''))
      else Inr (dset (tl_name tk) tk reg))"

fun registry_add_all :: "world tool list \<Rightarrow> registry \<Rightarrow> py_error + registry" where
  "registry_add_all [] reg = Inr reg"
| "registry_add_all (tk # tls) reg = try_bind (registry_register tk reg) (registry_add_all tls)"

definition new_registry :: "world tool list \<Rightarrow> py_error + registry" where
  "new_registry tls = registry_add_all tls []"

definition registry_get :: "string \<Rightarrow> registry \<Rightarrow> world tool option" where
  "registry_get name reg = dget reg name"

definition registry_contains :: "string \<Rightarrow> registry \<Rightarrow> bool" where
  "registry_contains name reg \<longleftrightarrow> name \<in> set (dkeys reg)"

definition schemas_for :: "string list \<Rightarrow> registry \<Rightarrow> json list" where
  "schemas_for allowlist reg =
     map tl_schema (if allowlist \<noteq> [] then filter (\<lambda>tk. tl_name tk \<in> set allowlist) (dvalues reg)
                    else dvalues reg)"

section \<open>Agent definitions\<close>

datatype completion_mode = Reply | Terminal

text \<open>A sandbox spec is its JSON form here.\<close>

record agent_definition =
  ad_id :: string
  ad_name :: string
  ad_persona :: string
  ad_llm :: llm_client
  ad_tools :: registry
  ad_tool_allowlist :: "string list"
  ad_max_turns_per_thread :: int
  ad_sandbox :: "json_obj option"
  ad_sandbox_access :: "sandbox_access option"
  ad_completion :: completion_mode
  ad_final_tools :: "string list"

definition agent_post_init :: "agent_definition \<Rightarrow> py_error + agent_definition" where
  "agent_post_init a =
     (if ad_final_tools a = [] then Inr a
      else
        (let unusable = filter (\<lambda>name. \<not> registry_contains name (ad_tools a)
                 \<or> (ad_tool_allowlist a \<noteq> [] \<and> name \<notin> set (ad_tool_allowlist a))) (ad_final_tools a)
         in if unusable \<noteq> []
            then Inl (ValueError (''final_tools are not registered and allowed: ''
                   @ py_repr (JList (map JStr unusable))))
            else if \<not> llm_supports_allowed_tools (ad_llm a)
            then Inl (ValueError (llm_type_name (ad_llm a) @ '' cannot honour final_tools''))
            else Inr a))"

definition agent_complete :: "agent_definition \<Rightarrow> message list \<Rightarrow> bool \<Rightarrow> (world, message) act" where
  "agent_complete a ms final_turn =
     (if final_turn \<and> ad_final_tools a \<noteq> []
      then llm_complete (ad_llm a) (ad_persona a)
             (ms @ [new_message ''user'' (Text (''Last turn: use '' @ join_with '', '' (ad_final_tools a)
                @ '' to finish your remaining changes.''))])
             (schemas_for (ad_tool_allowlist a) (ad_tools a)) (ad_final_tools a) None
      else llm_complete (ad_llm a) (ad_persona a) ms
             (schemas_for (ad_tool_allowlist a) (ad_tools a)) [] None)"

section \<open>Facts\<close>

definition registry_ok :: "registry \<Rightarrow> bool" where
  "registry_ok reg \<longleftrightarrow> wf_dict reg \<and> (\<forall>(n, tk) \<in> set reg. tl_name tk = n)"

lemma registry_register_ok:
  assumes "registry_ok reg" and "registry_register tk reg = Inr reg'"
  shows "registry_ok reg' \<and> registry_get (tl_name tk) reg' = Some tk
     \<and> (\<forall>n. n \<noteq> tl_name tk \<longrightarrow> registry_get n reg' = registry_get n reg)"
proof -
  from assms(2) have new: "tl_name tk \<notin> set (dkeys reg)" and reg': "reg' = dset (tl_name tk) tk reg"
    by (auto simp: registry_register_def split: if_splits)
  have "registry_ok reg'"
    using assms(1) dset_new [OF new, of tk] reg' wf_dict_dset [of reg "tl_name tk" tk]
    by (auto simp: registry_ok_def)
  with reg' show ?thesis by (simp add: registry_get_def)
qed

lemma registry_add_all_ok:
  "registry_ok reg \<Longrightarrow> registry_add_all tls reg = Inr reg' \<Longrightarrow>
   registry_ok reg' \<and> (\<forall>n tk. registry_get n reg = Some tk \<longrightarrow> registry_get n reg' = Some tk)
     \<and> (\<forall>tk \<in> set tls. registry_get (tl_name tk) reg' = Some tk)"
proof (induction tls arbitrary: reg)
  case (Cons tk tls)
  from Cons.prems(2) obtain mid where mid: "registry_register tk reg = Inr mid"
    and rest: "registry_add_all tls mid = Inr reg'" by (auto simp: try_bind_Inr)
  from registry_register_ok [OF Cons.prems(1) mid] have m: "registry_ok mid"
    "registry_get (tl_name tk) mid = Some tk"
    "\<And>n. n \<noteq> tl_name tk \<Longrightarrow> registry_get n mid = registry_get n reg" by auto
  from mid have new: "registry_get (tl_name tk) reg = None"
    by (auto simp: registry_register_def registry_get_def map_of_eq_None_iff split: if_splits)
  from Cons.IH [OF m(1) rest] m(2,3) new show ?case
    by (metis option.distinct(1) set_ConsD)
qed simp

text \<open>Building a registry either refuses a name used twice or gives every tool under its own name,
  and only those: looking a name up returns the one tool registered with it.\<close>

theorem registry_lookup:
  assumes "new_registry tls = Inr reg"
  shows "registry_ok reg \<and> (\<forall>tk \<in> set tls. registry_get (tl_name tk) reg = Some tk)"
  using assms registry_add_all_ok [of "[]" tls reg]
  by (simp add: new_registry_def registry_ok_def)

definition plain_tool :: "string \<Rightarrow> world tool" where
  "plain_tool n = \<lparr>tl_name = n, tl_schema = JNull, tl_needs_sandbox = False, tl_retry_safe = False,
     tl_build = (\<lambda>_ _. ret \<lparr>inv_description = ''Running tool'', inv_execute = ret (tool_ok JNull [])\<rparr>),
     tl_can_execute = None, tl_on_resolve = None\<rparr>"

theorem registry_lookup_witness:
  "\<exists>reg. new_registry [plain_tool ''f'', plain_tool ''g''] = Inr reg
     \<and> registry_get ''g'' reg = Some (plain_tool ''g'')"
proof -
  have "\<exists>reg. new_registry [plain_tool ''f'', plain_tool ''g''] = Inr reg"
    by (simp add: new_registry_def registry_register_def plain_tool_def)
  then obtain reg where reg: "new_registry [plain_tool ''f'', plain_tool ''g''] = Inr reg" by blast
  with registry_lookup [OF reg] show ?thesis by (auto simp: plain_tool_def)
qed

end
