(* ===== verification/Base64.thy ===== *)
theory Base64
  imports Json
begin

text \<open>
  The \<open>base64\<close> module of the standard library, as the adapters and the assets use it: \<open>b64encode\<close>, and
  \<open>b64decode\<close> without validation, which skips what is not of the alphabet. Bytes are characters below 256.
\<close>

section \<open>Encoding\<close>

definition b64_char :: "nat \<Rightarrow> char" where
  "b64_char n = (if n < 26 then char_of (65 + n) else if n < 52 then char_of (71 + n)
     else if n < 62 then char_of (n - 4) else if n = 62 then CHR ''+'' else CHR ''/'')"

fun b64encode :: "string \<Rightarrow> string" where
  "b64encode [] = []"
| "b64encode [a] =
     (let x = of_char a :: nat
      in [b64_char (x div 4), b64_char ((x mod 4) * 16), CHR ''='', CHR ''=''])"
| "b64encode [a, b] =
     (let x = of_char a :: nat; y = of_char b
      in [b64_char (x div 4), b64_char ((x mod 4) * 16 + y div 16), b64_char ((y mod 16) * 4), CHR ''=''])"
| "b64encode (a # b # c # cs) =
     (let x = of_char a :: nat; y = of_char b; z = of_char c
      in [b64_char (x div 4), b64_char ((x mod 4) * 16 + y div 16),
          b64_char ((y mod 16) * 4 + z div 64), b64_char (z mod 64)] @ b64encode cs)"

section \<open>Decoding\<close>

definition b64_value :: "char \<Rightarrow> nat option" where
  "b64_value c = (let n = of_char c in
     if 65 \<le> n \<and> n \<le> 90 then Some (n - 65)
     else if 97 \<le> n \<and> n \<le> 122 then Some (n - 71)
     else if 48 \<le> n \<and> n \<le> 57 then Some (n + 4)
     else if n = 43 then Some 62 else if n = 47 then Some 63 else None)"

definition binascii_error :: "string \<Rightarrow> py_error" where
  "binascii_error m = OtherException ''binascii.Error'' m"

definition lone_character :: "nat \<Rightarrow> py_error" where
  "lone_character bytes = binascii_error (''Invalid base64-encoded string: number of data characters (''
     @ nat_str (bytes div 3 * 4 + 1) @ '') cannot be 1 more than a multiple of 4'')"

definition with_byte :: "nat \<Rightarrow> py_error + string \<Rightarrow> py_error + string" where
  "with_byte b r = try_bind r (\<lambda>bs. Inr (char_of b # bs))"

text \<open>\<open>quad\<close> characters of a group were read, \<open>pads\<close> padding characters since the last of them, \<open>left\<close> are the
  bits not yet given out and \<open>n\<close> the bytes that were.\<close>

fun b64_read :: "nat \<Rightarrow> nat \<Rightarrow> nat \<Rightarrow> nat \<Rightarrow> string \<Rightarrow> py_error + string" where
  "b64_read n quad left pads [] = (if quad = 0 then Inr [] else if quad = 1 then Inl (lone_character n)
     else Inl (binascii_error ''Incorrect padding''))"
| "b64_read n quad left pads (c # cs) =
     (if c = CHR ''='' then (if 2 \<le> quad \<and> 4 \<le> quad + Suc pads then Inr [] else b64_read n quad left (Suc pads) cs)
      else case b64_value c of
        None \<Rightarrow> b64_read n quad left pads cs
      | Some v \<Rightarrow> (if quad = 0 then b64_read n 1 v 0 cs
          else if quad = 1 then with_byte (left * 4 + v div 16) (b64_read (Suc n) 2 (v mod 16) 0 cs)
          else if quad = 2 then with_byte (left * 16 + v div 4) (b64_read (Suc n) 3 (v mod 4) 0 cs)
          else with_byte (left * 64 + v) (b64_read (Suc n) 0 0 0 cs)))"

definition b64decode :: "string \<Rightarrow> py_error + string" where
  "b64decode s = (if list_ex (\<lambda>c. (of_char c :: nat) \<ge> 128) s
     then Inl (ValueError ''string argument should contain only ASCII characters'') else b64_read 0 0 0 0 s)"

section \<open>What was encoded is decoded\<close>

lemma of_b64_char: "n < 64 \<Longrightarrow> (of_char (b64_char n) :: nat) =
    (if n < 26 then 65 + n else if n < 52 then 71 + n else if n < 62 then n - 4 else if n = 62 then 43 else 47)"
  by (simp add: b64_char_def of_char_of)

lemma b64_value_char [simp]: "n < 64 \<Longrightarrow> b64_value (b64_char n) = Some n"
  unfolding b64_value_def Let_def of_b64_char [of n] by (simp split: if_split) arith

lemma b64_char_pad [simp]: "n < 64 \<Longrightarrow> b64_char n \<noteq> CHR ''=''"
  using of_b64_char [of n] by (auto split: if_splits)

text \<open>The bytes a group gives back, as numbers below 256.\<close>

lemma group_of_bytes:
  fixes x y z :: nat
  assumes "x < 256" "y < 256" "z < 256"
  shows "x div 4 < 64" "x mod 4 * 16 + y div 16 < 64" "y mod 16 * 4 + z div 64 < 64" "z mod 64 < 64" "x mod 4 * 16 < 64" "y mod 16 * 4 < 64"
    and "(x div 4) * 4 + (x mod 4 * 16 + y div 16) div 16 = x" "(x div 4) * 4 + (x mod 4 * 16) div 16 = x"
    and "((x mod 4 * 16 + y div 16) mod 16) * 16 + (y mod 16 * 4 + z div 64) div 4 = y"
    and "((x mod 4 * 16 + y div 16) mod 16) * 16 + (y mod 16 * 4) div 4 = y"
    and "((y mod 16 * 4 + z div 64) mod 4) * 64 + z mod 64 = z" and "y div 16 div 16 = 0" "y div 16 mod 16 = y div 16" "z div 64 div 4 = 0" "z div 64 mod 4 = z div 64"
proof -
  have q: "y div 16 < 16" "z div 64 < 4" using assms by (simp_all add: less_mult_imp_div_less)
  show "x div 4 < 64" "z mod 64 < 64" "x mod 4 * 16 < 64" "y mod 16 * 4 < 64" using assms by (simp_all add: less_mult_imp_div_less)
  have m: "x mod 4 < 4" "y mod 16 < 16" by simp_all
  show "x mod 4 * 16 + y div 16 < 64" "y mod 16 * 4 + z div 64 < 64" using q m by linarith+
  show "(x div 4) * 4 + (x mod 4 * 16 + y div 16) div 16 = x" "(x div 4) * 4 + (x mod 4 * 16) div 16 = x"
    "((x mod 4 * 16 + y div 16) mod 16) * 16 + (y mod 16 * 4 + z div 64) div 4 = y"
    "((x mod 4 * 16 + y div 16) mod 16) * 16 + (y mod 16 * 4) div 4 = y"
    "((y mod 16 * 4 + z div 64) mod 4) * 64 + z mod 64 = z"
    "y div 16 div 16 = 0" "y div 16 mod 16 = y div 16" "z div 64 div 4 = 0" "z div 64 mod 4 = z div 64"
    using q by (simp_all add: add.commute)
qed

lemma of_char_byte: "(of_char c :: nat) < 256"
  by simp

lemma char_of_of_char_nat: "char_of (of_char c :: nat) = c"
  by simp

lemma b64_read_encode: "b64_read n 0 0 0 (b64encode bs) = Inr bs"
proof (induction bs arbitrary: n rule: b64encode.induct)
  case (2 a)
  note g = group_of_bytes [OF of_char_byte [of a] of_char_byte [of a] of_char_byte [of a]]
  show ?case by (simp add: Let_def with_byte_def g)
next
  case (3 a b)
  note g = group_of_bytes [OF of_char_byte [of a] of_char_byte [of b] of_char_byte [of b]]
  show ?case by (simp add: Let_def with_byte_def g)
next
  case (4 a b c cs)
  note g = group_of_bytes [OF of_char_byte [of a] of_char_byte [of b] of_char_byte [of c]]
  show ?case by (simp add: Let_def with_byte_def g 4)
qed simp

lemma b64_char_ascii: "n < 64 \<Longrightarrow> (of_char (b64_char n) :: nat) < 128"
  by (simp add: of_b64_char) linarith

lemma b64encode_ascii: "list_all (\<lambda>c. (of_char c :: nat) < 128) (b64encode bs)"
proof (induction bs rule: b64encode.induct)
  case (2 a)
  note g = group_of_bytes [OF of_char_byte [of a] of_char_byte [of a] of_char_byte [of a]]
  show ?case by (simp add: Let_def g b64_char_ascii)
next
  case (3 a b)
  note g = group_of_bytes [OF of_char_byte [of a] of_char_byte [of b] of_char_byte [of b]]
  show ?case by (simp add: Let_def g b64_char_ascii)
next
  case (4 a b c cs)
  note g = group_of_bytes [OF of_char_byte [of a] of_char_byte [of b] of_char_byte [of c]]
  show ?case by (simp add: Let_def g b64_char_ascii 4)
qed simp

lemma decode_encode [simp]: "b64decode (b64encode bs) = Inr bs"
proof -
  have "\<not> list_ex (\<lambda>c. (of_char c :: nat) \<ge> 128) (b64encode bs)"
    using b64encode_ascii [of bs] by (auto simp: list_ex_iff list_all_iff not_le)
  then show ?thesis by (simp add: b64decode_def b64_read_encode)
qed

lemma b64encode_Nil [simp]: "b64encode bs = [] \<longleftrightarrow> bs = []"
  by (cases bs rule: b64encode.cases) (simp_all add: Let_def)

section \<open>Strict decoding\<close>

text \<open>\<open>b64decode(s, validate=True)\<close>: groups of four characters of the alphabet, padding only at the end. The text of
  the error is the library's.\<close>

definition is_data :: "char \<Rightarrow> bool" where
  "is_data c \<longleftrightarrow> b64_value c \<noteq> None"

fun b64_groups :: "string \<Rightarrow> bool" where
  "b64_groups [] = True"
| "b64_groups (a # b # c # d # cs) \<longleftrightarrow> is_data a \<and> is_data b
     \<and> (if d = CHR ''='' then cs = [] \<and> (c = CHR ''='' \<or> is_data c) else is_data c \<and> is_data d \<and> b64_groups cs)"
| "b64_groups _ = False"

definition b64decode_strict :: "(string \<Rightarrow> string) \<Rightarrow> string \<Rightarrow> py_error + string" where
  "b64decode_strict why s = (if b64_groups s then b64decode s else Inl (binascii_error (why s)))"

text \<open>How many bytes a text decodes to, by its length.\<close>

definition decoded_size :: "string \<Rightarrow> int" where
  "decoded_size s = int (length s * 3 div 4) - int (length (filter (\<lambda>c. c = CHR ''='') (drop (length s - 2) s)))"

lemma is_data_not_pad: "is_data c \<Longrightarrow> c \<noteq> CHR ''=''"
  by (auto simp: is_data_def b64_value_def)

lemma is_data_ascii: "is_data c \<Longrightarrow> (of_char c :: nat) < 128"
  by (auto simp: is_data_def b64_value_def Let_def split: if_splits)

lemma b64_groups_ascii: "b64_groups s \<Longrightarrow> list_all (\<lambda>c. (of_char c :: nat) < 128) s"
  by (induction s rule: b64_groups.induct) (auto simp: is_data_ascii split: if_splits)

lemma decoded_size_more:
  assumes "length cs \<ge> 2"
  shows "decoded_size (a # b # c # d # cs) = 3 + decoded_size cs"
proof -
  have "drop (length (a # b # c # d # cs) - 2) (a # b # c # d # cs) = drop (length cs - 2) cs"
  proof -
    have "length (a # b # c # d # cs) - 2 = Suc (Suc (Suc (Suc (length cs - 2))))" using assms by simp
    then show ?thesis by (simp only: drop_Suc_Cons)
  qed
  moreover have "length (a # b # c # d # cs) * 3 div 4 = 3 + length cs * 3 div 4" by simp
  ultimately show ?thesis by (simp add: decoded_size_def)
qed

lemma b64_groups_length: "b64_groups cs \<Longrightarrow> cs = [] \<or> length cs \<ge> 4"
  by (cases cs rule: b64_groups.cases) auto

lemma strict_read:
  "b64_groups s \<Longrightarrow> \<exists>bs. b64_read n 0 0 0 s = Inr bs \<and> int (length bs) = decoded_size s"
proof (induction s arbitrary: n rule: b64_groups.induct)
  case 1
  then show ?case by (simp add: decoded_size_def)
next
  case (2 a b c d cs)
  then obtain va vb where v: "b64_value a = Some va" "b64_value b = Some vb" by (auto simp: is_data_def)
  have ab: "a \<noteq> CHR ''=''" "b \<noteq> CHR ''=''" using 2(2) by (auto dest: is_data_not_pad)
  show ?case
  proof (cases "d = CHR ''=''")
    case True
    show ?thesis
    proof (cases "c = CHR ''=''")
      case c: True
      then show ?thesis using True 2(2) v ab by (simp add: with_byte_def decoded_size_def)
    next
      case c: False
      then obtain vc where "b64_value c = Some vc" using True 2(2) by (auto simp: is_data_def)
      then show ?thesis using True c 2(2) v ab by (simp add: with_byte_def decoded_size_def)
    qed
  next
    case False
    then obtain vc vd where w: "b64_value c = Some vc" "b64_value d = Some vd" using 2(2) by (auto simp: is_data_def)
    have cd: "c \<noteq> CHR ''=''" "d \<noteq> CHR ''=''" using 2(2) False by (auto dest: is_data_not_pad)
    have g: "b64_groups cs" using 2(2) False by simp
    from 2(1) [OF False g] obtain bs where bs: "b64_read (Suc (Suc (Suc n))) 0 0 0 cs = Inr bs" "int (length bs) = decoded_size cs" by blast
    have "decoded_size (a # b # c # d # cs) = 3 + decoded_size cs"
    proof (cases "cs = []")
      case True
      then show ?thesis using cd by (simp add: decoded_size_def)
    next
      case False
      then show ?thesis using b64_groups_length [OF g] by (intro decoded_size_more) auto
    qed
    then show ?thesis using bs v w ab cd by (simp add: with_byte_def)
  qed
qed simp_all

lemma strict_decodes:
  assumes "b64decode_strict why s = Inr bs"
  shows "b64decode s = Inr bs" "int (length bs) = decoded_size s"
proof -
  have g: "b64_groups s" "b64decode s = Inr bs" using assms by (auto simp: b64decode_strict_def split: if_splits)
  then show "b64decode s = Inr bs" by simp
  have "\<not> list_ex (\<lambda>c. (of_char c :: nat) \<ge> 128) s"
    using b64_groups_ascii [OF g(1)] by (auto simp: list_ex_iff list_all_iff not_le)
  with g(2) have "b64_read 0 0 0 0 s = Inr bs" by (simp add: b64decode_def)
  with strict_read [OF g(1), of 0] show "int (length bs) = decoded_size s" by auto
qed

lemma is_data_char [simp]: "n < 64 \<Longrightarrow> is_data (b64_char n)"
  by (simp add: is_data_def)

lemma b64_groups_encode [simp]: "b64_groups (b64encode bs)"
proof (induction bs rule: b64encode.induct)
  case (2 a)
  note g = group_of_bytes [OF of_char_byte [of a] of_char_byte [of a] of_char_byte [of a]]
  show ?case by (simp add: Let_def g)
next
  case (3 a b)
  note g = group_of_bytes [OF of_char_byte [of a] of_char_byte [of b] of_char_byte [of b]]
  show ?case by (simp add: Let_def g)
next
  case (4 a b c cs)
  note g = group_of_bytes [OF of_char_byte [of a] of_char_byte [of b] of_char_byte [of c]]
  show ?case by (simp add: Let_def g 4)
qed simp

lemma strict_decode_encode [simp]: "b64decode_strict why (b64encode bs) = Inr bs"
  by (simp add: b64decode_strict_def)

lemma decoded_size_encode [simp]: "decoded_size (b64encode bs) = int (length bs)"
  using strict_decodes(2) [OF strict_decode_encode] by simp

end
