(* ===== verification/Assets.thy ===== *)
theory Assets
  imports Compaction Base64
begin

text \<open>
  \<open>actant/assets.py\<close>: stored pictures resolved for one model call, and the cache of inline pictures.
  The resolver is the application's: an arbitrary action on the state \<open>'s\<close>. The code resolves up to
  16 references at once; here they are resolved in order, each resolver call being an arbitrary state
  transformer. Bytes are lists of characters below 256. Reading and fitting a picture are in
  \<open>Inline_Images\<close>.
\<close>

section \<open>Resolved pictures\<close>

record asset_context =
  ac_agent_id :: string
  ac_thread_id :: string
  ac_run_id :: string
  ac_turn_id :: string
  ac_minimum_validity_s :: rat

definition new_asset_context :: "string \<Rightarrow> string \<Rightarrow> string \<Rightarrow> string \<Rightarrow> asset_context" where
  "new_asset_context agent_id thread_id rid turn_id = \<lparr>ac_agent_id = agent_id,
     ac_thread_id = thread_id, ac_run_id = rid, ac_turn_id = turn_id, ac_minimum_validity_s = 600\<rparr>"

record resolved_image =
  ri_mime :: string
  ri_url :: "string option"
  ri_expires_at :: "rat option"
  ri_data :: "string option"

datatype resolution = ResolvedImage resolved_image | MissingAsset string

text \<open>\<open>now\<close> is \<open>time.time()\<close>.\<close>

definition image_to_block :: "rat \<Rightarrow> rat \<Rightarrow> resolved_image \<Rightarrow> py_error + block" where
  "image_to_block now minimum_validity_s i =
     (if (ri_url i = None) = (ri_data i = None)
      then Inl (ValueError ''resolved image requires exactly one of url or data'')
      else case ri_url i of
        Some url \<Rightarrow>
          (if \<not> (starts_with ''https://'' url \<or> starts_with ''http://'' url)
           then Inl (ValueError ''resolved image URL must use HTTP(S)'')
           else if (case ri_expires_at i of None \<Rightarrow> False | Some e \<Rightarrow> e \<le> now + minimum_validity_s)
           then Inl (ValueError ''resolved image URL does not cover the model-call budget'')
           else Inr (UrlImageBlock url (ri_mime i)))
      | None \<Rightarrow>
          (if valid_image_mime (ri_mime i)
           then Inr (InlineImageBlock (ri_mime i)
                  (b64encode (case ri_data i of None \<Rightarrow> [] | Some d \<Rightarrow> d)))
           else Inl invalid))"

text \<open>An asset resolver: the storage key, the mime type and the call's context.\<close>

type_synonym 's asset_resolver = "string \<Rightarrow> string \<Rightarrow> asset_context \<Rightarrow> ('s, resolution) act"

section \<open>Preparing a request\<close>

fun is_asset_image :: "block \<Rightarrow> bool" where
  "is_asset_image (AssetBlock _ mime _) = starts_with ''image/'' mime"
| "is_asset_image _ = False"

fun asset_key :: "block \<Rightarrow> string" where
  "asset_key (AssetBlock k _ _) = k" | "asset_key _ = []"

fun asset_mime :: "block \<Rightarrow> string" where
  "asset_mime (AssetBlock _ m _) = m" | "asset_mime _ = []"

definition resolve_block ::
  "('s \<Rightarrow> rat) \<Rightarrow> 's asset_resolver option \<Rightarrow> asset_context \<Rightarrow> block \<Rightarrow> ('s, block) act" where
  "resolve_block now resolver ctx b = (case resolver of
      None \<Rightarrow> raise (ValueError ''asset references require an AssetResolver'')
    | Some resolve \<Rightarrow>
        bnd (resolve (asset_key b) (asset_mime b) ctx) (\<lambda>picture.
          case picture of
            MissingAsset reason \<Rightarrow> ret (TextBlock (''[Image unavailable: '' @ reason
                @ ''; asset_storage_key='' @ asset_key b @ '']''))
          | ResolvedImage i \<Rightarrow> readS (\<lambda>s. image_to_block (now s) (ac_minimum_validity_s ctx) i)))"

text \<open>The second loop: the resolved blocks are taken one by one from an iterator.\<close>

fun place_blocks :: "block list \<Rightarrow> block list \<Rightarrow> block list \<times> block list" where
  "place_blocks res [] = ([], res)"
| "place_blocks res (b # bs) =
     (case b of
        AssetBlock key mime pid \<Rightarrow>
          (if starts_with ''image/'' mime
           then (case place_blocks (tl res) bs of (bs', r) \<Rightarrow> (hd res # bs', r))
           else (case place_blocks res bs of (bs', r) \<Rightarrow>
             (TextBlock (''[Attached file: mime='' @ mime @ '', asset_storage_key='' @ key @ '']'') # bs', r)))
      | _ \<Rightarrow> (case place_blocks res bs of (bs', r) \<Rightarrow> (b # bs', r)))"

fun place_messages :: "block list \<Rightarrow> message list \<Rightarrow> message list" where
  "place_messages res [] = []"
| "place_messages res (m # ms) =
     (case m_content m of
        Blocks bs \<Rightarrow> (case place_blocks res bs of
            (bs', r) \<Rightarrow> m\<lparr>m_content := Blocks bs'\<rparr> # place_messages r ms)
      | _ \<Rightarrow> m # place_messages res ms)"

definition image_assets :: "message list \<Rightarrow> block list" where
  "image_assets ms = concat (map (\<lambda>m. filter is_asset_image (content_blocks m)) ms)"

definition prepare_messages ::
  "('s \<Rightarrow> rat) \<Rightarrow> message list \<Rightarrow> 's asset_resolver option \<Rightarrow> asset_context
     \<Rightarrow> ('s, message list) act" where
  "prepare_messages now ms resolver ctx =
     bnd (map_act (resolve_block now resolver ctx) (image_assets ms)) (\<lambda>resolved.
     ret (place_messages resolved ms))"

section \<open>The cache of inline pictures\<close>

text \<open>\<open>InlineImages._kept\<close>, an \<open>OrderedDict\<close> from the least to the most recently sent, and its size.\<close>

record image_cache =
  ic_kept :: "(string, resolved_image) dict"
  ic_bytes :: int
  ic_limit :: int

definition image_size :: "resolved_image \<Rightarrow> int" where
  "image_size i = int (length (case ri_data i of None \<Rightarrow> [] | Some d \<Rightarrow> d))"

definition move_to_end :: "'k \<Rightarrow> ('k, 'v) dict \<Rightarrow> ('k, 'v) dict" where
  "move_to_end k d = (case dget d k of None \<Rightarrow> d | Some v \<Rightarrow> AList.delete k d @ [(k, v)])"

definition cache_lookup :: "string \<Rightarrow> image_cache \<Rightarrow> resolved_image option \<times> image_cache" where
  "cache_lookup key c = (case dget (ic_kept c) key of
      None \<Rightarrow> (None, c) | Some i \<Rightarrow> (Some i, c\<lparr>ic_kept := move_to_end key (ic_kept c)\<rparr>))"

text \<open>The eviction loop; \<open>popitem\<close> of an empty dictionary would raise \<open>KeyError\<close>.\<close>

fun evict :: "(string, resolved_image) dict \<Rightarrow> int \<Rightarrow> int \<Rightarrow> (py_error + (string, resolved_image) dict \<times> int)" where
  "evict kept bytes limit =
     (if bytes > limit then
        (case kept of
           [] \<Rightarrow> Inl (KeyError ''dictionary is empty'')
         | (k, i) # rest \<Rightarrow> evict rest (bytes - image_size i) limit)
      else Inr (kept, bytes))"

declare evict.simps [simp del]

definition cache_keep :: "string \<Rightarrow> resolved_image \<Rightarrow> image_cache \<Rightarrow> py_error + image_cache" where
  "cache_keep key picture c =
     (if image_size picture > ic_limit c then Inr c
      else try_bind (evict (dset key picture (ic_kept c)) (ic_bytes c + image_size picture) (ic_limit c))
        (\<lambda>(kept, bytes). Inr (c\<lparr>ic_kept := kept, ic_bytes := bytes\<rparr>)))"

section \<open>Facts\<close>

lemma place_blocks_text:
  "list_all (\<lambda>b. \<not> is_asset_image b) res \<Longrightarrow>
   length (filter is_asset_image bs) \<le> length res \<Longrightarrow>
   list_all (\<lambda>b. case b of AssetBlock _ _ _ \<Rightarrow> False | _ \<Rightarrow> True) res \<Longrightarrow>
   list_all (\<lambda>b. case b of AssetBlock _ _ _ \<Rightarrow> False | _ \<Rightarrow> True) (fst (place_blocks res bs))
   \<and> snd (place_blocks res bs) = drop (length (filter is_asset_image bs)) res
   \<and> length (fst (place_blocks res bs)) = length bs"
proof (induction bs arbitrary: res)
  case (Cons b bs)
  show ?case
  proof (cases "is_asset_image b")
    case True
    with Cons.prems obtain r rs where res: "res = r # rs" by (cases res) auto
    from Cons.IH [of rs] Cons.prems res True show ?thesis
      by (cases b) (auto split: prod.splits)
  next
    case False
    from Cons.IH [of res] Cons.prems False show ?thesis
      by (cases b) (auto split: prod.splits)
  qed
qed simp

definition not_asset :: "block \<Rightarrow> bool" where
  "not_asset b \<longleftrightarrow> (case b of AssetBlock _ _ _ \<Rightarrow> False | _ \<Rightarrow> True)"

lemma not_asset_image: "not_asset b \<Longrightarrow> \<not> is_asset_image b"
  by (cases b) (simp_all add: not_asset_def)

lemma place_blocks_facts:
  assumes "list_all not_asset res" and "length (filter is_asset_image bs) \<le> length res"
  shows "list_all not_asset (fst (place_blocks res bs))"
    and "snd (place_blocks res bs) = drop (length (filter is_asset_image bs)) res"
    and "length (fst (place_blocks res bs)) = length bs"
proof -
  have "list_all (\<lambda>b. \<not> is_asset_image b) res"
    using assms(1) not_asset_image by (auto simp: list_all_iff)
  with place_blocks_text [of res bs] assms
  show "list_all not_asset (fst (place_blocks res bs))"
    and "snd (place_blocks res bs) = drop (length (filter is_asset_image bs)) res"
    and "length (fst (place_blocks res bs)) = length bs"
    by (simp_all add: not_asset_def [abs_def])
qed

definition prepared_as :: "message \<Rightarrow> message \<Rightarrow> bool" where
  "prepared_as m m' \<longleftrightarrow> m'\<lparr>m_content := m_content m\<rparr> = m
     \<and> list_all not_asset (content_blocks m')
     \<and> length (content_blocks m') = length (content_blocks m)
     \<and> (\<forall>t. m_content m = Text t \<longrightarrow> m' = m)"

lemma place_messages_facts:
  "list_all not_asset res \<Longrightarrow> length (image_assets ms) \<le> length res \<Longrightarrow>
   list_all2 prepared_as ms (place_messages res ms)"
proof (induction ms arbitrary: res)
  case (Cons m ms)
  have len: "length (image_assets (m # ms))
      = length (filter is_asset_image (content_blocks m)) + length (image_assets ms)"
    by (simp add: image_assets_def)
  show ?case
  proof (cases "m_content m")
    case (Blocks bs)
    then have cb: "content_blocks m = bs" by (simp add: content_blocks_def)
    obtain bs' r where p: "place_blocks res bs = (bs', r)" by fastforce
    from Cons.prems len cb have le: "length (filter is_asset_image bs) \<le> length res" by simp
    from place_blocks_facts [OF Cons.prems(1) le] p
    have facts: "list_all not_asset bs'" "length bs' = length bs"
      "r = drop (length (filter is_asset_image bs)) res" by simp_all
    have "list_all not_asset r" using Cons.prems(1) facts(3)
      by (auto simp: list_all_iff dest: in_set_dropD)
    moreover have "length (image_assets ms) \<le> length r"
      using Cons.prems(2) len cb facts(3) by simp
    ultimately have "list_all2 prepared_as ms (place_messages r ms)" by (rule Cons.IH)
    moreover have "prepared_as m (m\<lparr>m_content := Blocks bs'\<rparr>)"
      using facts Blocks by (simp add: prepared_as_def content_blocks_def)
    ultimately show ?thesis using Blocks p by simp
  qed (use Cons len in \<open>simp_all add: prepared_as_def content_blocks_def\<close>)
qed (simp)

lemma resolve_block_not_asset:
  "fst (resolve_block now resolver ctx b s) = Inr b' \<Longrightarrow> not_asset b'"
  by (auto simp: resolve_block_def act_defs not_asset_def image_to_block_def
      split: option.splits prod.splits sum.splits resolution.splits if_splits)

lemma map_act_results:
  assumes "\<And>x s y. fst (f x s) = Inr y \<Longrightarrow> P y"
  shows "fst (map_act f xs s) = Inr ys \<Longrightarrow> list_all P ys \<and> length ys = length xs"
proof (induction xs arbitrary: s ys)
  case (Cons x xs)
  from Cons.prems obtain y ys' t where "fst (f x s) = Inr y" "ys = y # ys'"
    "fst (map_act f xs t) = Inr ys'"
    by (auto simp: bnd_returns ret_def)
  with Cons.IH assms show ?case by fastforce
qed (simp add: ret_def)

lemma evict_le: "bytes \<le> limit \<Longrightarrow> evict kept bytes limit = Inr (kept, bytes)"
  by (subst evict.simps) simp

lemma evict_Cons:
  "limit < bytes \<Longrightarrow> evict ((k, i) # rest) bytes limit = evict rest (bytes - image_size i) limit"
  by (subst evict.simps) simp

lemma evict_spec:
  "0 \<le> limit \<Longrightarrow> bytes = (\<Sum>(k, i)\<leftarrow>kept. image_size i) \<Longrightarrow>
   \<exists>kept' bytes'. evict kept bytes limit = Inr (kept', bytes') \<and> bytes' \<le> limit
      \<and> bytes' = (\<Sum>(k, i)\<leftarrow>kept'. image_size i) \<and> suffix kept' kept"
proof (induction kept arbitrary: bytes)
  case Nil
  then show ?case by (simp add: evict_le)
next
  case (Cons ki kept)
  obtain k i where ki: "ki = (k, i)" by fastforce
  show ?case
  proof (cases "bytes \<le> limit")
    case True
    with Cons.prems show ?thesis by (simp add: evict_le)
  next
    case False
    from Cons.prems ki have "bytes - image_size i = (\<Sum>(k, i)\<leftarrow>kept. image_size i)" by simp
    from Cons.IH [OF Cons.prems(1) this] False ki show ?thesis
      by (auto simp: evict_Cons intro: suffix_ConsI)
  qed
qed

text \<open>The cache's own invariant: distinct keys, and the recorded size is that of what is kept, within
  the limit.\<close>

definition cache_ok :: "image_cache \<Rightarrow> bool" where
  "cache_ok c \<longleftrightarrow> wf_dict (ic_kept c) \<and> ic_bytes c = (\<Sum>(k, i)\<leftarrow>ic_kept c. image_size i)
     \<and> ic_bytes c \<le> ic_limit c \<and> 0 \<le> ic_limit c"

lemma sum_delete:
  "dget d k = Some v \<Longrightarrow> wf_dict d \<Longrightarrow>
   (\<Sum>(k, i)\<leftarrow>AList.delete k d. f i) + f v = (\<Sum>(k, i)\<leftarrow>d. f i :: int)"
proof (induction d)
  case (Cons kv d)
  obtain k' v' where kv: "kv = (k', v')" by fastforce
  have del: "k \<notin> set (dkeys d) \<Longrightarrow> AList.delete k d = d"
    by (induction d) auto
  from Cons kv del show ?case by (auto simp: wf_dict_def)
qed simp

text \<open>A lookup only makes its entry the most recent one.\<close>

lemma delete_set: "wf_dict d \<Longrightarrow> dget d k = Some v \<Longrightarrow> set (AList.delete k d @ [(k, v)]) = set d"
  by (auto simp: AList.delete_eq wf_dict_def dest: map_of_SomeD eq_key_imp_eq_value)

lemma delete_key: "k \<notin> set (dkeys (AList.delete k d))"
  by (auto simp: AList.delete_eq)

lemma cache_lookup_ok:
  assumes "cache_ok c"
  shows "cache_ok (snd (cache_lookup key c))
     \<and> set (ic_kept (snd (cache_lookup key c))) = set (ic_kept c)"
proof (cases "dget (ic_kept c) key")
  case None
  with assms show ?thesis by (simp add: cache_lookup_def)
next
  case (Some i)
  have "wf_dict (ic_kept c)" using assms by (simp add: cache_ok_def)
  from sum_delete [OF Some this, of image_size] delete_set [OF this Some] wf_dict_delete [OF this, of key]
  show ?thesis using assms Some delete_key [of key "ic_kept c"]
    by (simp add: cache_ok_def cache_lookup_def move_to_end_def wf_dict_def)
qed

section \<open>Properties\<close>

text \<open>Preparing a request neither drops, adds nor reorders anything: message by message, everything
  but the blocks of the content is unchanged, the blocks correspond one to one, plain text is untouched,
  and no asset reference is left for the provider to see.\<close>

theorem prepare_messages_spec:
  assumes "fst (prepare_messages now ms resolver ctx s) = Inr prepared"
  shows "list_all2 prepared_as ms prepared"
proof -
  from assms obtain res where
    res: "fst (map_act (resolve_block now resolver ctx) (image_assets ms) s) = Inr res"
    and prepared: "prepared = place_messages res ms"
    by (auto simp: prepare_messages_def bnd_returns ret_def)
  have "list_all not_asset res \<and> length res = length (image_assets ms)"
    by (rule map_act_results [OF _ res]) (rule resolve_block_not_asset)
  with place_messages_facts prepared show ?thesis by simp
qed

definition sample_resolver :: "unit asset_resolver" where
  "sample_resolver key mime ctx s =
     (Inr (ResolvedImage \<lparr>ri_mime = mime, ri_url = Some (''https://x/'' @ key), ri_expires_at = None,
        ri_data = None\<rparr>), s)"

theorem prepare_messages_spec_witness:
  "list_all2 prepared_as [new_message ''user'' (Blocks [AssetBlock ''k'' ''image/png'' None])]
     [new_message ''user'' (Blocks [UrlImageBlock ''https://x/k'' ''image/png''])]"
  by (rule prepare_messages_spec [of "\<lambda>_. 0" _ "Some sample_resolver"
        "new_asset_context ''a'' ''t'' ''r'' ''u''" "()"]) code_simp

text \<open>The cache of inline pictures stays within its byte limit and its count of bytes stays exact:
  keeping a picture that is not kept yet always succeeds and preserves that invariant, evicting only the
  least recently sent ones.\<close>

theorem image_cache_bounded:
  assumes "cache_ok c" and "dget (ic_kept c) key = None"
  shows "\<exists>c'. cache_keep key picture c = Inr c' \<and> cache_ok c'
     \<and> suffix (ic_kept c') (ic_kept c @ [(key, picture)]) \<or> cache_keep key picture c = Inr c"
proof (cases "image_size picture > ic_limit c")
  case True
  then show ?thesis by (simp add: cache_keep_def)
next
  case False
  from assms(2) have new: "dset key picture (ic_kept c) = ic_kept c @ [(key, picture)]"
    by (simp add: dset_new map_of_eq_None_iff)
  let ?kept = "ic_kept c @ [(key, picture)]" and ?bytes = "ic_bytes c + image_size picture"
  have sum: "?bytes = (\<Sum>(k, i)\<leftarrow>?kept. image_size i)" using assms(1) by (simp add: cache_ok_def)
  have "0 \<le> ic_limit c" using assms(1) by (simp add: cache_ok_def)
  from evict_spec [OF this sum] obtain kept bytes
    where e: "evict ?kept ?bytes (ic_limit c) = Inr (kept, bytes)"
      and facts: "bytes \<le> ic_limit c" "bytes = (\<Sum>(k, i)\<leftarrow>kept. image_size i)" "suffix kept ?kept"
    by blast
  from assms have "distinct (dkeys ?kept)" by (auto simp: cache_ok_def wf_dict_def map_of_eq_None_iff)
  moreover from facts(3) obtain zs where "?kept = zs @ kept" by (auto simp: suffix_def)
  ultimately have "wf_dict kept" by (metis distinct_append map_append wf_dict_def)
  with facts assms(1) have "cache_ok (c\<lparr>ic_kept := kept, ic_bytes := bytes\<rparr>)"
    by (simp add: cache_ok_def)
  with False e new facts(3) show ?thesis by (simp add: cache_keep_def)
qed

theorem image_cache_bounded_witness:
  "\<exists>c'. cache_keep ''b'' \<lparr>ri_mime = [], ri_url = None, ri_expires_at = None, ri_data = Some ''xy''\<rparr>
      \<lparr>ic_kept = [(''a'', \<lparr>ri_mime = [], ri_url = None, ri_expires_at = None, ri_data = Some ''z''\<rparr>)],
       ic_bytes = 1, ic_limit = 2\<rparr> = Inr c' \<and> ic_bytes c' \<le> 2"
  using image_cache_bounded [of "\<lparr>ic_kept = [(''a'', \<lparr>ri_mime = [], ri_url = None,
      ri_expires_at = None, ri_data = Some ''z''\<rparr>)], ic_bytes = 1, ic_limit = 2\<rparr>" "''b''"
      "\<lparr>ri_mime = [], ri_url = None, ri_expires_at = None, ri_data = Some ''xy''\<rparr>"]
  by (auto simp: cache_ok_def wf_dict_def image_size_def cache_keep_def evict.simps)

end
