(* ===== verification/Activity_Context.thy ===== *)
theory Activity_Context
  imports Agents Assets
begin

text \<open>
  What the activities share: the events they publish (\<open>actant/runtime/events/publisher.py\<close> and
  \<open>events/runtime.py\<close>) and the worker's dependencies (\<open>activities/context.py\<close>, \<open>gate.py\<close>). Everything a
  worker is configured with is a field of \<open>activity_context\<close>: code outside the repository, as
  arbitrary actions on the world. An event handed to the sink is also written to \<open>w_events\<close>, a record
  of what the runtime published that no code reads.
\<close>

section \<open>The worker's dependencies\<close>

record turn_start =
  ts_agent_id :: string
  ts_thread_id :: string
  ts_run_id :: string
  ts_turn_id :: string
  ts_turn_index :: int

text \<open>The sandbox registry as the activities use it (\<open>actant/sandbox/registry.py\<close>): a sandbox is named
  by its handle.\<close>

record sandbox_registry =
  sr_attach :: "string \<Rightarrow> (world, string) act"
  sr_open :: "string \<Rightarrow> json_obj \<Rightarrow> (world, string) act"
  sr_close :: "string \<Rightarrow> (world, unit) act"

text \<open>
  \<open>x_as_int\<close> and \<open>x_payload\<close> are \<open>pydantic\<close>'s (integers, and the validation of \<open>payloads.py\<close>),
  \<open>x_set_order\<close> the order Python iterates a set in, \<open>x_guess_mime\<close> the \<open>mimetypes\<close> table, \<open>x_now\<close> the
  clock. \<open>x_sandbox_read\<close> reads a file of an open sandbox; \<open>x_artifact_sink\<close> returns the stored ref as
  JSON.
\<close>

record activity_context =
  x_as_int :: "json \<Rightarrow> int option"
  x_payload :: "string \<Rightarrow> json_obj \<Rightarrow> py_error + json_obj"
  x_set_order :: "string list \<Rightarrow> string list"
  x_guess_mime :: "string \<Rightarrow> string option"
  x_now :: "world \<Rightarrow> rat"
  x_resolve_agent :: "(string \<Rightarrow> string \<Rightarrow> (world, agent_definition) act) option"
  x_assets :: "world asset_resolver option"
  x_event_sink :: "(string \<Rightarrow> json_obj \<Rightarrow> (world, unit) act) option"
  x_preprocessor :: "(message list \<Rightarrow> (world, message list) act) option"
  x_completion_handler :: "(run_completion \<Rightarrow> (world, unit) act) option"
  x_turn_gate :: "(turn_start \<Rightarrow> (world, string option) act) option"
  x_sandboxes :: "sandbox_registry option"
  x_sandbox_read :: "string \<Rightarrow> string \<Rightarrow> (world, string) act"
  x_artifact_sink :: "(string \<Rightarrow> string \<Rightarrow> string \<Rightarrow> string \<Rightarrow> (world, json_obj) act) option"
  x_compaction_instructions :: string
  x_summarizers :: "(string, llm_client) dict"
  x_cancel_children :: "(string \<Rightarrow> (world, unit) act) option"

definition context_agent ::
  "activity_context \<Rightarrow> string \<Rightarrow> string \<Rightarrow> (world, agent_definition) act" where
  "context_agent x agent_id thread_id = (case x_resolve_agent x of
      None \<Rightarrow> raise (ApplicationError ''agent resolution is not configured'' None True)
    | Some resolve \<Rightarrow>
        bnd (\<lambda>w. case resolve agent_id thread_id w of
               (Inl (KeyError k), w') \<Rightarrow>
                 (Inl (ApplicationError (''Unknown agent: '' @ agent_id) None True), w')
             | r \<Rightarrow> r)
          (\<lambda>agent. if ad_id agent \<noteq> agent_id
             then raise (ApplicationError ''resolver returned a different agent id'' None True)
             else ret agent))"

definition sandbox_for ::
  "activity_context \<Rightarrow> agent_definition \<Rightarrow> agent_thread \<Rightarrow> (world, string) act" where
  "sandbox_for x agent thread = (case x_sandboxes x of
      None \<Rightarrow> raise (ApplicationError
        ''a tool needs a sandbox but the worker registered no sandbox providers'' None True)
    | Some reg \<Rightarrow>
        (case th_sandbox_id thread of
           Some sid \<Rightarrow> sr_attach reg sid
         | None \<Rightarrow>
             (case ad_sandbox agent of
                None \<Rightarrow> raise (ApplicationError (''agent '' @ repr_str (ad_id agent)
                  @ '' has a tool that needs a sandbox but declares no AgentDefinition.sandbox'') None True)
              | Some spec \<Rightarrow> sr_open reg (th_id thread) spec)))"

section \<open>Publishing\<close>

text \<open>\<open>{**a, **b}\<close>.\<close>

definition dmerge :: "json_obj \<Rightarrow> json_obj \<Rightarrow> json_obj" where
  "dmerge a b = foldl (\<lambda>d (k, v). dset k v d) a b"

text \<open>\<open>RuntimeEvents\<close> with its \<open>ScopedEventSink\<close>.\<close>

record runtime_events =
  re_thread_id :: string
  re_identity :: json_obj

definition new_events ::
  "agent_thread \<Rightarrow> string option \<Rightarrow> string option \<Rightarrow> int option \<Rightarrow> runtime_events" where
  "new_events thread rid turn_id turn_index =
     \<lparr>re_thread_id = th_id thread,
      re_identity = [(''agent_id'', JStr (th_agent_id thread))]
        @ opt_field ''run_id'' JStr rid
        @ (case turn_id of None \<Rightarrow> [] | Some t \<Rightarrow> [(''turn_id'', JStr t), (''turn_uid'', JStr t)])
        @ opt_field ''turn_index'' JInt turn_index\<rparr>"

text \<open>The event types with a payload model (\<open>PAYLOAD_MODELS\<close>).\<close>

definition payload_kinds :: "string list" where
  "payload_kinds = [''assistant_message'', ''tool_result'', ''tool_resolved'', ''tool_waiting'', ''model_usage'']"

definition scoped_publish ::
  "activity_context \<Rightarrow> json_obj \<Rightarrow> string \<Rightarrow> json_obj \<Rightarrow> (world, unit) act" where
  "scoped_publish x identity channel event = (case x_event_sink x of
      None \<Rightarrow> ret ()
    | Some sink \<Rightarrow>
        (let data = dmerge identity (case dget event ''data'' of Some (JObj d) \<Rightarrow> d | _ \<Rightarrow> []);
             checked = (case dget event ''type'' of
                Some (JStr kind) \<Rightarrow> (if kind \<in> set payload_kinds then x_payload x kind data else Inr data)
              | _ \<Rightarrow> Inr data)
         in catch
              (case checked of
                 Inl e \<Rightarrow> raise e
               | Inr d \<Rightarrow>
                   (let payload = dset ''data'' (JObj d) event
                    in thn (modifyS (\<lambda>w. w\<lparr>w_events := w_events w @ [(channel, payload)]\<rparr>))
                         (sink channel payload)))
              (\<lambda>_. ret ())))"

definition emit :: "activity_context \<Rightarrow> runtime_events \<Rightarrow> string \<Rightarrow> json_obj \<Rightarrow> (world, unit) act" where
  "emit x ev event_type data = scoped_publish x (re_identity ev) (''thread:'' @ re_thread_id ev)
     [(''type'', JStr event_type), (''thread_id'', JStr (re_thread_id ev)), (''data'', JObj data)]"

definition turn_fields :: "string option \<Rightarrow> json_obj" where
  "turn_fields turn_id =
     (case turn_id of None \<Rightarrow> [] | Some t \<Rightarrow> [(''turn_id'', JStr t), (''turn_uid'', JStr t)])"

definition on_user_message :: "activity_context \<Rightarrow> runtime_events \<Rightarrow> content \<Rightarrow> (world, unit) act" where
  "on_user_message x ev c = emit x ev ''user_message'' [(''content'', content_to_json c)]"

definition on_assistant_message :: "activity_context \<Rightarrow> runtime_events \<Rightarrow> message \<Rightarrow> (world, unit) act" where
  "on_assistant_message x ev m = emit x ev ''assistant_message''
     [(''content'', content_to_json (m_content m)), (''thought_summary'', jopt (m_thought_summary m)),
      (''tool_calls'', JList (map tool_call_to_dict (case m_tool_calls m of None \<Rightarrow> [] | Some cs \<Rightarrow> cs)))]"

definition on_turn_start :: "activity_context \<Rightarrow> runtime_events \<Rightarrow> int \<Rightarrow> string option \<Rightarrow> (world, unit) act" where
  "on_turn_start x ev turn turn_id =
     emit x ev ''turn_start'' ([(''turn'', JInt turn)] @ turn_fields turn_id)"

definition on_tool_call ::
  "activity_context \<Rightarrow> runtime_events \<Rightarrow> string \<Rightarrow> string \<Rightarrow> json_obj \<Rightarrow> (world, unit) act" where
  "on_tool_call x ev call_id name args = emit x ev ''tool_call''
     [(''tool_call_id'', JStr call_id), (''name'', JStr name), (''args'', JObj args)]"

definition output_str :: "json \<Rightarrow> json" where
  "output_str j = (if j = JNull then JNull else JStr (py_str j))"

definition on_tool_result ::
  "activity_context \<Rightarrow> runtime_events \<Rightarrow> string \<Rightarrow> tool_result \<Rightarrow> string option \<Rightarrow> (world, unit) act" where
  "on_tool_result x ev call_id r turn_id = emit x ev ''tool_result''
     ([(''tool_call_id'', JStr call_id), (''output'', output_str (tr_output r)),
       (''error'', jopt (tr_error r)),
       (''result'', JObj (dmerge [(''result'', tr_output r)] (tool_result_to_dict r)))]
      @ turn_fields turn_id)"

definition on_tool_waiting ::
  "activity_context \<Rightarrow> runtime_events \<Rightarrow> string \<Rightarrow> string \<Rightarrow> string option \<Rightarrow> json_obj option
     \<Rightarrow> (world, unit) act" where
  "on_tool_waiting x ev call_id prompt turn_id wait_request = emit x ev ''tool_waiting''
     ([(''tool_call_id'', JStr call_id), (''prompt'', JStr prompt)]
      @ (case wait_request of
           None \<Rightarrow> []
         | Some w \<Rightarrow>
             [(''wait_request'', JObj w),
              (''wait_kind'', case dget w ''kind'' of Some (JStr k) \<Rightarrow> JStr k | _ \<Rightarrow> JNull),
              (''wait_payload'', case dget w ''payload'' of Some (JObj p) \<Rightarrow> JObj p | _ \<Rightarrow> JObj [])])
      @ turn_fields turn_id)"

definition on_tool_resolved ::
  "activity_context \<Rightarrow> runtime_events \<Rightarrow> string \<Rightarrow> tool_result \<Rightarrow> string option \<Rightarrow> (world, unit) act" where
  "on_tool_resolved x ev call_id r turn_id = emit x ev ''tool_resolved''
     ([(''tool_call_id'', JStr call_id), (''output'', output_str (tr_output r)),
       (''result'', JObj (dmerge [(''result'', tr_output r)] (tool_result_to_dict r)))]
      @ turn_fields turn_id)"

definition on_complete ::
  "activity_context \<Rightarrow> runtime_events \<Rightarrow> bool \<Rightarrow> string \<Rightarrow> string \<Rightarrow> (world, unit) act" where
  "on_complete x ev success reason msg = emit x ev ''complete''
     [(''success'', JBool success), (''reason'', JStr reason), (''message'', JStr msg)]"

definition on_context_compacted ::
  "activity_context \<Rightarrow> runtime_events \<Rightarrow> string \<Rightarrow> compaction_block \<Rightarrow> (world, unit) act" where
  "on_context_compacted x ev mid block = emit x ev ''context_compacted''
     (dmerge [(''message_id'', JStr mid)]
        (case block_to_json (CompactionBlock block) of JObj d \<Rightarrow> AList.delete ''type'' d | _ \<Rightarrow> []))"

definition on_error :: "activity_context \<Rightarrow> runtime_events \<Rightarrow> py_error \<Rightarrow> (world, unit) act" where
  "on_error x ev e = emit x ev ''error'' [(''message'', JStr (err_str e))]"

section \<open>What the dependencies may do\<close>

text \<open>
  \<open>context_respects R x\<close>: each dependency moves the world along \<open>R\<close>. With \<open>store_step\<close> it is the rely
  condition of the activities: code the worker runs reaches the projections only through the stores (or
  does not touch them); other tasks of the worker that run while a dependency is awaited are covered by
  it as well.
\<close>

definition tool_respects :: "(world \<Rightarrow> world \<Rightarrow> bool) \<Rightarrow> world tool \<Rightarrow> bool" where
  "tool_respects R tk \<longleftrightarrow>
     (\<forall>params ctx. keeps R (tl_build tk params ctx))
     \<and> (\<forall>params ctx w inv. fst (tl_build tk params ctx w) = Inr inv \<longrightarrow> keeps R (inv_execute inv))
     \<and> (\<forall>f call inv tx. tl_can_execute tk = Some f \<longrightarrow> keeps R (f call inv tx))
     \<and> (\<forall>f call rs. tl_on_resolve tk = Some (ResolvePlain f) \<longrightarrow> keeps R (f call rs))
     \<and> (\<forall>f call rs ctx. tl_on_resolve tk = Some (ResolveCtx f) \<longrightarrow> keeps R (f call rs ctx))"

definition agent_respects :: "(world \<Rightarrow> world \<Rightarrow> bool) \<Rightarrow> agent_definition \<Rightarrow> bool" where
  "agent_respects R a \<longleftrightarrow>
     (\<forall>n tk. registry_get n (ad_tools a) = Some tk \<longrightarrow> tool_respects R tk)
     \<and> (\<forall>p ms ts al mx. keeps R (llm_complete (ad_llm a) p ms ts al mx))"

definition context_respects :: "(world \<Rightarrow> world \<Rightarrow> bool) \<Rightarrow> activity_context \<Rightarrow> bool" where
  "context_respects R x \<longleftrightarrow>
     (\<forall>f a t. x_resolve_agent x = Some f \<longrightarrow> keeps R (f a t)
        \<and> (\<forall>w ag. fst (f a t w) = Inr ag \<longrightarrow> agent_respects R ag))
     \<and> (\<forall>f k m c. x_assets x = Some f \<longrightarrow> keeps R (f k m c))
     \<and> (\<forall>f c p. x_event_sink x = Some f \<longrightarrow> keeps R (f c p))
     \<and> (\<forall>f ms. x_preprocessor x = Some f \<longrightarrow> keeps R (f ms))
     \<and> (\<forall>f c. x_completion_handler x = Some f \<longrightarrow> keeps R (f c))
     \<and> (\<forall>f t. x_turn_gate x = Some f \<longrightarrow> keeps R (f t))
     \<and> (\<forall>r. x_sandboxes x = Some r \<longrightarrow>
          (\<forall>s. keeps R (sr_attach r s)) \<and> (\<forall>s p. keeps R (sr_open r s p))
          \<and> (\<forall>s. keeps R (sr_close r s)))
     \<and> (\<forall>s p. keeps R (x_sandbox_read x s p))
     \<and> (\<forall>f t n d m. x_artifact_sink x = Some f \<longrightarrow> keeps R (f t n d m))
     \<and> (\<forall>n l p ms ts al mx. dget (x_summarizers x) n = Some l \<longrightarrow> keeps R (llm_complete l p ms ts al mx))
     \<and> (\<forall>f t. x_cancel_children x = Some f \<longrightarrow> keeps R (f t))"

abbreviation tool_ok_step :: "world tool \<Rightarrow> bool" where
  "tool_ok_step \<equiv> tool_respects store_step"

abbreviation agent_ok_step :: "agent_definition \<Rightarrow> bool" where
  "agent_ok_step \<equiv> agent_respects store_step"

abbreviation context_ok_step :: "activity_context \<Rightarrow> bool" where
  "context_ok_step \<equiv> context_respects store_step"

lemmas tool_ok_step_def = tool_respects_def [of store_step]

lemmas agent_ok_step_def = agent_respects_def [of store_step]

lemmas context_ok_step_def = context_respects_def [of store_step]

text \<open>A step contract that publishing an event respects.\<close>

locale event_contract = step_contract R for R :: "world \<Rightarrow> world \<Rightarrow> bool" +
  assumes step_event: "R w (w\<lparr>w_events := e\<rparr>)"
begin

lemma bnd_result_kept:
  assumes m: "keeps R m" and f: "\<And>w a. fst (m w) = Inr a \<Longrightarrow> keeps R (f a)"
  shows "keeps R (bnd m f)"
proof (rule keepsI)
  fix w
  obtain r w' where mw: "m w = (r, w')" by fastforce
  with keepsD [OF m, of w] have st: "R w w'" by simp
  show "R w (snd (bnd m f w))"
  proof (cases r)
    case (Inl e)
    with mw st show ?thesis by (simp add: bnd_def)
  next
    case (Inr a)
    with mw have "keeps R (f a)" by (intro f [of w]) simp
    from step_trans [OF st keepsD [OF this]] mw Inr show ?thesis by (simp add: bnd_def)
  qed
qed

lemma agent_kept:
  assumes "context_respects R x"
  shows "keeps R (context_agent x a t)"
proof (cases "x_resolve_agent x")
  case None
  then show ?thesis by (simp add: context_agent_def keeps_raise)
next
  case (Some f)
  with assms have f: "keeps R (f a t)" by (simp add: context_respects_def)
  let ?g = "\<lambda>w. case f a t w of
      (Inl (KeyError k), w') \<Rightarrow> (Inl (ApplicationError (''Unknown agent: '' @ a) None True), w')
    | r \<Rightarrow> r"
  have "snd (?g w) = snd (f a t w)" for w
    by (auto split: prod.split sum.split py_error.split)
  with keepsD [OF f] have "keeps R ?g" by (intro keepsI) metis
  then show ?thesis using Some
    by (auto simp: context_agent_def intro!: keeps_bnd keeps_if keeps_raise keeps_ret)
qed

lemma agent_respectful:
  assumes "context_respects R x" and "fst (context_agent x a t w) = Inr ag"
  shows "agent_respects R ag \<and> ad_id ag = a"
proof (cases "x_resolve_agent x")
  case (Some f)
  with assms(2) have ag: "fst (f a t w) = Inr ag \<and> ad_id ag = a"
    by (auto simp: context_agent_def act_defs split: prod.splits sum.splits py_error.splits if_splits)
  from assms(1) Some have "\<forall>w ag. fst (f a t w) = Inr ag \<longrightarrow> agent_respects R ag"
    by (simp add: context_respects_def)
  with ag show ?thesis by blast
qed (use assms in \<open>simp add: context_agent_def raise_def\<close>)

lemma sandbox_kept: "context_respects R x \<Longrightarrow> keeps R (sandbox_for x a t)"
  by (auto simp: sandbox_for_def context_respects_def keeps_raise split: option.split)

lemma log_kept: "keeps R (modifyS (\<lambda>w. w\<lparr>w_events := w_events w @ e\<rparr>))"
  by (rule keeps_modifyS) (rule step_event)

lemma publish_kept: "context_respects R x \<Longrightarrow> keeps R (scoped_publish x i c e)"
  by (auto simp: scoped_publish_def Let_def context_respects_def
      intro!: keeps_monad log_kept split: option.split sum.split)

lemma emit_kept: "context_respects R x \<Longrightarrow> keeps R (emit x ev t d)"
  by (simp add: emit_def publish_kept)

lemma events_kept:
  assumes "context_respects R x"
  shows "keeps R (on_user_message x ev c)"
    and "keeps R (on_assistant_message x ev m)"
    and "keeps R (on_turn_start x ev n t)"
    and "keeps R (on_tool_call x ev i nm args)"
    and "keeps R (on_tool_result x ev i r t)"
    and "keeps R (on_tool_waiting x ev i p t wr)"
    and "keeps R (on_tool_resolved x ev i r t)"
    and "keeps R (on_complete x ev b rs m')"
    and "keeps R (on_context_compacted x ev i b')"
    and "keeps R (on_error x ev err)"
  using assms by (simp_all add: emit_kept on_user_message_def on_assistant_message_def on_turn_start_def
    on_tool_call_def on_tool_result_def on_tool_waiting_def on_tool_resolved_def on_complete_def
    on_context_compacted_def on_error_def)

lemma resolve_block_kept:
  "(\<And>f k m c. resolver = Some f \<Longrightarrow> keeps R (f k m c)) \<Longrightarrow> keeps R (resolve_block now resolver ctx b)"
  by (auto simp: resolve_block_def intro!: keeps_bnd keeps_raise keeps_ret keeps_readS
      split: option.split resolution.split)

lemma prepare_kept:
  "(\<And>f k m c. resolver = Some f \<Longrightarrow> keeps R (f k m c)) \<Longrightarrow> keeps R (prepare_messages now ms resolver ctx)"
  unfolding prepare_messages_def by (intro keeps_bnd keeps_map_act resolve_block_kept keeps_ret)

end

interpretation se: event_contract store_step
  by unfold_locales (simp add: store_step_same)

lemmas keeps_bnd_result = se.bnd_result_kept

lemmas context_agent_ok = se.agent_respectful

lemmas keeps_context_agent = se.agent_kept

lemmas keeps_events = se.events_kept

lemmas keeps_prepare = se.prepare_kept

lemmas [keeps_rules] = se.agent_kept se.sandbox_kept se.emit_kept se.events_kept

lemmas event_defs = on_user_message_def on_assistant_message_def on_turn_start_def on_tool_call_def
  on_tool_result_def on_tool_waiting_def on_tool_resolved_def on_complete_def
  on_context_compacted_def on_error_def

text \<open>Publishing never raises an \<open>Exception\<close>: only a cancellation gets through.\<close>

definition only_cancels :: "(world, 'a) act \<Rightarrow> bool" where
  "only_cancels m \<longleftrightarrow> (\<forall>w e. fst (m w) = Inl e \<longrightarrow> e = CancelledError)"

lemma only_cancels_emit: "only_cancels (emit x ev t d)"
  unfolding only_cancels_def emit_def scoped_publish_def
  by (auto simp: Let_def catch_def ret_def dest: not_exception
      split: option.splits prod.splits sum.splits if_splits)

end
