(* ===== verification/Tool_Activities.thy ===== *)
theory Tool_Activities
  imports Activity_Context
begin

text \<open>
  \<open>actant/runtime/temporal/activities/tools.py\<close>: the activities that admit, execute, resolve and
  finalize the calls of one tool group. \<open>attempt\<close> is Temporal's attempt count of the activity. The
  heartbeats and the \<open>current_call\<close> variable, which no modelled code reads, are left out; a
  cancellation that reaches the activity is \<open>CancelledError\<close> raised by an awaited action.
\<close>

section \<open>Payloads\<close>

datatype admit_decision = AdmitExecute | AdmitDeny | AdmitAwaitHuman

record admit_input =
  ai_agent_id :: string
  ai_thread_id :: string
  ai_run_id :: string
  ai_tool_call_id :: string

record admit_outcome =
  ao_tool_call_id :: string
  ao_decision :: admit_decision
  ao_reason :: "string option"
  ao_wait_request :: "json_obj option"

record execute_input =
  ei_agent_id :: string
  ei_thread_id :: string
  ei_run_id :: string
  ei_tool_call_id :: string
  ei_context :: json_obj

datatype execute_status = ExecCompleted | ExecFailed

record execute_outcome =
  eo_tool_call_id :: string
  eo_status :: execute_status
  eo_terminal :: bool

record deferred_resolution =
  dr_tool_call_id :: string
  dr_approved :: "bool option"
  dr_answer :: string
  dr_payload :: json_obj

record resolve_tool_input =
  ri_agent_id :: string
  ri_thread_id :: string
  ri_run_id :: string
  ri_tool_call_id :: string
  ri_resolution :: "deferred_resolution option"

definition TOOL_INTERRUPTED :: string where
  "TOOL_INTERRUPTED =
     ''interrupted: the worker running this call stopped before it returned, so it may or ''
     @ ''may not have taken effect. Check for its effect before calling it again.''"

section \<open>Shared helpers\<close>

definition json_or_null :: "json_obj \<Rightarrow> string \<Rightarrow> json" where
  "json_or_null d k = jget d k JNull"

definition result_from_record :: "tool_call_record \<Rightarrow> tool_result" where
  "result_from_record r =
     (let raw = (case r_result r of JObj d \<Rightarrow> d | _ \<Rightarrow> []);
          metadata = (case json_or_null raw ''metadata'' of JObj m \<Rightarrow> m | _ \<Rightarrow> [])
      in case json_or_null raw ''error'' of
           JStr e \<Rightarrow> \<lparr>tr_output = JNull, tr_error = Some e, tr_tool_call_id = Some (r_id r),
                      tr_metadata = metadata, tr_content_blocks = None\<rparr>
         | _ \<Rightarrow> \<lparr>tr_output = json_or_null raw ''result'', tr_error = None,
                 tr_tool_call_id = Some (r_id r), tr_metadata = metadata, tr_content_blocks = None\<rparr>)"

definition outcome_of :: "string \<Rightarrow> tool_result \<Rightarrow> execute_outcome" where
  "outcome_of call_id r = \<lparr>eo_tool_call_id = call_id,
     eo_status = (if is_success r then ExecCompleted else ExecFailed),
     eo_terminal = truthy (json_or_null (tr_metadata r) ''terminal'')\<rparr>"

definition outcome_from_record :: "tool_call_record \<Rightarrow> execute_outcome" where
  "outcome_from_record r = outcome_of (r_id r) (result_from_record r)"

definition record_events :: "agent_thread \<Rightarrow> tool_call_record \<Rightarrow> runtime_events" where
  "record_events thread r =
     new_events thread (Some (r_run_id r)) (Some (r_turn_id r)) (Some (r_turn_index r))"

text \<open>\<open>thread.sandbox_access or agent.sandbox_access\<close>: an instance is always true.\<close>

definition call_context_of ::
  "activity_context \<Rightarrow> agent_definition \<Rightarrow> world tool \<Rightarrow> tool_call_record \<Rightarrow> json_obj
     \<Rightarrow> (world, call_context) act" where
  "call_context_of x agent tk r context =
     bnd (threads_get (r_agent_id r) (r_thread_id r)) (\<lambda>thread.
     bnd (if tl_needs_sandbox tk then bnd (sandbox_for x agent thread) (\<lambda>h. ret (Some h)) else ret None)
       (\<lambda>sandbox.
     ret \<lparr>cx_agent_id = r_agent_id r, cx_thread_id = r_thread_id r, cx_run_id = r_run_id r,
          cx_tool_call_id = r_id r, cx_turn_id = r_turn_id r, cx_sandbox = sandbox,
          cx_sandbox_access = (if sandbox = None then None
             else case th_sandbox_access thread of Some s \<Rightarrow> Some s | None \<Rightarrow> ad_sandbox_access agent),
          cx_parent_thread_id = th_parent_thread_id thread, cx_context = context\<rparr>))"

section \<open>Admission\<close>

definition admit_failed :: "string \<Rightarrow> string \<Rightarrow> (world, admit_outcome) act" where
  "admit_failed call_id reason =
     (let result = (tool_fail reason [])\<lparr>tr_tool_call_id := Some call_id\<rparr>
      in thn (catch (thn (calls_update_status call_id BLOCKED (JObj (tool_result_to_dict result)) None None)
                      (ret ())) (\<lambda>_. ret ()))
           (ret \<lparr>ao_tool_call_id = call_id, ao_decision = AdmitDeny, ao_reason = Some reason,
                 ao_wait_request = None\<rparr>))"

definition deny_call ::
  "activity_context \<Rightarrow> tool_call_record \<Rightarrow> runtime_events \<Rightarrow> string \<Rightarrow> (world, admit_outcome) act" where
  "deny_call x r ev reason =
     (let result = (tool_fail reason [])\<lparr>tr_tool_call_id := Some (r_id r)\<rparr>
      in bnd (calls_update_status (r_id r) BLOCKED (JObj (tool_result_to_dict result)) None None) (\<lambda>won.
         thn (whenM won (on_tool_result x ev (r_id r) result (Some (r_turn_id r))))
           (ret \<lparr>ao_tool_call_id = r_id r, ao_decision = AdmitDeny, ao_reason = Some reason,
                 ao_wait_request = None\<rparr>)))"

definition tool_decision_of ::
  "world tool \<Rightarrow> tool_call_record \<Rightarrow> world tool_invocation \<Rightarrow> turn_context \<Rightarrow> (world, tool_decision) act" where
  "tool_decision_of tk r invn tx = (case tl_can_execute tk of
      Some f \<Rightarrow> f r invn tx | None \<Rightarrow> ret decision_execute)"

definition denied_outcome :: "string \<Rightarrow> admit_outcome" where
  "denied_outcome call_id = \<lparr>ao_tool_call_id = call_id, ao_decision = AdmitDeny, ao_reason = None,
     ao_wait_request = None\<rparr>"

definition await_call ::
  "activity_context \<Rightarrow> tool_call_record \<Rightarrow> runtime_events \<Rightarrow> world tool_invocation \<Rightarrow> tool_decision
     \<Rightarrow> (world, admit_outcome) act" where
  "await_call x r ev invn decision =
     (let request_data = map_option wait_request_to_dict (td_wait_request decision);
          prompt = (if td_reason decision \<noteq> [] then td_reason decision else inv_description invn)
      in bnd (calls_update_status (r_id r) WAITING JNull (Some prompt) request_data) (\<lambda>won.
         if \<not> won then ret (denied_outcome (r_id r))
         else thn (on_tool_waiting x ev (r_id r) prompt (Some (r_turn_id r)) request_data)
           (ret \<lparr>ao_tool_call_id = r_id r, ao_decision = AdmitAwaitHuman,
                 ao_reason = Some (td_reason decision), ao_wait_request = request_data\<rparr>)))"

definition start_call :: "tool_call_record \<Rightarrow> (world, admit_outcome) act" where
  "start_call r =
     bnd (calls_update_status (r_id r) RUNNING JNull None None) (\<lambda>won.
     if \<not> won then ret (denied_outcome (r_id r))
     else ret \<lparr>ao_tool_call_id = r_id r, ao_decision = AdmitExecute, ao_reason = None,
               ao_wait_request = None\<rparr>)"

definition decide_call ::
  "activity_context \<Rightarrow> agent_definition \<Rightarrow> admit_input \<Rightarrow> world tool \<Rightarrow> tool_call_record
     \<Rightarrow> runtime_events \<Rightarrow> world tool_invocation \<Rightarrow> (world, admit_outcome) act" where
  "decide_call x agent p tk r ev invn =
     bnd getS (\<lambda>w.
     bnd (tool_decision_of tk r invn
            \<lparr>tx_agent_id = ad_id agent, tx_system_prompt = ad_persona agent,
             tx_messages = list_for_thread (ai_agent_id p) (ai_thread_id p) w,
             tx_thread_id = ai_thread_id p, tx_turn_id = r_turn_id r, tx_turn_index = r_turn_index r\<rparr>)
       (\<lambda>decision.
     case td_kind decision of
       DENY \<Rightarrow> deny_call x r ev
         (if td_reason decision \<noteq> [] then td_reason decision else ''Tool call denied'')
     | AWAIT_HUMAN \<Rightarrow> await_call x r ev invn decision
     | EXECUTE \<Rightarrow> start_call r))"

definition admit_record ::
  "activity_context \<Rightarrow> agent_definition \<Rightarrow> admit_input \<Rightarrow> tool_call_record \<Rightarrow> runtime_events
     \<Rightarrow> (world, admit_outcome) act" where
  "admit_record x agent p r ev =
     (case registry_get (r_name r) (ad_tools agent) of
        None \<Rightarrow> deny_call x r ev (''Tool '' @ r_name r @ '' not found'')
      | Some tk \<Rightarrow>
          try_else
            (bnd (call_context_of x agent tk r []) (\<lambda>ctx. tl_build tk (r_args r) ctx))
            (\<lambda>e. deny_call x r ev (''Tool build error: '' @ err_str e))
            (\<lambda>invn. decide_call x agent p tk r ev invn))"

definition admit_tool_body :: "activity_context \<Rightarrow> admit_input \<Rightarrow> (world, admit_outcome) act" where
  "admit_tool_body x p =
     bnd (context_agent x (ai_agent_id p) (ai_thread_id p)) (\<lambda>agent.
     bnd (calls_get (ai_tool_call_id p)) (\<lambda>r.
     bnd (threads_get_or_create (ai_agent_id p) (ai_thread_id p)) (\<lambda>thread.
     admit_record x agent p r (record_events thread r))))"

definition admit_tool :: "activity_context \<Rightarrow> admit_input \<Rightarrow> (world, admit_outcome) act" where
  "admit_tool x p = catch (admit_tool_body x p)
     (\<lambda>e. admit_failed (ai_tool_call_id p) (''admission_error: '' @ err_str e))"

section \<open>Execution\<close>

definition execute_failed :: "string \<Rightarrow> string \<Rightarrow> (world, execute_outcome) act" where
  "execute_failed call_id reason =
     (let result = (tool_fail reason [])\<lparr>tr_tool_call_id := Some call_id\<rparr>;
          failed = \<lparr>eo_tool_call_id = call_id, eo_status = ExecFailed, eo_terminal = False\<rparr>
      in catch
           (bnd (calls_update_status call_id FAILED (JObj (tool_result_to_dict result)) None None) (\<lambda>won.
            if \<not> won then bnd (calls_get call_id) (\<lambda>r. ret (outcome_from_record r))
            else ret failed))
           (\<lambda>_. ret failed))"

definition without_terminal :: "json_obj \<Rightarrow> json_obj" where
  "without_terminal d = filter (\<lambda>(k, v). k \<noteq> ''terminal'') d"

definition base_name :: "string \<Rightarrow> string" where
  "base_name path = rev (takeWhile (\<lambda>c. c \<noteq> CHR ''/'') (rev path))"

fun save_deliverables ::
  "activity_context \<Rightarrow> (string \<Rightarrow> string \<Rightarrow> string \<Rightarrow> string \<Rightarrow> (world, json_obj) act) \<Rightarrow> string \<Rightarrow> string
     \<Rightarrow> tool_result \<Rightarrow> json list \<Rightarrow> string list \<Rightarrow> (world, tool_result) act" where
  "save_deliverables x save thread_id handle result refs [] =
     ret (result\<lparr>tr_metadata := dset ''artifacts'' (JList refs) (tr_metadata result)\<rparr>)"
| "save_deliverables x save thread_id handle result refs (path # paths) =
     try_else (x_sandbox_read x handle path)
       (\<lambda>e. ret (tool_fail (''deliverable '' @ repr_str path @ '' could not be read: '' @ err_str e)
                   (without_terminal (tr_metadata result))))
       (\<lambda>data. bnd (save thread_id (base_name path) data
                 (case x_guess_mime x path of None \<Rightarrow> ''application/octet-stream'' | Some m \<Rightarrow> m)) (\<lambda>ref.
          save_deliverables x save thread_id handle result (refs @ [JObj ref]) paths))"

definition materialise ::
  "activity_context \<Rightarrow> agent_definition \<Rightarrow> tool_call_record \<Rightarrow> call_context \<Rightarrow> tool_result
     \<Rightarrow> (world, tool_result) act" where
  "materialise x agent r ctx result =
     (let raw = json_or_null (tr_metadata result) ''deliverables'';
          paths = (case raw of JList js \<Rightarrow> map py_str js | _ \<Rightarrow> [])
      in if \<not> truthy (json_or_null (tr_metadata result) ''terminal'') \<or> \<not> truthy raw then ret result
         else if paths = [] then ret result
         else case x_artifact_sink x of
           None \<Rightarrow> ret (tool_fail ''deliverables were listed but the worker has no artifact sink''
                         (without_terminal (tr_metadata result)))
         | Some save \<Rightarrow>
             bnd (case cx_sandbox ctx of
                    Some h \<Rightarrow> ret h
                  | None \<Rightarrow> bnd (threads_get (r_agent_id r) (r_thread_id r)) (\<lambda>thread. sandbox_for x agent thread))
               (\<lambda>handle. save_deliverables x save (r_thread_id r) handle result [] paths))"

text \<open>The end of \<open>_execute_tool\<close>: the result is stored unless the call was finished meanwhile.\<close>

definition store_result ::
  "activity_context \<Rightarrow> execute_input \<Rightarrow> tool_call_record \<Rightarrow> tool_result \<Rightarrow> (world, execute_outcome) act" where
  "store_result x p r result0 =
     (let result = result0\<lparr>tr_tool_call_id := Some (r_id r)\<rparr>;
          status = (if tr_error result = None then COMPLETED else FAILED)
      in bnd (calls_update_status (r_id r) status (JObj (tool_result_to_dict result)) None None) (\<lambda>won.
         if \<not> won then bnd (calls_get (r_id r)) (\<lambda>r'. ret (outcome_from_record r'))
         else bnd (threads_get_or_create (ei_agent_id p) (ei_thread_id p)) (\<lambda>thread.
           thn (on_tool_result x (record_events thread r) (r_id r) result (Some (r_turn_id r)))
             (ret (outcome_of (r_id r) result)))))"

text \<open>Building and running the tool: a failure to build ends the activity, one to run becomes the
  result.\<close>

definition run_tool ::
  "activity_context \<Rightarrow> agent_definition \<Rightarrow> execute_input \<Rightarrow> world tool \<Rightarrow> tool_call_record
     \<Rightarrow> (world, execute_outcome) act" where
  "run_tool x agent p tk r =
     try_else
       (bnd (call_context_of x agent tk r (ei_context p)) (\<lambda>ctx.
        bnd (tl_build tk (r_args r) ctx) (\<lambda>invn. ret (ctx, invn))))
       (\<lambda>e. execute_failed (r_id r) (''Tool build error: '' @ err_str e))
       (\<lambda>(ctx, invn).
          try_else (inv_execute invn)
            (\<lambda>e. store_result x p r (tool_fail (''Tool execution error: '' @ err_str e) []))
            (\<lambda>result. bnd (materialise x agent r ctx result) (\<lambda>result. store_result x p r result)))"

definition execute_tool_body :: "activity_context \<Rightarrow> nat \<Rightarrow> execute_input \<Rightarrow> (world, execute_outcome) act" where
  "execute_tool_body x attempt p =
     bnd (context_agent x (ei_agent_id p) (ei_thread_id p)) (\<lambda>agent.
     bnd (calls_get (ei_tool_call_id p)) (\<lambda>r.
     if terminal_status (r_status r) then ret (outcome_from_record r)
     else case registry_get (r_name r) (ad_tools agent) of
       None \<Rightarrow> execute_failed (r_id r) (''Tool '' @ r_name r @ '' not found'')
     | Some tk \<Rightarrow>
         (if attempt > 1 \<and> \<not> tl_retry_safe tk then execute_failed (r_id r) TOOL_INTERRUPTED
          else run_tool x agent p tk r)))"

definition execute_tool :: "activity_context \<Rightarrow> nat \<Rightarrow> execute_input \<Rightarrow> (world, execute_outcome) act" where
  "execute_tool x attempt p = catch (execute_tool_body x attempt p)
     (\<lambda>e. execute_failed (ei_tool_call_id p) (''execute_error: '' @ err_str e))"

section \<open>Resolution\<close>

definition resolution_result ::
  "tool_resolution \<Rightarrow> tool_result" where
  "resolution_result rs = tool_ok (JObj (dmerge
      [(''approved'', case rs_approved rs of None \<Rightarrow> JNull | Some b \<Rightarrow> JBool b),
       (''answer'', JStr (rs_answer rs))] (rs_payload rs))) []"

definition apply_resolution ::
  "activity_context \<Rightarrow> string \<Rightarrow> tool_call_record \<Rightarrow> tool_resolution \<Rightarrow> (world, tool_result) act" where
  "apply_resolution x agent_id r rs =
     try_else
       (bnd (context_agent x agent_id (r_thread_id r)) (\<lambda>agent.
        case registry_get (r_name r) (ad_tools agent) of
          None \<Rightarrow> ret None
        | Some tk \<Rightarrow>
            (case tl_on_resolve tk of
               None \<Rightarrow> ret None
             | Some (ResolvePlain f) \<Rightarrow> bnd (f r rs) (\<lambda>res. ret (Some res))
             | Some (ResolveCtx f) \<Rightarrow>
                 bnd (call_context_of x agent tk r []) (\<lambda>ctx.
                 bnd (f r rs ctx) (\<lambda>res. ret (Some res))))))
       (\<lambda>e. ret (tool_fail (''on_resolve failed: '' @ err_str e) []))
       (\<lambda>res. ret (case res of Some res \<Rightarrow> res | None \<Rightarrow> resolution_result rs))"

definition finish_resolution ::
  "activity_context \<Rightarrow> resolve_tool_input \<Rightarrow> tool_call_record \<Rightarrow> tool_result \<Rightarrow> (world, execute_outcome) act" where
  "finish_resolution x p r result0 =
     (let result = result0\<lparr>tr_tool_call_id := Some (r_id r)\<rparr>;
          status = (if is_success result then COMPLETED else FAILED)
      in bnd (calls_finish_waiting (r_id r) status (JObj (tool_result_to_dict result))) (\<lambda>won.
         if \<not> won then bnd (calls_get (r_id r)) (\<lambda>r'. ret (outcome_from_record r'))
         else bnd (threads_get_or_create (ri_agent_id p) (ri_thread_id p)) (\<lambda>thread.
           thn (on_tool_resolved x (record_events thread r) (r_id r) result (Some (r_turn_id r)))
             (ret (outcome_of (r_id r) result)))))"

definition resolve_tool :: "activity_context \<Rightarrow> resolve_tool_input \<Rightarrow> (world, execute_outcome) act" where
  "resolve_tool x p =
     bnd (calls_get (ri_tool_call_id p)) (\<lambda>r.
     if terminal_status (r_status r) then ret (outcome_from_record r)
     else if r_status r \<noteq> WAITING
     then execute_failed (r_id r) (''Tool call is '' @ status_str (r_status r) @ '', not waiting'')
     else
       bnd (case ri_resolution p of
              None \<Rightarrow> ret (tool_fail ''Deferred tool resolution timed out'' [])
            | Some d \<Rightarrow> apply_resolution x (ri_agent_id p) r
                \<lparr>rs_approved = dr_approved d, rs_answer = dr_answer d, rs_payload = dr_payload d\<rparr>)
         (\<lambda>result. finish_resolution x p r result))"

section \<open>Closing a group\<close>

definition record_result :: "tool_call_record \<Rightarrow> json" where
  "record_result r = (case r_result r of JObj d \<Rightarrow> JObj d | _ \<Rightarrow> JObj [(''error'', JStr ''No result'')])"

definition finalize_tool_group :: "activity_context \<Rightarrow> string \<Rightarrow> (world, unit) act" where
  "finalize_tool_group x group_id =
     bnd getS (\<lambda>w.
     for_each (post_result (x_as_int x) record_result)
       (sort_by (\<lambda>a b. str_le (r_id a) (r_id b)) (get_group group_id w)))"

section \<open>The activities move the world by steps of the stores\<close>

lemma keeps_call_context_of [keeps_rules]:
  "context_ok_step x \<Longrightarrow> keeps store_step (call_context_of x agent tk r c)"
  unfolding call_context_of_def by (intro st.keeps_monad keeps_rules) auto

lemma keeps_admit_failed [keeps_rules]: "keeps store_step (admit_failed i reason)"
  unfolding admit_failed_def Let_def by (intro st.keeps_monad keeps_rules)

lemma keeps_deny_call [keeps_rules]: "context_ok_step x \<Longrightarrow> keeps store_step (deny_call x r ev reason)"
  unfolding deny_call_def Let_def by (intro st.keeps_monad keeps_rules) auto

lemma keeps_tool_decision: "tool_ok_step tk \<Longrightarrow> keeps store_step (tool_decision_of tk r invn tx)"
  by (auto simp: tool_decision_of_def tool_ok_step_def st.keeps_ret split: option.split)

lemma keeps_await_call [keeps_rules]:
  "context_ok_step x \<Longrightarrow> keeps store_step (await_call x r ev invn d)"
  unfolding await_call_def Let_def by (intro st.keeps_monad keeps_rules) auto

lemma keeps_execute_failed [keeps_rules]: "keeps store_step (execute_failed i reason)"
  unfolding execute_failed_def Let_def by (intro st.keeps_monad keeps_rules)

lemma keeps_artifact_sink:
  "context_ok_step x \<Longrightarrow> x_artifact_sink x = Some save \<Longrightarrow> keeps store_step (save t n d m)"
  by (simp add: context_ok_step_def)

lemma keeps_save_deliverables:
  assumes "context_ok_step x" and "x_artifact_sink x = Some save"
  shows "keeps store_step (save_deliverables x save t h res refs paths)"
proof (induction paths arbitrary: refs)
  case (Cons p ps)
  have "keeps store_step (x_sandbox_read x h p)" using assms(1) by (simp add: context_ok_step_def)
  with Cons keeps_artifact_sink [OF assms] show ?case
    by (auto intro!: st.keeps_try_else st.keeps_ret st.keeps_bnd)
qed (simp add: st.keeps_ret)

lemma keeps_materialise [keeps_rules]:
  assumes "context_ok_step x"
  shows "keeps store_step (materialise x agent r ctx res)"
  unfolding materialise_def Let_def
  by (auto intro!: st.keeps_monad keeps_rules assms keeps_save_deliverables split: option.split)

lemma keeps_store_result [keeps_rules]:
  "context_ok_step x \<Longrightarrow> keeps store_step (store_result x p r res)"
  unfolding store_result_def Let_def by (intro st.keeps_monad keeps_rules) auto

lemma keeps_finish_resolution [keeps_rules]:
  "context_ok_step x \<Longrightarrow> keeps store_step (finish_resolution x p r res)"
  unfolding finish_resolution_def Let_def by (intro st.keeps_monad keeps_rules) auto

section \<open>What admission does\<close>

text \<open>An admission outcome tells the truth about the call: denied calls are finished, a call to execute
  is running, and one that awaits a person was put in \<open>WAITING\<close> by this activity.\<close>

definition admitted_rightly :: "string \<Rightarrow> world \<Rightarrow> admit_outcome \<Rightarrow> world \<Rightarrow> bool" where
  "admitted_rightly i w ou w' \<longleftrightarrow> ao_tool_call_id ou = i \<and>
     (case ao_decision ou of
        AdmitDeny \<Rightarrow> finished i w'
      | AdmitExecute \<Rightarrow> status_of i w' = Some RUNNING
      | AdmitAwaitHuman \<Rightarrow> (\<exists>v. store_step w v \<and> status_of i v = Some WAITING \<and> store_step v w'))"

definition admit_post :: "string \<Rightarrow> world \<Rightarrow> py_error + admit_outcome \<Rightarrow> world \<Rightarrow> bool" where
  "admit_post i w res w' \<longleftrightarrow> store_step w w' \<and> (\<forall>ou. res = Inr ou \<longrightarrow> admitted_rightly i w ou w')"

lemma admit_post_raise: "store_step w w' \<Longrightarrow> admit_post i w (Inl e) w'"
  by (simp add: admit_post_def)

lemma admit_post_deny:
  "store_step w w' \<Longrightarrow> finished i w' \<Longrightarrow> ao_decision ou = AdmitDeny \<Longrightarrow> ao_tool_call_id ou = i \<Longrightarrow>
   admit_post i w (Inr ou) w'"
  by (simp add: admit_post_def admitted_rightly_def)

lemma admit_post_then:
  "store_step w v \<Longrightarrow> store_step v v' \<Longrightarrow> finished i v \<Longrightarrow> ao_decision ou = AdmitDeny \<Longrightarrow>
   ao_tool_call_id ou = i \<Longrightarrow> admit_post i w (Inr ou) v'"
  by (blast intro: admit_post_deny st.step_trans finished_step)

lemma admit_post_waiting:
  "store_step w v \<Longrightarrow> status_of i v = Some WAITING \<Longrightarrow> store_step v v' \<Longrightarrow>
   ao_decision ou = AdmitAwaitHuman \<Longrightarrow> ao_tool_call_id ou = i \<Longrightarrow> admit_post i w (Inr ou) v'"
  by (auto simp: admit_post_def admitted_rightly_def intro: st.step_trans)

lemma ensures_deny_call:
  assumes x: "context_ok_step x" and st: "store_step w v" and "known (r_id r) v"
  shows "ensures (deny_call x r ev reason) v (admit_post (r_id r) w)"
  unfolding deny_call_def Let_def ensures_bnd
proof (rule ensures_update_terminal [OF assms(3)], simp, simp)
  fix b u assume u: "store_step v u" "finished (r_id r) u"
  have wu: "store_step w u" by (rule st.step_trans [OF st u(1)])
  have ev: "keeps store_step (whenM b (on_tool_result x ev (r_id r)
      ((tool_fail reason [])\<lparr>tr_tool_call_id := Some (r_id r)\<rparr>) (Some (r_turn_id r))))"
    by (intro st.keeps_whenM keeps_events x)
  show "ensures (thn (whenM b (on_tool_result x ev (r_id r)
      ((tool_fail reason [])\<lparr>tr_tool_call_id := Some (r_id r)\<rparr>) (Some (r_turn_id r))))
      (ret \<lparr>ao_tool_call_id = r_id r, ao_decision = AdmitDeny, ao_reason = Some reason,
            ao_wait_request = None\<rparr>)) u (admit_post (r_id r) w)"
    by (rule await_thn [OF ev wu])
      (auto simp: ensures_ret intro: admit_post_raise admit_post_then [OF wu _ u(2)])
qed

lemma ensures_admit_failed:
  assumes "known i v" and "store_step w v"
  shows "ensures (admit_failed i reason) v (admit_post i w)"
  unfolding admit_failed_def Let_def ensures_simps
  by (rule ensures_update_terminal [OF assms(1)])
    (auto intro: admit_post_then [OF _ st.step_refl] st.step_trans [OF assms(2)])

lemma ensures_await_call:
  assumes x: "context_ok_step x" and st: "store_step w v" and "known (r_id r) v"
  shows "ensures (await_call x r ev invn d) v (admit_post (r_id r) w)"
  unfolding await_call_def Let_def ensures_simps denied_outcome_def
  by (rule ensures_update_open [OF assms(3)])
    (auto intro!: ensures_keeps [OF keeps_events(6) [OF x]]
      intro: admit_post_raise admit_post_waiting admit_post_deny st.step_trans [OF st] st st.step_trans
      split: sum.split)

lemma ensures_start_call:
  assumes st: "store_step w v" and "known (r_id r) v"
  shows "ensures (start_call r) v (admit_post (r_id r) w)"
  unfolding ensures_simps denied_outcome_def start_call_def
  by (rule ensures_update_open [OF assms(2)])
    (auto intro: admit_post_deny st st.step_trans [OF st] simp: admit_post_def admitted_rightly_def)

lemma ensures_decide_call:
  assumes x: "context_ok_step x" and tk: "tool_ok_step tk" and st: "store_step w v"
    and known: "known (r_id r) v"
  shows "ensures (decide_call x agent p tk r ev invn) v (admit_post (r_id r) w)"
  unfolding decide_call_def
proof (rule await_bnd [OF st.keeps_getS st], erule admit_post_raise,
    rule await_bnd [where w = w, OF keeps_tool_decision [OF tk]], assumption, erule admit_post_raise)
  fix decision u' u assume "store_step v u'" "store_step u' u" "store_step w u"
  with known have u: "store_step w u" "known (r_id r) u" by (blast intro: known_step)+
  from ensures_deny_call [OF x u] ensures_await_call [OF x u] ensures_start_call [OF u]
  show "ensures (case td_kind decision of
        EXECUTE \<Rightarrow> start_call r
      | DENY \<Rightarrow> deny_call x r ev
          (if td_reason decision \<noteq> [] then td_reason decision else ''Tool call denied'')
      | AWAIT_HUMAN \<Rightarrow> await_call x r ev invn decision) u (admit_post (r_id r) w)"
    by (simp split: tool_decision_kind.split)
qed

lemma agent_tool_ok: "agent_ok_step ag \<Longrightarrow> registry_get n (ad_tools ag) = Some tk \<Longrightarrow> tool_ok_step tk"
  by (simp add: agent_ok_step_def)

lemma keeps_build [keeps_rules]: "tool_ok_step tk \<Longrightarrow> keeps store_step (tl_build tk ps ctx)"
  by (simp add: tool_ok_step_def)

lemma ensures_context_agent:
  assumes x: "context_ok_step x"
    and "\<And>e v. store_step w v \<Longrightarrow> Q (Inl e) v"
    and "\<And>ag v. store_step w v \<Longrightarrow> agent_ok_step ag \<Longrightarrow> ad_id ag = a \<Longrightarrow> ensures (f ag) v Q"
  shows "ensures (bnd (context_agent x a t) f) w Q"
proof -
  from keepsD [OF keeps_context_agent [OF x]] have "store_step w (snd (context_agent x a t w))" .
  with assms(2,3) context_agent_ok [OF x, of a t w] show ?thesis
    unfolding ensures_def bnd_def
    by (cases "context_agent x a t w"; cases "fst (context_agent x a t w)") auto
qed

lemma ensures_bnd_get:
  assumes "known i w" and "\<And>r. dget (w_calls w) i = Some r \<Longrightarrow> ensures (f r) w Q"
  shows "ensures (bnd (calls_get i) f) w Q"
  unfolding ensures_bnd by (rule ensures_calls_get [OF assms(1)]) (simp add: assms(2))

lemma ensures_admit_record:
  assumes x: "context_ok_step x" and ag: "agent_ok_step ag" and st: "store_step w v"
    and known: "known (r_id r) v"
  shows "ensures (admit_record x ag p r ev) v (admit_post (r_id r) w)"
proof (cases "registry_get (r_name r) (ad_tools ag)")
  case None
  with ensures_deny_call [OF x st known] show ?thesis by (simp add: admit_record_def)
next
  case (Some tk)
  with ag have tk: "tool_ok_step tk" by (rule agent_tool_ok)
  show ?thesis unfolding admit_record_def Some option.case
    by (rule await_try [OF _ st])
      (auto intro!: st.keeps_bnd keeps_rules x tk ensures_deny_call ensures_decide_call
        intro: admit_post_raise known_step [OF _ known])
qed

lemma ensures_admit_body:
  assumes x: "context_ok_step x" and keyed: "calls_keyed w" and known: "known (ai_tool_call_id p) w"
  shows "ensures (admit_tool_body x p) w (admit_post (ai_tool_call_id p) w)"
  unfolding admit_tool_body_def
proof (rule ensures_context_agent [OF x], erule admit_post_raise, rule ensures_bnd_get)
  fix ag v assume v: "store_step w v"
  from known_step [OF v known] show "known (ai_tool_call_id p) v" .
next
  fix ag v r
  assume v: "store_step w v" and ag: "agent_ok_step ag"
    and r: "dget (w_calls v) (ai_tool_call_id p) = Some r"
  from r calls_keyed_step [OF v keyed] have id: "r_id r = ai_tool_call_id p"
    by (simp add: calls_keyed_def)
  have "ensures (admit_record x ag p r (record_events thread r)) u (admit_post (ai_tool_call_id p) w)"
    if "store_step w u" for u thread
    using ensures_admit_record [OF x ag that, of r] known_step [OF that known] by (simp add: id)
  then show "ensures (bnd (threads_get_or_create (ai_agent_id p) (ai_thread_id p))
      (\<lambda>thread. admit_record x ag p r (record_events thread r))) v (admit_post (ai_tool_call_id p) w)"
    by (intro await_bnd [OF keeps_threads_get_or_create v]) (auto intro: admit_post_raise)
qed

section \<open>What execution and resolution do\<close>

text \<open>They either are cancelled or answer for the call they were given, which is then finished.\<close>

definition execute_post :: "string \<Rightarrow> world \<Rightarrow> py_error + execute_outcome \<Rightarrow> world \<Rightarrow> bool" where
  "execute_post i w res w' \<longleftrightarrow> store_step w w'
     \<and> (\<forall>ou. res = Inr ou \<longrightarrow> eo_tool_call_id ou = i \<and> finished i w')"

lemma execute_post_raise: "store_step w w' \<Longrightarrow> execute_post i w (Inl e) w'"
  by (simp add: execute_post_def)

lemma execute_post_ret:
  "store_step w w' \<Longrightarrow> finished i w' \<Longrightarrow> eo_tool_call_id ou = i \<Longrightarrow> execute_post i w (Inr ou) w'"
  by (simp add: execute_post_def)

lemma outcome_ids [simp]:
  "eo_tool_call_id (outcome_of i r) = i" "eo_tool_call_id (outcome_from_record rec) = r_id rec"
  by (simp_all add: outcome_of_def outcome_from_record_def)

lemma ensures_execute_failed:
  assumes "known i v" and st: "store_step w v" and "calls_keyed w"
  shows "ensures (execute_failed i reason) v (execute_post i w)"
  unfolding execute_failed_def Let_def ensures_simps
  apply (rule ensures_update_terminal [OF assms(1)])
   apply simp
  subgoal premises u for b u
  proof -
    have wu: "store_step w u" by (rule st.step_trans [OF st u(1)])
    have "dget (w_calls u) i = Some r \<Longrightarrow> r_id r = i" for r
      using calls_keyed_step [OF wu assms(3)] by (simp add: calls_keyed_def)
    with wu u(2) show ?thesis
      by (auto intro!: ensures_calls_get [OF finished_known] execute_post_ret)
  qed
  done

text \<open>Reading back a call that somebody else finished.\<close>

lemma ensures_read_back:
  assumes "finished i u" and wu: "store_step w u" and "calls_keyed w"
  shows "ensures (bnd (calls_get i) (\<lambda>r. ret (outcome_from_record r))) u (execute_post i w)"
proof (rule ensures_bnd_get [OF finished_known [OF assms(1)]])
  fix r assume "dget (w_calls u) i = Some r"
  with calls_keyed_step [OF wu assms(3)] have "r_id r = i" by (simp add: calls_keyed_def)
  with assms(1) wu show "ensures (ret (outcome_from_record r)) u (execute_post i w)"
    by (simp add: ensures_ret execute_post_ret)
qed

text \<open>Announcing a result that was just stored.\<close>

lemma ensures_announce:
  assumes "finished i u" and wu: "store_step w u" and "eo_tool_call_id ou = i"
    and "\<And>thread. keeps store_step (ev thread)"
  shows "ensures (bnd (threads_get_or_create a t) (\<lambda>thread. thn (ev thread) (ret ou))) u (execute_post i w)"
proof (rule await_bnd [OF keeps_threads_get_or_create wu], erule execute_post_raise)
  fix thread z assume z: "store_step u z" "store_step w z"
  show "ensures (thn (ev thread) (ret ou)) z (execute_post i w)"
    by (rule await_thn [OF assms(4) z(2)])
      (auto simp: ensures_ret assms(3) intro: execute_post_raise
        intro!: execute_post_ret finished_step [OF _ assms(1)] st.step_trans [OF z(1)])
qed

lemma ensures_store_result:
  assumes x: "context_ok_step x" and st: "store_step w v" and known: "known (r_id r) v"
    and keyed: "calls_keyed w"
  shows "ensures (store_result x p r res) v (execute_post (r_id r) w)"
  unfolding store_result_def Let_def ensures_bnd [of "calls_update_status _ _ _ _ _"]
  apply (rule ensures_update_terminal [OF known])
   apply simp
  subgoal premises u for b u
  proof -
    have wu: "store_step w u" by (rule st.step_trans [OF st u(1)])
    from ensures_read_back [OF u(2) wu keyed] show ?thesis
      by (auto intro!: ensures_announce [OF u(2) wu] keeps_events x)
  qed
  done

lemma yields_build:
  "tool_ok_step tk \<Longrightarrow>
   yields (\<lambda>(ctx, invn). keeps store_step (inv_execute invn))
     (bnd c (\<lambda>ctx. bnd (tl_build tk ps ctx) (\<lambda>invn. ret (ctx, invn))))"
  by (intro yields_bnd yields_bnd_ret [where P = "\<lambda>invn. keeps store_step (inv_execute invn)"])
    (auto simp: yields_def tool_ok_step_def)

lemma ensures_run_tool:
  assumes x: "context_ok_step x" and tk: "tool_ok_step tk" and st: "store_step w v"
    and known: "known (r_id r) v" and keyed: "calls_keyed w"
  shows "ensures (run_tool x ag p tk r) v (execute_post (r_id r) w)"
proof -
  let ?build = "bnd (call_context_of x ag tk r (ei_context p)) (\<lambda>ctx.
        bnd (tl_build tk (r_args r) ctx) (\<lambda>invn. ret (ctx, invn)))"
  have build: "keeps store_step ?build" by (intro st.keeps_bnd keeps_rules st.keeps_ret x tk)
  have run: "ensures (try_else (inv_execute invn)
      (\<lambda>e. store_result x p r (tool_fail (''Tool execution error: '' @ err_str e) []))
      (\<lambda>result. bnd (materialise x ag r ctx result) (\<lambda>result. store_result x p r result)))
      u (execute_post (r_id r) w)"
    if "keeps store_step (inv_execute invn)" and "store_step w u" and "known (r_id r) u" for ctx invn u
    by (rule await_try [OF that(1,2)])
      (auto intro!: ensures_store_result await_bnd [where w = w, OF keeps_materialise] x keyed
        intro: execute_post_raise known_step [OF _ that(3)] known_step)
  show ?thesis unfolding run_tool_def
  proof (rule await_try_yields [OF build st yields_build [OF tk]])
    fix a :: "call_context \<times> world tool_invocation" and u
    assume a: "case a of (ctx, invn) \<Rightarrow> keeps store_step (inv_execute invn)"
      and u: "store_step v u" "store_step w u"
    from a obtain ctx invn where "a = (ctx, invn)" and "keeps store_step (inv_execute invn)"
      by (cases a) simp
    with run [OF _ u(2) known_step [OF u(1) known]]
    show "ensures (case a of (ctx, invn) \<Rightarrow> try_else (inv_execute invn)
      (\<lambda>e. store_result x p r (tool_fail (''Tool execution error: '' @ err_str e) []))
      (\<lambda>result. bnd (materialise x ag r ctx result) (\<lambda>result. store_result x p r result)))
      u (execute_post (r_id r) w)" by simp
  qed (auto intro: ensures_execute_failed execute_post_raise known_step [OF _ known] keyed)
qed

lemma ensures_execute_body:
  assumes x: "context_ok_step x" and keyed: "calls_keyed w" and known: "known (ei_tool_call_id p) w"
  shows "ensures (execute_tool_body x attempt p) w (execute_post (ei_tool_call_id p) w)"
  unfolding execute_tool_body_def
proof (rule ensures_context_agent [OF x], erule execute_post_raise, rule ensures_bnd_get)
  fix ag v assume v: "store_step w v"
  from known_step [OF v known] show "known (ei_tool_call_id p) v" .
next
  fix ag v r
  assume v: "store_step w v" and ag: "agent_ok_step ag"
    and r: "dget (w_calls v) (ei_tool_call_id p) = Some r"
  from r calls_keyed_step [OF v keyed] have id: "r_id r = ei_tool_call_id p"
    by (simp add: calls_keyed_def)
  from known_step [OF v known] have kv: "known (r_id r) v" by (simp add: id)
  from ensures_execute_failed [OF kv v keyed] ensures_run_tool [OF x _ v kv keyed] agent_tool_ok [OF ag]
  show "ensures (if terminal_status (r_status r) then ret (outcome_from_record r)
     else case registry_get (r_name r) (ad_tools ag) of
       None \<Rightarrow> execute_failed (r_id r) (''Tool '' @ r_name r @ '' not found'')
     | Some tk \<Rightarrow>
         (if attempt > 1 \<and> \<not> tl_retry_safe tk then execute_failed (r_id r) TOOL_INTERRUPTED
          else run_tool x ag p tk r)) v (execute_post (ei_tool_call_id p) w)"
    using r v by (auto simp: id ensures_ret finished_def status_of_def
        intro!: execute_post_ret split: option.split)
qed

text \<open>A resolution finishes its call, unless another task took the call out of \<open>WAITING\<close>, to a status
  that is not final, while the tool's \<open>on_resolve\<close> was awaited.\<close>

definition resolve_post :: "string \<Rightarrow> world \<Rightarrow> py_error + execute_outcome \<Rightarrow> world \<Rightarrow> bool" where
  "resolve_post i w res w' \<longleftrightarrow> store_step w w'
     \<and> (\<forall>ou. res = Inr ou \<longrightarrow> eo_tool_call_id ou = i
          \<and> (finished i w' \<or> (\<exists>v. store_step w v \<and> store_step v w'
                \<and> status_of i v \<noteq> Some WAITING \<and> \<not> finished i v)))"

lemma resolve_post_raise: "store_step w w' \<Longrightarrow> resolve_post i w (Inl e) w'"
  by (simp add: resolve_post_def)

lemma execute_resolve_post: "execute_post i w res w' \<Longrightarrow> resolve_post i w res w'"
  by (simp add: execute_post_def resolve_post_def)

lemma keeps_apply_resolution [keeps_rules]:
  assumes x: "context_ok_step x"
  shows "keeps store_step (apply_resolution x a r rs)"
proof -
  have ok: "keeps store_step (case registry_get (r_name r) (ad_tools ag) of
          None \<Rightarrow> ret None
        | Some tk \<Rightarrow>
            (case tl_on_resolve tk of
               None \<Rightarrow> ret None
             | Some (ResolvePlain f) \<Rightarrow> bnd (f r rs) (\<lambda>res. ret (Some res))
             | Some (ResolveCtx f) \<Rightarrow>
                 bnd (call_context_of x ag tk r []) (\<lambda>ctx. bnd (f r rs ctx) (\<lambda>res. ret (Some res)))))"
    if "agent_ok_step ag" for ag
    using agent_tool_ok [OF that]
    by (auto simp: tool_ok_step_def intro!: st.keeps_ret st.keeps_bnd keeps_call_context_of [OF x]
        split: option.split on_resolve.split)
  have "keeps store_step (bnd (context_agent x a (r_thread_id r)) (\<lambda>ag.
      case registry_get (r_name r) (ad_tools ag) of
          None \<Rightarrow> ret None
        | Some tk \<Rightarrow>
            (case tl_on_resolve tk of
               None \<Rightarrow> ret None
             | Some (ResolvePlain f) \<Rightarrow> bnd (f r rs) (\<lambda>res. ret (Some res))
             | Some (ResolveCtx f) \<Rightarrow>
                 bnd (call_context_of x ag tk r []) (\<lambda>ctx. bnd (f r rs ctx) (\<lambda>res. ret (Some res))))))"
    by (rule keeps_bnd_result [OF keeps_context_agent [OF x] ok])
      (use context_agent_ok [OF x] in blast)
  then show ?thesis unfolding apply_resolution_def by (intro st.keeps_try_else st.keeps_ret)
qed

lemma ensures_finish_resolution:
  assumes x: "context_ok_step x" and st: "store_step w v" and known: "known (r_id r) v"
    and keyed: "calls_keyed w"
  shows "ensures (finish_resolution x p r res) v (resolve_post (r_id r) w)"
  unfolding finish_resolution_def Let_def ensures_bnd [of "calls_finish_waiting _ _ _"]
  apply (rule ensures_finish_waiting [OF known])
    apply simp
  subgoal premises u for u
  proof -
    have wu: "store_step w u" by (rule st.step_trans [OF st u(1)])
    have "ensures (bnd (threads_get_or_create (ri_agent_id p) (ri_thread_id p)) (\<lambda>thread.
           thn (on_tool_resolved x (record_events thread r) (r_id r)
                  (res\<lparr>tr_tool_call_id := Some (r_id r)\<rparr>) (Some (r_turn_id r)))
             (ret (outcome_of (r_id r) (res\<lparr>tr_tool_call_id := Some (r_id r)\<rparr>))))) u (execute_post (r_id r) w)"
      by (rule ensures_announce [OF u(2) wu]) (auto intro: keeps_events x)
    then show ?thesis by (auto intro: ensures_mono execute_resolve_post)
  qed
  subgoal premises u
  proof -
    have "ensures (bnd (calls_get (r_id r)) (\<lambda>r'. ret (outcome_from_record r'))) v (resolve_post (r_id r) w)"
    proof (rule ensures_bnd_get [OF known])
      fix r' assume "dget (w_calls v) (r_id r) = Some r'"
      with calls_keyed_step [OF st keyed] have "r_id r' = r_id r" by (simp add: calls_keyed_def)
      moreover have "finished (r_id r) v
          \<or> (\<exists>z. store_step w z \<and> store_step z v \<and> status_of (r_id r) z \<noteq> Some WAITING \<and> \<not> finished (r_id r) z)"
        using st st.step_refl u by blast
      ultimately show "ensures (ret (outcome_from_record r')) v (resolve_post (r_id r) w)"
        using st by (simp add: ensures_ret resolve_post_def)
    qed
    then show ?thesis by simp
  qed
  done

lemma ensures_resolve_tool:
  assumes x: "context_ok_step x" and keyed: "calls_keyed w" and known: "known (ri_tool_call_id p) w"
  shows "ensures (resolve_tool x p) w (resolve_post (ri_tool_call_id p) w)"
  unfolding resolve_tool_def
proof (rule ensures_bnd_get [OF known])
  fix r assume r: "dget (w_calls w) (ri_tool_call_id p) = Some r"
  with keyed have id: "r_id r = ri_tool_call_id p" by (simp add: calls_keyed_def)
  with known have kr: "known (r_id r) w" by simp
  let ?m = "case ri_resolution p of
        None \<Rightarrow> ret (tool_fail ''Deferred tool resolution timed out'' [])
      | Some d \<Rightarrow> apply_resolution x (ri_agent_id p) r
          \<lparr>rs_approved = dr_approved d, rs_answer = dr_answer d, rs_payload = dr_payload d\<rparr>"
  have m: "keeps store_step ?m" by (auto intro: st.keeps_ret keeps_rules x split: option.split)
  have "ensures (bnd ?m (finish_resolution x p r)) w (resolve_post (r_id r) w)"
    by (rule await_bnd [OF m st.step_refl])
      (auto intro: resolve_post_raise ensures_finish_resolution [OF x] known_step [OF _ kr] keyed)
  moreover have "ensures (execute_failed (r_id r) reason) w (resolve_post (r_id r) w)" for reason
    by (rule ensures_mono [OF ensures_execute_failed [OF kr st.step_refl keyed] execute_resolve_post])
  moreover have "terminal_status (r_status r) \<Longrightarrow>
      ensures (ret (outcome_from_record r)) w (resolve_post (r_id r) w)"
    using r id by (simp add: ensures_ret resolve_post_def st.step_refl finished_def status_of_def)
  ultimately show "ensures (if terminal_status (r_status r) then ret (outcome_from_record r)
     else if r_status r \<noteq> WAITING
     then execute_failed (r_id r) (''Tool call is '' @ status_str (r_status r) @ '', not waiting'')
     else bnd ?m (\<lambda>result. finish_resolution x p r result)) w (resolve_post (ri_tool_call_id p) w)"
    using id by simp
qed

section \<open>Which errors get out\<close>

lemma only_cancels_catch:
  "(\<And>e. only_cancels (h e)) \<Longrightarrow> only_cancels (catch m h)"
  unfolding only_cancels_def catch_def by (auto split: prod.splits sum.splits if_splits dest: not_exception)

lemma only_cancels_ret: "only_cancels (ret a)"
  by (simp add: only_cancels_def ret_def)

lemma only_cancels_thn: "only_cancels m \<Longrightarrow> only_cancels k \<Longrightarrow> only_cancels (thn m k)"
  unfolding only_cancels_def thn_def bnd_def by (auto split: prod.splits sum.splits) (metis fst_conv)

lemma only_cancels_admit_failed: "only_cancels (admit_failed i reason)"
  unfolding admit_failed_def Let_def by (intro only_cancels_thn only_cancels_catch only_cancels_ret)

lemma only_cancels_execute_failed: "only_cancels (execute_failed i reason)"
  unfolding execute_failed_def Let_def by (intro only_cancels_catch only_cancels_ret)

lemma ensures_admit_tool:
  assumes "context_ok_step x" and "calls_keyed w" and "known (ai_tool_call_id p) w"
  shows "ensures (admit_tool x p) w (admit_post (ai_tool_call_id p) w)"
proof -
  let ?i = "ai_tool_call_id p"
  have failed: "ensures (admit_failed ?i reason) u (admit_post ?i w)" if "store_step w u" for u reason
    by (rule ensures_admit_failed [OF known_step [OF that assms(3)] that])
  show ?thesis
    unfolding admit_tool_def ensures_catch
    by (rule ensures_mono [OF ensures_admit_body [OF assms]])
      (auto split: sum.split simp: failed admit_post_def)
qed

lemma only_cancels_admit_tool: "only_cancels (admit_tool x p)"
  unfolding admit_tool_def by (intro only_cancels_catch only_cancels_admit_failed)

lemma ensures_execute_tool:
  assumes "context_ok_step x" and "calls_keyed w" and "known (ei_tool_call_id p) w"
  shows "ensures (execute_tool x n p) w (execute_post (ei_tool_call_id p) w)"
proof -
  let ?i = "ei_tool_call_id p"
  have failed: "ensures (execute_failed ?i reason) u (execute_post ?i w)" if "store_step w u" for u reason
    by (rule ensures_execute_failed [OF known_step [OF that assms(3)] that assms(2)])
  show ?thesis
    unfolding execute_tool_def ensures_catch
    by (rule ensures_mono [OF ensures_execute_body [OF assms]])
      (auto split: sum.split simp: failed execute_post_def)
qed

lemma only_cancels_execute_tool: "only_cancels (execute_tool x n p)"
  unfolding execute_tool_def by (intro only_cancels_catch only_cancels_execute_failed)

section \<open>Closing a group\<close>

definition group_order :: "tool_call_record list \<Rightarrow> tool_call_record list" where
  "group_order rs = sort_by (\<lambda>a b. str_le (r_id a) (r_id b)) rs"

lemma group_order_sorted: "sorted_wrt (\<lambda>a b. str_le (r_id a) (r_id b)) (group_order rs)"
  unfolding group_order_def by (rule sorted_sort_by) (use str_le_linear str_le_trans in blast)+

lemma group_order_set [simp]: "set (group_order rs) = set rs"
  by (simp add: group_order_def)

lemma distinct_call_ids:
  assumes "wf_dict (w_calls w)" and "calls_keyed w"
  shows "distinct (map r_id (filter P (dvalues (w_calls w))))"
proof -
  have "map r_id (dvalues (w_calls w)) = dkeys (w_calls w)"
    using assms wf_dict_in_set [OF assms(1)] by (auto simp: calls_keyed_def)
  then have "distinct (map r_id (dvalues (w_calls w)))"
    using assms(1) unfolding wf_dict_def by (rule ssubst)
  then show ?thesis by (rule distinct_map_filter)
qed

lemma finalize_group_spec:
  assumes "wf_dict (w_calls w)" and "calls_keyed w"
    and "\<And>r. r \<in> set (get_group g w) \<Longrightarrow> \<exists>c. tool_result_content (x_as_int x) (record_result r) = Inr c"
    and "\<And>r. r \<in> set (get_group g w) \<Longrightarrow> r_agent_id r = a \<and> r_thread_id r = t"
  shows "\<exists>w' new. finalize_tool_group x g w = (Inr (), w') \<and> only_messages w w'
     \<and> rows_of a t w' = rows_of a t w @ new
     \<and> (\<forall>a' t'. (a', t') \<noteq> (a, t) \<longrightarrow> rows_of a' t' w' = rows_of a' t' w)
     \<and> list_all2 (row_for (x_as_int x) record_result)
         (filter (\<lambda>r. \<not> answered (r_id r) (rows_of a t w)) (group_order (get_group g w))) new"
proof -
  have "distinct (map r_id (group_order (get_group g w)))"
    unfolding group_order_def distinct_sort_by get_group_def by (rule distinct_call_ids [OF assms(1,2)])
  from post_results_spec [OF _ _ this, of "x_as_int x" record_result a t w] assms(3,4)
  show ?thesis by (simp add: finalize_tool_group_def group_order_def bnd_def getS_def)
qed

text \<open>A group that was closed without an exception has every member answered.\<close>

lemma post_result_answers:
  assumes "post_result f res r w = (Inr (), w')"
  shows "answered (r_id r) (rows_of (r_agent_id r) (r_thread_id r) w')"
proof (cases "find (is_tool_row (r_id r)) (rows_of (r_agent_id r) (r_thread_id r) w)")
  case (Some m)
  with assms have "w' = w\<lparr>w_uuids := Suc (w_uuids w)\<rparr>"
    by (simp add: post_result_def append_tool_result_def new_id_def act_defs)
  with Some show ?thesis by (simp add: answered_find rows_of_def)
next
  case None
  with assms obtain c where "tool_result_content f (res r) = Inr c"
    by (auto simp: post_result_def append_tool_result_def act_defs split: sum.splits prod.splits)
  then have "\<exists>c. tool_result_content f (res r) = Inr c" by blast
  then obtain v new where
    v: "post_result f res r w = (Inr (), v)"
    and rows: "\<And>a t. rows_of a t v = rows_of a t w @ (if (a, t) = (r_agent_id r, r_thread_id r) then new else [])"
    and new: "new = [] \<and> answered (r_id r) (rows_of (r_agent_id r) (r_thread_id r) w)
       \<or> \<not> answered (r_id r) (rows_of (r_agent_id r) (r_thread_id r) w)
         \<and> (\<exists>m. new = [m] \<and> row_for f res r m)"
    by (rule post_result_spec [where as_int = f and res = res and r = r and w = w]) (rule that, assumption+)
  from v assms have "v = w'" by simp
  with rows [of "r_agent_id r" "r_thread_id r"] new answered_row_for show ?thesis by auto
qed

lemma answered_step: "store_step w w' \<Longrightarrow> answered i (rows_of a t w) \<Longrightarrow> answered i (rows_of a t w')"
  using store_step_rows [of w w' a t] by (auto simp: prefix_def)

lemma post_results_answer:
  "for_each (post_result f res) rs w = (Inr (), w') \<Longrightarrow> r \<in> set rs \<Longrightarrow>
     answered (r_id r) (rows_of (r_agent_id r) (r_thread_id r) w')"
proof (induction rs arbitrary: w)
  case (Cons q rs)
  from Cons.prems(1) obtain v where v: "post_result f res q w = (Inr (), v)"
    "for_each (post_result f res) rs v = (Inr (), w')"
    by (auto simp: thn_def bnd_def split: prod.splits sum.splits)
  have "keeps store_step (for_each (post_result f res) rs)"
    unfolding post_result_def by (intro st.keeps_for_each st.keeps_thn st.keeps_ret keeps_rules)
  from keepsD [OF this, of v] v(2) have "store_step v w'" by simp
  with post_result_answers [OF v(1)] answered_step Cons.IH [OF v(2)] Cons.prems(2) show ?case by auto
qed simp

lemma finalize_group_answers:
  "finalize_tool_group x g w = (Inr (), w') \<Longrightarrow> r \<in> set (get_group g w) \<Longrightarrow>
     answered (r_id r) (rows_of (r_agent_id r) (r_thread_id r) w')"
  unfolding finalize_tool_group_def bnd_def getS_def
  by (simp, erule post_results_answer) simp

section \<open>The whole activities as steps of the stores\<close>

lemma keeps_decide_call:
  assumes "context_ok_step x" and "tool_ok_step tk"
  shows "keeps store_step (decide_call x ag p tk r ev invn)"
  unfolding decide_call_def start_call_def
  by (auto intro!: st.keeps_monad keeps_rules keeps_tool_decision assms split: tool_decision_kind.split)

lemma keeps_admit_tool [keeps_rules]:
  assumes x: "context_ok_step x"
  shows "keeps store_step (admit_tool x p)"
proof -
  have "keeps store_step (bnd (calls_get (ai_tool_call_id p)) (\<lambda>r.
     bnd (threads_get_or_create (ai_agent_id p) (ai_thread_id p)) (\<lambda>thread.
     admit_record x ag p r (record_events thread r))))" if "agent_ok_step ag" for ag
    unfolding admit_record_def using agent_tool_ok [OF that]
    by (auto intro!: st.keeps_monad keeps_rules keeps_decide_call x split: option.split)
  then have "keeps store_step (admit_tool_body x p)"
    unfolding admit_tool_body_def
    by (rule keeps_bnd_result [OF keeps_context_agent [OF x]]) (use context_agent_ok [OF x] in blast)
  then show ?thesis unfolding admit_tool_def by (intro st.keeps_catch keeps_admit_failed)
qed

lemma keeps_run_tool:
  assumes x: "context_ok_step x" and tk: "tool_ok_step tk"
  shows "keeps store_step (run_tool x ag p tk r)"
  unfolding run_tool_def
  by (rule keeps_try_yields [OF _ yields_build [OF tk]])
    (auto intro!: st.keeps_bnd st.keeps_try_else st.keeps_ret keeps_rules x tk)

lemma keeps_execute_tool [keeps_rules]:
  assumes x: "context_ok_step x"
  shows "keeps store_step (execute_tool x n p)"
proof -
  have "keeps store_step (bnd (calls_get (ei_tool_call_id p)) (\<lambda>r.
     if terminal_status (r_status r) then ret (outcome_from_record r)
     else case registry_get (r_name r) (ad_tools ag) of
       None \<Rightarrow> execute_failed (r_id r) (''Tool '' @ r_name r @ '' not found'')
     | Some tk \<Rightarrow>
         (if n > 1 \<and> \<not> tl_retry_safe tk then execute_failed (r_id r) TOOL_INTERRUPTED
          else run_tool x ag p tk r)))" if "agent_ok_step ag" for ag
    using agent_tool_ok [OF that]
    by (auto intro!: st.keeps_bnd st.keeps_ret keeps_rules keeps_run_tool x split: option.split)
  then have "keeps store_step (execute_tool_body x n p)"
    unfolding execute_tool_body_def
    by (rule keeps_bnd_result [OF keeps_context_agent [OF x]]) (use context_agent_ok [OF x] in blast)
  then show ?thesis unfolding execute_tool_def by (intro st.keeps_catch keeps_execute_failed)
qed

lemma keeps_resolve_tool [keeps_rules]:
  "context_ok_step x \<Longrightarrow> keeps store_step (resolve_tool x p)"
  unfolding resolve_tool_def
  by (auto intro!: st.keeps_bnd st.keeps_ret keeps_rules split: option.split)

lemma keeps_finalize_tool_group [keeps_rules]: "keeps store_step (finalize_tool_group x g)"
  unfolding finalize_tool_group_def post_result_def
  by (auto intro!: st.keeps_bnd st.keeps_getS st.keeps_for_each st.keeps_thn st.keeps_ret keeps_rules)

section \<open>A sample worker\<close>

definition sample_llm :: llm_client where
  "sample_llm = \<lparr>llm_ref = ''own'', llm_type_name = ''Sample'', llm_model_id = ''m'',
     llm_supports_allowed_tools = True, llm_attrs = [],
     llm_complete = (\<lambda>_ _ _ _ _. ret (new_message ''assistant'' (Text ''done'')))\<rparr>"

definition sample_agent :: agent_definition where
  "sample_agent = \<lparr>ad_id = ''a'', ad_name = ''A'', ad_persona = ''p'', ad_llm = sample_llm,
     ad_tools = [(''f'', plain_tool ''f'')], ad_tool_allowlist = [], ad_max_turns_per_thread = 25,
     ad_sandbox = None, ad_sandbox_access = None, ad_completion = Reply, ad_final_tools = []\<rparr>"

definition sample_context :: activity_context where
  "sample_context = \<lparr>x_as_int = as_int_strict, x_payload = (\<lambda>_ d. Inr d), x_set_order = (\<lambda>s. s),
     x_guess_mime = (\<lambda>_. None), x_now = (\<lambda>_. 0), x_resolve_agent = Some (\<lambda>_ _. ret sample_agent),
     x_assets = None, x_event_sink = None, x_preprocessor = None, x_completion_handler = None,
     x_turn_gate = None, x_sandboxes = None, x_sandbox_read = (\<lambda>_ _. raise (KeyError ''no file'')),
     x_artifact_sink = None, x_compaction_instructions = [], x_summarizers = [],
     x_cancel_children = None\<rparr>"

lemma sample_context_simps:
  "x_as_int sample_context = as_int_strict" "x_set_order sample_context = (\<lambda>s. s)"
  "x_resolve_agent sample_context = Some (\<lambda>_ _. ret sample_agent)" "x_assets sample_context = None"
  "x_event_sink sample_context = None" "x_preprocessor sample_context = None"
  "x_completion_handler sample_context = None" "x_turn_gate sample_context = None"
  "x_sandboxes sample_context = None" "x_summarizers sample_context = []"
  "x_compaction_instructions sample_context = []" "x_cancel_children sample_context = None"
  by (simp_all add: sample_context_def)

lemma sample_agent_resolved: "context_agent sample_context ''a'' t w = (Inr sample_agent, w)"
  by (simp add: context_agent_def sample_context_simps sample_agent_def act_defs)

lemma sample_silent: "emit sample_context ev e d w = (Inr (), w)"
  by (simp add: emit_def scoped_publish_def sample_context_simps ret_def)

definition sample_call :: "string \<Rightarrow> tool_call_record" where
  "sample_call i = \<lparr>r_id = i, r_group_id = ''g'', r_run_id = ''r'', r_agent_id = ''a'',
     r_thread_id = ''t'', r_turn_id = ''u'', r_turn_index = 1, r_name = ''f'', r_args = [],
     r_status = REQUESTED, r_prompt = None, r_wait_request = None, r_result = JNull\<rparr>"

definition sample_world :: world where
  "sample_world = new_world\<lparr>w_calls := [(''c1'', sample_call ''c1''),
     (''c2'', (sample_call ''c2'')\<lparr>r_status := WAITING\<rparr>),
     (''c3'', (sample_call ''c3'')\<lparr>r_status := COMPLETED, r_result := JObj [(''result'', JInt 3)]\<rparr>)]\<rparr>"

lemma sample_tool_ok: "tool_ok_step (plain_tool n)"
  by (auto simp: tool_ok_step_def plain_tool_def ret_def st.keeps_ret keeps_def st.step_refl)

lemma sample_agent_ok: "agent_ok_step sample_agent"
  by (auto simp: agent_ok_step_def sample_agent_def sample_llm_def registry_get_def st.keeps_ret
      sample_tool_ok split: if_splits)

lemma sample_context_ok: "context_ok_step sample_context"
  by (simp add: context_ok_step_def sample_context_def st.keeps_ret st.keeps_raise sample_agent_ok ret_def)

lemma sample_world_keyed: "calls_keyed sample_world"
  by (auto simp: calls_keyed_def sample_world_def sample_call_def split: if_splits)

lemma sample_world_known: "known ''c1'' sample_world" "known ''c2'' sample_world" "known ''c3'' sample_world"
  by (simp_all add: known_def sample_world_def)

section \<open>Properties\<close>

text \<open>C4. Admission never fails (only a cancellation of the activity gets out of it) and its decision is
  true of the stored call: a denied call is finished, a call to execute is running, and a call that awaits
  a person was put in waiting by this very activity.\<close>

theorem admit_tool_truthful:
  assumes "context_ok_step x" and "calls_keyed w" and "known (ai_tool_call_id p) w"
  shows "case fst (admit_tool x p w) of
      Inl e \<Rightarrow> e = CancelledError
    | Inr ou \<Rightarrow> admitted_rightly (ai_tool_call_id p) w ou (snd (admit_tool x p w))"
  using ensures_admit_tool [OF assms] only_cancels_admit_tool [of x p]
  by (auto simp: ensures_def admit_post_def only_cancels_def split: sum.split)

definition sample_admit :: admit_input where
  "sample_admit = \<lparr>ai_agent_id = ''a'', ai_thread_id = ''t'', ai_run_id = ''r'', ai_tool_call_id = ''c1''\<rparr>"

lemma sample_admit_id [simp]: "ai_tool_call_id sample_admit = ''c1''"
  by (simp add: sample_admit_def)

theorem admit_tool_truthful_witness:
  "case fst (admit_tool sample_context sample_admit sample_world) of
      Inl e \<Rightarrow> e = CancelledError
    | Inr ou \<Rightarrow> admitted_rightly ''c1'' sample_world ou (snd (admit_tool sample_context sample_admit sample_world))"
  using admit_tool_truthful [OF sample_context_ok sample_world_keyed, of sample_admit,
      unfolded sample_admit_id]
  by (simp add: sample_world_known)

text \<open>C1. Execution never fails either, and it never leaves its call open: whatever the tool does (it may
  be unknown, fail to build, raise, list files that cannot be read), the call it was given is finished in
  the store when it returns.\<close>

theorem execute_tool_finishes:
  assumes "context_ok_step x" and "calls_keyed w" and "known (ei_tool_call_id p) w"
  shows "case fst (execute_tool x attempt p w) of
      Inl e \<Rightarrow> e = CancelledError
    | Inr ou \<Rightarrow> eo_tool_call_id ou = ei_tool_call_id p
        \<and> finished (ei_tool_call_id p) (snd (execute_tool x attempt p w))"
  using ensures_execute_tool [OF assms, of attempt] only_cancels_execute_tool [of x attempt p]
  by (auto simp: ensures_def execute_post_def only_cancels_def split: sum.split)

definition sample_execute :: execute_input where
  "sample_execute = \<lparr>ei_agent_id = ''a'', ei_thread_id = ''t'', ei_run_id = ''r'',
     ei_tool_call_id = ''c1'', ei_context = []\<rparr>"

lemma sample_execute_id [simp]: "ei_tool_call_id sample_execute = ''c1''"
  by (simp add: sample_execute_def)

theorem execute_tool_finishes_witness:
  "case fst (execute_tool sample_context 1 sample_execute sample_world) of
      Inl e \<Rightarrow> e = CancelledError
    | Inr ou \<Rightarrow> eo_tool_call_id ou = ''c1''
        \<and> finished ''c1'' (snd (execute_tool sample_context 1 sample_execute sample_world))"
  using execute_tool_finishes [OF sample_context_ok sample_world_keyed, of sample_execute 1,
      unfolded sample_execute_id]
  by (simp add: sample_world_known)

text \<open>A resolution (an approval, an answer, or the expiry of the wait) delivered to an existing call
  answers for that call, and the call is finished afterwards unless another task meanwhile took it out of
  waiting to a status that is not final.\<close>

theorem resolve_tool_finishes:
  assumes "context_ok_step x" and "calls_keyed w" and "known (ri_tool_call_id p) w"
    and "fst (resolve_tool x p w) = Inr ou"
  shows "eo_tool_call_id ou = ri_tool_call_id p
    \<and> (finished (ri_tool_call_id p) (snd (resolve_tool x p w))
       \<or> (\<exists>v. store_step w v \<and> store_step v (snd (resolve_tool x p w))
            \<and> status_of (ri_tool_call_id p) v \<noteq> Some WAITING \<and> \<not> finished (ri_tool_call_id p) v))"
  using ensures_resolve_tool [OF assms(1-3)] assms(4)
  by (simp add: ensures_def resolve_post_def)

definition sample_resolve :: resolve_tool_input where
  "sample_resolve = \<lparr>ri_agent_id = ''a'', ri_thread_id = ''t'', ri_run_id = ''r'',
     ri_tool_call_id = ''c2'', ri_resolution = None\<rparr>"

theorem resolve_tool_finishes_witness:
  "\<exists>ou. fst (resolve_tool sample_context sample_resolve sample_world) = Inr ou
     \<and> eo_tool_call_id ou = ''c2''"
proof -
  have "\<exists>ou. fst (resolve_tool sample_context sample_resolve sample_world) = Inr ou"
    by (simp add: resolve_tool_def sample_resolve_def sample_world_def sample_call_def calls_get_def
        act_defs finish_resolution_def Let_def calls_finish_waiting_def threads_get_or_create_def
        new_world_def on_tool_resolved_def emit_def scoped_publish_def sample_context_def)
  then obtain ou where ou: "fst (resolve_tool sample_context sample_resolve sample_world) = Inr ou" by blast
  with resolve_tool_finishes [OF sample_context_ok sample_world_keyed _ ou] sample_world_known(2)
  show ?thesis by (simp add: sample_resolve_def)
qed

text \<open>C5. The outcome of a call is decided once: no activity of the group, whatever the tools, the
  resolver and the other tasks of the worker do while it awaits them, changes a finished call in any way,
  nor removes or rewrites a message of any transcript.\<close>

theorem finished_calls_immutable:
  assumes "context_ok_step x" and "dget (w_calls w) i = Some r" and "terminal_status (r_status r)"
    and "w' \<in> {snd (admit_tool x pa w), snd (execute_tool x n pe w), snd (resolve_tool x pr w),
               snd (finalize_tool_group x g w)}"
  shows "dget (w_calls w') i = Some r \<and> prefix (rows_of a t w) (rows_of a t w')"
proof -
  have "store_step w w'"
    using assms(4) keepsD [OF keeps_admit_tool [OF assms(1)]] keepsD [OF keeps_execute_tool [OF assms(1)]]
      keepsD [OF keeps_resolve_tool [OF assms(1)]] keepsD [OF keeps_finalize_tool_group] by auto
  with store_step_finished [OF this assms(2,3)] store_step_rows show ?thesis by blast
qed

theorem finished_calls_immutable_witness:
  "dget (w_calls (snd (execute_tool sample_context 2 (sample_execute\<lparr>ei_tool_call_id := ''c3''\<rparr>) sample_world)))
     ''c3'' = dget (w_calls sample_world) ''c3''"
proof -
  let ?r = "(sample_call ''c3'')\<lparr>r_status := COMPLETED, r_result := JObj [(''result'', JInt 3)]\<rparr>"
  have c3: "dget (w_calls sample_world) ''c3'' = Some ?r" by (simp add: sample_world_def)
  have "dget (w_calls (snd (execute_tool sample_context 2 (sample_execute\<lparr>ei_tool_call_id := ''c3''\<rparr>)
      sample_world))) ''c3'' = Some ?r"
    by (rule conjunct1 [OF finished_calls_immutable [OF sample_context_ok c3, of _ undefined 2
          "sample_execute\<lparr>ei_tool_call_id := ''c3''\<rparr>" undefined undefined]]) simp_all
  with c3 show ?thesis by simp
qed

lemma TOOL_INTERRUPTED_nonempty [simp]: "TOOL_INTERRUPTED \<noteq> []"
  by (simp add: TOOL_INTERRUPTED_def)

text \<open>C6. A call is never run twice: an execution that finds the call finished returns the stored outcome
  and does nothing, and a second attempt at a call whose worker was lost, of a tool that is not
  \<open>retry_safe\<close>, only marks it failed as interrupted; neither builds or runs the tool.\<close>

theorem lost_call_not_rerun:
  assumes agent: "context_agent x (ei_agent_id p) (ei_thread_id p) w = (Inr ag, v)"
    and r: "dget (w_calls v) (ei_tool_call_id p) = Some r" and id: "r_id r = ei_tool_call_id p"
    and tk: "registry_get (r_name r) (ad_tools ag) = Some tk" and named: "r_id r \<noteq> []"
  shows "(terminal_status (r_status r) \<longrightarrow> execute_tool x n p w = (Inr (outcome_from_record r), v))
    \<and> (\<not> terminal_status (r_status r) \<and> n > 1 \<and> \<not> tl_retry_safe tk \<longrightarrow>
        execute_tool x n p w =
          (Inr \<lparr>eo_tool_call_id = r_id r, eo_status = ExecFailed, eo_terminal = False\<rparr>,
           v\<lparr>w_calls := dset (r_id r) (r\<lparr>r_status := FAILED, r_result := JObj [(''tool_call_id'', JStr (r_id r)),
               (''error'', JStr TOOL_INTERRUPTED)]\<rparr>) (w_calls v)\<rparr>))"
  using r id tk named
  by (auto simp: execute_tool_def execute_tool_body_def catch_def agent bnd_def calls_get_def
      readS_def ret_def execute_failed_def calls_update_status_def update_record_def
      tool_result_to_dict_def tool_fail_def Let_def)

theorem lost_call_not_rerun_witness:
  "execute_tool sample_context 2 (sample_execute\<lparr>ei_tool_call_id := ''c3''\<rparr>) sample_world
     = (Inr (outcome_from_record ((sample_call ''c3'')\<lparr>r_status := COMPLETED,
              r_result := JObj [(''result'', JInt 3)]\<rparr>)), sample_world)"
  using lost_call_not_rerun [of sample_context "sample_execute\<lparr>ei_tool_call_id := ''c3''\<rparr>" sample_world
      sample_agent sample_world "(sample_call ''c3'')\<lparr>r_status := COMPLETED,
        r_result := JObj [(''result'', JInt 3)]\<rparr>" "plain_tool ''f''" 2]
  by (simp add: context_agent_def sample_context_def sample_execute_def sample_world_def sample_call_def
      sample_agent_def registry_get_def act_defs)

text \<open>C7. Closing a group appends, for the members the transcript does not answer yet, exactly one tool
  message each, carrying the stored result, in the order of their ids, and nothing else changes; so after
  it every member is answered, and closing the group again leaves every transcript as it is.\<close>

theorem finalize_tool_group_once:
  assumes "wf_dict (w_calls w)" and "calls_keyed w"
    and "\<forall>r \<in> set (get_group g w). \<exists>c. tool_result_content (x_as_int x) (record_result r) = Inr c"
    and "\<forall>r \<in> set (get_group g w). r_agent_id r = a \<and> r_thread_id r = t"
  shows "\<exists>w' new. finalize_tool_group x g w = (Inr (), w') \<and> only_messages w w'
     \<and> rows_of a t w' = rows_of a t w @ new
     \<and> list_all2 (row_for (x_as_int x) record_result)
         (filter (\<lambda>r. \<not> answered (r_id r) (rows_of a t w)) (group_order (get_group g w))) new
     \<and> (\<forall>r \<in> set (get_group g w). answered (r_id r) (rows_of a t w'))
     \<and> (\<forall>a' t'. rows_of a' t' (snd (finalize_tool_group x g w')) = rows_of a' t' w')"
proof -
  from finalize_group_spec [OF assms(1,2), of g x a t] assms(3,4) obtain w' new where
    w': "finalize_tool_group x g w = (Inr (), w')" "only_messages w w'"
      "rows_of a t w' = rows_of a t w @ new"
      "list_all2 (row_for (x_as_int x) record_result)
         (filter (\<lambda>r. \<not> answered (r_id r) (rows_of a t w)) (group_order (get_group g w))) new"
    by blast
  from w'(3) answered_all [OF w'(4)]
  have all: "\<forall>r \<in> set (get_group g w). answered (r_id r) (rows_of a t w')" by auto
  from w'(2) have calls: "w_calls w' = w_calls w" by (simp add: only_messages_def)
  then have same: "get_group g w' = get_group g w" "wf_dict (w_calls w')" "calls_keyed w'"
    using assms(1,2) by (simp_all add: get_group_def calls_keyed_def)
  from finalize_group_spec [OF same(2,3), of g x a t] assms(3,4) obtain w2 new2 where
    w2: "finalize_tool_group x g w' = (Inr (), w2)" "rows_of a t w2 = rows_of a t w' @ new2"
      "\<forall>a' t'. (a', t') \<noteq> (a, t) \<longrightarrow> rows_of a' t' w2 = rows_of a' t' w'"
      "list_all2 (row_for (x_as_int x) record_result)
         (filter (\<lambda>r. \<not> answered (r_id r) (rows_of a t w')) (group_order (get_group g w'))) new2"
    unfolding same(1) by blast
  have "filter (\<lambda>r. \<not> answered (r_id r) (rows_of a t w')) (group_order (get_group g w')) = []"
    using all by (simp add: same(1) filter_empty_conv)
  with w2(4) have "new2 = []" by simp
  with w2 have "rows_of a' t' (snd (finalize_tool_group x g w')) = rows_of a' t' w'" for a' t'
    by (cases "(a', t') = (a, t)") auto
  with w' all show ?thesis by blast
qed

lemma sample_group: "set (get_group ''g'' sample_world) = set (dvalues (w_calls sample_world))"
  by (auto simp: get_group_def sample_world_def sample_call_def)

theorem finalize_tool_group_once_witness:
  "answered ''c1'' (rows_of ''a'' ''t'' (snd (finalize_tool_group sample_context ''g'' sample_world)))
   \<and> answered ''c3'' (rows_of ''a'' ''t'' (snd (finalize_tool_group sample_context ''g'' sample_world)))"
proof -
  have "\<forall>r \<in> set (get_group ''g'' sample_world).
      \<exists>c. tool_result_content (x_as_int sample_context) (record_result r) = Inr c"
    by (simp add: get_group_def sample_world_def sample_call_def record_result_def
        tool_result_content_def tool_result_blocks_def jget_def)
  moreover have "\<forall>r \<in> set (get_group ''g'' sample_world). r_agent_id r = ''a'' \<and> r_thread_id r = ''t''"
    by (simp add: get_group_def sample_world_def sample_call_def)
  moreover have "wf_dict (w_calls sample_world)" by (simp add: wf_dict_def sample_world_def)
  ultimately have "\<forall>r \<in> set (dvalues (w_calls sample_world)).
      answered (r_id r) (rows_of ''a'' ''t'' (snd (finalize_tool_group sample_context ''g'' sample_world)))"
    using finalize_tool_group_once [OF _ sample_world_keyed, of "''g''" sample_context "''a''" "''t''"]
    unfolding sample_group by auto
  then show ?thesis by (simp add: sample_world_def sample_call_def)
qed

end
