(* ===== verification/Cancellation.thy ===== *)
theory Cancellation
  imports Tool_Activities
begin

text \<open>
  What a cancelled thread leaves in the stores: \<open>actant/runtime/cancellation.py\<close>, called by the
  runtime's \<open>cancel_thread\<close> and by the workflow's cancellation activity
  (\<open>activities/threads.py\<close>). The ids of the unanswered calls are a Python set, iterated in the
  order \<open>x_set_order\<close>.
\<close>

section \<open>Recording a cancellation\<close>

definition CANCELLED_RESULT :: json_obj where
  "CANCELLED_RESULT = [(''status'', JStr ''cancelled''), (''reason'', JStr ''session_cancelled'')]"

definition close_open :: "tool_call_record \<Rightarrow> (world, unit) act" where
  "close_open r =
     thn (calls_update_status (r_id r) COMPLETED (JObj CANCELLED_RESULT) None None) (ret ())"

definition asked_ids :: "message list \<Rightarrow> string list" where
  "asked_ids rows = concat (map call_ids (filter (\<lambda>m. m_role m = ''assistant'') rows))"

definition answered_ids :: "message list \<Rightarrow> string list" where
  "answered_ids rows = concat (map (\<lambda>m. case m_tool_call_id m of None \<Rightarrow> [] | Some i \<Rightarrow> [i])
     (filter (\<lambda>m. m_role m = ''tool'') rows))"

definition cancelled_result :: "tool_call_record \<Rightarrow> json" where
  "cancelled_result r = (case r_result r of JObj d \<Rightarrow> JObj d | _ \<Rightarrow> JObj CANCELLED_RESULT)"

definition pair_call :: "(json \<Rightarrow> int option) \<Rightarrow> string \<Rightarrow> (world, unit) act" where
  "pair_call as_int i =
     try_else (calls_get i)
       (\<lambda>e. case e of KeyError _ \<Rightarrow> ret () | _ \<Rightarrow> raise e)
       (\<lambda>r. post_result as_int cancelled_result r)"

definition mark_cancelled :: "string \<Rightarrow> string \<Rightarrow> (world, unit) act" where
  "mark_cancelled agent_id thread_id =
     bnd (threads_get_or_create agent_id thread_id) (\<lambda>thread.
     threads_update (thread\<lparr>th_active_run_id := None, th_status := ThreadCancelled\<rparr>))"

definition unpaired_ids :: "activity_context \<Rightarrow> message list \<Rightarrow> string list" where
  "unpaired_ids x rows =
     x_set_order x (filter (\<lambda>i. i \<notin> set (answered_ids rows)) (remdups (asked_ids rows)))"

definition record_cancelled :: "activity_context \<Rightarrow> string \<Rightarrow> string \<Rightarrow> (world, unit) act" where
  "record_cancelled x agent_id thread_id =
     bnd getS (\<lambda>w.
     thn (for_each close_open (get_open_for_thread agent_id thread_id w))
       (bnd getS (\<lambda>w.
        thn (for_each (pair_call (x_as_int x)) (unpaired_ids x (list_for_thread agent_id thread_id w)))
          (mark_cancelled agent_id thread_id))))"

section \<open>The cancellation activity\<close>

definition apply_thread_cancellation :: "activity_context \<Rightarrow> string \<Rightarrow> string \<Rightarrow> (world, unit) act" where
  "apply_thread_cancellation x agent_id thread_id =
     thn (record_cancelled x agent_id thread_id)
       (thn (case x_cancel_children x of None \<Rightarrow> ret () | Some f \<Rightarrow> f thread_id)
         (case x_sandboxes x of
            None \<Rightarrow> ret ()
          | Some reg \<Rightarrow>
              bnd (threads_get_or_create agent_id thread_id) (\<lambda>thread.
              whenM (th_sandbox_id thread = None) (sr_close reg thread_id))))"

section \<open>Steps of the stores\<close>

lemma keeps_close_open [keeps_rules]: "keeps store_step (close_open r)"
  unfolding close_open_def by (intro st.keeps_thn st.keeps_ret keeps_rules)

lemma keeps_post_result [keeps_rules]: "keeps store_step (post_result as_int res r)"
  unfolding post_result_def by (intro st.keeps_thn st.keeps_ret keeps_rules)

lemma keeps_pair_call [keeps_rules]: "keeps store_step (pair_call as_int i)"
  unfolding pair_call_def
  by (auto intro!: st.keeps_try_else st.keeps_ret st.keeps_raise keeps_rules split: py_error.split)

lemma keeps_mark_cancelled [keeps_rules]: "keeps store_step (mark_cancelled a t)"
  unfolding mark_cancelled_def by (intro st.keeps_bnd keeps_rules)

lemma keeps_record_cancelled [keeps_rules]: "keeps store_step (record_cancelled x a t)"
  unfolding record_cancelled_def by (intro st.keeps_monad keeps_rules)

section \<open>What it achieves\<close>

text \<open>Closing: every listed call gets the cancelled result unless it is finished.\<close>

definition closed_as :: "tool_call_record \<Rightarrow> tool_call_record" where
  "closed_as r = (if terminal_status (r_status r) then r
     else r\<lparr>r_status := COMPLETED, r_result := JObj CANCELLED_RESULT\<rparr>)"

lemma close_open_eq:
  assumes "dget (w_calls w) (r_id r) = Some r'"
  shows "close_open r w = (Inr (), w\<lparr>w_calls := dset (r_id r) (closed_as r') (w_calls w)\<rparr>)"
proof (cases "terminal_status (r_status r')")
  case True
  with assms have "w\<lparr>w_calls := dset (r_id r) (closed_as r') (w_calls w)\<rparr> = w"
    by (simp add: closed_as_def dset_same)
  with assms True show ?thesis by (simp add: close_open_def act_defs calls_update_status_def)
next
  case False
  with assms show ?thesis
    by (simp add: close_open_def act_defs calls_update_status_def update_record_def closed_as_def)
qed

lemma close_all_spec:
  assumes "\<And>r. r \<in> set rs \<Longrightarrow> known (r_id r) w"
  shows "\<exists>c. for_each close_open rs w = (Inr (), w\<lparr>w_calls := c\<rparr>) \<and> dkeys c = dkeys (w_calls w)
     \<and> (\<forall>i. dget c i = (if i \<in> r_id ` set rs then map_option closed_as (dget (w_calls w) i)
                        else dget (w_calls w) i))"
  using assms
proof (induction rs arbitrary: w)
  case Nil
  show ?case by (intro exI [of _ "w_calls w"]) (simp add: ret_def)
next
  case (Cons r rs)
  from Cons.prems [of r] obtain r' where r': "dget (w_calls w) (r_id r) = Some r'"
    by (auto simp: known_def)
  let ?v = "w\<lparr>w_calls := dset (r_id r) (closed_as r') (w_calls w)\<rparr>"
  have "\<And>s. s \<in> set rs \<Longrightarrow> known (r_id s) ?v" using Cons.prems by (auto simp: known_def)
  from Cons.IH [OF this] obtain c where
    c: "for_each close_open rs ?v = (Inr (), ?v\<lparr>w_calls := c\<rparr>)" "dkeys c = dkeys (w_calls ?v)"
      "\<forall>i. dget c i = (if i \<in> r_id ` set rs then map_option closed_as (dget (w_calls ?v) i)
                        else dget (w_calls ?v) i)" by blast
  have "closed_as (closed_as s) = closed_as s" for s by (simp add: closed_as_def)
  with c r' close_open_eq [OF r'] dget_Some_key [OF r'] show ?case
    by (intro exI [of _ c]) (auto simp: thn_def bnd_def dkeys_dset_mem)
qed

lemma answered_ids_iff: "i \<in> set (answered_ids rows) \<longleftrightarrow> answered i rows"
  by (force simp: answered_ids_def answered_def is_tool_row_def list_ex_iff split: option.splits)

text \<open>Pairing: the calls the transcript asks for, which are stored under this thread.\<close>

definition pairs_of :: "world \<Rightarrow> string list \<Rightarrow> tool_call_record list" where
  "pairs_of w is = List.map_filter (\<lambda>i. dget (w_calls w) i) is"

lemma pairs_of_simps [simp]:
  "pairs_of w [] = []"
  "pairs_of w (i # is) = (case dget (w_calls w) i of None \<Rightarrow> pairs_of w is | Some r \<Rightarrow> r # pairs_of w is)"
  by (simp_all add: pairs_of_def map_filter_simps split: option.split)

lemma pair_all_eq:
  "(\<And>r. r \<in> set (pairs_of w is) \<Longrightarrow> \<exists>c. tool_result_content as_int (cancelled_result r) = Inr c) \<Longrightarrow>
   for_each (pair_call as_int) is w = for_each (post_result as_int cancelled_result) (pairs_of w is) w"
proof (induction "is" arbitrary: w)
  case (Cons i "is")
  show ?case
  proof (cases "dget (w_calls w) i")
    case None
    with Cons show ?thesis
      by (simp add: thn_def bnd_def pair_call_def try_else_def calls_get_def readS_def ret_def)
  next
    case (Some r)
    from Cons.prems [of r] Some have "\<exists>c. tool_result_content as_int (cancelled_result r) = Inr c" by simp
    then obtain v new where v: "post_result as_int cancelled_result r w = (Inr (), v)" "only_messages w v"
      by (rule post_result_spec [where w = w])
    then have "pairs_of v is = pairs_of w is" by (simp add: pairs_of_def only_messages_def)
    with Cons.IH [of v] Cons.prems Some v show ?thesis
      by (simp add: thn_def bnd_def pair_call_def try_else_def calls_get_def readS_def)
  qed
qed simp

lemma calls_keyedD: "calls_keyed w \<Longrightarrow> dget (w_calls w) i = Some r \<Longrightarrow> r_id r = i"
  unfolding calls_keyed_def by blast

lemma pairs_of_map: "calls_keyed w \<Longrightarrow> map r_id (pairs_of w is) = filter (\<lambda>i. known i w) is"
  by (induction "is") (simp_all add: calls_keyedD known_def split: option.split)

lemma pairs_of_mem: "calls_keyed w \<Longrightarrow>
  r \<in> set (pairs_of w is) \<longleftrightarrow> r_id r \<in> set is \<and> dget (w_calls w) (r_id r) = Some r"
proof (induction "is")
  case (Cons i "is")
  then show ?case by (cases "dget (w_calls w) i") (auto dest: calls_keyedD)
qed simp

lemma calls_values:
  assumes "wf_dict (w_calls w)" and "calls_keyed w"
  shows "r \<in> set (dvalues (w_calls w)) \<longleftrightarrow> dget (w_calls w) (r_id r) = Some r"
proof
  assume "r \<in> set (dvalues (w_calls w))"
  then obtain k where "(k, r) \<in> set (w_calls w)" by auto
  then have "dget (w_calls w) k = Some r" using assms(1) by (simp add: wf_dict_in_set)
  with calls_keyedD [OF assms(2) this] show "dget (w_calls w) (r_id r) = Some r" by simp
next
  assume "dget (w_calls w) (r_id r) = Some r"
  then show "r \<in> set (dvalues (w_calls w))" by (metis map_of_SomeD image_eqI list.set_map snd_conv)
qed

text \<open>An iteration order of a set: a permutation.\<close>

definition set_order_ok :: "activity_context \<Rightarrow> bool" where
  "set_order_ok x \<longleftrightarrow> (\<forall>is. distinct is \<longrightarrow> distinct (x_set_order x is) \<and> set (x_set_order x is) = set is)"

lemma unpaired_ids_facts:
  assumes "set_order_ok x"
  shows "distinct (unpaired_ids x rows)"
    and "set (unpaired_ids x rows) = {i \<in> set (asked_ids rows). \<not> answered i rows}"
proof -
  let ?is = "filter (\<lambda>i. i \<notin> set (answered_ids rows)) (remdups (asked_ids rows))"
  have "distinct ?is" by simp
  with assms have "distinct (x_set_order x ?is) \<and> set (x_set_order x ?is) = set ?is"
    unfolding set_order_ok_def by blast
  then show "distinct (unpaired_ids x rows)"
    and "set (unpaired_ids x rows) = {i \<in> set (asked_ids rows). \<not> answered i rows}"
    by (auto simp: unpaired_ids_def answered_ids_iff)
qed

lemma mark_cancelled_eq:
  assumes "\<And>th. dget (w_threads w) (a, t) = Some th \<Longrightarrow> th_agent_id th = a \<and> th_id th = t"
  obtains ths th where "mark_cancelled a t w = (Inr (), w\<lparr>w_threads := ths\<rparr>)"
    and "dget ths (a, t) = Some th" and "th_status th = ThreadCancelled" and "th_active_run_id th = None"
    and "th_agent_id th = a" and "th_id th = t"
proof (cases "dget (w_threads w) (a, t)")
  case None
  let ?th = "(new_thread t a)\<lparr>th_active_run_id := None, th_status := ThreadCancelled\<rparr>"
  from None show thesis
    by (intro that [of "dset (a, t) ?th (w_threads (snd (threads_get_or_create a t w)))" ?th])
      (simp_all add: mark_cancelled_def bnd_def threads_get_or_create_def threads_update_def modifyS_def
        Let_def new_thread_def)
next
  case (Some th0)
  with assms [OF Some] show thesis
    by (intro that [of "dset (a, t) (th0\<lparr>th_active_run_id := None, th_status := ThreadCancelled\<rparr>)
          (w_threads w)" "th0\<lparr>th_active_run_id := None, th_status := ThreadCancelled\<rparr>"])
      (simp_all add: mark_cancelled_def bnd_def threads_get_or_create_def threads_update_def modifyS_def)
qed

lemma mark_cancelled_again:
  assumes "dget (w_threads w) (a, t) = Some th" and "th_status th = ThreadCancelled"
    and "th_active_run_id th = None" and "th_agent_id th = a" and "th_id th = t"
  shows "mark_cancelled a t w = (Inr (), w)"
proof -
  from assms(2,3) have "th\<lparr>th_active_run_id := None, th_status := ThreadCancelled\<rparr> = th" by simp
  with assms show ?thesis
    by (simp add: mark_cancelled_def bnd_def threads_get_or_create_def threads_update_def modifyS_def
        dset_same)
qed

lemma asked_ids_append [simp]: "asked_ids (xs @ ys) = asked_ids xs @ asked_ids ys"
  by (simp add: asked_ids_def)

lemma asked_ids_rows: "list_all2 (row_for as_int res) rs new \<Longrightarrow> asked_ids new = []"
  by (induction rule: list_all2_induct) (simp_all add: asked_ids_def row_for_simps)

lemma content_of_cancelled [simp]:
  "\<exists>c. tool_result_content as_int (JObj CANCELLED_RESULT) = Inr c"
  by (simp add: tool_result_content_def tool_result_blocks_def CANCELLED_RESULT_def jget_def)

text \<open>A thread whose rows are consistent: its transcript asks for calls of its own, whose stored results
  can be written back as messages, and its row is stored under its own key.\<close>

definition cancellable :: "(json \<Rightarrow> int option) \<Rightarrow> string \<Rightarrow> string \<Rightarrow> world \<Rightarrow> bool" where
  "cancellable as_int a t w \<longleftrightarrow> wf_dict (w_calls w) \<and> calls_keyed w
     \<and> (\<forall>i\<in>set (asked_ids (rows_of a t w)). \<forall>r. dget (w_calls w) i = Some r \<longrightarrow>
          r_agent_id r = a \<and> r_thread_id r = t
          \<and> (\<exists>c. tool_result_content as_int (cancelled_result r) = Inr c))
     \<and> (\<forall>th. dget (w_threads w) (a, t) = Some th \<longrightarrow> th_agent_id th = a \<and> th_id th = t)"

lemma closed_as_simps [simp]:
  "r_id (closed_as r) = r_id r" "r_agent_id (closed_as r) = r_agent_id r"
  "r_thread_id (closed_as r) = r_thread_id r" "terminal_status (r_status (closed_as r))"
  by (simp_all add: closed_as_def)

lemma content_of_closed:
  "\<exists>c. tool_result_content as_int (cancelled_result r) = Inr c \<Longrightarrow>
   \<exists>c. tool_result_content as_int (cancelled_result (closed_as r)) = Inr c"
  using content_of_cancelled [of as_int] by (simp add: closed_as_def cancelled_result_def)

lemma close_open_calls:
  assumes "wf_dict (w_calls w)" and "calls_keyed w"
  obtains c where "for_each close_open (get_open_for_thread a t w) w = (Inr (), w\<lparr>w_calls := c\<rparr>)"
    and "dkeys c = dkeys (w_calls w)"
    and "\<And>i. dget c i = None \<longleftrightarrow> dget (w_calls w) i = None"
    and "\<And>i r. dget c i = Some r \<Longrightarrow> \<exists>r0. dget (w_calls w) i = Some r0 \<and>
           r = (if r_agent_id r0 = a \<and> r_thread_id r0 = t then closed_as r0 else r0)"
proof -
  let ?rs = "get_open_for_thread a t w"
  have mem: "r \<in> set ?rs \<longleftrightarrow> dget (w_calls w) (r_id r) = Some r \<and> r_agent_id r = a
      \<and> r_thread_id r = t \<and> \<not> terminal_status (r_status r)" for r
    by (cases "r_status r") (simp_all add: get_open_for_thread_def calls_values [OF assms] del: set_map)
  then have "known (r_id r) w" if "r \<in> set ?rs" for r using that by (simp add: known_def)
  from close_all_spec [OF this] obtain c where
    c: "for_each close_open ?rs w = (Inr (), w\<lparr>w_calls := c\<rparr>)" "dkeys c = dkeys (w_calls w)"
      "\<forall>i. dget c i = (if i \<in> r_id ` set ?rs then map_option closed_as (dget (w_calls w) i)
                        else dget (w_calls w) i)" by blast
  show thesis
  proof (rule that [OF c(1,2)])
    fix i show "dget c i = None \<longleftrightarrow> dget (w_calls w) i = None" using c(3) by simp
  next
    fix i r assume r: "dget c i = Some r"
    with c(3) obtain r0 where r0: "dget (w_calls w) i = Some r0" by (auto split: if_splits)
    with assms(2) have i: "r_id r0 = i" by (rule calls_keyedD)
    have "i \<in> r_id ` set ?rs \<longleftrightarrow> r0 \<in> set ?rs"
    proof
      assume "i \<in> r_id ` set ?rs"
      then obtain s where "s \<in> set ?rs" "r_id s = i" by auto
      with mem [of s] r0 show "r0 \<in> set ?rs" by simp
    qed (use i in auto)
    with r0 r c(3) mem [of r0] i show "\<exists>r0. dget (w_calls w) i = Some r0 \<and>
        r = (if r_agent_id r0 = a \<and> r_thread_id r0 = t then closed_as r0 else r0)"
      by (auto simp: closed_as_def split: if_splits)
  qed
qed

lemma unpaired_none:
  assumes "set_order_ok x" and "\<And>i. i \<in> set (asked_ids rows) \<Longrightarrow> known i w \<Longrightarrow> answered i rows"
  shows "pairs_of w (unpaired_ids x rows) = []"
proof -
  have "\<forall>i\<in>set (unpaired_ids x rows). dget (w_calls w) i = None"
    using assms unfolding unpaired_ids_facts(2) [OF assms(1)] known_def by blast
  then show ?thesis by (induction "unpaired_ids x rows") (simp_all add: pairs_of_def map_filter_def)
qed

text \<open>The state a cancellation leaves, and that running it again changes nothing.\<close>

definition cancelled_state :: "string \<Rightarrow> string \<Rightarrow> world \<Rightarrow> bool" where
  "cancelled_state a t w \<longleftrightarrow> get_open_for_thread a t w = []
     \<and> (\<forall>i\<in>set (asked_ids (rows_of a t w)). known i w \<longrightarrow> answered i (rows_of a t w))
     \<and> (\<exists>th. dget (w_threads w) (a, t) = Some th \<and> th_status th = ThreadCancelled
          \<and> th_active_run_id th = None \<and> th_agent_id th = a \<and> th_id th = t)"

lemma record_cancelled_again:
  assumes "set_order_ok x" and "cancelled_state a t w"
  shows "record_cancelled x a t w = (Inr (), w)"
proof -
  from assms(2) obtain th where th: "dget (w_threads w) (a, t) = Some th" "th_status th = ThreadCancelled"
    "th_active_run_id th = None" "th_agent_id th = a" "th_id th = t"
    by (auto simp: cancelled_state_def)
  have "pairs_of w (unpaired_ids x (rows_of a t w)) = []"
    using assms(2) by (intro unpaired_none [OF assms(1)]) (simp add: cancelled_state_def)
  with pair_all_eq [of w "unpaired_ids x (rows_of a t w)" "x_as_int x"]
  have "for_each (pair_call (x_as_int x)) (unpaired_ids x (rows_of a t w)) w = (Inr (), w)"
    by (simp add: ret_def)
  with assms(2) mark_cancelled_again [OF th] show ?thesis
    by (simp add: record_cancelled_def cancelled_state_def list_for_thread_def act_defs)
qed

lemma row_for_ids:
  "list_all2 (row_for as_int res) rs new \<Longrightarrow> map m_tool_call_id new = map Some (map r_id rs)"
  by (induction rule: list_all2_induct) (simp_all add: row_for_simps)

lemma record_cancelled_spec:
  assumes ok: "set_order_ok x" and can: "cancellable (x_as_int x) a t w"
  shows "\<exists>w' new. record_cancelled x a t w = (Inr (), w') \<and> cancelled_state a t w'
     \<and> rows_of a t w' = rows_of a t w @ new
     \<and> map m_tool_call_id new = map Some (filter (\<lambda>i. known i w) (unpaired_ids x (rows_of a t w)))
     \<and> store_step w w'"
proof -
  let ?rows = "rows_of a t w" and ?is = "unpaired_ids x (rows_of a t w)"
  from can have wf: "wf_dict (w_calls w)" and keyed: "calls_keyed w" by (simp_all add: cancellable_def)
  obtain c where c: "for_each close_open (get_open_for_thread a t w) w = (Inr (), w\<lparr>w_calls := c\<rparr>)"
      "dkeys c = dkeys (w_calls w)" "\<And>i. dget c i = None \<longleftrightarrow> dget (w_calls w) i = None"
    and cr: "\<And>i r. dget c i = Some r \<Longrightarrow> \<exists>r0. dget (w_calls w) i = Some r0 \<and>
        r = (if r_agent_id r0 = a \<and> r_thread_id r0 = t then closed_as r0 else r0)"
    using close_open_calls [OF wf keyed, of a t] by metis
  let ?w1 = "w\<lparr>w_calls := c\<rparr>"
  have wf1: "wf_dict (w_calls ?w1)" using wf c(2) by (simp add: wf_dict_def)
  have keyed1: "calls_keyed ?w1"
    unfolding calls_keyed_def
    by (auto dest!: cr calls_keyedD [OF keyed])
  have own: "r_agent_id r = a \<and> r_thread_id r = t
      \<and> (\<exists>c. tool_result_content (x_as_int x) (cancelled_result r) = Inr c)"
    if r: "r \<in> set (pairs_of ?w1 ?is)" for r
  proof -
    from r pairs_of_mem [OF keyed1] have i: "r_id r \<in> set (asked_ids ?rows)" "dget c (r_id r) = Some r"
      using unpaired_ids_facts(2) [OF ok, of ?rows] by auto
    from cr [OF i(2)] obtain r0 where r0: "dget (w_calls w) (r_id r) = Some r0"
      "r = (if r_agent_id r0 = a \<and> r_thread_id r0 = t then closed_as r0 else r0)" by blast
    from can i(1) r0(1) have "r_agent_id r0 = a \<and> r_thread_id r0 = t
        \<and> (\<exists>c. tool_result_content (x_as_int x) (cancelled_result r0) = Inr c)"
      unfolding cancellable_def by blast
    with r0(2) content_of_closed [of "x_as_int x" r0] show ?thesis by simp
  qed
  have dist: "distinct (map r_id (pairs_of ?w1 ?is))"
    using unpaired_ids_facts(1) [OF ok] by (simp add: pairs_of_map [OF keyed1])
  from post_results_spec [of "pairs_of ?w1 ?is" "x_as_int x" cancelled_result a t ?w1] own dist
  obtain w2 new where w2: "for_each (post_result (x_as_int x) cancelled_result) (pairs_of ?w1 ?is) ?w1 = (Inr (), w2)"
      "only_messages ?w1 w2" "rows_of a t w2 = rows_of a t ?w1 @ new"
    and new: "list_all2 (row_for (x_as_int x) cancelled_result)
        (filter (\<lambda>r. \<not> answered (r_id r) (rows_of a t ?w1)) (pairs_of ?w1 ?is)) new" by blast
  have rows1: "rows_of a t ?w1 = ?rows" by (simp add: rows_of_def)
  have "\<not> answered (r_id r) ?rows" if "r \<in> set (pairs_of ?w1 ?is)" for r
    using that pairs_of_mem [OF keyed1] unpaired_ids_facts(2) [OF ok, of ?rows] by auto
  with new have new: "list_all2 (row_for (x_as_int x) cancelled_result) (pairs_of ?w1 ?is) new"
    unfolding rows1 by (simp add: filter_id_conv [THEN iffD2])
  have paired: "for_each (pair_call (x_as_int x)) ?is ?w1 = (Inr (), w2)"
    using pair_all_eq [of ?w1 ?is "x_as_int x"] own w2(1) by simp
  from w2(2) have same: "w_calls w2 = c" "w_threads w2 = w_threads w" by (simp_all add: only_messages_def)
  obtain ths th where mark: "mark_cancelled a t w2 = (Inr (), w2\<lparr>w_threads := ths\<rparr>)"
    and th: "dget ths (a, t) = Some th" "th_status th = ThreadCancelled" "th_active_run_id th = None"
      "th_agent_id th = a" "th_id th = t"
    by (rule mark_cancelled_eq [of w2 a t]) (use can same(2) in \<open>auto simp: cancellable_def\<close>)
  let ?w = "w2\<lparr>w_threads := ths\<rparr>"
  have run: "record_cancelled x a t w = (Inr (), ?w)"
    using c(1) paired mark rows1 by (simp add: record_cancelled_def list_for_thread_def act_defs)
  have rows: "rows_of a t ?w = ?rows @ new" using w2(3) rows1 by (simp add: rows_of_def)
  have kn: "known i ?w1 = known i w" "known i ?w = known i w" for i
    using c(3) same(1) by (simp_all add: known_def)
  have rids: "map r_id (pairs_of ?w1 ?is) = filter (\<lambda>i. known i w) ?is"
    unfolding pairs_of_map [OF keyed1] kn(1) ..
  have ids: "map m_tool_call_id new = map Some (filter (\<lambda>i. known i w) ?is)"
    unfolding row_for_ids [OF new] rids ..
  have "get_open_for_thread a t ?w = []"
  proof -
    have False if "r \<in> set (get_open_for_thread a t ?w)" for r
    proof -
      from that have r: "r \<in> set (dvalues c)" "r_agent_id r = a" "r_thread_id r = t"
        "\<not> terminal_status (r_status r)"
        using same(1) by (auto simp: get_open_for_thread_def)
      from r(1) calls_values [OF wf1 keyed1] have "dget c (r_id r) = Some r" by simp
      from cr [OF this] obtain r0 where "r = (if r_agent_id r0 = a \<and> r_thread_id r0 = t then closed_as r0 else r0)"
        by blast
      with r(2-4) show False by (cases "r_agent_id r0 = a \<and> r_thread_id r0 = t") simp_all
    qed
    then show ?thesis using list.set_sel(1) by metis
  qed
  moreover have "answered i (rows_of a t ?w)" if "i \<in> set (asked_ids (rows_of a t ?w))" "known i ?w" for i
  proof (cases "answered i ?rows")
    case False
    from that(1) have "i \<in> set (asked_ids ?rows)" using asked_ids_rows [OF new] rows by simp
    with False that(2) kn have "i \<in> set (filter (\<lambda>i. known i w) ?is)"
      using unpaired_ids_facts(2) [OF ok, of ?rows] by simp
    then have "i \<in> r_id ` set (pairs_of ?w1 ?is)"
      unfolding rids [symmetric] by simp
    with answered_all [OF new] rows show ?thesis by simp
  qed (simp add: rows)
  ultimately have "cancelled_state a t ?w" using th by (simp add: cancelled_state_def)
  with run rows ids keepsD [OF keeps_record_cancelled, of w x a t] show ?thesis by auto
qed

section \<open>Properties\<close>

lemma cancelled_open_none:
  "cancelled_state a t w \<Longrightarrow> r \<in> set (dvalues (w_calls w)) \<Longrightarrow> r_agent_id r = a \<Longrightarrow> r_thread_id r = t \<Longrightarrow>
   terminal_status (r_status r)"
  by (cases "r_status r") (auto simp: cancelled_state_def get_open_for_thread_def filter_empty_conv)

text \<open>C8. Recording a cancellation repairs the thread and is idempotent. It never fails on a consistent
  thread; after it no call of the thread is open, every stored call its transcript asks for has a result
  message, the thread is cancelled with no active run, finished calls are as they were, and the transcript
  has grown by exactly one result for each stored call that was asked for and not answered. Recording the
  cancellation again changes nothing at all.\<close>

theorem record_cancelled_repairs:
  assumes "set_order_ok x" and "cancellable (x_as_int x) a t w"
  shows "\<exists>w' new. record_cancelled x a t w = (Inr (), w') \<and> store_step w w'
     \<and> get_open_for_thread a t w' = []
     \<and> rows_of a t w' = rows_of a t w @ new
     \<and> map m_tool_call_id new = map Some (filter (\<lambda>i. known i w) (unpaired_ids x (rows_of a t w)))
     \<and> (\<forall>i\<in>set (asked_ids (rows_of a t w')). known i w' \<longrightarrow> answered i (rows_of a t w'))
     \<and> map_option th_status (dget (w_threads w') (a, t)) = Some ThreadCancelled
     \<and> map_option th_active_run_id (dget (w_threads w') (a, t)) = Some None
     \<and> record_cancelled x a t w' = (Inr (), w')"
proof -
  from record_cancelled_spec [OF assms] obtain w' new where
    w': "record_cancelled x a t w = (Inr (), w')" and c: "cancelled_state a t w'"
    and rows: "rows_of a t w' = rows_of a t w @ new"
      "map m_tool_call_id new = map Some (filter (\<lambda>i. known i w) (unpaired_ids x (rows_of a t w)))"
      "store_step w w'" by blast
  show ?thesis
    by (intro exI [of _ w'] exI [of _ new])
      (use c w' rows record_cancelled_again [OF assms(1) c] in \<open>auto simp: cancelled_state_def\<close>)
qed

definition sample_ask :: message where
  "sample_ask = (new_message ''assistant'' NoContent)\<lparr>m_tool_calls := Some
     [\<lparr>tc_id = ''c1'', tc_function = \<lparr>fn_name = ''f'', fn_arguments = ''{}''\<rparr>,
       tc_type = ''function'', tc_thought_signature = None, tc_extra_content = []\<rparr>]\<rparr>"

definition asked_world :: world where
  "asked_world = sample_world\<lparr>w_messages := [((''a'', ''t''), [sample_ask])]\<rparr>"

lemma calls_keyed_cong: "w_calls w = w_calls w' \<Longrightarrow> calls_keyed w = calls_keyed w'"
  by (simp add: calls_keyed_def)

lemma asked_rows: "rows_of ''a'' ''t'' asked_world = [sample_ask]"
  by (simp add: rows_of_def asked_world_def)

theorem record_cancelled_repairs_witness:
  "\<exists>w'. record_cancelled sample_context ''a'' ''t'' asked_world = (Inr (), w')
     \<and> get_open_for_thread ''a'' ''t'' w' = []
     \<and> record_cancelled sample_context ''a'' ''t'' w' = (Inr (), w')"
proof -
  have "set_order_ok sample_context" by (simp add: set_order_ok_def sample_context_def)
  moreover have "cancellable (x_as_int sample_context) ''a'' ''t'' asked_world"
    unfolding cancellable_def asked_rows
  proof (intro conjI)
    show "wf_dict (w_calls asked_world)" by (simp add: wf_dict_def asked_world_def sample_world_def)
    show "calls_keyed asked_world"
      using sample_world_keyed calls_keyed_cong [of asked_world sample_world] by (simp add: asked_world_def)
    show "\<forall>th. dget (w_threads asked_world) (''a'', ''t'') = Some th
        \<longrightarrow> th_agent_id th = ''a'' \<and> th_id th = ''t''"
      by (simp add: asked_world_def sample_world_def new_world_def)
    show "\<forall>i\<in>set (asked_ids [sample_ask]). \<forall>r. dget (w_calls asked_world) i = Some r
        \<longrightarrow> r_agent_id r = ''a'' \<and> r_thread_id r = ''t''
          \<and> (\<exists>c. tool_result_content (x_as_int sample_context) (cancelled_result r) = Inr c)"
      using content_of_cancelled [of "x_as_int sample_context"]
      by (simp add: asked_ids_def sample_ask_def new_message_def call_ids_def asked_world_def
          sample_world_def sample_call_def cancelled_result_def)
  qed
  ultimately show ?thesis using record_cancelled_repairs by blast
qed

end
