(* ===== verification/Summaries.thy ===== *)
theory Summaries
  imports Cancellation
begin

text \<open>
  Context compaction as the activities do it (\<open>activities/runs.py\<close>): the configuration of
  \<open>temporal/types.py\<close>, the measure that decides whether a request needs a compaction, the summary call
  and the storing of a compaction row. The row is appended; no stored message is changed. Time spent
  (\<open>perf_counter\<close>) and logging are left out.
\<close>

section \<open>Configuration and payloads\<close>

datatype image_limit = Summarize | DropOldest

record compaction_config =
  cc_threshold :: rat
  cc_keep :: "string list"
  cc_background :: "rat option"
  cc_summarizer :: "string option"
  cc_summary_tokens :: "int option"
  cc_prompt :: "string option"
  cc_images :: bool
  cc_image_limit :: image_limit

definition default_compaction :: compaction_config where
  "default_compaction = \<lparr>cc_threshold = 9 / 10, cc_keep = [], cc_background = None,
     cc_summarizer = None, cc_summary_tokens = None, cc_prompt = None, cc_images = True,
     cc_image_limit = Summarize\<rparr>"

definition compaction_post_init :: "compaction_config \<Rightarrow> py_error + compaction_config" where
  "compaction_post_init c =
     (if (case cc_background c of None \<Rightarrow> False | Some b \<Rightarrow> \<not> (0 < b \<and> b < cc_threshold c))
      then Inl (ValueError ''background must be above 0 and below threshold'')
      else if (case cc_summary_tokens c of None \<Rightarrow> False | Some n \<Rightarrow> n < 256)
      then Inl (ValueError ''summary_tokens must be at least 256'')
      else if (case cc_prompt c of None \<Rightarrow> False | Some p \<Rightarrow> py_strip p = [])
      then Inl (ValueError ''prompt must not be empty; None keeps the generic one'')
      else Inr c)"

record compaction_trigger =
  ct_reason :: string
  ct_tokens :: int
  ct_images :: int
  ct_carried :: "string list"
  ct_through :: "string option"

record compact_context_input =
  ci_agent_id :: string
  ci_thread_id :: string
  ci_run_id :: string
  ci_turn_id :: string
  ci_turn_index :: int
  ci_trigger :: compaction_trigger
  ci_config :: compaction_config

record context_summary =
  cs_summary :: string
  cs_through :: string
  cs_base :: "string option"
  cs_trigger :: compaction_trigger

record store_summary_input =
  ss_agent_id :: string
  ss_thread_id :: string
  ss_run_id :: string
  ss_summary :: context_summary
  ss_config :: compaction_config

record compaction_outcome =
  co_message_id :: string
  co_tokens_after :: int
  co_images_after :: int

definition UNREGISTERED_SUMMARIZER :: string where
  "UNREGISTERED_SUMMARIZER = ''UnregisteredSummarizer''"

section \<open>Preparing a request\<close>

definition prepare_request ::
  "activity_context \<Rightarrow> message list \<Rightarrow> string \<Rightarrow> string \<Rightarrow> string \<Rightarrow> string \<Rightarrow> int option
     \<Rightarrow> (world, message list) act" where
  "prepare_request x ms agent_id thread_id rid turn_id max_images =
     bnd (case x_preprocessor x of Some f \<Rightarrow> f ms | None \<Rightarrow> ret ms) (\<lambda>ms.
     prepare_messages (x_now x)
       (case max_images of None \<Rightarrow> ms | Some n \<Rightarrow> drop_oldest_images ms n)
       (x_assets x) (new_asset_context agent_id thread_id rid turn_id))"

definition dropping :: "agent_definition \<Rightarrow> compaction_config option \<Rightarrow> int option" where
  "dropping agent config = (case config of
      None \<Rightarrow> None
    | Some c \<Rightarrow> (if cc_image_limit c = DropOldest
                 then client_limit (ad_llm agent) ''max_images_per_request'' else None))"

section \<open>Whether a request needs a compaction\<close>

definition compaction_trigger_for ::
  "agent_definition \<Rightarrow> rat \<Rightarrow> model_view \<Rightarrow> message list \<Rightarrow> message list \<Rightarrow> bool \<Rightarrow> bool
     \<Rightarrow> compaction_trigger option" where
  "compaction_trigger_for agent fraction view req prepared ahead drops =
     (let window = client_limit (ad_llm agent) ''context_window_tokens'';
          max_images = (if drops then None else client_limit (ad_llm agent) ''max_images_per_request'')
      in if window = None \<and> max_images = None then None
         else
           (let m = (measure_request (ad_persona agent) req (mv_usage_from view))
                      \<lparr>cm_images := count_images prepared\<rparr>
            in case crossed_limits m window max_images fraction (if ahead then fraction else 1) of
                 None \<Rightarrow> None
               | Some reason \<Rightarrow>
                   (let low = (if mv_compaction view = None then 0 else 1);
                        start = pending_start (mv_messages view) low
                    in if ahead
                       then (case (if start > low then mv_ids view ! (start - 1) else None) of
                               None \<Rightarrow> None
                             | Some through \<Rightarrow>
                                 Some \<lparr>ct_reason = reason, ct_tokens = cm_tokens m,
                                   ct_images = cm_images m, ct_carried = [], ct_through = Some through\<rparr>)
                       else if start \<le> low then None
                       else Some \<lparr>ct_reason = reason, ct_tokens = cm_tokens m, ct_images = cm_images m,
                              ct_carried = List.map_filter id (drop start (mv_ids view)),
                              ct_through = None\<rparr>)))"

section \<open>The summary call\<close>

definition summarizer_for ::
  "activity_context \<Rightarrow> agent_definition \<Rightarrow> compaction_config \<Rightarrow> int \<Rightarrow> int \<Rightarrow> py_error + llm_client" where
  "summarizer_for x agent config tokens images = (case cc_summarizer config of
      None \<Rightarrow> Inr (ad_llm agent)
    | Some name \<Rightarrow>
        (case dget (x_summarizers x) name of
           None \<Rightarrow> Inl (ApplicationError (''no summarizer named '' @ repr_str name @ '' is registered'')
                    (Some UNREGISTERED_SUMMARIZER) True)
         | Some llm \<Rightarrow>
             (let output = (case cc_summary_tokens config of
                   None \<Rightarrow> SUMMARY_MAX_OUTPUT_TOKENS
                 | Some n \<Rightarrow> if n = 0 then SUMMARY_MAX_OUTPUT_TOKENS else n)
              in if (case client_limit llm ''context_window_tokens'' of
                       None \<Rightarrow> False | Some w \<Rightarrow> tokens + output > w)
                    \<or> (case client_limit llm ''max_images_per_request'' of
                         None \<Rightarrow> False | Some n \<Rightarrow> images > n)
                 then Inr (ad_llm agent) else Inr llm)))"

definition summary_cap :: "llm_client \<Rightarrow> int \<Rightarrow> int option \<Rightarrow> int" where
  "summary_cap llm tokens cap =
     (let limit = min (case cap of None \<Rightarrow> SUMMARY_MAX_OUTPUT_TOKENS
                        | Some n \<Rightarrow> if n = 0 then SUMMARY_MAX_OUTPUT_TOKENS else n)
                    SUMMARY_MAX_OUTPUT_TOKENS
      in case client_limit llm ''context_window_tokens'' of
           None \<Rightarrow> limit | Some w \<Rightarrow> min limit (w - tokens))"

definition summary_text :: "int option \<Rightarrow> int \<Rightarrow> message \<Rightarrow> string option" where
  "summary_text cap max_output response =
     (if cap \<noteq> None \<and> case_option 0 id (m_output_tokens response) \<ge> max_output then None
      else Some (case m_content response of Text t \<Rightarrow> py_strip t | _ \<Rightarrow> []))"

definition ask_summary ::
  "agent_definition \<Rightarrow> llm_client \<Rightarrow> message list \<Rightarrow> int option \<Rightarrow> int \<Rightarrow> (world, string option) act" where
  "ask_summary agent llm req cap max_output =
     try_else (llm_complete llm (ad_persona agent) req [] [] (Some max_output))
       (\<lambda>e. raise (ApplicationError (''the summary call failed: '' @ err_str e) None False))
       (\<lambda>response. ret (summary_text cap max_output response))"

definition summary_call ::
  "agent_definition \<Rightarrow> llm_client \<Rightarrow> message list \<Rightarrow> int \<Rightarrow> int option \<Rightarrow> (world, string option) act" where
  "summary_call agent llm req tokens cap =
     (let max_output = summary_cap llm tokens cap
      in case client_limit llm ''context_window_tokens'' of
           Some w \<Rightarrow>
             (if max_output < 1
              then raise (ApplicationError (''no room in the '' @ int_str w
                     @ ''-token window for a summary of '' @ int_str tokens @ '' tokens'') None True)
              else ask_summary agent llm req cap max_output)
         | None \<Rightarrow> ask_summary agent llm req cap max_output)"

text \<open>The end of the view the summary replaces: how many messages, and the last one's id. A Python list
  at index \<open>-1\<close> gives its last element.\<close>

definition summary_cut :: "compaction_trigger \<Rightarrow> model_view \<Rightarrow> py_error + nat \<times> string" where
  "summary_cut trigger view =
     try_bind
       (case ct_through trigger of
          Some through \<Rightarrow>
            (case index_of (Some through) (mv_ids view) of
               None \<Rightarrow> Inl (ApplicationError (''the summary'' @ [CHR 0x27] @ ''s boundary left the context'') None True)
             | Some i \<Rightarrow> Inr (Suc i))
        | None \<Rightarrow>
            (case ct_carried trigger of
               [] \<Rightarrow> Inr (length (mv_messages view))
             | c # _ \<Rightarrow>
                 (case index_of (Some c) (mv_ids view) of
                    None \<Rightarrow> Inl (ValueError (repr_str c @ '' is not in list''))
                  | Some i \<Rightarrow> Inr i)))
       (\<lambda>cut.
          if mv_ids view = [] then Inl IndexError
          else case mv_ids view ! (if cut = 0 then length (mv_ids view) - 1 else cut - 1) of
            None \<Rightarrow> Inl (ApplicationError ''nothing to summarize'' None True)
          | Some through \<Rightarrow> Inr (cut, through))"

definition summary_instructions :: "string \<Rightarrow> int option \<Rightarrow> string" where
  "summary_instructions instructions summary_tokens = (case summary_tokens of
      None \<Rightarrow> instructions
    | Some n \<Rightarrow>
        (let text = ''Fit the summary in about '' @ int_str (n div 2) @ '' words: lists over ''
               @ ''prose, every open item and key fact kept, nothing narrated.''
         in if instructions = [] then text else instructions @ [CHR 0x0A, CHR 0x0A] @ text))"

definition summary_request ::
  "activity_context \<Rightarrow> agent_definition \<Rightarrow> compact_context_input \<Rightarrow> message list \<Rightarrow> string
     \<Rightarrow> (world, message list) act" where
  "summary_request x agent p messages instructions =
     prepare_request x
       (compaction_request messages instructions (cc_prompt (ci_config p)) (cc_images (ci_config p)))
       (ci_agent_id p) (ci_thread_id p) (ci_run_id p) (ci_turn_id p) (dropping agent (Some (ci_config p)))"

text \<open>\<open>try: ... except ApplicationError\<close> around the first call: with a fast summarizer or a cap, a failure
  and a summary cut short are both \<open>None\<close>, and the call is made again on the agent's own model.\<close>

definition first_summary :: "bool \<Rightarrow> (world, string option) act \<Rightarrow> (world, string option) act" where
  "first_summary fast m = catch m (\<lambda>e. case e of
      ApplicationError _ _ _ \<Rightarrow> (if fast then ret None else raise e)
    | _ \<Rightarrow> raise e)"

text \<open>The first call, and the second when there was none or it was cut short.\<close>

definition summary_or_again ::
  "activity_context \<Rightarrow> agent_definition \<Rightarrow> compact_context_input \<Rightarrow> message list \<Rightarrow> message list \<Rightarrow> int
     \<Rightarrow> llm_client \<Rightarrow> (world, string option) act" where
  "summary_or_again x agent p messages req tokens llm =
     (let cap = cc_summary_tokens (ci_config p);
          fast = (llm_ref llm \<noteq> llm_ref (ad_llm agent) \<or> cap \<noteq> None)
      in bnd (first_summary fast (summary_call agent llm req tokens cap)) (\<lambda>first.
         case first of
           Some s \<Rightarrow> ret (Some s)
         | None \<Rightarrow>
             bnd (summary_request x agent p messages (x_compaction_instructions x)) (\<lambda>req.
             summary_call agent (ad_llm agent) req tokens None)))"

definition summarize_view ::
  "activity_context \<Rightarrow> agent_definition \<Rightarrow> compact_context_input \<Rightarrow> model_view \<Rightarrow> nat \<times> string
     \<Rightarrow> (world, context_summary) act" where
  "summarize_view x agent p view ct =
     (let config = ci_config p; messages = take (fst ct) (mv_messages view)
      in bnd (summary_request x agent p messages
                (summary_instructions (x_compaction_instructions x) (cc_summary_tokens config))) (\<lambda>req.
         let tokens = cm_tokens (measure_request (ad_persona agent) req (mv_usage_from view))
         in bnd (from_res (summarizer_for x agent config tokens (count_images req))) (\<lambda>llm.
            bnd (summary_or_again x agent p messages req tokens llm) (\<lambda>summary.
            case summary of
              Some (c # cs) \<Rightarrow> ret \<lparr>cs_summary = c # cs, cs_through = snd ct,
                cs_base = mv_compaction_id view, cs_trigger = ci_trigger p\<rparr>
            | _ \<Rightarrow> raise (ApplicationError ''the summary call returned no summary'' None True)))))"

definition summarize :: "activity_context \<Rightarrow> compact_context_input \<Rightarrow> (world, context_summary) act" where
  "summarize x p =
     bnd (context_agent x (ci_agent_id p) (ci_thread_id p)) (\<lambda>agent.
     bnd (list_for_model (ci_agent_id p) (ci_thread_id p)) (\<lambda>rows.
     bnd (from_res (build_view rows)) (\<lambda>view.
     bnd (from_res (summary_cut (ci_trigger p) view)) (\<lambda>ct.
     summarize_view x agent p view ct))))"

section \<open>Storing a summary\<close>

definition latest_base :: "message list \<Rightarrow> string option" where
  "latest_base rows = (case find (\<lambda>m. m_kind m = KCompaction) (rev rows) of
      None \<Rightarrow> None | Some m \<Rightarrow> m_id m)"

text \<open>The first positions of the distinct elements of a list, in order.\<close>

definition firsts :: "'a list \<Rightarrow> 'a list" where
  "firsts xs = rev (remdups (rev xs))"

definition chosen_ids :: "message list \<Rightarrow> message list \<Rightarrow> nat \<Rightarrow> string list \<Rightarrow> string option set" where
  "chosen_ids rows history before keep =
     Some ` set (kept_ids history before keep)
     \<union> (set (drop before (map m_id history)) \<inter> set (map m_id (filter (\<lambda>m. m_kind m = KMessage) rows)))"

text \<open>\<open>sorted(chosen, key=ids.index)\<close>: every chosen id is one of \<open>ids\<close>, so this is their order in \<open>ids\<close>.\<close>

definition kept_in_order :: "message list \<Rightarrow> string option set \<Rightarrow> string list" where
  "kept_in_order history chosen = List.map_filter id (filter (\<lambda>i. i \<in> chosen) (firsts (map m_id history)))"

definition summary_block :: "context_summary \<Rightarrow> string list \<Rightarrow> compaction_block" where
  "summary_block s kept = \<lparr>cb_summary = cs_summary s, cb_kept = kept, cb_reason = ct_reason (cs_trigger s),
     cb_tokens_before = ct_tokens (cs_trigger s), cb_tokens_after = 0,
     cb_images_before = ct_images (cs_trigger s), cb_images_after = 0\<rparr>"

definition write_summary ::
  "activity_context \<Rightarrow> string \<Rightarrow> string \<Rightarrow> string \<Rightarrow> compaction_block \<Rightarrow> message list \<Rightarrow> string option
     \<Rightarrow> int option \<Rightarrow> (world, compaction_outcome) act" where
  "write_summary x agent_id thread_id rid block0 kept_before turn_id turn_index =
     bnd (from_res (build_view (kept_before
            @ [(new_message ''user'' (Blocks [CompactionBlock block0]))\<lparr>m_kind := KCompaction\<rparr>]))) (\<lambda>fresh.
     bnd (prepare_request x (mv_messages fresh) agent_id thread_id rid
            (case turn_id of None \<Rightarrow> [] | Some t \<Rightarrow> t) None) (\<lambda>prepared.
     bnd (context_agent x agent_id thread_id) (\<lambda>agent.
     (let after = measure_request (ad_persona agent) (mv_messages fresh) (mv_usage_from fresh);
          block = block0\<lparr>cb_tokens_after := cm_tokens after, cb_images_after := count_images prepared\<rparr>
      in bnd (append_compaction agent_id thread_id block) (\<lambda>record.
         bnd (threads_get_or_create agent_id thread_id) (\<lambda>thread.
         thn (on_context_compacted x (new_events thread (Some rid) turn_id turn_index) (mr_id record) block)
           (ret \<lparr>co_message_id = mr_id record, co_tokens_after = cb_tokens_after block,
                 co_images_after = cb_images_after block\<rparr>)))))))"

definition store_summary_row ::
  "activity_context \<Rightarrow> string \<Rightarrow> string \<Rightarrow> string \<Rightarrow> context_summary \<Rightarrow> string list \<Rightarrow> string option
     \<Rightarrow> int option \<Rightarrow> (world, compaction_outcome option) act" where
  "store_summary_row x agent_id thread_id rid summary keep turn_id turn_index =
     bnd (list_for_model agent_id thread_id) (\<lambda>rows.
     if latest_base rows \<noteq> cs_base summary then ret None
     else bnd getS (\<lambda>w.
       (let history = list_for_thread agent_id thread_id w
        in case index_of (Some (cs_through summary)) (map m_id history) of
             None \<Rightarrow> raise (ValueError (repr_str (cs_through summary) @ '' is not in list''))
           | Some i \<Rightarrow>
               (let chosen = chosen_ids rows history (Suc i) keep
                in bnd (write_summary x agent_id thread_id rid
                          (summary_block summary (kept_in_order history chosen))
                          (filter (\<lambda>m. m_id m \<in> chosen) history) turn_id turn_index)
                     (\<lambda>outcome. ret (Some outcome))))))"

section \<open>The activities\<close>

definition compact_context ::
  "activity_context \<Rightarrow> compact_context_input \<Rightarrow> (world, compaction_outcome) act" where
  "compact_context x p =
     bnd (summarize x p) (\<lambda>summary.
     bnd (store_summary_row x (ci_agent_id p) (ci_thread_id p) (ci_run_id p) summary (cc_keep (ci_config p))
            (Some (ci_turn_id p)) (Some (ci_turn_index p))) (\<lambda>outcome.
     case outcome of
       None \<Rightarrow> raise (ApplicationError ''the context was compacted meanwhile'' None True)
     | Some ou \<Rightarrow> ret ou))"

definition summarize_context ::
  "activity_context \<Rightarrow> compact_context_input \<Rightarrow> (world, context_summary) act" where
  "summarize_context x p = summarize x p"

definition store_summary :: "activity_context \<Rightarrow> store_summary_input \<Rightarrow> (world, unit) act" where
  "store_summary x p =
     thn (store_summary_row x (ss_agent_id p) (ss_thread_id p) (ss_run_id p) (ss_summary p)
            (cc_keep (ss_config p)) None None) (ret ())"

section \<open>Steps\<close>

context event_contract begin

lemma prepare_request_kept:
  assumes "context_respects R x"
  shows "keeps R (prepare_request x ms a t rid turn n)"
  using assms unfolding prepare_request_def
  by (auto intro!: keeps_bnd prepare_kept keeps_ret simp: context_respects_def split: option.split)

lemma ask_summary_kept:
  assumes "\<And>p ms ts al mx. keeps R (llm_complete llm p ms ts al mx)"
  shows "keeps R (ask_summary ag llm req cap mx)"
  unfolding ask_summary_def by (intro keeps_try_else keeps_raise keeps_ret assms)

lemma summary_call_kept:
  assumes "\<And>p ms ts al mx. keeps R (llm_complete llm p ms ts al mx)"
  shows "keeps R (summary_call ag llm req tokens cap)"
  unfolding summary_call_def Let_def
  using ask_summary_kept [OF assms] by (auto intro!: keeps_raise split: option.split)

lemma summarizer_respects:
  assumes "context_respects R x" and "agent_respects R ag" and "summarizer_for x ag c n k = Inr llm"
  shows "keeps R (llm_complete llm p ms ts al mx)"
  using assms
  by (auto simp: summarizer_for_def context_respects_def agent_respects_def Let_def
      split: option.splits if_splits)

lemma first_summary_kept: "keeps R m \<Longrightarrow> keeps R (first_summary fast m)"
  unfolding first_summary_def by (auto intro!: keeps_catch keeps_raise keeps_ret split: py_error.split)

lemma summarize_kept:
  assumes x: "context_respects R x" and rd: "\<And>a t. keeps R (list_for_model a t)"
  shows "keeps R (summarize x p)"
  unfolding summarize_def
proof (rule bnd_result_kept [OF agent_kept [OF x]])
  fix w ag assume "fst (context_agent x (ci_agent_id p) (ci_thread_id p) w) = Inr ag"
  with agent_respectful [OF x] have ag: "agent_respects R ag" by blast
  then have own: "keeps R (llm_complete (ad_llm ag) q ms ts al mx)" for q ms ts al mx
    by (simp add: agent_respects_def)
  have req: "keeps R (summary_request x ag p ms i)" for ms i
    unfolding summary_request_def by (rule prepare_request_kept [OF x])
  have again: "keeps R (summary_or_again x ag p ms r n llm)"
    if "\<And>q ms ts al mx. keeps R (llm_complete llm q ms ts al mx)" for ms r n llm
    unfolding summary_or_again_def Let_def
    by (intro keeps_bnd first_summary_kept summary_call_kept that keeps_option keeps_ret req own)
  have "keeps R (summarize_view x ag p v ct)" for v ct
    unfolding summarize_view_def Let_def
  proof (rule keeps_bnd [OF req], rule bnd_result_kept)
    show "keeps R (from_res r)" for r :: "py_error + llm_client" by (rule keeps_from_res)
  next
    fix r u llm
    assume "fst (from_res (summarizer_for x ag (ci_config p)
      (cm_tokens (measure_request (ad_persona ag) r (mv_usage_from v))) (count_images r)) u) = Inr llm"
    then have "summarizer_for x ag (ci_config p)
      (cm_tokens (measure_request (ad_persona ag) r (mv_usage_from v))) (count_images r) = Inr llm"
      by (simp add: from_res_def readS_def)
    from summarizer_respects [OF x ag this]
    show "keeps R (bnd (summary_or_again x ag p (take (fst ct) (mv_messages v)) r
        (cm_tokens (measure_request (ad_persona ag) r (mv_usage_from v))) llm)
        (\<lambda>summary. case summary of
           Some (c # cs) \<Rightarrow> ret \<lparr>cs_summary = c # cs, cs_through = snd ct,
             cs_base = mv_compaction_id v, cs_trigger = ci_trigger p\<rparr>
         | _ \<Rightarrow> raise (ApplicationError ''the summary call returned no summary'' None True)))"
      by (intro keeps_bnd again) (auto intro!: keeps_ret keeps_raise split: option.split list.split)
  qed
  then show "keeps R (bnd (list_for_model (ci_agent_id p) (ci_thread_id p)) (\<lambda>rows.
      bnd (from_res (build_view rows)) (\<lambda>view.
      bnd (from_res (summary_cut (ci_trigger p) view)) (\<lambda>ct. summarize_view x ag p view ct))))"
    by (intro keeps_bnd keeps_from_res rd)
qed

end

lemma keeps_prepare_request [keeps_rules]:
  "context_ok_step x \<Longrightarrow> keeps store_step (prepare_request x ms a t rid turn n)"
  by (rule se.prepare_request_kept)

lemma keeps_summarize [keeps_rules]: "context_ok_step x \<Longrightarrow> keeps store_step (summarize x p)"
  using se.summarize_kept keeps_list_for_model by blast

lemma keeps_write_summary:
  assumes "context_ok_step x"
  shows "keeps store_step (write_summary x a t rid b rows turn ti)"
  unfolding write_summary_def Let_def
  by (intro st.keeps_bnd st.keeps_thn st.keeps_from_res st.keeps_ret keeps_rules assms)

lemma keeps_store_summary_row [keeps_rules]:
  assumes "context_ok_step x"
  shows "keeps store_step (store_summary_row x a t rid s keep turn ti)"
  unfolding store_summary_row_def Let_def
  by (auto intro!: st.keeps_bnd st.keeps_if st.keeps_ret st.keeps_getS st.keeps_raise keeps_rules
      keeps_write_summary assms split: option.split)

lemma keeps_compact_context [keeps_rules]: "context_ok_step x \<Longrightarrow> keeps store_step (compact_context x p)"
  unfolding compact_context_def
  by (auto intro!: st.keeps_bnd st.keeps_ret st.keeps_raise keeps_rules split: option.split)

section \<open>Facts\<close>

lemma client_limit_same [simp]: "client_limit (llm\<lparr>llm_complete := f\<rparr>) n = client_limit llm n"
  by (simp add: client_limit_def)

text \<open>The outputs a summary call may ask a client for.\<close>

definition summary_bound :: "llm_client \<Rightarrow> int \<Rightarrow> int option \<Rightarrow> int \<Rightarrow> bool" where
  "summary_bound llm tokens cap mx \<longleftrightarrow> 1 \<le> mx \<and> mx \<le> SUMMARY_MAX_OUTPUT_TOKENS
     \<and> (\<forall>n. cap = Some n \<and> 0 < n \<longrightarrow> mx \<le> n)
     \<and> (\<forall>w. client_limit llm ''context_window_tokens'' = Some w \<longrightarrow> tokens + mx \<le> w)"

lemma summary_cap_bound:
  assumes "case cap of None \<Rightarrow> True | Some n \<Rightarrow> 0 \<le> n"
    and "client_limit llm ''context_window_tokens'' = None \<or> 1 \<le> summary_cap llm tokens cap"
  shows "summary_bound llm tokens cap (summary_cap llm tokens cap)"
  using assms
  by (auto simp: summary_bound_def summary_cap_def SUMMARY_MAX_OUTPUT_TOKENS_def Let_def
      split: option.splits if_splits)

lemma index_of_distinct: "distinct xs \<Longrightarrow> i < length xs \<Longrightarrow> index_of (xs ! i) xs = Some i"
proof (induction xs arbitrary: i)
  case (Cons x xs)
  then show ?case by (cases i) (auto simp: nth_eq_iff_index_eq)
qed simp

text \<open>A view whose stored messages have distinct ids: only the summary, first, has none.\<close>

definition view_ids_ok :: "model_view \<Rightarrow> bool" where
  "view_ids_ok v \<longleftrightarrow> distinct (mv_ids v) \<and> length (mv_ids v) = length (mv_messages v)
     \<and> (\<forall>i. (if mv_compaction v = None then 0 else 1) \<le> i \<longrightarrow> i < length (mv_ids v) \<longrightarrow> mv_ids v ! i \<noteq> None)"

lemma view_ids_okI:
  assumes "build_view rows = Inr v" and "distinct (map m_id rows)" and "None \<notin> set (map m_id rows)"
  shows "view_ids_ok v"
  using assms(1)
proof (cases rule: build_view_cases)
  case plain
  have "m_id (rows ! i) \<noteq> None" if "i < length rows" for i
    using assms(3) nth_mem [OF that] by force
  with plain assms(2) show ?thesis by (simp add: view_ids_ok_def)
next
  case (compacted pos block)
  let ?f = "filter (\<lambda>m. m_kind m = KMessage) rows"
  have ids: "mv_ids v = None # map m_id ?f" using compacted(4) by (simp add: view_rows_ids)
  have "distinct (map m_id ?f)" using assms(2) by (induction rows) auto
  moreover have none: "None \<notin> set (map m_id ?f)" using assms(3) by auto
  moreover have "mv_ids v ! i \<noteq> None" if "1 \<le> i" "i < length (mv_ids v)" for i
  proof -
    from that(1) obtain n where n: "i = Suc n" by (cases i) auto
    with that(2) ids have "n < length (map m_id ?f)" by simp
    from nth_mem [OF this] none have "map m_id ?f ! n \<noteq> None" by metis
    with ids n show ?thesis by simp
  qed
  ultimately show ?thesis
    using compacted(3,6) ids by (auto simp: view_ids_ok_def length_view_rows)
qed

lemma pending_start_bounds: "low \<le> length view \<Longrightarrow> low \<le> pending_start view low \<and> pending_start view low \<le> length view"
  using pending_from_bounds [of low "length view" view] by (simp add: pending_start_def)

lemma carried_hd:
  assumes "start < length ids" and "ids ! start = Some c"
  shows "\<exists>cs. List.map_filter id (drop start ids) = c # cs"
  using assms by (simp add: Cons_nth_drop_Suc [symmetric] map_filter_simps)

lemma trigger_cut_spec:
  assumes v: "view_ids_ok v" and t: "compaction_trigger_for ag f v req prep ahead drops = Some t"
  shows "\<exists>low start through. low = (if mv_compaction v = None then 0 else 1)
     \<and> start = pending_start (mv_messages v) low \<and> low < start \<and> start \<le> length (mv_messages v)
     \<and> mv_ids v ! (start - 1) = Some through \<and> summary_cut t v = Inr (start, through)
     \<and> (ahead \<longrightarrow> ct_through t = Some through)
     \<and> (\<not> ahead \<longrightarrow> ct_through t = None \<and> ct_carried t = List.map_filter id (drop start (mv_ids v)))"
proof -
  define low where "low = (if mv_compaction v = None then 0 else 1::nat)"
  define start where "start = pending_start (mv_messages v) low"
  have len: "length (mv_ids v) = length (mv_messages v)" and dist: "distinct (mv_ids v)"
    using v by (simp_all add: view_ids_ok_def)
  have some: "mv_ids v ! i \<noteq> None" if "low \<le> i" "i < length (mv_ids v)" for i
    using v that unfolding view_ids_ok_def low_def by blast
  have gt: "low < start"
    using t unfolding compaction_trigger_for_def Let_def low_def [symmetric] start_def [symmetric]
    by (auto split: if_splits option.splits)
  have le: "start \<le> length (mv_messages v)"
  proof (cases "low \<le> length (mv_messages v)")
    case True
    then show ?thesis using pending_start_bounds by (simp add: start_def)
  next
    case False
    with pending_from_bounds [of low "length (mv_messages v)" "mv_messages v"] gt
    show ?thesis by (simp add: start_def pending_start_def)
  qed
  from gt le len have pos: "start - 1 < length (mv_ids v)" "low \<le> start - 1" by simp_all
  with some obtain through where th: "mv_ids v ! (start - 1) = Some through" by blast
  have ne: "mv_ids v \<noteq> []" using pos by auto
  show ?thesis
  proof (cases ahead)
    case True
    with t th have ct: "ct_through t = Some through"
      unfolding compaction_trigger_for_def Let_def low_def [symmetric] start_def [symmetric]
      by (auto split: if_splits option.splits)
    have "index_of (Some through) (mv_ids v) = Some (start - 1)"
      using index_of_distinct [OF dist pos(1)] th by simp
    with ct th gt ne have "summary_cut t v = Inr (start, through)" by (simp add: summary_cut_def)
    with True ct th gt le show ?thesis unfolding low_def start_def by auto
  next
    case False
    with t have ct: "ct_through t = None" "ct_carried t = List.map_filter id (drop start (mv_ids v))"
      unfolding compaction_trigger_for_def Let_def low_def [symmetric] start_def [symmetric]
      by (auto split: if_splits option.splits)
    have "summary_cut t v = Inr (start, through)"
    proof (cases "start < length (mv_ids v)")
      case True
      with some [of start] gt obtain c where c: "mv_ids v ! start = Some c" by auto
      from carried_hd [OF True this] obtain cs where "ct_carried t = c # cs" unfolding ct(2) by blast
      moreover have "index_of (Some c) (mv_ids v) = Some start"
        using index_of_distinct [OF dist True] c by simp
      ultimately show ?thesis using ct(1) th gt ne by (simp add: summary_cut_def)
    next
      case False
      with le len have "start = length (mv_messages v)" "ct_carried t = []"
        unfolding ct(2) by (simp_all add: map_filter_simps)
      moreover have "mv_messages v \<noteq> []" using ne len by auto
      ultimately show ?thesis using ct(1) th gt ne by (simp add: summary_cut_def)
    qed
    with False ct th gt le show ?thesis unfolding low_def start_def by auto
  qed
qed

section \<open>Storing: the transcript and the view after it\<close>

definition rows_kept :: "string \<Rightarrow> string \<Rightarrow> world \<Rightarrow> world \<Rightarrow> bool" where
  "rows_kept a t w w' \<longleftrightarrow> rows_of a t w' = rows_of a t w"

interpretation rk: event_contract "rows_kept a t" for a t
  by unfold_locales (simp_all add: rows_kept_def rows_of_def)

lemma rows_kept_ops:
  "keeps (rows_kept a t) (list_for_model b s)"
  "keeps (rows_kept a t) (threads_get_or_create b s)"
  by (auto simp: keeps_def rows_kept_def rows_of_def list_for_model_def readS_def
      threads_get_or_create_def Let_def split: option.split)

definition summary_row :: "compaction_block \<Rightarrow> string \<Rightarrow> message" where
  "summary_row b i = (new_message ''user'' (Blocks [CompactionBlock b]))
     \<lparr>m_kind := KCompaction, m_id := Some i\<rparr>"

lemma append_compaction_eq:
  "\<exists>i v rec. append_compaction a t b w = (Inr rec, v) \<and> mr_id rec = i
     \<and> rows_of a t v = rows_of a t w @ [summary_row b i]"
  by (simp add: append_compaction_def append_row_def Let_def rows_of_def summary_row_def)

lemma ensures_append_compaction:
  "(\<And>rec v. rows_of a t v = rows_of a t w @ [summary_row b (mr_id rec)] \<Longrightarrow> Q (Inr rec) v) \<Longrightarrow>
   ensures (append_compaction a t b) w Q"
  using append_compaction_eq [of a t b w] by (auto simp: ensures_def)

definition appended_summary ::
  "string \<Rightarrow> string \<Rightarrow> compaction_block \<Rightarrow> message list \<Rightarrow> py_error + compaction_outcome \<Rightarrow> world \<Rightarrow> bool" where
  "appended_summary a t b0 rows r w' \<longleftrightarrow> (\<forall>ou. r = Inr ou \<longrightarrow>
     (\<exists>b. cb_summary b = cb_summary b0 \<and> cb_kept b = cb_kept b0
        \<and> rows_of a t w' = rows @ [summary_row b (co_message_id ou)]))"

lemma appended_summary_raise: "appended_summary a t b0 rows (Inl e) u"
  by (simp add: appended_summary_def)

lemma appended_summaryI:
  "rows_of a t w' = rows @ [summary_row b (co_message_id ou)] \<Longrightarrow> cb_summary b = cb_summary b0 \<Longrightarrow>
   cb_kept b = cb_kept b0 \<Longrightarrow> appended_summary a t b0 rows (Inr ou) w'"
  by (auto simp: appended_summary_def)

lemma ensures_write_summary:
  assumes x: "context_respects (rows_kept a t) x" and w: "rows_kept a t w v"
  shows "ensures (write_summary x a t rid b0 ms turn ti) v (appended_summary a t b0 (rows_of a t w))"
  unfolding write_summary_def Let_def
  apply (rule rk.bnd_after [OF rk.keeps_from_res w], rule appended_summary_raise)
  apply (erule rk.bnd_after [OF rk.prepare_request_kept [OF x]], rule appended_summary_raise)
  apply (erule rk.bnd_after [OF rk.agent_kept [OF x]], rule appended_summary_raise)
  apply (subst ensures_bnd, rule ensures_append_compaction, simp)
  apply (rule rk.bnd_after [OF rows_kept_ops(2) rk.step_refl], rule appended_summary_raise)
  apply (erule rk.thn_after [OF rk.events_kept(9) [OF x]], rule appended_summary_raise)
  apply (simp only: ensures_ret)
  apply (rule appended_summaryI)
    apply (simp add: rows_kept_def)
   apply simp_all
  done

lemma store_summary_appends:
  assumes x: "context_respects (rows_kept a t) x" and rows: "rows_for_model (rows_of a t w) = Inr rows"
    and base: "latest_base rows = cs_base s"
    and i: "index_of (Some (cs_through s)) (map m_id (rows_of a t w)) = Some i"
    and run: "store_summary_row x a t rid s keep turn ti w = (Inr (Some ou), w')"
  shows "\<exists>b. cb_summary b = cs_summary s
     \<and> cb_kept b = kept_in_order (rows_of a t w) (chosen_ids rows (rows_of a t w) (Suc i) keep)
     \<and> rows_of a t w' = rows_of a t w @ [summary_row b (co_message_id ou)]"
proof -
  let ?h = "rows_of a t w" and ?c = "chosen_ids rows (rows_of a t w) (Suc i) keep"
  let ?wr = "write_summary x a t rid (summary_block s (kept_in_order ?h ?c)) (filter (\<lambda>m. m_id m \<in> ?c) ?h) turn ti"
  from run rows base i have wr: "?wr w = (Inr ou, w')"
    by (auto simp: store_summary_row_def list_for_model_def list_for_thread_def act_defs Let_def
        split: prod.splits sum.splits)
  from ensuresD [OF ensures_write_summary [OF x rk.step_refl] wr]
  show ?thesis by (auto simp: appended_summary_def summary_block_def)
qed

text \<open>What the model is shown of a transcript that ends with a compaction row.\<close>

lemma filter_enumerate_before:
  "k + length xs \<le> n \<Longrightarrow>
   map snd (filter (\<lambda>(i, m). n \<le> i \<or> P m) (enumerate k xs)) = filter P xs"
  by (induction xs arbitrary: k) auto

lemma compaction_of_summary_row [simp]: "compaction_of (summary_row b i) = Inr (Some b)"
  by (simp add: compaction_of_def summary_row_def new_message_def)

lemma summary_row_simps [simp]:
  "m_kind (summary_row b i) = KCompaction" "m_id (summary_row b i) = Some i"
  "m_content (summary_row b i) = Blocks [CompactionBlock b]"
  by (simp_all add: summary_row_def new_message_def)

lemma rows_for_model_last:
  "rows_for_model (h @ [summary_row b i]) =
     Inr (filter (\<lambda>m. case m_id m of None \<Rightarrow> False | Some j \<Rightarrow> j \<in> set (cb_kept b)) h @ [summary_row b i])"
proof -
  let ?P = "\<lambda>m. case m_id m of None \<Rightarrow> False | Some j \<Rightarrow> j \<in> set (cb_kept b)"
  have "last_compaction (h @ [summary_row b i]) = Some (length h)"
    by (rule last_compaction_row) simp
  moreover have "map snd (filter (\<lambda>(j, m). length h \<le> j \<or> ?P m) (enumerate 0 (h @ [summary_row b i])))
      = filter ?P h @ [summary_row b i]"
    using filter_enumerate_before [of 0 h "length h" ?P] by (simp add: enumerate_append_eq)
  ultimately show ?thesis by (simp add: rows_for_model_def cong: option.case_cong)
qed

lemma set_kept_in_order:
  "i \<in> set (kept_in_order h c) \<longleftrightarrow> Some i \<in> c \<and> Some i \<in> set (map m_id h)"
proof -
  have "i \<in> set (List.map_filter id xs) \<longleftrightarrow> Some i \<in> set xs" for xs :: "string option list" and i
    by (force simp: List.map_filter_def)
  then show ?thesis by (auto simp: kept_in_order_def firsts_def)
qed

lemma kept_filter:
  assumes "None \<notin> set (map m_id h)"
  shows "filter (\<lambda>m. case m_id m of None \<Rightarrow> False | Some j \<Rightarrow> j \<in> set (kept_in_order h c)) h
    = filter (\<lambda>m. m_id m \<in> c) h"
proof (rule filter_cong [OF refl])
  fix m assume m: "m \<in> set h"
  then have "m_id m \<in> set (map m_id h)" by simp
  with assms obtain j where "m_id m = Some j" by (cases "m_id m") auto
  with m show "(case m_id m of None \<Rightarrow> False | Some j \<Rightarrow> j \<in> set (kept_in_order h c)) = (m_id m \<in> c)"
    by (force simp: set_kept_in_order)
qed

lemma rows_for_model_subset:
  assumes "rows_for_model h = Inr rows"
  shows "set rows \<subseteq> set h"
proof (cases "last_compaction h")
  case None
  with assms show ?thesis by (simp add: rows_for_model_def)
next
  case (Some start)
  with assms obtain P where "rows = map snd (filter P (enumerate 0 h))"
    by (auto simp: rows_for_model_def try_bind_def split: sum.splits)
  moreover have "set (map snd (filter P (enumerate 0 h))) \<subseteq> set (map snd (enumerate 0 h))"
    by (metis filter_is_subset image_mono list.set_map)
  ultimately show ?thesis by (simp only: map_snd_enumerate)
qed

lemma chosen_ids_iff:
  assumes "distinct (map m_id h)" and "rows_for_model h = Inr rows" and "m \<in> set h"
  shows "m_id m \<in> chosen_ids rows h n keep \<longleftrightarrow> m_id m \<in> Some ` set (kept_ids h n keep)
     \<or> (m_kind m = KMessage \<and> m \<in> set (drop n h) \<and> m \<in> set rows)"
proof -
  have inj: "m' = m" if "m' \<in> set h" "m_id m' = m_id m" for m'
    using assms(1,3) that by (simp add: distinct_map inj_on_def)
  have "m_id m \<in> set (drop n (map m_id h)) \<longleftrightarrow> m \<in> set (drop n h)"
    using inj in_set_dropD [of _ n h] by (force simp: drop_map)
  moreover have "m_id m \<in> set (map m_id (filter (\<lambda>m. m_kind m = KMessage) rows))
      \<longleftrightarrow> m_kind m = KMessage \<and> m \<in> set rows"
    using inj rows_for_model_subset [OF assms(2)] by force
  ultimately show ?thesis by (simp only: chosen_ids_def Un_iff Int_iff) blast
qed

section \<open>Properties\<close>

text \<open>A summary call never asks a model for more output than it may: the client is only ever called
  with an output limit of at least 1, at most 16,000 and at most the configured cap, that fits beside the
  request in the window the client declares. Stated as: two clients that differ only in how they answer
  calls outside these limits give the same summary call.\<close>

theorem summary_call_capped:
  assumes "\<And>p ms ts al mx. summary_bound llm tokens cap mx \<Longrightarrow> f p ms ts al (Some mx) = g p ms ts al (Some mx)"
    and "case cap of None \<Rightarrow> True | Some n \<Rightarrow> 0 \<le> n"
  shows "summary_call ag (llm\<lparr>llm_complete := f\<rparr>) req tokens cap
       = summary_call ag (llm\<lparr>llm_complete := g\<rparr>) req tokens cap"
proof -
  have cap: "summary_cap (llm\<lparr>llm_complete := h\<rparr>) tokens cap = summary_cap llm tokens cap" for h
    by (simp add: summary_cap_def)
  have "f p ms ts al (Some (summary_cap llm tokens cap)) = g p ms ts al (Some (summary_cap llm tokens cap))"
    if "client_limit llm ''context_window_tokens'' = None \<or> 1 \<le> summary_cap llm tokens cap" for p ms ts al
    by (rule assms(1) [OF summary_cap_bound [OF assms(2) that]])
  then show ?thesis
    by (auto simp: summary_call_def ask_summary_def cap Let_def split: option.split)
qed

theorem summary_call_capped_witness:
  "summary_call sample_agent (sample_llm\<lparr>llm_complete := \<lambda>p ms ts al mx. raise IndexError\<rparr>) [] 5 (Some 300)
   = summary_call sample_agent (sample_llm\<lparr>llm_complete :=
       \<lambda>p ms ts al mx. if mx = Some 0 then ret (new_message ''assistant'' NoContent) else raise IndexError\<rparr>)
       [] 5 (Some 300)"
  by (rule summary_call_capped) (auto simp: summary_bound_def)

text \<open>A compaction replaces exactly what precedes the open turn: the trigger a turn measures, applied
  to the view it was measured on, cuts the view at the start of its pending part, after at least one stored
  message, and names that message's id; what it carries are the ids of the pending part, in order.\<close>

theorem trigger_cuts_before_pending:
  assumes "build_view rows = Inr v" and "distinct (map m_id rows)" and "None \<notin> set (map m_id rows)"
    and "compaction_trigger_for ag f v req prepared ahead drops = Some t"
  shows "\<exists>low start through. low = (if mv_compaction v = None then 0 else 1)
     \<and> start = pending_start (mv_messages v) low \<and> low < start \<and> start \<le> length (mv_messages v)
     \<and> mv_ids v ! (start - 1) = Some through \<and> summary_cut t v = Inr (start, through)
     \<and> (if ahead then ct_through t = Some through
        else ct_through t = None \<and> ct_carried t = List.map_filter id (drop start (mv_ids v)))"
  using trigger_cut_spec [OF view_ids_okI [OF assms(1-3)] assms(4)] by auto

definition small_agent :: agent_definition where
  "small_agent = sample_agent\<lparr>ad_llm := sample_llm\<lparr>llm_attrs := [(''context_window_tokens'', JInt 10)]\<rparr>\<rparr>"

definition answer_row :: message where
  "answer_row = (new_message ''assistant'' (Text ''an answer of the model, long enough''))\<lparr>m_id := Some ''m2''\<rparr>"

definition stored_rows :: "message list" where
  "stored_rows = [(new_message ''user'' (Text ''a long message of the user, long enough''))\<lparr>m_id := Some ''m1''\<rparr>,
     answer_row]"

definition stored_view :: model_view where
  "stored_view = \<lparr>mv_messages = stored_rows, mv_ids = [Some ''m1'', Some ''m2''], mv_usage_from = 0,
     mv_compaction = None, mv_compaction_id = None\<rparr>"

lemma stored_view_eq: "build_view stored_rows = Inr stored_view"
  by (simp add: build_view_def stored_rows_def answer_row_def stored_view_def new_message_def)

lemma stored_trigger: "compaction_trigger_for small_agent (9 / 10) stored_view stored_rows stored_rows False False
   = Some \<lparr>ct_reason = ''tokens'', ct_tokens = 19, ct_images = 0, ct_carried = [], ct_through = None\<rparr>"
  by (simp add: compaction_trigger_for_def small_agent_def sample_agent_def sample_llm_def client_limit_def
      measure_request_def stored_view_def stored_rows_def answer_row_def new_message_def estimate_tokens_def message_chars_def
      ceil_div_def CHARS_PER_TOKEN_def count_images_def content_blocks_def crossed_limits_def
      pending_start_def has_tool_calls_def map_filter_simps Let_def numeral_eq_Suc)

theorem trigger_cuts_before_pending_witness:
  "\<exists>through. summary_cut \<lparr>ct_reason = ''tokens'', ct_tokens = 19, ct_images = 0, ct_carried = [],
      ct_through = None\<rparr> stored_view = Inr (2, through)"
proof -
  have "distinct (map m_id stored_rows)" "None \<notin> set (map m_id stored_rows)"
    by (simp_all add: stored_rows_def answer_row_def new_message_def)
  from trigger_cuts_before_pending [OF stored_view_eq this stored_trigger]
  show ?thesis
    by (auto simp: stored_view_def stored_rows_def answer_row_def pending_start_def has_tool_calls_def new_message_def numeral_eq_Suc)
qed

text \<open>What storing a summary does to the thread. A summary whose base is no longer the latest compaction
  is dropped and nothing changes. Otherwise, as long as nothing else writes to this transcript meanwhile,
  the transcript is extended by one compaction row with the summary, every earlier row staying as it is,
  and from then on the model is shown exactly: the latest message of each kept tag up to the summary's
  boundary, every message after the boundary that it saw before, in their order, and that row.\<close>

theorem stored_summary_view:
  assumes "context_respects (rows_kept a t) x" and "rows_for_model (rows_of a t w) = Inr rows"
    and "distinct (map m_id (rows_of a t w))" and "None \<notin> set (map m_id (rows_of a t w))"
    and "index_of (Some (cs_through s)) (map m_id (rows_of a t w)) = Some i"
  shows "(latest_base rows \<noteq> cs_base s \<longrightarrow> store_summary_row x a t rid s keep turn ti w = (Inr None, w))
     \<and> (\<forall>ou w'. latest_base rows = cs_base s \<longrightarrow> store_summary_row x a t rid s keep turn ti w = (Inr (Some ou), w') \<longrightarrow>
          (\<exists>b. cb_summary b = cs_summary s
             \<and> rows_of a t w' = rows_of a t w @ [summary_row b (co_message_id ou)]
             \<and> rows_for_model (rows_of a t w') = Inr
                 (filter (\<lambda>m. m_id m \<in> Some ` set (kept_ids (rows_of a t w) (Suc i) keep)
                      \<or> (m_kind m = KMessage \<and> m \<in> set (drop (Suc i) (rows_of a t w)) \<and> m \<in> set rows))
                    (rows_of a t w) @ [summary_row b (co_message_id ou)])))"
proof (intro conjI allI impI)
  assume "latest_base rows \<noteq> cs_base s"
  with assms(2) show "store_summary_row x a t rid s keep turn ti w = (Inr None, w)"
    by (simp add: store_summary_row_def list_for_model_def act_defs)
next
  fix ou w'
  let ?h = "rows_of a t w"
  assume base: "latest_base rows = cs_base s"
    and run: "store_summary_row x a t rid s keep turn ti w = (Inr (Some ou), w')"
  from store_summary_appends [OF assms(1,2) base assms(5) run] obtain b where
    b: "cb_summary b = cs_summary s" "cb_kept b = kept_in_order ?h (chosen_ids rows ?h (Suc i) keep)"
      "rows_of a t w' = ?h @ [summary_row b (co_message_id ou)]" by blast
  have "filter (\<lambda>m. m_id m \<in> chosen_ids rows ?h (Suc i) keep) ?h
      = filter (\<lambda>m. m_id m \<in> Some ` set (kept_ids ?h (Suc i) keep)
          \<or> (m_kind m = KMessage \<and> m \<in> set (drop (Suc i) ?h) \<and> m \<in> set rows)) ?h"
    by (rule filter_cong [OF refl]) (rule chosen_ids_iff [OF assms(3,2)])
  then have "rows_for_model (?h @ [summary_row b (co_message_id ou)]) = Inr
      (filter (\<lambda>m. m_id m \<in> Some ` set (kept_ids ?h (Suc i) keep)
          \<or> (m_kind m = KMessage \<and> m \<in> set (drop (Suc i) ?h) \<and> m \<in> set rows)) ?h
       @ [summary_row b (co_message_id ou)])"
    unfolding rows_for_model_last b(2) kept_filter [OF assms(4)] by simp
  with b(1,3) show "\<exists>b. cb_summary b = cs_summary s
      \<and> rows_of a t w' = ?h @ [summary_row b (co_message_id ou)]
      \<and> rows_for_model (rows_of a t w') = Inr
          (filter (\<lambda>m. m_id m \<in> Some ` set (kept_ids ?h (Suc i) keep)
               \<or> (m_kind m = KMessage \<and> m \<in> set (drop (Suc i) ?h) \<and> m \<in> set rows)) ?h
           @ [summary_row b (co_message_id ou)])"
    by (intro exI [of _ b]) simp
qed

definition summarized_world :: world where
  "summarized_world = new_world\<lparr>w_messages := [((''a'', ''t''), stored_rows)]\<rparr>"

definition stored_summary :: context_summary where
  "stored_summary = \<lparr>cs_summary = ''s'', cs_through = ''m1'', cs_base = None,
     cs_trigger = \<lparr>ct_reason = ''tokens'', ct_tokens = 19, ct_images = 0, ct_carried = [], ct_through = Some ''m1''\<rparr>\<rparr>"

lemma sample_rows_kept: "context_respects (rows_kept a t) sample_context"
  by (auto simp: context_respects_def sample_context_def agent_respects_def sample_agent_def sample_llm_def
      rk.keeps_ret rk.keeps_raise ret_def registry_get_def tool_respects_def plain_tool_def
      split: if_splits)

lemma summarized_rows: "rows_of ''a'' ''t'' summarized_world = stored_rows"
  by (simp add: rows_of_def summarized_world_def)

lemma stored_rows_model: "rows_for_model stored_rows = Inr stored_rows"
  by (simp add: rows_for_model_def stored_rows_def answer_row_def new_message_def)

lemma stored_chosen: "chosen_ids stored_rows stored_rows 1 [] = {Some ''m2''}"
  by (auto simp: chosen_ids_def kept_ids_def stored_rows_def answer_row_def new_message_def)

lemma stored_kept: "filter (\<lambda>m. m_id m = Some ''m2'') stored_rows = [answer_row]"
  by (simp add: stored_rows_def answer_row_def)

lemma stored_fresh: "\<exists>v. build_view [answer_row,
    (new_message ''user'' (Blocks [CompactionBlock b]))\<lparr>m_kind := KCompaction\<rparr>] = Inr v
    \<and> mv_messages v = [summary_message (cb_summary b), answer_row]"
  by (simp add: build_view_def stored_rows_def answer_row_def new_message_def compaction_of_def Let_def)

lemma stored_prepare: "prepare_request sample_context [summary_message s, answer_row] ''a'' ''t'' r u None w
   = (Inr [summary_message s, answer_row], w)"
  by (simp add: prepare_request_def sample_context_simps prepare_messages_def image_assets_def content_blocks_def
      summary_message_def stored_rows_def answer_row_def new_message_def act_defs)

lemma stored_write:
  "\<exists>ou w'. write_summary sample_context ''a'' ''t'' ''r'' b [answer_row] None None w = (Inr ou, w')"
proof -
  from stored_fresh [of b] obtain v where v: "build_view [answer_row,
      (new_message ''user'' (Blocks [CompactionBlock b]))\<lparr>m_kind := KCompaction\<rparr>] = Inr v"
    "mv_messages v = [summary_message (cb_summary b), answer_row]" by blast
  show ?thesis
    by (simp add: write_summary_def v stored_prepare from_res_def readS_def bnd_def sample_agent_resolved
        append_compaction_def append_row_def Let_def threads_get_or_create_def thn_def
        on_context_compacted_def sample_silent ret_def split: option.split)
qed

theorem stored_summary_view_witness:
  "\<exists>ou b w'. store_summary_row sample_context ''a'' ''t'' ''r'' stored_summary [] None None summarized_world
       = (Inr (Some ou), w')
     \<and> rows_of ''a'' ''t'' w' = stored_rows @ [summary_row b (co_message_id ou)]
     \<and> cb_summary b = ''s''"
proof -
  have idx: "index_of (Some (cs_through stored_summary)) (map m_id stored_rows) = Some 0"
    by (simp add: stored_summary_def stored_rows_def answer_row_def)
  have base: "latest_base stored_rows = cs_base stored_summary"
    by (simp add: stored_summary_def stored_rows_def answer_row_def latest_base_def new_message_def)
  obtain ou w' where "write_summary sample_context ''a'' ''t'' ''r''
      (summary_block stored_summary (kept_in_order stored_rows {Some ''m2''})) [answer_row] None None
      summarized_world = (Inr ou, w')" using stored_write by blast
  with idx base have run: "store_summary_row sample_context ''a'' ''t'' ''r'' stored_summary [] None None
      summarized_world = (Inr (Some ou), w')"
    using stored_chosen stored_kept
    by (simp add: store_summary_row_def list_for_model_def list_for_thread_def summarized_rows
        stored_rows_model act_defs)
  have ids: "distinct (map m_id stored_rows)" "None \<notin> set (map m_id stored_rows)"
    by (simp_all add: stored_rows_def answer_row_def new_message_def)
  from stored_summary_view [of "''a''" "''t''" sample_context summarized_world stored_rows stored_summary 0]
    idx ids stored_rows_model base run sample_rows_kept
  show ?thesis unfolding summarized_rows by (fastforce simp: stored_summary_def)
qed

end
