(* ===== verification/Run_Activities.thy ===== *)
theory Run_Activities
  imports Summaries
begin

text \<open>
  \<open>actant/runtime/temporal/activities/runs.py\<close>: the activities that open a run, make its model turns and
  finalize it. \<open>attempt\<close> is Temporal's attempt count. A run row is read and written back by value, as
  with the SQL stores; the phases' timings and logging are left out.
\<close>

section \<open>Payloads\<close>

datatype inbound_content = InText string | InBlocks "json list"

record inbound_message =
  in_content :: inbound_content
  in_source :: string
  in_correlation_id :: "string option"
  in_tag :: "string option"

record start_run_input =
  si_agent_id :: string
  si_thread_id :: string
  si_run_id :: string
  si_max_turns :: "int option"
  si_parent_thread_id :: "string option"
  si_sandbox_id :: "string option"
  si_sandbox_access :: "sandbox_access option"
  si_summarizer :: "string option"

record started_run =
  st_turn_count :: int
  st_max_turns :: int
  st_error :: "string option"

record finalize_run_input =
  fi_agent_id :: string
  fi_thread_id :: string
  fi_run_id :: string
  fi_outcome :: string
  fi_turn_count :: int
  fi_stop_reason :: "string option"

record run_turn_input =
  ti_agent_id :: string
  ti_thread_id :: string
  ti_run_id :: string
  ti_turn_id :: string
  ti_turn_index :: int
  ti_new_messages :: "inbound_message list"
  ti_text_only_turns :: int
  ti_context_compaction :: "compaction_config option"
  ti_compacted :: bool
  ti_summary :: "context_summary option"
  ti_admitted :: bool

record tool_call_spec =
  sp_id :: string
  sp_group_id :: string
  sp_run_id :: string
  sp_turn_id :: string
  sp_turn_index :: int
  sp_name :: string

record turn_result =
  tu_turn_id :: string
  tu_turn_index :: int
  tu_tool_calls :: "tool_call_spec list"
  tu_reminded :: bool
  tu_stop_reason :: "string option"
  tu_compaction :: "compaction_trigger option"
  tu_summarize :: "compaction_trigger option"

definition turn_result_of :: "run_turn_input \<Rightarrow> turn_result" where
  "turn_result_of p = \<lparr>tu_turn_id = ti_turn_id p, tu_turn_index = ti_turn_index p, tu_tool_calls = [],
     tu_reminded = False, tu_stop_reason = None, tu_compaction = None, tu_summarize = None\<rparr>"

definition FINISH_REMINDER :: string where
  "FINISH_REMINDER = join_with [CHR 0x0A]
     [''<finish_required>'',
      ''This run ends only when you call `finish` with your summary and deliverable paths, ''
        @ ''or when a tool result is terminal. Call `finish` now, or keep working with your tools.'',
      ''</finish_required>'']"

definition STOPPED_WITHOUT_FINISHING :: string where
  "STOPPED_WITHOUT_FINISHING = ''stopped without finishing''"

section \<open>Opening a run\<close>

definition nonempty :: "string option \<Rightarrow> bool" where
  "nonempty s \<longleftrightarrow> (case s of None \<Rightarrow> False | Some t \<Rightarrow> t \<noteq> [])"

text \<open>The turn limit, and why the agent could not be resolved: a non-retryable \<open>ApplicationError\<close> is a
  run that fails at once; any other exception fails the activity.\<close>

definition run_limit :: "activity_context \<Rightarrow> start_run_input \<Rightarrow> (world, string option \<times> int) act" where
  "run_limit x p =
     try_else (context_agent x (si_agent_id p) (si_thread_id p))
       (\<lambda>e. case e of
          ApplicationError _ _ True \<Rightarrow>
            ret (Some (err_str e), max 1 (case si_max_turns p of None \<Rightarrow> 1 | Some n \<Rightarrow> if n = 0 then 1 else n))
        | _ \<Rightarrow> raise e)
       (\<lambda>agent. ret (None, max 1 (ad_max_turns_per_thread agent)))"

definition open_thread :: "start_run_input \<Rightarrow> agent_thread \<Rightarrow> agent_thread" where
  "open_thread p th = th\<lparr>th_active_run_id := Some (si_run_id p), th_status := ThreadActive,
     th_parent_thread_id := (if nonempty (si_parent_thread_id p) \<and> th_parent_thread_id th = None
       then si_parent_thread_id p else th_parent_thread_id th),
     th_sandbox_id := (if nonempty (si_sandbox_id p) \<and> th_sandbox_id th = None
       then si_sandbox_id p else th_sandbox_id th),
     th_sandbox_access := (if si_sandbox_access p \<noteq> None \<and> th_sandbox_access th = None
       then si_sandbox_access p else th_sandbox_access th)\<rparr>"

definition open_run :: "start_run_input \<Rightarrow> string option \<Rightarrow> int \<Rightarrow> (world, started_run) act" where
  "open_run p error max_turns =
     bnd (runs_create (si_agent_id p) (si_thread_id p) (si_run_id p) max_turns) (\<lambda>_.
     bnd (threads_get_or_create (si_agent_id p) (si_thread_id p)) (\<lambda>th.
     thn (threads_update (open_thread p th))
       (bnd (runs_get (si_run_id p)) (\<lambda>run.
        ret \<lparr>st_turn_count = th_turn_count th, st_max_turns = run_max_turns run, st_error = error\<rparr>))))"

definition begin_run :: "activity_context \<Rightarrow> start_run_input \<Rightarrow> (world, started_run) act" where
  "begin_run x p =
     bnd (run_limit x p) (\<lambda>(error, limit).
     open_run p error
       (case si_max_turns p of None \<Rightarrow> limit | Some n \<Rightarrow> min limit (max 1 n)))"

definition start_run :: "activity_context \<Rightarrow> start_run_input \<Rightarrow> (world, started_run) act" where
  "start_run x p =
     (case si_summarizer p of
        Some name \<Rightarrow>
          (if dget (x_summarizers x) name = None
           then raise (ApplicationError (''no summarizer named '' @ repr_str name
                  @ '' is registered: CompactionConfig.summarizer names a client the worker registers ''
                  @ ''(AgentRuntime(summarizers=...))'') (Some UNREGISTERED_SUMMARIZER) True)
           else begin_run x p)
      | None \<Rightarrow> begin_run x p)"

section \<open>A model turn\<close>

definition parse_tool_args :: "tool_call \<Rightarrow> json_obj" where
  "parse_tool_args c =
     (case json_loads (if fn_arguments (tc_function c) = [] then ''{}'' else fn_arguments (tc_function c)) of
        Some (JObj d) \<Rightarrow> d | _ \<Rightarrow> [])"

definition inbound_row :: "(json \<Rightarrow> int option) \<Rightarrow> inbound_message \<Rightarrow> py_error + message" where
  "inbound_row as_int m =
     try_bind (case in_content m of
         InText t \<Rightarrow> Inr (Text t)
       | InBlocks js \<Rightarrow> try_bind (blocks_from_json as_int (JList js)) (\<lambda>bs. Inr (Blocks bs)))
       (\<lambda>c. Inr ((new_message ''user'' c)\<lparr>m_tag := in_tag m\<rparr>))"

text \<open>The messages not stored by an earlier attempt.\<close>

definition inbound_rows :: "(json \<Rightarrow> int option) \<Rightarrow> run_turn_input \<Rightarrow> message list \<Rightarrow> py_error + message list" where
  "inbound_rows as_int p stored =
     try_bind (try_map (inbound_row as_int) (ti_new_messages p)) (\<lambda>ms.
     Inr (drop (length (filter (\<lambda>m. m_role m = ''user'') stored)) ms))"

definition append_inbound ::
  "activity_context \<Rightarrow> run_turn_input \<Rightarrow> runtime_events \<Rightarrow> message list \<Rightarrow> (world, unit) act" where
  "append_inbound x p ev inbound = for_each (\<lambda>m.
     bnd (append_user (ti_agent_id p) (ti_thread_id p) (m_content m) (m_tag m) (Some (ti_turn_id p))) (\<lambda>_.
     on_user_message x ev (m_content m))) inbound"

definition turn_record :: "run_turn_input \<Rightarrow> string \<Rightarrow> tool_call \<Rightarrow> tool_call_record" where
  "turn_record p group_id c = \<lparr>r_id = tc_id c, r_group_id = group_id, r_run_id = ti_run_id p,
     r_agent_id = ti_agent_id p, r_thread_id = ti_thread_id p, r_turn_id = ti_turn_id p,
     r_turn_index = ti_turn_index p, r_name = fn_name (tc_function c), r_args = parse_tool_args c,
     r_status = REQUESTED, r_prompt = None, r_wait_request = None, r_result = JNull\<rparr>"

definition calls_of :: "message \<Rightarrow> tool_call list" where
  "calls_of m = (case m_tool_calls m of None \<Rightarrow> [] | Some cs \<Rightarrow> cs)"

definition spec_of :: "tool_call_record \<Rightarrow> tool_call_spec" where
  "spec_of r = \<lparr>sp_id = r_id r, sp_group_id = r_group_id r, sp_run_id = r_run_id r,
     sp_turn_id = r_turn_id r, sp_turn_index = r_turn_index r, sp_name = r_name r\<rparr>"

definition close_turn ::
  "activity_context \<Rightarrow> run_turn_input \<Rightarrow> agent_definition \<Rightarrow> tool_call_record list
     \<Rightarrow> compaction_trigger option \<Rightarrow> runtime_events \<Rightarrow> bool \<Rightarrow> (world, turn_result) act" where
  "close_turn x p agent records ahead ev reminded =
     (if records = [] \<and> ad_completion agent = Terminal
      then (if ti_text_only_turns p = 0
            then thn (whenM (\<not> reminded)
                   (bnd (append_user (ti_agent_id p) (ti_thread_id p) (Text FINISH_REMINDER) None
                           (Some (ti_turn_id p))) (\<lambda>_.
                    on_user_message x ev (Text FINISH_REMINDER))))
                 (ret ((turn_result_of p)\<lparr>tu_reminded := True, tu_summarize := ahead\<rparr>))
            else ret ((turn_result_of p)\<lparr>tu_stop_reason := Some STOPPED_WITHOUT_FINISHING,
                   tu_summarize := ahead\<rparr>))
      else ret ((turn_result_of p)\<lparr>tu_tool_calls := map spec_of records, tu_summarize := ahead\<rparr>))"

text \<open>\<open>except StreamCancelled\<close> around the model's call.\<close>

definition guard_stream :: "(world, 'a) act \<Rightarrow> (world, 'a) act" where
  "guard_stream m = catch m (\<lambda>e. case e of
      StreamCancelled \<Rightarrow> raise (ApplicationError ''turn cancelled'' None True) | _ \<Rightarrow> raise e)"

definition count_turn :: "agent_thread \<Rightarrow> agent_run \<Rightarrow> (world, unit) act" where
  "count_turn th run =
     thn (threads_update (th\<lparr>th_turn_count := th_turn_count th + 1\<rparr>))
       (runs_update (run\<lparr>run_turn_count := run_turn_count run + 1, run_status := RunActive\<rparr>))"

definition ask_model ::
  "activity_context \<Rightarrow> run_turn_input \<Rightarrow> agent_definition \<Rightarrow> agent_thread \<Rightarrow> agent_run \<Rightarrow> runtime_events
     \<Rightarrow> message list \<Rightarrow> compaction_trigger option \<Rightarrow> (world, turn_result) act" where
  "ask_model x p agent th run ev messages ahead =
     thn (on_turn_start x ev (ti_turn_index p) (Some (ti_turn_id p)))
       (bnd (guard_stream (agent_complete agent messages (run_turn_count run + 1 \<ge> run_max_turns run)))
         (\<lambda>assistant.
       bnd (new_id ''group'') (\<lambda>gid.
       (let records = map (turn_record p (take 12 gid)) (calls_of assistant)
        in bnd (append_assistant_with_tool_calls (ti_agent_id p) (ti_thread_id p) (ti_turn_id p)
                  assistant records) (\<lambda>_.
           thn (on_assistant_message x ev assistant)
             (thn (for_each (\<lambda>r. on_tool_call x ev (r_id r) (r_name r) (r_args r)) records)
               (thn (count_turn th run)
                 (close_turn x p agent records ahead ev False))))))))"

text \<open>The turn gate: \<open>Some reason\<close> refuses the turn.\<close>

definition gate_turn :: "activity_context \<Rightarrow> run_turn_input \<Rightarrow> (world, string option) act" where
  "gate_turn x p = (case x_turn_gate x of
      None \<Rightarrow> ret None
    | Some gate \<Rightarrow>
        (if ti_compacted p \<or> ti_admitted p then ret None
         else gate \<lparr>ts_agent_id = ti_agent_id p, ts_thread_id = ti_thread_id p, ts_run_id = ti_run_id p,
                ts_turn_id = ti_turn_id p, ts_turn_index = ti_turn_index p\<rparr>))"

text \<open>What the model is shown: without compaction every stored message, with it the model's view and,
  while measuring, the new messages that are not stored yet.\<close>

definition turn_view ::
  "run_turn_input \<Rightarrow> bool \<Rightarrow> message list \<Rightarrow> (world, model_view option \<times> message list) act" where
  "turn_view p measuring inbound = (case ti_context_compaction p of
      None \<Rightarrow> bnd getS (\<lambda>w. ret (None, filter (\<lambda>m. m_kind m = KMessage)
                (list_for_thread (ti_agent_id p) (ti_thread_id p) w)))
    | Some _ \<Rightarrow>
        bnd (list_for_model (ti_agent_id p) (ti_thread_id p)) (\<lambda>rows.
        bnd (from_res (build_view rows)) (\<lambda>view.
        ret (Some view, mv_messages view @ (if measuring then inbound else [])))))"

definition send_turn ::
  "activity_context \<Rightarrow> run_turn_input \<Rightarrow> agent_definition \<Rightarrow> agent_thread \<Rightarrow> agent_run \<Rightarrow> runtime_events
     \<Rightarrow> bool \<Rightarrow> message list \<Rightarrow> (world, turn_result) act" where
  "send_turn x p agent th run ev measuring inbound =
     bnd (turn_view p measuring inbound) (\<lambda>(model_view, view).
     bnd (prepare_request x view (ti_agent_id p) (ti_thread_id p) (ti_run_id p) (ti_turn_id p)
            (dropping agent (ti_context_compaction p))) (\<lambda>messages.
     case (ti_context_compaction p, model_view, measuring) of
       (Some c, Some mv, True) \<Rightarrow>
         (let drops = (cc_image_limit c = DropOldest)
          in case compaction_trigger_for agent (cc_threshold c) mv view messages False drops of
               Some trigger \<Rightarrow> ret ((turn_result_of p)\<lparr>tu_compaction := Some trigger\<rparr>)
             | None \<Rightarrow>
                 (let ahead = (case cc_background c of
                        None \<Rightarrow> None
                      | Some b \<Rightarrow> compaction_trigger_for agent b mv view messages True drops)
                  in thn (append_inbound x p ev inbound)
                       (ask_model x p agent th run ev messages ahead)))
     | _ \<Rightarrow> ask_model x p agent th run ev messages None))"

text \<open>A ready summary is stored before this turn's messages.\<close>

definition store_ready_summary :: "activity_context \<Rightarrow> run_turn_input \<Rightarrow> (world, unit) act" where
  "store_ready_summary x p = (case ti_summary p of
      None \<Rightarrow> ret ()
    | Some s \<Rightarrow>
        thn (store_summary_row x (ti_agent_id p) (ti_thread_id p) (ti_run_id p) s
              (case ti_context_compaction p of None \<Rightarrow> [] | Some c \<Rightarrow> cc_keep c)
              (Some (ti_turn_id p)) (Some (ti_turn_index p))) (ret ()))"

definition turn_events :: "run_turn_input \<Rightarrow> agent_thread \<Rightarrow> runtime_events" where
  "turn_events p th = new_events th (Some (ti_run_id p)) (Some (ti_turn_id p)) (Some (ti_turn_index p))"

text \<open>A compacting thread measures before it stores the new messages.\<close>

definition turn_measures :: "run_turn_input \<Rightarrow> bool" where
  "turn_measures p \<longleftrightarrow> ti_context_compaction p \<noteq> None \<and> \<not> ti_compacted p"

definition loaded_turn ::
  "activity_context \<Rightarrow> run_turn_input \<Rightarrow> message list \<Rightarrow> agent_definition \<Rightarrow> agent_thread \<Rightarrow> agent_run
     \<Rightarrow> (world, turn_result) act" where
  "loaded_turn x p stored agent th run =
     thn (store_ready_summary x p)
       (bnd (from_res (inbound_rows (x_as_int x) p stored)) (\<lambda>inbound.
        thn (whenM (\<not> turn_measures p) (append_inbound x p (turn_events p th) inbound))
          (bnd (gate_turn x p) (\<lambda>refused.
           case refused of
             Some reason \<Rightarrow> ret ((turn_result_of p)\<lparr>tu_stop_reason := Some reason\<rparr>)
           | None \<Rightarrow> send_turn x p agent th run (turn_events p th) (turn_measures p) inbound))))"

definition first_turn :: "activity_context \<Rightarrow> run_turn_input \<Rightarrow> message list \<Rightarrow> (world, turn_result) act" where
  "first_turn x p stored =
     bnd (context_agent x (ti_agent_id p) (ti_thread_id p)) (\<lambda>agent.
     bnd (threads_get_or_create (ti_agent_id p) (ti_thread_id p)) (\<lambda>th.
     bnd (runs_get (ti_run_id p)) (\<lambda>run.
     loaded_turn x p stored agent th run)))"

section \<open>A turn attempted again\<close>

fun last_assistant :: "message list \<Rightarrow> nat option" where
  "last_assistant [] = None"
| "last_assistant (m # ms) = (case last_assistant ms of
      Some i \<Rightarrow> Some (Suc i)
    | None \<Rightarrow> (if m_role m = ''assistant'' then Some 0 else None))"

definition turn_calls :: "run_turn_input \<Rightarrow> message \<Rightarrow> world \<Rightarrow> tool_call_record list" where
  "turn_calls p answer w =
     (let by_id = foldl (\<lambda>d r. dset (r_id r) r d) []
                    (filter (\<lambda>r. r_turn_id r = ti_turn_id p) (get_by_run (ti_run_id p) w))
      in List.map_filter (\<lambda>c. dget by_id (tc_id c)) (calls_of answer))"

definition stored_turn :: "activity_context \<Rightarrow> run_turn_input \<Rightarrow> message list \<Rightarrow> (world, turn_result) act" where
  "stored_turn x p stored =
     bnd (context_agent x (ti_agent_id p) (ti_thread_id p)) (\<lambda>agent.
     bnd (threads_get_or_create (ti_agent_id p) (ti_thread_id p)) (\<lambda>th.
     bnd (runs_get (ti_run_id p)) (\<lambda>run.
     thn (whenM (th_turn_count th < ti_turn_index p) (count_turn th run))
       (case last_assistant stored of
          None \<Rightarrow> raise (ValueError ''max() iterable argument is empty'')
        | Some i \<Rightarrow>
            bnd getS (\<lambda>w.
            close_turn x p agent (turn_calls p (stored ! i) w) None (turn_events p th)
              (list_ex (\<lambda>m. m_role m = ''user'' \<and> m_content m = Text FINISH_REMINDER)
                (drop (Suc i) stored)))))))"

text \<open>The activity: every \<open>Exception\<close> becomes a failure that is not retried.\<close>

definition final_error :: "py_error \<Rightarrow> py_error" where
  "final_error e = (case e of
      ApplicationError m t non_retryable \<Rightarrow> (if non_retryable then e else ApplicationError (err_str e) t True)
    | _ \<Rightarrow> ApplicationError (err_str e) (Some (err_type e)) True)"

definition run_turn :: "activity_context \<Rightarrow> nat \<Rightarrow> run_turn_input \<Rightarrow> (world, turn_result) act" where
  "run_turn x attempt p = catch
     (bnd getS (\<lambda>w.
      let stored = (if attempt > 1
            then list_for_turn (ti_agent_id p) (ti_thread_id p) (ti_turn_id p) w else [])
      in if list_ex (\<lambda>m. m_role m = ''assistant'') stored then stored_turn x p stored
         else first_turn x p stored))
     (\<lambda>e. raise (final_error e))"

section \<open>Finalizing a run\<close>

definition run_status_of :: "string \<Rightarrow> run_status" where
  "run_status_of outcome = (if outcome = ''exhausted'' then RunExhausted
     else if outcome = ''failed'' then RunFailed else if outcome = ''cancelled'' then RunCancelled
     else RunIdle)"

definition thread_status_of :: "string \<Rightarrow> thread_status" where
  "thread_status_of outcome = (if outcome = ''failed'' then ThreadFailed
     else if outcome = ''cancelled'' then ThreadCancelled else ThreadIdle)"

text \<open>\<open>stop_reason or 'unknown'\<close>.\<close>

definition or_else :: "string option \<Rightarrow> string \<Rightarrow> string" where
  "or_else s d = (case s of None \<Rightarrow> d | Some t \<Rightarrow> if t = [] then d else t)"

definition repair_result :: "finalize_run_input \<Rightarrow> json" where
  "repair_result p =
     (if fi_outcome p = ''cancelled'' then JObj CANCELLED_RESULT
      else JObj [(''error'', JStr (''run failed; tool outcome uncertain: ''
             @ or_else (fi_stop_reason p) ''unknown''))])"

definition stored_result :: "tool_call_record \<Rightarrow> json" where
  "stored_result r = (if r_result r \<noteq> JNull then r_result r else JObj [(''error'', JStr ''No result'')])"

definition repair_call :: "activity_context \<Rightarrow> finalize_run_input \<Rightarrow> tool_call_record \<Rightarrow> (world, unit) act" where
  "repair_call x p r =
     thn (whenM (\<not> terminal_status (r_status r))
            (thn (calls_update_status (r_id r) (if fi_outcome p = ''cancelled'' then COMPLETED else FAILED)
                   (repair_result p) None None) (ret ())))
       (bnd (calls_get (r_id r)) (\<lambda>r'. post_result (x_as_int x) stored_result r'))"

definition turn_id_le :: "tool_call_record \<Rightarrow> tool_call_record \<Rightarrow> bool" where
  "turn_id_le a b \<longleftrightarrow> r_turn_index a < r_turn_index b
     \<or> (r_turn_index a = r_turn_index b \<and> str_le (r_id a) (r_id b))"

definition run_artifacts :: "string \<Rightarrow> world \<Rightarrow> json list" where
  "run_artifacts rid w = concat (map (\<lambda>r.
     case json_or_null (case r_result r of JObj d \<Rightarrow> d | _ \<Rightarrow> []) ''metadata'' of
       JObj m \<Rightarrow> (case json_or_null m ''artifacts'' of
           JList refs \<Rightarrow> filter (\<lambda>j. case j of JObj _ \<Rightarrow> True | _ \<Rightarrow> False) refs
         | _ \<Rightarrow> [])
     | _ \<Rightarrow> []) (get_by_run rid w))"

text \<open>Handing a completion to the application; it is also written to \<open>w_completions\<close>, which no code reads.\<close>

definition notify_completion :: "activity_context \<Rightarrow> run_completion \<Rightarrow> (world, unit) act" where
  "notify_completion x c = (case x_completion_handler x of
      None \<Rightarrow> ret ()
    | Some f \<Rightarrow> thn (modifyS (\<lambda>w. w\<lparr>w_completions := w_completions w @ [c]\<rparr>)) (f c))"

definition repair_run :: "activity_context \<Rightarrow> finalize_run_input \<Rightarrow> (world, unit) act" where
  "repair_run x p =
     whenM (fi_outcome p \<in> {''cancelled'', ''failed''})
       (bnd getS (\<lambda>w. for_each (repair_call x p) (sort_by turn_id_le (get_by_run (fi_run_id p) w))))"

definition finalize_run :: "activity_context \<Rightarrow> finalize_run_input \<Rightarrow> (world, unit) act" where
  "finalize_run x p =
     thn (repair_run x p)
       (thn (runs_finish (fi_run_id p) (run_status_of (fi_outcome p)) (fi_stop_reason p))
         (bnd (threads_get_or_create (fi_agent_id p) (fi_thread_id p)) (\<lambda>th0.
          (let th = th0\<lparr>th_active_run_id := None, th_status := thread_status_of (fi_outcome p)\<rparr>
           in thn (threads_update th)
                (bnd getS (\<lambda>w.
                 thn (notify_completion x \<lparr>rc_agent_id = fi_agent_id p, rc_thread_id = fi_thread_id p,
                        rc_run_id = fi_run_id p, rc_outcome = fi_outcome p,
                        rc_stop_reason = fi_stop_reason p, rc_artifacts = run_artifacts (fi_run_id p) w\<rparr>)
                   (on_complete x (new_events th (Some (fi_run_id p)) None None)
                     (fi_outcome p = ''completed'') (or_else (fi_stop_reason p) (fi_outcome p)) [])))))))"

section \<open>Transcripts only grow\<close>

interpretation tg: event_contract transcripts_grow
  by (unfold_locales, rule transcripts_grow_refl, erule (1) transcripts_grow_trans)
    (simp add: transcripts_grow_def rows_of_def)

lemma keeps_mono: "keeps R m \<Longrightarrow> (\<And>w w'. R w w' \<Longrightarrow> S w w') \<Longrightarrow> keeps S m"
  by (simp add: keeps_def)

lemma grows: "keeps store_step m \<Longrightarrow> keeps transcripts_grow m"
  by (erule keeps_mono) (simp add: store_step_def)

named_theorems grow_rules \<open>actions that never shorten a transcript\<close>

lemmas [grow_rules] = keeps_list_for_model [THEN grows] keeps_threads_get_or_create [THEN grows]
  keeps_threads_update [THEN grows] keeps_runs_get [THEN grows] keeps_runs_update [THEN grows]
  keeps_new_id [THEN grows] keeps_append_user [THEN grows] keeps_append_assistant [THEN grows]
  keeps_append_compaction [THEN grows] tg.agent_kept tg.events_kept tg.prepare_request_kept

lemma grow_calls_save [grow_rules]: "keeps transcripts_grow (calls_save r)"
  unfolding calls_save_def
  by (rule tg.keeps_modifyS) (simp add: transcripts_grow_def rows_of_def)

lemma grow_append_calls [grow_rules]:
  "keeps transcripts_grow (append_assistant_with_tool_calls a t turn m rs)"
  unfolding append_assistant_with_tool_calls_def
  by (intro tg.keeps_bnd tg.keeps_thn tg.keeps_for_each tg.keeps_ret grow_rules)

lemma grow_write_summary [grow_rules]:
  assumes "context_respects transcripts_grow x"
  shows "keeps transcripts_grow (write_summary x a t rid b ms turn ti)"
  unfolding write_summary_def Let_def
  by (intro tg.keeps_bnd tg.keeps_thn tg.keeps_from_res tg.keeps_ret grow_rules assms)

lemma grow_store_summary_row [grow_rules]:
  assumes "context_respects transcripts_grow x"
  shows "keeps transcripts_grow (store_summary_row x a t rid s keep turn ti)"
  unfolding store_summary_row_def Let_def
  by (auto intro!: tg.keeps_bnd tg.keeps_if tg.keeps_ret tg.keeps_getS tg.keeps_raise grow_rules
      assms split: option.split)

lemma grow_append_inbound [grow_rules]:
  "context_respects transcripts_grow x \<Longrightarrow> keeps transcripts_grow (append_inbound x p ev ms)"
  unfolding append_inbound_def by (intro tg.keeps_for_each tg.keeps_bnd grow_rules)

lemma grow_count_turn [grow_rules]: "keeps transcripts_grow (count_turn th run)"
  unfolding count_turn_def by (intro tg.keeps_thn grow_rules)

lemma grow_close_turn [grow_rules]:
  "context_respects transcripts_grow x \<Longrightarrow> keeps transcripts_grow (close_turn x p ag rs ahead ev b)"
  unfolding close_turn_def
  by (intro tg.keeps_if tg.keeps_thn tg.keeps_whenM tg.keeps_bnd tg.keeps_ret grow_rules)

lemma grow_guard_stream: "keeps transcripts_grow m \<Longrightarrow> keeps transcripts_grow (guard_stream m)"
  unfolding guard_stream_def by (auto intro!: tg.keeps_catch tg.keeps_raise split: py_error.split)

lemma grow_agent_complete:
  "agent_respects transcripts_grow ag \<Longrightarrow> keeps transcripts_grow (agent_complete ag ms final)"
  by (simp add: agent_complete_def agent_respects_def)

lemma grow_ask_model:
  assumes "context_respects transcripts_grow x" and "agent_respects transcripts_grow ag"
  shows "keeps transcripts_grow (ask_model x p ag th run ev ms ahead)"
  unfolding ask_model_def Let_def
  by (intro tg.keeps_thn tg.keeps_bnd tg.keeps_for_each grow_guard_stream grow_agent_complete grow_rules assms)

lemma grow_gate_turn [grow_rules]:
  "context_respects transcripts_grow x \<Longrightarrow> keeps transcripts_grow (gate_turn x p)"
  by (auto simp: gate_turn_def context_respects_def intro!: tg.keeps_ret split: option.split)

lemma grow_turn_view [grow_rules]: "keeps transcripts_grow (turn_view p b ms)"
  unfolding turn_view_def
  by (intro tg.keeps_option tg.keeps_bnd tg.keeps_getS tg.keeps_ret tg.keeps_from_res grow_rules)

lemma grow_send_turn:
  assumes "context_respects transcripts_grow x" and "agent_respects transcripts_grow ag"
  shows "keeps transcripts_grow (send_turn x p ag th run ev b ms)"
  unfolding send_turn_def Let_def
  by (auto intro!: tg.keeps_bnd tg.keeps_ret tg.keeps_thn grow_ask_model grow_rules assms
      split: option.split bool.split)

lemma grow_loaded_turn:
  assumes "context_respects transcripts_grow x" and "agent_respects transcripts_grow ag"
  shows "keeps transcripts_grow (loaded_turn x p stored ag th run)"
  unfolding loaded_turn_def store_ready_summary_def
  by (intro tg.keeps_bnd tg.keeps_thn tg.keeps_option tg.keeps_ret tg.keeps_from_res tg.keeps_whenM
      grow_send_turn grow_rules assms)

lemma grow_first_turn:
  assumes x: "context_respects transcripts_grow x"
  shows "keeps transcripts_grow (first_turn x p stored)"
  unfolding first_turn_def
  by (rule tg.bnd_result_kept [OF tg.agent_kept [OF x]])
    (intro tg.keeps_bnd grow_loaded_turn x grow_rules, use tg.agent_respectful [OF x] in blast)

lemma grow_stored_turn:
  "context_respects transcripts_grow x \<Longrightarrow> keeps transcripts_grow (stored_turn x p stored)"
  unfolding stored_turn_def
  by (intro tg.keeps_bnd tg.keeps_thn tg.keeps_whenM tg.keeps_option tg.keeps_raise tg.keeps_getS grow_rules)

lemma grow_run_turn:
  "context_respects transcripts_grow x \<Longrightarrow> keeps transcripts_grow (run_turn x n p)"
  unfolding run_turn_def Let_def
  by (intro tg.keeps_catch tg.keeps_bnd tg.keeps_getS tg.keeps_if tg.keeps_raise
      grow_first_turn grow_stored_turn)

section \<open>Finalizing\<close>

lemma content_of_error [simp]: "\<exists>c. tool_result_content as_int (JObj [(''error'', j)]) = Inr c"
  by (simp add: tool_result_content_def tool_result_blocks_def jget_def)

lemma content_of_repair: "\<exists>c. tool_result_content as_int (repair_result p) = Inr c"
  by (simp add: repair_result_def)

text \<open>A call closed: finished and answered in its thread's transcript.\<close>

definition closed_call :: "tool_call_record \<Rightarrow> world \<Rightarrow> bool" where
  "closed_call r w \<longleftrightarrow> finished (r_id r) w \<and> answered (r_id r) (rows_of (r_agent_id r) (r_thread_id r) w)"

lemma closed_call_step: "store_step w w' \<Longrightarrow> closed_call r w \<Longrightarrow> closed_call r w'"
  by (auto simp: closed_call_def intro: finished_step answered_step)

text \<open>What repairing changes beside calls and messages: nothing.\<close>

definition only_projections :: "world \<Rightarrow> world \<Rightarrow> bool" where
  "only_projections w w' \<longleftrightarrow> w_threads w' = w_threads w \<and> w_runs w' = w_runs w
     \<and> w_events w' = w_events w \<and> w_completions w' = w_completions w"

lemma only_projections_trans: "only_projections u v \<Longrightarrow> only_projections v w \<Longrightarrow> only_projections u w"
  by (simp add: only_projections_def)

lemma post_result_closes:
  assumes c: "\<exists>c. tool_result_content as_int (res r) = Inr c" and fin: "finished (r_id r) w"
  shows "\<exists>w'. post_result as_int res r w = (Inr (), w') \<and> store_step w w' \<and> only_projections w w'
     \<and> w_calls w' = w_calls w \<and> closed_call r w'"
proof -
  obtain w' new where w': "post_result as_int res r w = (Inr (), w')" "only_messages w w'"
    and rows: "\<And>a t. rows_of a t w' = rows_of a t w
      @ (if (a, t) = (r_agent_id r, r_thread_id r) then new else [])"
    and new: "new = [] \<and> answered (r_id r) (rows_of (r_agent_id r) (r_thread_id r) w)
       \<or> \<not> answered (r_id r) (rows_of (r_agent_id r) (r_thread_id r) w)
         \<and> (\<exists>m. new = [m] \<and> row_for as_int res r m)"
    by (rule post_result_spec [where as_int = as_int and res = res and r = r and w = w, OF c])
      (rule that, assumption+)
  from keepsD [OF keeps_post_result, of w as_int res r] w'(1) have step: "store_step w w'" by simp
  from new rows [of "r_agent_id r" "r_thread_id r"]
  have "answered (r_id r) (rows_of (r_agent_id r) (r_thread_id r) w')"
    by (auto simp: answered_row_for)
  with finished_step [OF step fin] w' step show ?thesis
    by (auto simp: closed_call_def only_messages_def only_projections_def)
qed

text \<open>The records a finalization repairs: each stored under its id, and, if finished, with a result that
  can be written as a message.\<close>

definition repairable :: "(json \<Rightarrow> int option) \<Rightarrow> world \<Rightarrow> tool_call_record \<Rightarrow> bool" where
  "repairable as_int w r \<longleftrightarrow> dget (w_calls w) (r_id r) = Some r
     \<and> (terminal_status (r_status r) \<longrightarrow> (\<exists>c. tool_result_content as_int (stored_result r) = Inr c))"

definition repaired :: "finalize_run_input \<Rightarrow> tool_call_record \<Rightarrow> tool_call_record" where
  "repaired p r = (if terminal_status (r_status r) then r
     else r\<lparr>r_status := (if fi_outcome p = ''cancelled'' then COMPLETED else FAILED),
            r_result := repair_result p\<rparr>)"

lemma repaired_simps [simp]:
  "r_id (repaired p r) = r_id r" "r_agent_id (repaired p r) = r_agent_id r"
  "r_thread_id (repaired p r) = r_thread_id r" "terminal_status (r_status (repaired p r))"
  "r_run_id (repaired p r) = r_run_id r"
  by (simp_all add: repaired_def)

lemma closed_call_repaired [simp]: "closed_call (repaired p r) w = closed_call r w"
  by (simp add: closed_call_def)

lemma repaired_content:
  "repairable (x_as_int x) w r \<Longrightarrow>
   \<exists>c. tool_result_content (x_as_int x) (stored_result (repaired p r)) = Inr c"
  using content_of_repair [of "x_as_int x" p]
  by (auto simp: repairable_def repaired_def stored_result_def repair_result_def CANCELLED_RESULT_def)

lemma repair_status_eq:
  assumes "repairable as_int w r"
  shows "whenM (\<not> terminal_status (r_status r))
     (thn (calls_update_status (r_id r) (if fi_outcome p = ''cancelled'' then COMPLETED else FAILED)
        (repair_result p) None None) (ret ())) w
     = (Inr (), w\<lparr>w_calls := dset (r_id r) (repaired p r) (w_calls w)\<rparr>)"
proof -
  have "repair_result p \<noteq> JNull" by (simp add: repair_result_def)
  moreover have "w\<lparr>w_calls := dset (r_id r) r (w_calls w)\<rparr> = w"
    using assms by (simp add: repairable_def dset_same)
  ultimately show ?thesis using assms
    by (auto simp: repairable_def whenM_def repaired_def act_defs calls_update_status_def update_record_def)
qed

lemma repair_call_spec:
  assumes r: "repairable (x_as_int x) w r"
  shows "\<exists>v. repair_call x p r w = (Inr (), v) \<and> store_step w v \<and> only_projections w v
     \<and> w_calls v = dset (r_id r) (repaired p r) (w_calls w) \<and> closed_call r v"
proof -
  let ?u = "w\<lparr>w_calls := dset (r_id r) (repaired p r) (w_calls w)\<rparr>"
  have get: "calls_get (r_id r) ?u = (Inr (repaired p r), ?u)"
    by (simp add: calls_get_def readS_def)
  have "finished (r_id (repaired p r)) ?u" by (simp add: finished_def status_of_def)
  from post_result_closes [where as_int = "x_as_int x" and res = stored_result and r = "repaired p r"
      and w = ?u, OF repaired_content [OF r] this]
  obtain v where v: "post_result (x_as_int x) stored_result (repaired p r) ?u = (Inr (), v)"
    "store_step ?u v" "only_projections ?u v" "w_calls v = w_calls ?u" "closed_call r v" by auto
  have run: "repair_call x p r w = (Inr (), v)"
    using repair_status_eq [OF r, of p] get v(1) by (simp add: repair_call_def thn_def bnd_def)
  have "keeps store_step (repair_call x p r)"
    unfolding repair_call_def by (intro st.keeps_thn st.keeps_whenM st.keeps_bnd st.keeps_ret keeps_rules)
  from keepsD [OF this, of w] run have "store_step w v" by simp
  with run v(3-5) show ?thesis by (auto simp: only_projections_def)
qed

lemma repair_calls_spec:
  assumes "\<And>r. r \<in> set rs \<Longrightarrow> repairable (x_as_int x) w r" and "distinct (map r_id rs)"
  shows "\<exists>v. for_each (repair_call x p) rs w = (Inr (), v) \<and> store_step w v \<and> only_projections w v
     \<and> (\<forall>r\<in>set rs. closed_call r v)"
  using assms
proof (induction rs arbitrary: w)
  case Nil
  show ?case by (intro exI [of _ w]) (simp add: ret_def st.step_refl only_projections_def)
next
  case (Cons r rs)
  from repair_call_spec [OF Cons.prems(1), of r] obtain u where
    u: "repair_call x p r w = (Inr (), u)" "store_step w u" "only_projections w u"
      "w_calls u = dset (r_id r) (repaired p r) (w_calls w)" "closed_call r u" by auto
  have "repairable (x_as_int x) u s" if "s \<in> set rs" for s
  proof -
    from Cons.prems(2) that have "r_id s \<noteq> r_id r"
      by (metis distinct.simps(2) image_eqI list.set_map list.simps(9))
    with Cons.prems(1) [of s] that u(4) show ?thesis by (auto simp: repairable_def)
  qed
  with Cons.IH [of u] Cons.prems(2) obtain v where
    v: "for_each (repair_call x p) rs u = (Inr (), v)" "store_step u v" "only_projections u v"
      "\<forall>s\<in>set rs. closed_call s v" by auto
  with u closed_call_step [OF v(2) u(5)] st.step_trans [OF u(2) v(2)] only_projections_trans [OF u(3) v(3)]
  show ?case by (intro exI [of _ v]) (simp add: thn_def bnd_def)
qed

text \<open>The rows a finalization writes, before what it does next (\<open>k\<close>).\<close>

lemma close_rows:
  assumes "\<And>th. dget (w_threads u) (a, t) = Some th \<Longrightarrow> th_agent_id th = a \<and> th_id th = t"
  shows "\<exists>v th. thn (runs_finish rid rs sr) (bnd (threads_get_or_create a t) (\<lambda>th0.
        let th = th0\<lparr>th_active_run_id := None, th_status := s\<rparr> in thn (threads_update th) (k th))) u = k th v
     \<and> store_step u v \<and> w_completions v = w_completions u
     \<and> (\<forall>run. dget (w_runs u) rid = Some run \<longrightarrow> dget (w_runs v) rid
          = Some (run\<lparr>run_status := rs, run_stop_reason := sr\<rparr>))
     \<and> dget (w_threads v) (a, t) = Some th \<and> th_active_run_id th = None \<and> th_status th = s"
proof -
  define th0 where "th0 = (case dget (w_threads u) (a, t) of Some th \<Rightarrow> th | None \<Rightarrow> new_thread t a)"
  define th where "th = th0\<lparr>th_active_run_id := None, th_status := s\<rparr>"
  define u1 where "u1 = snd (runs_finish rid rs sr u)"
  define u2 where "u2 = snd (threads_get_or_create a t u1)"
  define v where "v = u2\<lparr>w_threads := dset (a, t) th (w_threads u2)\<rparr>"
  have "th_agent_id th0 = a \<and> th_id th0 = t"
    using assms by (cases "dget (w_threads u) (a, t)") (simp_all add: th0_def new_thread_def)
  then have update: "threads_update th u2 = (Inr (), v)"
    by (simp add: threads_update_def modifyS_def v_def th_def)
  have finish: "runs_finish rid rs sr u = (Inr (), u1)" by (simp add: u1_def runs_finish_def modifyS_def)
  have u1: "w_threads u1 = w_threads u" "w_calls u1 = w_calls u" "w_messages u1 = w_messages u"
    "w_completions u1 = w_completions u"
    by (simp_all add: u1_def runs_finish_def modifyS_def split: option.split)
  have thread: "threads_get_or_create a t u1 = (Inr th0, u2)"
    using u1(1) by (simp add: u2_def th0_def threads_get_or_create_def Let_def split: option.split)
  have u2: "w_runs u2 = w_runs u1" "w_calls u2 = w_calls u" "w_messages u2 = w_messages u"
    "w_completions u2 = w_completions u"
    using u1 by (simp_all add: u2_def threads_get_or_create_def Let_def split: option.split)
  have "store_step u v" by (rule store_step_same) (simp_all add: v_def u2)
  moreover have "\<forall>run. dget (w_runs u) rid = Some run \<longrightarrow> dget (w_runs v) rid
      = Some (run\<lparr>run_status := rs, run_stop_reason := sr\<rparr>)"
    using u2(1) by (simp add: v_def u1_def runs_finish_def modifyS_def)
  ultimately show ?thesis using update u2
    by (intro exI [of _ v] exI [of _ th])
      (simp add: thn_Inr [where m = "runs_finish rid rs sr" and s = u, OF finish]
         bnd_Inr [where m = "threads_get_or_create a t" and s = u1, OF thread] th_def [symmetric]
         thn_Inr [where m = "threads_update th" and s = u2, OF update] Let_def,
       simp add: v_def th_def)
qed

section \<open>A refused turn\<close>

text \<open>A message as \<open>inbound_row\<close> builds it, and as it is stored: the same, with an id.\<close>

definition inbound_ok :: "message \<Rightarrow> bool" where
  "inbound_ok m \<longleftrightarrow> m = (new_message ''user'' (m_content m))\<lparr>m_tag := m_tag m\<rparr>
     \<and> (case m_content m of Blocks bs \<Rightarrow> validate_blocks bs = Inr bs | _ \<Rightarrow> True)"

definition stored_as :: "message \<Rightarrow> message \<Rightarrow> bool" where
  "stored_as m m' \<longleftrightarrow> m'\<lparr>m_id := None\<rparr> = m \<and> m_id m' \<noteq> None"

lemma blocks_from_json_valid: "blocks_from_json as_int j = Inr bs \<Longrightarrow> validate_blocks bs = Inr bs"
  by (cases j) (auto simp: blocks_from_json_def validate_blocks_def try_bind_def split: sum.splits if_splits)

lemma inbound_row_ok: "inbound_row as_int im = Inr m \<Longrightarrow> inbound_ok m"
  by (cases "in_content im")
    (auto simp: inbound_row_def inbound_ok_def try_bind_def new_message_def
      dest: blocks_from_json_valid split: sum.splits)

lemma try_map_every: "try_map f xs = Inr ys \<Longrightarrow> (\<And>a b. f a = Inr b \<Longrightarrow> P b) \<Longrightarrow> \<forall>y\<in>set ys. P y"
  by (induction xs arbitrary: ys) (auto simp: try_bind_def split: sum.splits)

lemma inbound_rows_ok: "inbound_rows as_int p stored = Inr ms \<Longrightarrow> \<forall>m\<in>set ms. inbound_ok m"
  by (auto simp: inbound_rows_def try_bind_def split: sum.splits
      dest!: try_map_every [where P = inbound_ok, OF _ inbound_row_ok] in_set_dropD)

lemma append_user_inbound:
  assumes "inbound_ok m"
  shows "ensures (append_user a t (m_content m) (m_tag m) turn) w
    (\<lambda>r v. \<exists>rec m'. r = Inr rec \<and> rows_of a t v = rows_of a t w @ [m'] \<and> stored_as m m')"
proof -
  from assms have m: "(new_message ''user'' (m_content m))\<lparr>m_tag := m_tag m\<rparr> = m" by (simp add: inbound_ok_def)
  then have "m_id m = None" by (metis message.select_convs(15) message.update_convs(14) new_message_def)
  then have none: "m\<lparr>m_id := None\<rparr> = m" by simp
  from assms m have eq: "append_user a t (m_content m) (m_tag m) turn = append_row a t m turn"
    by (auto simp: append_user_def inbound_ok_def split: content.splits)
  show ?thesis unfolding eq
    by (simp add: ensures_def append_row_def Let_def rows_of_def stored_as_def none)
qed

lemma append_inbound_Cons: "append_inbound x p ev (m # ms) =
  bnd (append_user (ti_agent_id p) (ti_thread_id p) (m_content m) (m_tag m) (Some (ti_turn_id p)))
    (\<lambda>_. thn (on_user_message x ev (m_content m)) (append_inbound x p ev ms))"
  by (rule ext) (simp add: append_inbound_def thn_def bnd_def split: prod.split sum.split)

lemma ensures_append_inbound:
  assumes x: "context_respects (rows_kept (ti_agent_id p) (ti_thread_id p)) x" and "\<forall>m\<in>set ms. inbound_ok m"
  shows "ensures (append_inbound x p ev ms) w (\<lambda>r v. r = Inr () \<longrightarrow>
    (\<exists>new. rows_of (ti_agent_id p) (ti_thread_id p) v = rows_of (ti_agent_id p) (ti_thread_id p) w @ new
       \<and> list_all2 stored_as ms new))"
  using assms(2)
proof (induction ms arbitrary: w)
  case Nil
  show ?case by (simp add: append_inbound_def ensures_ret)
next
  case (Cons m ms)
  let ?a = "ti_agent_id p" and ?t = "ti_thread_id p"
  let ?Q = "\<lambda>r v. r = Inr () \<longrightarrow> (\<exists>new. rows_of ?a ?t v = rows_of ?a ?t w @ new \<and> list_all2 stored_as (m # ms) new)"
  have "ensures (thn (on_user_message x ev (m_content m)) (append_inbound x p ev ms)) u ?Q"
    if u: "rows_of ?a ?t u = rows_of ?a ?t w @ [m']" "stored_as m m'" for u m'
  proof (rule rk.thn_after [OF rk.events_kept(1) [OF x] rk.step_refl])
    fix v assume "rows_kept ?a ?t u v"
    with u have v: "rows_of ?a ?t v = rows_of ?a ?t w @ [m']" by (simp add: rows_kept_def)
    show "ensures (append_inbound x p ev ms) v ?Q"
      by (rule ensures_mono [OF Cons.IH]) (use Cons.prems u(2) v in auto)
  qed simp
  then have "ensures (append_user ?a ?t (m_content m) (m_tag m) (Some (ti_turn_id p))) w
      (\<lambda>r v. case r of Inl e \<Rightarrow> ?Q (Inl e) v
        | Inr _ \<Rightarrow> ensures (thn (on_user_message x ev (m_content m)) (append_inbound x p ev ms)) v ?Q)"
    using Cons.prems by (intro ensures_mono [OF append_user_inbound]) auto
  then show ?case unfolding append_inbound_Cons ensures_bnd .
qed

lemma ensures_gate_refuses:
  assumes "context_respects (rows_kept a t) x" and "x_turn_gate x = Some gate"
    and "\<And>ts u. fst (gate ts u) = Inr (Some reason)" and "\<not> ti_compacted p" and "\<not> ti_admitted p"
  shows "ensures (gate_turn x p) u (\<lambda>r v. r = Inr (Some reason) \<and> rows_kept a t u v)"
proof -
  have "keeps (rows_kept a t) (gate ts)" for ts using assms(1,2) by (simp add: context_respects_def)
  then show ?thesis using assms by (simp add: gate_turn_def ensures_def keeps_def)
qed

section \<open>Properties\<close>


definition sample_turn :: run_turn_input where
  "sample_turn = \<lparr>ti_agent_id = ''a'', ti_thread_id = ''t'', ti_run_id = ''r'', ti_turn_id = ''u'',
     ti_turn_index = 1, ti_new_messages = [\<lparr>in_content = InText ''go on'', in_source = ''user'',
       in_correlation_id = None, in_tag = None\<rparr>], ti_text_only_turns = 0, ti_context_compaction = None,
     ti_compacted = False, ti_summary = None, ti_admitted = False\<rparr>"

lemma sample_grows: "context_respects transcripts_grow sample_context"
  by (auto simp: context_respects_def sample_context_simps sample_context_def agent_respects_def
      sample_agent_def sample_llm_def tg.keeps_ret tg.keeps_raise ret_def registry_get_def
      tool_respects_def plain_tool_def split: if_splits)


text \<open>C17. Finalizing closes a run before anyone is told. For a run that was cancelled or failed, whatever its
  activities left behind, every one of its tool calls is then finished and answered in its transcript; the
  run's row holds its outcome and reason, the thread is no longer active and has the outcome's status, and
  finished calls and stored messages are untouched. Only from that state on do the completion handler and
  the listeners run.\<close>

theorem finalize_run_closes:
  assumes "wf_dict (w_calls w)" and "calls_keyed w" and "fi_outcome p \<in> {''cancelled'', ''failed''}"
    and "\<forall>r\<in>set (get_by_run (fi_run_id p) w). repairable (x_as_int x) w r"
    and "\<forall>th. dget (w_threads w) (fi_agent_id p, fi_thread_id p) = Some th \<longrightarrow>
           th_agent_id th = fi_agent_id p \<and> th_id th = fi_thread_id p"
  shows "\<exists>v th. finalize_run x p w =
       thn (notify_completion x \<lparr>rc_agent_id = fi_agent_id p, rc_thread_id = fi_thread_id p,
              rc_run_id = fi_run_id p, rc_outcome = fi_outcome p, rc_stop_reason = fi_stop_reason p,
              rc_artifacts = run_artifacts (fi_run_id p) v\<rparr>)
         (on_complete x (new_events th (Some (fi_run_id p)) None None) False
            (or_else (fi_stop_reason p) (fi_outcome p)) []) v
     \<and> store_step w v \<and> w_completions v = w_completions w
     \<and> (\<forall>r\<in>set (get_by_run (fi_run_id p) w). closed_call r v)
     \<and> (\<forall>run. dget (w_runs w) (fi_run_id p) = Some run \<longrightarrow> dget (w_runs v) (fi_run_id p)
          = Some (run\<lparr>run_status := run_status_of (fi_outcome p), run_stop_reason := fi_stop_reason p\<rparr>))
     \<and> dget (w_threads v) (fi_agent_id p, fi_thread_id p) = Some th
     \<and> th_active_run_id th = None \<and> th_status th = thread_status_of (fi_outcome p)"
proof -
  have "distinct (map r_id (sort_by turn_id_le (get_by_run (fi_run_id p) w)))"
    using distinct_call_ids [OF assms(1,2)] by (simp add: distinct_sort_by get_by_run_def)
  from repair_calls_spec [OF _ this, of x w p] assms(4) obtain u where
    u: "for_each (repair_call x p) (sort_by turn_id_le (get_by_run (fi_run_id p) w)) w = (Inr (), u)"
      "store_step w u" "only_projections w u" "\<forall>r\<in>set (get_by_run (fi_run_id p) w). closed_call r u" by auto
  have same: "w_threads u = w_threads w" "w_runs u = w_runs w" "w_completions u = w_completions w"
    using u(3) by (simp_all add: only_projections_def)
  have repair: "repair_run x p w = (Inr (), u)"
    using u(1) assms(3) by (simp add: repair_run_def whenM_def bnd_def getS_def)
  define k where "k = (\<lambda>th. bnd getS (\<lambda>w.
     thn (notify_completion x \<lparr>rc_agent_id = fi_agent_id p, rc_thread_id = fi_thread_id p,
            rc_run_id = fi_run_id p, rc_outcome = fi_outcome p, rc_stop_reason = fi_stop_reason p,
            rc_artifacts = run_artifacts (fi_run_id p) w\<rparr>)
       (on_complete x (new_events th (Some (fi_run_id p)) None None)
          (fi_outcome p = ''completed'') (or_else (fi_stop_reason p) (fi_outcome p)) [])))"
  have key: "th_agent_id th = fi_agent_id p \<and> th_id th = fi_thread_id p"
    if "dget (w_threads u) (fi_agent_id p, fi_thread_id p) = Some th" for th
    using assms(5) that unfolding same by blast
  obtain v th where v: "thn (runs_finish (fi_run_id p) (run_status_of (fi_outcome p)) (fi_stop_reason p))
       (bnd (threads_get_or_create (fi_agent_id p) (fi_thread_id p)) (\<lambda>th0.
        let th = th0\<lparr>th_active_run_id := None, th_status := thread_status_of (fi_outcome p)\<rparr>
        in thn (threads_update th) (k th))) u = k th v"
    and rest: "store_step u v" "w_completions v = w_completions u"
      "\<forall>run. dget (w_runs u) (fi_run_id p) = Some run \<longrightarrow> dget (w_runs v) (fi_run_id p)
          = Some (run\<lparr>run_status := run_status_of (fi_outcome p), run_stop_reason := fi_stop_reason p\<rparr>)"
      "dget (w_threads v) (fi_agent_id p, fi_thread_id p) = Some th" "th_active_run_id th = None"
      "th_status th = thread_status_of (fi_outcome p)"
    using close_rows [OF key] by blast
  have "finalize_run x p w = k th v"
    unfolding finalize_run_def thn_Inr [where m = "repair_run x p" and s = w, OF repair]
    using v unfolding k_def .
  moreover have "fi_outcome p \<noteq> ''completed''" using assms(3) by auto
  moreover have "\<forall>r\<in>set (get_by_run (fi_run_id p) w). closed_call r v"
    using u(4) closed_call_step [OF rest(1)] by blast
  ultimately show ?thesis using rest st.step_trans [OF u(2) rest(1)] same
    by (intro exI [of _ v] exI [of _ th]) (simp add: k_def bnd_def getS_def)
qed

definition sample_failure :: finalize_run_input where
  "sample_failure = \<lparr>fi_agent_id = ''a'', fi_thread_id = ''t'', fi_run_id = ''r'', fi_outcome = ''failed'',
     fi_turn_count = 1, fi_stop_reason = Some ''x''\<rparr>"

theorem finalize_run_closes_witness:
  "\<exists>v. snd (finalize_run sample_context sample_failure sample_world) = v
     \<and> finished ''c1'' v \<and> finished ''c2'' v \<and> answered ''c1'' (rows_of ''a'' ''t'' v)
     \<and> dget (w_calls v) ''c3'' = dget (w_calls sample_world) ''c3''"
proof -
  have wf: "wf_dict (w_calls sample_world)" by (simp add: wf_dict_def sample_world_def)
  have rep: "\<forall>r\<in>set (get_by_run (fi_run_id sample_failure) sample_world).
      repairable (x_as_int sample_context) sample_world r"
    by (simp add: get_by_run_def sample_failure_def sample_world_def sample_call_def repairable_def
        stored_result_def tool_result_content_def tool_result_blocks_def jget_def)
  have th: "\<forall>th. dget (w_threads sample_world) (fi_agent_id sample_failure, fi_thread_id sample_failure) = Some th
      \<longrightarrow> th_agent_id th = fi_agent_id sample_failure \<and> th_id th = fi_thread_id sample_failure"
    by (simp add: sample_world_def new_world_def)
  have out: "fi_outcome sample_failure \<in> {''cancelled'', ''failed''}" by (simp add: sample_failure_def)
  from finalize_run_closes [OF wf sample_world_keyed out rep th] obtain v th where
    v: "finalize_run sample_context sample_failure sample_world =
       thn (notify_completion sample_context \<lparr>rc_agent_id = fi_agent_id sample_failure,
              rc_thread_id = fi_thread_id sample_failure, rc_run_id = fi_run_id sample_failure,
              rc_outcome = fi_outcome sample_failure, rc_stop_reason = fi_stop_reason sample_failure,
              rc_artifacts = run_artifacts (fi_run_id sample_failure) v\<rparr>)
         (on_complete sample_context (new_events th (Some (fi_run_id sample_failure)) None None) False
            (or_else (fi_stop_reason sample_failure) (fi_outcome sample_failure)) []) v"
    and step: "store_step sample_world v"
    and closed: "\<forall>r\<in>set (get_by_run (fi_run_id sample_failure) sample_world). closed_call r v" by blast
  have "snd (finalize_run sample_context sample_failure sample_world) = v"
    unfolding v by (simp add: notify_completion_def sample_context_simps on_complete_def thn_def bnd_def
        sample_silent ret_def)
  moreover have "dget (w_calls v) ''c3'' = dget (w_calls sample_world) ''c3''"
    using store_step_finished [OF step, of "''c3''"] by (simp add: sample_world_def)
  ultimately show ?thesis using closed
    by (simp add: get_by_run_def sample_failure_def sample_world_def sample_call_def closed_call_def)
qed

text \<open>The transcript of a refused turn's thread: the new messages are in it unless the turn measures first.\<close>

definition refused_rows :: "run_turn_input \<Rightarrow> message list \<Rightarrow> world \<Rightarrow> world \<Rightarrow> bool" where
  "refused_rows p ms w v \<longleftrightarrow> (\<exists>new. rows_of (ti_agent_id p) (ti_thread_id p) v
       = rows_of (ti_agent_id p) (ti_thread_id p) w @ new
     \<and> (if turn_measures p then new = [] else list_all2 stored_as ms new))"

definition refused_post ::
  "run_turn_input \<Rightarrow> message list \<Rightarrow> string \<Rightarrow> world \<Rightarrow> py_error + turn_result \<Rightarrow> world \<Rightarrow> bool" where
  "refused_post p ms reason w r v \<longleftrightarrow> (\<forall>res. r = Inr res \<longrightarrow>
     res = (turn_result_of p)\<lparr>tu_stop_reason := Some reason\<rparr> \<and> refused_rows p ms w v)"

lemma refused_post_raise: "refused_post p ms reason w (Inl e) v"
  by (simp add: refused_post_def)

lemma refused_rows_kept:
  "refused_rows p ms w u \<Longrightarrow> rows_kept (ti_agent_id p) (ti_thread_id p) u v \<Longrightarrow> refused_rows p ms w v"
  by (simp add: refused_rows_def rows_kept_def)

lemma loaded_turn_refused:
  assumes x: "context_respects (rows_kept (ti_agent_id p) (ti_thread_id p)) x" and g: "x_turn_gate x = Some gate"
    and refuse: "\<And>ts u. fst (gate ts u) = Inr (Some reason)"
    and p: "\<not> ti_compacted p" "\<not> ti_admitted p" "ti_summary p = None"
    and ms: "inbound_rows (x_as_int x) p stored = Inr ms"
    and u: "rows_kept (ti_agent_id p) (ti_thread_id p) w u"
  shows "ensures (loaded_turn x p stored ag th run) u (refused_post p ms reason w)"
proof -
  let ?gate = "bnd (gate_turn x p) (\<lambda>refused. case refused of
      Some reason \<Rightarrow> ret ((turn_result_of p)\<lparr>tu_stop_reason := Some reason\<rparr>)
    | None \<Rightarrow> send_turn x p ag th run (turn_events p th) (turn_measures p) ms)"
  have gated: "ensures ?gate v (refused_post p ms reason w)" if "refused_rows p ms w v" for v
    unfolding ensures_bnd
    by (rule ensures_mono [OF ensures_gate_refuses [OF x g refuse p(1,2)]])
      (use that in \<open>auto simp: ensures_ret refused_post_def intro: refused_rows_kept\<close>)
  have "ensures (whenM (\<not> turn_measures p) (append_inbound x p (turn_events p th) ms)) u
      (\<lambda>r v. r = Inr () \<longrightarrow> refused_rows p ms w v)"
    unfolding ensures_whenM
    using ensures_append_inbound [OF x inbound_rows_ok [OF ms], of "turn_events p th" u] u
    by (auto simp: rows_kept_def refused_rows_def elim: ensures_mono)
  then have "ensures (thn (whenM (\<not> turn_measures p) (append_inbound x p (turn_events p th) ms)) ?gate) u
      (refused_post p ms reason w)"
    unfolding ensures_thn [where m = "whenM b m" for b m]
    by (rule ensures_mono) (auto split: sum.split intro: gated refused_post_raise)
  then show ?thesis
    by (simp add: loaded_turn_def store_ready_summary_def p(3) ms ensures_def thn_def bnd_def ret_def
        from_res_def readS_def)
qed

lemma first_turn_refused:
  assumes x: "context_respects (rows_kept (ti_agent_id p) (ti_thread_id p)) x" and g: "x_turn_gate x = Some gate"
    and refuse: "\<And>ts u. fst (gate ts u) = Inr (Some reason)"
    and p: "\<not> ti_compacted p" "\<not> ti_admitted p" "ti_summary p = None"
    and ms: "inbound_rows (x_as_int x) p stored = Inr ms"
  shows "ensures (first_turn x p stored) w (refused_post p ms reason w)"
  unfolding first_turn_def
  apply (rule rk.bnd_after [OF rk.agent_kept [OF x] rk.step_refl], rule refused_post_raise)
  apply (erule rk.bnd_after [OF rows_kept_ops(2)], rule refused_post_raise)
  apply (rule rk.bnd_after, simp add: runs_get_def rk.keeps_readS, assumption, rule refused_post_raise)
  apply (erule loaded_turn_refused [OF x g refuse p ms])
  done

text \<open>A turn the gate refuses. The run is told to stop with the gate's reason and no tool call; the
  thread's transcript then ends with the turn's new messages, in order, when the turn does not measure a
  compaction; when it does (the thread compacts), they are not stored: the transcript is unchanged, and as
  the run ends the messages are lost, against what \<open>gate.py\<close> says.\<close>

theorem gate_refusal_and_inbound:
  assumes "context_respects (rows_kept (ti_agent_id p) (ti_thread_id p)) x" and "x_turn_gate x = Some gate"
    and "\<And>ts u. fst (gate ts u) = Inr (Some reason)"
    and "\<not> ti_compacted p" and "\<not> ti_admitted p" and "ti_summary p = None"
    and "inbound_rows (x_as_int x) p [] = Inr ms" and "run_turn x 1 p w = (Inr res, v)"
  shows "tu_stop_reason res = Some reason \<and> tu_tool_calls res = []
     \<and> (ti_context_compaction p = None \<longrightarrow> (\<exists>new. rows_of (ti_agent_id p) (ti_thread_id p) v
          = rows_of (ti_agent_id p) (ti_thread_id p) w @ new \<and> list_all2 stored_as ms new))
     \<and> (ti_context_compaction p \<noteq> None \<longrightarrow>
          rows_of (ti_agent_id p) (ti_thread_id p) v = rows_of (ti_agent_id p) (ti_thread_id p) w)"
proof -
  have "first_turn x p [] w = (Inr res, v)"
    using assms(8) by (auto simp: run_turn_def act_defs Let_def split: prod.splits sum.splits if_splits)
  from ensuresD [OF first_turn_refused [OF assms(1-7)] this]
  show ?thesis using assms(4) by (auto simp: refused_post_def refused_rows_def turn_measures_def turn_result_of_def)
qed

definition gated_context :: activity_context where
  "gated_context = sample_context\<lparr>x_turn_gate := Some (\<lambda>_. ret (Some ''budget''))\<rparr>"

definition compacting_turn :: run_turn_input where
  "compacting_turn = sample_turn\<lparr>ti_context_compaction := Some default_compaction\<rparr>"

definition running_world :: world where
  "running_world = summarized_world\<lparr>w_runs := [(''r'', \<lparr>run_id = ''r'', run_agent_id = ''a'',
     run_thread_id = ''t'', run_status = RunActive, run_turn_count = 0, run_max_turns = 5,
     run_stop_reason = None\<rparr>)]\<rparr>"

theorem gate_refusal_and_inbound_witness:
  "\<exists>res v. run_turn gated_context 1 compacting_turn running_world = (Inr res, v)
     \<and> tu_stop_reason res = Some ''budget''
     \<and> rows_of ''a'' ''t'' v = rows_of ''a'' ''t'' running_world"
proof -
  have x: "context_respects (rows_kept a t) gated_context" for a t
    using sample_rows_kept [of a t] by (simp add: context_respects_def gated_context_def rk.keeps_ret)
  have agent: "context_agent gated_context ''a'' t w = (Inr sample_agent, w)" for t w
    by (simp add: context_agent_def gated_context_def sample_context_simps sample_agent_def act_defs)
  have gate: "x_turn_gate gated_context = Some (\<lambda>_. ret (Some ''budget''))"
    by (simp add: gated_context_def)
  have "\<exists>res v. run_turn gated_context 1 compacting_turn running_world = (Inr res, v)"
    by (simp add: gate run_turn_def first_turn_def loaded_turn_def agent compacting_turn_def sample_turn_def
        store_ready_summary_def inbound_rows_def inbound_row_def turn_measures_def gate_turn_def
        running_world_def threads_get_or_create_def runs_get_def from_res_def act_defs
        Let_def split: option.split)
  then obtain res v where run: "run_turn gated_context 1 compacting_turn running_world = (Inr res, v)" by blast
  have "\<exists>ms. inbound_rows (x_as_int gated_context) compacting_turn [] = Inr ms"
    by (simp add: inbound_rows_def inbound_row_def compacting_turn_def sample_turn_def)
  then obtain ms where "inbound_rows (x_as_int gated_context) compacting_turn [] = Inr ms" by blast
  from gate_refusal_and_inbound [OF x _ _ _ _ _ this run, of "\<lambda>_. ret (Some ''budget'')" "''budget''"]
  show ?thesis using run by (simp add: compacting_turn_def sample_turn_def gated_context_def ret_def)
qed

section \<open>A retried turn and a retried start\<close>

text \<open>A turn whose answer was stored before its worker was lost is not asked for again. The later
  attempt does not call the model, stores no message and changes no tool call: it only counts the turn if
  the lost attempt had not, and hands the workflow the stored calls, in the order the model asked for
  them.\<close>

theorem lost_turn_not_asked_again:
  assumes "n > 1" and agent: "context_agent x (ti_agent_id p) (ti_thread_id p) w = (Inr ag, w)"
    and th: "dget (w_threads w) (ti_agent_id p, ti_thread_id p) = Some th"
    and run: "dget (w_runs w) (ti_run_id p) = Some run"
    and stored: "last_assistant (list_for_turn (ti_agent_id p) (ti_thread_id p) (ti_turn_id p) w) = Some i"
    and calls: "turn_calls p (list_for_turn (ti_agent_id p) (ti_thread_id p) (ti_turn_id p) w ! i) w \<noteq> []"
  shows "\<exists>w'. run_turn x n p w = (Inr ((turn_result_of p)\<lparr>tu_tool_calls :=
         map spec_of (turn_calls p (list_for_turn (ti_agent_id p) (ti_thread_id p) (ti_turn_id p) w ! i) w)\<rparr>), w')
     \<and> w_calls w' = w_calls w \<and> w_messages w' = w_messages w \<and> w_events w' = w_events w
     \<and> (if th_turn_count th < ti_turn_index p
        then w' = w\<lparr>w_threads := dset (th_agent_id th, th_id th) (th\<lparr>th_turn_count := th_turn_count th + 1\<rparr>) (w_threads w),
                    w_runs := dset (run_id run) (run\<lparr>run_turn_count := run_turn_count run + 1,
                                 run_status := RunActive\<rparr>) (w_runs w)\<rparr>
        else w' = w)"
proof -
  let ?s = "list_for_turn (ti_agent_id p) (ti_thread_id p) (ti_turn_id p) w"
  have ex: "list_ex (\<lambda>m. m_role m = ''assistant'') ms" if "last_assistant ms = Some j" for ms j
    using that by (induction ms arbitrary: j) (auto split: option.splits if_splits)
  have same: "turn_calls p m (w\<lparr>w_threads := a, w_runs := b\<rparr>) = turn_calls p m w" for m a b
    by (simp add: turn_calls_def get_by_run_def)
  from calls have ne: "turn_calls p (?s ! i) w \<noteq> []" .
  show ?thesis
    using assms(1) ne
    by (simp add: run_turn_def Let_def ex [OF stored] stored_turn_def agent threads_get_or_create_def
        th run runs_get_def count_turn_def threads_update_def runs_update_def act_defs stored
        close_turn_def same turn_result_of_def)
qed

definition answered_turn :: message where
  "answered_turn = sample_ask\<lparr>m_id := Some ''m1''\<rparr>"

definition lost_world :: world where
  "lost_world = running_world\<lparr>w_messages := [((''a'', ''t''), [answered_turn])], w_turns := [(''m1'', ''u'')],
     w_threads := [((''a'', ''t''), new_thread ''t'' ''a'')],
     w_calls := [(''c1'', sample_call ''c1'')]\<rparr>"

theorem lost_turn_not_asked_again_witness:
  "\<exists>res w'. run_turn sample_context 2 sample_turn lost_world = (Inr res, w')
     \<and> map sp_id (tu_tool_calls res) = [''c1''] \<and> w_messages w' = w_messages lost_world"
proof -
  have s: "list_for_turn (ti_agent_id sample_turn) (ti_thread_id sample_turn) (ti_turn_id sample_turn) lost_world
      = [answered_turn]"
    by (simp add: list_for_turn_def sample_turn_def lost_world_def rows_of_def answered_turn_def)
  have c: "turn_calls sample_turn answered_turn lost_world = [sample_call ''c1'']"
    by (simp add: turn_calls_def answered_turn_def sample_ask_def calls_of_def lost_world_def get_by_run_def
        sample_turn_def sample_call_def map_filter_simps Let_def)
  have la: "last_assistant [answered_turn] = Some 0"
    by (simp add: answered_turn_def sample_ask_def new_message_def)
  have ag: "context_agent sample_context (ti_agent_id sample_turn) (ti_thread_id sample_turn) lost_world
      = (Inr sample_agent, lost_world)"
    by (simp add: sample_turn_def sample_agent_resolved)
  have th: "dget (w_threads lost_world) (ti_agent_id sample_turn, ti_thread_id sample_turn)
      = Some (new_thread ''t'' ''a'')" by (simp add: lost_world_def sample_turn_def)
  have run: "\<exists>run. dget (w_runs lost_world) (ti_run_id sample_turn) = Some run"
    by (simp add: lost_world_def running_world_def sample_turn_def)
  then obtain run where "dget (w_runs lost_world) (ti_run_id sample_turn) = Some run" ..
  from lost_turn_not_asked_again [of 2, OF _ ag th this] obtain w' where
    "run_turn sample_context 2 sample_turn lost_world
       = (Inr ((turn_result_of sample_turn)\<lparr>tu_tool_calls := [spec_of (sample_call ''c1'')]\<rparr>), w')"
    "w_messages w' = w_messages lost_world"
    using la c by (auto simp: s)
  then show ?thesis by (simp add: spec_of_def sample_call_def)
qed

lemma open_thread_again: "open_thread p (open_thread p th) = open_thread p th"
  by (auto simp: open_thread_def)

lemma open_thread_simps [simp]:
  "th_id (open_thread p th) = th_id th" "th_agent_id (open_thread p th) = th_agent_id th"
  "th_turn_count (open_thread p th) = th_turn_count th"
  by (simp_all add: open_thread_def Let_def)

definition thread_row :: "string \<Rightarrow> string \<Rightarrow> world \<Rightarrow> agent_thread" where
  "thread_row a t w = (case dget (w_threads w) (a, t) of Some th \<Rightarrow> th | None \<Rightarrow> new_thread t a)"

definition run_row :: "start_run_input \<Rightarrow> int \<Rightarrow> world \<Rightarrow> agent_run" where
  "run_row p n w = (case dget (w_runs w) (si_run_id p) of Some r \<Rightarrow> r
    | None \<Rightarrow> \<lparr>run_id = si_run_id p, run_agent_id = si_agent_id p, run_thread_id = si_thread_id p,
        run_status = RunActive, run_turn_count = 0, run_max_turns = max 1 n, run_stop_reason = None\<rparr>)"

lemma open_run_eq:
  assumes "th_agent_id (thread_row (si_agent_id p) (si_thread_id p) w) = si_agent_id p"
    and "th_id (thread_row (si_agent_id p) (si_thread_id p) w) = si_thread_id p"
  shows "\<exists>w'. open_run p e n w = (Inr \<lparr>st_turn_count = th_turn_count (thread_row (si_agent_id p) (si_thread_id p) w),
         st_max_turns = run_max_turns (run_row p n w), st_error = e\<rparr>, w')
     \<and> dget (w_threads w') (si_agent_id p, si_thread_id p)
         = Some (open_thread p (thread_row (si_agent_id p) (si_thread_id p) w))
     \<and> dget (w_runs w') (si_run_id p) = Some (run_row p n w)
     \<and> w_calls w' = w_calls w \<and> w_messages w' = w_messages w"
  using assms
  by (cases "dget (w_runs w) (si_run_id p)"; cases "dget (w_threads w) (si_agent_id p, si_thread_id p)")
    (simp_all add: open_run_def thread_row_def run_row_def runs_create_def threads_get_or_create_def
      threads_update_def runs_get_def dsetdefault_def act_defs Let_def)

lemma open_run_again:
  assumes "dget (w_threads w) (si_agent_id p, si_thread_id p) = Some (open_thread p th)"
    and "th_agent_id th = si_agent_id p" and "th_id th = si_thread_id p"
    and "dget (w_runs w) (si_run_id p) = Some run"
  shows "open_run p e n w = (Inr \<lparr>st_turn_count = th_turn_count th, st_max_turns = run_max_turns run,
           st_error = e\<rparr>, w)"
proof -
  have "w\<lparr>w_threads := dset (si_agent_id p, si_thread_id p) (open_thread p th) (w_threads w)\<rparr> = w"
    using assms(1) by (simp add: dset_same)
  with assms show ?thesis
    by (simp add: open_run_def runs_create_def threads_get_or_create_def threads_update_def runs_get_def
        act_defs Let_def open_thread_again)
qed

lemma run_limit_pure:
  assumes "\<And>u. context_agent x (si_agent_id p) (si_thread_id p) u = (r, u)"
  obtains lim where "\<And>u. run_limit x p u = (lim, u)"
    and "\<And>e n. lim = Inr (e, n) \<Longrightarrow> 1 \<le> n \<and> (\<forall>ag. r = Inr ag \<longrightarrow> n = max 1 (ad_max_turns_per_thread ag))"
proof (cases r)
  case (Inr ag)
  with assms show thesis
    by (intro that [of "Inr (None, max 1 (ad_max_turns_per_thread ag))"]) (auto simp: run_limit_def act_defs)
next
  case (Inl e)
  show thesis
  proof (cases "\<exists>m t. e = ApplicationError m t True")
    case True
    with assms Inl show thesis
      by (intro that [of "Inr (Some (err_str e), max 1 (case si_max_turns p of None \<Rightarrow> 1 | Some n \<Rightarrow> if n = 0 then 1 else n))"])
        (auto simp: run_limit_def act_defs)
  next
    case False
    with assms Inl show thesis
      by (intro that [of "Inl e"])
        (auto simp: run_limit_def act_defs split: py_error.splits bool.splits dest: not_exception)
  qed
qed

definition run_turns :: "start_run_input \<Rightarrow> int \<Rightarrow> int" where
  "run_turns p n = (case si_max_turns p of None \<Rightarrow> n | Some k \<Rightarrow> min n (max 1 k))"

lemma start_run_begin:
  "start_run x p w = (Inr s, v) \<Longrightarrow> begin_run x p w = (Inr s, v)
     \<and> (\<forall>u. start_run x p u = begin_run x p u)"
  by (auto simp: start_run_def raise_def split: option.splits if_splits)

lemma begin_run_eq:
  "begin_run x p = bnd (run_limit x p) (\<lambda>(e, n). open_run p e (run_turns p n))"
  by (simp add: begin_run_def run_turns_def)

text \<open>Starting a run is idempotent. When resolving the agent gives the same answer and changes nothing, a
  start that succeeded and is retried finds the run and the thread as the first left them: it returns the
  same and changes nothing. The run is given at least one turn and at most what the caller and the agent
  allow, and the thread is active with this run.\<close>

theorem start_run_idempotent:
  assumes "\<And>u. context_agent x (si_agent_id p) (si_thread_id p) u = (r, u)"
    and "start_run x p w = (Inr s, v)"
    and "\<forall>th. dget (w_threads w) (si_agent_id p, si_thread_id p) = Some th \<longrightarrow>
           th_agent_id th = si_agent_id p \<and> th_id th = si_thread_id p"
  shows "start_run x p v = (Inr s, v)
     \<and> (dget (w_runs w) (si_run_id p) = None \<longrightarrow> 1 \<le> st_max_turns s
          \<and> (\<forall>n. si_max_turns p = Some n \<longrightarrow> st_max_turns s \<le> max 1 n)
          \<and> (\<forall>ag. r = Inr ag \<longrightarrow> st_max_turns s \<le> max 1 (ad_max_turns_per_thread ag)))
     \<and> map_option th_active_run_id (dget (w_threads v) (si_agent_id p, si_thread_id p)) = Some (Some (si_run_id p))
     \<and> map_option th_status (dget (w_threads v) (si_agent_id p, si_thread_id p)) = Some ThreadActive"
proof -
  let ?th = "thread_row (si_agent_id p) (si_thread_id p) w"
  obtain lim where lim: "\<And>u. run_limit x p u = (lim, u)"
    and bound: "\<And>e n. lim = Inr (e, n) \<Longrightarrow> 1 \<le> n \<and> (\<forall>ag. r = Inr ag \<longrightarrow> n = max 1 (ad_max_turns_per_thread ag))"
    using run_limit_pure [OF assms(1)] by blast
  from start_run_begin [OF assms(2)] have begin_w: "begin_run x p w = (Inr s, v)"
    and same: "start_run x p v = begin_run x p v" by blast+
  from begin_w lim obtain e n where e: "lim = Inr (e, n)" "open_run p e (run_turns p n) w = (Inr s, v)"
    by (cases lim) (auto simp: begin_run_eq bnd_def)
  have key: "th_agent_id ?th = si_agent_id p" "th_id ?th = si_thread_id p"
    using assms(3) by (auto simp: thread_row_def new_thread_def split: option.split)
  from open_run_eq [OF key, of e "run_turns p n"] e(2)
  have s: "s = \<lparr>st_turn_count = th_turn_count ?th, st_max_turns = run_max_turns (run_row p (run_turns p n) w), st_error = e\<rparr>"
    and v: "dget (w_threads v) (si_agent_id p, si_thread_id p) = Some (open_thread p ?th)"
      "dget (w_runs v) (si_run_id p) = Some (run_row p (run_turns p n) w)" by auto
  have "begin_run x p v = (Inr s, v)"
    using open_run_again [OF v(1) key v(2), of e "run_turns p n"] lim e(1) s by (simp add: begin_run_eq bnd_def)
  moreover have "1 \<le> st_max_turns s \<and> (\<forall>n. si_max_turns p = Some n \<longrightarrow> st_max_turns s \<le> max 1 n)
      \<and> (\<forall>ag. r = Inr ag \<longrightarrow> st_max_turns s \<le> max 1 (ad_max_turns_per_thread ag))"
    if "dget (w_runs w) (si_run_id p) = None"
    using bound [OF e(1)] that by (auto simp: s run_row_def run_turns_def split: option.split)
  ultimately show ?thesis using same v(1) by (simp add: open_thread_def)
qed

definition sample_start :: start_run_input where
  "sample_start = \<lparr>si_agent_id = ''a'', si_thread_id = ''t'', si_run_id = ''r'', si_max_turns = Some 3,
     si_parent_thread_id = None, si_sandbox_id = None, si_sandbox_access = None, si_summarizer = None\<rparr>"

theorem start_run_idempotent_witness:
  "\<exists>s v. start_run sample_context sample_start new_world = (Inr s, v)
     \<and> start_run sample_context sample_start v = (Inr s, v) \<and> st_max_turns s \<le> 3"
proof -
  have ag: "\<And>u. context_agent sample_context (si_agent_id sample_start) (si_thread_id sample_start) u
      = (Inr sample_agent, u)" by (simp add: sample_start_def sample_agent_resolved)
  have keys: "th_agent_id (thread_row (si_agent_id sample_start) (si_thread_id sample_start) new_world) = si_agent_id sample_start"
    "th_id (thread_row (si_agent_id sample_start) (si_thread_id sample_start) new_world) = si_thread_id sample_start"
    by (simp_all add: thread_row_def new_world_def new_thread_def)
  have lim: "run_limit sample_context sample_start u = (Inr (None, max 1 (ad_max_turns_per_thread sample_agent)), u)" for u
    by (simp add: run_limit_def ag act_defs)
  from open_run_eq [OF keys, of None "run_turns sample_start (max 1 (ad_max_turns_per_thread sample_agent))"]
  have "\<exists>s v. start_run sample_context sample_start new_world = (Inr s, v)"
    by (auto simp: start_run_def sample_start_def [THEN arg_cong [of _ _ si_summarizer]] begin_run_eq bnd_def lim)
  then obtain s v where run: "start_run sample_context sample_start new_world = (Inr s, v)" by blast
  from start_run_idempotent [OF ag this] show ?thesis
    using run by (auto simp: new_world_def sample_start_def)
qed

end
