(* ===== verification/Tool_Group.thy ===== *)
theory Tool_Group
  imports Run_Activities
begin

text \<open>
  The state of \<open>AgentThreadWorkflow\<close> (\<open>actant/runtime/temporal/workflow.py\<close>), its signals and query, and
  the handling of one turn's tool calls: \<open>_run_tool_group\<close> and \<open>_resolve_tool\<close>.

  Temporal is not part of the repository: what it decides is the record \<open>temporal\<close>. It runs the
  activities (one action of the stores each, its retries included), delivers the signals that arrive
  while the workflow awaits, asks for cancellation, and chooses which of several concurrent tasks moves
  on. \<open>wf_clock\<close> counts the awaits, so every choice is a function of the await it is made at, and a
  statement for every \<open>temporal\<close> is a statement about every interleaving.
\<close>

section \<open>Payloads\<close>

datatype run_outcome = RunCompleted | RunExhausted | RunFailed | RunCancelled

fun outcome_str :: "run_outcome \<Rightarrow> string" where
  "outcome_str RunCompleted = ''completed''"
| "outcome_str RunExhausted = ''exhausted''"
| "outcome_str RunFailed = ''failed''"
| "outcome_str RunCancelled = ''cancelled''"

datatype thread_outcome = ThreadStopped | ThreadWasCancelled

fun thread_outcome_str :: "thread_outcome \<Rightarrow> string" where
  "thread_outcome_str ThreadStopped = ''stopped''"
| "thread_outcome_str ThreadWasCancelled = ''cancelled''"

record activity_timeouts =
  to_turn_s :: rat
  to_compact_s :: rat
  to_tool_s :: rat
  to_tool_heartbeat_s :: rat
  to_turn_heartbeat_s :: rat

definition default_timeouts :: activity_timeouts where
  "default_timeouts = \<lparr>to_turn_s = 600, to_compact_s = 600, to_tool_s = 600, to_tool_heartbeat_s = 120,
     to_turn_heartbeat_s = 120\<rparr>"

definition timeouts_post_init :: "activity_timeouts \<Rightarrow> py_error + activity_timeouts" where
  "timeouts_post_init t =
     (if min (min (min (to_turn_s t) (to_compact_s t)) (to_tool_s t))
           (min (to_tool_heartbeat_s t) (to_turn_heartbeat_s t)) \<le> 0
      then Inl (ValueError ''activity timeouts must be positive'') else Inr t)"

record thread_input =
  tp_agent_id :: string
  tp_thread_id :: string
  tp_max_turns_per_run :: "int option"
  tp_parent_thread_id :: "string option"
  tp_resolution_timeout :: int
  tp_carry_inbox :: "inbound_message list"
  tp_history_size_threshold :: int
  tp_turn_count_total :: int
  tp_interleave_inbox :: bool
  tp_context_compaction :: "compaction_config option"
  tp_activity_timeouts :: activity_timeouts
  tp_sandbox_id :: "string option"
  tp_sandbox_access :: "sandbox_access option"
  tp_context :: json_obj

definition new_thread_input :: "string \<Rightarrow> string \<Rightarrow> thread_input" where
  "new_thread_input a t = \<lparr>tp_agent_id = a, tp_thread_id = t, tp_max_turns_per_run = None,
     tp_parent_thread_id = None, tp_resolution_timeout = 7 * 24 * 60 * 60, tp_carry_inbox = [],
     tp_history_size_threshold = 5000, tp_turn_count_total = 0, tp_interleave_inbox = False,
     tp_context_compaction = None, tp_activity_timeouts = default_timeouts, tp_sandbox_id = None,
     tp_sandbox_access = None, tp_context = []\<rparr>"

record summary_job =
  sj_compact :: compact_context_input
  sj_compact_s :: rat

record thread_state_view =
  sv_agent_id :: string
  sv_thread_id :: string
  sv_inbox_size :: "int option"
  sv_turn_count_total :: int
  sv_current_run_id :: "string option"
  sv_cancelled :: bool

section \<open>The workflow's state\<close>

text \<open>\<open>wf_summary_job\<close> is the id of the child workflow whose handle the code keeps; \<open>wf_world\<close> is what the
  activities act on.\<close>

record thread_workflow =
  wf_inbox :: "inbound_message list"
  wf_cancelled :: bool
  wf_turn_count_total :: int
  wf_current_run_id :: "string option"
  wf_tool_resolutions :: "(string \<times> deferred_resolution) list"
  wf_resolving :: "string set"
  wf_resolved :: "string set"
  wf_agent_id :: string
  wf_thread_id :: string
  wf_stop_reason :: "string option"
  wf_summary_job :: "string option"
  wf_summary_ready :: "context_summary option"
  wf_last_run_id :: string
  wf_world :: world
  wf_clock :: nat

definition new_workflow :: "world \<Rightarrow> thread_workflow" where
  "new_workflow w = \<lparr>wf_inbox = [], wf_cancelled = False, wf_turn_count_total = 0, wf_current_run_id = None,
     wf_tool_resolutions = [], wf_resolving = {}, wf_resolved = {}, wf_agent_id = [], wf_thread_id = [],
     wf_stop_reason = None, wf_summary_job = None, wf_summary_ready = None, wf_last_run_id = [],
     wf_world = w, wf_clock = 0\<rparr>"

subsection \<open>Signals and the query\<close>

datatype signal =
    Inbound inbound_message
  | Cancel
  | ResolveTool deferred_resolution
  | SummaryReady context_summary

definition resolve_signal :: "deferred_resolution \<Rightarrow> thread_workflow \<Rightarrow> thread_workflow" where
  "resolve_signal r s =
     (let i = dr_tool_call_id r in
      if i \<in> wf_resolving s \<or> i \<in> wf_resolved s then s
      else s\<lparr>wf_tool_resolutions := dsetdefault i r (wf_tool_resolutions s)\<rparr>)"

fun deliver :: "signal \<Rightarrow> thread_workflow \<Rightarrow> thread_workflow" where
  "deliver (Inbound m) s = s\<lparr>wf_inbox := wf_inbox s @ [m]\<rparr>"
| "deliver Cancel s = s\<lparr>wf_cancelled := True\<rparr>"
| "deliver (ResolveTool r) s = resolve_signal r s"
| "deliver (SummaryReady c) s = s\<lparr>wf_summary_ready := Some c, wf_summary_job := None\<rparr>"

definition get_state :: "thread_workflow \<Rightarrow> thread_state_view" where
  "get_state s = \<lparr>sv_agent_id = wf_agent_id s, sv_thread_id = wf_thread_id s,
     sv_inbox_size = Some (int (length (wf_inbox s))), sv_turn_count_total = wf_turn_count_total s,
     sv_current_run_id = wf_current_run_id s, sv_cancelled = wf_cancelled s\<rparr>"

section \<open>What Temporal decides\<close>

record temporal =
  tm_signals :: "nat \<Rightarrow> signal list"
  tm_stops :: "nat \<Rightarrow> bool"
  tm_choice :: "nat \<Rightarrow> nat"
  tm_uuid :: "nat \<Rightarrow> string"
  tm_history_length :: "nat \<Rightarrow> int"
  tm_workflow_id :: string
  tm_start_run :: "start_run_input \<Rightarrow> (world, started_run) act"
  tm_run_turn :: "run_turn_input \<Rightarrow> (world, turn_result) act"
  tm_compact_context :: "compact_context_input \<Rightarrow> (world, compaction_outcome) act"
  tm_summarize_context :: "compact_context_input \<Rightarrow> (world, context_summary) act"
  tm_store_summary :: "store_summary_input \<Rightarrow> (world, unit) act"
  tm_finalize_run :: "finalize_run_input \<Rightarrow> (world, unit) act"
  tm_admit_tool :: "admit_input \<Rightarrow> (world, admit_outcome) act"
  tm_execute_tool :: "execute_input \<Rightarrow> (world, execute_outcome) act"
  tm_resolve_tool :: "resolve_tool_input \<Rightarrow> (world, execute_outcome) act"
  tm_finalize_group :: "string \<Rightarrow> (world, unit) act"
  tm_apply_cancellation :: "string \<Rightarrow> string \<Rightarrow> (world, unit) act"
  tm_start_child :: "summary_job \<Rightarrow> string \<Rightarrow> (world, unit) act"
  tm_await_child :: "string \<Rightarrow> (world, context_summary) act"
  tm_signal_thread :: "context_summary \<Rightarrow> (world, unit) act"

text \<open>The signals that arrived while the workflow was suspended run before it continues.\<close>

definition tick :: "temporal \<Rightarrow> thread_workflow \<Rightarrow> thread_workflow" where
  "tick T s = (let t = fold deliver (tm_signals T (wf_clock s)) s in t\<lparr>wf_clock := Suc (wf_clock s)\<rparr>)"

text \<open>\<open>await workflow.execute_activity_method(...)\<close>.\<close>

definition await_activity :: "temporal \<Rightarrow> (world, 'a) act \<Rightarrow> (thread_workflow, 'a) act" where
  "await_activity T m s = (let (r, w) = m (wf_world s) in (r, tick T (s\<lparr>wf_world := w\<rparr>)))"

definition is_activity_error :: "py_error \<Rightarrow> bool" where
  "is_activity_error e \<longleftrightarrow> (case e of ActivityError _ _ \<Rightarrow> True | _ \<Rightarrow> False)"

text \<open>\<open>str(error.__cause__ or error)\<close>.\<close>

definition cause_str :: "py_error \<Rightarrow> string" where
  "cause_str e = (case e of ActivityError _ (Some c) \<Rightarrow> err_str c | _ \<Rightarrow> err_str e)"

section \<open>The tool calls of a turn\<close>

definition drop_nth :: "nat \<Rightarrow> 'a list \<Rightarrow> 'a list" where
  "drop_nth i xs = take i xs @ drop (Suc i) xs"

lemma length_drop_nth [simp]: "i < length xs \<Longrightarrow> length (drop_nth i xs) = length xs - 1"
  by (simp add: drop_nth_def)

text \<open>Admission: every call is classified; the outcomes are collected in the order they come, and the last
  error is raised only when all have ended.\<close>

function admit_all ::
  "temporal \<Rightarrow> thread_input \<Rightarrow> string \<Rightarrow> tool_call_spec list \<Rightarrow> (string \<times> admit_outcome) list
     \<Rightarrow> py_error option \<Rightarrow> (thread_workflow, (string \<times> admit_outcome) list) act" where
  "admit_all T p rid pending admits err s =
     (if pending = [] then (case err of None \<Rightarrow> Inr admits | Some e \<Rightarrow> Inl e, s)
      else if tm_stops T (wf_clock s) then (Inl CancelledError, s)
      else let i = tm_choice T (wf_clock s) mod length pending in
        (case await_activity T (tm_admit_tool T \<lparr>ai_agent_id = tp_agent_id p, ai_thread_id = tp_thread_id p,
                 ai_run_id = rid, ai_tool_call_id = sp_id (pending ! i)\<rparr>) s of
           (Inr ou, s') \<Rightarrow>
             admit_all T p rid (drop_nth i pending) (dset (ao_tool_call_id ou) ou admits) err s'
         | (Inl e, s') \<Rightarrow>
             (if is_activity_error e then admit_all T p rid (drop_nth i pending) admits (Some e) s'
              else (Inl e, s'))))"
  by pat_completeness auto

termination
  by (relation "measure (\<lambda>(_, _, _, pending, _, _, _). length pending)") auto

text \<open>A call that was admitted is a task: a running execution, a wait for a person, or the activity that
  stores what the person answered (\<open>None\<close>: the wait expired).\<close>

datatype task_phase = Executing | AwaitingHuman | Resolving "deferred_resolution option"

datatype task_step = Moves task_phase | Returns execute_outcome | Fails py_error

fun phase_weight :: "task_phase \<Rightarrow> nat" where
  "phase_weight Executing = 1"
| "phase_weight AwaitingHuman = 2"
| "phase_weight (Resolving r) = 1"

definition task_weight :: "(string \<times> task_phase) list \<Rightarrow> nat" where
  "task_weight ts = sum_list (map (phase_weight \<circ> snd) ts)"

fun start_tasks ::
  "(string \<times> admit_outcome) list \<Rightarrow> tool_call_spec list \<Rightarrow> py_error + (string \<times> task_phase) list" where
  "start_tasks admits [] = Inr []"
| "start_tasks admits (sp # sps) =
     (case dget admits (sp_id sp) of
        None \<Rightarrow> Inl (KeyError (sp_id sp))
      | Some ou \<Rightarrow> try_bind (start_tasks admits sps) (\<lambda>ts.
          Inr (case ao_decision ou of
                 AdmitExecute \<Rightarrow> (sp_id sp, Executing) # ts
               | AdmitAwaitHuman \<Rightarrow> (sp_id sp, AwaitingHuman) # ts
               | AdmitDeny \<Rightarrow> ts)))"

text \<open>\<open>_resolve_tool\<close> in two moves: the end of the wait (cancelled, resolved, or expired when the task is
  moved on with neither), and the activity. Only a resolution that arrived is put among those being
  resolved.\<close>

definition end_wait :: "string \<Rightarrow> thread_workflow \<Rightarrow> task_step \<times> thread_workflow" where
  "end_wait i s =
     (if wf_cancelled s
      then (Returns \<lparr>eo_tool_call_id = i, eo_status = ExecFailed, eo_terminal = False\<rparr>, s)
      else case dget (wf_tool_resolutions s) i of
        Some r \<Rightarrow> (Moves (Resolving (Some r)),
          s\<lparr>wf_tool_resolutions := AList.delete i (wf_tool_resolutions s), wf_resolving := insert i (wf_resolving s)\<rparr>)
      | None \<Rightarrow> (Moves (Resolving None), s))"

definition ended :: "(py_error + execute_outcome) \<times> thread_workflow \<Rightarrow> task_step \<times> thread_workflow" where
  "ended rs = (case rs of (Inr ou, s) \<Rightarrow> (Returns ou, s) | (Inl e, s) \<Rightarrow> (Fails e, s))"

definition mark_resolved :: "string \<Rightarrow> (thread_workflow, unit) act" where
  "mark_resolved i = modifyS (\<lambda>s. s\<lparr>wf_resolving := wf_resolving s - {i}, wf_resolved := insert i (wf_resolved s)\<rparr>)"

fun advance ::
  "temporal \<Rightarrow> thread_input \<Rightarrow> string \<Rightarrow> string \<Rightarrow> task_phase \<Rightarrow> thread_workflow \<Rightarrow> task_step \<times> thread_workflow" where
  "advance T p rid i Executing s = ended (await_activity T (tm_execute_tool T
      \<lparr>ei_agent_id = tp_agent_id p, ei_thread_id = tp_thread_id p, ei_run_id = rid, ei_tool_call_id = i,
       ei_context = tp_context p\<rparr>) s)"
| "advance T p rid i AwaitingHuman s = end_wait i (tick T s)"
| "advance T p rid i (Resolving r) s = ended (bnd (await_activity T (tm_resolve_tool T
      \<lparr>ri_agent_id = tp_agent_id p, ri_thread_id = tp_thread_id p, ri_run_id = rid, ri_tool_call_id = i,
       ri_resolution = r\<rparr>)) (\<lambda>ou. thn (mark_resolved i) (ret ou)) s)"

lemma advance_weight:
  "advance T p rid i ph s = (Moves ph', s') \<Longrightarrow> phase_weight ph' < phase_weight ph"
  by (cases ph) (auto simp: ended_def end_wait_def split: prod.splits sum.splits if_splits option.splits)

lemma task_weight_drop: "i < length ts \<Longrightarrow> task_weight (drop_nth i ts) < task_weight ts"
proof -
  assume i: "i < length ts"
  have "ts = take i ts @ ts ! i # drop (Suc i) ts" using i by (rule id_take_nth_drop)
  then have "task_weight ts = task_weight (take i ts) + phase_weight (snd (ts ! i)) + task_weight (drop (Suc i) ts)"
    unfolding task_weight_def by (metis (no_types, lifting) add.assoc comp_apply list.map(2) map_append sum_list.Cons sum_list_append)
  moreover have "0 < phase_weight ph" for ph by (cases ph) auto
  ultimately show ?thesis by (simp add: drop_nth_def task_weight_def)
qed

lemma task_weight_update:
  assumes "i < length ts" and "phase_weight ph < phase_weight (snd (ts ! i))"
  shows "task_weight (ts[i := (j, ph)]) < task_weight ts"
proof -
  have "ts = take i ts @ ts ! i # drop (Suc i) ts" using assms(1) by (rule id_take_nth_drop)
  then have "task_weight ts = task_weight (take i ts) + phase_weight (snd (ts ! i)) + task_weight (drop (Suc i) ts)"
    unfolding task_weight_def by (metis (no_types, lifting) add.assoc comp_apply list.map(2) map_append sum_list.Cons sum_list_append)
  moreover from assms(1) have "ts[i := (j, ph)] = take i ts @ (j, ph) # drop (Suc i) ts"
    by (rule upd_conv_take_nth_drop)
  ultimately show ?thesis using assms(2) by (simp add: task_weight_def)
qed

text \<open>The barrier: the tasks end one by one, in any order; an error is kept until every sibling has ended.\<close>

function drain_tasks ::
  "temporal \<Rightarrow> thread_input \<Rightarrow> string \<Rightarrow> (string \<times> task_phase) list \<Rightarrow> bool \<Rightarrow> py_error option
     \<Rightarrow> (thread_workflow, bool) act" where
  "drain_tasks T p rid tasks terminal err s =
     (if tasks = [] then (case err of None \<Rightarrow> Inr terminal | Some e \<Rightarrow> Inl e, s)
      else if tm_stops T (wf_clock s) then (Inl CancelledError, s)
      else let i = tm_choice T (wf_clock s) mod length tasks in
        (case advance T p rid (fst (tasks ! i)) (snd (tasks ! i)) s of
           (Moves ph, s') \<Rightarrow> drain_tasks T p rid (tasks[i := (fst (tasks ! i), ph)]) terminal err s'
         | (Returns ou, s') \<Rightarrow> drain_tasks T p rid (drop_nth i tasks) (terminal \<or> eo_terminal ou) err s'
         | (Fails e, s') \<Rightarrow>
             (if is_activity_error e then drain_tasks T p rid (drop_nth i tasks) terminal (Some e) s'
              else (Inl e, s'))))"
  by pat_completeness auto

termination
proof (relation "measure (\<lambda>(_, _, _, tasks, _, _, _). task_weight tasks)", goal_cases)
  case (2 T p rid tasks terminal err s i ts s' ph)
  then have "i < length tasks" by (cases tasks) auto
  with 2 show ?case by (auto intro!: task_weight_update dest!: advance_weight [OF sym])
qed (auto intro!: task_weight_drop)

definition run_tool_group ::
  "temporal \<Rightarrow> thread_input \<Rightarrow> turn_result \<Rightarrow> (thread_workflow, bool) act" where
  "run_tool_group T p turn =
     (case tu_tool_calls turn of
        [] \<Rightarrow> raise IndexError
      | sp # _ \<Rightarrow>
          bnd (admit_all T p (sp_run_id sp) (tu_tool_calls turn) [] None) (\<lambda>admits.
          bnd (from_res (start_tasks admits (tu_tool_calls turn))) (\<lambda>tasks.
          bnd (drain_tasks T p (sp_run_id sp) tasks False None) (\<lambda>terminal.
          bnd getS (\<lambda>s.
          if wf_cancelled s then ret terminal
          else thn (await_activity T (tm_finalize_group T (sp_group_id sp))) (ret terminal))))))"

section \<open>The tool barrier\<close>

text \<open>What the workflow relies on when it runs the tool activities: whatever happens meanwhile is a step
  \<open>R\<close>; an admission tells the truth about its call, and an execution or a resolution that reports an
  outcome has settled its call.\<close>

definition tools_settle ::
  "(world \<Rightarrow> world \<Rightarrow> bool) \<Rightarrow> (string \<Rightarrow> world \<Rightarrow> bool) \<Rightarrow> (string \<Rightarrow> world \<Rightarrow> bool)
     \<Rightarrow> (string \<Rightarrow> world \<Rightarrow> bool) \<Rightarrow> temporal \<Rightarrow> bool" where
  "tools_settle R good waited settled T \<longleftrightarrow>
     (\<forall>q w. keeps R (tm_admit_tool T q) \<and> (\<forall>ou w'. good (ai_tool_call_id q) w \<longrightarrow> tm_admit_tool T q w = (Inr ou, w') \<longrightarrow>
        ao_tool_call_id ou = ai_tool_call_id q
        \<and> (ao_decision ou = AdmitDeny \<longrightarrow> settled (ai_tool_call_id q) w')
        \<and> (ao_decision ou = AdmitAwaitHuman \<longrightarrow> waited (ai_tool_call_id q) w')))
     \<and> (\<forall>q w. keeps R (tm_execute_tool T q) \<and> (\<forall>ou w'. good (ei_tool_call_id q) w \<longrightarrow>
        tm_execute_tool T q w = (Inr ou, w') \<longrightarrow> settled (ei_tool_call_id q) w'))
     \<and> (\<forall>q w. keeps R (tm_resolve_tool T q) \<and> (\<forall>ou w'. good (ri_tool_call_id q) w \<longrightarrow> waited (ri_tool_call_id q) w \<longrightarrow>
        tm_resolve_tool T q w = (Inr ou, w') \<longrightarrow> settled (ri_tool_call_id q) w'))"

text \<open>The signals change the workflow and not the stores, and a cancellation is not taken back.\<close>

lemma deliver_world [simp]: "wf_world (deliver g s) = wf_world s"
  by (cases g) (simp_all add: resolve_signal_def Let_def)

lemma deliver_cancelled: "wf_cancelled s \<Longrightarrow> wf_cancelled (deliver g s)"
  by (cases g) (simp_all add: resolve_signal_def Let_def)

lemma delivered_world [simp]: "wf_world (fold deliver gs s) = wf_world s"
  by (induction gs arbitrary: s) simp_all

lemma delivered_cancelled: "wf_cancelled s \<Longrightarrow> wf_cancelled (fold deliver gs s)"
  by (induction gs arbitrary: s) (simp_all add: deliver_cancelled)

lemma tick_simps [simp]: "wf_world (tick T s) = wf_world s" "wf_clock (tick T s) = Suc (wf_clock s)"
  by (simp_all add: tick_def Let_def)

lemma tick_cancelled: "wf_cancelled s \<Longrightarrow> wf_cancelled (tick T s)"
  by (simp add: tick_def Let_def delivered_cancelled)

text \<open>What a workflow step does to the stores is a step \<open>R\<close>, and it does not take back a cancellation.\<close>

definition group_step :: "(world \<Rightarrow> world \<Rightarrow> bool) \<Rightarrow> thread_workflow \<Rightarrow> thread_workflow \<Rightarrow> bool" where
  "group_step R s s' \<longleftrightarrow> R (wf_world s) (wf_world s') \<and> (wf_cancelled s \<longrightarrow> wf_cancelled s')"

lemma await_activity_eq:
  "await_activity T m s = (r, s') \<longleftrightarrow>
     (\<exists>w. m (wf_world s) = (r, w) \<and> s' = tick T (s\<lparr>wf_world := w\<rparr>))"
  by (auto simp: await_activity_def split: prod.split)

lemma in_drop_nth: "x \<in> set (drop_nth i xs) \<Longrightarrow> x \<in> set xs"
  by (auto simp: drop_nth_def dest: in_set_takeD in_set_dropD)

lemma in_drop_nth_or: "i < length xs \<Longrightarrow> x \<in> set xs \<Longrightarrow> x = xs ! i \<or> x \<in> set (drop_nth i xs)"
  unfolding drop_nth_def by (subst (asm) id_take_nth_drop [of i xs]) auto

declare admit_all.simps [simp del] drain_tasks.simps [simp del]

text \<open>Every admitted outcome is true of its call.\<close>

definition admitted_ok ::
  "(string \<Rightarrow> world \<Rightarrow> bool) \<Rightarrow> (string \<Rightarrow> world \<Rightarrow> bool) \<Rightarrow> (string \<times> admit_outcome) list \<Rightarrow> world \<Rightarrow> bool" where
  "admitted_ok waited settled admits w \<longleftrightarrow> (\<forall>i ou. dget admits i = Some ou \<longrightarrow>
     (ao_decision ou = AdmitDeny \<longrightarrow> settled i w) \<and> (ao_decision ou = AdmitAwaitHuman \<longrightarrow> waited i w))"

locale tool_contract = step_contract R for R :: "world \<Rightarrow> world \<Rightarrow> bool" +
  fixes good waited settled :: "string \<Rightarrow> world \<Rightarrow> bool"
  assumes good_step: "R w w' \<Longrightarrow> good i w \<Longrightarrow> good i w'"
    and waited_step: "R w w' \<Longrightarrow> waited i w \<Longrightarrow> waited i w'"
    and settled_step: "R w w' \<Longrightarrow> settled i w \<Longrightarrow> settled i w'"
begin

lemma group_refl: "group_step R s s"
  by (simp add: group_step_def step_refl)

lemma group_trans: "group_step R s t \<Longrightarrow> group_step R t u \<Longrightarrow> group_step R s u"
  by (auto simp: group_step_def intro: step_trans)

lemma await_step: "keeps R m \<Longrightarrow> await_activity T m s = (r, s') \<Longrightarrow> group_step R s s'"
  by (auto simp: await_activity_eq group_step_def tick_cancelled dest: keepsD [of R m "wf_world s"])

lemma admitted_ok_step:
  "R w w' \<Longrightarrow> admitted_ok waited settled admits w \<Longrightarrow> admitted_ok waited settled admits w'"
  unfolding admitted_ok_def using settled_step waited_step by blast

lemma admit_all_ok:
  assumes "tools_settle R good waited settled T"
  shows "admit_all T p rid pending admits err s = (r, s') \<Longrightarrow> (\<forall>sp \<in> set pending. good (sp_id sp) (wf_world s)) \<Longrightarrow>
     admitted_ok waited settled admits (wf_world s) \<Longrightarrow>
     group_step R s s' \<and> (\<forall>a. r = Inr a \<longrightarrow> err = None \<and> admitted_ok waited settled a (wf_world s'))"
  using assms
proof (induction T p rid pending admits err s rule: admit_all.induct)
  case (1 T p rid pending admits err s)
  let ?i = "tm_choice T (wf_clock s) mod length pending"
  let ?q = "\<lparr>ai_agent_id = tp_agent_id p, ai_thread_id = tp_thread_id p, ai_run_id = rid,
    ai_tool_call_id = sp_id (pending ! ?i)\<rparr>"
  show ?case
  proof (cases "pending = [] \<or> tm_stops T (wf_clock s)")
    case True
    with 1(3,5) show ?thesis
      by (auto simp: admit_all.simps [of T p rid pending] group_refl split: option.splits if_splits)
  next
    case False
    then have i: "?i < length pending" by simp
    obtain r1 s1 where run: "await_activity T (tm_admit_tool T ?q) s = (r1, s1)" by fastforce
    then obtain w where w: "tm_admit_tool T ?q (wf_world s) = (r1, w)" "wf_world s1 = w"
      by (auto simp: await_activity_eq)
    from 1(6) have "keeps R (tm_admit_tool T ?q)" by (simp add: tools_settle_def)
    from await_step [OF this run] have st: "group_step R s s1" .
    then have R1: "R (wf_world s) (wf_world s1)" by (simp add: group_step_def)
    from 1(4) R1 have good: "\<forall>sp \<in> set (drop_nth ?i pending). good (sp_id sp) (wf_world s1)"
      by (auto intro: good_step dest: in_drop_nth)
    from admitted_ok_step [OF R1 1(5)] have ok: "admitted_ok waited settled admits (wf_world s1)" .
    show ?thesis
    proof (cases r1)
      case (Inr ou)
      have gi: "good (ai_tool_call_id ?q) (wf_world s)" using 1(4) i by simp
      have "ao_tool_call_id ou = ai_tool_call_id ?q
          \<and> (ao_decision ou = AdmitDeny \<longrightarrow> settled (ai_tool_call_id ?q) w)
          \<and> (ao_decision ou = AdmitAwaitHuman \<longrightarrow> waited (ai_tool_call_id ?q) w)"
        using 1(6) gi w(1) unfolding Inr tools_settle_def by blast
      with ok w(2) have "admitted_ok waited settled (dset (ao_tool_call_id ou) ou admits) (wf_world s1)"
        by (auto simp: admitted_ok_def)
      with 1(2) [OF _ _ refl run [symmetric] Inr _ good _ 1(6)] 1(3) False run Inr st
      show ?thesis
        by (auto simp: admit_all.simps [of T p rid pending] Let_def intro: group_trans)
    next
      case (Inl e)
      with 1(1) [OF _ _ refl run [symmetric] Inl _ _ good ok 1(6)] 1(3) False run st
      show ?thesis
        by (auto simp: admit_all.simps [of T p rid pending] Let_def intro: group_trans split: if_splits)
    qed
  qed
qed

lemma start_tasks_ok:
  "start_tasks admits sps = Inr ts \<Longrightarrow> admitted_ok waited settled admits w \<Longrightarrow>
     (\<forall>sp \<in> set sps. settled (sp_id sp) w \<or> (\<exists>ph. (sp_id sp, ph) \<in> set ts))
     \<and> (\<forall>(i, ph) \<in> set ts. i \<in> sp_id ` set sps \<and> (ph \<noteq> Executing \<longrightarrow> waited i w))"
proof (induction sps arbitrary: ts)
  case (Cons sp sps)
  from Cons.prems(1) obtain ou ts' where ou: "dget admits (sp_id sp) = Some ou" "start_tasks admits sps = Inr ts'"
    "ts = (case ao_decision ou of AdmitExecute \<Rightarrow> (sp_id sp, Executing) # ts'
       | AdmitAwaitHuman \<Rightarrow> (sp_id sp, AwaitingHuman) # ts' | AdmitDeny \<Rightarrow> ts')"
    by (auto simp: try_bind_def split: option.splits sum.splits)
  from Cons.IH [OF ou(2) Cons.prems(2)] Cons.prems(2) ou(1,3) show ?case
    by (cases "ao_decision ou") (fastforce simp: admitted_ok_def)+
qed simp

lemma advance_ok:
  assumes T: "tools_settle R good waited settled T"
    and run: "advance T p rid i ph s = (st, s')"
    and i: "good i (wf_world s)" "ph \<noteq> Executing \<longrightarrow> waited i (wf_world s)"
  shows "group_step R s s'
     \<and> (\<forall>ou. st = Returns ou \<longrightarrow> settled i (wf_world s') \<or> (ph \<noteq> Executing \<and> wf_cancelled s'))
     \<and> (\<forall>ph'. st = Moves ph' \<longrightarrow> ph \<noteq> Executing \<and> ph' \<noteq> Executing)"
proof (cases ph)
  case Executing
  let ?q = "\<lparr>ei_agent_id = tp_agent_id p, ei_thread_id = tp_thread_id p, ei_run_id = rid, ei_tool_call_id = i,
    ei_context = tp_context p\<rparr>"
  obtain r1 s1 where a: "await_activity T (tm_execute_tool T ?q) s = (r1, s1)" by fastforce
  from T have "keeps R (tm_execute_tool T ?q)" by (simp add: tools_settle_def)
  from await_step [OF this a] have "group_step R s s1" .
  moreover have "settled i (wf_world s1)" if "r1 = Inr ou" for ou
  proof -
    from a that obtain w where w: "tm_execute_tool T ?q (wf_world s) = (Inr ou, w)" "wf_world s1 = w"
      by (auto simp: await_activity_eq)
    from i(1) have "good (ei_tool_call_id ?q) (wf_world s)" by simp
    with T w(1) have "settled (ei_tool_call_id ?q) w" unfolding tools_settle_def by blast
    with w(2) show ?thesis by simp
  qed
  ultimately show ?thesis using run a Executing by (auto simp: ended_def split: sum.splits)
next
  case AwaitingHuman
  have "group_step R s s'" and "st \<noteq> Moves Executing"
    and "\<forall>ou. st = Returns ou \<longrightarrow> wf_cancelled s'"
    using run AwaitingHuman
    by (auto simp: end_wait_def group_step_def tick_cancelled step_refl split: if_splits option.splits)
  with AwaitingHuman show ?thesis by blast
next
  case (Resolving rs)
  let ?q = "\<lparr>ri_agent_id = tp_agent_id p, ri_thread_id = tp_thread_id p, ri_run_id = rid, ri_tool_call_id = i,
    ri_resolution = rs\<rparr>"
  obtain r1 s1 where a: "await_activity T (tm_resolve_tool T ?q) s = (r1, s1)" by fastforce
  from T have "keeps R (tm_resolve_tool T ?q)" by (simp add: tools_settle_def)
  from await_step [OF this a] have st1: "group_step R s s1" .
  have "settled i (wf_world s1)" if "r1 = Inr ou" for ou
  proof -
    from a that obtain w where w: "tm_resolve_tool T ?q (wf_world s) = (Inr ou, w)" "wf_world s1 = w"
      by (auto simp: await_activity_eq)
    from i Resolving have "good (ri_tool_call_id ?q) (wf_world s)" "waited (ri_tool_call_id ?q) (wf_world s)"
      by simp_all
    with T w(1) have "settled (ri_tool_call_id ?q) w" unfolding tools_settle_def by blast
    with w(2) show ?thesis by simp
  qed
  with st1 show ?thesis using run a Resolving
    by (cases r1) (auto simp: ended_def bnd_def thn_def mark_resolved_def modifyS_def ret_def group_step_def)
qed

lemma drain_ok:
  assumes "tools_settle R good waited settled T"
  shows "drain_tasks T p rid tasks terminal err s = (r, s') \<Longrightarrow>
     (\<forall>(i, ph) \<in> set tasks. good i (wf_world s) \<and> (ph \<noteq> Executing \<longrightarrow> waited i (wf_world s))) \<Longrightarrow>
     group_step R s s' \<and> (\<forall>b. r = Inr b \<longrightarrow> err = None
       \<and> (\<forall>(i, ph) \<in> set tasks. settled i (wf_world s') \<or> (ph \<noteq> Executing \<and> wf_cancelled s')))"
  using assms
proof (induction T p rid tasks terminal err s rule: drain_tasks.induct)
  case (1 T p rid tasks terminal err s)
  let ?i = "tm_choice T (wf_clock s) mod length tasks"
  let ?id = "fst (tasks ! ?i)" and ?ph = "snd (tasks ! ?i)"
  show ?case
  proof (cases "tasks = [] \<or> tm_stops T (wf_clock s)")
    case True
    with 1(4) show ?thesis
      by (auto simp: drain_tasks.simps [of T p rid tasks] group_refl split: option.splits if_splits)
  next
    case False
    then have i: "?i < length tasks" by simp
    then have mem: "(?id, ?ph) \<in> set tasks" by simp
    obtain st s1 where run: "advance T p rid ?id ?ph s = (st, s1)" by fastforce
    from 1(5) mem have pre: "good ?id (wf_world s)" "?ph \<noteq> Executing \<longrightarrow> waited ?id (wf_world s)" by blast+
    from advance_ok [OF 1(6) run pre] have st1: "group_step R s s1"
      and ret: "\<And>ou. st = Returns ou \<Longrightarrow> settled ?id (wf_world s1) \<or> (?ph \<noteq> Executing \<and> wf_cancelled s1)"
      and mov: "\<And>ph'. st = Moves ph' \<Longrightarrow> ?ph \<noteq> Executing \<and> ph' \<noteq> Executing" by blast+
    from st1 have R1: "R (wf_world s) (wf_world s1)" by (simp add: group_step_def)
    have pre1: "good j (wf_world s1) \<and> (ph \<noteq> Executing \<longrightarrow> waited j (wf_world s1))" if "(j, ph) \<in> set tasks" for j ph
      using 1(5) that R1 good_step waited_step by blast
    have rest: "\<forall>(j, ph) \<in> set (drop_nth ?i tasks). good j (wf_world s1) \<and> (ph \<noteq> Executing \<longrightarrow> waited j (wf_world s1))"
      using pre1 by (auto dest: in_drop_nth)
    have split: "(j, ph) = (?id, ?ph) \<or> (j, ph) \<in> set (drop_nth ?i tasks)" if "(j, ph) \<in> set tasks" for j ph
      using in_drop_nth_or [OF i that] by simp
    have eq: "drain_tasks T p rid tasks terminal err s = (case st of
           Moves ph \<Rightarrow> drain_tasks T p rid (tasks[?i := (?id, ph)]) terminal err s1
         | Returns ou \<Rightarrow> drain_tasks T p rid (drop_nth ?i tasks) (terminal \<or> eo_terminal ou) err s1
         | Fails e \<Rightarrow> (if is_activity_error e then drain_tasks T p rid (drop_nth ?i tasks) terminal (Some e) s1
              else (Inl e, s1)))"
      using False run by (subst drain_tasks.simps) (simp add: Let_def split: task_step.split)
    show ?thesis
    proof (cases st)
      case (Moves ph')
      from mov [OF Moves] have ph: "?ph \<noteq> Executing" "ph' \<noteq> Executing" by blast+
      have sub: "\<forall>(j, ph) \<in> set (tasks[?i := (?id, ph')]). good j (wf_world s1) \<and> (ph \<noteq> Executing \<longrightarrow> waited j (wf_world s1))"
      proof (clarify)
        fix j ph assume "(j, ph) \<in> set (tasks[?i := (?id, ph')])"
        then have "(j, ph) = (?id, ph') \<or> (j, ph) \<in> set tasks" using set_update_subset_insert by fastforce
        with pre1 [OF mem] ph pre1 [of j ph]
        show "good j (wf_world s1) \<and> (ph \<noteq> Executing \<longrightarrow> waited j (wf_world s1))" by auto
      qed
      have upd: "\<exists>ph2. (j, ph2) \<in> set (tasks[?i := (?id, ph')]) \<and> (ph2 \<noteq> Executing \<longrightarrow> ph \<noteq> Executing)"
        if "(j, ph) \<in> set tasks" for j ph
      proof -
        from that obtain k where k: "k < length tasks" "tasks ! k = (j, ph)" by (auto simp: in_set_conv_nth)
        show ?thesis
        proof (cases "k = ?i")
          case True
          with k ph i show ?thesis by (intro exI [of _ ph']) (auto simp: set_update_memI)
        next
          case False
          with k have "(j, ph) \<in> set (tasks[?i := (?id, ph')])"
            by (metis length_list_update nth_list_update_neq nth_mem)
          then show ?thesis by blast
        qed
      qed
      from 1(1) [OF _ _ refl run [symmetric] Moves _ sub 1(6)] eq 1(4) False Moves
      have "group_step R s1 s'" and res: "\<And>b. r = Inr b \<Longrightarrow> err = None \<and> (\<forall>(j, ph) \<in> set (tasks[?i := (?id, ph')]).
          settled j (wf_world s') \<or> (ph \<noteq> Executing \<and> wf_cancelled s'))" by auto
      with group_trans [OF st1] upd show ?thesis by (fastforce dest!: res)
    next
      case (Returns ou)
      from 1(2) [OF _ _ refl run [symmetric] Returns _ rest 1(6)] eq 1(4) False Returns
      have st2: "group_step R s1 s'" and res: "\<And>b. r = Inr b \<Longrightarrow> err = None \<and> (\<forall>(j, ph) \<in> set (drop_nth ?i tasks).
          settled j (wf_world s') \<or> (ph \<noteq> Executing \<and> wf_cancelled s'))" by auto
      from ret [OF Returns] st2 have "settled ?id (wf_world s') \<or> (?ph \<noteq> Executing \<and> wf_cancelled s')"
        by (auto simp: group_step_def intro: settled_step)
      with group_trans [OF st1 st2] res split show ?thesis by (fastforce dest!: res)
    next
      case (Fails e)
      with eq 1(4) have e: "(if is_activity_error e then drain_tasks T p rid (drop_nth ?i tasks) terminal (Some e) s1
              else (Inl e, s1)) = (r, s')" by simp
      show ?thesis
      proof (cases "is_activity_error e")
        case True
        with 1(3) [OF _ _ refl run [symmetric] Fails True _ rest 1(6)] e False group_trans [OF st1]
        show ?thesis by auto
      next
        case no: False
        with e st1 show ?thesis by auto
      qed
    qed
  qed
qed

text \<open>The group: it is closed only when every call has settled, unless the thread was cancelled.\<close>

lemma run_group_ok:
  assumes T: "tools_settle R good waited settled T"
    and run: "run_tool_group T p turn s = (Inr b, s')"
    and good: "\<forall>sp \<in> set (tu_tool_calls turn). good (sp_id sp) (wf_world s)"
  shows "wf_cancelled s' \<or> (\<exists>v w'. R (wf_world s) v \<and> (\<forall>sp \<in> set (tu_tool_calls turn). settled (sp_id sp) v)
     \<and> tm_finalize_group T (sp_group_id (hd (tu_tool_calls turn))) v = (Inr (), w') \<and> wf_world s' = w')"
proof -
  from run obtain sp sps where calls: "tu_tool_calls turn = sp # sps"
    by (cases "tu_tool_calls turn") (auto simp: run_tool_group_def raise_def)
  let ?cs = "tu_tool_calls turn"
  obtain admits s1 where a: "admit_all T p (sp_run_id sp) ?cs [] None s = (Inr admits, s1)"
    and rest: "bnd (from_res (start_tasks admits ?cs)) (\<lambda>tasks.
          bnd (drain_tasks T p (sp_run_id sp) tasks False None) (\<lambda>terminal.
          bnd getS (\<lambda>s. if wf_cancelled s then ret terminal
          else thn (await_activity T (tm_finalize_group T (sp_group_id sp))) (ret terminal)))) s1 = (Inr b, s')"
    using run unfolding run_tool_group_def calls list.case bnd_def [of "admit_all _ _ _ _ _ _"]
    by (auto split: prod.splits sum.splits)
  obtain tasks s2 b2 where ts: "start_tasks admits ?cs = Inr tasks"
    and d: "drain_tasks T p (sp_run_id sp) tasks False None s1 = (Inr b2, s2)"
    and fin: "(if wf_cancelled s2 then ret b2
          else thn (await_activity T (tm_finalize_group T (sp_group_id sp))) (ret b2)) s2 = (Inr b, s')"
    using rest by (auto simp: bnd_def from_res_def readS_def getS_def split: prod.splits sum.splits)
  from admit_all_ok [OF T a] good have 1: "group_step R s s1" "admitted_ok waited settled admits (wf_world s1)"
    by (auto simp: admitted_ok_def)
  then have R1: "R (wf_world s) (wf_world s1)" by (simp add: group_step_def)
  from start_tasks_ok [OF ts 1(2)] have ok: "\<forall>sp \<in> set ?cs. settled (sp_id sp) (wf_world s1) \<or> (\<exists>ph. (sp_id sp, ph) \<in> set tasks)"
    and sub: "\<forall>(i, ph) \<in> set tasks. i \<in> sp_id ` set ?cs \<and> (ph \<noteq> Executing \<longrightarrow> waited i (wf_world s1))" by blast+
  have "\<forall>(i, ph) \<in> set tasks. good i (wf_world s1) \<and> (ph \<noteq> Executing \<longrightarrow> waited i (wf_world s1))"
    using sub good good_step [OF R1] by fastforce
  from drain_ok [OF T d this] have 2: "group_step R s1 s2"
    and ended: "\<forall>(i, ph) \<in> set tasks. settled i (wf_world s2) \<or> (ph \<noteq> Executing \<and> wf_cancelled s2)" by auto
  show ?thesis
  proof (cases "wf_cancelled s2")
    case True
    with fin show ?thesis by (simp add: ret_def)
  next
    case False
    with fin obtain w' where "tm_finalize_group T (sp_group_id sp) (wf_world s2) = (Inr (), w')" "wf_world s' = w'"
      by (auto simp: thn_def bnd_def await_activity_def ret_def split: prod.splits sum.splits)
    moreover have "\<forall>sp \<in> set ?cs. settled (sp_id sp) (wf_world s2)"
      using ok ended False settled_step 2 unfolding group_step_def by fastforce
    moreover have "R (wf_world s) (wf_world s2)" using 1(1) 2 step_trans by (auto simp: group_step_def)
    ultimately show ?thesis using calls by auto
  qed
qed

end

text \<open>What Temporal documents of an activity: what it reports is what one of its attempts returned, and
  everything else that happens to the stores meanwhile (a lost attempt, the siblings, the rest of the
  worker) is a step of the stores.\<close>

definition reports :: "(world, 'a) act set \<Rightarrow> (world, 'a) act \<Rightarrow> bool" where
  "reports A m \<longleftrightarrow> keeps store_step m \<and> (\<forall>w a w'. m w = (Inr a, w') \<longrightarrow>
     (\<exists>act \<in> A. \<exists>v v'. store_step w v \<and> act v = (Inr a, v') \<and> store_step v' w'))"

definition worker_runs_tools :: "activity_context \<Rightarrow> temporal \<Rightarrow> bool" where
  "worker_runs_tools x T \<longleftrightarrow>
     (\<forall>q. reports {admit_tool x q} (tm_admit_tool T q))
     \<and> (\<forall>q. reports (range (\<lambda>n. execute_tool x n q)) (tm_execute_tool T q))
     \<and> (\<forall>q. reports {resolve_tool x q} (tm_resolve_tool T q))
     \<and> (\<forall>g. reports {finalize_tool_group x g} (tm_finalize_group T g))"

text \<open>The contract of the barrier, for the stores: a call that settled is finished, or was taken out of
  waiting by another task.\<close>

definition call_good :: "world \<Rightarrow> string \<Rightarrow> world \<Rightarrow> bool" where
  "call_good w0 i w \<longleftrightarrow> store_step w0 w \<and> calls_keyed w \<and> known i w"

definition call_waited :: "world \<Rightarrow> string \<Rightarrow> world \<Rightarrow> bool" where
  "call_waited w0 i w \<longleftrightarrow> (\<exists>u. store_step w0 u \<and> status_of i u = Some WAITING \<and> store_step u w)"

definition call_settled :: "world \<Rightarrow> string \<Rightarrow> world \<Rightarrow> bool" where
  "call_settled w0 i w \<longleftrightarrow> finished i w
     \<or> (\<exists>u. call_waited w0 i u \<and> status_of i u \<noteq> Some WAITING \<and> \<not> finished i u \<and> store_step u w)"

interpretation tb: tool_contract store_step "call_good w0" "call_waited w0" "call_settled w0" for w0
proof unfold_locales
  fix w w' i
  show "store_step w w' \<Longrightarrow> call_good w0 i w \<Longrightarrow> call_good w0 i w'"
    unfolding call_good_def using st.step_trans calls_keyed_step known_step by blast
  show "store_step w w' \<Longrightarrow> call_waited w0 i w \<Longrightarrow> call_waited w0 i w'"
    unfolding call_waited_def using st.step_trans by blast
  show "store_step w w' \<Longrightarrow> call_settled w0 i w \<Longrightarrow> call_settled w0 i w'"
    unfolding call_settled_def using st.step_trans finished_step by blast
qed

lemma admitted_settles:
  assumes "admitted_rightly i v ou v'" and "call_good w0 i v" and "store_step v' w'"
  shows "(ao_decision ou = AdmitDeny \<longrightarrow> call_settled w0 i w') \<and> (ao_decision ou = AdmitAwaitHuman \<longrightarrow> call_waited w0 i w')"
  using assms unfolding admitted_rightly_def call_good_def call_settled_def call_waited_def
  by (cases "ao_decision ou") (auto intro: finished_step st.step_trans)

lemma resolved_settles:
  assumes "resolve_post i v (Inr ou) v'" and "call_good w0 i v" "call_waited w0 i v" and "store_step v' w'"
  shows "call_settled w0 i w'"
proof -
  from assms(1) consider "finished i v'"
    | u where "store_step v u" "store_step u v'" "status_of i u \<noteq> Some WAITING" "\<not> finished i u"
    unfolding resolve_post_def by blast
  then show ?thesis
  proof cases
    case 1
    with assms(4) finished_step show ?thesis by (auto simp: call_settled_def)
  next
    case 2
    from tb.waited_step [OF 2(1) assms(3)] 2 st.step_trans [OF 2(2) assms(4)]
    show ?thesis unfolding call_settled_def by blast
  qed
qed

lemma worker_settles:
  assumes x: "context_ok_step x" and T: "worker_runs_tools x T"
  shows "tools_settle store_step (call_good w0) (call_waited w0) (call_settled w0) T"
proof -
  have "ao_tool_call_id ou = ai_tool_call_id q
      \<and> (ao_decision ou = AdmitDeny \<longrightarrow> call_settled w0 (ai_tool_call_id q) w')
      \<and> (ao_decision ou = AdmitAwaitHuman \<longrightarrow> call_waited w0 (ai_tool_call_id q) w')"
    if g: "call_good w0 (ai_tool_call_id q) w" and run: "tm_admit_tool T q w = (Inr ou, w')" for q w ou w'
  proof -
    from T run obtain v v' where v: "store_step w v" "admit_tool x q v = (Inr ou, v')" "store_step v' w'"
      unfolding worker_runs_tools_def reports_def by blast
    from tb.good_step [OF v(1) g] have gv: "call_good w0 (ai_tool_call_id q) v" .
    with ensures_admit_tool [OF x, of v q] v(2) have "admitted_rightly (ai_tool_call_id q) v ou v'"
      by (simp add: call_good_def ensures_def admit_post_def)
    with admitted_settles [OF this gv v(3)] show ?thesis by (simp add: admitted_rightly_def)
  qed
  moreover have "call_settled w0 (ei_tool_call_id q) w'"
    if g: "call_good w0 (ei_tool_call_id q) w" and run: "tm_execute_tool T q w = (Inr ou, w')" for q w ou w'
  proof -
    from T run obtain n v v' where v: "store_step w v" "execute_tool x n q v = (Inr ou, v')" "store_step v' w'"
      unfolding worker_runs_tools_def reports_def by blast
    from tb.good_step [OF v(1) g] ensures_execute_tool [OF x, of v q n] v(2) finished_step [OF v(3)]
    show ?thesis by (simp add: call_good_def ensures_def execute_post_def call_settled_def)
  qed
  moreover have "call_settled w0 (ri_tool_call_id q) w'"
    if g: "call_good w0 (ri_tool_call_id q) w" and wt: "call_waited w0 (ri_tool_call_id q) w"
      and run: "tm_resolve_tool T q w = (Inr ou, w')" for q w ou w'
  proof -
    from T run obtain v v' where v: "store_step w v" "resolve_tool x q v = (Inr ou, v')" "store_step v' w'"
      unfolding worker_runs_tools_def reports_def by blast
    from tb.good_step [OF v(1) g] have gv: "call_good w0 (ri_tool_call_id q) v" .
    with ensures_resolve_tool [OF x, of v q] v(2) have "resolve_post (ri_tool_call_id q) v (Inr ou) v'"
      by (simp add: call_good_def ensures_def)
    from resolved_settles [OF this gv tb.waited_step [OF v(1) wt] v(3)] show ?thesis .
  qed
  moreover have "keeps store_step (tm_admit_tool T q)" "keeps store_step (tm_execute_tool T q2)"
    "keeps store_step (tm_resolve_tool T q3)" for q q2 q3
    using T by (auto simp: worker_runs_tools_def reports_def)
  ultimately show ?thesis unfolding tools_settle_def by blast
qed

lemma member_step:
  assumes "store_step w w'" and "dget (w_calls w) i = Some r" and "calls_keyed w" and "r_group_id r = g"
  obtains r' where "r' \<in> set (get_group g w')" and "r_id r' = i" and "r_agent_id r' = r_agent_id r"
    and "r_thread_id r' = r_thread_id r"
proof -
  from store_step_call [OF assms(1,2)] obtain r' where r': "dget (w_calls w') i = Some r'" "same_request r r'"
    by (auto simp: call_step_def)
  from r'(1) have "r' \<in> set (dvalues (w_calls w'))" by (force dest: map_of_SomeD)
  with r'(2) assms show thesis
    by (intro that [of r']) (auto simp: get_group_def same_request_def calls_keyed_def)
qed

text \<open>C2. The tool barrier. In every interleaving of the group's activities, the signals and the rest of
  the worker, a group that ends without an exception was either cancelled, or was closed once, in a state
  where every call of the turn had settled: it was finished, or it waited for a person and another task
  took it out of waiting. Every call of the turn then has a tool message in the thread's transcript.\<close>

theorem tool_group_barrier:
  assumes x: "context_ok_step x" and T: "worker_runs_tools x T" and keyed: "calls_keyed (wf_world s)"
    and calls: "\<forall>sp \<in> set (tu_tool_calls turn). sp_group_id sp = g \<and> (\<exists>r. dget (w_calls (wf_world s)) (sp_id sp) = Some r
       \<and> r_group_id r = g \<and> r_agent_id r = a \<and> r_thread_id r = t)"
    and run: "run_tool_group T p turn s = (Inr b, s')"
  shows "wf_cancelled s' \<or>
     (\<exists>v w'. store_step (wf_world s) v \<and> (\<forall>sp \<in> set (tu_tool_calls turn). call_settled (wf_world s) (sp_id sp) v)
       \<and> finalize_tool_group x g v = (Inr (), w') \<and> store_step w' (wf_world s')
       \<and> (\<forall>sp \<in> set (tu_tool_calls turn). answered (sp_id sp) (rows_of a t (wf_world s'))))"
proof (cases "wf_cancelled s'")
  case on: False
  let ?w = "wf_world s"
  have "\<forall>sp \<in> set (tu_tool_calls turn). call_good ?w (sp_id sp) ?w"
    using calls keyed by (auto simp: call_good_def known_def st.step_refl)
  from tb.run_group_ok [OF worker_settles [OF x T] run this] on obtain u w'
    where u: "store_step ?w u" "\<forall>sp \<in> set (tu_tool_calls turn). call_settled ?w (sp_id sp) u"
      "tm_finalize_group T (sp_group_id (hd (tu_tool_calls turn))) u = (Inr (), w')" "wf_world s' = w'" by blast
  from run have "tu_tool_calls turn \<noteq> []" by (auto simp: run_tool_group_def raise_def)
  with calls have "sp_group_id (hd (tu_tool_calls turn)) = g" by simp
  with u(3) T obtain v v' where v: "store_step u v" "finalize_tool_group x g v = (Inr (), v')" "store_step v' w'"
    unfolding worker_runs_tools_def reports_def by blast
  have wv: "store_step ?w v" by (rule st.step_trans [OF u(1) v(1)])
  have "answered (sp_id sp) (rows_of a t w')" if "sp \<in> set (tu_tool_calls turn)" for sp
  proof -
    from calls that obtain r where r: "dget (w_calls ?w) (sp_id sp) = Some r" "r_group_id r = g"
      "r_agent_id r = a" "r_thread_id r = t" by blast
    from member_step [OF wv r(1) keyed r(2)] r(3,4) obtain r' where
      r': "r' \<in> set (get_group g v)" "r_id r' = sp_id sp" "r_agent_id r' = a" "r_thread_id r' = t" by metis
    from finalize_group_answers [OF v(2) r'(1)] r'(2-4) answered_step [OF v(3)] show ?thesis by simp
  qed
  with wv u(2,4) v tb.settled_step [OF v(1)]
  show ?thesis by blast
qed simp

text \<open>The simplest Temporal: every activity runs once, at once, and its exception is reported as an
  \<open>ActivityError\<close>; no signal arrives.\<close>

definition as_activity :: "(world, 'a) act \<Rightarrow> (world, 'a) act" where
  "as_activity m w = (case m w of (Inl e, w') \<Rightarrow> (Inl (ActivityError [] (Some e)), w') | (Inr a, w') \<Rightarrow> (Inr a, w'))"

definition direct_temporal :: "activity_context \<Rightarrow> temporal" where
  "direct_temporal x = \<lparr>tm_signals = (\<lambda>_. []), tm_stops = (\<lambda>_. False), tm_choice = (\<lambda>_. 0),
     tm_uuid = (\<lambda>n. ''id'' @ nat_str n), tm_history_length = (\<lambda>_. 0), tm_workflow_id = ''wf'',
     tm_start_run = (\<lambda>q. as_activity (start_run x q)), tm_run_turn = (\<lambda>q. as_activity (run_turn x 1 q)),
     tm_compact_context = (\<lambda>q. as_activity (compact_context x q)),
     tm_summarize_context = (\<lambda>q. as_activity (summarize_context x q)),
     tm_store_summary = (\<lambda>q. as_activity (store_summary x q)),
     tm_finalize_run = (\<lambda>q. as_activity (finalize_run x q)),
     tm_admit_tool = (\<lambda>q. as_activity (admit_tool x q)), tm_execute_tool = (\<lambda>q. as_activity (execute_tool x 1 q)),
     tm_resolve_tool = (\<lambda>q. as_activity (resolve_tool x q)),
     tm_finalize_group = (\<lambda>g. as_activity (finalize_tool_group x g)),
     tm_apply_cancellation = (\<lambda>a t. as_activity (apply_thread_cancellation x a t)),
     tm_start_child = (\<lambda>_ _. ret ()),
     tm_await_child = (\<lambda>_. raise (OtherException ''ChildWorkflowError'' [])),
     tm_signal_thread = (\<lambda>_. ret ())\<rparr>"

lemma as_activity_eq: "m w = (Inr a, w') \<Longrightarrow> as_activity m w = (Inr a, w')"
  by (simp add: as_activity_def)

lemma snd_as_activity [simp]: "snd (as_activity m w) = snd (m w)"
  by (simp add: as_activity_def split: prod.split sum.split)

lemma as_activity_Inr: "as_activity m w = (Inr a, w') \<longleftrightarrow> m w = (Inr a, w')"
  by (simp add: as_activity_def split: prod.split sum.split)

lemma reports_as_activity:
  assumes "keeps store_step m" and "m \<in> A"
  shows "reports A (as_activity m)"
  unfolding reports_def as_activity_Inr
proof (intro conjI allI impI)
  from assms(1) show "keeps store_step (as_activity m)" by (simp add: keeps_def)
  fix w a w' assume "m w = (Inr a, w')"
  with assms(2) st.step_refl show "\<exists>act \<in> A. \<exists>v v'. store_step w v \<and> act v = (Inr a, v') \<and> store_step v' w'" by blast
qed

lemma direct_runs_tools: "context_ok_step x \<Longrightarrow> worker_runs_tools x (direct_temporal x)"
  by (simp add: worker_runs_tools_def direct_temporal_def reports_as_activity keeps_rules)

definition sample_turn_result :: "tool_call_spec list \<Rightarrow> turn_result" where
  "sample_turn_result sps = \<lparr>tu_turn_id = ''u'', tu_turn_index = 1, tu_tool_calls = sps,
     tu_reminded = False, tu_stop_reason = None, tu_compaction = None, tu_summarize = None\<rparr>"

lemma direct_simps [simp]:
  "tm_signals (direct_temporal x) n = []" "tm_stops (direct_temporal x) n = False"
  "tm_choice (direct_temporal x) n = 0" "tm_admit_tool (direct_temporal x) q = as_activity (admit_tool x q)"
  "tm_execute_tool (direct_temporal x) q1 = as_activity (execute_tool x 1 q1)"
  "tm_finalize_group (direct_temporal x) g = as_activity (finalize_tool_group x g)"
  by (simp_all add: direct_temporal_def)

lemma sample_call_simps [simp]:
  "r_id (sample_call i) = i" "r_name (sample_call i) = ''f''" "r_args (sample_call i) = []"
  "r_agent_id (sample_call i) = ''a''" "r_thread_id (sample_call i) = ''t''" "r_run_id (sample_call i) = ''r''"
  "r_status (sample_call i) = REQUESTED" "r_group_id (sample_call i) = ''g''" "r_result (sample_call i) = JNull"
  "r_turn_id (sample_call i) = ''u''"
  by (simp_all add: sample_call_def)

lemma sample_tools: "registry_get ''f'' (ad_tools sample_agent) = Some (plain_tool ''f'')"
  by (simp add: registry_get_def sample_agent_def)

lemma sample_admits:
  assumes "dget (w_calls w) i = Some (sample_call i)" and "dget (w_threads w) (''a'', ''t'') = Some th"
  shows "admit_tool sample_context \<lparr>ai_agent_id = ''a'', ai_thread_id = ''t'', ai_run_id = ''r'', ai_tool_call_id = i\<rparr> w
     = (Inr \<lparr>ao_tool_call_id = i, ao_decision = AdmitExecute, ao_reason = None, ao_wait_request = None\<rparr>,
        w\<lparr>w_calls := dset i ((sample_call i)\<lparr>r_status := RUNNING\<rparr>) (w_calls w)\<rparr>)"
  using assms
  by (simp add: admit_tool_def admit_tool_body_def sample_agent_resolved act_defs calls_get_def
      threads_get_or_create_def threads_get_def dsetdefault_def admit_record_def sample_tools plain_tool_def Let_def
      call_context_of_def decide_call_def tool_decision_of_def decision_execute_def start_call_def
      calls_update_status_def update_record_def)

lemma materialise_plain: "materialise x ag r ctx (tool_ok j []) = ret (tool_ok j [])"
  by (simp add: materialise_def tool_ok_def json_or_null_def jget_def)

lemma sample_executes:
  assumes "i \<noteq> []" and "dget (w_calls w) i = Some ((sample_call i)\<lparr>r_status := RUNNING\<rparr>)"
    and "dget (w_threads w) (''a'', ''t'') = Some th"
  shows "execute_tool sample_context (Suc 0) \<lparr>ei_agent_id = ''a'', ei_thread_id = ''t'', ei_run_id = ''r'',
       ei_tool_call_id = i, ei_context = c\<rparr> w
     = (Inr \<lparr>eo_tool_call_id = i, eo_status = ExecCompleted, eo_terminal = False\<rparr>,
        w\<lparr>w_calls := dset i ((sample_call i)\<lparr>r_status := COMPLETED,
           r_result := JObj [(''tool_call_id'', JStr i), (''result'', JNull)]\<rparr>) (w_calls w)\<rparr>)"
  using assms
  by (simp add: execute_tool_def execute_tool_body_def sample_agent_resolved act_defs calls_get_def
      threads_get_or_create_def threads_get_def dsetdefault_def sample_tools plain_tool_def Let_def
      call_context_of_def run_tool_def store_result_def materialise_plain)
    (simp add: tool_ok_def calls_update_status_def update_record_def outcome_of_def on_tool_result_def sample_silent
      is_success_def act_defs threads_get_or_create_def dsetdefault_def Let_def json_or_null_def jget_def
      tool_result_to_dict_def)

definition threaded_world :: world where
  "threaded_world = sample_world\<lparr>w_threads := [((''a'', ''t''), new_thread ''t'' ''a'')]\<rparr>"

lemma threaded_simps [simp]:
  "dget (w_threads threaded_world) (''a'', ''t'') = Some (new_thread ''t'' ''a'')"
  "dget (w_calls threaded_world) ''c1'' = Some (sample_call ''c1'')" "calls_keyed threaded_world"
  by (simp_all add: threaded_world_def sample_world_def new_world_def calls_keyed_def)

lemma direct_await [simp]:
  "await_activity (direct_temporal x) m s = (let (r, w) = m (wf_world s) in
     (r, s\<lparr>wf_world := w, wf_clock := Suc (wf_clock s)\<rparr>))"
  by (simp add: await_activity_def tick_def)

definition executed_world :: world where
  "executed_world = threaded_world\<lparr>w_calls := dset ''c1'' ((sample_call ''c1'')\<lparr>r_status := COMPLETED,
     r_result := JObj [(''tool_call_id'', JStr ''c1''), (''result'', JNull)]\<rparr>) (w_calls threaded_world)\<rparr>"

lemma executed_closes: "\<exists>w'. finalize_tool_group sample_context ''g'' executed_world = (Inr (), w')"
proof -
  have calls: "w_calls executed_world = [(''c1'', (sample_call ''c1'')\<lparr>r_status := COMPLETED,
       r_result := JObj [(''tool_call_id'', JStr ''c1''), (''result'', JNull)]\<rparr>),
     (''c2'', (sample_call ''c2'')\<lparr>r_status := WAITING\<rparr>),
     (''c3'', (sample_call ''c3'')\<lparr>r_status := COMPLETED, r_result := JObj [(''result'', JInt 3)]\<rparr>)]"
    by (simp add: executed_world_def threaded_world_def sample_world_def)
  have "wf_dict (w_calls executed_world)" "calls_keyed executed_world"
    by (auto simp: calls wf_dict_def calls_keyed_def split: if_splits)
  moreover have "\<forall>r \<in> set (get_group ''g'' executed_world).
      (\<exists>c. tool_result_content (x_as_int sample_context) (record_result r) = Inr c)
      \<and> r_agent_id r = ''a'' \<and> r_thread_id r = ''t''"
    by (simp add: calls get_group_def record_result_def tool_result_content_def tool_result_blocks_def jget_def)
  ultimately show ?thesis
    using finalize_group_spec [of executed_world "''g''" sample_context "''a''" "''t''"] by blast
qed

lemma sample_group_runs:
  "\<exists>b s'. run_tool_group (direct_temporal sample_context) (new_thread_input ''a'' ''t'')
       (sample_turn_result [spec_of (sample_call ''c1'')]) (new_workflow threaded_world) = (Inr b, s')
     \<and> \<not> wf_cancelled s'"
proof -
  let ?T = "direct_temporal sample_context" and ?p = "new_thread_input ''a'' ''t''"
  let ?w1 = "threaded_world\<lparr>w_calls := dset ''c1'' ((sample_call ''c1'')\<lparr>r_status := RUNNING\<rparr>) (w_calls threaded_world)\<rparr>"
  let ?s1 = "(new_workflow threaded_world)\<lparr>wf_world := ?w1, wf_clock := 1\<rparr>"
  let ?s2 = "(new_workflow threaded_world)\<lparr>wf_world := executed_world, wf_clock := 2\<rparr>"
  have "admit_all ?T ?p ''r'' [spec_of (sample_call ''c1'')] [] None (new_workflow threaded_world)
     = (Inr [(''c1'', \<lparr>ao_tool_call_id = ''c1'', ao_decision = AdmitExecute, ao_reason = None, ao_wait_request = None\<rparr>)], ?s1)"
    by (simp add: admit_all.simps new_workflow_def new_thread_input_def spec_of_def as_activity_eq sample_admits drop_nth_def)
  moreover have "drain_tasks ?T ?p ''r'' [(''c1'', Executing)] False None ?s1 = (Inr False, ?s2)"
    by (simp add: drain_tasks.simps new_workflow_def new_thread_input_def as_activity_eq drop_nth_def ended_def
        sample_executes [of "''c1''" ?w1 "new_thread ''t'' ''a''" "[]"] executed_world_def)
  moreover obtain w' where "finalize_tool_group sample_context ''g'' executed_world = (Inr (), w')"
    using executed_closes by blast
  then have "as_activity (finalize_tool_group sample_context ''g'') executed_world = (Inr (), w')"
    by (rule as_activity_eq)
  ultimately show ?thesis
    by (simp add: run_tool_group_def sample_turn_result_def bnd_def spec_of_def from_res_def readS_def getS_def
        new_workflow_def thn_def ret_def) blast
qed

theorem tool_group_barrier_witness:
  "\<exists>b s'. run_tool_group (direct_temporal sample_context) (new_thread_input ''a'' ''t'')
       (sample_turn_result [spec_of (sample_call ''c1'')]) (new_workflow threaded_world) = (Inr b, s')
     \<and> answered ''c1'' (rows_of ''a'' ''t'' (wf_world s'))"
proof -
  let ?turn = "sample_turn_result [spec_of (sample_call ''c1'')]"
  obtain b s' where run: "run_tool_group (direct_temporal sample_context) (new_thread_input ''a'' ''t'') ?turn
      (new_workflow threaded_world) = (Inr b, s')" "\<not> wf_cancelled s'" using sample_group_runs by blast
  have w: "wf_world (new_workflow threaded_world) = threaded_world" by (simp add: new_workflow_def)
  from tool_group_barrier [OF sample_context_ok direct_runs_tools [OF sample_context_ok] _ _ run(1),
      of "''g''" "''a''" "''t''"] run(2)
  have "answered ''c1'' (rows_of ''a'' ''t'' (wf_world s'))"
    by (auto simp: w sample_turn_result_def spec_of_def)
  with run(1) show ?thesis by blast
qed

section \<open>Contracts of the workflow's own state\<close>

text \<open>A relation on the workflow that the arrival of signals, the end of a wait and the bookkeeping of a
  resolution respect is respected by the whole handling of a group.\<close>

locale workflow_contract = step_contract R for R :: "thread_workflow \<Rightarrow> thread_workflow \<Rightarrow> bool" +
  fixes T :: temporal
  assumes step_tick: "R s (tick T (s\<lparr>wf_world := w\<rparr>))"
    and step_wait: "R s (snd (end_wait i s))"
    and step_mark: "R s (s\<lparr>wf_resolving := wf_resolving s - {i}, wf_resolved := insert i (wf_resolved s)\<rparr>)"
begin

lemma keeps_await: "keeps R (await_activity T m)"
  by (rule keepsI) (simp add: await_activity_def step_tick split: prod.split)

lemma keeps_mark: "keeps R (mark_resolved i)"
  unfolding mark_resolved_def by (rule keeps_modifyS) (rule step_mark)

lemma step_advance: "R s (snd (advance T p rid i ph s))"
proof -
  have snd_ended: "snd (ended r) = snd r" for r by (simp add: ended_def split: prod.split sum.split)
  show ?thesis
  proof (cases ph)
    case Executing
    with keepsD [OF keeps_await] show ?thesis by (simp add: snd_ended)
  next
    case AwaitingHuman
    have "R s (tick T s)" using step_tick [of s "wf_world s"] by simp
    with step_trans [OF this step_wait] AwaitingHuman show ?thesis by simp
  next
    case (Resolving rs)
    have "keeps R (bnd (await_activity T m) (\<lambda>ou. thn (mark_resolved i) (ret ou)))"
      for m :: "(world, execute_outcome) act"
      by (intro keeps_bnd keeps_thn keeps_ret keeps_await keeps_mark)
    with Resolving show ?thesis by (simp add: snd_ended keepsD)
  qed
qed

lemma step_drain: "T' = T \<Longrightarrow> drain_tasks T' p rid tasks terminal err s = (r, s') \<Longrightarrow> R s s'"
proof (induction T' p rid tasks terminal err s rule: drain_tasks.induct)
  case (1 T' p rid tasks terminal err s)
  show ?case
  proof (cases "tasks = [] \<or> tm_stops T' (wf_clock s)")
    case True
    with 1(5) show ?thesis
      by (auto simp: drain_tasks.simps [of T' p rid tasks] step_refl split: option.splits if_splits)
  next
    case False
    let ?i = "tm_choice T' (wf_clock s) mod length tasks"
    obtain st s1 where run: "advance T' p rid (fst (tasks ! ?i)) (snd (tasks ! ?i)) s = (st, s1)" by fastforce
    from step_advance [of s p rid] run 1(4) have "R s s1" by (metis snd_conv)
    moreover have "R s1 s'"
      using 1(5) False run 1(1) [OF _ _ refl run [symmetric]] 1(2) [OF _ _ refl run [symmetric]]
        1(3) [OF _ _ refl run [symmetric]] 1(4)
      by (auto simp: drain_tasks.simps [of _ p rid tasks] Let_def step_refl split: task_step.splits if_splits)
    ultimately show ?thesis by (rule step_trans)
  qed
qed

lemma step_admit: "T' = T \<Longrightarrow> admit_all T' p rid pending admits err s = (r, s') \<Longrightarrow> R s s'"
proof (induction T' p rid pending admits err s rule: admit_all.induct)
  case (1 T' p rid pending admits err s)
  show ?case
  proof (cases "pending = [] \<or> tm_stops T' (wf_clock s)")
    case True
    with 1(4) show ?thesis
      by (auto simp: admit_all.simps [of T' p rid pending] step_refl split: option.splits if_splits)
  next
    case False
    let ?i = "tm_choice T' (wf_clock s) mod length pending"
    let ?m = "tm_admit_tool T' \<lparr>ai_agent_id = tp_agent_id p, ai_thread_id = tp_thread_id p, ai_run_id = rid,
      ai_tool_call_id = sp_id (pending ! ?i)\<rparr>"
    obtain r1 s1 where run: "await_activity T' ?m s = (r1, s1)" by fastforce
    with keepsD [OF keeps_await, of s ?m] 1(3) have "R s s1" by simp
    moreover have "R s1 s'"
      using 1(4) False run 1(1) [OF _ _ refl run [symmetric]] 1(2) [OF _ _ refl run [symmetric]] 1(3)
      by (auto simp: admit_all.simps [of _ p rid pending] Let_def step_refl split: sum.splits if_splits)
    ultimately show ?thesis by (rule step_trans)
  qed
qed

lemma keeps_run_group: "keeps R (run_tool_group T p turn)"
proof -
  have "keeps R (admit_all T p rid pending admits err)" for rid pending admits err
    by (rule keepsI) (metis step_admit prod.collapse)
  moreover have "keeps R (drain_tasks T p rid tasks terminal err)" for rid tasks terminal err
    by (rule keepsI) (metis step_drain prod.collapse)
  ultimately show ?thesis unfolding run_tool_group_def
    by (auto intro!: keeps_monad keeps_await split: list.split)
qed

end

section \<open>One resolution per call\<close>

text \<open>The elementary moves of the workflow on its resolutions, as a relation labelled with the moves made
  and the resolutions handed to a waiting task on the way.\<close>

datatype move = Arrives signal | EndsWait string | Stored string | Works world nat

fun apply_move :: "move \<Rightarrow> thread_workflow \<Rightarrow> thread_workflow" where
  "apply_move (Arrives g) s = deliver g s"
| "apply_move (EndsWait i) s = snd (end_wait i s)"
| "apply_move (Stored i) s = snd (mark_resolved i s)"
| "apply_move (Works w n) s = s\<lparr>wf_world := w, wf_clock := n\<rparr>"

fun taken :: "move \<Rightarrow> thread_workflow \<Rightarrow> (string \<times> deferred_resolution) list" where
  "taken (EndsWait i) s = (case end_wait i s of (Moves (Resolving (Some r)), s') \<Rightarrow> [(i, r)] | _ \<Rightarrow> [])"
| "taken _ s = []"

inductive moves ::
  "thread_workflow \<Rightarrow> move list \<Rightarrow> (string \<times> deferred_resolution) list \<Rightarrow> thread_workflow \<Rightarrow> bool" where
  moves_none: "moves s [] [] s"
| moves_more: "moves s ms ts u \<Longrightarrow> moves s (ms @ [m]) (ts @ taken m u) (apply_move m u)"

lemma moves_one: "moves s [m] (taken m s) (apply_move m s)"
  using moves_more [OF moves_none, of s m] by simp

lemma moves_trans: "moves t ms' ts' u \<Longrightarrow> moves s ms ts t \<Longrightarrow> moves s (ms @ ms') (ts @ ts') u"
proof (induction rule: moves.induct)
  case (moves_more t ms' ts' u m)
  from moves.moves_more [OF moves_more.IH [OF moves_more.prems], of m] show ?case by simp
qed simp

definition goes :: "thread_workflow \<Rightarrow> thread_workflow \<Rightarrow> bool" where
  "goes s t \<longleftrightarrow> (\<exists>ms ts. moves s ms ts t)"

lemma goes_refl: "goes s s"
  by (auto simp: goes_def intro: moves_none)

lemma goes_trans: "goes s t \<Longrightarrow> goes t u \<Longrightarrow> goes s u"
  by (auto simp: goes_def intro: moves_trans)

lemma goes_one: "goes s (apply_move m s)"
  using moves_one by (auto simp: goes_def)

lemma goes_deliver: "goes s (fold deliver gs s)"
proof (induction gs arbitrary: s)
  case (Cons g gs)
  from goes_trans [OF goes_one [of s "Arrives g"]] Cons [of "deliver g s"] show ?case by simp
qed (simp add: goes_refl)

lemma goes_tick: "goes s (tick T (s\<lparr>wf_world := w\<rparr>))"
proof -
  let ?s = "apply_move (Works w (wf_clock s)) s"
  let ?t = "fold deliver (tm_signals T (wf_clock s)) ?s"
  have "tick T (s\<lparr>wf_world := w\<rparr>) = apply_move (Works w (Suc (wf_clock s))) ?t" by (simp add: tick_def Let_def)
  with goes_trans [OF goes_one [of s] goes_trans [OF goes_deliver goes_one]] show ?thesis by metis
qed

interpretation mv: workflow_contract goes T for T
proof unfold_locales
  fix s i w
  show "goes s (snd (end_wait i s))" using goes_one [of s "EndsWait i"] by simp
  show "goes s (s\<lparr>wf_resolving := wf_resolving s - {i}, wf_resolved := insert i (wf_resolved s)\<rparr>)"
    using goes_one [of s "Stored i"] by (simp add: mark_resolved_def modifyS_def)
qed (auto intro: goes_refl goes_trans goes_tick)

text \<open>The resolutions that arrived, and the first one for a call.\<close>

fun resolutions_in :: "move list \<Rightarrow> deferred_resolution list" where
  "resolutions_in [] = []"
| "resolutions_in (Arrives (ResolveTool r) # ms) = r # resolutions_in ms"
| "resolutions_in (_ # ms) = resolutions_in ms"

definition first_for :: "string \<Rightarrow> move list \<Rightarrow> deferred_resolution option" where
  "first_for i ms = find (\<lambda>r. dr_tool_call_id r = i) (resolutions_in ms)"

lemma resolutions_append [simp]: "resolutions_in (ms @ ns) = resolutions_in ms @ resolutions_in ns"
  by (induction ms rule: resolutions_in.induct) simp_all

lemma first_for_append:
  "first_for i (ms @ [m]) = (case first_for i ms of Some r \<Rightarrow> Some r | None \<Rightarrow> first_for i [m])"
  by (simp add: first_for_def find_append split: option.split)

lemma first_for_one:
  "first_for i [Arrives (ResolveTool r)] = (if dr_tool_call_id r = i then Some r else None)"
  "first_for i [Arrives (Inbound m)] = None" "first_for i [Arrives Cancel] = None"
  "first_for i [Arrives (SummaryReady c)] = None" "first_for i [EndsWait j] = None"
  "first_for i [Stored j] = None" "first_for i [Works w n] = None"
  by (simp_all add: first_for_def)

lemma first_for_other: "(\<And>r. m \<noteq> Arrives (ResolveTool r)) \<Longrightarrow> first_for i (ms @ [m]) = first_for i ms"
  by (cases m) (auto simp: first_for_append first_for_one split: option.split signal.split, case_tac x1, auto simp: first_for_one)

definition busy :: "thread_workflow \<Rightarrow> string set" where
  "busy s = wf_resolving s \<union> wf_resolved s"

text \<open>\<open>F\<close> gives the first resolution that arrived for a call, \<open>D\<close> the one that waits to be taken, \<open>B\<close> the calls
  whose signals are ignored, and \<open>ts\<close> what was taken.\<close>

definition first_ok ::
  "(string \<Rightarrow> deferred_resolution option) \<Rightarrow> (string \<Rightarrow> deferred_resolution option) \<Rightarrow> string set
     \<Rightarrow> (string \<times> deferred_resolution) list \<Rightarrow> bool" where
  "first_ok F D B ts \<longleftrightarrow> (\<forall>i r. D i = Some r \<longrightarrow> F i = Some r) \<and> (\<forall>i. i \<notin> B \<longrightarrow> D i = F i)
     \<and> (\<forall>(i, r) \<in> set ts. i \<in> B \<and> D i = None \<and> F i = Some r) \<and> distinct (map fst ts)"

lemma first_okI:
  "(\<And>i r. D i = Some r \<Longrightarrow> F i = Some r) \<Longrightarrow> (\<And>i. i \<notin> B \<Longrightarrow> D i = F i) \<Longrightarrow>
   (\<And>i r. (i, r) \<in> set ts \<Longrightarrow> i \<in> B \<and> D i = None \<and> F i = Some r) \<Longrightarrow> distinct (map fst ts) \<Longrightarrow> first_ok F D B ts"
  unfolding first_ok_def by blast

lemma first_okD:
  assumes "first_ok F D B ts"
  shows "D i = Some r \<Longrightarrow> F i = Some r" and "i \<notin> B \<Longrightarrow> D i = F i"
    and "(i, r) \<in> set ts \<Longrightarrow> i \<in> B \<and> D i = None \<and> F i = Some r" and "distinct (map fst ts)"
  using assms unfolding first_ok_def by blast+

lemma first_ok_more: "first_ok F D B ts \<Longrightarrow> B \<subseteq> B' \<Longrightarrow> first_ok F D B' ts"
  by (rule first_okI) (blast dest: first_okD)+

lemma first_ok_take:
  assumes ok: "first_ok F D B ts" and i: "D i = Some r"
  shows "first_ok F (D(i := None)) (insert i B) (ts @ [(i, r)])"
proof (rule first_okI)
  fix j q
  show "(D(i := None)) j = Some q \<Longrightarrow> F j = Some q" using first_okD(1) [OF ok, of j q] by (simp split: if_splits)
  show "j \<notin> insert i B \<Longrightarrow> (D(i := None)) j = F j" using first_okD(2) [OF ok, of j] by simp
  show "(j, q) \<in> set (ts @ [(i, r)]) \<Longrightarrow> j \<in> insert i B \<and> (D(i := None)) j = None \<and> F j = Some q"
    using first_okD(3) [OF ok, of j q] first_okD(1) [OF ok i] by (cases "j = i") auto
next
  have "i \<notin> fst ` set ts" using first_okD(3) [OF ok] i by fastforce
  with first_okD(4) [OF ok] show "distinct (map fst (ts @ [(i, r)]))" by simp
qed

lemma first_ok_arrives:
  assumes ok: "first_ok F D B ts" and F': "\<And>j. F' j = (case F j of Some q \<Rightarrow> Some q | None \<Rightarrow> if j = i then Some r else None)"
    and D': "if i \<in> B then D' = D else D' = (\<lambda>j. case D j of Some q \<Rightarrow> Some q | None \<Rightarrow> if j = i then Some r else None)"
  shows "first_ok F' D' B ts"
proof -
  have keep: "F j = Some q \<Longrightarrow> F' j = Some q" for j q by (simp add: F')
  have other: "j \<noteq> i \<Longrightarrow> F' j = F j" for j by (simp add: F' split: option.split)
  have D_other: "j \<noteq> i \<or> i \<in> B \<Longrightarrow> D' j = D j" for j using D' by (auto split: if_splits option.splits)
  have D_new: "i \<notin> B \<Longrightarrow> D' i = F' i" using D' first_okD(2) [OF ok, of i] by (simp add: F' split: if_splits)
  show ?thesis
  proof (rule first_okI)
    fix j q
    show "D' j = Some q \<Longrightarrow> F' j = Some q"
      using D_other [of j] D_new first_okD(1) [OF ok, of j q] keep [of j q] by (cases "j = i \<and> i \<notin> B") auto
    show "j \<notin> B \<Longrightarrow> D' j = F' j"
      using D_other [of j] D_new first_okD(2) [OF ok, of j] other [of j] by (cases "j = i") auto
    show "(j, q) \<in> set ts \<Longrightarrow> j \<in> B \<and> D' j = None \<and> F' j = Some q"
      using D_other [of j] first_okD(3) [OF ok, of j q] keep [of j q] by (cases "j = i") auto
  qed (rule first_okD(4) [OF ok])
qed

definition pending_ok :: "move list \<Rightarrow> (string \<times> deferred_resolution) list \<Rightarrow> thread_workflow \<Rightarrow> bool" where
  "pending_ok ms ts s \<longleftrightarrow> first_ok (\<lambda>i. first_for i ms) (dget (wf_tool_resolutions s)) (busy s) ts"

lemma pending_ok_resolve:
  assumes ok: "pending_ok ms ts s"
  shows "pending_ok (ms @ [Arrives (ResolveTool r)]) ts (resolve_signal r s)"
proof -
  let ?i = "dr_tool_call_id r"
  have F': "first_for j (ms @ [Arrives (ResolveTool r)])
      = (case first_for j ms of Some q \<Rightarrow> Some q | None \<Rightarrow> if j = ?i then Some r else None)" for j
    by (cases "first_for j ms") (auto simp: first_for_append first_for_one)
  show ?thesis
  proof (cases "?i \<in> busy s")
    case True
    then have "resolve_signal r s = s" by (simp add: resolve_signal_def busy_def)
    with first_ok_arrives [OF ok [unfolded pending_ok_def] F'] True show ?thesis by (simp add: pending_ok_def)
  next
    case False
    then have new: "resolve_signal r s = s\<lparr>wf_tool_resolutions := dsetdefault ?i r (wf_tool_resolutions s)\<rparr>"
      by (simp add: resolve_signal_def busy_def)
    have "dget (dsetdefault ?i r (wf_tool_resolutions s)) = (\<lambda>j. case dget (wf_tool_resolutions s) j of
        Some q \<Rightarrow> Some q | None \<Rightarrow> if j = ?i then Some r else None)"
      by (rule ext) (simp add: dsetdefault_def split: option.split)
    with first_ok_arrives [OF ok [unfolded pending_ok_def] F'] False have
      "first_ok (\<lambda>j. first_for j (ms @ [Arrives (ResolveTool r)]))
         (dget (dsetdefault ?i r (wf_tool_resolutions s))) (busy s) ts" by simp
    then show ?thesis by (simp add: pending_ok_def new busy_def)
  qed
qed

lemma pending_ok_wait:
  assumes "pending_ok ms ts s"
  shows "pending_ok ms (ts @ taken (EndsWait i) s) (snd (end_wait i s))"
proof (cases "wf_cancelled s \<or> dget (wf_tool_resolutions s) i = None")
  case True
  with assms show ?thesis by (auto simp: end_wait_def split: option.split)
next
  case False
  then obtain r where r: "dget (wf_tool_resolutions s) i = Some r" by blast
  have "dget (AList.delete i (wf_tool_resolutions s)) = (dget (wf_tool_resolutions s))(i := None)"
    by (rule ext) simp
  with first_ok_take [OF assms [unfolded pending_ok_def] r] False r show ?thesis
    by (simp add: pending_ok_def end_wait_def busy_def)
qed

lemma pending_ok_move:
  assumes ok: "pending_ok ms ts s"
  shows "pending_ok (ms @ [m]) (ts @ taken m s) (apply_move m s)"
proof (cases "\<exists>r. m = Arrives (ResolveTool r)")
  case True
  with pending_ok_resolve [OF ok] show ?thesis by auto
next
  case False
  then have "first_for i (ms @ [m]) = first_for i ms" for i by (intro first_for_other) blast
  then have eq: "pending_ok (ms @ [m]) = pending_ok ms" by (intro ext) (simp add: pending_ok_def)
  show ?thesis unfolding eq
  proof (cases m)
    case (Arrives g)
    with False ok show "pending_ok ms (ts @ taken m s) (apply_move m s)"
      by (cases g) (simp_all add: pending_ok_def busy_def)
  next
    case (EndsWait i)
    with pending_ok_wait [OF ok] show "pending_ok ms (ts @ taken m s) (apply_move m s)" by simp
  next
    case (Stored i)
    with first_ok_more [OF ok [unfolded pending_ok_def], of "(wf_resolving s - {i}) \<union> insert i (wf_resolved s)"]
    show "pending_ok ms (ts @ taken m s) (apply_move m s)"
      by (auto simp: pending_ok_def busy_def mark_resolved_def modifyS_def)
  next
    case (Works w n)
    with ok show "pending_ok ms (ts @ taken m s) (apply_move m s)" by (simp add: pending_ok_def busy_def)
  qed
qed

lemma moves_pending_ok: "moves s ms ts t \<Longrightarrow> wf_tool_resolutions s = [] \<Longrightarrow> pending_ok ms ts t"
proof (induction rule: moves.induct)
  case (moves_none s)
  then show ?case by (simp add: pending_ok_def first_ok_def first_for_def)
next
  case (moves_more s ms ts u m)
  then show ?case by (intro pending_ok_move) blast
qed



end
