(* ===== verification/Workflow.thy ===== *)
theory Workflow
  imports Tool_Group
begin

text \<open>
  \<open>AgentThreadWorkflow\<close> and \<open>ContextSummaryWorkflow\<close> (\<open>actant/runtime/temporal/workflow.py\<close>): the loop over
  runs, the loop over turns, background summaries, cancellation and the rotation of Temporal's history.
  Timeouts, retry policies and logging are left to \<open>temporal\<close>. A wait that may never end and a thread that
  may never go idle take fuel; running out of it is \<open>None\<close>, the workflow still open.
\<close>

section \<open>Background summaries\<close>

definition drain_inbox :: "(thread_workflow, inbound_message list) act" where
  "drain_inbox = bnd getS (\<lambda>s. thn (modifyS (\<lambda>s. s\<lparr>wf_inbox := []\<rparr>)) (ret (wf_inbox s)))"

text \<open>\<open>new_messages\<close> with what arrived meanwhile, when the thread interleaves its inbox.\<close>

definition interleaved :: "thread_input \<Rightarrow> inbound_message list \<Rightarrow> (thread_workflow, inbound_message list) act" where
  "interleaved p new = bnd getS (\<lambda>s.
     if tp_interleave_inbox p \<and> wf_inbox s \<noteq> [] then bnd drain_inbox (\<lambda>more. ret (new @ more)) else ret new)"

definition ready_summary :: "(thread_workflow, context_summary option) act" where
  "ready_summary = bnd getS (\<lambda>s.
     thn (modifyS (\<lambda>s. s\<lparr>wf_summary_ready := None\<rparr>)) (ret (wf_summary_ready s)))"

definition take_summary :: "temporal \<Rightarrow> (thread_workflow, context_summary option) act" where
  "take_summary T = bnd getS (\<lambda>s.
     thn (modifyS (\<lambda>s. s\<lparr>wf_summary_job := None\<rparr>))
       (thn (case wf_summary_job s of
               None \<Rightarrow> ret ()
             | Some job \<Rightarrow>
                 (if wf_summary_ready s = None
                  then catch (bnd (await_activity T (tm_await_child T job))
                          (\<lambda>c. modifyS (\<lambda>s. s\<lparr>wf_summary_ready := Some c\<rparr>)))
                         (\<lambda>e. if err_type e = ''ChildWorkflowError'' then ret () else raise e)
                  else ret ()))
         ready_summary))"

definition config_of :: "thread_input \<Rightarrow> compaction_config" where
  "config_of p = (case tp_context_compaction p of Some c \<Rightarrow> c | None \<Rightarrow> default_compaction)"

definition compact_input ::
  "thread_input \<Rightarrow> string \<Rightarrow> string \<Rightarrow> int \<Rightarrow> compaction_trigger \<Rightarrow> compact_context_input" where
  "compact_input p rid turn_id turn_index trigger = \<lparr>ci_agent_id = tp_agent_id p, ci_thread_id = tp_thread_id p,
     ci_run_id = rid, ci_turn_id = turn_id, ci_turn_index = turn_index, ci_trigger = trigger,
     ci_config = config_of p\<rparr>"

definition start_summary ::
  "temporal \<Rightarrow> thread_input \<Rightarrow> string \<Rightarrow> string \<Rightarrow> int \<Rightarrow> compaction_trigger \<Rightarrow> (thread_workflow, unit) act" where
  "start_summary T p rid turn_id turn_index trigger = bnd getS (\<lambda>s.
     if wf_summary_job s \<noteq> None \<or> wf_summary_ready s \<noteq> None then ret ()
     else let child = tm_workflow_id T @ ''-summary'' in
       try_else (await_activity T (tm_start_child T
           \<lparr>sj_compact = compact_input p rid turn_id turn_index trigger,
            sj_compact_s = to_compact_s (tp_activity_timeouts p)\<rparr> child))
         (\<lambda>e. if err_type e = ''WorkflowAlreadyStartedError'' then ret () else raise e)
         (\<lambda>_. modifyS (\<lambda>s. s\<lparr>wf_summary_job := Some child\<rparr>)))"

text \<open>\<open>_store\<close>, shared by both workflows: \<open>aw\<close> is how the activity is awaited.\<close>

definition store_quietly :: "('s, unit) act \<Rightarrow> ('s, unit) act" where
  "store_quietly m = catch m (\<lambda>e. if is_activity_error e then ret () else raise e)"

definition store_ready_at_end :: "temporal \<Rightarrow> thread_input \<Rightarrow> (thread_workflow, unit) act" where
  "store_ready_at_end T p = bnd getS (\<lambda>s. bnd ready_summary (\<lambda>summary.
     case summary of
       None \<Rightarrow> raise AssertionError
     | Some c \<Rightarrow> store_quietly (await_activity T (tm_store_summary T
          \<lparr>ss_agent_id = wf_agent_id s, ss_thread_id = wf_thread_id s, ss_run_id = wf_last_run_id s,
           ss_summary = c, ss_config = config_of p\<rparr>))))"

text \<open>\<open>ContextSummaryWorkflow.run\<close>: the thread is signalled, or the summary stored when it has closed.\<close>

definition summary_workflow :: "temporal \<Rightarrow> summary_job \<Rightarrow> bool \<Rightarrow> (world, context_summary) act" where
  "summary_workflow T job has_parent =
     bnd (tm_summarize_context T (sj_compact job)) (\<lambda>summary.
     if \<not> has_parent then raise AssertionError
     else thn (catch (tm_signal_thread T summary)
            (\<lambda>e. case e of
               ApplicationError _ _ _ \<Rightarrow> (let c = sj_compact job in
                 store_quietly (tm_store_summary T \<lparr>ss_agent_id = ci_agent_id c, ss_thread_id = ci_thread_id c,
                   ss_run_id = ci_run_id c, ss_summary = summary, ss_config = ci_config c\<rparr>))
             | _ \<Rightarrow> raise e))
          (ret summary))"

section \<open>One turn\<close>

text \<open>The model turn, after waiting for a summary or compacting when it reports that it would cross a
  limit.\<close>

definition compacted_turn ::
  "temporal \<Rightarrow> thread_input \<Rightarrow> run_turn_input \<Rightarrow> compaction_trigger \<Rightarrow> (thread_workflow, turn_result) act" where
  "compacted_turn T p q trigger =
     thn (await_activity T (tm_compact_context T
            (compact_input p (ti_run_id q) (ti_turn_id q) (ti_turn_index q) trigger)))
       (bnd (interleaved p (ti_new_messages q)) (\<lambda>new.
        await_activity T (tm_run_turn T (q\<lparr>ti_new_messages := new, ti_compacted := True, ti_summary := None\<rparr>))))"

definition awaited_turn ::
  "temporal \<Rightarrow> thread_input \<Rightarrow> run_turn_input \<Rightarrow> turn_result \<Rightarrow> (thread_workflow, run_turn_input \<times> turn_result) act" where
  "awaited_turn T p q turn = bnd getS (\<lambda>s.
     if tu_compaction turn \<noteq> None \<and> (wf_summary_job s \<noteq> None \<or> wf_summary_ready s \<noteq> None)
     then bnd (take_summary T) (\<lambda>summary.
       case summary of
         None \<Rightarrow> ret (q, turn)
       | Some c \<Rightarrow> bnd (interleaved p (ti_new_messages q)) (\<lambda>new.
           let q' = q\<lparr>ti_new_messages := new, ti_summary := Some c, ti_admitted := True\<rparr>
           in bnd (await_activity T (tm_run_turn T q')) (\<lambda>turn'. ret (q', turn'))))
     else ret (q, turn))"

definition make_turn :: "temporal \<Rightarrow> thread_input \<Rightarrow> run_turn_input \<Rightarrow> (thread_workflow, turn_result) act" where
  "make_turn T p q =
     bnd (await_activity T (tm_run_turn T q)) (\<lambda>turn.
     bnd (awaited_turn T p q turn) (\<lambda>(q', turn').
     case tu_compaction turn' of None \<Rightarrow> ret turn' | Some trigger \<Rightarrow> compacted_turn T p q' trigger))"

definition set_stop_reason :: "string option \<Rightarrow> (thread_workflow, unit) act" where
  "set_stop_reason r = modifyS (\<lambda>s. s\<lparr>wf_stop_reason := r\<rparr>)"

text \<open>The end of the loop: cancelled or out of turns.\<close>

definition out_of_turns :: "(thread_workflow, run_outcome) act" where
  "out_of_turns = bnd getS (\<lambda>s. ret (if wf_cancelled s then RunCancelled else RunExhausted))"

definition turn_input ::
  "temporal \<Rightarrow> thread_input \<Rightarrow> string \<Rightarrow> inbound_message list \<Rightarrow> int \<Rightarrow> (thread_workflow, run_turn_input) act" where
  "turn_input T p rid new text_only = bnd getS (\<lambda>s. bnd ready_summary (\<lambda>summary.
     ret \<lparr>ti_agent_id = tp_agent_id p, ti_thread_id = tp_thread_id p, ti_run_id = rid,
          ti_turn_id = tm_uuid T (wf_clock s), ti_turn_index = wf_turn_count_total s + 1,
          ti_new_messages = new, ti_text_only_turns = text_only,
          ti_context_compaction = tp_context_compaction p, ti_compacted = False, ti_summary = summary,
          ti_admitted = False\<rparr>))"

definition count_made_turn :: "(thread_workflow, unit) act" where
  "count_made_turn = modifyS (\<lambda>s. s\<lparr>wf_turn_count_total := wf_turn_count_total s + 1\<rparr>)"

text \<open>What a turn does to its run: it goes on (with one more text-only turn or with none), or ends.\<close>

definition after_tools ::
  "temporal \<Rightarrow> thread_input \<Rightarrow> turn_result \<Rightarrow> (thread_workflow, run_outcome option) act" where
  "after_tools T p turn = try_else (run_tool_group T p turn)
     (\<lambda>e. if is_activity_error e then thn (set_stop_reason (Some (cause_str e))) (ret (Some RunFailed)) else raise e)
     (\<lambda>should_stop. bnd getS (\<lambda>s. ret (if wf_cancelled s then Some RunCancelled
        else if should_stop then Some RunCompleted else None)))"

fun run_agent ::
  "temporal \<Rightarrow> thread_input \<Rightarrow> string \<Rightarrow> nat \<Rightarrow> inbound_message list \<Rightarrow> int \<Rightarrow> (thread_workflow, run_outcome) act" where
  "run_agent T p rid 0 new text_only = out_of_turns"
| "run_agent T p rid (Suc turns) new text_only = bnd getS (\<lambda>s.
     if wf_cancelled s then out_of_turns
     else bnd (interleaved p new) (\<lambda>new.
       bnd (turn_input T p rid new text_only) (\<lambda>q.
       try_else (make_turn T p q)
         (\<lambda>e. thn (set_stop_reason (Some (cause_str e))) (ret RunFailed))
         (\<lambda>turn.
            thn count_made_turn
              (thn (case tu_summarize turn of None \<Rightarrow> ret ()
                    | Some trigger \<Rightarrow> start_summary T p rid (ti_turn_id q) (ti_turn_index q) trigger)
                (if tu_tool_calls turn = [] then
                   (if tu_reminded turn then run_agent T p rid turns [] (text_only + 1)
                    else if nonempty (tu_stop_reason turn)
                    then thn (set_stop_reason (tu_stop_reason turn)) (ret RunExhausted)
                    else ret RunCompleted)
                 else bnd (after_tools T p turn) (\<lambda>outcome.
                   case outcome of Some oc \<Rightarrow> ret oc | None \<Rightarrow> run_agent T p rid turns [] text_only)))))))"

section \<open>One run\<close>

definition start_input :: "thread_input \<Rightarrow> string \<Rightarrow> start_run_input" where
  "start_input p rid = \<lparr>si_agent_id = tp_agent_id p, si_thread_id = tp_thread_id p, si_run_id = rid,
     si_max_turns = tp_max_turns_per_run p, si_parent_thread_id = tp_parent_thread_id p,
     si_sandbox_id = tp_sandbox_id p, si_sandbox_access = tp_sandbox_access p,
     si_summarizer = cc_summarizer (config_of p)\<rparr>"

definition finalize_input :: "thread_input \<Rightarrow> string \<Rightarrow> run_outcome \<Rightarrow> int \<Rightarrow> string option \<Rightarrow> finalize_run_input" where
  "finalize_input p rid oc turn_count reason = \<lparr>fi_agent_id = tp_agent_id p, fi_thread_id = tp_thread_id p,
     fi_run_id = rid, fi_outcome = outcome_str oc, fi_turn_count = turn_count, fi_stop_reason = reason\<rparr>"

text \<open>A run that was opened: its turns, unless its agent could not be resolved, and its end.\<close>

definition run_started ::
  "temporal \<Rightarrow> thread_input \<Rightarrow> string \<Rightarrow> inbound_message list \<Rightarrow> started_run \<Rightarrow> (thread_workflow, unit) act" where
  "run_started T p rid new started =
     thn (modifyS (\<lambda>s. s\<lparr>wf_turn_count_total := st_turn_count started, wf_stop_reason := st_error started\<rparr>))
       (bnd (if st_error started \<noteq> None then ret RunFailed
             else run_agent T (p\<lparr>tp_max_turns_per_run := Some (st_max_turns started)\<rparr>) rid
                    (nat (st_max_turns started)) new 0) (\<lambda>oc.
        bnd getS (\<lambda>s.
        thn (await_activity T (tm_finalize_run T
               (finalize_input p rid oc (wf_turn_count_total s) (wf_stop_reason s))))
          (modifyS (\<lambda>s. s\<lparr>wf_current_run_id := None\<rparr>)))))"

definition run_next_agent_run :: "temporal \<Rightarrow> thread_input \<Rightarrow> (thread_workflow, unit) act" where
  "run_next_agent_run T p = bnd getS (\<lambda>s.
     (let rid = tm_uuid T (wf_clock s) in
      thn (modifyS (\<lambda>s. s\<lparr>wf_current_run_id := Some rid, wf_last_run_id := rid\<rparr>))
        (bnd drain_inbox (\<lambda>new.
         bnd (await_activity T (tm_start_run T (start_input p rid))) (run_started T p rid new)))))"

definition record_cancellation :: "temporal \<Rightarrow> thread_input \<Rightarrow> (thread_workflow, unit) act" where
  "record_cancellation T p = bnd getS (\<lambda>s.
     thn (case wf_current_run_id s of
            None \<Rightarrow> ret ()
          | Some rid \<Rightarrow> await_activity T (tm_finalize_run T
              (finalize_input p rid RunCancelled (wf_turn_count_total s) None)))
       (await_activity T (tm_apply_cancellation T (tp_agent_id p) (tp_thread_id p))))"

section \<open>The thread\<close>

datatype thread_end = ThreadEnds thread_outcome | ContinuesAsNew thread_input

definition history_rotation_threshold :: "thread_input \<Rightarrow> int" where
  "history_rotation_threshold p = max 1 (tp_history_size_threshold p)"

definition carried_input :: "thread_input \<Rightarrow> thread_workflow \<Rightarrow> thread_input" where
  "carried_input p s = (new_thread_input (tp_agent_id p) (tp_thread_id p))\<lparr>
     tp_max_turns_per_run := tp_max_turns_per_run p, tp_resolution_timeout := tp_resolution_timeout p,
     tp_carry_inbox := wf_inbox s, tp_history_size_threshold := tp_history_size_threshold p,
     tp_turn_count_total := wf_turn_count_total s, tp_interleave_inbox := tp_interleave_inbox p,
     tp_context_compaction := tp_context_compaction p, tp_activity_timeouts := tp_activity_timeouts p,
     tp_context := tp_context p\<rparr>"

definition rotates :: "temporal \<Rightarrow> thread_input \<Rightarrow> thread_workflow \<Rightarrow> bool" where
  "rotates T p s \<longleftrightarrow> \<not> tm_history_length T (wf_clock s) \<le> history_rotation_threshold p \<and> wf_summary_ready s = None"

definition open_workflow :: "thread_input \<Rightarrow> thread_workflow \<Rightarrow> thread_workflow" where
  "open_workflow p s = s\<lparr>wf_agent_id := tp_agent_id p, wf_thread_id := tp_thread_id p,
     wf_turn_count_total := tp_turn_count_total p, wf_inbox := wf_inbox s @ tp_carry_inbox p\<rparr>"

text \<open>\<open>_wait_for_message_or_cancellation\<close>: one await per unit of fuel.\<close>

fun wait_for_message :: "temporal \<Rightarrow> nat \<Rightarrow> thread_workflow \<Rightarrow> ((py_error + unit) \<times> thread_workflow) option" where
  "wait_for_message T fuel s =
     (if wf_inbox s \<noteq> [] \<or> wf_cancelled s then Some (Inr (), s)
      else if tm_stops T (wf_clock s) then Some (Inl CancelledError, s)
      else case fuel of 0 \<Rightarrow> None | Suc n \<Rightarrow> wait_for_message T n (tick T s))"

text \<open>A summary that arrived after the last turn is stored when the thread is about to close; then the
  thread closes, rotates its history, or goes round again (\<open>None\<close>).\<close>

definition store_if_idle :: "temporal \<Rightarrow> thread_input \<Rightarrow> (thread_workflow, unit) act" where
  "store_if_idle T p = bnd getS (\<lambda>s.
     whenM (wf_inbox s = [] \<and> wf_summary_ready s \<noteq> None) (store_ready_at_end T p))"

definition next_round :: "temporal \<Rightarrow> thread_input \<Rightarrow> (thread_workflow, thread_end option) act" where
  "next_round T p = bnd getS (\<lambda>s.
     if wf_inbox s = [] then ret (Some (ThreadEnds ThreadStopped))
     else if rotates T p s then ret (Some (ContinuesAsNew (carried_input p s)))
     else ret None)"

definition thread_round :: "temporal \<Rightarrow> thread_input \<Rightarrow> (thread_workflow, thread_end option) act" where
  "thread_round T p = bnd getS (\<lambda>s.
     if wf_cancelled s then ret (Some (ThreadEnds ThreadWasCancelled))
     else thn (run_next_agent_run T p) (thn (store_if_idle T p) (next_round T p)))"

fun thread_loop ::
  "temporal \<Rightarrow> thread_input \<Rightarrow> nat \<Rightarrow> thread_workflow \<Rightarrow> ((py_error + thread_end) \<times> thread_workflow) option" where
  "thread_loop T p fuel s =
     (case wait_for_message T fuel s of
        None \<Rightarrow> None
      | Some (Inl e, s1) \<Rightarrow> Some (Inl e, s1)
      | Some (Inr _, s1) \<Rightarrow>
          (case thread_round T p s1 of
             (Inl e, s2) \<Rightarrow> Some (Inl e, s2)
           | (Inr (Some r), s2) \<Rightarrow> Some (Inr r, s2)
           | (Inr None, s2) \<Rightarrow> (case fuel of 0 \<Rightarrow> None | Suc n \<Rightarrow> thread_loop T p n s2)))"

text \<open>\<open>run\<close>: a cancellation asked of Temporal is recorded before it is raised again.\<close>

definition run_thread ::
  "temporal \<Rightarrow> thread_input \<Rightarrow> nat \<Rightarrow> thread_workflow \<Rightarrow> ((py_error + thread_end) \<times> thread_workflow) option" where
  "run_thread T p fuel s = map_option
     (\<lambda>(r, s'). if r = Inl CancelledError then thn (record_cancellation T p) (raise CancelledError) s' else (r, s'))
     (thread_loop T p fuel (open_workflow p s))"

section \<open>Contracts of a run and of a thread\<close>

text \<open>A relation that the bookkeeping of the inbox, of summaries and of the stop reason respects too is
  respected by every step of a turn; with the counts and run ids as well, by a whole run.\<close>

locale run_contract = workflow_contract R T
  for R :: "thread_workflow \<Rightarrow> thread_workflow \<Rightarrow> bool" and T :: temporal +
  assumes step_inbox: "R s (s\<lparr>wf_inbox := []\<rparr>)"
    and step_ready: "R s (s\<lparr>wf_summary_ready := c\<rparr>)"
    and step_job: "R s (s\<lparr>wf_summary_job := j\<rparr>)"
    and step_reason: "R s (s\<lparr>wf_stop_reason := m\<rparr>)"
begin

lemma keeps_drain_inbox: "keeps R drain_inbox"
  unfolding drain_inbox_def by (intro keeps_monad keeps_modifyS step_inbox)

lemma keeps_interleaved: "keeps R (interleaved p new)"
  unfolding interleaved_def by (intro keeps_monad keeps_drain_inbox)

lemma keeps_ready_summary: "keeps R ready_summary"
  unfolding ready_summary_def by (intro keeps_monad keeps_modifyS step_ready)

lemma keeps_set_stop_reason: "keeps R (set_stop_reason r)"
  unfolding set_stop_reason_def by (intro keeps_modifyS step_reason)

lemma keeps_take_summary: "keeps R (take_summary T)"
  unfolding take_summary_def
  by (intro keeps_monad keeps_modifyS keeps_await keeps_ready_summary step_ready step_job)

lemma keeps_start_summary: "keeps R (start_summary T p rid tid ti trigger)"
  unfolding start_summary_def Let_def by (intro keeps_monad keeps_modifyS keeps_await step_job)

lemma keeps_store_quietly: "keeps R m \<Longrightarrow> keeps R (store_quietly m)"
  unfolding store_quietly_def by (intro keeps_monad)

lemma keeps_store_ready: "keeps R (store_ready_at_end T p)"
  unfolding store_ready_at_end_def by (intro keeps_monad keeps_ready_summary keeps_store_quietly keeps_await)

lemma keeps_make_turn: "keeps R (make_turn T p q)"
  unfolding make_turn_def awaited_turn_def compacted_turn_def Let_def
  by (auto intro!: keeps_monad keeps_await keeps_take_summary keeps_interleaved split: prod.split)

lemma keeps_turn_input: "keeps R (turn_input T p rid new text_only)"
  unfolding turn_input_def by (intro keeps_monad keeps_ready_summary)

lemma keeps_after_tools: "keeps R (after_tools T p turn)"
  unfolding after_tools_def by (intro keeps_monad keeps_run_group keeps_set_stop_reason)

end

locale thread_contract = run_contract R T
  for R :: "thread_workflow \<Rightarrow> thread_workflow \<Rightarrow> bool" and T :: temporal +
  assumes step_count: "R s (s\<lparr>wf_turn_count_total := n\<rparr>)"
    and step_run_id: "R s (s\<lparr>wf_current_run_id := rid\<rparr>)"
    and step_last_id: "R s (s\<lparr>wf_last_run_id := lid\<rparr>)"
begin

lemma keeps_count_made: "keeps R count_made_turn"
  unfolding count_made_turn_def by (intro keeps_modifyS step_count)

lemma keeps_run_agent: "keeps R (run_agent T p rid n new text_only)"
proof (induction n arbitrary: new text_only)
  case 0
  then show ?case by (simp add: out_of_turns_def keeps_bnd keeps_getS keeps_ret)
next
  case (Suc n)
  have "keeps R out_of_turns" unfolding out_of_turns_def by (intro keeps_monad)
  with Suc show ?case unfolding run_agent.simps
    by (intro keeps_monad keeps_interleaved keeps_turn_input keeps_make_turn keeps_set_stop_reason
        keeps_count_made keeps_start_summary keeps_after_tools) auto
qed

end

text \<open>Nothing but the end of a turn counts turns, and a cancellation is not taken back.\<close>

definition same_count :: "thread_workflow \<Rightarrow> thread_workflow \<Rightarrow> bool" where
  "same_count s t \<longleftrightarrow> wf_turn_count_total t = wf_turn_count_total s \<and> (wf_cancelled s \<longrightarrow> wf_cancelled t)"

lemma delivered_count [simp]: "wf_turn_count_total (fold deliver gs s) = wf_turn_count_total s"
proof (induction gs arbitrary: s)
  case (Cons g gs)
  then show ?case by (cases g) (simp_all add: resolve_signal_def Let_def)
qed simp

interpretation sc: run_contract same_count T for T
  by unfold_locales
    (auto simp: same_count_def tick_def Let_def delivered_cancelled end_wait_def split: option.split)

text \<open>The clock runs, and once no message arrives any more an empty inbox stays empty.\<close>

definition quiet :: "temporal \<Rightarrow> nat \<Rightarrow> bool" where
  "quiet T n \<longleftrightarrow> (\<forall>k \<ge> n. \<forall>m. Inbound m \<notin> set (tm_signals T k))"

definition inbox_step :: "temporal \<Rightarrow> nat \<Rightarrow> thread_workflow \<Rightarrow> thread_workflow \<Rightarrow> bool" where
  "inbox_step T n s t \<longleftrightarrow> wf_clock s \<le> wf_clock t
     \<and> (quiet T n \<and> n \<le> wf_clock s \<and> wf_inbox s = [] \<longrightarrow> wf_inbox t = [])"

lemma delivered_inbox:
  "\<forall>m. Inbound m \<notin> set gs \<Longrightarrow> wf_inbox (fold deliver gs s) = wf_inbox s"
proof (induction gs arbitrary: s)
  case (Cons g gs)
  then have "wf_inbox (deliver g s) = wf_inbox s" by (cases g) (auto simp: resolve_signal_def Let_def)
  with Cons show ?case by simp
qed simp

interpretation ib: thread_contract "inbox_step T n" T for T n
proof unfold_locales
  fix s w
  show "inbox_step T n s (tick T (s\<lparr>wf_world := w\<rparr>))"
    by (simp add: inbox_step_def tick_def Let_def quiet_def delivered_inbox)
qed (auto simp: inbox_step_def end_wait_def split: option.split)

section \<open>Properties\<close>

definition run_post ::
  "nat \<Rightarrow> thread_workflow \<Rightarrow> py_error + run_outcome \<Rightarrow> thread_workflow \<Rightarrow> bool" where
  "run_post n s r s' \<longleftrightarrow>
     wf_turn_count_total s \<le> wf_turn_count_total s' \<and> wf_turn_count_total s' \<le> wf_turn_count_total s + int n
     \<and> (wf_cancelled s \<longrightarrow> wf_cancelled s')
     \<and> (r = Inr RunCancelled \<longrightarrow> wf_cancelled s')
     \<and> (r = Inr RunFailed \<longrightarrow> wf_stop_reason s' \<noteq> None)
     \<and> (r = Inr RunExhausted \<longrightarrow> wf_turn_count_total s' = wf_turn_count_total s + int n \<or> nonempty (wf_stop_reason s'))"

lemma run_post_raise: "same_count s t \<Longrightarrow> run_post n s (Inl e) t"
  by (simp add: run_post_def same_count_def)

lemma run_post_before: "same_count s t \<Longrightarrow> run_post n t r s' \<Longrightarrow> run_post n s r s'"
  by (auto simp: run_post_def same_count_def)

lemma run_post_turn: "run_post n (t\<lparr>wf_turn_count_total := wf_turn_count_total t + 1\<rparr>) r s' \<Longrightarrow> run_post (Suc n) t r s'"
  by (auto simp: run_post_def)

lemma ensures_count:
  "keeps same_count m \<Longrightarrow> (\<And>r t. same_count s t \<Longrightarrow> Q r t) \<Longrightarrow> ensures m s Q"
  by (rule ensures_keeps)

lemma after_tools_ends:
  "ensures (after_tools T p turn) s (\<lambda>r t. same_count s t \<and> (\<forall>oc. r = Inr (Some oc) \<longrightarrow>
     oc \<noteq> RunExhausted \<and> (oc = RunCancelled \<longrightarrow> wf_cancelled t) \<and> (oc = RunFailed \<longrightarrow> wf_stop_reason t \<noteq> None)))"
  unfolding after_tools_def ensures_simps
  by (rule ensures_count [OF sc.keeps_run_group])
    (auto simp: ensures_simps set_stop_reason_def same_count_def split: sum.split)

lemma ensures_count_made:
  "ensures (thn count_made_turn k) u Q \<longleftrightarrow> ensures k (u\<lparr>wf_turn_count_total := wf_turn_count_total u + 1\<rparr>) Q"
  by (simp add: ensures_simps count_made_turn_def)

lemma run_agent_post: "ensures (run_agent T p rid n new text_only) s (run_post n s)"
proof (induction n arbitrary: new text_only s)
  case 0
  then show ?case by (simp add: out_of_turns_def ensures_simps run_post_def)
next
  case (Suc n)
  show ?case
  proof (cases "wf_cancelled s")
    case True
    then show ?thesis by (simp add: out_of_turns_def ensures_simps run_post_def)
  next
    case False
    have after: "ensures (thn count_made_turn
        (thn (case tu_summarize turn of None \<Rightarrow> ret ()
              | Some trigger \<Rightarrow> start_summary T p rid (ti_turn_id q) (ti_turn_index q) trigger)
          (if tu_tool_calls turn = [] then
             (if tu_reminded turn then run_agent T p rid n [] (text_only + 1)
              else if nonempty (tu_stop_reason turn)
              then thn (set_stop_reason (tu_stop_reason turn)) (ret RunExhausted)
              else ret RunCompleted)
           else bnd (after_tools T p turn) (\<lambda>outcome.
             case outcome of Some oc \<Rightarrow> ret oc | None \<Rightarrow> run_agent T p rid n [] text_only)))) u (run_post (Suc n) u)"
      (is "ensures (thn _ (thn ?start ?rest)) u _") for turn q u
    proof -
      let ?u = "u\<lparr>wf_turn_count_total := wf_turn_count_total u + 1\<rparr>"
      have "ensures ?rest v (run_post n v)" for v
      proof (cases "tu_tool_calls turn = []")
        case True
        then show ?thesis
          by (simp add: Suc.IH ensures_simps set_stop_reason_def run_post_def)
      next
        case False
        have "ensures (bnd (after_tools T p turn) (\<lambda>outcome.
             case outcome of Some oc \<Rightarrow> ret oc | None \<Rightarrow> run_agent T p rid n [] text_only)) v (run_post n v)"
          unfolding ensures_bnd
        proof (rule ensures_mono [OF after_tools_ends])
          fix r :: "py_error + run_outcome option" and t
          assume r: "same_count v t \<and> (\<forall>oc. r = Inr (Some oc) \<longrightarrow>
             oc \<noteq> RunExhausted \<and> (oc = RunCancelled \<longrightarrow> wf_cancelled t) \<and> (oc = RunFailed \<longrightarrow> wf_stop_reason t \<noteq> None))"
          from r have "run_post n v (Inr oc) t" if "r = Inr (Some oc)" for oc
            using that by (auto simp: run_post_def same_count_def)
          moreover have "ensures (run_agent T p rid n [] text_only) t (run_post n v)"
            using Suc.IH r by (blast intro: ensures_mono run_post_before)
          ultimately show "case r of Inl e \<Rightarrow> run_post n v (Inl e) t
            | Inr outcome \<Rightarrow> ensures (case outcome of Some oc \<Rightarrow> ret oc | None \<Rightarrow> run_agent T p rid n [] text_only) t (run_post n v)"
            using r by (auto simp: ensures_simps run_post_raise split: sum.split option.split)
        qed
        with False show ?thesis by simp
      qed
      note rest0 = this
      have rest: "ensures ?rest v (run_post n ?u)" if "same_count ?u v" for v
        by (rule ensures_mono [OF rest0]) (rule run_post_before [OF that])
      have start: "keeps same_count ?start" by (auto intro!: sc.keeps_monad sc.keeps_start_summary)
      have "ensures (thn ?start ?rest) ?u (run_post n ?u)"
        by (rule sc.thn_after [OF start sc.step_refl]) (rule run_post_raise, assumption, rule rest)
      then show ?thesis unfolding ensures_count_made by (rule ensures_mono) (rule run_post_turn)
    qed
    have failed: "ensures (thn (set_stop_reason (Some m)) (ret RunFailed)) u (run_post (Suc n) u)" for m u
      by (simp add: ensures_simps set_stop_reason_def run_post_def)
    let ?after = "\<lambda>q turn. thn count_made_turn
        (thn (case tu_summarize turn of None \<Rightarrow> ret ()
              | Some trigger \<Rightarrow> start_summary T p rid (ti_turn_id q) (ti_turn_index q) trigger)
          (if tu_tool_calls turn = [] then
             (if tu_reminded turn then run_agent T p rid n [] (text_only + 1)
              else if nonempty (tu_stop_reason turn)
              then thn (set_stop_reason (tu_stop_reason turn)) (ret RunExhausted)
              else ret RunCompleted)
           else bnd (after_tools T p turn) (\<lambda>outcome.
             case outcome of Some oc \<Rightarrow> ret oc | None \<Rightarrow> run_agent T p rid n [] text_only)))"
    have made: "ensures (try_else (make_turn T p q)
        (\<lambda>e. thn (set_stop_reason (Some (cause_str e))) (ret RunFailed)) (?after q)) u (run_post (Suc n) u)" for q u
      by (rule sc.try_after [OF sc.keeps_make_turn sc.step_refl])
        (rule run_post_raise, assumption, rule ensures_mono [OF failed], rule run_post_before, assumption+,
          rule ensures_mono [OF after], rule run_post_before, assumption+)
    have inp: "ensures (bnd (turn_input T p rid new' text_only) (\<lambda>q. try_else (make_turn T p q)
        (\<lambda>e. thn (set_stop_reason (Some (cause_str e))) (ret RunFailed)) (?after q))) u (run_post (Suc n) u)" for new' u
      by (rule sc.bnd_after [OF sc.keeps_turn_input sc.step_refl])
        (rule run_post_raise, assumption, rule ensures_mono [OF made], rule run_post_before, assumption+)
    have "ensures (bnd (interleaved p new) (\<lambda>new. bnd (turn_input T p rid new text_only) (\<lambda>q. try_else (make_turn T p q)
        (\<lambda>e. thn (set_stop_reason (Some (cause_str e))) (ret RunFailed)) (?after q)))) s (run_post (Suc n) s)"
      by (rule sc.bnd_after [OF sc.keeps_interleaved sc.step_refl])
        (rule run_post_raise, assumption, rule ensures_mono [OF inp], rule run_post_before, assumption+)
    with False show ?thesis by (simp add: ensures_bnd [of getS] ensures_getS)
  qed
qed

text \<open>C11. A run of an agent makes at most as many turns as its budget, and its outcome is accounted for: it
  is cancelled only when the thread was, failed only with a reason recorded, and exhausted only when the
  whole budget was used or a turn said why it stops.\<close>

theorem run_agent_bounded:
  assumes "run_agent T p rid n new text_only s = (r, s')"
  shows "wf_turn_count_total s \<le> wf_turn_count_total s' \<and> wf_turn_count_total s' \<le> wf_turn_count_total s + int n
     \<and> (r = Inr RunCancelled \<longrightarrow> wf_cancelled s') \<and> (r = Inr RunFailed \<longrightarrow> wf_stop_reason s' \<noteq> None)
     \<and> (r = Inr RunExhausted \<longrightarrow> wf_turn_count_total s' = wf_turn_count_total s + int n \<or> nonempty (wf_stop_reason s'))"
  using run_agent_post [of T p rid n new text_only s] assms by (simp add: ensures_def run_post_def)

theorem run_agent_bounded_witness:
  "\<exists>r s'. run_agent (direct_temporal sample_context) (new_thread_input ''a'' ''t'') ''r'' 2 [] 0
       (new_workflow new_world) = (r, s') \<and> wf_turn_count_total s' \<le> 2"
proof -
  obtain r s' where run: "run_agent (direct_temporal sample_context) (new_thread_input ''a'' ''t'') ''r'' 2 [] 0
       (new_workflow new_world) = (r, s')" by fastforce
  with run_agent_bounded [OF run] show ?thesis by (simp add: new_workflow_def)
qed

text \<open>One run: the clock moves on, and a quiet thread has an empty inbox after it.\<close>

lemma run_next_eq:
  "run_next_agent_run T p s =
     bnd (await_activity T (tm_start_run T (start_input p (tm_uuid T (wf_clock s)))))
       (run_started T p (tm_uuid T (wf_clock s)) (wf_inbox s))
       (s\<lparr>wf_current_run_id := Some (tm_uuid T (wf_clock s)), wf_last_run_id := tm_uuid T (wf_clock s), wf_inbox := []\<rparr>)"
  by (simp add: run_next_agent_run_def drain_inbox_def thn_def bnd_def getS_def modifyS_def ret_def Let_def
      cong: prod.case_cong sum.case_cong)

lemma keeps_run_started: "keeps (inbox_step T n) (run_started T p rid new started)"
proof -
  have "inbox_step T n u (u\<lparr>wf_turn_count_total := c, wf_stop_reason := m\<rparr>)" for u c m
    using ib.step_trans [OF ib.step_count ib.step_reason] by simp
  then show ?thesis unfolding run_started_def
    by (intro ib.keeps_monad ib.keeps_modifyS ib.keeps_await ib.keeps_run_agent ib.step_run_id)
qed

lemma run_next_quiet:
  assumes "run_next_agent_run T p s = (r, t)"
  shows "wf_clock s < wf_clock t" and "quiet T n \<Longrightarrow> n \<le> wf_clock s \<Longrightarrow> wf_inbox t = []"
proof -
  let ?rid = "tm_uuid T (wf_clock s)"
  let ?s0 = "s\<lparr>wf_current_run_id := Some ?rid, wf_last_run_id := ?rid, wf_inbox := []\<rparr>"
  let ?m = "tm_start_run T (start_input p ?rid)"
  obtain r1 s1 where run: "await_activity T ?m ?s0 = (r1, s1)" by fastforce
  then have c1: "wf_clock s1 = Suc (wf_clock s)" by (auto simp: await_activity_eq)
  have st: "inbox_step T n ?s0 s1" for n using keepsD [OF ib.keeps_await, of T n ?s0 ?m] run by simp
  have "inbox_step T n s1 t" for n
  proof (cases r1)
    case (Inr b)
    with assms run have "run_started T p ?rid (wf_inbox s) b s1 = (r, t)" by (simp add: run_next_eq bnd_def)
    with keepsD [OF keeps_run_started, of T n s1 p ?rid "wf_inbox s" b] show ?thesis by simp
  next
    case (Inl e)
    with assms run show ?thesis by (simp add: run_next_eq bnd_def ib.step_refl)
  qed
  note rest = this
  from rest [of 0] c1 show "wf_clock s < wf_clock t" by (simp add: inbox_step_def)
  from ib.step_trans [OF st rest, of n] show "quiet T n \<Longrightarrow> n \<le> wf_clock s \<Longrightarrow> wf_inbox t = []"
    by (simp add: inbox_step_def)
qed

lemma keeps_store_if_idle: "keeps (inbox_step T n) (store_if_idle T p)"
  unfolding store_if_idle_def by (intro ib.keeps_monad ib.keeps_store_ready)

lemma thn_result: "thn m k s = (Inr a, t) \<longleftrightarrow> (\<exists>b u. m s = (Inr b, u) \<and> k u = (Inr a, t))"
  by (auto simp: thn_def bnd_def split: prod.splits sum.splits)

lemma next_round_eq: "next_round T p s = (Inr r, t) \<longleftrightarrow> t = s \<and> r = (if wf_inbox s = [] then Some (ThreadEnds ThreadStopped)
    else if rotates T p s then Some (ContinuesAsNew (carried_input p s)) else None)"
  by (auto simp: next_round_def act_defs)

lemma round_progress:
  assumes "thread_round T p s = (Inr r, t)"
  shows "r = None \<Longrightarrow> wf_clock s < wf_clock t \<and> wf_inbox t \<noteq> [] \<and> \<not> (quiet T n \<and> n \<le> wf_clock s)"
    and "r = Some (ThreadEnds ThreadStopped) \<Longrightarrow> wf_inbox t = []"
proof -
  have cancelled: "r = Some (ThreadEnds ThreadWasCancelled)" if "wf_cancelled s"
    using assms that by (simp add: thread_round_def act_defs)
  have ran: "\<exists>u v. run_next_agent_run T p s = (Inr (), u) \<and> store_if_idle T p u = (Inr (), v) \<and> next_round T p v = (Inr r, t)"
    if "\<not> wf_cancelled s"
    using assms that by (simp add: thread_round_def bnd_def [of getS] getS_def thn_result)
  have steps: "inbox_step T n u v" if "store_if_idle T p u = (Inr (), v)" for u v n
    using keepsD [OF keeps_store_if_idle, of T n u p] that by simp
  show "r = None \<Longrightarrow> wf_clock s < wf_clock t \<and> wf_inbox t \<noteq> [] \<and> \<not> (quiet T n \<and> n \<le> wf_clock s)"
  proof -
    assume r: "r = None"
    with cancelled have "\<not> wf_cancelled s" by blast
    from ran [OF this] obtain u v where uv: "run_next_agent_run T p s = (Inr (), u)"
      "store_if_idle T p u = (Inr (), v)" "next_round T p v = (Inr r, t)" by blast
    from uv(3) r have "v = t" "wf_inbox t \<noteq> []" by (simp_all add: next_round_eq split: if_splits)
    with uv have u: "run_next_agent_run T p s = (Inr (), u)" "store_if_idle T p u = (Inr (), t)" "wf_inbox t \<noteq> []"
      by simp_all
    from steps [OF u(2), of n] run_next_quiet(1) [OF u(1)] run_next_quiet(2) [OF u(1), of n] u(3) show ?thesis by (auto simp: inbox_step_def)
  qed
  show "r = Some (ThreadEnds ThreadStopped) \<Longrightarrow> wf_inbox t = []"
  proof -
    assume r: "r = Some (ThreadEnds ThreadStopped)"
    with cancelled have "\<not> wf_cancelled s" by auto
    from ran [OF this] obtain v where "next_round T p v = (Inr r, t)" by blast
    with r show ?thesis by (simp add: next_round_eq split: if_splits)
  qed
qed

declare thread_loop.simps [simp del] wait_for_message.simps [simp del]

lemma wait_ready: "wf_inbox s \<noteq> [] \<or> wf_cancelled s \<Longrightarrow> wait_for_message T fuel s = Some (Inr (), s)"
  by (simp add: wait_for_message.simps)

lemma thread_loop_ends:
  "quiet T n \<Longrightarrow> wf_inbox s \<noteq> [] \<or> wf_cancelled s \<Longrightarrow> n \<le> wf_clock s + fuel \<Longrightarrow>
     \<exists>r t. thread_loop T p fuel s = Some (r, t)"
proof (induction fuel arbitrary: s)
  case 0
  obtain r t where round: "thread_round T p s = (r, t)" by fastforce
  from round_progress(1) [of T p s _ t n] round 0 have "r \<noteq> Inr None" by auto
  with 0(2) round show ?case by (cases r) (auto simp: thread_loop.simps [of T p 0] wait_ready split: option.split)
next
  case (Suc fuel)
  obtain r t where round: "thread_round T p s = (r, t)" by fastforce
  show ?case
  proof (cases "r = Inr None")
    case True
    with round_progress(1) [of T p s None t n] round have "wf_clock s < wf_clock t" "wf_inbox t \<noteq> []" by auto
    with Suc.IH [of t] Suc.prems True round show ?thesis
      by (simp add: thread_loop.simps [of T p "Suc fuel"] wait_ready)
  next
    case False
    with Suc.prems(2) round show ?thesis
      by (cases r) (auto simp: thread_loop.simps [of T p "Suc fuel"] wait_ready split: option.split)
  qed
qed

lemma thread_loop_stopped:
  "thread_loop T p fuel s = Some (Inr (ThreadEnds ThreadStopped), t) \<Longrightarrow> wf_inbox t = []"
proof (induction fuel arbitrary: s)
  case 0
  then show ?case
    by (auto simp: thread_loop.simps [of T p 0] split: option.splits sum.splits prod.splits dest: round_progress(2))
next
  case (Suc fuel)
  from Suc.prems show ?case
    by (subst (asm) thread_loop.simps)
      (auto split: option.splits sum.splits prod.splits dest: round_progress(2) Suc.IH)
qed

text \<open>C10. A thread that is left alone goes idle, and no message is left behind: once no further message
  arrives, a thread with a message in its inbox returns within a bounded number of rounds (whatever the
  activities report, and whatever other signals and cancellations come), and when it reports that it
  stopped, its inbox is empty.\<close>

theorem thread_goes_idle:
  assumes "quiet T n" and "wf_inbox (open_workflow p s) \<noteq> []" and "n \<le> wf_clock s + fuel"
  shows "\<exists>r t. run_thread T p fuel s = Some (r, t) \<and> (r = Inr (ThreadEnds ThreadStopped) \<longrightarrow> wf_inbox t = [])"
proof -
  have "n \<le> wf_clock (open_workflow p s) + fuel" using assms(3) by (simp add: open_workflow_def)
  from thread_loop_ends [OF assms(1) _ this, of p] assms(2) obtain r t
    where loop: "thread_loop T p fuel (open_workflow p s) = Some (r, t)" by blast
  show ?thesis
  proof (cases "r = Inl CancelledError")
    case True
    obtain r' :: "py_error + thread_end" and t' where
      "thn (record_cancellation T p) (raise CancelledError) t = (r', t')" by fastforce
    moreover from this have "r' \<noteq> Inr a" for a by (auto simp: thn_result raise_def)
    ultimately show ?thesis using loop True by (auto simp: run_thread_def)
  next
    case False
    with loop thread_loop_stopped [of T p fuel "open_workflow p s" t] show ?thesis by (simp add: run_thread_def)
  qed
qed

definition sample_inbound :: inbound_message where
  "sample_inbound = \<lparr>in_content = InText ''hi'', in_source = ''user'', in_correlation_id = None, in_tag = None\<rparr>"

definition sample_thread :: thread_input where
  "sample_thread = (new_thread_input ''a'' ''t'')\<lparr>tp_carry_inbox := [sample_inbound]\<rparr>"

lemma sample_opened: "wf_inbox (open_workflow sample_thread (new_workflow w)) = [sample_inbound]"
  by (simp add: open_workflow_def sample_thread_def new_thread_input_def new_workflow_def)

theorem thread_goes_idle_witness:
  "\<exists>r t. run_thread (direct_temporal sample_context) sample_thread 0 (new_workflow new_world) = Some (r, t)"
proof -
  have "quiet (direct_temporal sample_context) 0" by (simp add: quiet_def)
  from thread_goes_idle [OF this, of sample_thread "new_workflow new_world" 0] show ?thesis
    by (auto simp: sample_opened)
qed

fun arrived :: "signal list \<Rightarrow> inbound_message list" where
  "arrived [] = []"
| "arrived (Inbound m # gs) = m # arrived gs"
| "arrived (_ # gs) = arrived gs"

lemma delivered_arrived: "wf_inbox (fold deliver gs s) = wf_inbox s @ arrived gs"
  by (induction gs arbitrary: s rule: arrived.induct) (simp_all add: resolve_signal_def Let_def)

text \<open>A run that cannot be opened loses its messages: the inbox is drained before \<open>start_run\<close>, so when
  that activity fails the workflow fails with its error, and the messages the run was for are neither in
  the workflow's inbox, which holds only what arrived meanwhile, nor in the stores, which are as the
  failed activity left them.\<close>

theorem start_failure_drops_inbox:
  assumes "tm_start_run T (start_input p (tm_uuid T (wf_clock s))) (wf_world s) = (Inl e, w)"
    and "is_exception e" and "wf_inbox (open_workflow p s) \<noteq> []" and "\<not> wf_cancelled s"
  shows "\<exists>t. run_thread T p fuel s = Some (Inl e, t) \<and> wf_world t = w \<and> wf_inbox t = arrived (tm_signals T (wf_clock s))"
proof -
  let ?s = "open_workflow p s"
  have open_same: "wf_world ?s = wf_world s" "wf_clock ?s = wf_clock s" "wf_cancelled ?s = wf_cancelled s"
    by (simp_all add: open_workflow_def)
  let ?rid = "tm_uuid T (wf_clock s)"
  let ?cleared = "?s\<lparr>wf_current_run_id := Some ?rid, wf_last_run_id := ?rid, wf_inbox := []\<rparr>"
  let ?t = "tick T (?cleared\<lparr>wf_world := w\<rparr>)"
  have "run_next_agent_run T p ?s = (Inl e, ?t)"
    using assms(1) by (simp add: run_next_eq bnd_def await_activity_def open_same)
  then have "thread_round T p ?s = (Inl e, ?t)"
    using assms(4) by (simp add: thread_round_def act_defs open_same)
  with assms(3) have "thread_loop T p fuel ?s = Some (Inl e, ?t)"
    by (simp add: thread_loop.simps [of T p fuel] wait_ready)
  moreover have "e \<noteq> CancelledError" using assms(2) by auto
  moreover have "wf_inbox ?t = arrived (tm_signals T (wf_clock s))"
    by (simp add: tick_def Let_def delivered_arrived open_same)
  ultimately show ?thesis by (simp add: run_thread_def)
qed

definition sample_fast_thread :: thread_input where
  "sample_fast_thread = sample_thread\<lparr>tp_context_compaction := Some (default_compaction\<lparr>cc_summarizer := Some ''fast''\<rparr>)\<rparr>"

theorem start_failure_drops_inbox_witness:
  "\<exists>e t. run_thread (direct_temporal sample_context) sample_fast_thread 3 (new_workflow new_world) = Some (Inl e, t)
     \<and> wf_world t = new_world \<and> wf_inbox t = []"
proof -
  let ?T = "direct_temporal sample_context" and ?p = sample_fast_thread and ?s = "new_workflow new_world"
  have inp: "si_summarizer (start_input ?p rid) = Some ''fast''" for rid
    by (simp add: start_input_def config_of_def sample_fast_thread_def)
  obtain e where "start_run sample_context (start_input ?p rid) new_world = (Inl e, new_world)" for rid
    by (simp add: start_run_def inp sample_context_simps raise_def)
  then have "tm_start_run ?T (start_input ?p (tm_uuid ?T (wf_clock ?s))) (wf_world ?s)
      = (Inl (ActivityError [] (Some e)), new_world)"
    by (simp add: direct_temporal_def as_activity_def new_workflow_def)
  moreover have "wf_inbox (open_workflow ?p ?s) \<noteq> []" "\<not> wf_cancelled ?s"
    by (simp_all add: open_workflow_def sample_fast_thread_def sample_thread_def new_workflow_def)
  ultimately show ?thesis
    using start_failure_drops_inbox [of ?T ?p ?s "ActivityError [] (Some e)" new_world 3] by fastforce
qed

text \<open>C12. Rotating Temporal's history loses nothing of the thread. The input of the next execution opens a
  workflow with the same unread messages (there are some), the same turn count and the same ids; it leaves
  out the parent and the sandbox, and yet opens every further run on the same thread row as the present
  input would, because the row holds them since its first run.\<close>

theorem rotation_keeps_thread:
  assumes "thread_round T p s = (Inr (Some (ContinuesAsNew q)), t)"
  shows "wf_inbox (open_workflow q (new_workflow w)) = wf_inbox t \<and> wf_inbox t \<noteq> []
     \<and> wf_turn_count_total (open_workflow q (new_workflow w)) = wf_turn_count_total t
     \<and> tp_agent_id q = tp_agent_id p \<and> tp_thread_id q = tp_thread_id p
     \<and> (let th = open_thread (start_input p rid0) th0
        in open_thread (start_input q rid) th = open_thread (start_input p rid) th)"
proof -
  have "\<not> wf_cancelled s" using assms by (auto simp: thread_round_def act_defs)
  with assms obtain v where "next_round T p v = (Inr (Some (ContinuesAsNew q)), t)"
    by (auto simp: thread_round_def bnd_def [of getS] getS_def thn_result)
  then have q: "q = carried_input p t" "wf_inbox t \<noteq> []" by (simp_all add: next_round_eq split: if_splits)
  then show ?thesis
    by (auto simp: carried_input_def open_workflow_def new_workflow_def new_thread_input_def open_thread_def
        start_input_def nonempty_def config_of_def Let_def split: option.splits)
qed

definition busy_temporal :: temporal where
  "busy_temporal = (direct_temporal sample_context)\<lparr>tm_signals := (\<lambda>n. [Inbound sample_inbound]),
     tm_history_length := (\<lambda>n. 6000),
     tm_start_run := (\<lambda>_. ret \<lparr>st_turn_count = 4, st_max_turns = 3, st_error = Some ''no agent''\<rparr>),
     tm_finalize_run := (\<lambda>_. ret ())\<rparr>"

theorem rotation_keeps_thread_witness:
  "\<exists>t q. thread_round busy_temporal sample_thread (open_workflow sample_thread (new_workflow new_world))
       = (Inr (Some (ContinuesAsNew q)), t)
     \<and> wf_inbox (open_workflow q (new_workflow new_world)) = wf_inbox t"
proof -
  have T: "tm_signals busy_temporal n = [Inbound sample_inbound]" "tm_history_length busy_temporal n = 6000"
    "tm_start_run busy_temporal q = ret \<lparr>st_turn_count = 4, st_max_turns = 3, st_error = Some ''no agent''\<rparr>"
    "tm_finalize_run busy_temporal q1 = ret ()" for n q q1
    by (simp_all add: busy_temporal_def)
  have round: "\<exists>t q. thread_round busy_temporal sample_thread (open_workflow sample_thread (new_workflow new_world))
       = (Inr (Some (ContinuesAsNew q)), t)"
    by (simp add: thread_round_def act_defs run_next_eq run_started_def await_activity_def T tick_def Let_def
        open_workflow_def new_workflow_def sample_thread_def new_thread_input_def store_if_idle_def next_round_def
        rotates_def history_rotation_threshold_def)
  then obtain t q where round: "thread_round busy_temporal sample_thread
      (open_workflow sample_thread (new_workflow new_world)) = (Inr (Some (ContinuesAsNew q)), t)" by blast
  with rotation_keeps_thread [OF round] show ?thesis by blast
qed

end
