(* ===== verification/Commands.thy ===== *)
theory Commands
  imports Workflow
begin

text \<open>
  The application's commands: \<open>AgentRuntime\<close> (\<open>actant/runtime/runtime.py\<close>), \<open>ThreadHandle\<close>
  (\<open>actant/runtime/thread.py\<close>) and their errors (\<open>actant/runtime/exceptions.py\<close>). Temporal's client is
  the record \<open>temporal_client\<close>. The rows that \<open>list_children\<close> returns are read by value, as from the SQL
  stores. Cancelling descendants recurses over the parent links, which nothing keeps acyclic: the
  recursion takes fuel, and running out of it is Python's \<open>RecursionError\<close>. Hosting a worker
  (\<open>run_worker\<close>, \<open>shutdown\<close>) is modelled down to the calls of the library.
\<close>

section \<open>Configuration and client\<close>

record runtime_config =
  rf_address :: string
  rf_namespace :: string
  rf_task_queue :: string
  rf_workflow_id_prefix :: string
  rf_max_turns_per_run :: "int option"
  rf_graceful_shutdown_s :: rat
  rf_max_concurrent_activities :: "int option"
  rf_history_size_threshold :: int
  rf_resolution_timeout :: int
  rf_interleave_inbox :: bool
  rf_context_compaction :: "compaction_config option"
  rf_activity_timeouts :: activity_timeouts

definition default_config :: runtime_config where
  "default_config = \<lparr>rf_address = ''localhost:7233'', rf_namespace = ''default'', rf_task_queue = ''actant-runtime'',
     rf_workflow_id_prefix = ''actant-thread'', rf_max_turns_per_run = None, rf_graceful_shutdown_s = 0,
     rf_max_concurrent_activities = None, rf_history_size_threshold = 5000,
     rf_resolution_timeout = 7 * 24 * 60 * 60, rf_interleave_inbox = False, rf_context_compaction = None,
     rf_activity_timeouts = default_timeouts\<rparr>"

text \<open>\<open>tc_not_found\<close> tells the \<open>RPCError\<close> whose status is \<open>NOT_FOUND\<close>; \<open>tc_started\<close> the
  \<open>WorkflowAlreadyStartedError\<close>.\<close>

record temporal_client =
  tc_signal_with_start :: "string \<Rightarrow> thread_input \<Rightarrow> inbound_message \<Rightarrow> (world, unit) act"
  tc_start_once :: "string \<Rightarrow> thread_input \<Rightarrow> (world, unit) act"
  tc_signal_resolution :: "string \<Rightarrow> deferred_resolution \<Rightarrow> (world, unit) act"
  tc_cancel :: "string \<Rightarrow> (world, unit) act"
  tc_not_found :: "py_error \<Rightarrow> bool"
  tc_started :: "py_error \<Rightarrow> bool"

record agent_runtime =
  rt_client :: temporal_client
  rt_config :: runtime_config
  rt_context :: activity_context
  rt_subscribe :: "(string \<Rightarrow> (world, json_obj list) act) option"
  rt_running :: bool

section \<open>Errors\<close>

definition ToolCallNotFoundError :: "string \<Rightarrow> py_error" where
  "ToolCallNotFoundError i = OtherException ''ToolCallNotFoundError''
     (''Tool call '' @ repr_str i @ '' was not found'')"

definition ThreadNotFoundError :: "string \<Rightarrow> py_error" where
  "ThreadNotFoundError t = OtherException ''ThreadNotFoundError'' (''Thread '' @ repr_str t @ '' was not found'')"

definition ToolCallNotWaitingError :: "string \<Rightarrow> tool_call_status \<Rightarrow> py_error" where
  "ToolCallNotWaitingError i s = OtherException ''ToolCallNotWaitingError''
     (''Tool call '' @ repr_str i @ '' is '' @ status_str s @ '', not waiting'')"

definition RecursionError :: py_error where
  "RecursionError = OtherException ''RecursionError'' ''maximum recursion depth exceeded''"

section \<open>Sending\<close>

definition workflow_id :: "agent_runtime \<Rightarrow> string \<Rightarrow> string \<Rightarrow> string" where
  "workflow_id rt a t = rf_workflow_id_prefix (rt_config rt) @ ''-'' @ a @ ''-'' @ t"

datatype sent_content = SentText string | SentBlocks "block list"

definition inbound_of :: "sent_content \<Rightarrow> string option \<Rightarrow> inbound_message" where
  "inbound_of c tag = \<lparr>in_content = (case c of SentText s \<Rightarrow> InText s | SentBlocks bs \<Rightarrow> InBlocks (map block_to_json bs)),
     in_source = ''user'', in_correlation_id = None, in_tag = tag\<rparr>"

definition thread_input_of ::
  "agent_runtime \<Rightarrow> string \<Rightarrow> string \<Rightarrow> string option \<Rightarrow> string option \<Rightarrow> sandbox_access option
     \<Rightarrow> inbound_message list \<Rightarrow> thread_input" where
  "thread_input_of rt a t parent sandbox access inbox =
     (let c = rt_config rt in (new_thread_input a t)\<lparr>
       tp_max_turns_per_run := rf_max_turns_per_run c, tp_resolution_timeout := rf_resolution_timeout c,
       tp_history_size_threshold := rf_history_size_threshold c, tp_parent_thread_id := parent,
       tp_sandbox_id := sandbox, tp_sandbox_access := access, tp_interleave_inbox := rf_interleave_inbox c,
       tp_context_compaction := rf_context_compaction c, tp_activity_timeouts := rf_activity_timeouts c,
       tp_carry_inbox := inbox\<rparr>)"

definition send_message ::
  "agent_runtime \<Rightarrow> string \<Rightarrow> string \<Rightarrow> sent_content \<Rightarrow> string option \<Rightarrow> string option \<Rightarrow> string option
     \<Rightarrow> sandbox_access option \<Rightarrow> (world, string) act" where
  "send_message rt a t content parent tag sandbox access =
     thn (tc_signal_with_start (rt_client rt) (workflow_id rt a t)
            (thread_input_of rt a t parent sandbox access []) (inbound_of content tag))
       (ret (workflow_id rt a t))"

definition spawn ::
  "agent_runtime \<Rightarrow> string \<Rightarrow> string \<Rightarrow> sent_content \<Rightarrow> string option \<Rightarrow> string option \<Rightarrow> string option
     \<Rightarrow> sandbox_access option \<Rightarrow> (world, unit) act" where
  "spawn rt a t content parent tag sandbox access =
     catch (tc_start_once (rt_client rt) (workflow_id rt a t)
              (thread_input_of rt a t parent sandbox access [inbound_of content tag]))
       (\<lambda>e. if tc_started (rt_client rt) e then ret () else raise e)"

section \<open>Resolving a waiting tool call\<close>

definition resolve_tool_call ::
  "agent_runtime \<Rightarrow> string \<Rightarrow> string \<Rightarrow> string \<Rightarrow> bool option \<Rightarrow> string \<Rightarrow> json_obj \<Rightarrow> (world, unit) act" where
  "resolve_tool_call rt a t i approved answer payload =
     try_else (calls_get i)
       (\<lambda>e. case e of KeyError _ \<Rightarrow> raise (ToolCallNotFoundError i) | _ \<Rightarrow> raise e)
       (\<lambda>r. if r_agent_id r \<noteq> a \<or> r_thread_id r \<noteq> t then raise (ToolCallNotFoundError i)
            else if r_status r \<in> {COMPLETED, BLOCKED, FAILED} then ret ()
            else if r_status r \<noteq> WAITING then raise (ToolCallNotWaitingError i (r_status r))
            else tc_signal_resolution (rt_client rt) (workflow_id rt a t)
              \<lparr>dr_tool_call_id = i, dr_approved = approved, dr_answer = answer, dr_payload = payload\<rparr>)"

section \<open>Cancelling\<close>

text \<open>\<open>cancel_thread\<close> up to its recursion: the workflow is cancelled, and the stores record it.\<close>

definition stop_thread :: "agent_runtime \<Rightarrow> string \<Rightarrow> string \<Rightarrow> (world, unit) act" where
  "stop_thread rt a t =
     thn (catch (tc_cancel (rt_client rt) (workflow_id rt a t))
            (\<lambda>e. if \<not> tc_not_found (rt_client rt) e then raise e
                 else catch (thn (threads_get a t) (ret ()))
                   (\<lambda>e. case e of KeyError _ \<Rightarrow> raise (ThreadNotFoundError t) | _ \<Rightarrow> raise e)))
       (record_cancelled (rt_context rt) a t)"

fun cancel_children :: "agent_runtime \<Rightarrow> nat \<Rightarrow> string \<Rightarrow> (world, unit) act" where
  "cancel_children rt 0 t = raise RecursionError"
| "cancel_children rt (Suc n) t = bnd getS (\<lambda>w. for_each
     (\<lambda>child. if th_status child = ThreadActive
        then thn (stop_thread rt (th_agent_id child) (th_id child)) (cancel_children rt n (th_id child))
        else cancel_children rt n (th_id child)) (list_children t w))"

definition cancel_thread :: "agent_runtime \<Rightarrow> nat \<Rightarrow> string \<Rightarrow> string \<Rightarrow> (world, unit) act" where
  "cancel_thread rt n a t = thn (stop_thread rt a t) (cancel_children rt n t)"

section \<open>Reading\<close>

definition stored_state :: "string \<Rightarrow> string \<Rightarrow> (world, thread_state_view) act" where
  "stored_state a t = bnd (threads_get a t) (\<lambda>th. ret
     \<lparr>sv_agent_id = a, sv_thread_id = t, sv_inbox_size = None, sv_turn_count_total = th_turn_count th,
      sv_current_run_id = th_active_run_id th, sv_cancelled = (th_status th = ThreadCancelled)\<rparr>)"

text \<open>\<open>ThreadHandle\<close>: the same commands for one thread.\<close>

record thread_handle =
  hd_runtime :: agent_runtime
  hd_agent_id :: string
  hd_thread_id :: string

definition handle_send :: "thread_handle \<Rightarrow> sent_content \<Rightarrow> string option \<Rightarrow> (world, string) act" where
  "handle_send h c tag = send_message (hd_runtime h) (hd_agent_id h) (hd_thread_id h) c None tag None None"

definition handle_resolve :: "thread_handle \<Rightarrow> string \<Rightarrow> bool option \<Rightarrow> string \<Rightarrow> json_obj \<Rightarrow> (world, unit) act" where
  "handle_resolve h = resolve_tool_call (hd_runtime h) (hd_agent_id h) (hd_thread_id h)"

definition handle_cancel :: "thread_handle \<Rightarrow> nat \<Rightarrow> (world, unit) act" where
  "handle_cancel h n = cancel_thread (hd_runtime h) n (hd_agent_id h) (hd_thread_id h)"

definition handle_state :: "thread_handle \<Rightarrow> (world, thread_state_view) act" where
  "handle_state h = stored_state (hd_agent_id h) (hd_thread_id h)"

definition handle_messages :: "thread_handle \<Rightarrow> world \<Rightarrow> message list" where
  "handle_messages h w = list_for_thread (hd_agent_id h) (hd_thread_id h) w"

definition waiting_tools :: "thread_handle \<Rightarrow> world \<Rightarrow> tool_call_record list" where
  "waiting_tools h w = filter (\<lambda>r. r_status r = WAITING) (get_open_for_thread (hd_agent_id h) (hd_thread_id h) w)"

definition handle_events :: "thread_handle \<Rightarrow> (world, json_obj list) act" where
  "handle_events h = (case rt_subscribe (hd_runtime h) of
      None \<Rightarrow> raise (RuntimeError ''AgentRuntime has no event source configured'')
    | Some f \<Rightarrow> f (''thread:'' @ hd_thread_id h))"

section \<open>Hosting a worker\<close>

text \<open>\<open>poll\<close> stands for the library's \<open>Worker.run\<close>, and \<open>running\<close> for \<open>_running\<close>, which is reset however
  polling ends.\<close>

definition run_worker :: "agent_runtime \<Rightarrow> (world, unit) act \<Rightarrow> (world \<times> bool, unit) act" where
  "run_worker rt poll = (\<lambda>(w, running).
     if x_resolve_agent (rt_context rt) = None then (Inl (ValueError ''run_worker requires resolve_agent''), (w, running))
     else if running then (Inl (RuntimeError ''this runtime is already polling''), (w, running))
     else (case poll w of (r, w') \<Rightarrow> (r, (w', False))))"

section \<open>What a cancellation does to the threads\<close>

definition threads_keyed :: "world \<Rightarrow> bool" where
  "threads_keyed w \<longleftrightarrow> wf_dict (w_threads w) \<and> (\<forall>k th. dget (w_threads w) k = Some th \<longrightarrow> (th_agent_id th, th_id th) = k)"

text \<open>Threads keep their parents and are only ever cancelled; a new row has no parent.\<close>

definition winds_down :: "world \<Rightarrow> world \<Rightarrow> bool" where
  "winds_down w w' \<longleftrightarrow> (threads_keyed w \<longrightarrow> threads_keyed w'
     \<and> (\<forall>k th. dget (w_threads w) k = Some th \<longrightarrow> (\<exists>th'. dget (w_threads w') k = Some th'
          \<and> th_parent_thread_id th' = th_parent_thread_id th
          \<and> (th_status th' = th_status th \<or> th_status th' = ThreadCancelled)))
     \<and> (\<forall>k th'. dget (w_threads w) k = None \<longrightarrow> dget (w_threads w') k = Some th' \<longrightarrow> th_parent_thread_id th' = None))"

lemma winds_refl: "winds_down w w"
  by (simp add: winds_down_def)

lemma winds_same: "w_threads w' = w_threads w \<Longrightarrow> winds_down w w'"
  by (simp add: winds_down_def threads_keyed_def)

lemma winds_old:
  "winds_down w w' \<Longrightarrow> threads_keyed w \<Longrightarrow> dget (w_threads w) k = Some th \<Longrightarrow> \<exists>th'. dget (w_threads w') k = Some th'
     \<and> th_parent_thread_id th' = th_parent_thread_id th \<and> (th_status th' = th_status th \<or> th_status th' = ThreadCancelled)"
  unfolding winds_down_def by blast

lemma winds_new:
  "winds_down w w' \<Longrightarrow> threads_keyed w \<Longrightarrow> dget (w_threads w) k = None \<Longrightarrow> dget (w_threads w') k = Some th' \<Longrightarrow>
     th_parent_thread_id th' = None"
  unfolding winds_down_def by blast

lemma winds_keyed: "winds_down w w' \<Longrightarrow> threads_keyed w \<Longrightarrow> threads_keyed w'"
  by (simp add: winds_down_def)

lemma winds_trans:
  assumes "winds_down u v" and "winds_down v w"
  shows "winds_down u w"
  unfolding winds_down_def
proof (intro impI conjI allI)
  assume ku: "threads_keyed u"
  from winds_keyed [OF assms(1) ku] have kv: "threads_keyed v" .
  show "threads_keyed w" by (rule winds_keyed [OF assms(2) kv])
  fix k th
  show "\<exists>th'. dget (w_threads w) k = Some th' \<and> th_parent_thread_id th' = th_parent_thread_id th
      \<and> (th_status th' = th_status th \<or> th_status th' = ThreadCancelled)" if th: "dget (w_threads u) k = Some th"
    using winds_old [OF assms(1) ku th] winds_old [OF assms(2) kv] by metis
  show "th_parent_thread_id th = None" if "dget (w_threads u) k = None" "dget (w_threads w) k = Some th"
  proof (cases "dget (w_threads v) k")
    case None
    with winds_new [OF assms(2) kv None] that show ?thesis by blast
  next
    case (Some th1)
    with winds_new [OF assms(1) ku that(1)] winds_old [OF assms(2) kv Some] that(2) show ?thesis by auto
  qed
qed

interpretation wd: step_contract winds_down
  by unfold_locales (rule winds_refl, erule winds_trans)

lemma winds_mark: "keeps winds_down (mark_cancelled a t)"
proof (rule keepsI)
  fix w
  show "winds_down w (snd (mark_cancelled a t w))"
  proof (cases "dget (w_threads w) (a, t)")
    case None
    then show ?thesis
      by (auto simp: mark_cancelled_def threads_get_or_create_def threads_update_def new_thread_def act_defs Let_def
          winds_down_def threads_keyed_def)
  next
    case (Some th)
    then show ?thesis
      by (auto simp: mark_cancelled_def threads_get_or_create_def threads_update_def act_defs
          winds_down_def threads_keyed_def)
  qed
qed

lemma winds_update_status: "keeps winds_down (calls_update_status i s res p wr)"
  by (rule keepsI, rule winds_same) (simp add: calls_update_status_def split: option.split)

lemma winds_append_result: "keeps winds_down (append_tool_result f a t u i n r)"
  unfolding append_tool_result_def append_row_def new_id_def
  by (rule keepsI, rule winds_same) (simp add: act_defs Let_def split: option.split sum.split)

lemma winds_record_cancelled: "keeps winds_down (record_cancelled x a t)"
  unfolding record_cancelled_def close_open_def pair_call_def post_result_def calls_get_def
  by (intro wd.keeps_monad winds_update_status winds_append_result winds_mark)
    (auto intro!: wd.keeps_monad split: py_error.split)

section \<open>Descendants\<close>

text \<open>A thread's descendants, and links whose depth is bounded by a rank.\<close>

inductive descends :: "world \<Rightarrow> string \<Rightarrow> string \<times> string \<Rightarrow> bool" for w where
  child: "dget (w_threads w) k = Some th \<Longrightarrow> th_parent_thread_id th = Some t \<Longrightarrow> descends w t k"
| below: "dget (w_threads w) k = Some th \<Longrightarrow> th_parent_thread_id th = Some t \<Longrightarrow> descends w (th_id th) k' \<Longrightarrow> descends w t k'"

definition ranked :: "(string \<Rightarrow> nat) \<Rightarrow> world \<Rightarrow> bool" where
  "ranked rk w \<longleftrightarrow> (\<forall>k th t. dget (w_threads w) k = Some th \<longrightarrow> th_parent_thread_id th = Some t \<longrightarrow> rk (th_id th) < rk t)"

definition inactive :: "world \<Rightarrow> string \<times> string \<Rightarrow> bool" where
  "inactive w k \<longleftrightarrow> (\<exists>th. dget (w_threads w) k = Some th \<and> th_status th \<noteq> ThreadActive)"

lemma inactive_step: "winds_down w w' \<Longrightarrow> threads_keyed w \<Longrightarrow> inactive w k \<Longrightarrow> inactive w' k"
  unfolding inactive_def using winds_old by fastforce

lemma keyed_ids: "threads_keyed w \<Longrightarrow> dget (w_threads w) k = Some th \<Longrightarrow> k = (th_agent_id th, th_id th)"
  unfolding threads_keyed_def by metis

lemma ranked_step:
  assumes "winds_down w w'" and "threads_keyed w" and "ranked rk w"
  shows "ranked rk w'"
  unfolding ranked_def
proof (intro allI impI)
  fix k th' t assume th': "dget (w_threads w') k = Some th'" "th_parent_thread_id th' = Some t"
  show "rk (th_id th') < rk t"
  proof (cases "dget (w_threads w) k")
    case None
    with winds_new [OF assms(1,2) None th'(1)] th'(2) show ?thesis by simp
  next
    case (Some th)
    with winds_old [OF assms(1,2) Some] th' have "th_parent_thread_id th = Some t" by auto
    with Some assms(3) have "rk (th_id th) < rk t" unfolding ranked_def by blast
    moreover from keyed_ids [OF assms(2) Some] keyed_ids [OF winds_keyed [OF assms(1,2)] th'(1)]
    have "th_id th = th_id th'" by simp
    ultimately show ?thesis by simp
  qed
qed

lemma descends_step:
  assumes "winds_down w w'" and "threads_keyed w" and "descends w t k"
  shows "descends w' t k"
  using assms(3)
proof (induction rule: descends.induct)
  case (child k th t)
  with winds_old [OF assms(1,2)] show ?case by (metis descends.child)
next
  case (below k th t k')
  from winds_old [OF assms(1,2) below.hyps(1)] obtain th' where th': "dget (w_threads w') k = Some th'"
    "th_parent_thread_id th' = Some t" using below.hyps(2) by auto
  moreover from keyed_ids [OF assms(2) below.hyps(1)] keyed_ids [OF winds_keyed [OF assms(1,2)] th'(1)]
  have "th_id th = th_id th'" by simp
  ultimately show ?case using below.IH by (simp add: descends.below)
qed

text \<open>Threads that a call must not wake: what Temporal's client does while a workflow is cancelled.\<close>

definition client_winds_down :: "agent_runtime \<Rightarrow> bool" where
  "client_winds_down rt \<longleftrightarrow> (\<forall>i. keeps winds_down (tc_cancel (rt_client rt) i))"

lemma winds_stop: "client_winds_down rt \<Longrightarrow> keeps winds_down (stop_thread rt a t)"
  unfolding stop_thread_def threads_get_def client_winds_down_def
  by (intro wd.keeps_monad winds_record_cancelled) (auto intro!: wd.keeps_monad split: py_error.split)

lemma winds_children: "client_winds_down rt \<Longrightarrow> keeps winds_down (cancel_children rt n t)"
  by (induction n arbitrary: t) (auto intro!: wd.keeps_monad winds_stop)

lemma marked_inactive: "threads_keyed w \<Longrightarrow> mark_cancelled a t w = (Inr u, w') \<Longrightarrow> inactive w' (a, t)"
  by (auto simp: mark_cancelled_def threads_get_or_create_def threads_update_def act_defs inactive_def new_thread_def
      Let_def dest: keyed_ids split: option.splits)

lemma stopped_inactive:
  assumes rt: "client_winds_down rt" and w: "threads_keyed w" and run: "stop_thread rt a t w = (Inr u, w')"
  shows "inactive w' (a, t)"
proof -
  let ?pre = "thn (catch (tc_cancel (rt_client rt) (workflow_id rt a t))
            (\<lambda>e. if \<not> tc_not_found (rt_client rt) e then raise e
                 else catch (thn (threads_get a t) (ret ()))
                   (\<lambda>e. case e of KeyError _ \<Rightarrow> raise (ThreadNotFoundError t) | _ \<Rightarrow> raise e)))
     (bnd getS (\<lambda>w. thn (for_each close_open (get_open_for_thread a t w))
       (bnd getS (\<lambda>w. for_each (pair_call (x_as_int (rt_context rt))) (unpaired_ids (rt_context rt) (list_for_thread a t w))))))"
  have split: "thn (thn m (bnd getS (\<lambda>w. thn (f w) (bnd getS g)))) k = thn m (bnd getS (\<lambda>w. thn (f w) (bnd getS (\<lambda>w. thn (g w) k))))"
    for m :: "(world, unit) act" and f g :: "world \<Rightarrow> (world, unit) act" and k :: "(world, unit) act"
    by (rule ext) (auto simp: thn_def bnd_def getS_def split: prod.splits sum.splits)
  have "stop_thread rt a t = thn ?pre (mark_cancelled a t)"
    unfolding stop_thread_def record_cancelled_def split ..
  with run obtain v u' where v: "?pre w = (Inr u', v)" "mark_cancelled a t v = (Inr u, w')"
    by (auto simp: thn_result)
  have "keeps winds_down ?pre"
    using rt unfolding close_open_def pair_call_def post_result_def calls_get_def threads_get_def client_winds_down_def
    by (intro wd.keeps_monad winds_update_status winds_append_result)
      (auto intro!: wd.keeps_monad split: py_error.split)
  from keepsD [OF this, of w] v(1) have "winds_down w v" by simp
  from marked_inactive [OF winds_keyed [OF this w] v(2)] show ?thesis .
qed

lemma children_stored:
  "threads_keyed w \<Longrightarrow> c \<in> set (list_children t w) \<Longrightarrow>
     dget (w_threads w) (th_agent_id c, th_id c) = Some c \<and> th_parent_thread_id c = Some t"
  unfolding threads_keyed_def list_children_def by (force simp: wf_dict_in_set)

lemma stored_children:
  "dget (w_threads w) k = Some th \<Longrightarrow> th_parent_thread_id th = Some t \<Longrightarrow> th \<in> set (list_children t w)"
  unfolding list_children_def by (force dest: map_of_SomeD)

text \<open>A computation that enough fuel makes independent of the fuel.\<close>

definition fixed_from :: "(nat \<Rightarrow> 'a) \<Rightarrow> nat \<Rightarrow> bool" where
  "fixed_from f n \<longleftrightarrow> (\<forall>m \<ge> n. f m = f n)"

lemma fixed_fromD: "fixed_from f n \<Longrightarrow> n \<le> m \<Longrightarrow> f m = f n"
  unfolding fixed_from_def by blast

lemma fixed_from_cong:
  assumes "\<And>m. n \<le> m \<Longrightarrow> f m = g m" and "fixed_from g n"
  shows "fixed_from f n"
  unfolding fixed_from_def
proof (intro allI impI)
  fix m assume m: "n \<le> m"
  from assms(1) [OF m] fixed_fromD [OF assms(2) m] assms(1) [OF order_refl] show "f m = f n" by simp
qed

lemma fixed_const [simp]: "fixed_from (\<lambda>_. a) n"
  by (simp add: fixed_from_def)

lemma fixed_Suc: "fixed_from (\<lambda>m. f (Suc m)) n \<Longrightarrow> fixed_from f (Suc n)"
  unfolding fixed_from_def
proof (intro allI impI)
  fix m assume f: "\<forall>m \<ge> n. f (Suc m) = f (Suc n)" and "Suc n \<le> m"
  then obtain k where "m = Suc k" "n \<le> k" by (cases m) auto
  with f show "f m = f (Suc n)" by blast
qed

abbreviation cancel_child :: "agent_runtime \<Rightarrow> nat \<Rightarrow> agent_thread \<Rightarrow> (world, unit) act" where
  "cancel_child rt n child \<equiv> (if th_status child = ThreadActive
     then thn (stop_thread rt (th_agent_id child) (th_id child)) (cancel_children rt n (th_id child))
     else cancel_children rt n (th_id child))"

definition cancels_below :: "agent_runtime \<Rightarrow> nat \<Rightarrow> string \<Rightarrow> world \<Rightarrow> bool" where
  "cancels_below rt n t w \<longleftrightarrow> fixed_from (\<lambda>m. cancel_children rt m t w) n
     \<and> (\<forall>u w'. cancel_children rt n t w = (Inr u, w') \<longrightarrow> (\<forall>k. descends w t k \<longrightarrow> inactive w' k))"

lemma cancel_child_spec:
  assumes rt: "client_winds_down rt" and v: "threads_keyed v" "winds_down w v" "threads_keyed w"
    and c: "dget (w_threads w) (th_agent_id c, th_id c) = Some c"
    and below: "\<And>u. winds_down v u \<Longrightarrow> threads_keyed u \<Longrightarrow> cancels_below rt n (th_id c) u"
  shows "fixed_from (\<lambda>m. cancel_child rt m c v) n
     \<and> (\<forall>u v'. cancel_child rt n c v = (Inr u, v') \<longrightarrow> winds_down v v' \<and> inactive v' (th_agent_id c, th_id c)
          \<and> (\<forall>k. descends v (th_id c) k \<longrightarrow> inactive v' k))"
proof (cases "th_status c = ThreadActive")
  case True
  obtain r u where s: "stop_thread rt (th_agent_id c) (th_id c) v = (r, u)" by fastforce
  with keepsD [OF winds_stop [OF rt], of v "th_agent_id c" "th_id c"] have vu: "winds_down v u" by simp
  have ku: "threads_keyed u" by (rule winds_keyed [OF vu v(1)])
  from below [OF vu ku] have b: "cancels_below rt n (th_id c) u" .
  show ?thesis
  proof (cases r)
    case (Inl e)
    with True s show ?thesis by (simp add: thn_def bnd_def)
  next
    case (Inr x)
    from stopped_inactive [OF rt v(1) s [unfolded Inr]] have own: "inactive u (th_agent_id c, th_id c)" .
    have run: "cancel_child rt m c v = cancel_children rt m (th_id c) u" for m
      using True s Inr by (simp add: thn_def bnd_def)
    have "winds_down v v' \<and> inactive v' (th_agent_id c, th_id c) \<and> (\<forall>k. descends v (th_id c) k \<longrightarrow> inactive v' k)"
      if "cancel_children rt n (th_id c) u = (Inr y, v')" for y v'
    proof -
      from keepsD [OF winds_children [OF rt], of u n "th_id c"] that have uv': "winds_down u v'" by simp
      from b that have "\<forall>k. descends u (th_id c) k \<longrightarrow> inactive v' k" unfolding cancels_below_def by blast
      with descends_step [OF vu v(1)] winds_trans [OF vu uv'] inactive_step [OF uv' ku own] show ?thesis by blast
    qed
    moreover have "fixed_from (\<lambda>m. cancel_children rt m (th_id c) u) n"
      using b unfolding cancels_below_def by blast
    ultimately show ?thesis unfolding run by blast
  qed
next
  case False
  from below [OF winds_refl v(1)] have b: "cancels_below rt n (th_id c) v" .
  from c False have "inactive w (th_agent_id c, th_id c)" by (auto simp: inactive_def)
  from inactive_step [OF v(2,3) this] have own: "inactive v (th_agent_id c, th_id c)" .
  have "winds_down v v' \<and> inactive v' (th_agent_id c, th_id c)" if "cancel_children rt n (th_id c) v = (Inr y, v')" for y v'
  proof -
    from keepsD [OF winds_children [OF rt], of v n "th_id c"] that have "winds_down v v'" by simp
    with inactive_step [OF this v(1) own] show ?thesis by blast
  qed
  moreover have run: "cancel_child rt m c v = cancel_children rt m (th_id c) v" for m using False by simp
  ultimately show ?thesis using b unfolding cancels_below_def run by blast
qed

lemma for_each_fails: "f c v = (Inl e, v1) \<Longrightarrow> for_each f (c # cs) v = (Inl e, v1)"
  by (simp add: thn_def bnd_def)

lemma for_each_goes: "f c v = (Inr x, v1) \<Longrightarrow> for_each f (c # cs) v = for_each f cs v1"
  by (simp add: thn_def bnd_def)

lemma cancel_each_spec:
  assumes rt: "client_winds_down rt" and w: "threads_keyed w"
    and below: "\<And>c u. c \<in> set cs \<Longrightarrow> winds_down w u \<Longrightarrow> threads_keyed u \<Longrightarrow> cancels_below rt n (th_id c) u"
    and stored: "\<And>c. c \<in> set cs \<Longrightarrow> dget (w_threads w) (th_agent_id c, th_id c) = Some c"
  shows "winds_down w v \<Longrightarrow> fixed_from (\<lambda>m. for_each (cancel_child rt m) cs v) n
     \<and> (\<forall>u v'. for_each (cancel_child rt n) cs v = (Inr u, v') \<longrightarrow> winds_down v v'
          \<and> (\<forall>c \<in> set cs. inactive v' (th_agent_id c, th_id c) \<and> (\<forall>k. descends w (th_id c) k \<longrightarrow> inactive v' k)))"
  using below stored
proof (induction cs arbitrary: v)
  case Nil
  then show ?case by (simp add: ret_def winds_refl)
next
  case (Cons c cs)
  have kv: "threads_keyed v" by (rule winds_keyed [OF Cons.prems(1) w])
  have "cancels_below rt n (th_id c) u" if "winds_down v u" "threads_keyed u" for u
    using Cons.prems(2) [of c u] winds_trans [OF Cons.prems(1) that(1)] that(2) by simp
  from cancel_child_spec [OF rt kv Cons.prems(1) w _ this] Cons.prems(3) [of c]
  have one: "fixed_from (\<lambda>m. cancel_child rt m c v) n"
    "\<And>u v'. cancel_child rt n c v = (Inr u, v') \<Longrightarrow> winds_down v v' \<and> inactive v' (th_agent_id c, th_id c)
          \<and> (\<forall>k. descends v (th_id c) k \<longrightarrow> inactive v' k)" by auto
  obtain r v1 where run: "cancel_child rt n c v = (r, v1)" by fastforce
  show ?case
  proof (cases r)
    case (Inl e)
    have "for_each (cancel_child rt m) (c # cs) v = (Inl e, v1)" if "n \<le> m" for m
      by (rule for_each_fails) (rule trans [OF fixed_fromD [OF one(1) that] run [unfolded Inl]])
    then have "fixed_from (\<lambda>m. for_each (cancel_child rt m) (c # cs) v) n"
      by (rule fixed_from_cong [OF _ fixed_const])
    moreover note fail = for_each_fails [where f = "cancel_child rt n" and cs = cs, OF run [unfolded Inl]]
    ultimately show ?thesis unfolding fail by simp
  next
    case (Inr x)
    from one(2) [OF run [unfolded Inr]] have v1: "winds_down v v1" "inactive v1 (th_agent_id c, th_id c)"
      "\<And>k. descends v (th_id c) k \<Longrightarrow> inactive v1 k" by blast+
    have k1: "threads_keyed v1" by (rule winds_keyed [OF v1(1) kv])
    from Cons.IH [OF winds_trans [OF Cons.prems(1) v1(1)]] Cons.prems(2,3)
    have rest: "fixed_from (\<lambda>m. for_each (cancel_child rt m) cs v1) n"
      "\<And>u v'. for_each (cancel_child rt n) cs v1 = (Inr u, v') \<Longrightarrow> winds_down v1 v'
          \<and> (\<forall>c \<in> set cs. inactive v' (th_agent_id c, th_id c) \<and> (\<forall>k. descends w (th_id c) k \<longrightarrow> inactive v' k))"
      by auto
    have step: "for_each (cancel_child rt m) (c # cs) v = for_each (cancel_child rt m) cs v1" if "m \<ge> n" for m
      by (rule for_each_goes) (rule trans [OF fixed_fromD [OF one(1) that] run [unfolded Inr]])
    have "winds_down v v' \<and> (\<forall>c' \<in> set (c # cs). inactive v' (th_agent_id c', th_id c')
        \<and> (\<forall>k. descends w (th_id c') k \<longrightarrow> inactive v' k))"
      if "for_each (cancel_child rt n) cs v1 = (Inr u, v')" for u v'
    proof -
      from rest(2) [OF that] have v': "winds_down v1 v'"
        "\<forall>c \<in> set cs. inactive v' (th_agent_id c, th_id c) \<and> (\<forall>k. descends w (th_id c) k \<longrightarrow> inactive v' k)" by blast+
      have "inactive v' k" if "descends w (th_id c) k" for k
        using v1(3) [OF descends_step [OF Cons.prems(1) w that]] inactive_step [OF v'(1) k1] by blast
      with v' v1(1,2) inactive_step [OF v'(1) k1] winds_trans show ?thesis by auto
    qed
    moreover have "fixed_from (\<lambda>m. for_each (cancel_child rt m) (c # cs) v) n"
      by (rule fixed_from_cong [OF step rest(1)])
    ultimately show ?thesis unfolding step [OF order_refl] by blast
  qed
qed

lemma cancels_below_ranked:
  assumes rt: "client_winds_down rt"
  shows "threads_keyed w \<Longrightarrow> ranked rk w \<Longrightarrow> rk t < n \<Longrightarrow> cancels_below rt n t w"
proof (induction n arbitrary: t w)
  case (Suc n)
  let ?cs = "list_children t w"
  have kids: "dget (w_threads w) (th_agent_id c, th_id c) = Some c \<and> rk (th_id c) < n" if "c \<in> set ?cs" for c
    using children_stored [OF Suc.prems(1) that] Suc.prems(2,3) unfolding ranked_def by fastforce
  have below: "cancels_below rt n (th_id c) u" if "c \<in> set ?cs" "winds_down w u" "threads_keyed u" for c u
    using Suc.IH [OF that(3) ranked_step [OF that(2) Suc.prems(1,2)]] kids [OF that(1)] by blast
  from cancel_each_spec [OF rt Suc.prems(1) below _ winds_refl, of ?cs] kids
  have each: "fixed_from (\<lambda>m. for_each (cancel_child rt m) ?cs w) n"
    "\<And>u v'. for_each (cancel_child rt n) ?cs w = (Inr u, v') \<Longrightarrow>
       \<forall>c \<in> set ?cs. inactive v' (th_agent_id c, th_id c) \<and> (\<forall>k. descends w (th_id c) k \<longrightarrow> inactive v' k)" by auto
  have run: "cancel_children rt (Suc m) t w = for_each (cancel_child rt m) ?cs w" for m
    by (simp add: bnd_def getS_def)
  have "inactive w' k" if r: "cancel_children rt (Suc n) t w = (Inr u, w')" and d: "descends w t k" for u w' k
  proof -
    from each(2) [OF r [unfolded run]] have w': "\<And>c. c \<in> set ?cs \<Longrightarrow> inactive w' (th_agent_id c, th_id c)
        \<and> (\<forall>k. descends w (th_id c) k \<longrightarrow> inactive w' k)" by blast
    from d show ?thesis
    proof (cases rule: descends.cases)
      case (child th)
      with w' [OF stored_children [OF child]] keyed_ids [OF Suc.prems(1) child(1)] show ?thesis by simp
    next
      case (below k0 th)
      with w' [OF stored_children [OF below(1,2)]] show ?thesis by blast
    qed
  qed
  moreover have "fixed_from (\<lambda>m. cancel_children rt m t w) (Suc n)"
    using each(1) by (intro fixed_Suc) (simp only: run)
  ultimately show ?case unfolding cancels_below_def by blast
qed simp

section \<open>Properties\<close>

text \<open>C9. Cancelling a thread reaches all of its descendants. When the parent links have no cycle (the rank
  \<open>rk\<close> falls along them) and cancelling workflows wakes no thread, the recursion ends: any fuel above the
  rank of the thread gives the same result, so the code never runs out of stack however deep it may go
  beyond that. A cancel that raises no exception leaves the thread and every thread below it, at any depth
  and of any agent, no longer active.\<close>

theorem cancel_reaches_descendants:
  assumes rt: "client_winds_down rt" and w: "threads_keyed w" "ranked rk w" and fuel: "rk t < n"
  shows "fixed_from (\<lambda>m. cancel_thread rt m a t w) n
     \<and> (\<forall>u w'. cancel_thread rt n a t w = (Inr u, w') \<longrightarrow>
          inactive w' (a, t) \<and> (\<forall>k. descends w t k \<longrightarrow> inactive w' k))"
proof -
  obtain r v where s: "stop_thread rt a t w = (r, v)" by fastforce
  with keepsD [OF winds_stop [OF rt], of w a t] have wv: "winds_down w v" by simp
  have kv: "threads_keyed v" by (rule winds_keyed [OF wv w(1)])
  from cancels_below_ranked [OF rt kv ranked_step [OF wv w] fuel]
  have below: "fixed_from (\<lambda>m. cancel_children rt m t v) n"
    "\<And>u w'. cancel_children rt n t v = (Inr u, w') \<Longrightarrow> \<forall>k. descends v t k \<longrightarrow> inactive w' k"
    unfolding cancels_below_def by blast+
  show ?thesis
  proof (cases r)
    case (Inl e)
    then have run: "cancel_thread rt m a t w = (Inl e, v)" for m using s by (simp add: cancel_thread_def thn_def bnd_def)
    show ?thesis unfolding run by simp
  next
    case (Inr x)
    then have run: "cancel_thread rt m a t w = cancel_children rt m t v" for m
      using s by (simp add: cancel_thread_def thn_def bnd_def)
    from stopped_inactive [OF rt w(1) s [unfolded Inr]] have own: "inactive v (a, t)" .
    have "inactive w' (a, t) \<and> (\<forall>k. descends w t k \<longrightarrow> inactive w' k)"
      if "cancel_children rt n t v = (Inr u, w')" for u w'
    proof -
      from keepsD [OF winds_children [OF rt], of v n t] that have "winds_down v w'" by simp
      with inactive_step [OF this kv own] below(2) [OF that] descends_step [OF wv w(1)] show ?thesis by blast
    qed
    with below(1) show ?thesis unfolding run by blast
  qed
qed

definition still_client :: temporal_client where
  "still_client = \<lparr>tc_signal_with_start = (\<lambda>_ _ _. ret ()), tc_start_once = (\<lambda>_ _. ret ()),
     tc_signal_resolution = (\<lambda>_ _. ret ()), tc_cancel = (\<lambda>_. ret ()), tc_not_found = (\<lambda>_. False),
     tc_started = (\<lambda>_. False)\<rparr>"

definition sample_runtime :: agent_runtime where
  "sample_runtime = \<lparr>rt_client = still_client, rt_config = default_config, rt_context = sample_context,
     rt_subscribe = None, rt_running = False\<rparr>"

definition delegate :: "string \<Rightarrow> string \<Rightarrow> thread_status \<Rightarrow> string option \<Rightarrow> agent_thread" where
  "delegate a t s p = (new_thread t a)\<lparr>th_status := s, th_parent_thread_id := p\<rparr>"

lemma delegate_simps [simp]:
  "th_agent_id (delegate a t s p) = a" "th_id (delegate a t s p) = t" "th_status (delegate a t s p) = s"
  "th_parent_thread_id (delegate a t s p) = p"
  by (simp_all add: delegate_def new_thread_def)

definition threads_only :: "((string \<times> string) \<times> agent_thread) list \<Rightarrow> world" where
  "threads_only ths = new_world\<lparr>w_threads := ths\<rparr>"

lemma threads_only_simps [simp]:
  "w_threads (threads_only ths) = ths" "w_calls (threads_only ths) = []" "w_messages (threads_only ths) = []"
  "(threads_only ths)\<lparr>w_threads := ths'\<rparr> = threads_only ths'"
  by (simp_all add: threads_only_def new_world_def)

definition family_world :: world where
  "family_world = threads_only [((''a'', ''t''), delegate ''a'' ''t'' ThreadActive None),
     ((''b'', ''u''), delegate ''b'' ''u'' ThreadIdle (Some ''t'')),
     ((''c'', ''v''), delegate ''c'' ''v'' ThreadActive (Some ''u''))]"

lemma family_ok: "client_winds_down sample_runtime" "threads_keyed family_world"
  by (auto simp: client_winds_down_def sample_runtime_def still_client_def wd.keeps_ret threads_keyed_def
      family_world_def wf_dict_def split: if_splits)

lemma sample_stops:
  "w_calls w = [] \<Longrightarrow> w_messages w = [] \<Longrightarrow> dget (w_threads w) (a, t) = Some th \<Longrightarrow>
   stop_thread sample_runtime a t w = mark_cancelled a t w"
  by (simp add: stop_thread_def sample_runtime_def still_client_def record_cancelled_def get_open_for_thread_def
      list_for_thread_def rows_of_def unpaired_ids_def asked_ids_def sample_context_simps act_defs)

lemma sample_marks:
  "w_calls w = [] \<Longrightarrow> w_messages w = [] \<Longrightarrow> dget (w_threads w) (a, t) = Some (delegate a t s p) \<Longrightarrow>
   stop_thread sample_runtime a t w = (Inr (), w\<lparr>w_threads := dset (a, t)
     (delegate a t ThreadCancelled p) (w_threads w)\<rparr>)"
  by (simp add: sample_stops mark_cancelled_def threads_get_or_create_def threads_update_def act_defs)
    (simp add: delegate_def new_thread_def)

theorem cancel_reaches_descendants_witness:
  "\<exists>w'. cancel_thread sample_runtime 3 ''a'' ''t'' family_world = (Inr (), w') \<and> inactive w' (''c'', ''v'')"
proof -
  let ?rk = "\<lambda>t. if t = ''t'' then 2 else if t = ''u'' then 1 else (0::nat)"
  have ranked: "ranked ?rk family_world"
    by (simp add: ranked_def family_world_def)
  have "\<exists>w'. cancel_thread sample_runtime 3 ''a'' ''t'' family_world = (Inr (), w')"
    by (simp add: cancel_thread_def eval_nat_numeral thn_def bnd_def getS_def list_children_def sample_marks
        family_world_def ret_def)
  then obtain w' where run: "cancel_thread sample_runtime 3 ''a'' ''t'' family_world = (Inr (), w')" by blast
  have get: "dget (w_threads family_world) (''b'', ''u'') = Some (delegate ''b'' ''u'' ThreadIdle (Some ''t''))"
    "dget (w_threads family_world) (''c'', ''v'') = Some (delegate ''c'' ''v'' ThreadActive (Some ''u''))"
    by (simp_all add: family_world_def)
  from descends.child [OF get(2)] descends.below [OF get(1), of "''t''"]
  have "descends family_world ''t'' (''c'', ''v'')" by simp
  with cancel_reaches_descendants [OF family_ok ranked, of "''t''" 3 "''a''"] run show ?thesis by auto
qed

end
