(* ===== verification/Local_Runtime.thy ===== *)
theory Local_Runtime
  imports Commands
begin

text \<open>
  \<open>LocalThreadRuntime\<close> (\<open>actant/runtime/local.py\<close>): the workflow's turn loop in one process, over the same
  activities. The event loop is the record \<open>local_loop\<close>: its uuids and whether the task of a background
  summary has ended when it is looked at (a task that is awaited or has ended does its work then).
  Coroutines that \<open>asyncio.gather\<close> runs together are run in order; what else happens while they are
  awaited is part of the context's actions.
\<close>

section \<open>State\<close>

record local_run =
  lo_outcome :: run_outcome
  lo_turn_count :: int
  lo_stop_reason :: "string option"

record local_loop =
  ll_uuid :: "nat \<Rightarrow> string"
  ll_done :: "nat \<Rightarrow> bool"

type_synonym thread_key = "string \<times> string"

record local_runtime =
  lr_summarizing :: "(thread_key \<times> compact_context_input) list"
  lr_running :: "thread_key set"
  lr_world :: world
  lr_clock :: nat

definition new_local :: "world \<Rightarrow> local_runtime" where
  "new_local w = \<lparr>lr_summarizing = [], lr_running = {}, lr_world = w, lr_clock = 0\<rparr>"

text \<open>An activity called directly.\<close>

definition direct_call :: "(world, 'a) act \<Rightarrow> (local_runtime, 'a) act" where
  "direct_call m s = (case m (lr_world s) of (r, w) \<Rightarrow> (r, s\<lparr>lr_world := w, lr_clock := Suc (lr_clock s)\<rparr>))"

definition local_key :: "thread_input \<Rightarrow> thread_key" where
  "local_key p = (tp_agent_id p, tp_thread_id p)"

section \<open>Background summaries\<close>

definition local_store ::
  "activity_context \<Rightarrow> thread_input \<Rightarrow> string \<Rightarrow> context_summary \<Rightarrow> (local_runtime, unit) act" where
  "local_store x p rid c = direct_call (store_summary x
     \<lparr>ss_agent_id = tp_agent_id p, ss_thread_id = tp_thread_id p, ss_run_id = rid, ss_summary = c,
      ss_config = config_of p\<rparr>)"

text \<open>\<open>_summarize\<close>: a failed summary is none; one that ends with no run open stores itself, unless it was
  taken meanwhile.\<close>

definition local_summarize ::
  "activity_context \<Rightarrow> thread_input \<Rightarrow> compact_context_input \<Rightarrow> (local_runtime, context_summary option) act" where
  "local_summarize x p job =
     try_else (direct_call (summarize_context x job)) (\<lambda>e. ret None)
       (\<lambda>c. bnd getS (\<lambda>s. thn
          (whenM (local_key p \<notin> lr_running s \<and> dget (lr_summarizing s) (local_key p) = Some job)
             (thn (modifyS (\<lambda>s. s\<lparr>lr_summarizing := AList.delete (local_key p) (lr_summarizing s)\<rparr>))
               (local_store x p (ci_run_id job) c)))
          (ret (Some c))))"

definition local_take ::
  "activity_context \<Rightarrow> thread_input \<Rightarrow> (local_runtime, context_summary option) act" where
  "local_take x p = bnd getS (\<lambda>s.
     thn (modifyS (\<lambda>s. s\<lparr>lr_summarizing := AList.delete (local_key p) (lr_summarizing s)\<rparr>))
       (case dget (lr_summarizing s) (local_key p) of
          None \<Rightarrow> ret None | Some job \<Rightarrow> local_summarize x p job))"

definition local_ready ::
  "activity_context \<Rightarrow> local_loop \<Rightarrow> thread_input \<Rightarrow> (local_runtime, context_summary option) act" where
  "local_ready x l p = bnd getS (\<lambda>s.
     if dget (lr_summarizing s) (local_key p) = None \<or> \<not> ll_done l (lr_clock s) then ret None
     else local_take x p)"

section \<open>The tool group\<close>

definition local_admit :: "thread_input \<Rightarrow> string \<Rightarrow> tool_call_spec \<Rightarrow> admit_input" where
  "local_admit p rid sp = \<lparr>ai_agent_id = tp_agent_id p, ai_thread_id = tp_thread_id p, ai_run_id = rid,
     ai_tool_call_id = sp_id sp\<rparr>"

definition local_execute :: "thread_input \<Rightarrow> string \<Rightarrow> tool_call_spec \<Rightarrow> execute_input" where
  "local_execute p rid sp = \<lparr>ei_agent_id = tp_agent_id p, ei_thread_id = tp_thread_id p, ei_run_id = rid,
     ei_tool_call_id = sp_id sp, ei_context = tp_context p\<rparr>"

definition decision_in :: "admit_outcome list \<Rightarrow> string \<Rightarrow> admit_decision option" where
  "decision_in admits i = map_option ao_decision
     (dget (fold (\<lambda>ou d. dset (ao_tool_call_id ou) ou d) admits []) i)"

definition local_tool_group ::
  "activity_context \<Rightarrow> thread_input \<Rightarrow> turn_result \<Rightarrow> (world, bool) act" where
  "local_tool_group x p turn =
     (case tu_tool_calls turn of
        [] \<Rightarrow> raise IndexError
      | sp # _ \<Rightarrow>
          bnd (gathered (\<lambda>sp'. admit_tool x (local_admit p (sp_run_id sp) sp')) (tu_tool_calls turn)) (\<lambda>admits.
          bnd (gathered (\<lambda>sp'. execute_tool x 1 (local_execute p (sp_run_id sp) sp'))
                 (filter (\<lambda>sp'. decision_in admits (sp_id sp') = Some AdmitExecute) (tu_tool_calls turn))) (\<lambda>outcomes.
          thn (finalize_tool_group x (sp_group_id sp)) (ret (list_ex eo_terminal outcomes)))))"

section \<open>The loop\<close>

definition local_turn_input ::
  "thread_input \<Rightarrow> string \<Rightarrow> string \<Rightarrow> int \<Rightarrow> inbound_message list \<Rightarrow> int \<Rightarrow> context_summary option \<Rightarrow> run_turn_input" where
  "local_turn_input p rid turn_id turn_index new text_only summary =
     \<lparr>ti_agent_id = tp_agent_id p, ti_thread_id = tp_thread_id p, ti_run_id = rid, ti_turn_id = turn_id,
      ti_turn_index = turn_index, ti_new_messages = new, ti_text_only_turns = text_only,
      ti_context_compaction = tp_context_compaction p, ti_compacted = False, ti_summary = summary,
      ti_admitted = False\<rparr>"

definition local_make_turn ::
  "activity_context \<Rightarrow> thread_input \<Rightarrow> run_turn_input \<Rightarrow> (local_runtime, turn_result) act" where
  "local_make_turn x p q =
     bnd (direct_call (run_turn x 1 q)) (\<lambda>turn.
     bnd (bnd getS (\<lambda>s. if tu_compaction turn \<noteq> None \<and> dget (lr_summarizing s) (local_key p) \<noteq> None
          then bnd (local_take x p) (\<lambda>summary. case summary of
                 None \<Rightarrow> ret (q, turn)
               | Some c \<Rightarrow> (let q' = q\<lparr>ti_summary := Some c, ti_admitted := True\<rparr>
                   in bnd (direct_call (run_turn x 1 q')) (\<lambda>turn'. ret (q', turn'))))
          else ret (q, turn))) (\<lambda>(q', turn').
     case tu_compaction turn' of
       None \<Rightarrow> ret turn'
     | Some trigger \<Rightarrow>
         thn (direct_call (compact_context x
                (compact_input p (ti_run_id q) (ti_turn_id q) (ti_turn_index q) trigger)))
           (direct_call (run_turn x 1 (q'\<lparr>ti_compacted := True, ti_summary := None\<rparr>)))))"

definition local_start_summary ::
  "thread_input \<Rightarrow> run_turn_input \<Rightarrow> compaction_trigger option \<Rightarrow> (local_runtime, unit) act" where
  "local_start_summary p q trigger = (case trigger of
      None \<Rightarrow> ret ()
    | Some t \<Rightarrow> bnd getS (\<lambda>s. whenM (dget (lr_summarizing s) (local_key p) = None)
        (modifyS (\<lambda>s. s\<lparr>lr_summarizing := dset (local_key p)
           (compact_input p (ti_run_id q) (ti_turn_id q) (ti_turn_index q) t) (lr_summarizing s)\<rparr>))))"

definition local_end :: "run_outcome \<Rightarrow> int \<Rightarrow> string option \<Rightarrow> local_run" where
  "local_end oc n r = \<lparr>lo_outcome = oc, lo_turn_count = n, lo_stop_reason = r\<rparr>"

fun local_turns ::
  "activity_context \<Rightarrow> local_loop \<Rightarrow> thread_input \<Rightarrow> string \<Rightarrow> nat \<Rightarrow> int \<Rightarrow> inbound_message list \<Rightarrow> int
     \<Rightarrow> (local_runtime, local_run) act" where
  "local_turns x l p rid 0 count new text_only = ret (local_end RunExhausted count None)"
| "local_turns x l p rid (Suc n) count new text_only = bnd getS (\<lambda>s.
     bnd (local_ready x l p) (\<lambda>summary.
     let q = local_turn_input p rid (ll_uuid l (lr_clock s)) (count + 1) new text_only summary in
     try_else (local_make_turn x p q)
       (\<lambda>e. ret (local_end RunFailed (count + 1) (Some (cause_str e))))
       (\<lambda>turn. thn (local_start_summary p q (tu_summarize turn))
          (if tu_tool_calls turn = [] then
             (if tu_reminded turn then local_turns x l p rid n (count + 1) [] (text_only + 1)
              else if nonempty (tu_stop_reason turn)
              then ret (local_end RunExhausted (count + 1) (tu_stop_reason turn))
              else ret (local_end RunCompleted (count + 1) None))
           else try_else (direct_call (local_tool_group x p turn))
             (\<lambda>e. ret (local_end RunFailed (count + 1) (Some (cause_str e))))
             (\<lambda>terminal. if terminal then ret (local_end RunCompleted (count + 1) None)
                else local_turns x l p rid n (count + 1) [] text_only)))))"

definition local_finalize ::
  "activity_context \<Rightarrow> thread_input \<Rightarrow> string \<Rightarrow> local_run \<Rightarrow> (local_runtime, unit) act" where
  "local_finalize x p rid r = direct_call (finalize_run x
     (finalize_input p rid (lo_outcome r) (lo_turn_count r) (lo_stop_reason r)))"

definition local_started ::
  "activity_context \<Rightarrow> local_loop \<Rightarrow> thread_input \<Rightarrow> string \<Rightarrow> inbound_message list \<Rightarrow> started_run
     \<Rightarrow> (local_runtime, local_run) act" where
  "local_started x l p rid new started =
     (if st_error started \<noteq> None
      then (let r = local_end RunFailed (st_turn_count started) (st_error started)
            in thn (local_finalize x p rid r) (ret r))
      else bnd (local_turns x l p rid (nat (st_max_turns started)) (st_turn_count started) new 0) (\<lambda>r.
        thn (local_finalize x p rid r)
          (bnd (local_ready x l p) (\<lambda>summary.
           thn (case summary of None \<Rightarrow> ret () | Some c \<Rightarrow> local_store x p rid c) (ret r)))))"

definition local_run_body ::
  "activity_context \<Rightarrow> local_loop \<Rightarrow> thread_input \<Rightarrow> inbound_message list \<Rightarrow> (local_runtime, local_run) act" where
  "local_run_body x l p messages = bnd getS (\<lambda>s. let rid = ll_uuid l (lr_clock s) in
     bnd (direct_call (start_run x (start_input p rid))) (local_started x l p rid messages))"

text \<open>\<open>run\<close>: the thread is marked running, and unmarked however the run ends.\<close>

definition local_run_thread ::
  "activity_context \<Rightarrow> local_loop \<Rightarrow> thread_input \<Rightarrow> inbound_message list \<Rightarrow> (local_runtime, local_run) act" where
  "local_run_thread x l p messages s =
     (case local_run_body x l p messages (s\<lparr>lr_running := insert (local_key p) (lr_running s)\<rparr>) of
        (r, s') \<Rightarrow> (r, s'\<lparr>lr_running := lr_running s' - {local_key p}\<rparr>))"

section \<open>The local group is the durable group\<close>

text \<open>\<open>direct_temporal\<close> moves the first pending task on at each await, so its interleaving is the order in
  which the local group runs its activities.\<close>

definition last_error :: "py_error option \<Rightarrow> (py_error + 'b) list \<Rightarrow> py_error option" where
  "last_error err rs = fold (\<lambda>r e. case r of Inl c \<Rightarrow> Some (ActivityError [] (Some c)) | Inr _ \<Rightarrow> e) rs err"

lemma last_error_simps [simp]:
  "last_error err [] = err" "last_error err (Inr a # rs) = last_error err rs"
  "last_error err (Inl c # rs) = last_error (Some (ActivityError [] (Some c))) rs"
  by (simp_all add: last_error_def)

lemma returned_simps [simp]:
  "returned [] = []" "returned (Inr a # rs) = a # returned rs" "returned (Inl c # rs) = returned rs"
  by (simp_all add: returned_def)

lemma last_error_Some: "last_error (Some e) rs \<noteq> None"
proof (induction rs arbitrary: e)
  case (Cons r rs) then show ?case by (cases r) simp_all
qed simp

lemma last_error_None: "last_error None rs = None \<longleftrightarrow> first_error rs = None"
proof (induction rs)
  case (Cons r rs) then show ?case by (cases r) (simp_all add: last_error_Some)
qed simp

lemma drop_nth_0 [simp]: "drop_nth 0 (y # ys) = ys"
  by (simp add: drop_nth_def)

definition moved :: "thread_workflow \<Rightarrow> nat \<Rightarrow> world \<Rightarrow> thread_workflow" where
  "moved s n w = s\<lparr>wf_world := w, wf_clock := wf_clock s + n\<rparr>"

lemma moved_simps [simp]:
  "moved s 0 (wf_world s) = s" "wf_world (moved s n w) = w" "wf_cancelled (moved s n w) = wf_cancelled s"
  "moved (moved s m v) n w = moved s (m + n) w"
  by (simp_all add: moved_def)

lemma direct_activity:
  "await_activity (direct_temporal x) (as_activity m) s = (case m (wf_world s) of
     (Inl e, w) \<Rightarrow> (Inl (ActivityError [] (Some e)), moved s 1 w) | (Inr a, w) \<Rightarrow> (Inr a, moved s 1 w))"
  by (simp add: as_activity_def moved_def split: prod.split sum.split)

lemma direct_admits:
  "gather (\<lambda>sp. admit_tool x (local_admit p rid sp)) sps (wf_world s) = (rs, w) \<Longrightarrow>
   admit_all (direct_temporal x) p rid sps admits err s =
     (case last_error err rs of
        None \<Rightarrow> Inr (fold (\<lambda>ou d. dset (ao_tool_call_id ou) ou d) (returned rs) admits)
      | Some e \<Rightarrow> Inl e, moved s (length sps) w)"
proof (induction sps arbitrary: admits err s rs)
  case (Cons sp sps)
  obtain r w1 where r: "admit_tool x (local_admit p rid sp) (wf_world s) = (r, w1)" by fastforce
  obtain rs' w2 where rest: "gather (\<lambda>sp. admit_tool x (local_admit p rid sp)) sps w1 = (rs', w2)" by fastforce
  from Cons.prems r rest have eq: "rs = r # rs'" "w = w2" by simp_all
  with Cons.IH [of "moved s 1 w1" rs'] rest r show ?case unfolding eq
    by (cases r) (simp_all add: admit_all.simps [of _ _ _ "sp # sps"] direct_activity Let_def is_activity_error_def
      local_admit_def last_error_Some del: direct_await
      split: option.split)
qed (auto simp: admit_all.simps moved_def split: option.split)

lemma direct_drains:
  "gather (\<lambda>sp. execute_tool x 1 (local_execute p rid sp)) sps (wf_world s) = (rs, w) \<Longrightarrow>
   drain_tasks (direct_temporal x) p rid (map (\<lambda>sp. (sp_id sp, Executing)) sps) terminal err s =
     (case last_error err rs of
        None \<Rightarrow> Inr (terminal \<or> list_ex eo_terminal (returned rs))
      | Some e \<Rightarrow> Inl e, moved s (length sps) w)"
proof (induction sps arbitrary: terminal err s rs)
  case (Cons sp sps)
  obtain r w1 where r: "execute_tool x 1 (local_execute p rid sp) (wf_world s) = (r, w1)" by fastforce
  obtain rs' w2 where rest: "gather (\<lambda>sp. execute_tool x 1 (local_execute p rid sp)) sps w1 = (rs', w2)" by fastforce
  from Cons.prems r rest have eq: "rs = r # rs'" "w = w2" by simp_all
  with Cons.IH [of "moved s 1 w1" rs'] rest r show ?case unfolding eq
    by (cases r) (simp_all add: drain_tasks.simps [of _ _ _ "(sp_id sp, Executing) # _"] direct_activity Let_def
      is_activity_error_def ended_def local_execute_def last_error_Some
      del: direct_await split: option.split)
qed (auto simp: drain_tasks.simps moved_def split: option.split)

lemma first_error_returned: "first_error rs = None \<Longrightarrow> rs = map Inr (returned rs)"
proof (induction rs)
  case (Cons r rs) then show ?case by (cases r) simp_all
qed simp

text \<open>An admission answers for its own call.\<close>

lemma gather_admits:
  assumes x: "context_ok_step x"
  shows "gather (\<lambda>sp. admit_tool x (local_admit p rid sp)) sps w = (map Inr ous, w') \<Longrightarrow> calls_keyed w \<Longrightarrow>
     (\<forall>sp \<in> set sps. known (sp_id sp) w) \<Longrightarrow> map ao_tool_call_id ous = map sp_id sps"
proof (induction sps arbitrary: w ous)
  case (Cons sp sps)
  obtain r w1 where r: "admit_tool x (local_admit p rid sp) w = (r, w1)" by fastforce
  obtain rs w2 where rest: "gather (\<lambda>sp. admit_tool x (local_admit p rid sp)) sps w1 = (rs, w2)" by fastforce
  from Cons.prems(1) r rest obtain ou ous' where ous: "ous = ou # ous'" "r = Inr ou" "rs = map Inr ous'" "w2 = w'"
    by (cases ous) auto
  from ensures_admit_tool [OF x, of w "local_admit p rid sp"] Cons.prems(2,3) r ous(2)
  have 1: "store_step w w1" "ao_tool_call_id ou = sp_id sp"
    by (auto simp: local_admit_def ensures_def admit_post_def admitted_rightly_def)
  with Cons.IH [of w1 ous'] Cons.prems(2,3) rest ous calls_keyed_step known_step show ?case by auto
qed simp

lemma dget_fold_None:
  "dget (fold (\<lambda>ou d. dset (ao_tool_call_id ou) ou d) ous d) i = None \<longleftrightarrow> dget d i = None \<and> i \<notin> ao_tool_call_id ` set ous"
  by (induction ous arbitrary: d) auto

lemma dget_fold_Some:
  "dget (fold (\<lambda>ou d. dset (ao_tool_call_id ou) ou d) ous d) i = Some ou \<Longrightarrow> dget d i = Some ou \<or> ou \<in> set ous"
proof (induction ous arbitrary: d)
  case (Cons o1 ous)
  from Cons.IH [of "dset (ao_tool_call_id o1) o1 d"] Cons.prems show ?case by (auto split: if_splits)
qed simp

lemma start_tasks_local:
  assumes human: "\<And>i ou. dget admits i = Some ou \<Longrightarrow> ao_decision ou \<noteq> AdmitAwaitHuman"
  shows "(\<forall>sp \<in> set sps. dget admits (sp_id sp) \<noteq> None) \<Longrightarrow> start_tasks admits sps
     = Inr (map (\<lambda>sp. (sp_id sp, Executing))
         (filter (\<lambda>sp. map_option ao_decision (dget admits (sp_id sp)) = Some AdmitExecute) sps))"
proof (induction sps)
  case (Cons sp sps)
  then obtain ou where ou: "dget admits (sp_id sp) = Some ou" by auto
  with Cons human [OF ou] show ?case by (cases "ao_decision ou") (auto simp: try_bind_def)
qed simp

definition no_human :: "activity_context \<Rightarrow> thread_input \<Rightarrow> turn_result \<Rightarrow> world \<Rightarrow> bool" where
  "no_human x p turn w \<longleftrightarrow> list_all (\<lambda>ou. ao_decision ou \<noteq> AdmitAwaitHuman)
     (returned (fst (gather (\<lambda>sp. admit_tool x (local_admit p (sp_run_id (hd (tu_tool_calls turn))) sp))
        (tu_tool_calls turn) w)))"

lemma direct_tasks:
  assumes x: "context_ok_step x" and keyed: "calls_keyed w" and known: "\<forall>sp \<in> set sps. known (sp_id sp) w"
    and run: "gather (\<lambda>sp. admit_tool x (local_admit p rid sp)) sps w = (map Inr ous, w')"
    and human: "list_all (\<lambda>ou. ao_decision ou \<noteq> AdmitAwaitHuman) ous"
  shows "start_tasks (fold (\<lambda>ou d. dset (ao_tool_call_id ou) ou d) ous []) sps
     = Inr (map (\<lambda>sp. (sp_id sp, Executing)) (filter (\<lambda>sp. decision_in ous (sp_id sp) = Some AdmitExecute) sps))"
proof -
  from gather_admits [OF x run keyed known] have "ao_tool_call_id ` set ous = sp_id ` set sps"
    by (metis set_map)
  then have "dget (fold (\<lambda>ou d. dset (ao_tool_call_id ou) ou d) ous []) (sp_id sp) \<noteq> None"
    if "sp \<in> set sps" for sp using that by (auto simp: dget_fold_None)
  moreover have "ao_decision ou \<noteq> AdmitAwaitHuman"
    if "dget (fold (\<lambda>ou d. dset (ao_tool_call_id ou) ou d) ous []) i = Some ou" for i ou
    using dget_fold_Some [OF that] human by (auto simp: list_all_iff)
  ultimately show ?thesis by (simp add: start_tasks_local decision_in_def)
qed

lemma run_group_eq:
  "tu_tool_calls turn = sp # sps \<Longrightarrow> run_tool_group T p turn =
     bnd (admit_all T p (sp_run_id sp) (tu_tool_calls turn) [] None) (\<lambda>admits.
     bnd (from_res (start_tasks admits (tu_tool_calls turn))) (\<lambda>tasks.
     bnd (drain_tasks T p (sp_run_id sp) tasks False None) (\<lambda>terminal.
     bnd getS (\<lambda>s.
     if wf_cancelled s then ret terminal
     else thn (await_activity T (tm_finalize_group T (sp_group_id sp))) (ret terminal)))))"
  by (simp add: run_tool_group_def)

lemma local_group_eq:
  "tu_tool_calls turn = sp # sps \<Longrightarrow> local_tool_group x p turn =
     bnd (gathered (\<lambda>sp'. admit_tool x (local_admit p (sp_run_id sp) sp')) (tu_tool_calls turn)) (\<lambda>admits.
     bnd (gathered (\<lambda>sp'. execute_tool x 1 (local_execute p (sp_run_id sp) sp'))
            (filter (\<lambda>sp'. decision_in admits (sp_id sp') = Some AdmitExecute) (tu_tool_calls turn))) (\<lambda>outcomes.
     thn (finalize_tool_group x (sp_group_id sp)) (ret (list_ex eo_terminal outcomes))))"
  by (simp add: local_tool_group_def)

text \<open>C13. One loop, two callers. On a thread that was not cancelled, and when admission leaves no call to a
  person, the group of a local run does what the workflow's group does under the simplest Temporal: the
  same calls are admitted and executed in the same order, the stores end in the same state, and the two
  succeed together, with the same answer whether a terminal tool ended the run.\<close>

theorem local_group_is_durable_group:
  assumes x: "context_ok_step x" and keyed: "calls_keyed (wf_world s)"
    and known: "\<forall>sp \<in> set (tu_tool_calls turn). known (sp_id sp) (wf_world s)"
    and live: "\<not> wf_cancelled s" and human: "no_human x p turn (wf_world s)"
    and local: "local_tool_group x p turn (wf_world s) = (r, w)"
    and durable: "run_tool_group (direct_temporal x) p turn s = (r', s')"
  shows "wf_world s' = w \<and> (r' = Inr b \<longleftrightarrow> r = Inr b)"
proof (cases "tu_tool_calls turn")
  case Nil
  with local durable show ?thesis by (simp add: local_tool_group_def run_tool_group_def raise_def)
next
  case (Cons sp0 sps0)
  let ?T = "direct_temporal x" and ?rid = "sp_run_id sp0" and ?sps = "tu_tool_calls turn"
  let ?dict = "\<lambda>ous. fold (\<lambda>ou d. dset (ao_tool_call_id ou) ou d) ous []"
  obtain as w1 where g: "gather (\<lambda>sp. admit_tool x (local_admit p ?rid sp)) ?sps (wf_world s) = (as, w1)" by fastforce
  note admits = direct_admits [OF g, of "[]" None]
  show ?thesis
  proof (cases "first_error as")
    case (Some e)
    with last_error_None [of as] obtain e' where "last_error None as = Some e'" by auto
    with local durable Cons g Some admits show ?thesis
      by (auto simp: local_tool_group_def run_tool_group_def bnd_def gathered_def)
  next
    case None
    from first_error_returned [OF this] g have g': "gather (\<lambda>sp. admit_tool x (local_admit p ?rid sp)) ?sps (wf_world s)
      = (map Inr (returned as), w1)" by simp
    from human g Cons have "list_all (\<lambda>ou. ao_decision ou \<noteq> AdmitAwaitHuman) (returned as)" by (simp add: no_human_def)
    note tasks = direct_tasks [OF x keyed known g' this]
    let ?run = "filter (\<lambda>sp. decision_in (returned as) (sp_id sp) = Some AdmitExecute) ?sps"
    obtain es w2 where e: "gather (\<lambda>sp. execute_tool x 1 (local_execute p ?rid sp)) ?run w1 = (es, w2)" by fastforce
    let ?s1 = "moved s (length ?sps) w1" and ?s2 = "moved s (length ?sps + length ?run) w2"
    let ?tasks = "map (\<lambda>sp. (sp_id sp, Executing)) ?run"
    have A: "admit_all ?T p ?rid ?sps [] None s = (Inr (?dict (returned as)), ?s1)"
      using admits None last_error_None [of as] by simp
    have A': "gathered (\<lambda>sp. admit_tool x (local_admit p ?rid sp)) ?sps (wf_world s) = (Inr (returned as), w1)"
      using g None by (simp add: gathered_def)
    have D: "drain_tasks ?T p ?rid ?tasks False None ?s1
        = (case last_error None es of None \<Rightarrow> Inr (list_ex eo_terminal (returned es)) | Some e \<Rightarrow> Inl e, ?s2)"
      using direct_drains [of x p ?rid ?run ?s1 es w2 False None] e by (simp split: option.split)
    have durable': "run_tool_group ?T p turn s = bnd (drain_tasks ?T p ?rid ?tasks False None) (\<lambda>terminal.
          bnd getS (\<lambda>s. if wf_cancelled s then ret terminal
          else thn (await_activity ?T (tm_finalize_group ?T (sp_group_id sp0))) (ret terminal))) ?s1"
      unfolding run_group_eq [OF Cons] bnd_Inr [of "admit_all _ _ _ _ _ _", OF A] tasks
      by (simp add: bnd_def from_res_def readS_def)
    have local': "local_tool_group x p turn (wf_world s) = bnd (gathered (\<lambda>sp. execute_tool x 1 (local_execute p ?rid sp)) ?run)
          (\<lambda>outcomes. thn (finalize_tool_group x (sp_group_id sp0)) (ret (list_ex eo_terminal outcomes))) w1"
      unfolding local_group_eq [OF Cons] bnd_Inr [of "gathered _ _", OF A'] ..
    show ?thesis
    proof (cases "first_error es")
      case (Some c)
      with last_error_None [of es] obtain c' where "last_error None es = Some c'" by auto
      with D have "drain_tasks ?T p ?rid ?tasks False None ?s1 = (Inl c', ?s2)" by simp
      with local durable e Some show ?thesis unfolding durable' local' by (auto simp: bnd_def gathered_def)
    next
      case no: None
      with last_error_None [of es] D
      have D': "drain_tasks ?T p ?rid ?tasks False None ?s1 = (Inr (list_ex eo_terminal (returned es)), ?s2)" by simp
      have G: "gathered (\<lambda>sp. execute_tool x 1 (local_execute p ?rid sp)) ?run w1 = (Inr (returned es), w2)"
        using e no by (simp add: gathered_def)
      from local durable live show ?thesis
        unfolding durable' local' bnd_Inr [of "drain_tasks _ _ _ _ _ _", OF D'] bnd_Inr [of "gathered _ _", OF G]
        by (auto simp: bnd_def thn_def getS_def readS_def ret_def direct_activity simp del: direct_await
          split: prod.splits sum.splits)
    qed
  qed
qed

theorem local_group_is_durable_group_witness:
  "\<exists>b s'. run_tool_group (direct_temporal sample_context) (new_thread_input ''a'' ''t'')
       (sample_turn_result [spec_of (sample_call ''c1'')]) (new_workflow threaded_world) = (Inr b, s')
     \<and> local_tool_group sample_context (new_thread_input ''a'' ''t'')
       (sample_turn_result [spec_of (sample_call ''c1'')]) threaded_world = (Inr b, wf_world s')"
proof -
  let ?turn = "sample_turn_result [spec_of (sample_call ''c1'')]" and ?p = "new_thread_input ''a'' ''t''"
  obtain b s' where run: "run_tool_group (direct_temporal sample_context) ?p ?turn (new_workflow threaded_world) = (Inr b, s')"
    using sample_group_runs by blast
  obtain r w where local: "local_tool_group sample_context ?p ?turn threaded_world = (r, w)" by fastforce
  have w: "wf_world (new_workflow threaded_world) = threaded_world" "\<not> wf_cancelled (new_workflow threaded_world)"
    by (simp_all add: new_workflow_def)
  have "no_human sample_context ?p ?turn threaded_world"
    by (simp add: no_human_def sample_turn_result_def spec_of_def local_admit_def new_thread_input_def
        sample_admits returned_def)
  from local_group_is_durable_group [OF sample_context_ok _ _ w(2) _ _ run, unfolded w(1), OF _ _ this local, of b]
  have "wf_world s' = w \<and> r = Inr b"
    by (simp add: sample_turn_result_def spec_of_def known_def)
  with run local show ?thesis by auto
qed

end
