(* ===== verification/Sandbox_Access.thy ===== *)
theory Sandbox_Access
  imports Texts Tool_Types
begin

text \<open>
  \<open>actant/sandbox/access.py\<close>: what an agent may write in a shared sandbox, the commands that ready its
  user and paths, and \<open>AccessSetup\<close>, one sandbox's readying of its agents. \<open>sha\<close> is the hex digest of
  \<open>hashlib.sha256\<close>; \<open>run\<close> runs a command as root in the sandbox, and \<open>lock\<close> is what other tasks did to
  the same setup while this one waited for the mutex.
\<close>

section \<open>Access\<close>

definition user_start :: "char \<Rightarrow> bool" where
  "user_start c \<longleftrightarrow> (97 \<le> (of_char c :: nat) \<and> (of_char c :: nat) \<le> 122) \<or> c = CHR ''_''"

definition user_char :: "char \<Rightarrow> bool" where
  "user_char c \<longleftrightarrow> user_start c \<or> is_digit c \<or> c = CHR ''-''"

definition is_user_name :: "string \<Rightarrow> bool" where
  "is_user_name u \<longleftrightarrow> (case u of [] \<Rightarrow> False | c # cs \<Rightarrow> user_start c \<and> list_all user_char cs \<and> length cs \<le> 31)"

definition slash :: char where
  "slash = CHR 0x2F"

definition dot_part :: "string \<Rightarrow> bool" where
  "dot_part p \<longleftrightarrow> p \<in> {'''', ''.'', ''..''}"

definition is_relative :: "string \<Rightarrow> bool" where
  "is_relative p \<longleftrightarrow> p \<noteq> [] \<and> \<not> starts_with [slash] p \<and> \<not> list_ex dot_part (split_on slash p)"

fun check_writable :: "string list \<Rightarrow> py_error + unit" where
  "check_writable [] = Inr ()"
| "check_writable (p # ps) = (if is_relative p then check_writable ps
     else Inl (ValueError (''writable paths are relative and normalized: '' @ repr_str p)))"

definition access_post_init :: "sandbox_access \<Rightarrow> py_error + sandbox_access" where
  "access_post_init a =
     (if \<not> is_user_name (sa_user a)
      then Inl (ValueError (''not a Unix user name: '' @ repr_str (sa_user a) @ ''; see SandboxAccess.user_for''))
      else try_bind (check_writable (sa_writable a)) (\<lambda>_. Inr a))"

definition user_for :: "(string \<Rightarrow> string) \<Rightarrow> string \<Rightarrow> string \<Rightarrow> string" where
  "user_for sha key pre = pre @ take 12 (sha key)"

definition scratch_dir :: "string \<Rightarrow> sandbox_access \<Rightarrow> string option" where
  "scratch_dir tmp a = (if sa_scratch a then Some (tmp @ ''/actant-'' @ sa_user a) else None)"

section \<open>Commands\<close>

text \<open>The script is the text of \<open>_SETUP\<close>; what it does is the sandbox's.\<close>

definition setup_argv ::
  "(string \<Rightarrow> string) \<Rightarrow> string \<Rightarrow> sandbox_access \<Rightarrow> string \<Rightarrow> bool \<Rightarrow> bool \<Rightarrow> string \<Rightarrow> string list" where
  "setup_argv sha script a home restrict_workspace new_user tmp =
     [''bash'', ''-c'', script, ''actant-access'', sa_user a, or_else (scratch_dir tmp a) [], home,
      (if restrict_workspace then tmp @ ''/actant-restricted-'' @ take 12 (sha home) else []),
      (if new_user then ''new'' else [])]
     @ map (\<lambda>p. home @ [slash] @ p) (sa_writable a)"

definition run_argv :: "sandbox_access \<Rightarrow> string list \<Rightarrow> string \<Rightarrow> string list" where
  "run_argv a argv tmp =
     [''runuser'', ''-u'', sa_user a, ''--'', ''env'']
     @ (case scratch_dir tmp a of None \<Rightarrow> [] | Some s \<Rightarrow> [''HOME='' @ s, ''TMPDIR='' @ s]) @ argv"

section \<open>AccessSetup\<close>

record ran =
  rn_returncode :: int
  rn_stdout :: string
  rn_stderr :: string

record access_setup =
  as_restricted :: bool
  as_owned :: "(string, string set) dict"

definition new_setup :: access_setup where
  "new_setup = \<lparr>as_restricted = False, as_owned = []\<rparr>"

definition missing_paths :: "string \<Rightarrow> sandbox_access \<Rightarrow> access_setup \<Rightarrow> string set option" where
  "missing_paths home a s = (case dget (as_owned s) (sa_user a) of
      None \<Rightarrow> None | Some owned \<Rightarrow> Some ((\<lambda>p. home @ [slash] @ p) ` set (sa_writable a) - owned))"

definition readied :: "string \<Rightarrow> string list \<Rightarrow> access_setup \<Rightarrow> access_setup" where
  "readied user printed s = s\<lparr>as_restricted := True, as_owned :=
     dset user (or_else (dget (as_owned s) user) {} \<union> set (filter (\<lambda>l. l \<noteq> []) printed)) (as_owned s)\<rparr>"

definition run_setup ::
  "(string \<Rightarrow> string) \<Rightarrow> string \<Rightarrow> string \<Rightarrow> (string list \<Rightarrow> (access_setup \<times> 'w, ran) act) \<Rightarrow> sandbox_access
     \<Rightarrow> (access_setup \<times> 'w, unit) act" where
  "run_setup sha script home run a = bnd getS (\<lambda>(s, w).
     if missing_paths home a s = Some {} then ret ()
     else bnd (run (setup_argv sha script a home (\<not> as_restricted s) (missing_paths home a s = None) ''/tmp'')) (\<lambda>result.
       if rn_returncode result \<noteq> 0
       then raise (RuntimeError (''sandbox access for '' @ repr_str (sa_user a) @ '' failed: '' @ py_strip (rn_stderr result)))
       else modifyS (\<lambda>(s, w). (readied (sa_user a) (splitlines (rn_stdout result)) s, w))))"

definition ready ::
  "(string \<Rightarrow> string) \<Rightarrow> string \<Rightarrow> string \<Rightarrow> (string list \<Rightarrow> (access_setup \<times> 'w, ran) act)
     \<Rightarrow> (access_setup \<times> 'w, unit) act \<Rightarrow> sandbox_access \<Rightarrow> (access_setup \<times> 'w, unit) act" where
  "ready sha script home run lock a = bnd getS (\<lambda>(s, w).
     if missing_paths home a s = Some {} then ret ()
     else thn lock (run_setup sha script home run a))"

section \<open>What the setups keep\<close>

text \<open>No user is ready in a workspace that was not restricted, and what a user owns only grows.\<close>

definition setup_ok :: "access_setup \<Rightarrow> bool" where
  "setup_ok s \<longleftrightarrow> (\<forall>u. dget (as_owned s) u \<noteq> None \<longrightarrow> as_restricted s)"

definition owns_more :: "access_setup \<Rightarrow> access_setup \<Rightarrow> bool" where
  "owns_more s s' \<longleftrightarrow> (as_restricted s \<longrightarrow> as_restricted s')
     \<and> (\<forall>u own. dget (as_owned s) u = Some own \<longrightarrow> (\<exists>own'. dget (as_owned s') u = Some own' \<and> own \<subseteq> own'))"

definition setup_step :: "access_setup \<times> 'w \<Rightarrow> access_setup \<times> 'w \<Rightarrow> bool" where
  "setup_step sw sw' \<longleftrightarrow> owns_more (fst sw) (fst sw') \<and> (setup_ok (fst sw) \<longrightarrow> setup_ok (fst sw'))"

lemma owns_more_refl: "owns_more s s"
  by (simp add: owns_more_def)

lemma owns_more_trans: "owns_more s t \<Longrightarrow> owns_more t u \<Longrightarrow> owns_more s u"
  unfolding owns_more_def by (meson order_trans)

interpretation su: step_contract setup_step
  by unfold_locales (auto simp: setup_step_def owns_more_refl intro: owns_more_trans)

lemma readied_step: "setup_step (s, w) (readied u printed s, w)"
  by (auto simp: setup_step_def owns_more_def setup_ok_def readied_def)

lemma readied_simps [simp]:
  "as_restricted (readied u printed s)" "\<exists>own. dget (as_owned (readied u printed s)) u = Some own"
  by (simp_all add: readied_def)

definition runs_only :: "(string list \<Rightarrow> (access_setup \<times> 'w, ran) act) \<Rightarrow> bool" where
  "runs_only run \<longleftrightarrow> (\<forall>argv sw. fst (snd (run argv sw)) = fst sw)"

lemma run_setup_step:
  assumes "runs_only run" and "run_setup sha script home run a sw = (r, sw')"
  shows "setup_step sw sw' \<and> (r = Inr () \<longrightarrow> setup_ok (fst sw) \<longrightarrow>
     dget (as_owned (fst sw')) (sa_user a) \<noteq> None \<and> as_restricted (fst sw'))"
proof (cases "missing_paths home a (fst sw) = Some {}")
  case True
  with assms(2) su.step_refl [of sw] show ?thesis
    by (cases sw) (auto simp: run_setup_def act_defs missing_paths_def setup_ok_def split: option.splits)
next
  case False
  obtain s w where sw: "sw = (s, w)" by (cases sw)
  let ?argv = "setup_argv sha script a home (\<not> as_restricted s) (missing_paths home a s = None) ''/tmp''"
  obtain q t w1 where q: "run ?argv (s, w) = (q, t, w1)" by (cases "run ?argv (s, w)") auto
  with assms(1) have t: "t = s" unfolding runs_only_def by (metis fst_conv snd_conv)
  have same: "setup_step (s, w) (s, w1)" by (simp add: setup_step_def owns_more_refl)
  show ?thesis
  proof (cases q)
    case (Inl e)
    with q False assms(2) same show ?thesis by (auto simp: run_setup_def sw t act_defs)
  next
    case (Inr result)
    with q False assms(2) same readied_step [of s w] show ?thesis
      by (auto simp: run_setup_def sw t act_defs setup_step_def split: if_splits)
  qed
qed

text \<open>Readying an agent. Whatever other agents' setups do while this one waits for the mutex, and
  whether it succeeds or raises, a setup never un-restricts the workspace and never takes a path from a
  user; no user is ever ready in a workspace that was not restricted first. One that returns leaves the
  agent ready, and an agent that owns its paths runs no command at all.\<close>

theorem ready_readies:
  assumes run: "runs_only run" and lock: "keeps setup_step lock" and ok: "setup_ok s"
    and call: "ready sha script home run lock a (s, w) = (r, s', w')"
  shows "owns_more s s' \<and> setup_ok s'
     \<and> (missing_paths home a s = Some {} \<longrightarrow> (r, s', w') = (Inr (), s, w))
     \<and> (r = Inr () \<longrightarrow> dget (as_owned s') (sa_user a) \<noteq> None \<and> as_restricted s')"
proof (cases "missing_paths home a s = Some {}")
  case True
  with call ok show ?thesis
    by (auto simp: ready_def act_defs owns_more_refl missing_paths_def setup_ok_def split: option.splits)
next
  case False
  obtain q sw1 where l: "lock (s, w) = (q, sw1)" by (cases "lock (s, w)")
  with keepsD [OF lock, of "(s, w)"] have 1: "setup_step (s, w) sw1" by simp
  show ?thesis
  proof (cases q)
    case (Inl e)
    with l False call 1 ok show ?thesis by (auto simp: ready_def act_defs setup_step_def)
  next
    case (Inr u)
    with l False call have 2: "run_setup sha script home run a sw1 = (r, s', w')" by (simp add: ready_def act_defs)
    from run_setup_step [OF run 2] su.step_trans [OF 1] False 1 ok show ?thesis
      by (auto simp: setup_step_def)
  qed
qed

definition prints :: "string \<Rightarrow> string list \<Rightarrow> (access_setup \<times> string list list, ran) act" where
  "prints out argv = (\<lambda>(s, log). (Inr \<lparr>rn_returncode = 0, rn_stdout = out, rn_stderr = []\<rparr>, (s, log @ [argv])))"

theorem ready_readies_witness:
  "\<exists>s' log. ready (\<lambda>_. ''0123456789abcdef'') [] ''/w'' (prints ''/w/out'') (ret ())
       \<lparr>sa_user = ''agent-1'', sa_writable = [''out''], sa_scratch = True\<rparr> (new_setup, []) = (Inr (), s', log)
     \<and> dget (as_owned s') ''agent-1'' \<noteq> None \<and> as_restricted s'"
proof -
  let ?a = "\<lparr>sa_user = ''agent-1'', sa_writable = [''out''], sa_scratch = True\<rparr>"
  let ?ready = "ready (\<lambda>_. ''0123456789abcdef'') [] ''/w'' (prints ''/w/out'') (ret ()) ?a (new_setup, [])"
  have run: "runs_only (prints ''/w/out'')" by (simp add: runs_only_def prints_def split: prod.split)
  have ok: "setup_ok new_setup" by (simp add: setup_ok_def new_setup_def)
  have "fst ?ready = Inr ()"
    by (simp add: ready_def run_setup_def new_setup_def missing_paths_def prints_def act_defs)
  then obtain s' log where call: "?ready = (Inr (), s', log)" by (cases ?ready) auto
  from ready_readies [OF run su.keeps_ret ok call] call show ?thesis by auto
qed

section \<open>Where the paths are\<close>

lemma relative_parts: "is_relative p \<Longrightarrow> q \<in> set (split_on slash p) \<Longrightarrow> slash \<notin> set q \<and> \<not> dot_part q"
  by (auto simp: is_relative_def list_ex_iff split_on_free)

lemma check_writable_ok: "check_writable ps = Inr () \<longleftrightarrow> (\<forall>p \<in> set ps. is_relative p)"
  by (induction ps) auto

text \<open>Every path a setup gives to an agent lies inside the workspace: below its root by one or more
  folders whose names are proper ones, so no \<open>..\<close>, \<open>.\<close> or empty part leads out of it or to the root
  itself; and the user it is given to is a portable user name, never empty or an option of the command.\<close>

theorem setup_paths_inside:
  assumes "access_post_init a = Inr a'"
  shows "a' = a \<and> sa_user a \<noteq> [] \<and> hd (sa_user a) \<noteq> CHR ''-''
     \<and> (\<forall>q \<in> set (drop 9 (setup_argv sha script a home b n tmp)). \<exists>parts. parts \<noteq> []
         \<and> q = home @ [slash] @ join_with [slash] parts \<and> list_all (\<lambda>p. slash \<notin> set p \<and> p \<notin> {[], ''.'', ''..''}) parts)"
proof -
  from assms have a': "a' = a" and user: "is_user_name (sa_user a)" and paths: "check_writable (sa_writable a) = Inr ()"
    by (auto simp: access_post_init_def try_bind_def split: if_splits sum.splits)
  have "\<exists>parts. parts \<noteq> [] \<and> q = home @ [slash] @ join_with [slash] parts
      \<and> list_all (\<lambda>p. slash \<notin> set p \<and> p \<notin> {[], ''.'', ''..''}) parts"
    if q: "q \<in> set (drop 9 (setup_argv sha script a home b n tmp))" for q
  proof -
    from q obtain p where p: "p \<in> set (sa_writable a)" "q = home @ [slash] @ p" by (auto simp: setup_argv_def)
    with paths have "is_relative p" by (simp add: check_writable_ok)
    then have "list_all (\<lambda>p. slash \<notin> set p \<and> p \<notin> {[], ''.'', ''..''}) (split_on slash p)"
      using relative_parts by (auto simp: list_all_iff dot_part_def)
    with p(2) show ?thesis by (intro exI [of _ "split_on slash p"]) (simp add: join_split)
  qed
  with a' user show ?thesis
    by (auto simp: is_user_name_def user_start_def split: list.splits)
qed

theorem setup_paths_inside_witness:
  "\<exists>parts. ''/w/out/x'' = ''/w'' @ [slash] @ join_with [slash] parts
     \<and> list_all (\<lambda>p. slash \<notin> set p \<and> p \<notin> {[], ''.'', ''..''}) parts"
proof -
  let ?a = "\<lparr>sa_user = ''agent-1'', sa_writable = [''out/x''], sa_scratch = True\<rparr>"
  have "access_post_init ?a = Inr ?a"
    by (simp add: access_post_init_def is_user_name_def user_start_def user_char_def is_digit_def is_relative_def
        starts_with_def slash_def dot_part_def)
  from setup_paths_inside [OF this, of "\<lambda>_. []" "[]" "''/w''" False False "[]"]
  show ?thesis by (auto simp: setup_argv_def slash_def)
qed

end
