(* ===== verification/Sql_Rows.thy ===== *)
theory Sql_Rows
  imports Stores Sandbox_Access
begin

text \<open>
  The rows of the SQL projections (\<open>actant/runtime/stores/postgres/models.py\<close>) and their conversion to and
  from the runtime's records (\<open>postgres/conversion.py\<close>). A column has the type of its \<open>Mapped\<close>
  declaration, so enumerations are stored as text; \<open>created_at\<close> and \<open>updated_at\<close> are integers. A
  header row holds its parts, as the \<open>relationship\<close> loads them. The database is code of its own:
  \<open>jsonb\<close> is what a JSONB column gives back of a value written to it.
\<close>

section \<open>The database's own code\<close>

record sql_engine =
  sq_jsonb :: "json \<Rightarrow> json"
  sq_now :: "nat \<Rightarrow> int"
  sq_as_int :: "json \<Rightarrow> int option"
  sq_blocks_str :: "block list \<Rightarrow> string"

definition jsonb_obj :: "sql_engine \<Rightarrow> json_obj \<Rightarrow> json_obj" where
  "jsonb_obj q d = (case sq_jsonb q (JObj d) of JObj d' \<Rightarrow> d' | _ \<Rightarrow> d)"

section \<open>Enumerations as text\<close>

fun thread_status_str :: "thread_status \<Rightarrow> string" where
  "thread_status_str ThreadIdle = ''idle''"
| "thread_status_str ThreadActive = ''active''"
| "thread_status_str ThreadFailed = ''failed''"
| "thread_status_str ThreadCancelled = ''cancelled''"

fun run_status_str :: "run_status \<Rightarrow> string" where
  "run_status_str RunActive = ''active''"
| "run_status_str RunIdle = ''idle''"
| "run_status_str RunExhausted = ''exhausted''"
| "run_status_str RunFailed = ''failed''"
| "run_status_str RunCancelled = ''cancelled''"

fun part_kind_str :: "part_kind \<Rightarrow> string" where
  "part_kind_str TEXT = ''text''"
| "part_kind_str THINKING = ''thinking''"
| "part_kind_str TOOL_CALL = ''tool_call''"
| "part_kind_str TOOL_RESULT = ''tool_result''"
| "part_kind_str USER_PROMPT = ''user_prompt''"

fun wait_status_str :: "wait_status \<Rightarrow> string" where
  "wait_status_str WS_PENDING = ''pending''"
| "wait_status_str WS_APPROVED = ''approved''"
| "wait_status_str WS_DENIED = ''denied''"

text \<open>An enumeration called on a text: the member with that value, or a \<open>ValueError\<close>.\<close>

definition enum_of :: "string \<Rightarrow> ('a \<Rightarrow> string) \<Rightarrow> 'a list \<Rightarrow> string \<Rightarrow> py_error + 'a" where
  "enum_of name show members v = (case find (\<lambda>m. show m = v) members of
      Some m \<Rightarrow> Inr m | None \<Rightarrow> Inl (ValueError (repr_str v @ '' is not a valid '' @ name)))"

definition thread_status_from :: "string \<Rightarrow> py_error + thread_status" where
  "thread_status_from = enum_of ''ThreadStatus'' thread_status_str [ThreadIdle, ThreadActive, ThreadFailed, ThreadCancelled]"

definition run_status_from :: "string \<Rightarrow> py_error + run_status" where
  "run_status_from = enum_of ''RunStatus'' run_status_str [RunActive, RunIdle, RunExhausted, RunFailed, RunCancelled]"

definition call_status_from :: "string \<Rightarrow> py_error + tool_call_status" where
  "call_status_from = enum_of ''ToolCallStatus'' status_str [REQUESTED, RUNNING, WAITING, COMPLETED, BLOCKED, FAILED]"

definition part_kind_from :: "string \<Rightarrow> py_error + part_kind" where
  "part_kind_from = enum_of ''PartKind'' part_kind_str [TEXT, THINKING, TOOL_CALL, TOOL_RESULT, USER_PROMPT]"

definition wait_status_from :: "string \<Rightarrow> py_error + wait_status" where
  "wait_status_from = enum_of ''WaitStatus'' wait_status_str [WS_PENDING, WS_APPROVED, WS_DENIED]"

named_theorems enum_simps \<open>reading back the text of an enumeration\<close>

lemma thread_status_from_str [enum_simps]: "thread_status_from (thread_status_str s) = Inr s"
  by (cases s) (simp_all add: thread_status_from_def enum_of_def)

lemma run_status_from_str [enum_simps]: "run_status_from (run_status_str s) = Inr s"
  by (cases s) (simp_all add: run_status_from_def enum_of_def)

lemma call_status_from_str [enum_simps]: "call_status_from (status_str s) = Inr s"
  by (cases s) (simp_all add: call_status_from_def enum_of_def)

lemma part_kind_from_str [enum_simps]: "part_kind_from (part_kind_str k) = Inr k"
  by (cases k) (simp_all add: part_kind_from_def enum_of_def)

lemma wait_status_from_str [enum_simps]: "wait_status_from (wait_status_str s) = Inr s"
  by (cases s) (simp_all add: wait_status_from_def enum_of_def)

section \<open>Threads\<close>

record thread_row =
  tw_agent_id :: string
  tw_thread_id :: string
  tw_status :: string
  tw_turn_count :: int
  tw_active_run_id :: "string option"
  tw_parent_thread_id :: "string option"
  tw_parent_turn_id :: "string option"
  tw_parent_tool_call_id :: "string option"
  tw_sandbox_id :: "string option"
  tw_sandbox_user :: "string option"
  tw_sandbox_writable :: "string list option"
  tw_sandbox_scratch :: "bool option"
  tw_updated_at :: int

definition thread_access :: "thread_row \<Rightarrow> py_error + sandbox_access option" where
  "thread_access row = (case tw_sandbox_user row of
      None \<Rightarrow> Inr None
    | Some u \<Rightarrow> try_bind (access_post_init \<lparr>sa_user = u, sa_writable = or_else (tw_sandbox_writable row) [],
          sa_scratch = (tw_sandbox_scratch row \<noteq> Some False)\<rparr>) (\<lambda>a. Inr (Some a)))"

definition thread_from_row :: "thread_row \<Rightarrow> py_error + agent_thread" where
  "thread_from_row row =
     try_bind (thread_status_from (tw_status row)) (\<lambda>status.
     try_bind (thread_access row) (\<lambda>acc.
     Inr \<lparr>th_id = tw_thread_id row, th_agent_id = tw_agent_id row, th_status = status,
       th_turn_count = tw_turn_count row, th_active_run_id = tw_active_run_id row,
       th_parent_thread_id = tw_parent_thread_id row, th_parent_turn_id = tw_parent_turn_id row,
       th_parent_tool_call_id = tw_parent_tool_call_id row, th_sandbox_id = tw_sandbox_id row,
       th_sandbox_access = acc\<rparr>))"

definition set_thread_access :: "sandbox_access option \<Rightarrow> thread_row \<Rightarrow> thread_row" where
  "set_thread_access acc row = row\<lparr>tw_sandbox_user := map_option sa_user acc,
     tw_sandbox_writable := map_option sa_writable acc, tw_sandbox_scratch := map_option sa_scratch acc\<rparr>"

section \<open>Runs\<close>

record run_row =
  rw_run_id :: string
  rw_agent_id :: string
  rw_thread_id :: string
  rw_status :: string
  rw_turn_count :: int
  rw_max_turns :: int
  rw_stop_reason :: "string option"
  rw_created_at :: int
  rw_updated_at :: int

definition run_from_row :: "run_row \<Rightarrow> py_error + agent_run" where
  "run_from_row row = try_bind (run_status_from (rw_status row)) (\<lambda>status.
     Inr \<lparr>run_id = rw_run_id row, run_agent_id = rw_agent_id row, run_thread_id = rw_thread_id row,
       run_status = status, run_turn_count = rw_turn_count row, run_max_turns = rw_max_turns row,
       run_stop_reason = rw_stop_reason row\<rparr>)"

section \<open>Tool calls\<close>

record call_row =
  cw_tool_call_id :: string
  cw_group_id :: string
  cw_run_id :: string
  cw_agent_id :: string
  cw_thread_id :: string
  cw_turn_id :: string
  cw_turn_index :: int
  cw_name :: string
  cw_args :: json_obj
  cw_status :: string
  cw_prompt :: "string option"
  cw_wait_request :: "json_obj option"
  cw_result :: json
  cw_created_at :: int
  cw_updated_at :: int

definition tool_call_from_row :: "call_row \<Rightarrow> py_error + tool_call_record" where
  "tool_call_from_row row = try_bind (call_status_from (cw_status row)) (\<lambda>status.
     Inr \<lparr>r_id = cw_tool_call_id row, r_group_id = cw_group_id row, r_run_id = cw_run_id row,
       r_agent_id = cw_agent_id row, r_thread_id = cw_thread_id row, r_turn_id = cw_turn_id row,
       r_turn_index = cw_turn_index row, r_name = cw_name row, r_args = cw_args row, r_status = status,
       r_prompt = cw_prompt row, r_wait_request = cw_wait_request row, r_result = cw_result row\<rparr>)"

text \<open>\<open>ActantToolCallModel(...)\<close> of a record.\<close>

definition call_row_of :: "sql_engine \<Rightarrow> int \<Rightarrow> tool_call_record \<Rightarrow> call_row" where
  "call_row_of q now tc = \<lparr>cw_tool_call_id = r_id tc, cw_group_id = r_group_id tc, cw_run_id = r_run_id tc,
     cw_agent_id = r_agent_id tc, cw_thread_id = r_thread_id tc, cw_turn_id = r_turn_id tc,
     cw_turn_index = r_turn_index tc, cw_name = r_name tc, cw_args = jsonb_obj q (r_args tc),
     cw_status = status_str (r_status tc), cw_prompt = r_prompt tc,
     cw_wait_request = map_option (jsonb_obj q) (r_wait_request tc), cw_result = sq_jsonb q (r_result tc),
     cw_created_at = now, cw_updated_at = now\<rparr>"

section \<open>Messages and their parts\<close>

record part_row =
  pw_message_id :: string
  pw_part_index :: int
  pw_kind :: string
  pw_content :: "string option"
  pw_content_blocks :: "json option"
  pw_signature :: "string option"
  pw_reasoning_items :: "json list option"
  pw_tool_call_id :: "string option"
  pw_tool_name :: "string option"
  pw_args :: "json_obj option"
  pw_result :: "json_obj option"
  pw_wait_status :: "string option"

record header_row =
  mw_message_id :: string
  mw_agent_id :: string
  mw_thread_id :: string
  mw_turn_id :: "string option"
  mw_role :: string
  mw_input_tokens :: "int option"
  mw_output_tokens :: "int option"
  mw_cache_read_tokens :: "int option"
  mw_cache_write_tokens :: "int option"
  mw_kind :: string
  mw_tag :: "string option"
  mw_created_at :: int
  mw_parts :: "part_row list"

text \<open>\<open>BlocksJSONB\<close>: blocks are validated when they are written and when they are read.\<close>

definition bind_blocks :: "sql_engine \<Rightarrow> block list option \<Rightarrow> py_error + json option" where
  "bind_blocks q bs = (case bs of None \<Rightarrow> Inr None
    | Some bs \<Rightarrow> try_bind (validate_blocks bs) (\<lambda>bs. Inr (Some (sq_jsonb q (JList (map block_to_json bs))))))"

definition load_blocks :: "sql_engine \<Rightarrow> json option \<Rightarrow> py_error + block list option" where
  "load_blocks q j = (case j of None \<Rightarrow> Inr None
    | Some j \<Rightarrow> try_bind (blocks_from_json (sq_as_int q) j) (\<lambda>bs. Inr (Some bs)))"

definition jsonb_list :: "sql_engine \<Rightarrow> json list \<Rightarrow> json list" where
  "jsonb_list q js = (case sq_jsonb q (JList js) of JList js' \<Rightarrow> js' | _ \<Rightarrow> js)"

definition message_part_row :: "sql_engine \<Rightarrow> string \<Rightarrow> nat \<Rightarrow> message_part \<Rightarrow> py_error + part_row" where
  "message_part_row q mid i p = try_bind (bind_blocks q (p_content_blocks p)) (\<lambda>blocks.
     Inr \<lparr>pw_message_id = mid, pw_part_index = int i, pw_kind = part_kind_str (p_kind p), pw_content = p_content p,
       pw_content_blocks = blocks, pw_signature = p_signature p,
       pw_reasoning_items = map_option (jsonb_list q) (p_reasoning_items p),
       pw_tool_call_id = p_tool_call_id p, pw_tool_name = p_tool_name p,
       pw_args = map_option (jsonb_obj q) (p_args p), pw_result = map_option (jsonb_obj q) (p_result p),
       pw_wait_status = map_option wait_status_str (p_wait_status p)\<rparr>)"

definition message_part_from_row :: "sql_engine \<Rightarrow> part_row \<Rightarrow> py_error + message_part" where
  "message_part_from_row q row =
     try_bind (part_kind_from (pw_kind row)) (\<lambda>k.
     try_bind (load_blocks q (pw_content_blocks row)) (\<lambda>blocks.
     try_bind (case pw_wait_status row of None \<Rightarrow> Inr None
         | Some s \<Rightarrow> try_bind (wait_status_from s) (\<lambda>s. Inr (Some s))) (\<lambda>wait.
     Inr \<lparr>p_kind = k, p_content = pw_content row, p_content_blocks = blocks,
       p_tool_call_id = pw_tool_call_id row, p_tool_name = pw_tool_name row, p_args = pw_args row,
       p_result = pw_result row, p_wait_status = wait, p_signature = pw_signature row,
       p_reasoning_items = pw_reasoning_items row\<rparr>)))"

text \<open>The part of a tool's result; a result that is not an object is wrapped in one.\<close>

definition tool_result_part_row :: "sql_engine \<Rightarrow> string \<Rightarrow> string \<Rightarrow> string \<Rightarrow> json \<Rightarrow> py_error + part_row" where
  "tool_result_part_row q mid call_id name result =
     try_bind (tool_result_blocks (sq_as_int q) result) (\<lambda>blocks.
     message_part_row q mid 0 ((new_part TOOL_RESULT)\<lparr>p_content_blocks := blocks,
       p_result := Some (case result of JObj d \<Rightarrow> d | _ \<Rightarrow> [(''value'', result)]),
       p_tool_call_id := Some call_id, p_tool_name := Some name\<rparr>))"

subsection \<open>A message from its header\<close>

definition with_usage :: "header_row \<Rightarrow> message \<Rightarrow> message" where
  "with_usage row m = m\<lparr>m_input_tokens := mw_input_tokens row, m_output_tokens := mw_output_tokens row,
     m_cache_read_tokens := mw_cache_read_tokens row, m_cache_write_tokens := mw_cache_write_tokens row,
     m_kind := (if mw_kind row = ''compaction'' then KCompaction else KMessage), m_tag := mw_tag row,
     m_id := Some (mw_message_id row)\<rparr>"

definition result_part_content :: "message_part \<Rightarrow> content" where
  "result_part_content p = (case p_content_blocks p of
      Some (b # bs) \<Rightarrow> Blocks (b # bs)
    | _ \<Rightarrow> Text (case p_result p of Some d \<Rightarrow> json_dumps (JObj d) | None \<Rightarrow> or_empty (p_content p)))"

definition tool_message_of :: "message_part list \<Rightarrow> message" where
  "tool_message_of parts = (case find (\<lambda>p. p_kind p = TOOL_RESULT) parts of
      Some p \<Rightarrow> (new_message ''tool'' (result_part_content p))\<lparr>m_tool_call_id := p_tool_call_id p, m_name := p_tool_name p\<rparr>
    | None \<Rightarrow> new_message ''tool'' (Text []))"

definition message_from_header :: "sql_engine \<Rightarrow> header_row \<Rightarrow> py_error + message" where
  "message_from_header q row =
     try_bind (try_map (message_part_from_row q) (mw_parts row)) (\<lambda>parts.
     if mw_role row = ''tool'' then Inr (with_usage row (tool_message_of parts))
     else try_bind (parts_to_messages (sq_as_int q) parts) (\<lambda>messages. Inr (with_usage row (case messages of
         m # _ \<Rightarrow> m | [] \<Rightarrow> new_message (mw_role row) (Text [])))))"

end
