(* ===== verification/Sql_Stores.thy ===== *)
theory Sql_Stores
  imports Sql_Rows
begin

text \<open>
  The SQL projection stores (\<open>actant/runtime/stores/postgres/stores.py\<close>). A table is the list of its rows
  in the order they were inserted; a \<open>select\<close> is a filter and its \<open>order_by\<close> a stable sort. A session
  with \<open>session.begin()\<close> is one transaction: all of it happens or, when it raises, none; \<open>sq_now\<close> is
  the time of the n-th transaction. A row whose primary key is taken is refused.
\<close>

section \<open>The database\<close>

record database =
  db_threads :: "thread_row list"
  db_runs :: "run_row list"
  db_messages :: "header_row list"
  db_calls :: "call_row list"
  db_transactions :: nat
  db_uuids :: nat

definition new_database :: database where
  "new_database = \<lparr>db_threads = [], db_runs = [], db_messages = [], db_calls = [], db_transactions = 0, db_uuids = 0\<rparr>"

definition IntegrityError :: py_error where
  "IntegrityError = OtherException ''IntegrityError'' ''duplicate key value violates unique constraint''"

definition db_time :: "sql_engine \<Rightarrow> database \<Rightarrow> int" where
  "db_time q d = sq_now q (db_transactions d)"

definition transaction :: "(database, 'a) act \<Rightarrow> (database, 'a) act" where
  "transaction m d = (case m d of
      (Inl e, d') \<Rightarrow> (Inl e, d\<lparr>db_transactions := Suc (db_transactions d)\<rparr>)
    | (Inr a, d') \<Rightarrow> (Inr a, d'\<lparr>db_transactions := Suc (db_transactions d')\<rparr>))"

definition sql_new_id :: "string \<Rightarrow> (database, string) act" where
  "sql_new_id pre d = (Inr (pre @ ''_'' @ nat_str (db_uuids d)), d\<lparr>db_uuids := Suc (db_uuids d)\<rparr>)"

text \<open>A row by its key, and the rows with the one of that key changed.\<close>

definition row_at :: "('r \<Rightarrow> 'k) \<Rightarrow> 'k \<Rightarrow> 'r list \<Rightarrow> 'r option" where
  "row_at key k rows = find (\<lambda>r. key r = k) rows"

definition change_row :: "('r \<Rightarrow> 'k) \<Rightarrow> 'k \<Rightarrow> ('r \<Rightarrow> 'r) \<Rightarrow> 'r list \<Rightarrow> 'r list" where
  "change_row key k f rows = map (\<lambda>r. if key r = k then f r else r) rows"

definition thread_key_of :: "thread_row \<Rightarrow> string \<times> string" where
  "thread_key_of r = (tw_agent_id r, tw_thread_id r)"

section \<open>Threads\<close>

definition idle_thread_row :: "int \<Rightarrow> string \<Rightarrow> string \<Rightarrow> thread_row" where
  "idle_thread_row now a t = \<lparr>tw_agent_id = a, tw_thread_id = t, tw_status = thread_status_str ThreadIdle,
     tw_turn_count = 0, tw_active_run_id = None, tw_parent_thread_id = None, tw_parent_turn_id = None,
     tw_parent_tool_call_id = None, tw_sandbox_id = None, tw_sandbox_user = None, tw_sandbox_writable = None,
     tw_sandbox_scratch = None, tw_updated_at = now\<rparr>"

definition sql_thread_row :: "sql_engine \<Rightarrow> string \<Rightarrow> string \<Rightarrow> (database, thread_row) act" where
  "sql_thread_row q a t d = (case row_at thread_key_of (a, t) (db_threads d) of
      Some r \<Rightarrow> (Inr r, d)
    | None \<Rightarrow> (let r = idle_thread_row (db_time q d) a t in (Inr r, d\<lparr>db_threads := db_threads d @ [r]\<rparr>)))"

definition sql_threads_get_or_create :: "sql_engine \<Rightarrow> string \<Rightarrow> string \<Rightarrow> (database, agent_thread) act" where
  "sql_threads_get_or_create q a t =
     transaction (bnd (sql_thread_row q a t) (\<lambda>r. from_res (thread_from_row r)))"

definition sql_threads_get :: "string \<Rightarrow> string \<Rightarrow> (database, agent_thread) act" where
  "sql_threads_get a t = readS (\<lambda>d. case row_at thread_key_of (a, t) (db_threads d) of
      None \<Rightarrow> Inl (KeyError t) | Some r \<Rightarrow> thread_from_row r)"

definition thread_values :: "int \<Rightarrow> agent_thread \<Rightarrow> thread_row \<Rightarrow> thread_row" where
  "thread_values now th r = (set_thread_access (th_sandbox_access th) r)\<lparr>
     tw_status := thread_status_str (th_status th), tw_turn_count := th_turn_count th,
     tw_active_run_id := th_active_run_id th, tw_parent_thread_id := th_parent_thread_id th,
     tw_parent_turn_id := th_parent_turn_id th, tw_parent_tool_call_id := th_parent_tool_call_id th,
     tw_sandbox_id := th_sandbox_id th, tw_updated_at := now\<rparr>"

definition sql_threads_update :: "sql_engine \<Rightarrow> agent_thread \<Rightarrow> (database, unit) act" where
  "sql_threads_update q th = transaction (
     thn (sql_thread_row q (th_agent_id th) (th_id th))
       (modifyS (\<lambda>d. d\<lparr>db_threads := change_row thread_key_of (th_agent_id th, th_id th)
          (thread_values (db_time q d) th) (db_threads d)\<rparr>)))"

definition sql_list_children :: "string \<Rightarrow> database \<Rightarrow> py_error + agent_thread list" where
  "sql_list_children t d = try_map thread_from_row (filter (\<lambda>r. tw_parent_thread_id r = Some t) (db_threads d))"

definition sql_list_for_agent :: "string \<Rightarrow> database \<Rightarrow> py_error + agent_thread list" where
  "sql_list_for_agent a d = try_map thread_from_row
     (sort_key (\<lambda>r. - tw_updated_at r) (filter (\<lambda>r. tw_agent_id r = a) (db_threads d)))"

section \<open>Runs\<close>

definition sql_runs_get :: "string \<Rightarrow> (database, agent_run) act" where
  "sql_runs_get rid = readS (\<lambda>d. case row_at rw_run_id rid (db_runs d) of
      None \<Rightarrow> Inl (KeyError rid) | Some r \<Rightarrow> run_from_row r)"

definition sql_runs_create :: "sql_engine \<Rightarrow> string \<Rightarrow> string \<Rightarrow> string \<Rightarrow> int \<Rightarrow> (database, agent_run) act" where
  "sql_runs_create q a t rid max_turns =
     thn (transaction (modifyS (\<lambda>d. if row_at rw_run_id rid (db_runs d) \<noteq> None then d
        else d\<lparr>db_runs := db_runs d @ [\<lparr>rw_run_id = rid, rw_agent_id = a, rw_thread_id = t,
          rw_status = run_status_str RunActive, rw_turn_count = 0, rw_max_turns = max_turns,
          rw_stop_reason = None, rw_created_at = db_time q d, rw_updated_at = db_time q d\<rparr>]\<rparr>)))
       (sql_runs_get rid)"

definition sql_runs_update :: "sql_engine \<Rightarrow> agent_run \<Rightarrow> (database, unit) act" where
  "sql_runs_update q r = transaction (bnd getS (\<lambda>d.
     if row_at rw_run_id (run_id r) (db_runs d) = None then raise (KeyError (run_id r))
     else modifyS (\<lambda>d. d\<lparr>db_runs := change_row rw_run_id (run_id r)
       (\<lambda>row. row\<lparr>rw_status := run_status_str (run_status r), rw_turn_count := run_turn_count r,
          rw_max_turns := run_max_turns r, rw_updated_at := db_time q d\<rparr>) (db_runs d)\<rparr>)))"

definition sql_runs_for_thread :: "string \<Rightarrow> string \<Rightarrow> database \<Rightarrow> py_error + agent_run list" where
  "sql_runs_for_thread a t d = try_map run_from_row (sort_key (\<lambda>r. - rw_created_at r)
     (filter (\<lambda>r. rw_agent_id r = a \<and> rw_thread_id r = t) (db_runs d)))"

definition sql_runs_finish :: "sql_engine \<Rightarrow> string \<Rightarrow> run_status \<Rightarrow> string option \<Rightarrow> (database, unit) act" where
  "sql_runs_finish q rid status stop_reason = transaction (modifyS (\<lambda>d. d\<lparr>db_runs := change_row rw_run_id rid
     (\<lambda>row. row\<lparr>rw_status := run_status_str status, rw_stop_reason := stop_reason, rw_updated_at := db_time q d\<rparr>)
     (db_runs d)\<rparr>))"

section \<open>Tool calls\<close>

definition insert_call :: "sql_engine \<Rightarrow> tool_call_record \<Rightarrow> (database, unit) act" where
  "insert_call q tc = bnd getS (\<lambda>d.
     if row_at cw_tool_call_id (r_id tc) (db_calls d) \<noteq> None then raise IntegrityError
     else modifyS (\<lambda>d. d\<lparr>db_calls := db_calls d @ [call_row_of q (db_time q d) tc]\<rparr>))"

definition sql_calls_save :: "sql_engine \<Rightarrow> tool_call_record \<Rightarrow> (database, unit) act" where
  "sql_calls_save q tc = transaction (insert_call q tc)"

text \<open>The \<open>update ... where ... values\<close> of a status: the columns given, on the rows it may touch.\<close>

definition terminal_text :: "string \<Rightarrow> bool" where
  "terminal_text s \<longleftrightarrow> s \<in> set (map status_str [COMPLETED, BLOCKED, FAILED])"

definition status_values ::
  "sql_engine \<Rightarrow> int \<Rightarrow> tool_call_status \<Rightarrow> json \<Rightarrow> string option \<Rightarrow> json_obj option \<Rightarrow> call_row \<Rightarrow> call_row" where
  "status_values q now status result prompt wait_request r =
     (let r1 = r\<lparr>cw_status := status_str status, cw_updated_at := now\<rparr>;
          r2 = (if result \<noteq> JNull then r1\<lparr>cw_result := sq_jsonb q result\<rparr> else r1);
          r3 = (if prompt \<noteq> None then r2\<lparr>cw_prompt := prompt\<rparr> else r2)
      in if wait_request \<noteq> None then r3\<lparr>cw_wait_request := map_option (jsonb_obj q) wait_request\<rparr> else r3)"

definition update_calls ::
  "string \<Rightarrow> (call_row \<Rightarrow> bool) \<Rightarrow> (call_row \<Rightarrow> call_row) \<Rightarrow> (database, nat) act" where
  "update_calls i allowed f d =
     (Inr (length (filter (\<lambda>r. cw_tool_call_id r = i \<and> allowed r) (db_calls d))),
      d\<lparr>db_calls := change_row cw_tool_call_id i (\<lambda>r. if allowed r then f r else r) (db_calls d)\<rparr>)"

definition sql_calls_update_status ::
  "sql_engine \<Rightarrow> string \<Rightarrow> tool_call_status \<Rightarrow> json \<Rightarrow> string option \<Rightarrow> json_obj option \<Rightarrow> (database, bool) act" where
  "sql_calls_update_status q i status result prompt wait_request = transaction (bnd getS (\<lambda>d.
     bnd (update_calls i (\<lambda>r. \<not> terminal_text (cw_status r))
            (status_values q (db_time q d) status result prompt wait_request)) (\<lambda>n.
     if n = 1 then ret True
     else bnd getS (\<lambda>d. if row_at cw_tool_call_id i (db_calls d) = None then raise (KeyError i) else ret False))))"

definition sql_calls_finish_waiting ::
  "sql_engine \<Rightarrow> string \<Rightarrow> tool_call_status \<Rightarrow> json \<Rightarrow> (database, bool) act" where
  "sql_calls_finish_waiting q i status result = transaction (bnd getS (\<lambda>d.
     bnd (update_calls i (\<lambda>r. cw_status r = status_str WAITING)
            (\<lambda>r. r\<lparr>cw_status := status_str status, cw_result := sq_jsonb q result, cw_updated_at := db_time q d\<rparr>)) (\<lambda>n.
     ret (n = 1))))"

definition sql_calls_get :: "string \<Rightarrow> (database, tool_call_record) act" where
  "sql_calls_get i = readS (\<lambda>d. case row_at cw_tool_call_id i (db_calls d) of
      None \<Rightarrow> Inl (KeyError i) | Some r \<Rightarrow> tool_call_from_row r)"

definition sql_get_group :: "string \<Rightarrow> database \<Rightarrow> py_error + tool_call_record list" where
  "sql_get_group g d = try_map tool_call_from_row
     (sort_by (\<lambda>r s. str_le (cw_tool_call_id r) (cw_tool_call_id s)) (filter (\<lambda>r. cw_group_id r = g) (db_calls d)))"

definition sql_get_by_run :: "string \<Rightarrow> database \<Rightarrow> py_error + tool_call_record list" where
  "sql_get_by_run rid d = try_map tool_call_from_row
     (sort_key cw_created_at (filter (\<lambda>r. cw_run_id r = rid) (db_calls d)))"

definition sql_get_open_for_thread :: "string \<Rightarrow> string \<Rightarrow> database \<Rightarrow> py_error + tool_call_record list" where
  "sql_get_open_for_thread a t d = try_map tool_call_from_row
     (sort_key cw_created_at (filter (\<lambda>r. cw_agent_id r = a \<and> cw_thread_id r = t
        \<and> cw_status r \<in> set (map status_str [REQUESTED, RUNNING, WAITING])) (db_calls d)))"

section \<open>Messages\<close>

definition part_rows :: "sql_engine \<Rightarrow> string \<Rightarrow> message_part list \<Rightarrow> py_error + part_row list" where
  "part_rows q mid parts = try_map (\<lambda>(i, p). message_part_row q mid i p) (enumerate 0 parts)"

text \<open>\<open>with_kind\<close>: \<open>append_assistant_with_tool_calls\<close> leaves \<open>kind\<close> and \<open>tag\<close> at the columns' defaults.\<close>

definition header_of ::
  "sql_engine \<Rightarrow> bool \<Rightarrow> int \<Rightarrow> string \<Rightarrow> string \<Rightarrow> string \<Rightarrow> string option \<Rightarrow> message \<Rightarrow> part_row list \<Rightarrow> header_row" where
  "header_of q with_kind now mid a t turn_id m rows = \<lparr>mw_message_id = mid, mw_agent_id = a, mw_thread_id = t,
     mw_turn_id = turn_id, mw_role = m_role m, mw_input_tokens = m_input_tokens m,
     mw_output_tokens = m_output_tokens m, mw_cache_read_tokens = m_cache_read_tokens m,
     mw_cache_write_tokens = m_cache_write_tokens m,
     mw_kind = (if with_kind \<and> m_kind m = KCompaction then ''compaction'' else ''message''),
     mw_tag = (if with_kind then m_tag m else None), mw_created_at = now, mw_parts = rows\<rparr>"

definition insert_message :: "header_row \<Rightarrow> (database, unit) act" where
  "insert_message row = bnd getS (\<lambda>d.
     if row_at mw_message_id (mw_message_id row) (db_messages d) \<noteq> None then raise IntegrityError
     else modifyS (\<lambda>d. d\<lparr>db_messages := db_messages d @ [row]\<rparr>))"

definition written_record :: "string \<Rightarrow> string \<Rightarrow> string \<Rightarrow> message \<Rightarrow> message_record" where
  "written_record mid a t m = \<lparr>mr_id = mid, mr_agent_id = a, mr_thread_id = t, mr_message = m\<rparr>"

definition sql_append ::
  "sql_engine \<Rightarrow> string \<Rightarrow> string \<Rightarrow> string option \<Rightarrow> message \<Rightarrow> (database, message_record) act" where
  "sql_append q a t turn_id m =
     bnd (sql_new_id ''msg'') (\<lambda>mid.
     bnd (from_res (message_to_parts (sq_blocks_str q) m)) (\<lambda>parts.
     thn (transaction (bnd (from_res (part_rows q mid parts)) (\<lambda>rows. bnd getS (\<lambda>d.
            insert_message (header_of q True (db_time q d) mid a t turn_id m rows)))))
       (ret (written_record mid a t m))))"

definition sql_append_user ::
  "sql_engine \<Rightarrow> string \<Rightarrow> string \<Rightarrow> content \<Rightarrow> string option \<Rightarrow> string option \<Rightarrow> (database, message_record) act" where
  "sql_append_user q a t c tag turn_id = sql_append q a t turn_id ((new_message ''user'' c)\<lparr>m_tag := tag\<rparr>)"

definition sql_append_compaction ::
  "sql_engine \<Rightarrow> string \<Rightarrow> string \<Rightarrow> compaction_block \<Rightarrow> (database, message_record) act" where
  "sql_append_compaction q a t b = sql_append q a t None
     ((new_message ''user'' (Blocks [CompactionBlock b]))\<lparr>m_kind := KCompaction\<rparr>)"

definition sql_append_assistant ::
  "sql_engine \<Rightarrow> string \<Rightarrow> string \<Rightarrow> string \<Rightarrow> message \<Rightarrow> (database, message_record) act" where
  "sql_append_assistant q a t turn_id m = sql_append q a t (Some turn_id) m"

definition sql_append_with_calls ::
  "sql_engine \<Rightarrow> string \<Rightarrow> string \<Rightarrow> string \<Rightarrow> message \<Rightarrow> tool_call_record list \<Rightarrow> (database, message_record) act" where
  "sql_append_with_calls q a t turn_id m calls =
     bnd (sql_new_id ''msg'') (\<lambda>mid.
     bnd (from_res (message_to_parts (sq_blocks_str q) m)) (\<lambda>parts.
     thn (transaction (bnd (from_res (part_rows q mid parts)) (\<lambda>rows. bnd getS (\<lambda>d.
            thn (insert_message (header_of q False (db_time q d) mid a t (Some turn_id) m rows))
              (for_each (insert_call q) calls)))))
       (ret (written_record mid a t m))))"

text \<open>The tool row that answers a call already, found by its tool-result part.\<close>

definition answers_call :: "string \<Rightarrow> string \<Rightarrow> string \<Rightarrow> header_row \<Rightarrow> bool" where
  "answers_call a t i row \<longleftrightarrow> mw_agent_id row = a \<and> mw_thread_id row = t \<and> mw_role row = ''tool''
     \<and> list_ex (\<lambda>p. pw_kind p = part_kind_str TOOL_RESULT \<and> pw_tool_call_id p = Some i) (mw_parts row)"

definition tool_header :: "int \<Rightarrow> string \<Rightarrow> string \<Rightarrow> string \<Rightarrow> string \<Rightarrow> string \<Rightarrow> part_row \<Rightarrow> header_row" where
  "tool_header now mid a t turn_id name row = \<lparr>mw_message_id = mid, mw_agent_id = a, mw_thread_id = t,
     mw_turn_id = Some turn_id, mw_role = ''tool'', mw_input_tokens = None, mw_output_tokens = None,
     mw_cache_read_tokens = None, mw_cache_write_tokens = None, mw_kind = ''message'',
     mw_tag = Some (''tool:'' @ name), mw_created_at = now, mw_parts = [row]\<rparr>"

definition sql_append_tool_result ::
  "sql_engine \<Rightarrow> string \<Rightarrow> string \<Rightarrow> string \<Rightarrow> string \<Rightarrow> string \<Rightarrow> json \<Rightarrow> (database, message_record) act" where
  "sql_append_tool_result q a t turn_id i name result = bnd getS (\<lambda>d0.
     case find (answers_call a t i) (db_messages d0) of
       Some row \<Rightarrow> bnd (from_res (message_from_header q row)) (\<lambda>m. ret (written_record (mw_message_id row) a t m))
     | None \<Rightarrow>
         bnd (sql_new_id ''msg'') (\<lambda>mid.
         thn (transaction (bnd (from_res (tool_result_part_row q mid i name result)) (\<lambda>row. bnd getS (\<lambda>d.
                insert_message (tool_header (db_time q d) mid a t turn_id name row)))))
           (bnd (from_res (tool_result_content (sq_as_int q) result)) (\<lambda>c.
            ret (written_record mid a t ((new_message ''tool'' c)\<lparr>m_tool_call_id := Some i, m_name := Some name\<rparr>))))))"

text \<open>\<open>order_by(created_at, message_id)\<close>.\<close>

definition header_le :: "header_row \<Rightarrow> header_row \<Rightarrow> bool" where
  "header_le r s \<longleftrightarrow> mw_created_at r < mw_created_at s
     \<or> (mw_created_at r = mw_created_at s \<and> str_le (mw_message_id r) (mw_message_id s))"

definition thread_headers :: "string \<Rightarrow> string \<Rightarrow> database \<Rightarrow> header_row list" where
  "thread_headers a t d = sort_by header_le (filter (\<lambda>r. mw_agent_id r = a \<and> mw_thread_id r = t) (db_messages d))"

definition sql_list_for_thread :: "sql_engine \<Rightarrow> string \<Rightarrow> string \<Rightarrow> database \<Rightarrow> py_error + message list" where
  "sql_list_for_thread q a t d = try_map (message_from_header q) (thread_headers a t d)"

definition sql_list_for_turn :: "sql_engine \<Rightarrow> string \<Rightarrow> string \<Rightarrow> string \<Rightarrow> database \<Rightarrow> py_error + message list" where
  "sql_list_for_turn q a t turn_id d =
     try_map (message_from_header q) (filter (\<lambda>r. mw_turn_id r = Some turn_id) (thread_headers a t d))"

definition sql_list_for_model :: "sql_engine \<Rightarrow> string \<Rightarrow> string \<Rightarrow> database \<Rightarrow> py_error + message list" where
  "sql_list_for_model q a t d =
     (case filter (\<lambda>r. mw_kind r = ''compaction'') (thread_headers a t d) of
        [] \<Rightarrow> sql_list_for_thread q a t d
      | rows \<Rightarrow> (let latest = List.last rows in
          try_bind (message_from_header q latest) (\<lambda>m.
          try_bind (compaction_of m) (\<lambda>block.
          (let kept = (case block of None \<Rightarrow> [] | Some b \<Rightarrow> cb_kept b)
           in try_map (message_from_header q)
                (filter (\<lambda>r. header_le latest r \<or> mw_message_id r \<in> set kept) (thread_headers a t d)))))))"

end
