(* ===== verification/Sql_Refine.thy ===== *)
theory Sql_Refine
  imports Sql_Stores
begin

text \<open>
  The SQL stores refine the in-memory stores: a table holds, row by row, what the dictionary holds.
\<close>

section \<open>Tables and dictionaries\<close>

definition tab :: "('r \<Rightarrow> 'k) \<Rightarrow> ('r \<Rightarrow> 'v \<Rightarrow> bool) \<Rightarrow> 'r list \<Rightarrow> ('k, 'v) dict \<Rightarrow> bool" where
  "tab key reads rows d \<longleftrightarrow> wf_dict d \<and> list_all2 (\<lambda>r (k, v). key r = k \<and> reads r v) rows d"

lemma tab_Nil: "tab key reads [] []"
  by (simp add: tab_def)

definition holds :: "('r \<Rightarrow> 'k) \<Rightarrow> ('r \<Rightarrow> 'v \<Rightarrow> bool) \<Rightarrow> 'r \<Rightarrow> 'k \<times> 'v \<Rightarrow> bool" where
  "holds key reads r e \<longleftrightarrow> key r = fst e \<and> reads r (snd e)"

lemma holds_pair: "holds key reads r (k, v) \<longleftrightarrow> key r = k \<and> reads r v"
  by (simp add: holds_def)

lemma tab_holds: "tab key reads rows d \<longleftrightarrow> wf_dict d \<and> list_all2 (holds key reads) rows d"
proof -
  have "(\<lambda>r (k, v). key r = k \<and> reads r v) = holds key reads" by (intro ext) (auto simp: holds_def)
  then show ?thesis by (simp add: tab_def)
qed

lemma rows_Cons:
  assumes "list_all2 (holds key reads) (r # rows) d" and "wf_dict d"
  obtains v d' where "d = (key r, v) # d'" and "reads r v" and "list_all2 (holds key reads) rows d'"
    and "wf_dict d'" and "key r \<notin> fst ` set d'"
proof -
  from assms(1) obtain e d' where d: "d = e # d'" "holds key reads r e" "list_all2 (holds key reads) rows d'"
    by (auto simp: list_all2_Cons1)
  with assms(2) show thesis
    by (intro that [of "snd e" d']) (cases e; auto simp: holds_def wf_dict_def)+
qed

lemma rows_keys: "list_all2 (holds key reads) rows d \<Longrightarrow> key ` set rows = fst ` set d"
  by (induction rows d rule: list_all2_induct) (auto simp: holds_def)

lemma row_at_Cons: "row_at key k (r # rows) = (if key r = k then Some r else row_at key k rows)"
  by (simp add: row_at_def)

lemma change_row_Cons:
  "change_row key k f (r # rows) = (if key r = k then f r else r) # change_row key k f rows"
  by (simp add: change_row_def)

lemma change_row_other: "k \<notin> key ` set rows \<Longrightarrow> change_row key k f rows = rows"
  by (induction rows) (auto simp: change_row_def)

lemma rows_get:
  "list_all2 (holds key reads) rows d \<Longrightarrow> wf_dict d \<Longrightarrow>
   rel_option (\<lambda>r v. key r = k \<and> reads r v) (row_at key k rows) (dget d k)"
proof (induction rows arbitrary: d)
  case (Cons r rows)
  obtain v d' where d: "d = (key r, v) # d'" "reads r v" "list_all2 (holds key reads) rows d'" "wf_dict d'"
    using rows_Cons [OF Cons.prems] by metis
  from Cons.IH [OF d(3,4)] d(1,2) show ?case by (simp add: row_at_Cons)
qed (simp add: row_at_def)

lemma tab_get:
  assumes "tab key reads rows d"
  shows "rel_option (\<lambda>r v. key r = k \<and> reads r v) (row_at key k rows) (dget d k)"
  using assms by (intro rows_get) (simp_all add: tab_holds)

lemma tab_insert:
  assumes "tab key reads rows d" and "dget d k = None" and "key r = k" and "reads r v"
  shows "tab key reads (rows @ [r]) (dset k v d)"
proof -
  from assms(2) have k: "k \<notin> set (dkeys d)" by (simp add: map_of_eq_None_iff)
  have "wf_dict (dset k v d)" using assms(1) by (simp add: tab_holds)
  moreover have "list_all2 (holds key reads) (rows @ [r]) (d @ [(k, v)])"
    using assms by (auto simp: tab_holds holds_def intro: list_all2_appendI)
  ultimately show ?thesis using dset_new [OF k] by (simp add: tab_holds)
qed

lemma rows_change:
  assumes f: "\<And>r. key r = k \<Longrightarrow> reads r v \<Longrightarrow> key (f r) = k \<and> reads (f r) v'"
  shows "list_all2 (holds key reads) rows d \<Longrightarrow> wf_dict d \<Longrightarrow> dget d k = Some v \<Longrightarrow>
   list_all2 (holds key reads) (change_row key k f rows) (dset k v' d)"
proof (induction rows arbitrary: d)
  case (Cons r rows)
  obtain u d' where d: "d = (key r, u) # d'" "reads r u" "list_all2 (holds key reads) rows d'" "wf_dict d'"
    "key r \<notin> fst ` set d'"
    using rows_Cons [OF Cons.prems(1,2)] by metis
  show ?case
  proof (cases "key r = k")
    case True
    with d(5) rows_keys [OF d(3)] have "change_row key k f rows = rows" by (intro change_row_other) simp
    moreover from Cons.prems(3) d(1) True have "u = v" by simp
    ultimately show ?thesis using f [OF True] d(1,2,3) True by (simp add: change_row_Cons holds_pair)
  next
    case False
    with Cons.IH [OF d(3,4)] Cons.prems(3) d(1,2) show ?thesis by (simp add: change_row_Cons holds_pair)
  qed
qed simp

lemma tab_change:
  assumes "tab key reads rows d" and "dget d k = Some v"
    and "\<And>r. key r = k \<Longrightarrow> reads r v \<Longrightarrow> key (f r) = k \<and> reads (f r) v'"
  shows "tab key reads (change_row key k f rows) (dset k v' d)"
  unfolding tab_holds
proof
  show "wf_dict (dset k v' d)" using assms(1) by (simp add: tab_holds)
  show "list_all2 (holds key reads) (change_row key k f rows) (dset k v' d)"
    by (rule rows_change [where v = v]) (use assms in \<open>auto simp: tab_holds\<close>)
qed

lemma tab_absent:
  assumes "tab key reads rows d" and "dget d k = None"
  shows "change_row key k f rows = rows"
proof (rule change_row_other)
  from assms(1) have "list_all2 (holds key reads) rows d" by (simp add: tab_holds)
  from rows_keys [OF this] have "key ` set rows = fst ` set d" .
  with assms(2) show "k \<notin> key ` set rows" by (simp add: map_of_eq_None_iff)
qed

text \<open>How many rows an update with a condition touches: the one of the key, when it is allowed.\<close>

lemma rows_count:
  "list_all2 (holds key reads) rows d \<Longrightarrow> wf_dict d \<Longrightarrow>
   length (filter (\<lambda>r. key r = k \<and> ok r) rows) = (case row_at key k rows of Some r \<Rightarrow> if ok r then 1 else 0 | None \<Rightarrow> 0)"
proof (induction rows arbitrary: d)
  case (Cons r rows)
  obtain u d' where d: "list_all2 (holds key reads) rows d'" "wf_dict d'" "key r \<notin> fst ` set d'"
    using rows_Cons [OF Cons.prems] by metis
  show ?case
  proof (cases "key r = k")
    case True
    with d(3) rows_keys [OF d(1)] have "k \<notin> key ` set rows" by simp
    then have "filter (\<lambda>r. key r = k \<and> ok r) rows = []" by (auto simp: filter_empty_conv)
    with True show ?thesis by (simp add: row_at_Cons)
  next
    case False
    with Cons.IH [OF d(1,2)] show ?thesis by (simp add: row_at_Cons)
  qed
qed (simp add: row_at_def)

lemma tab_count:
  assumes "tab key reads rows d"
  shows "length (filter (\<lambda>r. key r = k \<and> ok r) rows)
     = (case row_at key k rows of Some r \<Rightarrow> if ok r then 1 else 0 | None \<Rightarrow> 0)"
  using assms rows_count [of key reads rows d k ok] by (simp add: tab_holds)

section \<open>Operations\<close>

datatype store_op =
    GetOrCreateThread string string
  | GetThread string string
  | UpdateThread agent_thread
  | CreateRun string string string int
  | GetRun string
  | UpdateRun agent_run
  | FinishRun string run_status "string option"
  | SaveCall tool_call_record
  | UpdateStatus string tool_call_status json "string option" "json_obj option"
  | FinishWaiting string tool_call_status json
  | GetCall string

datatype store_answer =
  ThreadAnswer agent_thread | RunAnswer agent_run | CallAnswer tool_call_record | FlagAnswer bool | NoAnswer

definition on_answer :: "('a \<Rightarrow> 'b) \<Rightarrow> py_error + 'a \<Rightarrow> py_error + 'b" where
  "on_answer f r = (case r of Inl e \<Rightarrow> Inl e | Inr a \<Rightarrow> Inr (f a))"

lemma on_answer_simps [simp]: "on_answer f (Inl e) = Inl e" "on_answer f (Inr a) = Inr (f a)"
  by (simp_all add: on_answer_def)

definition answering :: "('a \<Rightarrow> 'b) \<Rightarrow> ('s, 'a) act \<Rightarrow> ('s, 'b) act" where
  "answering c m s = (case m s of (Inl e, t) \<Rightarrow> (Inl e, t) | (Inr a, t) \<Rightarrow> (Inr (c a), t))"

lemma answering_eq: "answering c m s = (on_answer c (fst (m s)), snd (m s))"
  by (simp add: answering_def split: prod.split sum.split)

fun in_memory :: "store_op \<Rightarrow> (world, store_answer) act" where
  "in_memory (GetOrCreateThread a t) = answering ThreadAnswer (threads_get_or_create a t)"
| "in_memory (GetThread a t) = answering ThreadAnswer (threads_get a t)"
| "in_memory (UpdateThread th) = answering (\<lambda>_. NoAnswer) (threads_update th)"
| "in_memory (CreateRun a t i n) = answering RunAnswer (runs_create a t i n)"
| "in_memory (GetRun i) = answering RunAnswer (runs_get i)"
| "in_memory (UpdateRun r) = answering (\<lambda>_. NoAnswer) (runs_update r)"
| "in_memory (FinishRun i s r) = answering (\<lambda>_. NoAnswer) (runs_finish i s r)"
| "in_memory (SaveCall tc) = answering (\<lambda>_. NoAnswer) (calls_save tc)"
| "in_memory (UpdateStatus i s j p wr) = answering FlagAnswer (calls_update_status i s j p wr)"
| "in_memory (FinishWaiting i s j) = answering FlagAnswer (calls_finish_waiting i s j)"
| "in_memory (GetCall i) = answering CallAnswer (calls_get i)"

fun in_sql :: "sql_engine \<Rightarrow> store_op \<Rightarrow> (database, store_answer) act" where
  "in_sql q (GetOrCreateThread a t) = answering ThreadAnswer (sql_threads_get_or_create q a t)"
| "in_sql q (GetThread a t) = answering ThreadAnswer (sql_threads_get a t)"
| "in_sql q (UpdateThread th) = answering (\<lambda>_. NoAnswer) (sql_threads_update q th)"
| "in_sql q (CreateRun a t i n) = answering RunAnswer (sql_runs_create q a t i n)"
| "in_sql q (GetRun i) = answering RunAnswer (sql_runs_get i)"
| "in_sql q (UpdateRun r) = answering (\<lambda>_. NoAnswer) (sql_runs_update q r)"
| "in_sql q (FinishRun i s r) = answering (\<lambda>_. NoAnswer) (sql_runs_finish q i s r)"
| "in_sql q (SaveCall tc) = answering (\<lambda>_. NoAnswer) (sql_calls_save q tc)"
| "in_sql q (UpdateStatus i s j p wr) = answering FlagAnswer (sql_calls_update_status q i s j p wr)"
| "in_sql q (FinishWaiting i s j) = answering FlagAnswer (sql_calls_finish_waiting q i s j)"
| "in_sql q (GetCall i) = answering CallAnswer (sql_calls_get i)"

text \<open>What a JSONB column keeps of a call.\<close>

definition normal_call :: "sql_engine \<Rightarrow> tool_call_record \<Rightarrow> tool_call_record" where
  "normal_call q tc = tc\<lparr>r_args := jsonb_obj q (r_args tc),
     r_wait_request := map_option (jsonb_obj q) (r_wait_request tc), r_result := sq_jsonb q (r_result tc)\<rparr>"

fun shown :: "sql_engine \<Rightarrow> store_answer \<Rightarrow> store_answer" where
  "shown q (CallAnswer tc) = CallAnswer (normal_call q tc)"
| "shown q ans = ans"

text \<open>Where the two stores are meant to agree: access values are checked ones, a run has a positive budget
  and is updated only in its status and counts, a call is saved once and waited for only when it exists.\<close>

definition checked_access :: "sandbox_access option \<Rightarrow> bool" where
  "checked_access acc \<longleftrightarrow> (case acc of None \<Rightarrow> True | Some a \<Rightarrow> access_post_init a = Inr a)"

fun op_ok :: "store_op \<Rightarrow> world \<Rightarrow> bool" where
  "op_ok (UpdateThread th) w = checked_access (th_sandbox_access th)"
| "op_ok (CreateRun a t i n) w = (1 \<le> n)"
| "op_ok (UpdateRun r) w = (case dget (w_runs w) (run_id r) of None \<Rightarrow> False
     | Some old \<Rightarrow> run_agent_id r = run_agent_id old \<and> run_thread_id r = run_thread_id old
         \<and> run_stop_reason r = run_stop_reason old)"
| "op_ok (SaveCall tc) w = (dget (w_calls w) (r_id tc) = None)"
| "op_ok (FinishWaiting i s j) w = (dget (w_calls w) i \<noteq> None)"
| "op_ok _ w = True"

definition reads_thread :: "thread_row \<Rightarrow> agent_thread \<Rightarrow> bool" where
  "reads_thread row th \<longleftrightarrow> thread_from_row row = Inr th"

definition reads_run :: "run_row \<Rightarrow> agent_run \<Rightarrow> bool" where
  "reads_run row r \<longleftrightarrow> run_from_row row = Inr r"

definition reads_call :: "sql_engine \<Rightarrow> call_row \<Rightarrow> tool_call_record \<Rightarrow> bool" where
  "reads_call q row tc \<longleftrightarrow> tool_call_from_row row = Inr (normal_call q tc)"

definition stores_rel :: "sql_engine \<Rightarrow> database \<Rightarrow> world \<Rightarrow> bool" where
  "stores_rel q d w \<longleftrightarrow> tab thread_key_of reads_thread (db_threads d) (w_threads w)
     \<and> tab rw_run_id reads_run (db_runs d) (w_runs w) \<and> tab cw_tool_call_id (reads_call q) (db_calls d) (w_calls w)"

section \<open>A refinement, operation by operation and for sequences\<close>

fun ops_ok :: "('o \<Rightarrow> 'w \<Rightarrow> bool) \<Rightarrow> ('o \<Rightarrow> ('w, 'a) act) \<Rightarrow> 'o list \<Rightarrow> 'w \<Rightarrow> bool" where
  "ops_ok ok step [] w = True"
| "ops_ok ok step (x # xs) w = (ok x w \<and> ops_ok ok step xs (snd (step x w)))"

locale store_refinement =
  fixes R :: "'d \<Rightarrow> 'w \<Rightarrow> bool" and ok :: "'o \<Rightarrow> 'w \<Rightarrow> bool" and conc :: "'o \<Rightarrow> ('d, 'a) act"
    and spec :: "'o \<Rightarrow> ('w, 'a) act" and show_answer :: "'a \<Rightarrow> 'a"
  assumes refines: "R d w \<Longrightarrow> ok x w \<Longrightarrow>
    fst (conc x d) = on_answer show_answer (fst (spec x w)) \<and> R (snd (conc x d)) (snd (spec x w))"
begin

lemma sequence_refines:
  "R d w \<Longrightarrow> ops_ok ok spec xs w \<Longrightarrow> gather conc xs d = (rs, d') \<Longrightarrow> gather spec xs w = (rs', w') \<Longrightarrow>
   rs = map (on_answer show_answer) rs' \<and> R d' w'"
proof (induction xs arbitrary: d w rs rs' d' w')
  case (Cons x xs)
  obtain r d1 where c: "conc x d = (r, d1)" by fastforce
  obtain r' w1 where s: "spec x w = (r', w1)" by fastforce
  from refines [OF Cons.prems(1), of x] Cons.prems(2) c s have 1: "r = on_answer show_answer r'" "R d1 w1" by simp_all
  obtain qs d2 where c2: "gather conc xs d1 = (qs, d2)" by fastforce
  obtain qs' w2 where s2: "gather spec xs w1 = (qs', w2)" by fastforce
  from Cons.prems(2) s have "ops_ok ok spec xs w1" by simp
  from Cons.IH [OF 1(2) this c2 s2] have "qs = map (on_answer show_answer) qs'" "R d2 w2" by blast+
  with Cons.prems(3,4) c s c2 s2 1(1) show ?case by auto
qed simp

end

section \<open>Each operation refines\<close>

lemma transaction_Inr:
  "m d = (Inr a, d') \<Longrightarrow> transaction m d = (Inr a, d'\<lparr>db_transactions := Suc (db_transactions d')\<rparr>)"
  by (simp add: transaction_def)

lemma transaction_Inl: "m d = (Inl e, d') \<Longrightarrow> transaction m d = (Inl e, d\<lparr>db_transactions := Suc (db_transactions d)\<rparr>)"
  by (simp add: transaction_def)

lemma stores_rel_count [simp]:
  "stores_rel q (d\<lparr>db_transactions := n\<rparr>) w = stores_rel q d w"
  by (simp add: stores_rel_def)

lemma idle_row_reads: "thread_key_of (idle_thread_row now a t) = (a, t)" "thread_from_row (idle_thread_row now a t) = Inr (new_thread t a)"
  by (simp_all add: idle_thread_row_def thread_key_of_def thread_from_row_def thread_access_def new_thread_def
      thread_status_from_str [of ThreadIdle, simplified])

lemma access_parts [simp]: "\<lparr>sa_user = sa_user a, sa_writable = sa_writable a, sa_scratch = sa_scratch a\<rparr> = a"
  by (cases a) simp

lemma thread_values_reads:
  "checked_access (th_sandbox_access th) \<Longrightarrow> thread_key_of row = (th_agent_id th, th_id th) \<Longrightarrow>
     thread_key_of (thread_values now th row) = (th_agent_id th, th_id th)
     \<and> thread_from_row (thread_values now th row) = Inr th"
  by (cases "th_sandbox_access th")
    (auto simp: thread_values_def set_thread_access_def thread_key_of_def thread_from_row_def thread_access_def
      enum_simps checked_access_def)

lemma refine_thread_row:
  assumes "stores_rel q d w" and "sql_thread_row q a t d = (r, d')" and "threads_get_or_create a t w = (r', w')"
  shows "\<exists>row th. r = Inr row \<and> r' = Inr th \<and> thread_key_of row = (a, t) \<and> reads_thread row th \<and> stores_rel q d' w'
     \<and> dget (w_threads w') (a, t) = Some th"
proof -
  from assms(1) have tabs: "tab thread_key_of reads_thread (db_threads d) (w_threads w)" by (simp add: stores_rel_def)
  from tab_get [OF tabs, of "(a, t)"] show ?thesis
  proof (cases rule: option.rel_cases)
    case None
    with assms tab_insert [OF tabs None(2) idle_row_reads(1)] idle_row_reads show ?thesis
      by (auto simp: sql_thread_row_def threads_get_or_create_def Let_def reads_thread_def stores_rel_def)
  next
    case (Some row th)
    with assms show ?thesis by (auto simp: sql_thread_row_def threads_get_or_create_def)
  qed
qed

definition refines_op :: "sql_engine \<Rightarrow> store_op \<Rightarrow> database \<Rightarrow> world \<Rightarrow> bool" where
  "refines_op q x d w \<longleftrightarrow> fst (in_sql q x d) = on_answer (shown q) (fst (in_memory x w))
     \<and> stores_rel q (snd (in_sql q x d)) (snd (in_memory x w))"

lemma refines_opI:
  "in_sql q x d = (r, d') \<Longrightarrow> in_memory x w = (r', w') \<Longrightarrow> r = on_answer (shown q) r' \<Longrightarrow> stores_rel q d' w' \<Longrightarrow>
   refines_op q x d w"
  by (simp add: refines_op_def)

lemma refine_get_or_create:
  assumes "stores_rel q d w"
  shows "refines_op q (GetOrCreateThread a t) d w"
proof -
  obtain r d' where c: "sql_thread_row q a t d = (r, d')" by fastforce
  obtain r' w' where m: "threads_get_or_create a t w = (r', w')" by fastforce
  from refine_thread_row [OF assms c m] obtain row th where
    "r = Inr row" "r' = Inr th" "thread_from_row row = Inr th" "stores_rel q d' w'" by (auto simp: reads_thread_def)
  with c m show ?thesis
    by (simp add: refines_op_def answering_eq sql_threads_get_or_create_def transaction_def bnd_def from_res_def readS_def)
qed

lemma refine_get_thread:
  assumes "stores_rel q d w"
  shows "refines_op q (GetThread a t) d w"
proof -
  from assms have "tab thread_key_of reads_thread (db_threads d) (w_threads w)" by (simp add: stores_rel_def)
  from tab_get [OF this, of "(a, t)"] assms show ?thesis
    by (cases rule: option.rel_cases)
      (simp_all add: refines_op_def answering_eq sql_threads_get_def threads_get_def readS_def reads_thread_def)
qed

lemma refine_update_thread:
  assumes rel: "stores_rel q d w" and ok: "checked_access (th_sandbox_access th)"
  shows "refines_op q (UpdateThread th) d w"
proof -
  let ?k = "(th_agent_id th, th_id th)"
  obtain r d' where c: "sql_thread_row q (th_agent_id th) (th_id th) d = (r, d')" by fastforce
  obtain r' w1 where m: "threads_get_or_create (th_agent_id th) (th_id th) w = (r', w1)" by fastforce
  from refine_thread_row [OF rel c m] obtain row old where
    r: "r = Inr row" "stores_rel q d' w1" "dget (w_threads w1) ?k = Some old" by auto
  from r(2) have tabs: "tab thread_key_of reads_thread (db_threads d') (w_threads w1)" by (simp add: stores_rel_def)
  have "tab thread_key_of reads_thread
      (change_row thread_key_of ?k (thread_values (db_time q d') th) (db_threads d')) (dset ?k th (w_threads w1))"
    using thread_values_reads [OF ok] by (intro tab_change [OF tabs r(3)]) (auto simp: reads_thread_def)
  moreover have "dset ?k th (w_threads w1) = dset ?k th (w_threads w)" "w_runs w1 = w_runs w" "w_calls w1 = w_calls w"
    using m by (auto simp: threads_get_or_create_def Let_def split: option.splits)
  ultimately show ?thesis using c r
    by (simp add: refines_op_def answering_eq sql_threads_update_def transaction_def thn_def bnd_def modifyS_def
        threads_update_def stores_rel_def)
qed

lemma refine_create_run:
  assumes rel: "stores_rel q d w" and ok: "1 \<le> n"
  shows "refines_op q (CreateRun a t i n) d w"
proof -
  from rel have tabs: "tab rw_run_id reads_run (db_runs d) (w_runs w)" by (simp add: stores_rel_def)
  let ?row = "\<lparr>rw_run_id = i, rw_agent_id = a, rw_thread_id = t, rw_status = run_status_str RunActive,
    rw_turn_count = 0, rw_max_turns = n, rw_stop_reason = None, rw_created_at = db_time q d, rw_updated_at = db_time q d\<rparr>"
  let ?run = "\<lparr>run_id = i, run_agent_id = a, run_thread_id = t, run_status = RunActive, run_turn_count = 0,
    run_max_turns = n, run_stop_reason = None\<rparr>"
  from tab_get [OF tabs, of i] show ?thesis
  proof (cases rule: option.rel_cases)
    case None
    have reads: "reads_run ?row ?run" using run_status_from_str [of RunActive] by (simp add: reads_run_def run_from_row_def)
    with tab_insert [OF tabs None(2), of ?row ?run] have new: "tab rw_run_id reads_run (db_runs d @ [?row]) (dset i ?run (w_runs w))"
      by simp
    have "row_at rw_run_id i (db_runs d @ [?row]) = Some ?row"
      using None(1) by (simp add: row_at_def find_append)
    with None new rel reads ok show ?thesis
      by (simp add: refines_op_def answering_eq sql_runs_create_def transaction_def thn_def bnd_def modifyS_def
          sql_runs_get_def readS_def runs_create_def Let_def dsetdefault_def stores_rel_def reads_run_def)
  next
    case (Some row run)
    with rel show ?thesis
      by (simp add: refines_op_def answering_eq sql_runs_create_def transaction_def thn_def bnd_def modifyS_def
          sql_runs_get_def readS_def runs_create_def Let_def stores_rel_def reads_run_def)
  qed
qed

lemma refine_get_run:
  assumes "stores_rel q d w"
  shows "refines_op q (GetRun i) d w"
proof -
  from assms have "tab rw_run_id reads_run (db_runs d) (w_runs w)" by (simp add: stores_rel_def)
  from tab_get [OF this, of i] assms show ?thesis
    by (cases rule: option.rel_cases)
      (simp_all add: refines_op_def answering_eq sql_runs_get_def runs_get_def readS_def reads_run_def)
qed

lemma refine_update_run:
  assumes rel: "stores_rel q d w" and ok: "op_ok (UpdateRun r) w"
  shows "refines_op q (UpdateRun r) d w"
proof -
  from rel have tabs: "tab rw_run_id reads_run (db_runs d) (w_runs w)" by (simp add: stores_rel_def)
  let ?f = "\<lambda>row. row\<lparr>rw_status := run_status_str (run_status r), rw_turn_count := run_turn_count r,
    rw_max_turns := run_max_turns r, rw_updated_at := db_time q d\<rparr>"
  from ok obtain old where old: "dget (w_runs w) (run_id r) = Some old" "run_agent_id r = run_agent_id old"
    "run_thread_id r = run_thread_id old" "run_stop_reason r = run_stop_reason old" by (auto split: option.splits)
  have "tab rw_run_id reads_run (change_row rw_run_id (run_id r) ?f (db_runs d)) (dset (run_id r) r (w_runs w))"
    using old(2-4)
    by (intro tab_change [OF tabs old(1)]) (auto simp: reads_run_def run_from_row_def enum_simps try_bind_Inr)
  moreover from tab_get [OF tabs, of "run_id r"] old(1) obtain row where "row_at rw_run_id (run_id r) (db_runs d) = Some row"
    by (auto simp: rel_option_iff split: option.splits)
  ultimately show ?thesis using rel
    by (simp add: refines_op_def answering_eq sql_runs_update_def transaction_def bnd_def getS_def modifyS_def
        runs_update_def stores_rel_def)
qed

lemma refine_finish_run:
  assumes rel: "stores_rel q d w"
  shows "refines_op q (FinishRun i st reason) d w"
proof -
  from rel have tabs: "tab rw_run_id reads_run (db_runs d) (w_runs w)" by (simp add: stores_rel_def)
  let ?f = "\<lambda>row. row\<lparr>rw_status := run_status_str st, rw_stop_reason := reason, rw_updated_at := db_time q d\<rparr>"
  show ?thesis
  proof (cases "dget (w_runs w) i")
    case None
    with rel tab_absent [OF tabs None, of ?f] show ?thesis
      by (simp add: refines_op_def answering_eq sql_runs_finish_def transaction_def modifyS_def runs_finish_def stores_rel_def)
  next
    case (Some run)
    have "tab rw_run_id reads_run (change_row rw_run_id i ?f (db_runs d))
        (dset i (run\<lparr>run_status := st, run_stop_reason := reason\<rparr>) (w_runs w))"
      by (intro tab_change [OF tabs Some]) (auto simp: reads_run_def run_from_row_def enum_simps try_bind_Inr)
    with rel Some show ?thesis
      by (simp add: refines_op_def answering_eq sql_runs_finish_def transaction_def modifyS_def runs_finish_def stores_rel_def)
  qed
qed

lemma reads_new_call: "cw_tool_call_id (call_row_of q now tc) = r_id tc" "reads_call q (call_row_of q now tc) tc"
  by (simp_all add: call_row_of_def reads_call_def tool_call_from_row_def enum_simps normal_call_def)

lemma reads_call_iff:
  "reads_call q row tc \<longleftrightarrow> cw_tool_call_id row = r_id tc \<and> cw_group_id row = r_group_id tc \<and> cw_run_id row = r_run_id tc
     \<and> cw_agent_id row = r_agent_id tc \<and> cw_thread_id row = r_thread_id tc \<and> cw_turn_id row = r_turn_id tc
     \<and> cw_turn_index row = r_turn_index tc \<and> cw_name row = r_name tc \<and> cw_args row = jsonb_obj q (r_args tc)
     \<and> call_status_from (cw_status row) = Inr (r_status tc) \<and> cw_prompt row = r_prompt tc
     \<and> cw_wait_request row = map_option (jsonb_obj q) (r_wait_request tc) \<and> cw_result row = sq_jsonb q (r_result tc)"
  by (cases tc) (auto simp: reads_call_def tool_call_from_row_def normal_call_def try_bind_Inr)

lemma reads_call_status: "reads_call q row tc \<Longrightarrow> cw_status row = status_str s \<longleftrightarrow> r_status tc = s"
proof -
  assume "reads_call q row tc"
  then obtain st where st: "call_status_from (cw_status row) = Inr st" "r_status tc = st"
    by (auto simp: reads_call_iff)
  from st(1) have "cw_status row = status_str st"
    by (auto simp: call_status_from_def enum_of_def split: if_splits)
  with st(2) show ?thesis by (cases st; cases s) simp_all
qed

lemma terminal_text_iff: "reads_call q row tc \<Longrightarrow> terminal_text (cw_status row) \<longleftrightarrow> terminal_status (r_status tc)"
  using reads_call_status [of q row tc]
  by (auto simp: terminal_text_def terminal_status_def simp del: status_str.simps)

lemma status_values_reads:
  "cw_tool_call_id row = i \<Longrightarrow> reads_call q row tc \<Longrightarrow>
   cw_tool_call_id (status_values q now s j p wr row) = i
     \<and> reads_call q (status_values q now s j p wr row) (update_record s j p wr tc)"
  by (auto simp: status_values_def update_record_def Let_def reads_call_iff enum_simps)

lemma refine_save_call:
  assumes rel: "stores_rel q d w" and ok: "dget (w_calls w) (r_id tc) = None"
  shows "refines_op q (SaveCall tc) d w"
proof -
  from rel have tabs: "tab cw_tool_call_id (reads_call q) (db_calls d) (w_calls w)" by (simp add: stores_rel_def)
  from tab_get [OF tabs, of "r_id tc"] ok have "row_at cw_tool_call_id (r_id tc) (db_calls d) = None" by simp
  with rel tab_insert [OF tabs ok reads_new_call] show ?thesis
    by (simp add: refines_op_def answering_eq sql_calls_save_def insert_call_def transaction_def bnd_def getS_def
        modifyS_def calls_save_def stores_rel_def)
qed

lemma refine_get_call:
  assumes "stores_rel q d w"
  shows "refines_op q (GetCall i) d w"
proof -
  from assms have "tab cw_tool_call_id (reads_call q) (db_calls d) (w_calls w)" by (simp add: stores_rel_def)
  from tab_get [OF this, of i] assms show ?thesis
    by (cases rule: option.rel_cases)
      (simp_all add: refines_op_def answering_eq sql_calls_get_def calls_get_def readS_def reads_call_def)
qed

text \<open>The conditional update: it touches the row when the row may be touched.\<close>

lemma update_calls_spec:
  assumes tabs: "tab cw_tool_call_id (reads_call q) (db_calls d) (w_calls w)"
    and tc: "dget (w_calls w) i = Some tc" and allowed: "\<And>row. reads_call q row tc \<Longrightarrow> ok row \<longleftrightarrow> b"
    and f: "\<And>row. cw_tool_call_id row = i \<Longrightarrow> reads_call q row tc \<Longrightarrow>
      cw_tool_call_id (f row) = i \<and> reads_call q (f row) tc'"
  shows "\<exists>rows. update_calls i ok f d = (Inr (if b then 1 else 0), d\<lparr>db_calls := rows\<rparr>)
     \<and> tab cw_tool_call_id (reads_call q) rows (if b then dset i tc' (w_calls w) else w_calls w)"
proof -
  from tab_get [OF tabs, of i] tc obtain row where row: "row_at cw_tool_call_id i (db_calls d) = Some row"
    "reads_call q row tc" by (auto simp: rel_option_iff split: option.splits)
  with tab_count [OF tabs, of i ok] allowed [OF row(2)]
  have n: "length (filter (\<lambda>r. cw_tool_call_id r = i \<and> ok r) (db_calls d)) = (if b then 1 else 0)" by simp
  let ?f = "\<lambda>r. if ok r then f r else r"
  have "tab cw_tool_call_id (reads_call q) (change_row cw_tool_call_id i ?f (db_calls d))
      (dset i (if b then tc' else tc) (w_calls w))"
    using f allowed by (intro tab_change [OF tabs tc]) auto
  moreover have "dset i tc (w_calls w) = w_calls w" by (rule dset_same [OF tc])
  ultimately show ?thesis using n by (cases b) (auto simp: update_calls_def)
qed

lemma update_calls_absent:
  assumes tabs: "tab cw_tool_call_id (reads_call q) (db_calls d) (w_calls w)" and tc: "dget (w_calls w) i = None"
  shows "update_calls i ok f d = (Inr 0, d) \<and> row_at cw_tool_call_id i (db_calls d) = None"
proof -
  from tab_get [OF tabs, of i] tc have "row_at cw_tool_call_id i (db_calls d) = None" by simp
  with tab_absent [OF tabs tc] tab_count [OF tabs, of i ok] show ?thesis by (simp add: update_calls_def)
qed

lemma refine_update_status:
  assumes rel: "stores_rel q d w"
  shows "refines_op q (UpdateStatus i s j p wr) d w"
proof -
  from rel have tabs: "tab cw_tool_call_id (reads_call q) (db_calls d) (w_calls w)" by (simp add: stores_rel_def)
  let ?ok = "\<lambda>r. \<not> terminal_text (cw_status r)" and ?f = "status_values q (db_time q d) s j p wr"
  show ?thesis
  proof (cases "dget (w_calls w) i")
    case None
    with rel update_calls_absent [OF tabs None, of ?ok ?f] show ?thesis
      by (simp add: refines_op_def answering_eq sql_calls_update_status_def transaction_def bnd_def getS_def raise_def
          calls_update_status_def)
  next
    case (Some tc)
    have a: "?ok row \<longleftrightarrow> \<not> terminal_status (r_status tc)" if "reads_call q row tc" for row
      using terminal_text_iff [OF that] by blast
    from update_calls_spec [OF tabs Some, of ?ok "\<not> terminal_status (r_status tc)" ?f, OF a status_values_reads]
    obtain rows where
      rows: "update_calls i ?ok ?f d = (Inr (if \<not> terminal_status (r_status tc) then 1 else 0), d\<lparr>db_calls := rows\<rparr>)"
      "tab cw_tool_call_id (reads_call q) rows
         (if \<not> terminal_status (r_status tc) then dset i (update_record s j p wr tc) (w_calls w) else w_calls w)"
      by blast
    show ?thesis
    proof (cases "terminal_status (r_status tc)")
      case True
      with rows(2) have same: "tab cw_tool_call_id (reads_call q) rows (w_calls w)" by simp
      from tab_get [OF same, of i] Some
      obtain row where "row_at cw_tool_call_id i rows = Some row" by (auto simp: rel_option_iff split: option.splits)
      with True rows rel Some show ?thesis
        by (simp add: refines_op_def answering_eq sql_calls_update_status_def transaction_def bnd_def getS_def ret_def
            calls_update_status_def stores_rel_def)
    next
      case False
      with rows rel Some show ?thesis
        by (simp add: refines_op_def answering_eq sql_calls_update_status_def transaction_def bnd_def getS_def ret_def
            calls_update_status_def stores_rel_def)
    qed
  qed
qed

lemma refine_finish_waiting:
  assumes rel: "stores_rel q d w" and ok: "dget (w_calls w) i \<noteq> None"
  shows "refines_op q (FinishWaiting i s j) d w"
proof -
  from rel have tabs: "tab cw_tool_call_id (reads_call q) (db_calls d) (w_calls w)" by (simp add: stores_rel_def)
  from ok obtain tc where tc: "dget (w_calls w) i = Some tc" by blast
  let ?ok = "\<lambda>r. cw_status r = status_str WAITING"
  let ?f = "\<lambda>r. r\<lparr>cw_status := status_str s, cw_result := sq_jsonb q j, cw_updated_at := db_time q d\<rparr>"
  have f: "cw_tool_call_id (?f row) = i \<and> reads_call q (?f row) (tc\<lparr>r_status := s, r_result := j\<rparr>)"
    if "cw_tool_call_id row = i" "reads_call q row tc" for row
    using that by (auto simp: reads_call_iff enum_simps)
  have a: "?ok row \<longleftrightarrow> r_status tc = WAITING" if "reads_call q row tc" for row
    using reads_call_status [OF that] .
  from update_calls_spec [OF tabs tc, of ?ok "r_status tc = WAITING" ?f, OF a f] obtain rows where
    "update_calls i ?ok ?f d = (Inr (if r_status tc = WAITING then 1 else 0), d\<lparr>db_calls := rows\<rparr>)"
    "tab cw_tool_call_id (reads_call q) rows
       (if r_status tc = WAITING then dset i (tc\<lparr>r_status := s, r_result := j\<rparr>) (w_calls w) else w_calls w)" by blast
  with rel tc show ?thesis
    by (cases "r_status tc = WAITING")
      (simp_all add: refines_op_def answering_eq sql_calls_finish_waiting_def transaction_def bnd_def getS_def ret_def
        calls_finish_waiting_def stores_rel_def)
qed

interpretation sr: store_refinement "stores_rel q" op_ok "in_sql q" in_memory "shown q" for q
proof unfold_locales
  fix d w x assume rel: "stores_rel q d w" and ok: "op_ok x w"
  have "refines_op q x d w"
  proof (cases x)
    case (GetOrCreateThread a t) with rel refine_get_or_create show ?thesis by simp
  next
    case (GetThread a t) with rel refine_get_thread show ?thesis by simp
  next
    case (UpdateThread th) with rel ok refine_update_thread show ?thesis by simp
  next
    case (CreateRun a t i n) with rel ok refine_create_run show ?thesis by simp
  next
    case (GetRun i) with rel refine_get_run show ?thesis by simp
  next
    case (UpdateRun r) with rel ok refine_update_run show ?thesis by blast
  next
    case (FinishRun i s r) with rel refine_finish_run show ?thesis by simp
  next
    case (SaveCall tc) with rel ok refine_save_call show ?thesis by simp
  next
    case (UpdateStatus i s j p wr) with rel refine_update_status show ?thesis by simp
  next
    case (FinishWaiting i s j) with rel ok refine_finish_waiting show ?thesis by simp
  next
    case (GetCall i) with rel refine_get_call show ?thesis by simp
  qed
  then show "fst (in_sql q x d) = on_answer (shown q) (fst (in_memory x w))
      \<and> stores_rel q (snd (in_sql q x d)) (snd (in_memory x w))" by (simp add: refines_op_def)
qed

section \<open>Lists of rows\<close>

lemma tab_rows: "tab key reads rows d \<Longrightarrow> list_all2 reads rows (dvalues d)"
  by (auto simp: tab_holds list.rel_map holds_def elim: list_all2_mono)

lemma list_all2_filter:
  "list_all2 P xs ys \<Longrightarrow> (\<And>x y. P x y \<Longrightarrow> f x \<longleftrightarrow> g y) \<Longrightarrow> list_all2 P (filter f xs) (filter g ys)"
  by (induction xs ys rule: list_all2_induct) auto

lemma try_map_all2: "list_all2 (\<lambda>x y. f x = Inr (g y)) xs ys \<Longrightarrow> try_map f xs = Inr (map g ys)"
  by (induction xs ys rule: list_all2_induct) simp_all

lemma refine_children:
  assumes "stores_rel q d w"
  shows "sql_list_children t d = Inr (list_children t w)"
proof -
  from assms have "list_all2 reads_thread (db_threads d) (dvalues (w_threads w))" by (auto simp: stores_rel_def intro: tab_rows)
  then have "list_all2 reads_thread (filter (\<lambda>r. tw_parent_thread_id r = Some t) (db_threads d)) (list_children t w)"
    unfolding list_children_def
    by (rule list_all2_filter) (auto simp: reads_thread_def thread_from_row_def try_bind_Inr)
  with try_map_all2 [of thread_from_row "\<lambda>th. th"] show ?thesis
    by (simp add: sql_list_children_def reads_thread_def [abs_def])
qed

text \<open>\<open>get_group\<close> returns the members by id where the memory store returns them as they were saved.\<close>

lemma insert_by_all2:
  assumes "\<And>x y x' y'. P x y \<Longrightarrow> P x' y' \<Longrightarrow> le x x' \<longleftrightarrow> le' y y'" and "P x y"
  shows "list_all2 P xs ys \<Longrightarrow> list_all2 P (insert_by le x xs) (insert_by le' y ys)"
  by (induction xs ys rule: list_all2_induct) (use assms in auto)

lemma sort_by_all2:
  assumes "\<And>x y x' y'. P x y \<Longrightarrow> P x' y' \<Longrightarrow> le x x' \<longleftrightarrow> le' y y'"
  shows "list_all2 P xs ys \<Longrightarrow> list_all2 P (sort_by le xs) (sort_by le' ys)"
  by (induction xs ys rule: list_all2_induct) (simp_all add: sort_by_Cons insert_by_all2 [OF assms])

lemma refine_group:
  assumes "stores_rel q d w"
  shows "sql_get_group g d
     = Inr (map (normal_call q) (sort_by (\<lambda>r s. str_le (r_id r) (r_id s)) (get_group g w)))"
proof -
  let ?P = "reads_call q"
  from assms have "list_all2 ?P (db_calls d) (dvalues (w_calls w))" by (auto simp: stores_rel_def intro: tab_rows)
  then have "list_all2 ?P (filter (\<lambda>r. cw_group_id r = g) (db_calls d)) (get_group g w)"
    unfolding get_group_def by (rule list_all2_filter) (simp add: reads_call_iff)
  then have "list_all2 ?P (sort_by (\<lambda>r s. str_le (cw_tool_call_id r) (cw_tool_call_id s))
       (filter (\<lambda>r. cw_group_id r = g) (db_calls d))) (sort_by (\<lambda>r s. str_le (r_id r) (r_id s)) (get_group g w))"
    by (intro sort_by_all2) (simp_all add: reads_call_iff)
  then show ?thesis unfolding sql_get_group_def
    by (intro try_map_all2) (simp add: reads_call_def [abs_def])
qed


definition plain_engine :: sql_engine where
  "plain_engine = \<lparr>sq_jsonb = id, sq_now = int, sq_as_int = as_int_strict, sq_blocks_str = (\<lambda>_. [])\<rparr>"

definition plain_call :: tool_call_record where
  "plain_call = \<lparr>r_id = ''c'', r_group_id = ''g'', r_run_id = ''r'', r_agent_id = ''a'', r_thread_id = ''t'',
     r_turn_id = ''u'', r_turn_index = 1, r_name = ''f'', r_args = [], r_status = REQUESTED, r_prompt = None,
     r_wait_request = None, r_result = JNull\<rparr>"


end
