(* ===== verification/Sql_Messages.thy ===== *)
theory Sql_Messages
  imports Sql_Stores
begin

text \<open>What the SQL message store gives back of an assistant message it was given.\<close>

section \<open>Rows of parts\<close>

definition keeps_json :: "sql_engine \<Rightarrow> bool" where
  "keeps_json q \<longleftrightarrow> (\<forall>j. sq_jsonb q j = j)"

lemma keeps_json_simps:
  assumes "keeps_json q"
  shows "jsonb_obj q d = d" "jsonb_list q js = js"
  using assms by (simp_all add: keeps_json_def jsonb_obj_def jsonb_list_def)

lemma part_round_trip:
  assumes q: "keeps_json q" and p: "p_content_blocks p = None"
  shows "\<exists>row. message_part_row q mid i p = Inr row \<and> message_part_from_row q row = Inr p"
proof -
  have "map_option (jsonb_obj q) d = d" for d using keeps_json_simps(1) [OF q] by (cases d) simp_all
  moreover have "map_option (jsonb_list q) d = d" for d using keeps_json_simps(2) [OF q] by (cases d) simp_all
  moreover have "\<lparr>p_kind = p_kind p, p_content = p_content p, p_content_blocks = None, p_tool_call_id = p_tool_call_id p,
      p_tool_name = p_tool_name p, p_args = p_args p, p_result = p_result p, p_wait_status = p_wait_status p,
      p_signature = p_signature p, p_reasoning_items = p_reasoning_items p\<rparr> = p"
    using p by (cases p) simp
  ultimately show ?thesis using p
    by (cases "p_wait_status p")
      (simp_all add: message_part_row_def bind_blocks_def message_part_from_row_def load_blocks_def enum_simps)
qed

lemma part_rows_round_trip:
  assumes q: "keeps_json q"
  shows "list_all (\<lambda>p. p_content_blocks p = None) ps \<Longrightarrow>
    \<exists>rows. try_map (\<lambda>(i, p). message_part_row q mid i p) (enumerate n ps) = Inr rows
      \<and> try_map (message_part_from_row q) rows = Inr ps"
proof (induction ps arbitrary: n)
  case (Cons p ps)
  then have p: "p_content_blocks p = None" and ps: "list_all (\<lambda>p. p_content_blocks p = None) ps" by simp_all
  obtain rows where r: "try_map (\<lambda>(i, p). message_part_row q mid i p) (enumerate (Suc n) ps) = Inr rows"
    "try_map (message_part_from_row q) rows = Inr ps" using Cons.IH [OF ps] by blast
  obtain row where "message_part_row q mid n p = Inr row" "message_part_from_row q row = Inr p"
    using part_round_trip [OF q p] by blast
  with r show ?case by auto
qed simp

lemma assistant_parts_plain:
  "m_role m \<noteq> ''user'' \<Longrightarrow> message_to_parts f m = Inr ps \<Longrightarrow> list_all (\<lambda>p. p_content_blocks p = None) ps"
  by (auto simp: message_to_parts_def new_part_def tool_call_part_def list_all_iff split: content.splits if_splits)

section \<open>Order\<close>

lemma insert_by_last: "le y x \<Longrightarrow> insert_by le y (zs @ [x]) = insert_by le y zs @ [x]"
  by (induction zs) auto

lemma sort_by_last: "(\<And>y. y \<in> set xs \<Longrightarrow> le y x) \<Longrightarrow> sort_by le (xs @ [x]) = sort_by le xs @ [x]"
proof (induction xs)
  case (Cons y ys)
  then show ?case by (simp add: sort_by_Cons insert_by_last)
qed (simp add: sort_by_Cons)

lemma try_map_snoc:
  "try_map f (xs @ [x]) = try_bind (try_map f xs) (\<lambda>ys. try_bind (f x) (\<lambda>y. Inr (ys @ [y])))"
proof (induction xs)
  case Nil
  then show ?case by (cases "f x") simp_all
next
  case (Cons a xs)
  then show ?case by (cases "f a"; cases "try_map f xs"; cases "f x") simp_all
qed

section \<open>An appended message\<close>

text \<open>The message a reader sees: the assistant message its parts give, under its id, with its usage, kind
  and tag.\<close>

definition sql_stored :: "sql_engine \<Rightarrow> string \<Rightarrow> message \<Rightarrow> message" where
  "sql_stored q mid m = (if stores_something m then stored_assistant (sq_blocks_str q) m
     else new_message (m_role m) (Text []))\<lparr>m_input_tokens := m_input_tokens m, m_output_tokens := m_output_tokens m,
       m_cache_read_tokens := m_cache_read_tokens m, m_cache_write_tokens := m_cache_write_tokens m,
       m_kind := m_kind m, m_tag := m_tag m, m_id := Some mid\<rparr>"

text \<open>What a header row of an assistant message reads as.\<close>

lemma header_reads:
  assumes q: "keeps_json q" and role: "m_role m \<noteq> ''user''" "m_role m \<noteq> ''tool''"
    and parts: "message_to_parts (sq_blocks_str q) m = Inr parts"
  shows "\<exists>rows. part_rows q mid parts = Inr rows
     \<and> message_from_header q (header_of q True now mid a t u m rows) = Inr (sql_stored q mid m)"
proof -
  from part_rows_round_trip [OF q assistant_parts_plain [OF role(1) parts], of mid 0] obtain rows where
    rows: "part_rows q mid parts = Inr rows" "try_map (message_part_from_row q) rows = Inr parts"
    by (auto simp: part_rows_def)
  from assistant_parts_read [OF role(1), of "sq_blocks_str q" "sq_as_int q"] parts
  have "parts_to_messages (sq_as_int q) parts
      = Inr (if stores_something m then [stored_assistant (sq_blocks_str q) m] else [])" by auto
  with rows role show ?thesis
    by (cases "m_kind m") (auto simp: message_from_header_def header_of_def with_usage_def sql_stored_def)
qed

lemma append_writes:
  assumes q: "keeps_json q" and role: "m_role m \<noteq> ''user''" "m_role m \<noteq> ''tool''"
    and run: "sql_append q a t u m d = (Inr r, d')"
  shows "\<exists>row. db_messages d' = db_messages d @ [row] \<and> mw_agent_id row = a \<and> mw_thread_id row = t
     \<and> mw_created_at row = db_time q d \<and> message_from_header q row = Inr (sql_stored q (mr_id r) m)"
proof -
  let ?d1 = "d\<lparr>db_uuids := Suc (db_uuids d)\<rparr>"
  obtain mid where new: "sql_new_id ''msg'' d = (Inr mid, ?d1)" by (simp add: sql_new_id_def)
  from run obtain parts where parts: "message_to_parts (sq_blocks_str q) m = Inr parts"
    by (auto simp: sql_append_def new bnd_def from_res_def readS_def split: sum.splits)
  from header_reads [OF q role parts, of mid "db_time q ?d1" a t u] obtain rows where
    rows: "part_rows q mid parts = Inr rows"
    "message_from_header q (header_of q True (db_time q ?d1) mid a t u m rows) = Inr (sql_stored q mid m)" by blast
  let ?row = "header_of q True (db_time q ?d1) mid a t u m rows"
  have "sql_append q a t u m d = thn (transaction (insert_message ?row)) (ret (written_record mid a t m)) ?d1"
    by (simp add: sql_append_def new bnd_def from_res_def readS_def parts rows(1) transaction_def thn_def getS_def)
  with run have "mr_id r = mid" "db_messages d' = db_messages d @ [?row]"
    by (auto simp: transaction_def thn_def bnd_def insert_message_def getS_def modifyS_def raise_def ret_def
        written_record_def split: if_splits prod.splits sum.splits)
  moreover have "db_time q ?d1 = db_time q d" by (simp add: db_time_def)
  ultimately show ?thesis using rows(2) by (intro exI [of _ ?row]) (simp add: header_of_def)
qed

lemma thread_headers_snoc:
  assumes "db_messages d' = db_messages d @ [row]" and "\<And>r. r \<in> set (db_messages d) \<Longrightarrow> header_le r row"
  shows "thread_headers a t d' = (if mw_agent_id row = a \<and> mw_thread_id row = t
     then thread_headers a t d @ [row] else thread_headers a t d)"
proof -
  have "sort_by header_le (filter P (db_messages d) @ [row]) = sort_by header_le (filter P (db_messages d)) @ [row]" for P
    by (rule sort_by_last) (use assms(2) in auto)
  then show ?thesis by (simp add: thread_headers_def assms(1))
qed

text \<open>An assistant message through the SQL store. When the append returns, and its transaction is later
  than those of the rows stored so far, a reader of the thread sees what it saw before followed by exactly
  one message: its text, thinking and named calls as their parts keep them, under the id the append
  returned, with its token counts, kind and tag. No other thread changes.\<close>

theorem sql_append_read_back:
  assumes q: "keeps_json q" and role: "m_role m \<noteq> ''user''" "m_role m \<noteq> ''tool''"
    and later: "\<forall>r \<in> set (db_messages d). mw_created_at r < db_time q d"
    and run: "sql_append q a t u m d = (Inr rec, d')"
  shows "sql_list_for_thread q a t d'
       = try_bind (sql_list_for_thread q a t d) (\<lambda>ms. Inr (ms @ [sql_stored q (mr_id rec) m]))
     \<and> ((a', t') \<noteq> (a, t) \<longrightarrow> sql_list_for_thread q a' t' d' = sql_list_for_thread q a' t' d)"
proof -
  from append_writes [OF q role run] obtain row where row: "db_messages d' = db_messages d @ [row]"
    "mw_agent_id row = a" "mw_thread_id row = t" "mw_created_at row = db_time q d"
    "message_from_header q row = Inr (sql_stored q (mr_id rec) m)" by blast
  have "header_le r row" if "r \<in> set (db_messages d)" for r using later that row(4) by (simp add: header_le_def)
  from thread_headers_snoc [OF row(1) this] row(2,3,5) show ?thesis
    by (auto simp: sql_list_for_thread_def try_map_snoc)
qed

definition json_engine :: sql_engine where
  "json_engine = \<lparr>sq_jsonb = id, sq_now = int, sq_as_int = as_int_strict, sq_blocks_str = (\<lambda>_. [])\<rparr>"

theorem sql_append_read_back_witness:
  "\<exists>r d. sql_append json_engine ''a'' ''t'' None (new_message ''assistant'' (Text ''hi'')) new_database = (Inr r, d)
     \<and> sql_list_for_thread json_engine ''a'' ''t'' d
         = Inr [sql_stored json_engine (mr_id r) (new_message ''assistant'' (Text ''hi''))]"
proof -
  let ?m = "new_message ''assistant'' (Text ''hi'')"
  have q: "keeps_json json_engine" by (simp add: keeps_json_def json_engine_def)
  have role: "m_role ?m \<noteq> ''user''" "m_role ?m \<noteq> ''tool''" by (simp_all add: new_message_def)
  have later: "\<forall>r \<in> set (db_messages new_database). mw_created_at r < db_time json_engine new_database"
    by (simp add: new_database_def)
  have "\<exists>r d. sql_append json_engine ''a'' ''t'' None ?m new_database = (Inr r, d)"
    by (simp add: sql_append_def sql_new_id_def bnd_def thn_def from_res_def readS_def message_to_parts_def new_message_def
        new_part_def str_truthy_def part_rows_def message_part_row_def bind_blocks_def transaction_def getS_def
        insert_message_def new_database_def row_at_def modifyS_def ret_def)
  then obtain r d where run: "sql_append json_engine ''a'' ''t'' None ?m new_database = (Inr r, d)" by blast
  have "sql_list_for_thread json_engine ''a'' ''t'' new_database = Inr []"
    by (simp add: sql_list_for_thread_def thread_headers_def new_database_def)
  with sql_append_read_back [OF q role later run] run show ?thesis by auto
qed

end
