(* ===== verification/Sandbox_Spec.thy ===== *)
theory Sandbox_Spec
  imports Sandbox_Access
begin

text \<open>
  A sandbox's spec (\<open>actant/sandbox/base.py\<close>) and its JSON form (\<open>actant/sandbox/store.py\<close>). The three
  durations are Python floats: rationals here, written by \<open>sf_show\<close> and read by \<open>sf_read\<close>, the
  interpreter's own printing and reading of a float. An \<open>image\<close> is the name of a backend object. Fields
  the code takes over without a check are assumed to have the type of their annotation.
\<close>

record float_text =
  sf_show :: "rat \<Rightarrow> string"
  sf_read :: "string \<Rightarrow> rat"

section \<open>Results of commands\<close>

record exec_result =
  er_returncode :: int
  er_stdout :: string
  er_stderr :: string
  er_timed_out :: bool

section \<open>Locations and entries of a disk\<close>

datatype storage = StorageMount | DiskSync

fun storage_str :: "storage \<Rightarrow> string" where
  "storage_str StorageMount = ''mount''"
| "storage_str DiskSync = ''disk_sync''"

definition storage_from :: "string \<Rightarrow> py_error + storage" where
  "storage_from s = (if s = ''mount'' then Inr StorageMount else if s = ''disk_sync'' then Inr DiskSync
     else Inl (ValueError (repr_str s @ '' is not a valid Storage'')))"

record location =
  lc_bucket :: string
  lc_prefix :: string

definition location_post_init :: "location \<Rightarrow> py_error + location" where
  "location_post_init l =
     (if lc_bucket l = [] \<or> (lc_prefix l \<noteq> [] \<and> \<not> ends_with [slash] (lc_prefix l))
      then Inl (ValueError (''a location is a bucket and a prefix ending in '' @ repr_str [slash]))
      else Inr l)"

definition location_url :: "location \<Rightarrow> string" where
  "location_url l = ''s3://'' @ lc_bucket l @ [slash] @ lc_prefix l"

definition check_path :: "string \<Rightarrow> string \<Rightarrow> py_error + unit" where
  "check_path path what = (if path \<noteq> [] \<and> list_ex dot_part (split_on slash path)
     then Inl (ValueError (''a '' @ what @ '' path is relative and normalized: '' @ repr_str path)) else Inr ())"

definition inside :: "string \<Rightarrow> string \<Rightarrow> bool" where
  "inside path parent \<longleftrightarrow> parent = [] \<or> path = parent \<or> starts_with (parent @ [slash]) path"

record restore =
  rs_source :: location
  rs_path :: string
  rs_push :: bool

definition restore_post_init :: "restore \<Rightarrow> py_error + restore" where
  "restore_post_init r = try_bind (check_path (rs_path r) ''restore'') (\<lambda>_. Inr r)"

record mount =
  mn_source :: location
  mn_path :: string

definition mount_post_init :: "mount \<Rightarrow> py_error + mount" where
  "mount_post_init m = (if mn_path m = [] then Inl (ValueError ''a mount path is not the disk's root'')
     else try_bind (check_path (mn_path m) ''mount'') (\<lambda>_. Inr m))"

section \<open>Services\<close>

record service_config =
  sc_path :: string
  sc_processes :: int
  sc_env :: "(string \<times> string) list"

datatype service = ServicePath string | ServiceProcesses service_config

section \<open>The spec\<close>

datatype region = NoRegion | OneRegion string | Regions "string list"

record sandbox_spec =
  sx_backend :: string
  sx_mount :: "string option"
  sx_image :: "string option"
  sx_cpu :: int
  sx_memory_mb :: int
  sx_timeout_s :: int
  sx_idle_timeout_s :: int
  sx_env :: "(string \<times> string) list"
  sx_gpu :: "string option"
  sx_region :: region
  sx_network :: bool
  sx_secrets :: "string list"
  sx_scrub_env :: "string list"
  sx_storage :: storage
  sx_services :: "(string \<times> service) list"
  sx_service_port :: int
  sx_sync_interval_s :: rat
  sx_sync_timeout_s :: rat
  sx_restore_timeout_s :: rat
  sx_push_exclude :: "string list"
  sx_push_include :: "string list"
  sx_seed :: "string option"
  sx_restore :: "restore list"
  sx_mounts :: "mount list"

definition default_spec :: sandbox_spec where
  "default_spec = \<lparr>sx_backend = ''local'', sx_mount = None, sx_image = None, sx_cpu = 2, sx_memory_mb = 8192,
     sx_timeout_s = 3600, sx_idle_timeout_s = 600, sx_env = [], sx_gpu = None, sx_region = NoRegion,
     sx_network = False, sx_secrets = [], sx_scrub_env = [], sx_storage = StorageMount, sx_services = [],
     sx_service_port = 8080, sx_sync_interval_s = 60, sx_sync_timeout_s = 300, sx_restore_timeout_s = 1800,
     sx_push_exclude = [], sx_push_include = [], sx_seed = None, sx_restore = [], sx_mounts = []\<rparr>"

fun check_exclude :: "string list \<Rightarrow> py_error + unit" where
  "check_exclude [] = Inr ()"
| "check_exclude (f # fs) =
     (if f = [] \<or> starts_with [slash] f \<or> list_ex dot_part (split_on slash f)
      then Inl (ValueError (''push_exclude holds relative folders, not '' @ repr_str f)) else check_exclude fs)"

fun check_include :: "string list \<Rightarrow> string list \<Rightarrow> py_error + unit" where
  "check_include folders [] = Inr ()"
| "check_include folders (p # ps) =
     (if starts_with [slash] p \<or> list_ex dot_part (split_on slash p)
         \<or> \<not> list_ex (\<lambda>f. starts_with (f @ [slash]) p) folders
      then Inl (ValueError (''push_include holds relative paths inside push_exclude folders, not '' @ repr_str p))
      else check_include folders ps)"

text \<open>\<open>__post_init__\<close>; a rational is finite.\<close>

definition spec_post_init :: "sandbox_spec \<Rightarrow> py_error + sandbox_spec" where
  "spec_post_init s =
     (if sx_sync_interval_s s \<le> 0 \<or> sx_sync_timeout_s s \<le> 0
      then Inl (ValueError ''sync_interval_s and sync_timeout_s must be positive'')
      else if sx_restore_timeout_s s \<le> 0 then Inl (ValueError ''restore_timeout_s must be a positive, finite number'')
      else try_bind (check_exclude (sx_push_exclude s)) (\<lambda>_.
        try_bind (check_include (sx_push_exclude s) (sx_push_include s)) (\<lambda>_.
        case sx_seed s of
          None \<Rightarrow> Inr s
        | Some seed \<Rightarrow> (if sx_storage s \<noteq> DiskSync \<or> \<not> ends_with [slash] seed
            then Inl (ValueError (''seed is a key prefix ending in '' @ repr_str [slash] @ '', for disk_sync storage'')) else Inr s))))"

section \<open>As JSON\<close>

definition opt_json :: "string option \<Rightarrow> json" where
  "opt_json x = (case x of None \<Rightarrow> JNull | Some s \<Rightarrow> JStr s)"

definition strs_json :: "string list \<Rightarrow> json" where
  "strs_json xs = JList (map JStr xs)"

definition env_json :: "(string \<times> string) list \<Rightarrow> json" where
  "env_json e = JObj (map (\<lambda>(k, v). (k, JStr v)) e)"

definition location_json :: "location \<Rightarrow> json" where
  "location_json l = JObj [(''bucket'', JStr (lc_bucket l)), (''prefix'', JStr (lc_prefix l))]"

definition restore_json :: "restore \<Rightarrow> json" where
  "restore_json r = JObj [(''source'', location_json (rs_source r)), (''path'', JStr (rs_path r)), (''push'', JBool (rs_push r))]"

definition mount_json :: "mount \<Rightarrow> json" where
  "mount_json m = JObj [(''source'', location_json (mn_source m)), (''path'', JStr (mn_path m))]"

fun service_json :: "service \<Rightarrow> json" where
  "service_json (ServicePath p) = JStr p"
| "service_json (ServiceProcesses c) =
     JObj [(''path'', JStr (sc_path c)), (''processes'', JInt (sc_processes c)), (''env'', env_json (sc_env c))]"

fun region_json :: "region \<Rightarrow> json" where
  "region_json NoRegion = JNull"
| "region_json (OneRegion r) = JStr r"
| "region_json (Regions rs) = strs_json rs"

text \<open>\<open>spec_to_json\<close>: every field but the image.\<close>

definition spec_to_json :: "float_text \<Rightarrow> sandbox_spec \<Rightarrow> json_obj" where
  "spec_to_json f s =
    [(''backend'', JStr (sx_backend s)), (''mount'', opt_json (sx_mount s)), (''cpu'', JInt (sx_cpu s)),
     (''memory_mb'', JInt (sx_memory_mb s)), (''timeout_s'', JInt (sx_timeout_s s)),
     (''idle_timeout_s'', JInt (sx_idle_timeout_s s)), (''env'', env_json (sx_env s)), (''gpu'', opt_json (sx_gpu s)),
     (''region'', region_json (sx_region s)), (''network'', JBool (sx_network s)),
     (''secrets'', strs_json (sx_secrets s)), (''scrub_env'', strs_json (sx_scrub_env s)),
     (''storage'', JStr (storage_str (sx_storage s))),
     (''services'', JObj (map (\<lambda>(n, v). (n, service_json v)) (sx_services s))),
     (''service_port'', JInt (sx_service_port s)), (''sync_interval_s'', JFloat (sf_show f (sx_sync_interval_s s))),
     (''sync_timeout_s'', JFloat (sf_show f (sx_sync_timeout_s s))),
     (''restore_timeout_s'', JFloat (sf_show f (sx_restore_timeout_s s))),
     (''push_exclude'', strs_json (sx_push_exclude s)), (''push_include'', strs_json (sx_push_include s)),
     (''seed'', opt_json (sx_seed s)), (''restore'', JList (map restore_json (sx_restore s))),
     (''mounts'', JList (map mount_json (sx_mounts s)))]"

section \<open>From JSON\<close>

definition ill_typed :: "py_error + 'a" where
  "ill_typed = Inl (TypeError ''a field of another type'')"

definition read_field :: "json_obj \<Rightarrow> string \<Rightarrow> (json \<Rightarrow> py_error + 'a) \<Rightarrow> 'a \<Rightarrow> py_error + 'a" where
  "read_field d k reader dflt = (case dget d k of None \<Rightarrow> Inr dflt | Some j \<Rightarrow> reader j)"

definition need_field :: "json_obj \<Rightarrow> string \<Rightarrow> (json \<Rightarrow> py_error + 'a) \<Rightarrow> py_error + 'a" where
  "need_field d k reader = (case dget d k of None \<Rightarrow> Inl (KeyError k) | Some j \<Rightarrow> reader j)"

fun read_str :: "json \<Rightarrow> py_error + string" where
  "read_str (JStr s) = Inr s" | "read_str _ = ill_typed"

fun read_opt :: "json \<Rightarrow> py_error + string option" where
  "read_opt JNull = Inr None" | "read_opt (JStr s) = Inr (Some s)" | "read_opt _ = ill_typed"

fun read_int :: "json \<Rightarrow> py_error + int" where
  "read_int (JInt i) = Inr i" | "read_int _ = ill_typed"

fun read_bool :: "json \<Rightarrow> py_error + bool" where
  "read_bool (JBool b) = Inr b" | "read_bool _ = ill_typed"

fun read_float :: "float_text \<Rightarrow> json \<Rightarrow> py_error + rat" where
  "read_float f (JFloat t) = Inr (sf_read f t)" | "read_float f (JInt i) = Inr (of_int i)" | "read_float f _ = ill_typed"

fun read_list :: "(json \<Rightarrow> py_error + 'a) \<Rightarrow> json \<Rightarrow> py_error + 'a list" where
  "read_list r (JList js) = try_map r js" | "read_list r _ = ill_typed"

definition read_value :: "(json \<Rightarrow> py_error + 'a) \<Rightarrow> string \<times> json \<Rightarrow> py_error + string \<times> 'a" where
  "read_value r e = try_bind (r (snd e)) (\<lambda>v. Inr (fst e, v))"

fun read_items :: "(json \<Rightarrow> py_error + 'a) \<Rightarrow> json \<Rightarrow> py_error + (string \<times> 'a) list" where
  "read_items r (JObj d) = try_map (read_value r) d" | "read_items r _ = ill_typed"

fun read_location :: "json \<Rightarrow> py_error + location" where
  "read_location (JObj d) = try_bind (need_field d ''bucket'' read_str) (\<lambda>b.
     try_bind (need_field d ''prefix'' read_str) (\<lambda>p. location_post_init \<lparr>lc_bucket = b, lc_prefix = p\<rparr>))"
| "read_location _ = ill_typed"

fun read_restore :: "json \<Rightarrow> py_error + restore" where
  "read_restore (JObj d) = try_bind (need_field d ''source'' read_location) (\<lambda>l.
     try_bind (need_field d ''path'' read_str) (\<lambda>p. try_bind (need_field d ''push'' read_bool) (\<lambda>b.
     restore_post_init \<lparr>rs_source = l, rs_path = p, rs_push = b\<rparr>)))"
| "read_restore _ = ill_typed"

fun read_mount :: "json \<Rightarrow> py_error + mount" where
  "read_mount (JObj d) = try_bind (need_field d ''source'' read_location) (\<lambda>l.
     try_bind (need_field d ''path'' read_str) (\<lambda>p. mount_post_init \<lparr>mn_source = l, mn_path = p\<rparr>))"
| "read_mount _ = ill_typed"

text \<open>\<open>ServiceConfig.model_validate\<close>: at least zero processes.\<close>

fun read_service :: "json \<Rightarrow> py_error + service" where
  "read_service (JStr p) = Inr (ServicePath p)"
| "read_service (JObj d) = try_bind (need_field d ''path'' read_str) (\<lambda>p.
     try_bind (read_field d ''processes'' read_int 0) (\<lambda>n. try_bind (read_field d ''env'' (read_items read_str) []) (\<lambda>e.
     if n < 0 then Inl (ValueError ''greater_than_equal'')
     else Inr (ServiceProcesses \<lparr>sc_path = p, sc_processes = n, sc_env = e\<rparr>))))"
| "read_service _ = ill_typed"

fun read_region :: "json \<Rightarrow> py_error + region" where
  "read_region JNull = Inr NoRegion" | "read_region (JStr r) = Inr (OneRegion r)"
| "read_region (JList rs) = try_bind (try_map read_str rs) (\<lambda>rs. Inr (Regions rs))" | "read_region _ = ill_typed"

definition read_storage :: "json \<Rightarrow> py_error + storage" where
  "read_storage j = try_bind (read_str j) storage_from"

definition spec_from_json :: "float_text \<Rightarrow> json_obj \<Rightarrow> py_error + sandbox_spec" where
  "spec_from_json f d =
    (let z = default_spec in
     try_bind (read_field d ''restore'' (read_list read_restore) []) (\<lambda>restore.
     try_bind (read_field d ''mounts'' (read_list read_mount) []) (\<lambda>mounts.
     try_bind (read_field d ''services'' (read_items read_service) []) (\<lambda>services.
     try_bind (read_field d ''backend'' read_str (sx_backend z)) (\<lambda>backend.
     try_bind (read_field d ''mount'' read_opt None) (\<lambda>mount.
     try_bind (read_field d ''cpu'' read_int (sx_cpu z)) (\<lambda>cpu.
     try_bind (read_field d ''memory_mb'' read_int (sx_memory_mb z)) (\<lambda>memory.
     try_bind (read_field d ''timeout_s'' read_int (sx_timeout_s z)) (\<lambda>timeout.
     try_bind (read_field d ''idle_timeout_s'' read_int (sx_idle_timeout_s z)) (\<lambda>idle.
     try_bind (read_field d ''env'' (read_items read_str) []) (\<lambda>env.
     try_bind (read_field d ''gpu'' read_opt None) (\<lambda>gpu.
     try_bind (read_field d ''region'' read_region NoRegion) (\<lambda>region.
     try_bind (read_field d ''network'' read_bool False) (\<lambda>network.
     try_bind (read_field d ''secrets'' (read_list read_str) []) (\<lambda>secrets.
     try_bind (read_field d ''scrub_env'' (read_list read_str) []) (\<lambda>scrub.
     try_bind (read_field d ''storage'' read_storage StorageMount) (\<lambda>storage.
     try_bind (read_field d ''service_port'' read_int (sx_service_port z)) (\<lambda>port.
     try_bind (read_field d ''sync_interval_s'' (read_float f) (sx_sync_interval_s z)) (\<lambda>interval.
     try_bind (read_field d ''sync_timeout_s'' (read_float f) (sx_sync_timeout_s z)) (\<lambda>sync_timeout.
     try_bind (read_field d ''restore_timeout_s'' (read_float f) (sx_restore_timeout_s z)) (\<lambda>restore_timeout.
     try_bind (read_field d ''push_exclude'' (read_list read_str) []) (\<lambda>exclude.
     try_bind (read_field d ''push_include'' (read_list read_str) []) (\<lambda>include.
     try_bind (read_field d ''seed'' read_opt None) (\<lambda>seed.
     spec_post_init \<lparr>sx_backend = backend, sx_mount = mount, sx_image = None, sx_cpu = cpu, sx_memory_mb = memory,
       sx_timeout_s = timeout, sx_idle_timeout_s = idle, sx_env = env, sx_gpu = gpu, sx_region = region,
       sx_network = network, sx_secrets = secrets, sx_scrub_env = scrub, sx_storage = storage,
       sx_services = services, sx_service_port = port, sx_sync_interval_s = interval,
       sx_sync_timeout_s = sync_timeout, sx_restore_timeout_s = restore_timeout, sx_push_exclude = exclude,
       sx_push_include = include, sx_seed = seed, sx_restore = restore, sx_mounts = mounts\<rparr>))))))))))))))))))))))))"

section \<open>Round trip\<close>

definition location_ok :: "location \<Rightarrow> bool" where
  "location_ok l \<longleftrightarrow> location_post_init l = Inr l"

definition restore_ok :: "restore \<Rightarrow> bool" where
  "restore_ok r \<longleftrightarrow> location_ok (rs_source r) \<and> restore_post_init r = Inr r"

definition mount_ok :: "mount \<Rightarrow> bool" where
  "mount_ok m \<longleftrightarrow> location_ok (mn_source m) \<and> mount_post_init m = Inr m"

fun service_ok :: "service \<Rightarrow> bool" where
  "service_ok (ServicePath p) = True"
| "service_ok (ServiceProcesses c) = (0 \<le> sc_processes c)"

text \<open>A spec the constructors accept: every object in it passed its own checks.\<close>

definition spec_ok :: "sandbox_spec \<Rightarrow> bool" where
  "spec_ok s \<longleftrightarrow> spec_post_init s = Inr s \<and> list_all restore_ok (sx_restore s) \<and> list_all mount_ok (sx_mounts s)
     \<and> list_all (\<lambda>(n, v). service_ok v) (sx_services s)"

text \<open>The interpreter reads each of the three durations back from its own printing of it.\<close>

definition floats_read_back :: "float_text \<Rightarrow> sandbox_spec \<Rightarrow> bool" where
  "floats_read_back f s \<longleftrightarrow> list_all (\<lambda>r. sf_read f (sf_show f r) = r)
     [sx_sync_interval_s s, sx_sync_timeout_s s, sx_restore_timeout_s s]"

named_theorems spec_reads \<open>reading back what a spec wrote\<close>

lemma read_opt_json [spec_reads]: "read_opt (opt_json x) = Inr x"
  by (cases x) (simp_all add: opt_json_def)

lemma read_strs_json [spec_reads]: "read_list read_str (strs_json xs) = Inr xs"
  by (induction xs) (simp_all add: strs_json_def)

lemma try_map_read_back: "(\<And>x. x \<in> set xs \<Longrightarrow> r (w x) = Inr x) \<Longrightarrow> try_map r (map w xs) = Inr xs"
  by (induction xs) simp_all

lemma read_env_json [spec_reads]: "read_items read_str (env_json e) = Inr e"
  by (simp add: env_json_def) (rule try_map_read_back, auto simp: read_value_def)

lemma read_location_json [spec_reads]: "location_ok l \<Longrightarrow> read_location (location_json l) = Inr l"
  by (cases l) (simp add: location_json_def need_field_def location_ok_def)

lemma read_restore_json: "restore_ok r \<Longrightarrow> read_restore (restore_json r) = Inr r"
  by (cases r) (simp add: restore_json_def need_field_def restore_ok_def spec_reads)

lemma read_mount_json: "mount_ok m \<Longrightarrow> read_mount (mount_json m) = Inr m"
  by (cases m) (simp add: mount_json_def need_field_def mount_ok_def spec_reads)

lemma read_service_json: "service_ok v \<Longrightarrow> read_service (service_json v) = Inr v"
proof (cases v)
  case (ServiceProcesses c)
  moreover assume "service_ok v"
  ultimately show ?thesis by (cases c) (simp add: need_field_def read_field_def spec_reads)
qed simp

lemma read_region_json [spec_reads]: "read_region (region_json r) = Inr r"
proof (cases r)
  case (Regions rs)
  have "try_map read_str (map JStr rs) = Inr rs" by (rule try_map_read_back) simp
  with Regions show ?thesis by (simp add: strs_json_def)
qed simp_all

lemma read_storage_str [spec_reads]: "read_storage (JStr (storage_str t)) = Inr t"
  by (cases t) (simp_all add: read_storage_def storage_from_def)

lemma spec_reads_back:
  assumes "spec_ok s" and f: "floats_read_back f s"
  shows "spec_from_json f (spec_to_json f s) = Inr (s\<lparr>sx_image := None\<rparr>)"
proof -
  from assms(1) have init: "spec_post_init (s\<lparr>sx_image := None\<rparr>) = Inr (s\<lparr>sx_image := None\<rparr>)"
    unfolding spec_ok_def spec_post_init_def
    by (auto simp: try_bind_def split: if_splits sum.splits option.splits)
  from assms(1) have r: "read_list read_restore (JList (map restore_json (sx_restore s))) = Inr (sx_restore s)"
    and m: "read_list read_mount (JList (map mount_json (sx_mounts s))) = Inr (sx_mounts s)"
    by (auto simp: spec_ok_def list_all_iff intro!: try_map_read_back read_restore_json read_mount_json)
  from assms(1) have v: "read_items read_service (JObj (map (\<lambda>(n, v). (n, service_json v)) (sx_services s))) = Inr (sx_services s)"
    unfolding read_items.simps
    by (intro try_map_read_back) (auto simp: spec_ok_def list_all_iff read_value_def read_service_json)
  from f have fl: "read_float f (JFloat (sf_show f (sx_sync_interval_s s))) = Inr (sx_sync_interval_s s)"
    "read_float f (JFloat (sf_show f (sx_sync_timeout_s s))) = Inr (sx_sync_timeout_s s)"
    "read_float f (JFloat (sf_show f (sx_restore_timeout_s s))) = Inr (sx_restore_timeout_s s)"
    by (simp_all add: floats_read_back_def)
  have "s\<lparr>sx_image := None\<rparr> = \<lparr>sx_backend = sx_backend s, sx_mount = sx_mount s, sx_image = None, sx_cpu = sx_cpu s,
       sx_memory_mb = sx_memory_mb s, sx_timeout_s = sx_timeout_s s, sx_idle_timeout_s = sx_idle_timeout_s s,
       sx_env = sx_env s, sx_gpu = sx_gpu s, sx_region = sx_region s, sx_network = sx_network s,
       sx_secrets = sx_secrets s, sx_scrub_env = sx_scrub_env s, sx_storage = sx_storage s,
       sx_services = sx_services s, sx_service_port = sx_service_port s, sx_sync_interval_s = sx_sync_interval_s s,
       sx_sync_timeout_s = sx_sync_timeout_s s, sx_restore_timeout_s = sx_restore_timeout_s s,
       sx_push_exclude = sx_push_exclude s, sx_push_include = sx_push_include s, sx_seed = sx_seed s,
       sx_restore = sx_restore s, sx_mounts = sx_mounts s\<rparr>"
    by (cases s) simp
  with init show ?thesis
    unfolding spec_from_json_def spec_to_json_def Let_def
    by (simp add: read_field_def r m v fl spec_reads del: read_list.simps read_items.simps read_float.simps)
qed

text \<open>A spec survives its record. A spec whose parts passed their checks is read back from the JSON the
  store keeps exactly as it was, field by field, except for its image, which is not data.\<close>

theorem spec_round_trip:
  "spec_ok s \<Longrightarrow> floats_read_back f s \<Longrightarrow> spec_from_json f (spec_to_json f s) = Inr (s\<lparr>sx_image := None\<rparr>)"
  by (rule spec_reads_back)

definition three_floats :: float_text where
  "three_floats = \<lparr>sf_show = (\<lambda>r. if r = 60 then ''60.0'' else if r = 300 then ''300.0'' else ''1800.0''),
     sf_read = (\<lambda>t. if t = ''60.0'' then 60 else if t = ''300.0'' then 300 else 1800)\<rparr>"

theorem spec_round_trip_witness:
  "spec_from_json three_floats (spec_to_json three_floats (default_spec\<lparr>sx_image := Some ''im'', sx_storage := DiskSync,
       sx_seed := Some ''s/'', sx_services := [(''v'', ServiceProcesses \<lparr>sc_path = ''p:C'', sc_processes = 2, sc_env = []\<rparr>)]\<rparr>))
     = Inr (default_spec\<lparr>sx_storage := DiskSync, sx_seed := Some ''s/'',
         sx_services := [(''v'', ServiceProcesses \<lparr>sc_path = ''p:C'', sc_processes = 2, sc_env = []\<rparr>)]\<rparr>)"
proof -
  let ?s = "default_spec\<lparr>sx_image := Some ''im'', sx_storage := DiskSync, sx_seed := Some ''s/'',
    sx_services := [(''v'', ServiceProcesses \<lparr>sc_path = ''p:C'', sc_processes = 2, sc_env = []\<rparr>)]\<rparr>"
  have "spec_ok ?s"
    by (simp add: spec_ok_def spec_post_init_def default_spec_def Texts.ends_with_def Texts.starts_with_def slash_def)
  moreover have "floats_read_back three_floats ?s"
    by (simp add: floats_read_back_def three_floats_def default_spec_def)
  ultimately have "spec_from_json three_floats (spec_to_json three_floats ?s) = Inr (?s\<lparr>sx_image := None\<rparr>)"
    by (rule spec_round_trip)
  then show ?thesis by (simp add: default_spec_def)
qed

end
