(* ===== verification/Sandbox_Stores.thy ===== *)
theory Sandbox_Stores
  imports Sandbox_Spec Sql_Stores
begin

text \<open>
  Where sandboxes are recorded: \<open>InMemorySandboxStore\<close> (\<open>actant/sandbox/store.py\<close>) and
  \<open>SQLAlchemySandboxStore\<close> (\<open>postgres/stores.py\<close>), and the contract the registry relies on: every write
  is a compare-and-set on the backend's id. A dictionary of records is in insertion order; a statement of
  the SQL store runs alone, as its row lock and its unique key make it.
\<close>

record sandbox_record =
  sr_sandbox_id :: string
  sr_provider_id :: string
  sr_spec :: sandbox_spec

section \<open>In memory\<close>

type_synonym sandbox_table = "(string, sandbox_record) dict"

definition mem_get :: "string \<Rightarrow> (sandbox_table, sandbox_record option) act" where
  "mem_get i = readS (\<lambda>d. Inr (dget d i))"

definition mem_claim ::
  "string \<Rightarrow> string option \<Rightarrow> string \<Rightarrow> sandbox_spec \<Rightarrow> (sandbox_table, sandbox_record option) act" where
  "mem_claim i expected pid spec = bnd getS (\<lambda>d.
     thn (whenM (map_option sr_provider_id (dget d i) = expected)
           (modifyS (dset i \<lparr>sr_sandbox_id = i, sr_provider_id = pid, sr_spec = spec\<lparr>sx_image := None\<rparr>\<rparr>)))
         (readS (\<lambda>d. Inr (dget d i))))"

definition mem_forget :: "string \<Rightarrow> (sandbox_table, unit) act" where
  "mem_forget i = modifyS (AList.delete i)"

section \<open>In the database\<close>

record sandbox_row =
  bw_sandbox_id :: string
  bw_provider_id :: string
  bw_spec :: json_obj
  bw_created_at :: int
  bw_updated_at :: int

record sandbox_db =
  bd_rows :: "sandbox_row list"
  bd_transactions :: nat

definition sandbox_from_row :: "float_text \<Rightarrow> sandbox_row option \<Rightarrow> py_error + sandbox_record option" where
  "sandbox_from_row f row = (case row of
      None \<Rightarrow> Inr None
    | Some r \<Rightarrow> try_bind (spec_from_json f (bw_spec r)) (\<lambda>s.
        Inr (Some \<lparr>sr_sandbox_id = bw_sandbox_id r, sr_provider_id = bw_provider_id r, sr_spec = s\<rparr>)))"

definition sql_sandbox_get :: "float_text \<Rightarrow> string \<Rightarrow> (sandbox_db, sandbox_record option) act" where
  "sql_sandbox_get f i = readS (\<lambda>d. sandbox_from_row f (row_at bw_sandbox_id i (bd_rows d)))"

definition insert_sandbox :: "int \<Rightarrow> string \<Rightarrow> string \<Rightarrow> json_obj \<Rightarrow> sandbox_row list \<Rightarrow> sandbox_row list" where
  "insert_sandbox now i pid spec rows = (case row_at bw_sandbox_id i rows of
      Some _ \<Rightarrow> rows
    | None \<Rightarrow> rows @ [\<lparr>bw_sandbox_id = i, bw_provider_id = pid, bw_spec = spec, bw_created_at = now, bw_updated_at = now\<rparr>])"

definition update_sandbox ::
  "int \<Rightarrow> string \<Rightarrow> string \<Rightarrow> string \<Rightarrow> json_obj \<Rightarrow> sandbox_row list \<Rightarrow> sandbox_row list" where
  "update_sandbox now i expected pid spec rows = map (\<lambda>r.
     if bw_sandbox_id r = i \<and> bw_provider_id r = expected
     then r\<lparr>bw_provider_id := pid, bw_spec := spec, bw_updated_at := now\<rparr> else r) rows"

definition sandbox_transaction :: "(sandbox_db, 'a) act \<Rightarrow> (sandbox_db, 'a) act" where
  "sandbox_transaction m d = (case m d of
      (Inl e, d') \<Rightarrow> (Inl e, d\<lparr>bd_transactions := Suc (bd_transactions d)\<rparr>)
    | (Inr a, d') \<Rightarrow> (Inr a, d'\<lparr>bd_transactions := Suc (bd_transactions d)\<rparr>))"

definition sql_sandbox_claim ::
  "sql_engine \<Rightarrow> float_text \<Rightarrow> string \<Rightarrow> string option \<Rightarrow> string \<Rightarrow> sandbox_spec
     \<Rightarrow> (sandbox_db, sandbox_record option) act" where
  "sql_sandbox_claim q f i expected pid spec = sandbox_transaction (
     thn (modifyS (\<lambda>d. let now = sq_now q (bd_transactions d); stored = jsonb_obj q (spec_to_json f spec)
            in d\<lparr>bd_rows := (case expected of
                 None \<Rightarrow> insert_sandbox now i pid stored (bd_rows d)
               | Some p \<Rightarrow> update_sandbox now i p pid stored (bd_rows d))\<rparr>))
         (readS (\<lambda>d. sandbox_from_row f (row_at bw_sandbox_id i (bd_rows d)))))"

definition sql_sandbox_forget :: "string \<Rightarrow> (sandbox_db, unit) act" where
  "sql_sandbox_forget i = sandbox_transaction
     (modifyS (\<lambda>d. d\<lparr>bd_rows := filter (\<lambda>r. bw_sandbox_id r \<noteq> i) (bd_rows d)\<rparr>))"

section \<open>The contract\<close>

text \<open>\<open>recs s i\<close> is the record a store in state \<open>s\<close> holds for \<open>i\<close>; \<open>good\<close> its invariant and \<open>sane\<close> the
  specs it may be asked to keep.\<close>

locale sandbox_store =
  fixes get :: "string \<Rightarrow> ('s, sandbox_record option) act"
    and claim :: "string \<Rightarrow> string option \<Rightarrow> string \<Rightarrow> sandbox_spec \<Rightarrow> ('s, sandbox_record option) act"
    and forget :: "string \<Rightarrow> ('s, unit) act"
    and recs :: "'s \<Rightarrow> string \<Rightarrow> sandbox_record option"
    and good :: "'s \<Rightarrow> bool"
    and sane :: "sandbox_spec \<Rightarrow> bool"
  assumes get_reads: "good s \<Longrightarrow> get i s = (Inr (recs s i), s)"
    and claim_swaps: "good s \<Longrightarrow> sane spec \<Longrightarrow> \<exists>t. claim i expected pid spec s = (Inr (recs t i), t) \<and> good t
      \<and> recs t = (if map_option sr_provider_id (recs s i) = expected
           then (recs s)(i \<mapsto> \<lparr>sr_sandbox_id = i, sr_provider_id = pid, sr_spec = spec\<lparr>sx_image := None\<rparr>\<rparr>) else recs s)"
    and forget_removes: "good s \<Longrightarrow> \<exists>t. forget i s = (Inr (), t) \<and> good t \<and> recs t = (recs s)(i := None)"
begin

lemma claim_lost:
  assumes "good s" and "sane spec" and "map_option sr_provider_id (recs s i) \<noteq> expected"
  obtains t where "claim i expected pid spec s = (Inr (recs s i), t)" "good t" "recs t = recs s"
  using claim_swaps [OF assms(1,2), of i expected pid] assms(3) by auto

lemma claims_lost:
  assumes "good s" and "map_option sr_provider_id (recs s i) \<noteq> expected" and "\<forall>c\<in>set cs. sane (snd c)"
  shows "\<exists>t. gather (\<lambda>c. claim i expected (fst c) (snd c)) cs s = (map (\<lambda>_. Inr (recs s i)) cs, t) \<and> good t \<and> recs t = recs s"
  using assms
proof (induction cs arbitrary: s)
  case (Cons c cs)
  from Cons.prems(3) have "sane (snd c)" by simp
  with Cons.prems obtain u where u: "claim i expected (fst c) (snd c) s = (Inr (recs s i), u)" "good u" "recs u = recs s"
    using claim_lost by metis
  from u(2,3) Cons.prems(2,3) Cons.IH [of u] show ?case by (auto simp: u(1))
qed simp

lemma first_claim_wins:
  assumes "good s" and "map_option sr_provider_id (recs s i) = expected" and "\<forall>c\<in>set (c # cs). sane (snd c)"
    and "expected \<noteq> Some (fst c)"
  shows "\<exists>t. gather (\<lambda>c. claim i expected (fst c) (snd c)) (c # cs) s
       = (map (\<lambda>_. Inr (Some \<lparr>sr_sandbox_id = i, sr_provider_id = fst c, sr_spec = (snd c)\<lparr>sx_image := None\<rparr>\<rparr>)) (c # cs), t)
     \<and> recs t = (recs s)(i \<mapsto> \<lparr>sr_sandbox_id = i, sr_provider_id = fst c, sr_spec = (snd c)\<lparr>sx_image := None\<rparr>\<rparr>)"
proof -
  from assms(3) have "sane (snd c)" by simp
  then obtain u where u: "claim i expected (fst c) (snd c) s = (Inr (recs u i), u)" "good u"
      "recs u = (recs s)(i \<mapsto> \<lparr>sr_sandbox_id = i, sr_provider_id = fst c, sr_spec = (snd c)\<lparr>sx_image := None\<rparr>\<rparr>)"
    using claim_swaps [OF assms(1), of "snd c" i expected "fst c"] assms(2) by auto
  then have "map_option sr_provider_id (recs u i) \<noteq> expected" using assms(4) by auto
  from claims_lost [OF u(2) this, of cs] assms(3) u show ?thesis by auto
qed

end

section \<open>Both stores keep it\<close>

interpretation ms: sandbox_store mem_get mem_claim mem_forget dget "\<lambda>_. True" "\<lambda>_. True"
  by unfold_locales (auto simp: mem_get_def mem_claim_def mem_forget_def act_simps fun_eq_iff)

text \<open>A spec the database reads back: its parts passed their checks, its durations print and read, and the
  JSONB column gives a value that reads as the one written (it may reorder keys).\<close>

definition spec_keeps :: "sql_engine \<Rightarrow> float_text \<Rightarrow> sandbox_spec \<Rightarrow> bool" where
  "spec_keeps q f s \<longleftrightarrow> spec_ok s \<and> floats_read_back f s
     \<and> spec_from_json f (jsonb_obj q (spec_to_json f s)) = spec_from_json f (spec_to_json f s)"

definition row_reads :: "float_text \<Rightarrow> sandbox_row \<Rightarrow> bool" where
  "row_reads f r \<longleftrightarrow> (\<exists>s. spec_from_json f (bw_spec r) = Inr s)"

definition good_db :: "float_text \<Rightarrow> sandbox_db \<Rightarrow> bool" where
  "good_db f d \<longleftrightarrow> distinct (map bw_sandbox_id (bd_rows d)) \<and> list_all (row_reads f) (bd_rows d)"

definition recorded_in :: "float_text \<Rightarrow> sandbox_db \<Rightarrow> string \<Rightarrow> sandbox_record option" where
  "recorded_in f d i = (case sandbox_from_row f (row_at bw_sandbox_id i (bd_rows d)) of Inl e \<Rightarrow> None | Inr r \<Rightarrow> r)"

lemma spec_keepsD: "spec_keeps q f s \<Longrightarrow> spec_from_json f (jsonb_obj q (spec_to_json f s)) = Inr (s\<lparr>sx_image := None\<rparr>)"
  by (simp add: spec_keeps_def spec_reads_back)

lemma good_row: "list_all (row_reads f) rows \<Longrightarrow> row_at bw_sandbox_id i rows = Some r \<Longrightarrow> row_reads f r"
  by (auto simp: row_at_def list_all_iff find_Some_iff)

lemma good_reads:
  assumes "list_all (row_reads f) (bd_rows d)"
  shows "sandbox_from_row f (row_at bw_sandbox_id i (bd_rows d)) = Inr (recorded_in f d i)"
proof (cases "row_at bw_sandbox_id i (bd_rows d)")
  case (Some r)
  with good_row [OF assms] obtain s where "spec_from_json f (bw_spec r) = Inr s" by (auto simp: row_reads_def)
  with Some show ?thesis by (simp add: recorded_in_def sandbox_from_row_def)
qed (simp add: recorded_in_def sandbox_from_row_def)

lemma row_at_map: "(\<And>r. key (g r) = key r) \<Longrightarrow> row_at key i (map g rows) = map_option g (row_at key i rows)"
  by (induction rows) (simp_all add: row_at_def)

lemma row_at_filter: "row_at key j (filter (\<lambda>r. key r \<noteq> i) rows) = (if j = i then None else row_at key j rows)"
  by (induction rows) (auto simp: row_at_def)

lemma row_at_snoc: "row_at key i (rows @ [r]) = (case row_at key i rows of None \<Rightarrow> if key r = i then Some r else None | Some x \<Rightarrow> Some x)"
  by (induction rows) (simp_all add: row_at_def)

lemma row_at_None: "row_at key i rows = None \<longleftrightarrow> i \<notin> key ` set rows"
  by (auto simp: row_at_def find_None_iff)

lemma row_at_key: "row_at key i rows = Some r \<Longrightarrow> key r = i"
  by (auto simp: row_at_def find_Some_iff)

text \<open>The rows after a claim, and what they hold.\<close>

definition claimed_rows :: "int \<Rightarrow> string \<Rightarrow> string option \<Rightarrow> string \<Rightarrow> json_obj \<Rightarrow> sandbox_row list \<Rightarrow> sandbox_row list" where
  "claimed_rows now i expected pid stored rows = (case expected of
      None \<Rightarrow> insert_sandbox now i pid stored rows | Some p \<Rightarrow> update_sandbox now i p pid stored rows)"

lemma claimed_good:
  assumes "distinct (map bw_sandbox_id rows)" and "list_all (row_reads f) rows" and "spec_from_json f stored = Inr s"
  shows "distinct (map bw_sandbox_id (claimed_rows now i expected pid stored rows))"
    and "list_all (row_reads f) (claimed_rows now i expected pid stored rows)"
proof -
  have "map bw_sandbox_id (update_sandbox now i p pid stored rows) = map bw_sandbox_id rows" for p
    by (induction rows) (auto simp: update_sandbox_def)
  with assms(1) show "distinct (map bw_sandbox_id (claimed_rows now i expected pid stored rows))"
    by (auto simp: claimed_rows_def insert_sandbox_def row_at_None split: option.split)
  from assms(2,3) show "list_all (row_reads f) (claimed_rows now i expected pid stored rows)"
    by (auto simp: claimed_rows_def insert_sandbox_def update_sandbox_def list_all_iff row_reads_def split: option.split)
qed

lemma claimed_row:
  "row_at bw_sandbox_id j (claimed_rows now i expected pid stored rows) =
     (if j = i \<and> map_option bw_provider_id (row_at bw_sandbox_id i rows) = expected
      then Some (case row_at bw_sandbox_id i rows of
          None \<Rightarrow> \<lparr>bw_sandbox_id = i, bw_provider_id = pid, bw_spec = stored, bw_created_at = now, bw_updated_at = now\<rparr>
        | Some r \<Rightarrow> r\<lparr>bw_provider_id := pid, bw_spec := stored, bw_updated_at := now\<rparr>)
      else row_at bw_sandbox_id j rows)"
proof (cases expected)
  case None
  then show ?thesis
    by (auto simp: claimed_rows_def insert_sandbox_def row_at_snoc split: option.split)
next
  case (Some p)
  let ?g = "\<lambda>r. if bw_sandbox_id r = i \<and> bw_provider_id r = p
     then r\<lparr>bw_provider_id := pid, bw_spec := stored, bw_updated_at := now\<rparr> else r"
  have "row_at bw_sandbox_id j (map ?g rows) = map_option ?g (row_at bw_sandbox_id j rows)" by (rule row_at_map) simp
  moreover have "claimed_rows now i expected pid stored rows = map ?g rows"
    by (simp add: claimed_rows_def update_sandbox_def Some)
  ultimately show ?thesis
    by (cases "row_at bw_sandbox_id j rows") (auto simp: Some dest: row_at_key)
qed

lemma recorded_row: "row_at bw_sandbox_id i (bd_rows d) = None \<Longrightarrow> recorded_in f d i = None"
  "row_at bw_sandbox_id i (bd_rows d) = Some r \<Longrightarrow> spec_from_json f (bw_spec r) = Inr s \<Longrightarrow>
     recorded_in f d i = Some \<lparr>sr_sandbox_id = i, sr_provider_id = bw_provider_id r, sr_spec = s\<rparr>"
  using row_at_key [of bw_sandbox_id i "bd_rows d" r] by (simp_all add: recorded_in_def sandbox_from_row_def)

lemma recorded_provider:
  assumes "list_all (row_reads f) (bd_rows d)"
  shows "map_option sr_provider_id (recorded_in f d i) = map_option bw_provider_id (row_at bw_sandbox_id i (bd_rows d))"
proof (cases "row_at bw_sandbox_id i (bd_rows d)")
  case (Some r)
  with good_row [OF assms] obtain s where "spec_from_json f (bw_spec r) = Inr s" by (auto simp: row_reads_def)
  with Some show ?thesis by (simp add: recorded_row(2))
qed (simp add: recorded_row(1))

lemma sql_claim_swaps:
  assumes good: "good_db f d" and keeps: "spec_keeps q f spec"
  shows "\<exists>t. sql_sandbox_claim q f i expected pid spec d = (Inr (recorded_in f t i), t) \<and> good_db f t
      \<and> recorded_in f t = (if map_option sr_provider_id (recorded_in f d i) = expected
           then (recorded_in f d)(i \<mapsto> \<lparr>sr_sandbox_id = i, sr_provider_id = pid, sr_spec = spec\<lparr>sx_image := None\<rparr>\<rparr>)
           else recorded_in f d)"
proof -
  let ?st = "jsonb_obj q (spec_to_json f spec)"
  define rows where "rows = claimed_rows (sq_now q (bd_transactions d)) i expected pid ?st (bd_rows d)"
  define t where "t = d\<lparr>bd_rows := rows, bd_transactions := Suc (bd_transactions d)\<rparr>"
  have st: "spec_from_json f ?st = Inr (spec\<lparr>sx_image := None\<rparr>)" by (rule spec_keepsD [OF keeps])
  from good have g: "distinct (map bw_sandbox_id (bd_rows d))" "list_all (row_reads f) (bd_rows d)"
    by (simp_all add: good_db_def)
  from claimed_good [OF g st] have good': "good_db f t" by (simp add: good_db_def t_def rows_def)
  then have reads: "sandbox_from_row f (row_at bw_sandbox_id i rows) = Inr (recorded_in f t i)"
    using good_reads [of f t i] by (simp add: good_db_def t_def)
  have "sql_sandbox_claim q f i expected pid spec d = (Inr (recorded_in f t i), t)"
    by (simp add: sql_sandbox_claim_def sandbox_transaction_def act_simps Let_def
        flip: claimed_rows_def) (simp add: reads flip: rows_def t_def)
  moreover have "recorded_in f t j = (if map_option sr_provider_id (recorded_in f d i) = expected
           then (recorded_in f d)(i \<mapsto> \<lparr>sr_sandbox_id = i, sr_provider_id = pid, sr_spec = spec\<lparr>sx_image := None\<rparr>\<rparr>)
           else recorded_in f d) j" for j
    unfolding recorded_provider [OF g(2)] using row_at_key [of bw_sandbox_id i "bd_rows d"]
    by (cases "row_at bw_sandbox_id i (bd_rows d)")
      (simp_all add: recorded_in_def t_def rows_def claimed_row sandbox_from_row_def st)
  ultimately show ?thesis using good' by blast
qed

lemma sql_forget_removes:
  "good_db f d \<Longrightarrow> \<exists>t. sql_sandbox_forget i d = (Inr (), t) \<and> good_db f t \<and> recorded_in f t = (recorded_in f d)(i := None)"
  by (auto simp: sql_sandbox_forget_def sandbox_transaction_def act_simps good_db_def recorded_in_def row_at_filter
      sandbox_from_row_def fun_eq_iff list_all_iff distinct_map inj_on_def)

interpretation ss: sandbox_store "sql_sandbox_get f" "sql_sandbox_claim q f" sql_sandbox_forget "recorded_in f" "good_db f"
  "spec_keeps q f" for q f
proof unfold_locales
  show "good_db f d \<Longrightarrow> sql_sandbox_get f i d = (Inr (recorded_in f d i), d)" for d i
    by (simp add: sql_sandbox_get_def readS_def good_reads good_db_def)
qed (rule sql_claim_swaps sql_forget_removes; assumption)+

section \<open>Workers that race for one sandbox\<close>

text \<open>C23. Workers that each opened a sandbox for one id agree on one. When several workers read the same record
  of an id (or none) and each then claims it for the sandbox it opened, the first to reach the store is
  recorded and every one of them is answered with that one record, in the database as in memory.\<close>

theorem racing_workers_agree:
  assumes "good_db f d" and "\<forall>c\<in>set (c # cs). spec_keeps q f (snd c)" and "expected \<noteq> Some (fst c)"
    and "map_option sr_provider_id (recorded_in f d i) = expected" and "map_option sr_provider_id (dget t i) = expected"
  shows "fst (gather (\<lambda>c. sql_sandbox_claim q f i expected (fst c) (snd c)) (c # cs) d)
       = map (\<lambda>_. Inr (Some \<lparr>sr_sandbox_id = i, sr_provider_id = fst c, sr_spec = (snd c)\<lparr>sx_image := None\<rparr>\<rparr>)) (c # cs)
     \<and> fst (gather (\<lambda>c. mem_claim i expected (fst c) (snd c)) (c # cs) t)
       = map (\<lambda>_. Inr (Some \<lparr>sr_sandbox_id = i, sr_provider_id = fst c, sr_spec = (snd c)\<lparr>sx_image := None\<rparr>\<rparr>)) (c # cs)"
  using ss.first_claim_wins [OF assms(1,4,2,3)] ms.first_claim_wins [of t i expected c cs] assms(3,5)
  by (auto simp del: gather.simps)

definition plain_engine :: sql_engine where
  "plain_engine = \<lparr>sq_jsonb = (\<lambda>j. j), sq_now = int, sq_as_int = (\<lambda>_. None), sq_blocks_str = (\<lambda>_. [])\<rparr>"

lemma default_spec_keeps: "spec_keeps plain_engine three_floats default_spec"
  by (simp add: spec_keeps_def plain_engine_def jsonb_obj_def spec_ok_def floats_read_back_def three_floats_def
      default_spec_def spec_post_init_def)

theorem racing_workers_agree_witness:
  "fst (gather (\<lambda>c. sql_sandbox_claim plain_engine three_floats ''s'' None (fst c) (snd c))
       [(''a'', default_spec), (''b'', default_spec)] \<lparr>bd_rows = [], bd_transactions = 0\<rparr>)
     = map (\<lambda>_. Inr (Some \<lparr>sr_sandbox_id = ''s'', sr_provider_id = ''a'', sr_spec = default_spec\<rparr>)) [0::nat, 1]"
proof -
  have "recorded_in three_floats \<lparr>bd_rows = [], bd_transactions = 0\<rparr> ''s'' = None"
    by (simp add: recorded_in_def row_at_def sandbox_from_row_def)
  moreover have "default_spec\<lparr>sx_image := None\<rparr> = default_spec" by (simp add: default_spec_def)
  ultimately show ?thesis
    using racing_workers_agree [of three_floats "\<lparr>bd_rows = [], bd_transactions = 0\<rparr>" "(''a'', default_spec)"
        "[(''b'', default_spec)]" plain_engine None "''s''" "[]", THEN conjunct1]
    by (simp add: default_spec_keeps good_db_def)
qed

end
