(* ===== verification/Sandbox_Registry.thy ===== *)
theory Sandbox_Registry
  imports Sandbox_Stores
begin

text \<open>
  Sandboxes by id (\<open>actant/sandbox/registry.py\<close>). The registry's own state is the handles it verified and
  the specs it saw recorded; \<open>rg_world\<close> is everything else, the store and the backends with it. An awaited
  call of the store or of a backend is an arbitrary action on all of it, since other tasks and other
  workers run meanwhile. A caller that finds a resolve of the same sandbox and spec in flight shares its
  outcome; only the resolve is modelled.
\<close>

section \<open>State\<close>

record live_sandbox =
  ls_id :: string
  ls_backend :: string

record verified =
  vf_sandbox :: live_sandbox
  vf_at :: rat

record 'w registry =
  rg_live :: "(string, verified) dict"
  rg_recorded :: "(string, string) dict"
  rg_world :: 'w

record 'w sandbox_provider =
  pv_open :: "sandbox_spec \<Rightarrow> string \<Rightarrow> ('w registry, live_sandbox) act"
  pv_attach :: "sandbox_spec \<Rightarrow> string \<Rightarrow> ('w registry, live_sandbox) act"

record 'w registry_env =
  re_providers :: "(string, 'w sandbox_provider) dict"
  re_get :: "string \<Rightarrow> ('w registry, sandbox_record option) act"
  re_claim :: "string \<Rightarrow> string option \<Rightarrow> string \<Rightarrow> sandbox_spec \<Rightarrow> ('w registry, sandbox_record option) act"
  re_forget :: "string \<Rightarrow> ('w registry, unit) act"
  re_close :: "live_sandbox \<Rightarrow> ('w registry, unit) act"
  re_cancel :: "string \<Rightarrow> ('w registry, unit) act"
  re_now :: "'w registry \<Rightarrow> rat"
  re_floats :: float_text

definition verified_for_s :: rat where
  "verified_for_s = 5"

definition fresh_registry :: "'w \<Rightarrow> 'w registry" where
  "fresh_registry w = \<lparr>rg_live = [], rg_recorded = [], rg_world = w\<rparr>"

section \<open>A spec as text\<close>

text \<open>\<open>json.dumps(..., sort_keys=True)\<close>: every object's keys in code point order.\<close>

fun str_le :: "string \<Rightarrow> string \<Rightarrow> bool" where
  "str_le [] t = True"
| "str_le (c # s) [] = False"
| "str_le (c # s) (e # t) = ((of_char c :: nat) < of_char e \<or> (c = e \<and> str_le s t))"

fun insert_item :: "string \<times> json \<Rightarrow> json_obj \<Rightarrow> json_obj" where
  "insert_item e [] = [e]"
| "insert_item e (h # d) = (if str_le (fst e) (fst h) then e # h # d else h # insert_item e d)"

fun sort_keys :: "json \<Rightarrow> json" where
  "sort_keys (JObj d) = JObj (foldr insert_item (map (\<lambda>(k, v). (k, sort_keys v)) d) [])"
| "sort_keys (JList js) = JList (map sort_keys js)"
| "sort_keys j = j"

definition spec_text :: "float_text \<Rightarrow> sandbox_spec \<Rightarrow> string" where
  "spec_text f s = json_dumps (sort_keys (JObj (spec_to_json f s)))"

section \<open>Providers and verified handles\<close>

fun sorted_strs :: "string list \<Rightarrow> string list" where
  "sorted_strs [] = []"
| "sorted_strs (s # ss) = (let rest = sorted_strs ss in takeWhile (\<lambda>t. \<not> str_le s t) rest @ s # dropWhile (\<lambda>t. \<not> str_le s t) rest)"

definition provider_for :: "'w registry_env \<Rightarrow> string \<Rightarrow> py_error + 'w sandbox_provider" where
  "provider_for e backend = (case dget (re_providers e) backend of
      Some p \<Rightarrow> Inr p
    | None \<Rightarrow> Inl (KeyError (''no sandbox provider registered for backend '' @ repr_str backend @ ''; known: ''
        @ py_repr (JList (map JStr (sorted_strs (dkeys (re_providers e))))))))"

definition verified_handle :: "'w registry_env \<Rightarrow> string \<Rightarrow> 'w registry \<Rightarrow> live_sandbox option" where
  "verified_handle e i r = (case dget (rg_live r) i of
      None \<Rightarrow> None | Some v \<Rightarrow> (if re_now e r - vf_at v < verified_for_s then Some (vf_sandbox v) else None))"

definition keep_handle :: "'w registry_env \<Rightarrow> string \<Rightarrow> live_sandbox \<Rightarrow> sandbox_spec \<Rightarrow> ('w registry, live_sandbox) act" where
  "keep_handle e i sb spec = thn (modifyS (\<lambda>r. r\<lparr>rg_live := dset i \<lparr>vf_sandbox = sb, vf_at = re_now e r\<rparr> (rg_live r),
      rg_recorded := dset i (spec_text (re_floats e) spec) (rg_recorded r)\<rparr>)) (ret sb)"

definition nobody_opened :: "string \<Rightarrow> py_error" where
  "nobody_opened i = KeyError (''no sandbox is open under '' @ repr_str i)"

section \<open>Resolving\<close>

text \<open>\<open>contextlib.suppress(KeyError)\<close> around the attach, and \<open>suppress(Exception)\<close> around a close.\<close>

definition attach_live :: "'w sandbox_provider \<Rightarrow> sandbox_spec \<Rightarrow> string \<Rightarrow> ('w registry, live_sandbox option) act" where
  "attach_live p spec pid r = (case pv_attach p spec pid r of
      (Inr sb, t) \<Rightarrow> (Inr (Some sb), t)
    | (Inl (KeyError k), t) \<Rightarrow> (Inr None, t)
    | (Inl x, t) \<Rightarrow> (Inl x, t))"

definition drop_sandbox :: "'w registry_env \<Rightarrow> live_sandbox \<Rightarrow> ('w registry, unit) act" where
  "drop_sandbox e sb = catch (re_close e sb) (\<lambda>_. ret ())"

definition holds_sandbox :: "sandbox_record option \<Rightarrow> string \<Rightarrow> bool" where
  "holds_sandbox held pid \<longleftrightarrow> map_option sr_provider_id held = Some pid"

text \<open>The end of a pass: \<open>None\<close> is \<open>continue\<close>.\<close>

definition use_attached ::
  "'w registry_env \<Rightarrow> string \<Rightarrow> sandbox_spec option \<Rightarrow> sandbox_spec \<Rightarrow> sandbox_record \<Rightarrow> live_sandbox
     \<Rightarrow> ('w registry, live_sandbox option) act" where
  "use_attached e i spec used record sb = (case spec of
      Some s \<Rightarrow> (if spec_text (re_floats e) s \<noteq> spec_text (re_floats e) (sr_spec record)
        then bnd (re_claim e i (Some (sr_provider_id record)) (sr_provider_id record) s) (\<lambda>held.
          if holds_sandbox held (sr_provider_id record) then bnd (keep_handle e i sb used) (\<lambda>sb. ret (Some sb))
          else ret None)
        else bnd (keep_handle e i sb used) (\<lambda>sb. ret (Some sb)))
    | None \<Rightarrow> bnd (keep_handle e i sb used) (\<lambda>sb. ret (Some sb)))"

text \<open>\<open>except CancelledError\<close>: the close is shielded and the cancellation raised again.\<close>

definition claim_opened ::
  "'w registry_env \<Rightarrow> string \<Rightarrow> string option \<Rightarrow> live_sandbox \<Rightarrow> sandbox_spec \<Rightarrow> ('w registry, sandbox_record option) act" where
  "claim_opened e i expected opened used r = (case re_claim e i expected (ls_id opened) used r of
      (Inl CancelledError, t) \<Rightarrow> thn (drop_sandbox e opened) (raise CancelledError) t
    | (x, t) \<Rightarrow> (x, t))"

definition open_anew ::
  "'w registry_env \<Rightarrow> 'w sandbox_provider \<Rightarrow> string \<Rightarrow> sandbox_spec option \<Rightarrow> sandbox_spec \<Rightarrow> string option
     \<Rightarrow> ('w registry, live_sandbox option) act" where
  "open_anew e p i spec used expected =
     bnd (pv_open p used i) (\<lambda>opened.
     bnd (claim_opened e i expected opened used) (\<lambda>held.
     if holds_sandbox held (ls_id opened) then bnd (keep_handle e i opened used) (\<lambda>sb. ret (Some sb))
     else thn (drop_sandbox e opened)
       (if held = None \<and> spec = None
        then raise (KeyError (''sandbox '' @ i @ '' was closed while it was reopened'')) else ret None)))"

definition resolve_with ::
  "'w registry_env \<Rightarrow> 'w sandbox_provider \<Rightarrow> string \<Rightarrow> sandbox_spec option \<Rightarrow> sandbox_spec \<Rightarrow> sandbox_record option
     \<Rightarrow> ('w registry, live_sandbox option) act" where
  "resolve_with e p i spec used found = (case found of
      None \<Rightarrow> open_anew e p i spec used None
    | Some rec \<Rightarrow> bnd (attach_live p used (sr_provider_id rec)) (\<lambda>live. case live of
          Some sb \<Rightarrow> use_attached e i spec used rec sb
        | None \<Rightarrow> open_anew e p i spec used (Some (sr_provider_id rec))))"

definition spec_used :: "sandbox_spec option \<Rightarrow> sandbox_record option \<Rightarrow> sandbox_spec option" where
  "spec_used spec found = (case spec of Some s \<Rightarrow> Some s | None \<Rightarrow> map_option sr_spec found)"

definition resolve_pass ::
  "'w registry_env \<Rightarrow> string \<Rightarrow> sandbox_spec option \<Rightarrow> ('w registry, live_sandbox option) act" where
  "resolve_pass e i spec = bnd (re_get e i) (\<lambda>found. case spec_used spec found of
      None \<Rightarrow> raise (nobody_opened i)
    | Some used \<Rightarrow> bnd (from_res (provider_for e (sx_backend used))) (\<lambda>p. resolve_with e p i spec used found))"

text \<open>\<open>while True\<close>: a pass that lost a race is followed by another; \<open>None\<close> when the fuel is spent.\<close>

fun resolve ::
  "nat \<Rightarrow> 'w registry_env \<Rightarrow> string \<Rightarrow> sandbox_spec option \<Rightarrow> 'w registry \<Rightarrow> ((py_error + live_sandbox) \<times> 'w registry) option" where
  "resolve 0 e i spec r = None"
| "resolve (Suc n) e i spec r = (case resolve_pass e i spec r of
      (Inl x, t) \<Rightarrow> Some (Inl x, t)
    | (Inr (Some sb), t) \<Rightarrow> Some (Inr sb, t)
    | (Inr None, t) \<Rightarrow> resolve n e i spec t)"

section \<open>The registry's operations\<close>

definition open_sandbox ::
  "nat \<Rightarrow> 'w registry_env \<Rightarrow> string \<Rightarrow> sandbox_spec \<Rightarrow> 'w registry \<Rightarrow> ((py_error + live_sandbox) \<times> 'w registry) option" where
  "open_sandbox n e i spec r =
     (case (if dget (rg_recorded r) i = Some (spec_text (re_floats e) spec) then verified_handle e i r else None) of
        Some sb \<Rightarrow> Some (Inr sb, r)
      | None \<Rightarrow> resolve n e i (Some spec) r)"

definition attach_sandbox ::
  "nat \<Rightarrow> 'w registry_env \<Rightarrow> string \<Rightarrow> 'w registry \<Rightarrow> ((py_error + live_sandbox) \<times> 'w registry) option" where
  "attach_sandbox n e i r = (case verified_handle e i r of
      Some sb \<Rightarrow> Some (Inr sb, r)
    | None \<Rightarrow> resolve n e i None r)"

definition recorded_spec :: "'w registry_env \<Rightarrow> string \<Rightarrow> ('w registry, sandbox_spec) act" where
  "recorded_spec e i = bnd (re_get e i) (\<lambda>record. case record of
      None \<Rightarrow> raise (nobody_opened i) | Some rec \<Rightarrow> ret (sr_spec rec))"

definition forget_handles :: "string \<Rightarrow> 'w registry \<Rightarrow> 'w registry" where
  "forget_handles i r = r\<lparr>rg_recorded := AList.delete i (rg_recorded r), rg_live := AList.delete i (rg_live r)\<rparr>"

text \<open>\<open>held_now\<close> is what the process holds for the id when its record has been forgotten.\<close>

definition held_now :: "string \<Rightarrow> 'w registry \<Rightarrow> live_sandbox list" where
  "held_now i r = (case dget (rg_live r) i of None \<Rightarrow> [] | Some v \<Rightarrow> [vf_sandbox v])"

definition attach_recorded :: "'w registry_env \<Rightarrow> sandbox_record \<Rightarrow> ('w registry, live_sandbox list) act" where
  "attach_recorded e rec = catch (bnd (from_res (provider_for e (sx_backend (sr_spec rec)))) (\<lambda>p.
      bnd (pv_attach p (sr_spec rec) (sr_provider_id rec)) (\<lambda>sb. ret [sb]))) (\<lambda>_. ret [])"

definition close_sandbox :: "'w registry_env \<Rightarrow> string \<Rightarrow> ('w registry, unit) act" where
  "close_sandbox e i =
     thn (re_cancel e i) (
     bnd (re_get e i) (\<lambda>record.
     thn (re_forget e i) (
     bnd getS (\<lambda>r.
     thn (modifyS (forget_handles i)) (
     bnd (case record of
            None \<Rightarrow> ret []
          | Some rec \<Rightarrow> (if sr_provider_id rec \<in> ls_id ` set (held_now i r) then ret [] else attach_recorded e rec)) (\<lambda>found.
     for_each (drop_sandbox e) (held_now i r @ found)))))))"

section \<open>What becomes of the sandboxes that are opened\<close>

text \<open>\<open>op\<close> reads off the world which sandboxes this registry's calls opened, \<open>ak\<close> which were asked to close.\<close>

definition quiet :: "('w \<Rightarrow> live_sandbox set) \<Rightarrow> ('w \<Rightarrow> live_sandbox set) \<Rightarrow> 'w registry \<Rightarrow> 'w registry \<Rightarrow> bool" where
  "quiet op ak r t \<longleftrightarrow> op (rg_world t) = op (rg_world r) \<and> ak (rg_world r) \<subseteq> ak (rg_world t)"

definition opens_watched ::
  "('w \<Rightarrow> live_sandbox set) \<Rightarrow> ('w \<Rightarrow> live_sandbox set) \<Rightarrow> ('w registry, live_sandbox) act \<Rightarrow> bool" where
  "opens_watched op ak m \<longleftrightarrow> (\<forall>r. ensures m r (\<lambda>res t. ak (rg_world r) \<subseteq> ak (rg_world t)
     \<and> op (rg_world t) = (case res of Inl x \<Rightarrow> op (rg_world r) | Inr sb \<Rightarrow> insert sb (op (rg_world r)))))"

definition closes_watched ::
  "('w \<Rightarrow> live_sandbox set) \<Rightarrow> ('w \<Rightarrow> live_sandbox set) \<Rightarrow> live_sandbox \<Rightarrow> ('w registry, unit) act \<Rightarrow> bool" where
  "closes_watched op ak sb m \<longleftrightarrow> (\<forall>r. ensures m r (\<lambda>res t. quiet op ak r t \<and> sb \<in> ak (rg_world t)))"

definition provider_watched ::
  "('w \<Rightarrow> live_sandbox set) \<Rightarrow> ('w \<Rightarrow> live_sandbox set) \<Rightarrow> 'w sandbox_provider \<Rightarrow> bool" where
  "provider_watched op ak p \<longleftrightarrow>
     (\<forall>s i. opens_watched op ak (pv_open p s i)) \<and> (\<forall>s i. keeps (quiet op ak) (pv_attach p s i))"

definition watched ::
  "'w registry_env \<Rightarrow> ('w \<Rightarrow> live_sandbox set) \<Rightarrow> ('w \<Rightarrow> live_sandbox set) \<Rightarrow> bool" where
  "watched e op ak \<longleftrightarrow> list_all (provider_watched op ak) (dvalues (re_providers e))
     \<and> (\<forall>i. keeps (quiet op ak) (re_get e i)) \<and> (\<forall>i x p s. keeps (quiet op ak) (re_claim e i x p s))
     \<and> (\<forall>i. keeps (quiet op ak) (re_forget e i)) \<and> (\<forall>i. keeps (quiet op ak) (re_cancel e i))
     \<and> (\<forall>sb. closes_watched op ak sb (re_close e sb))"

definition claims_only_cancelled :: "'w registry_env \<Rightarrow> bool" where
  "claims_only_cancelled e \<longleftrightarrow> (\<forall>i x p s r x'. fst (re_claim e i x p s r) = Inl x' \<longrightarrow> x' = CancelledError)"

interpretation qt: step_contract "quiet op ak" for op ak
  by unfold_locales (auto simp: quiet_def)

lemma watchedD:
  assumes "watched e op ak"
  shows "keeps (quiet op ak) (re_get e i)" "keeps (quiet op ak) (re_claim e i x q s)"
    "keeps (quiet op ak) (re_forget e i)" "keeps (quiet op ak) (re_cancel e i)"
    "closes_watched op ak sb (re_close e sb)" "provider_for e b = Inr p \<Longrightarrow> provider_watched op ak p"
proof -
  show "provider_for e b = Inr p \<Longrightarrow> provider_watched op ak p"
    using assms map_of_SomeD [of "re_providers e" b p]
    by (force simp: watched_def provider_for_def list_all_iff split: option.splits)
qed (use assms in \<open>simp_all add: watched_def\<close>)

lemma keep_handle_ensures: "ensures (keep_handle e i sb spec) r Q \<longleftrightarrow>
   Q (Inr sb) (r\<lparr>rg_live := dset i \<lparr>vf_sandbox = sb, vf_at = re_now e r\<rparr> (rg_live r),
      rg_recorded := dset i (spec_text (re_floats e) spec) (rg_recorded r)\<rparr>)"
  by (simp add: keep_handle_def ensures_simps)

lemma drop_asks: "watched e op ak \<Longrightarrow> ensures (drop_sandbox e sb) r (\<lambda>res t. quiet op ak r t \<and> sb \<in> ak (rg_world t))"
  using watchedD(5) [of e op ak sb, unfolded closes_watched_def ensures_def, THEN spec [of _ r]]
  by (cases "re_close e sb r") (auto simp: drop_sandbox_def ensures_def catch_def ret_def split: sum.split)

lemma attach_live_quiet: "provider_watched op ak p \<Longrightarrow> keeps (quiet op ak) (attach_live p s i)"
  by (auto simp: provider_watched_def keeps_def attach_live_def split: prod.split sum.split py_error.split)
    (metis snd_conv)+

text \<open>What a pass may leave behind: only the sandbox it returns.\<close>

definition accounted ::
  "('w \<Rightarrow> live_sandbox set) \<Rightarrow> ('w \<Rightarrow> live_sandbox set) \<Rightarrow> 'w registry \<Rightarrow> py_error + live_sandbox option \<Rightarrow> 'w registry \<Rightarrow> bool" where
  "accounted op ak r res t \<longleftrightarrow> ak (rg_world r) \<subseteq> ak (rg_world t)
     \<and> op (rg_world t) \<subseteq> op (rg_world r) \<union> ak (rg_world t) \<union> (case res of Inr (Some sb) \<Rightarrow> {sb} | _ \<Rightarrow> {})"

lemma quiet_accounted: "quiet op ak r t \<Longrightarrow> accounted op ak r res t"
  by (auto simp: quiet_def accounted_def)

lemma accounted_after: "quiet op ak r t \<Longrightarrow> accounted op ak t res u \<Longrightarrow> accounted op ak r res u"
  by (auto simp: quiet_def accounted_def)

lemma accounted_from: "quiet op ak r u \<Longrightarrow> ensures m u (accounted op ak u) \<Longrightarrow> ensures m u (accounted op ak r)"
  by (erule ensures_mono) (rule accounted_after)

lemma kept_accounted: "accounted op ak r (Inr (Some sb))
    (r\<lparr>rg_live := l, rg_recorded := d\<rparr>)"
  by (auto simp: accounted_def)

lemma use_attached_accounted:
  "watched e op ak \<Longrightarrow> ensures (use_attached e i spec used rec sb) r (accounted op ak r)"
  unfolding use_attached_def
  apply (auto split: option.split simp: ensures_simps keep_handle_ensures kept_accounted)
  apply (rule ensures_keeps [OF watchedD(2)], assumption)
  apply (auto split: sum.split simp: ensures_simps keep_handle_ensures quiet_accounted
      intro: accounted_after kept_accounted)
  done

lemma claim_opened_asks:
  assumes "watched e op ak" and "claims_only_cancelled e"
  shows "ensures (claim_opened e i x sb used) r (\<lambda>res t. quiet op ak r t \<and> (case res of Inl y \<Rightarrow> sb \<in> ak (rg_world t) | Inr h \<Rightarrow> True))"
proof -
  obtain res t where c: "re_claim e i x (ls_id sb) used r = (res, t)" by fastforce
  with keepsD [OF watchedD(2) [OF assms(1)], of r i x "ls_id sb" used] have q: "quiet op ak r t" by simp
  show ?thesis
  proof (cases res)
    case (Inl y)
    with c assms(2) have "y = CancelledError" unfolding claims_only_cancelled_def by (metis fst_conv)
    with c Inl drop_asks [OF assms(1), of sb t] show ?thesis
      by (auto simp: claim_opened_def ensures_def thn_def bnd_def raise_def split: prod.split sum.split
          intro: qt.step_trans [OF q])
  qed (use c q in \<open>simp add: claim_opened_def ensures_def\<close>)
qed

lemma open_anew_accounted:
  assumes "watched e op ak" and "claims_only_cancelled e" and "provider_watched op ak p"
  shows "ensures (open_anew e p i spec used x) r (accounted op ak r)"
proof -
  obtain res t where o: "pv_open p used i r = (res, t)" by fastforce
  with assms(3) have w: "ak (rg_world r) \<subseteq> ak (rg_world t)"
      "op (rg_world t) = (case res of Inl x \<Rightarrow> op (rg_world r) | Inr sb \<Rightarrow> insert sb (op (rg_world r)))"
    by (simp_all add: provider_watched_def opens_watched_def ensures_def) (metis fst_conv snd_conv)+
  show ?thesis
  proof (cases res)
    case (Inr sb)
    obtain h u where c: "claim_opened e i x sb used t = (h, u)" by fastforce
    from ensuresD [OF claim_opened_asks [OF assms(1,2)] c]
    have q: "quiet op ak t u" "\<And>y. h = Inl y \<Longrightarrow> sb \<in> ak (rg_world u)" by auto
    obtain d v where dr: "drop_sandbox e sb u = (d, v)" by fastforce
    from ensuresD [OF drop_asks [OF assms(1)] dr] have q': "quiet op ak u v" "sb \<in> ak (rg_world v)" by auto
    from w q q' show ?thesis
      by (auto simp: open_anew_def ensures_def bnd_def thn_def o Inr c dr keep_handle_def ret_def raise_def modifyS_def
          accounted_def quiet_def split: sum.split)
  qed (use o w in \<open>auto simp: open_anew_def ensures_def bnd_def accounted_def\<close>)
qed

lemma resolve_with_accounted:
  assumes "watched e op ak" and "claims_only_cancelled e" and "provider_watched op ak p"
  shows "ensures (resolve_with e p i spec used found) r (accounted op ak r)"
proof (cases found)
  case (Some rec)
  show ?thesis
    unfolding resolve_with_def Some option.case
    using attach_live_quiet [OF assms(3)] qt.step_refl [of op ak r]
  proof (rule qt.bnd_after)
    fix a u assume u: "quiet op ak r u"
    show "ensures (case a of Some sb \<Rightarrow> use_attached e i spec used rec sb
        | None \<Rightarrow> open_anew e p i spec used (Some (sr_provider_id rec))) u (accounted op ak r)"
      by (rule accounted_from [OF u]) (simp add: open_anew_accounted [OF assms] use_attached_accounted [OF assms(1)] split: option.split)
  qed (rule quiet_accounted)
qed (simp add: resolve_with_def open_anew_accounted [OF assms])

lemma resolve_pass_accounted:
  assumes "watched e op ak" and "claims_only_cancelled e"
  shows "ensures (resolve_pass e i spec) r (accounted op ak r)"
  unfolding resolve_pass_def
  using watchedD(1) [OF assms(1)] qt.step_refl [of op ak r]
proof (rule qt.bnd_after)
  fix found u assume u: "quiet op ak r u"
  show "ensures (case spec_used spec found of None \<Rightarrow> raise (nobody_opened i)
    | Some used \<Rightarrow> bnd (from_res (provider_for e (sx_backend used))) (\<lambda>p. resolve_with e p i spec used found)) u (accounted op ak r)"
  proof (cases "spec_used spec found")
    case (Some used)
    have "ensures (resolve_with e p i spec used found) u (accounted op ak r)" if "provider_for e (sx_backend used) = Inr p" for p
      by (rule accounted_from [OF u]) (rule resolve_with_accounted [OF assms watchedD(6) [OF assms(1) that]])
    then show ?thesis
      by (cases "provider_for e (sx_backend used)") (simp_all add: Some ensures_bnd ensures_from_res quiet_accounted [OF u])
  qed (simp add: ensures_raise quiet_accounted [OF u])
qed (rule quiet_accounted)

lemma accounted_trans: "accounted op ak r (Inr None) u \<Longrightarrow> accounted op ak u res t \<Longrightarrow> accounted op ak r res t"
  by (auto simp: accounted_def)

fun last_pass :: "py_error + live_sandbox \<Rightarrow> py_error + live_sandbox option" where
  "last_pass (Inl x) = Inl x" | "last_pass (Inr sb) = Inr (Some sb)"

lemma resolve_accounted:
  assumes "watched e op ak" and "claims_only_cancelled e"
  shows "resolve n e i spec r = Some (res, t) \<Longrightarrow> accounted op ak r (last_pass res) t"
proof (induction n arbitrary: r)
  case (Suc n)
  obtain x u where p: "resolve_pass e i spec r = (x, u)" by fastforce
  have a: "accounted op ak r x u" by (rule ensuresD [OF resolve_pass_accounted [OF assms] p])
  consider y where "x = Inl y" | sb where "x = Inr (Some sb)" | "x = Inr None" by (metis obj_sumE option.exhaust)
  then show ?case using Suc p a by cases (auto intro: accounted_trans)
qed simp

text \<open>C22. A resolve leaves no sandbox running that nobody holds. Whatever other tasks, other workers, the store
  and the backends do, of the sandboxes a resolve opened by the time it ends each was asked to close, but
  the one it returns; this needs that a claim of the store raises nothing but a cancellation.\<close>

theorem resolve_leaks_nothing:
  assumes "watched e op ak" and "claims_only_cancelled e" and "resolve n e i spec r = Some (res, t)"
    and "sb \<in> op (rg_world t) - op (rg_world r)" and "res \<noteq> Inr sb"
  shows "sb \<in> ak (rg_world t)"
  using resolve_accounted [OF assms(1-3)] assms(4,5)
  by (cases res) (auto simp: accounted_def)

section \<open>Closing\<close>

lemma drops_ask_all:
  assumes "watched e op ak" and "\<forall>sb r. fst (re_close e sb r) \<noteq> Inl CancelledError"
  shows "\<exists>t. for_each (drop_sandbox e) sbs r = (Inr (), t) \<and> quiet op ak r t \<and> set sbs \<subseteq> ak (rg_world t)"
proof (induction sbs arbitrary: r)
  case (Cons sb sbs)
  obtain x u where d: "drop_sandbox e sb r = (x, u)" by fastforce
  from ensuresD [OF drop_asks [OF assms(1)] d] have u: "quiet op ak r u" "sb \<in> ak (rg_world u)" by simp_all
  from d assms(2) not_exception have "x = Inr ()"
    by (auto simp: drop_sandbox_def catch_def ret_def split: prod.splits sum.splits if_splits) (metis fst_conv)
  moreover obtain t where "for_each (drop_sandbox e) sbs u = (Inr (), t)" "quiet op ak u t" "set sbs \<subseteq> ak (rg_world t)"
    using Cons.IH by blast
  ultimately show ?case using u d by (auto simp: thn_def bnd_def quiet_def)
qed (simp add: ret_def qt.step_refl)

definition never_cancelled :: "'w registry_env \<Rightarrow> bool" where
  "never_cancelled e \<longleftrightarrow> (\<forall>sb r. fst (re_close e sb r) \<noteq> Inl CancelledError)
     \<and> list_all (\<lambda>p. \<forall>s i r. fst (pv_attach p s i r) \<noteq> Inl CancelledError) (dvalues (re_providers e))"

lemma attach_recorded_found:
  assumes "never_cancelled e"
  shows "\<exists>found t. attach_recorded e rec r = (Inr found, t)
    \<and> (provider_for e (sx_backend (sr_spec rec)) = Inr p \<longrightarrow>
        fst (pv_attach p (sr_spec rec) (sr_provider_id rec) r) = Inr sb \<longrightarrow> found = [sb])"
proof (cases "provider_for e (sx_backend (sr_spec rec))")
  case (Inr q)
  with assms have "fst (pv_attach q (sr_spec rec) (sr_provider_id rec) r) \<noteq> Inl CancelledError"
    by (auto simp: never_cancelled_def provider_for_def list_all_iff split: option.splits) (metis map_of_SomeD snd_conv)
  with Inr not_exception show ?thesis
    by (cases "pv_attach q (sr_spec rec) (sr_provider_id rec) r")
      (auto simp: attach_recorded_def catch_def bnd_def from_res_def readS_def ret_def split: sum.splits)
next
  case (Inl x)
  then have "is_exception x" by (auto simp: provider_for_def split: option.splits)
  with Inl show ?thesis by (simp add: attach_recorded_def catch_def bnd_def from_res_def readS_def ret_def)
qed

text \<open>Closing a sandbox never raises on its own account and asks for every sandbox of the id to be stopped:
  when the store answers, the record is forgotten, the handle this process held is asked to close, and so
  is the recorded sandbox when it is another one and its backend still finds it, whatever the closes do.\<close>

theorem close_asks_all:
  assumes "watched e op ak" and "never_cancelled e"
    and "re_cancel e i r = (Inr (), r1)" and "re_get e i r1 = (Inr found, r2)" and "re_forget e i r2 = (Inr (), r3)"
  shows "\<exists>t. close_sandbox e i r = (Inr (), t) \<and> set (held_now i r3) \<subseteq> ak (rg_world t)
    \<and> (found = Some rec \<longrightarrow> provider_for e (sx_backend (sr_spec rec)) = Inr p \<longrightarrow>
        fst (pv_attach p (sr_spec rec) (sr_provider_id rec) (forget_handles i r3)) = Inr sb \<longrightarrow>
        sr_provider_id rec \<notin> ls_id ` set (held_now i r3) \<longrightarrow> sb \<in> ak (rg_world t))"
proof -
  let ?more = "case found of None \<Rightarrow> ret []
    | Some rec \<Rightarrow> (if sr_provider_id rec \<in> ls_id ` set (held_now i r3) then ret [] else attach_recorded e rec)"
  have "\<exists>more t. ?more (forget_handles i r3) = (Inr more, t) \<and> (found = Some rec \<longrightarrow>
      provider_for e (sx_backend (sr_spec rec)) = Inr p \<longrightarrow>
      fst (pv_attach p (sr_spec rec) (sr_provider_id rec) (forget_handles i r3)) = Inr sb \<longrightarrow>
      sr_provider_id rec \<notin> ls_id ` set (held_now i r3) \<longrightarrow> more = [sb])"
    using attach_recorded_found [OF assms(2), of _ "forget_handles i r3" p sb]
    by (cases found) (simp_all add: ret_def, metis)
  then obtain more t where m: "?more (forget_handles i r3) = (Inr more, t)" and found: "found = Some rec \<longrightarrow>
      provider_for e (sx_backend (sr_spec rec)) = Inr p \<longrightarrow>
      fst (pv_attach p (sr_spec rec) (sr_provider_id rec) (forget_handles i r3)) = Inr sb \<longrightarrow>
      sr_provider_id rec \<notin> ls_id ` set (held_now i r3) \<longrightarrow> more = [sb]" by blast
  from assms(2) have "\<forall>sb r. fst (re_close e sb r) \<noteq> Inl CancelledError" by (simp add: never_cancelled_def)
  from drops_ask_all [OF assms(1) this, of "held_now i r3 @ more" t]
  obtain u where u: "for_each (drop_sandbox e) (held_now i r3 @ more) t = (Inr (), u)"
    "set (held_now i r3 @ more) \<subseteq> ak (rg_world u)" by blast
  have "close_sandbox e i r = (Inr (), u)"
    unfolding close_sandbox_def thn_def
    by (simp add: bnd_Inr [where m = "re_cancel e i", OF assms(3)] bnd_Inr [where m = "re_get e i", OF assms(4)]
        bnd_Inr [where m = "re_forget e i", OF assms(5)] bnd_Inr [where m = getS, OF getS_def]
        bnd_Inr [where m = "modifyS (forget_handles i)", OF modifyS_def] bnd_Inr [where m = ?more, OF m] u)
  with u found show ?thesis by auto
qed

section \<open>A resolve nothing interferes with\<close>

lemma spec_text_image [simp]: "spec_text f (s\<lparr>sx_image := x\<rparr>) = spec_text f s"
  by (simp add: spec_text_def spec_to_json_def)

text \<open>The backends touch no record, and an attached sandbox has the id it was attached by.\<close>

definition leaves_records :: "('w \<Rightarrow> string \<Rightarrow> sandbox_record option) \<Rightarrow> ('w \<Rightarrow> bool) \<Rightarrow> ('w registry, 'a) act \<Rightarrow> bool" where
  "leaves_records recs good m \<longleftrightarrow> keeps (\<lambda>r t. recs (rg_world t) = recs (rg_world r) \<and> good (rg_world t) = good (rg_world r)) m"

definition quiet_provider :: "('w \<Rightarrow> string \<Rightarrow> sandbox_record option) \<Rightarrow> ('w \<Rightarrow> bool) \<Rightarrow> 'w sandbox_provider \<Rightarrow> bool" where
  "quiet_provider recs good p \<longleftrightarrow> (\<forall>s i. leaves_records recs good (pv_open p s i) \<and> leaves_records recs good (pv_attach p s i))
     \<and> (\<forall>s i r sb. fst (pv_attach p s i r) = Inr sb \<longrightarrow> ls_id sb = i)"

definition quiet_backends :: "('w \<Rightarrow> string \<Rightarrow> sandbox_record option) \<Rightarrow> ('w \<Rightarrow> bool) \<Rightarrow> 'w registry_env \<Rightarrow> bool" where
  "quiet_backends recs good e \<longleftrightarrow> list_all (quiet_provider recs good) (dvalues (re_providers e))"

abbreviation registry_store ::
  "'w registry_env \<Rightarrow> ('w \<Rightarrow> string \<Rightarrow> sandbox_record option) \<Rightarrow> ('w \<Rightarrow> bool) \<Rightarrow> (sandbox_spec \<Rightarrow> bool) \<Rightarrow> bool" where
  "registry_store e recs good sane \<equiv>
     sandbox_store (re_get e) (re_claim e) (re_forget e) (\<lambda>r. recs (rg_world r)) (\<lambda>r. good (rg_world r)) sane"

definition pass_done ::
  "'w registry_env \<Rightarrow> ('w \<Rightarrow> string \<Rightarrow> sandbox_record option) \<Rightarrow> string \<Rightarrow> sandbox_spec option
     \<Rightarrow> py_error + live_sandbox option \<Rightarrow> 'w registry \<Rightarrow> bool" where
  "pass_done e recs i spec res t \<longleftrightarrow> (case res of
      Inl x \<Rightarrow> True
    | Inr None \<Rightarrow> False
    | Inr (Some sb) \<Rightarrow> (\<exists>rec. recs (rg_world t) i = Some rec \<and> sr_provider_id rec = ls_id sb
        \<and> pred_option (\<lambda>s. spec_text (re_floats e) (sr_spec rec) = spec_text (re_floats e) s) spec)
        \<and> map_option vf_sandbox (dget (rg_live t) i) = Some sb)"

lemma keep_handle_done:
  assumes "recs (rg_world r) i = Some rec" and "sr_provider_id rec = ls_id sb"
    and "pred_option (\<lambda>s. spec_text (re_floats e) (sr_spec rec) = spec_text (re_floats e) s) spec"
  shows "ensures (bnd (keep_handle e i sb used) (\<lambda>sb. ret (Some sb))) r (pass_done e recs i spec)"
  using assms by (simp add: ensures_bnd keep_handle_ensures ensures_ret pass_done_def)

lemma use_attached_done:
  assumes st: "registry_store e recs good sane" and g: "good (rg_world r)" and sane: "pred_option sane spec"
    and rec: "recs (rg_world r) i = Some rec" "sr_provider_id rec = ls_id sb"
  shows "ensures (use_attached e i spec used rec sb) r (pass_done e recs i spec)"
proof (cases "\<exists>s. spec = Some s \<and> spec_text (re_floats e) s \<noteq> spec_text (re_floats e) (sr_spec rec)")
  case True
  then obtain s where s: "spec = Some s" "spec_text (re_floats e) s \<noteq> spec_text (re_floats e) (sr_spec rec)" by blast
  with sane have "sane s" by simp
  from sandbox_store.claim_swaps [OF st g this, of i "Some (sr_provider_id rec)" "sr_provider_id rec"] rec
  obtain t where t: "re_claim e i (Some (sr_provider_id rec)) (sr_provider_id rec) s r = (Inr (recs (rg_world t) i), t)"
    "recs (rg_world t) i = Some \<lparr>sr_sandbox_id = i, sr_provider_id = ls_id sb, sr_spec = s\<lparr>sx_image := None\<rparr>\<rparr>"
    by (auto split: if_splits)
  then have "use_attached e i spec used rec sb r = bnd (keep_handle e i sb used) (\<lambda>sb. ret (Some sb)) t"
    using s rec by (simp add: use_attached_def bnd_def holds_sandbox_def)
  moreover have "ensures (bnd (keep_handle e i sb used) (\<lambda>sb. ret (Some sb))) t (pass_done e recs i spec)"
    using t(2) s by (intro keep_handle_done) auto
  ultimately show ?thesis by (simp add: ensures_def)
next
  case False
  then have "use_attached e i spec used rec sb = bnd (keep_handle e i sb used) (\<lambda>sb. ret (Some sb))"
    by (auto simp: use_attached_def split: option.split)
  with False rec show ?thesis by (cases spec) (auto intro: keep_handle_done)
qed

lemma open_anew_done:
  assumes st: "registry_store e recs good sane" and g: "good (rg_world r)" and "quiet_provider recs good p"
    and "sane used" and x: "map_option sr_provider_id (recs (rg_world r) i) = x" and "spec \<noteq> None \<Longrightarrow> spec = Some used"
  shows "ensures (open_anew e p i spec used x) r (pass_done e recs i spec)"
proof -
  obtain res t where o: "pv_open p used i r = (res, t)" by fastforce
  with assms(3) g have t: "recs (rg_world t) = recs (rg_world r)" "good (rg_world t)"
    by (auto simp: quiet_provider_def leaves_records_def keeps_def) (metis snd_conv)+
  show ?thesis
  proof (cases res)
    case (Inr sb)
    from sandbox_store.claim_swaps [OF st t(2) assms(4), of i x "ls_id sb"] x t(1)
    obtain u where u: "re_claim e i x (ls_id sb) used t = (Inr (recs (rg_world u) i), u)"
      "recs (rg_world u) i = Some \<lparr>sr_sandbox_id = i, sr_provider_id = ls_id sb, sr_spec = used\<lparr>sx_image := None\<rparr>\<rparr>"
      by (auto split: if_splits)
    then have "open_anew e p i spec used x r = bnd (keep_handle e i sb used) (\<lambda>sb. ret (Some sb)) u"
      by (simp add: open_anew_def bnd_def o Inr claim_opened_def holds_sandbox_def)
    moreover have "ensures (bnd (keep_handle e i sb used) (\<lambda>sb. ret (Some sb))) u (pass_done e recs i spec)"
      using u(2) assms(6) by (intro keep_handle_done) (cases spec; auto)+
    ultimately show ?thesis by (simp add: ensures_def)
  qed (simp add: ensures_def open_anew_def bnd_def o pass_done_def)
qed

lemma attach_live_records:
  assumes "quiet_provider recs good p" and "attach_live p s pid r = (res, t)"
  shows "recs (rg_world t) = recs (rg_world r)" and "good (rg_world t) = good (rg_world r)"
    and "res = Inr (Some sb) \<Longrightarrow> ls_id sb = pid"
proof -
  obtain x u where a: "pv_attach p s pid r = (x, u)" by fastforce
  with assms(1) have k: "recs (rg_world u) = recs (rg_world r)" "good (rg_world u) = good (rg_world r)"
      "\<And>sb. x = Inr sb \<Longrightarrow> ls_id sb = pid"
    by (auto simp: quiet_provider_def leaves_records_def keeps_def) (metis fst_conv snd_conv)+
  from assms(2) a have "u = t" "\<And>sb. res = Inr (Some sb) \<Longrightarrow> x = Inr sb"
    by (auto simp: attach_live_def split: sum.splits py_error.splits)
  with k show "recs (rg_world t) = recs (rg_world r)" and "good (rg_world t) = good (rg_world r)"
    and "res = Inr (Some sb) \<Longrightarrow> ls_id sb = pid" by auto
qed

lemma resolve_with_done:
  assumes st: "registry_store e recs good sane" and g: "good (rg_world r)" and q: "quiet_provider recs good p"
    and "pred_option sane spec" and "sane used" and "spec \<noteq> None \<Longrightarrow> spec = Some used"
  shows "ensures (resolve_with e p i spec used (recs (rg_world r) i)) r (pass_done e recs i spec)"
proof (cases "recs (rg_world r) i")
  case (Some rec)
  obtain res t where a: "attach_live p used (sr_provider_id rec) r = (res, t)" by fastforce
  note t = attach_live_records [where p = p and recs = recs and good = good, OF q a]
  have "ensures (case live of Some sb \<Rightarrow> use_attached e i spec used rec sb
      | None \<Rightarrow> open_anew e p i spec used (Some (sr_provider_id rec))) t (pass_done e recs i spec)"
    if "res = Inr live" for live
    using that t g Some use_attached_done [OF st _ assms(4), of t i rec] open_anew_done [OF st _ q assms(5), of t i _ spec] assms(6)
    by (cases live) simp_all
  then show ?thesis
    by (cases res) (simp_all add: resolve_with_def Some ensures_def bnd_def a pass_done_def)
next
  case None
  then show ?thesis using open_anew_done [OF st g q assms(5), of i None spec] assms(6) by (simp add: resolve_with_def)
qed

lemma resolve_pass_done:
  assumes st: "registry_store e recs good sane" and g: "good (rg_world r)" and q: "quiet_backends recs good e"
    and "pred_option sane spec" and "pred_option (\<lambda>rec. sane (sr_spec rec)) (recs (rg_world r) i)"
  shows "ensures (resolve_pass e i spec) r (pass_done e recs i spec)"
proof (cases "spec_used spec (recs (rg_world r) i)")
  case None
  then show ?thesis
    by (simp add: resolve_pass_def ensures_def bnd_def sandbox_store.get_reads [OF st g] raise_def pass_done_def)
next
  case (Some used)
  with assms(4,5) have u: "sane used" "spec \<noteq> None \<Longrightarrow> spec = Some used"
    by (auto simp: spec_used_def split: option.splits)
  show ?thesis
  proof (cases "provider_for e (sx_backend used)")
    case (Inr p)
    with q have "quiet_provider recs good p"
      using map_of_SomeD [of "re_providers e" "sx_backend used" p]
      by (force simp: quiet_backends_def provider_for_def list_all_iff split: option.splits)
    from resolve_with_done [OF st g this assms(4) u] Inr Some show ?thesis
      by (simp add: resolve_pass_def ensures_def bnd_def sandbox_store.get_reads [OF st g] from_res_def readS_def)
  qed (simp add: resolve_pass_def ensures_def bnd_def sandbox_store.get_reads [OF st g] Some from_res_def readS_def pass_done_def)
qed

text \<open>A resolve nobody interferes with ends at its first pass: over any store that keeps the contract of
  \<open>SandboxStore\<close> and backends that leave its records alone, and what it returns, if it returns, is the
  sandbox the store then records for the id, under the caller's spec when it gave one, and the handle kept.\<close>

theorem resolve_undisturbed:
  assumes "registry_store e recs good sane" and "good (rg_world r)" and "quiet_backends recs good e"
    and "pred_option sane spec" and "pred_option (\<lambda>rec. sane (sr_spec rec)) (recs (rg_world r) i)"
  shows "\<exists>res t. resolve (Suc n) e i spec r = Some (res, t) \<and> (\<forall>sb. res = Inr sb \<longrightarrow>
     map_option vf_sandbox (dget (rg_live t) i) = Some sb
     \<and> (\<exists>rec. recs (rg_world t) i = Some rec \<and> sr_provider_id rec = ls_id sb
        \<and> pred_option (\<lambda>s. spec_text (re_floats e) (sr_spec rec) = spec_text (re_floats e) s) spec))"
proof -
  obtain x t where p: "resolve_pass e i spec r = (x, t)" by fastforce
  have "pass_done e recs i spec x t" by (rule ensuresD [OF resolve_pass_done [OF assms] p])
  with p show ?thesis by (auto simp: pass_done_def split: sum.splits option.splits)
qed

section \<open>A registry over the store in memory\<close>

record sample_world =
  sw_table :: sandbox_table
  sw_opened :: "live_sandbox list"
  sw_asked :: "live_sandbox list"

definition on_table :: "(sandbox_table, 'a) act \<Rightarrow> (sample_world registry, 'a) act" where
  "on_table m r = (case m (sw_table (rg_world r)) of (x, t) \<Rightarrow> (x, r\<lparr>rg_world := (rg_world r)\<lparr>sw_table := t\<rparr>\<rparr>))"

definition sample_provider :: "sample_world sandbox_provider" where
  "sample_provider = \<lparr>pv_open = (\<lambda>s i r. let sb = \<lparr>ls_id = ''m'', ls_backend = sx_backend s\<rparr> in
       (Inr sb, r\<lparr>rg_world := (rg_world r)\<lparr>sw_opened := sb # sw_opened (rg_world r)\<rparr>\<rparr>)),
     pv_attach = (\<lambda>s i r. (if i = ''b'' then Inr \<lparr>ls_id = i, ls_backend = sx_backend s\<rparr> else Inl (KeyError i), r))\<rparr>"

definition sample_close :: "live_sandbox \<Rightarrow> (sample_world registry, unit) act" where
  "sample_close sb r = (Inr (), r\<lparr>rg_world := (rg_world r)\<lparr>sw_asked := sb # sw_asked (rg_world r)\<rparr>\<rparr>)"

definition sample_env :: "sample_world registry_env" where
  "sample_env = \<lparr>re_providers = [(''local'', sample_provider)], re_get = (\<lambda>i. on_table (mem_get i)),
     re_claim = (\<lambda>i x p s. on_table (mem_claim i x p s)), re_forget = (\<lambda>i. on_table (mem_forget i)),
     re_close = sample_close, re_cancel = (\<lambda>i. ret ()), re_now = (\<lambda>_. 0), re_floats = three_floats\<rparr>"

definition sample_start :: "sample_world registry" where
  "sample_start = fresh_registry \<lparr>sw_table = [], sw_opened = [], sw_asked = []\<rparr>"

lemma on_table_store: "registry_store sample_env (\<lambda>w. dget (sw_table w)) (\<lambda>_. True) (\<lambda>_. True)"
  by unfold_locales (auto simp: sample_env_def on_table_def mem_get_def mem_claim_def mem_forget_def act_simps fun_eq_iff)

lemma sample_quiet: "quiet_backends (\<lambda>w. dget (sw_table w)) (\<lambda>_. True) sample_env"
  by (simp add: quiet_backends_def sample_env_def quiet_provider_def leaves_records_def keeps_def sample_provider_def Let_def)

theorem resolve_undisturbed_witness:
  "\<exists>t. resolve 1 sample_env ''s'' (Some default_spec) sample_start = Some (Inr \<lparr>ls_id = ''m'', ls_backend = ''local''\<rparr>, t)
     \<and> map_option vf_sandbox (dget (rg_live t) ''s'') = Some \<lparr>ls_id = ''m'', ls_backend = ''local''\<rparr>"
proof -
  have "fst (the (resolve 1 sample_env ''s'' (Some default_spec) sample_start)) = Inr \<lparr>ls_id = ''m'', ls_backend = ''local''\<rparr>"
    by (simp add: resolve_pass_def sample_env_def sample_start_def fresh_registry_def on_table_def mem_get_def mem_claim_def
        act_simps Let_def from_res_def spec_used_def provider_for_def default_spec_def resolve_with_def open_anew_def sample_provider_def
        claim_opened_def holds_sandbox_def keep_handle_def)
  with resolve_undisturbed [OF on_table_store _ sample_quiet, where r = sample_start and spec = "Some default_spec" and i = "''s''" and n = 0]
  show ?thesis by (auto simp: pred_option_def simp del: resolve.simps)
qed

lemma sample_watched: "watched (sample_env\<lparr>re_claim := c\<rparr>) (\<lambda>w. set (sw_opened w)) (\<lambda>w. set (sw_asked w))"
  if "\<And>i x p s. keeps (quiet (\<lambda>w. set (sw_opened w)) (\<lambda>w. set (sw_asked w))) (c i x p s)"
  using that
  by (auto simp: watched_def sample_env_def provider_watched_def opens_watched_def closes_watched_def keeps_def ensures_def quiet_def
      sample_provider_def sample_close_def on_table_def mem_get_def mem_forget_def act_simps Let_def)

theorem resolve_leaks_nothing_witness:
  "\<exists>t. resolve 1 (sample_env\<lparr>re_claim := \<lambda>i x p s. raise CancelledError\<rparr>) ''s'' (Some default_spec) sample_start
       = Some (Inl CancelledError, t)
     \<and> \<lparr>ls_id = ''m'', ls_backend = ''local''\<rparr> \<in> set (sw_asked (rg_world t))"
proof -
  let ?e = "sample_env\<lparr>re_claim := \<lambda>i x p s. raise CancelledError\<rparr>" and ?sb = "\<lparr>ls_id = ''m'', ls_backend = ''local''\<rparr>"
  obtain t where t: "resolve 1 ?e ''s'' (Some default_spec) sample_start = Some (Inl CancelledError, t)"
    "?sb \<in> set (sw_opened (rg_world t)) - set (sw_opened (rg_world sample_start))"
    by (simp add: resolve_pass_def sample_env_def sample_start_def fresh_registry_def on_table_def mem_get_def
        act_simps Let_def from_res_def spec_used_def provider_for_def default_spec_def resolve_with_def open_anew_def
        sample_provider_def claim_opened_def drop_sandbox_def sample_close_def)
  have "watched ?e (\<lambda>w. set (sw_opened w)) (\<lambda>w. set (sw_asked w))"
    by (rule sample_watched) (rule qt.keeps_raise)
  moreover have "claims_only_cancelled ?e" by (simp add: claims_only_cancelled_def raise_def)
  ultimately have "?sb \<in> set (sw_asked (rg_world t))"
    by (rule resolve_leaks_nothing [OF _ _ t]) simp
  with t(1) show ?thesis by blast
qed

theorem close_asks_all_witness:
  "\<exists>t. close_sandbox sample_env ''s'' (sample_start\<lparr>rg_live := [(''s'', \<lparr>vf_sandbox = \<lparr>ls_id = ''a'', ls_backend = ''local''\<rparr>, vf_at = 0\<rparr>)],
        rg_world := \<lparr>sw_table = [(''s'', \<lparr>sr_sandbox_id = ''s'', sr_provider_id = ''b'', sr_spec = default_spec\<rparr>)], sw_opened = [], sw_asked = []\<rparr>\<rparr>)
       = (Inr (), t)
     \<and> {\<lparr>ls_id = ''a'', ls_backend = ''local''\<rparr>, \<lparr>ls_id = ''b'', ls_backend = ''local''\<rparr>} \<subseteq> set (sw_asked (rg_world t))"
proof -
  let ?rec = "\<lparr>sr_sandbox_id = ''s'', sr_provider_id = ''b'', sr_spec = default_spec\<rparr>"
  let ?r = "sample_start\<lparr>rg_live := [(''s'', \<lparr>vf_sandbox = \<lparr>ls_id = ''a'', ls_backend = ''local''\<rparr>, vf_at = 0\<rparr>)],
        rg_world := \<lparr>sw_table = [(''s'', ?rec)], sw_opened = [], sw_asked = []\<rparr>\<rparr>"
  let ?r3 = "?r\<lparr>rg_world := \<lparr>sw_table = [], sw_opened = [], sw_asked = []\<rparr>\<rparr>"
  have "sample_env\<lparr>re_claim := re_claim sample_env\<rparr> = sample_env" by simp
  then have "watched sample_env (\<lambda>w. set (sw_opened w)) (\<lambda>w. set (sw_asked w))"
    using sample_watched [of "re_claim sample_env"]
    by (simp add: sample_env_def on_table_def mem_claim_def keeps_def quiet_def act_simps)
  moreover have "never_cancelled sample_env"
    by (simp add: never_cancelled_def sample_env_def sample_close_def sample_provider_def)
  moreover have "re_cancel sample_env ''s'' ?r = (Inr (), ?r)" "re_get sample_env ''s'' ?r = (Inr (Some ?rec), ?r)"
    "re_forget sample_env ''s'' ?r = (Inr (), ?r3)"
    by (simp_all add: sample_env_def on_table_def mem_get_def mem_forget_def act_simps)
  ultimately obtain t where "close_sandbox sample_env ''s'' ?r = (Inr (), t)"
    "set (held_now ''s'' ?r3) \<subseteq> set (sw_asked (rg_world t))"
    "fst (pv_attach sample_provider default_spec ''b'' (forget_handles ''s'' ?r3)) = Inr \<lparr>ls_id = ''b'', ls_backend = ''local''\<rparr> \<Longrightarrow>
     ''b'' \<notin> ls_id ` set (held_now ''s'' ?r3) \<Longrightarrow> \<lparr>ls_id = ''b'', ls_backend = ''local''\<rparr> \<in> set (sw_asked (rg_world t))"
    using close_asks_all [of sample_env "\<lambda>w. set (sw_opened w)" "\<lambda>w. set (sw_asked w)" "''s''" ?r ?r "Some ?rec" ?r ?r3 ?rec
        sample_provider "\<lparr>ls_id = ''b'', ls_backend = ''local''\<rparr>"]
    by (auto simp: sample_env_def provider_for_def default_spec_def)
  then show ?thesis by (auto simp: held_now_def sample_provider_def default_spec_def)
qed

text \<open>A claim that raises anything but a cancellation leaves the sandbox just opened running: it is neither
  returned nor asked to close.\<close>

lemma claim_error_leaks:
  "\<exists>t. resolve 1 (sample_env\<lparr>re_claim := \<lambda>i x p s. raise (OtherException ''OperationalError'' ''lost'')\<rparr>) ''s'' (Some default_spec)
       sample_start = Some (Inl (OtherException ''OperationalError'' ''lost''), t)
     \<and> sw_opened (rg_world t) = [\<lparr>ls_id = ''m'', ls_backend = ''local''\<rparr>] \<and> sw_asked (rg_world t) = []"
  by (simp add: resolve_pass_def sample_env_def sample_start_def fresh_registry_def on_table_def mem_get_def
      act_simps Let_def from_res_def spec_used_def provider_for_def default_spec_def resolve_with_def open_anew_def
      sample_provider_def claim_opened_def)

end
