(* ===== verification/Json_Round_Trip.thy ===== *)
theory Json_Round_Trip
  imports Json
begin

text \<open>
  What \<open>json.dumps\<close> writes, \<open>json.loads\<close> reads back: the printer and the parser of \<open>Json\<close> are inverse on
  the values a Python program can hold, for any text that follows a value.
\<close>

declare scan.simps [simp del] scan_elems.simps [simp del] scan_members.simps [simp del] scan_str.simps [simp del]

section \<open>Strings\<close>

lemma of_char_bound: "(of_char c :: nat) < 256"
  by (simp add: of_char_def) 

lemma hex_val_char: "d < 16 \<Longrightarrow> hex_val (hex_char d) = Some d"
  by (auto simp: hex_val_def hex_char_def Let_def of_char_of)

lemma scan_str_plain:
  assumes "c \<noteq> CHR 0x22" and "c \<noteq> CHR 0x5C" and "32 \<le> (of_char c :: nat)"
  shows "scan_str acc (c # s) = scan_str (c # acc) s"
  using assms by (simp add: scan_str.simps)

lemma scan_str_u: "hex_val x = Some h \<Longrightarrow> hex_val y = Some l \<Longrightarrow>
   scan_str acc (CHR 0x5C # CHR ''u'' # CHR ''0'' # CHR ''0'' # x # y # s) = scan_str (char_of (16 * h + l) # acc) s"
proof -
  have "hex_val (CHR ''0'') = Some 0" by (simp add: hex_val_def)
  then show "hex_val x = Some h \<Longrightarrow> hex_val y = Some l \<Longrightarrow> ?thesis" by (simp add: scan_str.simps(2))
qed

lemma scan_str_esc: "scan_str acc (esc_char c @ s) = scan_str (c # acc) s"
proof -
  have h: "of_char c div 16 < (16 :: nat)" "of_char c mod 16 < (16 :: nat)"
    using of_char_bound [of c] by (auto intro: less_mult_imp_div_less)
  have "char_of (16 * (of_char c div 16) + of_char c mod 16 :: nat) = c" by simp
  then show ?thesis
    using scan_str_u [OF hex_val_char hex_val_char, OF h]
    by (auto simp: esc_char_def scan_str_plain scan_str.simps(2))
qed

lemma scan_str_dumped: "scan_str acc (concat (map esc_char s) @ CHR 0x22 # r) = Some (rev acc @ s, r)"
  by (induction s arbitrary: acc) (simp_all add: scan_str_esc scan_str.simps(2))

section \<open>Numbers\<close>

lemma digit_char_digit: "d < 10 \<Longrightarrow> is_digit (digit_char d)" and digit_val_char: "d < 10 \<Longrightarrow> digit_val (digit_char d) = d"
  by (simp_all add: is_digit_def digit_val_def digit_char_def of_char_of)

lemma nat_digits_nonempty [simp]: "nat_digits n \<noteq> []"
  by (subst nat_digits.simps) simp

lemma nat_digits_all: "list_all is_digit (nat_digits n)"
proof (induction n rule: nat_digits.induct)
  case (1 n)
  show ?case by (subst nat_digits.simps) (use 1 in \<open>auto simp: digit_char_digit\<close>)
qed

lemma digits_val_append: "digits_val acc (s @ t) = digits_val (digits_val acc s) t"
  by (induction s arbitrary: acc) simp_all

lemma digits_val_nat: "digits_val 0 (nat_digits n) = n"
proof (induction n rule: nat_digits.induct)
  case (1 n)
  show ?case by (subst nat_digits.simps) (use 1 in \<open>auto simp: digits_val_append digit_val_char\<close>)
qed

lemma zero_char: "char_of (48 :: nat) = CHR ''0''"
proof -
  have "of_char (CHR ''0'') = (48 :: nat)" by simp
  then show ?thesis by (metis char_of_char)
qed

lemma nat_digits_zero: "n \<noteq> 0 \<Longrightarrow> hd (nat_digits n) \<noteq> CHR ''0''"
proof (induction n rule: nat_digits.induct)
  case (1 n)
  show ?case
  proof (cases "n < 10")
    case True
    then have "of_char (digit_char n) = 48 + n" by (simp add: digit_char_def of_char_of)
    with 1(2) have "digit_char n \<noteq> CHR ''0''" by auto
    with True show ?thesis by (subst nat_digits.simps) simp
  next
    case False
    with 1 show ?thesis by (subst nat_digits.simps) simp
  qed
qed

lemma nat_digits_0: "nat_digits 0 = ''0''"
  by (subst nat_digits.simps) (simp add: digit_char_def zero_char)

text \<open>What may follow a value in a document.\<close>

definition stops :: "string \<Rightarrow> bool" where
  "stops r \<longleftrightarrow> r = [] \<or> hd r = CHR '','' \<or> hd r = CHR '']'' \<or> hd r = CHR 0x7D"

lemma stops_no_digit: "stops r \<Longrightarrow> takeWhile is_digit r = [] \<and> dropWhile is_digit r = r"
  by (cases r) (auto simp: stops_def is_digit_def)

lemma stops_frac: "stops r \<Longrightarrow> scan_frac r = ([], r)" and stops_exp: "stops r \<Longrightarrow> scan_exp r = ([], r)"
  by (cases r; auto simp: stops_def scan_frac_def scan_exp_def)+

lemma digits_then: "list_all is_digit ds \<Longrightarrow> stops r \<Longrightarrow> takeWhile is_digit (ds @ r) = ds \<and> dropWhile is_digit (ds @ r) = r"
  using stops_no_digit by (simp add: list_all_iff takeWhile_append2 dropWhile_append2)

lemma scan_digits:
  assumes "stops r"
  shows "scan_num (nat_digits n @ r) = Some (JInt (int n), r)" and "scan_num (CHR ''-'' # nat_digits n @ r) = Some (JInt (- int n), r)"
proof -
  have split: "scan_int (nat_digits n @ r) = (nat_digits n, r)"
  proof (cases "n = 0")
    case True
    then show ?thesis by (simp add: nat_digits_0 scan_int_def)
  next
    case False
    from digits_then [OF nat_digits_all assms, of n] nat_digits_zero [OF False] show ?thesis
      by (cases "nat_digits n") (auto simp: scan_int_def)
  qed
  obtain c cs where n: "nat_digits n = c # cs" by (cases "nat_digits n") auto
  with nat_digits_all [of n] have c: "c \<noteq> CHR ''-''" by (auto simp: is_digit_def)
  have v: "digits_val 0 (c # cs) = n" using digits_val_nat [of n] n by simp
  note split = split [unfolded n append_Cons]
  from split c show "scan_num (nat_digits n @ r) = Some (JInt (int n), r)"
    unfolding n scan_num_def by (simp add: stops_frac [OF assms] stops_exp [OF assms] v del: digits_val.simps)
  from split show "scan_num (CHR ''-'' # nat_digits n @ r) = Some (JInt (- int n), r)"
    unfolding n scan_num_def by (simp add: stops_frac [OF assms] stops_exp [OF assms] v del: digits_val.simps)
qed

lemma scan_int_str: "stops r \<Longrightarrow> scan_num (int_str i @ r) = Some (JInt i, r)"
  by (cases "i < 0") (simp_all add: int_str_def scan_digits)

text \<open>A float's text as \<open>float.__repr__\<close> writes it: a number with a fraction or an exponent, or one of the
  three that are not finite.\<close>

definition float_ok :: "string \<Rightarrow> bool" where
  "float_ok t \<longleftrightarrow> t \<in> {''NaN'', ''Infinity'', ''-Infinity''} \<or> scan_num t = Some (JFloat t, [])"

lemma digits_append:
  "stops r \<Longrightarrow> takeWhile is_digit (t @ r) = takeWhile is_digit t" "stops r \<Longrightarrow> dropWhile is_digit (t @ r) = dropWhile is_digit t @ r"
  using stops_no_digit [of r] by (induction t) auto

lemma scan_int_append: "stops r \<Longrightarrow> scan_int (t @ r) = map_prod id (\<lambda>u. u @ r) (scan_int t)"
  using stops_no_digit [of r] by (cases t) (auto simp: scan_int_def digits_append stops_def split: list.splits)

lemma scan_frac_append: "stops r \<Longrightarrow> scan_frac (t @ r) = map_prod id (\<lambda>u. u @ r) (scan_frac t)"
  by (cases t) (auto simp: scan_frac_def digits_append stops_frac [unfolded scan_frac_def] split: list.splits)

lemma scan_sign_append: "stops r \<Longrightarrow> scan_sign (t @ r) = map_prod id (\<lambda>u. u @ r) (scan_sign t)"
  by (cases t; cases r) (auto simp: scan_sign_def stops_def)

lemma scan_exp_append: "stops r \<Longrightarrow> scan_exp (t @ r) = map_prod id (\<lambda>u. u @ r) (scan_exp t)"
  by (cases t) (auto simp: scan_exp_def scan_sign_append digits_append stops_exp [unfolded scan_exp_def] Let_def
      split: list.splits prod.splits)

lemma scan_float:
  assumes "scan_num t = Some (JFloat t, [])" and "stops r"
  shows "scan_num (t @ r) = Some (JFloat t, r)"
proof -
  obtain neg u where nu: "(case t of c # cs \<Rightarrow> (if c = CHR ''-'' then (True, cs) else (False, t)) | [] \<Rightarrow> (False, t)) = (neg, u)"
    by fastforce
  obtain ds v where ds: "scan_int u = (ds, v)" by fastforce
  obtain fr x where fr: "scan_frac v = (fr, x)" by fastforce
  obtain ex y where ex: "scan_exp x = (ex, y)" by fastforce
  have "t \<noteq> []" using assms(1) by (auto simp: scan_num_def scan_int_def scan_frac_def scan_exp_def)
  with nu have "(case t @ r of c # cs \<Rightarrow> (if c = CHR ''-'' then (True, cs) else (False, t @ r)) | [] \<Rightarrow> (False, t @ r)) = (neg, u @ r)"
    by (cases t) (auto split: if_splits)
  with nu assms show ?thesis
    by (auto simp: scan_num_def scan_int_append ds scan_frac_append fr scan_exp_append ex split: if_splits)
qed

section \<open>Values\<close>

fun json_ok :: "json \<Rightarrow> bool" where
  "json_ok (JFloat t) = float_ok t"
| "json_ok (JList js) = list_all json_ok js"
| "json_ok (JObj d) = (distinct (map fst d) \<and> list_all (\<lambda>e. json_ok (snd e)) d)"
| "json_ok _ = True"

definition starts_value :: "char \<Rightarrow> bool" where
  "starts_value c \<longleftrightarrow> \<not> is_ws c \<and> c \<noteq> CHR '']'' \<and> c \<noteq> CHR 0x7D \<and> c \<noteq> CHR '',''"

text \<open>A number starts with a digit, or with a minus sign and a digit.\<close>

fun number_text :: "string \<Rightarrow> bool" where
  "number_text (c # d # s) = (is_digit c \<or> (c = CHR ''-'' \<and> is_digit d))"
| "number_text [c] = is_digit c"
| "number_text [] = False"

lemma number_starts: "number_text (c # s) \<Longrightarrow> starts_value c"
  by (cases s) (auto simp: starts_value_def is_ws_def is_digit_def)

lemma number_append: "number_text s \<Longrightarrow> number_text (s @ r)"
  by (cases s rule: number_text.cases; cases r) auto

lemma digit_not:
  "is_digit c \<Longrightarrow> c \<noteq> CHR 0x22 \<and> c \<noteq> CHR 0x7B \<and> c \<noteq> CHR ''['' \<and> c \<noteq> CHR ''n'' \<and> c \<noteq> CHR ''t'' \<and> c \<noteq> CHR ''f''
     \<and> c \<noteq> CHR ''N'' \<and> c \<noteq> CHR ''I'' \<and> c \<noteq> CHR ''-''"
  by (auto simp: is_digit_def)

lemma scan_digit_first: "is_digit c \<Longrightarrow> scan (Suc n) (c # s) = scan_num (c # s)"
  using digit_not [of c] by (simp add: scan.simps(2))

lemma scan_minus_first: "is_digit d \<Longrightarrow> scan (Suc n) (CHR ''-'' # d # s) = scan_num (CHR ''-'' # d # s)"
  using digit_not [of d] by (auto simp: scan.simps(2))

lemma scan_number: "number_text s \<Longrightarrow> scan (Suc n) s = scan_num s"
  by (cases s rule: number_text.cases) (auto simp: scan_digit_first scan_minus_first)

lemma number_digits: "number_text (nat_digits n)" "number_text (CHR ''-'' # nat_digits n)"
  using nat_digits_all [of n] by (cases "nat_digits n" rule: number_text.cases; auto)+

lemma number_float:
  assumes "scan_num t = Some (j, [])"
  shows "number_text t"
proof -
  have digit: "is_digit (hd u)" if "fst (scan_int u) \<noteq> []" for u
    using that by (cases u) (auto simp: scan_int_def is_digit_def split: if_splits)
  have u: "u \<noteq> []" if "fst (scan_int u) \<noteq> []" for u using that by (cases u) (auto simp: scan_int_def)
  show ?thesis
  proof (cases t rule: number_text.cases)
    case (1 c d u)
    with assms digit [of t] digit [of "d # u"] show ?thesis
      by (auto simp: scan_num_def split: if_splits prod.splits)
  next
    case (2 c)
    with assms digit [of t] u [of "[]"] show ?thesis by (auto simp: scan_num_def split: if_splits prod.splits)
  next
    case 3
    with assms u [of "[]"] show ?thesis by (auto simp: scan_num_def split: if_splits prod.splits)
  qed
qed

lemma is_ws_simps [simp]:
  "\<not> is_ws (CHR '']'')" "\<not> is_ws (CHR '','')" "\<not> is_ws (CHR 0x7D)" "\<not> is_ws (CHR '':'')" "\<not> is_ws (CHR 0x22)" "is_ws (CHR '' '')"
  by (simp_all add: is_ws_def)

lemma dumps_first:
  assumes "json_ok j"
  obtains c cs where "json_dumps j = c # cs" and "starts_value c"
proof (cases j)
  case (JBool b)
  with that show ?thesis by (cases b) (simp_all add: starts_value_def is_ws_def)
next
  case (JInt i)
  from number_digits [of "nat i"] number_digits [of "nat (- i)"] have "number_text (int_str i)" by (simp add: int_str_def)
  with that JInt number_starts show ?thesis by (cases "int_str i") auto
next
  case (JFloat t)
  with assms consider "t = ''NaN''" | "t = ''Infinity''" | "t = ''-Infinity''" | "number_text t"
    by (auto simp: float_ok_def dest: number_float)
  then show ?thesis
  proof cases
    case 4
    with that JFloat number_starts show ?thesis by (cases t) auto
  qed (use that JFloat in \<open>simp_all add: starts_value_def is_ws_def\<close>)
qed (use that in \<open>auto simp: starts_value_def is_ws_def dumps_str_def split: if_splits\<close>)

lemma skip_ws_value: "json_ok j \<Longrightarrow> skip_ws (json_dumps j @ s) = json_dumps j @ s"
  by (erule dumps_first) (simp add: starts_value_def)

lemma skip_ws_elems:
  assumes "list_all json_ok js" and "js \<noteq> []"
  shows "skip_ws (join_with '', '' (map json_dumps js) @ s) = join_with '', '' (map json_dumps js) @ s"
  using assms by (cases js; cases "tl js") (auto simp: skip_ws_value)

definition reads_back :: "json \<Rightarrow> bool" where
  "reads_back j \<longleftrightarrow> (\<forall>n r. stops r \<longrightarrow> 2 * length (json_dumps j) \<le> n \<longrightarrow> scan n (json_dumps j @ r) = Some (j, r))"

lemma reads_backD: "reads_back j \<Longrightarrow> stops r \<Longrightarrow> 2 * length (json_dumps j) \<le> n \<Longrightarrow> scan n (json_dumps j @ r) = Some (j, r)"
  by (simp add: reads_back_def)

lemma stops_simps [simp]: "stops []" "stops (CHR '','' # r)" "stops (CHR '']'' # r)" "stops (CHR 0x7D # r)"
  by (simp_all add: stops_def)

lemma elems_read_back:
  assumes "js \<noteq> []" and "list_all json_ok js" and "\<And>j. j \<in> set js \<Longrightarrow> reads_back j"
    and "2 * length (join_with '', '' (map json_dumps js)) < n"
  shows "scan_elems n acc (join_with '', '' (map json_dumps js) @ CHR '']'' # r) = Some (JList (rev acc @ js), r)"
  using assms
proof (induction js arbitrary: acc n rule: induct_list012)
  case (2 j)
  then obtain m where m: "n = Suc m" by (cases n) auto
  with 2 show ?case by (simp add: scan_elems.simps reads_backD)
next
  case (3 j k js)
  then obtain m where m: "n = Suc m" by (cases n) auto
  let ?rest = "join_with '', '' (map json_dumps (k # js)) @ CHR '']'' # r"
  from 3(3-6) m have "scan m (json_dumps j @ CHR '','' # CHR '' '' # ?rest) = Some (j, CHR '','' # CHR '' '' # ?rest)"
    by (intro reads_backD) auto
  moreover have "skip_ws (CHR '' '' # ?rest) = ?rest"
    using skip_ws_elems [of "k # js" "CHR '']'' # r"] 3(4) by (simp add: is_ws_def)
  moreover have "scan_elems m (j # acc) ?rest = Some (JList (rev (j # acc) @ k # js), r)"
    by (rule 3(2)) (use 3(4-6) m in auto)
  ultimately show ?case by (simp add: m scan_elems.simps(2))
qed simp

definition member_text :: "string \<times> json \<Rightarrow> string" where
  "member_text e = dumps_str (fst e) @ '': '' @ json_dumps (snd e)"

lemma json_dumps_obj: "json_dumps (JObj d) = CHR 0x7B # join_with '', '' (map member_text d) @ [CHR 0x7D]"
  by (simp add: member_text_def [abs_def] case_prod_beta')

lemma dset_unread: "k \<notin> fst ` set d \<Longrightarrow> dset k v d = d @ [(k, v)]"
  by (induction d) auto

lemma member_read:
  assumes "reads_back v" and "json_ok v" and "stops r" and "2 * length (json_dumps v) \<le> n"
  shows "scan_members (Suc n) acc (member_text (k, v) @ r) = (case skip_ws r of
       [] \<Rightarrow> None
     | e # es \<Rightarrow> (if e = CHR 0x7D then Some (JObj (dset k v acc), es)
                 else if e = CHR '','' then scan_members n (dset k v acc) (skip_ws es) else None))"
proof -
  have "scan_str [] (concat (map esc_char k) @ CHR 0x22 # '': '' @ json_dumps v @ r) = Some (k, '': '' @ json_dumps v @ r)"
    using scan_str_dumped [of "[]" k] by simp
  then show ?thesis
    by (simp add: member_text_def dumps_str_def scan_members.simps(2) skip_ws_value assms(2) reads_backD [OF assms(1,3,4)])
qed

lemma member_text_quote: "skip_ws (member_text e @ s) = member_text e @ s"
  by (simp add: member_text_def dumps_str_def)

lemma members_read_back:
  assumes "d \<noteq> []" and "list_all (\<lambda>e. json_ok (snd e)) d" and "\<And>e. e \<in> set d \<Longrightarrow> reads_back (snd e)"
    and "2 * length (join_with '', '' (map member_text d)) < n" and "distinct (map fst (acc @ d))"
  shows "scan_members n acc (join_with '', '' (map member_text d) @ CHR 0x7D # r) = Some (JObj (acc @ d), r)"
  using assms
proof (induction d arbitrary: acc n rule: induct_list012)
  case (2 e)
  obtain k v where e: "e = (k, v)" by (cases e)
  from 2(4) obtain m where m: "n = Suc m" by (cases n) auto
  from 2 e m member_read [of v "CHR 0x7D # r" m acc k] dset_unread [of k acc v] show ?case
    by (simp add: member_text_def)
next
  case (3 e f d)
  obtain k v where e: "e = (k, v)" by (cases e)
  from 3(6) obtain m where m: "n = Suc m" by (cases n) auto
  let ?rest = "join_with '', '' (map member_text (f # d)) @ CHR 0x7D # r"
  from 3(7) e have new: "dset k v acc = acc @ [e]" by (simp add: dset_unread)
  have "skip_ws ?rest = ?rest" using member_text_quote by (cases d) simp_all
  then have ws: "skip_ws (CHR '' '' # ?rest) = ?rest" by simp
  have len: "2 * length (json_dumps v) \<le> m" "2 * length (join_with '', '' (map member_text (f # d))) < m"
  proof -
    have "length (join_with '', '' (map member_text (e # f # d)))
        = length (member_text e) + 2 + length (join_with '', '' (map member_text (f # d)))" by simp
    moreover have "length (json_dumps v) \<le> length (member_text e)" by (simp add: e member_text_def)
    ultimately show "2 * length (json_dumps v) \<le> m" "2 * length (join_with '', '' (map member_text (f # d))) < m"
      using 3(6) m by linarith+
  qed
  have "scan_members m (acc @ [e]) ?rest = Some (JObj ((acc @ [e]) @ f # d), r)"
    by (rule 3(2)) (use 3(4,5,7) len in auto)
  moreover have "reads_back v" using 3(5) [of e] e by simp
  moreover have "json_ok v" using 3(4) e by simp
  ultimately show ?case
    using member_read [of v "CHR '','' # CHR '' '' # ?rest" m acc k] e m new ws len by simp
qed simp

lemma scan_list: "scan (Suc n) (CHR ''['' # cs) = (case skip_ws cs of
      d # ds \<Rightarrow> (if d = CHR '']'' then Some (JList [], ds) else scan_elems n [] (d # ds)) | [] \<Rightarrow> None)"
  and scan_obj: "scan (Suc n) (CHR 0x7B # cs) = (case skip_ws cs of
      d # ds \<Rightarrow> (if d = CHR 0x7D then Some (JObj [], ds) else scan_members n [] (d # ds)) | [] \<Rightarrow> None)"
  and scan_quote: "scan (Suc n) (CHR 0x22 # cs) = map_option (\<lambda>(t, r). (JStr t, r)) (scan_str [] cs)"
  by (simp_all add: scan.simps(2))

lemma scan_atoms:
  "scan (Suc n) (''null'' @ r) = Some (JNull, r)" "scan (Suc n) (''true'' @ r) = Some (JBool True, r)"
  "scan (Suc n) (''false'' @ r) = Some (JBool False, r)" "scan (Suc n) (''NaN'' @ r) = Some (JFloat ''NaN'', r)"
  "scan (Suc n) (''Infinity'' @ r) = Some (JFloat ''Infinity'', r)"
  "scan (Suc n) (''-Infinity'' @ r) = Some (JFloat ''-Infinity'', r)"
  by (simp_all add: scan.simps(2))

lemma atom_reads_back:
  assumes "json_dumps j \<noteq> []" and "\<And>m r. stops r \<Longrightarrow> scan (Suc m) (json_dumps j @ r) = Some (j, r)"
  shows "reads_back j"
  unfolding reads_back_def
proof (intro allI impI)
  fix n r assume "stops r" "2 * length (json_dumps j) \<le> n"
  with assms show "scan n (json_dumps j @ r) = Some (j, r)" by (cases n) simp_all
qed

lemma json_reads_back: "json_ok j \<Longrightarrow> reads_back j"
proof (induction j)
  case (JList js)
  show ?case
    unfolding reads_back_def
  proof (intro allI impI)
    fix n r assume n: "2 * length (json_dumps (JList js)) \<le> n" and "stops r"
    then obtain m where m: "n = Suc m" by (cases n) auto
    show "scan n (json_dumps (JList js) @ r) = Some (JList js, r)"
    proof (cases "js = []")
      case False
      with JList.prems have "skip_ws (join_with '', '' (map json_dumps js) @ CHR '']'' # r) = join_with '', '' (map json_dumps js) @ CHR '']'' # r"
        by (intro skip_ws_elems) auto
      moreover obtain c cs where "join_with '', '' (map json_dumps js) @ CHR '']'' # r = c # cs" "c \<noteq> CHR '']''"
        using False JList.prems by (cases js; cases "tl js") (auto simp: starts_value_def elim!: dumps_first)
      moreover have "scan_elems m [] (join_with '', '' (map json_dumps js) @ CHR '']'' # r) = Some (JList (rev [] @ js), r)"
        by (rule elems_read_back) (use False JList n m in \<open>auto simp: list_all_iff\<close>)
      ultimately show ?thesis by (simp add: m scan_list)
    qed (simp add: m scan_list)
  qed
next
  case (JObj d)
  show ?case
    unfolding reads_back_def
  proof (intro allI impI)
    fix n r assume n: "2 * length (json_dumps (JObj d)) \<le> n" and "stops r"
    then obtain m where m: "n = Suc m" by (cases n) auto
    show "scan n (json_dumps (JObj d) @ r) = Some (JObj d, r)"
    proof (cases "d = []")
      case False
      then obtain cs where q: "join_with '', '' (map member_text d) @ CHR 0x7D # r = CHR 0x22 # cs"
        by (cases d; cases "tl d") (auto simp: member_text_def dumps_str_def)
      moreover have "scan_members m [] (join_with '', '' (map member_text d) @ CHR 0x7D # r) = Some (JObj ([] @ d), r)"
        by (rule members_read_back) (use False JObj n m in \<open>auto simp: list_all_iff json_dumps_obj simp del: json_dumps.simps\<close>)
      ultimately show ?thesis by (simp add: m scan_obj json_dumps_obj del: json_dumps.simps)
    qed (simp add: m scan_obj)
  qed
next
  case (JFloat t)
  show ?case
    unfolding reads_back_def
  proof (intro allI impI)
    fix n r assume n: "2 * length (json_dumps (JFloat t)) \<le> n" and r: "stops r"
    from JFloat consider "t \<in> {''NaN'', ''Infinity'', ''-Infinity''}" | "scan_num t = Some (JFloat t, [])" by (auto simp: float_ok_def)
    then show "scan n (json_dumps (JFloat t) @ r) = Some (JFloat t, r)"
    proof cases
      case 1
      with n obtain m where "n = Suc m" by (cases n) auto
      with 1 scan_atoms(4-6) show ?thesis by auto
    next
      case 2
      then have "t \<noteq> []" using number_float [OF 2] by auto
      with n obtain m where "n = Suc m" by (cases n) auto
      with 2 r show ?thesis by (simp add: scan_number number_append number_float scan_float)
    qed
  qed
next
  case (JInt i)
  have "number_text (int_str i)" using number_digits by (simp add: int_str_def)
  moreover from this have "int_str i \<noteq> []" by auto
  ultimately show ?case by (intro atom_reads_back) (simp_all add: scan_number number_append scan_int_str)
next
  case (JStr s)
  show ?case by (rule atom_reads_back) (simp_all add: dumps_str_def scan_quote scan_str_dumped)
next
  case JNull
  show ?case using scan_atoms(1) by (intro atom_reads_back) simp_all
next
  case (JBool b)
  show ?case using scan_atoms(2,3) by (cases b) (intro atom_reads_back; simp)+
qed

text \<open>\<open>json.loads(json.dumps(v)) == v\<close> for every value a program can hold: nested lists and objects with
  distinct keys, any string, any integer and any float as Python prints it, in the same order of keys.\<close>

theorem loads_dumps:
  assumes "json_ok j"
  shows "json_loads (json_dumps j) = Some j"
proof -
  have "skip_ws (json_dumps j) = json_dumps j" using skip_ws_value [OF assms, of "[]"] by simp
  moreover have "scan (2 * length (json_dumps j) + 2) (json_dumps j) = Some (j, [])"
    using reads_backD [OF json_reads_back [OF assms] stops_simps(1)] by simp
  ultimately show ?thesis by (simp add: json_loads_def)
qed

end
