(* ===== verification/Provider_Shared.thy ===== *)
theory Provider_Shared
  imports Messages Texts Json_Round_Trip
begin

text \<open>
  What the provider adapters share (\<open>actant/llm/providers/_shared.py\<close>): the schema of a tool, images and
  tool output in a provider's shape, and the pairing of tool calls with their results. \<open>hex n\<close> is the
  hex text of the \<open>n\<close>-th \<open>uuid4\<close> drawn. A provider's own request shape is JSON.
\<close>

definition tool_output_unavailable :: string where
  "tool_output_unavailable = ''No output was recorded for this tool call. It may or may not have taken effect. ''
     @ ''Check its effects before retrying; do not assume success.''"

definition env_api_key :: "(string \<Rightarrow> string option) \<Rightarrow> string \<Rightarrow> string option \<Rightarrow> py_error + string" where
  "env_api_key environ name explicit =
     (let key = (case explicit of Some k \<Rightarrow> if k \<noteq> [] then Some k else environ name | None \<Rightarrow> environ name) in
      case key of
        Some k \<Rightarrow> if k \<noteq> [] then Inr k else Inl (RuntimeError (name @ '' is required for this provider adapter.''))
      | None \<Rightarrow> Inl (RuntimeError (name @ '' is required for this provider adapter.'')))"

section \<open>Schemas\<close>

text \<open>An object or a list is larger than what it holds.\<close>

fun json_weight :: "json \<Rightarrow> nat" where
  "json_weight (JObj d) = Suc (sum_list (map (\<lambda>e. Suc (json_weight (snd e))) d))"
| "json_weight (JList js) = Suc (sum_list (map json_weight js))"
| "json_weight _ = 1"

definition fields_weight :: "json_obj \<Rightarrow> nat" where
  "fields_weight d = sum_list (map (\<lambda>e. Suc (json_weight (snd e))) d)"

lemma fields_weight_simps [simp]:
  "fields_weight [] = 0" "fields_weight (e # d) = Suc (json_weight (snd e)) + fields_weight d"
  by (simp_all add: fields_weight_def)

lemma json_weight_obj: "json_weight (JObj d) = Suc (fields_weight d)"
  by (simp add: fields_weight_def)

lemma json_weight_elem: "j \<in> set js \<Longrightarrow> json_weight j < json_weight (JList js)"
  by (induction js) auto

text \<open>The fields of an object in order, written to a fresh dictionary; \<open>prefixItems\<close> gives way to its first.\<close>

function normalize_json_schema :: "json \<Rightarrow> json"
  and normalize_fields :: "json_obj \<Rightarrow> json_obj \<Rightarrow> json_obj"
  and normalize_values :: "json_obj \<Rightarrow> json_obj" where
  "normalize_json_schema (JObj d) = JObj (normalize_fields d [])"
| "normalize_json_schema JNull = JNull"
| "normalize_json_schema (JBool b) = JBool b"
| "normalize_json_schema (JInt i) = JInt i"
| "normalize_json_schema (JFloat f) = JFloat f"
| "normalize_json_schema (JStr s) = JStr s"
| "normalize_json_schema (JList js) = JList js"
| "normalize_fields [] result = result"
| "normalize_fields ((k, v) # d) result = normalize_fields d
     (if k = ''prefixItems''
      then (case v of JList (j # js) \<Rightarrow> dset ''items'' (normalize_json_schema j) result | _ \<Rightarrow> result)
      else dset k (case v of
          JObj e \<Rightarrow> (if k = ''$defs'' then JObj (normalize_values e) else normalize_json_schema v)
        | JList js \<Rightarrow> JList (map normalize_json_schema js)
        | _ \<Rightarrow> v) result)"
| "normalize_values [] = []"
| "normalize_values ((k, v) # d) = (k, normalize_json_schema v) # normalize_values d"
  by pat_completeness auto

termination
proof (relation "measure (\<lambda>x. case x of Inl j \<Rightarrow> json_weight j
    | Inr (Inl (d, result)) \<Rightarrow> fields_weight d | Inr (Inr d) \<Rightarrow> fields_weight d)")
qed (auto simp: json_weight_obj fields_weight_def dest!: json_weight_elem simp del: json_weight.simps(1))

section \<open>Content\<close>

definition unresolved :: "block \<Rightarrow> py_error" where
  "unresolved b = (case b of
      AssetBlock key mime ref \<Rightarrow> ValueError (''asset '' @ repr_str key @ '' reached a provider unresolved: run prepare_messages first'')
    | _ \<Rightarrow> ValueError (''a compaction message reached a provider: build the model'' @ [CHR 0x27] @ ''s view first''))"

definition input_image :: "string \<Rightarrow> json" where
  "input_image url = JObj [(''type'', JStr ''input_image''), (''image_url'', JStr url), (''detail'', JStr ''high'')]"

fun image_url :: "block \<Rightarrow> string" where
  "image_url (UrlImageBlock url media) = url"
| "image_url (InlineImageBlock media data) = ''data:'' @ media @ '';base64,'' @ data"
| "image_url _ = []"

definition convert_image_source :: "block \<Rightarrow> json" where
  "convert_image_source b = input_image (image_url b)"

fun split_blocks :: "block list \<Rightarrow> py_error + string list \<times> json list" where
  "split_blocks [] = Inr ([], [])"
| "split_blocks (b # bs) = (case b of
      TextBlock t \<Rightarrow> try_bind (split_blocks bs) (\<lambda>(texts, images). Inr (t # texts, images))
    | AssetBlock _ _ _ \<Rightarrow> Inl (unresolved b)
    | CompactionBlock _ \<Rightarrow> Inl (unresolved b)
    | _ \<Rightarrow> try_bind (split_blocks bs) (\<lambda>(texts, images). Inr (texts, convert_image_source b # images)))"

definition split_tool_content :: "content \<Rightarrow> py_error + string \<times> json list" where
  "split_tool_content c = (case c of
      NoContent \<Rightarrow> Inr ([], [])
    | Text t \<Rightarrow> Inr (t, [])
    | Blocks bs \<Rightarrow> try_bind (split_blocks bs) (\<lambda>(texts, images).
        Inr (if texts \<noteq> [] then join_with [CHR 0x0A] texts else ''OK'', images)))"

section \<open>Tool calls and their results\<close>

text \<open>The ids drawn so far and the calls still waiting for a result.\<close>

type_synonym pairing = "nat \<times> string list"

definition call_name :: "(nat \<Rightarrow> string) \<Rightarrow> nat \<Rightarrow> string" where
  "call_name hex n = ''call_'' @ hex n"

fun name_calls :: "(nat \<Rightarrow> string) \<Rightarrow> tool_call list \<Rightarrow> pairing \<Rightarrow> tool_call list \<times> pairing" where
  "name_calls hex [] p = ([], p)"
| "name_calls hex (c # cs) (n, pending) =
     (let (c, n) = (if tc_id c = [] then (c\<lparr>tc_id := call_name hex n\<rparr>, Suc n) else (c, n));
          (cs, p) = name_calls hex cs (n, pending @ [tc_id c]) in (c # cs, p))"

definition name_result :: "(nat \<Rightarrow> string) \<Rightarrow> message \<Rightarrow> pairing \<Rightarrow> message \<times> pairing" where
  "name_result hex m p = (let (n, pending) = p; i = or_else (m_tool_call_id m) [] in
     if i \<noteq> []
     then (m, (n, if pending \<noteq> [] \<and> hd pending = i then tl pending
                  else if i \<in> set pending then remove1 i pending else pending))
     else if pending \<noteq> [] then (m\<lparr>m_tool_call_id := Some (hd pending)\<rparr>, (n, tl pending))
     else (m\<lparr>m_tool_call_id := Some (call_name hex n)\<rparr>, (Suc n, pending)))"

definition named_message :: "(nat \<Rightarrow> string) \<Rightarrow> message \<Rightarrow> pairing \<Rightarrow> message \<times> pairing" where
  "named_message hex m p = (
     if m_role m = ''assistant'' \<and> m_tool_calls m \<noteq> None
     then (let (cs, p) = name_calls hex (or_else (m_tool_calls m) []) p in (m\<lparr>m_tool_calls := Some cs\<rparr>, p))
     else if m_role m = ''tool'' then name_result hex m p else (m, p))"

fun named_messages :: "(nat \<Rightarrow> string) \<Rightarrow> message list \<Rightarrow> pairing \<Rightarrow> message list" where
  "named_messages hex [] p = []"
| "named_messages hex (m # ms) p = (let (m, p) = named_message hex m p in m # named_messages hex ms p)"

definition calls_of :: "message \<Rightarrow> tool_call list" where
  "calls_of m = or_else (m_tool_calls m) []"

definition is_tool :: "message \<Rightarrow> bool" where
  "is_tool m \<longleftrightarrow> m_role m = ''tool''"

definition interrupted_result :: "tool_call \<Rightarrow> message" where
  "interrupted_result c = (new_message ''tool'' (Text (json_dumps (JObj
       [(''status'', JStr ''interrupted''), (''error'', JStr tool_output_unavailable)]))))
     \<lparr>m_tool_call_id := Some (tc_id c), m_name := Some (fn_name (tc_function c))\<rparr>"

definition answered_by :: "message list \<Rightarrow> string option set" where
  "answered_by ms = m_tool_call_id ` {m \<in> set ms. is_tool m}"

fun pair_results :: "string option set \<Rightarrow> string option set \<Rightarrow> message list \<Rightarrow> message list" where
  "pair_results answered sent [] = []"
| "pair_results answered sent (m # ms) =
     (if is_tool m \<and> m_tool_call_id m \<in> sent then pair_results answered sent ms
      else m # map interrupted_result (filter (\<lambda>c. Some (tc_id c) \<notin> answered) (calls_of m))
         @ pair_results answered (if is_tool m then insert (m_tool_call_id m) sent else sent) ms)"

definition paired :: "message list \<Rightarrow> message list" where
  "paired ms = pair_results (answered_by ms) {} ms"

definition sanitize_tool_messages ::
  "(json \<Rightarrow> int option) \<Rightarrow> (nat \<Rightarrow> string) \<Rightarrow> message raw list \<Rightarrow> py_error + message list" where
  "sanitize_tool_messages as_int hex raws =
     try_bind (try_map (message_from_raw as_int) raws) (\<lambda>ms. Inr (paired (named_messages hex ms (0, []))))"

section \<open>What pairing gives\<close>

lemma answered_by_simps:
  "answered_by [] = {}" "answered_by (m # ms) = (if is_tool m then insert (m_tool_call_id m) (answered_by ms) else answered_by ms)"
  by (auto simp: answered_by_def)

text \<open>Every call has a result of its id among the messages.\<close>

definition calls_answered :: "message list \<Rightarrow> bool" where
  "calls_answered ms \<longleftrightarrow> (\<forall>m\<in>set ms. \<forall>c\<in>set (calls_of m). Some (tc_id c) \<in> answered_by ms)"

lemma interrupted_result_tool [simp]:
  "is_tool (interrupted_result c)" "m_tool_call_id (interrupted_result c) = Some (tc_id c)" "calls_of (interrupted_result c) = []"
  by (simp_all add: interrupted_result_def is_tool_def calls_of_def new_message_def)

lemma pair_results_calls: "m \<in> set (pair_results answered sent ms) \<Longrightarrow> c \<in> set (calls_of m) \<Longrightarrow> m \<in> set ms"
  by (induction answered sent ms rule: pair_results.induct) (auto split: if_splits)

lemma pair_results_unanswered:
  assumes "m \<in> set (pair_results answered sent ms)" and "c \<in> set (calls_of m)" and "Some (tc_id c) \<notin> answered"
  shows "interrupted_result c \<in> set (pair_results answered sent ms)"
  using assms by (induction answered sent ms rule: pair_results.induct) (auto split: if_splits)

lemma pair_results_answered:
  assumes "m \<in> set ms" and "is_tool m" and "m_tool_call_id m \<notin> sent"
  shows "\<exists>m'\<in>set (pair_results answered sent ms). is_tool m' \<and> m_tool_call_id m' = m_tool_call_id m"
  using assms
proof (induction answered sent ms rule: pair_results.induct)
  case (2 answered sent x ms)
  show ?case
  proof (cases "is_tool x \<and> m_tool_call_id x \<in> sent")
    case True
    with 2 show ?thesis by (cases "m = x") auto
  next
    case False
    with 2 show ?thesis by (cases "is_tool x \<and> m_tool_call_id m = m_tool_call_id x") auto
  qed
qed simp

lemma paired_answers: "calls_answered (paired ms)"
  unfolding calls_answered_def
proof (intro ballI)
  fix m c assume m: "m \<in> set (paired ms)" and c: "c \<in> set (calls_of m)"
  show "Some (tc_id c) \<in> answered_by (paired ms)"
  proof (cases "Some (tc_id c) \<in> answered_by ms")
    case True
    then obtain r where "r \<in> set ms" "is_tool r" "m_tool_call_id r = Some (tc_id c)" by (auto simp: answered_by_def)
    with pair_results_answered [of r ms "{}" "answered_by ms"]
    obtain r' where "r' \<in> set (paired ms)" "is_tool r'" "m_tool_call_id r' = Some (tc_id c)" by (auto simp: paired_def)
    then show ?thesis by (force simp: answered_by_def)
  next
    case False
    with pair_results_unanswered [OF m [unfolded paired_def] c] show ?thesis
      by (force simp: answered_by_def paired_def)
  qed
qed

lemma pair_results_others: "filter (\<lambda>m. \<not> is_tool m) (pair_results answered sent ms) = filter (\<lambda>m. \<not> is_tool m) ms"
  by (induction answered sent ms rule: pair_results.induct) (auto simp: filter_empty_conv)

text \<open>The results that were already there, once each.\<close>

lemma pair_results_fresh:
  "i \<in> m_tool_call_id ` set (filter is_tool (pair_results answered sent ms)) \<Longrightarrow>
     i \<in> answered_by ms - sent \<or> i \<in> (\<lambda>c. Some (tc_id c)) ` {c. \<exists>m\<in>set ms. c \<in> set (calls_of m)} - answered"
  by (induction answered sent ms rule: pair_results.induct) (auto simp: answered_by_def split: if_splits)

definition call_ids :: "message list \<Rightarrow> string list" where
  "call_ids ms = concat (map (\<lambda>m. map tc_id (calls_of m)) ms)"

lemma call_ids_simps [simp]: "call_ids [] = []" "call_ids (m # ms) = map tc_id (calls_of m) @ call_ids ms"
  by (simp_all add: call_ids_def)

lemma pair_results_distinct:
  assumes "distinct (call_ids ms)" and "answered_by ms \<subseteq> answered"
  shows "distinct (map m_tool_call_id (filter is_tool (pair_results answered sent ms)))"
  using assms
proof (induction answered sent ms rule: pair_results.induct)
  case (2 answered sent x ms)
  let ?mine = "map (\<lambda>c. Some (tc_id c)) (filter (\<lambda>c. Some (tc_id c) \<notin> answered) (calls_of x))"
  let ?rest = "\<lambda>s. pair_results answered s ms"
  from 2(4) have sub: "answered_by ms \<subseteq> answered" "is_tool x \<Longrightarrow> m_tool_call_id x \<in> answered" by (auto simp: answered_by_def)
  have ids: "filter is_tool (map interrupted_result cs) = map interrupted_result cs" for cs by (simp add: filter_id_conv)
  have mine: "distinct ?mine" using 2(3) by (simp add: distinct_map inj_on_def)
  have apart: "set ?mine \<inter> m_tool_call_id ` set (filter is_tool (?rest s)) = {}" for s
  proof -
    { fix i assume i: "i \<in> set ?mine" "i \<in> m_tool_call_id ` set (filter is_tool (?rest s))"
      from pair_results_fresh [OF i(2)] i(1) sub(1) have "i \<in> Some ` set (call_ids ms)" by (auto simp: call_ids_def)
      with i(1) 2(3) have False by auto }
    then show ?thesis by blast
  qed
  have new: "m_tool_call_id x \<notin> set ?mine \<union> m_tool_call_id ` set (filter is_tool (?rest (insert (m_tool_call_id x) sent)))" if "is_tool x"
    using pair_results_fresh [of "m_tool_call_id x" answered "insert (m_tool_call_id x) sent" ms] sub(2) [OF that] by auto
  have dr: "distinct (call_ids ms)" using 2(3) by simp
  show ?case
  proof (cases "is_tool x \<and> m_tool_call_id x \<in> sent")
    case False
    let ?sent = "if is_tool x then insert (m_tool_call_id x) sent else sent"
    from False have "map m_tool_call_id (filter is_tool (pair_results answered sent (x # ms)))
        = (if is_tool x then [m_tool_call_id x] else []) @ ?mine @ map m_tool_call_id (filter is_tool (?rest ?sent))"
      by (simp add: ids comp_def)
    moreover have "distinct (map m_tool_call_id (filter is_tool (?rest ?sent)))" by (rule 2(2) [OF False dr sub(1)])
    ultimately show ?thesis using mine apart [of ?sent] new
      by (simp only: distinct_append set_append set_map) (auto split: if_splits)
  qed (simp add: 2(1) dr sub)
qed simp

lemma call_ids_pair: "c \<in> set (calls_of m) \<Longrightarrow> m \<in> set (paired ms) \<Longrightarrow> m \<in> set ms"
  by (simp add: paired_def pair_results_calls)

lemma paired_distinct: "distinct (call_ids ms) \<Longrightarrow> distinct (map m_tool_call_id (filter is_tool (paired ms)))"
  unfolding paired_def by (rule pair_results_distinct) simp_all

text \<open>After the naming every call of an assistant and every result has an id; calls are an assistant's.\<close>

definition well_named :: "message \<Rightarrow> bool" where
  "well_named m \<longleftrightarrow> [] \<notin> tc_id ` set (calls_of m) \<and> (is_tool m \<longrightarrow> or_else (m_tool_call_id m) [] \<noteq> [])"

definition calls_by_assistant :: "message \<Rightarrow> bool" where
  "calls_by_assistant m \<longleftrightarrow> (m_tool_calls m \<noteq> None \<longrightarrow> m_role m = ''assistant'')"

lemma call_name_nonempty [simp]: "call_name hex n \<noteq> []"
  by (simp add: call_name_def)

lemma name_calls_named:
  "name_calls hex cs (n, pending) = (cs', (n', pending')) \<Longrightarrow> [] \<notin> set pending \<Longrightarrow> [] \<notin> tc_id ` set cs' \<and> [] \<notin> set pending'"
proof (induction cs arbitrary: n pending cs' n' pending')
  case (Cons c cs)
  obtain d k where d: "(if tc_id c = [] then (c\<lparr>tc_id := call_name hex n\<rparr>, Suc n) else (c, n)) = (d, k)" by fastforce
  obtain es q pend where r: "name_calls hex cs (k, pending @ [tc_id d]) = (es, (q, pend))" by (metis prod_cases3)
  have "tc_id d \<noteq> []" using d by (auto split: if_splits)
  with Cons.IH [OF r] Cons.prems d r show ?case by (auto simp: Let_def)
qed simp

lemma named_message_named:
  assumes "named_message hex m (n, pending) = (m', (n', pending'))" and "[] \<notin> set pending" and "calls_by_assistant m"
  shows "well_named m' \<and> calls_by_assistant m' \<and> [] \<notin> set pending'"
proof (cases "m_role m = ''assistant'' \<and> m_tool_calls m \<noteq> None")
  case True
  obtain cs q pend where "name_calls hex (or_else (m_tool_calls m) []) (n, pending) = (cs, (q, pend))" by (metis prod_cases3)
  from name_calls_named [OF this assms(2)] this True assms(1) show ?thesis
    by (auto simp: named_message_def well_named_def calls_by_assistant_def calls_of_def is_tool_def)
next
  case False
  with assms(3) have "m_tool_calls m = None" by (auto simp: calls_by_assistant_def)
  with False assms(1,2) show ?thesis
    by (cases pending)
      (auto simp: named_message_def name_result_def well_named_def calls_by_assistant_def calls_of_def is_tool_def Let_def
        dest: notin_set_remove1 split: if_splits)
qed

lemma named_messages_named:
  "[] \<notin> set (snd p) \<Longrightarrow> list_all calls_by_assistant ms \<Longrightarrow>
     list_all well_named (named_messages hex ms p) \<and> list_all calls_by_assistant (named_messages hex ms p)"
proof (induction ms arbitrary: p)
  case (Cons m ms)
  obtain n pending where p: "p = (n, pending)" by (cases p)
  obtain m' n' pending' where m: "named_message hex m (n, pending) = (m', (n', pending'))" by (metis prod_cases3)
  from Cons.prems p have "[] \<notin> set pending" "calls_by_assistant m" by simp_all
  from named_message_named [OF m this] Cons.IH [of "(n', pending')"] Cons.prems(2) m p show ?case by simp
qed simp

lemma pair_results_from:
  "m \<in> set (pair_results answered sent ms) \<Longrightarrow> m \<in> set ms \<or> (\<exists>x\<in>set ms. \<exists>c\<in>set (calls_of x). m = interrupted_result c)"
  by (induction answered sent ms rule: pair_results.induct) (auto split: if_splits)

lemma paired_named: "list_all well_named ms \<Longrightarrow> list_all well_named (paired ms)"
  unfolding paired_def list_all_iff
proof
  fix m assume ms: "\<forall>m\<in>set ms. well_named m" and "m \<in> set (pair_results (answered_by ms) {} ms)"
  then consider "m \<in> set ms" | x c where "x \<in> set ms" "c \<in> set (calls_of x)" "m = interrupted_result c"
    by (auto dest: pair_results_from)
  then show "well_named m"
  proof cases
    case 2
    with ms have "[] \<notin> tc_id ` set (calls_of x)" unfolding well_named_def by blast
    with 2 have "tc_id c \<noteq> []" by (metis imageI)
    with 2 show ?thesis by (simp add: well_named_def)
  qed (use ms in simp)
qed

section \<open>A request of an adapter\<close>

text \<open>The ids of the calls and of the results in a request, in order.\<close>

definition requested_ids :: "message list \<Rightarrow> string list" where
  "requested_ids ms = concat (map (\<lambda>m. if m_role m = ''assistant'' then map tc_id (calls_of m) else []) ms)"

definition result_ids :: "message list \<Rightarrow> string list" where
  "result_ids ms = map (\<lambda>m. or_else (m_tool_call_id m) []) (filter is_tool ms)"

text \<open>What each adapter promises of its conversion: it sends the calls and the results of the messages it is
  given, each under its id and in their order.\<close>

locale tool_wire =
  fixes convert :: "message list \<Rightarrow> py_error + 'req"
    and usable :: "message \<Rightarrow> bool"
    and uses :: "'req \<Rightarrow> string list" and results :: "'req \<Rightarrow> string list"
  assumes sends_uses: "list_all well_named ms \<Longrightarrow> list_all usable ms \<Longrightarrow> convert ms = Inr req \<Longrightarrow> uses req = requested_ids ms"
    and sends_results: "list_all well_named ms \<Longrightarrow> list_all usable ms \<Longrightarrow> convert ms = Inr req \<Longrightarrow> results req = result_ids ms"
begin

lemma request_paired:
  assumes "sanitize_tool_messages as_int hex raws = Inr ms" and "convert ms = Inr req"
    and "try_map (message_from_raw as_int) raws = Inr read" and "list_all calls_by_assistant read"
    and "list_all usable ms"
  shows "set (uses req) \<subseteq> set (results req)"
    and "distinct (call_ids (named_messages hex read (0, []))) \<Longrightarrow> distinct (results req)"
proof -
  let ?n = "named_messages hex read (0, [])"
  from assms(1,3) have ms: "ms = paired ?n" by (simp add: sanitize_tool_messages_def)
  from named_messages_named [of "(0, [])" read hex] assms(4) have "list_all well_named ?n" by simp
  then have wn: "list_all well_named ms" by (simp add: ms paired_named)
  have "or_else (Some i) [] \<in> (\<lambda>m. or_else (m_tool_call_id m) []) ` set (filter is_tool ms)" if "Some i \<in> answered_by ms" for i
    using that by (auto simp: answered_by_def image_iff) (metis or_else_simps(2))
  with paired_answers [of ?n] show "set (uses req) \<subseteq> set (results req)"
    unfolding sends_uses [OF wn assms(5,2)] sends_results [OF wn assms(5,2)]
    by (auto simp: requested_ids_def result_ids_def calls_answered_def ms split: if_splits)
  assume "distinct (call_ids ?n)"
  then have "distinct (map m_tool_call_id (filter is_tool ms))" by (simp add: ms paired_distinct)
  moreover have "inj_on (\<lambda>i. or_else i []) (m_tool_call_id ` set (filter is_tool ms))"
    using wn by (auto simp: inj_on_def list_all_iff well_named_def or_else_def split: option.splits)
  ultimately have "distinct (map (\<lambda>i. or_else i []) (map m_tool_call_id (filter is_tool ms)))"
    by (subst distinct_map) simp
  then show "distinct (results req)" unfolding sends_results [OF wn assms(5,2)] by (simp add: result_ids_def comp_def)
qed

end

end
