(* ===== verification/Rate_Limit.thy ===== *)
theory Rate_Limit
  imports Prelude
begin

text \<open>
  \<open>actant/llm/rate_limit.py\<close>: the sliding window of tokens and requests a provider waits on before it sends.
  Times are rationals. \<open>now\<close> reads the monotonic clock; \<open>sleep\<close> is what happened while a caller slept
  holding the lock: the clock went on, and a reservation committed meanwhile may have corrected the newest
  entry. The sleep is in a \<open>while True\<close> loop, which runs on fuel.
\<close>

section \<open>State\<close>

record rate_config =
  rl_tokens_per_minute :: int
  rl_requests_per_minute :: int

record limiter =
  lm_tokens :: "(rat \<times> int) list"
  lm_requests :: "rat list"

definition new_limiter :: limiter where
  "new_limiter = \<lparr>lm_tokens = [], lm_requests = []\<rparr>"

definition window_secs :: rat where
  "window_secs = 60"

record 'w limiter_env =
  le_config :: rate_config
  le_now :: "'w \<Rightarrow> rat"
  le_sleep :: "rat \<Rightarrow> (limiter \<times> 'w, unit) act"

definition tokens_in_window :: "limiter \<Rightarrow> int" where
  "tokens_in_window l = sum_list (map snd (lm_tokens l))"

definition requests_in_window :: "limiter \<Rightarrow> int" where
  "requests_in_window l = int (length (lm_requests l))"

section \<open>Operations\<close>

definition evict_entries :: "rat \<Rightarrow> limiter \<Rightarrow> limiter" where
  "evict_entries now l = l\<lparr>lm_tokens := dropWhile (\<lambda>(ts, _). ts < now - window_secs) (lm_tokens l),
     lm_requests := dropWhile (\<lambda>ts. ts < now - window_secs) (lm_requests l)\<rparr>"

text \<open>The earliest entry whose expiry frees \<open>need\<close> tokens.\<close>

fun freeing :: "int \<Rightarrow> int \<Rightarrow> (rat \<times> int) list \<Rightarrow> rat option" where
  "freeing need cumulative [] = None"
| "freeing need cumulative ((ts, t) # window) =
     (if cumulative + t \<ge> need then Some ts else freeing need (cumulative + t) window)"

definition token_target :: "rate_config \<Rightarrow> rat \<Rightarrow> int \<Rightarrow> limiter \<Rightarrow> rat" where
  "token_target cfg now estimated l =
     (if tokens_in_window l + estimated > rl_tokens_per_minute cfg
      then case freeing (tokens_in_window l + estimated - rl_tokens_per_minute cfg) 0 (lm_tokens l) of
             None \<Rightarrow> now | Some ts \<Rightarrow> max now ts
      else now)"

definition wait_target :: "rate_config \<Rightarrow> rat \<Rightarrow> int \<Rightarrow> limiter \<Rightarrow> rat" where
  "wait_target cfg now estimated l =
     (if requests_in_window l \<ge> rl_requests_per_minute cfg \<and> lm_requests l \<noteq> []
      then max (token_target cfg now estimated l) (hd (lm_requests l)) else token_target cfg now estimated l)"

definition compute_wait :: "rate_config \<Rightarrow> rat \<Rightarrow> int \<Rightarrow> limiter \<Rightarrow> rat" where
  "compute_wait cfg now estimated l = max (1 / 20) (window_secs - (now - wait_target cfg now estimated l) + 1 / 10)"

definition fits :: "rate_config \<Rightarrow> int \<Rightarrow> limiter \<Rightarrow> bool" where
  "fits cfg estimated l \<longleftrightarrow> tokens_in_window l + estimated \<le> rl_tokens_per_minute cfg
     \<and> requests_in_window l < rl_requests_per_minute cfg"

definition admitted :: "rat \<Rightarrow> int \<Rightarrow> limiter \<Rightarrow> limiter" where
  "admitted now estimated l = l\<lparr>lm_tokens := lm_tokens l @ [(now, estimated)], lm_requests := lm_requests l @ [now]\<rparr>"

text \<open>One turn of the loop: whether the request was let in.\<close>

definition acquire_pass :: "'w limiter_env \<Rightarrow> int \<Rightarrow> (limiter \<times> 'w, bool) act" where
  "acquire_pass e estimated = bnd getS (\<lambda>(l0, w).
     let now = le_now e w; l = evict_entries now l0 in
     thn (modifyS (\<lambda>_. (l, w)))
     (if fits (le_config e) estimated l then thn (modifyS (\<lambda>_. (admitted now estimated l, w))) (ret True)
      else thn (le_sleep e (compute_wait (le_config e) now estimated l)) (ret False)))"

fun acquire :: "nat \<Rightarrow> 'w limiter_env \<Rightarrow> int \<Rightarrow> limiter \<times> 'w \<Rightarrow> ((py_error + unit) \<times> (limiter \<times> 'w)) option" where
  "acquire 0 e estimated s = None"
| "acquire (Suc n) e estimated s = (case acquire_pass e estimated s of
      (Inl x, t) \<Rightarrow> Some (Inl x, t)
    | (Inr True, t) \<Rightarrow> Some (Inr (), t)
    | (Inr False, t) \<Rightarrow> acquire n e estimated t)"

definition record_tail :: "int \<Rightarrow> limiter \<Rightarrow> limiter" where
  "record_tail actual l = (if lm_tokens l = [] then l
     else l\<lparr>lm_tokens := butlast (lm_tokens l) @ [(fst (last (lm_tokens l)), actual)]\<rparr>)"

definition commit_reservation :: "int \<Rightarrow> int option \<Rightarrow> limiter \<Rightarrow> limiter" where
  "commit_reservation estimated actual l = (case actual of
      None \<Rightarrow> l | Some a \<Rightarrow> (if a \<noteq> estimated then record_tail a l else l))"

text \<open>\<open>reserve\<close>: the body runs with the reservation and says what it recorded; the commit is a \<open>finally\<close>.\<close>

definition reserve ::
  "nat \<Rightarrow> 'w limiter_env \<Rightarrow> int \<Rightarrow> (limiter \<times> 'w \<Rightarrow> (((py_error + 'a) \<times> int option) \<times> (limiter \<times> 'w)) option)
     \<Rightarrow> limiter \<times> 'w \<Rightarrow> ((py_error + 'a) \<times> (limiter \<times> 'w)) option" where
  "reserve n e estimated body s = (case acquire n e estimated s of
      None \<Rightarrow> None
    | Some (Inl x, t) \<Rightarrow> Some (Inl x, t)
    | Some (Inr _, t) \<Rightarrow> (case body t of
          None \<Rightarrow> None
        | Some ((res, actual), (l, w)) \<Rightarrow> Some (res, (commit_reservation estimated actual l, w))))"

section \<open>What the limiter keeps\<close>

text \<open>Entries are in order and none is from the future; each request has a token entry of its own.\<close>

definition limiter_ok :: "rat \<Rightarrow> limiter \<Rightarrow> bool" where
  "limiter_ok now l \<longleftrightarrow> lm_requests l = map fst (lm_tokens l) \<and> sorted (lm_requests l) \<and> (\<forall>ts\<in>set (lm_requests l). ts \<le> now)
     \<and> list_all (\<lambda>t. 0 \<le> snd t) (lm_tokens l)"

fun slept :: "'w limiter_env \<Rightarrow> rat \<Rightarrow> limiter \<times> 'w \<Rightarrow> py_error + unit \<Rightarrow> limiter \<times> 'w \<Rightarrow> bool" where
  "slept e secs (l, w) r (l', w') \<longleftrightarrow> r = Inr () \<and> le_now e w + secs \<le> le_now e w' \<and> lm_requests l' = lm_requests l
     \<and> map fst (lm_tokens l') = map fst (lm_tokens l)
     \<and> (list_all (\<lambda>t. 0 \<le> snd t) (lm_tokens l) \<longrightarrow> list_all (\<lambda>t. 0 \<le> snd t) (lm_tokens l'))"

definition sleeps_well :: "'w limiter_env \<Rightarrow> bool" where
  "sleeps_well e \<longleftrightarrow> (\<forall>secs s. ensures (le_sleep e secs) s (slept e secs s))"

lemma dropWhile_map_fst: "map fst (dropWhile (\<lambda>(ts, _). P ts) l) = dropWhile P (map fst l)"
  by (induction l) auto

lemma evict_ok: "limiter_ok now l \<Longrightarrow> limiter_ok now (evict_entries now' l)"
  by (simp add: limiter_ok_def evict_entries_def dropWhile_map_fst sorted_dropWhile list_all_iff) (force dest: set_dropWhileD)

lemma evict_all:
  assumes "limiter_ok now l" and "now + window_secs < later"
  shows "evict_entries later l = new_limiter"
proof -
  have old: "ts < later - window_secs" if "(ts, t) \<in> set (lm_tokens l)" for ts t
  proof -
    from assms(1) that have "ts \<le> now" by (force simp: limiter_ok_def)
    with assms(2) show ?thesis by simp
  qed
  then have "dropWhile (\<lambda>(ts, _). ts < later - window_secs) (lm_tokens l) = []" by auto
  moreover have "lm_requests l = map fst (lm_tokens l)" using assms(1) by (simp add: limiter_ok_def)
  with old have "dropWhile (\<lambda>ts. ts < later - window_secs) (lm_requests l) = []" by auto
  ultimately show ?thesis by (simp add: evict_entries_def new_limiter_def)
qed

lemma record_tail_requests [simp]: "lm_requests (record_tail a l) = lm_requests l"
  by (simp add: record_tail_def)

lemma record_tail_times: "map fst (lm_tokens (record_tail a l)) = map fst (lm_tokens l)"
  by (cases "lm_tokens l" rule: rev_cases) (simp_all add: record_tail_def)

lemma commit_ok: "limiter_ok now l \<Longrightarrow> pred_option (\<lambda>a. 0 \<le> a) actual \<Longrightarrow> limiter_ok now (commit_reservation e actual l)"
proof (cases actual)
  case (Some a)
  moreover assume "limiter_ok now l" "pred_option (\<lambda>a. 0 \<le> a) actual"
  ultimately show ?thesis
    by (cases "lm_tokens l" rule: rev_cases) (auto simp: commit_reservation_def limiter_ok_def record_tail_def)
qed (simp add: commit_reservation_def)

text \<open>The search for the entry to wait for starts from \<open>now\<close>, which no entry exceeds: the wait is the whole
  window whatever the entries are.\<close>

lemma wait_is_whole_window:
  assumes "limiter_ok now l"
  shows "compute_wait cfg now estimated l = 601 / 10"
proof -
  have "freeing need c xs = Some ts \<Longrightarrow> ts \<in> fst ` set xs" for need c xs ts
    by (induction need c xs rule: freeing.induct) (auto split: if_splits)
  with assms have "freeing need c (lm_tokens l) = Some ts \<Longrightarrow> ts \<le> now" for need c ts
    by (force simp: limiter_ok_def)
  then have "token_target cfg now estimated l = now" by (auto simp: token_target_def split: option.split)
  moreover have "lm_requests l \<noteq> [] \<Longrightarrow> hd (lm_requests l) \<le> now"
    using assms hd_in_set [of "lm_requests l"] by (simp add: limiter_ok_def)
  ultimately show ?thesis by (auto simp: compute_wait_def wait_target_def window_secs_def)
qed

lemma acquire_pass_admits:
  "acquire_pass e estimated s = (Inr True, (l, w)) \<Longrightarrow>
     tokens_in_window l \<le> rl_tokens_per_minute (le_config e) \<and> requests_in_window l \<le> rl_requests_per_minute (le_config e)"
  by (auto simp: acquire_pass_def act_simps Let_def fits_def admitted_def tokens_in_window_def requests_in_window_def
      split: prod.splits sum.splits if_splits)

lemma acquire_pass_fits:
  "fits (le_config e) estimated (evict_entries (le_now e w) l) \<Longrightarrow>
     acquire_pass e estimated (l, w) = (Inr True, (admitted (le_now e w) estimated (evict_entries (le_now e w) l), w))"
  by (simp add: acquire_pass_def act_simps Let_def)

lemma acquire_pass_waits:
  assumes "\<not> fits (le_config e) estimated (evict_entries (le_now e w) l)" and "limiter_ok (le_now e w) l" and "sleeps_well e"
  obtains l' w' where "acquire_pass e estimated (l, w) = (Inr False, (l', w'))" and "limiter_ok (le_now e w') l'"
    and "evict_entries (le_now e w') l' = new_limiter"
proof -
  let ?l = "evict_entries (le_now e w) l"
  have ok: "limiter_ok (le_now e w) ?l" by (rule evict_ok [OF assms(2)])
  obtain r l' w' where sl: "le_sleep e (601 / 10) (?l, w) = (r, (l', w'))" by (cases "le_sleep e (601 / 10) (?l, w)") auto
  from assms(3) have "ensures (le_sleep e (601 / 10)) (?l, w) (slept e (601 / 10) (?l, w))" by (simp add: sleeps_well_def)
  from ensuresD [OF this sl] have r: "r = Inr ()" "le_now e w + 601 / 10 \<le> le_now e w'" "lm_requests l' = lm_requests ?l"
    "map fst (lm_tokens l') = map fst (lm_tokens ?l)"
    "list_all (\<lambda>t. 0 \<le> snd t) (lm_tokens ?l) \<Longrightarrow> list_all (\<lambda>t. 0 \<le> snd t) (lm_tokens l')" by auto
  have ok': "limiter_ok (le_now e w) l'"
    unfolding limiter_ok_def r(3) r(4) using ok [unfolded limiter_ok_def] r(5) by blast
  have "limiter_ok (le_now e w') l'"
    unfolding limiter_ok_def
  proof (intro conjI ballI)
    fix ts assume "ts \<in> set (lm_requests l')"
    with ok' have "ts \<le> le_now e w" by (simp add: limiter_ok_def)
    with r(2) show "ts \<le> le_now e w'" by simp
  qed (use ok' [unfolded limiter_ok_def] in blast)+
  moreover have "acquire_pass e estimated (l, w) = (Inr False, (l', w'))"
    using assms(1) sl r(1) by (simp add: acquire_pass_def act_simps Let_def wait_is_whole_window [OF ok])
  moreover have "evict_entries (le_now e w') l' = new_limiter"
    by (rule evict_all [OF ok']) (use r(2) in \<open>simp add: window_secs_def\<close>)
  ultimately show ?thesis using that by blast
qed

lemma fits_empty [simp]: "fits cfg estimated new_limiter \<longleftrightarrow> estimated \<le> rl_tokens_per_minute cfg \<and> 0 < rl_requests_per_minute cfg"
  by (simp add: fits_def tokens_in_window_def requests_in_window_def new_limiter_def)

lemma too_large:
  assumes "limiter_ok now l" and "rl_tokens_per_minute cfg < estimated"
  shows "\<not> fits cfg estimated l"
proof -
  from assms(1) have "0 \<le> tokens_in_window l"
    by (auto simp: limiter_ok_def tokens_in_window_def list_all_iff intro!: sum_list_nonneg)
  with assms(2) show ?thesis by (simp add: fits_def)
qed

lemma too_large_never:
  "limiter_ok (le_now e w) l \<Longrightarrow> sleeps_well e \<Longrightarrow> rl_tokens_per_minute (le_config e) < estimated \<Longrightarrow>
     acquire n e estimated (l, w) = None"
proof (induction n arbitrary: l w)
  case (Suc n)
  from too_large [OF evict_ok [OF Suc.prems(1)] Suc.prems(3)]
  obtain l' w' where "acquire_pass e estimated (l, w) = (Inr False, (l', w'))" "limiter_ok (le_now e w') l'"
    by (rule acquire_pass_waits [OF _ Suc.prems(1,2)])
  with Suc show ?case by simp
qed simp


text \<open>A request gets in exactly when its estimate fits the limit of a minute: then after at most one wait, else
  never, however long it waits. The sleeps last as long as they were asked to and only token counts of the
  window change meanwhile.\<close>

theorem acquire_ends_iff_it_fits:
  assumes "limiter_ok (le_now e w) l" and "sleeps_well e" and "0 < rl_requests_per_minute (le_config e)"
  shows "if estimated \<le> rl_tokens_per_minute (le_config e)
         then \<exists>t. acquire (Suc (Suc n)) e estimated (l, w) = Some (Inr (), t)
         else acquire n e estimated (l, w) = None"
proof (cases "estimated \<le> rl_tokens_per_minute (le_config e)")
  case True
  show ?thesis
  proof (cases "fits (le_config e) estimated (evict_entries (le_now e w) l)")
    case False
    then obtain l' w' where "acquire_pass e estimated (l, w) = (Inr False, (l', w'))" "evict_entries (le_now e w') l' = new_limiter"
      by (rule acquire_pass_waits [OF _ assms(1,2)])
    moreover from this(2) True assms(3) have "fits (le_config e) estimated (evict_entries (le_now e w') l')" by simp
    ultimately show ?thesis by (simp add: True acquire_pass_fits)
  qed (simp add: True acquire_pass_fits)
qed (simp add: too_large_never [OF assms(1,2)])

section \<open>A limiter with a clock of its own\<close>

definition sample_limiter_env :: "rat limiter_env" where
  "sample_limiter_env = \<lparr>le_config = \<lparr>rl_tokens_per_minute = 100, rl_requests_per_minute = 2\<rparr>, le_now = (\<lambda>w. w),
     le_sleep = (\<lambda>secs (l, w). (Inr (), (l, w + secs)))\<rparr>"

lemma sample_sleeps: "sleeps_well sample_limiter_env"
  by (auto simp: sleeps_well_def ensures_def sample_limiter_env_def)

theorem acquire_ends_iff_it_fits_witness:
  "(\<exists>t. acquire 2 sample_limiter_env 40 (\<lparr>lm_tokens = [(1, 50), (2, 20)], lm_requests = [1, 2]\<rparr>, 3) = Some (Inr (), t))
     \<and> acquire 9 sample_limiter_env 101 (\<lparr>lm_tokens = [(1, 50), (2, 20)], lm_requests = [1, 2]\<rparr>, 3) = None"
proof -
  let ?l = "\<lparr>lm_tokens = [(1, 50), (2, 20)], lm_requests = [1, 2]\<rparr>"
  have "limiter_ok (le_now sample_limiter_env 3) ?l" "0 < rl_requests_per_minute (le_config sample_limiter_env)"
    by (simp_all add: limiter_ok_def sample_limiter_env_def)
  note ends = acquire_ends_iff_it_fits [OF this(1) sample_sleeps this(2)]
  from ends [of 40 0] ends [of 101 9] show ?thesis
    by (simp add: sample_limiter_env_def numeral_2_eq_2 del: acquire.simps)
qed


end
