(* ===== verification/Provider_Stream.thy ===== *)
theory Provider_Stream
  imports Provider_Shared Rate_Limit
begin

text \<open>
  What the adapters' streams share: an SDK's object is the JSON object it was read from, and \<open>getattr\<close> with a
  default looks a field up in it; a listener (\<open>runtime/events/streaming.py\<close>) is told of each delta; a
  call that may not end runs on fuel. The state of a call is the limiter's and whatever else there is.
\<close>

section \<open>Calls on fuel\<close>

type_synonym ('s, 'a) run = "'s \<Rightarrow> ((py_error + 'a) \<times> 's) option"

definition once :: "('s, 'a) act \<Rightarrow> ('s, 'a) run" where
  "once m s = Some (m s)"

definition followed :: "('s, 'a) run \<Rightarrow> ('a \<Rightarrow> ('s, 'b) run) \<Rightarrow> ('s, 'b) run" where
  "followed m f s = (case m s of
      None \<Rightarrow> None | Some (Inl e, t) \<Rightarrow> Some (Inl e, t) | Some (Inr a, t) \<Rightarrow> f a t)"

text \<open>\<open>try: m; finally: h\<close>: what \<open>h\<close> raises replaces the outcome.\<close>

definition at_exit :: "('s, 'a) run \<Rightarrow> ('s, unit) act \<Rightarrow> ('s, 'a) run" where
  "at_exit m h s = (case m s of
      None \<Rightarrow> None
    | Some (r, t) \<Rightarrow> Some (case h t of (Inl e, u) \<Rightarrow> (Inl e, u) | (Inr _, u) \<Rightarrow> (r, u)))"

lemmas run_defs = once_def followed_def at_exit_def

lemma followedD: "followed m f s = Some (Inr b, t) \<Longrightarrow> \<exists>a u. m s = Some (Inr a, u) \<and> f a u = Some (Inr b, t)"
  by (auto simp: followed_def split: option.splits prod.splits sum.splits)

lemma at_exitD: "at_exit m h s = Some (Inr a, t) \<Longrightarrow> \<exists>u. m s = Some (Inr a, u)"
  by (auto simp: at_exit_def split: option.splits prod.splits sum.splits)

lemma onceD: "once m s = Some r \<Longrightarrow> m s = r"
  by (simp add: once_def)

section \<open>Objects of an SDK\<close>

fun attr_or :: "json \<Rightarrow> string \<Rightarrow> json \<Rightarrow> json" where
  "attr_or (JObj d) k v = jget d k v"
| "attr_or _ k v = v"

definition attr :: "json \<Rightarrow> string \<Rightarrow> json" where
  "attr j k = attr_or j k JNull"

text \<open>\<open>getattr(x, k, ...) or []\<close> and \<open>getattr(x, k, ...) or ''''\<close> of fields typed as lists and texts.\<close>

definition attr_list :: "json \<Rightarrow> string \<Rightarrow> json list" where
  "attr_list j k = (case attr j k of JList js \<Rightarrow> js | _ \<Rightarrow> [])"

definition attr_str :: "json \<Rightarrow> string \<Rightarrow> string" where
  "attr_str j k = (case attr j k of JStr s \<Rightarrow> s | _ \<Rightarrow> [])"

definition attr_opt :: "json \<Rightarrow> string \<Rightarrow> string option" where
  "attr_opt j k = (case attr j k of JStr s \<Rightarrow> Some s | _ \<Rightarrow> None)"

definition type_is :: "json \<Rightarrow> string \<Rightarrow> bool" where
  "type_is j t \<longleftrightarrow> attr j ''type'' = JStr t"

named_theorems attr_simps \<open>fields of an object written out\<close>

lemmas attr_eval [attr_simps] = attr_def jget_def type_is_def attr_str_def attr_opt_def attr_list_def

text \<open>A count: \<open>to_int\<close> is \<open>int\<close> of what is not an integer already, \<open>None\<close> when it raises.\<close>

definition usage_int :: "(json \<Rightarrow> int option) \<Rightarrow> json \<Rightarrow> string \<Rightarrow> int option" where
  "usage_int to_int usage k = (case attr usage k of JNull \<Rightarrow> None | JInt i \<Rightarrow> Some i | v \<Rightarrow> to_int v)"

definition some_text :: "string \<Rightarrow> string option" where
  "some_text s = (if s = [] then None else Some s)"

definition some_list :: "'a list \<Rightarrow> 'a list option" where
  "some_list xs = (if xs = [] then None else Some xs)"

definition text_content :: "string \<Rightarrow> content" where
  "text_content s = (if s = [] then NoContent else Text s)"

text \<open>An id, or one drawn for it.\<close>

definition drawn_id :: "(nat \<Rightarrow> string) \<Rightarrow> nat \<Rightarrow> string \<Rightarrow> string \<times> nat" where
  "drawn_id hex n i = (if i = [] then (call_name hex n, Suc n) else (i, n))"

section \<open>Listeners\<close>

datatype stream_note =
    TextDelta string
  | ThinkingDelta string
  | ToolCallStart string string
  | ArgsDelta string string
  | ArgsComplete string
  | UsageNote string string json_obj string
  | StreamReset

record 's stream_listener =
  ln_notify :: "stream_note \<Rightarrow> ('s, unit) act"
  ln_cancelled :: "'s \<Rightarrow> bool"

definition tell :: "'s stream_listener option \<Rightarrow> stream_note \<Rightarrow> ('s, unit) act" where
  "tell l note = (case l of None \<Rightarrow> ret () | Some l \<Rightarrow> ln_notify l note)"

definition check_cancel :: "'s stream_listener option \<Rightarrow> ('s, unit) act" where
  "check_cancel l = (case l of None \<Rightarrow> ret ()
     | Some l \<Rightarrow> bnd getS (\<lambda>s. if ln_cancelled l s then raise StreamCancelled else ret ()))"

section \<open>Tools and tokens\<close>

definition tool_function :: "json \<Rightarrow> json_obj option" where
  "tool_function tool = (case tool of JObj d \<Rightarrow> (case dget d ''function'' of Some (JObj f) \<Rightarrow> Some f | _ \<Rightarrow> None) | _ \<Rightarrow> None)"

definition char_count :: "message \<Rightarrow> int" where
  "char_count m = (case m_content m of Text t \<Rightarrow> int (length t) | _ \<Rightarrow> 0)
     + sum_list (map (\<lambda>c. int (length (fn_name (tc_function c))) + int (length (fn_arguments (tc_function c)))) (calls_of m))"

text \<open>A third of the characters and 200, twice for a model that reasons, and the output it may give.\<close>

definition call_tokens :: "bool \<Rightarrow> int \<Rightarrow> message list \<Rightarrow> int" where
  "call_tokens reasons output ms =
     (let input = sum_list (map char_count ms) div 3 + 200 in (if reasons then 2 * input else input) + output)"

definition NotImplementedError :: "string \<Rightarrow> py_error" where
  "NotImplementedError m = OtherException ''NotImplementedError'' m"

end
