(* ===== verification/Anthropic.thy ===== *)
theory Anthropic
  imports Provider_Stream
begin

text \<open>
  The adapter of Anthropic's Messages API (\<open>actant/llm/providers/anthropic.py\<close>): the request built from a
  conversation, the stream and its listener, and the message read from the response. The service is the
  record \<open>anthropic_api\<close>; any of its actions may raise, the \<open>TimeoutError\<close> of \<open>turn_s\<close> among others.
\<close>

definition max_tokens :: int where
  "max_tokens = 64000"

definition thinking_budget :: "string \<Rightarrow> int" where
  "thinking_budget level = (if level = ''low'' then 1024 else if level = ''high'' then 32000 else 10000)"

definition adaptive_effort :: "string \<Rightarrow> string" where
  "adaptive_effort level = (if level \<in> {''low'', ''none''} then ''low'' else if level = ''high'' then ''high'' else ''medium'')"

definition ephemeral_cache :: json where
  "ephemeral_cache = JObj [(''type'', JStr ''ephemeral'')]"

section \<open>The model\<close>

record 'w anthropic =
  an_model_id :: string
  an_thinking_level :: string
  an_turn_s :: "rat option"
  an_limiter :: "'w limiter_env option"

definition anthropic_init :: "'w anthropic \<Rightarrow> py_error + 'w anthropic" where
  "anthropic_init p = (case an_turn_s p of
      Some s \<Rightarrow> if s \<le> 0 then Inl (ValueError ''turn_s must be positive'') else Inr p
    | None \<Rightarrow> Inr p)"

text \<open>The regular expression of a version: one or two digits, then a minor of one or two digits that no digit
  follows; a word may stand between the name and the version.\<close>

definition is_lower :: "char \<Rightarrow> bool" where
  "is_lower c \<longleftrightarrow> 97 \<le> (of_char c :: nat) \<and> (of_char c :: nat) \<le> 122"

definition minor_version :: "string \<Rightarrow> int" where
  "minor_version s = (case s of
      c # t \<Rightarrow> (let ds = takeWhile is_digit t in
        if c = CHR ''-'' \<and> ds \<noteq> [] \<and> length ds \<le> 2 then int (digits_val 0 ds) else 0)
    | [] \<Rightarrow> 0)"

definition version_here :: "string \<Rightarrow> (int \<times> int) option" where
  "version_here s = (let ds = take 2 (takeWhile is_digit s) in
     if ds = [] then None else Some (int (digits_val 0 ds), minor_version (drop (length ds) s)))"

definition after_word :: "string \<Rightarrow> string option" where
  "after_word s = (let w = takeWhile is_lower s in case drop (length w) s of
      c # t \<Rightarrow> if w \<noteq> [] \<and> c = CHR ''-'' then Some t else None | [] \<Rightarrow> None)"

definition version_at :: "string \<Rightarrow> (int \<times> int) option" where
  "version_at s = (if \<not> Texts.starts_with ''claude-'' s then None else let rest = drop 7 s in
     case (case after_word rest of None \<Rightarrow> None | Some t \<Rightarrow> version_here t) of
       Some v \<Rightarrow> Some v | None \<Rightarrow> version_here rest)"

fun claude_version :: "string \<Rightarrow> (int \<times> int) option" where
  "claude_version [] = None"
| "claude_version (c # s) = (case version_at (c # s) of Some v \<Rightarrow> Some v | None \<Rightarrow> claude_version s)"

definition version_from :: "int \<times> int \<Rightarrow> 'w anthropic \<Rightarrow> bool" where
  "version_from least p = (case claude_version (an_model_id p) of
      None \<Rightarrow> False | Some v \<Rightarrow> fst least < fst v \<or> (fst least = fst v \<and> snd least \<le> snd v))"

definition anthropic_reasons :: "'w anthropic \<Rightarrow> bool" where
  "anthropic_reasons p = version_from (3, 7) p"

definition uses_adaptive :: "'w anthropic \<Rightarrow> bool" where
  "uses_adaptive p = version_from (4, 7) p"

section \<open>The request\<close>

definition anthropic_tool :: "json_obj \<Rightarrow> json_obj" where
  "anthropic_tool f = [(''name'', jget f ''name'' (JStr [])), (''description'', jget f ''description'' (JStr [])),
     (''input_schema'', jget f ''parameters'' (JObj []))]"

definition anthropic_tools :: "json list \<Rightarrow> json_obj list" where
  "anthropic_tools tools = map anthropic_tool (List.map_filter tool_function tools)"

fun wire_block :: "block \<Rightarrow> py_error + json" where
  "wire_block (AssetBlock k m r) = Inl (unresolved (AssetBlock k m r))"
| "wire_block (CompactionBlock c) = Inl (unresolved (CompactionBlock c))"
| "wire_block (UrlImageBlock url media) =
     Inr (JObj [(''type'', JStr ''image''), (''source'', JObj [(''type'', JStr ''url''), (''url'', JStr url)])])"
| "wire_block b = Inr (block_to_json b)"

definition wire_content :: "content \<Rightarrow> py_error + json" where
  "wire_content c = (case c of
      NoContent \<Rightarrow> Inr (JStr []) | Text t \<Rightarrow> Inr (JStr t)
    | Blocks bs \<Rightarrow> try_bind (try_map wire_block bs) (\<lambda>js. Inr (JList js)))"

definition call_input :: "tool_call \<Rightarrow> json" where
  "call_input c = (case json_loads (if fn_arguments (tc_function c) = [] then ''{}'' else fn_arguments (tc_function c)) of
      Some j \<Rightarrow> j | None \<Rightarrow> JObj [])"

definition tool_use :: "tool_call \<Rightarrow> json" where
  "tool_use c = JObj [(''type'', JStr ''tool_use''), (''id'', JStr (tc_id c)), (''name'', JStr (fn_name (tc_function c))),
     (''input'', call_input c)]"

definition content_truthy :: "content \<Rightarrow> bool" where
  "content_truthy c = (case c of NoContent \<Rightarrow> False | Text t \<Rightarrow> t \<noteq> [] | Blocks bs \<Rightarrow> bs \<noteq> [])"

definition thinking_blocks :: "message \<Rightarrow> json list" where
  "thinking_blocks m = (case (m_thought_summary m, m_thinking_signature m) of
      (Some t, Some g) \<Rightarrow> (if t \<noteq> [] \<and> g \<noteq> []
        then [JObj [(''type'', JStr ''thinking''), (''thinking'', JStr t), (''signature'', JStr g)]] else [])
    | _ \<Rightarrow> [])"

definition assistant_blocks :: "message \<Rightarrow> json list" where
  "assistant_blocks m = thinking_blocks m
     @ (if content_truthy (m_content m) then [JObj [(''type'', JStr ''text''), (''text'', content_to_json (m_content m))]] else [])
     @ map tool_use (calls_of m)"

text \<open>A converted message: its role and its content.\<close>

type_synonym wire_message = "string \<times> json"

definition tool_result_block :: "message \<Rightarrow> json \<Rightarrow> json" where
  "tool_result_block m content = JObj [(''type'', JStr ''tool_result''), (''tool_use_id'', JStr (or_else (m_tool_call_id m) [])),
     (''content'', content)]"

definition add_result :: "json \<Rightarrow> wire_message list \<Rightarrow> wire_message list" where
  "add_result r converted = (if converted = [] then [(''user'', JList [r])] else
     case last converted of
       (role, JList blocks) \<Rightarrow> (if role = ''user'' then butlast converted @ [(role, JList (blocks @ [r]))]
          else converted @ [(''user'', JList [r])])
     | _ \<Rightarrow> converted @ [(''user'', JList [r])])"

definition convert_one :: "wire_message list \<Rightarrow> message \<Rightarrow> py_error + wire_message list" where
  "convert_one converted m =
     (if m_role m = ''user'' then try_bind (wire_content (m_content m)) (\<lambda>c. Inr (converted @ [(''user'', c)]))
      else if m_role m = ''assistant''
      then Inr (if assistant_blocks m = [] then converted else converted @ [(''assistant'', JList (assistant_blocks m))])
      else if m_role m = ''tool''
      then try_bind (wire_content (m_content m)) (\<lambda>c. Inr (add_result (tool_result_block m c) converted))
      else Inr converted)"

fun convert_onto :: "wire_message list \<Rightarrow> message list \<Rightarrow> py_error + wire_message list" where
  "convert_onto converted [] = Inr converted"
| "convert_onto converted (m # ms) = try_bind (convert_one converted m) (\<lambda>converted. convert_onto converted ms)"

definition anthropic_messages :: "message list \<Rightarrow> py_error + wire_message list" where
  "anthropic_messages ms = convert_onto [] ms"

definition wire_json :: "wire_message \<Rightarrow> json" where
  "wire_json w = JObj [(''role'', JStr (fst w)), (''content'', snd w)]"

definition cache_last :: "json_obj list \<Rightarrow> json_obj list" where
  "cache_last tools = (if tools = [] then [] else butlast tools @ [dset ''cache_control'' ephemeral_cache (last tools)])"

definition thinking_params :: "'w anthropic \<Rightarrow> json_obj" where
  "thinking_params p = (if \<not> anthropic_reasons p then [] else if uses_adaptive p
     then [(''thinking'', JObj [(''type'', JStr ''adaptive'')]),
           (''output_config'', JObj [(''effort'', JStr (adaptive_effort (an_thinking_level p)))])]
     else [(''thinking'', JObj [(''type'', JStr ''enabled''), (''budget_tokens'', JInt (thinking_budget (an_thinking_level p)))])])"

definition anthropic_params ::
  "(json \<Rightarrow> int option) \<Rightarrow> (nat \<Rightarrow> string) \<Rightarrow> 'w anthropic \<Rightarrow> string \<Rightarrow> message raw list \<Rightarrow> json list \<Rightarrow> py_error + json_obj" where
  "anthropic_params as_int hex p system raws tools =
     try_bind (sanitize_tool_messages as_int hex raws) (\<lambda>ms.
     try_bind (anthropic_messages ms) (\<lambda>converted. Inr (
       [(''model'', JStr (an_model_id p)), (''messages'', JList (map wire_json converted)), (''max_tokens'', JInt max_tokens),
        (''cache_control'', ephemeral_cache)]
       @ (if system = [] then [] else [(''system'', JList [JObj [(''type'', JStr ''text''), (''text'', JStr system),
            (''cache_control'', ephemeral_cache)]])])
       @ (if anthropic_tools tools = [] then [] else [(''tools'', JList (map JObj (cache_last (anthropic_tools tools))))])
       @ thinking_params p)))"

section \<open>The stream\<close>

record 's anthropic_api =
  aa_enter :: "json_obj \<Rightarrow> ('s, unit) act"
  aa_next :: "('s, json option) act"
  aa_final :: "('s, json) act"
  aa_exit :: "('s, unit) act"

text \<open>Blocks of tool calls by their index, as the events name it.\<close>

type_synonym open_blocks = "(json, string) dict"

definition event_index :: "json \<Rightarrow> json" where
  "event_index event = attr_or event ''index'' (JInt (-1))"

definition block_started :: "'s stream_listener option \<Rightarrow> json \<Rightarrow> open_blocks \<Rightarrow> ('s, open_blocks) act" where
  "block_started l event ids = (let block = attr event ''content_block'' in
     if type_is block ''tool_use'' \<and> attr_str block ''id'' \<noteq> []
     then thn (tell l (ToolCallStart (attr_str block ''id'') (attr_str block ''name'')))
            (ret (dset (event_index event) (attr_str block ''id'') ids))
     else ret ids)"

definition block_stopped :: "'s stream_listener option \<Rightarrow> json \<Rightarrow> open_blocks \<Rightarrow> ('s, open_blocks) act" where
  "block_stopped l event ids = thn (case dget ids (event_index event) of None \<Rightarrow> ret () | Some i \<Rightarrow> tell l (ArgsComplete i))
     (ret (AList.delete (event_index event) ids))"

definition block_delta :: "'s stream_listener option \<Rightarrow> json \<Rightarrow> open_blocks \<Rightarrow> ('s, open_blocks) act" where
  "block_delta l event ids = (let delta = attr event ''delta'' in
     thn (if type_is delta ''text_delta'' then tell l (TextDelta (attr_str delta ''text''))
          else if type_is delta ''thinking_delta'' then tell l (ThinkingDelta (attr_str delta ''thinking''))
          else if type_is delta ''input_json_delta''
          then (case dget ids (event_index event) of
                  None \<Rightarrow> ret ()
                | Some i \<Rightarrow> whenM (attr_str delta ''partial_json'' \<noteq> []) (tell l (ArgsDelta i (attr_str delta ''partial_json''))))
          else ret ())
     (ret ids))"

definition anthropic_event :: "'s stream_listener option \<Rightarrow> json \<Rightarrow> open_blocks \<Rightarrow> ('s, open_blocks) act" where
  "anthropic_event l event ids = thn (check_cancel l)
     (if type_is event ''content_block_start'' then block_started l event ids
      else if type_is event ''content_block_stop'' then block_stopped l event ids
      else if type_is event ''content_block_delta'' then block_delta l event ids
      else ret ids)"

fun anthropic_events :: "nat \<Rightarrow> 's anthropic_api \<Rightarrow> 's stream_listener option \<Rightarrow> open_blocks \<Rightarrow> ('s, unit) run" where
  "anthropic_events 0 api l ids = (\<lambda>_. None)"
| "anthropic_events (Suc n) api l ids = followed (once (aa_next api)) (\<lambda>event. case event of
      None \<Rightarrow> once (ret ())
    | Some event \<Rightarrow> followed (once (anthropic_event l event ids)) (\<lambda>ids. anthropic_events n api l ids))"

section \<open>The response\<close>

definition block_call :: "json \<Rightarrow> tool_call" where
  "block_call block = (let input = attr block ''input'' in
     \<lparr>tc_id = attr_str block ''id'', tc_function = \<lparr>fn_name = attr_str block ''name'',
        fn_arguments = json_dumps (if truthy input then input else JObj [])\<rparr>,
      tc_type = ''function'', tc_thought_signature = None, tc_extra_content = []\<rparr>)"

definition blocks_of :: "string \<Rightarrow> json \<Rightarrow> json list" where
  "blocks_of t response = filter (\<lambda>b. type_is b t) (attr_list response ''content'')"

definition zero_if_none :: "int option \<Rightarrow> int" where
  "zero_if_none x = or_else x 0"

text \<open>The report's input counts what the cache gave and took; it has no input when none was reported.\<close>

definition reported_input :: "(json \<Rightarrow> int option) \<Rightarrow> json \<Rightarrow> int option" where
  "reported_input to_int usage = (let uncached = usage_int to_int usage ''input_tokens'';
       read = usage_int to_int usage ''cache_read_input_tokens''; written = usage_int to_int usage ''cache_creation_input_tokens'' in
     if uncached = None \<and> read = None \<and> written = None then None
     else Some (zero_if_none uncached + zero_if_none read + zero_if_none written))"

definition reported_total :: "(json \<Rightarrow> int option) \<Rightarrow> json \<Rightarrow> int" where
  "reported_total to_int usage = zero_if_none (reported_input to_int usage) + zero_if_none (usage_int to_int usage ''output_tokens'')"

definition usage_report :: "(json \<Rightarrow> int option) \<Rightarrow> json \<Rightarrow> json_obj" where
  "usage_report to_int usage =
     (case reported_input to_int usage of None \<Rightarrow> [] | Some n \<Rightarrow> [(''input_tokens'', JInt n),
        (''input_tokens_details'', JObj [(''cached_tokens'', JInt (zero_if_none (usage_int to_int usage ''cache_read_input_tokens''))),
           (''cache_write_tokens'', JInt (zero_if_none (usage_int to_int usage ''cache_creation_input_tokens'')))])])
     @ (case usage_int to_int usage ''output_tokens'' of None \<Rightarrow> [] | Some n \<Rightarrow> [(''output_tokens'', JInt n)])
     @ [(''total_tokens'', JInt (reported_total to_int usage))]"

definition anthropic_message :: "(json \<Rightarrow> int option) \<Rightarrow> json \<Rightarrow> message" where
  "anthropic_message to_int response = (let usage = attr response ''usage''; thoughts = blocks_of ''thinking'' response in
     (new_message ''assistant'' (text_content (concat (map (\<lambda>b. attr_str b ''text'') (blocks_of ''text'' response)))))
     \<lparr>m_tool_calls := some_list (map block_call (blocks_of ''tool_use'' response)),
      m_thought_summary := some_text (concat (map (\<lambda>b. attr_str b ''thinking'') thoughts)),
      m_thinking_signature := (case List.map_filter (\<lambda>b. attr_opt b ''signature'') thoughts of [] \<Rightarrow> None | g # gs \<Rightarrow> Some g),
      m_input_tokens := reported_input to_int usage, m_output_tokens := usage_int to_int usage ''output_tokens'',
      m_cache_read_tokens := usage_int to_int usage ''cache_read_input_tokens'',
      m_cache_write_tokens := usage_int to_int usage ''cache_creation_input_tokens''\<rparr>)"

section \<open>A call of the model\<close>

definition anthropic_stream ::
  "nat \<Rightarrow> (json \<Rightarrow> int option) \<Rightarrow> 'w anthropic \<Rightarrow> (limiter \<times> 'w) anthropic_api \<Rightarrow> (limiter \<times> 'w) stream_listener option
     \<Rightarrow> json_obj \<Rightarrow> (limiter \<times> 'w, message \<times> int) run" where
  "anthropic_stream n to_int p api l params =
     followed (once (aa_enter api params)) (\<lambda>_.
     followed (at_exit (followed (if l = None then once (ret ()) else anthropic_events n api l []) (\<lambda>_. once (aa_final api))) (aa_exit api)) (\<lambda>response.
     let usage = attr response ''usage'' in
     followed (once (whenM (usage \<noteq> JNull) (tell l (UsageNote (attr_str response ''id'') (an_model_id p) (usage_report to_int usage)
         (if attr_str response ''stop_reason'' = [] then ''unknown'' else attr_str response ''stop_reason''))))) (\<lambda>_.
     once (ret (anthropic_message to_int response, reported_total to_int usage)))))"

text \<open>\<open>max_output_tokens\<close>: the cap of this call, and a thinking budget kept below it.\<close>

definition capped_params :: "int option \<Rightarrow> json_obj \<Rightarrow> json_obj" where
  "capped_params cap params = (case cap of None \<Rightarrow> params
     | Some limit \<Rightarrow> (let params = dset ''max_tokens'' (JInt limit) params in
         case dget params ''thinking'' of
           Some (JObj t) \<Rightarrow> (case (jget t ''type'' JNull, jget t ''budget_tokens'' (JInt 0)) of
               (JStr k, JInt b) \<Rightarrow> (if k = ''enabled'' then dset ''thinking'' (JObj [(''type'', JStr ''enabled''),
                   (''budget_tokens'', JInt (min b (limit div 2)))]) params else params)
             | _ \<Rightarrow> params)
         | _ \<Rightarrow> params))"

definition output_ceiling :: "json_obj \<Rightarrow> int" where
  "output_ceiling params = (case dget params ''max_tokens'' of Some (JInt n) \<Rightarrow> (if n = 0 then max_tokens else n) | _ \<Rightarrow> max_tokens)"

definition body_of :: "('s, message \<times> int) run \<Rightarrow> 's \<Rightarrow> (((py_error + message) \<times> int option) \<times> 's) option" where
  "body_of m s = (case m s of None \<Rightarrow> None
     | Some (Inl x, t) \<Rightarrow> Some ((Inl x, None), t)
     | Some (Inr (msg, actual), t) \<Rightarrow> Some ((Inr msg, Some actual), t))"

definition anthropic_call ::
  "nat \<Rightarrow> (json \<Rightarrow> int option) \<Rightarrow> 'w anthropic \<Rightarrow> (limiter \<times> 'w) anthropic_api \<Rightarrow> (limiter \<times> 'w) stream_listener option
     \<Rightarrow> message list \<Rightarrow> json_obj \<Rightarrow> (limiter \<times> 'w, message) run" where
  "anthropic_call n to_int p api l ms params = (case an_limiter p of
      None \<Rightarrow> followed (anthropic_stream n to_int p api l params) (\<lambda>(msg, _). once (ret msg))
    | Some le \<Rightarrow> reserve n le (call_tokens (anthropic_reasons p) (output_ceiling params) ms)
        (body_of (anthropic_stream n to_int p api l params)))"

definition anthropic_complete ::
  "nat \<Rightarrow> (json \<Rightarrow> int option) \<Rightarrow> (json \<Rightarrow> int option) \<Rightarrow> (nat \<Rightarrow> string) \<Rightarrow> 'w anthropic \<Rightarrow> (limiter \<times> 'w) anthropic_api
     \<Rightarrow> string \<Rightarrow> message list \<Rightarrow> json list \<Rightarrow> (limiter \<times> 'w) stream_listener option \<Rightarrow> string list \<Rightarrow> int option
     \<Rightarrow> (limiter \<times> 'w, message) run" where
  "anthropic_complete n as_int to_int hex p api system ms tools l allowed cap =
     (if allowed \<noteq> []
      then once (raise (NotImplementedError ''Anthropic does not support allowed_tools with a stable full tool list''))
      else followed (once (from_res (anthropic_params as_int hex p system (map Instance ms) tools)))
        (\<lambda>params. anthropic_call n to_int p api l ms (capped_params cap params)))"

section \<open>What a request holds\<close>

text \<open>The ids the blocks of a content name, by the blocks' type and the field of the id.\<close>

definition block_ids :: "string \<Rightarrow> string \<Rightarrow> json \<Rightarrow> string list" where
  "block_ids t k content = (case content of JList js \<Rightarrow> map (\<lambda>j. attr_str j k) (filter (\<lambda>j. type_is j t) js) | _ \<Rightarrow> [])"

definition wire_uses :: "wire_message list \<Rightarrow> string list" where
  "wire_uses ws = concat (map (\<lambda>w. block_ids ''tool_use'' ''id'' (snd w)) ws)"

definition wire_results :: "wire_message list \<Rightarrow> string list" where
  "wire_results ws = concat (map (\<lambda>w. block_ids ''tool_result'' ''tool_use_id'' (snd w)) ws)"

lemma wire_append [simp]:
  "wire_uses (ws @ vs) = wire_uses ws @ wire_uses vs" "wire_results (ws @ vs) = wire_results ws @ wire_results vs"
  "wire_uses [] = []" "wire_results [] = []"
  by (simp_all add: wire_uses_def wire_results_def)

lemma wire_block_plain: "wire_block b = Inr j \<Longrightarrow> \<not> type_is j ''tool_use'' \<and> \<not> type_is j ''tool_result''"
  by (cases b rule: wire_block.cases) (auto simp: attr_simps)

lemma wire_content_plain:
  assumes "wire_content c = Inr j"
  shows "block_ids ''tool_use'' k j = [] \<and> block_ids ''tool_result'' k j = []"
proof (cases c)
  case (Blocks bs)
  have "try_map wire_block bs = Inr js \<Longrightarrow> \<forall>j\<in>set js. \<not> type_is j ''tool_use'' \<and> \<not> type_is j ''tool_result''" for js
    by (induction bs arbitrary: js) (auto simp: try_bind_Inr wire_block_plain)
  with assms Blocks show ?thesis by (auto simp: wire_content_def try_bind_Inr block_ids_def filter_empty_conv)
qed (use assms in \<open>auto simp: wire_content_def block_ids_def\<close>)

lemma assistant_block_ids:
  "block_ids ''tool_use'' ''id'' (JList (assistant_blocks m)) = map tc_id (calls_of m)"
  "block_ids ''tool_result'' ''tool_use_id'' (JList (assistant_blocks m)) = []"
proof -
  have "filter (\<lambda>j. type_is j t) (thinking_blocks m) = []" if "t \<noteq> ''thinking''" for t
    using that by (auto simp: thinking_blocks_def attr_simps split: option.split)
  then have "filter (\<lambda>j. type_is j ''tool_use'') (assistant_blocks m) = map tool_use (calls_of m)"
    "filter (\<lambda>j. type_is j ''tool_result'') (assistant_blocks m) = []"
    by (auto simp: assistant_blocks_def filter_empty_conv filter_id_conv tool_use_def attr_simps)
  then show "block_ids ''tool_use'' ''id'' (JList (assistant_blocks m)) = map tc_id (calls_of m)"
    "block_ids ''tool_result'' ''tool_use_id'' (JList (assistant_blocks m)) = []"
    by (simp_all add: block_ids_def tool_use_def attr_simps)
qed

lemma result_block_ids [simp]:
  "type_is (tool_result_block m c) t \<longleftrightarrow> t = ''tool_result''" "attr_str (tool_result_block m c) ''tool_use_id'' = or_else (m_tool_call_id m) []"
  by (auto simp: tool_result_block_def attr_simps)

lemma add_result_ids:
  "wire_uses (add_result (tool_result_block m c) ws) = wire_uses ws"
  "wire_results (add_result (tool_result_block m c) ws) = wire_results ws @ [or_else (m_tool_call_id m) []]"
proof -
  have new: "wire_uses [(''user'', JList [tool_result_block m c])] = []"
    "wire_results [(''user'', JList [tool_result_block m c])] = [or_else (m_tool_call_id m) []]"
    by (simp_all add: wire_uses_def wire_results_def block_ids_def)
  have add: "wire_uses (us @ [(r, JList (bs @ [tool_result_block m c]))]) = wire_uses (us @ [(r, JList bs)])"
    "wire_results (us @ [(r, JList (bs @ [tool_result_block m c]))]) = wire_results (us @ [(r, JList bs)]) @ [or_else (m_tool_call_id m) []]"
    for us r bs
    by (simp_all add: wire_uses_def wire_results_def block_ids_def)
  show "wire_uses (add_result (tool_result_block m c) ws) = wire_uses ws"
    "wire_results (add_result (tool_result_block m c) ws) = wire_results ws @ [or_else (m_tool_call_id m) []]"
  proof (atomize (full), cases ws rule: rev_cases)
    case (snoc us w)
    obtain r d where w: "w = (r, d)" by (cases w)
    show "wire_uses (add_result (tool_result_block m c) ws) = wire_uses ws
        \<and> wire_results (add_result (tool_result_block m c) ws) = wire_results ws @ [or_else (m_tool_call_id m) []]"
    proof (cases "\<exists>bs. d = JList bs \<and> r = ''user''")
      case True
      then obtain bs where "d = JList bs" "r = ''user''" by blast
      then have "add_result (tool_result_block m c) ws = us @ [(r, JList (bs @ [tool_result_block m c]))]" "ws = us @ [(r, JList bs)]"
        by (simp_all add: add_result_def snoc w)
      then show ?thesis by (simp only: add)
    next
      case False
      then have "add_result (tool_result_block m c) ws = ws @ [(''user'', JList [tool_result_block m c])]"
        by (cases d) (auto simp: add_result_def snoc w)
      then show ?thesis by (simp only: wire_append new) simp
    qed
  qed (simp add: add_result_def new)
qed

lemma convert_one_ids:
  assumes "convert_one ws m = Inr vs"
  shows "wire_uses vs = wire_uses ws @ requested_ids [m]" and "wire_results vs = wire_results ws @ result_ids [m]"
proof -
  have "wire_uses [(r, c)] = block_ids ''tool_use'' ''id'' c" "wire_results [(r, c)] = block_ids ''tool_result'' ''tool_use_id'' c" for r c
    by (simp_all add: wire_uses_def wire_results_def)
  moreover have "assistant_blocks m = [] \<Longrightarrow> calls_of m = []" by (simp add: assistant_blocks_def)
  ultimately show "wire_uses vs = wire_uses ws @ requested_ids [m]" and "wire_results vs = wire_results ws @ result_ids [m]"
    using assms
    by (auto simp: convert_one_def try_bind_Inr requested_ids_def result_ids_def is_tool_def add_result_ids wire_content_plain
        assistant_block_ids split: if_splits)
qed

lemma convert_onto_ids:
  "convert_onto ws ms = Inr vs \<Longrightarrow> wire_uses vs = wire_uses ws @ requested_ids ms \<and> wire_results vs = wire_results ws @ result_ids ms"
proof (induction ms arbitrary: ws)
  case (Cons m ms)
  then obtain us where u: "convert_one ws m = Inr us" "convert_onto us ms = Inr vs" by (auto simp: try_bind_Inr)
  from Cons.IH [OF u(2)] convert_one_ids [OF u(1)] show ?case by (simp add: requested_ids_def result_ids_def)
qed (simp add: requested_ids_def result_ids_def)

interpretation aw: tool_wire anthropic_messages "\<lambda>_. True" wire_uses wire_results
  by unfold_locales (simp_all add: anthropic_messages_def convert_onto_ids)

section \<open>A reply sent back\<close>

definition thinking_reply :: "string \<times> string \<Rightarrow> json" where
  "thinking_reply tg = JObj [(''type'', JStr ''thinking''), (''thinking'', JStr (fst tg)), (''signature'', JStr (snd tg))]"

definition text_reply :: "string \<Rightarrow> json" where
  "text_reply t = JObj [(''type'', JStr ''text''), (''text'', JStr t)]"

definition use_reply :: "string \<times> string \<times> json_obj \<Rightarrow> json" where
  "use_reply u = JObj [(''type'', JStr ''tool_use''), (''id'', JStr (fst u)), (''name'', JStr (fst (snd u))), (''input'', JObj (snd (snd u)))]"

definition reply_blocks :: "(string \<times> string) option \<Rightarrow> string option \<Rightarrow> (string \<times> string \<times> json_obj) list \<Rightarrow> json list" where
  "reply_blocks thought text uses = (case thought of None \<Rightarrow> [] | Some tg \<Rightarrow> [thinking_reply tg])
     @ (case text of None \<Rightarrow> [] | Some t \<Rightarrow> [text_reply t]) @ map use_reply uses"

definition reply_of :: "json list \<Rightarrow> json" where
  "reply_of blocks = JObj [(''type'', JStr ''message''), (''content'', JList blocks)]"

lemma reply_types [simp]:
  "type_is (thinking_reply tg) t \<longleftrightarrow> t = ''thinking''" "type_is (text_reply x) t \<longleftrightarrow> t = ''text''" "type_is (use_reply u) t \<longleftrightarrow> t = ''tool_use''"
  by (auto simp: thinking_reply_def text_reply_def use_reply_def attr_simps)

lemma reply_fields [simp]:
  "attr_str (thinking_reply tg) ''thinking'' = fst tg" "attr_opt (thinking_reply tg) ''signature'' = Some (snd tg)"
  "attr_str (text_reply x) ''text'' = x"
  by (simp_all add: thinking_reply_def text_reply_def attr_simps)

lemma blocks_of_reply:
  "blocks_of ''thinking'' (reply_of (reply_blocks thought text uses)) = (case thought of None \<Rightarrow> [] | Some tg \<Rightarrow> [thinking_reply tg])"
  "blocks_of ''text'' (reply_of (reply_blocks thought text uses)) = (case text of None \<Rightarrow> [] | Some t \<Rightarrow> [text_reply t])"
  "blocks_of ''tool_use'' (reply_of (reply_blocks thought text uses)) = map use_reply uses"
proof -
  have "attr_list (reply_of bs) ''content'' = bs" for bs by (simp add: reply_of_def attr_simps)
  then show
    "blocks_of ''thinking'' (reply_of (reply_blocks thought text uses)) = (case thought of None \<Rightarrow> [] | Some tg \<Rightarrow> [thinking_reply tg])"
    "blocks_of ''text'' (reply_of (reply_blocks thought text uses)) = (case text of None \<Rightarrow> [] | Some t \<Rightarrow> [text_reply t])"
    "blocks_of ''tool_use'' (reply_of (reply_blocks thought text uses)) = map use_reply uses"
    by (auto simp: blocks_of_def reply_blocks_def filter_empty_conv filter_id_conv split: option.splits)
qed

lemma use_sent_back: "json_ok (JObj (snd (snd u))) \<Longrightarrow> tool_use (block_call (use_reply u)) = use_reply u"
proof -
  assume ok: "json_ok (JObj (snd (snd u)))"
  then have "json_loads (json_dumps (JObj (snd (snd u)))) = Some (JObj (snd (snd u)))" by (rule loads_dumps)
  moreover have "json_dumps (JObj d) \<noteq> []" for d by simp
  moreover have "attr (use_reply u) ''input'' = JObj (snd (snd u))" by (simp add: use_reply_def attr_simps)
  moreover have "attr_str (use_reply u) ''id'' = fst u" "attr_str (use_reply u) ''name'' = fst (snd u)"
    by (simp_all add: use_reply_def attr_simps)
  ultimately show ?thesis
    by (cases "snd (snd u)") (auto simp: tool_use_def block_call_def call_input_def use_reply_def Let_def simp del: json_dumps.simps)
qed

text \<open>What the model answered is what it is shown again: a response of at most one signed thought, at most one
  text and any calls, read into a message and converted for the next request, gives the same blocks, with
  the arguments of every call the same JSON value after their passage through text.\<close>

theorem anthropic_reply_round_trip:
  assumes "pred_option (\<lambda>tg. fst tg \<noteq> [] \<and> snd tg \<noteq> []) thought" and "text \<noteq> Some []"
    and "list_all (\<lambda>u. json_ok (JObj (snd (snd u)))) uses"
  shows "assistant_blocks (anthropic_message to_int (reply_of (reply_blocks thought text uses))) = reply_blocks thought text uses"
proof -
  let ?m = "anthropic_message to_int (reply_of (reply_blocks thought text uses))"
  have "calls_of ?m = map (\<lambda>u. block_call (use_reply u)) uses"
    by (simp add: anthropic_message_def Let_def blocks_of_reply calls_of_def some_list_def comp_def)
  with assms(3) have "map tool_use (calls_of ?m) = map use_reply uses" by (simp add: list_all_iff use_sent_back)
  moreover have "thinking_blocks ?m = (case thought of None \<Rightarrow> [] | Some tg \<Rightarrow> [thinking_reply tg])"
  proof (cases thought)
    case (Some tg)
    with assms(1) have "m_thought_summary ?m = Some (fst tg)" "m_thinking_signature ?m = Some (snd tg)"
      by (simp_all add: anthropic_message_def Let_def blocks_of_reply some_text_def List.map_filter_def)
    with Some assms(1) show ?thesis by (simp add: thinking_blocks_def thinking_reply_def)
  qed (simp add: thinking_blocks_def anthropic_message_def Let_def blocks_of_reply some_text_def)
  moreover have "(if content_truthy (m_content ?m) then [JObj [(''type'', JStr ''text''), (''text'', content_to_json (m_content ?m))]] else [])
      = (case text of None \<Rightarrow> [] | Some t \<Rightarrow> [text_reply t])"
    using assms(2)
    by (auto simp: anthropic_message_def Let_def blocks_of_reply new_message_def text_content_def content_truthy_def content_to_json_def
        attr_simps text_reply_def split: option.split)
  ultimately have "assistant_blocks ?m = (case thought of None \<Rightarrow> [] | Some tg \<Rightarrow> [thinking_reply tg])
      @ (case text of None \<Rightarrow> [] | Some t \<Rightarrow> [text_reply t]) @ map use_reply uses"
    by (simp only: assistant_blocks_def)
  then show ?thesis by (rule trans) (simp add: reply_blocks_def)
qed

theorem anthropic_reply_round_trip_witness:
  "assistant_blocks (anthropic_message (\<lambda>_. None) (reply_of (reply_blocks (Some (''why'', ''sig'')) (Some ''Done.'')
       [(''c1'', ''read'', [(''path'', JStr ''a''), (''n'', JInt 3)]), (''c2'', ''list'', [])])))
     = reply_blocks (Some (''why'', ''sig'')) (Some ''Done.'') [(''c1'', ''read'', [(''path'', JStr ''a''), (''n'', JInt 3)]), (''c2'', ''list'', [])]"
  by (rule anthropic_reply_round_trip) simp_all

text \<open>The thinking budget of a capped call is at most half its cap, so below \<open>max_tokens\<close>.\<close>

lemma capped_thinking:
  assumes "anthropic_params as_int hex p system raws tools = Inr params" and "0 < limit"
    and "dget (capped_params (Some limit) params) ''thinking'' = Some (JObj t)" and "dget t ''budget_tokens'' = Some (JInt b)"
  shows "2 * b \<le> limit \<and> dget (capped_params (Some limit) params) ''max_tokens'' = Some (JInt limit)"
proof -
  have "dget params ''thinking'' = dget (thinking_params p) ''thinking''"
    using assms(1) by (auto simp: anthropic_params_def try_bind_Inr)
  with assms(2-4) show ?thesis
    by (auto simp: capped_params_def Let_def thinking_params_def jget_def split: if_splits)
qed

end
