(* ===== verification/Openai.thy ===== *)
theory Openai
  imports Provider_Stream
begin

text \<open>
  The adapter of OpenAI's Responses API (\<open>actant/llm/providers/openai.py\<close>): its limits, the request, the
  stream with its idle bounds and its salvage of a stalled tool call, what is worth another attempt, and the
  attempts of one call under its limiter. The service is \<open>openai_api\<close>; a bound that runs out is a
  \<open>LostConnection\<close> its action raises. \<open>to_int\<close> is \<open>int\<close> of a count that is no integer; \<open>hex n\<close> the
  \<open>n\<close>-th identifier drawn.
\<close>

section \<open>The model\<close>

record 'w openai =
  op_model_id :: string
  op_thinking_level :: string
  op_cache_key :: string
  op_idle_s :: rat
  op_reasoning_idle_s :: rat
  op_turn_s :: rat
  op_attempts :: nat
  op_context_window :: "int option"
  op_max_images :: int
  op_azure :: bool
  op_limiter :: "'w limiter_env option"

definition azure_request_images :: int where "azure_request_images = 50"

definition openai_request_images :: int where "openai_request_images = 1500"

definition check_cache_key :: "string \<Rightarrow> py_error + string" where
  "check_cache_key key = (if length key > 64
     then Inl (ValueError (''cache_key is '' @ nat_str (length key) @ '' characters; OpenAI allows 64'')) else Inr key)"

text \<open>\<open>__init__\<close>, less the client it builds; \<open>azure_client\<close> says whether it was given an Azure one.\<close>

definition openai_init :: "bool \<Rightarrow> int option \<Rightarrow> 'w openai \<Rightarrow> py_error + 'w openai" where
  "openai_init azure_client max_images p =
     try_bind (check_cache_key (op_cache_key p)) (\<lambda>key.
     let azure = op_azure p \<or> azure_client in
     if op_idle_s p \<le> 0 \<or> op_reasoning_idle_s p \<le> 0 \<or> op_turn_s p \<le> 0 \<or> op_attempts p < 1
     then Inl (ValueError ''idle_s, reasoning_idle_s, turn_s and attempts must be positive'')
     else Inr (p\<lparr>op_azure := azure, op_max_images := (case max_images of
         Some n \<Rightarrow> if n = 0 then (if azure then azure_request_images else openai_request_images) else n
       | None \<Rightarrow> if azure then azure_request_images else openai_request_images)\<rparr>))"

definition reasoning_models :: "string list" where
  "reasoning_models = [''gpt-6'', ''gpt-5'', ''o1'', ''o3'', ''o4'']"

definition openai_reasons :: "'w openai \<Rightarrow> bool" where
  "openai_reasons p = list_ex (\<lambda>pre. Texts.starts_with pre (op_model_id p)) reasoning_models"

definition reasoning_effort :: "string \<Rightarrow> string" where
  "reasoning_effort level = (if level = ''low'' then ''low'' else if level = ''high'' then ''high'' else ''medium'')"

section \<open>The request\<close>

definition input_text :: "string \<Rightarrow> json" where
  "input_text t = JObj [(''type'', JStr ''input_text''), (''text'', JStr t)]"

fun user_part :: "block \<Rightarrow> py_error + json" where
  "user_part (TextBlock t) = Inr (input_text t)"
| "user_part (AssetBlock k m r) = Inl (unresolved (AssetBlock k m r))"
| "user_part (CompactionBlock c) = Inl (unresolved (CompactionBlock c))"
| "user_part b = Inr (convert_image_source b)"

definition user_parts :: "content \<Rightarrow> py_error + json list" where
  "user_parts c = (case c of
      NoContent \<Rightarrow> Inr [input_text []]
    | Text t \<Rightarrow> Inr [input_text t]
    | Blocks bs \<Rightarrow> try_bind (try_map user_part bs) (\<lambda>js. Inr (if js = [] then [input_text []] else js)))"

definition openai_tool :: "json_obj \<Rightarrow> json" where
  "openai_tool f = JObj [(''type'', JStr ''function''), (''name'', jget f ''name'' (JStr [])),
     (''description'', jget f ''description'' (JStr [])),
     (''parameters'', normalize_json_schema (jget f ''parameters'' (JObj []))), (''strict'', JBool False)]"

definition openai_tools :: "json list \<Rightarrow> json list" where
  "openai_tools tools = map openai_tool (List.map_filter tool_function tools)"

fun call_items :: "(nat \<Rightarrow> string) \<Rightarrow> nat \<Rightarrow> tool_call list \<Rightarrow> json list \<times> nat" where
  "call_items hex n [] = ([], n)"
| "call_items hex n (c # cs) = (let (i, n) = drawn_id hex n (tc_id c); (items, n) = call_items hex n cs in
     (JObj [(''type'', JStr ''function_call''), (''call_id'', JStr i), (''name'', JStr (fn_name (tc_function c))),
        (''arguments'', JStr (fn_arguments (tc_function c)))] # items, n))"

definition answer_item :: "message \<Rightarrow> json list" where
  "answer_item m = (let c = m_content m in
     if c = NoContent \<or> c = Text [] \<or> c = Blocks [] then []
     else [JObj [(''type'', JStr ''message''), (''role'', JStr ''assistant''),
       (''content'', JList [JObj [(''type'', JStr ''output_text''), (''text'', content_to_json c)]])]])"

definition assistant_items :: "(nat \<Rightarrow> string) \<Rightarrow> nat \<Rightarrow> message \<Rightarrow> json list \<times> nat" where
  "assistant_items hex n m = (let (items, n) = call_items hex n (calls_of m) in
     (or_else (m_reasoning_items m) [] @ items @ answer_item m, n))"

definition tool_output :: "message \<Rightarrow> py_error + json" where
  "tool_output m = try_bind (split_tool_content (m_content m)) (\<lambda>(text, images).
     if images \<noteq> [] then try_bind (user_parts (m_content m)) (\<lambda>js. Inr (JList js)) else Inr (JStr text))"

definition openai_items :: "(nat \<Rightarrow> string) \<Rightarrow> nat \<Rightarrow> message \<Rightarrow> py_error + json list \<times> nat" where
  "openai_items hex n m =
     (if m_role m = ''user''
      then try_bind (user_parts (m_content m)) (\<lambda>js. Inr ([JObj [(''type'', JStr ''message''), (''role'', JStr ''user''),
             (''content'', JList js)]], n))
      else if m_role m = ''assistant'' then Inr (assistant_items hex n m)
      else if m_role m = ''tool''
      then (let (i, n) = drawn_id hex n (or_else (m_tool_call_id m) []) in
        try_bind (tool_output m) (\<lambda>out. Inr ([JObj [(''type'', JStr ''function_call_output''), (''call_id'', JStr i), (''output'', out)]], n)))
      else Inr ([], n))"

fun openai_messages :: "(nat \<Rightarrow> string) \<Rightarrow> nat \<Rightarrow> message list \<Rightarrow> py_error + json list" where
  "openai_messages hex n [] = Inr []"
| "openai_messages hex n (m # ms) = try_bind (openai_items hex n m) (\<lambda>(items, n).
     try_bind (openai_messages hex n ms) (\<lambda>rest. Inr (items @ rest)))"

definition openai_params ::
  "(json \<Rightarrow> int option) \<Rightarrow> (nat \<Rightarrow> string) \<Rightarrow> 'w openai \<Rightarrow> string \<Rightarrow> message list \<Rightarrow> json list \<Rightarrow> py_error + json_obj" where
  "openai_params as_int hex p system ms tools =
     try_bind (sanitize_tool_messages as_int hex (map Instance ms)) (\<lambda>ms.
     try_bind (openai_messages hex 0 ms) (\<lambda>items. Inr (
       [(''model'', JStr (op_model_id p)), (''instructions'', JStr system), (''input'', JList items), (''store'', JBool False)]
       @ (if op_cache_key p = [] then [] else [(''prompt_cache_key'', JStr (op_cache_key p))])
       @ (if openai_tools tools = [] then [] else [(''tools'', JList (openai_tools tools))])
       @ (if openai_reasons p then [(''reasoning'', JObj [(''effort'', JStr (reasoning_effort (op_thinking_level p))),
              (''summary'', JStr ''auto'')]), (''include'', JList [JStr ''reasoning.encrypted_content''])] else []))))"

definition call_params :: "string list \<Rightarrow> int option \<Rightarrow> json_obj \<Rightarrow> json_obj" where
  "call_params allowed cap params = params
     @ (case cap of None \<Rightarrow> [] | Some n \<Rightarrow> [(''max_output_tokens'', JInt n)])
     @ (if allowed = [] then [] else [(''tool_choice'', JObj [(''type'', JStr ''allowed_tools''), (''mode'', JStr ''required''),
         (''tools'', JList (map (\<lambda>name. JObj [(''type'', JStr ''function''), (''name'', JStr name)]) allowed))])])"

section \<open>Failures\<close>

definition transient_codes :: "string list" where
  "transient_codes = [''server_error'', ''rate_limit_exceeded'']"

definition transient_code :: "json \<Rightarrow> bool" where
  "transient_code code \<longleftrightarrow> code \<in> JStr ` set transient_codes"

text \<open>A failed, incomplete or cancelled response.\<close>

definition unfinished :: "(json \<Rightarrow> int option) \<Rightarrow> json \<Rightarrow> py_error" where
  "unfinished to_int response = (let error = attr response ''error''; usage = attr response ''usage'';
       detail = (if error \<noteq> JNull then attr error ''code'' else attr (attr response ''incomplete_details'') ''reason'') in
     ProviderError (StreamInterrupted
       (''response ended with status '' @ py_str (attr response ''status'') @ (if truthy detail then '' ('' @ py_str detail @ '')'' else []))
       (attr response ''status'' = JStr ''failed'' \<and> error \<noteq> JNull \<and> transient_code (attr error ''code''))
       (usage_int to_int usage ''total_tokens'')))"

definition image_fetch_failure :: "int \<Rightarrow> string option \<Rightarrow> string option \<Rightarrow> bool" where
  "image_fetch_failure status code param \<longleftrightarrow> status = 400 \<and> code = Some ''invalid_value'' \<and> param = Some ''url''"

fun failure_transient :: "provider_failure \<Rightarrow> bool" where
  "failure_transient (StreamInterrupted m retryable tokens) = retryable"
| "failure_transient (ContentBlocked m) = False"
| "failure_transient (APIStatusError m status code param headers) =
     (status \<in> {408, 409, 429} \<or> status \<ge> 500 \<or> image_fetch_failure status code param)"
| "failure_transient (LostConnection t m) = True"
| "failure_transient (APIError m code kind) =
     ((code = None \<and> kind = None) \<or> (\<exists>c\<in>set transient_codes. code = Some c \<or> kind = Some c))"

fun is_transient :: "py_error \<Rightarrow> bool" where
  "is_transient (ProviderError f) = failure_transient f"
| "is_transient _ = False"

text \<open>\<open>float(...)\<close> of a header: \<open>None\<close> when it raises.\<close>

definition parse_retry_after :: "(string \<Rightarrow> rat option) \<Rightarrow> (string \<times> string) list \<Rightarrow> rat option" where
  "parse_retry_after read headers =
     (case Option.bind (dget headers ''retry-after-ms'') read of
        Some ms \<Rightarrow> Some (ms / 1000)
      | None \<Rightarrow> Option.bind (dget headers ''retry-after'') read)"

definition retry_after :: "(string \<Rightarrow> rat option) \<Rightarrow> py_error \<Rightarrow> rat" where
  "retry_after read e = (case e of
      ProviderError (APIStatusError m status code param headers) \<Rightarrow>
        (if status = 429 then max 0 (or_else (parse_retry_after read headers) 0) else 0)
    | _ \<Rightarrow> 0)"

section \<open>Salvage of a stalled call\<close>

text \<open>\<open>json.dumps\<close> with the compact separators.\<close>

fun json_compact :: "json \<Rightarrow> string" where
  "json_compact (JList xs) = CHR ''['' # join_with '','' (map json_compact xs) @ '']''"
| "json_compact (JObj kvs) = CHR 0x7B # join_with '','' (map (\<lambda>(k, v). dumps_str k @ '':'' @ json_compact v) kvs) @ [CHR 0x7D]"
| "json_compact j = json_dumps j"

definition rstrip_char :: "char \<Rightarrow> string \<Rightarrow> string" where
  "rstrip_char c s = rev (dropWhile (\<lambda>x. x = c) (rev s))"

definition whole_arguments :: "string \<Rightarrow> string option" where
  "whole_arguments text = (let body = rstrip_char (CHR '','') (py_strip text) in
     if \<not> Texts.starts_with [CHR 0x7B] body then None
     else case json_loads body of
       Some (JObj d) \<Rightarrow> Some (json_compact (JObj d))
     | _ \<Rightarrow> (case json_loads (body @ [CHR 0x7D]) of Some (JObj d) \<Rightarrow> Some (json_compact (JObj d)) | _ \<Rightarrow> None))"

definition trailing_space :: "string \<Rightarrow> nat" where
  "trailing_space s = length (takeWhile is_py_space (rev s))"

definition salvaged :: "string \<Rightarrow> string \<Rightarrow> string \<Rightarrow> message" where
  "salvaged call_id name arguments = (new_message ''assistant'' NoContent)\<lparr>m_tool_calls :=
     Some [\<lparr>tc_id = call_id, tc_function = \<lparr>fn_name = name, fn_arguments = arguments\<rparr>, tc_type = ''function'',
       tc_thought_signature = None, tc_extra_content = []\<rparr>]\<rparr>"

section \<open>The events of a stream\<close>

text \<open>What the listener's side remembers of the calls being streamed.\<close>

record tool_stream =
  ts_ids_by_key :: "(string, string) dict"
  ts_names_by_id :: "(string, string) dict"
  ts_started :: "string list"
  ts_drawn :: nat

definition new_tool_stream :: tool_stream where
  "new_tool_stream = \<lparr>ts_ids_by_key = [], ts_names_by_id = [], ts_started = [], ts_drawn = 0\<rparr>"

definition stream_keys :: "json \<Rightarrow> string list" where
  "stream_keys obj =
     concat (map (\<lambda>a. if attr_str obj a \<noteq> [] then [a @ '':'' @ attr_str obj a] else []) [''item_id'', ''id''])
     @ (case attr obj ''output_index'' of JInt i \<Rightarrow> [''output_index:'' @ int_str i] | _ \<Rightarrow> [])"

definition remember_call :: "json \<Rightarrow> json \<Rightarrow> string \<Rightarrow> string \<Rightarrow> tool_stream \<Rightarrow> tool_stream" where
  "remember_call event item i name ts = ts\<lparr>ts_names_by_id := dset i name (ts_names_by_id ts),
     ts_ids_by_key := fold (\<lambda>k. dset k i) (stream_keys event @ stream_keys item) (ts_ids_by_key ts)\<rparr>"

definition lookup_call :: "json \<Rightarrow> tool_stream \<Rightarrow> string option" where
  "lookup_call event ts = (case List.map_filter (dget (ts_ids_by_key ts)) (stream_keys event) of [] \<Rightarrow> None | i # is \<Rightarrow> Some i)"

definition emit_call_start :: "'s stream_listener \<Rightarrow> string \<Rightarrow> string \<Rightarrow> tool_stream \<Rightarrow> ('s, tool_stream) act" where
  "emit_call_start l i name ts = (if i \<in> set (ts_started ts) then ret ts
     else thn (ln_notify l (ToolCallStart i name)) (ret (ts\<lparr>ts_started := ts_started ts @ [i]\<rparr>)))"

definition item_call_id :: "(nat \<Rightarrow> string) \<Rightarrow> nat \<Rightarrow> json \<Rightarrow> string \<times> nat" where
  "item_call_id hex n item = (if attr_str item ''call_id'' \<noteq> [] then (attr_str item ''call_id'', n)
     else drawn_id hex n (attr_str item ''id''))"

definition call_added :: "(nat \<Rightarrow> string) \<Rightarrow> 's stream_listener \<Rightarrow> json \<Rightarrow> tool_stream \<Rightarrow> ('s, tool_stream) act" where
  "call_added hex l event ts = (let item = attr event ''item'' in
     if \<not> type_is item ''function_call'' then ret ts
     else (let (i, n) = item_call_id hex (ts_drawn ts) item; name = attr_str item ''name'' in
       emit_call_start l i name (remember_call event item i name (ts\<lparr>ts_drawn := n\<rparr>))))"

definition forward_event :: "(nat \<Rightarrow> string) \<Rightarrow> 's stream_listener \<Rightarrow> json \<Rightarrow> tool_stream \<Rightarrow> ('s, tool_stream) act" where
  "forward_event hex l event ts =
     (if type_is event ''response.output_text.delta'' then thn (ln_notify l (TextDelta (attr_str event ''delta''))) (ret ts)
      else if type_is event ''response.reasoning_summary_text.delta''
      then thn (ln_notify l (ThinkingDelta (attr_str event ''delta''))) (ret ts)
      else if type_is event ''response.output_item.added'' then call_added hex l event ts
      else if type_is event ''response.function_call_arguments.delta''
      then (case lookup_call event ts of
              None \<Rightarrow> ret ts
            | Some i \<Rightarrow> bnd (emit_call_start l i (or_else (dget (ts_names_by_id ts) i) []) ts) (\<lambda>ts.
                thn (ln_notify l (ArgsDelta i (attr_str event ''delta''))) (ret ts)))
      else if type_is event ''response.function_call_arguments.done''
      then (case lookup_call event ts of None \<Rightarrow> ret ts | Some i \<Rightarrow> thn (ln_notify l (ArgsComplete i)) (ret ts))
      else ret ts)"

text \<open>The stream's own state, and what an event does to it.\<close>

record stream_state =
  st_whitespace :: nat
  st_arguments :: string
  st_open_call :: "string option \<times> string option"
  st_emitting :: bool
  st_failed :: "json option"

definition new_stream :: stream_state where
  "new_stream = \<lparr>st_whitespace = 0, st_arguments = [], st_open_call = (None, None), st_emitting = False, st_failed = None\<rparr>"

datatype verdict = Go stream_state | Fail py_error | Salvage message

definition item_added :: "json \<Rightarrow> stream_state \<Rightarrow> stream_state" where
  "item_added item st = (let st = st\<lparr>st_emitting := type_is item ''message'' \<or> type_is item ''function_call''\<rparr> in
     if type_is item ''function_call''
     then st\<lparr>st_open_call := (attr_opt item ''call_id'', attr_opt item ''name''), st_arguments := []\<rparr> else st)"

definition error_event :: "json \<Rightarrow> py_error" where
  "error_event event = (if attr event ''code'' = JStr ''content_policy_violation''
     then ProviderError (ContentBlocked (py_str (attr event ''message'')))
     else ProviderError (StreamInterrupted (''stream error '' @ py_str (attr event ''code'') @ '': '' @ py_str (attr event ''message''))
       (transient_code (attr event ''code'')) None))"

definition salvage_call :: "stream_state \<Rightarrow> verdict" where
  "salvage_call st = (case (whole_arguments (st_arguments st), st_open_call st) of
      (Some whole, (Some i, Some name)) \<Rightarrow> (if i \<noteq> [] \<and> name \<noteq> [] then Salvage (salvaged i name whole)
        else Fail (ProviderError (StreamInterrupted ''tool arguments contain 300 consecutive whitespace characters'' True None)))
    | _ \<Rightarrow> Fail (ProviderError (StreamInterrupted ''tool arguments contain 300 consecutive whitespace characters'' True None)))"

definition arguments_delta :: "string \<Rightarrow> stream_state \<Rightarrow> verdict" where
  "arguments_delta delta st = (let st = st\<lparr>st_arguments := st_arguments st @ delta,
         st_whitespace := (if py_strip delta = [] then st_whitespace st + length delta else trailing_space delta)\<rparr> in
     if st_whitespace st \<ge> 300 then salvage_call st else Go st)"

definition openai_event :: "(json \<Rightarrow> int option) \<Rightarrow> json \<Rightarrow> stream_state \<Rightarrow> verdict" where
  "openai_event to_int event st =
     (if type_is event ''response.output_item.added'' then Go (item_added (attr event ''item'') st)
      else if type_is event ''response.output_item.done'' then Go (st\<lparr>st_emitting := False\<rparr>)
      else if type_is event ''error'' then Fail (error_event event)
      else if type_is event ''response.failed'' \<and> attr (attr event ''response'') ''error'' = JNull
      then Go (st\<lparr>st_failed := Some (attr event ''response'')\<rparr>)
      else if type_is event ''response.failed'' \<or> type_is event ''response.incomplete''
      then Fail (unfinished to_int (attr event ''response''))
      else if type_is event ''response.function_call_arguments.delta'' then arguments_delta (attr_str event ''delta'') st
      else Go st)"

record 's openai_api =
  oa_enter :: "json_obj \<Rightarrow> ('s, unit) act"
  oa_next :: "bool \<Rightarrow> ('s, json option) act"
  oa_final :: "('s, json) act"
  oa_exit :: "('s, unit) act"

text \<open>The loop's outcome: a salvaged call, or the failed response the stream ended with, if any.\<close>

fun openai_events ::
  "nat \<Rightarrow> (json \<Rightarrow> int option) \<Rightarrow> (nat \<Rightarrow> string) \<Rightarrow> 's openai_api \<Rightarrow> 's stream_listener option \<Rightarrow> stream_state \<Rightarrow> tool_stream
     \<Rightarrow> ('s, message + json option) run" where
  "openai_events 0 to_int hex api l st ts = (\<lambda>_. None)"
| "openai_events (Suc n) to_int hex api l st ts = followed (once (oa_next api (st_emitting st))) (\<lambda>event. case event of
      None \<Rightarrow> once (ret (Inr (st_failed st)))
    | Some event \<Rightarrow> (if st_failed st \<noteq> None \<and> \<not> type_is event ''error'' then openai_events n to_int hex api l st ts
        else followed (once (check_cancel l)) (\<lambda>_. case openai_event to_int event st of
            Fail e \<Rightarrow> once (raise e)
          | Salvage msg \<Rightarrow> once (ret (Inl msg))
          | Go st \<Rightarrow> followed (once (case l of None \<Rightarrow> ret ts | Some l \<Rightarrow> forward_event hex l event ts)) (\<lambda>ts.
              openai_events n to_int hex api l st ts))))"

section \<open>The response\<close>

definition response_call :: "(nat \<Rightarrow> string) \<Rightarrow> json \<Rightarrow> nat \<Rightarrow> tool_call \<times> nat" where
  "response_call hex item n = (let (i, n) = item_call_id hex n item in
     (\<lparr>tc_id = i, tc_function = \<lparr>fn_name = attr_str item ''name'', fn_arguments = attr_str item ''arguments''\<rparr>,
       tc_type = ''function'', tc_thought_signature = None, tc_extra_content = []\<rparr>, n))"

fun response_calls :: "(nat \<Rightarrow> string) \<Rightarrow> nat \<Rightarrow> json list \<Rightarrow> tool_call list" where
  "response_calls hex n [] = []"
| "response_calls hex n (item # items) = (let (c, n) = response_call hex item n in c # response_calls hex n items)"

definition reasoning_item :: "json \<Rightarrow> json option" where
  "reasoning_item item = (if \<not> truthy (attr item ''encrypted_content'') then None
     else Some (JObj [(''id'', attr item ''id''), (''type'', JStr ''reasoning''),
       (''summary'', JList (map (\<lambda>s. JObj [(''type'', attr_or s ''type'' (JStr ''summary_text'')), (''text'', attr_or s ''text'' (JStr []))])
          (attr_list item ''summary''))),
       (''encrypted_content'', attr item ''encrypted_content'')]))"

definition output_items :: "string \<Rightarrow> json \<Rightarrow> json list" where
  "output_items t response = filter (\<lambda>i. type_is i t) (attr_list response ''output'')"

definition output_text :: "json \<Rightarrow> string" where
  "output_text item = concat (map (\<lambda>b. attr_str b ''text'')
     (filter (\<lambda>b. type_is b ''output_text'' \<or> type_is b ''text'') (attr_list item ''content'')))"

definition openai_message :: "(json \<Rightarrow> int option) \<Rightarrow> (nat \<Rightarrow> string) \<Rightarrow> json \<Rightarrow> message" where
  "openai_message to_int hex response = (let usage = attr response ''usage''; details = attr usage ''input_tokens_details'';
       thoughts = output_items ''reasoning'' response in
     (new_message ''assistant'' (text_content (concat (map output_text (output_items ''message'' response)))))
     \<lparr>m_tool_calls := some_list (response_calls hex 0 (output_items ''function_call'' response)),
      m_thought_summary := some_text (concat (map (\<lambda>i. concat (map (\<lambda>s. attr_str s ''text'') (attr_list i ''summary''))) thoughts)),
      m_reasoning_items := some_list (List.map_filter reasoning_item thoughts),
      m_input_tokens := usage_int to_int usage ''input_tokens'', m_output_tokens := usage_int to_int usage ''output_tokens'',
      m_cache_read_tokens := usage_int to_int details ''cached_tokens'',
      m_cache_write_tokens := usage_int to_int details ''cache_write_tokens''\<rparr>)"

definition usage_note :: "'w openai \<Rightarrow> json \<Rightarrow> stream_note" where
  "usage_note p response = UsageNote (attr_str response ''id'') (op_model_id p)
     (case attr response ''usage'' of JObj d \<Rightarrow> d | _ \<Rightarrow> [])
     (if attr_str response ''status'' = [] then ''unknown'' else attr_str response ''status'')"

text \<open>\<open>get_final_response\<close> of a stream that closed early raises a \<open>RuntimeError\<close>.\<close>

definition final_response :: "(json \<Rightarrow> int option) \<Rightarrow> 's openai_api \<Rightarrow> ('s, json) act" where
  "final_response to_int api s = (case oa_final api s of
      (Inl (RuntimeError m), t) \<Rightarrow> (Inl (ProviderError (StreamInterrupted ''stream closed without response.completed'' True None)), t)
    | (Inl e, t) \<Rightarrow> (Inl e, t)
    | (Inr response, t) \<Rightarrow> (if attr response ''status'' \<noteq> JStr ''completed'' then Inl (unfinished to_int response) else Inr response, t))"

definition stream_end :: "(json \<Rightarrow> int option) \<Rightarrow> 's openai_api \<Rightarrow> message + json option \<Rightarrow> ('s, message + json) act" where
  "stream_end to_int api e = (case e of
      Inl msg \<Rightarrow> ret (Inl msg)
    | Inr (Some failed) \<Rightarrow> raise (unfinished to_int failed)
    | Inr None \<Rightarrow> bnd (final_response to_int api) (\<lambda>response. ret (Inr response)))"

definition stream_attempt ::
  "nat \<Rightarrow> (json \<Rightarrow> int option) \<Rightarrow> (nat \<Rightarrow> string) \<Rightarrow> 'w openai \<Rightarrow> 's openai_api \<Rightarrow> 's stream_listener option \<Rightarrow> json_obj
     \<Rightarrow> ('s, message \<times> int) run" where
  "stream_attempt n to_int hex p api l params =
     followed (once (oa_enter api params)) (\<lambda>_.
     followed (at_exit (followed (openai_events n to_int hex api l new_stream new_tool_stream) (\<lambda>e. once (stream_end to_int api e)))
       (oa_exit api)) (\<lambda>e. case e of
         Inl msg \<Rightarrow> once (ret (msg, 0))
       | Inr response \<Rightarrow> once (thn (whenM (attr response ''usage'' \<noteq> JNull) (tell l (usage_note p response)))
           (ret (openai_message to_int hex response, or_else (usage_int to_int (attr response ''usage'') ''total_tokens'') 0)))))"

section \<open>The attempts of a call\<close>

text \<open>What an attempt records in its reservation: what the server counted, or what an interrupted one used.\<close>

definition recorded_tokens :: "py_error + message \<times> int \<Rightarrow> int option" where
  "recorded_tokens res = (case res of
      Inr (msg, actual) \<Rightarrow> Some actual
    | Inl (ProviderError (StreamInterrupted m r tokens)) \<Rightarrow> tokens
    | Inl _ \<Rightarrow> None)"

definition only_message :: "py_error + message \<times> int \<Rightarrow> py_error + message" where
  "only_message res = (case res of Inl e \<Rightarrow> Inl e | Inr (msg, _) \<Rightarrow> Inr msg)"

definition reserved_attempt ::
  "nat \<Rightarrow> (json \<Rightarrow> int option) \<Rightarrow> (nat \<Rightarrow> string) \<Rightarrow> 'w openai \<Rightarrow> (limiter \<times> 'w) openai_api \<Rightarrow> (limiter \<times> 'w) stream_listener option
     \<Rightarrow> json_obj \<Rightarrow> int \<Rightarrow> (limiter \<times> 'w, message) run" where
  "reserved_attempt n to_int hex p api l params estimated =
     (let body = (\<lambda>s. map_option (\<lambda>(res, t). ((only_message res, recorded_tokens res), t))
        (stream_attempt n to_int hex p api l params s)) in
      case op_limiter p of
        None \<Rightarrow> (\<lambda>s. map_option (\<lambda>((res, _), t). (res, t)) (body s))
      | Some le \<Rightarrow> reserve n le estimated body)"

record 's retry_env =
  rt_sleep :: "rat \<Rightarrow> ('s, unit) act"
  rt_random :: "rat \<Rightarrow> ('s, rat) act"
  rt_time :: "'s \<Rightarrow> rat"
  rt_ends :: "'s \<Rightarrow> rat option"
  rt_float :: "string \<Rightarrow> rat option"

text \<open>The wait before another attempt, or the failure again when the budget would end during it.\<close>

definition wait_before :: "'s retry_env \<Rightarrow> nat \<Rightarrow> py_error \<Rightarrow> ('s, unit) act" where
  "wait_before e attempt x = bnd (rt_random e (min 30 (2 ^ attempt))) (\<lambda>jitter.
     let wait = retry_after (rt_float e) x + jitter in
     bnd getS (\<lambda>s. case rt_ends e s of
       Some ends \<Rightarrow> (if rt_time e s + wait \<ge> ends then raise x else rt_sleep e wait)
     | None \<Rightarrow> rt_sleep e wait))"

text \<open>\<open>left\<close> attempts are still allowed and \<open>k\<close> were made.\<close>

fun attempts ::
  "'s retry_env \<Rightarrow> 's stream_listener option \<Rightarrow> ('s, message) run \<Rightarrow> nat \<Rightarrow> nat \<Rightarrow> ('s, message) run" where
  "attempts e l try 0 k = once (raise AssertionError)"
| "attempts e l try (Suc left) k = followed (once (whenM (k > 0) (tell l StreamReset))) (\<lambda>_ s. case try s of
      None \<Rightarrow> None
    | Some (Inr msg, t) \<Rightarrow> Some (Inr msg, t)
    | Some (Inl x, t) \<Rightarrow> (if \<not> is_transient x \<or> left = 0 then Some (Inl x, t)
        else followed (once (wait_before e k x)) (\<lambda>_. attempts e l try left (Suc k)) t))"

definition max_output :: "json_obj \<Rightarrow> int" where
  "max_output params = (case dget params ''max_output_tokens'' of Some (JInt n) \<Rightarrow> (if n = 0 then 2048 else n) | _ \<Rightarrow> 2048)"

text \<open>The ids the request draws and those its response draws are two sequences.\<close>

definition openai_complete ::
  "nat \<Rightarrow> (json \<Rightarrow> int option) \<Rightarrow> (json \<Rightarrow> int option) \<Rightarrow> (nat \<Rightarrow> string) \<Rightarrow> (nat \<Rightarrow> string) \<Rightarrow> 'w openai \<Rightarrow> (limiter \<times> 'w) openai_api
     \<Rightarrow> (limiter \<times> 'w) retry_env \<Rightarrow> string \<Rightarrow> message list \<Rightarrow> json list \<Rightarrow> (limiter \<times> 'w) stream_listener option
     \<Rightarrow> string list \<Rightarrow> int option \<Rightarrow> (limiter \<times> 'w, message) run" where
  "openai_complete n as_int to_int hex draw p api e system ms tools l allowed cap =
     followed (once (from_res (openai_params as_int hex p system ms tools))) (\<lambda>params0.
     let params = call_params allowed cap params0; estimated = call_tokens (openai_reasons p) (max_output params) ms in
     attempts e l (reserved_attempt n to_int draw p api l params estimated) (op_attempts p) 0)"

section \<open>What a request holds\<close>

definition item_ids :: "string \<Rightarrow> json list \<Rightarrow> string list" where
  "item_ids t items = map (\<lambda>i. attr_str i ''call_id'') (filter (\<lambda>i. type_is i t) items)"

text \<open>The reasoning items of a message are what an earlier response held: items of that type.\<close>

definition reasoning_only :: "message \<Rightarrow> bool" where
  "reasoning_only m \<longleftrightarrow> list_all (\<lambda>i. type_is i ''reasoning'') (or_else (m_reasoning_items m) [])"

lemma item_ids_append [simp]: "item_ids t (xs @ ys) = item_ids t xs @ item_ids t ys" "item_ids t [] = []"
  by (simp_all add: item_ids_def)

lemma call_items_ids:
  "[] \<notin> tc_id ` set cs \<Longrightarrow> item_ids ''function_call'' (fst (call_items hex n cs)) = map tc_id cs
     \<and> item_ids ''function_call_output'' (fst (call_items hex n cs)) = []"
  by (induction cs arbitrary: n) (auto simp: drawn_id_def item_ids_def attr_simps Let_def case_prod_beta)

lemma answer_item_ids [simp]:
  "item_ids ''function_call'' (answer_item m) = []" "item_ids ''function_call_output'' (answer_item m) = []"
  by (simp_all add: answer_item_def item_ids_def attr_simps Let_def)

lemma reasoning_ids: "reasoning_only m \<Longrightarrow> t \<noteq> ''reasoning'' \<Longrightarrow> item_ids t (or_else (m_reasoning_items m) []) = []"
  by (auto simp: reasoning_only_def item_ids_def filter_empty_conv list_all_iff type_is_def)

lemma openai_items_ids:
  assumes "openai_items hex n m = Inr (items, n')" and "well_named m" and "reasoning_only m"
  shows "item_ids ''function_call'' items = requested_ids [m]" and "item_ids ''function_call_output'' items = result_ids [m]"
proof -
  have "[] \<notin> tc_id ` set (calls_of m)" and tool: "is_tool m \<Longrightarrow> or_else (m_tool_call_id m) [] \<noteq> []"
    using assms(2) by (auto simp: well_named_def)
  from call_items_ids [OF this(1), of hex n] reasoning_ids [OF assms(3)]
  have a: "item_ids ''function_call'' (fst (assistant_items hex n m)) = map tc_id (calls_of m)"
    "item_ids ''function_call_output'' (fst (assistant_items hex n m)) = []"
    by (simp_all add: assistant_items_def case_prod_beta)
  have u: "item_ids t [JObj ((''type'', JStr ''message'') # d)] = []" if "t \<noteq> ''message''" for t d
    using that by (simp add: item_ids_def attr_simps)
  consider "m_role m = ''user''" | "m_role m = ''assistant''" | "m_role m = ''tool''"
    | "m_role m \<notin> {''user'', ''assistant'', ''tool''}" by blast
  then show "item_ids ''function_call'' items = requested_ids [m]" and "item_ids ''function_call_output'' items = result_ids [m]"
    using assms(1) a tool u
    by (cases; auto simp: openai_items_def try_bind_Inr requested_ids_def result_ids_def is_tool_def drawn_id_def item_ids_def attr_simps Let_def)+
qed

lemma openai_messages_ids:
  "openai_messages hex n ms = Inr items \<Longrightarrow> list_all well_named ms \<Longrightarrow> list_all reasoning_only ms \<Longrightarrow>
     item_ids ''function_call'' items = requested_ids ms \<and> item_ids ''function_call_output'' items = result_ids ms"
proof (induction ms arbitrary: n items)
  case (Cons m ms)
  then obtain its n' rest where i: "openai_items hex n m = Inr (its, n')" "openai_messages hex n' ms = Inr rest" "items = its @ rest"
    by (auto simp: try_bind_Inr)
  from openai_items_ids [OF i(1)] Cons.IH [OF i(2)] Cons.prems i(3) show ?case by (simp add: requested_ids_def result_ids_def)
qed (simp add: requested_ids_def result_ids_def)

interpretation ow: tool_wire "openai_messages hex 0" reasoning_only "item_ids ''function_call''" "item_ids ''function_call_output''" for hex
  by unfold_locales (simp_all add: openai_messages_ids)

section \<open>What a stream may commit\<close>

text \<open>A call made whole: its arguments are one JSON object, what was streamed or that with its closing brace.\<close>

definition whole_call :: "message \<Rightarrow> bool" where
  "whole_call msg \<longleftrightarrow> (\<exists>i name text body d. msg = salvaged i name (json_compact (JObj d)) \<and> i \<noteq> [] \<and> name \<noteq> []
     \<and> body = rstrip_char (CHR '','') (py_strip text)
     \<and> (json_loads body = Some (JObj d) \<or> json_loads (body @ [CHR 0x7D]) = Some (JObj d)))"

lemma whole_argumentsD:
  "whole_arguments text = Some w \<Longrightarrow> \<exists>d. w = json_compact (JObj d)
     \<and> (json_loads (rstrip_char (CHR '','') (py_strip text)) = Some (JObj d)
        \<or> json_loads (rstrip_char (CHR '','') (py_strip text) @ [CHR 0x7D]) = Some (JObj d))"
  by (auto simp: whole_arguments_def Let_def split: if_splits option.splits json.splits)

lemma openai_event_salvage: "openai_event to_int event st = Salvage msg \<Longrightarrow> whole_call msg"
  by (auto simp: openai_event_def arguments_delta_def salvage_call_def Let_def whole_call_def dest!: whole_argumentsD
      split: if_splits option.splits prod.splits) blast+

lemma openai_events_salvage: "openai_events n to_int hex api l st ts s = Some (Inr (Inl msg), t) \<Longrightarrow> whole_call msg"
proof (induction n arbitrary: st ts s)
  case (Suc n)
  obtain x u where x: "oa_next api (st_emitting st) s = (x, u)" by fastforce
  show ?case
  proof (cases x)
    case (Inr ev)
    show ?thesis
    proof (cases ev)
      case (Some event)
      obtain c v where c: "check_cancel l u = (c, v)" by fastforce
      show ?thesis
        using Suc x Inr Some c
        by (auto simp: run_defs ret_def raise_def dest: openai_event_salvage split: if_splits sum.splits verdict.splits prod.splits option.splits)
    qed (use Suc.prems x Inr in \<open>simp add: run_defs ret_def\<close>)
  qed (use Suc.prems x in \<open>simp add: run_defs\<close>)
qed simp

lemma stream_end_commits:
  "stream_end to_int api e s = (Inr r, t) \<Longrightarrow> (\<exists>msg. e = Inl msg \<and> r = Inl msg)
     \<or> (\<exists>response u v. r = Inr response \<and> oa_final api u = (Inr response, v) \<and> attr response ''status'' = JStr ''completed'')"
  by (auto simp: stream_end_def final_response_def ret_def raise_def bnd_def split: sum.splits option.splits prod.splits py_error.splits if_splits)


section \<open>How often a call is tried\<close>

text \<open>The attempts of a call, from the \<open>k\<close>-th: the failures another attempt followed, and how it ended, with
  the last attempt's own outcome, or with the reset or the wait before an attempt raising.\<close>

datatype call_end = OwnOutcome | Stopped

inductive retries ::
  "'s retry_env \<Rightarrow> 's stream_listener option \<Rightarrow> ('s, message) run \<Rightarrow> nat \<Rightarrow> 's \<Rightarrow> py_error list \<Rightarrow> call_end
     \<Rightarrow> py_error + message \<Rightarrow> 's \<Rightarrow> bool"
  for e :: "'s retry_env" and l :: "'s stream_listener option" and attempt :: "('s, message) run" where
  reset_raised: "whenM (k > 0) (tell l StreamReset) s = (Inl x, t) \<Longrightarrow> retries e l attempt k s [] Stopped (Inl x) t"
| last_attempt: "whenM (k > 0) (tell l StreamReset) s = (Inr (), u) \<Longrightarrow> attempt u = Some (r, t) \<Longrightarrow>
    retries e l attempt k s [] OwnOutcome r t"
| wait_raised: "whenM (k > 0) (tell l StreamReset) s = (Inr (), u) \<Longrightarrow> attempt u = Some (Inl x, v) \<Longrightarrow> is_transient x \<Longrightarrow>
    wait_before e k x v = (Inl y, t) \<Longrightarrow> retries e l attempt k s [] Stopped (Inl y) t"
| tried_again: "whenM (k > 0) (tell l StreamReset) s = (Inr (), u) \<Longrightarrow> attempt u = Some (Inl x, v) \<Longrightarrow> is_transient x \<Longrightarrow>
    wait_before e k x v = (Inr (), w) \<Longrightarrow> retries e l attempt (Suc k) w xs z r t \<Longrightarrow> retries e l attempt k s (x # xs) z r t"

text \<open>A call is tried at most as often as it may be, and again only after a failure that can pass: every
  failure another attempt followed was transient, each attempt but the first follows a reset of the
  listener and a wait, and a transient failure reaches the caller as an attempt's own outcome only when
  no attempt was left.\<close>

theorem attempts_bounded:
  assumes "attempts e l attempt left k s = Some (r, t)" and "0 < left"
  shows "\<exists>xs z. retries e l attempt k s xs z r t \<and> length xs < left \<and> list_all is_transient xs
     \<and> (z = OwnOutcome \<longrightarrow> (case r of Inl x \<Rightarrow> is_transient x \<longrightarrow> Suc (length xs) = left | Inr msg \<Rightarrow> True))"
  using assms
proof (induction left arbitrary: k s)
  case (Suc left)
  obtain p u where p: "whenM (k > 0) (tell l StreamReset) s = (p, u)" by fastforce
  show ?case
  proof (cases p)
    case (Inl x)
    with Suc.prems p have "r = Inl x" "t = u" by (auto simp: run_defs)
    with p Inl reset_raised [of k l s x u e attempt] show ?thesis by force
  next
    case (Inr a)
    then have p: "whenM (k > 0) (tell l StreamReset) s = (Inr (), u)" using p by simp
    with Suc.prems(1) obtain q v where q: "attempt u = Some (q, v)" by (auto simp: run_defs split: option.splits)
    show ?thesis
    proof (cases "\<exists>x. q = Inl x \<and> is_transient x \<and> left \<noteq> 0")
      case False
      with Suc.prems(1) p q have "r = q" "t = v" by (auto simp: run_defs split: sum.splits if_splits)
      with False last_attempt [of k l s u attempt q v e] p q show ?thesis by (force split: sum.split)
    next
      case True
      then obtain x where x: "q = Inl x" "is_transient x" "left \<noteq> 0" by blast
      obtain wr w where w: "wait_before e k x v = (wr, w)" by fastforce
      show ?thesis
      proof (cases wr)
        case (Inl y)
        with Suc.prems(1) p q x w have "r = Inl y" "t = w" by (auto simp: run_defs)
        with wait_raised [of k l s u attempt x v e y w] p q x w Inl show ?thesis by force
      next
        case (Inr b)
        with Suc.prems(1) p q x w have "attempts e l attempt left (Suc k) w = Some (r, t)" by (auto simp: run_defs)
        with Suc.IH x(3) obtain xs z where xs: "retries e l attempt (Suc k) w xs z r t" "length xs < left" "list_all is_transient xs"
          "z = OwnOutcome \<longrightarrow> (case r of Inl x \<Rightarrow> is_transient x \<longrightarrow> Suc (length xs) = left | Inr msg \<Rightarrow> True)" by blast
        have "retries e l attempt k s (x # xs) z r t"
          using tried_again [of k l s u attempt x v e w xs z r t] p q x w Inr xs(1) by simp
        with xs x show ?thesis by (intro exI [of _ "x # xs"] exI [of _ z]) (auto split: sum.splits)
      qed
    qed
  qed
qed simp

section \<open>A service that fails once\<close>

definition flaky :: "(nat, message) run" where
  "flaky s = Some (if s = 0 then Inl (ProviderError (LostConnection ''TimeoutError'' [])) else Inr (new_message ''assistant'' (Text ''ok'')), Suc s)"

definition idle_env :: "nat retry_env" where
  "idle_env = \<lparr>rt_sleep = (\<lambda>_. ret ()), rt_random = (\<lambda>_. ret 0), rt_time = of_nat, rt_ends = (\<lambda>_. None), rt_float = (\<lambda>_. None)\<rparr>"

theorem attempts_bounded_witness:
  "\<exists>xs z. retries idle_env None flaky 0 0 xs z (Inr (new_message ''assistant'' (Text ''ok''))) 2 \<and> length xs < 3 \<and> list_all is_transient xs"
proof -
  have "attempts idle_env None flaky 3 0 0 = Some (Inr (new_message ''assistant'' (Text ''ok'')), 2)"
    by (simp add: numeral_3_eq_3 run_defs flaky_def wait_before_def idle_env_def retry_after_def tell_def act_simps)
  from attempts_bounded [OF this] show ?thesis by auto
qed

text \<open>A service whose response is complete at once.\<close>

definition sample_response :: json where
  "sample_response = JObj [(''status'', JStr ''completed''), (''output'', JList [JObj [(''type'', JStr ''message''),
     (''content'', JList [JObj [(''type'', JStr ''output_text''), (''text'', JStr ''Hi'')]])]])]"

definition sample_service :: "nat openai_api" where
  "sample_service = \<lparr>oa_enter = (\<lambda>_. ret ()), oa_next = (\<lambda>_. ret None), oa_final = ret sample_response, oa_exit = ret ()\<rparr>"

definition sample_openai :: "nat openai" where
  "sample_openai = \<lparr>op_model_id = ''gpt-4'', op_thinking_level = ''med'', op_cache_key = [], op_idle_s = 60, op_reasoning_idle_s = 180,
     op_turn_s = 240, op_attempts = 3, op_context_window = None, op_max_images = 1500, op_azure = False, op_limiter = None\<rparr>"


end
