(* ===== verification/Qwen.thy ===== *)
theory Qwen
  imports Provider_Stream
begin

text \<open>
  The adapter of DashScope's OpenAI-compatible chat completions (\<open>actant/llm/providers/qwen.py\<close>): the
  request, and the message assembled from the deltas of a stream. The service is the record \<open>qwen_api\<close>; a
  chunk is the JSON it was read from. \<open>hex\<close> draws the ids of the request, \<open>draw\<close> those of the response.
\<close>

section \<open>The request\<close>

fun qwen_part :: "block \<Rightarrow> py_error + json" where
  "qwen_part (TextBlock t) = Inr (JObj [(''type'', JStr ''text''), (''text'', JStr t)])"
| "qwen_part (AssetBlock k m r) = Inl (unresolved (AssetBlock k m r))"
| "qwen_part (CompactionBlock c) = Inl (unresolved (CompactionBlock c))"
| "qwen_part b = Inr (JObj [(''type'', JStr ''image_url''),
     (''image_url'', JObj [(''url'', attr (convert_image_source b) ''image_url'')])])"

definition qwen_user_content :: "content \<Rightarrow> py_error + json" where
  "qwen_user_content c = (case c of
      NoContent \<Rightarrow> Inr JNull | Text t \<Rightarrow> Inr (JStr t)
    | Blocks bs \<Rightarrow> try_bind (try_map qwen_part bs) (\<lambda>js. Inr (JList js)))"

definition qwen_call :: "tool_call \<Rightarrow> json" where
  "qwen_call c = JObj [(''id'', JStr (tc_id c)), (''type'', JStr ''function''),
     (''function'', JObj [(''name'', JStr (fn_name (tc_function c))), (''arguments'', JStr (fn_arguments (tc_function c)))])]"

definition qwen_assistant :: "message \<Rightarrow> json" where
  "qwen_assistant m = (let c = m_content m in
     JObj ([(''role'', JStr ''assistant''),
        (''content'', if c = NoContent \<or> c = Text [] \<or> c = Blocks [] then JNull else content_to_json c)]
      @ (case m_tool_calls m of None \<Rightarrow> [] | Some cs \<Rightarrow> [(''tool_calls'', JList (map qwen_call cs))])))"

definition qwen_result :: "message \<Rightarrow> py_error + json" where
  "qwen_result m = try_bind (split_tool_content (m_content m)) (\<lambda>(text, images). Inr (JObj
     [(''role'', JStr ''tool''), (''tool_call_id'', JStr (or_else (m_tool_call_id m) [])), (''content'', JStr text)]))"

definition qwen_message :: "message \<Rightarrow> py_error + json list" where
  "qwen_message m =
     (if m_role m = ''user''
      then try_bind (qwen_user_content (m_content m)) (\<lambda>c. Inr [JObj [(''role'', JStr ''user''), (''content'', c)]])
      else if m_role m = ''assistant'' then Inr [qwen_assistant m]
      else if m_role m = ''tool'' then try_bind (qwen_result m) (\<lambda>j. Inr [j])
      else Inr [])"

definition qwen_messages :: "message list \<Rightarrow> py_error + json list" where
  "qwen_messages ms = try_bind (try_map qwen_message ms) (\<lambda>js. Inr (concat js))"

definition qwen_chat ::
  "(json \<Rightarrow> int option) \<Rightarrow> (nat \<Rightarrow> string) \<Rightarrow> string \<Rightarrow> message raw list \<Rightarrow> py_error + json list" where
  "qwen_chat as_int hex system raws =
     try_bind (sanitize_tool_messages as_int hex raws) (\<lambda>ms.
     try_bind (qwen_messages ms) (\<lambda>js. Inr
       ((if system = [] then [] else [JObj [(''role'', JStr ''system''), (''content'', JStr system)]]) @ js)))"

definition qwen_tool :: "json_obj \<Rightarrow> json" where
  "qwen_tool f = JObj [(''type'', JStr ''function''), (''function'', JObj [(''name'', jget f ''name'' (JStr [])),
     (''description'', jget f ''description'' (JStr [])),
     (''parameters'', normalize_json_schema (jget f ''parameters'' (JObj [])))])]"

definition qwen_tools :: "json list \<Rightarrow> json list" where
  "qwen_tools tools = map qwen_tool (List.map_filter tool_function tools)"

definition qwen_params ::
  "(json \<Rightarrow> int option) \<Rightarrow> (nat \<Rightarrow> string) \<Rightarrow> string \<Rightarrow> string \<Rightarrow> message raw list \<Rightarrow> json list \<Rightarrow> py_error + json_obj" where
  "qwen_params as_int hex model_id system raws tools =
     try_bind (qwen_chat as_int hex system raws) (\<lambda>js. Inr ([(''model'', JStr model_id), (''messages'', JList js)]
       @ (if qwen_tools tools = [] then [] else [(''tools'', JList (qwen_tools tools))])))"

section \<open>The stream\<close>

record qwen_call_state =
  qc_id :: string
  qc_name :: string
  qc_arguments :: string

record qwen_state =
  qs_text :: string
  qs_thought :: string
  qs_calls :: "(int, qwen_call_state) dict"

definition new_qwen_state :: qwen_state where
  "new_qwen_state = \<lparr>qs_text = [], qs_thought = [], qs_calls = []\<rparr>"

definition delta_index :: "json \<Rightarrow> int" where
  "delta_index d = (case attr d ''index'' of JInt i \<Rightarrow> i | _ \<Rightarrow> 0)"

definition take_text :: "string \<Rightarrow> string \<Rightarrow> string" where
  "take_text new old = (if new = [] then old else new)"

text \<open>A delta without a \<open>function\<close> has neither a name nor arguments.\<close>

definition absorb_call :: "json \<Rightarrow> (int, qwen_call_state) dict \<Rightarrow> (int, qwen_call_state) dict" where
  "absorb_call d calls = (let i = delta_index d; calls = dsetdefault i \<lparr>qc_id = [], qc_name = [], qc_arguments = []\<rparr> calls;
       fn = attr d ''function'' in
     case dget calls i of
       None \<Rightarrow> calls
     | Some st \<Rightarrow> dset i \<lparr>qc_id = take_text (attr_str d ''id'') (qc_id st), qc_name = take_text (attr_str fn ''name'') (qc_name st),
         qc_arguments = qc_arguments st @ attr_str fn ''arguments''\<rparr> calls)"

text \<open>The delta of a chunk's first choice, if it has one.\<close>

definition chunk_delta :: "json \<Rightarrow> json option" where
  "chunk_delta chunk = (case attr_list chunk ''choices'' of
      [] \<Rightarrow> None
    | choice # others \<Rightarrow> (if attr choice ''delta'' = JNull then None else Some (attr choice ''delta'')))"

definition absorb_delta :: "json \<Rightarrow> qwen_state \<Rightarrow> qwen_state" where
  "absorb_delta d st = \<lparr>qs_text = qs_text st @ attr_str d ''content'', qs_thought = qs_thought st @ attr_str d ''reasoning_content'',
     qs_calls = fold absorb_call (attr_list d ''tool_calls'') (qs_calls st)\<rparr>"

definition absorb_chunk :: "json \<Rightarrow> qwen_state \<Rightarrow> qwen_state" where
  "absorb_chunk chunk st = (case chunk_delta chunk of None \<Rightarrow> st | Some d \<Rightarrow> absorb_delta d st)"

record 's qwen_api =
  qa_create :: "json_obj \<Rightarrow> ('s, unit) act"
  qa_next :: "('s, json option) act"
  qa_close :: "('s, unit) act"

definition qwen_cancel :: "'s qwen_api \<Rightarrow> 's stream_listener option \<Rightarrow> ('s, unit) act" where
  "qwen_cancel api l = (case l of None \<Rightarrow> ret ()
     | Some l \<Rightarrow> bnd getS (\<lambda>s. if ln_cancelled l s then thn (qa_close api) (raise StreamCancelled) else ret ()))"

text \<open>What the listener hears of a chunk, in order.\<close>

definition tell_delta :: "'s stream_listener option \<Rightarrow> json \<Rightarrow> ('s, unit) act" where
  "tell_delta l chunk = (case chunk_delta chunk of
      None \<Rightarrow> ret ()
    | Some d \<Rightarrow> thn (whenM (attr_str d ''content'' \<noteq> []) (tell l (TextDelta (attr_str d ''content''))))
         (whenM (attr_str d ''reasoning_content'' \<noteq> []) (tell l (ThinkingDelta (attr_str d ''reasoning_content'')))))"

fun qwen_chunks :: "nat \<Rightarrow> 's qwen_api \<Rightarrow> 's stream_listener option \<Rightarrow> qwen_state \<Rightarrow> ('s, qwen_state) run" where
  "qwen_chunks 0 api l st = (\<lambda>_. None)"
| "qwen_chunks (Suc n) api l st = followed (once (qa_next api)) (\<lambda>chunk. case chunk of
      None \<Rightarrow> once (ret st)
    | Some chunk \<Rightarrow> followed (once (thn (qwen_cancel api l) (tell_delta l chunk)))
        (\<lambda>_. qwen_chunks n api l (absorb_chunk chunk st)))"

section \<open>The message\<close>

text \<open>The calls in the order of their indices, which the model may have interleaved.\<close>

fun finished_calls :: "(nat \<Rightarrow> string) \<Rightarrow> nat \<Rightarrow> qwen_call_state list \<Rightarrow> tool_call list" where
  "finished_calls draw n [] = []"
| "finished_calls draw n (st # sts) = (let (i, n) = drawn_id draw n (qc_id st) in
     \<lparr>tc_id = i, tc_function = \<lparr>fn_name = qc_name st, fn_arguments = qc_arguments st\<rparr>, tc_type = ''function'',
      tc_thought_signature = None, tc_extra_content = []\<rparr> # finished_calls draw n sts)"

definition qwen_reply :: "(nat \<Rightarrow> string) \<Rightarrow> qwen_state \<Rightarrow> message" where
  "qwen_reply draw st = (new_message ''assistant'' (text_content (qs_text st)))
     \<lparr>m_tool_calls := some_list (finished_calls draw 0 (map snd (sort_key fst (qs_calls st)))),
      m_thought_summary := some_text (qs_thought st)\<rparr>"

definition qwen_complete ::
  "nat \<Rightarrow> (json \<Rightarrow> int option) \<Rightarrow> (nat \<Rightarrow> string) \<Rightarrow> (nat \<Rightarrow> string) \<Rightarrow> string \<Rightarrow> 's qwen_api \<Rightarrow> string \<Rightarrow> message list
     \<Rightarrow> json list \<Rightarrow> 's stream_listener option \<Rightarrow> string list \<Rightarrow> int option \<Rightarrow> ('s, message) run" where
  "qwen_complete n as_int hex draw model_id api system ms tools l allowed cap =
     (if allowed \<noteq> [] then once (raise (NotImplementedError ''allowed_tools is not implemented for Qwen''))
      else followed (once (from_res (qwen_params as_int hex model_id system (map Instance ms) tools))) (\<lambda>params.
        followed (once (qa_create api (params @ (case cap of None \<Rightarrow> [] | Some k \<Rightarrow> [(''max_tokens'', JInt k)])
          @ [(''stream'', JBool True), (''extra_body'', JObj [(''enable_thinking'', JBool True)])]))) (\<lambda>_.
        followed (qwen_chunks n api l new_qwen_state) (\<lambda>st. once (ret (qwen_reply draw st))))))"

section \<open>What a request holds\<close>

definition chat_uses :: "json list \<Rightarrow> string list" where
  "chat_uses js = concat (map (\<lambda>j. map (\<lambda>c. attr_str c ''id'') (attr_list j ''tool_calls'')) js)"

definition chat_results :: "json list \<Rightarrow> string list" where
  "chat_results js = map (\<lambda>j. attr_str j ''tool_call_id'') (filter (\<lambda>j. attr j ''role'' = JStr ''tool'') js)"

lemma chat_ids_append [simp]: "chat_uses (xs @ ys) = chat_uses xs @ chat_uses ys" "chat_results (xs @ ys) = chat_results xs @ chat_results ys"
  "chat_uses [] = []" "chat_results [] = []"
  by (simp_all add: chat_uses_def chat_results_def)

lemma qwen_assistant_ids: "chat_uses [qwen_assistant m] = map tc_id (calls_of m)" "chat_results [qwen_assistant m] = []"
  by (auto simp: qwen_assistant_def chat_uses_def chat_results_def qwen_call_def attr_simps calls_of_def Let_def split: option.split)

lemma qwen_message_ids:
  assumes "qwen_message m = Inr js"
  shows "chat_uses js = requested_ids [m]" and "chat_results js = result_ids [m]"
proof -
  have "chat_uses [JObj [(''role'', JStr r), (''content'', c)]] = []" "r \<noteq> ''tool'' \<Longrightarrow> chat_results [JObj [(''role'', JStr r), (''content'', c)]] = []"
    for r c by (simp_all add: chat_uses_def chat_results_def attr_simps)
  moreover have "qwen_result m = Inr j \<Longrightarrow> chat_uses [j] = [] \<and> chat_results [j] = [or_else (m_tool_call_id m) []]" for j
    by (auto simp: qwen_result_def try_bind_Inr chat_uses_def chat_results_def attr_simps)
  ultimately show "chat_uses js = requested_ids [m]" and "chat_results js = result_ids [m]"
    using assms
    by (auto simp: qwen_message_def try_bind_Inr requested_ids_def result_ids_def is_tool_def qwen_assistant_ids split: if_splits)
qed

lemma qwen_messages_ids: "qwen_messages ms = Inr js \<Longrightarrow> chat_uses js = requested_ids ms \<and> chat_results js = result_ids ms"
proof (induction ms arbitrary: js)
  case (Cons m ms)
  then obtain j rest where j: "qwen_message m = Inr j" "try_map qwen_message ms = Inr rest" "js = j @ concat rest"
    by (auto simp: qwen_messages_def try_bind_Inr)
  from j(2) have "qwen_messages ms = Inr (concat rest)" by (simp add: qwen_messages_def)
  from Cons.IH [OF this] qwen_message_ids [OF j(1)] j(3) show ?case by (simp add: requested_ids_def result_ids_def)
qed (simp add: qwen_messages_def requested_ids_def result_ids_def)

interpretation qw: tool_wire qwen_messages "\<lambda>_. True" chat_uses chat_results
  by unfold_locales (simp_all add: qwen_messages_ids)

section \<open>What a stream is assembled into\<close>

text \<open>The deltas of a stream, those of one call among them, and what they say together.\<close>

definition deltas_of :: "json list \<Rightarrow> json list" where
  "deltas_of chunks = List.map_filter chunk_delta chunks"

definition call_deltas :: "json list \<Rightarrow> json list" where
  "call_deltas chunks = concat (map (\<lambda>d. attr_list d ''tool_calls'') (deltas_of chunks))"

definition deltas_at :: "int \<Rightarrow> json list \<Rightarrow> json list" where
  "deltas_at i ds = filter (\<lambda>d. delta_index d = i) ds"

definition said_last :: "string list \<Rightarrow> string" where
  "said_last xs = (let ys = filter (\<lambda>x. x \<noteq> []) xs in if ys = [] then [] else last ys)"

definition fn_attr :: "string \<Rightarrow> json \<Rightarrow> string" where
  "fn_attr k d = attr_str (attr d ''function'') k"

definition joined :: "json list \<Rightarrow> qwen_call_state" where
  "joined ds = \<lparr>qc_id = said_last (map (\<lambda>d. attr_str d ''id'') ds), qc_name = said_last (map (fn_attr ''name'') ds),
     qc_arguments = concat (map (fn_attr ''arguments'') ds)\<rparr>"

lemma said_last_snoc: "said_last (xs @ [x]) = take_text x (said_last xs)"
  by (simp add: said_last_def take_text_def Let_def)

lemma joined_snoc: "joined (ds @ [d]) = \<lparr>qc_id = take_text (attr_str d ''id'') (qc_id (joined ds)),
    qc_name = take_text (fn_attr ''name'' d) (qc_name (joined ds)), qc_arguments = qc_arguments (joined ds) @ fn_attr ''arguments'' d\<rparr>"
  by (simp add: joined_def said_last_snoc)

lemma joined_Nil: "joined [] = \<lparr>qc_id = [], qc_name = [], qc_arguments = []\<rparr>"
  by (simp add: joined_def said_last_def)

lemma absorb_call_get: "dget (absorb_call d calls) i = (if i = delta_index d
    then Some (let st = (case dget calls i of None \<Rightarrow> joined [] | Some st \<Rightarrow> st) in
      \<lparr>qc_id = take_text (attr_str d ''id'') (qc_id st), qc_name = take_text (fn_attr ''name'' d) (qc_name st),
       qc_arguments = qc_arguments st @ fn_attr ''arguments'' d\<rparr>)
    else dget calls i)"
  by (auto simp: absorb_call_def dsetdefault_def fn_attr_def joined_Nil Let_def split: option.split)

lemma absorb_calls_get: "dget (fold absorb_call ds []) i = (if deltas_at i ds = [] then None else Some (joined (deltas_at i ds)))"
proof (induction ds rule: rev_induct)
  case (snoc d ds)
  show ?case
  proof (cases "delta_index d = i")
    case True
    then have "deltas_at i (ds @ [d]) = deltas_at i ds @ [d]" by (simp add: deltas_at_def)
    with True snoc show ?thesis by (simp add: absorb_call_get joined_snoc Let_def)
  next
    case False
    then have "deltas_at i (ds @ [d]) = deltas_at i ds" by (simp add: deltas_at_def)
    with False snoc show ?thesis by (simp add: absorb_call_get)
  qed
qed (simp add: deltas_at_def)

lemma absorb_call_wf: "wf_dict calls \<Longrightarrow> wf_dict (absorb_call d calls)"
  by (auto simp: absorb_call_def dsetdefault_def Let_def split: option.split)

lemma absorb_calls_wf: "wf_dict calls \<Longrightarrow> wf_dict (fold absorb_call ds calls)"
  by (induction ds arbitrary: calls) (simp_all add: absorb_call_wf)

lemma sorted_items:
  fixes d :: "('k::linorder, 'v) dict"
  assumes "wf_dict d"
  shows "map snd (sort_key fst d) = map (\<lambda>i. the (dget d i)) (sorted_list_of_set (set (dkeys d)))"
proof -
  have "sorted (map fst (sort_key fst d))" by simp
  moreover have "distinct (map fst (sort_key fst d))"
    using assms unfolding wf_dict_def by (metis distinct_map distinct_sort set_sort)
  moreover have "set (map fst (sort_key fst d)) = set (dkeys d)" by simp
  ultimately have keys: "map fst (sort_key fst d) = sorted_list_of_set (set (dkeys d))"
    by (metis sorted_list_of_set.idem_if_sorted_distinct)
  have "snd kv = the (dget d (fst kv))" if "kv \<in> set (sort_key fst d)" for kv
  proof -
    have "kv \<in> set d" using that by (simp only: set_sort)
    with assms show ?thesis by (cases kv) (simp add: wf_dict_in_set)
  qed
  then have "map snd (sort_key fst d) = map (\<lambda>i. the (dget d i)) (map fst (sort_key fst d))" by simp
  then show ?thesis by (simp only: keys)
qed

lemma assembled_calls:
  "map snd (sort_key fst (fold absorb_call ds [])) = map (\<lambda>i. joined (deltas_at i ds)) (sorted_list_of_set (delta_index ` set ds))"
proof -
  let ?d = "fold absorb_call ds []"
  have keys: "set (dkeys ?d) = delta_index ` set ds"
  proof (rule set_eqI)
    fix i
    have "i \<in> set (dkeys ?d) \<longleftrightarrow> dget ?d i \<noteq> None" by (simp add: map_of_eq_None_iff)
    then show "i \<in> set (dkeys ?d) \<longleftrightarrow> i \<in> delta_index ` set ds"
      unfolding absorb_calls_get by (auto simp: deltas_at_def filter_empty_conv)
  qed
  have "wf_dict ?d" by (rule absorb_calls_wf) simp
  from sorted_items [OF this] show ?thesis
    unfolding keys absorb_calls_get by (simp add: deltas_at_def filter_empty_conv image_iff) blast
qed

lemma absorb_chunks:
  "fold absorb_chunk chunks st = \<lparr>qs_text = qs_text st @ concat (map (\<lambda>d. attr_str d ''content'') (deltas_of chunks)),
     qs_thought = qs_thought st @ concat (map (\<lambda>d. attr_str d ''reasoning_content'') (deltas_of chunks)),
     qs_calls = fold absorb_call (call_deltas chunks) (qs_calls st)\<rparr>"
  by (induction chunks arbitrary: st)
    (simp_all add: deltas_of_def call_deltas_def absorb_chunk_def absorb_delta_def map_filter_simps split: option.split)

lemma finished_calls_functions:
  "map tc_function (finished_calls draw n sts) = map (\<lambda>st. \<lparr>fn_name = qc_name st, fn_arguments = qc_arguments st\<rparr>) sts"
  by (induction sts arbitrary: n) (simp_all add: case_prod_beta Let_def)

lemma finished_calls_Nil [simp]: "finished_calls draw n sts = [] \<longleftrightarrow> sts = []"
  by (cases sts) (simp_all add: Let_def case_prod_beta)

lemma finished_calls_ids:
  "list_all2 (\<lambda>c st. if qc_id st = [] then \<exists>k. tc_id c = call_name draw k else tc_id c = qc_id st) (finished_calls draw n sts) sts"
  by (induction sts arbitrary: n) (auto simp: drawn_id_def Let_def)

text \<open>The chunks a stream gave until it ended, the listener being told of each and asking for no cancellation.\<close>

inductive streamed :: "'s qwen_api \<Rightarrow> 's stream_listener option \<Rightarrow> 's \<Rightarrow> json list \<Rightarrow> 's \<Rightarrow> bool"
  for api :: "'s qwen_api" and l :: "'s stream_listener option" where
  stream_ended: "qa_next api s = (Inr None, t) \<Longrightarrow> streamed api l s [] t"
| chunk_given: "qa_next api s = (Inr (Some chunk), u) \<Longrightarrow> thn (qwen_cancel api l) (tell_delta l chunk) u = (Inr (), v) \<Longrightarrow>
    streamed api l v chunks t \<Longrightarrow> streamed api l s (chunk # chunks) t"

lemma qwen_chunks_fold:
  "qwen_chunks n api l st s = Some (Inr st', t) \<Longrightarrow> \<exists>chunks. streamed api l s chunks t \<and> st' = fold absorb_chunk chunks st"
proof (induction n arbitrary: st s)
  case (Suc n)
  obtain x u where x: "qa_next api s = (x, u)" by fastforce
  with Suc.prems obtain o1 where o1: "x = Inr o1" by (cases x) (auto simp: run_defs)
  show ?case
  proof (cases o1)
    case None
    with Suc.prems x o1 show ?thesis by (intro exI [of _ "[]"]) (auto simp: run_defs ret_def intro: stream_ended)
  next
    case (Some chunk)
    obtain y v where y: "thn (qwen_cancel api l) (tell_delta l chunk) u = (y, v)" by fastforce
    with Suc.prems x o1 Some have "y = Inr ()" by (cases y) (auto simp: run_defs)
    with Suc.prems x o1 Some y have "qwen_chunks n api l (absorb_chunk chunk st) v = Some (Inr st', t)" by (simp add: run_defs)
    from Suc.IH [OF this] obtain chunks where "streamed api l v chunks t" "st' = fold absorb_chunk chunks (absorb_chunk chunk st)" by blast
    with x o1 Some y \<open>y = Inr ()\<close> show ?thesis by (intro exI [of _ "chunk # chunks"]) (auto intro: chunk_given)
  qed
qed simp

definition call_function :: "qwen_call_state \<Rightarrow> tool_fn" where
  "call_function st = \<lparr>fn_name = qc_name st, fn_arguments = qc_arguments st\<rparr>"

text \<open>A streamed reply is put together as it was said, however its calls were interleaved: the text and the
  thought are their deltas in order, there is one call for each index that was named, in the order of the
  indices, and its arguments are that index's fragments in the order they came, under the last name it was
  given.\<close>

theorem qwen_reply_assembled:
  assumes "qwen_complete n as_int hex draw model_id api system ms tools l allowed cap s = Some (Inr msg, t)"
  shows "\<exists>u chunks. streamed api l u chunks t
     \<and> m_content msg = text_content (concat (map (\<lambda>d. attr_str d ''content'') (deltas_of chunks)))
     \<and> m_thought_summary msg = some_text (concat (map (\<lambda>d. attr_str d ''reasoning_content'') (deltas_of chunks)))
     \<and> map tc_function (calls_of msg) = map (\<lambda>i. call_function (joined (deltas_at i (call_deltas chunks))))
          (sorted_list_of_set (delta_index ` set (call_deltas chunks)))"
proof -
  from assms obtain u st v where run: "qwen_chunks n api l new_qwen_state u = Some (Inr st, v)" and msg: "once (ret (qwen_reply draw st)) v = Some (Inr msg, t)"
    by (auto simp: qwen_complete_def once_def raise_def split: if_splits dest!: followedD)
  from qwen_chunks_fold [OF run] obtain chunks where chunks: "streamed api l u chunks v" "st = fold absorb_chunk chunks new_qwen_state" by blast
  from msg have m: "msg = qwen_reply draw st" "t = v" by (simp_all add: once_def ret_def)
  have "map tc_function (calls_of msg) = map call_function (map snd (sort_key fst (qs_calls st)))"
    by (simp add: m qwen_reply_def calls_of_def some_list_def finished_calls_functions call_function_def comp_def)
  also have "\<dots> = map (\<lambda>i. call_function (joined (deltas_at i (call_deltas chunks)))) (sorted_list_of_set (delta_index ` set (call_deltas chunks)))"
    by (simp add: chunks absorb_chunks new_qwen_state_def assembled_calls)
  finally show ?thesis using chunks m
    by (intro exI [of _ u] exI [of _ chunks]) (simp add: qwen_reply_def new_message_def absorb_chunks new_qwen_state_def)
qed

text \<open>A stream of two calls whose fragments come interleaved.\<close>

definition sample_chunk :: "json_obj \<Rightarrow> json" where
  "sample_chunk delta = JObj [(''choices'', JList [JObj [(''delta'', JObj delta)]])]"

definition sample_fragment :: "int \<Rightarrow> string \<Rightarrow> string \<Rightarrow> json" where
  "sample_fragment i name arguments = sample_chunk [(''tool_calls'', JList [JObj [(''index'', JInt i), (''id'', JStr name),
     (''function'', JObj [(''name'', JStr name), (''arguments'', JStr arguments)])]])]"

definition sample_chunks :: "json list" where
  "sample_chunks = [sample_chunk [(''content'', JStr ''Hi'')], sample_fragment 1 ''b'' ''{'', sample_fragment 0 ''a'' ''['',
     sample_fragment 1 ''b'' ''}'', sample_fragment 0 [] '']'']"

definition sample_qwen :: "json list qwen_api" where
  "sample_qwen = \<lparr>qa_create = (\<lambda>_. ret ()),
     qa_next = (\<lambda>cs. case cs of [] \<Rightarrow> (Inr None, []) | c # cs \<Rightarrow> (Inr (Some c), cs)), qa_close = ret ()\<rparr>"

definition sample_qwen_message :: message where
  "sample_qwen_message = (new_message ''assistant'' (Text ''Hi''))\<lparr>m_tool_calls := Some
     [\<lparr>tc_id = ''a'', tc_function = \<lparr>fn_name = ''a'', fn_arguments = ''[]''\<rparr>, tc_type = ''function'', tc_thought_signature = None, tc_extra_content = []\<rparr>,
      \<lparr>tc_id = ''b'', tc_function = \<lparr>fn_name = ''b'', fn_arguments = ''{}''\<rparr>, tc_type = ''function'', tc_thought_signature = None, tc_extra_content = []\<rparr>]\<rparr>"

lemma sample_qwen_run:
  "qwen_complete 6 (\<lambda>_. None) (\<lambda>_. []) (\<lambda>_. []) ''qwen3'' sample_qwen [] [] [] None [] None sample_chunks = Some (Inr sample_qwen_message, [])"
  by (simp add: numeral_eq_Suc qwen_complete_def run_defs sanitize_tool_messages_def qwen_params_def qwen_chat_def qwen_messages_def paired_def qwen_tools_def from_res_def map_filter_simps
      answered_by_def sample_qwen_def act_simps sample_chunks_def qwen_cancel_def tell_delta_def tell_def chunk_delta_def sample_chunk_def
      sample_fragment_def attr_simps absorb_chunk_def absorb_delta_def new_qwen_state_def absorb_call_def dsetdefault_def Let_def
      delta_index_def take_text_def qwen_reply_def drawn_id_def sample_qwen_message_def text_content_def some_list_def some_text_def new_message_def)

theorem qwen_reply_assembled_witness:
  "\<exists>u chunks. streamed sample_qwen None u chunks []
     \<and> m_content sample_qwen_message = text_content (concat (map (\<lambda>d. attr_str d ''content'') (deltas_of chunks)))
     \<and> m_thought_summary sample_qwen_message = some_text (concat (map (\<lambda>d. attr_str d ''reasoning_content'') (deltas_of chunks)))
     \<and> map tc_function (calls_of sample_qwen_message) = map (\<lambda>i. call_function (joined (deltas_at i (call_deltas chunks))))
          (sorted_list_of_set (delta_index ` set (call_deltas chunks)))"
  by (rule qwen_reply_assembled [OF sample_qwen_run])

end
