(* ===== verification/Gemini.thy ===== *)
theory Gemini
  imports Provider_Stream Base64
begin

text \<open>
  The adapter of Gemini (\<open>actant/llm/providers/gemini.py\<close>): tool schemas with their references resolved and
  their unsupported keys removed, the contents of a request, and the message read from a stream. The SDK's
  \<open>Part\<close> is a datatype with the shapes the adapter builds; the parts of a stream are their JSON, a signature
  being the text of its bytes. \<open>hex\<close> draws the ids of the request, \<open>draw\<close> those of the response.
\<close>

section \<open>Schemas\<close>

definition after_slash :: "string \<Rightarrow> string" where
  "after_slash ref = rev (takeWhile (\<lambda>c. c \<noteq> CHR ''/'') (rev ref))"

definition is_ref :: "json_obj \<Rightarrow> json_obj \<Rightarrow> json option" where
  "is_ref defs d = (case dget d ''$ref'' of Some (JStr ref) \<Rightarrow> dget defs (after_slash ref) | _ \<Rightarrow> None)"

text \<open>\<open>dereference_schema.resolve\<close>, at most \<open>depth\<close> calls deep: the recursion follows references and need not
  end. \<open>None\<close> is the interpreter's \<open>RecursionError\<close>.\<close>

fun opt_list :: "'a option list \<Rightarrow> 'a list option" where
  "opt_list [] = Some []"
| "opt_list (x # xs) = (case (x, opt_list xs) of (Some y, Some ys) \<Rightarrow> Some (y # ys) | _ \<Rightarrow> None)"

fun resolve_refs :: "nat \<Rightarrow> json_obj \<Rightarrow> json \<Rightarrow> json option" where
  "resolve_refs 0 defs node = None"
| "resolve_refs (Suc depth) defs (JObj d) = (case is_ref defs d of
      Some target \<Rightarrow> resolve_refs depth defs target
    | None \<Rightarrow> map_option JObj (opt_list (map (\<lambda>e. map_option (Pair (fst e)) (resolve_refs depth defs (snd e)))
        (filter (\<lambda>e. fst e \<noteq> ''$defs'') d))))"
| "resolve_refs (Suc depth) defs (JList js) = map_option JList (opt_list (map (resolve_refs depth defs) js))"
| "resolve_refs (Suc depth) defs node = Some node"

definition dereference_schema :: "nat \<Rightarrow> json_obj \<Rightarrow> json option" where
  "dereference_schema depth schema = (case jget schema ''$defs'' (JObj []) of
      JObj (e # defs) \<Rightarrow> resolve_refs depth (e # defs) (JObj schema)
    | _ \<Rightarrow> Some (JObj schema))"

definition unsupported_keys :: "string list" where
  "unsupported_keys = [''additionalProperties'', ''title'', ''default'']"

text \<open>A union of types as the single type Gemini takes.\<close>

definition union_type :: "json list \<Rightarrow> json" where
  "union_type ts = (let non_null = filter (\<lambda>t. t \<noteq> JStr ''null'') ts in
     if non_null = [] then JStr ''string'' else if JStr ''string'' \<in> set non_null then JStr ''string'' else hd non_null)"

definition union_of :: "string \<times> json \<Rightarrow> json option" where
  "union_of e = (case snd e of JList ts \<Rightarrow> if fst e = ''type'' then Some (union_type ts) else None | _ \<Rightarrow> None)"

lemma fields_weight_mem: "(k, v) \<in> set d \<Longrightarrow> json_weight v < json_weight (JObj d)"
  by (induction d) auto

function strip_unsupported_schema_keys :: "json \<Rightarrow> json" where
  "strip_unsupported_schema_keys (JObj d) = JObj (map (\<lambda>e. (fst e, case union_of e of
       Some t \<Rightarrow> t | None \<Rightarrow> strip_unsupported_schema_keys (snd e))) (filter (\<lambda>e. fst e \<notin> set unsupported_keys) d))"
| "strip_unsupported_schema_keys (JList js) = JList (map strip_unsupported_schema_keys js)"
| "strip_unsupported_schema_keys JNull = JNull"
| "strip_unsupported_schema_keys (JBool b) = JBool b"
| "strip_unsupported_schema_keys (JInt i) = JInt i"
| "strip_unsupported_schema_keys (JFloat f) = JFloat f"
| "strip_unsupported_schema_keys (JStr s) = JStr s"
  by pat_completeness auto

termination
  by (relation "measure json_weight") (auto intro: fields_weight_mem json_weight_elem simp del: json_weight.simps(1,2))

section \<open>The model\<close>

record gemini =
  gm_model_id :: string
  gm_thinking_level :: string
  gm_supports_thinking :: bool

definition gemini_budget :: "string \<Rightarrow> int" where
  "gemini_budget level = (if level = ''low'' then 4096 else if level \<in> {''med'', ''medium''} then 8192
     else if level = ''high'' then 24576 else 0)"

definition remove_prefix :: "string \<Rightarrow> string \<Rightarrow> string" where
  "remove_prefix p s = (if Texts.starts_with p s then drop (length p) s else s)"

text \<open>\<open>_check_thinking_support\<close>: \<open>lookup\<close> is the service's answer about the model.\<close>

definition thinking_support :: "py_error + json \<Rightarrow> bool" where
  "thinking_support lookup = (case lookup of Inl e \<Rightarrow> False | Inr info \<Rightarrow> truthy (attr info ''thinking''))"

definition gemini_init :: "string \<Rightarrow> string \<Rightarrow> bool \<Rightarrow> (string \<Rightarrow> py_error + json) \<Rightarrow> gemini" where
  "gemini_init model_id level check lookup = (let i = remove_prefix ''gemini/'' model_id in
     \<lparr>gm_model_id = i, gm_thinking_level = level, gm_supports_thinking = check \<and> thinking_support (lookup i)\<rparr>)"

definition gemini_thinking :: "gemini \<Rightarrow> (bool \<times> int) option" where
  "gemini_thinking p = (if \<not> gm_supports_thinking p then None
     else Some (gemini_budget (gm_thinking_level p) > 0, gemini_budget (gm_thinking_level p)))"

section \<open>The contents of a request\<close>

datatype gemini_part =
    GText string
  | GInline string string
  | GFile string string
  | GCall string json_obj "string option"
  | GResponse string json_obj

text \<open>Arguments given as text: what is no JSON object is no arguments.\<close>

definition convert_arguments :: "string \<Rightarrow> json_obj" where
  "convert_arguments args = (case json_loads args of Some (JObj d) \<Rightarrow> d | _ \<Rightarrow> [])"

definition encode_signature :: "string option \<Rightarrow> string option" where
  "encode_signature signature = map_option b64encode signature"

definition decode_signature :: "string option \<Rightarrow> py_error + string option" where
  "decode_signature signature = (case signature of
      None \<Rightarrow> Inr None | Some s \<Rightarrow> try_bind (b64decode s) (\<lambda>bytes. Inr (Some bytes)))"

fun block_part :: "block \<Rightarrow> py_error + gemini_part" where
  "block_part (TextBlock t) = Inr (GText t)"
| "block_part (InlineImageBlock media data) = try_bind (b64decode data) (\<lambda>bytes. Inr (GInline media bytes))"
| "block_part (UrlImageBlock url media) = Inr (GFile url media)"
| "block_part b = Inl (unresolved b)"

definition content_parts :: "content \<Rightarrow> py_error + gemini_part list" where
  "content_parts c = (case c of
      NoContent \<Rightarrow> Inr [] | Text t \<Rightarrow> Inr (if t = [] then [] else [GText t]) | Blocks bs \<Rightarrow> try_map block_part bs)"

definition raw_signature :: "tool_call \<Rightarrow> string option" where
  "raw_signature c = (case tc_thought_signature c of
      Some s \<Rightarrow> if s \<noteq> [] then Some s else attr_opt (jget (tc_extra_content c) ''google'' JNull) ''thought_signature''
    | None \<Rightarrow> attr_opt (jget (tc_extra_content c) ''google'' JNull) ''thought_signature'')"

definition call_part :: "tool_call \<Rightarrow> py_error + gemini_part" where
  "call_part c = try_bind (decode_signature (raw_signature c)) (\<lambda>signature. Inr
     (GCall (fn_name (tc_function c)) (convert_arguments (fn_arguments (tc_function c))) signature))"

definition is_text_block :: "block \<Rightarrow> bool" where
  "is_text_block b = (case b of TextBlock _ \<Rightarrow> True | _ \<Rightarrow> False)"

definition block_text :: "block \<Rightarrow> string" where
  "block_text b = (case b of TextBlock t \<Rightarrow> t | _ \<Rightarrow> [])"

definition response_parts :: "message \<Rightarrow> py_error + gemini_part list \<times> json_obj" where
  "response_parts m = (case m_content m of
      Blocks bs \<Rightarrow> (let texts = map block_text (filter is_text_block bs) in
        try_bind (try_map block_part (filter (\<lambda>b. \<not> is_text_block b) bs)) (\<lambda>images. Inr
          (images, if texts = [] then [] else [(''result'', JStr (join_with [CHR 0x0A] texts))])))
    | Text t \<Rightarrow> Inr ([], convert_arguments t)
    | NoContent \<Rightarrow> Inr ([], []))"

definition response_name :: "message \<Rightarrow> string" where
  "response_name m = (if or_else (m_name m) [] \<noteq> [] then or_else (m_name m) [] else or_else (m_tool_call_id m) [])"

definition gemini_role :: "message \<Rightarrow> string" where
  "gemini_role m = (if m_role m = ''assistant'' then ''model'' else if m_role m = ''tool'' then ''user'' else m_role m)"

definition message_parts :: "message \<Rightarrow> py_error + gemini_part list" where
  "message_parts m =
     (if m_role m \<in> {''assistant'', ''model''} \<and> m_tool_calls m \<noteq> None
      then try_bind (content_parts (m_content m)) (\<lambda>parts.
        try_bind (try_map call_part (calls_of m)) (\<lambda>calls. Inr (parts @ calls)))
      else if m_role m = ''tool''
      then try_bind (response_parts m) (\<lambda>(images, body). Inr (images @ [GResponse (response_name m) body]))
      else content_parts (m_content m))"

definition convert_message :: "message \<Rightarrow> py_error + string \<times> gemini_part list" where
  "convert_message m = try_bind (message_parts m) (\<lambda>parts. Inr (gemini_role m, if parts = [] then [GText []] else parts))"

definition build_contents ::
  "(json \<Rightarrow> int option) \<Rightarrow> (nat \<Rightarrow> string) \<Rightarrow> message raw list \<Rightarrow> py_error + (string \<times> gemini_part list) list" where
  "build_contents as_int hex raws = try_bind (sanitize_tool_messages as_int hex raws) (try_map convert_message)"

section \<open>Tools and configuration\<close>

record function_declaration =
  dc_name :: string
  dc_description :: string
  dc_parameters :: json

definition text_field :: "json_obj \<Rightarrow> string \<Rightarrow> string" where
  "text_field f k = py_str (jget f k (JStr []))"

text \<open>\<open>None\<close>: the references of a schema go round, a \<open>RecursionError\<close>.\<close>

definition gemini_tool :: "nat \<Rightarrow> json_obj \<Rightarrow> function_declaration option" where
  "gemini_tool depth f = map_option (\<lambda>parameters. \<lparr>dc_name = text_field f ''name'', dc_description = text_field f ''description'',
       dc_parameters = parameters\<rparr>)
     (case jget f ''parameters'' JNull of
        JObj schema \<Rightarrow> map_option strip_unsupported_schema_keys (dereference_schema depth schema)
      | parameters \<Rightarrow> Some parameters)"

definition gemini_tools :: "nat \<Rightarrow> json list \<Rightarrow> function_declaration list option" where
  "gemini_tools depth tools = opt_list (map (gemini_tool depth) (List.map_filter tool_function tools))"

record gemini_config =
  gc_system :: string
  gc_tools :: "function_declaration list option"
  gc_thinking :: "(bool \<times> int) option"
  gc_max_output :: "int option"

definition build_config :: "nat \<Rightarrow> gemini \<Rightarrow> string \<Rightarrow> json list \<Rightarrow> int option \<Rightarrow> py_error + gemini_config" where
  "build_config depth p system tools cap = (case gemini_tools depth tools of
      None \<Rightarrow> Inl (OtherException ''RecursionError'' ''maximum recursion depth exceeded'')
    | Some ds \<Rightarrow> Inr \<lparr>gc_system = system, gc_tools = some_list ds, gc_thinking = gemini_thinking p, gc_max_output = cap\<rparr>)"

section \<open>The stream\<close>

record gemini_state =
  gs_text :: string
  gs_thought :: string
  gs_calls :: "tool_call list"
  gs_drawn :: nat

definition new_gemini_state :: gemini_state where
  "new_gemini_state = \<lparr>gs_text = [], gs_thought = [], gs_calls = [], gs_drawn = 0\<rparr>"

definition absorb_function :: "(nat \<Rightarrow> string) \<Rightarrow> json \<Rightarrow> gemini_state \<Rightarrow> gemini_state" where
  "absorb_function draw part st = (let fc = attr part ''function_call'' in if fc = JNull then st else
     (let signature = encode_signature (attr_opt part ''thought_signature''); (i, n) = drawn_id draw (gs_drawn st) (attr_str fc ''id'') in
      st\<lparr>gs_calls := gs_calls st @ [\<lparr>tc_id = i, tc_function = \<lparr>fn_name = attr_str fc ''name'',
            fn_arguments = (case attr_or fc ''args'' (JObj []) of JObj d \<Rightarrow> json_dumps (JObj d) | _ \<Rightarrow> [])\<rparr>,
          tc_type = ''function'', tc_thought_signature = signature,
          tc_extra_content = (case signature of Some (c # cs) \<Rightarrow> [(''google'', JObj [(''thought_signature'', JStr (c # cs))])] | _ \<Rightarrow> [])\<rparr>],
        gs_drawn := n\<rparr>))"

definition is_thought :: "json \<Rightarrow> bool" where
  "is_thought part \<longleftrightarrow> truthy (attr_or part ''thought'' (JBool False))"

definition absorb_part :: "(nat \<Rightarrow> string) \<Rightarrow> json \<Rightarrow> gemini_state \<Rightarrow> gemini_state" where
  "absorb_part draw part st = absorb_function draw part
     (if is_thought part then st\<lparr>gs_thought := gs_thought st @ attr_str part ''text''\<rparr>
      else st\<lparr>gs_text := gs_text st @ attr_str part ''text''\<rparr>)"

definition tell_part :: "'s stream_listener option \<Rightarrow> json \<Rightarrow> ('s, unit) act" where
  "tell_part l part = whenM (attr_str part ''text'' \<noteq> [])
     (tell l (if is_thought part then ThinkingDelta (attr_str part ''text'') else TextDelta (attr_str part ''text'')))"

definition chunk_parts :: "json \<Rightarrow> json list" where
  "chunk_parts chunk = (case attr_list chunk ''candidates'' of [] \<Rightarrow> [] | c # cs \<Rightarrow> attr_list (attr c ''content'') ''parts'')"

fun take_parts :: "(nat \<Rightarrow> string) \<Rightarrow> 's stream_listener option \<Rightarrow> json list \<Rightarrow> gemini_state \<Rightarrow> ('s, gemini_state) act" where
  "take_parts draw l [] st = ret st"
| "take_parts draw l (part # parts) st = thn (tell_part l part) (take_parts draw l parts (absorb_part draw part st))"

record 's gemini_api =
  ga_create :: "string \<Rightarrow> (string \<times> gemini_part list) list \<Rightarrow> gemini_config \<Rightarrow> ('s, unit) act"
  ga_next :: "('s, json option) act"

fun gemini_chunks :: "nat \<Rightarrow> (nat \<Rightarrow> string) \<Rightarrow> 's gemini_api \<Rightarrow> 's stream_listener option \<Rightarrow> gemini_state \<Rightarrow> ('s, gemini_state) run" where
  "gemini_chunks 0 draw api l st = (\<lambda>_. None)"
| "gemini_chunks (Suc n) draw api l st = followed (once (ga_next api)) (\<lambda>chunk. case chunk of
      None \<Rightarrow> once (ret st)
    | Some chunk \<Rightarrow> followed (once (thn (check_cancel l) (take_parts draw l (chunk_parts chunk) st)))
        (\<lambda>st. gemini_chunks n draw api l st))"

definition gemini_reply :: "gemini_state \<Rightarrow> message" where
  "gemini_reply st = (new_message ''assistant'' (text_content (gs_text st)))
     \<lparr>m_tool_calls := some_list (gs_calls st), m_thought_summary := some_text (gs_thought st)\<rparr>"

definition gemini_complete ::
  "nat \<Rightarrow> nat \<Rightarrow> (json \<Rightarrow> int option) \<Rightarrow> (nat \<Rightarrow> string) \<Rightarrow> (nat \<Rightarrow> string) \<Rightarrow> gemini \<Rightarrow> 's gemini_api \<Rightarrow> string \<Rightarrow> message list
     \<Rightarrow> json list \<Rightarrow> 's stream_listener option \<Rightarrow> string list \<Rightarrow> int option \<Rightarrow> ('s, message) run" where
  "gemini_complete n depth as_int hex draw p api system ms tools l allowed cap =
     (if allowed \<noteq> [] then once (raise (NotImplementedError ''allowed_tools is not implemented for Gemini''))
      else followed (once (from_res (build_contents as_int hex (map Instance ms)))) (\<lambda>contents.
        followed (once (from_res (build_config depth p system tools cap))) (\<lambda>config.
        followed (once (ga_create api (gm_model_id p) contents config)) (\<lambda>_.
        followed (gemini_chunks n draw api l new_gemini_state) (\<lambda>st. once (ret (gemini_reply st)))))))"

section \<open>Schemas sent to the model\<close>

lemma opt_list_Cons: "opt_list (x # xs) = Some ys \<longleftrightarrow> (\<exists>z zs. x = Some z \<and> opt_list xs = Some zs \<and> ys = z # zs)"
  by (auto split: option.splits)

lemma opt_list_all2: "opt_list (map f xs) = Some ys \<Longrightarrow> list_all2 (\<lambda>x y. f x = Some y) xs ys"
  by (induction xs arbitrary: ys) (auto simp: opt_list_Cons simp del: opt_list.simps(2))

lemma opt_list_more:
  "opt_list (map f xs) = Some ys \<Longrightarrow> (\<And>x y. x \<in> set xs \<Longrightarrow> f x = Some y \<Longrightarrow> g x = Some y) \<Longrightarrow> opt_list (map g xs) = Some ys"
  by (induction xs arbitrary: ys) (auto simp: opt_list_Cons simp del: opt_list.simps(2))

lemma opt_list_total: "(\<And>x. x \<in> set xs \<Longrightarrow> f x \<noteq> None) \<Longrightarrow> opt_list (map f xs) \<noteq> None"
proof (induction xs)
  case (Cons x xs)
  then obtain y ys where "f x = Some y" "opt_list (map f xs) = Some ys" by (metis list.set_intros(1,2) not_None_eq)
  then show ?case by simp
qed simp

text \<open>A \<open>type\<close> given as a list names its types.\<close>

definition names_types :: "string \<times> json \<Rightarrow> bool" where
  "names_types e \<longleftrightarrow> (\<forall>ts. fst e = ''type'' \<and> snd e = JList ts \<longrightarrow> set ts \<subseteq> range JStr)"

fun named_types :: "json \<Rightarrow> bool" where
  "named_types (JObj d) \<longleftrightarrow> (\<forall>e\<in>set d. named_types (snd e) \<and> names_types e)"
| "named_types (JList js) \<longleftrightarrow> (\<forall>j\<in>set js. named_types j)"
| "named_types _ \<longleftrightarrow> True"

text \<open>No reference to a definition is left, nor a block of definitions.\<close>

fun resolved_schema :: "json_obj \<Rightarrow> json \<Rightarrow> bool" where
  "resolved_schema defs (JObj d) \<longleftrightarrow> is_ref defs d = None
     \<and> (\<forall>e\<in>set d. fst e \<noteq> ''$defs'' \<and> resolved_schema defs (snd e) \<and> names_types e)"
| "resolved_schema defs (JList js) \<longleftrightarrow> (\<forall>j\<in>set js. resolved_schema defs j)"
| "resolved_schema defs _ \<longleftrightarrow> True"

text \<open>Nor a key Gemini refuses, nor a type that is a list.\<close>

fun sendable_schema :: "json_obj \<Rightarrow> json \<Rightarrow> bool" where
  "sendable_schema defs (JObj d) \<longleftrightarrow> is_ref defs d = None
     \<and> (\<forall>e\<in>set d. fst e \<noteq> ''$defs'' \<and> fst e \<notin> set unsupported_keys \<and> sendable_schema defs (snd e)
          \<and> (fst e = ''type'' \<longrightarrow> (\<forall>ts. snd e \<noteq> JList ts)))"
| "sendable_schema defs (JList js) \<longleftrightarrow> (\<forall>j\<in>set js. sendable_schema defs j)"
| "sendable_schema defs _ \<longleftrightarrow> True"

text \<open>The references of a value are to definitions of rank below \<open>k\<close>; those of a definition to lower ones.\<close>

fun refs_below :: "(string \<Rightarrow> nat) \<Rightarrow> json_obj \<Rightarrow> nat \<Rightarrow> json \<Rightarrow> bool" where
  "refs_below rank defs k (JObj d) \<longleftrightarrow> (\<forall>e\<in>set d. refs_below rank defs k (snd e))
     \<and> (case dget d ''$ref'' of Some (JStr ref) \<Rightarrow> dget defs (after_slash ref) \<noteq> None \<longrightarrow> rank (after_slash ref) < k | _ \<Rightarrow> True)"
| "refs_below rank defs k (JList js) \<longleftrightarrow> (\<forall>j\<in>set js. refs_below rank defs k j)"
| "refs_below rank defs k _ \<longleftrightarrow> True"

definition is_obj :: "json \<Rightarrow> bool" where
  "is_obj j \<longleftrightarrow> (\<exists>d. j = JObj d)"

definition layered_defs :: "(string \<Rightarrow> nat) \<Rightarrow> json_obj \<Rightarrow> bool" where
  "layered_defs rank defs \<longleftrightarrow> (\<forall>e\<in>set defs. is_obj (snd e) \<and> named_types (snd e) \<and> refs_below rank defs (rank (fst e)) (snd e))"

lemma resolve_refs_more: "resolve_refs n defs j = Some r \<Longrightarrow> n \<le> m \<Longrightarrow> resolve_refs m defs j = Some r"
proof (induction n arbitrary: j r m)
  case (Suc n)
  from Suc.prems(2) obtain m' where m: "m = Suc m'" "n \<le> m'" by (cases m) auto
  note more = Suc.IH [OF _ m(2)]
  show ?case
  proof (cases j)
    case (JObj d)
    show ?thesis
    proof (cases "is_ref defs d")
      case None
      with Suc.prems(1) JObj obtain es where es: "opt_list (map (\<lambda>e. map_option (Pair (fst e)) (resolve_refs n defs (snd e)))
          (filter (\<lambda>e. fst e \<noteq> ''$defs'') d)) = Some es" "r = JObj es" by auto
      have "opt_list (map (\<lambda>e. map_option (Pair (fst e)) (resolve_refs m' defs (snd e))) (filter (\<lambda>e. fst e \<noteq> ''$defs'') d)) = Some es"
        by (rule opt_list_more [OF es(1)]) (auto dest: more)
      with None JObj m(1) es(2) show ?thesis by simp
    qed (use Suc.prems JObj m more in simp)
  next
    case (JList js)
    with Suc.prems(1) obtain es where es: "opt_list (map (resolve_refs n defs) js) = Some es" "r = JList es" by auto
    have "opt_list (map (resolve_refs m' defs) js) = Some es" by (rule opt_list_more [OF es(1)]) (rule more)
    with JList m(1) es(2) show ?thesis by simp
  qed (use Suc.prems m in auto)
qed simp

text \<open>The depth that resolves some of several values resolves them all.\<close>

lemma resolve_refs_together:
  "(\<And>j. j \<in> set js \<Longrightarrow> \<exists>n. resolve_refs n defs j \<noteq> None) \<Longrightarrow> \<exists>n. \<forall>j\<in>set js. resolve_refs n defs j \<noteq> None"
proof (induction js)
  case (Cons j js)
  then obtain n where n: "\<forall>j\<in>set js. resolve_refs n defs j \<noteq> None" by (metis list.set_intros(2))
  from Cons.prems obtain k r where k: "resolve_refs k defs j = Some r" by (metis list.set_intros(1) not_None_eq)
  have "resolve_refs (max n k) defs x \<noteq> None" if "x \<in> set (j # js)" for x
  proof -
    from that k n obtain y where "resolve_refs n defs x = Some y \<or> resolve_refs k defs x = Some y" by auto
    with resolve_refs_more [of n defs x y "max n k"] resolve_refs_more [of k defs x y "max n k"] show ?thesis by auto
  qed
  then show ?case by blast
qed simp

lemma resolve_refs_ends:
  assumes "layered_defs rank defs" and "refs_below rank defs k j"
  shows "\<exists>n. resolve_refs n defs j \<noteq> None"
  using assms(2)
proof (induction k arbitrary: j rule: less_induct)
  case (less k)
  note lower = less.IH
  from less.prems show ?case
  proof (induction j)
    case (JObj d)
    show ?case
    proof (cases "is_ref defs d")
      case (Some target)
      then obtain ref where ref: "dget d ''$ref'' = Some (JStr ref)" "dget defs (after_slash ref) = Some target"
        by (auto simp: is_ref_def split: option.splits json.splits)
      with JObj.prems have "rank (after_slash ref) < k" by simp
      moreover have "refs_below rank defs (rank (after_slash ref)) target"
        using assms(1) map_of_SomeD [OF ref(2)] by (force simp: layered_defs_def)
      ultimately obtain n where "resolve_refs n defs target \<noteq> None" using lower by blast
      with Some show ?thesis by (intro exI [of _ "Suc n"]) simp
    next
      case None
      have "\<exists>n. resolve_refs n defs j \<noteq> None" if "j \<in> set (map snd d)" for j
        using JObj.IH JObj.prems that by (force simp: refs_below.simps)
      then obtain n where n: "\<forall>j\<in>set (map snd d). resolve_refs n defs j \<noteq> None" using resolve_refs_together by metis
      have "opt_list (map (\<lambda>e. map_option (Pair (fst e)) (resolve_refs n defs (snd e))) (filter (\<lambda>e. fst e \<noteq> ''$defs'') d)) \<noteq> None"
        by (rule opt_list_total) (use n in auto)
      with None show ?thesis by (intro exI [of _ "Suc n"]) auto
    qed
  next
    case (JList js)
    have "\<exists>n. resolve_refs n defs j \<noteq> None" if "j \<in> set js" for j using JList that by simp
    then obtain n where n: "\<forall>j\<in>set js. resolve_refs n defs j \<noteq> None" using resolve_refs_together by metis
    have "opt_list (map (resolve_refs n defs) js) \<noteq> None" by (rule opt_list_total) (use n in auto)
    then show ?case by (intro exI [of _ "Suc n"]) auto
  qed (intro exI [of _ 1]; simp)+
qed

lemma resolve_refs_obj:
  "layered_defs rank defs \<Longrightarrow> resolve_refs n defs j = Some r \<Longrightarrow> is_obj j \<Longrightarrow> is_obj r"
proof (induction n arbitrary: j)
  case (Suc n)
  then obtain d where d: "j = JObj d" by (auto simp: is_obj_def)
  show ?case
  proof (cases "is_ref defs d")
    case (Some target)
    then have "is_obj target" using Suc.prems(1)
      by (auto simp: is_ref_def layered_defs_def dest!: map_of_SomeD split: option.splits json.splits)
    with Suc Some d show ?thesis by simp
  qed (use Suc.prems d in \<open>auto simp: is_obj_def\<close>)
qed simp

lemma dget_all2:
  "list_all2 (\<lambda>x y. fst y = fst x \<and> P (snd x) (snd y)) d es \<Longrightarrow> dget es k = Some v \<Longrightarrow> \<exists>w. dget d k = Some w \<and> P w v"
  by (induction d es rule: list_all2_induct) (auto split: if_splits)

lemma dget_filter_keys: "dget (filter (\<lambda>e. P (fst e)) d) k = (if P k then dget d k else None)"
  by (induction d) auto

lemma list_all2_from: "list_all2 P xs ys \<Longrightarrow> y \<in> set ys \<Longrightarrow> \<exists>x\<in>set xs. P x y"
  by (induction xs ys rule: list_all2_induct) auto

lemma resolve_refs_plain:
  "resolve_refs n defs w = Some (JStr ref) \<Longrightarrow> layered_defs rank defs \<Longrightarrow> w = JStr ref"
  using resolve_refs_obj [of rank defs n w "JStr ref"] by (cases n; cases w) (auto simp: is_obj_def)

lemma resolve_refs_union:
  assumes "resolve_refs n defs w = Some (JList ts)" and "layered_defs rank defs" and "names_types (k, w)"
  shows "names_types (k, JList ts)"
proof -
  from assms(1) obtain m where n: "n = Suc m" by (cases n) auto
  from assms(1) resolve_refs_obj [OF assms(2,1)] n obtain us where us: "w = JList us" "list_all2 (\<lambda>x y. resolve_refs m defs x = Some y) us ts"
    by (cases w) (auto simp: is_obj_def dest: opt_list_all2)
  have "resolve_refs m defs (JStr t) = Some y \<Longrightarrow> y = JStr t" for t y by (cases m) auto
  with us(2) have "set us \<subseteq> range JStr \<Longrightarrow> set ts \<subseteq> range JStr" by (induction us ts rule: list_all2_induct) auto
  with assms(3) us(1) show ?thesis by (auto simp: names_types_def)
qed

lemma resolve_refs_free:
  assumes "layered_defs rank defs"
  shows "resolve_refs n defs j = Some r \<Longrightarrow> named_types j \<Longrightarrow> resolved_schema defs r"
proof (induction n arbitrary: j r)
  case (Suc n)
  show ?case
  proof (cases j)
    case (JObj d)
    show ?thesis
    proof (cases "is_ref defs d")
      case None
      let ?kept = "filter (\<lambda>e. fst e \<noteq> ''$defs'') d"
      from Suc.prems JObj None obtain es where es: "r = JObj es"
        "list_all2 (\<lambda>x y. map_option (Pair (fst x)) (resolve_refs n defs (snd x)) = Some y) ?kept es"
        by (auto dest: opt_list_all2)
      from es(2) have pairs: "list_all2 (\<lambda>x y. fst y = fst x \<and> resolve_refs n defs (snd x) = Some (snd y)) ?kept es"
        by (rule list_all2_mono) auto
      have each: "fst e \<noteq> ''$defs'' \<and> resolved_schema defs (snd e) \<and> names_types e" if e: "e \<in> set es" for e
      proof -
        from list_all2_from [OF pairs e] obtain x where x: "x \<in> set ?kept" "fst e = fst x" "resolve_refs n defs (snd x) = Some (snd e)"
          by blast
        with Suc.prems(2) JObj have "named_types (snd x)" "names_types (fst x, snd x)" by auto
        with x Suc.IH [OF x(3)] resolve_refs_union [of n defs "snd x" _ rank "fst x"] assms show ?thesis
          by (cases e; cases "snd e") (auto simp: names_types_def)
      qed
      have "is_ref defs es = None"
      proof (rule ccontr)
        assume "is_ref defs es \<noteq> None"
        then obtain ref where ref: "dget es ''$ref'' = Some (JStr ref)" "dget defs (after_slash ref) \<noteq> None"
          by (auto simp: is_ref_def split: option.splits json.splits)
        from dget_all2 [OF pairs ref(1)] obtain w where w: "dget d ''$ref'' = Some w" "resolve_refs n defs w = Some (JStr ref)"
          by (auto simp: dget_filter_keys [where P = "\<lambda>k. k \<noteq> ''$defs''"])
        with resolve_refs_plain [OF w(2) assms] ref(2) None show False by (simp add: is_ref_def)
      qed
      with es(1) each show ?thesis by simp
    next
      case (Some target)
      then have "named_types target" using assms
        by (auto simp: is_ref_def layered_defs_def dest!: map_of_SomeD split: option.splits json.splits)
      with Suc Some JObj show ?thesis by simp
    qed
  next
    case (JList js)
    with Suc.prems obtain es where es: "r = JList es" "list_all2 (\<lambda>x y. resolve_refs n defs x = Some y) js es"
      by (auto dest: opt_list_all2)
    have "resolved_schema defs e" if "e \<in> set es" for e
    proof -
      from list_all2_from [OF es(2) that] obtain x where "x \<in> set js" "resolve_refs n defs x = Some e" by blast
      with Suc.IH Suc.prems(2) JList show ?thesis by simp
    qed
    with es(1) show ?thesis by simp
  qed (use Suc.prems in auto)
qed simp

lemma union_type_named: "set ts \<subseteq> range JStr \<Longrightarrow> \<exists>t. union_type ts = JStr t"
proof -
  assume "set ts \<subseteq> range JStr"
  then have "hd (filter (\<lambda>t. t \<noteq> JStr ''null'') ts) \<in> range JStr" if "filter (\<lambda>t. t \<noteq> JStr ''null'') ts \<noteq> []"
    using hd_in_set [OF that] by auto
  then show ?thesis by (auto simp: union_type_def Let_def)
qed

definition strip_field :: "string \<times> json \<Rightarrow> string \<times> json" where
  "strip_field e = (fst e, case union_of e of Some t \<Rightarrow> t | None \<Rightarrow> strip_unsupported_schema_keys (snd e))"

lemma strip_obj: "strip_unsupported_schema_keys (JObj d) = JObj (map strip_field (filter (\<lambda>e. fst e \<notin> set unsupported_keys) d))"
  by (simp add: strip_field_def [abs_def])

lemma strip_field_fst [simp]: "fst (strip_field e) = fst e"
  by (simp add: strip_field_def)

lemma dget_strip: "k \<noteq> ''type'' \<Longrightarrow> k \<notin> set unsupported_keys \<Longrightarrow>
    dget (map strip_field (filter (\<lambda>e. fst e \<notin> set unsupported_keys) d)) k = map_option strip_unsupported_schema_keys (dget d k)"
  by (induction d) (auto simp: strip_field_def union_of_def split: option.split json.splits)

lemma strip_str: "strip_unsupported_schema_keys v = JStr s \<longleftrightarrow> v = JStr s"
  by (cases v) (auto simp del: strip_unsupported_schema_keys.simps(1) simp: strip_obj)

lemma strip_sendable: "resolved_schema defs j \<Longrightarrow> sendable_schema defs (strip_unsupported_schema_keys j)"
proof (induction j)
  case (JObj d)
  let ?es = "map strip_field (filter (\<lambda>e. fst e \<notin> set unsupported_keys) d)"
  have "is_ref defs ?es = None"
  proof -
    have "dget ?es ''$ref'' = map_option strip_unsupported_schema_keys (dget d ''$ref'')"
      by (rule dget_strip) (simp_all add: unsupported_keys_def)
    moreover have "is_ref defs d = None" using JObj.prems by simp
    ultimately show ?thesis by (auto simp: is_ref_def strip_str split: option.splits json.splits)
  qed
  moreover have "fst e \<noteq> ''$defs'' \<and> fst e \<notin> set unsupported_keys \<and> sendable_schema defs (snd e)
      \<and> (fst e = ''type'' \<longrightarrow> (\<forall>ts. snd e \<noteq> JList ts))" if e: "e \<in> set ?es" for e
  proof -
    from e obtain x where x: "x \<in> set d" "fst x \<notin> set unsupported_keys" "e = strip_field x" by auto
    from JObj.prems x(1) have r: "fst x \<noteq> ''$defs''" "resolved_schema defs (snd x)" "names_types x" by auto
    have s: "sendable_schema defs (strip_unsupported_schema_keys (snd x))" using JObj.IH [OF x(1)] r(2) by (cases x) auto
    have "sendable_schema defs (snd e) \<and> (fst x = ''type'' \<longrightarrow> (\<forall>ts. snd e \<noteq> JList ts))"
    proof (cases "union_of x")
      case (Some t)
      then obtain ts where ts: "fst x = ''type''" "snd x = JList ts" "t = union_type ts"
        by (auto simp: union_of_def split: json.splits if_splits)
      with r(3) have "set ts \<subseteq> range JStr" by (auto simp: names_types_def)
      from union_type_named [OF this] ts Some x(3) show ?thesis by (auto simp: strip_field_def)
    next
      case None
      then have "snd e = strip_unsupported_schema_keys (snd x)" using x(3) by (simp add: strip_field_def)
      moreover have "strip_unsupported_schema_keys (snd x) \<noteq> JList ts" if "fst x = ''type''" for ts
        using None that by (cases "snd x") (auto simp: union_of_def)
      ultimately show ?thesis using s by simp
    qed
    with x r(1) show ?thesis by simp
  qed
  ultimately show ?case unfolding strip_obj sendable_schema.simps(1) by blast
qed simp_all

text \<open>A tool's schema reaches Gemini in the form it takes. When no definition refers to itself, not even through
  others, the references are resolved at some depth of the recursion and at any greater one, with the same
  result; in it no reference to a definition and no definitions are left, none of the keys Gemini refuses,
  and no type is a list.\<close>

theorem gemini_tool_sendable:
  assumes "jget f ''parameters'' JNull = JObj schema" and "dget schema ''$defs'' = Some (JObj defs)" and "defs \<noteq> []"
    and "layered_defs rank defs" and "refs_below rank defs k (JObj schema)" and "named_types (JObj schema)"
  shows "\<exists>least parameters. sendable_schema defs parameters
     \<and> (\<forall>depth\<ge>least. gemini_tool depth f = Some \<lparr>dc_name = text_field f ''name'', dc_description = text_field f ''description'',
          dc_parameters = parameters\<rparr>)"
proof -
  from resolve_refs_ends [OF assms(4,5)] obtain least r where r: "resolve_refs least defs (JObj schema) = Some r" by blast
  from assms(3) obtain e es where defs: "defs = e # es" by (cases defs) auto
  have deref: "dereference_schema depth schema = resolve_refs depth defs (JObj schema)" for depth
    using assms(2) by (simp add: dereference_schema_def jget_def defs)
  have "sendable_schema defs (strip_unsupported_schema_keys r)"
    by (rule strip_sendable) (rule resolve_refs_free [OF assms(4) r assms(6)])
  moreover have "gemini_tool depth f = Some \<lparr>dc_name = text_field f ''name'', dc_description = text_field f ''description'',
      dc_parameters = strip_unsupported_schema_keys r\<rparr>" if "depth \<ge> least" for depth
    using resolve_refs_more [OF r that] assms(1) by (simp add: gemini_tool_def deref)
  ultimately show ?thesis by blast
qed

text \<open>A tool whose parameter refers to a definition that refers to another.\<close>

definition ref_to :: "string \<Rightarrow> json" where
  "ref_to name = JObj [(''$ref'', JStr (''#/$defs/'' @ name))]"

definition sample_defs :: json_obj where
  "sample_defs = [(''Point'', JObj [(''type'', JStr ''object''), (''properties'', JObj [(''x'', ref_to ''Num'')])]),
     (''Num'', JObj [(''type'', JList [JStr ''integer'', JStr ''null'']), (''title'', JStr ''Num'')])]"

definition sample_schema :: json_obj where
  "sample_schema = [(''$defs'', JObj sample_defs), (''properties'', JObj [(''at'', ref_to ''Point'')])]"

definition sample_rank :: "string \<Rightarrow> nat" where
  "sample_rank name = (if name = ''Point'' then 1 else 0)"

theorem gemini_tool_sendable_witness:
  "\<exists>least parameters. sendable_schema sample_defs parameters
     \<and> (\<forall>depth\<in>{least..}. gemini_tool depth [(''name'', JStr ''plot''), (''parameters'', JObj sample_schema)]
          = Some \<lparr>dc_name = ''plot'', dc_description = [], dc_parameters = parameters\<rparr>)"
proof -
  let ?f = "[(''name'', JStr ''plot''), (''parameters'', JObj sample_schema)]"
  have "jget ?f ''parameters'' JNull = JObj sample_schema" by (simp add: jget_def)
  moreover have "dget sample_schema ''$defs'' = Some (JObj sample_defs)" "sample_defs \<noteq> []"
    by (simp_all add: sample_schema_def sample_defs_def)
  moreover have "layered_defs sample_rank sample_defs" "refs_below sample_rank sample_defs 2 (JObj sample_schema)"
    by (simp_all add: layered_defs_def is_obj_def sample_schema_def sample_defs_def ref_to_def names_types_def after_slash_def sample_rank_def)
  moreover have "named_types (JObj sample_schema)"
    by (simp add: sample_schema_def sample_defs_def ref_to_def names_types_def)
  ultimately obtain least parameters where "sendable_schema sample_defs parameters"
    and "\<forall>depth\<ge>least. gemini_tool depth ?f = Some \<lparr>dc_name = text_field ?f ''name'', dc_description = text_field ?f ''description'',
        dc_parameters = parameters\<rparr>" using gemini_tool_sendable by blast
  moreover have "text_field ?f ''name'' = ''plot''" "text_field ?f ''description'' = []" by (simp_all add: text_field_def jget_def)
  ultimately show ?thesis by auto
qed

text \<open>A property of that name is taken for the key Gemini refuses, and is not sent.\<close>

lemma property_named_title_dropped:
  "strip_unsupported_schema_keys (JObj [(''properties'', JObj [(''title'', JObj [(''type'', JStr ''string'')])]), (''required'', JList [JStr ''title''])])
     = JObj [(''properties'', JObj []), (''required'', JList [JStr ''title''])]"
  by (simp add: unsupported_keys_def union_of_def)

section \<open>Calls sent back\<close>

text \<open>A call as a part of a stream: its id, name, arguments and signature.\<close>

definition function_part :: "string \<times> string \<times> json_obj \<times> string option \<Rightarrow> json" where
  "function_part c = (let (i, name, args, signature) = c in
     JObj ((''function_call'', JObj [(''id'', JStr i), (''name'', JStr name), (''args'', JObj args)])
       # (case signature of None \<Rightarrow> [] | Some s \<Rightarrow> [(''thought_signature'', JStr s)])))"

definition sent_call :: "string \<times> string \<times> json_obj \<times> string option \<Rightarrow> gemini_part" where
  "sent_call c = (let (i, name, args, signature) = c in GCall name args signature)"

definition text_part :: "string \<Rightarrow> json" where
  "text_part t = JObj [(''text'', JStr t)]"

definition call_ok :: "string \<times> string \<times> json_obj \<times> string option \<Rightarrow> bool" where
  "call_ok c = (let (i, name, args, signature) = c in i \<noteq> [] \<and> json_ok (JObj args) \<and> signature \<noteq> Some [])"

definition stored_call :: "string \<times> string \<times> json_obj \<times> string option \<Rightarrow> tool_call" where
  "stored_call c = (let (i, name, args, signature) = c in
     \<lparr>tc_id = i, tc_function = \<lparr>fn_name = name, fn_arguments = json_dumps (JObj args)\<rparr>, tc_type = ''function'',
      tc_thought_signature = map_option b64encode signature,
      tc_extra_content = (case signature of None \<Rightarrow> [] | Some s \<Rightarrow> [(''google'', JObj [(''thought_signature'', JStr (b64encode s))])])\<rparr>)"

lemma absorb_function_part:
  assumes "call_ok c"
  shows "absorb_part draw (function_part c) st = st\<lparr>gs_calls := gs_calls st @ [stored_call c]\<rparr>"
proof -
  obtain i name args signature where c: "c = (i, name, args, signature)" by (cases c)
  have "encode_signature signature = Some s \<Longrightarrow> s \<noteq> []" for s using assms by (auto simp: c call_ok_def encode_signature_def)
  with assms show ?thesis
    by (cases signature)
      (auto simp: c call_ok_def absorb_part_def absorb_function_def function_part_def stored_call_def encode_signature_def drawn_id_def
        is_thought_def attr_simps Let_def split: list.split)
qed

lemma absorb_function_parts:
  "list_all call_ok cs \<Longrightarrow> fold (absorb_part draw) (map function_part cs) st = st\<lparr>gs_calls := gs_calls st @ map stored_call cs\<rparr>"
  by (induction cs arbitrary: st) (simp_all add: absorb_function_part)

lemma stored_call_part:
  assumes "call_ok c"
  shows "call_part (stored_call c) = Inr (sent_call c)"
proof -
  obtain i name args signature where c: "c = (i, name, args, signature)" by (cases c)
  from assms have "json_ok (JObj args)" by (simp add: c call_ok_def)
  then have "convert_arguments (json_dumps (JObj args)) = args" unfolding convert_arguments_def by (simp only: loads_dumps) simp
  moreover have "decode_signature (raw_signature (stored_call c)) = Inr signature" using assms
    by (cases signature) (auto simp: c call_ok_def stored_call_def raw_signature_def decode_signature_def attr_simps)
  ultimately show ?thesis by (simp add: call_part_def c stored_call_def sent_call_def)
qed

text \<open>The calls Gemini made are the calls it is shown: text and calls of a stream, made into a message and
  converted for the next request, come back as the same parts, with the same names, the same arguments after
  their passage through JSON text, and byte for byte the same signatures after theirs through base 64.\<close>

theorem gemini_calls_sent_back:
  assumes "list_all call_ok cs" and "cs \<noteq> []"
  shows "convert_message (gemini_reply (fold (absorb_part draw) (text_part t # map function_part cs) new_gemini_state))
     = Inr (''model'', (if t = [] then [] else [GText t]) @ map sent_call cs)"
proof -
  let ?st = "fold (absorb_part draw) (text_part t # map function_part cs) new_gemini_state"
  have "absorb_part draw (text_part t) new_gemini_state = new_gemini_state\<lparr>gs_text := t\<rparr>"
    by (simp add: absorb_part_def absorb_function_def text_part_def is_thought_def new_gemini_state_def attr_simps)
  with absorb_function_parts [OF assms(1)] have "gs_text ?st = t" "gs_calls ?st = map stored_call cs"
    by (simp_all add: new_gemini_state_def)
  then have m: "m_role (gemini_reply ?st) = ''assistant''" "m_content (gemini_reply ?st) = text_content t"
    "m_tool_calls (gemini_reply ?st) = Some (map stored_call cs)"
    using assms(2) by (simp_all add: gemini_reply_def some_list_def new_message_def)
  have "try_map call_part (map stored_call cs) = Inr (map sent_call cs)"
    using assms(1) by (induction cs) (simp_all add: stored_call_part)
  with assms(2) show ?thesis
    unfolding convert_message_def message_parts_def m calls_of_def gemini_role_def by (simp add: text_content_def content_parts_def)
qed

theorem gemini_calls_sent_back_witness:
  "convert_message (gemini_reply (fold (absorb_part (\<lambda>_. [])) (text_part ''Hi'' # map function_part
       [(''c1'', ''plot'', [(''x'', JInt 3)], Some ''sig''), (''c2'', ''stop'', [], None)]) new_gemini_state))
     = Inr (''model'', [GText ''Hi'', GCall ''plot'' [(''x'', JInt 3)] (Some ''sig''), GCall ''stop'' [] None])"
  using gemini_calls_sent_back [of "[(''c1'', ''plot'', [(''x'', JInt 3)], Some ''sig''), (''c2'', ''stop'', [], None)]" "\<lambda>_. []" "''Hi''"]
  by (simp add: call_ok_def sent_call_def)

end
