(* ===== verification/Providers.thy ===== *)
theory Providers
  imports Anthropic Openai Qwen Gemini
begin

text \<open>
  The adapters side by side: which one serves a model (\<open>actant/llm/routing.py\<close>), the scripted one of the
  tests (\<open>actant/llm/providers/fake.py\<close>), and what every request to a service that pairs calls with their
  results by id has in common.
\<close>

section \<open>Routing\<close>

definition MODEL_PREFIXES :: "(string \<times> string) list" where
  "MODEL_PREFIXES = [(''claude'', ''anthropic''), (''gpt'', ''openai''), (''o1'', ''openai''), (''o3'', ''openai''),
     (''o4'', ''openai''), (''gemini'', ''gemini''), (''qwen'', ''qwen'')]"

definition unknown_model :: "string \<Rightarrow> py_error" where
  "unknown_model model_id = ValueError (''Cannot determine provider for model '' @ repr_str model_id
     @ ''. Known prefixes: ['' @ join_with '', '' (map repr_str [''claude'', ''gemini'', ''gpt'', ''o1'', ''o3'', ''o4'', ''qwen'']) @ '']'')"

definition namespace_of :: "string \<Rightarrow> string option" where
  "namespace_of model_id = (if CHR ''/'' \<in> set model_id then Some (takeWhile (\<lambda>c. c \<noteq> CHR ''/'') model_id) else None)"

definition provider_for_model :: "string \<Rightarrow> py_error + string" where
  "provider_for_model model_id = (case Option.bind (namespace_of model_id) (dget MODEL_PREFIXES) of
      Some provider \<Rightarrow> Inr provider
    | None \<Rightarrow> (case filter (\<lambda>(pre, _). Texts.starts_with pre model_id) MODEL_PREFIXES of
          (_, provider) # _ \<Rightarrow> Inr provider
        | [] \<Rightarrow> Inl (unknown_model model_id)))"

section \<open>The scripted client\<close>

record fake_response =
  fr_text :: string
  fr_tool_calls :: "tool_call list"
  fr_text_chunks :: "string list"
  fr_thinking_chunks :: "string list"
  fr_usage :: "int option \<times> int option \<times> int option \<times> int option"

record fake_llm =
  fk_responses :: "fake_response list"
  fk_calls :: "(string \<times> message list \<times> json list) list"
  fk_allowed_tools :: "string list list"
  fk_max_output_tokens :: "int option list"

fun tell_chunks :: "'s stream_listener option \<Rightarrow> (string \<Rightarrow> stream_note) \<Rightarrow> string list \<Rightarrow> ('s, unit) act" where
  "tell_chunks l note [] = ret ()"
| "tell_chunks l note (c # cs) = thn (check_cancel l) (thn (tell l (note c)) (tell_chunks l note cs))"

definition fake_message :: "fake_response \<Rightarrow> message" where
  "fake_message r = (case fr_usage r of (i, out, cr, cw) \<Rightarrow>
     (new_message ''assistant'' (text_content (fr_text r)))\<lparr>m_tool_calls := some_list (fr_tool_calls r),
       m_input_tokens := i, m_output_tokens := out, m_cache_read_tokens := cr, m_cache_write_tokens := cw\<rparr>)"

definition breaks_allowed :: "string list \<Rightarrow> fake_response \<Rightarrow> bool" where
  "breaks_allowed allowed r \<longleftrightarrow> allowed \<noteq> []
     \<and> (fr_tool_calls r = [] \<or> list_ex (\<lambda>c. fn_name (tc_function c) \<notin> set allowed) (fr_tool_calls r))"

text \<open>The client's record beside the world its listener acts on.\<close>

definition fake_complete ::
  "string \<Rightarrow> message list \<Rightarrow> json list \<Rightarrow> 's stream_listener option \<Rightarrow> string list \<Rightarrow> int option \<Rightarrow> fake_llm \<Rightarrow> 's
     \<Rightarrow> (py_error + message) \<times> fake_llm \<times> 's" where
  "fake_complete system ms tools l allowed cap f s =
     (let f = f\<lparr>fk_calls := fk_calls f @ [(system, ms, tools)], fk_allowed_tools := fk_allowed_tools f @ [allowed],
            fk_max_output_tokens := fk_max_output_tokens f @ [cap]\<rparr> in
      case fk_responses f of
        [] \<Rightarrow> (Inl (RuntimeError ''FakeLLM has no queued responses''), f, s)
      | r # rs \<Rightarrow> (let f = f\<lparr>fk_responses := rs\<rparr> in
          if breaks_allowed allowed r
          then (Inl (ValueError ''FakeResponse must call only allowed_tools on a constrained turn''), f, s)
          else (case thn (if l = None then ret () else thn (tell_chunks l ThinkingDelta (fr_thinking_chunks r))
                  (tell_chunks l TextDelta (fr_text_chunks r))) (ret (fake_message r)) s of
              (res, t) \<Rightarrow> (res, f, t))))"

section \<open>Calls and results of a request\<close>

text \<open>C20. No service is sent a call without its result. Whatever conversation a request is built from, after
  the pairing of calls and results, and the ids it gives to those without one, every call in the request of
  Anthropic, of OpenAI or of Qwen has a result of its id in the same request; and when no two calls share an
  id, no result is sent twice.\<close>

theorem provider_requests_paired:
  assumes "try_map (message_from_raw as_int) raws = Inr given" and "list_all calls_by_assistant given"
    and "sanitize_tool_messages as_int hex raws = Inr ms" and "list_all reasoning_only ms"
    and "anthropic_messages ms = Inr wire" and "openai_messages hex 0 ms = Inr items" and "qwen_messages ms = Inr chat"
  shows "set (wire_uses wire) \<subseteq> set (wire_results wire)
     \<and> set (item_ids ''function_call'' items) \<subseteq> set (item_ids ''function_call_output'' items)
     \<and> set (chat_uses chat) \<subseteq> set (chat_results chat)
     \<and> (distinct (call_ids (named_messages hex given (0, [])))
        \<longrightarrow> distinct (wire_results wire) \<and> distinct (item_ids ''function_call_output'' items) \<and> distinct (chat_results chat))"
proof -
  have all: "list_all (\<lambda>_. True) ms" by (simp add: list_all_iff)
  note a = aw.request_paired [OF assms(3,5,1,2) all]
  note o = ow.request_paired [OF assms(3,6,1,2,4)]
  note q = qw.request_paired [OF assms(3,7,1,2) all]
  from a o q show ?thesis by blast
qed

text \<open>A cancelled call, and a second one that was answered twice.\<close>

definition sample_call :: "string \<Rightarrow> tool_call" where
  "sample_call i = \<lparr>tc_id = i, tc_function = \<lparr>fn_name = ''run'', fn_arguments = ''{}''\<rparr>, tc_type = ''function'',
     tc_thought_signature = None, tc_extra_content = []\<rparr>"

definition sample_conversation :: "message list" where
  "sample_conversation = [(new_message ''assistant'' NoContent)\<lparr>m_tool_calls := Some [sample_call ''a'', sample_call ''b'']\<rparr>,
     (new_message ''tool'' (Text ''1''))\<lparr>m_tool_call_id := Some ''b''\<rparr>, (new_message ''tool'' (Text ''2''))\<lparr>m_tool_call_id := Some ''b''\<rparr>]"

definition sample_sanitized :: "message list" where
  "sample_sanitized = [hd sample_conversation, interrupted_result (sample_call ''a''), hd (tl sample_conversation)]"

lemma sample_read: "try_map (message_from_raw (\<lambda>_. None)) (map Instance sample_conversation) = Inr sample_conversation"
  by (simp add: sample_conversation_def message_from_raw_def new_message_def sample_call_def tool_call_from_raw_def tool_fn_from_raw_def)

lemma sample_named: "named_messages (\<lambda>_. []) sample_conversation (0, []) = sample_conversation"
  by (simp add: sample_conversation_def named_message_def new_message_def sample_call_def name_result_def Let_def)

lemma sample_sanitize: "sanitize_tool_messages (\<lambda>_. None) (\<lambda>_. []) (map Instance sample_conversation) = Inr sample_sanitized"
  by (simp add: sanitize_tool_messages_def sample_read sample_named)
    (simp add: paired_def sample_conversation_def sample_sanitized_def answered_by_simps is_tool_def calls_of_def new_message_def sample_call_def)

lemmas sample_message_defs = sample_sanitized_def sample_conversation_def new_message_def sample_call_def interrupted_result_def
  calls_of_def or_else_simps

lemma sample_requests:
  "\<exists>wire. anthropic_messages sample_sanitized = Inr wire" "\<exists>items. openai_messages (\<lambda>_. []) 0 sample_sanitized = Inr items"
  "\<exists>chat. qwen_messages sample_sanitized = Inr chat"
  by (simp_all add: sample_message_defs anthropic_messages_def convert_one_def wire_content_def Let_def case_prod_beta
      openai_items_def tool_output_def split_tool_content_def qwen_messages_def qwen_message_def qwen_result_def)

theorem provider_requests_paired_witness:
  "\<exists>wire items chat. anthropic_messages sample_sanitized = Inr wire \<and> openai_messages (\<lambda>_. []) 0 sample_sanitized = Inr items
     \<and> qwen_messages sample_sanitized = Inr chat \<and> set (wire_uses wire) \<subseteq> set (wire_results wire) \<and> distinct (wire_results wire)
     \<and> set (item_ids ''function_call'' items) \<subseteq> set (item_ids ''function_call_output'' items)
     \<and> set (chat_uses chat) \<subseteq> set (chat_results chat)"
proof -
  obtain wire items chat where r: "anthropic_messages sample_sanitized = Inr wire" "openai_messages (\<lambda>_. []) 0 sample_sanitized = Inr items"
    "qwen_messages sample_sanitized = Inr chat" using sample_requests by blast
  have "list_all calls_by_assistant sample_conversation" "list_all reasoning_only sample_sanitized"
    by (simp_all add: sample_message_defs calls_by_assistant_def reasoning_only_def)
  from provider_requests_paired [OF sample_read this(1) sample_sanitize this(2) r]
  have "distinct (call_ids sample_conversation) \<longrightarrow> distinct (wire_results wire)"
    "set (wire_uses wire) \<subseteq> set (wire_results wire)" "set (item_ids ''function_call'' items) \<subseteq> set (item_ids ''function_call_output'' items)"
    "set (chat_uses chat) \<subseteq> set (chat_results chat)" by (simp_all add: sample_named)
  moreover have "distinct (call_ids sample_conversation)" by (simp add: sample_message_defs)
  ultimately show ?thesis using r by blast
qed

end
