(* ===== verification/Host_Protocol.thy ===== *)
theory Host_Protocol
  imports Texts Base64 Json_Round_Trip
begin

text \<open>
  The messages of a service host (\<open>actant/sandbox/protocol.py\<close>) and what it makes of a method's result
  (\<open>encode_output\<close>, \<open>failure\<close>, \<open>service_methods\<close>, \<open>image_type\<close> of \<open>actant/sandbox/host.py\<close>). Reading a file
  and the system's table of media types are parameters, as is the text of a traceback.
\<close>

section \<open>Messages\<close>

datatype route = RouteCall | RouteCancel | RouteShutdown

fun route_path :: "route \<Rightarrow> string" where
  "route_path RouteCall = ''/v1/call''"
| "route_path RouteCancel = ''/v1/cancel''"
| "route_path RouteShutdown = ''/v1/shutdown''"

record call_request =
  cq_service :: string
  cq_key :: string
  cq_method :: string
  cq_init :: json_obj
  cq_args :: json_obj
  cq_call_id :: string

record host_image =
  hi_name :: string
  hi_media_type :: string
  hi_data_b64 :: string
  hi_caption :: "string option"

record storage_status =
  ss_last_attempt_at :: "rat option"
  ss_last_success_at :: "rat option"
  ss_last_error :: "string option"
  ss_consecutive_failures :: nat
  ss_pending :: bool

record call_response =
  cr_text :: string
  cr_images :: "host_image list"
  cr_error :: "string option"
  cr_terminal :: bool
  cr_storage :: "storage_status option"

definition text_response :: "string \<Rightarrow> call_response" where
  "text_response t = \<lparr>cr_text = t, cr_images = [], cr_error = None, cr_terminal = False, cr_storage = None\<rparr>"

definition error_response :: "string \<Rightarrow> call_response" where
  "error_response e = (text_response [])\<lparr>cr_error := Some e\<rparr>"

text \<open>A field of a message, read as its model declares it: a text, and an object that defaults to an empty one.\<close>

definition read_text :: "json_obj \<Rightarrow> string \<Rightarrow> string option" where
  "read_text d k = (case dget d k of Some (JStr s) \<Rightarrow> Some s | _ \<Rightarrow> None)"

definition read_object :: "json_obj \<Rightarrow> string \<Rightarrow> json_obj option" where
  "read_object d k = (case dget d k of None \<Rightarrow> Some [] | Some (JObj e) \<Rightarrow> Some e | _ \<Rightarrow> None)"

definition read_call_id :: "json_obj \<Rightarrow> string option" where
  "read_call_id d = (case read_text d ''call_id'' of Some i \<Rightarrow> if i = [] then None else Some i | None \<Rightarrow> None)"

text \<open>A call request from a body; \<open>fresh\<close> is the id drawn for one that names none. \<open>None\<close> is a \<open>ValidationError\<close>.\<close>

definition read_call_request :: "string \<Rightarrow> string \<Rightarrow> call_request option" where
  "read_call_request fresh body = (case json_loads body of
      Some (JObj d) \<Rightarrow> (case (read_text d ''service'', read_text d ''key'', read_text d ''method'', read_object d ''init'', read_object d ''args'',
            if dget d ''call_id'' = None then Some fresh else read_call_id d) of
          (Some service, Some key, Some meth, Some init, Some args, Some i) \<Rightarrow>
            Some \<lparr>cq_service = service, cq_key = key, cq_method = meth, cq_init = init, cq_args = args, cq_call_id = i\<rparr>
        | _ \<Rightarrow> None)
    | _ \<Rightarrow> None)"

definition read_cancel_request :: "string \<Rightarrow> string option" where
  "read_cancel_request body = (case json_loads body of Some (JObj d) \<Rightarrow> read_call_id d | _ \<Rightarrow> None)"

text \<open>\<open>model_dump_json\<close>, as the JSON value it writes; \<open>show\<close> writes a float.\<close>

definition call_request_json :: "call_request \<Rightarrow> json" where
  "call_request_json r = JObj [(''service'', JStr (cq_service r)), (''key'', JStr (cq_key r)), (''method'', JStr (cq_method r)),
     (''init'', JObj (cq_init r)), (''args'', JObj (cq_args r)), (''call_id'', JStr (cq_call_id r))]"

definition opt_json_of :: "('a \<Rightarrow> json) \<Rightarrow> 'a option \<Rightarrow> json" where
  "opt_json_of f x = (case x of None \<Rightarrow> JNull | Some a \<Rightarrow> f a)"

definition image_json :: "host_image \<Rightarrow> json" where
  "image_json i = JObj [(''name'', JStr (hi_name i)), (''media_type'', JStr (hi_media_type i)),
     (''source'', JObj [(''data_b64'', JStr (hi_data_b64 i))]), (''caption'', opt_json_of JStr (hi_caption i))]"

definition storage_json :: "(rat \<Rightarrow> string) \<Rightarrow> storage_status \<Rightarrow> json" where
  "storage_json show s = JObj [(''last_attempt_at'', opt_json_of (\<lambda>t. JFloat (show t)) (ss_last_attempt_at s)),
     (''last_success_at'', opt_json_of (\<lambda>t. JFloat (show t)) (ss_last_success_at s)), (''last_error'', opt_json_of JStr (ss_last_error s)),
     (''consecutive_failures'', JInt (int (ss_consecutive_failures s))), (''pending'', JBool (ss_pending s))]"

definition response_json :: "(rat \<Rightarrow> string) \<Rightarrow> call_response \<Rightarrow> json" where
  "response_json show r = JObj ([(''text'', JStr (cr_text r)), (''images'', JList (map image_json (cr_images r))),
     (''error'', opt_json_of JStr (cr_error r)), (''terminal'', JBool (cr_terminal r))]
     @ (case cr_storage r of None \<Rightarrow> [] | Some s \<Rightarrow> [(''storage'', storage_json show s)]))"

lemma read_request_json: "json_ok (call_request_json r) \<Longrightarrow> cq_call_id r \<noteq> [] \<Longrightarrow> read_call_request fresh (json_dumps (call_request_json r)) = Some r"
  by (simp add: read_call_request_def loads_dumps)
     (simp add: call_request_json_def read_text_def read_object_def read_call_id_def)

section \<open>A method's result\<close>

text \<open>The functions of a class and its bases that may be called: \<open>classes\<close> are the names of each class's own
  attributes, the base classes first.\<close>

definition lifecycle :: "string list" where
  "lifecycle = [''open'', ''close'']"

fun unique_names :: "string list \<Rightarrow> string list \<Rightarrow> string list" where
  "unique_names names [] = names"
| "unique_names names (n # ns) = unique_names (if n \<in> set names then names else names @ [n]) ns"

definition service_methods :: "string list list \<Rightarrow> (string \<Rightarrow> bool) \<Rightarrow> string list" where
  "service_methods classes is_function =
     filter (\<lambda>n. \<not> Texts.starts_with ''_'' n \<and> n \<notin> set lifecycle \<and> is_function n) (unique_names [] (concat classes))"

definition image_magic :: "(string \<times> string) list" where
  "image_magic = [(CHR 0x89 # ''PNG'', ''image/png''), ([CHR 0xFF, CHR 0xD8, CHR 0xFF], ''image/jpeg''), (''GIF8'', ''image/gif'')]"

definition image_type :: "string \<Rightarrow> string option" where
  "image_type data = (if take 4 data = ''RIFF'' \<and> take 4 (drop 8 data) = ''WEBP'' then Some ''image/webp''
     else map_option snd (find (\<lambda>(magic, _). Texts.starts_with magic data) image_magic))"

text \<open>What a method returns: a text, a text with images and the mark of an end, a value, or anything else by
  its \<open>str\<close>.\<close>

datatype image_entry = ImageBytes string | ImagePath string

datatype service_output =
    OutText string
  | OutImages string "(image_entry \<times> string option) list" bool
  | OutJson json
  | OutOther string

record file_env =
  fe_media_type :: "string \<Rightarrow> string option"
  fe_read_bytes :: "string \<Rightarrow> py_error + string"

definition encoded_image :: "string \<Rightarrow> string \<Rightarrow> string \<Rightarrow> string option \<Rightarrow> host_image" where
  "encoded_image name media data caption = \<lparr>hi_name = name, hi_media_type = media, hi_data_b64 = b64encode data, hi_caption = caption\<rparr>"

definition dropped_note :: "string \<Rightarrow> string \<Rightarrow> string" where
  "dropped_note name why = CHR 0x0A # ''(dropped '' @ name @ '': '' @ why @ '')''"

fun encode_images :: "file_env \<Rightarrow> nat \<Rightarrow> (image_entry \<times> string option) list \<Rightarrow> string \<Rightarrow> py_error + string \<times> host_image list" where
  "encode_images e index [] text = Inr (text, [])"
| "encode_images e index ((entry, caption) # entries) text = (case entry of
      ImageBytes data \<Rightarrow> (let name = ''image-'' @ nat_str index in case image_type data of
          None \<Rightarrow> encode_images e (Suc index) entries (text @ dropped_note name ''not PNG, JPEG, GIF or WebP bytes'')
        | Some media \<Rightarrow> try_bind (encode_images e (Suc index) entries text) (\<lambda>(text, images).
            Inr (text, encoded_image name media data caption # images)))
    | ImagePath name \<Rightarrow> (let media = or_else (fe_media_type e name) [] in
        if \<not> Texts.starts_with ''image/'' media
        then encode_images e (Suc index) entries (text @ dropped_note name ''not an image file'')
        else try_bind (fe_read_bytes e name) (\<lambda>data.
          try_bind (encode_images e (Suc index) entries text) (\<lambda>(text, images).
            Inr (text, encoded_image name media data caption # images)))))"

definition encode_output :: "file_env \<Rightarrow> service_output \<Rightarrow> py_error + call_response" where
  "encode_output e output = (case output of
      OutText t \<Rightarrow> Inr (text_response t)
    | OutImages text entries terminal \<Rightarrow> try_bind (encode_images e 0 entries text) (\<lambda>(text, images).
        Inr ((text_response text)\<lparr>cr_images := images, cr_terminal := terminal\<rparr>))
    | OutJson j \<Rightarrow> Inr (text_response (json_dumps j))
    | OutOther t \<Rightarrow> Inr (text_response t))"

definition failure_response :: "(py_error \<Rightarrow> string) \<Rightarrow> py_error \<Rightarrow> call_response" where
  "failure_response tail_of x = error_response (err_type x @ '': '' @ err_str x @ [CHR 0x0A] @ tail_of x)"

text \<open>\<open>call_method\<close>: what the method gives, encoded, or its exception as a response. A cancellation goes on.\<close>

definition call_method_result ::
  "file_env \<Rightarrow> (py_error \<Rightarrow> string) \<Rightarrow> py_error + service_output \<Rightarrow> py_error + call_response" where
  "call_method_result e tail_of result = (case try_bind result (encode_output e) of
      Inl x \<Rightarrow> (if is_exception x then Inr (failure_response tail_of x) else Inl x)
    | Inr r \<Rightarrow> Inr r)"

section \<open>What leaves the sandbox\<close>

text \<open>Every image of a response is a picture by its bytes or by the name of its file, under the media type it is
  sent as, and its data decode to the bytes.\<close>

definition image_entry_ok :: "file_env \<Rightarrow> (image_entry \<times> string option) list \<Rightarrow> host_image \<Rightarrow> bool" where
  "image_entry_ok e entries i \<longleftrightarrow>
     (\<exists>data caption. (ImageBytes data, caption) \<in> set entries \<and> image_type data = Some (hi_media_type i)
        \<and> b64decode (hi_data_b64 i) = Inr data \<and> hi_caption i = caption)
   \<or> (\<exists>data caption. (ImagePath (hi_name i), caption) \<in> set entries \<and> fe_media_type e (hi_name i) = Some (hi_media_type i)
        \<and> Texts.starts_with ''image/'' (hi_media_type i) \<and> fe_read_bytes e (hi_name i) = Inr data
        \<and> b64decode (hi_data_b64 i) = Inr data \<and> hi_caption i = caption)"

lemma image_entry_ok_Cons: "image_entry_ok e entries i \<Longrightarrow> image_entry_ok e (x # entries) i"
  unfolding image_entry_ok_def by (meson list.set_intros(2))

lemma encode_images_ok:
  "encode_images e index entries said = Inr (shown, images) \<Longrightarrow> i \<in> set images \<Longrightarrow> image_entry_ok e entries i"
proof (induction e index entries said arbitrary: shown images rule: encode_images.induct)
  case (2 e index entry caption entries said)
  show ?case
  proof (cases entry)
    case (ImageBytes data)
    show ?thesis
    proof (cases "image_type data")
      case None
      with 2 ImageBytes show ?thesis by (simp add: Let_def image_entry_ok_Cons)
    next
      case (Some media)
      with "2.prems"(1) ImageBytes obtain rest where r: "encode_images e (Suc index) entries said = Inr (shown, rest)"
        "images = encoded_image (''image-'' @ nat_str index) media data caption # rest" by (auto simp: Let_def try_bind_Inr)
      moreover have "image_entry_ok e ((ImageBytes data, caption) # entries) (encoded_image (''image-'' @ nat_str index) media data caption)"
        using Some by (simp add: image_entry_ok_def encoded_image_def)
      ultimately show ?thesis using "2.IH"(2) [OF ImageBytes refl Some r(1)] "2.prems"(2) ImageBytes by (auto intro: image_entry_ok_Cons)
    qed
  next
    case (ImagePath name)
    let ?media = "or_else (fe_media_type e name) []"
    show ?thesis
    proof (cases "Texts.starts_with ''image/'' ?media")
      case False
      with 2 ImagePath show ?thesis by (simp add: Let_def image_entry_ok_Cons)
    next
      case True
      with "2.prems"(1) ImagePath obtain data rest where r: "fe_read_bytes e name = Inr data"
        "encode_images e (Suc index) entries said = Inr (shown, rest)" "images = encoded_image name ?media data caption # rest"
        by (auto simp: Let_def try_bind_Inr)
      from True have "fe_media_type e name = Some ?media" by (cases "fe_media_type e name") (auto simp: Texts.starts_with_def)
      with True r(1) have "image_entry_ok e ((ImagePath name, caption) # entries) (encoded_image name ?media data caption)"
        by (simp add: image_entry_ok_def encoded_image_def)
      with "2.IH"(4) [OF ImagePath refl _ r(2)] "2.prems"(2) ImagePath True r show ?thesis by (auto intro: image_entry_ok_Cons)
    qed
  qed
qed simp

text \<open>C34. Only pictures leave the sandbox: every image of what a method's call answers comes from an entry the method
  returned, is a PNG, JPEG, GIF or WebP by its bytes or a file whose name is an image's, goes under the media
  type found, and its data decode to exactly those bytes; and an answer never holds both an error and images
  or the end of the agent's run.
\<close>

theorem only_pictures_leave:
  assumes "call_method_result e tail_of (Inr (OutImages text entries terminal)) = Inr response"
  shows "list_all (image_entry_ok e entries) (cr_images response)
    \<and> (cr_error response = None \<or> cr_images response = [] \<and> \<not> cr_terminal response)"
proof (cases "encode_images e 0 entries text")
  case (Inl x)
  then have "response = failure_response tail_of x"
    using assms by (simp add: call_method_result_def encode_output_def try_bind_def split: if_splits)
  then show ?thesis by (simp add: failure_response_def error_response_def text_response_def)
next
  case (Inr p)
  obtain shown images where p: "p = (shown, images)" by (cases p)
  then have "response = (text_response shown)\<lparr>cr_images := images, cr_terminal := terminal\<rparr>"
    using assms Inr by (simp add: call_method_result_def encode_output_def try_bind_def)
  moreover have "list_all (image_entry_ok e entries) images"
    using encode_images_ok Inr p by (auto simp: list_all_iff)
  ultimately show ?thesis by (simp add: text_response_def)
qed

lemma only_pictures_leave_witness:
  "let files = \<lparr>fe_media_type = (\<lambda>_. Some ''text/plain''), fe_read_bytes = (\<lambda>_. Inr ''secret'')\<rparr>;
       entries = [(ImageBytes (CHR 0x89 # ''PNG''), None), (ImagePath ''/etc/passwd'', None)];
       response = (text_response (dropped_note ''/etc/passwd'' ''not an image file''))
         \<lparr>cr_images := [encoded_image (''image-'' @ nat_str 0) ''image/png'' (CHR 0x89 # ''PNG'') None]\<rparr>
   in call_method_result files (\<lambda>_. []) (Inr (OutImages [] entries False)) = Inr response
     \<and> list_all (image_entry_ok files entries) (cr_images response)"
proof -
  let ?files = "\<lparr>fe_media_type = (\<lambda>_. Some ''text/plain''), fe_read_bytes = (\<lambda>_. Inr ''secret'')\<rparr>"
  let ?entries = "[(ImageBytes (CHR 0x89 # ''PNG''), None), (ImagePath ''/etc/passwd'', None)]"
  let ?response = "(text_response (dropped_note ''/etc/passwd'' ''not an image file''))
         \<lparr>cr_images := [encoded_image (''image-'' @ nat_str 0) ''image/png'' (CHR 0x89 # ''PNG'') None]\<rparr>"
  have "call_method_result ?files (\<lambda>_. []) (Inr (OutImages [] ?entries False)) = Inr ?response"
    by (simp add: call_method_result_def encode_output_def image_type_def image_magic_def Texts.starts_with_def
      text_response_def Let_def try_bind_def)
  with only_pictures_leave [OF this] show ?thesis by (simp add: Let_def)
qed

end
