(* ===== verification/Host_Calls.thy ===== *)
theory Host_Calls
  imports Host_Protocol
begin

text \<open>
  The service host (\<open>actant/sandbox/host.py\<close>) as a machine over its events. The host is one event loop: what
  it does between two awaits is one step, and the steps of its calls, their cancels, the opening of its
  instances and its pushes interleave in any order. A run is what one call id started (the code's \<open>_Call\<close> and
  its task); runs are numbered as they are made, and so are the opens (the futures of \<open>instances\<close>). A run's
  end and the callback that notes its time are one step. What an instance is does not matter here.
\<close>

section \<open>State\<close>

definition keep_finished_s :: rat where
  "keep_finished_s = 600"

definition max_finished :: nat where
  "max_finished = 1024"

text \<open>An open: running (and whether it was cancelled), or how it ended.\<close>

datatype open_state = Opening bool | Opened | OpenFailed py_error | OpenCancelled

type_synonym slot = "string \<times> string"

record open_entry =
  oe_slot :: slot
  oe_state :: open_state

text \<open>Where a run's task stands.\<close>

datatype phase = Queued | AtWorker | AtOpen nat | InMethod | Finished call_response | Halted

record run_entry =
  re_id :: string
  re_request :: "call_request option"
  re_phase :: phase
  re_cancel :: bool
  re_finished :: "rat option"

datatype pusher = Resting | Wanting | Pushing

datatype closing = NotClosing | ClosingInstances | WantsLastPush | LastPush | Closed

record host =
  ho_services :: "(string \<times> string list) list"
  ho_placed :: "string list"
  ho_pushes :: bool
  ho_instances :: "(slot, nat) dict"
  ho_opens :: "open_entry list"
  ho_runs :: "run_entry list"
  ho_calls :: "(string, nat) dict"
  ho_push_due :: bool
  ho_pending :: bool
  ho_last_attempt :: "rat option"
  ho_last_success :: "rat option"
  ho_last_error :: "string option"
  ho_failures :: nat
  ho_pusher :: pusher
  ho_closing :: closing

definition new_host :: "(string \<times> string list) list \<Rightarrow> string list \<Rightarrow> bool \<Rightarrow> host" where
  "new_host services placed pushes = \<lparr>ho_services = services, ho_placed = placed, ho_pushes = pushes, ho_instances = [],
     ho_opens = [], ho_runs = [], ho_calls = [], ho_push_due = False, ho_pending = False, ho_last_attempt = None,
     ho_last_success = None, ho_last_error = None, ho_failures = 0, ho_pusher = Resting, ho_closing = NotClosing\<rparr>"

definition run_of :: "host \<Rightarrow> nat \<Rightarrow> run_entry" where
  "run_of h n = ho_runs h ! n"

definition set_run :: "nat \<Rightarrow> (run_entry \<Rightarrow> run_entry) \<Rightarrow> host \<Rightarrow> host" where
  "set_run n f h = h\<lparr>ho_runs := (ho_runs h)[n := f (run_of h n)]\<rparr>"

definition open_of :: "host \<Rightarrow> nat \<Rightarrow> open_entry" where
  "open_of h f = ho_opens h ! f"

definition set_open :: "nat \<Rightarrow> open_state \<Rightarrow> host \<Rightarrow> host" where
  "set_open f st h = h\<lparr>ho_opens := (ho_opens h)[f := (open_of h f)\<lparr>oe_state := st\<rparr>]\<rparr>"

definition run_done :: "run_entry \<Rightarrow> bool" where
  "run_done r = (case re_phase r of Finished _ \<Rightarrow> True | Halted \<Rightarrow> True | _ \<Rightarrow> False)"

section \<open>Calls and cancels\<close>

text \<open>The finished calls with their times; the index of one in their order is the number of those before it.\<close>

definition ended_calls :: "host \<Rightarrow> (rat \<times> string) list" where
  "ended_calls h = List.map_filter (\<lambda>(i, n). map_option (\<lambda>t. (t, i)) (re_finished (run_of h n))) (ho_calls h)"

definition earlier :: "rat \<times> string \<Rightarrow> rat \<times> string \<Rightarrow> bool" where
  "earlier x y \<longleftrightarrow> fst x < fst y \<or> (fst x = fst y \<and> str_less (snd x) (snd y))"

definition forgets :: "rat \<Rightarrow> host \<Rightarrow> rat \<times> string \<Rightarrow> bool" where
  "forgets now h x \<longleftrightarrow> fst x < now - keep_finished_s
     \<or> int (length (filter (\<lambda>y. earlier y x) (ended_calls h))) < int (length (ended_calls h)) - int max_finished"

definition forget_finished :: "rat \<Rightarrow> host \<Rightarrow> host" where
  "forget_finished now h = h\<lparr>ho_calls := filter (\<lambda>(i, n). case re_finished (run_of h n) of
       None \<Rightarrow> True | Some t \<Rightarrow> \<not> forgets now h (t, i)) (ho_calls h)\<rparr>"

text \<open>A reply at once, with its HTTP status, or the run whose end the caller waits for.\<close>

datatype call_reply = Replied nat call_response | Attached nat

definition unknown_service :: "host \<Rightarrow> string \<Rightarrow> string" where
  "unknown_service h s = ''unknown service '' @ repr_str s @ ''; served: [''
     @ join_with '', '' (map repr_str (sort_by str_le (map fst (ho_services h)))) @ '']''"

definition host_call :: "rat \<Rightarrow> call_request \<Rightarrow> host \<Rightarrow> call_reply \<times> host" where
  "host_call now r h = (case dget (ho_services h) (cq_service r) of
      None \<Rightarrow> (Replied 404 (error_response (unknown_service h (cq_service r))), h)
    | Some methods \<Rightarrow> (if cq_method r \<notin> set methods
        then (Replied 404 (error_response (''unknown service method '' @ repr_str (cq_method r))), h)
        else case dget (ho_calls h) (cq_call_id r) of
          None \<Rightarrow> (let h = forget_finished now h; n = length (ho_runs h) in
            (Attached n, h\<lparr>ho_runs := ho_runs h @ [\<lparr>re_id = cq_call_id r, re_request = Some r, re_phase = Queued,
                 re_cancel = False, re_finished = None\<rparr>], ho_calls := dset (cq_call_id r) n (ho_calls h)\<rparr>))
        | Some n \<Rightarrow> (case re_request (run_of h n) of
              Some q \<Rightarrow> (if q \<noteq> r
                then (Replied 409 (error_response (''call id '' @ repr_str (cq_call_id r) @ '' already names a different call'')), h)
                else (Attached n, h))
            | None \<Rightarrow> (Attached n, h))))"

text \<open>What a caller attached to a run gets once the run has ended.\<close>

definition attached_reply :: "run_entry \<Rightarrow> (nat \<times> call_response) option" where
  "attached_reply r = (case re_phase r of
      Finished response \<Rightarrow> Some (200, response)
    | Halted \<Rightarrow> Some (200, error_response ''cancelled: its caller gave up on it'')
    | _ \<Rightarrow> None)"

text \<open>\<open>task.cancel()\<close>: a task that waits for a running open cancels the open it awaits; any other is cancelled
  when it next runs.\<close>

definition open_running :: "host \<Rightarrow> nat \<Rightarrow> bool" where
  "open_running h f \<longleftrightarrow> (\<exists>c. oe_state (open_of h f) = Opening c)"

definition cancel_run :: "nat \<Rightarrow> host \<Rightarrow> host" where
  "cancel_run n h = (case re_phase (run_of h n) of
      AtOpen f \<Rightarrow> (case oe_state (open_of h f) of
          Opening _ \<Rightarrow> set_open f (Opening True) h | _ \<Rightarrow> set_run n (\<lambda>r. r\<lparr>re_cancel := True\<rparr>) h)
    | _ \<Rightarrow> set_run n (\<lambda>r. r\<lparr>re_cancel := True\<rparr>) h)"

text \<open>A cancel for an id that is not known leaves a run that ended before it began. \<open>Some n\<close>: the caller waits for
  run \<open>n\<close> to end, at most \<open>CANCEL_GRACE_S\<close>, and is told by \<open>cancelled_text\<close>.\<close>

definition host_cancel :: "rat \<Rightarrow> string \<Rightarrow> host \<Rightarrow> nat option \<times> host" where
  "host_cancel now i h = (case dget (ho_calls h) i of
      None \<Rightarrow> (let h = forget_finished now h in
        (None, h\<lparr>ho_runs := ho_runs h @ [\<lparr>re_id = i, re_request = None, re_phase = Halted, re_cancel = False,
             re_finished = Some now\<rparr>], ho_calls := dset i (length (ho_runs h)) (ho_calls h)\<rparr>))
    | Some n \<Rightarrow> (if run_done (run_of h n) then (None, h) else (Some n, cancel_run n h)))"

definition cancelled_text :: "nat option \<Rightarrow> host \<Rightarrow> string" where
  "cancelled_text waited h = (case waited of
      None \<Rightarrow> ''not running'' | Some n \<Rightarrow> if run_done (run_of h n) then ''cancelled'' else ''cancelling'')"

section \<open>A run\<close>

definition storage_status_of :: "host \<Rightarrow> storage_status" where
  "storage_status_of h = \<lparr>ss_last_attempt_at = ho_last_attempt h, ss_last_success_at = ho_last_success h,
     ss_last_error = ho_last_error h, ss_consecutive_failures = ho_failures h, ss_pending = ho_pending h\<rparr>"

definition end_run :: "nat \<Rightarrow> rat \<Rightarrow> phase \<Rightarrow> host \<Rightarrow> host" where
  "end_run n now p h = set_run n (\<lambda>r. r\<lparr>re_phase := p, re_finished := Some now\<rparr>) h"

text \<open>The end of \<open>_run\<close>: on a host that pushes, a push is due and the response says how the pushes stand.\<close>

definition complete_run :: "nat \<Rightarrow> rat \<Rightarrow> call_response \<Rightarrow> host \<Rightarrow> host" where
  "complete_run n now response h =
     (if ho_pushes h
      then (let h = h\<lparr>ho_pending := True, ho_push_due := True\<rparr> in
        end_run n now (Finished (response\<lparr>cr_storage := Some (storage_status_of h)\<rparr>)) h)
      else end_run n now (Finished response) h)"

definition request_slot :: "run_entry \<Rightarrow> slot" where
  "request_slot r = (case re_request r of None \<Rightarrow> ([], []) | Some q \<Rightarrow> (cq_service q, cq_key q))"

text \<open>The \<open>except\<close> of \<open>instance\<close>: an open that ended is forgotten, unless another took its place.\<close>

definition forget_open :: "nat \<Rightarrow> host \<Rightarrow> host" where
  "forget_open f h = (let s = oe_slot (open_of h f) in
     if dget (ho_instances h) s = Some f then h\<lparr>ho_instances := AList.delete s (ho_instances h)\<rparr> else h)"

text \<open>A run resumes after the open it awaited ended. \<open>tail_of\<close> is the end of a traceback.\<close>

definition resume_open :: "(py_error \<Rightarrow> string) \<Rightarrow> nat \<Rightarrow> nat \<Rightarrow> rat \<Rightarrow> host \<Rightarrow> host" where
  "resume_open tail_of n f now h =
     (if re_cancel (run_of h n) then end_run n now Halted (forget_open f h)
      else case oe_state (open_of h f) of
        Opened \<Rightarrow> set_run n (\<lambda>r. r\<lparr>re_phase := InMethod\<rparr>) h
      | OpenFailed x \<Rightarrow> complete_run n now (failure_response tail_of x) (forget_open f h)
      | OpenCancelled \<Rightarrow> end_run n now Halted (forget_open f h)
      | Opening _ \<Rightarrow> h)"

text \<open>\<open>instance\<close>: the open of the run's slot, started when there is none; one that has ended is not waited for.\<close>

definition await_instance :: "(py_error \<Rightarrow> string) \<Rightarrow> nat \<Rightarrow> rat \<Rightarrow> host \<Rightarrow> host" where
  "await_instance tail_of n now h = (let s = request_slot (run_of h n) in
     case dget (ho_instances h) s of
       None \<Rightarrow> (let f = length (ho_opens h) in
         set_run n (\<lambda>r. r\<lparr>re_phase := AtOpen f\<rparr>)
           (h\<lparr>ho_opens := ho_opens h @ [\<lparr>oe_slot = s, oe_state = Opening False\<rparr>], ho_instances := dset s f (ho_instances h)\<rparr>))
     | Some f \<Rightarrow> (case oe_state (open_of h f) of
           Opening _ \<Rightarrow> set_run n (\<lambda>r. r\<lparr>re_phase := AtOpen f\<rparr>) h
         | _ \<Rightarrow> resume_open tail_of n f now h))"

section \<open>Pushes and the end\<close>

text \<open>\<open>pusher\<close> wakes when a push is due or its interval is over, and pushes when one is due or pending; the lock
  keeps its push and the last one apart.\<close>

definition push_running :: "host \<Rightarrow> bool" where
  "push_running h \<longleftrightarrow> ho_pusher h = Pushing \<or> ho_closing h = LastPush"

definition pusher_wakes :: "host \<Rightarrow> host" where
  "pusher_wakes h = (if ho_push_due h \<or> ho_pending h then h\<lparr>ho_push_due := False, ho_pusher := Wanting\<rparr> else h)"

definition push_begins :: "rat \<Rightarrow> host \<Rightarrow> host" where
  "push_begins now h = h\<lparr>ho_pending := False, ho_last_attempt := Some now\<rparr>"

text \<open>A push that failed is pending again, and why it failed is kept.\<close>

definition push_ends :: "string option \<Rightarrow> host \<Rightarrow> host" where
  "push_ends error h = (case error of
      None \<Rightarrow> h\<lparr>ho_last_success := ho_last_attempt h, ho_last_error := None, ho_failures := 0\<rparr>
    | Some e \<Rightarrow> h\<lparr>ho_pending := True, ho_last_error := Some e, ho_failures := Suc (ho_failures h)\<rparr>)"

text \<open>\<open>shutdown\<close> runs once: the instances are closed, then the last push, on a host that pushes.\<close>

definition host_shutdown :: "host \<Rightarrow> host" where
  "host_shutdown h = (if ho_closing h = NotClosing then h\<lparr>ho_closing := ClosingInstances\<rparr> else h)"

section \<open>Steps\<close>

datatype host_event =
    Call rat call_request
  | Cancel rat string
  | Begins nat rat
  | WorkerEnds nat rat "py_error + call_response option"
  | OpenEnds nat open_state
  | Resumes nat rat
  | MethodEnds nat rat call_response
  | CancelLands nat rat
  | PusherWakes
  | PushBegins rat
  | PushEnds "string option"
  | Shutdown
  | InstancesClosed
  | LastPushBegins rat
  | LastPushEnds "string option"

definition is_run :: "host \<Rightarrow> nat \<Rightarrow> bool" where
  "is_run h n \<longleftrightarrow> n < length (ho_runs h)"

definition stands :: "host \<Rightarrow> nat \<Rightarrow> phase \<Rightarrow> bool" where
  "stands h n p \<longleftrightarrow> is_run h n \<and> re_phase (run_of h n) = p"

text \<open>What an event makes of the host, if it can happen. A run that was cancelled before it began never begins; a
  method may end in spite of a cancel.\<close>

fun host_step :: "(py_error \<Rightarrow> string) \<Rightarrow> host_event \<Rightarrow> host \<Rightarrow> host option" where
  "host_step tail_of (Call now r) h = Some (snd (host_call now r h))"
| "host_step tail_of (Cancel now i) h = Some (snd (host_cancel now i h))"
| "host_step tail_of (Begins n now) h = (if stands h n Queued \<and> \<not> re_cancel (run_of h n)
     then Some (if fst (request_slot (run_of h n)) \<in> set (ho_placed h) then set_run n (\<lambda>r. r\<lparr>re_phase := AtWorker\<rparr>) h
       else await_instance tail_of n now h) else None)"
| "host_step tail_of (WorkerEnds n now result) h = (if stands h n AtWorker \<and> \<not> re_cancel (run_of h n)
     then Some (case result of
         Inl x \<Rightarrow> complete_run n now (failure_response tail_of x) h
       | Inr (Some response) \<Rightarrow> complete_run n now response h
       | Inr None \<Rightarrow> await_instance tail_of n now h) else None)"
| "host_step tail_of (OpenEnds f st) h = (if f < length (ho_opens h) \<and> (\<exists>c. oe_state (open_of h f) = Opening c)
       \<and> (\<forall>c. st \<noteq> Opening c) \<and> (st = OpenCancelled \<longrightarrow> oe_state (open_of h f) = Opening True)
     then Some (set_open f st h) else None)"
| "host_step tail_of (Resumes n now) h = (case re_phase (run_of h n) of
       AtOpen f \<Rightarrow> (if is_run h n \<and> \<not> open_running h f then Some (resume_open tail_of n f now h) else None)
     | _ \<Rightarrow> None)"
| "host_step tail_of (MethodEnds n now response) h =
     (if stands h n InMethod then Some (complete_run n now response h) else None)"
| "host_step tail_of (CancelLands n now) h = (if is_run h n \<and> re_cancel (run_of h n) \<and> re_phase (run_of h n) \<in> {Queued, AtWorker, InMethod}
     then Some (end_run n now Halted h) else None)"
| "host_step tail_of PusherWakes h = (if ho_pushes h \<and> ho_pusher h = Resting then Some (pusher_wakes h) else None)"
| "host_step tail_of (PushBegins now) h = (if ho_pusher h = Wanting \<and> \<not> push_running h
     then Some ((push_begins now h)\<lparr>ho_pusher := Pushing\<rparr>) else None)"
| "host_step tail_of (PushEnds error) h = (if ho_pusher h = Pushing then Some ((push_ends error h)\<lparr>ho_pusher := Resting\<rparr>) else None)"
| "host_step tail_of Shutdown h = Some (host_shutdown h)"
| "host_step tail_of InstancesClosed h = (if ho_closing h = ClosingInstances
     then Some (h\<lparr>ho_closing := (if ho_pushes h then WantsLastPush else Closed)\<rparr>) else None)"
| "host_step tail_of (LastPushBegins now) h = (if ho_closing h = WantsLastPush \<and> \<not> push_running h
     then Some ((push_begins now h)\<lparr>ho_closing := LastPush\<rparr>) else None)"
| "host_step tail_of (LastPushEnds error) h =
     (if ho_closing h = LastPush then Some ((push_ends error h)\<lparr>ho_closing := Closed\<rparr>) else None)"

text \<open>The hosts a host comes to, with the events that led there.\<close>

inductive reaches :: "(py_error \<Rightarrow> string) \<Rightarrow> host \<Rightarrow> host_event list \<Rightarrow> host \<Rightarrow> bool"
  for tail_of :: "py_error \<Rightarrow> string" and start :: host where
  stays: "reaches tail_of start [] start"
| steps: "reaches tail_of start es h \<Longrightarrow> host_step tail_of e h = Some h' \<Longrightarrow> reaches tail_of start (es @ [e]) h'"

inductive_cases reaches_snocE: "reaches tail_of start (es @ [e]) h"

section \<open>What a step does to the runs\<close>

lemma run_of_set_run [simp]: "run_of (set_run n f h) m = (if m = n \<and> is_run h n then f (run_of h n) else run_of h m)"
  by (cases "is_run h n") (auto simp: run_of_def set_run_def is_run_def nth_list_update list_update_beyond)

lemma set_run_fields [simp]:
  "is_run (set_run n f h) m = is_run h m" "ho_calls (set_run n f h) = ho_calls h" "ho_instances (set_run n f h) = ho_instances h"
  "ho_opens (set_run n f h) = ho_opens h" "ho_pushes (set_run n f h) = ho_pushes h" "ho_pending (set_run n f h) = ho_pending h"
  "ho_pusher (set_run n f h) = ho_pusher h" "ho_closing (set_run n f h) = ho_closing h" "ho_services (set_run n f h) = ho_services h"
  "length (ho_runs (set_run n f h)) = length (ho_runs h)"
  by (simp_all add: is_run_def set_run_def)

text \<open>A run is finished exactly when its time is noted. What a run may become: its id and its request stay, and
  so does all of it once it has ended.\<close>

definition run_ok :: "run_entry \<Rightarrow> bool" where
  "run_ok r \<longleftrightarrow> (run_done r \<longleftrightarrow> re_finished r \<noteq> None) \<and> (\<forall>q. re_request r = Some q \<longrightarrow> cq_call_id q = re_id r)"

definition run_grows :: "run_entry \<Rightarrow> run_entry \<Rightarrow> bool" where
  "run_grows r r' \<longleftrightarrow> re_id r' = re_id r \<and> re_request r' = re_request r \<and> (run_done r \<longrightarrow> r' = r) \<and> (run_ok r \<longrightarrow> run_ok r')"

lemma run_grows_refl [simp]: "run_grows r r"
  by (simp add: run_grows_def)

lemma run_grows_trans: "run_grows r s \<Longrightarrow> run_grows s t \<Longrightarrow> run_grows r t"
  by (auto simp: run_grows_def)

definition tends :: "host \<Rightarrow> host \<Rightarrow> bool" where
  "tends h h' \<longleftrightarrow> ho_calls h' = ho_calls h \<and> length (ho_runs h') = length (ho_runs h)
     \<and> (\<forall>n. is_run h n \<longrightarrow> run_grows (run_of h n) (run_of h' n))"

lemma tends_refl [simp]: "tends h h"
  by (simp add: tends_def)

lemma tends_trans: "tends h g \<Longrightarrow> tends g k \<Longrightarrow> tends h k"
  unfolding tends_def is_run_def by (metis run_grows_trans)

lemma tends_same_runs: "ho_runs h' = ho_runs h \<Longrightarrow> ho_calls h' = ho_calls h \<Longrightarrow> tends h h'"
  by (simp add: tends_def run_of_def)

lemma tends_set_run: "run_grows (run_of h n) (f (run_of h n)) \<Longrightarrow> tends h (set_run n f h)"
  by (simp add: tends_def)

lemma grows_phase: "\<not> run_done r \<Longrightarrow> \<not> run_done (r\<lparr>re_phase := p\<rparr>) \<Longrightarrow> run_grows r (r\<lparr>re_phase := p\<rparr>)"
  by (simp add: run_grows_def run_ok_def)

lemma grows_cancel: "\<not> run_done r \<Longrightarrow> run_grows r (r\<lparr>re_cancel := c\<rparr>)"
  by (simp add: run_grows_def run_ok_def run_done_def)

lemma tends_end_run: "\<not> run_done (run_of h n) \<Longrightarrow> p = Halted \<or> (\<exists>x. p = Finished x) \<Longrightarrow> tends h (end_run n now p h)"
  unfolding end_run_def by (rule tends_set_run) (auto simp: run_grows_def run_ok_def run_done_def)

lemma tends_phase: "\<not> run_done (run_of h n) \<Longrightarrow> p \<in> {Queued, AtWorker, InMethod} \<union> range AtOpen \<Longrightarrow> tends h (set_run n (\<lambda>r. r\<lparr>re_phase := p\<rparr>) h)"
  by (rule tends_set_run, rule grows_phase) (auto simp: run_done_def)

lemma tends_on: "ho_runs g = ho_runs h \<Longrightarrow> ho_calls g = ho_calls h \<Longrightarrow> tends g k \<Longrightarrow> tends h k"
  by (rule tends_trans [OF tends_same_runs])

lemma tends_complete_run:
  assumes "\<not> run_done (run_of h n)"
  shows "tends h (complete_run n now x h)"
proof -
  let ?g = "h\<lparr>ho_pending := True, ho_push_due := True\<rparr>"
  have "run_of ?g n = run_of h n" by (simp add: run_of_def)
  then have "tends ?g (end_run n now (Finished y) ?g)" for y using assms by (simp add: tends_end_run)
  then have "tends h (end_run n now (Finished y) ?g)" for y by (rule tends_on [rotated 2]) simp_all
  then show ?thesis unfolding complete_run_def Let_def using assms by (simp add: tends_end_run)
qed

lemma forget_open_fields [simp]:
  "ho_runs (forget_open f h) = ho_runs h" "ho_calls (forget_open f h) = ho_calls h" "ho_opens (forget_open f h) = ho_opens h"
  "run_of (forget_open f h) n = run_of h n" "ho_pushes (forget_open f h) = ho_pushes h" "ho_pending (forget_open f h) = ho_pending h"
  "ho_pusher (forget_open f h) = ho_pusher h" "ho_closing (forget_open f h) = ho_closing h"
  by (simp_all add: forget_open_def Let_def run_of_def)

lemma tends_resume_open:
  assumes n: "\<not> run_done (run_of h n)"
  shows "tends h (resume_open tail_of n f now h)"
proof -
  let ?g = "forget_open f h"
  have "tends ?g (end_run n now Halted ?g)" using n by (simp add: tends_end_run)
  then have halt: "tends h (end_run n now Halted ?g)" by (rule tends_on [rotated 2]) simp_all
  have "tends ?g (complete_run n now y ?g)" for y using n by (simp add: tends_complete_run)
  then have fail: "tends h (complete_run n now y ?g)" for y by (rule tends_on [rotated 2]) simp_all
  have go: "tends h (set_run n (\<lambda>r. r\<lparr>re_phase := InMethod\<rparr>) h)" using n by (simp add: tends_phase)
  show ?thesis unfolding resume_open_def by (auto simp: halt fail go split: open_state.split)
qed

lemma tends_await_instance:
  assumes n: "\<not> run_done (run_of h n)"
  shows "tends h (await_instance tail_of n now h)"
proof -
  let ?g = "\<lambda>s. h\<lparr>ho_opens := ho_opens h @ [\<lparr>oe_slot = s, oe_state = Opening False\<rparr>], ho_instances := dset s (length (ho_opens h)) (ho_instances h)\<rparr>"
  have "run_of (?g s) n = run_of h n" for s by (simp add: run_of_def)
  then have "tends (?g s) (set_run n (\<lambda>r. r\<lparr>re_phase := AtOpen f\<rparr>) (?g s))" for s f using n by (simp add: tends_phase)
  then have new: "tends h (set_run n (\<lambda>r. r\<lparr>re_phase := AtOpen f\<rparr>) (?g s))" for s f by (rule tends_on [rotated 2]) simp_all
  have old: "tends h (set_run n (\<lambda>r. r\<lparr>re_phase := AtOpen f\<rparr>) h)" for f using n by (simp add: tends_phase)
  show ?thesis unfolding await_instance_def Let_def
    by (auto simp: new old tends_resume_open [OF n] split: option.split open_state.split)
qed

text \<open>Every event but a call, and a cancel of an id not known, only moves the runs there are on.\<close>

definition enters :: "host \<Rightarrow> host_event \<Rightarrow> bool" where
  "enters h e \<longleftrightarrow> (case e of Call _ _ \<Rightarrow> True | Cancel _ i \<Rightarrow> dget (ho_calls h) i = None | _ \<Rightarrow> False)"

lemma tends_cancel_run: "\<not> run_done (run_of h n) \<Longrightarrow> tends h (cancel_run n h)"
  unfolding cancel_run_def
  by (auto simp: set_open_def tends_same_runs tends_set_run grows_cancel split: phase.split open_state.split)

lemma tends_step:
  assumes "host_step tail_of e h = Some h'" "\<not> enters h e"
  shows "tends h h'"
proof (cases e)
  case (Cancel now i)
  with assms show ?thesis by (auto simp: enters_def host_cancel_def tends_cancel_run split: if_splits)
next
  case (Begins n now)
  then show ?thesis using assms by (auto simp: stands_def run_done_def tends_await_instance tends_phase split: if_splits)
next
  case (WorkerEnds n now result)
  then show ?thesis using assms
    by (auto simp: stands_def run_done_def tends_await_instance tends_complete_run split: if_splits sum.splits option.splits)
next
  case (Resumes n now)
  then show ?thesis using assms by (auto simp: run_done_def tends_resume_open split: if_splits phase.splits)
next
  case (MethodEnds n now response)
  then show ?thesis using assms by (auto simp: stands_def run_done_def tends_complete_run split: if_splits)
next
  case (CancelLands n now)
  then show ?thesis using assms by (auto simp: run_done_def tends_end_run split: if_splits)
qed (use assms in \<open>auto simp: enters_def set_open_def pusher_wakes_def push_begins_def push_ends_def host_shutdown_def
  intro!: tends_same_runs split: if_splits option.splits\<close>)

section \<open>Calls by their ids\<close>

text \<open>A host's calls name runs of theirs by their ids, each the newest of its id, and a run knows whether it ended.\<close>

definition calls_ok :: "host \<Rightarrow> bool" where
  "calls_ok h \<longleftrightarrow> wf_dict (ho_calls h)
     \<and> (\<forall>i n. dget (ho_calls h) i = Some n \<longrightarrow> is_run h n \<and> re_id (run_of h n) = i
          \<and> (\<forall>m. n < m \<and> is_run h m \<longrightarrow> re_id (run_of h m) \<noteq> i))
     \<and> (\<forall>n. is_run h n \<longrightarrow> run_ok (run_of h n))"

lemma calls_ok_newest: "calls_ok h \<Longrightarrow> n < m \<Longrightarrow> is_run h m \<Longrightarrow> re_id (run_of h m) = re_id (run_of h n) \<Longrightarrow>
    dget (ho_calls h) (re_id (run_of h n)) \<noteq> Some n"
  unfolding calls_ok_def by blast

lemma calls_ok_wf: "calls_ok h \<Longrightarrow> wf_dict (ho_calls h)"
  by (simp add: calls_ok_def)

lemma calls_ok_tends: "tends h h' \<Longrightarrow> calls_ok h \<Longrightarrow> calls_ok h'"
  unfolding calls_ok_def tends_def is_run_def run_grows_def by metis

lemma wf_dict_filter: "wf_dict d \<Longrightarrow> wf_dict (filter P d)"
  by (simp add: wf_dict_def distinct_map_filter)

lemma dget_filter:
  assumes "wf_dict d"
  shows "dget (filter P d) i = Some n \<longleftrightarrow> dget d i = Some n \<and> P (i, n)"
  using assms by (simp add: wf_dict_in_set [OF wf_dict_filter, symmetric] wf_dict_in_set [symmetric])

lemma forget_finished_fields [simp]:
  "ho_runs (forget_finished now h) = ho_runs h" "run_of (forget_finished now h) n = run_of h n"
  "is_run (forget_finished now h) n = is_run h n" "ho_services (forget_finished now h) = ho_services h"
  by (simp_all add: forget_finished_def run_of_def is_run_def)

lemma dget_forget_finished:
  assumes "wf_dict (ho_calls h)"
  shows "dget (ho_calls (forget_finished now h)) i = Some n \<longleftrightarrow>
    dget (ho_calls h) i = Some n \<and> (\<forall>t. re_finished (run_of h n) = Some t \<longrightarrow> \<not> forgets now h (t, i))"
  using assms by (auto simp: forget_finished_def dget_filter split: option.splits if_splits)

text \<open>A new run: what \<open>call\<close> and a cancel of an id not known do.\<close>

definition enter :: "rat \<Rightarrow> string \<Rightarrow> run_entry \<Rightarrow> host \<Rightarrow> host" where
  "enter now i r h = (let h = forget_finished now h in
     h\<lparr>ho_runs := ho_runs h @ [r], ho_calls := dset i (length (ho_runs h)) (ho_calls h)\<rparr>)"

lemma run_of_enter: "is_run (enter now i r h) n \<longleftrightarrow> n < length (ho_runs h) \<or> n = length (ho_runs h)"
  "n < length (ho_runs h) \<Longrightarrow> run_of (enter now i r h) n = run_of h n"
  "run_of (enter now i r h) (length (ho_runs h)) = r"
  by (auto simp: enter_def Let_def run_of_def is_run_def nth_append)

lemma dget_enter: "dget (ho_calls (enter now i r h)) j = (if j = i then Some (length (ho_runs h)) else dget (ho_calls (forget_finished now h)) j)"
  by (simp add: enter_def Let_def)

lemma enters_step:
  assumes "host_step tail_of e h = Some h'" "enters h e"
  obtains (same) "h' = h" "\<exists>now r. e = Call now r" | (new) now i r where "h' = enter now i r h" "dget (ho_calls h) i = None"
    "re_id r = i" "run_ok r" "(\<exists>q. e = Call now q) \<or> (\<exists>j. e = Cancel now j)"
proof (cases e)
  case (Call now q)
  let ?r = "\<lparr>re_id = cq_call_id q, re_request = Some q, re_phase = Queued, re_cancel = False, re_finished = None\<rparr>"
  have "snd (host_call now q h) = h \<or> (dget (ho_calls h) (cq_call_id q) = None \<and> snd (host_call now q h) = enter now (cq_call_id q) ?r h)"
    by (auto simp: host_call_def enter_def Let_def split: option.split)
  then consider "h' = h" | "dget (ho_calls h) (cq_call_id q) = None" "h' = enter now (cq_call_id q) ?r h"
    using assms(1) Call by auto
  then show thesis
  proof cases
    case 1
    then show thesis using Call same by blast
  next
    case 2
    then show thesis using Call new [of now "cq_call_id q" ?r] by (simp add: run_ok_def run_done_def)
  qed
next
  case (Cancel now i)
  let ?r = "\<lparr>re_id = i, re_request = None, re_phase = Halted, re_cancel = False, re_finished = Some now\<rparr>"
  have "h' = enter now i ?r h" "dget (ho_calls h) i = None"
    using assms Cancel by (auto simp: enters_def host_cancel_def enter_def Let_def)
  then show thesis using Cancel new [of now i ?r] by (simp add: run_ok_def run_done_def)
qed (use assms in \<open>simp_all add: enters_def\<close>)

lemma calls_ok_enter:
  assumes h: "calls_ok h" and i: "dget (ho_calls h) i = None" and r: "re_id r = i" "run_ok r"
  shows "calls_ok (enter now i r h)"
proof -
  let ?h = "enter now i r h" and ?N = "length (ho_runs h)"
  have wf: "wf_dict (ho_calls h)" using h by (simp add: calls_ok_def)
  have wf': "wf_dict (ho_calls ?h)"
    using wf by (simp add: enter_def Let_def forget_finished_def wf_dict_filter)
  have named: "is_run ?h n \<and> re_id (run_of ?h n) = j \<and> (\<forall>m. n < m \<and> is_run ?h m \<longrightarrow> re_id (run_of ?h m) \<noteq> j)"
    if "dget (ho_calls ?h) j = Some n" for j n
  proof (cases "j = i")
    case True
    then show ?thesis using that r by (auto simp: dget_enter run_of_enter)
  next
    case False
    then have "dget (ho_calls h) j = Some n" using that wf by (simp add: dget_enter dget_forget_finished)
    then have "is_run h n" "re_id (run_of h n) = j" "\<And>m. n < m \<Longrightarrow> is_run h m \<Longrightarrow> re_id (run_of h m) \<noteq> j"
      using h unfolding calls_ok_def by blast+
    then show ?thesis using False r by (auto simp: run_of_enter is_run_def [of h])
  qed
  have "run_ok (run_of ?h n)" if "is_run ?h n" for n
    using that h r by (auto simp: run_of_enter is_run_def [of h] calls_ok_def)
  with wf' named show ?thesis unfolding calls_ok_def by blast
qed

lemma calls_ok_step: "host_step tail_of e h = Some h' \<Longrightarrow> calls_ok h \<Longrightarrow> calls_ok h'"
proof (cases "enters h e")
  case True
  assume "host_step tail_of e h = Some h'" "calls_ok h"
  with True show ?thesis by (elim enters_step) (auto intro: calls_ok_enter)
qed (blast intro: calls_ok_tends tends_step)

lemma calls_ok_new: "calls_ok (new_host services placed pushes)"
  by (simp add: calls_ok_def new_host_def is_run_def)

lemma reaches_calls_ok: "reaches tail_of start es h \<Longrightarrow> calls_ok start \<Longrightarrow> calls_ok h"
  by (induction rule: reaches.induct) (auto intro: calls_ok_step)

text \<open>A host forgets a run at a call or a cancel, once the run's end is noted.\<close>

definition forgot :: "(py_error \<Rightarrow> string) \<Rightarrow> host \<Rightarrow> host_event list \<Rightarrow> nat \<Rightarrow> bool" where
  "forgot tail_of start es n \<longleftrightarrow> (\<exists>es1 e es2 g now t. es = es1 @ e # es2 \<and> reaches tail_of start es1 g
     \<and> ((\<exists>q. e = Call now q) \<or> (\<exists>i. e = Cancel now i)) \<and> is_run g n \<and> re_finished (run_of g n) = Some t
     \<and> forgets now g (t, re_id (run_of g n)))"

lemma forgot_later: "forgot tail_of start es n \<Longrightarrow> forgot tail_of start (es @ [e]) n"
  unfolding forgot_def by (metis append_Cons append_assoc)

lemma forgot_now:
  assumes "reaches tail_of start es g" "(\<exists>q. e = Call now q) \<or> (\<exists>i. e = Cancel now i)" "is_run g n"
    "re_finished (run_of g n) = Some t" "forgets now g (t, re_id (run_of g n))"
  shows "forgot tail_of start (es @ [e]) n"
  unfolding forgot_def using assms by (intro exI [of _ es] exI [of _ e] exI [of _ "[]"] exI [of _ g] exI [of _ now] exI [of _ t]) simp

lemma still_called:
  "reaches tail_of start es h \<Longrightarrow> calls_ok start \<Longrightarrow> ho_runs start = [] \<Longrightarrow> is_run h n \<Longrightarrow>
   dget (ho_calls h) (re_id (run_of h n)) = Some n \<or> forgot tail_of start es n"
proof (induction arbitrary: n rule: reaches.induct)
  case stays
  then show ?case by (simp add: is_run_def)
next
  case (steps es h e h')
  have h: "calls_ok h" using steps.hyps(1) steps.prems(1) by (rule reaches_calls_ok)
  show ?case
  proof (cases "enters h e")
    case False
    with steps.hyps have t: "tends h h'" by (blast intro: tends_step)
    then have "is_run h n" "re_id (run_of h' n) = re_id (run_of h n)" "ho_calls h' = ho_calls h"
      using steps.prems(3) by (auto simp: tends_def is_run_def run_grows_def)
    with steps.IH [of n] steps.prems show ?thesis by (auto intro: forgot_later)
  next
    case True
    from steps.hyps(2) True show ?thesis
    proof (cases rule: enters_step)
      case same
      with steps.IH [of n] steps.prems show ?thesis by (auto intro: forgot_later)
    next
      case (new now i r)
      show ?thesis
      proof (cases "n = length (ho_runs h)")
        case True
        then show ?thesis using new by (simp add: run_of_enter dget_enter)
      next
        case False
        then have n: "n < length (ho_runs h)" using new steps.prems(3) by (simp add: run_of_enter)
        let ?i = "re_id (run_of h n)"
        have id: "re_id (run_of h' n) = ?i" using n new by (simp add: run_of_enter)
        show ?thesis
        proof (cases "dget (ho_calls h) ?i = Some n")
          case False
          then show ?thesis using steps.IH [of n] steps.prems n by (auto intro: forgot_later simp: is_run_def)
        next
          case called: True
          then have "?i \<noteq> i" using new(2) by auto
          then have "dget (ho_calls h') ?i = dget (ho_calls (forget_finished now h)) ?i" using new(1) by (simp add: dget_enter)
          then consider "dget (ho_calls h') ?i = Some n" | t where "re_finished (run_of h n) = Some t" "forgets now h (t, ?i)"
            using called dget_forget_finished [OF calls_ok_wf [OF h], of now ?i n] by metis
          then show ?thesis
          proof cases
            case 1
            then show ?thesis using id by simp
          next
            case 2
            moreover have "is_run h n" using n by (simp add: is_run_def)
            ultimately have "forgot tail_of start (es @ [e]) n" using steps.hyps(1) new(5) by (intro forgot_now)
            then show ?thesis by blast
          qed
        qed
      qed
    qed
  qed
qed

text \<open>C15. A call id runs once: while a host remembers a run of an id it starts no other. Two runs of one id are
  apart by the host having forgotten the first, at a call or a cancel: the first had ended, more than ten
  minutes before, or with more than 1024 finished calls remembered.
\<close>

theorem call_id_runs_once:
  assumes "reaches tail_of (new_host services placed pushes) es h" "n < m" "m < length (ho_runs h)"
    and "re_id (run_of h n) = re_id (run_of h m)"
  shows "\<exists>es1 e es2 g now t. es = es1 @ e # es2 \<and> reaches tail_of (new_host services placed pushes) es1 g
    \<and> ((\<exists>q. e = Call now q) \<or> (\<exists>i. e = Cancel now i)) \<and> re_finished (run_of g n) = Some t
    \<and> (t < now - 600 \<or> 1024 < length (ended_calls g))"
proof -
  have h: "calls_ok h" using assms(1) calls_ok_new by (rule reaches_calls_ok)
  have "dget (ho_calls h) (re_id (run_of h n)) \<noteq> Some n"
    using h assms(2) assms(3,4) by (intro calls_ok_newest) (simp_all add: is_run_def)
  moreover have "is_run h n" using assms(2,3) by (simp add: is_run_def)
  ultimately have "forgot tail_of (new_host services placed pushes) es n"
    using still_called [OF assms(1) calls_ok_new, of n] by (simp add: new_host_def)
  then obtain es1 e es2 g now t where f: "es = es1 @ e # es2" "reaches tail_of (new_host services placed pushes) es1 g"
    "(\<exists>q. e = Call now q) \<or> (\<exists>i. e = Cancel now i)" "re_finished (run_of g n) = Some t"
    "forgets now g (t, re_id (run_of g n))" unfolding forgot_def by blast
  from f(5) have "t < now - 600 \<or> 1024 < length (ended_calls g)"
    by (auto simp: forgets_def keep_finished_s_def max_finished_def)
  with f(1-4) show ?thesis by blast
qed

text \<open>The events of a list in turn.\<close>

fun host_run :: "(py_error \<Rightarrow> string) \<Rightarrow> host_event list \<Rightarrow> host \<Rightarrow> host option" where
  "host_run tail_of [] h = Some h"
| "host_run tail_of (e # es) h = Option.bind (host_step tail_of e h) (host_run tail_of es)"

lemma reaches_host_run: "reaches tail_of start es g \<Longrightarrow> host_run tail_of es' g = Some h \<Longrightarrow> reaches tail_of start (es @ es') h"
proof (induction es' arbitrary: es g)
  case (Cons e es')
  then obtain k where "host_step tail_of e g = Some k" "host_run tail_of es' k = Some h" by (auto simp: bind_eq_Some_conv)
  with Cons.IH [of "es @ [e]" k] Cons.prems(1) show ?case by (auto intro: steps)
qed simp

lemma reaches_run: "host_run tail_of es start = Some h \<Longrightarrow> reaches tail_of start es h"
  using reaches_host_run [OF stays] by fastforce

lemma reaches_append:
  "reaches tail_of start (es @ es') h \<Longrightarrow> \<exists>g. reaches tail_of start es g \<and> reaches tail_of g es' h"
proof (induction es' arbitrary: h rule: rev_induct)
  case Nil
  then show ?case using stays by auto
next
  case (snoc e es')
  then have "reaches tail_of start ((es @ es') @ [e]) h" by simp
  then obtain k where k: "reaches tail_of start (es @ es') k" "host_step tail_of e k = Some h" by (rule reaches_snocE)
  with snoc.IH obtain g where "reaches tail_of start es g" "reaches tail_of g es' k" by blast
  with k(2) show ?case by (auto intro: steps)
qed

section \<open>Answers\<close>

definition runs_kept :: "host \<Rightarrow> host \<Rightarrow> bool" where
  "runs_kept h h' \<longleftrightarrow> (\<forall>n. is_run h n \<longrightarrow> is_run h' n \<and> re_request (run_of h' n) = re_request (run_of h n)
     \<and> (run_done (run_of h n) \<longrightarrow> run_of h' n = run_of h n))"

lemma runs_kept_step: "host_step tail_of e h = Some h' \<Longrightarrow> runs_kept h h'"
proof (cases "enters h e")
  case True
  assume "host_step tail_of e h = Some h'"
  with True show ?thesis
    by (elim enters_step) (auto simp: runs_kept_def run_of_enter is_run_def [of h])
next
  case False
  assume "host_step tail_of e h = Some h'"
  with False have "tends h h'" by (rule tends_step [rotated])
  then show ?thesis by (auto simp: runs_kept_def tends_def run_grows_def is_run_def)
qed

lemma runs_kept_trans: "runs_kept h g \<Longrightarrow> runs_kept g k \<Longrightarrow> runs_kept h k"
  unfolding runs_kept_def by metis

lemma reaches_runs_kept: "reaches tail_of start es h \<Longrightarrow> runs_kept start h"
proof (induction rule: reaches.induct)
  case stays
  then show ?case by (simp add: runs_kept_def)
next
  case (steps es h e h')
  then show ?case by (blast intro: runs_kept_trans runs_kept_step)
qed

lemma services_complete_run [simp]: "ho_services (complete_run n now x h) = ho_services h"
  by (simp add: complete_run_def end_run_def Let_def)

lemma services_forget_open [simp]: "ho_services (forget_open f h) = ho_services h"
  by (simp add: forget_open_def Let_def)

lemma services_resume_open [simp]: "ho_services (resume_open tail_of n f now h) = ho_services h"
  by (simp add: resume_open_def end_run_def split: open_state.split)

lemma services_await_instance [simp]: "ho_services (await_instance tail_of n now h) = ho_services h"
  by (simp add: await_instance_def Let_def split: option.split open_state.split)

lemma services_cancel_run [simp]: "ho_services (cancel_run n h) = ho_services h"
  by (simp add: cancel_run_def set_open_def split: phase.split open_state.split)

lemma services_step: "host_step tail_of e h = Some h' \<Longrightarrow> ho_services h' = ho_services h"
  by (cases e) (auto simp: host_call_def host_cancel_def Let_def set_open_def pusher_wakes_def push_begins_def push_ends_def host_shutdown_def
    end_run_def split: option.splits if_splits phase.splits sum.splits)

lemma reaches_services: "reaches tail_of start es h \<Longrightarrow> ho_services h = ho_services start"
  by (induction rule: reaches.induct) (auto dest: services_step)

lemma host_call_attached:
  assumes "host_call now r h = (Attached n, g)" "calls_ok h"
  shows "is_run g n" "re_request (run_of g n) \<in> {None, Some r}" "ho_services g = ho_services h"
    "\<exists>methods. dget (ho_services h) (cq_service r) = Some methods \<and> cq_method r \<in> set methods"
  using assms by (auto simp: host_call_def calls_ok_def Let_def run_of_def is_run_def split: option.splits if_splits)

text \<open>A retry gets the first answer: the same request sent again, while the host remembers its run, starts
  nothing and waits for that run; and once the run has ended, its answer stays the same whatever happens on
  the host.
\<close>

theorem retry_same_answer:
  assumes "reaches tail_of (new_host services placed pushes) es h" "host_call now r h = (Attached n, g)"
    and "reaches tail_of g es' h'" "dget (ho_calls h') (cq_call_id r) = Some n" "reaches tail_of h' later k"
  shows "host_call now' r h' = (Attached n, h')
    \<and> (attached_reply (run_of h' n) = None \<or> attached_reply (run_of k n) = attached_reply (run_of h' n))"
proof -
  have h: "calls_ok h" using assms(1) calls_ok_new by (rule reaches_calls_ok)
  note g = host_call_attached [OF assms(2) h]
  have kept: "is_run h' n" "re_request (run_of h' n) = re_request (run_of g n)"
    using reaches_runs_kept [OF assms(3)] g(1) by (auto simp: runs_kept_def)
  have "host_call now' r h' = (Attached n, h')"
    using g kept assms(4) reaches_services [OF assms(3)] by (auto simp: host_call_def split: option.split)
  moreover have "attached_reply (run_of k n) = attached_reply (run_of h' n)" if "attached_reply (run_of h' n) \<noteq> None"
    using reaches_runs_kept [OF assms(5)] kept(1) that
    by (auto simp: runs_kept_def run_done_def attached_reply_def split: phase.splits)
  ultimately show ?thesis by blast
qed

section \<open>Pushes\<close>

text \<open>Whether a push covers what was there before the events: one that began after it and went well.\<close>

datatype coverage = Uncovered | Underway | Covered

fun cover :: "host_event \<Rightarrow> coverage \<Rightarrow> coverage" where
  "cover (PushBegins _) c = (if c = Uncovered then Underway else c)"
| "cover (LastPushBegins _) c = (if c = Uncovered then Underway else c)"
| "cover (PushEnds error) c = (if c = Underway then if error = None then Covered else Uncovered else c)"
| "cover (LastPushEnds error) c = (if c = Underway then if error = None then Covered else Uncovered else c)"
| "cover _ c = c"

definition covered :: "host \<Rightarrow> coverage \<Rightarrow> bool" where
  "covered h c \<longleftrightarrow> (case c of Uncovered \<Rightarrow> ho_pending h | Underway \<Rightarrow> push_running h | Covered \<Rightarrow> True)"

definition push_state :: "host \<Rightarrow> bool \<times> pusher \<times> closing" where
  "push_state h = (ho_pending h, ho_pusher h, ho_closing h)"

lemma covered_push_state: "push_state h' = push_state h \<Longrightarrow> covered h' c = covered h c"
  by (simp add: covered_def push_state_def push_running_def split: coverage.split)

definition pends :: "host \<Rightarrow> host \<Rightarrow> bool" where
  "pends h h' \<longleftrightarrow> (ho_pending h \<longrightarrow> ho_pending h') \<and> ho_pusher h' = ho_pusher h \<and> ho_closing h' = ho_closing h"

lemma covered_pends: "pends h h' \<Longrightarrow> covered h c \<Longrightarrow> covered h' c"
  by (auto simp: covered_def pends_def push_running_def split: coverage.splits)

lemma pends_simps [simp]:
  "pends h h" "pends h (set_run n f h)" "pends h (complete_run n now x h)" "pends h (end_run n now p h)" "pends h (set_open fu st h)"
  "pends h (cancel_run n h)" "pends h (forget_finished now h)"
  by (auto simp: pends_def complete_run_def end_run_def set_open_def cancel_run_def Let_def forget_finished_def split: phase.split open_state.split)

lemma pends_trans: "pends h g \<Longrightarrow> pends g k \<Longrightarrow> pends h k"
  by (simp add: pends_def)

lemma pends_forget_open [simp]: "pends h (forget_open f h)"
  by (simp add: pends_def)

lemma pends_resume_open [simp]: "pends h (resume_open tail_of n f now h)"
proof -
  have "pends (forget_open f h) k \<Longrightarrow> pends h k" for k by (simp add: pends_def)
  then show ?thesis unfolding resume_open_def by (auto split: open_state.split)
qed

lemma pends_await_instance [simp]: "pends h (await_instance tail_of n now h)"
  unfolding await_instance_def Let_def by (auto simp: pends_def [of h "set_run _ _ _"] split: option.split open_state.split)

lemma pends_host_call [simp]: "pends h (snd (host_call now r h))"
  by (auto simp: host_call_def pends_def Let_def forget_finished_def split: option.split)

lemma pends_host_cancel [simp]: "pends h (snd (host_cancel now i h))"
  by (auto simp: host_cancel_def Let_def pends_def forget_finished_def cancel_run_def set_open_def
    split: option.split phase.split open_state.split)

definition push_event :: "host_event \<Rightarrow> bool" where
  "push_event e \<longleftrightarrow> (case e of PushBegins _ \<Rightarrow> True | PushEnds _ \<Rightarrow> True | LastPushBegins _ \<Rightarrow> True | LastPushEnds _ \<Rightarrow> True
     | PusherWakes \<Rightarrow> True | Shutdown \<Rightarrow> True | InstancesClosed \<Rightarrow> True | _ \<Rightarrow> False)"

lemma pends_step: "host_step tail_of e h = Some h' \<Longrightarrow> \<not> push_event e \<Longrightarrow> pends h h'"
  by (cases e) (auto simp: push_event_def split: if_splits phase.splits sum.splits option.splits)

lemma covered_step: "host_step tail_of e h = Some h' \<Longrightarrow> covered h c \<Longrightarrow> covered h' (cover e c)"
proof (cases "push_event e")
  case True
  assume "host_step tail_of e h = Some h'" "covered h c"
  with True show ?thesis
    by (cases e; cases c) (auto simp: push_event_def covered_def push_running_def push_begins_def push_ends_def pusher_wakes_def
      host_shutdown_def split: if_splits option.splits)
next
  case False
  assume "host_step tail_of e h = Some h'" "covered h c"
  moreover from False have "cover e c = c" by (cases e) (auto simp: push_event_def)
  ultimately show ?thesis using False by (auto intro: covered_pends pends_step)
qed

lemma covered_reaches: "reaches tail_of start es h \<Longrightarrow> covered start c \<Longrightarrow> covered h (fold cover es c)"
  by (induction rule: reaches.induct) (auto intro: covered_step)

text \<open>The response of a run that ends on a host that pushes says that a push is owed, and one is.\<close>

definition owed :: "host \<Rightarrow> call_response \<Rightarrow> bool" where
  "owed h x \<longleftrightarrow> ho_pending h \<and> (\<exists>s. cr_storage x = Some s \<and> ss_pending s)"

definition owes :: "host \<Rightarrow> host \<Rightarrow> nat \<Rightarrow> bool" where
  "owes h g m \<longleftrightarrow> (ho_pushes h \<and> is_run h m \<and> \<not> run_done (run_of h m) \<longrightarrow> (\<forall>x. re_phase (run_of g m) = Finished x \<longrightarrow> owed g x))"

lemma owes_self: "(\<And>x. re_phase (run_of g m) = Finished x \<Longrightarrow> re_phase (run_of h m) = Finished x) \<Longrightarrow> owes h g m"
  by (auto simp: owes_def run_done_def)

lemma owes_set_run: "(\<forall>x. re_phase (f (run_of h n)) \<noteq> Finished x) \<or> (\<forall>r. re_phase (f r) = re_phase r) \<Longrightarrow> owes h (set_run n f h) m"
  by (rule owes_self) (auto split: if_splits)

lemma owes_end_run: "owes h (end_run n now Halted h) m"
  unfolding end_run_def by (rule owes_set_run) simp

lemma owes_on: "ho_runs k = ho_runs h \<Longrightarrow> ho_pushes k = ho_pushes h \<Longrightarrow> owes k g m \<Longrightarrow> owes h g m"
  by (simp add: owes_def is_run_def run_of_def)

lemma owes_complete_run: "owes h (complete_run n now y h) m"
proof (cases "ho_pushes h")
  case True
  define k where "k = h\<lparr>ho_pending := True, ho_push_due := True\<rparr>"
  define z where "z = y\<lparr>cr_storage := Some (storage_status_of k)\<rparr>"
  have "owes k (end_run n now (Finished z) k) m"
    by (auto simp: owes_def end_run_def run_done_def owed_def z_def k_def storage_status_of_def)
  then have "owes h (end_run n now (Finished z) k) m" by (rule owes_on [rotated 2]) (simp_all add: k_def)
  then show ?thesis using True by (simp add: complete_run_def Let_def k_def z_def)
qed (simp add: owes_def)

lemma owes_forget_open: "owes (forget_open f h) g m \<Longrightarrow> owes h g m"
  by (rule owes_on) simp_all

lemma owes_resume_open: "owes h (resume_open tail_of n f now h) m"
proof -
  have "owes h (end_run n now Halted (forget_open f h)) m" by (rule owes_forget_open, rule owes_end_run)
  moreover have "owes h (complete_run n now y (forget_open f h)) m" for y by (rule owes_forget_open, rule owes_complete_run)
  moreover have "owes h (set_run n (\<lambda>r. r\<lparr>re_phase := InMethod\<rparr>) h) m" by (rule owes_set_run) simp
  ultimately show ?thesis unfolding resume_open_def by (auto intro: owes_self split: open_state.split)
qed

lemma owes_await_instance: "owes h (await_instance tail_of n now h) m"
proof -
  have s: "owes k (set_run n (\<lambda>r. r\<lparr>re_phase := AtOpen f\<rparr>) k) m" for f k by (rule owes_set_run) simp
  have "owes h (set_run n (\<lambda>r. r\<lparr>re_phase := AtOpen f\<rparr>) (h\<lparr>ho_opens := os, ho_instances := is\<rparr>)) m" for f os "is"
    using s by (rule owes_on [rotated 2]) simp_all
  then show ?thesis unfolding await_instance_def Let_def
    by (auto intro: owes_resume_open s split: option.split open_state.split)
qed

lemma owes_same_runs: "ho_runs g = ho_runs h \<Longrightarrow> owes h g m"
  by (rule owes_self) (simp add: run_of_def)

lemma owes_cancel_run: "owes h (cancel_run n h) m"
proof -
  have "owes h (set_run n (\<lambda>r. r\<lparr>re_cancel := True\<rparr>) h) m" by (rule owes_set_run) simp
  moreover have "owes h (set_open f st h) m" for f st by (rule owes_same_runs) (simp add: set_open_def)
  ultimately show ?thesis unfolding cancel_run_def by (auto split: phase.split open_state.split)
qed

lemma owes_step: "host_step tail_of e h = Some g \<Longrightarrow> owes h g m"
proof (cases "enters h e")
  case True
  assume "host_step tail_of e h = Some g"
  with True show ?thesis
    by (elim enters_step) (auto intro!: owes_self simp: owes_def run_of_enter run_done_def is_run_def [of h])
next
  case False
  assume "host_step tail_of e h = Some g"
  with False show ?thesis
    by (cases e) (auto simp: enters_def host_cancel_def set_open_def pusher_wakes_def push_begins_def push_ends_def host_shutdown_def
      intro!: owes_same_runs owes_cancel_run owes_set_run owes_complete_run owes_await_instance owes_resume_open owes_end_run
      split: option.splits if_splits sum.splits phase.splits)
qed

text \<open>C16. No finished call's files are forgotten: when a run of a host that pushes storage ends with a response, the
  response says that a push is pending, and from then on a push is pending, or is running, until one that
  began after the run had ended succeeds.
\<close>

theorem finished_call_is_pushed:
  assumes "host_step tail_of e h = Some g" "ho_pushes h" "is_run h n" "\<not> run_done (run_of h n)"
    and "re_phase (run_of g n) = Finished x" "reaches tail_of g es k"
  shows "(\<exists>s. cr_storage x = Some s \<and> ss_pending s)
    \<and> (case fold cover es Uncovered of Uncovered \<Rightarrow> ho_pending k | Underway \<Rightarrow> push_running k | Covered \<Rightarrow> True)"
proof -
  have "owed g x" using owes_step [OF assms(1)] assms(2-5) by (auto simp: owes_def)
  then have "covered g Uncovered" "\<exists>s. cr_storage x = Some s \<and> ss_pending s" by (auto simp: owed_def covered_def)
  with covered_reaches [OF assms(6)] show ?thesis by (auto simp: covered_def)
qed

section \<open>Instances\<close>

text \<open>The instances name opens of their own slots; an open that runs is its slot's; a run waits for an open of
  its slot; and of the pusher's push and the last one at most one runs.\<close>

declare split_paired_All [simp del] split_paired_Ex [simp del]

definition instances_ok :: "host \<Rightarrow> bool" where
  "instances_ok h \<longleftrightarrow> (\<forall>s f. dget (ho_instances h) s = Some f \<longrightarrow> f < length (ho_opens h) \<and> oe_slot (open_of h f) = s)
     \<and> (\<forall>f < length (ho_opens h). open_running h f \<longrightarrow> dget (ho_instances h) (oe_slot (open_of h f)) = Some f)"

definition waits_ok :: "host \<Rightarrow> bool" where
  "waits_ok h \<longleftrightarrow> (\<forall>n f. is_run h n \<longrightarrow> re_phase (run_of h n) = AtOpen f \<longrightarrow>
     f < length (ho_opens h) \<and> oe_slot (open_of h f) = request_slot (run_of h n))"

definition opens_ok :: "host \<Rightarrow> bool" where
  "opens_ok h \<longleftrightarrow> instances_ok h \<and> waits_ok h"

definition same_opens :: "host \<Rightarrow> host \<Rightarrow> bool" where
  "same_opens h g \<longleftrightarrow> ho_instances g = ho_instances h \<and> ho_opens g = ho_opens h
     \<and> (\<forall>n f. is_run g n \<longrightarrow> re_phase (run_of g n) = AtOpen f \<longrightarrow>
          is_run h n \<and> re_phase (run_of h n) = AtOpen f \<and> request_slot (run_of g n) = request_slot (run_of h n))"

lemma instances_okD: "instances_ok h \<Longrightarrow> dget (ho_instances h) s = Some f \<Longrightarrow> f < length (ho_opens h) \<and> oe_slot (open_of h f) = s"
  unfolding instances_ok_def by blast

lemma instances_ok_running: "instances_ok h \<Longrightarrow> f < length (ho_opens h) \<Longrightarrow> open_running h f \<Longrightarrow>
    dget (ho_instances h) (oe_slot (open_of h f)) = Some f"
  unfolding instances_ok_def by blast

lemma instances_okI:
  assumes "\<And>s f. dget (ho_instances h) s = Some f \<Longrightarrow> f < length (ho_opens h) \<and> oe_slot (open_of h f) = s"
    and "\<And>f. f < length (ho_opens h) \<Longrightarrow> open_running h f \<Longrightarrow> dget (ho_instances h) (oe_slot (open_of h f)) = Some f"
  shows "instances_ok h"
  using assms unfolding instances_ok_def by blast

lemma instances_ok_cong: "ho_instances g = ho_instances h \<Longrightarrow> ho_opens g = ho_opens h \<Longrightarrow> instances_ok g = instances_ok h"
  by (simp add: instances_ok_def open_running_def open_of_def)

lemma opens_ok_same:
  assumes "same_opens h g" "opens_ok h"
  shows "opens_ok g"
proof -
  have e: "ho_instances g = ho_instances h" "ho_opens g = ho_opens h" using assms(1) by (simp_all add: same_opens_def)
  have "instances_ok g" using assms(2) instances_ok_cong [OF e] by (simp add: opens_ok_def)
  moreover have "waits_ok g" using assms e unfolding opens_ok_def waits_ok_def same_opens_def open_of_def by metis
  ultimately show ?thesis by (simp add: opens_ok_def)
qed

lemma same_opens_refl: "same_opens h h"
  by (simp add: same_opens_def)

lemma same_opens_runs: "ho_instances g = ho_instances h \<Longrightarrow> ho_opens g = ho_opens h \<Longrightarrow> ho_runs g = ho_runs h \<Longrightarrow> same_opens h g"
  by (simp add: same_opens_def is_run_def run_of_def)

lemma same_opens_set_run:
  assumes "\<And>r. re_request (fn r) = re_request r" "\<And>r f. re_phase (fn r) = AtOpen f \<Longrightarrow> re_phase r = AtOpen f"
  shows "same_opens h (set_run n fn h)"
proof -
  have "re_phase (run_of h m) = AtOpen f \<and> request_slot (run_of (set_run n fn h) m) = request_slot (run_of h m)"
    if "re_phase (run_of (set_run n fn h) m) = AtOpen f" for m f
    using that assms(1) [of "run_of h n"] assms(2) [of "run_of h n" f] by (auto simp: request_slot_def split: if_splits)
  then show ?thesis by (simp add: same_opens_def)
qed

lemma same_opens_on: "ho_instances k = ho_instances h \<Longrightarrow> ho_opens k = ho_opens h \<Longrightarrow> ho_runs k = ho_runs h \<Longrightarrow> same_opens k g \<Longrightarrow> same_opens h g"
  by (simp add: same_opens_def is_run_def run_of_def)

lemma same_opens_end_run: "p = Halted \<or> (\<exists>x. p = Finished x) \<Longrightarrow> same_opens h (end_run n now p h)"
  unfolding end_run_def by (rule same_opens_set_run) auto

lemma same_opens_complete_run: "same_opens h (complete_run n now x h)"
proof -
  have "same_opens h (end_run n now (Finished y) (h\<lparr>ho_pending := True, ho_push_due := True\<rparr>))" for y
    by (rule same_opens_on [OF _ _ _ same_opens_end_run]) simp_all
  then show ?thesis by (simp add: complete_run_def Let_def same_opens_end_run)
qed

lemma same_opens_enter: "(\<And>f. re_phase r \<noteq> AtOpen f) \<Longrightarrow> same_opens h (enter now i r h)"
  by (auto simp: same_opens_def run_of_enter is_run_def [of h]) (simp_all add: enter_def Let_def forget_finished_def)

lemma opens_ok_forget_open:
  assumes "\<not> open_running h f" "opens_ok h"
  shows "opens_ok (forget_open f h)"
proof -
  have r: "open_running (forget_open f h) g = open_running h g" "open_of (forget_open f h) g = open_of h g"
    "is_run (forget_open f h) n = is_run h n" for g n
    by (simp_all add: open_running_def open_of_def is_run_def)
  have "waits_ok (forget_open f h)" using assms(2) by (simp add: opens_ok_def waits_ok_def r)
  moreover have ok: "instances_ok h" using assms(2) by (simp add: opens_ok_def)
  have "instances_ok (forget_open f h)"
  proof (cases "dget (ho_instances h) (oe_slot (open_of h f)) = Some f")
    case True
    then have i: "ho_instances (forget_open f h) = AList.delete (oe_slot (open_of h f)) (ho_instances h)"
      by (simp add: forget_open_def Let_def)
    show ?thesis
    proof (rule instances_okI)
      fix s g assume "dget (ho_instances (forget_open f h)) s = Some g"
      then have "dget (ho_instances h) s = Some g" by (simp add: i split: if_splits)
      then show "g < length (ho_opens (forget_open f h)) \<and> oe_slot (open_of (forget_open f h) g) = s"
        using instances_okD [OF ok] by (simp add: r)
    next
      fix g assume g: "g < length (ho_opens (forget_open f h))" "open_running (forget_open f h) g"
      then have d: "dget (ho_instances h) (oe_slot (open_of h g)) = Some g" using instances_ok_running [OF ok] by (simp add: r)
      have "g \<noteq> f" using g(2) assms(1) by (auto simp: r)
      then have "oe_slot (open_of h g) \<noteq> oe_slot (open_of h f)" using d True by auto
      then show "dget (ho_instances (forget_open f h)) (oe_slot (open_of (forget_open f h) g)) = Some g" using d by (simp add: i r)
    qed
  next
    case False
    then have "forget_open f h = h" by (simp add: forget_open_def Let_def)
    then show ?thesis using ok by simp
  qed
  ultimately show ?thesis by (simp add: opens_ok_def)
qed

lemma opens_ok_resume_open:
  assumes "\<not> open_running h f" "opens_ok h"
  shows "opens_ok (resume_open tail_of n f now h)"
proof -
  note ok = opens_ok_forget_open [OF assms]
  have "opens_ok (end_run n now Halted (forget_open f h))" "opens_ok (complete_run n now y (forget_open f h))" for y
    by (rule opens_ok_same [OF _ ok], simp add: same_opens_end_run same_opens_complete_run)+
  moreover have "opens_ok (set_run n (\<lambda>r. r\<lparr>re_phase := InMethod\<rparr>) h)"
    by (rule opens_ok_same [OF same_opens_set_run assms(2)]) simp_all
  ultimately show ?thesis using assms(2) unfolding resume_open_def by (auto split: open_state.split)
qed

lemma opens_ok_wait:
  assumes "opens_ok h" "f < length (ho_opens h)" "oe_slot (open_of h f) = request_slot (run_of h n)"
  shows "opens_ok (set_run n (\<lambda>r. r\<lparr>re_phase := AtOpen f\<rparr>) h)"
  using assms by (auto simp: opens_ok_def instances_ok_def waits_ok_def open_running_def open_of_def request_slot_def split: if_splits)

lemma opens_ok_new_open:
  assumes "opens_ok h" "dget (ho_instances h) s = None"
  shows "opens_ok (h\<lparr>ho_opens := ho_opens h @ [\<lparr>oe_slot = s, oe_state = Opening False\<rparr>], ho_instances := dset s (length (ho_opens h)) (ho_instances h)\<rparr>)"
    (is "opens_ok ?g")
proof -
  have old: "open_of ?g f = open_of h f" if "f < length (ho_opens h)" for f using that by (simp add: open_of_def nth_append)
  have new: "open_of ?g (length (ho_opens h)) = \<lparr>oe_slot = s, oe_state = Opening False\<rparr>" by (simp add: open_of_def)
  have "waits_ok ?g" using assms(1) old by (fastforce simp: opens_ok_def waits_ok_def is_run_def run_of_def)
  moreover have ok: "instances_ok h" using assms(1) by (simp add: opens_ok_def)
  have "instances_ok ?g"
  proof (rule instances_okI)
    fix t f assume "dget (ho_instances ?g) t = Some f"
    then show "f < length (ho_opens ?g) \<and> oe_slot (open_of ?g f) = t"
      using instances_okD [OF ok, of t f] old [of f] new by (auto split: if_splits)
  next
    fix f assume f: "f < length (ho_opens ?g)" "open_running ?g f"
    show "dget (ho_instances ?g) (oe_slot (open_of ?g f)) = Some f"
    proof (cases "f = length (ho_opens h)")
      case True
      then show ?thesis using new by simp
    next
      case False
      then have "f < length (ho_opens h)" using f by simp
      moreover from this have "dget (ho_instances h) (oe_slot (open_of h f)) = Some f"
        using f(2) instances_ok_running [OF ok] old by (simp add: open_running_def)
      ultimately show ?thesis using assms(2) old by auto
    qed
  qed
  ultimately show ?thesis by (simp add: opens_ok_def)
qed

lemma opens_ok_await_instance:
  assumes "opens_ok h"
  shows "opens_ok (await_instance tail_of n now h)"
proof (cases "dget (ho_instances h) (request_slot (run_of h n))")
  case None
  let ?s = "request_slot (run_of h n)"
  let ?g = "h\<lparr>ho_opens := ho_opens h @ [\<lparr>oe_slot = ?s, oe_state = Opening False\<rparr>], ho_instances := dset ?s (length (ho_opens h)) (ho_instances h)\<rparr>"
  have "opens_ok ?g" using assms None by (rule opens_ok_new_open)
  then have "opens_ok (set_run n (\<lambda>r. r\<lparr>re_phase := AtOpen (length (ho_opens h))\<rparr>) ?g)"
    by (rule opens_ok_wait) (simp_all add: open_of_def run_of_def)
  with None show ?thesis by (simp add: await_instance_def Let_def)
next
  case (Some f)
  then have "f < length (ho_opens h)" "oe_slot (open_of h f) = request_slot (run_of h n)"
    using assms instances_okD [OF _ Some] by (auto simp: opens_ok_def)
  then show ?thesis using Some assms
    by (auto simp: await_instance_def Let_def open_running_def intro!: opens_ok_wait opens_ok_resume_open split: open_state.split)
qed

lemma opens_ok_set_open:
  assumes "opens_ok h" "open_running h f" "f < length (ho_opens h)"
  shows "opens_ok (set_open f st h)"
proof -
  have o: "open_of (set_open f st h) g = (if g = f then (open_of h f)\<lparr>oe_state := st\<rparr> else open_of h g)" if "g < length (ho_opens h)" for g
    using that assms(3) by (simp add: open_of_def set_open_def)
  have l: "length (ho_opens (set_open f st h)) = length (ho_opens h)" "ho_instances (set_open f st h) = ho_instances h"
    "ho_runs (set_open f st h) = ho_runs h" by (simp_all add: set_open_def)
  show ?thesis using assms(1,2) unfolding opens_ok_def instances_ok_def waits_ok_def
    by (auto simp: l o open_running_def is_run_def run_of_def split: if_splits)
qed

lemma opens_ok_cancel_run:
  assumes "opens_ok h" "is_run h n"
  shows "opens_ok (cancel_run n h)"
proof -
  have "opens_ok (set_run n (\<lambda>r. r\<lparr>re_cancel := True\<rparr>) h)"
    by (rule opens_ok_same [OF same_opens_set_run assms(1)]) simp_all
  moreover have "opens_ok (set_open f (Opening True) h)" if "re_phase (run_of h n) = AtOpen f" "oe_state (open_of h f) = Opening c" for f c
    using assms that by (intro opens_ok_set_open) (auto simp: opens_ok_def waits_ok_def open_running_def)
  ultimately show ?thesis unfolding cancel_run_def by (auto split: phase.split open_state.split)
qed

lemma opens_ok_set_phase: "opens_ok h \<Longrightarrow> (\<And>f. p \<noteq> AtOpen f) \<Longrightarrow> opens_ok (set_run n (\<lambda>r. r\<lparr>re_phase := p\<rparr>) h)"
  by (rule opens_ok_same [OF same_opens_set_run]) auto

lemma opens_ok_complete_run: "opens_ok h \<Longrightarrow> opens_ok (complete_run n now x h)"
  by (rule opens_ok_same [OF same_opens_complete_run])

lemma opens_ok_end_run: "opens_ok h \<Longrightarrow> p = Halted \<or> (\<exists>x. p = Finished x) \<Longrightarrow> opens_ok (end_run n now p h)"
  by (rule opens_ok_same [OF same_opens_end_run])

lemma opens_ok_runs: "opens_ok h \<Longrightarrow> ho_instances g = ho_instances h \<Longrightarrow> ho_opens g = ho_opens h \<Longrightarrow> ho_runs g = ho_runs h \<Longrightarrow> opens_ok g"
  by (rule opens_ok_same [OF same_opens_runs])

lemma opens_ok_entered:
  assumes "host_step tail_of e h = Some g" "enters h e" "opens_ok h"
  shows "opens_ok g"
proof (cases e)
  case (Call now r)
  have "snd (host_call now r h) = h \<or> snd (host_call now r h) = enter now (cq_call_id r)
      \<lparr>re_id = cq_call_id r, re_request = Some r, re_phase = Queued, re_cancel = False, re_finished = None\<rparr> h"
    by (auto simp: host_call_def enter_def Let_def split: option.split)
  with Call assms show ?thesis by (auto intro: opens_ok_same [OF same_opens_enter [rotated]] intro!: opens_ok_same [OF same_opens_enter])
next
  case (Cancel now i)
  then have "g = enter now i \<lparr>re_id = i, re_request = None, re_phase = Halted, re_cancel = False, re_finished = Some now\<rparr> h"
    using assms by (auto simp: enters_def host_cancel_def enter_def Let_def)
  with assms(3) show ?thesis by (auto intro: opens_ok_same [OF same_opens_enter])
qed (use assms in \<open>simp_all add: enters_def\<close>)

lemma opens_ok_step:
  assumes "host_step tail_of e h = Some g" "opens_ok h" "calls_ok h"
  shows "opens_ok g"
proof (cases "enters h e")
  case True
  with assms show ?thesis by (blast intro: opens_ok_entered)
next
  case False
  have c: "is_run h n" if "dget (ho_calls h) i = Some n" for i n using that assms(3) by (auto simp: calls_ok_def)
  have o: "opens_ok (set_open f st h)" if "f < length (ho_opens h)" "oe_state (open_of h f) = Opening b" for f st b
    using assms(2) that by (intro opens_ok_set_open) (auto simp: open_running_def)
  show ?thesis
  proof (cases "\<exists>f st. e = OpenEnds f st")
    case True
    with assms(1) o show ?thesis by (auto split: if_splits)
  next
    case False
    with \<open>\<not> enters h e\<close> assms show ?thesis
      by (cases e) (auto simp: enters_def host_cancel_def c open_running_def pusher_wakes_def push_begins_def push_ends_def host_shutdown_def
      intro!: opens_ok_cancel_run opens_ok_set_phase opens_ok_complete_run opens_ok_await_instance opens_ok_resume_open opens_ok_end_run
        elim!: opens_ok_runs
      split: option.splits if_splits sum.splits phase.splits)
  qed
qed

lemma opens_ok_new: "opens_ok (new_host services placed pushes)"
  by (simp add: opens_ok_def instances_ok_def waits_ok_def new_host_def is_run_def)

lemma reaches_opens_ok: "reaches tail_of start es h \<Longrightarrow> opens_ok start \<Longrightarrow> calls_ok start \<Longrightarrow> opens_ok h"
  by (induction rule: reaches.induct) (auto intro: opens_ok_step reaches_calls_ok)

text \<open>Parallel first calls share one open: at most one open of a service's instance for a key runs at a time,
  and a run that waits for one waits for an open of its own service and key.
\<close>

theorem one_open_per_instance:
  assumes "reaches tail_of (new_host services placed pushes) es h" "f < length (ho_opens h)" "g < length (ho_opens h)"
    and "open_running h f" "open_running h g" "oe_slot (open_of h f) = oe_slot (open_of h g)"
  shows "f = g"
proof -
  have "instances_ok h" using reaches_opens_ok [OF assms(1) opens_ok_new calls_ok_new] by (simp add: opens_ok_def)
  then have "Some f = dget (ho_instances h) (oe_slot (open_of h f))" "dget (ho_instances h) (oe_slot (open_of h g)) = Some g"
    using assms(2-5) by (auto dest: instances_ok_running)
  then show ?thesis using assms(6) by (metis option.inject)
qed

text \<open>Of the pusher's push and the last one at most one runs, on a host that pushes.\<close>

definition pushes_ok :: "host \<Rightarrow> bool" where
  "pushes_ok h \<longleftrightarrow> \<not> (ho_pusher h = Pushing \<and> ho_closing h = LastPush)
     \<and> (\<not> ho_pushes h \<longrightarrow> ho_pusher h = Resting \<and> ho_closing h \<notin> {WantsLastPush, LastPush})"

lemma pends_pushes [simp]:
  "ho_pushes (complete_run n now x h) = ho_pushes h" "ho_pushes (end_run n now p h) = ho_pushes h" "ho_pushes (set_open fu st h) = ho_pushes h"
  "ho_pushes (cancel_run n h) = ho_pushes h" "ho_pushes (forget_finished now h) = ho_pushes h"
  "ho_pushes (resume_open tail_of n fu now h) = ho_pushes h" "ho_pushes (await_instance tail_of n now h) = ho_pushes h"
  "ho_pushes (snd (host_call now r h)) = ho_pushes h" "ho_pushes (snd (host_cancel now i h)) = ho_pushes h"
  by (auto simp: complete_run_def end_run_def set_open_def cancel_run_def Let_def forget_finished_def resume_open_def await_instance_def
    host_call_def host_cancel_def split: phase.split open_state.split option.split)

lemma pushes_ok_step: "host_step tail_of e h = Some g \<Longrightarrow> pushes_ok h \<Longrightarrow> pushes_ok g"
proof (cases "push_event e")
  case True
  assume "host_step tail_of e h = Some g" "pushes_ok h"
  with True show ?thesis
    by (cases e) (auto simp: push_event_def pushes_ok_def push_running_def push_begins_def push_ends_def pusher_wakes_def host_shutdown_def
      split: if_splits option.splits)
next
  case False
  assume s: "host_step tail_of e h = Some g" "pushes_ok h"
  then have "pends h g" using False by (blast intro: pends_step)
  moreover have "ho_pushes g = ho_pushes h"
    using s False by (cases e) (auto simp: push_event_def split: if_splits phase.splits sum.splits option.splits)
  ultimately show ?thesis using s(2) by (simp add: pushes_ok_def pends_def)
qed

lemma one_push_at_a_time:
  "reaches tail_of (new_host services placed pushes) es h \<Longrightarrow> \<not> (ho_pusher h = Pushing \<and> ho_closing h = LastPush)"
proof -
  assume "reaches tail_of (new_host services placed pushes) es h"
  then have "pushes_ok h"
  proof (induction rule: reaches.induct)
    case stays
    then show ?case by (simp add: pushes_ok_def new_host_def)
  qed (rule pushes_ok_step)
  then show ?thesis by (simp add: pushes_ok_def)
qed

section \<open>A cancelled waiter\<close>

text \<open>Two calls wait for one open and the first is cancelled: the open is cancelled with it and both calls end
  as cancelled, although a cancelled waiter is meant to leave the open in place.\<close>

definition first_call :: call_request where
  "first_call = \<lparr>cq_service = ''s'', cq_key = ''k'', cq_method = ''m'', cq_init = [], cq_args = [], cq_call_id = ''a''\<rparr>"

definition second_call :: call_request where
  "second_call = first_call\<lparr>cq_call_id := ''b''\<rparr>"

lemmas host_run_simps = host_call_def host_cancel_def cancel_run_def await_instance_def resume_open_def forget_open_def end_run_def
  set_run_def set_open_def run_of_def open_of_def is_run_def stands_def run_done_def open_running_def request_slot_def new_host_def
  forget_finished_def forgets_def ended_calls_def first_call_def second_call_def Let_def

lemma cancel_stops_the_other_call:
  "map_option (\<lambda>h. (map attached_reply (ho_runs h), ho_instances h))
     (host_run (\<lambda>_. []) [Call 0 first_call, Call 0 second_call, Begins 0 0, Begins 1 0, Cancel 1 ''a'',
        OpenEnds 0 OpenCancelled, Resumes 0 1, Resumes 1 1] (new_host [(''s'', [''m''])] [] False)) =
   Some ([Some (200, error_response ''cancelled: its caller gave up on it''), Some (200, error_response ''cancelled: its caller gave up on it'')], [])"
  by (simp add: host_run_simps attached_reply_def List.map_filter_def ex_bool_eq)

text \<open>A cancel between the end of an open and the waiter's next step takes a good instance out of the table.\<close>

lemma cancel_drops_a_good_instance:
  "map_option (\<lambda>h. (map oe_state (ho_opens h), ho_instances h))
     (host_run (\<lambda>_. []) [Call 0 first_call, Begins 0 0, OpenEnds 0 Opened, Cancel 1 ''a'', Resumes 0 1] (new_host [(''s'', [''m''])] [] False)) =
   Some ([Opened], [])"
  by (simp add: host_run_simps ex_bool_eq)

section \<open>The properties at work\<close>

text \<open>A cancel that comes ten minutes after the first of its id leaves a second run of the id.\<close>

lemma call_id_runs_once_witness:
  "\<exists>h. reaches (\<lambda>_. []) (new_host [] [] False) [Cancel 0 ''a'', Cancel 1000 ''b'', Cancel 1000 ''a''] h \<and> length (ho_runs h) = 3
     \<and> (\<exists>es1 e es2 g now t. [Cancel 0 ''a'', Cancel 1000 ''b'', Cancel 1000 ''a''] = es1 @ e # es2
          \<and> reaches (\<lambda>_. []) (new_host [] [] False) es1 g
          \<and> ((\<exists>q. e = Call now q) \<or> (\<exists>i. e = Cancel now i)) \<and> re_finished (run_of g 0) = Some t
          \<and> (t < now - 600 \<or> 1024 < length (ended_calls g)))"
proof -
  let ?es = "[Cancel 0 ''a'', Cancel 1000 ''b'', Cancel 1000 ''a'']" and ?h = "new_host [] [] False"
  have "map_option (\<lambda>h. map re_id (ho_runs h)) (host_run (\<lambda>_. []) ?es ?h) = Some [''a'', ''b'', ''a'']"
    by (simp add: host_run_simps List.map_filter_def keep_finished_s_def earlier_def max_finished_def)
  then obtain h where h: "host_run (\<lambda>_. []) ?es ?h = Some h" "map re_id (ho_runs h) = [''a'', ''b'', ''a'']" by auto
  from h(2) have l: "length (ho_runs h) = 3" using length_map [of re_id "ho_runs h"] by simp
  have "re_id (run_of h 0) = map re_id (ho_runs h) ! 0" "re_id (run_of h 2) = map re_id (ho_runs h) ! 2"
    using l by (simp_all add: run_of_def)
  with h(2) have i: "re_id (run_of h 0) = re_id (run_of h 2)" by simp
  from h(1) have r: "reaches (\<lambda>_. []) ?h ?es h" by (rule reaches_run)
  have "(0::nat) < 2" "2 < length (ho_runs h)" using l by simp_all
  from call_id_runs_once [OF r this i] r l show ?thesis by blast
qed

text \<open>One call, opened, run and pushed.\<close>

definition served_events :: "host_event list" where
  "served_events = [Begins 0 0, OpenEnds 0 Opened, Resumes 0 0]"

definition one_service :: host where
  "one_service = new_host [(''s'', [''m''])] [] True"

lemmas one_service_simps = host_run_simps one_service_def served_events_def ex_bool_eq attached_reply_def complete_run_def
  storage_status_of_def text_response_def pusher_wakes_def push_begins_def push_ends_def push_running_def List.map_filter_def

lemma retry_same_answer_witness:
  "\<exists>g h'. host_call 0 first_call one_service = (Attached 0, g)
     \<and> host_run (\<lambda>_. []) (served_events @ [MethodEnds 0 1 (text_response ''ok'')]) g = Some h'
     \<and> attached_reply (run_of h' 0) \<noteq> None \<and> host_call 5 first_call h' = (Attached 0, h')"
proof -
  let ?es = "served_events @ [MethodEnds 0 1 (text_response ''ok'')]"
  define g where "g = snd (host_call 0 first_call one_service)"
  have g: "host_call 0 first_call one_service = (Attached 0, g)" unfolding g_def by (simp add: one_service_simps)
  have "map_option (\<lambda>h. (attached_reply (run_of h 0) \<noteq> None, dget (ho_calls h) ''a'')) (host_run (\<lambda>_. []) ?es g) = Some (True, Some 0)"
    unfolding g_def by (simp add: one_service_simps)
  then obtain h' where h': "host_run (\<lambda>_. []) ?es g = Some h'" "attached_reply (run_of h' 0) \<noteq> None"
    "dget (ho_calls h') (cq_call_id first_call) = Some 0" by (auto simp: first_call_def)
  have "reaches (\<lambda>_. []) (new_host [(''s'', [''m''])] [] True) [] one_service" by (simp add: one_service_def stays)
  from retry_same_answer [OF this g reaches_run [OF h'(1)] h'(3) stays, of 5] g h' show ?thesis by blast
qed

lemma finished_call_is_pushed_witness:
  "\<exists>h g k. host_run (\<lambda>_. []) (Call 0 first_call # served_events) one_service = Some h
     \<and> host_step (\<lambda>_. []) (MethodEnds 0 1 (text_response ''ok'')) h = Some g \<and> reaches (\<lambda>_. []) g [PusherWakes, PushBegins 2] k
     \<and> push_running k"
proof -
  let ?e = "MethodEnds 0 1 (text_response ''ok'')"
  have "map_option (\<lambda>h. (ho_pushes h, is_run h 0 \<and> \<not> run_done (run_of h 0),
      map_option (\<lambda>g. (re_phase (run_of g 0), host_run (\<lambda>_. []) [PusherWakes, PushBegins 2] g \<noteq> None)) (host_step (\<lambda>_. []) ?e h)))
      (host_run (\<lambda>_. []) (Call 0 first_call # served_events) one_service) =
      Some (True, True, Some (Finished ((text_response ''ok'')\<lparr>cr_storage := Some \<lparr>ss_last_attempt_at = None, ss_last_success_at = None,
        ss_last_error = None, ss_consecutive_failures = 0, ss_pending = True\<rparr>\<rparr>), True))" (is "_ = Some (_, _, Some (Finished ?x, _))")
    by (simp add: one_service_simps)
  then obtain h g k where h: "host_run (\<lambda>_. []) (Call 0 first_call # served_events) one_service = Some h"
    "ho_pushes h" "is_run h 0" "\<not> run_done (run_of h 0)" "host_step (\<lambda>_. []) ?e h = Some g" "re_phase (run_of g 0) = Finished ?x"
    "host_run (\<lambda>_. []) [PusherWakes, PushBegins 2] g = Some k" by (auto simp del: host_run.simps host_step.simps)
  have "push_running k"
    using finished_call_is_pushed [OF h(5,2,3,4,6) reaches_run [OF h(7)]] by simp
  with h reaches_run [OF h(7)] show ?thesis by blast
qed

lemma one_open_per_instance_witness:
  "\<exists>h. host_run (\<lambda>_. []) [Call 0 first_call, Call 0 second_call, Begins 0 0, Begins 1 0] one_service = Some h \<and> open_running h 0
     \<and> length (ho_opens h) = 1 \<and> (0::nat) = 0"
proof -
  have "map_option (\<lambda>h. (open_running h 0, length (ho_opens h)))
      (host_run (\<lambda>_. []) [Call 0 first_call, Call 0 second_call, Begins 0 0, Begins 1 0] one_service) = Some (True, 1)"
    by (simp add: one_service_simps)
  then obtain h where h: "host_run (\<lambda>_. []) [Call 0 first_call, Call 0 second_call, Begins 0 0, Begins 1 0] one_service = Some h"
    "open_running h 0" "length (ho_opens h) = 1" by (auto simp del: host_run.simps)
  from reaches_run [OF h(1)] have "(0::nat) = 0"
    unfolding one_service_def by (rule one_open_per_instance) (use h in simp_all)
  with h show ?thesis by blast
qed

end
