(* ===== verification/Host_Http.thy ===== *)
theory Host_Http
  imports Host_Protocol
begin

text \<open>
  The HTTP side of the service host (\<open>actant/sandbox/host.py\<close>: \<open>connection\<close>, \<open>handle\<close>, \<open>reject\<close>, \<open>route\<close> and
  \<open>respond\<close>): the bytes of a connection, read up to its end, are the requests the host acts on and the ones it
  answers itself, in turn. Bytes are characters below 256. The text of a validation error is a parameter.
\<close>

section \<open>Text\<close>

definition crlf :: string where
  "crlf = [CHR 0x0D, CHR 0x0A]"

fun split_crlf :: "string \<Rightarrow> string list" where
  "split_crlf [] = [[]]"
| "split_crlf [c] = [[c]]"
| "split_crlf (c # d # cs) = (if c = CHR 0x0D \<and> d = CHR 0x0A then [] # split_crlf cs
     else (case split_crlf (d # cs) of [] \<Rightarrow> [[c]] | l # ls \<Rightarrow> (c # l) # ls))"

text \<open>\<open>readuntil\<close>: the text up to and with the blank line, and the rest.\<close>

fun until_blank :: "string \<Rightarrow> (string \<times> string) option" where
  "until_blank [] = None"
| "until_blank (c # cs) = (if take 4 (c # cs) = crlf @ crlf then Some (crlf @ crlf, drop 4 (c # cs))
     else map_option (\<lambda>(head, rest). (c # head, rest)) (until_blank cs))"

definition lower_char :: "char \<Rightarrow> char" where
  "lower_char c = (let n = of_char c :: nat in
     if (65 \<le> n \<and> n \<le> 90) \<or> (192 \<le> n \<and> n \<le> 222 \<and> n \<noteq> 215) then char_of (n + 32) else c)"

definition lower :: "string \<Rightarrow> string" where
  "lower = map lower_char"

text \<open>\<open>int\<close> of a text: a sign, and digits with single underscores between them.\<close>

fun plain_digits :: "bool \<Rightarrow> string \<Rightarrow> string option" where
  "plain_digits after [] = (if after then Some [] else None)"
| "plain_digits after (c # cs) = (if is_digit c then map_option (Cons c) (plain_digits True cs)
     else if c = CHR ''_'' \<and> after then plain_digits False cs else None)"

definition int_text :: "string \<Rightarrow> py_error + int" where
  "int_text s = (let t = py_strip s; neg = (take 1 t = ''-''); ds = (if take 1 t \<in> {''-'', ''+''} then drop 1 t else t) in
     case plain_digits False ds of
       None \<Rightarrow> Inl (ValueError (''invalid literal for int() with base 10: '' @ repr_str s))
     | Some ds \<Rightarrow> Inr (if neg then - int (digits_val 0 ds) else int (digits_val 0 ds)))"

section \<open>A request\<close>

definition max_body :: int where
  "max_body = 256 * 1024 * 1024"

text \<open>The limit of asyncio's \<open>StreamReader\<close>.\<close>

definition head_limit :: nat where
  "head_limit = 65536"

text \<open>The first line, in three parts.\<close>

definition request_line :: "string \<Rightarrow> py_error + string \<times> string \<times> string" where
  "request_line l = (let verb = takeWhile (\<lambda>c. c \<noteq> CHR '' '') l; more1 = drop (length verb) l;
       target = takeWhile (\<lambda>c. c \<noteq> CHR '' '') (drop 1 more1); more2 = drop (length target) (drop 1 more1) in
     if more1 = [] then Inl (ValueError ''not enough values to unpack (expected 3, got 1)'')
     else if more2 = [] then Inl (ValueError ''not enough values to unpack (expected 3, got 2)'')
     else Inr (verb, target, drop 1 more2))"

fun read_headers :: "string list \<Rightarrow> (string, string) dict \<Rightarrow> (string, string) dict" where
  "read_headers [] d = d"
| "read_headers (l # ls) d = (let name = takeWhile (\<lambda>c. c \<noteq> CHR '':'') l; rest = drop (length name) l in
     read_headers ls (if rest = [] then d else dset (lower (py_strip name)) (py_strip (drop 1 rest)) d))"

definition header :: "(string, string) dict \<Rightarrow> string \<Rightarrow> string" where
  "header d k = or_else (dget d k) []"

definition content_length :: "(string, string) dict \<Rightarrow> py_error + int" where
  "content_length d = (if header d ''content-length'' = [] then Inr 0 else int_text (header d ''content-length''))"

record http_env =
  he_token :: "string option"
  he_fresh :: string
  he_invalid :: "string \<Rightarrow> string"

definition is_ascii :: "string \<Rightarrow> bool" where
  "is_ascii s \<longleftrightarrow> list_all (\<lambda>c. (of_char c :: nat) < 128) s"

text \<open>\<open>hmac.compare_digest\<close> of texts.\<close>

definition compare_digest :: "string \<Rightarrow> string \<Rightarrow> py_error + bool" where
  "compare_digest a b = (if is_ascii a \<and> is_ascii b then Inr (a = b)
     else Inl (TypeError ''comparing strings with non-ASCII characters is not supported''))"

text \<open>\<open>reject\<close>: why a request is refused before its body is read.\<close>

definition known_paths :: "string list" where
  "known_paths = [''/v1/call'', ''/v1/cancel'', ''/v1/shutdown'']"

definition authorized :: "http_env \<Rightarrow> (string, string) dict \<Rightarrow> py_error + bool" where
  "authorized e d = (case he_token e of None \<Rightarrow> Inr True
     | Some token \<Rightarrow> compare_digest (header d ''authorization'') (''Bearer '' @ token))"

definition reject :: "http_env \<Rightarrow> string \<Rightarrow> string \<Rightarrow> (string, string) dict \<Rightarrow> py_error + (nat \<times> call_response) option" where
  "reject e verb path d =
     (if path \<notin> set known_paths then Inr (Some (404, error_response (''no route '' @ verb @ '' '' @ path)))
      else if verb \<noteq> ''POST'' then Inr (Some (405, error_response ''use POST''))
      else try_bind (authorized e d) (\<lambda>ok.
        if \<not> ok then Inr (Some (401, error_response ''bad or missing bearer token''))
        else try_bind (content_length d) (\<lambda>n.
          if n > max_body then Inr (Some (413, error_response ''body too large'')) else Inr None)))"

text \<open>What a request comes to: an answer of the host's own (and whether the connection closes), a call, a cancel, the
  shutdown, or an exception that ends the connection without an answer.\<close>

datatype handled =
    Answered nat call_response bool
  | DoCall call_request bool
  | DoCancel string bool
  | DoShutdown
  | Dropped py_error

definition malformed :: "string \<Rightarrow> handled" where
  "malformed why = Answered 400 (error_response (''malformed request: '' @ why)) True"

text \<open>\<open>readexactly\<close> of what is left of the stream.\<close>

definition read_exactly :: "int \<Rightarrow> string \<Rightarrow> string + string \<times> string" where
  "read_exactly n s = (if n < 0 then Inl ''readexactly size can not be less than zero''
     else if length s < nat n then Inl (nat_str (length s) @ '' bytes read on a total of '' @ int_str n @ '' expected bytes'')
     else Inr (take (nat n) s, drop (nat n) s))"

definition act_on :: "http_env \<Rightarrow> string \<Rightarrow> bool \<Rightarrow> string \<Rightarrow> handled" where
  "act_on e path close body =
     (if path = ''/v1/cancel'' then (case read_cancel_request body of
          None \<Rightarrow> Answered 400 (error_response (''bad cancel request: '' @ he_invalid e body)) close
        | Some i \<Rightarrow> DoCancel i close)
      else if path = ''/v1/shutdown'' then DoShutdown
      else (case read_call_request (he_fresh e) body of
          None \<Rightarrow> Answered 400 (error_response (''bad call request: '' @ he_invalid e body)) close
        | Some r \<Rightarrow> DoCall r close))"

definition closes :: "string \<Rightarrow> (string, string) dict \<Rightarrow> bool" where
  "closes version d \<longleftrightarrow> version \<noteq> ''HTTP/1.1'' \<or> lower (header d ''connection'') = ''close''"

definition handle_request :: "http_env \<Rightarrow> string \<Rightarrow> string \<Rightarrow> handled \<times> string" where
  "handle_request e head rest = (let lines = split_crlf head in
     case request_line (hd lines) of
       Inl x \<Rightarrow> (malformed (err_str x), rest)
     | Inr (verb, target, version) \<Rightarrow>
         (let d = read_headers (tl lines) []; path = takeWhile (\<lambda>c. c \<noteq> CHR ''?'') target in
          case reject e verb path d of
            Inl (ValueError m) \<Rightarrow> (malformed m, rest)
          | Inl x \<Rightarrow> (Dropped x, rest)
          | Inr (Some (status, response)) \<Rightarrow> (Answered status response True, rest)
          | Inr None \<Rightarrow> (case content_length d of
                Inl x \<Rightarrow> (malformed (err_str x), rest)
              | Inr n \<Rightarrow> (case read_exactly n rest of
                    Inl why \<Rightarrow> (malformed why, rest)
                  | Inr (body, rest) \<Rightarrow> (act_on e path (closes version d) body, rest)))))"

fun handled_closes :: "handled \<Rightarrow> bool" where
  "handled_closes (Answered _ _ close) = close"
| "handled_closes (DoCall _ close) = close"
| "handled_closes (DoCancel _ close) = close"
| "handled_closes _ = True"

section \<open>A connection\<close>

lemma until_blank_rest: "until_blank s = Some (head, rest) \<Longrightarrow> s = head @ rest \<and> length rest < length s"
proof (induction s arbitrary: head)
  case (Cons c cs)
  show ?case
  proof (cases "take 4 (c # cs) = crlf @ crlf")
    case True
    then have "head = take 4 (c # cs)" "rest = drop 4 (c # cs)" using Cons.prems by auto
    then show ?thesis by (metis append_take_drop_id drop_Suc_Cons length_Cons length_drop less_Suc_eq_le diff_le_self numeral_eq_Suc)
  next
    case False
    then obtain h where "until_blank cs = Some (h, rest)" "head = c # h" using Cons.prems by auto
    with Cons.IH show ?thesis by auto
  qed
qed simp

lemma handle_request_rest: "length (snd (handle_request e head rest)) \<le> length rest"
  by (auto simp: handle_request_def read_exactly_def Let_def split: sum.split option.split prod.split py_error.split)

text \<open>\<open>connection\<close>: the requests of a stream in turn, until one closes it or its end.\<close>

function serve_stream :: "http_env \<Rightarrow> string \<Rightarrow> handled list" where
  "serve_stream e s = (case until_blank s of
      None \<Rightarrow> (if s = [] then []
        else if length s > head_limit + 3 then [Answered 400 (error_response ''head too large'') True]
        else [Answered 400 (error_response ''truncated'') True])
    | Some (head, rest) \<Rightarrow> (if length head > head_limit + 4 then [Answered 400 (error_response ''head too large'') True]
        else (let (h, rest) = handle_request e head rest in h # (if handled_closes h then [] else serve_stream e rest))))"
  by pat_completeness auto
termination
proof (relation "measure (\<lambda>(e, s). length s)", goal_cases)
  case (2 e s p head rest q h rest')
  then have "length rest < length s" using until_blank_rest by blast
  moreover have "length rest' \<le> length rest" using 2 handle_request_rest [of e head rest] by (metis snd_conv)
  ultimately show ?case by simp
qed simp

declare serve_stream.simps [simp del]

text \<open>\<open>respond\<close>: the text of an answer.\<close>

fun phrase :: "nat \<Rightarrow> string" where
  "phrase n = (if n = 200 then ''OK'' else if n = 400 then ''Bad Request'' else if n = 401 then ''Unauthorized''
     else if n = 404 then ''Not Found'' else if n = 405 then ''Method Not Allowed'' else if n = 409 then ''Conflict''
     else if n = 413 then ''Request Entity Too Large'' else [])"

definition respond :: "(rat \<Rightarrow> string) \<Rightarrow> nat \<Rightarrow> call_response \<Rightarrow> bool \<Rightarrow> string" where
  "respond shw status response close = (let data = json_dumps (response_json shw response) in
     join_with crlf ([''HTTP/1.1 '' @ nat_str status @ '' '' @ phrase status, ''Content-Type: application/json'',
        ''Content-Length: '' @ nat_str (length data)] @ (if close then [''Connection: close''] else [])) @ crlf @ crlf @ data)"

section \<open>Requests are told apart\<close>

lemma until_blank_line: "CHR 0x0D \<notin> set l \<Longrightarrow> until_blank (l @ s) = map_option (\<lambda>(head, rest). (l @ head, rest)) (until_blank s)"
  by (cases "until_blank s"; induction l) (auto simp: crlf_def)

lemma until_blank_break: "c \<noteq> CHR 0x0D \<Longrightarrow> until_blank (crlf @ c # s) = map_option (\<lambda>(head, rest). (crlf @ head, rest)) (until_blank (c # s))"
  by (cases "until_blank (c # s)") (auto simp: crlf_def)

lemma until_blank_end: "until_blank (crlf @ crlf @ s) = Some (crlf @ crlf, s)"
  by (simp add: crlf_def)

definition plain_line :: "string \<Rightarrow> bool" where
  "plain_line l \<longleftrightarrow> l \<noteq> [] \<and> CHR 0x0D \<notin> set l"

lemma until_blank_lines:
  "lines \<noteq> [] \<Longrightarrow> list_all plain_line lines \<Longrightarrow> until_blank (join_with crlf lines @ crlf @ crlf @ s) = Some (join_with crlf lines @ crlf @ crlf, s)"
proof (induction lines rule: induct_list012)
  case (2 l)
  then show ?case by (simp add: plain_line_def until_blank_line until_blank_end)
next
  case (3 l k ls)
  then have l: "CHR 0x0D \<notin> set l" and k: "k \<noteq> []" "CHR 0x0D \<notin> set k" by (auto simp: plain_line_def)
  from k obtain c cs where c: "k = c # cs" "c \<noteq> CHR 0x0D" by (cases k) auto
  have "\<exists>t. join_with crlf (k # ls) = c # t" using c by (cases ls) auto
  then obtain t where t: "join_with crlf (k # ls) = c # t" by blast
  with 3 have "until_blank (c # t @ crlf @ crlf @ s) = Some (c # t @ crlf @ crlf, s)" by simp
  then show ?case using l c(2) t by (simp add: until_blank_line until_blank_break)
qed simp

lemma split_crlf_line: "CHR 0x0D \<notin> set l \<Longrightarrow> split_crlf (l @ crlf @ s) = l # split_crlf s"
proof (induction l)
  case Nil
  then show ?case by (simp add: crlf_def)
next
  case (Cons c l)
  obtain d cs where d: "l @ crlf @ s = d # cs" by (cases "l @ crlf @ s") (auto simp: crlf_def)
  from Cons have "split_crlf (d # cs) = l # split_crlf s" using d by simp
  moreover have "c \<noteq> CHR 0x0D" using Cons.prems by auto
  ultimately show ?case using d by simp
qed

lemma split_crlf_lines:
  "lines \<noteq> [] \<Longrightarrow> list_all plain_line lines \<Longrightarrow> split_crlf (join_with crlf lines @ crlf @ crlf) = lines @ [[], []]"
proof (induction lines rule: induct_list012)
  case (2 l)
  then have "split_crlf (l @ crlf @ crlf) = l # split_crlf crlf" by (intro split_crlf_line) (simp add: plain_line_def)
  then show ?case by (simp add: crlf_def)
next
  case (3 l k ls)
  then have "split_crlf (l @ crlf @ (join_with crlf (k # ls) @ crlf @ crlf)) = l # split_crlf (join_with crlf (k # ls) @ crlf @ crlf)"
    by (intro split_crlf_line) (simp add: plain_line_def)
  with 3 show ?case by simp
qed simp

text \<open>A word has no spaces and no control characters; a text of digits is one.\<close>

definition word_char :: "char \<Rightarrow> bool" where
  "word_char c \<longleftrightarrow> (let n = of_char c :: nat in 33 \<le> n \<and> n \<le> 126)"

lemma word_no_space: "word_char c \<Longrightarrow> \<not> is_py_space c"
  by (simp add: word_char_def is_py_space_def Let_def)

lemma word_no_return: "list_all word_char w \<Longrightarrow> CHR 0x0D \<notin> set w"
  by (auto simp: list_all_iff word_char_def Let_def)

lemma word_ascii: "list_all word_char w \<Longrightarrow> is_ascii w"
  by (auto simp: list_all_iff word_char_def Let_def is_ascii_def)

lemma dropWhile_none: "list_all (\<lambda>c. \<not> P c) w \<Longrightarrow> dropWhile P w = w"
  by (cases w) auto

lemma strip_word: "list_all word_char w \<Longrightarrow> py_strip (CHR '' '' # w) = w" "list_all word_char w \<Longrightarrow> py_strip w = w"
proof -
  assume w: "list_all word_char w"
  then have "list_all (\<lambda>c. \<not> is_py_space c) w" "list_all (\<lambda>c. \<not> is_py_space c) (rev w)"
    by (auto simp: list_all_iff dest: word_no_space)
  moreover have "is_py_space (CHR '' '')" by (simp add: is_py_space_def)
  ultimately show "py_strip (CHR '' '' # w) = w" "py_strip w = w" by (simp_all add: py_strip_def dropWhile_none)
qed

lemma digit_word: "is_digit c \<Longrightarrow> word_char c"
  by (auto simp: is_digit_def word_char_def Let_def)

lemma nat_str_digits: "list_all is_digit (nat_str n)" "nat_str n \<noteq> []"
  by (simp_all add: nat_str_def nat_digits_all)

lemma plain_digits_word: "list_all is_digit w \<Longrightarrow> w \<noteq> [] \<or> b \<Longrightarrow> plain_digits b w = Some w"
  by (induction w arbitrary: b) auto

lemma int_text_nat: "int_text (nat_str n) = Inr (int n)"
proof -
  have d: "list_all is_digit (nat_str n)" "nat_str n \<noteq> []" by (rule nat_str_digits)+
  then have "list_all word_char (nat_str n)" by (auto simp: list_all_iff dest: digit_word)
  moreover obtain c cs where c: "nat_str n = c # cs" using d(2) by (cases "nat_str n") auto
  have "is_digit c" using d(1) c by simp
  then have "c \<noteq> CHR ''-''" "c \<noteq> CHR ''+''" by (auto simp: is_digit_def)
  moreover have "digits_val 0 (nat_str n) = n" by (simp add: nat_str_def digits_val_nat)
  ultimately show ?thesis using plain_digits_word [OF d(1)] d(2) c by (auto simp: int_text_def Let_def strip_word)
qed

text \<open>A call as a client sends it, and the header it comes to.\<close>

definition call_lines :: "string \<Rightarrow> string \<Rightarrow> string list" where
  "call_lines token body = [''POST /v1/call HTTP/1.1'', ''Content-Type: application/json'', ''Authorization: Bearer '' @ token,
     ''Content-Length: '' @ nat_str (length body)]"

definition call_text :: "string \<Rightarrow> call_request \<Rightarrow> string" where
  "call_text token r = (let body = json_dumps (call_request_json r) in join_with crlf (call_lines token body) @ crlf @ crlf @ body)"

definition call_headers :: "string \<Rightarrow> string \<Rightarrow> (string, string) dict" where
  "call_headers token body = [(''content-type'', ''application/json''), (''authorization'', ''Bearer '' @ token),
     (''content-length'', nat_str (length body))]"

lemma header_names: "lower (py_strip ''Content-Type'') = ''content-type''" "lower (py_strip ''Authorization'') = ''authorization''"
  "lower (py_strip ''Content-Length'') = ''content-length''"
  by code_simp+

lemma strip_bearer: "list_all word_char token \<Longrightarrow> token \<noteq> [] \<Longrightarrow> py_strip ('' Bearer '' @ token) = ''Bearer '' @ token"
proof -
  assume w: "list_all word_char token" "token \<noteq> []"
  then obtain t c where t: "token = t @ [c]" by (metis rev_exhaust)
  then have "\<not> is_py_space c" using w by (auto dest: word_no_space)
  then show ?thesis using t by (simp add: py_strip_def is_py_space_def)
qed

lemma call_lines_plain: "list_all word_char token \<Longrightarrow> list_all plain_line (call_lines token body)"
proof -
  assume w: "list_all word_char token"
  have "list_all word_char (nat_str (length body))" using nat_str_digits by (auto simp: list_all_iff dest: digit_word)
  then show ?thesis using w by (auto simp: call_lines_def plain_line_def dest: word_no_return)
qed

lemma read_call_headers:
  assumes "list_all word_char token" "token \<noteq> []"
  shows "read_headers (tl (call_lines token body @ [[], []])) [] = call_headers token body"
proof -
  have "list_all word_char (nat_str (length body))" using nat_str_digits by (auto simp: list_all_iff dest: digit_word)
  then have n: "py_strip ('' '' @ nat_str (length body)) = nat_str (length body)" by (simp add: strip_word)
  have j: "py_strip '' application/json'' = ''application/json''" by code_simp
  show ?thesis using header_names strip_bearer [OF assms] n j
    by (simp add: call_lines_def call_headers_def Let_def)
qed

lemma nat_digits_short: "n < 10 ^ Suc k \<Longrightarrow> length (nat_digits n) \<le> Suc k"
proof (induction k arbitrary: n)
  case 0
  then show ?case by (subst nat_digits.simps) simp
next
  case (Suc k)
  then have "n div 10 < 10 ^ Suc k" by (simp add: less_mult_imp_div_less)
  with Suc.IH show ?case by (subst nat_digits.simps) simp
qed

definition sent_ok :: "call_request \<Rightarrow> bool" where
  "sent_ok r \<longleftrightarrow> json_ok (call_request_json r) \<and> cq_call_id r \<noteq> [] \<and> int (length (json_dumps (call_request_json r))) \<le> max_body"

definition token_ok :: "string \<Rightarrow> bool" where
  "token_ok token \<longleftrightarrow> token \<noteq> [] \<and> list_all word_char token \<and> length token \<le> 4096"

lemma handle_call:
  assumes "he_token e = Some token" "token_ok token" "sent_ok r"
  defines "body \<equiv> json_dumps (call_request_json r)"
  shows "handle_request e (join_with crlf (call_lines token body) @ crlf @ crlf) (body @ rest) = (DoCall r False, rest)"
proof -
  let ?d = "call_headers token body"
  have lines: "split_crlf (join_with crlf (call_lines token body) @ crlf @ crlf) = call_lines token body @ [[], []]"
    using assms(2) by (intro split_crlf_lines call_lines_plain) (simp_all add: token_ok_def call_lines_def)
  have hs: "read_headers (tl (call_lines token body @ [[], []])) [] = ?d"
    using assms(2) by (intro read_call_headers) (simp_all add: token_ok_def)
  have first: "request_line (hd (call_lines token body @ [[], []])) = Inr (''POST'', ''/v1/call'', ''HTTP/1.1'')"
    by (simp add: call_lines_def request_line_def)
  have path: "takeWhile (\<lambda>c. c \<noteq> CHR ''?'') ''/v1/call'' = ''/v1/call''" by simp
  have len: "content_length ?d = Inr (int (length body))"
    using nat_str_digits [of "length body"] by (simp add: content_length_def header_def call_headers_def int_text_nat or_else_def)
  have auth: "authorized e ?d = Inr True"
    using assms(1,2) word_ascii [of token]
    by (simp add: authorized_def compare_digest_def header_def call_headers_def token_ok_def is_ascii_def or_else_def)
  have rej: "reject e ''POST'' ''/v1/call'' ?d = Inr None"
    using assms(3) auth len by (simp add: reject_def known_paths_def sent_ok_def body_def)
  have ex: "read_exactly (int (length body)) (body @ rest) = Inr (body, rest)" by (simp add: read_exactly_def)
  have "closes ''HTTP/1.1'' ?d = False" by (simp add: closes_def header_def call_headers_def lower_def or_else_def)
  moreover have "read_call_request (he_fresh e) body = Some r"
    unfolding body_def using assms(3) by (intro read_request_json) (simp_all add: sent_ok_def)
  ultimately have "act_on e ''/v1/call'' (closes ''HTTP/1.1'' ?d) body = DoCall r False" by (simp add: act_on_def)
  then show ?thesis unfolding handle_request_def Let_def lines first hs
    by (simp only: sum.case prod.case path rej len ex option.case)
qed

lemma serve_next:
  assumes "until_blank s = Some (head, rest)" "length head \<le> head_limit + 4" "handle_request e head rest = (DoCall r False, rest')"
  shows "serve_stream e s = DoCall r False # serve_stream e rest'"
  using assms by (subst serve_stream.simps) simp

lemma serve_call:
  assumes "he_token e = Some token" "token_ok token" "sent_ok r"
  shows "serve_stream e (call_text token r @ s) = DoCall r False # serve_stream e s"
proof -
  define body where "body = json_dumps (call_request_json r)"
  let ?head = "join_with crlf (call_lines token body) @ crlf @ crlf"
  have t: "call_text token r @ s = ?head @ body @ s" by (simp add: call_text_def body_def Let_def)
  have u: "until_blank (?head @ body @ s) = Some (?head, body @ s)"
  proof -
    have "call_lines token body \<noteq> []" "list_all plain_line (call_lines token body)"
      using assms(2) call_lines_plain by (auto simp: token_ok_def call_lines_def)
    from until_blank_lines [OF this, of "body @ s"] show ?thesis by (simp only: append_assoc)
  qed
  have "length (nat_str (length body)) \<le> Suc 10"
    using assms(3) by (intro nat_digits_short [of "length body" 10, folded nat_str_def]) (simp add: sent_ok_def body_def max_body_def)
  then have "length ?head \<le> head_limit + 4"
    using assms(2) by (simp add: call_lines_def crlf_def head_limit_def token_ok_def)
  moreover have "handle_request e ?head (body @ s) = (DoCall r False, s)"
    unfolding body_def by (rule handle_call) (rule assms)+
  ultimately show ?thesis unfolding t by (rule serve_next [OF u])
qed

text \<open>C25. Requests on one connection are told apart: calls sent one after another, whatever their arguments hold, are
  the calls the host acts on, each whole, in their order and nothing between them.
\<close>

theorem keep_alive_framing:
  assumes "he_token e = Some token" "token_ok token" "list_all sent_ok rs"
  shows "serve_stream e (concat (map (call_text token) rs)) = map (\<lambda>r. DoCall r False) rs"
  using assms(3)
proof (induction rs)
  case Nil
  then show ?case by (simp add: serve_stream.simps)
next
  case (Cons r rs)
  then show ?case using serve_call [OF assms(1,2), of r] by simp
qed

section \<open>Who may be heard\<close>

fun acts :: "handled \<Rightarrow> bool" where
  "acts (DoCall _ _) = True"
| "acts (DoCancel _ _) = True"
| "acts DoShutdown = True"
| "acts _ = False"

definition head_of :: "string \<Rightarrow> (string, string) dict" where
  "head_of head = read_headers (tl (split_crlf head)) []"

definition heard :: "string \<Rightarrow> string \<Rightarrow> bool" where
  "heard token s \<longleftrightarrow> (\<exists>before head body after. s = before @ head @ body @ after
     \<and> header (head_of head) ''authorization'' = ''Bearer '' @ token
     \<and> content_length (head_of head) = Inr (int (length body)) \<and> int (length body) \<le> max_body)"

lemma heard_later: "heard token s \<Longrightarrow> heard token (t @ s)"
  unfolding heard_def by (metis append_assoc)

lemma handle_acts:
  assumes "he_token e = Some token" "handle_request e head rest = (h, rest')" "acts h"
  shows "\<exists>body. rest = body @ rest' \<and> header (head_of head) ''authorization'' = ''Bearer '' @ token
    \<and> content_length (head_of head) = Inr (int (length body)) \<and> int (length body) \<le> max_body"
proof -
  obtain verb target version where l: "request_line (hd (split_crlf head)) = Inr (verb, target, version)"
    using assms(2,3) by (cases "request_line (hd (split_crlf head))") (auto simp: handle_request_def Let_def malformed_def)
  let ?path = "takeWhile (\<lambda>c. c \<noteq> CHR ''?'') target"
  have r: "reject e verb ?path (head_of head) = Inr None"
    using assms(2,3) l by (auto simp: handle_request_def Let_def malformed_def head_of_def split: sum.splits option.splits py_error.splits)
  obtain n where n: "content_length (head_of head) = Inr n" "n \<le> max_body" "authorized e (head_of head) = Inr True"
    using r by (auto simp: reject_def try_bind_Inr split: if_splits)
  obtain body where b: "read_exactly n rest = Inr (body, rest')"
    using assms(2,3) l r n(1) by (auto simp: handle_request_def Let_def malformed_def head_of_def split: sum.splits)
  then have "rest = body @ rest'" "n = int (length body)"
    by (auto simp: read_exactly_def split: if_splits)
  moreover have "header (head_of head) ''authorization'' = ''Bearer '' @ token"
    using n(3) assms(1) by (auto simp: authorized_def compare_digest_def split: if_splits)
  ultimately show ?thesis using n by auto
qed


text \<open>Two calls on one connection.\<close>

definition ping_call :: call_request where
  "ping_call = \<lparr>cq_service = ''s'', cq_key = ''k'', cq_method = ''ping'', cq_init = [], cq_args = [(''text'', JStr (crlf @ crlf))], cq_call_id = ''a''\<rparr>"

definition ping_env :: http_env where
  "ping_env = \<lparr>he_token = Some ''secret'', he_fresh = ''f'', he_invalid = (\<lambda>_. [])\<rparr>"

lemma ping_ok: "he_token ping_env = Some ''secret''" "token_ok ''secret''" "list_all sent_ok [ping_call, ping_call]"
  by (simp_all add: ping_env_def token_ok_def word_char_def sent_ok_def ping_call_def call_request_json_def max_body_def crlf_def
    dumps_str_def esc_char_def hex_char_def Let_def)

lemma keep_alive_framing_witness:
  "serve_stream ping_env (concat (map (call_text ''secret'') [ping_call, ping_call])) = [DoCall ping_call False, DoCall ping_call False]"
  using keep_alive_framing [OF ping_ok] by simp


end
