(* ===== verification/Host_Workers.thy ===== *)
theory Host_Workers
  imports Host_Protocol
begin

text \<open>
  Services placed in worker processes (\<open>actant/sandbox/processes.py\<close>, and \<open>actant/sandbox/worker.py\<close> for what a
  worker does with a message): the frames on the socket, the slots and the keys dealt to them, a worker's
  calls in flight, and the functions a worker runs on the host. Pickle, the process and its socket are
  parameters or events; the host's side is one event loop, so what happens between two awaits is one step.
\<close>

section \<open>Frames\<close>

datatype message_kind = KindCall | KindCancel | KindDone | KindAsk | KindAnswer

text \<open>\<open>struct.Struct("!Q")\<close>: eight bytes, the most significant first.\<close>

fun big_endian :: "nat \<Rightarrow> nat \<Rightarrow> string" where
  "big_endian 0 n = []"
| "big_endian (Suc k) n = big_endian k (n div 256) @ [char_of (n mod 256)]"

definition read_size :: "string \<Rightarrow> nat" where
  "read_size bs = foldl (\<lambda>n b. n * 256 + of_char b) 0 bs"

text \<open>\<open>pk_dumps\<close> and \<open>pk_loads\<close> are pickle's.\<close>

record 'a pickle =
  pk_dumps :: "'a \<Rightarrow> py_error + string"
  pk_loads :: "string \<Rightarrow> py_error + 'a"

definition frame :: "(message_kind \<times> nat \<times> 'a) pickle \<Rightarrow> message_kind \<Rightarrow> nat \<Rightarrow> 'a \<Rightarrow> py_error + string" where
  "frame p kind number payload = try_bind (pk_dumps p (kind, number, payload)) (\<lambda>data.
     if length data \<ge> 2 ^ 64 then Inl (OtherException ''struct.error'' ''argument out of range'')
     else Inr (big_endian 8 (length data) @ data))"

text \<open>\<open>receive\<close>: what the next frame holds, and the rest; \<open>None\<close> is a stream that ends before the frame does.\<close>

definition receive :: "(message_kind \<times> nat \<times> 'a) pickle \<Rightarrow> string \<Rightarrow> (py_error + (message_kind \<times> nat \<times> 'a) \<times> string) option" where
  "receive p s = (if length s < 8 then None
     else let n = read_size (take 8 s); more = drop 8 s in
       if length more < n then None
       else Some (try_bind (pk_loads p (take n more)) (\<lambda>m. Inr (m, drop n more))))"

lemma big_endian_length [simp]: "length (big_endian k n) = k"
  by (induction k arbitrary: n) simp_all

lemma read_big_endian: "n < 256 ^ k \<Longrightarrow> read_size (big_endian k n) = n"
proof (induction k arbitrary: n)
  case 0
  then show ?case by (simp add: read_size_def)
next
  case (Suc k)
  then have "n div 256 < 256 ^ k" by (simp add: less_mult_imp_div_less mult.commute)
  with Suc.IH [of "n div 256"] show ?case by (simp add: read_size_def)
qed

fun receive_all :: "nat \<Rightarrow> (message_kind \<times> nat \<times> 'a) pickle \<Rightarrow> string \<Rightarrow> (message_kind \<times> nat \<times> 'a) list" where
  "receive_all 0 p s = []"
| "receive_all (Suc fuel) p s = (case receive p s of Some (Inr (m, rest)) \<Rightarrow> m # receive_all fuel p rest | _ \<Rightarrow> [])"

lemma receive_frame:
  assumes "frame p kind number payload = Inr bytes"
    and "\<And>m data. pk_dumps p m = Inr data \<Longrightarrow> pk_loads p data = Inr m"
  shows "receive p (bytes @ rest) = Some (Inr ((kind, number, payload), rest))"
proof -
  from assms(1) obtain data where d: "pk_dumps p (kind, number, payload) = Inr data" "bytes = big_endian 8 (length data) @ data"
    "length data < 2 ^ 64" by (auto simp: frame_def try_bind_Inr split: if_splits)
  have "(2 :: nat) ^ 64 = 256 ^ 8" by simp
  then have "read_size (big_endian 8 (length data)) = length data" using d(3) by (intro read_big_endian) simp
  then show ?thesis using d assms(2) [OF d(1)] by (simp add: receive_def Let_def)
qed

text \<open>Frames written one after another are read back one by one.\<close>

lemma frames_read_back:
  assumes "\<And>m data. pk_dumps p m = Inr data \<Longrightarrow> pk_loads p data = Inr m"
  shows "list_all2 (\<lambda>(kind, number, payload) bytes. frame p kind number payload = Inr bytes) ms frames \<Longrightarrow>
    receive_all (length ms) p (concat frames) = ms"
proof (induction rule: list_all2_induct)
  case (Cons m ms b bs)
  obtain kind number payload where m: "m = (kind, number, payload)" by (cases m)
  then have "receive p (b @ concat bs) = Some (Inr (m, concat bs))" using Cons.hyps(1) receive_frame [OF _ assms] by auto
  with Cons show ?case by simp
qed simp

text \<open>An outcome's frame: one that does not survive pickling goes as its error's text. \<open>text_of\<close> is the payload of
  a \<open>RuntimeError\<close>; \<open>describe\<close> the type and text of a value that is an exception.\<close>

definition answer_frame :: "(message_kind \<times> nat \<times> 'a) pickle \<Rightarrow> (bool \<Rightarrow> 'v \<Rightarrow> 'a) \<Rightarrow> (string \<Rightarrow> 'v) \<Rightarrow> ('v \<Rightarrow> string) \<Rightarrow> nat \<Rightarrow> bool \<Rightarrow> 'v
    \<Rightarrow> py_error + string" where
  "answer_frame p pack text_of describe number ok v =
     (case try_bind (frame p KindAnswer number (pack ok v)) (\<lambda>data.
        if ok then Inr data else try_bind (pk_loads p (drop 8 data)) (\<lambda>_. Inr data)) of
       Inr data \<Rightarrow> Inr data
     | Inl x \<Rightarrow> (if is_exception x then frame p KindAnswer number
           (pack False (text_of (if ok then err_type x @ '': '' @ err_str x else describe v))) else Inl x))"

section \<open>Slots and keys\<close>

definition starts_max :: nat where
  "starts_max = 2"

text \<open>A slot's worker: none yet, being started, not started (by its error), or started and alive or gone.\<close>

datatype start_state = NoWorker | Starting | NotStarted py_error | Serving nat | Gone nat

record worker_slot =
  sl_starts :: nat
  sl_current :: start_state

record workers =
  wk_slots :: "worker_slot list"
  wk_keys :: "(string, nat) dict"

definition new_workers :: "nat \<Rightarrow> workers" where
  "new_workers processes = \<lparr>wk_slots = replicate processes \<lparr>sl_starts = 0, sl_current = NoWorker\<rparr>, wk_keys = []\<rparr>"

fun spent :: "start_state \<Rightarrow> bool" where
  "spent Starting = False"
| "spent (Serving _) = False"
| "spent _ = True"

definition deal_slot :: "string \<Rightarrow> workers \<Rightarrow> nat \<times> workers" where
  "deal_slot key w = (case dget (wk_keys w) key of
      Some n \<Rightarrow> (n, w)
    | None \<Rightarrow> (let n = length (wk_keys w) mod length (wk_slots w) in (n, w\<lparr>wk_keys := dset key n (wk_keys w)\<rparr>)))"

text \<open>What a call finds at its slot: nothing more to start, so the host runs it; or a worker to wait for.\<close>

datatype asked_worker = HostRuns | WaitsForStart

definition ask_worker :: "worker_slot \<Rightarrow> asked_worker \<times> worker_slot" where
  "ask_worker sl = (if spent (sl_current sl)
     then (if sl_starts sl \<ge> starts_max then (HostRuns, sl)
           else (WaitsForStart, \<lparr>sl_starts = Suc (sl_starts sl), sl_current = Starting\<rparr>))
     else (WaitsForStart, sl))"

text \<open>What the wait for the start gives: the worker; the host runs the call when the process could not be started;
  any other error goes on.\<close>

definition started_worker :: "(py_error \<Rightarrow> bool) \<Rightarrow> start_state \<Rightarrow> py_error + nat option" where
  "started_worker os_error st = (case st of
      Serving i \<Rightarrow> Inr (Some i) | Gone i \<Rightarrow> Inr (Some i)
    | NotStarted x \<Rightarrow> (if os_error x then Inr None else Inl x)
    | _ \<Rightarrow> Inr None)"

datatype slot_event = Asked string | Started nat nat | StartFails nat py_error | Exits nat

definition set_slot :: "nat \<Rightarrow> start_state \<Rightarrow> workers \<Rightarrow> workers" where
  "set_slot n st w = w\<lparr>wk_slots := (wk_slots w)[n := (wk_slots w ! n)\<lparr>sl_current := st\<rparr>]\<rparr>"

fun slot_step :: "slot_event \<Rightarrow> workers \<Rightarrow> workers option" where
  "slot_step (Asked key) w = (if wk_slots w = [] then None else (let (n, w) = deal_slot key w in
     Some (w\<lparr>wk_slots := (wk_slots w)[n := snd (ask_worker (wk_slots w ! n))]\<rparr>)))"
| "slot_step (Started n i) w = (if n < length (wk_slots w) \<and> sl_current (wk_slots w ! n) = Starting then Some (set_slot n (Serving i) w) else None)"
| "slot_step (StartFails n x) w = (if n < length (wk_slots w) \<and> sl_current (wk_slots w ! n) = Starting then Some (set_slot n (NotStarted x) w) else None)"
| "slot_step (Exits n) w = (if n < length (wk_slots w) then (case sl_current (wk_slots w ! n) of
     Serving i \<Rightarrow> Some (set_slot n (Gone i) w) | _ \<Rightarrow> None) else None)"

fun slot_run :: "slot_event list \<Rightarrow> workers \<Rightarrow> workers option" where
  "slot_run [] w = Some w"
| "slot_run (e # es) w = Option.bind (slot_step e w) (slot_run es)"

text \<open>The keys, in the order they were first asked for, are dealt to the slots in turn.\<close>

definition dealt :: "workers \<Rightarrow> bool" where
  "dealt w \<longleftrightarrow> wf_dict (wk_keys w) \<and> map snd (wk_keys w) = map (\<lambda>i. i mod length (wk_slots w)) [0..<length (wk_keys w)]
     \<and> list_all (\<lambda>sl. sl_starts sl \<le> starts_max) (wk_slots w)"

definition keys_of_slot :: "workers \<Rightarrow> nat \<Rightarrow> string list" where
  "keys_of_slot w n = map fst (filter (\<lambda>e. snd e = n) (wk_keys w))"

lemma dealt_keys_update:
  assumes "dealt w" "dget (wk_keys w) key = None"
  shows "dealt (w\<lparr>wk_keys := dset key (length (wk_keys w) mod length (wk_slots w)) (wk_keys w)\<rparr>)"
proof -
  have "key \<notin> set (dkeys (wk_keys w))" using assms(2) by (simp add: map_of_eq_None_iff)
  then show ?thesis using assms(1) by (auto simp: dealt_def dset_new wf_dict_def)
qed

lemma starts_update:
  "list_all (\<lambda>sl. sl_starts sl \<le> starts_max) slots \<Longrightarrow> sl_starts x \<le> starts_max \<Longrightarrow> list_all (\<lambda>sl. sl_starts sl \<le> starts_max) (slots[n := x])"
  by (auto simp: list_all_iff dest: in_set_conv_nth [THEN iffD1] set_update_subset_insert [THEN subsetD])

lemma starts_nth: "list_all (\<lambda>sl. sl_starts sl \<le> starts_max) slots \<Longrightarrow> n < length slots \<Longrightarrow> sl_starts (slots ! n) \<le> starts_max"
  by (simp add: list_all_length)

lemma ask_worker_starts: "sl_starts sl \<le> starts_max \<Longrightarrow> sl_starts (snd (ask_worker sl)) \<le> starts_max"
  by (simp add: ask_worker_def starts_max_def)

lemma deal_slot_dealt:
  assumes "dealt w" "deal_slot key w = (n, w')" "wk_slots w \<noteq> []"
  shows "dealt w'" "n < length (wk_slots w')" "wk_slots w' = wk_slots w"
proof -
  show "wk_slots w' = wk_slots w" using assms(2) by (auto simp: deal_slot_def Let_def split: option.splits)
  show "dealt w'" using assms dealt_keys_update [OF assms(1)] by (auto simp: deal_slot_def Let_def split: option.splits)
  show "n < length (wk_slots w')"
  proof (cases "dget (wk_keys w) key")
    case None
    then show ?thesis using assms(2,3) by (auto simp: deal_slot_def Let_def)
  next
    case (Some m)
    then have "m \<in> set (map snd (wk_keys w))" by (force dest: map_of_SomeD)
    then have "m \<in> set (map (\<lambda>i. i mod length (wk_slots w)) [0..<length (wk_keys w)])" using assms(1) by (simp only: dealt_def)
    then have "m < length (wk_slots w)" using assms(3) by auto
    then show ?thesis using Some assms(2) by (auto simp: deal_slot_def)
  qed
qed

lemma dealt_slots:
  assumes "dealt w" "list_all (\<lambda>sl. sl_starts sl \<le> starts_max) slots" "length slots = length (wk_slots w)"
  shows "dealt (w\<lparr>wk_slots := slots\<rparr>)"
  using assms by (simp add: dealt_def)

lemma dealt_set_slot: "dealt w \<Longrightarrow> n < length (wk_slots w) \<Longrightarrow> dealt (set_slot n st w)"
  unfolding set_slot_def by (rule dealt_slots) (auto simp: dealt_def intro!: starts_update dest: starts_nth)

lemma dealt_step: "slot_step e w = Some w' \<Longrightarrow> dealt w \<Longrightarrow> dealt w'"
proof (cases e)
  case (Asked key)
  assume s: "slot_step e w = Some w'" and d: "dealt w"
  obtain n v where v: "deal_slot key w = (n, v)" by fastforce
  with s Asked have w': "wk_slots w \<noteq> []" "w' = v\<lparr>wk_slots := (wk_slots v)[n := snd (ask_worker (wk_slots v ! n))]\<rparr>"
    by (auto split: if_splits)
  note dv = deal_slot_dealt [OF d v w'(1)]
  then show ?thesis unfolding w'(2)
    by (intro dealt_slots) (auto simp: dealt_def intro!: starts_update ask_worker_starts dest: starts_nth)
qed (auto split: if_splits start_state.splits intro: dealt_set_slot)

lemma count_dealt: "N > 0 \<Longrightarrow> r < N \<Longrightarrow> length (filter (\<lambda>i. i mod N = r) [0..<L]) = L div N + (if r < L mod N then 1 else 0)"
proof (induction L)
  case (Suc L)
  then show ?case
    by (auto simp: mod_Suc div_Suc)
qed simp

lemma slot_run_dealt: "slot_run es w = Some w' \<Longrightarrow> dealt w \<Longrightarrow> dealt w'"
  by (induction es arbitrary: w) (auto simp: bind_eq_Some_conv intro: dealt_step)

lemma keys_of_slot_length:
  assumes "dealt w"
  shows "length (keys_of_slot w n) = length (filter (\<lambda>i. i mod length (wk_slots w) = n) [0..<length (wk_keys w)])"
proof -
  have "length (keys_of_slot w n) = length (filter (\<lambda>m. m = n) (map snd (wk_keys w)))"
    by (simp add: keys_of_slot_def filter_map comp_def case_prod_beta)
  also have "\<dots> = length (filter (\<lambda>m. m = n) (map (\<lambda>i. i mod length (wk_slots w)) [0..<length (wk_keys w)]))"
    using assms by (simp only: dealt_def)
  finally show ?thesis by (simp add: filter_map comp_def)
qed

text \<open>A key is never dealt again.\<close>

lemma key_kept_step: "slot_step e w = Some w' \<Longrightarrow> dget (wk_keys w) key = Some n \<Longrightarrow> dget (wk_keys w') key = Some n"
  by (cases e) (auto simp: deal_slot_def set_slot_def Let_def split: if_splits option.splits start_state.splits)

lemma key_kept: "slot_run es w = Some w' \<Longrightarrow> dget (wk_keys w) key = Some n \<Longrightarrow> dget (wk_keys w') key = Some n"
  by (induction es arbitrary: w) (auto simp: bind_eq_Some_conv intro: key_kept_step)

lemma slots_step: "slot_step e w = Some w' \<Longrightarrow> length (wk_slots w') = length (wk_slots w)"
  by (cases e) (auto simp: deal_slot_def set_slot_def Let_def split: if_splits option.splits start_state.splits)

lemma slots_run: "slot_run es w = Some w' \<Longrightarrow> length (wk_slots w') = length (wk_slots w)"
  by (induction es arbitrary: w) (auto simp: bind_eq_Some_conv dest: slots_step)

lemma new_workers_dealt: "dealt (new_workers processes)"
  by (simp add: dealt_def new_workers_def list_all_iff)

text \<open>The keys of a placed service are dealt evenly and for good: whatever happens to its workers, no slot
  serves two keys more than another, no slot starts more than two workers, and a key keeps the slot it was dealt.
\<close>

theorem keys_dealt_evenly:
  assumes "slot_run es (new_workers processes) = Some w" "slot_run es' w = Some w'" "n < processes" "m < processes"
  shows "length (keys_of_slot w n) \<le> Suc (length (keys_of_slot w m))
    \<and> sl_starts (wk_slots w ! n) \<le> 2
    \<and> (dget (wk_keys w) key = None \<or> dget (wk_keys w') key = dget (wk_keys w) key)"
proof -
  have d: "dealt w" using assms(1) new_workers_dealt by (rule slot_run_dealt)
  have l: "length (wk_slots w) = processes" using slots_run [OF assms(1)] by (simp add: new_workers_def)
  have "length (keys_of_slot w n) \<le> Suc (length (keys_of_slot w m))"
    using assms(3,4) by (simp add: keys_of_slot_length [OF d] l count_dealt)
  moreover have "sl_starts (wk_slots w ! n) \<le> 2"
    using d assms(3) l starts_nth [of "wk_slots w" n] by (simp add: dealt_def starts_max_def)
  moreover have "dget (wk_keys w) key = None \<or> dget (wk_keys w') key = dget (wk_keys w) key"
    using key_kept [OF assms(2)] by (cases "dget (wk_keys w) key") auto
  ultimately show ?thesis by blast
qed

lemma keys_dealt_evenly_witness:
  "\<exists>w. slot_run [Asked ''a'', StartFails 0 CancelledError, Asked ''b'', Asked ''c'', Asked ''a''] (new_workers 2) = Some w
     \<and> length (keys_of_slot w 0) \<le> Suc (length (keys_of_slot w 1)) \<and> dget (wk_keys w) ''c'' = Some 0 \<and> sl_starts (wk_slots w ! 0) \<le> 2"
proof -
  let ?es = "[Asked ''a'', StartFails 0 CancelledError, Asked ''b'', Asked ''c'', Asked ''a'']"
  have "map_option (\<lambda>w. dget (wk_keys w) ''c'') (slot_run ?es (new_workers 2)) = Some (Some 0)"
    by (simp add: new_workers_def deal_slot_def ask_worker_def set_slot_def starts_max_def numeral_2_eq_2 Let_def)
  then obtain w where w: "slot_run ?es (new_workers 2) = Some w" "dget (wk_keys w) ''c'' = Some 0" by (auto simp del: slot_run.simps)
  from keys_dealt_evenly [OF w(1), of "[]" w 0 1] w show ?thesis by auto
qed

section \<open>A worker's calls in flight\<close>

datatype sent_frame = SentCall nat call_request | SentCancel nat string

text \<open>The calls by their numbers, each with its response once there is one. \<open>wo_alive\<close> falls when the socket ends,
  and the calls left are failed once the process is gone.\<close>

record worker =
  wo_alive :: bool
  wo_next :: nat
  wo_calls :: "(nat, call_response option) dict"
  wo_sent :: "sent_frame list"
  wo_served :: nat

definition new_worker :: worker where
  "new_worker = \<lparr>wo_alive = True, wo_next = 0, wo_calls = [], wo_sent = [], wo_served = 0\<rparr>"

text \<open>\<open>_died\<close>, with the process's exit code if it has one.\<close>

definition died :: "int option \<Rightarrow> call_response" where
  "died code = error_response (''WorkerDied: the process serving this call exited (code '' @ (case code of None \<Rightarrow> ''None'' | Some c \<Rightarrow> int_str c)
     @ '') before it '' @ ''answered; the call may have run in part'')"

text \<open>A call begins, its frame is not written (\<open>ConnectionError\<close>), its response arrives, its caller takes the response
  or is cancelled; the socket ends, the process is gone.\<close>

datatype worker_event =
    CallBegins call_request
  | SendFails nat
  | DoneArrives nat call_response
  | CallTakes nat
  | CallerCancelled nat string
  | SocketEnds
  | ProcessGone "int option"

datatype worker_out = NoOut | Refused call_response | Gave nat call_response

fun fail_waiting :: "call_response \<Rightarrow> nat \<times> call_response option \<Rightarrow> nat \<times> call_response option" where
  "fail_waiting x (n, None) = (n, Some x)"
| "fail_waiting x (n, Some r) = (n, Some r)"

fun worker_step :: "int option \<Rightarrow> worker_event \<Rightarrow> worker \<Rightarrow> (worker_out \<times> worker) option" where
  "worker_step code (CallBegins r) w = Some (if \<not> wo_alive w then (Refused (died code), w)
     else (NoOut, w\<lparr>wo_next := Suc (wo_next w), wo_calls := dset (wo_next w) None (wo_calls w),
            wo_sent := wo_sent w @ [SentCall (wo_next w) r]\<rparr>))"
| "worker_step code (SendFails n) w = (if dget (wo_calls w) n = None then None
     else Some (Gave n (died code), w\<lparr>wo_calls := AList.delete n (wo_calls w)\<rparr>))"
| "worker_step code (DoneArrives n x) w = (if \<not> wo_alive w then None else Some (NoOut, case dget (wo_calls w) n of
       Some None \<Rightarrow> w\<lparr>wo_served := Suc (wo_served w), wo_calls := dset n (Some x) (wo_calls w)\<rparr> | _ \<Rightarrow> w))"
| "worker_step code (CallTakes n) w = (case dget (wo_calls w) n of
       Some (Some x) \<Rightarrow> Some (Gave n x, w\<lparr>wo_calls := AList.delete n (wo_calls w)\<rparr>) | _ \<Rightarrow> None)"
| "worker_step code (CallerCancelled n i) w = (if dget (wo_calls w) n = None then None
     else Some (NoOut, w\<lparr>wo_sent := (if wo_alive w then wo_sent w @ [SentCancel n i] else wo_sent w), wo_calls := AList.delete n (wo_calls w)\<rparr>))"
| "worker_step code SocketEnds w = Some (NoOut, w\<lparr>wo_alive := False\<rparr>)"
| "worker_step code (ProcessGone exit) w = (if wo_alive w then None
     else Some (NoOut, w\<lparr>wo_calls := map (fail_waiting (died exit)) (wo_calls w)\<rparr>))"

text \<open>The events of a list in turn, with what they gave.\<close>

fun worker_run :: "(worker_event \<times> int option) list \<Rightarrow> worker \<Rightarrow> (worker_out list \<times> worker) option" where
  "worker_run [] w = Some ([], w)"
| "worker_run ((e, code) # es) w = (case worker_step code e w of None \<Rightarrow> None
    | Some (x, w) \<Rightarrow> map_option (\<lambda>(xs, w). (x # xs, w)) (worker_run es w))"

definition call_numbers :: "worker \<Rightarrow> nat list" where
  "call_numbers w = List.map_filter (\<lambda>f. case f of SentCall n _ \<Rightarrow> Some n | _ \<Rightarrow> None) (wo_sent w)"

definition given_numbers :: "worker_out list \<Rightarrow> nat list" where
  "given_numbers xs = List.map_filter (\<lambda>x. case x of Gave n _ \<Rightarrow> Some n | _ \<Rightarrow> None) xs"

text \<open>The calls sent are numbered in turn, and a number in flight has been given nothing yet.\<close>

definition in_flight :: "worker \<Rightarrow> nat set" where
  "in_flight w = set (dkeys (wo_calls w))"

definition worker_ok :: "worker_out list \<Rightarrow> worker \<Rightarrow> bool" where
  "worker_ok xs w \<longleftrightarrow> call_numbers w = [0..<wo_next w] \<and> wf_dict (wo_calls w) \<and> distinct (given_numbers xs)
     \<and> (\<forall>n \<in> in_flight w. n < wo_next w \<and> n \<notin> set (given_numbers xs)) \<and> (\<forall>n \<in> set (given_numbers xs). n < wo_next w)"

lemma fst_fail_waiting [simp]: "fst (fail_waiting x e) = fst e"
  by (cases e; cases "snd e") auto

lemma keys_deleted: "fst ` set (AList.delete k d) = fst ` set d - {k}"
  by (induction d) auto

lemma in_flight_simps [simp]:
  "in_flight (w\<lparr>wo_calls := AList.delete n d\<rparr>) = fst ` set d - {n}"
  "in_flight (w\<lparr>wo_sent := fs, wo_calls := AList.delete n d\<rparr>) = fst ` set d - {n}"
  "in_flight (w\<lparr>wo_served := k, wo_calls := dset n v d\<rparr>) = insert n (fst ` set d)"
  "in_flight (w\<lparr>wo_next := k, wo_calls := dset n v d, wo_sent := fs\<rparr>) = insert n (fst ` set d)"
  "in_flight (w\<lparr>wo_calls := map (fail_waiting x) d\<rparr>) = fst ` set d"
  "in_flight (w\<lparr>wo_alive := al\<rparr>) = in_flight w"
  by (simp_all add: in_flight_def dom_update keys_deleted image_image)

lemma in_flight_calls: "fst ` set (wo_calls w) = in_flight w"
  by (simp add: in_flight_def)

lemma in_flight_get: "dget (wo_calls w) n = Some v \<Longrightarrow> n \<in> in_flight w"
  unfolding in_flight_def by (rule dget_Some_key)

lemma numbers_append [simp]:
  "given_numbers (xs @ ys) = given_numbers xs @ given_numbers ys" "given_numbers [] = []"
  "given_numbers (x # ys) = (case x of Gave n _ \<Rightarrow> [n] | _ \<Rightarrow> []) @ given_numbers ys"
  by (simp_all add: given_numbers_def List.map_filter_def split: worker_out.split)

lemma call_numbers_fields [simp]:
  "call_numbers (w\<lparr>wo_calls := d\<rparr>) = call_numbers w" "call_numbers (w\<lparr>wo_alive := al\<rparr>) = call_numbers w"
  "call_numbers (w\<lparr>wo_served := k\<rparr>) = call_numbers w"
  "call_numbers (w\<lparr>wo_sent := wo_sent w @ [SentCancel n i]\<rparr>) = call_numbers w"
  "call_numbers (w\<lparr>wo_served := k, wo_calls := d\<rparr>) = call_numbers w"
  "call_numbers (w\<lparr>wo_sent := wo_sent w @ [SentCancel n i], wo_calls := d\<rparr>) = call_numbers w"
  "call_numbers (w\<lparr>wo_next := k, wo_calls := d, wo_sent := wo_sent w @ [SentCall n r]\<rparr>) = call_numbers w @ [n]"
  by (simp_all add: call_numbers_def List.map_filter_def)

lemma worker_okI:
  assumes "call_numbers w = [0..<wo_next w]" "wf_dict (wo_calls w)" "distinct (given_numbers xs)"
    and "\<And>n. n \<in> in_flight w \<Longrightarrow> n < wo_next w \<and> n \<notin> set (given_numbers xs)" "\<And>n. n \<in> set (given_numbers xs) \<Longrightarrow> n < wo_next w"
  shows "worker_ok xs w"
  using assms by (auto simp: worker_ok_def)

lemma worker_okD:
  assumes "worker_ok xs w"
  shows "call_numbers w = [0..<wo_next w]" "wf_dict (wo_calls w)" "distinct (given_numbers xs)"
    and "n \<in> in_flight w \<Longrightarrow> n < wo_next w" "n \<in> in_flight w \<Longrightarrow> n \<notin> set (given_numbers xs)"
    and "n \<in> set (given_numbers xs) \<Longrightarrow> n < wo_next w"
  using assms by (auto simp: worker_ok_def)

lemma worker_ok_gave:
  assumes "worker_ok xs w" "n \<in> in_flight w"
  shows "worker_ok (xs @ [Gave n r]) (w\<lparr>wo_calls := AList.delete n (wo_calls w)\<rparr>)"
  using worker_okD [OF assms(1)] assms(2)
  by (intro worker_okI) (auto simp: in_flight_calls)

lemma worker_ok_step:
  assumes "worker_step code e w = Some (x, w')" "worker_ok xs w"
  shows "worker_ok (xs @ [x]) w'"
proof (cases e)
  case (CallBegins r)
  show ?thesis
  proof (cases "wo_alive w")
    case True
    then have x: "x = NoOut" "w' = w\<lparr>wo_next := Suc (wo_next w), wo_calls := dset (wo_next w) None (wo_calls w),
            wo_sent := wo_sent w @ [SentCall (wo_next w) r]\<rparr>" using assms(1) CallBegins by simp_all
    then show ?thesis using worker_okD [OF assms(2)]
      by (intro worker_okI) (auto simp: in_flight_calls dest: less_SucI)
  qed (use assms CallBegins in \<open>auto simp: worker_ok_def\<close>)
next
  case (SendFails n)
  then show ?thesis using assms worker_ok_gave [OF assms(2), of n] in_flight_get by (fastforce split: if_splits)
next
  case (CallTakes n)
  then show ?thesis using assms worker_ok_gave [OF assms(2), of n] in_flight_get by (fastforce split: option.splits)
next
  case (DoneArrives n r)
  then show ?thesis using assms worker_okD [OF assms(2)] in_flight_get [of w n]
    by (auto simp: in_flight_calls intro!: worker_okI split: if_splits option.splits)
next
  case (CallerCancelled n i)
  show ?thesis using CallerCancelled assms worker_okD [OF assms(2)]
    by (auto simp: in_flight_calls intro!: worker_okI split: if_splits)
next
  case SocketEnds
  then show ?thesis using assms worker_okD [OF assms(2)] by (auto intro!: worker_okI)
next
  case (ProcessGone exit)
  then have "x = NoOut" "w' = w\<lparr>wo_calls := map (fail_waiting (died exit)) (wo_calls w)\<rparr>" using assms(1) by (auto split: if_splits)
  then show ?thesis using worker_okD [OF assms(2)]
    by (auto simp: in_flight_calls wf_dict_def comp_def intro!: worker_okI)
qed

lemma worker_ok_run: "worker_run es w = Some (ys, w') \<Longrightarrow> worker_ok xs w \<Longrightarrow> worker_ok (xs @ ys) w'"
proof (induction es w arbitrary: ys xs rule: worker_run.induct)
  case (2 e code es w)
  then obtain x v zs where v: "worker_step code e w = Some (x, v)" "worker_run es v = Some (zs, w')" "ys = x # zs"
    by (auto split: option.splits)
  with 2 show ?case using worker_ok_step [OF v(1) "2.prems"(2)] by fastforce
qed simp

text \<open>Once the socket has ended and the process is gone, no call waits.\<close>

definition answered :: "nat \<times> call_response option \<Rightarrow> bool" where
  "answered e \<longleftrightarrow> snd e \<noteq> None"

definition settled :: "worker \<Rightarrow> bool" where
  "settled w \<longleftrightarrow> \<not> wo_alive w \<and> list_all answered (wo_calls w)"

lemma answered_fail [simp]: "answered (fail_waiting x e)"
  by (cases e; cases "snd e") (auto simp: answered_def)

lemma answered_delete: "list_all answered d \<Longrightarrow> list_all answered (AList.delete k d)"
  by (induction d) auto

lemma answered_all_failed: "list_all answered (map (fail_waiting x) d)"
  by (induction d) simp_all

lemma gone_settled: "worker_step code (ProcessGone exit) w = Some (x, w') \<Longrightarrow> settled w'"
  by (auto simp: settled_def answered_all_failed simp del: list.pred_map split: if_splits)

lemma settled_step: "worker_step code e w = Some (x, w') \<Longrightarrow> settled w \<Longrightarrow> settled w' \<and> wo_sent w' = wo_sent w"
  by (cases e) (auto simp: settled_def answered_all_failed answered_delete simp del: list.pred_map split: if_splits option.splits)

lemma settled_run: "worker_run es w = Some (ys, w') \<Longrightarrow> settled w \<Longrightarrow> settled w' \<and> wo_sent w' = wo_sent w"
proof (induction es w arbitrary: ys rule: worker_run.induct)
  case (2 e code es w)
  then obtain x v zs where "worker_step code e w = Some (x, v)" "worker_run es v = Some (zs, w')" by (auto split: option.splits)
  with 2 settled_step [of code e w x v] show ?case by (auto split: option.splits)
qed simp

text \<open>C35. A worker's calls are answered once and sent once: the calls written to a worker's socket have each a number of
  their own, so none is sent again; what is given to a caller is given for a number once; and after the
  worker's process is gone every call in flight has an answer, its own or that the worker died, for its
  caller to take, and nothing is ever sent to that worker again.
\<close>

theorem worker_answers_once:
  assumes "worker_run es new_worker = Some (outs, w)"
  shows "distinct (call_numbers w) \<and> distinct (given_numbers outs)
    \<and> (case worker_step code (ProcessGone exit) w of
         None \<Rightarrow> wo_alive w
       | Some (_, w1) \<Rightarrow> (case worker_run later w1 of
           None \<Rightarrow> True
         | Some (_, w2) \<Rightarrow> wo_sent w2 = wo_sent w1 \<and> (\<forall>n \<in> in_flight w2. \<exists>x. dget (wo_calls w2) n = Some (Some x))))"
proof -
  have "worker_ok [] new_worker" by (simp add: worker_ok_def new_worker_def call_numbers_def List.map_filter_def in_flight_def)
  from worker_ok_run [OF assms this] have ok: "worker_ok outs w" by simp
  have "distinct (call_numbers w)" using worker_okD(1) [OF ok] by simp
  moreover have "distinct (given_numbers outs)" using worker_okD(3) [OF ok] .
  moreover have later: "wo_sent w2 = wo_sent w1 \<and> (\<forall>n \<in> in_flight w2. \<exists>x. dget (wo_calls w2) n = Some (Some x))"
    if "worker_step code (ProcessGone exit) w = Some (x, w1)" "worker_run later w1 = Some (ys, w2)" for x w1 ys w2
  proof -
    have s: "settled w2" "wo_sent w2 = wo_sent w1" using settled_run [OF that(2) gone_settled [OF that(1)]] by auto
    have "\<exists>r. dget (wo_calls w2) n = Some (Some r)" if n: "n \<in> in_flight w2" for n
    proof -
      from n obtain v where v: "dget (wo_calls w2) n = Some v" by (auto simp: in_flight_def dest: weak_map_of_SomeI)
      then have "(n, v) \<in> set (wo_calls w2)" by (rule map_of_SomeD)
      with s(1) v show ?thesis by (auto simp: settled_def list_all_iff answered_def)
    qed
    with s(2) show ?thesis by blast
  qed
  have "case worker_step code (ProcessGone exit) w of
         None \<Rightarrow> wo_alive w
       | Some (_, w1) \<Rightarrow> (case worker_run later w1 of
           None \<Rightarrow> True
         | Some (_, w2) \<Rightarrow> wo_sent w2 = wo_sent w1 \<and> (\<forall>n \<in> in_flight w2. \<exists>x. dget (wo_calls w2) n = Some (Some x)))"
  proof (cases "worker_step code (ProcessGone exit) w")
    case None
    then show ?thesis by (auto split: if_splits)
  next
    case (Some p)
    obtain x w1 where p: "p = (x, w1)" by (cases p)
    show ?thesis
    proof (cases "worker_run later w1")
      case None
      with Some p show ?thesis by (simp del: worker_step.simps)
    next
      case (Some q)
      obtain ys w2 where "q = (ys, w2)" by (cases q)
      with Some \<open>worker_step code (ProcessGone exit) w = Some p\<close> p
      have s: "worker_step code (ProcessGone exit) w = Some (x, w1)" "worker_run later w1 = Some (ys, w2)" by simp_all
      from later [OF s] show ?thesis by (auto simp only: s option.case prod.case)
    qed
  qed
  ultimately show ?thesis by (intro conjI)
qed

definition plain_request :: call_request where
  "plain_request = \<lparr>cq_service = ''s'', cq_key = ''k'', cq_method = ''m'', cq_init = [], cq_args = [], cq_call_id = ''c''\<rparr>"

lemma worker_answers_once_witness:
  "\<exists>outs w w1. worker_run [(CallBegins plain_request, None), (CallBegins plain_request, None), (DoneArrives 0 (text_response ''ok''), None), (CallTakes 0, None), (SocketEnds, None)]
       new_worker = Some (outs, w) \<and> worker_step (Some 1) (ProcessGone (Some 1)) w = Some (NoOut, w1)
     \<and> distinct (given_numbers outs) \<and> dget (wo_calls w1) 1 = Some (Some (died (Some 1)))"
proof -
  let ?es = "[(CallBegins plain_request, None), (CallBegins plain_request, None), (DoneArrives 0 (text_response ''ok''), None), (CallTakes 0, None), (SocketEnds, None)]"
  have "\<exists>outs w. worker_run ?es new_worker = Some (outs, w) \<and> \<not> wo_alive w \<and> dget (wo_calls w) 1 = Some None"
    by (simp add: new_worker_def)
  then obtain outs w where w: "worker_run ?es new_worker = Some (outs, w)" "\<not> wo_alive w" "dget (wo_calls w) 1 = Some None" by blast
  have m: "dget (map (fail_waiting x) d) n = (case dget d n of None \<Rightarrow> None | Some None \<Rightarrow> Some (Some x) | Some (Some y) \<Rightarrow> Some (Some y))" for x d n
    by (induction d) (auto elim!: fail_waiting.elims split: option.split)
  from worker_answers_once [OF w(1), where code = "Some 1" and exit = "Some 1" and later = "[]"] w show ?thesis by (simp add: m)
qed

section \<open>Functions of the host\<close>

text \<open>What a worker asks of the host: the names are of functions marked \<open>@host_function\<close>; importing a function's
  module may mark more. In the host the function runs right there.\<close>

definition host_module :: "string \<Rightarrow> string" where
  "host_module name = takeWhile (\<lambda>c. c \<noteq> CHR '':'') name"

definition not_host_function :: "string \<Rightarrow> py_error" where
  "not_host_function name = TypeError (name @ '' is not a @host_function'')"

definition resolve_host_function :: "(string \<Rightarrow> ('s, unit) act) \<Rightarrow> ('s \<Rightarrow> (string, 'f) dict) \<Rightarrow> string \<Rightarrow> ('s, 'f) act" where
  "resolve_host_function import_module functions name =
     thn (bnd getS (\<lambda>s. if dget (functions s) name = None then import_module (host_module name) else ret ()))
       (bnd getS (\<lambda>s. case dget (functions s) name of None \<Rightarrow> raise (not_host_function name) | Some f \<Rightarrow> ret f))"

text \<open>\<open>on_host\<close>: \<open>marked\<close> says that the function is the one its name stands for; \<open>asks\<close> is the link of a worker.\<close>

definition on_host :: "bool \<Rightarrow> string \<Rightarrow> ('s, 'v) act \<Rightarrow> ('s, 'v) act option \<Rightarrow> ('s, 'v) act" where
  "on_host marked name run_here asks = (if \<not> marked then raise (not_host_function name)
     else case asks of None \<Rightarrow> run_here | Some ask \<Rightarrow> ask)"

text \<open>The questions of a worker in flight, by number: an answer is taken by the one who asked, once.\<close>

record host_link =
  hl_next :: nat
  hl_asked :: "(nat, (bool \<times> string) option) dict"

definition link_ask :: "host_link \<Rightarrow> nat \<times> host_link" where
  "link_ask l = (hl_next l, l\<lparr>hl_next := Suc (hl_next l), hl_asked := dset (hl_next l) None (hl_asked l)\<rparr>)"

definition link_answered :: "nat \<Rightarrow> bool \<times> string \<Rightarrow> host_link \<Rightarrow> host_link" where
  "link_answered n outcome l = (case dget (hl_asked l) n of
      Some None \<Rightarrow> l\<lparr>hl_asked := dset n (Some outcome) (hl_asked l)\<rparr> | _ \<Rightarrow> l)"

definition link_forget :: "nat \<Rightarrow> host_link \<Rightarrow> host_link" where
  "link_forget n l = l\<lparr>hl_asked := AList.delete n (hl_asked l)\<rparr>"

lemma first_answer_stays: "dget (hl_asked l) n = Some (Some x) \<Longrightarrow> link_answered n y l = l"
  by (simp add: link_answered_def)

section \<open>What a worker does with a message\<close>

datatype worker_action = GiveAnswer nat bool string | RunCall nat call_request | StopCall string | BadMessage

datatype worker_payload = PayloadRequest call_request | PayloadId string | PayloadOutcome bool string | PayloadOther

definition worker_action_of :: "message_kind \<Rightarrow> nat \<Rightarrow> worker_payload \<Rightarrow> worker_action" where
  "worker_action_of k number payload = (case k of
      KindAnswer \<Rightarrow> (case payload of PayloadOutcome ok v \<Rightarrow> GiveAnswer number ok v | _ \<Rightarrow> BadMessage)
    | KindCall \<Rightarrow> (case payload of PayloadRequest r \<Rightarrow> RunCall number r | _ \<Rightarrow> BadMessage)
    | KindCancel \<Rightarrow> (case payload of PayloadId i \<Rightarrow> StopCall i | _ \<Rightarrow> BadMessage)
    | _ \<Rightarrow> BadMessage)"

end
