(* ===== verification/Service_Client.thy ===== *)
theory Service_Client
  imports Host_Protocol Tool_Types Json_Round_Trip
begin

text \<open>
  The calls of a service from where the agents run (\<open>actant/sandbox/service.py\<close>: the runners and the HTTP call
  they make) and the tools made of a service (\<open>actant/tools/service.py\<close>: a response as a tool's result, its
  images stored). The HTTP client, the sandbox's endpoint, the asset store, pydantic's validation and the
  hash are parameters; what the client is asked to send is noted in the state.
\<close>

section \<open>A call over HTTP\<close>

record endpoint =
  ep_url :: string
  ep_headers :: "(string, string) dict"

record host_post =
  hp_url :: string
  hp_headers :: "(string, string) dict"
  hp_body :: json

record 'w client =
  hc_sent :: "host_post list"
  hc_world :: 'w

text \<open>\<open>ce_reply\<close> is what a post gets within its time, a status and a body, or the exception it raises;
  \<open>ce_transport\<close> tells an \<open>OSError\<close> (a timeout is one) or an \<open>httpx.HTTPError\<close>, and \<open>ce_float\<close> reads a float.\<close>

record 'w client_env =
  ce_reply :: "host_post \<Rightarrow> rat \<Rightarrow> 'w \<Rightarrow> (py_error + int \<times> string) \<times> 'w"
  ce_transport :: "py_error \<Rightarrow> bool"
  ce_float :: "string \<Rightarrow> rat"

definition cancel_send_s :: rat where
  "cancel_send_s = 5"

definition send_post :: "'w client_env \<Rightarrow> host_post \<Rightarrow> rat \<Rightarrow> ('w client, int \<times> string) act" where
  "send_post e p timeout c = (let (r, w) = ce_reply e p timeout (hc_world c) in (r, \<lparr>hc_sent = hc_sent c @ [p], hc_world = w\<rparr>))"

definition strip_slashes :: "string \<Rightarrow> string" where
  "strip_slashes u = rev (dropWhile (\<lambda>c. c = CHR ''/'') (rev u))"

definition post_of :: "endpoint \<Rightarrow> route \<Rightarrow> json \<Rightarrow> host_post" where
  "post_of ep r body = \<lparr>hp_url = strip_slashes (ep_url ep) @ route_path r,
     hp_headers = fold (\<lambda>(k, v). dset k v) (ep_headers ep) [(''Content-Type'', ''application/json'')], hp_body = body\<rparr>"

text \<open>A response, as the model declares it; a field that is absent has its default.\<close>

definition opt_string :: "json_obj \<Rightarrow> string \<Rightarrow> string option option" where
  "opt_string d k = (case jget d k JNull of JNull \<Rightarrow> Some None | JStr s \<Rightarrow> Some (Some s) | _ \<Rightarrow> None)"

definition bool_field :: "json_obj \<Rightarrow> string \<Rightarrow> bool option" where
  "bool_field d k = (case jget d k (JBool False) of JBool b \<Rightarrow> Some b | _ \<Rightarrow> None)"

definition read_image :: "json \<Rightarrow> host_image option" where
  "read_image j = (case j of JObj d \<Rightarrow> (case (dget d ''name'', dget d ''media_type'', dget d ''source'', opt_string d ''caption'') of
       (Some (JStr name), Some (JStr media), Some (JObj source), Some caption) \<Rightarrow> (case dget source ''data_b64'' of
           Some (JStr b) \<Rightarrow> Some \<lparr>hi_name = name, hi_media_type = media, hi_data_b64 = b, hi_caption = caption\<rparr> | _ \<Rightarrow> None)
     | _ \<Rightarrow> None) | _ \<Rightarrow> None)"

fun read_all :: "('a \<Rightarrow> 'b option) \<Rightarrow> 'a list \<Rightarrow> 'b list option" where
  "read_all f [] = Some []"
| "read_all f (x # xs) = (case (f x, read_all f xs) of (Some y, Some ys) \<Rightarrow> Some (y # ys) | _ \<Rightarrow> None)"

definition opt_float :: "(string \<Rightarrow> rat) \<Rightarrow> json_obj \<Rightarrow> string \<Rightarrow> rat option option" where
  "opt_float float d k = (case jget d k JNull of
      JNull \<Rightarrow> Some None | JFloat t \<Rightarrow> Some (Some (float t)) | JInt i \<Rightarrow> Some (Some (of_int i)) | _ \<Rightarrow> None)"

definition nat_field :: "json_obj \<Rightarrow> string \<Rightarrow> nat option" where
  "nat_field d k = (case jget d k (JInt 0) of JInt i \<Rightarrow> Some (nat i) | _ \<Rightarrow> None)"

definition read_status :: "(string \<Rightarrow> rat) \<Rightarrow> json \<Rightarrow> storage_status option" where
  "read_status float j = (case j of JObj d \<Rightarrow>
      (case (opt_float float d ''last_attempt_at'', opt_float float d ''last_success_at'', opt_string d ''last_error'',
         nat_field d ''consecutive_failures'', bool_field d ''pending'') of
       (Some attempt, Some success, Some error, Some n, Some pending) \<Rightarrow>
         Some \<lparr>ss_last_attempt_at = attempt, ss_last_success_at = success, ss_last_error = error, ss_consecutive_failures = n,
           ss_pending = pending\<rparr>
     | _ \<Rightarrow> None) | _ \<Rightarrow> None)"

definition opt_storage :: "(string \<Rightarrow> rat) \<Rightarrow> json_obj \<Rightarrow> storage_status option option" where
  "opt_storage float d = (case jget d ''storage'' JNull of JNull \<Rightarrow> Some None | j \<Rightarrow> map_option Some (read_status float j))"

definition response_of :: "(string \<Rightarrow> rat) \<Rightarrow> json \<Rightarrow> call_response option" where
  "response_of float j = (case j of JObj d \<Rightarrow>
      (case (jget d ''text'' (JStr []), case jget d ''images'' (JList []) of JList js \<Rightarrow> read_all read_image js | _ \<Rightarrow> None,
         opt_string d ''error'', bool_field d ''terminal'', opt_storage float d) of
       (JStr text, Some images, Some error, Some terminal, Some storage) \<Rightarrow>
         Some \<lparr>cr_text = text, cr_images = images, cr_error = error, cr_terminal = terminal, cr_storage = storage\<rparr>
     | _ \<Rightarrow> None) | _ \<Rightarrow> None)"

definition read_response :: "(string \<Rightarrow> rat) \<Rightarrow> string \<Rightarrow> call_response option" where
  "read_response float body = (case json_loads body of None \<Rightarrow> None | Some j \<Rightarrow> response_of float j)"

text \<open>\<open>_abandon\<close>: whatever becomes of the cancel, unless the one who waits for it is cancelled too.\<close>

definition abandon :: "'w client_env \<Rightarrow> endpoint \<Rightarrow> string \<Rightarrow> ('w client, unit) act" where
  "abandon e ep i = catch (thn (send_post e (post_of ep RouteCancel (JObj [(''call_id'', JStr i)])) cancel_send_s) (ret ())) (\<lambda>_. ret ())"

text \<open>\<open>_post\<close>: \<open>None\<close> is the status of a call that got no reply. A body is bytes below 256, read as they stand.\<close>

definition post_call :: "'w client_env \<Rightarrow> endpoint \<Rightarrow> call_request \<Rightarrow> rat \<Rightarrow> ('w client, int option \<times> call_response) act" where
  "post_call e ep r timeout c = (case send_post e (post_of ep RouteCall (call_request_json r)) timeout c of
      (Inr (status, body), c') \<Rightarrow> (Inr (Some status, case read_response (ce_float e) body of
          Some response \<Rightarrow> response
        | None \<Rightarrow> error_response (''service host returned HTTP '' @ int_str status @ '': '' @ drop (length body - 1000) body)), c')
    | (Inl x, c') \<Rightarrow> (if \<not> is_exception x then thn (abandon e ep (cq_call_id r)) (raise x) c'
        else if ce_transport e x
          then thn (abandon e ep (cq_call_id r)) (ret (None, error_response (''service host call to '' @ ep_url ep @
            '' failed and may have run: '' @ err_str x))) c'
        else (Inl x, c')))"

section \<open>Runners\<close>

text \<open>\<open>_call\<close>: \<open>fresh\<close> is the id drawn for a call that names none.\<close>

definition call_request_of :: "string \<Rightarrow> string \<Rightarrow> string \<Rightarrow> json_obj \<Rightarrow> string \<Rightarrow> json_obj \<Rightarrow> string option \<Rightarrow> call_request" where
  "call_request_of fresh service key init meth args call_id = \<lparr>cq_service = service, cq_key = key, cq_method = meth, cq_init = init,
     cq_args = args, cq_call_id = (case call_id of None \<Rightarrow> fresh | Some i \<Rightarrow> i)\<rparr>"

definition call_host :: "'w client_env \<Rightarrow> string \<Rightarrow> endpoint \<Rightarrow> string \<Rightarrow> string \<Rightarrow> json_obj \<Rightarrow> string \<Rightarrow> json_obj \<Rightarrow> rat \<Rightarrow> string option
    \<Rightarrow> ('w client, call_response) act" where
  "call_host e fresh ep service meth args key init timeout call_id =
     bnd (post_call e ep (call_request_of fresh service key init meth args call_id) timeout) (\<lambda>(_, response). ret response)"

definition local_runner :: "file_env \<Rightarrow> (py_error \<Rightarrow> string) \<Rightarrow> (string \<Rightarrow> json_obj \<Rightarrow> ('s, service_output) act)
    \<Rightarrow> string \<Rightarrow> json_obj \<Rightarrow> ('s, call_response) act" where
  "local_runner files tail_of run meth args s = (let (r, s') = run meth args s in (call_method_result files tail_of r, s'))"

definition remote_runner :: "'w client_env \<Rightarrow> string \<Rightarrow> endpoint \<Rightarrow> string \<Rightarrow> string \<Rightarrow> json_obj \<Rightarrow> rat \<Rightarrow> string \<Rightarrow> json_obj \<Rightarrow> string option
    \<Rightarrow> ('w client, call_response) act" where
  "remote_runner e fresh ep service key init timeout meth args call_id = call_host e fresh ep service meth args key init timeout call_id"

text \<open>A sandbox gives its host's endpoint, anew when asked to.\<close>

type_synonym 'w endpoint_of = "bool \<Rightarrow> ('w client, endpoint option) act"

definition sandbox_runner :: "'w client_env \<Rightarrow> string \<Rightarrow> string \<Rightarrow> json_obj \<Rightarrow> rat \<Rightarrow> string \<Rightarrow> json_obj \<Rightarrow> string option
    \<Rightarrow> 'w endpoint_of option \<Rightarrow> string option \<Rightarrow> ('w client, call_response) act" where
  "sandbox_runner e fresh service init timeout meth args key sandbox call_id =
     bnd (case sandbox of None \<Rightarrow> ret None | Some endpoint \<Rightarrow> endpoint False) (\<lambda>ep.
     case (sandbox, ep) of
       (Some endpoint, Some ep) \<Rightarrow> (case key of
           None \<Rightarrow> ret (error_response ''SandboxRunner.call needs a key'')
         | Some k \<Rightarrow> (let r = call_request_of fresh service k init meth args call_id in
             bnd (post_call e ep r timeout) (\<lambda>(status, response).
             if status = Some 401
             then bnd (endpoint True) (\<lambda>ep'. case ep' of
                 None \<Rightarrow> raise AssertionError
               | Some ep' \<Rightarrow> bnd (post_call e ep' r timeout) (\<lambda>(_, response). ret response))
             else ret response)))
     | _ \<Rightarrow> ret (error_response ''this sandbox serves no services (SandboxSpec.services)''))"

section \<open>Who gives up on a call says so\<close>

definition cancels :: "endpoint \<Rightarrow> string \<Rightarrow> host_post" where
  "cancels ep i = post_of ep RouteCancel (JObj [(''call_id'', JStr i)])"

definition calls :: "endpoint \<Rightarrow> call_request \<Rightarrow> host_post" where
  "calls ep r = post_of ep RouteCall (call_request_json r)"

lemma abandon_sends: "hc_sent (snd (abandon e ep i c)) = hc_sent c @ [cancels ep i]"
  by (auto simp: abandon_def catch_def thn_def bnd_def ret_def send_post_def cancels_def split: sum.split prod.split)

lemma abandon_then: "hc_sent (snd (thn (abandon e ep i) m c)) =
    (case fst (abandon e ep i c) of Inl _ \<Rightarrow> hc_sent c @ [cancels ep i] | Inr _ \<Rightarrow> hc_sent (snd (m (snd (abandon e ep i c)))))"
  using abandon_sends [of e ep i c] by (auto simp: thn_def bnd_def split: sum.split prod.split)

lemma post_call_sends:
  assumes "post_call e ep r timeout c = (outcome, c')"
  shows "hc_sent c' = hc_sent c @ [calls ep r]
           @ (case outcome of
                Inr (Some _, _) \<Rightarrow> []
              | Inr (None, _) \<Rightarrow> [cancels ep (cq_call_id r)]
              | Inl x \<Rightarrow> if is_exception x then [] else [cancels ep (cq_call_id r)])"
proof -
  obtain reply w where reply: "ce_reply e (calls ep r) timeout (hc_world c) = (reply, w)" by fastforce
  let ?c = "\<lparr>hc_sent = hc_sent c @ [calls ep r], hc_world = w\<rparr>"
  have sent: "send_post e (post_of ep RouteCall (call_request_json r)) timeout c = (reply, ?c)"
    using reply by (simp add: send_post_def calls_def)
  note a = abandon_sends [of e ep "cq_call_id r" ?c]
  obtain b c2 where ab: "abandon e ep (cq_call_id r) ?c = (b, c2)" by fastforce
  have bx: "b = Inl x \<Longrightarrow> \<not> is_exception x" for x
    using ab by (auto simp: abandon_def catch_def thn_def bnd_def ret_def split: sum.splits prod.splits if_splits)
  show ?thesis
    using assms sent a ab bx
    by (auto simp: post_call_def thn_def bnd_def ret_def raise_def split: sum.splits prod.splits if_splits)
qed

text \<open>C36. Who gives up on a call of a service tells the host to stop it: a call is sent once, and when it ends without
  the host's reply, because the connection was lost, the time was over or the caller was cancelled, the
  cancel of that call's id is sent next, to the endpoint the call went to; after a reply nothing more is sent.
\<close>

theorem abandoned_call_is_cancelled:
  assumes "post_call e ep r timeout c = (outcome, c')"
  shows "(case outcome of
        Inr (Some status, response) \<Rightarrow> hc_sent c' = hc_sent c @ [calls ep r]
      | Inr (None, response) \<Rightarrow> cr_error response \<noteq> None \<and> hc_sent c' = hc_sent c @ [calls ep r, cancels ep (cq_call_id r)]
      | Inl x \<Rightarrow> hc_sent c' = (if x = CancelledError then hc_sent c @ [calls ep r, cancels ep (cq_call_id r)] else hc_sent c @ [calls ep r]))"
proof -
  have x: "is_exception x \<longleftrightarrow> x \<noteq> CancelledError" for x by (cases x) simp_all
  have "cr_error response \<noteq> None" if "outcome = Inr (None, response)" for response
    using assms that by (auto simp: post_call_def thn_def bnd_def ret_def raise_def error_response_def split: sum.splits prod.splits if_splits)
  then show ?thesis using post_call_sends [OF assms] by (auto simp: x split: sum.split option.split)
qed

text \<open>A sandbox's runner sends one request, at most twice: the second time when the host refused it unread.\<close>

lemma post_call_sent: "hc_sent (snd (post_call e ep r timeout c)) = hc_sent c @ [calls ep r]
    \<or> hc_sent (snd (post_call e ep r timeout c)) = hc_sent c @ [calls ep r, cancels ep (cq_call_id r)]"
  using post_call_sends [of e ep r timeout c "fst (post_call e ep r timeout c)" "snd (post_call e ep r timeout c)"]
  by (auto split: sum.splits option.splits if_splits)

lemma sandbox_runner_sends:
  assumes "\<And>again d. hc_sent (snd (endpoint again d)) = hc_sent d"
    and r: "r = call_request_of fresh service k init meth args call_id"
  shows "\<exists>sent. hc_sent (snd (sandbox_runner e fresh service init timeout meth args (Some k) (Some endpoint) call_id c)) = hc_sent c @ sent
    \<and> sent \<in> {[]} \<union> {[calls ep r] |ep. True} \<union> {[calls ep r, cancels ep (cq_call_id r)] |ep. True}
        \<union> {[calls ep r, calls ep' r] |ep ep'. True} \<union> {[calls ep r, calls ep' r, cancels ep' (cq_call_id r)] |ep ep'. True}"
proof -
  let ?run = "sandbox_runner e fresh service init timeout meth args (Some k) (Some endpoint) call_id c"
  obtain x c1 where 1: "endpoint False c = (x, c1)" by fastforce
  have c1: "hc_sent c1 = hc_sent c" using assms(1) [of False c] 1 by simp
  show ?thesis
  proof (cases "\<exists>ep. x = Inr (Some ep)")
    case False
    then have "hc_sent (snd ?run) = hc_sent c"
      using 1 c1 by (auto simp: sandbox_runner_def bnd_def ret_def split: sum.split option.split)
    then show ?thesis by (intro exI [of _ "[]"]) simp
  next
    case True
    then obtain ep where ep: "x = Inr (Some ep)" by blast
    obtain y c2 where 2: "post_call e ep r timeout c1 = (y, c2)" by fastforce
    show ?thesis
    proof (cases "\<exists>response. y = Inr (Some 401, response)")
      case False
      then have "snd ?run = c2"
        using 1 2 ep by (auto simp: sandbox_runner_def bnd_def ret_def Let_def r split: sum.split prod.split)
      then show ?thesis using post_call_sent [of e ep r timeout c1] 2 c1 by auto
    next
      case True
      then obtain response where y: "y = Inr (Some 401, response)" by blast
      then have c2: "hc_sent c2 = hc_sent c @ [calls ep r]" using post_call_sends [OF 2] c1 by simp
      obtain z c3 where 3: "endpoint True c2 = (z, c3)" by fastforce
      have c3: "hc_sent c3 = hc_sent c2" using assms(1) [of True c2] 3 by simp
      show ?thesis
      proof (cases "\<exists>ep'. z = Inr (Some ep')")
        case False
        then have "snd ?run = c3"
          using 1 2 3 ep y by (auto simp: sandbox_runner_def bnd_def ret_def raise_def Let_def r split: sum.split option.split)
        then show ?thesis using c2 c3 by auto
      next
        case True
        then obtain ep' where z: "z = Inr (Some ep')" by blast
        then have "snd ?run = snd (post_call e ep' r timeout c3)"
          using 1 2 3 ep y by (auto simp: sandbox_runner_def bnd_def ret_def Let_def r split: sum.split prod.split)
        then show ?thesis using post_call_sent [of e ep' r timeout c3] c2 c3 by auto
      qed
    qed
  qed
qed

section \<open>The wire\<close>

lemma read_all_map: "(\<And>x. x \<in> set xs \<Longrightarrow> f (g x) = Some x) \<Longrightarrow> read_all f (map g xs) = Some xs"
  by (induction xs) simp_all

lemma read_image_json: "read_image (image_json i) = Some i"
  by (cases "hi_caption i") (simp_all add: read_image_def image_json_def opt_string_def opt_json_of_def jget_def)

text \<open>The times of a status are printed so that they read back.\<close>

definition times_kept :: "(rat \<Rightarrow> string) \<Rightarrow> (string \<Rightarrow> rat) \<Rightarrow> storage_status \<Rightarrow> bool" where
  "times_kept shw float st \<longleftrightarrow> list_all (\<lambda>t. float (shw t) = t) (List.map_filter id [ss_last_attempt_at st, ss_last_success_at st])"

lemma read_storage_json: "times_kept show float s \<Longrightarrow> read_status float (storage_json show s) = Some s"
  by (cases "ss_last_attempt_at s"; cases "ss_last_success_at s"; cases "ss_last_error s")
    (simp_all add: read_status_def storage_json_def opt_string_def opt_json_of_def opt_float_def nat_field_def bool_field_def jget_def
      times_kept_def List.map_filter_def)

lemma response_of_json:
  assumes "\<And>st. cr_storage r = Some st \<Longrightarrow> times_kept show float st"
  shows "response_of float (response_json show r) = Some r"
proof -
  have i: "read_all read_image (map image_json (cr_images r)) = Some (cr_images r)" by (rule read_all_map, rule read_image_json)
  have s: "storage_json show x \<noteq> JNull" for x by (simp add: storage_json_def)
  show ?thesis
    using read_storage_json [of "show" float, OF assms] i
    by (cases "cr_error r"; cases "cr_storage r")
      (simp_all add: response_of_def response_json_def opt_string_def opt_json_of_def bool_field_def opt_storage_def jget_def storage_json_def)
qed

definition sendable :: "(rat \<Rightarrow> string) \<Rightarrow> (string \<Rightarrow> rat) \<Rightarrow> call_request \<Rightarrow> call_response \<Rightarrow> bool" where
  "sendable shw float r response \<longleftrightarrow> json_ok (call_request_json r) \<and> cq_call_id r \<noteq> []
     \<and> json_ok (response_json shw response) 
     \<and> list_all (times_kept shw float) (case cr_storage response of None \<Rightarrow> [] | Some st \<Rightarrow> [st])"

text \<open>C37. What the two ends of the wire write is read as it was meant: a call request, a cancel and a response come
  back from their JSON text with every field as it was sent, for any texts, arguments, images and storage
  status, provided objects have distinct keys and floats are printed so that they read back.
\<close>

theorem wire_round_trip:
  assumes "sendable shw float r response"
  shows "read_call_request fresh (json_dumps (call_request_json r)) = Some r
    \<and> read_cancel_request (json_dumps (JObj [(''call_id'', JStr (cq_call_id r))])) = Some (cq_call_id r)
    \<and> read_response float (json_dumps (response_json shw response)) = Some response"
proof -
  have "read_call_request fresh (json_dumps (call_request_json r)) = Some r"
    using assms by (intro read_request_json) (simp_all add: sendable_def)
  moreover have "json_ok (JObj [(''call_id'', JStr (cq_call_id r))])" by simp
  then have "read_cancel_request (json_dumps (JObj [(''call_id'', JStr (cq_call_id r))])) = Some (cq_call_id r)"
    using assms by (simp only: read_cancel_request_def loads_dumps) (simp add: read_call_id_def read_text_def sendable_def)
  moreover have "read_response float (json_dumps (response_json shw response)) = Some response"
  proof -
    have "times_kept shw float st" if "cr_storage response = Some st" for st using assms that by (simp add: sendable_def)
    then have "response_of float (response_json shw response) = Some response" by (rule response_of_json)
    then show ?thesis using assms by (simp add: read_response_def sendable_def loads_dumps)
  qed
  ultimately show ?thesis by blast
qed

section \<open>A response as a tool's result\<close>

text \<open>\<open>sv_put\<close> stores an image for a thread under its media type and gives its key; \<open>sv_digest\<close> is SHA-256 and
  \<open>sv_why\<close> the text of a failed strict decoding.\<close>

record 's service_env =
  sv_put :: "(string \<Rightarrow> string \<Rightarrow> string \<Rightarrow> ('s, string) act) option"
  sv_digest :: "string \<Rightarrow> string"
  sv_why :: "string \<Rightarrow> string"
  sv_show :: "rat \<Rightarrow> string"

definition max_image_bytes :: int where
  "max_image_bytes = 16 * 1024 * 1024"

definition response_size :: "call_response \<Rightarrow> int" where
  "response_size r = sum_list (map (\<lambda>i. decoded_size (hi_data_b64 i)) (cr_images r))"

definition decode_images :: "'s service_env \<Rightarrow> call_response \<Rightarrow> py_error + string list" where
  "decode_images e r = try_map (\<lambda>i. b64decode_strict (sv_why e) (hi_data_b64 i)) (cr_images r)"

text \<open>The images by their digests, the first of each with its media type.\<close>

definition unique_images :: "'s service_env \<Rightarrow> call_response \<Rightarrow> string list \<Rightarrow> (string, string \<times> string) dict" where
  "unique_images e r bytes = fold (\<lambda>(data, i). dsetdefault (sv_digest e data) (data, hi_media_type i)) (zip bytes (cr_images r)) []"

definition asset_block :: "string \<Rightarrow> string \<Rightarrow> py_error + block" where
  "asset_block key media = (let b = AssetBlock key media None in if block_ok b then Inr b else Inl invalid)"

definition store_images :: "'s service_env \<Rightarrow> (string \<Rightarrow> string \<Rightarrow> string \<Rightarrow> ('s, string) act) \<Rightarrow> string \<Rightarrow> call_response \<Rightarrow> ('s, block list) act" where
  "store_images e put thread_id r = bnd (from_res (decode_images e r)) (\<lambda>bytes.
     let distinct_images = unique_images e r bytes in
     bnd (gathered (\<lambda>(data, media). put thread_id data media) (dvalues distinct_images)) (\<lambda>keys.
     from_res (try_map (\<lambda>(data, i). asset_block (or_else (dget (zip (dkeys distinct_images) keys) (sv_digest e data)) []) (hi_media_type i))
       (zip bytes (cr_images r)))))"

definition inline_image :: "host_image \<Rightarrow> py_error + block" where
  "inline_image i = (if valid_image_mime (hi_media_type i) then Inr (InlineImageBlock (hi_media_type i) (hi_data_b64 i)) else Inl invalid)"

definition caption_text :: "host_image \<Rightarrow> string" where
  "caption_text i = (case hi_caption i of Some c \<Rightarrow> if c = [] then ''Image '' @ hi_name i @ '':'' else c | None \<Rightarrow> ''Image '' @ hi_name i @ '':'')"

definition shown_blocks :: "string \<Rightarrow> host_image list \<Rightarrow> block list \<Rightarrow> block list" where
  "shown_blocks text images blocks = (if text = [] then [] else [TextBlock text])
     @ concat (map (\<lambda>(i, b). [TextBlock (caption_text i), b]) (zip images blocks))"

definition too_large :: "call_response \<Rightarrow> int \<Rightarrow> string" where
  "too_large r limit = ''the service returned '' @ nat_str (length (cr_images r)) @ '' images of '' @ int_str (response_size r) @ '' bytes, '' @
     ''over the '' @ int_str limit @ ''-byte limit for one response; return fewer or '' @ ''smaller images''"

definition result_of_response :: "'s service_env \<Rightarrow> string \<Rightarrow> int \<Rightarrow> call_response \<Rightarrow> ('s, tool_result) act" where
  "result_of_response e thread_id limit r = (case cr_error r of
      Some error \<Rightarrow> ret (tool_fail (join_with [CHR 0x0A] (filter (\<lambda>t. t \<noteq> []) [error, cr_text r])) [])
    | None \<Rightarrow> (if cr_images r = [] then ret (tool_ok (JStr (cr_text r)) [])
        else if response_size r > limit then ret (tool_fail (too_large r limit) [])
        else bnd (case sv_put e of
              Some put \<Rightarrow> store_images e put thread_id r
            | None \<Rightarrow> from_res (try_map inline_image (cr_images r))) (\<lambda>blocks.
          ret \<lparr>tr_output = JStr (cr_text r), tr_error = None, tr_tool_call_id = None, tr_metadata = [],
            tr_content_blocks = Some (shown_blocks (cr_text r) (cr_images r) blocks)\<rparr>)))"

definition with_status :: "'s service_env \<Rightarrow> call_response \<Rightarrow> tool_result \<Rightarrow> tool_result" where
  "with_status e r result = result\<lparr>tr_metadata :=
     (let d = (if cr_terminal r \<and> cr_error r = None then dset ''terminal'' (JBool True) (tr_metadata result) else tr_metadata result)
      in case cr_storage r of None \<Rightarrow> d | Some st \<Rightarrow> dset ''storage'' (storage_json (sv_show e) st) d)\<rparr>"

definition to_tool_result :: "'s service_env \<Rightarrow> string \<Rightarrow> int \<Rightarrow> call_response \<Rightarrow> ('s, tool_result) act" where
  "to_tool_result e thread_id limit r = bnd (result_of_response e thread_id limit r) (\<lambda>result. ret (with_status e r result))"

lemma try_bind_Inl_or: "try_bind x f = Inr y \<Longrightarrow> \<exists>a. x = Inr a"
  by (cases x) auto

lemma asset_block_Inr: "asset_block key media = Inr b \<longleftrightarrow> b = AssetBlock key media None \<and> key \<noteq> [] \<and> valid_mime media"
  by (auto simp: asset_block_def Let_def)

text \<open>The same bytes are stored once.\<close>

lemma unique_images_keys:
  "wf_dict d \<Longrightarrow> wf_dict (fold (\<lambda>(data, i). dsetdefault (sv_digest e data) (data, hi_media_type i)) xs d)
   \<and> set (dkeys (fold (\<lambda>(data, i). dsetdefault (sv_digest e data) (data, hi_media_type i)) xs d)) = set (dkeys d) \<union> (sv_digest e \<circ> fst) ` set xs"
proof (induction xs arbitrary: d)
  case (Cons x xs)
  obtain data i where x: "x = (data, i)" by (cases x)
  let ?d = "dsetdefault (sv_digest e data) (data, hi_media_type i) d"
  have "wf_dict ?d" using Cons.prems by (simp add: dsetdefault_def split: option.split)
  moreover have "set (dkeys ?d) = insert (sv_digest e data) (set (dkeys d))"
    by (cases "dget d (sv_digest e data)") (force simp: dsetdefault_def dom_update dest: map_of_SomeD)+
  ultimately show ?case using Cons.IH [of ?d] x by auto
qed simp

lemma store_images_blocks:
  assumes "store_images e put thread_id r s = (Inr blocks, s')"
  shows "\<exists>bytes. list_all2 (\<lambda>i data. b64decode (hi_data_b64 i) = Inr data \<and> int (length data) = decoded_size (hi_data_b64 i)) (cr_images r) bytes
    \<and> list_all2 (\<lambda>i b. \<exists>key. key \<noteq> [] \<and> b = AssetBlock key (hi_media_type i) None) (cr_images r) blocks"
proof -
  from assms obtain bytes where bytes: "decode_images e r = Inr bytes"
    by (auto simp: store_images_def bnd_def from_res_def readS_def split: sum.splits)
  let ?f = "\<lambda>keys (data, i). asset_block (or_else (dget (zip (dkeys (unique_images e r bytes)) keys) (sv_digest e data)) []) (hi_media_type i)"
  from assms bytes obtain keys where k: "try_map (?f keys) (zip bytes (cr_images r)) = Inr blocks"
    by (auto simp: store_images_def bnd_def from_res_def readS_def Let_def split: sum.splits prod.splits)
  have d: "list_all2 (\<lambda>i data. b64decode_strict (sv_why e) (hi_data_b64 i) = Inr data) (cr_images r) bytes"
    using try_map_all [OF bytes [unfolded decode_images_def]] .
  then have "list_all2 (\<lambda>i data. b64decode (hi_data_b64 i) = Inr data \<and> int (length data) = decoded_size (hi_data_b64 i)) (cr_images r) bytes"
    by (rule list_all2_mono) (auto dest: strict_decodes)
  moreover have "list_all2 (\<lambda>i b. \<exists>key. key \<noteq> [] \<and> b = AssetBlock key (hi_media_type i) None) (cr_images r) blocks"
    using try_map_all [OF k] list_all2_lengthD [OF d]
    by (auto simp: list_all2_conv_all_nth asset_block_Inr)
  ultimately show ?thesis by blast
qed

lemma list_all2_sum: "list_all2 (\<lambda>i data. P i data \<and> f data = (g i :: int)) xs ys \<Longrightarrow> sum_list (map f ys) = sum_list (map g xs)"
  by (induction rule: list_all2_induct) simp_all

definition stored_as :: "host_image list \<Rightarrow> int \<Rightarrow> block list \<Rightarrow> bool" where
  "stored_as images limit blocks \<longleftrightarrow>
     (\<exists>bytes. list_all2 (\<lambda>i data. b64decode (hi_data_b64 i) = Inr data) images bytes \<and> sum_list (map (\<lambda>b. int (length b)) bytes) \<le> limit)
     \<and> list_all2 (\<lambda>i b. \<exists>key. key \<noteq> [] \<and> b = AssetBlock key (hi_media_type i) None) images blocks"

text \<open>What a service's images may cost is bounded: when a response with images becomes a result, each image decodes
  strictly, all of them together have no more bytes than the limit, and the result shows, after the text, each
  image's caption and then the image under the key it was stored by, in the order of the response; a response
  that fails, or is over the limit, stores nothing.
\<close>

theorem service_images_bounded:
  assumes "sv_put e = Some put" "cr_images r \<noteq> []" "to_tool_result e thread_id limit r s = (Inr result, s')"
  shows "if tr_error result = None
     then \<exists>blocks. stored_as (cr_images r) limit blocks \<and> tr_content_blocks result = Some (shown_blocks (cr_text r) (cr_images r) blocks)
     else s' = s \<and> tr_content_blocks result = None"
proof (cases "cr_error r = None \<and> response_size r \<le> limit")
  case False
  then show ?thesis using assms
    by (auto simp: to_tool_result_def result_of_response_def bnd_def ret_def tool_fail_def with_status_def split: option.splits if_splits)
next
  case True
  with assms obtain blocks where b: "store_images e put thread_id r s = (Inr blocks, s')"
    "tr_error result = None" "tr_content_blocks result = Some (shown_blocks (cr_text r) (cr_images r) blocks)"
    by (auto simp: to_tool_result_def result_of_response_def bnd_def ret_def with_status_def split: sum.splits prod.splits)
  from store_images_blocks [OF b(1)] obtain bytes where
    d: "list_all2 (\<lambda>i data. b64decode (hi_data_b64 i) = Inr data \<and> int (length data) = decoded_size (hi_data_b64 i)) (cr_images r) bytes"
    and k: "list_all2 (\<lambda>i b. \<exists>key. key \<noteq> [] \<and> b = AssetBlock key (hi_media_type i) None) (cr_images r) blocks" by blast
  have "sum_list (map (\<lambda>b. int (length b)) bytes) = response_size r"
    unfolding response_size_def by (rule list_all2_sum [OF d])
  moreover have "list_all2 (\<lambda>i data. b64decode (hi_data_b64 i) = Inr data) (cr_images r) bytes"
    by (rule list_all2_mono [OF d]) simp
  ultimately have "stored_as (cr_images r) limit blocks" using k True by (auto simp: stored_as_def)
  with b show ?thesis by auto
qed

section \<open>The tools of a service\<close>

type_synonym 's tool_runner = "string \<Rightarrow> json_obj \<Rightarrow> string \<Rightarrow> string option \<Rightarrow> string \<Rightarrow> ('s, call_response) act"

text \<open>A tool of a service: \<open>sm_validate\<close> is the model of the method's parameters. Its runner takes the method, the arguments,
  the key, the sandbox and the call's id.\<close>

record 's service_tool =
  sm_method :: string
  sm_runner :: "'s tool_runner"
  sm_local :: bool
  sm_needs_sandbox :: bool
  sm_max_image_bytes :: int
  sm_validate :: "json_obj \<Rightarrow> string + json_obj"
  sm_doc :: "string option"
  sm_parameters :: json

definition service_schema :: "'s service_tool \<Rightarrow> json" where
  "service_schema t = JObj [(''type'', JStr ''function''), (''function'', JObj [(''name'', JStr (sm_method t)),
     (''description'', JStr (case sm_doc t of Some d \<Rightarrow> if d = [] then ''Run '' @ sm_method t @ ''.'' else d | None \<Rightarrow> ''Run '' @ sm_method t @ ''.'')),
     (''parameters'', sm_parameters t)])]"

definition service_call_id :: "call_context \<Rightarrow> string" where
  "service_call_id ctx = cx_thread_id ctx @ '':'' @ cx_tool_call_id ctx"

definition execute_service :: "'s service_env \<Rightarrow> 's service_tool \<Rightarrow> json_obj \<Rightarrow> call_context \<Rightarrow> ('s, tool_result) act" where
  "execute_service e t params ctx =
     bnd (sm_runner t (sm_method t) params (cx_thread_id ctx) (cx_sandbox ctx) (service_call_id ctx))
       (to_tool_result e (cx_thread_id ctx) (sm_max_image_bytes t))"

definition build_service :: "'s service_env \<Rightarrow> 's service_tool \<Rightarrow> json_obj \<Rightarrow> call_context \<Rightarrow> ('s, 's tool_invocation) act" where
  "build_service e t params ctx = (case sm_validate t params of
      Inl why \<Rightarrow> raise (ValueError (''Invalid arguments for '' @ sm_method t @ '': '' @ why))
    | Inr args \<Rightarrow> ret \<lparr>inv_description = ''Running '' @ sm_method t, inv_execute = execute_service e t args ctx\<rparr>)"

definition service_as_tool :: "'s service_env \<Rightarrow> 's service_tool \<Rightarrow> 's tool" where
  "service_as_tool e t = \<lparr>tl_name = sm_method t, tl_schema = service_schema t, tl_needs_sandbox = sm_needs_sandbox t,
     tl_retry_safe = (\<not> sm_local t), tl_build = build_service e t, tl_can_execute = None, tl_on_resolve = None\<rparr>"

text \<open>\<open>tools\<close>: one for each method that may be called.\<close>

definition service_tools :: "string list list \<Rightarrow> (string \<Rightarrow> bool) \<Rightarrow> (string \<Rightarrow> 's service_tool) \<Rightarrow> 's service_tool list" where
  "service_tools classes is_function tool_of = map tool_of (service_methods classes is_function)"

section \<open>The properties at work\<close>

definition lost_env :: "unit client_env" where
  "lost_env = \<lparr>ce_reply = (\<lambda>_ _ w. (Inl (OtherException ''ConnectError'' ''gone''), w)), ce_transport = (\<lambda>_. True), ce_float = (\<lambda>_. 1)\<rparr>"

definition sample_endpoint :: endpoint where
  "sample_endpoint = \<lparr>ep_url = ''https://host/'', ep_headers = [(''Authorization'', ''Bearer t'')]\<rparr>"

definition sample_request :: call_request where
  "sample_request = \<lparr>cq_service = ''tools'', cq_key = ''t'', cq_method = ''add'', cq_init = [], cq_args = [(''title'', JStr ''x'')], cq_call_id = ''t:c''\<rparr>"

lemma abandoned_call_is_cancelled_witness:
  "\<exists>response c'. post_call lost_env sample_endpoint sample_request 600 \<lparr>hc_sent = [], hc_world = ()\<rparr> = (Inr (None, response), c')
     \<and> hc_sent c' = [calls sample_endpoint sample_request, cancels sample_endpoint ''t:c'']"
proof -
  obtain outcome c' where p: "post_call lost_env sample_endpoint sample_request 600 \<lparr>hc_sent = [], hc_world = ()\<rparr> = (outcome, c')" by fastforce
  then have "\<exists>response. outcome = Inr (None, response)"
    by (auto simp: post_call_def lost_env_def send_post_def abandon_def thn_def bnd_def catch_def ret_def)
  with abandoned_call_is_cancelled [OF p] p show ?thesis by (auto simp: sample_request_def)
qed

definition sample_response :: call_response where
  "sample_response = (text_response ''ok'')\<lparr>cr_images := [encoded_image ''image-0'' ''image/png'' (CHR 0x89 # ''PNG'') None],
     cr_storage := Some \<lparr>ss_last_attempt_at = Some 1, ss_last_success_at = None, ss_last_error = None, ss_consecutive_failures = 0, ss_pending = True\<rparr>\<rparr>"

lemma wire_round_trip_witness:
  "read_call_request ''fresh'' (json_dumps (call_request_json sample_request)) = Some sample_request
   \<and> read_response (\<lambda>_. 1) (json_dumps (response_json (\<lambda>_. ''1.0'') sample_response)) = Some sample_response"
proof -
  have "float_ok ''1.0''" by (simp add: float_ok_def scan_num_def scan_int_def scan_frac_def scan_exp_def scan_sign_def is_digit_def)
  then have "sendable (\<lambda>_. ''1.0'') (\<lambda>_. 1) sample_request sample_response"
    by (simp add: sendable_def sample_request_def sample_response_def call_request_json_def response_json_def text_response_def times_kept_def
      List.map_filter_def image_json_def encoded_image_def storage_json_def opt_json_of_def)
  from wire_round_trip [OF this] show ?thesis by blast
qed

definition sample_store :: "nat service_env" where
  "sample_store = \<lparr>sv_put = Some (\<lambda>thread data media n. (Inr (thread @ ''/images/1''), Suc n)), sv_digest = (\<lambda>data. data), sv_why = (\<lambda>_. []),
     sv_show = (\<lambda>_. ''1.0'')\<rparr>"

lemma service_images_bounded_witness:
  "\<exists>result s' blocks. to_tool_result sample_store ''t'' max_image_bytes ((text_response ''ok'')\<lparr>cr_images :=
       [\<lparr>hi_name = ''image-0'', hi_media_type = ''image/png'', hi_data_b64 = b64encode (CHR 0x89 # ''PNG''), hi_caption = None\<rparr>]\<rparr>) 0 = (Inr result, s')
     \<and> tr_content_blocks result = Some ([TextBlock ''ok'', TextBlock ''Image image-0:''] @ blocks) \<and> length blocks = 1"
proof -
  let ?i = "\<lparr>hi_name = ''image-0'', hi_media_type = ''image/png'', hi_data_b64 = b64encode (CHR 0x89 # ''PNG''), hi_caption = None\<rparr>"
  let ?r = "(text_response ''ok'')\<lparr>cr_images := [?i]\<rparr>"
  have put: "sv_put sample_store = Some (\<lambda>thread data media n. (Inr (thread @ ''/images/1''), Suc n))" by (simp add: sample_store_def)
  have "\<exists>result s'. to_tool_result sample_store ''t'' max_image_bytes ?r 0 = (Inr result, s') \<and> tr_error result = None"
    by (simp add: to_tool_result_def result_of_response_def sample_store_def text_response_def response_size_def max_image_bytes_def
      store_images_def decode_images_def unique_images_def dsetdefault_def gathered_def returned_def asset_block_def from_res_def readS_def
      bnd_def ret_def or_else_def valid_mime_def mime_token_def is_mime_char_def is_word_char_def with_status_def Let_def del: b64encode.simps)
  then obtain result s' where t: "to_tool_result sample_store ''t'' max_image_bytes ?r 0 = (Inr result, s')" "tr_error result = None" by blast
  have "cr_images ?r \<noteq> []" by simp
  from service_images_bounded [OF put this t(1)] t(2) obtain blocks where
    b: "stored_as (cr_images ?r) max_image_bytes blocks" "tr_content_blocks result = Some (shown_blocks (cr_text ?r) (cr_images ?r) blocks)" by auto
  then obtain b where "blocks = [b]" by (auto simp: stored_as_def list_all2_Cons1)
  with b(2) have "tr_content_blocks result = Some ([TextBlock ''ok'', TextBlock ''Image image-0:''] @ [b])"
    by (simp add: shown_blocks_def caption_text_def text_response_def)
  with t(1) show ?thesis by (intro exI [of _ result] exI [of _ s'] exI [of _ "[b]"]) simp
qed

end
