(* ===== verification/Function_Tools.thy ===== *)
theory Function_Tools
  imports Tool_Activities
begin

text \<open>
  Tools made of functions (\<open>actant/tools/function.py\<close>): which parameters the model fills in and which the
  runtime supplies, the template of an approval's prompt, admission, resolution and execution. A call that
  needs an approval runs its function only after a person gave it. The function, its callbacks, pydantic's
  validation of arguments and Python's \<open>format\<close> of a value are parameters.
\<close>

section \<open>Parameters of a function\<close>

datatype parameter_kind = PositionalOnly | PositionalOrKeyword | KeywordOnly | VarPositional | VarKeyword

datatype annotation = NoAnnotation | CallContextType | SandboxType | OtherType string

record parameter =
  pm_name :: string
  pm_kind :: parameter_kind
  pm_annotation :: annotation
  pm_default :: "json option"

record model_field =
  mf_name :: string
  mf_type :: string
  mf_default :: "json option"

datatype injected = InjectContext | InjectSandbox

definition named_parameter :: "parameter \<Rightarrow> bool" where
  "named_parameter p \<longleftrightarrow> pm_kind p \<notin> {PositionalOnly, VarPositional, VarKeyword}"

fun parameter_model :: "string \<Rightarrow> parameter list \<Rightarrow> py_error + model_field list \<times> (string, injected) dict" where
  "parameter_model tool_name [] = Inr ([], [])"
| "parameter_model tool_name (p # ps) =
     (if \<not> named_parameter p
      then Inl (TypeError (''Tool '' @ repr_str tool_name @ '' must use named parameters without *args or **kwargs''))
      else case pm_annotation p of
        NoAnnotation \<Rightarrow> Inl (TypeError (''Tool parameter '' @ repr_str (pm_name p) @ '' requires a type annotation''))
      | CallContextType \<Rightarrow> try_bind (parameter_model tool_name ps) (\<lambda>(asked, given). Inr (asked, (pm_name p, InjectContext) # given))
      | SandboxType \<Rightarrow> try_bind (parameter_model tool_name ps) (\<lambda>(asked, given). Inr (asked, (pm_name p, InjectSandbox) # given))
      | OtherType t \<Rightarrow> try_bind (parameter_model tool_name ps) (\<lambda>(asked, given).
          Inr (\<lparr>mf_name = pm_name p, mf_type = t, mf_default = pm_default p\<rparr> # asked, given)))"

text \<open>Every parameter is the model's or the runtime's, in the function's order.\<close>

lemma parameter_model_complete:
  "parameter_model tool_name ps = Inr (asked, given) \<Longrightarrow>
   map mf_name asked = map pm_name (filter (\<lambda>p. \<exists>t. pm_annotation p = OtherType t) ps)
   \<and> map fst given = map pm_name (filter (\<lambda>p. pm_annotation p \<in> {CallContextType, SandboxType}) ps)
   \<and> list_all named_parameter ps \<and> list_all (\<lambda>p. pm_annotation p \<noteq> NoAnnotation) ps"
  by (induction ps arbitrary: asked given) (auto simp: try_bind_Inr split: if_splits annotation.splits)

section \<open>Templates\<close>

text \<open>Python's format strings, as \<open>Formatter().parse\<close> and \<open>str.format_map\<close> read them, one character at a time:
  the literal characters and the fields before the first error, if any. A field has a name, a conversion
  and a format spec.\<close>

datatype piece = Literal char | Field string "char option" string

datatype scanner =
    InLiteral
  | SawOpen
  | SawClose
  | InName string bool
  | SawBang string
  | AfterConversion string char
  | InSpec nat string "char option" string

definition bad_format :: "string \<Rightarrow> py_error" where
  "bad_format m = ValueError m"

definition single_brace :: "char \<Rightarrow> py_error" where
  "single_brace c = bad_format (''Single '' @ [CHR 0x27, c, CHR 0x27] @ '' encountered in format string'')"

text \<open>\<open>True\<close> in a name: after a bracket that has not been closed.\<close>

definition name_step :: "string \<Rightarrow> bool \<Rightarrow> char \<Rightarrow> py_error + piece list \<times> scanner" where
  "name_step name bracket c =
     (if bracket then Inr ([], InName (name @ [c]) (c \<noteq> CHR '']''))
      else if c = CHR 0x7B then Inl (bad_format (''unexpected '' @ [CHR 0x27, CHR 0x7B, CHR 0x27] @ '' in field name''))
      else if c = CHR ''['' then Inr ([], InName (name @ [c]) True)
      else if c = CHR 0x7D then Inr ([Field name None []], InLiteral)
      else if c = CHR '':'' then Inr ([], InSpec 1 name None [])
      else if c = CHR 0x21 then Inr ([], SawBang name)
      else Inr ([], InName (name @ [c]) False))"

fun scan_step :: "scanner \<Rightarrow> char \<Rightarrow> py_error + piece list \<times> scanner" where
  "scan_step InLiteral c = (if c = CHR 0x7B then Inr ([], SawOpen) else if c = CHR 0x7D then Inr ([], SawClose) else Inr ([Literal c], InLiteral))"
| "scan_step SawOpen c = (if c = CHR 0x7B then Inr ([Literal c], InLiteral) else name_step [] False c)"
| "scan_step SawClose c = (if c = CHR 0x7D then Inr ([Literal c], InLiteral) else Inl (single_brace (CHR 0x7D)))"
| "scan_step (InName name bracket) c = name_step name bracket c"
| "scan_step (SawBang name) c = Inr ([], AfterConversion name c)"
| "scan_step (AfterConversion name conversion) c =
     (if c = CHR 0x7D then Inr ([Field name (Some conversion) []], InLiteral)
      else if c = CHR '':'' then Inr ([], InSpec 1 name (Some conversion) [])
      else Inl (bad_format (''expected '' @ [CHR 0x27, CHR '':'', CHR 0x27] @ '' after conversion specifier'')))"
| "scan_step (InSpec depth name conversion spec) c =
     (if c = CHR 0x7D \<and> depth \<le> 1 then Inr ([Field name conversion spec], InLiteral)
      else Inr ([], InSpec (if c = CHR 0x7B then Suc depth else if c = CHR 0x7D then depth - 1 else depth) name conversion (spec @ [c])))"

definition unmatched_spec :: py_error where
  "unmatched_spec = bad_format (''unmatched '' @ [CHR 0x27, CHR 0x7B, CHR 0x27] @ '' in format spec'')"

fun scan_end :: "scanner \<Rightarrow> py_error option" where
  "scan_end InLiteral = None"
| "scan_end SawOpen = Some (single_brace (CHR 0x7B))"
| "scan_end SawClose = Some (single_brace (CHR 0x7D))"
| "scan_end (InName _ _) = Some (bad_format (''expected '' @ [CHR 0x27, CHR 0x7D, CHR 0x27] @ '' before end of string''))"
| "scan_end (SawBang _) = Some (bad_format ''end of string while looking for conversion specifier'')"
| "scan_end (AfterConversion _ _) = Some unmatched_spec"
| "scan_end (InSpec _ _ _ _) = Some unmatched_spec"

fun parse_pieces :: "scanner \<Rightarrow> string \<Rightarrow> piece list \<times> py_error option" where
  "parse_pieces st [] = ([], scan_end st)"
| "parse_pieces st (c # cs) = (case scan_step st c of
      Inl x \<Rightarrow> ([], Some x)
    | Inr (ps, st) \<Rightarrow> (let (rest, x) = parse_pieces st cs in (ps @ rest, x)))"

text \<open>\<open>_validate_approval_template\<close>: the fields in turn, then the error of the template itself.\<close>

fun check_pieces :: "string list \<Rightarrow> piece list \<Rightarrow> py_error option \<Rightarrow> py_error option" where
  "check_pieces names [] x = x"
| "check_pieces names (Literal _ # ps) x = check_pieces names ps x"
| "check_pieces names (Field name _ _ # ps) x =
     (if name = [] then Some (ValueError ''Approval templates must use named fields such as `{title}`'')
      else if CHR ''.'' \<in> set name \<or> CHR ''['' \<in> set name
        then Some (ValueError ''Approval templates may reference only direct tool parameters'')
      else if name \<notin> set names
        then Some (ValueError (''Approval template references unknown tool parameter '' @ repr_str name))
      else check_pieces names ps x)"

definition validate_template :: "string \<Rightarrow> string list \<Rightarrow> py_error option" where
  "validate_template template names = (let (ps, x) = parse_pieces InLiteral template in check_pieces names ps x)"

text \<open>\<open>format_map\<close>: \<open>fv_attr\<close> follows the dots and brackets of a field's name and \<open>fv_render\<close> formats a value. A spec that
  has fields of its own is formatted first, one level deep.\<close>

record format_env =
  fv_attr :: "json \<Rightarrow> string \<Rightarrow> py_error + json"
  fv_render :: "json \<Rightarrow> char option \<Rightarrow> string \<Rightarrow> py_error + string"

definition name_first :: "string \<Rightarrow> string" where
  "name_first name = takeWhile (\<lambda>c. c \<noteq> CHR ''.'' \<and> c \<noteq> CHR ''['') name"

definition field_value :: "format_env \<Rightarrow> json_obj \<Rightarrow> string \<Rightarrow> py_error + json" where
  "field_value e params name = (let first = name_first name; path = drop (length first) name in
     if list_all is_digit first then Inl (ValueError ''Format string contains positional fields'')
     else case dget params first of
       None \<Rightarrow> Inl (KeyError first)
     | Some v \<Rightarrow> if path = [] then Inr v else fv_attr e v path)"

fun format_pieces :: "(string \<Rightarrow> py_error + string) \<Rightarrow> format_env \<Rightarrow> json_obj \<Rightarrow> piece list \<Rightarrow> py_error option \<Rightarrow> py_error + string" where
  "format_pieces expand e params [] x = (case x of None \<Rightarrow> Inr [] | Some error \<Rightarrow> Inl error)"
| "format_pieces expand e params (Literal c # ps) x = try_bind (format_pieces expand e params ps x) (\<lambda>s. Inr (c # s))"
| "format_pieces expand e params (Field name conversion spec # ps) x =
     try_bind (field_value e params name) (\<lambda>v.
     try_bind (if CHR 0x7B \<in> set spec then expand spec else Inr spec) (\<lambda>spec.
     try_bind (fv_render e v conversion spec) (\<lambda>t.
     try_bind (format_pieces expand e params ps x) (\<lambda>s. Inr (t @ s)))))"

primrec format_nested :: "nat \<Rightarrow> format_env \<Rightarrow> json_obj \<Rightarrow> string \<Rightarrow> py_error + string" where
  "format_nested 0 e params template = Inl (ValueError ''Max string recursion exceeded'')"
| "format_nested (Suc depth) e params template = (let (ps, x) = parse_pieces InLiteral template in
     format_pieces (format_nested depth e params) e params ps x)"

definition format_map :: "format_env \<Rightarrow> json_obj \<Rightarrow> string \<Rightarrow> py_error + string" where
  "format_map = format_nested 2"

text \<open>A template that was accepted formats every set of arguments that has the parameters, unless a format spec
  has fields of its own, which are not checked.\<close>

definition plain_piece :: "piece \<Rightarrow> bool" where
  "plain_piece p = (case p of Literal _ \<Rightarrow> True | Field _ _ spec \<Rightarrow> CHR 0x7B \<notin> set spec)"

lemma name_first_direct: "CHR ''.'' \<notin> set name \<Longrightarrow> CHR ''['' \<notin> set name \<Longrightarrow> name_first name = name"
  unfolding name_first_def by (induction name) auto

definition parameters_ok :: "string list \<Rightarrow> json_obj \<Rightarrow> bool" where
  "parameters_ok names params \<longleftrightarrow> (\<forall>n \<in> set names. dget params n \<noteq> None \<and> \<not> list_all is_digit n)"

definition renders :: "format_env \<Rightarrow> bool" where
  "renders e \<longleftrightarrow> (\<forall>v k spec. \<exists>t. fv_render e v k spec = Inr t)"

lemma checked_pieces_format:
  assumes "parameters_ok names params" "renders e"
  shows "check_pieces names ps x = None \<Longrightarrow> list_all plain_piece ps \<Longrightarrow> \<exists>t. format_pieces expand e params ps x = Inr t"
proof (induction ps)
  case (Cons p ps)
  show ?case
  proof (cases p)
    case (Literal c)
    with Cons show ?thesis by auto
  next
    case (Field name k spec)
    from Cons.prems(1) Field have n: "CHR ''.'' \<notin> set name" "CHR ''['' \<notin> set name" "name \<in> set names" "check_pieces names ps x = None"
      by (auto split: if_splits)
    with Cons obtain s where s: "format_pieces expand e params ps x = Inr s" by auto
    from n assms(1) obtain v where "dget params name = Some v" "\<not> list_all is_digit name" by (auto simp: parameters_ok_def)
    with n have v: "field_value e params name = Inr v" by (simp add: field_value_def name_first_direct)
    obtain t where "fv_render e v k spec = Inr t" using assms(2) unfolding renders_def by blast
    then show ?thesis using v s Field Cons.prems(2) by (simp add: plain_piece_def)
  qed
qed simp

lemma validated_template_formats:
  assumes "validate_template template names = None" "parameters_ok names params" "renders e"
    and "list_all plain_piece (fst (parse_pieces InLiteral template))"
  shows "\<exists>prompt. format_map e params template = Inr prompt"
proof -
  obtain ps x where "parse_pieces InLiteral template = (ps, x)" by (cases "parse_pieces InLiteral template")
  then show ?thesis using checked_pieces_format [OF assms(2,3)] assms(1,4)
    by (simp add: validate_template_def format_map_def numeral_2_eq_2)
qed

text \<open>A field of a format spec is not checked: an accepted template may fail on every call.\<close>

lemma nested_field_unchecked:
  defines "template \<equiv> [CHR 0x7B, CHR ''a'', CHR '':'', CHR 0x7B, CHR ''w'', CHR 0x7D, CHR 0x7D]"
  shows "validate_template template [''a''] = None"
    and "format_map e [(''a'', v)] template = Inl (KeyError ''w'')"
  unfolding template_def
  by (simp_all add: validate_template_def format_map_def name_step_def field_value_def name_first_def numeral_2_eq_2 is_digit_def)

section \<open>The tool\<close>

text \<open>What a function returns: a result, or an output.\<close>

datatype fn_output = OutResult tool_result | OutValue json

fun as_result :: "fn_output \<Rightarrow> tool_result" where
  "as_result (OutResult r) = r"
| "as_result (OutValue v) = tool_ok v []"

datatype 's approval = ApprovalTemplate string | ApprovalCallback "json_obj \<Rightarrow> ('s, string) act"

text \<open>\<open>function\<close> takes the arguments and, for what the runtime supplies, the call's context: its sandbox is in it.\<close>

record 's fn_spec =
  fs_function :: "json_obj \<Rightarrow> (string \<times> injected) list \<Rightarrow> call_context option \<Rightarrow> ('s, fn_output) act"
  fs_function_name :: string
  fs_function_doc :: "string option"
  fs_parameters :: "parameter list"
  fs_name :: "string option"
  fs_description :: "string option"
  fs_approval :: "'s approval option"
  fs_admission :: "(json_obj \<Rightarrow> ('s, tool_decision) act) option"
  fs_resolve :: "(json_obj \<Rightarrow> tool_resolution \<Rightarrow> ('s, fn_output) act) option"
  fs_retry_safe :: bool

record fn_env =
  fe_validate :: "model_field list \<Rightarrow> json_obj \<Rightarrow> string + json_obj"
  fe_schema :: "model_field list \<Rightarrow> json"
  fe_format :: format_env

record 's fn_tool =
  ft_spec :: "'s fn_spec"
  ft_name :: string
  ft_description :: string
  ft_fields :: "model_field list"
  ft_injected :: "(string, injected) dict"
  ft_needs_sandbox :: bool

definition or_text :: "string option \<Rightarrow> string \<Rightarrow> string" where
  "or_text t other = (case t of Some s \<Rightarrow> if s = [] then other else s | None \<Rightarrow> other)"

text \<open>\<open>FunctionTool.__init__\<close>.\<close>

definition new_fn_tool :: "'s fn_spec \<Rightarrow> py_error + 's fn_tool" where
  "new_fn_tool f =
     (if fs_approval f \<noteq> None \<and> fs_admission f \<noteq> None then Inl (TypeError ''Pass either `approval` or `admission`, not both'')
      else let name = or_text (fs_name f) (fs_function_name f) in
        try_bind (parameter_model name (fs_parameters f)) (\<lambda>(asked, given).
        case (case fs_approval f of Some (ApprovalTemplate t) \<Rightarrow> validate_template t (map mf_name asked) | _ \<Rightarrow> None) of
          Some x \<Rightarrow> Inl x
        | None \<Rightarrow> Inr \<lparr>ft_spec = f, ft_name = name,
            ft_description = or_text (fs_description f) (or_text (fs_function_doc f) (''Run '' @ name @ ''.'')),
            ft_fields = asked, ft_injected = given, ft_needs_sandbox = (InjectSandbox \<in> snd ` set given)\<rparr>))"

definition fn_schema :: "fn_env \<Rightarrow> 's fn_tool \<Rightarrow> json" where
  "fn_schema e t = JObj [(''type'', JStr ''function''), (''function'', JObj [(''name'', JStr (ft_name t)),
     (''description'', JStr (ft_description t)), (''parameters'', fe_schema e (ft_fields t))])]"

definition validated_params :: "fn_env \<Rightarrow> 's fn_tool \<Rightarrow> json_obj \<Rightarrow> ('s, json_obj) act" where
  "validated_params e t params = (case fe_validate e (ft_fields t) params of
      Inl why \<Rightarrow> raise (ValueError (''Invalid arguments for '' @ ft_name t @ '': '' @ why))
    | Inr args \<Rightarrow> ret args)"

text \<open>\<open>_execute\<close>: the first of the injected parameters that cannot be supplied is what the failure names.\<close>

fun missing_injection :: "string \<Rightarrow> (string \<times> injected) list \<Rightarrow> call_context option \<Rightarrow> string option" where
  "missing_injection name [] ctx = None"
| "missing_injection name ((_, InjectSandbox) # given) ctx =
     (if (case ctx of None \<Rightarrow> True | Some c \<Rightarrow> cx_sandbox c = None)
      then Some (''Tool '' @ repr_str name @ '' needs a sandbox and none was given'') else missing_injection name given ctx)"
| "missing_injection name ((_, InjectContext) # given) ctx =
     (if ctx = None then Some (''Tool '' @ repr_str name @ '' needs its call context'') else missing_injection name given ctx)"

definition execute_fn :: "'s fn_tool \<Rightarrow> json_obj \<Rightarrow> call_context option \<Rightarrow> ('s, tool_result) act" where
  "execute_fn t args ctx = (case missing_injection (ft_name t) (ft_injected t) ctx of
      Some why \<Rightarrow> ret (tool_fail why [])
    | None \<Rightarrow> bnd (fs_function (ft_spec t) args (ft_injected t) ctx) (\<lambda>output. ret (as_result output)))"

definition build_fn :: "fn_env \<Rightarrow> 's fn_tool \<Rightarrow> json_obj \<Rightarrow> call_context \<Rightarrow> ('s, json_obj) act" where
  "build_fn e t params ctx = (if ft_needs_sandbox t \<and> cx_sandbox ctx = None
     then raise (RuntimeError (''Tool '' @ repr_str (ft_name t) @ '' takes a Sandbox; the agent definition declares none''))
     else validated_params e t params)"

definition fn_invocation :: "'s fn_tool \<Rightarrow> json_obj \<Rightarrow> call_context \<Rightarrow> 's tool_invocation" where
  "fn_invocation t args ctx = \<lparr>inv_description = ''Running '' @ ft_name t, inv_execute = execute_fn t args (Some ctx)\<rparr>"

definition approval_prompt :: "fn_env \<Rightarrow> 's approval \<Rightarrow> json_obj \<Rightarrow> ('s, string) act" where
  "approval_prompt e a args = (case a of
      ApprovalCallback ask \<Rightarrow> ask args
    | ApprovalTemplate template \<Rightarrow> from_res (format_map (fe_format e) args template))"

text \<open>\<open>can_execute\<close>: \<open>built\<close> are the arguments of the invocation, when it is one of this tool's.\<close>

definition can_execute_fn :: "fn_env \<Rightarrow> 's fn_tool \<Rightarrow> json_obj \<Rightarrow> json_obj option \<Rightarrow> ('s, tool_decision) act" where
  "can_execute_fn e t call_args built =
     bnd (case built of Some args \<Rightarrow> ret args | None \<Rightarrow> validated_params e t call_args) (\<lambda>args.
     case fs_approval (ft_spec t) of
       Some a \<Rightarrow> bnd (approval_prompt e a args) (\<lambda>prompt. ret (decision_await_human
           \<lparr>wr_kind = ''approval'', wr_prompt = prompt, wr_payload = [(''args'', JObj call_args)]\<rparr>))
     | None \<Rightarrow> (case fs_admission (ft_spec t) of Some admit \<Rightarrow> admit args | None \<Rightarrow> ret decision_execute))"

definition on_resolve_fn :: "fn_env \<Rightarrow> 's fn_tool \<Rightarrow> json_obj \<Rightarrow> tool_resolution \<Rightarrow> call_context option \<Rightarrow> ('s, tool_result) act" where
  "on_resolve_fn e t call_args resolution ctx =
     (if fs_approval (ft_spec t) \<noteq> None
      then (if rs_approved resolution \<noteq> Some True then ret (tool_fail ''Tool call was not approved'' [])
        else bnd (validated_params e t call_args) (\<lambda>args. execute_fn t args ctx))
      else case fs_resolve (ft_spec t) of
        Some resolve \<Rightarrow> bnd (validated_params e t call_args) (\<lambda>args. bnd (resolve args resolution) (\<lambda>output. ret (as_result output)))
      | None \<Rightarrow> ret (tool_ok (JObj (fold (\<lambda>(k, v). dset k v) (rs_payload resolution)
            [(''approved'', case rs_approved resolution of None \<Rightarrow> JNull | Some b \<Rightarrow> JBool b), (''answer'', JStr (rs_answer resolution))])) []))"

text \<open>The tool as the runtime sees it. An admission sees the call's arguments validated once more, which gives what
  the invocation holds.\<close>

definition fn_as_tool :: "fn_env \<Rightarrow> 's fn_tool \<Rightarrow> 's tool" where
  "fn_as_tool e t = \<lparr>tl_name = ft_name t, tl_schema = fn_schema e t, tl_needs_sandbox = ft_needs_sandbox t,
     tl_retry_safe = fs_retry_safe (ft_spec t),
     tl_build = (\<lambda>params ctx. bnd (build_fn e t params ctx) (\<lambda>args. ret (fn_invocation t args ctx))),
     tl_can_execute = Some (\<lambda>call _ _. can_execute_fn e t (r_args call) None),
     tl_on_resolve = Some (ResolveCtx (\<lambda>call resolution ctx. on_resolve_fn e t (r_args call) resolution (Some ctx)))\<rparr>"

lemma can_execute_built:
  "build_fn e t params ctx s = (Inr args, s') \<Longrightarrow> can_execute_fn e t params (Some args) s = can_execute_fn e t params None s"
  by (auto simp: build_fn_def validated_params_def can_execute_fn_def bnd_def ret_def raise_def split: if_splits sum.splits)


text \<open>A tool that deletes what it is told to, its approval asked for by a template.\<close>

definition delete_spec :: "string list fn_spec" where
  "delete_spec = \<lparr>fs_function = (\<lambda>args _ _ s. (Inr (OutValue JNull), s @ [''deleted''])), fs_function_name = ''delete'', fs_function_doc = None,
     fs_parameters = [\<lparr>pm_name = ''path'', pm_kind = PositionalOrKeyword, pm_annotation = OtherType ''str'', pm_default = None\<rparr>],
     fs_name = None, fs_description = None,
     fs_approval = Some (ApprovalTemplate ([CHR 0x7B] @ ''path'' @ [CHR 0x7D])), fs_admission = None, fs_resolve = None, fs_retry_safe = False\<rparr>"

definition delete_env :: fn_env where
  "delete_env = \<lparr>fe_validate = (\<lambda>_ params. Inr params), fe_schema = (\<lambda>_. JNull),
     fe_format = \<lparr>fv_attr = (\<lambda>v _. Inr v), fv_render = (\<lambda>v _ _. Inr (py_str v))\<rparr>\<rparr>"


end
