(* ===== verification/Built_In_Tools.thy ===== *)
theory Built_In_Tools
  imports Function_Tools Texts
begin

text \<open>
  The tools the library ships: \<open>task\<close>, which delegates to a subagent (\<open>actant/tools/task.py\<close>), the three that
  supervise one (\<open>supervise.py\<close>), \<open>finish\<close> (\<open>finish.py\<close>) and \<open>recall_image\<close> (\<open>recall.py\<close>). How a subagent
  is started, asked and stopped is the application's: actions of the tools' records.
\<close>

definition make_tool_schema :: "string \<Rightarrow> string \<Rightarrow> json_obj \<Rightarrow> string list \<Rightarrow> json" where
  "make_tool_schema name description parameters required = JObj [(''type'', JStr ''function''),
     (''function'', JObj [(''name'', JStr name), (''description'', JStr description),
        (''parameters'', JObj [(''type'', JStr ''object''), (''properties'', JObj parameters),
           (''required'', JList (map JStr required)), (''additionalProperties'', JBool False)])])]"

section \<open>Delegation\<close>

type_synonym 's invoker = "string \<Rightarrow> string \<Rightarrow> json_obj \<Rightarrow> ('s, tool_result) act"

text \<open>A spawner is given the name, the message, the context and the parent's thread, and gives the child's.\<close>

type_synonym 's spawner = "string \<Rightarrow> string \<Rightarrow> json_obj \<Rightarrow> string \<Rightarrow> ('s, string) act"

definition registry_invoke :: "(string, 's invoker) dict \<Rightarrow> 's invoker" where
  "registry_invoke invokers name msg context = (case dget invokers name of
      None \<Rightarrow> ret (tool_fail (''Subagent '' @ repr_str name @ '' not found'') [])
    | Some invoker \<Rightarrow> invoker name msg context)"

record 's task_tool =
  tt_invoker :: "'s invoker option"
  tt_spawner :: "'s spawner option"
  tt_parent_thread_id :: "string option"
  tt_choices :: "string list"
  tt_descriptions :: "(string, string) dict"
  tt_name :: string

text \<open>\<open>__post_init__\<close>.\<close>

definition task_tool_ok :: "'s task_tool \<Rightarrow> py_error + 's task_tool" where
  "task_tool_ok t = (if (tt_invoker t = None) = (tt_spawner t = None)
     then Inl (ValueError ''TaskTool requires exactly one of `invoker` or `spawner`'') else Inr t)"

definition task_description :: "'s task_tool \<Rightarrow> string" where
  "task_description t = (if tt_choices t \<noteq> []
     then ''Delegate a focused, well-scoped task to a specialist subagent. '' @
          ''The subagent runs on its own and returns its outputs back as '' @
          ''a structured result.'' @ [CHR 0x0A] @ ''Available subagents:'' @ [CHR 0x0A] @
          join_with [CHR 0x0A] (map (\<lambda>n. ''  - '' @ n @ '': '' @ or_else (dget (tt_descriptions t) n) []) (tt_choices t))
     else ''Delegate a task to a named subagent.'')"

definition task_schema :: "'s task_tool \<Rightarrow> json" where
  "task_schema t = make_tool_schema (tt_name t) (task_description t)
     [(''subagent'', JObj ([(''type'', JStr ''string''), (''description'', JStr ''Name of the subagent.'')]
         @ (if tt_choices t \<noteq> [] then [(''enum'', JList (map JStr (tt_choices t)))] else []))),
      (''message'', JObj [(''type'', JStr ''string''), (''description'', JStr ''Self-contained instruction for the subagent.'')]),
      (''context'', JObj [(''type'', JStr ''object''), (''description'', JStr ''Optional structured inputs for the subagent.'')])]
     [''subagent'', ''message'']"

definition non_empty :: "string option \<Rightarrow> string option" where
  "non_empty t = (case t of Some s \<Rightarrow> if s = [] then None else Some s | None \<Rightarrow> None)"

definition delegating_thread :: "'s task_tool \<Rightarrow> string \<Rightarrow> string option" where
  "delegating_thread t thread_id = (case non_empty (tt_parent_thread_id t) of Some p \<Rightarrow> Some p | None \<Rightarrow> non_empty (Some thread_id))"

definition text_arg :: "json_obj \<Rightarrow> string \<Rightarrow> string option" where
  "text_arg args k = (case dget args k of Some (JStr s) \<Rightarrow> non_empty (Some s) | _ \<Rightarrow> None)"

text \<open>\<open>can_execute\<close>, which only checks.\<close>

definition can_execute_task :: "'s task_tool \<Rightarrow> tool_call_record \<Rightarrow> tool_decision" where
  "can_execute_task t call = (if tt_spawner t = None then decision_execute
     else case text_arg (r_args call) ''subagent'' of
       None \<Rightarrow> decision_deny ''`subagent` is required''
     | Some subagent \<Rightarrow> (if tt_choices t \<noteq> [] \<and> subagent \<notin> set (tt_choices t)
         then decision_deny (''Unknown subagent '' @ repr_str subagent @ ''; valid: '' @ join_with '', '' (tt_choices t))
         else case text_arg (r_args call) ''message'' of
           None \<Rightarrow> decision_deny ''`message` is required''
         | Some msg \<Rightarrow> (if py_strip msg = [] then decision_deny ''`message` is required''
             else if delegating_thread t (r_thread_id call) = None
               then decision_deny (''TaskTool has no parent_thread_id: neither set at '' @ ''construction nor present on the tool call.'')
             else decision_execute)))"

definition context_payload :: "json option \<Rightarrow> json_obj" where
  "context_payload v = (case v of Some (JObj d) \<Rightarrow> d | _ \<Rightarrow> [])"

definition started_output :: "string \<Rightarrow> string \<Rightarrow> json" where
  "started_output subagent thread_id = JObj [(''subagent'', JStr subagent), (''thread_id'', JStr thread_id),
     (''sub_thread_id'', JStr thread_id), (''status'', JStr ''running'')]"

definition start_task :: "'s spawner \<Rightarrow> string option \<Rightarrow> string \<Rightarrow> string \<Rightarrow> json_obj \<Rightarrow> ('s, tool_result) act" where
  "start_task spawner parent subagent msg context = (case parent of
      None \<Rightarrow> ret (tool_fail ''TaskTool has no parent_thread_id.'' [])
    | Some p \<Rightarrow> try_else (spawner subagent msg context p)
        (\<lambda>x. ret (tool_fail (''Subagent spawn failed: '' @ err_str x) []))
        (\<lambda>thread_id. ret (tool_ok (started_output subagent thread_id) [])))"

definition execute_task :: "'s task_tool \<Rightarrow> string option \<Rightarrow> json_obj \<Rightarrow> ('s, tool_result) act" where
  "execute_task t parent params = (case text_arg params ''subagent'' of
      None \<Rightarrow> ret (tool_fail ''subagent is required'' [])
    | Some subagent \<Rightarrow> (case text_arg params ''message'' of
        None \<Rightarrow> ret (tool_fail ''message is required'' [])
      | Some msg \<Rightarrow> (let context = context_payload (dget params ''context'') in
          case tt_spawner t of
            Some spawner \<Rightarrow> start_task spawner parent subagent msg context
          | None \<Rightarrow> (case tt_invoker t of
              None \<Rightarrow> ret (tool_fail ''TaskTool has neither an invoker nor a spawner.'' [])
            | Some invoke \<Rightarrow> invoke subagent msg context))))"

definition task_invocation :: "'s task_tool \<Rightarrow> string option \<Rightarrow> json_obj \<Rightarrow> 's tool_invocation" where
  "task_invocation t parent params = \<lparr>inv_description = (case dget params ''subagent'' of
       Some (JStr s) \<Rightarrow> ''Delegate task to '' @ s | _ \<Rightarrow> ''Delegate task''), inv_execute = execute_task t parent params\<rparr>"

definition build_task :: "'s task_tool \<Rightarrow> json_obj \<Rightarrow> call_context \<Rightarrow> ('s, 's tool_invocation) act" where
  "build_task t params ctx = (if cx_parent_thread_id ctx \<noteq> None then raise (ValueError ''a subagent cannot spawn subagents'')
     else ret (task_invocation t (delegating_thread t (cx_thread_id ctx)) params))"

definition task_as_tool :: "'s task_tool \<Rightarrow> 's tool" where
  "task_as_tool t = \<lparr>tl_name = tt_name t, tl_schema = task_schema t, tl_needs_sandbox = False, tl_retry_safe = False,
     tl_build = build_task t, tl_can_execute = Some (\<lambda>call _ _. ret (can_execute_task t call)), tl_on_resolve = None\<rparr>"

lemma text_arg_Some: "text_arg d k = Some s \<longleftrightarrow> dget d k = Some (JStr s) \<and> s \<noteq> []"
  by (auto simp: text_arg_def non_empty_def split: option.splits json.splits if_splits)

lemma delegating_thread_Some: "delegating_thread t i = Some p \<Longrightarrow> p \<noteq> [] \<and> p \<in> {i, or_else (tt_parent_thread_id t) []}"
  by (auto simp: delegating_thread_def non_empty_def or_else_def split: option.splits if_splits)

text \<open>C33. Delegation in the background: a call that is admitted and built starts exactly one subagent, the named
  one, with the message and the context of the call, under a thread that has an id, and its result is that
  subagent's thread, or the reason it could not be started; admission and building start nothing.
\<close>

theorem delegation_starts_one_child:
  fixes s :: 's
  assumes "tt_spawner t = Some spawn" "td_kind (can_execute_task t call) = EXECUTE" "cx_parent_thread_id ctx = None"
    and "cx_thread_id ctx = r_thread_id call"
  shows "\<exists>subagent msg p inv. build_task t (r_args call) ctx s = (Inr inv, s)
     \<and> dget (r_args call) ''subagent'' = Some (JStr subagent) \<and> (tt_choices t = [] \<or> subagent \<in> set (tt_choices t))
     \<and> dget (r_args call) ''message'' = Some (JStr msg) \<and> py_strip msg \<noteq> [] \<and> p \<noteq> []
     \<and> inv_execute inv s = (case spawn subagent msg (context_payload (dget (r_args call) ''context'')) p s of
          (Inr i, s') \<Rightarrow> (Inr (tool_ok (started_output subagent i) []), s')
        | (Inl x, s') \<Rightarrow> (if is_exception x then Inr (tool_fail (''Subagent spawn failed: '' @ err_str x) []) else Inl x, s'))"
proof -
  from assms(1,2) obtain subagent msg p where a: "text_arg (r_args call) ''subagent'' = Some subagent"
    "text_arg (r_args call) ''message'' = Some msg" "tt_choices t = [] \<or> subagent \<in> set (tt_choices t)" "py_strip msg \<noteq> []"
    "delegating_thread t (r_thread_id call) = Some p"
    by (auto simp: can_execute_task_def decision_deny_def split: option.splits if_splits)
  then have "p \<noteq> []" using delegating_thread_Some by blast
  define inv where "inv = task_invocation t (Some p) (r_args call)"
  have "build_task t (r_args call) ctx s = (Inr inv, s)"
    using a assms(3,4) by (simp add: build_task_def ret_def inv_def)
  moreover have "inv_execute inv s = (case spawn subagent msg (context_payload (dget (r_args call) ''context'')) p s of
          (Inr i, s') \<Rightarrow> (Inr (tool_ok (started_output subagent i) []), s')
        | (Inl x, s') \<Rightarrow> (if is_exception x then Inr (tool_fail (''Subagent spawn failed: '' @ err_str x) []) else Inl x, s'))"
    using a(1,2) assms(1)
    by (simp add: inv_def task_invocation_def execute_task_def start_task_def Let_def try_else_def ret_def split: prod.split sum.split)
  ultimately show ?thesis using a \<open>p \<noteq> []\<close> by (auto simp: text_arg_Some)
qed

text \<open>A call of an agent's own, in a thread that is not a subagent's.\<close>

definition sample_task :: "string list task_tool" where
  "sample_task = \<lparr>tt_invoker = None, tt_spawner = Some (\<lambda>name msg context parent s. (Inr (name @ ''-1''), s @ [name])),
     tt_parent_thread_id = None, tt_choices = [''coder''], tt_descriptions = [], tt_name = ''task''\<rparr>"

definition sample_call :: tool_call_record where
  "sample_call = \<lparr>r_id = ''c'', r_group_id = ''g'', r_run_id = ''r'', r_agent_id = ''a'', r_thread_id = ''t'', r_turn_id = ''u'', r_turn_index = 0,
     r_name = ''task'', r_args = [(''subagent'', JStr ''coder''), (''message'', JStr ''go'')], r_status = RUNNING, r_prompt = None,
     r_wait_request = None, r_result = JNull\<rparr>"

definition sample_ctx :: call_context where
  "sample_ctx = \<lparr>cx_agent_id = ''a'', cx_thread_id = ''t'', cx_run_id = ''r'', cx_tool_call_id = ''c'', cx_turn_id = ''u'', cx_sandbox = None,
     cx_sandbox_access = None, cx_parent_thread_id = None, cx_context = []\<rparr>"

lemma delegation_starts_one_child_witness:
  "\<exists>inv subagent. build_task sample_task (r_args sample_call) sample_ctx [] = (Inr inv, [])
     \<and> inv_execute inv [] = (Inr (tool_ok (started_output subagent (subagent @ ''-1'')) []), [subagent])"
proof -
  let ?spawn = "\<lambda>name msg context parent s. (Inr (name @ ''-1''), s @ [name])"
  have "tt_spawner sample_task = Some ?spawn" "cx_parent_thread_id sample_ctx = None" "cx_thread_id sample_ctx = r_thread_id sample_call"
    by (simp_all add: sample_task_def sample_ctx_def sample_call_def)
  moreover have "td_kind (can_execute_task sample_task sample_call) = EXECUTE"
    by (simp add: can_execute_task_def sample_task_def sample_call_def text_arg_def non_empty_def delegating_thread_def py_strip_def
      is_py_space_def decision_execute_def Let_def)
  ultimately show ?thesis using delegation_starts_one_child [of sample_task ?spawn sample_call sample_ctx "[]"] by auto
qed

lemma subagent_never_delegates: "cx_parent_thread_id ctx = Some p \<Longrightarrow> build_task t params ctx s = (Inl (ValueError ''a subagent cannot spawn subagents''), s)"
  by (simp add: build_task_def raise_def)

text \<open>The supervision tools are functions of one supervisor.\<close>

record 's supervisor =
  sv_status :: "string \<Rightarrow> ('s, json) act"
  sv_send :: "string \<Rightarrow> string \<Rightarrow> ('s, unit) act"
  sv_stop :: "string \<Rightarrow> ('s, unit) act"

definition supervised_text :: "json_obj \<Rightarrow> string \<Rightarrow> string" where
  "supervised_text args k = (case dget args k of Some (JStr s) \<Rightarrow> s | _ \<Rightarrow> [])"

definition text_parameter :: "string \<Rightarrow> parameter" where
  "text_parameter k = \<lparr>pm_name = k, pm_kind = PositionalOrKeyword, pm_annotation = OtherType ''str'', pm_default = None\<rparr>"

definition plain_spec :: "string \<Rightarrow> string \<Rightarrow> string list \<Rightarrow> (json_obj \<Rightarrow> ('s, json) act) \<Rightarrow> 's fn_spec" where
  "plain_spec name doc params f = \<lparr>fs_function = (\<lambda>args _ _. bnd (f args) (\<lambda>v. ret (OutValue v))), fs_function_name = name,
     fs_function_doc = Some doc, fs_parameters = map text_parameter params, fs_name = None, fs_description = None, fs_approval = None,
     fs_admission = None, fs_resolve = None, fs_retry_safe = False\<rparr>"

text \<open>Their docstrings are the application's text to the model: \<open>doc\<close> gives each.\<close>

definition supervision_tools :: "(string \<Rightarrow> string) \<Rightarrow> 's supervisor \<Rightarrow> py_error + 's fn_tool list" where
  "supervision_tools doc sv = try_map new_fn_tool
     [plain_spec ''check_subagent'' (doc ''check_subagent'') [''thread_id''] (\<lambda>args. sv_status sv (supervised_text args ''thread_id'')),
      plain_spec ''message_subagent'' (doc ''message_subagent'') [''thread_id'', ''message'']
        (\<lambda>args. thn (sv_send sv (supervised_text args ''thread_id'') (supervised_text args ''message''))
          (ret (JObj [(''thread_id'', JStr (supervised_text args ''thread_id'')), (''delivered'', JBool True)]))),
      plain_spec ''stop_subagent'' (doc ''stop_subagent'') [''thread_id'']
        (\<lambda>args. thn (sv_stop sv (supervised_text args ''thread_id''))
          (ret (JObj [(''thread_id'', JStr (supervised_text args ''thread_id'')), (''stopped'', JBool True)])))]"

lemma supervision_tools_made:
  "\<exists>ts. supervision_tools doc sv = Inr ts \<and> map ft_name ts = [''check_subagent'', ''message_subagent'', ''stop_subagent'']
     \<and> list_all (\<lambda>t. \<not> ft_needs_sandbox t) ts"
  by (simp add: supervision_tools_def plain_spec_def new_fn_tool_def text_parameter_def named_parameter_def or_text_def Let_def)

section \<open>Finishing\<close>

fun is_text :: "json \<Rightarrow> bool" where
  "is_text (JStr _) = True"
| "is_text _ = False"

definition execute_finish :: "json_obj \<Rightarrow> tool_result" where
  "execute_finish params = (let raw = jget params ''paths'' JNull; paths = (if truthy raw then raw else JList []) in
     case paths of
       JList js \<Rightarrow> (if list_all is_text js
         then tool_ok (JObj [(''status'', JStr ''done''), (''summary'', jget params ''summary'' (JStr []))])
            [(''terminal'', JBool True), (''deliverables'', JList js)]
         else tool_fail ''`paths` must be a list of workspace paths'' [])
     | _ \<Rightarrow> tool_fail ''`paths` must be a list of workspace paths'' [])"

definition finish_description :: string where
  "finish_description = ''Call once, when the work is complete. `summary` is your final answer; `paths` are '' @
     ''files in your workspace to hand back as deliverables. This ends the run.''"

definition finish_schema :: "string \<Rightarrow> json" where
  "finish_schema description = make_tool_schema ''finish'' description
     [(''summary'', JObj [(''type'', JStr ''string''), (''description'', JStr ''The final answer, briefly.'')]),
      (''paths'', JObj [(''type'', JStr ''array''), (''items'', JObj [(''type'', JStr ''string'')]),
         (''description'', JStr ''Workspace paths of the deliverables.'')])] [''summary'']"

definition finish_tool :: "string \<Rightarrow> 's tool" where
  "finish_tool description = \<lparr>tl_name = ''finish'', tl_schema = finish_schema description, tl_needs_sandbox = False, tl_retry_safe = False,
     tl_build = (\<lambda>params _. ret \<lparr>inv_description = ''Finishing'', inv_execute = ret (execute_finish params)\<rparr>),
     tl_can_execute = None, tl_on_resolve = None\<rparr>"

lemma texts_of: "list_all is_text js \<Longrightarrow> js = map (JStr \<circ> py_str) js"
proof (induction js)
  case (Cons j js)
  then show ?case by (cases j) simp_all
qed simp

text \<open>C40. What \<open>finish\<close> hands over is well typed whatever the model sent: either the call fails, says so and does not
  end the run, or it ends the run and its deliverables are a list of texts, the very paths given, so the
  runtime reads each as the path it is.
\<close>

theorem finish_well_typed:
  "let r = execute_finish params in if tr_error r = None
     then eo_terminal (outcome_of i r) \<and> (\<exists>paths. json_or_null (tr_metadata r) ''deliverables'' = JList (map JStr paths)
            \<and> (if truthy (jget params ''paths'' JNull) then jget params ''paths'' JNull = JList (map JStr paths) else paths = []))
     else \<not> eo_terminal (outcome_of i r) \<and> tr_metadata r = []"
proof (cases "truthy (jget params ''paths'' JNull)")
  case False
  then show ?thesis
    by (simp add: Let_def execute_finish_def tool_ok_def outcome_of_def json_or_null_def jget_def [of "[_, _]"])
next
  case True
  show ?thesis
  proof (cases "jget params ''paths'' JNull")
    case (JList js)
    show ?thesis
    proof (cases "list_all is_text js")
      case t: True
      have "\<exists>paths. js = map JStr paths" using texts_of [OF t] by (metis map_map)
      then show ?thesis using True JList t
        by (auto simp: execute_finish_def tool_ok_def outcome_of_def json_or_null_def jget_def [of "[_, _]"] Let_def)
    qed (use True JList in \<open>simp add: execute_finish_def tool_fail_def outcome_of_def json_or_null_def jget_def [of "[]"] Let_def\<close>)
  qed (use True in \<open>simp_all add: execute_finish_def tool_fail_def outcome_of_def json_or_null_def jget_def [of "[]"] Let_def\<close>)
qed

section \<open>Recalling a picture\<close>

definition same_id :: "json \<Rightarrow> block \<Rightarrow> bool" where
  "same_id wanted b = (case b of
      AssetBlock key _ public \<Rightarrow> wanted = JStr key \<or> wanted = (case public of None \<Rightarrow> JNull | Some i \<Rightarrow> JStr i)
    | _ \<Rightarrow> False)"

definition find_picture :: "json \<Rightarrow> message list \<Rightarrow> block option" where
  "find_picture wanted history = find (same_id wanted) (concat (map content_blocks (rev history)))"

definition execute_recall :: "json_obj \<Rightarrow> string \<Rightarrow> string \<Rightarrow> (world, tool_result) act" where
  "execute_recall params agent_id thread_id = bnd (readS (\<lambda>w. Inr (list_for_thread agent_id thread_id w))) (\<lambda>history.
     let wanted = jget params ''id'' JNull in
     case find_picture wanted history of
       Some b \<Rightarrow> ret \<lparr>tr_output = JObj [(''recalled'', wanted)], tr_error = None, tr_tool_call_id = None, tr_metadata = [],
           tr_content_blocks = Some [b]\<rparr>
     | None \<Rightarrow> ret (tool_fail (''no image with id '' @ py_repr wanted @ '' in this thread'') []))"

lemma find_picture_newest:
  "find_picture wanted history = Some b \<Longrightarrow> \<exists>older m newer. history = older @ m # newer \<and> b \<in> set (content_blocks m) \<and> same_id wanted b
     \<and> list_all (\<lambda>n. list_all (\<lambda>c. \<not> same_id wanted c) (content_blocks n)) newer"
proof (induction history rule: rev_induct)
  case (snoc m history)
  show ?case
  proof (cases "find (same_id wanted) (content_blocks m)")
    case None
    then have n: "list_all (\<lambda>c. \<not> same_id wanted c) (content_blocks m)" by (simp add: find_None_iff list_all_iff)
    with snoc.prems None have "find_picture wanted history = Some b" by (simp add: find_picture_def find_append)
    then obtain older k newer where "history = older @ k # newer" "b \<in> set (content_blocks k)" "same_id wanted b"
      "list_all (\<lambda>n. list_all (\<lambda>c. \<not> same_id wanted c) (content_blocks n)) newer" using snoc.IH by blast
    with n show ?thesis by (intro exI [of _ older] exI [of _ k] exI [of _ "newer @ [m]"]) simp
  next
    case (Some c)
    with snoc.prems have "c = b" by (simp add: find_picture_def find_append)
    with Some have "b \<in> set (content_blocks m)" "same_id wanted b" by (auto simp: find_Some_iff)
    then show ?thesis by (intro exI [of _ history] exI [of _ m] exI [of _ "[]"]) simp
  qed
qed (simp add: find_picture_def)

text \<open>A call that names no id finds a picture the application gave none.\<close>

lemma recall_without_id: "content_blocks m = [AssetBlock key mime None] \<Longrightarrow> find_picture JNull [m] = Some (AssetBlock key mime None)"
  by (simp add: find_picture_def same_id_def)

definition recall_schema :: json where
  "recall_schema = make_tool_schema ''recall_image'' (''Show an earlier image of this conversation again, by the id the '' @
     ''compaction summary'' @ [CHR 0x27] @ ''s image index gives for it.'')
     [(''id'', JObj [(''type'', JStr ''string''), (''description'', JStr (''The image'' @ [CHR 0x27] @ ''s id.''))])] [''id'']"

definition recall_image_tool :: "world tool" where
  "recall_image_tool = \<lparr>tl_name = ''recall_image'', tl_schema = recall_schema, tl_needs_sandbox = False, tl_retry_safe = False,
     tl_build = (\<lambda>params ctx. ret \<lparr>inv_description = ''Recalling an image'',
        inv_execute = execute_recall params (cx_agent_id ctx) (cx_thread_id ctx)\<rparr>),
     tl_can_execute = None, tl_on_resolve = None\<rparr>"

end
