(* ===== verification/Storage_S3.thy ===== *)
theory Storage_S3
  imports Assets Texts
begin

text \<open>
  Pictures in a bucket (\<open>actant/storage/s3.py\<close>, \<open>actant/storage/sigv4.py\<close>): the resolver, which gives a URL signed at
  the start of a window, and the store, which writes a thread's pictures under its own part of the prefix. The
  S3 client, the clock, \<open>urlsplit\<close> of the endpoint, SHA-256 and AWS's signature are parameters.
\<close>

section \<open>Keys\<close>

text \<open>\<open>urllib.parse.quote\<close>: what is neither unreserved nor in \<open>safe\<close> is written as its UTF-8 bytes.\<close>

definition unreserved :: "char \<Rightarrow> bool" where
  "unreserved c \<longleftrightarrow> (let n = of_char c :: nat in (48 \<le> n \<and> n \<le> 57) \<or> (65 \<le> n \<and> n \<le> 90) \<or> (97 \<le> n \<and> n \<le> 122)
     \<or> c \<in> {CHR ''_'', CHR ''.'', CHR ''-'', CHR ''~''})"

definition upper_hex :: "nat \<Rightarrow> char" where
  "upper_hex d = (if d < 10 then char_of (48 + d) else char_of (55 + d))"

definition percent :: "nat \<Rightarrow> string" where
  "percent b = [CHR ''%'', upper_hex (b div 16), upper_hex (b mod 16)]"

definition quote_char :: "string \<Rightarrow> char \<Rightarrow> string" where
  "quote_char safe c = (let n = of_char c :: nat in
     if unreserved c \<or> c \<in> set safe then [c]
     else if n < 128 then percent n else percent (192 + n div 64) @ percent (128 + n mod 64))"

definition quote :: "string \<Rightarrow> string \<Rightarrow> string" where
  "quote safe s = concat (map (quote_char safe) s)"

record s3_config =
  s3_bucket :: string
  s3_prefix :: string

definition s3_location_ok :: "s3_config \<Rightarrow> bool" where
  "s3_location_ok c \<longleftrightarrow> s3_bucket c \<noteq> [] \<and> s3_prefix c \<noteq> [] \<and> Texts.ends_with ''/'' (s3_prefix c)"

definition bad_location :: py_error where
  "bad_location = ValueError (''bucket and a nonempty prefix ending in '' @ [CHR 0x27, CHR ''/'', CHR 0x27] @ '' are required'')"

text \<open>What \<open>urlsplit\<close> makes of an \<open>s3://\<close> key: the bucket, the path, and whether there is a query or a fragment.\<close>

definition split_location :: "string \<Rightarrow> string \<times> string \<times> bool" where
  "split_location u = (let s = filter (\<lambda>c. c \<notin> {CHR 0x09, CHR 0x0A, CHR 0x0D}) (drop 5 u);
       netloc = takeWhile (\<lambda>c. c \<notin> {CHR ''/'', CHR ''?'', CHR ''#''}) s; more = drop (length netloc) s;
       path = takeWhile (\<lambda>c. c \<notin> {CHR ''?'', CHR ''#''}) more; tail = drop (length path) more in
     (netloc, path, tail \<notin> {[], ''?'', ''#'', ''?#''}))"

definition bad_segment :: "string \<Rightarrow> bool" where
  "bad_segment p \<longleftrightarrow> p = ''.'' \<or> p = ''..''"

definition s3_key :: "s3_config \<Rightarrow> string \<Rightarrow> py_error + string" where
  "s3_key c storage_key = try_bind
     (if Texts.starts_with ''s3://'' storage_key
      then (case split_location storage_key of (netloc, path, extra) \<Rightarrow>
        if netloc \<noteq> s3_bucket c \<or> extra then Inl (PermissionError ''asset is outside the configured bucket'')
        else Inr (dropWhile (\<lambda>ch. ch = CHR ''/'') path))
      else Inr storage_key)
     (\<lambda>key. if \<not> Texts.starts_with (s3_prefix c) key \<or> list_ex bad_segment (split_on (CHR ''/'') key)
       then Inl (PermissionError ''asset is outside the configured prefix'') else Inr key)"

lemma s3_key_inside:
  "s3_key c k = Inr key \<Longrightarrow> Texts.starts_with (s3_prefix c) key \<and> list_all (\<lambda>p. \<not> bad_segment p) (split_on (CHR ''/'') key)"
  by (auto simp: s3_key_def try_bind_Inr list_all_iff list_ex_iff split: if_splits prod.splits)

section \<open>The store\<close>

text \<open>\<open>st_extension\<close> is \<open>mimetypes.guess_extension\<close>, \<open>st_sha256\<close> the hex digest; \<open>st_put\<close> writes an object.\<close>

record 's s3_store =
  st_config :: s3_config
  st_extension :: "string \<Rightarrow> string option"
  st_sha256 :: "string \<Rightarrow> string"
  st_put :: "string \<Rightarrow> string \<Rightarrow> string \<Rightarrow> string \<Rightarrow> ('s, unit) act"

definition new_s3_store :: "'s s3_store \<Rightarrow> py_error + 's s3_store" where
  "new_s3_store st = (if s3_location_ok (st_config st) then Inr st else Inl bad_location)"

definition image_key :: "'s s3_store \<Rightarrow> string \<Rightarrow> string \<Rightarrow> string \<Rightarrow> string" where
  "image_key st thread_id data mime = s3_prefix (st_config st) @ quote [] thread_id @ ''/images/'' @ st_sha256 st data
     @ or_else (st_extension st mime) []"

definition put_image :: "'s s3_store \<Rightarrow> string \<Rightarrow> string \<Rightarrow> string \<Rightarrow> ('s, string) act" where
  "put_image st thread_id data mime =
     (if thread_id \<in> {[], ''.'', ''..''} then raise (ValueError (''invalid thread id '' @ repr_str thread_id))
      else let key = image_key st thread_id data mime in
        thn (st_put st (s3_bucket (st_config st)) key data mime) (ret key))"

section \<open>The resolver\<close>

definition max_expires_s :: int where
  "max_expires_s = 604800"

definition expiry_margin_s :: rat where
  "expiry_margin_s = 120"

definition default_window_s :: int where
  "default_window_s = 6 * 3600"

definition default_buffer_s :: int where
  "default_buffer_s = 1800"

record endpoint_parts =
  en_scheme :: string
  en_hostname :: "string option"
  en_netloc :: string
  en_port :: "int option"
  en_path :: string
  en_query :: string
  en_fragment :: string

record signing_keys =
  sk_access_key_id :: string
  sk_secret_access_key :: string
  sk_session_token :: "string option"

definition default_port :: "string \<Rightarrow> int option" where
  "default_port scheme = (if scheme = ''https'' then Some 443 else if scheme = ''http'' then Some 80 else None)"

definition check_endpoint :: "endpoint_parts \<Rightarrow> py_error + unit" where
  "check_endpoint en = (if default_port (en_scheme en) = None \<or> or_else (en_hostname en) [] = [] \<or> CHR ''@'' \<in> set (en_netloc en)
       \<or> en_query en \<noteq> [] \<or> en_fragment en \<noteq> []
     then Inl (ValueError (''endpoint_url must be an http(s) origin with an optional path, '' @ ''without credentials, query or fragment''))
     else Inr ())"

text \<open>AWS's signature of a request: the host, the path, when it is signed and for how long; it gives the path with the
  signature in its query.\<close>

record signing_request =
  sq_host :: string
  sq_path :: string
  sq_region :: string
  sq_keys :: signing_keys
  sq_signed_at :: int
  sq_expires_s :: int

record 'w s3_resolver =
  sr_config :: s3_config
  sr_endpoint :: endpoint_parts
  sr_region :: string
  sr_keys :: signing_keys
  sr_window_s :: int
  sr_buffer_s :: int
  sr_virtual :: bool
  sr_sign :: "signing_request \<Rightarrow> py_error + string"
  sr_clock :: "'w \<Rightarrow> rat"
  sr_head :: "string \<Rightarrow> string \<Rightarrow> ('w \<times> int \<times> string list, unit) act"
  sr_error_code :: "py_error \<Rightarrow> string option"

definition new_s3_resolver :: "'w s3_resolver \<Rightarrow> py_error + 'w s3_resolver" where
  "new_s3_resolver r = (if \<not> s3_location_ok (sr_config r) then Inl bad_location
     else if sr_window_s r < 1 \<or> sr_buffer_s r < 0 \<or> sr_window_s r + sr_buffer_s r > max_expires_s
       then Inl (ValueError ''invalid URL window or buffer'')
     else if sr_region r = [] \<or> sk_access_key_id (sr_keys r) = [] \<or> sk_secret_access_key (sr_keys r) = []
       then Inl (ValueError ''region and credentials are required'')
     else try_bind (check_endpoint (sr_endpoint r)) (\<lambda>_. Inr r))"

definition signed_host :: "'w s3_resolver \<Rightarrow> string" where
  "signed_host r = (let en = sr_endpoint r; host = or_else (en_hostname en) [];
       host = (case en_port en of None \<Rightarrow> host | Some p \<Rightarrow> if Some p = default_port (en_scheme en) then host else host @ '':'' @ int_str p) in
     if sr_virtual r then s3_bucket (sr_config r) @ ''.'' @ host else host)"

definition signed_path :: "'w s3_resolver \<Rightarrow> string \<Rightarrow> string" where
  "signed_path r key = (let path = CHR ''/'' # quote ''/~'' key in
     rev (dropWhile (\<lambda>c. c = CHR ''/'') (rev (en_path (sr_endpoint r)))) @ (if sr_virtual r then path else CHR ''/'' # s3_bucket (sr_config r) @ path))"

definition presign_get :: "'w s3_resolver \<Rightarrow> string \<Rightarrow> int \<Rightarrow> int \<Rightarrow> py_error + string" where
  "presign_get r key signed_at expires_s = try_bind (check_endpoint (sr_endpoint r)) (\<lambda>_.
     if \<not> (0 < expires_s \<and> expires_s \<le> max_expires_s)
     then Inl (ValueError (''expires_s must be between 1 and '' @ int_str max_expires_s @ '' seconds''))
     else try_bind (sr_sign r \<lparr>sq_host = signed_host r, sq_path = signed_path r key, sq_region = sr_region r, sq_keys = sr_keys r,
         sq_signed_at = signed_at, sq_expires_s = expires_s\<rparr>) (\<lambda>path.
       Inr (en_scheme (sr_endpoint r) @ ''://'' @ (if sr_virtual r then s3_bucket (sr_config r) @ ''.'' else []) @ en_netloc (sr_endpoint r) @ path)))"

text \<open>The resolver's own state is beside the world: the window, and the keys found in it.\<close>

definition window_start :: "'w s3_resolver \<Rightarrow> 'w \<times> int \<times> string list \<Rightarrow> int" where
  "window_start r s = \<lfloor>sr_clock r (fst s) / of_int (sr_window_s r)\<rfloor> * sr_window_s r"

definition missing_codes :: "string list" where
  "missing_codes = [''NoSuchKey'', ''NotFound'', ''404'']"

definition s3_exists :: "'w s3_resolver \<Rightarrow> string \<Rightarrow> ('w \<times> int \<times> string list, bool) act" where
  "s3_exists r key s = (case sr_head r (s3_bucket (sr_config r)) key s of
      (Inr _, s') \<Rightarrow> (Inr True, s')
    | (Inl x, s') \<Rightarrow> (if is_exception x \<and> (case sr_error_code r x of None \<Rightarrow> False | Some code \<Rightarrow> code \<in> set missing_codes)
        then Inr False else Inl x, s'))"

definition enter_window :: "int \<Rightarrow> ('w \<times> int \<times> string list, unit) act" where
  "enter_window window = modifyS (\<lambda>(w, current, found). if window \<noteq> current then (w, window, []) else (w, current, found))"

definition note_found :: "int \<Rightarrow> string \<Rightarrow> ('w \<times> int \<times> string list, unit) act" where
  "note_found window key = modifyS (\<lambda>(w, current, found). if window = current then (w, current, key # found) else (w, current, found))"

definition key_exists :: "'w s3_resolver \<Rightarrow> int \<Rightarrow> string \<Rightarrow> ('w \<times> int \<times> string list, bool) act" where
  "key_exists r window key = bnd getS (\<lambda>(_, _, found). if key \<in> set found then ret True
     else bnd (s3_exists r key) (\<lambda>there. if \<not> there then ret False else thn (note_found window key) (ret True)))"

definition missing_asset :: string where
  "missing_asset = ''asset no longer available''"

definition s3_resolve :: "'w s3_resolver \<Rightarrow> ('w \<times> int \<times> string list) asset_resolver" where
  "s3_resolve r storage_key mime ctx = bnd (from_res (s3_key (sr_config r) storage_key)) (\<lambda>key.
     if of_int (sr_buffer_s r) \<le> ac_minimum_validity_s ctx + expiry_margin_s
     then raise (ValueError ''URL buffer must exceed the model budget plus the expiry margin'')
     else bnd (readS (\<lambda>s. Inr (window_start r s))) (\<lambda>window.
       thn (enter_window window) (bnd (key_exists r window key) (\<lambda>there.
       if \<not> there then ret (MissingAsset missing_asset)
       else bnd (readS (\<lambda>s. Inr (window_start r s))) (\<lambda>signed_at. let expires_s = sr_window_s r + sr_buffer_s r in
         bnd (from_res (presign_get r key signed_at expires_s)) (\<lambda>url.
         ret (ResolvedImage \<lparr>ri_mime = mime, ri_url = Some url, ri_expires_at = Some (of_int (signed_at + expires_s)), ri_data = None\<rparr>)))))))"

section \<open>A stored picture is found where it was put\<close>

lemma upper_hex_code: "d < 16 \<Longrightarrow> of_char (upper_hex d) = (if d < 10 then 48 + d else 55 + d)"
  by (simp add: upper_hex_def)

lemma upper_hex_eq: "a < 16 \<Longrightarrow> b < 16 \<Longrightarrow> upper_hex a = upper_hex b \<longleftrightarrow> a = b"
  by (auto dest!: arg_cong [where f = "of_char :: char \<Rightarrow> nat"] simp: upper_hex_code split: if_splits)

lemma percent_eq: "a < 256 \<Longrightarrow> b < 256 \<Longrightarrow> percent a @ xs = percent b @ ys \<longleftrightarrow> a = b \<and> xs = ys"
proof -
  assume a: "a < 256" "b < 256"
  then have "upper_hex (a div 16) = upper_hex (b div 16) \<longleftrightarrow> a div 16 = b div 16" by (intro upper_hex_eq) auto
  moreover have "upper_hex (a mod 16) = upper_hex (b mod 16) \<longleftrightarrow> a mod 16 = b mod 16" by (intro upper_hex_eq) auto
  moreover have "a = b \<longleftrightarrow> a div 16 = b div 16 \<and> a mod 16 = b mod 16" by (metis div_mult_mod_eq)
  ultimately show ?thesis by (auto simp: percent_def)
qed

text \<open>A quoted character is read off the front of a quoted text.\<close>

lemma quote_char_cases:
  obtains "quote_char [] c = [c]" "c \<noteq> CHR ''%''" "c \<noteq> CHR ''/''" | "quote_char [] c = percent (of_char c)" "(of_char c :: nat) < 128"
  | "quote_char [] c = percent (192 + of_char c div 64) @ percent (128 + of_char c mod 64)" "128 \<le> (of_char c :: nat)"
proof (cases "unreserved c")
  case True
  moreover have "\<not> unreserved (CHR ''%'')" "\<not> unreserved (CHR ''/'')" by (simp_all add: unreserved_def)
  ultimately show ?thesis using that(1) by (auto simp: quote_char_def Let_def)
next
  case False
  then show ?thesis using that(2,3) by (cases "(of_char c :: nat) < 128") (auto simp: quote_char_def Let_def)
qed

lemma utf8_bytes: "k < 256 \<Longrightarrow> 192 + k div 64 < (256 :: nat)" "128 + k mod 64 < (256 :: nat)"
proof -
  show "192 + k div 64 < 256" if "k < 256" using that div_le_mono [of k 255 64] by simp
  show "128 + k mod 64 < 256" using mod_less_divisor [of 64 k] by linarith
qed

lemma quote_char_nonempty: "quote_char [] c \<noteq> []"
  by (rule quote_char_cases [of c]) (auto simp: percent_def)

lemma quote_char_take:
  assumes "quote_char [] c @ xs = quote_char [] d @ ys"
  shows "c = d \<and> xs = ys"
proof -
  let ?n = "of_char c :: nat" and ?m = "of_char d :: nat"
  have b: "?n < 256" "?m < 256" by simp_all
  then have h: "192 + ?n div 64 < 256" "192 + ?m div 64 < 256" by (simp_all add: utf8_bytes)
  have same: "?n = ?m \<Longrightarrow> c = d" by (simp add: of_char_eq_iff)
  consider (plain) "quote_char [] c = [c]" "c \<noteq> CHR ''%''" | (one) "quote_char [] c = percent ?n" "?n < 128"
    | (two) "quote_char [] c = percent (192 + ?n div 64) @ percent (128 + ?n mod 64)" by (rule quote_char_cases [of c])
  then show ?thesis
  proof cases
    case plain
    then show ?thesis using assms by (cases rule: quote_char_cases [of d]) (simp_all add: percent_def)
  next
    case one
    then show ?thesis using assms
    proof (cases rule: quote_char_cases [of d])
      case 2
      then show ?thesis using assms one b same by (simp add: percent_eq)
    next
      case 3
      then show ?thesis using assms one b h by (simp add: percent_eq)
    qed (simp_all add: percent_def)
  next
    case two
    then show ?thesis using assms
    proof (cases rule: quote_char_cases [of d])
      case 2
      then show ?thesis using assms two b h by (simp add: percent_eq)
    next
      case 3
      then have "192 + ?n div 64 = 192 + ?m div 64" "128 + ?n mod 64 = 128 + ?m mod 64" "xs = ys"
        using assms two h by (auto simp: percent_eq)
      then show ?thesis using same by (metis add_left_cancel div_mult_mod_eq)
    qed (simp_all add: percent_def)
  qed
qed

lemma quote_inj: "quote [] s = quote [] t \<Longrightarrow> s = t"
proof (induction s arbitrary: t)
  case Nil
  then show ?case by (cases t) (auto simp: quote_def quote_char_nonempty)
next
  case (Cons c s)
  then obtain d u where t: "t = d # u"
    by (cases t) (auto simp: quote_def quote_char_nonempty)
  with Cons.prems have "quote_char [] c @ quote [] s = quote_char [] d @ quote [] u" by (simp add: quote_def)
  from quote_char_take [OF this] Cons.IH t show ?case by simp
qed

lemma upper_hex_not_slash: "d < 16 \<Longrightarrow> upper_hex d \<noteq> CHR ''/''"
  by (auto dest!: arg_cong [where f = "of_char :: char \<Rightarrow> nat"] simp: upper_hex_code split: if_splits)

lemma percent_not_slash: "n < 256 \<Longrightarrow> CHR ''/'' \<notin> set (percent n)"
  using upper_hex_not_slash [of "n div 16"] upper_hex_not_slash [of "n mod 16"] by (simp add: percent_def less_mult_imp_div_less)

lemma quote_no_slash: "CHR ''/'' \<notin> set (quote [] t)"
proof -
  have "CHR ''/'' \<notin> set (quote_char [] c)" for c
  proof (cases rule: quote_char_cases [of c])
    case 3
    then show ?thesis by (simp add: percent_not_slash utf8_bytes)
  qed (auto simp: percent_not_slash)
  then show ?thesis by (simp add: quote_def)
qed

lemma quote_dots: "quote [] t = ''.'' \<longleftrightarrow> t = ''.''" "quote [] t = ''..'' \<longleftrightarrow> t = ''..''" "quote [] t = [] \<longleftrightarrow> t = []"
proof -
  have q: "quote [] ''.'' = ''.''" "quote [] ''..'' = ''..''" "quote [] [] = []" by code_simp+
  show "quote [] t = ''.'' \<longleftrightarrow> t = ''.''" using q quote_inj [of t "''.''"] by auto
  show "quote [] t = ''..'' \<longleftrightarrow> t = ''..''" using q quote_inj [of t "''..''"] by auto
  show "quote [] t = [] \<longleftrightarrow> t = []" using q quote_inj [of t "[]"] by auto
qed

lemma split_on_whole: "c \<notin> set s \<Longrightarrow> split_on c s = [s]"
  by (induction s) auto

text \<open>A prefix that names a place: it is not read as a location, and has no dots for segments.\<close>

definition plain_prefix :: "string \<Rightarrow> bool" where
  "plain_prefix p \<longleftrightarrow> \<not> Texts.starts_with ''s3:/'' p \<and> \<not> list_ex bad_segment (split_on (CHR ''/'') p)"

definition file_name :: "string \<Rightarrow> bool" where
  "file_name n \<longleftrightarrow> CHR ''/'' \<notin> set n \<and> length n > 2"

lemma key_segments:
  assumes "plain_prefix (p @ ''/'')" "CHR ''/'' \<notin> set q" "\<not> bad_segment q" "file_name n"
  shows "\<not> list_ex bad_segment (split_on (CHR ''/'') (p @ ''/'' @ q @ ''/images/'' @ n))"
proof -
  have "p @ ''/'' @ q @ ''/images/'' @ n = p @ CHR ''/'' # (q @ CHR ''/'' # (''images'' @ CHR ''/'' # n))" by simp
  then have "split_on (CHR ''/'') (p @ ''/'' @ q @ ''/images/'' @ n) = split_on (CHR ''/'') p @ [q] @ [''images''] @ [n]"
    using assms(2,4) by (simp only: split_on_append) (simp add: split_on_whole file_name_def)
  moreover have "\<not> list_ex bad_segment (split_on (CHR ''/'') p)"
    using assms(1) by (simp add: plain_prefix_def split_on_append)
  moreover have "\<not> bad_segment n" using assms(4) by (auto simp: bad_segment_def file_name_def)
  ultimately show ?thesis using assms(3) by (simp add: bad_segment_def)
qed

lemma key_not_location:
  assumes "plain_prefix (p @ ''/'')" "q \<noteq> []" "CHR ''/'' \<notin> set q"
  shows "\<not> Texts.starts_with ''s3://'' (p @ ''/'' @ q @ x)"
proof
  assume a: "Texts.starts_with ''s3://'' (p @ ''/'' @ q @ x)"
  obtain c q' where q: "q = c # q'" "c \<noteq> CHR ''/''" using assms(2,3) by (cases q) auto
  from a q assms(1) show False
    by (cases p; cases "tl p"; cases "tl (tl p)"; cases "tl (tl (tl p))"; simp add: Texts.starts_with_def plain_prefix_def split: if_splits)
qed

lemma word_before_slash:
  assumes "CHR ''/'' \<notin> set a" "CHR ''/'' \<notin> set b" "a @ CHR ''/'' # x = b @ CHR ''/'' # y"
  shows "a = b"
proof -
  have "takeWhile (\<lambda>c. c \<noteq> CHR ''/'') (w @ CHR ''/'' # z) = w" if "CHR ''/'' \<notin> set w" for w z
    using that by (induction w) auto
  then show ?thesis using assms by metis
qed

lemma put_image_key:
  "fst (put_image st thread data mime s) = Inr key \<Longrightarrow> thread \<notin> {[], ''.'', ''..''} \<and> key = image_key st thread data mime"
  by (auto simp: put_image_def Let_def thn_def bnd_def ret_def raise_def split: if_splits sum.splits prod.splits)

lemma ends_with_split: "Texts.ends_with p s \<Longrightarrow> \<exists>r. s = r @ p"
  by (simp add: Texts.ends_with_def Texts.starts_with_prefix suffix_to_prefix [symmetric] suffix_def)

text \<open>A stored picture is found where it was put, and threads do not meet: the key the store answers is inside its
  prefix and is the one a resolver of the same bucket and prefix reads, unchanged; and no other thread, whatever
  its id, is ever given that key.
\<close>

theorem stored_picture_found:
  assumes "put_image st thread data mime s = (Inr key, s')" "s3_location_ok (st_config st)" "plain_prefix (s3_prefix (st_config st))"
    "file_name (st_sha256 st data @ or_else (st_extension st mime) [])"
  shows "s3_key (st_config st) key = Inr key \<and> Texts.starts_with (s3_prefix (st_config st)) key
    \<and> (thread' = thread \<or> fst (put_image st thread' data' mime' z) \<noteq> Inr key)"
proof -
  obtain p where p: "s3_prefix (st_config st) = p @ ''/''"
    using assms(2) ends_with_split by (auto simp: s3_location_ok_def)
  let ?name = "st_sha256 st data @ or_else (st_extension st mime) []"
  have t: "thread \<notin> {[], ''.'', ''..''}" and key: "key = p @ ''/'' @ quote [] thread @ ''/images/'' @ ?name"
    using put_image_key [of st thread data mime s key] assms(1) p by (simp_all add: image_key_def)
  have q: "quote [] thread \<noteq> []" "\<not> bad_segment (quote [] thread)" using t by (auto simp: quote_dots bad_segment_def)
  have "plain_prefix (p @ ''/'')" using assms(3) p by simp
  then have inside: "\<not> list_ex bad_segment (split_on (CHR ''/'') key)" "\<not> Texts.starts_with ''s3://'' key"
    unfolding key by (rule key_segments [OF _ quote_no_slash q(2) assms(4)], rule key_not_location [OF _ q(1) quote_no_slash])
  have pre: "Texts.starts_with (s3_prefix (st_config st)) key" unfolding key p by (simp add: Texts.starts_with_prefix)
  then have "s3_key (st_config st) key = Inr key" using inside by (simp add: s3_key_def try_bind_def)
  moreover have "thread' = thread" if "fst (put_image st thread' data' mime' z) = Inr key"
  proof -
    from put_image_key [OF that] p have "key = p @ ''/'' @ quote [] thread' @ ''/images/'' @ st_sha256 st data' @ or_else (st_extension st mime') []"
      by (simp add: image_key_def)
    with key have "quote [] thread' @ CHR ''/'' # ''images/'' @ st_sha256 st data' @ or_else (st_extension st mime') []
        = quote [] thread @ CHR ''/'' # ''images/'' @ ?name" by simp
    then show ?thesis by (rule quote_inj [OF word_before_slash [OF quote_no_slash quote_no_slash]])
  qed
  ultimately show ?thesis using pre by blast
qed

definition sample_s3 :: "unit s3_store" where
  "sample_s3 = \<lparr>st_config = \<lparr>s3_bucket = ''b'', s3_prefix = ''pics/''\<rparr>, st_extension = (\<lambda>_. Some ''.png''), st_sha256 = (\<lambda>_. ''ab12''),
     st_put = (\<lambda>_ _ _ _. ret ())\<rparr>"

lemma stored_picture_found_witness:
  "s3_key (st_config sample_s3) ''pics/a%2Fb/images/ab12.png'' = Inr ''pics/a%2Fb/images/ab12.png''
     \<and> fst (put_image sample_s3 ''a'' [] ''image/png'' ()) \<noteq> Inr ''pics/a%2Fb/images/ab12.png''"
proof -
  have "put_image sample_s3 ''a/b'' [] ''image/png'' () = (Inr ''pics/a%2Fb/images/ab12.png'', ())" by code_simp
  moreover have "s3_location_ok (st_config sample_s3)" "plain_prefix (s3_prefix (st_config sample_s3))"
    "file_name (st_sha256 sample_s3 [] @ or_else (st_extension sample_s3 ''image/png'') [])" by code_simp+
  ultimately show ?thesis
    using stored_picture_found [of sample_s3 "''a/b''" "[]" "''image/png''" "()" _ "()" "''a''" "[]" "''image/png''" "()"] by simp
qed

section \<open>A signed URL outlives the call it is made for\<close>

lemma window_covers: "1 \<le> k \<Longrightarrow> (x :: rat) < of_int (\<lfloor>x / of_int k\<rfloor> * k + k)"
proof -
  assume k: "1 \<le> k"
  then have "x / of_int k < of_int (\<lfloor>x / of_int k\<rfloor> + 1)" by linarith
  then have "x < of_int (\<lfloor>x / of_int k\<rfloor> + 1) * of_int k" using k by (simp add: pos_divide_less_eq)
  then show ?thesis by (simp add: algebra_simps)
qed

lemma presign_get_url:
  "presign_get r key at' n = Inr url \<Longrightarrow> \<exists>scheme rest. default_port scheme \<noteq> None \<and> url = scheme @ ''://'' @ rest"
  by (rule exI [of _ "en_scheme (sr_endpoint r)"]) (auto simp: presign_get_def try_bind_Inr check_endpoint_def split: if_splits)

lemma resolve_resolved:
  assumes "s3_resolve r k mime ctx s = (Inr (ResolvedImage i), s')"
  shows "\<exists>key url. s3_key (sr_config r) k = Inr key \<and> ac_minimum_validity_s ctx + expiry_margin_s < of_int (sr_buffer_s r)
    \<and> presign_get r key (window_start r s') (sr_window_s r + sr_buffer_s r) = Inr url
    \<and> i = \<lparr>ri_mime = mime, ri_url = Some url, ri_expires_at = Some (of_int (window_start r s' + (sr_window_s r + sr_buffer_s r))), ri_data = None\<rparr>"
  using assms unfolding s3_resolve_def
  by (auto simp: bnd_def thn_def readS_def ret_def raise_def from_res_def Let_def split: sum.splits prod.splits if_splits bool.splits)

text \<open>C39. The URL of a picture outlives the model call it is made for: what a resolver answers is signed for the key
  inside its prefix, at the start of the window of the time it was signed at and for nothing else, so that every process
  gives the same URL within a window; and it is accepted for the call's whole budget by a request made up to two
  minutes after it was signed.
\<close>

theorem signed_url_outlives_call:
  assumes "s3_resolve r k mime ctx s = (Inr (ResolvedImage i), s')" "new_s3_resolver r = Inr r'"
    "now \<le> sr_clock r (fst s') + 120"
  shows "\<exists>key url. s3_key (sr_config r) k = Inr key \<and> Texts.starts_with (s3_prefix (sr_config r)) key
    \<and> presign_get r key (window_start r s') (sr_window_s r + sr_buffer_s r) = Inr url
    \<and> image_to_block now (ac_minimum_validity_s ctx) i = Inr (UrlImageBlock url mime)"
proof -
  from resolve_resolved [OF assms(1)] obtain key url where key: "s3_key (sr_config r) k = Inr key"
    and budget: "ac_minimum_validity_s ctx + expiry_margin_s < of_int (sr_buffer_s r)"
    and url: "presign_get r key (window_start r s') (sr_window_s r + sr_buffer_s r) = Inr url"
    and i: "i = \<lparr>ri_mime = mime, ri_url = Some url, ri_expires_at = Some (of_int (window_start r s' + (sr_window_s r + sr_buffer_s r))), ri_data = None\<rparr>"
    by blast
  have "1 \<le> sr_window_s r" using assms(2) by (auto simp: new_s3_resolver_def split: if_splits)
  from window_covers [OF this] have "sr_clock r (fst s') < of_int (window_start r s' + sr_window_s r)"
    by (simp add: window_start_def)
  then have expiry: "\<not> of_int (window_start r s' + (sr_window_s r + sr_buffer_s r)) \<le> now + ac_minimum_validity_s ctx"
    using budget assms(3) by (simp add: expiry_margin_s_def)
  have "Messages.starts_with ''https://'' url \<or> Messages.starts_with ''http://'' url"
    using presign_get_url [OF url] by (auto simp: default_port_def Messages.starts_with_def split: if_splits)
  then have "image_to_block now (ac_minimum_validity_s ctx) i = Inr (UrlImageBlock url mime)"
    using expiry i by (simp add: image_to_block_def)
  with key url s3_key_inside [OF key] show ?thesis by blast
qed

definition sample_resolver :: "rat s3_resolver" where
  "sample_resolver = \<lparr>sr_config = \<lparr>s3_bucket = ''b'', s3_prefix = ''pics/''\<rparr>,
     sr_endpoint = \<lparr>en_scheme = ''https'', en_hostname = Some ''h'', en_netloc = ''h'', en_port = None, en_path = [], en_query = [], en_fragment = []\<rparr>,
     sr_region = ''auto'', sr_keys = \<lparr>sk_access_key_id = ''i'', sk_secret_access_key = ''s'', sk_session_token = None\<rparr>,
     sr_window_s = default_window_s, sr_buffer_s = default_buffer_s, sr_virtual = False, sr_sign = (\<lambda>q. Inr (sq_path q @ ''?X'')),
     sr_clock = id, sr_head = (\<lambda>_ _. ret ()), sr_error_code = (\<lambda>_. None)\<rparr>"

lemma signed_url_outlives_call_witness:
  "\<exists>i. fst (s3_resolve sample_resolver ''pics/a.png'' ''image/png'' \<lparr>ac_agent_id = ''a'', ac_thread_id = ''t'', ac_run_id = ''r'',
       ac_turn_id = ''u'', ac_minimum_validity_s = 600\<rparr> (21700, - 1, [])) = Inr (ResolvedImage i)
     \<and> image_to_block 21800 600 i = Inr (UrlImageBlock ''https://h/b/pics/a.png?X'' ''image/png'')"
proof -
  let ?ctx = "\<lparr>ac_agent_id = ''a'', ac_thread_id = ''t'', ac_run_id = ''r'', ac_turn_id = ''u'', ac_minimum_validity_s = 600\<rparr>"
  let ?url = "''https://h/b/pics/a.png?X''"
  let ?i = "\<lparr>ri_mime = ''image/png'', ri_url = Some ?url, ri_expires_at = Some 45000, ri_data = None\<rparr>"
  have r: "s3_resolve sample_resolver ''pics/a.png'' ''image/png'' ?ctx (21700, - 1, []) = (Inr (ResolvedImage ?i), (21700, 21600, [''pics/a.png'']))"
    by code_simp
  have n: "new_s3_resolver sample_resolver = Inr sample_resolver"
    by (simp add: new_s3_resolver_def sample_resolver_def s3_location_ok_def check_endpoint_def default_port_def max_expires_s_def
      default_window_s_def default_buffer_s_def Texts.ends_with_def Texts.starts_with_def)
  from signed_url_outlives_call [OF r n, of 21800] obtain url where "image_to_block 21800 600 ?i = Inr (UrlImageBlock url ''image/png'')"
    by (auto simp: sample_resolver_def)
  then have "image_to_block 21800 600 ?i = Inr (UrlImageBlock ?url ''image/png'')"
    by (auto simp: image_to_block_def split: if_splits)
  with r show ?thesis by simp
qed

end
