(* ===== verification/Sandbox_Entry.thy ===== *)
theory Sandbox_Entry
  imports Host_Protocol Messages
begin

text \<open>
  A container sandbox's entrypoint (\<open>actant/sandbox/entry.py\<close>, with its configuration of
  \<open>actant/sandbox/protocol.py\<close>): storage is restored, then the services are served. The commands, the files, the
  clock and pydantic's parsing are parameters; which commands ran to what end, and what was printed, is noted in
  the state. Work handed to a thread pool runs where it is handed over. The loop that waits for a pull runs on
  fuel; when that is spent it is still running.
\<close>

section \<open>Configuration\<close>

record stamp_config =
  sc_argv :: "string list"
  sc_prefix :: string
  sc_root :: string
  sc_skip :: "string list"

record seed_config =
  se_argv :: "string list"
  se_copy_argv :: "string list"
  se_write_marker_argv :: "string list"
  se_check_marker_argv :: "string list"
  se_stamp :: "stamp_config option"

record pull_config =
  pc_argv :: "string list"
  pc_stamp :: "stamp_config option"

record restore_config =
  rc_argv :: "string list"
  rc_timeout_s :: rat
  rc_stamp :: "stamp_config option"
  rc_seed :: "seed_config option"
  rc_also :: "pull_config list"

record 'h entry_config =
  ec_restore :: "restore_config option"
  ec_host :: "'h option"

section \<open>Commands\<close>

record completed =
  cm_code :: int
  cm_stdout :: string
  cm_stderr :: string

text \<open>A command that finished, or why it did not.\<close>

type_synonym command_result = "string + completed"

record 's entry =
  en_ran :: "(string list \<times> command_result) list"
  en_printed :: "string list"
  en_world :: 's

text \<open>
  \<open>ee_run\<close> is \<open>subprocess.run\<close>. A pull is started, waited for (\<open>None\<close>: not over within the time), killed and read;
  \<open>ee_output\<close> is what it has printed so far. A listing is started into a file, waited for and killed.
\<close>

record 's entry_env =
  ee_run :: "string list \<Rightarrow> rat \<Rightarrow> ('s, completed) act"
  ee_start :: "string list \<Rightarrow> ('s, unit) act"
  ee_wait :: "rat \<Rightarrow> ('s, int option) act"
  ee_kill :: "('s, unit) act"
  ee_output :: "'s \<Rightarrow> string"
  ee_errors :: "'s \<Rightarrow> string"
  ee_start_lister :: "string list \<Rightarrow> ('s, unit) act"
  ee_wait_lister :: "rat \<Rightarrow> ('s, int option) act"
  ee_kill_lister :: "('s, unit) act"
  ee_listing :: "'s \<Rightarrow> string"
  ee_clock :: "'s \<Rightarrow> rat"
  ee_size :: "string \<Rightarrow> ('s, int) act"
  ee_utime :: "string \<Rightarrow> int \<Rightarrow> ('s, unit) act"
  ee_when :: "json \<Rightarrow> (int \<times> int) option"
  ee_timed_out :: "py_error \<Rightarrow> bool"
  ee_os_error :: "py_error \<Rightarrow> bool"
  ee_seconds :: "rat \<Rightarrow> string"

definition in_world :: "('s, 'a) act \<Rightarrow> ('s entry, 'a) act" where
  "in_world m s = (let (r, w) = m (en_world s) in (r, s\<lparr>en_world := w\<rparr>))"

definition print_line :: "string \<Rightarrow> ('s entry, unit) act" where
  "print_line t = modifyS (\<lambda>s. s\<lparr>en_printed := en_printed s @ [t]\<rparr>)"

definition note_run :: "string list \<Rightarrow> command_result \<Rightarrow> ('s entry, command_result) act" where
  "note_run argv r = thn (modifyS (\<lambda>s. s\<lparr>en_ran := en_ran s @ [(argv, r)]\<rparr>)) (ret r)"

definition progress_interval_s :: rat where
  "progress_interval_s = 10"

definition empty_prefix :: string where
  "empty_prefix = ''no object found''"

definition incomplete_seed :: string where
  "incomplete_seed = ''the run'' @ [CHR 0x27] @ ''s prefix has files but no seed marker: its seed copy never finished; '' @
     ''delete the prefix to seed it again''"

definition says :: "string \<Rightarrow> string \<Rightarrow> bool" where
  "says p s \<longleftrightarrow> list_ex (\<lambda>i. Texts.starts_with p (drop i s)) [0..<Suc (length s)]"

definition timed_out_after :: "'s entry_env \<Rightarrow> rat \<Rightarrow> string" where
  "timed_out_after e timeout = ''timed out after '' @ ee_seconds e timeout @ ''s''"

text \<open>\<open>_run\<close>.\<close>

definition entry_run :: "'s entry_env \<Rightarrow> string list \<Rightarrow> rat \<Rightarrow> ('s entry, command_result) act" where
  "entry_run e argv timeout s = (case in_world (ee_run e argv timeout) s of
      (Inr c, s') \<Rightarrow> note_run argv (Inr c) s'
    | (Inl x, s') \<Rightarrow> (if ee_timed_out e x then note_run argv (Inl (timed_out_after e timeout)) s'
        else if ee_os_error e x then note_run argv (Inl (''could not start: '' @ err_str x)) s'
        else (Inl x, s')))"

text \<open>\<open>_failure\<close>: why a command failed; an empty prefix is no failure.\<close>

definition command_failure :: "command_result \<Rightarrow> string option" where
  "command_failure r = (case r of
      Inl why \<Rightarrow> Some why
    | Inr c \<Rightarrow> (if cm_code c \<noteq> 0 \<and> \<not> says empty_prefix (cm_stderr c)
        then Some (''exited '' @ int_str (cm_code c) @ '': '' @ drop (length (cm_stderr c) - 4000) (cm_stderr c)) else None))"

definition says_empty :: "command_result \<Rightarrow> bool" where
  "says_empty r = (case r of Inl _ \<Rightarrow> False | Inr c \<Rightarrow> says empty_prefix (cm_stderr c))"

section \<open>A pull\<close>

definition report_progress :: "'s entry_env \<Rightarrow> bool \<Rightarrow> ('s entry, unit) act" where
  "report_progress e listing = bnd getS (\<lambda>s.
     let fetched = length (filter (Texts.starts_with ''cp '') (splitlines (ee_output e (en_world s))));
       listed = (if listing then nat_str (length (splitlines (ee_listing e (en_world s)))) else ''?'') in
     print_line (''restore: '' @ nat_str fetched @ ''/'' @ listed @ '' objects''))"

definition still_running :: py_error where
  "still_running = OtherException ''StillRunning'' []"

text \<open>The loop of \<open>_pull_once\<close>: the process's exit code, or \<open>None\<close> when it was killed.\<close>

fun wait_pull :: "'s entry_env \<Rightarrow> nat \<Rightarrow> rat \<Rightarrow> bool \<Rightarrow> ('s entry, int option) act" where
  "wait_pull e 0 deadline listing s = (Inl still_running, s)"
| "wait_pull e (Suc fuel) deadline listing s =
     bnd (in_world (ee_wait e (max 0 (min progress_interval_s (deadline - ee_clock e (en_world s)))))) (\<lambda>code.
     case code of
       Some c \<Rightarrow> ret (Some c)
     | None \<Rightarrow> bnd getS (\<lambda>s. if ee_clock e (en_world s) \<ge> deadline then thn (in_world (ee_kill e)) (ret None)
         else thn (report_progress e listing) (wait_pull e fuel deadline listing))) s"

definition pull_once :: "'s entry_env \<Rightarrow> nat \<Rightarrow> string list \<Rightarrow> rat \<Rightarrow> bool \<Rightarrow> ('s entry, command_result) act" where
  "pull_once e fuel argv timeout listing s = (case in_world (ee_start e argv) s of
      (Inl x, s') \<Rightarrow> (if ee_os_error e x then note_run argv (Inl (''could not start: '' @ err_str x)) s' else (Inl x, s'))
    | (Inr _, s') \<Rightarrow> bnd (wait_pull e fuel (ee_clock e (en_world s') + timeout) listing) (\<lambda>code.
        thn (report_progress e listing) (bnd getS (\<lambda>s. note_run argv (case code of
            None \<Rightarrow> Inl (timed_out_after e timeout)
          | Some c \<Rightarrow> Inr \<lparr>cm_code = c, cm_stdout = ee_output e (en_world s), cm_stderr = ee_errors e (en_world s)\<rparr>)))) s')"

section \<open>Stamping\<close>

record listed_object =
  lo_key :: string
  lo_modified :: "int \<times> int"
  lo_size :: int

definition read_listed :: "'s entry_env \<Rightarrow> string \<Rightarrow> listed_object option" where
  "read_listed e line = (case json_loads line of
      Some (JObj d) \<Rightarrow> (case (read_text d ''key'', Option.bind (dget d ''last_modified'') (ee_when e), jget d ''size'' (JInt 0)) of
          (Some key, Some modified, JInt n) \<Rightarrow> Some \<lparr>lo_key = key, lo_modified = modified, lo_size = n\<rparr>
        | _ \<Rightarrow> None)
    | _ \<Rightarrow> None)"

text \<open>Integer nanoseconds of the seconds and microseconds of a time.\<close>

definition nanoseconds :: "int \<times> int \<Rightarrow> int" where
  "nanoseconds t = fst t * 10 ^ 9 + snd t * 1000"

definition join_path :: "string \<Rightarrow> string \<Rightarrow> string" where
  "join_path dir rest = (if Texts.starts_with ''/'' rest then rest else dir @ ''/'' @ rest)"

definition skipped :: "string \<Rightarrow> string list \<Rightarrow> string \<Rightarrow> bool" where
  "skipped pre skip key \<longleftrightarrow> \<not> Texts.starts_with pre key \<or> list_ex (\<lambda>p. Texts.starts_with p key) skip"

text \<open>Whether a listed object's file was stamped: an \<open>OSError\<close> passes over it.\<close>

definition stamp_object :: "'s entry_env \<Rightarrow> string \<Rightarrow> string \<Rightarrow> listed_object \<Rightarrow> ('s entry, bool) act" where
  "stamp_object e pre dir i = (let path = join_path dir (drop (length pre) (lo_key i)) in
     catch (bnd (in_world (ee_size e path)) (\<lambda>n.
         if n = lo_size i then thn (in_world (ee_utime e path (nanoseconds (lo_modified i)))) (ret True) else ret False))
       (\<lambda>x. if ee_os_error e x then ret False else raise x))"

fun stamp_mtimes :: "'s entry_env \<Rightarrow> string list \<Rightarrow> string \<Rightarrow> string \<Rightarrow> string list \<Rightarrow> ('s entry, nat) act" where
  "stamp_mtimes e [] pre dir skip = ret 0"
| "stamp_mtimes e (line # lines) pre dir skip = (case read_listed e line of
      None \<Rightarrow> stamp_mtimes e lines pre dir skip
    | Some i \<Rightarrow> (if skipped pre skip (lo_key i) then stamp_mtimes e lines pre dir skip
        else bnd (stamp_object e pre dir i) (\<lambda>stamped.
          bnd (stamp_mtimes e lines pre dir skip) (\<lambda>n. ret (if stamped then Suc n else n)))))"

definition stamp :: "'s entry_env \<Rightarrow> stamp_config \<Rightarrow> rat \<Rightarrow> ('s entry, unit) act" where
  "stamp e c timeout = bnd (in_world (ee_wait_lister e timeout)) (\<lambda>code.
     case code of
       None \<Rightarrow> thn (in_world (ee_kill_lister e)) (print_line (''mtime stamp skipped: '' @ timed_out_after e timeout))
     | Some code \<Rightarrow> bnd getS (\<lambda>s. let lines = splitlines (ee_listing e (en_world s)) in
         if code \<noteq> 0
         then (let output = join_with [CHR 0x0A] lines in
           if \<not> says empty_prefix output then print_line (''mtime stamp skipped: '' @ drop (length output - 1000) output) else ret ())
         else thn (stamp_mtimes e lines (sc_prefix c) (sc_root c) (sc_skip c)) (ret ())))"

section \<open>Restoring\<close>

datatype pulled = PulledFiles | PulledEmpty | PulledFailed

definition start_lister :: "'s entry_env \<Rightarrow> stamp_config option \<Rightarrow> ('s entry, bool) act" where
  "start_lister e sc s = (case sc of
      None \<Rightarrow> ret False s
    | Some c \<Rightarrow> (case in_world (ee_start_lister e (sc_argv c)) s of
        (Inr _, s') \<Rightarrow> (Inr True, s')
      | (Inl x, s') \<Rightarrow> (if ee_os_error e x then thn (print_line (''mtime stamp skipped: could not start: '' @ err_str x)) (ret False) s'
          else (Inl x, s'))))"

text \<open>What the end of a pull is worth: \<open>sync\<close> exits 0 on an empty prefix, but says so.\<close>

definition pulled_of :: "command_result \<Rightarrow> pulled" where
  "pulled_of r = (if command_failure r \<noteq> None then PulledFailed else if says_empty r then PulledEmpty else PulledFiles)"

definition pull :: "'s entry_env \<Rightarrow> nat \<Rightarrow> string list \<Rightarrow> stamp_config option \<Rightarrow> restore_config \<Rightarrow> ('s entry, pulled) act" where
  "pull e fuel argv sc c =
     bnd (start_lister e sc) (\<lambda>lister.
     bnd (pull_once e fuel argv (rc_timeout_s c) lister) (\<lambda>r.
     case pulled_of r of
       PulledFiles \<Rightarrow> thn (case sc of Some c' \<Rightarrow> if lister then stamp e c' (rc_timeout_s c) else ret () | None \<Rightarrow> ret ()) (ret PulledFiles)
     | PulledEmpty \<Rightarrow> thn (if lister then in_world (ee_kill_lister e) else ret ()) (ret PulledEmpty)
     | PulledFailed \<Rightarrow> thn (if lister then in_world (ee_kill_lister e) else ret ())
         (thn (print_line (''restore '' @ (case command_failure r of Some why \<Rightarrow> why | None \<Rightarrow> []))) (ret PulledFailed))))"

text \<open>What a finished run's files are worth: only a marker found lets them be served.\<close>

definition marker_found :: "command_result \<Rightarrow> ('s entry, bool) act" where
  "marker_found checked = (if says_empty checked then thn (print_line (''restore: '' @ incomplete_seed)) (ret False)
     else case command_failure checked of
       Some why \<Rightarrow> thn (print_line (''seed marker check '' @ why)) (ret False)
     | None \<Rightarrow> ret True)"

definition seed_run :: "'s entry_env \<Rightarrow> nat \<Rightarrow> seed_config \<Rightarrow> restore_config \<Rightarrow> ('s entry, bool) act" where
  "seed_run e fuel seed c =
     bnd (entry_run e (se_copy_argv seed) (rc_timeout_s c)) (\<lambda>copied.
     bnd (pull e fuel (se_argv seed) (se_stamp seed) c) (\<lambda>pulled.
     case command_failure copied of
       Some why \<Rightarrow> thn (print_line (''seed copy '' @ why)) (ret False)
     | None \<Rightarrow> bnd (entry_run e (se_write_marker_argv seed) (rc_timeout_s c)) (\<lambda>marked.
         case command_failure marked of
           Some why \<Rightarrow> thn (print_line (''seed marker '' @ why)) (ret False)
         | None \<Rightarrow> ret (pulled \<noteq> PulledFailed))))"

definition restore_own :: "'s entry_env \<Rightarrow> nat \<Rightarrow> restore_config \<Rightarrow> ('s entry, bool) act" where
  "restore_own e fuel c = (case rc_seed c of
      None \<Rightarrow> bnd (pull e fuel (rc_argv c) (rc_stamp c) c) (\<lambda>pulled. ret (pulled \<noteq> PulledFailed))
    | Some seed \<Rightarrow> bnd (entry_run e (se_check_marker_argv seed) (rc_timeout_s c)) (\<lambda>checked.
        bnd (pull e fuel (rc_argv c) (rc_stamp c) c) (\<lambda>pulled.
        case pulled of
          PulledFailed \<Rightarrow> ret False
        | PulledFiles \<Rightarrow> marker_found checked
        | PulledEmpty \<Rightarrow> seed_run e fuel seed c)))"

text \<open>\<open>restore\<close>: the other pulls first, then the run's own; an error of the run's own comes first.\<close>

definition restore_all :: "'s entry_env \<Rightarrow> nat \<Rightarrow> restore_config \<Rightarrow> ('s entry, bool) act" where
  "restore_all e fuel c s = (case gathered (\<lambda>p. pull e fuel (pc_argv p) (pc_stamp p) c) (rc_also c) s of
      (others, s') \<Rightarrow> bnd (restore_own e fuel c) (\<lambda>own. bnd (from_res others) (\<lambda>pulled. ret (own \<and> PulledFailed \<notin> set pulled))) s')"

text \<open>\<open>main\<close>: \<open>parse\<close> reads the one argument, \<open>load\<close> imports the services, \<open>serve\<close> is the host's \<open>main\<close> and \<open>idle\<close> touches
  the ready file and waits for a signal.\<close>

definition entry_main :: "'s entry_env \<Rightarrow> nat \<Rightarrow> (string \<Rightarrow> string + 'h entry_config) \<Rightarrow> ('h \<Rightarrow> ('s, 'c) act) \<Rightarrow> ('h \<Rightarrow> 'c \<Rightarrow> ('s, int) act)
    \<Rightarrow> ('s, unit) act \<Rightarrow> string list \<Rightarrow> ('s entry, int) act" where
  "entry_main e fuel parse load serve idle args =
     (case args of
        [arg] \<Rightarrow> (case parse arg of
            Inl why \<Rightarrow> thn (print_line (''invalid entry config: '' @ why)) (ret 2)
          | Inr c \<Rightarrow> (\<lambda>s. case (case ec_restore c of None \<Rightarrow> (Inr True, s) | Some r \<Rightarrow> restore_all e fuel r s) of
              (restored, s') \<Rightarrow> (case ec_host c of
                  None \<Rightarrow> bnd (from_res restored) (\<lambda>ok. if \<not> ok then ret 1 else thn (in_world idle) (ret 0)) s'
                | Some h \<Rightarrow> bnd (in_world (load h)) (\<lambda>services. bnd (from_res restored) (\<lambda>ok.
                    if \<not> ok then ret 1 else in_world (serve h services))) s')))
      | _ \<Rightarrow> thn (print_line (''usage: python -m actant.sandbox.entry '' @ [CHR 0x27] @ ''<EntryConfig JSON>'' @ [CHR 0x27])) (ret 2))"

section \<open>What a step leaves of the commands that ran\<close>

definition same_ran :: "'s entry \<Rightarrow> 's entry \<Rightarrow> bool" where
  "same_ran s t \<longleftrightarrow> en_ran t = en_ran s"

interpretation ern: step_contract same_ran
  by unfold_locales (simp_all add: same_ran_def)

lemma keeps_in_world [keeps_rules]: "keeps same_ran (in_world m)"
  by (simp add: keeps_def in_world_def same_ran_def split: prod.split)

lemma keeps_print_line [keeps_rules]: "keeps same_ran (print_line t)"
  by (simp add: print_line_def ern.keeps_modifyS same_ran_def)

lemma keeps_report [keeps_rules]: "keeps same_ran (report_progress e b)"
  by (auto simp: report_progress_def Let_def intro!: ern.keeps_bnd ern.keeps_getS keeps_print_line)

lemma keeps_wait_pull: "keeps same_ran (wait_pull e fuel deadline b)"
proof (induction fuel)
  case 0
  then show ?case by (simp add: keeps_def same_ran_def)
next
  case (Suc n)
  show ?case
  proof (rule keepsI)
    fix s :: "'a entry"
    show "same_ran s (snd (wait_pull e (Suc n) deadline b s))"
      unfolding wait_pull.simps
      by (rule keepsD) (intro ern.keeps_monad keeps_rules Suc.IH)
  qed
qed

lemma keeps_stamp_object [keeps_rules]: "keeps same_ran (stamp_object e pre dir i)"
  by (auto simp: stamp_object_def Let_def intro!: ern.keeps_monad keeps_rules)

lemma keeps_stamp_mtimes [keeps_rules]: "keeps same_ran (stamp_mtimes e lines pre dir skip)"
  by (induction lines) (auto intro!: ern.keeps_monad keeps_rules split: option.split)

lemma keeps_stamp [keeps_rules]: "keeps same_ran (stamp e c timeout)"
  by (auto simp: stamp_def Let_def intro!: ern.keeps_monad keeps_rules)

lemma keeps_start_lister: "start_lister e sc s = (r, s') \<Longrightarrow> en_ran s' = en_ran s"
  by (auto simp: start_lister_def ret_def thn_def bnd_def print_line_def modifyS_def in_world_def split: option.splits prod.splits sum.splits if_splits)

lemma after_keeps: "keeps same_ran m \<Longrightarrow> m s = (r, t) \<Longrightarrow> en_ran t = en_ran s"
  using keepsD [of same_ran m s] by (simp add: same_ran_def)

text \<open>A command that came to an end is noted once, with what it came to.\<close>

lemma entry_run_notes: "entry_run e argv timeout s = (Inr r, t) \<Longrightarrow> en_ran t = en_ran s @ [(argv, r)]"
  by (auto simp: entry_run_def note_run_def thn_def bnd_def modifyS_def ret_def in_world_def split: prod.splits sum.splits if_splits)

lemma pull_once_notes:
  assumes "pull_once e fuel argv timeout b s = (Inr r, t)"
  shows "en_ran t = en_ran s @ [(argv, r)]"
proof (cases "in_world (ee_start e argv) s")
  case (Pair q u)
  have u: "en_ran u = en_ran s" by (rule after_keeps [OF keeps_in_world Pair])
  show ?thesis
  proof (cases q)
    case (Inl x)
    then show ?thesis using assms Pair u
      by (auto simp: pull_once_def note_run_def thn_def bnd_def modifyS_def ret_def split: if_splits)
  next
    case (Inr a)
    then obtain code v where v: "wait_pull e fuel (ee_clock e (en_world u) + timeout) b u = (Inr code, v)"
      using assms Pair by (cases "wait_pull e fuel (ee_clock e (en_world u) + timeout) b u") (auto simp: pull_once_def bnd_def split: sum.splits)
    obtain p w where w: "report_progress e b v = (p, w)" by fastforce
    have "en_ran w = en_ran s" using after_keeps [OF keeps_wait_pull v] after_keeps [OF keeps_report w] u by simp
    then show ?thesis using assms Pair Inr v w
      by (auto simp: pull_once_def note_run_def thn_def bnd_def modifyS_def ret_def getS_def split: sum.splits)
  qed
qed

lemma pull_notes:
  assumes "pull e fuel argv sc c s = (Inr p, t)"
  shows "\<exists>r. p = pulled_of r \<and> en_ran t = en_ran s @ [(argv, r)]"
proof -
  obtain l u where u: "start_lister e sc s = (Inr l, u)" using assms
    by (cases "start_lister e sc s") (auto simp: pull_def bnd_def split: sum.splits)
  obtain r v where v: "pull_once e fuel argv (rc_timeout_s c) l u = (Inr r, v)" using assms u
    by (cases "pull_once e fuel argv (rc_timeout_s c) l u") (auto simp: pull_def bnd_def split: sum.splits)
  have k: "keeps same_ran (case pulled_of r of
       PulledFiles \<Rightarrow> thn (case sc of Some c' \<Rightarrow> if l then stamp e c' (rc_timeout_s c) else ret () | None \<Rightarrow> ret ()) (ret PulledFiles)
     | PulledEmpty \<Rightarrow> thn (if l then in_world (ee_kill_lister e) else ret ()) (ret PulledEmpty)
     | PulledFailed \<Rightarrow> thn (if l then in_world (ee_kill_lister e) else ret ())
         (thn (print_line (''restore '' @ (case command_failure r of Some why \<Rightarrow> why | None \<Rightarrow> []))) (ret PulledFailed)))"
    (is "keeps same_ran ?m")
    by (auto intro!: ern.keeps_monad keeps_rules split: pulled.split)
  have m: "?m v = (Inr p, t)" using assms u v by (simp add: pull_def bnd_def)
  then have "p = pulled_of r"
    by (auto simp: thn_def bnd_def ret_def split: pulled.splits sum.splits prod.splits)
  with after_keeps [OF k m] keeps_start_lister [OF u] pull_once_notes [OF v] show ?thesis by auto
qed

section \<open>A partial seed is never served\<close>

lemma marker_found_result: "marker_found checked s = (Inr served, t) \<Longrightarrow>
    en_ran t = en_ran s \<and> served = (command_failure checked = None \<and> \<not> says_empty checked)"
  by (auto simp: marker_found_def thn_def bnd_def print_line_def modifyS_def ret_def split: if_splits option.splits)

definition seeded :: "seed_config \<Rightarrow> (string list \<times> command_result) list \<Rightarrow> bool \<Rightarrow> bool" where
  "seeded seed cmds served \<longleftrightarrow> (\<exists>copied own marked. cmds = (se_copy_argv seed, copied) # (se_argv seed, own) # marked
     \<and> (if command_failure copied = None
        then \<exists>m. marked = [(se_write_marker_argv seed, m)] \<and> served = (command_failure m = None \<and> pulled_of own \<noteq> PulledFailed)
        else marked = [] \<and> \<not> served))"

lemma seed_run_notes:
  assumes "seed_run e fuel seed c s = (Inr served, t)"
  shows "\<exists>cmds. en_ran t = en_ran s @ cmds \<and> seeded seed cmds served"
proof -
  obtain copied u where u: "entry_run e (se_copy_argv seed) (rc_timeout_s c) s = (Inr copied, u)" using assms
    by (cases "entry_run e (se_copy_argv seed) (rc_timeout_s c) s") (auto simp: seed_run_def bnd_def split: sum.splits)
  obtain p v where v: "pull e fuel (se_argv seed) (se_stamp seed) c u = (Inr p, v)" using assms u
    by (cases "pull e fuel (se_argv seed) (se_stamp seed) c u") (auto simp: seed_run_def bnd_def split: sum.splits)
  from pull_notes [OF v] obtain own where own: "p = pulled_of own" "en_ran v = en_ran u @ [(se_argv seed, own)]" by blast
  show ?thesis
  proof (cases "command_failure copied")
    case None
    then obtain m w where w: "entry_run e (se_write_marker_argv seed) (rc_timeout_s c) v = (Inr m, w)" using assms u v
      by (cases "entry_run e (se_write_marker_argv seed) (rc_timeout_s c) v") (auto simp: seed_run_def bnd_def split: sum.splits)
    have "en_ran t = en_ran w \<and> served = (command_failure m = None \<and> pulled_of own \<noteq> PulledFailed)"
      using assms u v w None own(1)
      by (auto simp: seed_run_def bnd_def thn_def print_line_def modifyS_def ret_def split: option.splits)
    then show ?thesis using None own entry_run_notes [OF u] entry_run_notes [OF w] by (auto simp: seeded_def)
  next
    case (Some why)
    then have "en_ran t = en_ran v \<and> \<not> served" using assms u v
      by (auto simp: seed_run_def bnd_def thn_def print_line_def modifyS_def ret_def)
    then show ?thesis using Some own entry_run_notes [OF u] by (auto simp: seeded_def)
  qed
qed

text \<open>C28. A partial seed is never served, and files of a run are never seeded over: a start that has a seed first looks
  for the marker and pulls the run's own files. With files, it goes on exactly when the marker was found, and runs
  nothing more; without files, the seed is copied and pulled, the marker is written only once the copy has
  succeeded, and the start goes on exactly when the copy, the marker and the pull all succeeded; a failed pull of the
  run's own files ends the start there.\<close>

theorem partial_seed_never_served:
  assumes "rc_seed c = Some seed" "restore_own e fuel c s = (Inr served, t)"
  shows "\<exists>checked own rest. en_ran t = en_ran s @ (se_check_marker_argv seed, checked) # (rc_argv c, own) # rest
    \<and> (case pulled_of own of
         PulledFailed \<Rightarrow> rest = [] \<and> \<not> served
       | PulledFiles \<Rightarrow> rest = [] \<and> served = (command_failure checked = None \<and> \<not> says_empty checked)
       | PulledEmpty \<Rightarrow> seeded seed rest served)"
proof -
  obtain checked u where u: "entry_run e (se_check_marker_argv seed) (rc_timeout_s c) s = (Inr checked, u)" using assms
    by (cases "entry_run e (se_check_marker_argv seed) (rc_timeout_s c) s") (auto simp: restore_own_def bnd_def split: sum.splits)
  obtain p v where v: "pull e fuel (rc_argv c) (rc_stamp c) c u = (Inr p, v)" using assms u
    by (cases "pull e fuel (rc_argv c) (rc_stamp c) c u") (auto simp: restore_own_def bnd_def split: sum.splits)
  from pull_notes [OF v] obtain own where own: "p = pulled_of own" "en_ran v = en_ran u @ [(rc_argv c, own)]" by blast
  have cmds: "en_ran v = en_ran s @ [(se_check_marker_argv seed, checked), (rc_argv c, own)]"
    using own(2) entry_run_notes [OF u] by simp
  have "(case pulled_of own of PulledFailed \<Rightarrow> ret False | PulledFiles \<Rightarrow> marker_found checked | PulledEmpty \<Rightarrow> seed_run e fuel seed c) v = (Inr served, t)"
    using assms u v own(1) by (simp add: restore_own_def bnd_def cong: pulled.case_cong)
  then show ?thesis using cmds marker_found_result [of checked v served t] seed_run_notes [of e fuel seed c v served t]
    by (cases "pulled_of own") (auto simp: ret_def)
qed

text \<open>A run whose prefix has files and no marker.\<close>

definition sample_run :: restore_config where
  "sample_run = \<lparr>rc_argv = [''pull''], rc_timeout_s = 60, rc_stamp = None, rc_seed = Some \<lparr>se_argv = [''seed''], se_copy_argv = [''copy''],
     se_write_marker_argv = [''mark''], se_check_marker_argv = [''check''], se_stamp = None\<rparr>, rc_also = []\<rparr>"

definition sample_entry :: "unit entry_env" where
  "sample_entry = \<lparr>ee_run = (\<lambda>argv _. ret \<lparr>cm_code = 1, cm_stdout = [], cm_stderr = empty_prefix\<rparr>), ee_start = (\<lambda>_. ret ()),
     ee_wait = (\<lambda>_. ret (Some 0)), ee_kill = ret (), ee_output = (\<lambda>_. ''cp a b''), ee_errors = (\<lambda>_. []), ee_start_lister = (\<lambda>_. ret ()),
     ee_wait_lister = (\<lambda>_. ret (Some 0)), ee_kill_lister = ret (), ee_listing = (\<lambda>_. []), ee_clock = (\<lambda>_. 0), ee_size = (\<lambda>_. ret 0),
     ee_utime = (\<lambda>_ _. ret ()), ee_when = (\<lambda>_. None), ee_timed_out = (\<lambda>_. False), ee_os_error = (\<lambda>_. False), ee_seconds = (\<lambda>_. [])\<rparr>"

lemma partial_seed_never_served_witness:
  "\<exists>t. restore_own sample_entry 1 sample_run \<lparr>en_ran = [], en_printed = [], en_world = ()\<rparr> = (Inr False, t)
     \<and> map fst (en_ran t) = [[''check''], [''pull'']]"
proof -
  let ?r = "restore_own sample_entry 1 sample_run \<lparr>en_ran = [], en_printed = [], en_world = ()\<rparr>"
  have f: "fst ?r = Inr False" by code_simp
  then obtain t where t: "?r = (Inr False, t)" by (cases ?r) simp
  have own: "pulled_of (Inr \<lparr>cm_code = 0, cm_stdout = ''cp a b'', cm_stderr = []\<rparr>) = PulledFiles" by code_simp
  have n: "en_ran (snd ?r) = [([''check''], Inr \<lparr>cm_code = 1, cm_stdout = [], cm_stderr = empty_prefix\<rparr>),
      ([''pull''], Inr \<lparr>cm_code = 0, cm_stdout = ''cp a b'', cm_stderr = []\<rparr>)]" by code_simp
  from partial_seed_never_served [of sample_run _ sample_entry 1, OF _ t] n t own show ?thesis
    by (auto simp: sample_run_def split: pulled.splits)
qed

text \<open>The host is started only after the restore succeeded.\<close>

lemma served_after_restore:
  assumes "parse arg = Inr c" "ec_restore c = Some r" "fst (restore_all e fuel r s) = Inr False" "ec_host c = Some h"
    "\<And>w. \<exists>x w'. load h w = (Inr x, w')"
  shows "fst (entry_main e fuel parse load serve idle [arg] s) = Inr 1"
proof -
  obtain t where t: "restore_all e fuel r s = (Inr False, t)" using assms(3) by (cases "restore_all e fuel r s") simp
  obtain x w' where "load h (en_world t) = (Inr x, w')" using assms(5) by blast
  then show ?thesis using assms(1,2,4) t
    by (simp add: entry_main_def bnd_def in_world_def from_res_def readS_def ret_def)
qed

section \<open>A pull ends\<close>

text \<open>A wait that ran out took its time, and printing takes none.\<close>

definition waits_truly :: "'s entry_env \<Rightarrow> bool" where
  "waits_truly e \<longleftrightarrow> (\<forall>t w w'. ee_wait e t w = (Inr None, w') \<longrightarrow> ee_clock e w + t \<le> ee_clock e w')"

lemma report_world: "report_progress e b s = (r, t) \<Longrightarrow> en_world t = en_world s \<and> r = Inr ()"
  by (auto simp: report_progress_def bnd_def getS_def print_line_def modifyS_def Let_def)

lemma wait_pull_ends:
  assumes w: "waits_truly e" and k: "\<And>t w. fst (ee_wait e t w) \<noteq> Inl still_running" "\<And>w. fst (ee_kill e w) \<noteq> Inl still_running"
  shows "deadline - ee_clock e (en_world s) \<le> of_nat n * progress_interval_s \<Longrightarrow>
    fst (wait_pull e (Suc n) deadline b s) \<noteq> Inl still_running"
proof (induction n arbitrary: s)
  case 0
  let ?t = "max 0 (min progress_interval_s (deadline - ee_clock e (en_world s)))"
  obtain r u where u: "ee_wait e ?t (en_world s) = (r, u)" by fastforce
  have "r \<noteq> Inl still_running" using k(1) [of ?t "en_world s"] u by simp
  moreover have "deadline \<le> ee_clock e u" if "r = Inr None"
  proof -
    have "?t = 0" using 0 by (simp add: max_def min_def progress_interval_s_def)
    with w u that have "ee_clock e (en_world s) + 0 \<le> ee_clock e u" by (metis waits_truly_def)
    with 0 show ?thesis by simp
  qed
  ultimately show ?case using u k(2) [of u]
    by (auto simp: bnd_def in_world_def getS_def thn_def ret_def split: sum.splits option.splits prod.splits)
next
  case (Suc n)
  let ?t = "max 0 (min progress_interval_s (deadline - ee_clock e (en_world s)))"
  obtain r u where u: "ee_wait e ?t (en_world s) = (r, u)" by fastforce
  have r: "r \<noteq> Inl still_running" using k(1) [of ?t "en_world s"] u by simp
  show ?case
  proof (cases "r = Inr None \<and> ee_clock e u < deadline")
    case False
    then show ?thesis using u r k(2) [of u] unfolding wait_pull.simps(2) [of e "Suc n"]
      by (auto simp: bnd_def in_world_def getS_def thn_def ret_def simp del: wait_pull.simps split: sum.splits option.splits prod.splits)
  next
    case True
    then have "ee_clock e (en_world s) + ?t \<le> ee_clock e u" using w u by (auto simp: waits_truly_def)
    moreover have "?t = progress_interval_s" using calculation True by (auto simp: max_def min_def progress_interval_s_def split: if_splits)
    ultimately have d: "deadline - ee_clock e u \<le> of_nat n * progress_interval_s" using Suc.prems by (simp add: algebra_simps)
    obtain q v where v: "report_progress e b (s\<lparr>en_world := u\<rparr>) = (q, v)" by fastforce
    have "fst (wait_pull e (Suc n) deadline b v) \<noteq> Inl still_running" using report_world [OF v] d by (intro Suc.IH) simp
    then show ?thesis using u True report_world [OF v] v unfolding wait_pull.simps(2) [of e "Suc n"]
      by (auto simp: bnd_def in_world_def getS_def thn_def ret_def simp del: wait_pull.simps)
  qed
qed

end
