(* ===== verification/Inline_Images.thy ===== *)
theory Inline_Images
  imports Assets
begin

text \<open>
  Pictures sent in the request itself (\<open>read_image\<close>, \<open>fit_image\<close> and \<open>InlineImages\<close> of \<open>actant/assets.py\<close>): a
  picture is read from its URL, fitted to a size, and kept. Pillow, the URL's bytes and the sleeps are
  parameters. Callers that share a read under way are taken one after another. The loop of \<open>fit_image\<close> runs on fuel.
\<close>

section \<open>Fitting a picture\<close>

text \<open>Pillow's images are an arbitrary type; \<open>pl_open\<close> also gives the format, and \<open>pl_alpha_low\<close> the least value of the
  alpha channel, when it is a number.\<close>

record 'i pillow =
  pl_open :: "string \<Rightarrow> py_error + 'i \<times> string option"
  pl_size :: "'i \<Rightarrow> nat \<times> nat"
  pl_mode :: "'i \<Rightarrow> string"
  pl_thumbnail :: "nat \<Rightarrow> 'i \<Rightarrow> 'i"
  pl_convert :: "string \<Rightarrow> 'i \<Rightarrow> 'i"
  pl_alpha_low :: "'i \<Rightarrow> rat option"
  pl_png :: "'i \<Rightarrow> string"
  pl_jpeg :: "int \<Rightarrow> 'i \<Rightarrow> string"
  pl_resize :: "nat \<times> nat \<Rightarrow> 'i \<Rightarrow> 'i"

definition read_image_bytes :: int where
  "read_image_bytes = 50000000"

definition inline_image_bytes :: int where
  "inline_image_bytes = read_image_bytes * 9 div 10 div 50 * 3 div 4"

definition inline_image_side :: nat where
  "inline_image_side = 2048"

definition inline_jpeg_quality :: int where
  "inline_jpeg_quality = 85"

definition inline_cache_bytes :: int where
  "inline_cache_bytes = 256 * 1024 * 1024"

definition encoded :: "'i pillow \<Rightarrow> bool \<Rightarrow> int \<Rightarrow> 'i \<Rightarrow> string" where
  "encoded pl alpha quality i = (if alpha then pl_png pl i else pl_jpeg pl quality i)"

definition smaller :: "nat \<times> nat \<Rightarrow> nat \<times> nat" where
  "smaller wh = (max 1 (fst wh * 3 div 4), max 1 (snd wh * 3 div 4))"

text \<open>The loop: the quality, then the size; \<open>None\<close> when it has not ended.\<close>

fun fit_loop :: "'i pillow \<Rightarrow> nat \<Rightarrow> bool \<Rightarrow> int \<Rightarrow> int \<Rightarrow> int \<Rightarrow> 'i \<Rightarrow> (string \<times> string) option" where
  "fit_loop pl 0 alpha max_bytes lowest step i = None"
| "fit_loop pl (Suc fuel) alpha max_bytes lowest step i = (let out = encoded pl alpha step i in
     if int (length out) \<le> max_bytes then Some (out, if alpha then ''image/png'' else ''image/jpeg'')
     else if \<not> alpha \<and> step > lowest then fit_loop pl fuel alpha max_bytes lowest (step - 10) i
     else fit_loop pl fuel alpha max_bytes lowest step (pl_resize pl (smaller (pl_size pl i)) i))"

definition real_alpha :: "'i pillow \<Rightarrow> 'i \<Rightarrow> bool" where
  "real_alpha pl i \<longleftrightarrow> pl_mode pl i \<in> {''RGBA'', ''LA'', ''PA''} \<and> (case pl_alpha_low pl i of None \<Rightarrow> False | Some low \<Rightarrow> low < 255)"

definition fit_image :: "'i pillow \<Rightarrow> nat \<Rightarrow> string \<Rightarrow> nat \<Rightarrow> int \<Rightarrow> int \<Rightarrow> py_error + (string \<times> string) option" where
  "fit_image pl fuel data side max_bytes quality = try_bind (pl_open pl data) (\<lambda>(opened, format).
     if max (fst (pl_size pl opened)) (snd (pl_size pl opened)) \<le> side \<and> int (length data) \<le> max_bytes \<and> format = Some ''JPEG''
     then Inr (Some (data, ''image/jpeg''))
     else (let i = pl_thumbnail pl side opened; i = (if pl_mode pl i = ''P'' then pl_convert pl ''RGBA'' i else i);
         alpha = real_alpha pl i; i = (if \<not> alpha then pl_convert pl ''RGB'' i else i) in
       Inr (fit_loop pl fuel alpha max_bytes (quality - 30) quality i)))"

section \<open>Reading a picture\<close>

text \<open>\<open>ie_urlopen\<close> opens a URL and reads at most as many bytes as it is given.\<close>

record ('s, 'i) inline_env =
  ie_urlopen :: "string \<Rightarrow> nat \<Rightarrow> rat \<Rightarrow> ('s, string) act"
  ie_sleep :: "nat \<Rightarrow> ('s, unit) act"
  ie_url_error :: "py_error \<Rightarrow> bool"
  ie_unidentified :: "py_error \<Rightarrow> bool"
  ie_pillow :: "'i pillow"

record 's inline_images =
  in_resolver :: "'s asset_resolver"
  in_image_side :: nat
  in_image_bytes :: int
  in_jpeg_quality :: int
  in_read_bytes :: nat
  in_read_attempts :: nat
  in_read_timeout_s :: rat
  in_cache_bytes :: int

definition new_inline_images :: "'s inline_images \<Rightarrow> py_error + 's inline_images \<times> image_cache" where
  "new_inline_images c = (if in_read_attempts c < 1 then Inl (ValueError ''read_attempts must be positive'')
     else Inr (c, \<lparr>ic_kept = [], ic_bytes = 0, ic_limit = in_cache_bytes c\<rparr>))"

definition fetch_image :: "('s, 'i) inline_env \<Rightarrow> string \<Rightarrow> nat \<Rightarrow> rat \<Rightarrow> ('s, string option) act" where
  "fetch_image e url limit timeout_s = bnd (ie_urlopen e url (Suc limit) timeout_s) (\<lambda>data.
     ret (if length data \<le> limit then Some data else None))"

text \<open>The attempts left; attempt \<open>n\<close> is followed by a wait of \<open>2 ^ n\<close> seconds.\<close>

fun read_attempts :: "('s, 'i) inline_env \<Rightarrow> 's inline_images \<Rightarrow> string \<Rightarrow> nat \<Rightarrow> nat \<Rightarrow> ('s, string option) act" where
  "read_attempts e c url attempt 0 s = (Inr None, s)"
| "read_attempts e c url attempt (Suc left) s = (case fetch_image e url (in_read_bytes c) (in_read_timeout_s c) s of
      (Inr data, s') \<Rightarrow> (Inr data, s')
    | (Inl x, s') \<Rightarrow> (if ie_url_error e x \<and> left > 0
        then thn (ie_sleep e (2 ^ attempt)) (read_attempts e c url (Suc attempt) left) s' else (Inl x, s')))"

text \<open>\<open>_read\<close>; \<open>None\<close> when fitting the picture has not ended.\<close>

definition fitted :: "('s, 'i) inline_env \<Rightarrow> nat \<Rightarrow> 's inline_images \<Rightarrow> string \<Rightarrow> string \<Rightarrow> py_error + resolution option" where
  "fitted e fuel c key data = (case fit_image (ie_pillow e) fuel data (in_image_side c) (in_image_bytes c) (in_jpeg_quality c) of
      Inl x \<Rightarrow> (if ie_unidentified e x then Inr (Some (MissingAsset (key @ '': not a picture''))) else Inl x)
    | Inr None \<Rightarrow> Inr None
    | Inr (Some (out, mime)) \<Rightarrow> Inr (Some (ResolvedImage \<lparr>ri_mime = mime, ri_url = None, ri_expires_at = None, ri_data = Some out\<rparr>)))"

definition read_inline :: "('s, 'i) inline_env \<Rightarrow> nat \<Rightarrow> 's inline_images \<Rightarrow> string \<Rightarrow> string \<Rightarrow> asset_context \<Rightarrow> ('s, resolution option) act" where
  "read_inline e fuel c key mime ctx = bnd (in_resolver c key mime ctx) (\<lambda>found.
     case found of
       MissingAsset why \<Rightarrow> ret (Some found)
     | ResolvedImage i \<Rightarrow> (case ri_url i of
           None \<Rightarrow> ret (Some found)
         | Some url \<Rightarrow> bnd (read_attempts e c url 0 (in_read_attempts c)) (\<lambda>data.
             case data of
               None \<Rightarrow> ret (Some (MissingAsset (key @ '': larger than a whole request'' @ [CHR 0x27] @ ''s images'')))
             | Some data \<Rightarrow> from_res (fitted e fuel c key data))))"

text \<open>\<open>resolve\<close>: a kept picture, or one read and then kept.\<close>

definition with_cache :: "('s, 'a) act \<Rightarrow> ('s \<times> image_cache, 'a) act" where
  "with_cache m s = (let (r, w) = m (fst s) in (r, (w, snd s)))"

definition resolve_inline :: "('s, 'i) inline_env \<Rightarrow> nat \<Rightarrow> 's inline_images \<Rightarrow> string \<Rightarrow> string \<Rightarrow> asset_context
    \<Rightarrow> ('s \<times> image_cache, resolution option) act" where
  "resolve_inline e fuel c key mime ctx s = (case cache_lookup key (snd s) of
      (Some i, kept) \<Rightarrow> (Inr (Some (ResolvedImage i)), (fst s, kept))
    | (None, _) \<Rightarrow> bnd (with_cache (read_inline e fuel c key mime ctx)) (\<lambda>found.
        (case found of
          Some (ResolvedImage i) \<Rightarrow> (if ri_data i = None then ret found
            else (\<lambda>t. case cache_keep key i (snd t) of Inl x \<Rightarrow> (Inl x, t) | Inr kept \<Rightarrow> (Inr found, (fst t, kept))))
        | _ \<Rightarrow> ret found)) s)"

section \<open>A picture that fits, and one that is found\<close>

lemma fit_loop_fits: "fit_loop pl fuel alpha max_bytes lowest step i = Some (out, mime) \<Longrightarrow>
    int (length out) \<le> max_bytes \<and> mime = (if alpha then ''image/png'' else ''image/jpeg'')"
  by (induction fuel arbitrary: step i) (auto simp: Let_def split: if_splits)

lemma fit_image_fits: "fit_image pl fuel data side max_bytes quality = Inr (Some (out, mime)) \<Longrightarrow>
    int (length out) \<le> max_bytes \<and> valid_image_mime mime"
proof -
  assume a: "fit_image pl fuel data side max_bytes quality = Inr (Some (out, mime))"
  have "int (length out) \<le> max_bytes \<and> mime \<in> {''image/png'', ''image/jpeg''}"
    using a by (auto simp: fit_image_def try_bind_Inr Let_def dest!: fit_loop_fits split: if_splits)
  moreover have "valid_image_mime ''image/png''" "valid_image_mime ''image/jpeg''" by code_simp+
  ultimately show ?thesis by auto
qed

text \<open>A picture goes in the request or not at all: never as a URL, and one that was read is within the limit.\<close>

lemma inline_never_a_url:
  assumes "read_inline e fuel c key mime ctx s = (Inr (Some (ResolvedImage i)), t)"
  shows "ri_url i = None \<and> (fst (in_resolver c key mime ctx s) = Inr (ResolvedImage i)
    \<or> (\<exists>out. ri_data i = Some out \<and> int (length out) \<le> in_image_bytes c \<and> valid_image_mime (ri_mime i)))"
  using assms unfolding read_inline_def
  by (auto simp: bnd_def ret_def from_res_def readS_def fitted_def dest!: fit_image_fits
      split: prod.splits sum.splits resolution.splits option.splits if_splits)

text \<open>Resizing gives the size asked for, and a picture of one pixel is small enough: then the loop ends.\<close>

definition resizes :: "'i pillow \<Rightarrow> bool" where
  "resizes pl \<longleftrightarrow> (\<forall>i wh. pl_size pl (pl_resize pl wh i) = wh)"

definition pixel_fits :: "'i pillow \<Rightarrow> int \<Rightarrow> bool" where
  "pixel_fits pl max_bytes \<longleftrightarrow> (\<forall>i alpha quality. fst (pl_size pl i) \<le> 1 \<and> snd (pl_size pl i) \<le> 1 \<longrightarrow> int (length (encoded pl alpha quality i)) \<le> max_bytes)"

definition extent :: "'i pillow \<Rightarrow> 'i \<Rightarrow> nat" where
  "extent pl i = max 1 (fst (pl_size pl i)) + max 1 (snd (pl_size pl i))"

lemma three_quarters: "max 1 (max 1 (w * 3 div 4)) \<le> max 1 (w :: nat)" "1 < w \<Longrightarrow> max 1 (max 1 (w * 3 div 4)) < max 1 (w :: nat)"
  by auto

lemma extent_resize:
  assumes "resizes pl" "\<not> (fst (pl_size pl i) \<le> 1 \<and> snd (pl_size pl i) \<le> 1)"
  shows "extent pl (pl_resize pl (smaller (pl_size pl i)) i) < extent pl i"
proof -
  have "pl_size pl (pl_resize pl (smaller (pl_size pl i)) i) = smaller (pl_size pl i)" using assms(1) unfolding resizes_def by blast
  then show ?thesis using assms(2) three_quarters [of "fst (pl_size pl i)"] three_quarters [of "snd (pl_size pl i)"]
    by (cases "1 < fst (pl_size pl i)") (auto simp: extent_def smaller_def)
qed

lemma fit_loop_ends:
  assumes "resizes pl" "pixel_fits pl max_bytes"
  shows "nat (step - lowest) + extent pl i < fuel \<Longrightarrow> fit_loop pl fuel alpha max_bytes lowest step i \<noteq> None"
proof (induction fuel arbitrary: step i)
  case (Suc n)
  show ?case
  proof (cases "int (length (encoded pl alpha step i)) \<le> max_bytes")
    case False
    then have big: "\<not> (fst (pl_size pl i) \<le> 1 \<and> snd (pl_size pl i) \<le> 1)" using assms(2) by (auto simp: pixel_fits_def)
    show ?thesis
    proof (cases "\<not> alpha \<and> step > lowest")
      case True
      have "nat (step - 10 - lowest) + extent pl i < n" using Suc.prems True by linarith
      from Suc.IH [OF this] show ?thesis using False True by (simp add: Let_def)
    next
      case small: False
      have "nat (step - lowest) + extent pl (pl_resize pl (smaller (pl_size pl i)) i) < n"
        using Suc.prems extent_resize [OF assms(1) big] by linarith
      from Suc.IH [OF this] show ?thesis using False small by (auto simp: Let_def)
    qed
  qed (simp add: Let_def)
qed simp

text \<open>A limit no picture meets is looked for without end.\<close>

lemma unmet_limit_loops:
  "(\<And>quality i. max_bytes < int (length (encoded pl alpha quality i))) \<Longrightarrow> fit_loop pl fuel alpha max_bytes lowest step i = None"
  by (induction fuel arbitrary: step i) (auto simp: Let_def not_le)

end
