(* ===== verification/Host_Post.thy ===== *)
theory Host_Post
  imports Host_Protocol
begin

text \<open>
  The pooled client of a service host (\<open>_prune\<close> and \<open>post\<close> of \<open>actant/sandbox/host.py\<close>): idle connections are
  kept per scheme and host and used again. Connections are numbers; what \<open>http.client\<close> and \<open>select\<close> do with
  them is a parameter. Which connections a whole request was written to, and which were closed, is noted in
  the state. The loop runs on fuel: as many turns as there are idle connections, and one more, are enough.
\<close>

section \<open>The pool\<close>

definition idle_reuse_s :: rat where
  "idle_reuse_s = 20"

definition max_idle_per_host :: nat where
  "max_idle_per_host = 32"

type_synonym pool = "(nat \<times> rat) list"

record 'w poster =
  po_idle :: "(string \<times> string, pool) dict"
  po_next :: nat
  po_written :: "nat list"
  po_closed :: "nat list"
  po_world :: 'w

text \<open>\<open>pe_usable\<close>: the connection has a socket and nothing is to be read from it; \<open>pe_response\<close> gives the status, the body
  and whether the server closes.\<close>

record 'w post_env =
  pe_clock :: "'w \<Rightarrow> rat"
  pe_usable :: "'w \<Rightarrow> nat \<Rightarrow> bool"
  pe_request :: "nat \<Rightarrow> rat \<Rightarrow> ('w, unit) act"
  pe_response :: "nat \<Rightarrow> ('w, int \<times> string \<times> bool) act"
  pe_os_error :: "py_error \<Rightarrow> bool"

definition young :: "rat \<Rightarrow> nat \<times> rat \<Rightarrow> bool" where
  "young now c \<longleftrightarrow> now - snd c < idle_reuse_s"

definition prune :: "rat \<Rightarrow> 'w poster \<Rightarrow> 'w poster" where
  "prune now s = s\<lparr>po_closed := po_closed s @ concat (map (\<lambda>(slot, pool). map fst (filter (\<lambda>c. \<not> young now c) pool)) (po_idle s)),
     po_idle := filter (\<lambda>(slot, pool). pool \<noteq> []) (map (\<lambda>(slot, pool). (slot, filter (young now) pool)) (po_idle s))\<rparr>"

text \<open>Taken from the end of the pool: the connection, what is left, and those closed on the way.\<close>

fun take_idle :: "(nat \<Rightarrow> bool) \<Rightarrow> pool \<Rightarrow> nat option \<times> pool \<times> nat list" where
  "take_idle usable [] = (None, [], [])"
| "take_idle usable ((c, since) # cs) = (if usable c then (Some c, cs, [])
     else (case take_idle usable cs of (found, left, dead) \<Rightarrow> (found, left, c # dead)))"

definition take_connection :: "'w post_env \<Rightarrow> string \<times> string \<Rightarrow> 'w poster \<Rightarrow> nat option \<times> 'w poster" where
  "take_connection e slot s = (let s = prune (pe_clock e (po_world s)) s in
     case dget (po_idle s) slot of
       None \<Rightarrow> (None, s)
     | Some pool \<Rightarrow> (case take_idle (pe_usable e (po_world s)) (rev pool) of (found, left, dead) \<Rightarrow>
         (found, s\<lparr>po_idle := dset slot (rev left) (po_idle s), po_closed := po_closed s @ dead\<rparr>)))"

definition close_connection :: "nat \<Rightarrow> 'w poster \<Rightarrow> 'w poster" where
  "close_connection c s = s\<lparr>po_closed := po_closed s @ [c]\<rparr>"

definition give_back :: "'w post_env \<Rightarrow> string \<times> string \<Rightarrow> nat \<Rightarrow> 'w poster \<Rightarrow> 'w poster" where
  "give_back e slot c s = (let pool = (case dget (po_idle s) slot of None \<Rightarrow> [] | Some p \<Rightarrow> p) in
     if length pool < max_idle_per_host
     then s\<lparr>po_idle := dset slot (pool @ [(c, pe_clock e (po_world s))]) (po_idle s)\<rparr>
     else close_connection c (s\<lparr>po_idle := dset slot pool (po_idle s)\<rparr>))"

section \<open>A request\<close>

text \<open>The reply, once the request is written.\<close>

definition read_reply :: "'w post_env \<Rightarrow> string \<times> string \<Rightarrow> nat \<Rightarrow> 'w poster \<Rightarrow> (py_error + int \<times> string) \<times> 'w poster" where
  "read_reply e slot c s = (case pe_response e c (po_world s) of
      (Inl x, w) \<Rightarrow> (Inl x, close_connection c (s\<lparr>po_world := w\<rparr>))
    | (Inr (status, data, closes), w) \<Rightarrow> (Inr (status, data),
        if closes then close_connection c (s\<lparr>po_world := w\<rparr>) else give_back e slot c (s\<lparr>po_world := w\<rparr>)))"

fun post_loop :: "'w post_env \<Rightarrow> nat \<Rightarrow> string \<times> string \<Rightarrow> rat \<Rightarrow> 'w poster \<Rightarrow> ((py_error + int \<times> string) \<times> 'w poster) option" where
  "post_loop e 0 slot timeout s = None"
| "post_loop e (Suc fuel) slot timeout s = (case take_connection e slot s of (found, s) \<Rightarrow>
     (let c = (case found of Some c \<Rightarrow> c | None \<Rightarrow> po_next s); s = (case found of Some _ \<Rightarrow> s | None \<Rightarrow> s\<lparr>po_next := Suc (po_next s)\<rparr>) in
      case pe_request e c timeout (po_world s) of
        (Inl x, w) \<Rightarrow> (if pe_os_error e x \<and> found \<noteq> None
          then post_loop e fuel slot timeout (close_connection c (s\<lparr>po_world := w\<rparr>))
          else Some (Inl x, close_connection c (s\<lparr>po_world := w\<rparr>)))
      | (Inr _, w) \<Rightarrow> Some (read_reply e slot c (s\<lparr>po_world := w, po_written := po_written s @ [c]\<rparr>))))"

section \<open>A call is sent once\<close>

lemma close_fields [simp]: "po_written (close_connection c s) = po_written s" "po_idle (close_connection c s) = po_idle s"
  by (simp_all add: close_connection_def)

lemma take_connection_written: "take_connection e slot s = (found, t) \<Longrightarrow> po_written t = po_written s"
  by (auto simp: take_connection_def prune_def Let_def split: option.splits prod.splits)

lemma read_reply_written: "po_written (snd (read_reply e slot c s)) = po_written s"
  by (auto simp: read_reply_def give_back_def Let_def split: prod.split sum.split)

definition pools_ok :: "'w poster \<Rightarrow> bool" where
  "pools_ok s \<longleftrightarrow> list_all (\<lambda>p. length (snd p) \<le> max_idle_per_host) (po_idle s)"

lemma list_all_dset: "list_all P d \<Longrightarrow> P (k, v) \<Longrightarrow> list_all P (dset k v d)"
  by (induction d) auto

lemma pools_ok_get: "pools_ok s \<Longrightarrow> dget (po_idle s) slot = Some pool \<Longrightarrow> length pool \<le> max_idle_per_host"
  by (fastforce simp: pools_ok_def list_all_iff dest: map_of_SomeD)

lemma prune_pools: "pools_ok s \<Longrightarrow> pools_ok (prune now s)"
  unfolding pools_ok_def prune_def list_all_iff by (fastforce intro: le_trans [OF length_filter_le])

lemma prune_length:
  "dget (po_idle (prune now s)) slot = Some pool \<Longrightarrow> wf_dict (po_idle s) \<Longrightarrow> \<exists>old. dget (po_idle s) slot = Some old \<and> length pool \<le> length old"
  by (auto simp: prune_def wf_dict_def dest!: map_of_SomeD intro!: length_filter_le)

lemma prune_wf: "wf_dict (po_idle s) \<Longrightarrow> wf_dict (po_idle (prune now s))"
proof -
  have m: "map fst (map (\<lambda>(slot, pool). (slot, filter (young now) pool)) d) = map fst d" for d :: "(string \<times> string, pool) dict"
    by (induction d) auto
  assume "wf_dict (po_idle s)"
  then have "distinct (map fst (map (\<lambda>(slot, pool). (slot, filter (young now) pool)) (po_idle s)))" unfolding m by (simp add: wf_dict_def)
  then show ?thesis by (simp add: prune_def wf_dict_def distinct_map_filter)
qed

lemma take_idle_length: "take_idle usable pool = (found, left, dead) \<Longrightarrow>
    length left + (if found = None then 0 else 1) \<le> length pool"
  by (induction usable pool arbitrary: left dead rule: take_idle.induct) (auto split: if_splits prod.splits)

text \<open>How many connections are idle for a host; a connection taken is one less.\<close>

definition idle_count :: "string \<times> string \<Rightarrow> 'w poster \<Rightarrow> nat" where
  "idle_count slot s = (case dget (po_idle s) slot of None \<Rightarrow> 0 | Some pool \<Rightarrow> length pool)"

definition post_ok :: "'w poster \<Rightarrow> bool" where
  "post_ok s \<longleftrightarrow> pools_ok s \<and> wf_dict (po_idle s)"

lemma take_connection_ok:
  assumes "take_connection e slot s = (found, t)" "post_ok s"
  shows "post_ok t \<and> po_written t = po_written s \<and> idle_count slot t + (if found = None then 0 else 1) \<le> idle_count slot s"
proof -
  let ?p = "prune (pe_clock e (po_world s)) s"
  have ok: "pools_ok ?p" "wf_dict (po_idle ?p)" using assms(2) prune_pools prune_wf by (auto simp: post_ok_def)
  have w: "po_written ?p = po_written s" by (simp add: prune_def)
  show ?thesis
  proof (cases "dget (po_idle ?p) slot")
    case None
    then have "found = None" "t = ?p" using assms(1) by (simp_all add: take_connection_def Let_def)
    then show ?thesis using None ok w by (simp add: post_ok_def idle_count_def)
  next
    case (Some pool)
    obtain q left dead where t: "take_idle (pe_usable e (po_world ?p)) (rev pool) = (q, left, dead)" by (metis prod_cases3)
    have eq: "found = q" "t = ?p\<lparr>po_idle := dset slot (rev left) (po_idle ?p), po_closed := po_closed ?p @ dead\<rparr>"
      using assms(1) Some t by (simp_all add: take_connection_def Let_def)
    have l: "length left + (if q = None then 0 else 1) \<le> length pool" using take_idle_length [OF t] by simp
    have "length left \<le> max_idle_per_host" using l pools_ok_get [OF ok(1) Some] by linarith
    then have "post_ok t" using ok eq(2) by (simp add: post_ok_def pools_ok_def list_all_dset)
    moreover have "length pool \<le> idle_count slot s" 
      using prune_length [OF Some] assms(2) by (auto simp: post_ok_def idle_count_def)
    ultimately show ?thesis using eq l w by (simp add: idle_count_def)
  qed
qed

lemma post_ok_simps [simp]: "post_ok (s\<lparr>po_world := w\<rparr>) = post_ok s" "post_ok (close_connection c s) = post_ok s"
  "post_ok (s\<lparr>po_world := w, po_written := cs\<rparr>) = post_ok s"
  by (simp_all add: post_ok_def pools_ok_def)

lemma give_back_ok:
  assumes "post_ok s"
  shows "post_ok (give_back e slot c s)"
proof -
  define pool where "pool = (case dget (po_idle s) slot of None \<Rightarrow> [] | Some p \<Rightarrow> p)"
  have "length pool \<le> max_idle_per_host"
    using assms pools_ok_get [of s slot] by (auto simp: pool_def post_ok_def split: option.split)
  then have "post_ok (s\<lparr>po_idle := dset slot pool (po_idle s)\<rparr>)"
    and "length pool < max_idle_per_host \<Longrightarrow> post_ok (s\<lparr>po_idle := dset slot (pool @ [(c, now)]) (po_idle s)\<rparr>)" for now
    using assms by (auto simp: post_ok_def pools_ok_def list_all_dset)
  then show ?thesis by (simp add: give_back_def Let_def flip: pool_def)
qed

lemma read_reply_ok: "post_ok s \<Longrightarrow> post_ok (snd (read_reply e slot c s))"
  by (auto simp: read_reply_def give_back_ok split: prod.split sum.split)

definition sent_once :: "'w poster \<Rightarrow> (py_error + int \<times> string) \<times> 'w poster \<Rightarrow> bool" where
  "sent_once s r \<longleftrightarrow> post_ok (snd r) \<and> ((\<exists>c. po_written (snd r) = po_written s @ [c]) \<or> po_written (snd r) = po_written s \<and> (\<exists>x. fst r = Inl x))"

lemma post_turn:
  assumes "post_ok s" "\<And>s'. post_ok s' \<Longrightarrow> idle_count slot s' < idle_count slot s \<Longrightarrow> po_written s' = po_written s \<Longrightarrow> Q (post_loop e fuel slot timeout s')"
    "\<And>r. sent_once s r \<Longrightarrow> Q (Some r)"
  shows "Q (post_loop e (Suc fuel) slot timeout s)"
proof -
  obtain found t where t: "take_connection e slot s = (found, t)" by fastforce
  note ok = take_connection_ok [OF t assms(1)]
  define c where "c = (case found of Some c \<Rightarrow> c | None \<Rightarrow> po_next t)"
  define u where "u = (case found of Some _ \<Rightarrow> t | None \<Rightarrow> t\<lparr>po_next := Suc (po_next t)\<rparr>)"
  have u: "po_idle u = po_idle t" "po_written u = po_written t" by (simp_all add: u_def split: option.split)
  have eq: "post_loop e (Suc fuel) slot timeout s = (case pe_request e c timeout (po_world u) of
        (Inl x, w) \<Rightarrow> (if pe_os_error e x \<and> found \<noteq> None
          then post_loop e fuel slot timeout (close_connection c (u\<lparr>po_world := w\<rparr>))
          else Some (Inl x, close_connection c (u\<lparr>po_world := w\<rparr>)))
      | (Inr _, w) \<Rightarrow> Some (read_reply e slot c (u\<lparr>po_world := w, po_written := po_written u @ [c]\<rparr>)))"
    unfolding post_loop.simps t prod.case Let_def c_def u_def by (rule refl)
  obtain r w where r: "pe_request e c timeout (po_world u) = (r, w)" by fastforce
  show ?thesis
  proof (cases r)
    case (Inl x)
    have o: "post_ok (close_connection c (u\<lparr>po_world := w\<rparr>))" using ok u by (simp add: post_ok_def pools_ok_def)
    have "idle_count slot (close_connection c (u\<lparr>po_world := w\<rparr>)) = idle_count slot t" using u by (simp add: idle_count_def)
    then show ?thesis using o ok u r Inl assms(2) [OF o] assms(3) [of "(Inl x, close_connection c (u\<lparr>po_world := w\<rparr>))"]
      unfolding eq by (auto simp: sent_once_def simp del: post_loop.simps split: if_splits)
  next
    case (Inr a)
    let ?v = "u\<lparr>po_world := w, po_written := po_written u @ [c]\<rparr>"
    have "post_ok ?v" using ok u by (simp add: post_ok_def pools_ok_def)
    then have "sent_once s (read_reply e slot c ?v)"
      using read_reply_ok [of ?v e slot c] read_reply_written [of e slot c ?v] ok u by (simp add: sent_once_def)
    then show ?thesis unfolding eq using r Inr assms(3) by simp
  qed
qed

text \<open>C26. A call is never sent twice: however many idle connections turn out to be dead, a whole request is written to
  one connection at most, and exactly one whenever a reply was read; no host keeps more idle connections than its
  limit; and the client ends after as many turns as there were idle connections, and one more.\<close>

theorem post_sends_once:
  assumes "post_ok s" "idle_count slot s < fuel"
  shows "\<exists>r. post_loop e fuel slot timeout s = Some r \<and> sent_once s r"
  using assms
proof (induction fuel arbitrary: s)
  case (Suc n)
  show ?case
  proof (rule post_turn [OF Suc.prems(1)])
    fix s' :: "'a poster"
    assume "post_ok s'" "idle_count slot s' < idle_count slot s" "po_written s' = po_written s"
    with Suc show "\<exists>r. post_loop e n slot timeout s' = Some r \<and> sent_once s r" by (fastforce simp: sent_once_def)
  qed simp
qed simp

text \<open>The first idle connection is dead, the second breaks, and a new one carries the call.\<close>

definition sample_post :: "unit post_env" where
  "sample_post = \<lparr>pe_clock = (\<lambda>_. 5), pe_usable = (\<lambda>_ c. c \<noteq> 2), pe_request = (\<lambda>c _ w. (if c = 1 then Inl (OtherException ''BrokenPipeError'' []) else Inr (), w)),
     pe_response = (\<lambda>_ w. (Inr (200, ''{}'', False), w)), pe_os_error = (\<lambda>_. True)\<rparr>"

definition sample_pool :: "unit poster" where
  "sample_pool = \<lparr>po_idle = [((''http'', ''h''), [(1, 0), (2, 0)])], po_next = 3, po_written = [], po_closed = [], po_world = ()\<rparr>"

lemma post_sends_once_witness:
  "\<exists>t. post_loop sample_post 3 (''http'', ''h'') 60 sample_pool = Some (Inr (200, ''{}''), t) \<and> po_written t = [3]"
proof -
  have "post_ok sample_pool" by (simp add: post_ok_def pools_ok_def wf_dict_def sample_pool_def max_idle_per_host_def)
  moreover have "idle_count (''http'', ''h'') sample_pool < 3" by (simp add: idle_count_def sample_pool_def)
  ultimately obtain r where r: "post_loop sample_post 3 (''http'', ''h'') 60 sample_pool = Some r" "sent_once sample_pool r"
    using post_sends_once by blast
  have "map_option fst (post_loop sample_post 3 (''http'', ''h'') 60 sample_pool) = Some (Inr (200, ''{}''))" by code_simp
  moreover have "map_option (po_written \<circ> snd) (post_loop sample_post 3 (''http'', ''h'') 60 sample_pool) = Some [3]" by code_simp
  ultimately show ?thesis using r by (cases r) auto
qed

end
