(* ===== verification/Modal_Plan.thy ===== *)
theory Modal_Plan
  imports Sandbox_Spec Sandbox_Entry Service_Client
begin

text \<open>
  What a container sandbox is told to pull and push (\<open>actant/sandbox/modal.py\<close>): the restore plan of a spec, the
  s5cmd commands made of it, and the configuration of the entrypoint. \<open>shlex.quote\<close> and \<open>shlex.join\<close> are written
  out; \<open>sh_read\<close> says how a shell takes such a script apart. What s5cmd does with its arguments is not modelled.
\<close>

section \<open>Quoting for the shell\<close>

definition safe_char :: "char \<Rightarrow> bool" where
  "safe_char c \<longleftrightarrow> is_digit c \<or> (65 \<le> (of_char c :: nat) \<and> (of_char c :: nat) \<le> 90)
     \<or> (97 \<le> (of_char c :: nat) \<and> (of_char c :: nat) \<le> 122) \<or> c \<in> set ''_@%+=:,./-''"

definition quote_mark :: char where
  "quote_mark = CHR 0x27"

definition double_mark :: char where
  "double_mark = CHR 0x22"

fun quote_inside :: "string \<Rightarrow> string" where
  "quote_inside [] = []"
| "quote_inside (c # s) = (if c = quote_mark then [quote_mark, double_mark, quote_mark, double_mark, quote_mark] else [c]) @ quote_inside s"

definition shlex_quote :: "string \<Rightarrow> string" where
  "shlex_quote s = (if s = [] then [quote_mark, quote_mark] else if list_all safe_char s then s
     else quote_mark # quote_inside s @ [quote_mark])"

definition shlex_join :: "string list \<Rightarrow> string" where
  "shlex_join argv = join_with '' '' (map shlex_quote argv)"

text \<open>A shell's reading of a script without expansions: the commands of its \<open>&&\<close> list, as words. A word is plain
  characters and quoted text; between double quotes no character is special here. Anything else is not read.\<close>

datatype sh_mode = Between | InWord string | InSingle string | InDouble string

definition more_word :: "string \<Rightarrow> string list list option \<Rightarrow> string list list option" where
  "more_word w r = (case r of Some (c # cs) \<Rightarrow> Some ((w # c) # cs) | _ \<Rightarrow> None)"

fun sh_scan :: "sh_mode \<Rightarrow> string \<Rightarrow> string list list option" where
  "sh_scan Between [] = Some [[]]"
| "sh_scan Between (c # s) =
     (if c = CHR '' '' then sh_scan Between s
      else if c = CHR ''&'' then (case s of d # s' \<Rightarrow> (if d = CHR ''&'' then map_option ((#) []) (sh_scan Between s') else None) | [] \<Rightarrow> None)
      else if c = quote_mark then sh_scan (InSingle []) s else if c = double_mark then sh_scan (InDouble []) s
      else if safe_char c then sh_scan (InWord [c]) s else None)"
| "sh_scan (InWord w) [] = Some [[w]]"
| "sh_scan (InWord w) (c # s) =
     (if c = CHR '' '' then more_word w (sh_scan Between s)
      else if c = quote_mark then sh_scan (InSingle w) s else if c = double_mark then sh_scan (InDouble w) s
      else if safe_char c then sh_scan (InWord (w @ [c])) s else None)"
| "sh_scan (InSingle w) [] = None"
| "sh_scan (InSingle w) (c # s) = (if c = quote_mark then sh_scan (InWord w) s else sh_scan (InSingle (w @ [c])) s)"
| "sh_scan (InDouble w) [] = None"
| "sh_scan (InDouble w) (c # s) = (if c = double_mark then sh_scan (InWord w) s
     else if c \<in> set ''$`'' \<or> c = CHR 0x5C then None else sh_scan (InDouble (w @ [c])) s)"

definition sh_read :: "string \<Rightarrow> string list list option" where
  "sh_read s = sh_scan Between s"

section \<open>The plan\<close>

definition disk_root :: string where
  "disk_root = ''/root/sandbox''"

definition mount_root :: string where
  "mount_root = ''/mnt/sandbox''"

definition pull_flags :: "bool \<Rightarrow> string list" where
  "pull_flags size_only = [''--retry-count'', ''20'', ''sync''] @ (if size_only then [''--size-only''] else [])
     @ [''--concurrency'', ''8'', ''--part-size'', ''16'']"

definition seed_marker_suffix :: string where
  "seed_marker_suffix = ''.actant-seeded''"

record modal_provider =
  mp_app_name :: string
  mp_bucket :: string
  mp_key_prefix :: string
  mp_endpoint_url :: "string option"
  mp_secret_name :: "string option"
  mp_bucket_env :: "(string, string) dict option"
  mp_image :: "string option"
  mp_env :: "(string, string) dict option"

record restore_plan =
  pl_pushed :: restore
  pl_others :: "restore list"
  pl_mounts :: "mount list"

definition own_location :: "modal_provider \<Rightarrow> string \<Rightarrow> py_error + location" where
  "own_location p sandbox_id = location_post_init \<lparr>lc_bucket = mp_bucket p, lc_prefix = mp_key_prefix p @ sandbox_id @ [slash]\<rparr>"

text \<open>The checks of each mount against the entries and the mounts before it.\<close>

fun check_mounts :: "restore list \<Rightarrow> mount list \<Rightarrow> mount list \<Rightarrow> py_error + unit" where
  "check_mounts entries earlier [] = Inr ()"
| "check_mounts entries earlier (m # ms) =
     (if list_ex (\<lambda>r. inside (rs_path r) (mn_path m)) entries
      then Inl (ValueError (''a restore entry is at or under mount '' @ repr_str (mn_path m)))
      else if list_ex (\<lambda>n. inside (mn_path m) (mn_path n) \<or> inside (mn_path n) (mn_path m)) earlier
      then Inl (ValueError (''mount '' @ repr_str (mn_path m) @ '' overlaps another mount''))
      else check_mounts entries (earlier @ [m]) ms)"

definition checked_plan :: "restore list \<Rightarrow> mount list \<Rightarrow> py_error + restore_plan" where
  "checked_plan entries mounts = (let pushed = filter rs_push entries in
     if length pushed \<noteq> 1 then Inl (ValueError (''a restore plan pushes exactly one entry, not '' @ nat_str (length pushed)))
     else if \<not> distinct (map rs_path entries) then Inl (ValueError ''a restore plan's paths are distinct'')
     else try_bind (check_mounts entries [] mounts) (\<lambda>_.
       Inr \<lparr>pl_pushed = hd pushed, pl_others = filter (\<lambda>r. \<not> rs_push r) entries, pl_mounts = mounts\<rparr>))"

definition modal_plan :: "modal_provider \<Rightarrow> sandbox_spec \<Rightarrow> string \<Rightarrow> py_error + restore_plan" where
  "modal_plan p spec sandbox_id = try_bind
     (if sx_restore spec \<noteq> [] then Inr (sx_restore spec)
      else try_bind (own_location p sandbox_id) (\<lambda>l.
        try_bind (restore_post_init \<lparr>rs_source = l, rs_path = [], rs_push = True\<rparr>) (\<lambda>r. Inr [r])))
     (\<lambda>entries. checked_plan entries (sx_mounts spec))"

section \<open>Paths\<close>

definition disk_path :: "string \<Rightarrow> string" where
  "disk_path path = (if path \<noteq> [] then disk_root @ [slash] @ path else disk_root)"

definition under_path :: "string \<Rightarrow> string \<Rightarrow> string" where
  "under_path parent path = (if parent \<noteq> [] then parent @ [slash] @ path else path)"

text \<open>\<open>path[len(parent) + 1 :]\<close>, all of it below the root.\<close>

definition below_path :: "string \<Rightarrow> string \<Rightarrow> string" where
  "below_path parent path = (if parent \<noteq> [] then drop (length parent + 1) path else path)"

definition push_skipped :: "sandbox_spec \<Rightarrow> restore_plan \<Rightarrow> string list" where
  "push_skipped spec plan = map rs_path (pl_others plan) @ map mn_path (pl_mounts plan)
     @ map (under_path (rs_path (pl_pushed plan))) (sx_push_exclude spec)"

definition mounted_paths :: "restore \<Rightarrow> mount list \<Rightarrow> string list" where
  "mounted_paths r mounts = map (\<lambda>m. below_path (rs_path r) (mn_path m)) (filter (\<lambda>m. inside (mn_path m) (rs_path r)) mounts)"

definition exclude_args :: "string list \<Rightarrow> string list" where
  "exclude_args paths = concat (map (\<lambda>p. [''--exclude'', dropWhile (\<lambda>c. c = slash) (disk_path p) @ ''/*'']) paths)"

definition wildcard :: "string \<Rightarrow> bool" where
  "wildcard f \<longleftrightarrow> list_ex (\<lambda>c. c \<in> set f) ''*?[''"

definition literal_dir :: "string \<Rightarrow> string" where
  "literal_dir glob = concat (map (\<lambda>f. f @ [slash]) (takeWhile (\<lambda>f. \<not> wildcard f) (butlast (split_on slash glob))))"

section \<open>Commands\<close>

definition s5cmd :: "modal_provider \<Rightarrow> string list \<Rightarrow> string list" where
  "s5cmd p args = ''s5cmd'' # (case mp_endpoint_url p of None \<Rightarrow> [] | Some u \<Rightarrow> if u = [] then [] else [''--endpoint-url'', u]) @ args"

text \<open>One \<open>push_include\<close> of \<open>sync_argv\<close>.\<close>

definition include_sync :: "modal_provider \<Rightarrow> sandbox_spec \<Rightarrow> restore_plan \<Rightarrow> string list \<Rightarrow> string \<Rightarrow> py_error + string list" where
  "include_sync p spec plan left_out glob = (let pushed = pl_pushed plan; folder = strip_slashes (under_path (rs_path pushed) (literal_dir glob));
       held = map rs_path (pl_others plan) @ map mn_path (pl_mounts plan) in
     if list_ex (inside folder) (filter (\<lambda>path. inside path (rs_path pushed)) held)
     then Inl (ValueError (''push_include '' @ repr_str glob @ '' is inside a restore entry or a mount''))
     else Inr (s5cmd p ([''sync'', ''--no-follow-symlinks''] @ exclude_args (filter (\<lambda>path. \<not> inside folder path) left_out)
       @ [disk_path (rs_path pushed) @ [slash] @ glob, location_url (rs_source pushed) @ literal_dir glob])))"

definition and_script :: "string list list \<Rightarrow> string list" where
  "and_script cmds = [''sh'', ''-c'', join_with '' && '' (map shlex_join cmds)]"

definition sync_argv :: "modal_provider \<Rightarrow> sandbox_spec \<Rightarrow> string \<Rightarrow> py_error + string list" where
  "sync_argv p spec sandbox_id = try_bind (modal_plan p spec sandbox_id) (\<lambda>plan.
     let pushed = pl_pushed plan; left_out = filter (\<lambda>path. inside path (rs_path pushed)) (push_skipped spec plan);
       sync = s5cmd p ([''sync'', ''--no-follow-symlinks''] @ exclude_args left_out
         @ [disk_path (rs_path pushed) @ [slash], location_url (rs_source pushed)]) in
     if sx_push_include spec = [] then Inr sync
     else try_bind (try_map (include_sync p spec plan left_out) (sx_push_include spec)) (\<lambda>syncs. Inr (and_script (sync # syncs))))"

text \<open>One path of \<open>push_argv\<close>.\<close>

definition push_copy :: "modal_provider \<Rightarrow> sandbox_spec \<Rightarrow> restore_plan \<Rightarrow> string \<Rightarrow> py_error + string list" where
  "push_copy p spec plan path = (let pushed = pl_pushed plan in
     if path = rs_path pushed \<or> \<not> inside path (rs_path pushed) \<or> list_ex (inside path) (push_skipped spec plan)
     then Inl (ValueError (repr_str path @ '' is not a file the push sends''))
     else Inr (s5cmd p [''cp'', ''--no-follow-symlinks'', disk_path path, location_url (rs_source pushed) @ below_path (rs_path pushed) path]))"

definition push_argv :: "modal_provider \<Rightarrow> sandbox_spec \<Rightarrow> string \<Rightarrow> string list \<Rightarrow> py_error + string list" where
  "push_argv p spec sandbox_id paths = try_bind (modal_plan p spec sandbox_id) (\<lambda>plan.
     try_bind (try_map (push_copy p spec plan) paths) (\<lambda>copies. Inr (and_script copies)))"

definition pull_argv :: "modal_provider \<Rightarrow> restore \<Rightarrow> mount list \<Rightarrow> bool \<Rightarrow> string list" where
  "pull_argv p r mounts size_only = s5cmd p (pull_flags size_only
     @ concat (map (\<lambda>relative. [''--exclude'', lc_prefix (rs_source r) @ relative @ ''/*'']) (mounted_paths r mounts))
     @ [location_url (rs_source r) @ ''*'', disk_path (rs_path r) @ [slash]])"

definition stamp_for :: "modal_provider \<Rightarrow> restore \<Rightarrow> mount list \<Rightarrow> stamp_config" where
  "stamp_for p r mounts = \<lparr>sc_argv = [''s5cmd'', ''--json''] @ tl (s5cmd p [''ls'', location_url (rs_source r) @ ''*'']),
     sc_prefix = location_url (rs_source r), sc_root = disk_path (rs_path r),
     sc_skip = map (\<lambda>relative. location_url (rs_source r) @ relative @ [slash]) (mounted_paths r mounts)\<rparr>"

definition marker_of :: "location \<Rightarrow> string" where
  "marker_of l = strip_slashes (location_url l) @ seed_marker_suffix"

definition seed_for :: "modal_provider \<Rightarrow> restore \<Rightarrow> string \<Rightarrow> mount list \<Rightarrow> py_error + seed_config" where
  "seed_for p pushed seed mounts = try_bind (location_post_init \<lparr>lc_bucket = mp_bucket p, lc_prefix = seed\<rparr>) (\<lambda>l.
     try_bind (restore_post_init \<lparr>rs_source = l, rs_path = rs_path pushed, rs_push = False\<rparr>) (\<lambda>source.
     let marker = marker_of (rs_source pushed) in
     Inr \<lparr>se_argv = pull_argv p source mounts False,
       se_copy_argv = s5cmd p [''cp'', location_url l @ ''*'', location_url (rs_source pushed)],
       se_write_marker_argv = s5cmd p [''pipe'', marker], se_check_marker_argv = s5cmd p [''ls'', marker],
       se_stamp = Some (stamp_for p source mounts)\<rparr>))"

definition seed_marker :: "modal_provider \<Rightarrow> sandbox_spec \<Rightarrow> string \<Rightarrow> py_error + string" where
  "seed_marker p spec sandbox_id = try_bind (modal_plan p spec sandbox_id) (\<lambda>plan. Inr (marker_of (rs_source (pl_pushed plan))))"

section \<open>The entrypoint's configuration\<close>

record push_config =
  pu_argv :: "string list"
  pu_interval_s :: rat
  pu_timeout_s :: rat

record host_config =
  hf_services :: "(string \<times> service) list"
  hf_port :: int
  hf_bind :: string
  hf_scrub :: "string list"
  hf_push :: "push_config option"

definition restore_for :: "modal_provider \<Rightarrow> sandbox_spec \<Rightarrow> restore_plan \<Rightarrow> bool \<Rightarrow> py_error + restore_config" where
  "restore_for p spec plan size_only = (let pushed = pl_pushed plan; mounts = pl_mounts plan in
     try_bind (case sx_seed spec of None \<Rightarrow> Inr None | Some seed \<Rightarrow> try_bind (seed_for p pushed seed mounts) (\<lambda>c. Inr (Some c))) (\<lambda>seed.
     Inr \<lparr>rc_argv = pull_argv p pushed mounts size_only, rc_timeout_s = sx_restore_timeout_s spec,
       rc_stamp = Some (stamp_for p pushed mounts), rc_seed = seed,
       rc_also = map (\<lambda>r. \<lparr>pc_argv = pull_argv p r mounts size_only, pc_stamp = Some (stamp_for p r mounts)\<rparr>) (pl_others plan)\<rparr>))"

text \<open>\<open>HostConfig\<close>'s bounds on the port.\<close>

definition host_for :: "sandbox_spec \<Rightarrow> push_config option \<Rightarrow> py_error + host_config option" where
  "host_for spec push = (if sx_services spec = [] then Inr None
     else if sx_service_port spec < 0 \<or> sx_service_port spec > 65535 then Inl (ValueError ''port'')
     else Inr (Some \<lparr>hf_services = sx_services spec, hf_port = sx_service_port spec, hf_bind = ''0.0.0.0'',
       hf_scrub = sx_scrub_env spec, hf_push = push\<rparr>))"

definition entry_config_of :: "modal_provider \<Rightarrow> sandbox_spec \<Rightarrow> string \<Rightarrow> bool \<Rightarrow> py_error + host_config entry_config" where
  "entry_config_of p spec sandbox_id size_only =
     (if sx_storage spec \<noteq> DiskSync then try_bind (host_for spec None) (\<lambda>h. Inr \<lparr>ec_restore = None, ec_host = h\<rparr>)
      else try_bind (modal_plan p spec sandbox_id) (\<lambda>plan. try_bind (restore_for p spec plan size_only) (\<lambda>restore.
        try_bind (sync_argv p spec sandbox_id) (\<lambda>argv.
        try_bind (host_for spec (Some \<lparr>pu_argv = argv, pu_interval_s = sx_sync_interval_s spec, pu_timeout_s = sx_sync_timeout_s spec\<rparr>)) (\<lambda>h.
        Inr \<lparr>ec_restore = Some restore, ec_host = h\<rparr>)))))"

section \<open>The shell reads the commands back\<close>

named_theorems sh_steps \<open>one character of a script\<close>

lemma special_unsafe [simp]: "\<not> safe_char (CHR '' '')" "\<not> safe_char (CHR ''&'')" "\<not> safe_char quote_mark" "\<not> safe_char double_mark"
  by (simp_all add: safe_char_def quote_mark_def double_mark_def is_digit_def)

lemma safe_char_plain: "safe_char c \<Longrightarrow> c \<noteq> CHR '' '' \<and> c \<noteq> CHR ''&'' \<and> c \<noteq> quote_mark \<and> c \<noteq> double_mark"
  by (metis special_unsafe)

lemma scan_safe: "list_all safe_char s \<Longrightarrow> sh_scan (InWord w) (s @ t) = sh_scan (InWord (w @ s)) t"
  by (induction s arbitrary: w) (auto dest: safe_char_plain)

lemma scan_single: "sh_scan (InSingle w) (quote_inside s @ quote_mark # t) = sh_scan (InWord (w @ s)) t"
  by (induction s arbitrary: w) (simp_all add: quote_mark_def double_mark_def)

lemma scan_quote: "sh_scan Between (shlex_quote a @ t) = sh_scan (InWord a) t"
proof (cases "a = [] \<or> \<not> list_all safe_char a")
  case True
  have "sh_scan Between (quote_mark # u) = sh_scan (InSingle []) u" for u by (simp add: quote_mark_def)
  then show ?thesis using True scan_single [of "[]" a t] scan_single [of "[]" "[]" t] by (auto simp: shlex_quote_def)
next
  case False
  then obtain c s where a: "a = c # s" by (cases a) auto
  with False have "sh_scan Between (c # u) = sh_scan (InWord [c]) u" for u
    using safe_char_plain [of c] by simp
  then show ?thesis using False a by (simp add: shlex_quote_def scan_safe)
qed

lemma scan_word: "t = [] \<or> hd t = CHR '' '' \<Longrightarrow> sh_scan (InWord a) t = more_word a (sh_scan Between t)"
  by (cases t) (auto simp: more_word_def)

lemma scan_join:
  assumes "t = [] \<or> hd t = CHR '' ''"
  shows "argv \<noteq> [] \<Longrightarrow> sh_scan Between (shlex_join argv @ t) = foldr more_word argv (sh_scan Between t)"
proof (induction argv rule: induct_list012)
  case (2 a)
  then show ?case using assms by (simp add: shlex_join_def scan_quote scan_word)
next
  case (3 a b argv)
  have "sh_scan Between (shlex_join (a # b # argv) @ t) = more_word a (sh_scan Between (shlex_join (b # argv) @ t))"
    by (simp add: shlex_join_def scan_quote)
  with 3 show ?case by simp
qed simp

lemma more_words: "foldr more_word argv (Some ([] # cs)) = Some (argv # cs)"
  by (induction argv) (simp_all add: more_word_def)

lemma script_reads_back: "cmds \<noteq> [] \<Longrightarrow> [] \<notin> set cmds \<Longrightarrow> sh_read (join_with '' && '' (map shlex_join cmds)) = Some cmds"
proof (induction cmds rule: induct_list012)
  case (2 c)
  then show ?case using scan_join [of "[]" c] more_words [of c "[]"] by (simp add: sh_read_def)
next
  case (3 c d cmds)
  let ?t = "'' && '' @ join_with '' && '' (map shlex_join (d # cmds))"
  have "sh_scan Between ?t = map_option ((#) []) (sh_read (join_with '' && '' (map shlex_join (d # cmds))))"
    by (simp add: sh_read_def del: join_with.simps)
  moreover have "sh_read (join_with '' && '' (map shlex_join (d # cmds))) = Some (d # cmds)" using 3 by simp
  ultimately have t: "sh_scan Between ?t = Some ([] # d # cmds)" by simp
  have "sh_read (join_with '' && '' (map shlex_join (c # d # cmds))) = foldr more_word c (sh_scan Between ?t)"
    using 3(4) scan_join [of ?t c] by (auto simp: sh_read_def)
  then show ?case unfolding t by (simp add: more_words)
qed simp

section \<open>What a push sends\<close>

lemma s5cmd_nonempty [simp]: "s5cmd p args \<noteq> []" "[] \<noteq> s5cmd p args"
  by (simp_all add: s5cmd_def)

lemma try_map_pointwise: "try_map f xs = Inr ys \<longleftrightarrow> list_all2 (\<lambda>x y. f x = Inr y) xs ys"
proof (induction xs arbitrary: ys)
  case (Cons x xs)
  show ?case by (auto simp: try_bind_def list_all2_Cons1 Cons.IH [symmetric] split: sum.splits)
qed auto

lemma take_all_then: "take n s = p @ [c] \<Longrightarrow> n = Suc (length p) \<Longrightarrow> s = p @ c # drop (Suc (length p)) s"
  by (metis append.assoc append_Cons append_Nil append_take_drop_id)

lemma inside_below: "inside path parent \<Longrightarrow> path \<noteq> parent \<Longrightarrow> path = under_path parent (below_path parent path)"
  by (auto simp: inside_def under_path_def below_path_def Messages.starts_with_def dest!: take_all_then)

lemma push_copy_sends:
  assumes "push_copy p spec plan path = Inr cmd"
  shows "\<exists>rel. path = under_path (rs_path (pl_pushed plan)) rel \<and> \<not> list_ex (inside path) (push_skipped spec plan)
    \<and> cmd = s5cmd p [''cp'', ''--no-follow-symlinks'', disk_path path, location_url (rs_source (pl_pushed plan)) @ rel]"
  using assms inside_below [of path "rs_path (pl_pushed plan)"] by (fastforce simp: push_copy_def Let_def split: if_splits)

text \<open>C29. A push of named files sends just those, each to its own key, in order, and no name can become part of the
  script: a shell reads it as one copy command for each path, in the order given, joined by \<open>&&\<close>. Each path is below
  the pushed entry and its key is the entry's prefix and the path from there; none is at or under another restore
  entry, a mount or an excluded folder.\<close>

theorem push_sends_just_those:
  assumes "push_argv p spec sandbox_id paths = Inr argv" "paths \<noteq> []"
  shows "\<exists>plan script rels. modal_plan p spec sandbox_id = Inr plan \<and> argv = [''sh'', ''-c'', script]
    \<and> length rels = length paths \<and> paths = map (under_path (rs_path (pl_pushed plan))) rels
    \<and> sh_read script = Some (map (\<lambda>rel. s5cmd p [''cp'', ''--no-follow-symlinks'',
          disk_path (under_path (rs_path (pl_pushed plan)) rel), location_url (rs_source (pl_pushed plan)) @ rel]) rels)
    \<and> (\<forall>path \<in> set paths. (\<forall>r \<in> set (pl_others plan). \<not> inside path (rs_path r))
         \<and> (\<forall>m \<in> set (pl_mounts plan). \<not> inside path (mn_path m))
         \<and> (\<forall>f \<in> set (sx_push_exclude spec). \<not> inside path (under_path (rs_path (pl_pushed plan)) f)))"
proof -
  from assms(1) obtain plan copies where plan: "modal_plan p spec sandbox_id = Inr plan"
    and copies: "try_map (push_copy p spec plan) paths = Inr copies" and argv: "argv = and_script copies"
    by (auto simp: push_argv_def try_bind_def split: sum.splits)
  let ?root = "rs_path (pl_pushed plan)"
  let ?cmd = "\<lambda>rel. s5cmd p [''cp'', ''--no-follow-symlinks'', disk_path (under_path ?root rel), location_url (rs_source (pl_pushed plan)) @ rel]"
  from copies have all: "list_all2 (\<lambda>path cmd. push_copy p spec plan path = Inr cmd) paths copies" by (simp add: try_map_pointwise)
  then have "\<exists>rels. paths = map (under_path ?root) rels \<and> copies = map ?cmd rels \<and> (\<forall>path \<in> set paths. \<not> list_ex (inside path) (push_skipped spec plan))"
  proof (induction rule: list_all2_induct)
    case (Cons path paths cmd copies)
    then obtain rels where "paths = map (under_path ?root) rels" "copies = map ?cmd rels"
      "\<forall>path \<in> set paths. \<not> list_ex (inside path) (push_skipped spec plan)" by blast
    moreover from push_copy_sends [OF Cons(1)] obtain rel where "path = under_path ?root rel" "cmd = ?cmd rel"
      "\<not> list_ex (inside path) (push_skipped spec plan)" by blast
    ultimately show ?case by (intro exI [of _ "rel # rels"]) simp
  qed simp
  then obtain rels where rels: "paths = map (under_path ?root) rels" "copies = map ?cmd rels"
    and out: "\<forall>path \<in> set paths. \<not> list_ex (inside path) (push_skipped spec plan)" by blast
  have "sh_read (join_with '' && '' (map shlex_join copies)) = Some copies"
    by (rule script_reads_back) (use assms(2) rels in auto)
  then show ?thesis using plan argv rels out
    by (intro exI [of _ plan] exI [of _ "join_with '' && '' (map shlex_join copies)"] exI [of _ rels])
      (auto simp: and_script_def push_skipped_def list_ex_iff)
qed

definition sample_provider :: modal_provider where
  "sample_provider = \<lparr>mp_app_name = ''a'', mp_bucket = ''b'', mp_key_prefix = ''runs/'', mp_endpoint_url = None,
     mp_secret_name = None, mp_bucket_env = None, mp_image = None, mp_env = None\<rparr>"

lemma mp_endpoint_url_sample: "mp_endpoint_url sample_provider = None"
  by (simp add: sample_provider_def)

text \<open>A file whose name is a command, and one in a folder.\<close>

definition odd_name :: string where
  "odd_name = ''a'' @ [quote_mark] @ ''; rm -rf *''"

theorem push_sends_just_those_witness:
  "\<exists>script. push_argv sample_provider default_spec ''t1'' [odd_name, ''d/y''] = Inr [''sh'', ''-c'', script]
    \<and> sh_read script = Some [[''s5cmd'', ''cp'', ''--no-follow-symlinks'', ''/root/sandbox/'' @ odd_name, ''s3://b/runs/t1/'' @ odd_name],
         [''s5cmd'', ''cp'', ''--no-follow-symlinks'', ''/root/sandbox/d/y'', ''s3://b/runs/t1/d/y'']]"
proof -
  have plan: "modal_plan sample_provider default_spec ''t1'' = Inr \<lparr>pl_pushed = \<lparr>rs_source = \<lparr>lc_bucket = ''b'', lc_prefix = ''runs/t1/''\<rparr>,
      rs_path = [], rs_push = True\<rparr>, pl_others = [], pl_mounts = []\<rparr>"
    by (simp add: modal_plan_def sample_provider_def default_spec_def own_location_def location_post_init_def restore_post_init_def
      check_path_def checked_plan_def Let_def Texts.ends_with_def Texts.starts_with_def slash_def)
  have "\<exists>argv. push_argv sample_provider default_spec ''t1'' [odd_name, ''d/y''] = Inr argv"
    unfolding push_argv_def plan by (simp add: push_copy_def Let_def push_skipped_def default_spec_def inside_def odd_name_def)
  then obtain argv where "push_argv sample_provider default_spec ''t1'' [odd_name, ''d/y''] = Inr argv" by blast
  moreover have "under_path [] = (\<lambda>x. x)" by (simp add: under_path_def fun_eq_iff)
  ultimately show ?thesis using push_sends_just_those [of sample_provider default_spec "''t1''" "[odd_name, ''d/y'']" argv] plan
    by (auto simp: s5cmd_def disk_path_def location_url_def disk_root_def slash_def odd_name_def mp_endpoint_url_sample)
qed

section \<open>What pulls and pushes leave alone\<close>

text \<open>A command's exclude patterns, each a literal folder, a slash and a star: one of them matches the name.\<close>

definition spares :: "string list \<Rightarrow> string \<Rightarrow> bool" where
  "spares argv name \<longleftrightarrow> list_ex (\<lambda>(flag, pat). flag = ''--exclude'' \<and> Texts.ends_with ''/*'' pat \<and> Texts.starts_with (butlast pat) name)
     (zip argv (tl argv))"

lemma spares_pair:
  assumes "argv = as @ [''--exclude'', folder @ ''/*''] @ bs"
  shows "spares argv (folder @ slash # rest)"
proof -
  have "(''--exclude'', folder @ ''/*'') \<in> set (zip argv (tl argv))"
    unfolding in_set_zip by (rule exI [of _ "length as"]) (simp add: assms nth_append nth_tl)
  moreover have "Texts.starts_with (folder @ ''/'') (folder @ slash # rest)"
    by (simp add: Texts.starts_with_def slash_def)
  moreover have "butlast (folder @ ''/*'') = folder @ ''/''" by (simp add: butlast_append)
  ultimately show ?thesis unfolding spares_def list_ex_iff
    by (intro bexI [of _ "(''--exclude'', folder @ ''/*'')"]) (simp_all add: Texts.ends_with_def Texts.starts_with_def)
qed

lemma exclude_args_split:
  assumes "h \<in> set paths"
  shows "\<exists>as bs. exclude_args paths = as @ [''--exclude'', dropWhile (\<lambda>c. c = slash) (disk_path h) @ ''/*''] @ bs"
proof -
  obtain xs ys where "paths = xs @ h # ys" using split_list [OF assms] by blast
  then have "exclude_args paths = exclude_args xs @ [''--exclude'', dropWhile (\<lambda>c. c = slash) (disk_path h) @ ''/*''] @ exclude_args ys"
    by (simp add: exclude_args_def)
  then show ?thesis by blast
qed

lemma disk_path_stripped: "dropWhile (\<lambda>c. c = slash) (disk_path h) = tl (disk_path h)"
  by (simp add: disk_path_def disk_root_def slash_def)

lemma excluding_spares:
  assumes "h \<in> set paths" "h \<noteq> []"
  shows "spares (s5cmd p (pre @ exclude_args paths @ post)) (tl (disk_path (h @ slash # rest)))"
proof -
  obtain as bs where "exclude_args paths = as @ [''--exclude'', tl (disk_path h) @ ''/*''] @ bs"
    using exclude_args_split [OF assms(1)] by (auto simp: disk_path_stripped)
  moreover obtain start where "\<And>args. s5cmd p args = start @ args" by (auto simp: s5cmd_def split: option.splits)
  ultimately have "spares (s5cmd p (pre @ exclude_args paths @ post)) (tl (disk_path h) @ slash # rest)"
    by (intro spares_pair [of _ "start @ pre @ as" _ "bs @ post"]) simp
  then show ?thesis using assms(2) by (simp add: disk_path_def disk_root_def)
qed

text \<open>The commands of a push: one, or those a shell reads from the script.\<close>

definition sync_commands :: "string list \<Rightarrow> string list list option" where
  "sync_commands argv = (if take 2 argv = [''sh'', ''-c''] then sh_read (concat (drop 2 argv)) else Some [argv])"

definition foreign_paths :: "restore_plan \<Rightarrow> string list" where
  "foreign_paths plan = filter (\<lambda>h. inside h (rs_path (pl_pushed plan))) (map rs_path (pl_others plan) @ map mn_path (pl_mounts plan))"

lemma include_sync_spares:
  assumes "include_sync p spec plan (filter (\<lambda>path. inside path (rs_path (pl_pushed plan))) (push_skipped spec plan)) glob = Inr cmd"
    and "h \<in> set (foreign_paths plan)" "h \<noteq> []"
  shows "spares cmd (tl (disk_path (h @ slash # rest))) \<and> cmd \<noteq> []"
proof -
  let ?folder = "strip_slashes (under_path (rs_path (pl_pushed plan)) (literal_dir glob))"
  from assms(1) have "\<not> list_ex (inside ?folder) (foreign_paths plan)"
    and cmd: "cmd = s5cmd p ([''sync'', ''--no-follow-symlinks''] @ exclude_args (filter (\<lambda>path. \<not> inside ?folder path)
        (filter (\<lambda>path. inside path (rs_path (pl_pushed plan))) (push_skipped spec plan)))
      @ [disk_path (rs_path (pl_pushed plan)) @ [slash] @ glob, location_url (rs_source (pl_pushed plan)) @ literal_dir glob])"
    by (simp_all add: include_sync_def Let_def foreign_paths_def split: if_splits)
  then have "h \<in> set (filter (\<lambda>path. \<not> inside ?folder path) (filter (\<lambda>path. inside path (rs_path (pl_pushed plan))) (push_skipped spec plan)))"
    using assms(2) by (auto simp: foreign_paths_def push_skipped_def list_ex_iff)
  then have "spares cmd (tl (disk_path (h @ slash # rest)))" unfolding cmd by (rule excluding_spares) (rule assms(3))
  then show ?thesis by (simp add: cmd)
qed

text \<open>C30. A push never sends what another holds: every command of a full push, as a shell reads it, the ones that carve
  included files out of excluded folders too, excludes each file below another restore entry or a mount inside the
  pushed entry.\<close>

theorem push_spares_foreign:
  assumes "sync_argv p spec sandbox_id = Inr argv" "modal_plan p spec sandbox_id = Inr plan" "h \<in> set (foreign_paths plan)" "h \<noteq> []"
  shows "\<exists>cmds. sync_commands argv = Some cmds \<and> cmds \<noteq> [] \<and> (\<forall>cmd \<in> set cmds. spares cmd (tl (disk_path (h @ slash # rest))))"
proof -
  let ?left = "filter (\<lambda>path. inside path (rs_path (pl_pushed plan))) (push_skipped spec plan)"
  define sync where "sync = s5cmd p ([''sync'', ''--no-follow-symlinks''] @ exclude_args ?left
    @ [disk_path (rs_path (pl_pushed plan)) @ [slash], location_url (rs_source (pl_pushed plan))])"
  have "h \<in> set ?left" using assms(3) by (auto simp: foreign_paths_def push_skipped_def)
  then have own: "spares sync (tl (disk_path (h @ slash # rest)))" unfolding sync_def by (rule excluding_spares) (rule assms(4))
  have one: "sync_commands sync = Some [sync]" by (simp add: sync_commands_def sync_def s5cmd_def)
  show ?thesis
  proof (cases "sx_push_include spec = []")
    case True
    then have "argv = sync" using assms(1,2) by (simp add: sync_argv_def sync_def Let_def)
    then show ?thesis using one own by simp
  next
    case False
    then obtain syncs where syncs: "try_map (include_sync p spec plan ?left) (sx_push_include spec) = Inr syncs"
      and argv: "argv = and_script (sync # syncs)"
      using assms(1,2) by (auto simp: sync_argv_def sync_def Let_def try_bind_def split: sum.splits)
    from syncs have each: "cmd \<in> set syncs \<Longrightarrow> spares cmd (tl (disk_path (h @ slash # rest))) \<and> cmd \<noteq> []" for cmd
      using include_sync_spares [OF _ assms(3,4)] by (auto simp: try_map_pointwise list_all2_conv_all_nth in_set_conv_nth)
    have "sh_read (join_with '' && '' (map shlex_join (sync # syncs))) = Some (sync # syncs)"
      by (rule script_reads_back) (use each in \<open>auto simp: sync_def\<close>)
    then have "sync_commands argv = Some (sync # syncs)" by (simp add: argv and_script_def sync_commands_def)
    then show ?thesis using each own by auto
  qed
qed

text \<open>An entry in the pushed folder, and files included from an excluded one.\<close>

definition sample_plan_spec :: sandbox_spec where
  "sample_plan_spec = default_spec\<lparr>sx_push_exclude := [''d''], sx_push_include := [''d/*.txt''],
     sx_restore := [\<lparr>rs_source = \<lparr>lc_bucket = ''b'', lc_prefix = ''r/''\<rparr>, rs_path = [], rs_push = True\<rparr>,
       \<lparr>rs_source = \<lparr>lc_bucket = ''b'', lc_prefix = ''q/''\<rparr>, rs_path = ''d/in'', rs_push = False\<rparr>]\<rparr>"

theorem push_spares_foreign_witness:
  "\<exists>argv cmds. sync_argv sample_provider sample_plan_spec ''t1'' = Inr argv \<and> sync_commands argv = Some cmds \<and> cmds \<noteq> []
     \<and> list_all (\<lambda>cmd. spares cmd ''root/sandbox/d/in/z.txt'') cmds"
proof -
  let ?pushed = "\<lparr>rs_source = \<lparr>lc_bucket = ''b'', lc_prefix = ''r/''\<rparr>, rs_path = [], rs_push = True\<rparr>"
  let ?plan = "\<lparr>pl_pushed = ?pushed, pl_others = [\<lparr>rs_source = \<lparr>lc_bucket = ''b'', lc_prefix = ''q/''\<rparr>, rs_path = ''d/in'', rs_push = False\<rparr>],
    pl_mounts = []\<rparr>"
  have plan: "modal_plan sample_provider sample_plan_spec ''t1'' = Inr ?plan"
    by (simp add: modal_plan_def sample_plan_spec_def default_spec_def checked_plan_def)
  have "\<exists>argv. sync_argv sample_provider sample_plan_spec ''t1'' = Inr argv"
    unfolding sync_argv_def plan by (simp add: sample_plan_spec_def default_spec_def include_sync_def Let_def push_skipped_def inside_def
      under_path_def literal_dir_def wildcard_def slash_def strip_slashes_def Messages.starts_with_def)
  then obtain argv where argv: "sync_argv sample_provider sample_plan_spec ''t1'' = Inr argv" by blast
  have "''d/in'' \<in> set (foreign_paths ?plan)" by (simp add: foreign_paths_def inside_def)
  from push_spares_foreign [OF argv plan this, of "''z.txt''"] argv show ?thesis
    by (auto simp: list_all_iff disk_path_def disk_root_def slash_def)
qed

text \<open>A pull writes nothing below a mount: an object there is excluded by its key, and its time is not stamped.\<close>

lemma pull_spares_mounts:
  assumes "m \<in> set mounts" "inside (mn_path m) (rs_path r)" "mn_path m \<noteq> rs_path r"
    and rel: "under_path (rs_path r) rel = mn_path m @ slash # rest"
  shows "spares (pull_argv p r mounts size_only) (lc_prefix (rs_source r) @ rel)"
    and "skipped (sc_prefix (stamp_for p r mounts)) (sc_skip (stamp_for p r mounts)) (location_url (rs_source r) @ rel)"
proof -
  let ?b = "below_path (rs_path r) (mn_path m)"
  have b: "?b \<in> set (mounted_paths r mounts)" using assms(1,2) by (auto simp: mounted_paths_def)
  have "mn_path m = under_path (rs_path r) ?b" by (rule inside_below [OF assms(2,3)])
  then have "under_path (rs_path r) rel = under_path (rs_path r) (?b @ slash # rest)"
    using rel by (cases "rs_path r") (simp_all add: under_path_def)
  then have r: "rel = ?b @ slash # rest" by (simp add: under_path_def split: if_splits)
  from b obtain xs ys where "mounted_paths r mounts = xs @ ?b # ys" by (meson split_list)
  moreover obtain start where "\<And>args. s5cmd p args = start @ args" by (auto simp: s5cmd_def split: option.splits)
  moreover define ex where "ex = (\<lambda>bs. concat (map (\<lambda>b. [''--exclude'', lc_prefix (rs_source r) @ b @ ''/*'']) bs))"
  ultimately have "pull_argv p r mounts size_only = (start @ pull_flags size_only @ ex xs) @ [''--exclude'', (lc_prefix (rs_source r) @ ?b) @ ''/*'']
      @ ex ys @ [location_url (rs_source r) @ ''*'', disk_path (rs_path r) @ [slash]]"
    by (simp add: pull_argv_def)
  from spares_pair [OF this] show "spares (pull_argv p r mounts size_only) (lc_prefix (rs_source r) @ rel)" by (simp add: r)
  have "Texts.starts_with (location_url (rs_source r) @ ?b @ [slash]) (location_url (rs_source r) @ rel)"
    by (simp add: r Texts.starts_with_def)
  then show "skipped (sc_prefix (stamp_for p r mounts)) (sc_skip (stamp_for p r mounts)) (location_url (rs_source r) @ rel)"
    using b by (auto simp: skipped_def stamp_for_def list_ex_iff)
qed

end
