(* ===== verification/Modal_Sandbox.thy ===== *)
theory Modal_Sandbox
  imports Modal_Plan
begin

text \<open>
  A container sandbox while it runs (\<open>ModalSandboxProvider\<close> and \<open>ModalSandbox\<close> of \<open>actant/sandbox/modal.py\<close>): opening,
  attaching, running commands, pushing and closing. Modal's calls are arbitrary actions on the world that may raise
  anything; the host's client is \<open>me_post\<close> (its own model is \<open>Host_Post\<close>). What was asked of Modal is noted in
  the state. A wait with a bound runs its body, and is late when the world says so.
\<close>

section \<open>Modal\<close>

datatype modal_secret = SecretNamed string | SecretDict "(string, string) dict"

datatype modal_probe = ProbeFile string | ProbePort int

datatype outbound = OutboundFree | OutboundCidrs "string list" | OutboundDomains "string list"

record bucket_mount =
  bm_bucket :: string
  bm_prefix :: "string option"
  bm_endpoint :: "string option"
  bm_secret :: "modal_secret option"
  bm_read_only :: bool

record create_request =
  nb_command :: "string list"
  nb_image :: "string option"
  nb_cpu :: int
  nb_memory :: int
  nb_gpu :: "string option"
  nb_region :: region
  nb_timeout :: int
  nb_idle_timeout :: int
  nb_outbound :: outbound
  nb_secrets :: "modal_secret list"
  nb_env :: "(string, string) dict option"
  nb_tags :: "(string, string) dict"
  nb_volumes :: "(string, bucket_mount) dict"
  nb_workdir :: string
  nb_probe :: "modal_probe option"

text \<open>\<open>me_exec\<close> runs a command and gives its output, its errors and its code. \<open>me_late\<close> tells from the worlds before and
  after that a bound has passed. \<open>me_dump\<close> is the JSON of a configuration, \<open>me_ls\<close> the text of the listing script.\<close>

record 'w modal_env =
  me_lookup :: "('w, unit) act"
  me_create :: "create_request \<Rightarrow> ('w, string) act"
  me_wait_ready :: "string \<Rightarrow> rat \<Rightarrow> ('w, unit) act"
  me_poll :: "string \<Rightarrow> ('w, int option) act"
  me_stderr :: "string \<Rightarrow> ('w, string) act"
  me_terminate :: "string \<Rightarrow> ('w, unit) act"
  me_wait :: "string \<Rightarrow> ('w, unit) act"
  me_from_id :: "string \<Rightarrow> ('w, unit) act"
  me_tags :: "string \<Rightarrow> ('w, (string, string) dict) act"
  me_token :: "string \<Rightarrow> int \<Rightarrow> ('w, string \<times> string) act"
  me_exec :: "string \<Rightarrow> string list \<Rightarrow> string \<Rightarrow> (string, string) dict \<Rightarrow> ('w, string \<times> string \<times> int) act"
  me_post :: "host_post \<Rightarrow> rat \<Rightarrow> ('w, int \<times> string) act"
  me_read :: "string \<Rightarrow> string \<Rightarrow> ('w, string) act"
  me_mkdir :: "string \<Rightarrow> string \<Rightarrow> ('w, unit) act"
  me_write :: "string \<Rightarrow> string \<Rightarrow> string \<Rightarrow> ('w, unit) act"
  me_late :: "rat \<Rightarrow> 'w \<Rightarrow> 'w \<Rightarrow> bool"
  me_hostname :: "string \<Rightarrow> string option"
  me_dump :: "host_config entry_config \<Rightarrow> string"
  me_sha :: "string \<Rightarrow> string"
  me_script :: string
  me_ls :: string

definition api_slack_s :: rat where
  "api_slack_s = 60"

definition ready_file :: string where
  "ready_file = ''/tmp/actant-ready''"

definition thread_tag :: string where
  "thread_tag = ''actant_thread''"

definition time_up :: py_error where
  "time_up = OtherException ''TimeoutError'' []"

text \<open>\<open>asyncio.wait_for\<close>.\<close>

definition bounded_by :: "'w modal_env \<Rightarrow> ('s \<Rightarrow> 'w) \<Rightarrow> rat \<Rightarrow> ('s, 'a) act \<Rightarrow> ('s, 'a) act" where
  "bounded_by e world limit m s = (case m s of (r, t) \<Rightarrow> (if me_late e limit (world s) (world t) then Inl time_up else r, t))"

section \<open>A sandbox\<close>

record modal_box =
  mb_id :: string
  mb_env :: "(string, string) dict"
  mb_root :: string
  mb_sync_argv :: "string list option"
  mb_push_argv :: "(string list \<Rightarrow> py_error + string list) option"
  mb_sync_timeout :: rat
  mb_scrub :: "string list"
  mb_service_port :: "int option"

datatype box_event = BoxRan "string list" | BoxReply int | BoxTerminated

record 'w boxed =
  bx_endpoint :: "endpoint option"
  bx_access :: access_setup
  bx_log :: "box_event list"
  bx_world :: 'w

definition new_boxed :: "'w \<Rightarrow> 'w boxed" where
  "new_boxed w = \<lparr>bx_endpoint = None, bx_access = new_setup, bx_log = [], bx_world = w\<rparr>"

definition in_box :: "('w, 'a) act \<Rightarrow> ('w boxed, 'a) act" where
  "in_box m s = (case m (bx_world s) of (r, w) \<Rightarrow> (r, s\<lparr>bx_world := w\<rparr>))"

definition note_box :: "box_event \<Rightarrow> ('w boxed, unit) act" where
  "note_box ev = modifyS (\<lambda>s. s\<lparr>bx_log := bx_log s @ [ev]\<rparr>)"

definition box_endpoint :: "'w modal_env \<Rightarrow> modal_box \<Rightarrow> bool \<Rightarrow> ('w boxed, endpoint option) act" where
  "box_endpoint e b refresh = (case mb_service_port b of
      None \<Rightarrow> ret None
    | Some port \<Rightarrow> bnd getS (\<lambda>s. if bx_endpoint s = None \<or> refresh
        then bnd (in_box (me_token e (mb_id b) port)) (\<lambda>(url, token).
          let ep = \<lparr>ep_url = url, ep_headers = [(''Authorization'', ''Bearer '' @ token)]\<rparr> in
          thn (modifyS (\<lambda>s. s\<lparr>bx_endpoint := Some ep\<rparr>)) (ret (Some ep)))
        else ret (bx_endpoint s)))"

section \<open>Files and commands\<close>

definition box_check :: "string \<Rightarrow> py_error + string" where
  "box_check path = (if Texts.starts_with [slash] path \<or> ''..'' \<in> set (split_on slash path)
     then Inl (ValueError (''path escapes the sandbox: '' @ repr_str path)) else Inr path)"

definition box_read :: "'w modal_env \<Rightarrow> modal_box \<Rightarrow> string \<Rightarrow> ('w boxed, string) act" where
  "box_read e b path = bnd (from_res (box_check path)) (\<lambda>path. in_box (me_read e (mb_id b) (mb_root b @ [slash] @ path)))"

text \<open>\<open>s.rpartition('/')[0]\<close>.\<close>

definition before_slash :: "string \<Rightarrow> string" where
  "before_slash s = rev (tl (dropWhile (\<lambda>c. c \<noteq> slash) (rev s)))"

definition box_write :: "'w modal_env \<Rightarrow> modal_box \<Rightarrow> string \<Rightarrow> string \<Rightarrow> ('w boxed, unit) act" where
  "box_write e b path data = bnd (from_res (box_check path)) (\<lambda>path. let target = mb_root b @ [slash] @ path in
     thn (in_box (me_mkdir e (mb_id b) (before_slash target))) (in_box (me_write e (mb_id b) target data)))"

definition whole_seconds :: "rat \<Rightarrow> int" where
  "whole_seconds r = (if 0 \<le> r then \<lfloor>r\<rfloor> else \<lceil>r\<rceil>)"

definition merge_env :: "(string, string) dict \<Rightarrow> (string, string) dict \<Rightarrow> (string, string) dict" where
  "merge_env a b = fold (\<lambda>(k, v). dset k v) b a"

definition timed_argv :: "rat \<Rightarrow> string list \<Rightarrow> string list" where
  "timed_argv timeout argv = ''timeout'' # int_str (whole_seconds timeout) # argv"

definition box_run :: "'w modal_env \<Rightarrow> modal_box \<Rightarrow> string list \<Rightarrow> string option \<Rightarrow> rat \<Rightarrow> (string, string) dict option \<Rightarrow> ('w boxed, exec_result) act" where
  "box_run e b argv cwd timeout env =
     bnd (case cwd of None \<Rightarrow> ret (mb_root b)
       | Some d \<Rightarrow> (if d = [] then ret (mb_root b) else bnd (from_res (box_check d)) (\<lambda>d. ret (mb_root b @ [slash] @ d)))) (\<lambda>workdir.
     thn (note_box (BoxRan (timed_argv timeout argv)))
      (bnd (in_box (me_exec e (mb_id b) (timed_argv timeout argv) workdir (merge_env (mb_env b) (or_else env [])))) (\<lambda>(out, err, code).
       ret \<lparr>er_returncode = code, er_stdout = out, er_stderr = err, er_timed_out = (code = 124)\<rparr>)))"

definition setup_timeout_s :: rat where
  "setup_timeout_s = 120"

text \<open>\<open>_as_root\<close>, as \<open>AccessSetup\<close> runs it.\<close>

definition run_as_root :: "'w modal_env \<Rightarrow> modal_box \<Rightarrow> string list \<Rightarrow> (access_setup \<times> 'w boxed, ran) act" where
  "run_as_root e b argv = (\<lambda>(a, s). case box_run e b argv None setup_timeout_s None s of (r, s') \<Rightarrow>
     (map_sum id (\<lambda>x. \<lparr>rn_returncode = er_returncode x, rn_stdout = er_stdout x, rn_stderr = er_stderr x\<rparr>) r, (a, s')))"

definition box_ready :: "'w modal_env \<Rightarrow> modal_box \<Rightarrow> (access_setup \<times> 'w boxed, unit) act \<Rightarrow> sandbox_access \<Rightarrow> ('w boxed, unit) act" where
  "box_ready e b lock a s = (case ready (me_sha e) (me_script e) (mb_root b) (run_as_root e b) lock a (bx_access s, s) of
     (r, (setup, s')) \<Rightarrow> (r, s'\<lparr>bx_access := setup\<rparr>))"

definition scrubbed :: "modal_box \<Rightarrow> (string, string) dict option \<Rightarrow> string list \<Rightarrow> string list" where
  "scrubbed b env argv = (let unset = map (\<lambda>n. ''-u'' @ n) (filter (\<lambda>n. n \<notin> set (dkeys (or_else env []))) (mb_scrub b)) in
     (if unset = [] then [] else ''env'' # unset) @ argv)"

definition box_exec :: "'w modal_env \<Rightarrow> modal_box \<Rightarrow> (access_setup \<times> 'w boxed, unit) act \<Rightarrow> string list \<Rightarrow> string option \<Rightarrow> rat
     \<Rightarrow> (string, string) dict option \<Rightarrow> sandbox_access option \<Rightarrow> ('w boxed, exec_result) act" where
  "box_exec e b lock argv cwd timeout env access = (case access of
      None \<Rightarrow> box_run e b (scrubbed b env argv) cwd timeout env
    | Some a \<Rightarrow> thn (box_ready e b lock a) (box_run e b (scrubbed b env (run_argv a argv ''/tmp'')) cwd timeout env))"

record listed_entry =
  li_path :: string
  li_size :: int
  li_mtime :: json

fun read_entry :: "json \<Rightarrow> py_error + listed_entry" where
  "read_entry (JList [JStr p, JInt s, m]) = Inr \<lparr>li_path = p, li_size = s, li_mtime = m\<rparr>"
| "read_entry _ = Inl (ValueError ''not an entry'')"

definition box_ls :: "'w modal_env \<Rightarrow> modal_box \<Rightarrow> (access_setup \<times> 'w boxed, unit) act \<Rightarrow> string \<Rightarrow> ('w boxed, listed_entry list) act" where
  "box_ls e b lock pat = bnd (from_res (box_check pat)) (\<lambda>pat.
     bnd (box_exec e b lock [''python'', ''-c'', me_ls e, mb_root b, pat] None 60 None None) (\<lambda>result.
     if er_returncode result \<noteq> 0 then raise (RuntimeError (''ls failed: '' @ er_stderr result))
     else from_res (case json_loads (if er_stdout result = [] then ''[]'' else er_stdout result) of
       Some (JList js) \<Rightarrow> try_map read_entry js | _ \<Rightarrow> Inl (ValueError ''not a listing''))))"

section \<open>Pushing and closing\<close>

definition bounded_sync :: "'w modal_env \<Rightarrow> modal_box \<Rightarrow> string list \<Rightarrow> ('w boxed, exec_result) act" where
  "bounded_sync e b argv = catch
     (bounded_by e bx_world (mb_sync_timeout b + api_slack_s) (box_run e b argv None (mb_sync_timeout b) None))
     (\<lambda>x. if err_type x = ''TimeoutError''
       then ret \<lparr>er_returncode = 124, er_stdout = [], er_stderr = ''sync did not return in time'' @ [CHR 0x0A], er_timed_out = True\<rparr>
       else raise x)"

definition box_sync :: "'w modal_env \<Rightarrow> modal_box \<Rightarrow> string list option \<Rightarrow> ('w boxed, exec_result) act" where
  "box_sync e b paths = (case mb_sync_argv b of
      None \<Rightarrow> ret \<lparr>er_returncode = 0, er_stdout = [], er_stderr = [], er_timed_out = False\<rparr>
    | Some argv \<Rightarrow> (case paths of
        None \<Rightarrow> bounded_sync e b argv
      | Some ps \<Rightarrow> (if ps = [] then ret \<lparr>er_returncode = 0, er_stdout = [], er_stderr = [], er_timed_out = False\<rparr>
          else case mb_push_argv b of
            Some push \<Rightarrow> bnd (from_res (push ps)) (bounded_sync e b)
          | None \<Rightarrow> raise (ValueError ''this sandbox was opened without a scoped push''))))"

fun ask_host :: "'w modal_env \<Rightarrow> modal_box \<Rightarrow> bool list \<Rightarrow> ('w boxed, bool) act" where
  "ask_host e b [] = ret False"
| "ask_host e b (refresh # rs) = bnd (bounded_by e bx_world api_slack_s (box_endpoint e b refresh)) (\<lambda>ep. case ep of
      None \<Rightarrow> raise AssertionError
    | Some ep \<Rightarrow> bnd (in_box (me_post e (post_of ep RouteShutdown (JObj [])) (2 * mb_sync_timeout b + api_slack_s))) (\<lambda>(status, body).
        thn (note_box (BoxReply status)) (if status \<noteq> 401 then ret (status = 200) else ask_host e b rs)))"

definition stop_host :: "'w modal_env \<Rightarrow> modal_box \<Rightarrow> ('w boxed, bool) act" where
  "stop_host e b = (if mb_service_port b = None then ret False else catch (ask_host e b [False, True]) (\<lambda>_. ret False))"

definition final_push :: "'w modal_env \<Rightarrow> modal_box \<Rightarrow> ('w boxed, unit) act" where
  "final_push e b = (case mb_sync_argv b of None \<Rightarrow> ret () | Some argv \<Rightarrow> catch (thn (bounded_sync e b argv) (ret ())) (\<lambda>_. ret ()))"

definition end_box :: "'w modal_env \<Rightarrow> modal_box \<Rightarrow> ('w boxed, unit) act" where
  "end_box e b = try_else (bounded_by e bx_world api_slack_s (thn (note_box BoxTerminated) (in_box (me_terminate e (mb_id b)))))
     (\<lambda>_. ret ()) (\<lambda>_. catch (bounded_by e bx_world api_slack_s (in_box (me_wait e (mb_id b)))) (\<lambda>_. ret ()))"

definition box_close :: "'w modal_env \<Rightarrow> modal_box \<Rightarrow> ('w boxed, unit) act" where
  "box_close e b = bnd (stop_host e b) (\<lambda>stopped. thn (if stopped then ret () else final_push e b) (end_box e b))"

section \<open>The provider\<close>

datatype modal_event = ModalCreated string | ModalTerminated string

record 'w modal_state =
  ms_live :: "(string, modal_box) dict"
  ms_log :: "modal_event list"
  ms_world :: 'w

definition in_modal :: "('w, 'a) act \<Rightarrow> ('w modal_state, 'a) act" where
  "in_modal m s = (case m (ms_world s) of (r, w) \<Rightarrow> (r, s\<lparr>ms_world := w\<rparr>))"

definition note_modal :: "modal_event \<Rightarrow> ('w modal_state, unit) act" where
  "note_modal ev = modifyS (\<lambda>s. s\<lparr>ms_log := ms_log s @ [ev]\<rparr>)"

definition network_of :: "'w modal_env \<Rightarrow> modal_provider \<Rightarrow> sandbox_spec \<Rightarrow> py_error + outbound" where
  "network_of e p spec = (if sx_network spec then Inr OutboundFree
     else if sx_storage spec \<noteq> DiskSync then Inr (OutboundCidrs [])
     else case me_hostname e (or_else (mp_endpoint_url p) []) of
       None \<Rightarrow> Inl (ValueError ''disk_sync without network needs endpoint_url: s5cmd may reach only that host'')
     | Some h \<Rightarrow> Inr (OutboundDomains [h]))"

definition bucket_secret :: "modal_provider \<Rightarrow> modal_secret option" where
  "bucket_secret p = (case mp_bucket_env p of
      Some env \<Rightarrow> Some (SecretDict (merge_env [(''AWS_REGION'', ''us-east-1'')] env))
    | None \<Rightarrow> (case mp_secret_name p of None \<Rightarrow> None | Some n \<Rightarrow> if n = [] then None else Some (SecretNamed n)))"

definition secrets_of :: "modal_provider \<Rightarrow> sandbox_spec \<Rightarrow> modal_secret list" where
  "secrets_of p spec = map SecretNamed (sx_secrets spec)
     @ (case mp_env p of None \<Rightarrow> [] | Some env \<Rightarrow> if env = [] then [] else [SecretDict env])
     @ (if sx_storage spec = DiskSync then (case bucket_secret p of None \<Rightarrow> [] | Some x \<Rightarrow> [x]) else [])"

definition volumes_of :: "modal_provider \<Rightarrow> sandbox_spec \<Rightarrow> string \<Rightarrow> py_error + (string, bucket_mount) dict" where
  "volumes_of p spec sandbox_id = (if sx_storage spec = DiskSync
     then try_bind (modal_plan p spec sandbox_id) (\<lambda>plan. Inr (fold (\<lambda>m. dset (disk_path (mn_path m))
       \<lparr>bm_bucket = lc_bucket (mn_source m), bm_prefix = (if lc_prefix (mn_source m) = [] then None else Some (lc_prefix (mn_source m))),
        bm_endpoint = mp_endpoint_url p, bm_secret = bucket_secret p, bm_read_only = True\<rparr>) (pl_mounts plan) []))
     else Inr [(mount_root, \<lparr>bm_bucket = mp_bucket p, bm_prefix = Some (mp_key_prefix p @ sandbox_id @ [slash]),
       bm_endpoint = mp_endpoint_url p, bm_secret = bucket_secret p, bm_read_only = False\<rparr>)])"

definition probe_of :: "sandbox_spec \<Rightarrow> modal_probe option" where
  "probe_of spec = (if sx_services spec \<noteq> [] then Some (ProbePort (sx_service_port spec))
     else if sx_storage spec = DiskSync then Some (ProbeFile ready_file) else None)"

definition root_of :: "sandbox_spec \<Rightarrow> string" where
  "root_of spec = (if sx_storage spec = DiskSync then disk_root else mount_root)"

definition request_of :: "'w modal_env \<Rightarrow> modal_provider \<Rightarrow> sandbox_spec \<Rightarrow> string \<Rightarrow> host_config entry_config \<Rightarrow> py_error + create_request" where
  "request_of e p spec sandbox_id config = try_bind (volumes_of p spec sandbox_id) (\<lambda>volumes. try_bind (network_of e p spec) (\<lambda>outbound.
     Inr \<lparr>nb_command = (if sx_storage spec = DiskSync \<or> sx_services spec \<noteq> [] then [''python'', ''-m'', ''actant.sandbox.entry'', me_dump e config] else []),
       nb_image = (if sx_image spec \<noteq> None then sx_image spec else mp_image p), nb_cpu = sx_cpu spec, nb_memory = sx_memory_mb spec,
       nb_gpu = sx_gpu spec, nb_region = sx_region spec, nb_timeout = sx_timeout_s spec, nb_idle_timeout = sx_idle_timeout_s spec,
       nb_outbound = outbound, nb_secrets = secrets_of p spec, nb_env = (if sx_env spec = [] then None else Some (sx_env spec)),
       nb_tags = [(thread_tag, sandbox_id)], nb_volumes = volumes, nb_workdir = root_of spec, nb_probe = probe_of spec\<rparr>))"

definition box_of :: "modal_provider \<Rightarrow> sandbox_spec \<Rightarrow> string \<Rightarrow> string \<Rightarrow> py_error + modal_box" where
  "box_of p spec sandbox_id provider_id = try_bind
     (if sx_storage spec = DiskSync then try_bind (sync_argv p spec sandbox_id) (\<lambda>argv. Inr (Some argv)) else Inr None) (\<lambda>argv.
     Inr \<lparr>mb_id = provider_id, mb_env = sx_env spec, mb_root = root_of spec, mb_sync_argv = argv,
       mb_push_argv = (if sx_storage spec = DiskSync then Some (push_argv p spec sandbox_id) else None),
       mb_sync_timeout = sx_sync_timeout_s spec, mb_scrub = sx_scrub_env spec,
       mb_service_port = (if sx_services spec \<noteq> [] then Some (sx_service_port spec) else None)\<rparr>)"

text \<open>\<open>_handle\<close>.\<close>

definition handle_box :: "modal_provider \<Rightarrow> sandbox_spec \<Rightarrow> string \<Rightarrow> string \<Rightarrow> ('w modal_state, modal_box) act" where
  "handle_box p spec sandbox_id provider_id = bnd (from_res (box_of p spec sandbox_id provider_id)) (\<lambda>b.
     thn (modifyS (\<lambda>s. s\<lparr>ms_live := dset provider_id b (ms_live s)\<rparr>)) (ret b))"

definition terminate_box :: "'w modal_env \<Rightarrow> string \<Rightarrow> ('w modal_state, unit) act" where
  "terminate_box e i = thn (note_modal (ModalTerminated i)) (in_modal (me_terminate e i))"

definition never_ready :: "'w modal_env \<Rightarrow> string \<Rightarrow> string \<Rightarrow> py_error \<Rightarrow> ('w modal_state, unit) act" where
  "never_ready e sandbox_id i x = bnd (in_modal (me_poll e i)) (\<lambda>code.
     bnd (if code \<noteq> None then bnd (in_modal (me_stderr e i)) (\<lambda>t. ret (drop (length t - 4000) t)) else ret []) (\<lambda>detail.
     thn (catch (terminate_box e i) (\<lambda>_. ret ()))
       (raise (RuntimeError (''sandbox '' @ sandbox_id @ '' never became ready: '' @ err_str x @ [CHR 0x0A] @ detail)))))"

definition await_ready :: "'w modal_env \<Rightarrow> sandbox_spec \<Rightarrow> string \<Rightarrow> string \<Rightarrow> ('w modal_state, unit) act" where
  "await_ready e spec sandbox_id i s = (if probe_of spec = None then (Inr (), s)
     else case in_modal (me_wait_ready e i (sx_restore_timeout_s spec)) s of
       (Inr _, t) \<Rightarrow> (Inr (), t)
     | (Inl x, t) \<Rightarrow> (if is_exception x then never_ready e sandbox_id i x t
         else thn (catch (bounded_by e ms_world api_slack_s (terminate_box e i)) (\<lambda>_. ret ())) (raise x) t))"

definition open_box :: "'w modal_env \<Rightarrow> modal_provider \<Rightarrow> sandbox_spec \<Rightarrow> string \<Rightarrow> ('w modal_state, modal_box) act" where
  "open_box e p spec sandbox_id = bnd (from_res (entry_config_of p spec sandbox_id False)) (\<lambda>config.
     thn (in_modal (me_lookup e)) (bnd (from_res (request_of e p spec sandbox_id config)) (\<lambda>request.
     bnd (in_modal (me_create e request)) (\<lambda>i. thn (note_modal (ModalCreated i))
       (thn (await_ready e spec sandbox_id i) (handle_box p spec sandbox_id i))))))"

definition attach_box :: "'w modal_env \<Rightarrow> modal_provider \<Rightarrow> sandbox_spec \<Rightarrow> string \<Rightarrow> ('w modal_state, modal_box) act" where
  "attach_box e p spec provider_id = bnd getS (\<lambda>s. case dget (ms_live s) provider_id of
      None \<Rightarrow> thn (catch (in_modal (me_from_id e provider_id)) (\<lambda>_. raise (KeyError provider_id)))
        (bnd (in_modal (me_poll e provider_id)) (\<lambda>code. if code \<noteq> None then raise (KeyError provider_id)
         else bnd (in_modal (me_tags e provider_id)) (\<lambda>tags. case dget tags thread_tag of
           None \<Rightarrow> raise (KeyError thread_tag)
         | Some sandbox_id \<Rightarrow> handle_box p spec sandbox_id provider_id)))
    | Some b \<Rightarrow> bnd (in_modal (me_poll e provider_id)) (\<lambda>code. if code \<noteq> None
        then thn (modifyS (\<lambda>s. s\<lparr>ms_live := AList.delete provider_id (ms_live s)\<rparr>)) (raise (KeyError provider_id))
        else ret b))"

section \<open>No close loses files\<close>

named_theorems box_logs \<open>what an action notes\<close>

lemma in_box_log [box_logs]: "bx_log (snd (in_box m s)) = bx_log s"
  by (simp add: in_box_def split: prod.split)

lemma bounded_log [box_logs]: "snd (bounded_by e world limit m s) = snd (m s)"
  by (simp add: bounded_by_def split: prod.split)

lemma box_endpoint_log [box_logs]: "bx_log (snd (box_endpoint e b refresh s)) = bx_log s"
  using in_box_log [of "me_token e (mb_id b) (the (mb_service_port b))" s]
  by (auto simp: box_endpoint_def bnd_def thn_def ret_def getS_def modifyS_def Let_def split: option.split prod.split sum.split)

lemma box_run_log: "bx_log (snd (box_run e b argv None timeout env s)) = bx_log s @ [BoxRan (timed_argv timeout argv)]"
  by (auto simp: box_run_def bnd_def thn_def ret_def note_box_def modifyS_def in_box_def split: prod.split sum.split)

lemma catch_snd: "(\<And>x u. snd (h x u) = u) \<Longrightarrow> snd (catch m h s) = snd (m s)"
  by (simp add: catch_def split: prod.split sum.split)

lemma bounded_sync_log: "bx_log (snd (bounded_sync e b argv s)) = bx_log s @ [BoxRan (timed_argv (mb_sync_timeout b) argv)]"
  unfolding bounded_sync_def
  by (subst catch_snd) (simp_all add: ret_def raise_def bounded_log box_run_log)

lemma catch_quiet: "catch m (\<lambda>_. ret a) s = (Inl x, t) \<Longrightarrow> x = CancelledError"
  by (auto simp: catch_def ret_def not_exception split: prod.splits sum.splits if_splits)

lemma final_push_log:
  assumes "mb_sync_argv b = Some argv" "final_push e b s = (r, t)"
  shows "bx_log t = bx_log s @ [BoxRan (timed_argv (mb_sync_timeout b) argv)] \<and> (r = Inr () \<or> r = Inl CancelledError)"
proof -
  have "snd (final_push e b s) = snd (bounded_sync e b argv s)"
    by (simp add: final_push_def assms(1) catch_def thn_def bnd_def ret_def split: prod.split sum.split)
  moreover have "\<And>x. r = Inl x \<Longrightarrow> x = CancelledError" using assms by (auto simp: final_push_def dest: catch_quiet)
  ultimately show ?thesis using assms(2) bounded_sync_log [of e b argv s] by (cases r) auto
qed

lemma ask_host_log:
  "ask_host e b rs s = (r, t) \<Longrightarrow> \<exists>evs. bx_log t = bx_log s @ evs \<and> BoxTerminated \<notin> set evs \<and> (r = Inr True \<longrightarrow> BoxReply 200 \<in> set evs)"
proof (induction rs arbitrary: s)
  case Nil
  then show ?case by (auto simp: ret_def)
next
  case (Cons refresh rs)
  obtain ep u where u: "bounded_by e bx_world api_slack_s (box_endpoint e b refresh) s = (ep, u)" by fastforce
  then have lu: "bx_log u = bx_log s" using bounded_log [of e bx_world api_slack_s "box_endpoint e b refresh" s] by (simp add: box_logs)
  show ?case
  proof (cases "\<exists>p. ep = Inr (Some p)")
    case True
    then obtain p where p: "ep = Inr (Some p)" by blast
    obtain a v where v: "in_box (me_post e (post_of p RouteShutdown (JObj [])) (2 * mb_sync_timeout b + api_slack_s)) u = (a, v)" by fastforce
    then have lv: "bx_log v = bx_log s" using in_box_log [of "me_post e (post_of p RouteShutdown (JObj [])) (2 * mb_sync_timeout b + api_slack_s)" u] lu by simp
    show ?thesis
    proof (cases a)
      case (Inl x)
      then show ?thesis using Cons.prems u p v lv by (auto simp: bnd_def)
    next
      case (Inr sb)
      obtain status body where a: "a = Inr (status, body)" using Inr by (cases sb) auto
      let ?w = "v\<lparr>bx_log := bx_log v @ [BoxReply status]\<rparr>"
      have run: "(if status \<noteq> 401 then ret (status = 200) else ask_host e b rs) ?w = (r, t)"
        using Cons.prems u p v a by (simp add: bnd_def thn_def note_box_def modifyS_def)
      show ?thesis
      proof (cases "status = 401")
        case True
        then show ?thesis using Cons.IH [of ?w] run lv by auto
      next
        case False
        then show ?thesis using run lv by (auto simp: ret_def)
      qed
    qed
  next
    case False
    then show ?thesis using Cons.prems u lu by (auto simp: bnd_def raise_def split: sum.splits option.splits)
  qed
qed

lemma stop_host_log:
  assumes "stop_host e b s = (r, t)"
  shows "\<exists>evs. bx_log t = bx_log s @ evs \<and> BoxTerminated \<notin> set evs \<and> (r = Inr True \<longrightarrow> BoxReply 200 \<in> set evs) \<and> (\<forall>x. r = Inl x \<longrightarrow> x = CancelledError)"
proof (cases "mb_service_port b = None")
  case True
  then show ?thesis using assms by (auto simp: stop_host_def ret_def)
next
  case False
  obtain a u where u: "ask_host e b [False, True] s = (a, u)" by fastforce
  have c: "catch (ask_host e b [False, True]) (\<lambda>_. ret False) s = (r, t)"
    using assms unfolding stop_host_def if_not_P [OF False] .
  then have "t = u" "r = a \<or> r = Inr False" using u by (auto simp del: ask_host.simps simp: catch_def ret_def split: sum.splits if_splits)
  then show ?thesis using ask_host_log [OF u] catch_quiet [of "ask_host e b [False, True]" False s] c by auto
qed

lemma end_box_log:
  assumes "end_box e b s = (r, t)"
  shows "bx_log t = bx_log s @ [BoxTerminated] \<and> (r = Inr () \<or> r = Inl CancelledError)"
proof -
  let ?m = "bounded_by e bx_world api_slack_s (thn (note_box BoxTerminated) (in_box (me_terminate e (mb_id b))))"
  let ?k = "catch (bounded_by e bx_world api_slack_s (in_box (me_wait e (mb_id b)))) (\<lambda>_. ret ())"
  have "bx_log (snd (?m s)) = bx_log s @ [BoxTerminated]"
    by (simp add: bounded_log thn_def bnd_def note_box_def modifyS_def in_box_log)
  moreover have "bx_log (snd (?k u)) = bx_log u" for u
    by (subst catch_snd) (simp_all add: ret_def bounded_log in_box_log)
  moreover have "?k u = (a, v) \<Longrightarrow> a = Inr () \<or> a = Inl CancelledError" for u a v
    using catch_quiet [where t = v] by (cases a) auto
  ultimately show ?thesis using assms
    by (auto simp: end_box_def try_else_def ret_def not_exception split: prod.splits sum.splits if_splits) (metis snd_conv)+
qed


text \<open>A Modal whose calls return; the host answers every post with an error of its own.\<close>

definition sample_modal :: "unit modal_env" where
  "sample_modal = \<lparr>me_lookup = ret (), me_create = (\<lambda>_. ret ''sb-1''), me_wait_ready = (\<lambda>_ _. raise (RuntimeError ''slow'')),
     me_poll = (\<lambda>_. ret None), me_stderr = (\<lambda>_. ret []), me_terminate = (\<lambda>_. ret ()), me_wait = (\<lambda>_. ret ()),
     me_from_id = (\<lambda>_. ret ()), me_tags = (\<lambda>_. ret []), me_token = (\<lambda>_ _. ret (''http://h'', ''t'')),
     me_exec = (\<lambda>_ _ _ _. ret ([], [], 0)), me_post = (\<lambda>_ _. ret (500, [])), me_read = (\<lambda>_ _. ret []),
     me_mkdir = (\<lambda>_ _. ret ()), me_write = (\<lambda>_ _ _. ret ()), me_late = (\<lambda>_ _ _. False), me_hostname = (\<lambda>_. None),
     me_dump = (\<lambda>_. ''{}''), me_sha = id, me_script = [], me_ls = []\<rparr>"

definition sample_box :: modal_box where
  "sample_box = \<lparr>mb_id = ''sb-1'', mb_env = [], mb_root = ''/root/sandbox'', mb_sync_argv = Some [''s5cmd'', ''sync''], mb_push_argv = None,
     mb_sync_timeout = 300, mb_scrub = [], mb_service_port = Some 8080\<rparr>"


section \<open>No open leaves a sandbox behind\<close>

text \<open>Modal tells whether a sandbox it made still runs, and what it printed.\<close>

definition tells_state :: "'w modal_env \<Rightarrow> bool" where
  "tells_state e \<longleftrightarrow> (\<forall>i w. (\<exists>c. fst (me_poll e i w) = Inr c) \<and> (\<exists>t. fst (me_stderr e i w) = Inr t))"

text \<open>What was found to be well formed before any call of Modal's is well formed after them.\<close>

lemma handle_after_config: "entry_config_of p spec sandbox_id so = Inr c \<Longrightarrow> \<exists>b. box_of p spec sandbox_id i = Inr b \<and> mb_id b = i"
  by (auto simp: entry_config_of_def box_of_def try_bind_Inr split: if_splits)

lemma in_modal_keeps: "ms_log (snd (in_modal m s)) = ms_log s \<and> ms_live (snd (in_modal m s)) = ms_live s"
  by (simp add: in_modal_def split: prod.split)

lemma terminate_notes: "ms_log (snd (terminate_box e i s)) = ms_log s @ [ModalTerminated i] \<and> ms_live (snd (terminate_box e i s)) = ms_live s"
  by (simp add: terminate_box_def thn_def bnd_def note_modal_def modifyS_def in_modal_keeps)

lemma never_ready_ends:
  assumes "tells_state e" "never_ready e sandbox_id i x s = (r, t)"
  shows "ms_log t = ms_log s @ [ModalTerminated i] \<and> ms_live t = ms_live s \<and> (\<exists>y. r = Inl y)"
proof -
  obtain code u where u: "in_modal (me_poll e i) s = (Inr code, u)" "ms_log u = ms_log s" "ms_live u = ms_live s"
    using assms(1) in_modal_keeps [of "me_poll e i" s] by (auto simp: tells_state_def in_modal_def split: prod.splits) (metis fst_conv)
  let ?d = "if code \<noteq> None then bnd (in_modal (me_stderr e i)) (\<lambda>t. ret (drop (length t - 4000) t)) else ret []"
  obtain d v where v: "?d u = (Inr d, v)" "ms_log v = ms_log s" "ms_live v = ms_live s"
  proof (cases code)
    case None
    with that [of "[]" u] u show ?thesis by (simp add: ret_def)
  next
    case (Some c)
    obtain out v where "in_modal (me_stderr e i) u = (Inr out, v)" "ms_log v = ms_log u" "ms_live v = ms_live u"
      using assms(1) in_modal_keeps [of "me_stderr e i" u] by (auto simp: tells_state_def in_modal_def split: prod.splits) (metis fst_conv)
    with that [of "drop (length out - 4000) out" v] u Some show ?thesis by (simp add: bnd_def ret_def)
  qed
  have "snd (catch (terminate_box e i) (\<lambda>_. ret ()) v) = snd (terminate_box e i v)" by (rule catch_snd) (simp add: ret_def)
  with terminate_notes [of e i v] u v assms(2) show ?thesis
    by (auto simp: never_ready_def bnd_def thn_def raise_def split: prod.splits sum.splits)
qed

lemma await_ready_ends:
  assumes "tells_state e" "await_ready e spec sandbox_id i s = (r, t)"
  shows "ms_live t = ms_live s \<and> (case r of Inr _ \<Rightarrow> ms_log t = ms_log s | Inl x \<Rightarrow> ms_log t = ms_log s @ [ModalTerminated i])"
proof (cases "probe_of spec = None")
  case True
  then show ?thesis using assms(2) by (auto simp: await_ready_def)
next
  case False
  obtain a u where u: "in_modal (me_wait_ready e i (sx_restore_timeout_s spec)) s = (a, u)" by fastforce
  then have lu: "ms_log u = ms_log s" "ms_live u = ms_live s" using in_modal_keeps by (metis snd_conv)+
  consider "a = Inr ()" | x where "a = Inl x" "is_exception x" | "a = Inl CancelledError" using not_exception by (cases a) auto
  then show ?thesis
  proof cases
    case 1
    then show ?thesis using assms(2) False u lu by (auto simp: await_ready_def)
  next
    case 2
    then have "never_ready e sandbox_id i x u = (r, t)" using assms(2) False u by (simp add: await_ready_def)
    from never_ready_ends [OF assms(1) this] lu show ?thesis by auto
  next
    case 3
    let ?m = "catch (bounded_by e ms_world api_slack_s (terminate_box e i)) (\<lambda>_. ret ())"
    have "snd (?m u) = snd (terminate_box e i u)" by (subst catch_snd) (simp_all add: ret_def bounded_log)
    moreover have "thn ?m (raise CancelledError) u = (r, t)" using assms(2) False u 3 by (simp add: await_ready_def)
    ultimately show ?thesis using terminate_notes [of e i u] lu
      by (auto simp: thn_def bnd_def raise_def split: prod.splits sum.splits)
  qed
qed

text \<open>C32. An open that fails leaves no sandbox running and no handle: as long as Modal tells the state of a sandbox it
  made, each one made by an open that raises, whether it never became ready or the caller was cancelled, was
  asked to end. One that returns made exactly the sandbox it returns, asked none to end, and keeps its handle.\<close>

theorem failed_open_terminates:
  assumes "tells_state e" "open_box e p spec sandbox_id s = (r, t)"
  shows "case r of
      Inr b \<Rightarrow> ms_log t = ms_log s @ [ModalCreated (mb_id b)] \<and> ms_live t = dset (mb_id b) b (ms_live s)
    | Inl x \<Rightarrow> ms_live t = ms_live s \<and> (ms_log t = ms_log s \<or> (\<exists>i. ms_log t = ms_log s @ [ModalCreated i, ModalTerminated i]))"
proof (cases "entry_config_of p spec sandbox_id False")
  case (Inl x)
  then show ?thesis using assms(2) by (auto simp: open_box_def bnd_def from_res_def readS_def)
next
  case (Inr config)
  obtain l u where u: "in_modal (me_lookup e) s = (l, u)" "ms_log u = ms_log s" "ms_live u = ms_live s" using in_modal_keeps by (metis prod.collapse)
  show ?thesis
  proof (cases "\<exists>request. l = Inr () \<and> request_of e p spec sandbox_id config = Inr request")
    case False
    then show ?thesis using assms(2) Inr u by (auto simp: open_box_def bnd_def thn_def from_res_def readS_def split: sum.splits)
  next
    case True
    then obtain request where req: "l = Inr ()" "request_of e p spec sandbox_id config = Inr request" by blast
    obtain c v where v: "in_modal (me_create e request) u = (c, v)" "ms_log v = ms_log s" "ms_live v = ms_live s"
      using in_modal_keeps [of "me_create e request" u] u by (metis prod.collapse)
    show ?thesis
    proof (cases c)
      case (Inl x)
      then show ?thesis using assms(2) Inr u v req by (auto simp: open_box_def bnd_def thn_def from_res_def readS_def)
    next
      case (Inr i)
      let ?v = "v\<lparr>ms_log := ms_log v @ [ModalCreated i]\<rparr>"
      have run: "thn (await_ready e spec sandbox_id i) (handle_box p spec sandbox_id i) ?v = (r, t)"
        using assms(2) \<open>entry_config_of p spec sandbox_id False = Inr config\<close> Inr u v req
        by (simp add: open_box_def bnd_def thn_def from_res_def readS_def note_modal_def modifyS_def)
      obtain a w where w: "await_ready e spec sandbox_id i ?v = (a, w)" by fastforce
      note ready = await_ready_ends [OF assms(1) w]
      obtain b where b: "box_of p spec sandbox_id i = Inr b" "mb_id b = i"
        using handle_after_config [OF \<open>entry_config_of p spec sandbox_id False = Inr config\<close>] by blast
      show ?thesis
      proof (cases a)
        case (Inl x)
        then have "r = Inl x \<and> t = w" using run w by (simp add: thn_def bnd_def)
        then show ?thesis using ready Inl v by auto
      next
        case (Inr done_waiting)
        then have "r = Inr b \<and> t = w\<lparr>ms_live := dset i b (ms_live w)\<rparr>" using run w b
          by (auto simp: thn_def bnd_def handle_box_def from_res_def readS_def modifyS_def ret_def)
        then show ?thesis using ready Inr v b by auto
      qed
    qed
  qed
qed

definition sample_spec_modal :: sandbox_spec where
  "sample_spec_modal = default_spec\<lparr>sx_storage := DiskSync, sx_network := True\<rparr>"

lemma sample_opens:
  obtains config where "entry_config_of sample_provider sample_spec_modal ''t1'' False = Inr config"
    "\<And>e. \<exists>request. request_of e sample_provider sample_spec_modal ''t1'' config = Inr request"
proof -
  have plan: "modal_plan sample_provider sample_spec_modal ''t1'' = Inr \<lparr>pl_pushed = \<lparr>rs_source = \<lparr>lc_bucket = ''b'', lc_prefix = ''runs/t1/''\<rparr>,
      rs_path = [], rs_push = True\<rparr>, pl_others = [], pl_mounts = []\<rparr>"
    by (simp add: modal_plan_def sample_provider_def sample_spec_modal_def default_spec_def own_location_def location_post_init_def
      restore_post_init_def check_path_def checked_plan_def Let_def Texts.ends_with_def Texts.starts_with_def slash_def)
  obtain config where config: "entry_config_of sample_provider sample_spec_modal ''t1'' False = Inr config"
    unfolding entry_config_of_def sync_argv_def plan by (simp add: sample_spec_modal_def default_spec_def restore_for_def Let_def host_for_def)
  moreover have "\<exists>request. request_of e sample_provider sample_spec_modal ''t1'' config = Inr request" for e :: "'a modal_env"
    unfolding request_of_def volumes_of_def plan by (simp add: network_of_def sample_spec_modal_def)
  ultimately show ?thesis using that by blast
qed

lemma sample_probe: "probe_of sample_spec_modal = Some (ProbeFile ready_file)"
  by (simp add: probe_of_def sample_spec_modal_def default_spec_def)

lemma sample_api:
  "me_lookup sample_modal = ret ()" "me_create sample_modal q = ret ''sb-1''" "me_wait_ready sample_modal i w = raise (RuntimeError ''slow'')"
  "me_poll sample_modal i = ret None" "me_terminate sample_modal i = ret ()"
  by (simp_all add: sample_modal_def)

lemmas open_steps = open_box_def await_ready_def never_ready_def terminate_box_def bnd_def thn_def from_res_def readS_def in_modal_def
  note_modal_def modifyS_def ret_def raise_def catch_def sample_probe sample_api

text \<open>The sandbox never becomes ready.\<close>

theorem failed_open_terminates_witness:
  "\<exists>x t. open_box sample_modal sample_provider sample_spec_modal ''t1'' \<lparr>ms_live = [], ms_log = [], ms_world = ()\<rparr> = (Inl x, t)
    \<and> ms_log t = [ModalCreated ''sb-1'', ModalTerminated ''sb-1'']"
proof -
  let ?s = "\<lparr>ms_live = [], ms_log = [], ms_world = ()\<rparr> :: unit modal_state"
  have tells: "tells_state sample_modal" by (simp add: tells_state_def sample_modal_def ret_def)
  obtain r t where run: "open_box sample_modal sample_provider sample_spec_modal ''t1'' ?s = (r, t)" by fastforce
  obtain config where config: "entry_config_of sample_provider sample_spec_modal ''t1'' False = Inr config"
    "\<exists>request. request_of sample_modal sample_provider sample_spec_modal ''t1'' config = Inr request" by (rule sample_opens) blast
  have failed: "(\<exists>x. r = Inl x) \<and> ModalCreated ''sb-1'' \<in> set (ms_log t)" using run config by (auto simp: open_steps)
  with failed_open_terminates [OF tells run] obtain i where "ms_log t = [ModalCreated i, ModalTerminated i]" by auto
  then show ?thesis using run failed by auto
qed

text \<open>Without that a sandbox is left running: one that was not ready in time, of a Modal that then cannot say whether it
  still runs, is never asked to end.\<close>

lemma lost_poll_leaks:
  "\<exists>x t. open_box (sample_modal\<lparr>me_poll := (\<lambda>_. raise (RuntimeError ''api''))\<rparr>) sample_provider sample_spec_modal ''t1''
      \<lparr>ms_live = [], ms_log = [], ms_world = ()\<rparr> = (Inl x, t) \<and> ms_log t = [ModalCreated ''sb-1'']"
proof -
  obtain config where "entry_config_of sample_provider sample_spec_modal ''t1'' False = Inr config"
    "\<exists>request. request_of (sample_modal\<lparr>me_poll := (\<lambda>_. raise (RuntimeError ''api''))\<rparr>) sample_provider sample_spec_modal ''t1'' config = Inr request"
    by (rule sample_opens) blast
  then show ?thesis by (auto simp: open_steps)
qed

section \<open>What a command does not see\<close>

text \<open>Every scrubbed name the caller did not pass is taken out of the command's environment, by \<open>env -u\<close> before it.\<close>

lemma scrubbed_unsets:
  assumes "n \<in> set (mb_scrub b)" "n \<notin> set (dkeys (or_else env []))"
  shows "\<exists>unset. scrubbed b env argv = ''env'' # unset @ argv \<and> ''-u'' @ n \<in> set unset"
  using assms by (auto simp: scrubbed_def Let_def filter_empty_conv)

end
