(* ===== verification/Local_Sandbox.thy ===== *)
theory Local_Sandbox
  imports Modal_Sandbox
begin

text \<open>
  The local backend (\<open>actant/sandbox/local.py\<close>): a directory, commands as child processes, and a service host as one
  more. The file system, processes and the clock are parameters: \<open>le_resolve\<close> is \<open>Path.resolve\<close>, which follows links,
  and a wait raises a time-out or whatever else. Processes are numbers; which were started and which process groups were
  sent a signal is noted.
\<close>

section \<open>Paths\<close>

definition join_root :: "string \<Rightarrow> string \<Rightarrow> string" where
  "join_root dir path = (if Texts.starts_with [slash] path then path else if path = [] then dir else dir @ [slash] @ path)"

text \<open>\<open>p in t.parents\<close>, of resolved paths.\<close>

definition is_parent :: "string \<Rightarrow> string \<Rightarrow> bool" where
  "is_parent p t \<longleftrightarrow> (if p = [slash] then t \<noteq> [slash] else Texts.starts_with (p @ [slash]) t)"

section \<open>Processes\<close>

datatype local_event = LocalStarted nat | LocalSignal nat int

record listed_file =
  lf_path :: string
  lf_is_file :: bool
  lf_resolved :: string
  lf_relative :: string
  lf_size :: int
  lf_mtime :: json

text \<open>\<open>le_communicate\<close> with no bound waits for the end; \<open>le_line\<close> is a host's first line, within its bound.\<close>

record 'w local_env =
  le_resolve :: "'w \<Rightarrow> string \<Rightarrow> string"
  le_read_file :: "string \<Rightarrow> ('w, string) act"
  le_write_file :: "string \<Rightarrow> string \<Rightarrow> ('w, unit) act"
  le_glob :: "string \<Rightarrow> string \<Rightarrow> ('w, listed_file list) act"
  le_is_dir :: "'w \<Rightarrow> string \<Rightarrow> bool"
  le_make_dir :: "string \<Rightarrow> ('w, unit) act"
  le_temp_dir :: "('w, string) act"
  le_environ :: "'w \<Rightarrow> (string, string) dict"
  le_python_dir :: string
  le_enforceable :: bool
  le_spawn :: "string list \<Rightarrow> string \<Rightarrow> (string, string) dict \<Rightarrow> ('w, nat) act"
  le_communicate :: "nat \<Rightarrow> rat option \<Rightarrow> ('w, string \<times> string) act"
  le_wait_for :: "nat \<Rightarrow> rat option \<Rightarrow> ('w, unit) act"
  le_line :: "nat \<Rightarrow> rat \<Rightarrow> ('w, string) act"
  le_returncode :: "'w \<Rightarrow> nat \<Rightarrow> int option"
  le_signal :: "nat \<Rightarrow> int \<Rightarrow> ('w, unit) act"
  le_token :: "('w, string) act"
  le_dump :: "host_config entry_config \<Rightarrow> string"
  le_sha :: "string \<Rightarrow> string"
  le_script :: string
  le_python :: string
  le_show_services :: "(string \<times> service) list \<Rightarrow> string"

record local_box =
  lb_root :: string
  lb_env :: "(string, string) dict"
  lb_scrub :: "string list"
  lb_endpoint :: "endpoint option"
  lb_host :: "nat option"

record 'w localed =
  lo_access :: access_setup
  lo_warned :: bool
  lo_log :: "local_event list"
  lo_world :: 'w

definition sigterm :: int where
  "sigterm = 15"

definition sigkill :: int where
  "sigkill = 9"

definition in_local :: "('w, 'a) act \<Rightarrow> ('w localed, 'a) act" where
  "in_local m s = (case m (lo_world s) of (r, w) \<Rightarrow> (r, s\<lparr>lo_world := w\<rparr>))"

definition note_local :: "local_event \<Rightarrow> ('w localed, unit) act" where
  "note_local ev = modifyS (\<lambda>s. s\<lparr>lo_log := lo_log s @ [ev]\<rparr>)"

definition lookup_gone :: "py_error \<Rightarrow> bool" where
  "lookup_gone x \<longleftrightarrow> err_type x = ''ProcessLookupError''"

text \<open>\<open>_signal_group\<close>: a group that is gone is passed over.\<close>

definition signal_group :: "'w local_env \<Rightarrow> nat \<Rightarrow> int \<Rightarrow> ('w localed, unit) act" where
  "signal_group e pid signum = thn (note_local (LocalSignal pid signum))
     (catch (in_local (le_signal e pid signum)) (\<lambda>x. if lookup_gone x then ret () else raise x))"

section \<open>Files\<close>

definition local_path :: "'w local_env \<Rightarrow> local_box \<Rightarrow> string \<Rightarrow> 'w \<Rightarrow> py_error + string" where
  "local_path e b path w = (let target = le_resolve e w (join_root (lb_root b) path) in
     if target \<noteq> lb_root b \<and> \<not> is_parent (lb_root b) target then Inl (ValueError (''path escapes the sandbox: '' @ repr_str path)) else Inr target)"

definition local_read :: "'w local_env \<Rightarrow> local_box \<Rightarrow> string \<Rightarrow> ('w localed, string) act" where
  "local_read e b path = bnd (readS (\<lambda>s. local_path e b path (lo_world s))) (\<lambda>target. in_local (le_read_file e target))"

definition local_write :: "'w local_env \<Rightarrow> local_box \<Rightarrow> string \<Rightarrow> string \<Rightarrow> ('w localed, unit) act" where
  "local_write e b path data = bnd (readS (\<lambda>s. local_path e b path (lo_world s))) (\<lambda>target. in_local (le_write_file e target data))"

definition local_ls :: "'w local_env \<Rightarrow> local_box \<Rightarrow> string \<Rightarrow> ('w localed, listed_entry list) act" where
  "local_ls e b pat = bnd (from_res (box_check pat)) (\<lambda>pat. bnd (in_local (le_glob e (lb_root b) pat)) (\<lambda>found.
     ret (map (\<lambda>f. \<lparr>li_path = lf_relative f, li_size = lf_size f, li_mtime = lf_mtime f\<rparr>)
       (filter (\<lambda>f. lf_is_file f \<and> is_parent (lb_root b) (lf_resolved f)) (sort_by (\<lambda>f g. str_le (lf_path f) (lf_path g)) found)))))"

section \<open>Commands\<close>

definition local_environment :: "'w local_env \<Rightarrow> 'w \<Rightarrow> (string, string) dict \<Rightarrow> (string, string) dict" where
  "local_environment e w env = merge_env
     (dset ''PATH'' (le_python_dir e @ '':'' @ or_else (dget (le_environ e w) ''PATH'') []) (le_environ e w)) env"

definition ended_result :: "int option \<Rightarrow> string \<times> string \<Rightarrow> exec_result" where
  "ended_result code out = \<lparr>er_returncode = or_else code 0, er_stdout = fst out, er_stderr = snd out, er_timed_out = False\<rparr>"

definition killed_result :: "string \<times> string \<Rightarrow> exec_result" where
  "killed_result out = \<lparr>er_returncode = 124, er_stdout = fst out, er_stderr = snd out @ [CHR 0x0A] @ ''Timed out.'' @ [CHR 0x0A], er_timed_out = True\<rparr>"

text \<open>A time-out and a cancellation of the caller are handled alike.\<close>

definition gave_up :: "py_error \<Rightarrow> bool" where
  "gave_up x \<longleftrightarrow> x = CancelledError \<or> err_type x = ''TimeoutError''"

definition child_run :: "'w local_env \<Rightarrow> string list \<Rightarrow> string \<Rightarrow> rat \<Rightarrow> (string, string) dict \<Rightarrow> ('w localed, exec_result) act" where
  "child_run e argv cwd timeout env = bnd (in_local (le_spawn e argv cwd env)) (\<lambda>pid. thn (note_local (LocalStarted pid)) (\<lambda>s.
     case in_local (le_communicate e pid (Some timeout)) s of
       (Inr out, t) \<Rightarrow> (Inr (ended_result (le_returncode e (lo_world t) pid) out), t)
     | (Inl x, t) \<Rightarrow> (if gave_up x
         then thn (signal_group e pid sigkill) (bnd (in_local (le_communicate e pid None)) (\<lambda>out. ret (killed_result out))) t
         else (Inl x, t))))"

definition local_as_root :: "'w local_env \<Rightarrow> local_box \<Rightarrow> string list \<Rightarrow> (access_setup \<times> 'w localed, ran) act" where
  "local_as_root e b argv = (\<lambda>(a, s). case child_run e argv (lb_root b) setup_timeout_s (local_environment e (lo_world s) []) s of (r, s') \<Rightarrow>
     (map_sum id (\<lambda>x. \<lparr>rn_returncode = er_returncode x, rn_stdout = er_stdout x, rn_stderr = er_stderr x\<rparr>) r, (a, s')))"

definition child_ready :: "'w local_env \<Rightarrow> local_box \<Rightarrow> (access_setup \<times> 'w localed, unit) act \<Rightarrow> sandbox_access \<Rightarrow> ('w localed, unit) act" where
  "child_ready e b lock a s = (case ready (le_sha e) (le_script e) (lb_root b) (local_as_root e b) lock a (lo_access s, s) of
     (r, (setup, s')) \<Rightarrow> (r, s'\<lparr>lo_access := setup\<rparr>))"

definition command_env :: "'w local_env \<Rightarrow> local_box \<Rightarrow> 'w \<Rightarrow> (string, string) dict option \<Rightarrow> (string, string) dict" where
  "command_env e b w env = merge_env (filter (\<lambda>(k, v). k \<notin> set (lb_scrub b)) (local_environment e w (lb_env b))) (or_else env [])"

definition local_exec :: "'w local_env \<Rightarrow> local_box \<Rightarrow> (access_setup \<times> 'w localed, unit) act \<Rightarrow> string list \<Rightarrow> string option \<Rightarrow> rat
     \<Rightarrow> (string, string) dict option \<Rightarrow> sandbox_access option \<Rightarrow> ('w localed, exec_result) act" where
  "local_exec e b lock argv cwd timeout env access = bnd (case access of
        None \<Rightarrow> ret argv
      | Some a \<Rightarrow> (if le_enforceable e then thn (child_ready e b lock a) (ret (run_argv a argv ''/tmp''))
          else thn (modifyS (\<lambda>s. s\<lparr>lo_warned := True\<rparr>)) (ret argv))) (\<lambda>argv.
     bnd (case cwd of None \<Rightarrow> ret (lb_root b)
        | Some d \<Rightarrow> (if d = [] then ret (lb_root b) else readS (\<lambda>s. local_path e b d (lo_world s)))) (\<lambda>dir.
     bnd getS (\<lambda>s. child_run e argv dir timeout (command_env e b (lo_world s) env))))"

section \<open>Pushing and closing\<close>

fun check_paths :: "'w local_env \<Rightarrow> local_box \<Rightarrow> string list \<Rightarrow> 'w \<Rightarrow> py_error + unit" where
  "check_paths e b [] w = Inr ()"
| "check_paths e b (p # ps) w = try_bind (local_path e b p w) (\<lambda>_. check_paths e b ps w)"

definition local_sync :: "'w local_env \<Rightarrow> local_box \<Rightarrow> string list option \<Rightarrow> ('w localed, exec_result) act" where
  "local_sync e b paths = bnd (readS (\<lambda>s. check_paths e b (or_else paths []) (lo_world s))) (\<lambda>_.
     ret \<lparr>er_returncode = 0, er_stdout = [], er_stderr = [], er_timed_out = False\<rparr>)"

definition local_close :: "'w local_env \<Rightarrow> local_box \<Rightarrow> ('w localed, unit) act" where
  "local_close e b = (case lb_host b of None \<Rightarrow> ret () | Some pid \<Rightarrow> thn (signal_group e pid sigterm)
     (catch (in_local (le_wait_for e pid (Some 10))) (\<lambda>x. if err_type x = ''TimeoutError''
        then thn (signal_group e pid sigkill) (in_local (le_wait_for e pid None)) else raise x)))"

section \<open>The service host\<close>

definition host_start_timeout_s :: rat where
  "host_start_timeout_s = 60"

definition ready_prefix :: string where
  "ready_prefix = ''actant-host-listening''"

text \<open>\<open>line.strip().partition(' ')\<close>: the first word and what follows the space.\<close>

definition ready_line :: "string \<Rightarrow> string \<times> string" where
  "ready_line line = (let l = py_strip line in (takeWhile (\<lambda>c. c \<noteq> CHR '' '') l, drop 1 (dropWhile (\<lambda>c. c \<noteq> CHR '' '') l)))"

definition local_host_config :: "sandbox_spec \<Rightarrow> host_config entry_config" where
  "local_host_config spec = \<lparr>ec_restore = None, ec_host = Some \<lparr>hf_services = sx_services spec, hf_port = 0, hf_bind = ''127.0.0.1'',
     hf_scrub = sx_scrub_env spec, hf_push = None\<rparr>\<rparr>"

definition not_started :: "'w local_env \<Rightarrow> sandbox_spec \<Rightarrow> int option \<Rightarrow> py_error" where
  "not_started e spec code = RuntimeError (''service host for '' @ le_show_services e (sx_services spec) @ '' did not start (exit ''
     @ (case code of None \<Rightarrow> ''None'' | Some c \<Rightarrow> int_str c) @ '')'')"

definition start_local_host :: "'w local_env \<Rightarrow> sandbox_spec \<Rightarrow> string \<Rightarrow> ('w localed, endpoint \<times> nat) act" where
  "start_local_host e spec dir = (if sx_services spec = [] then raise AssertionError else bnd (in_local (le_token e)) (\<lambda>token. bnd getS (\<lambda>s.
     bnd (in_local (le_spawn e [le_python e, ''-m'', ''actant.sandbox.entry'', le_dump e (local_host_config spec)] dir
        (dset ''ACTANT_HOST_TOKEN'' token (local_environment e (lo_world s) (sx_env spec))))) (\<lambda>pid. thn (note_local (LocalStarted pid))
     (bnd (catch (in_local (le_line e pid host_start_timeout_s)) (\<lambda>x. if err_type x = ''TimeoutError'' then ret [] else raise x)) (\<lambda>line.
     case ready_line line of (pre, port) \<Rightarrow> (if pre \<noteq> ready_prefix
       then thn (signal_group e pid sigkill) (thn (in_local (le_wait_for e pid None)) (bnd getS (\<lambda>s. raise (not_started e spec (le_returncode e (lo_world s) pid)))))
       else ret (\<lparr>ep_url = ''http://127.0.0.1:'' @ port, ep_headers = [(''Authorization'', ''Bearer '' @ token)]\<rparr>, pid))))))))"

section \<open>The provider\<close>

record local_provider =
  lv_root :: "string option"
  lv_live :: "(string, local_box) dict"

type_synonym 'w local_world = "local_provider \<times> 'w localed"

definition on_localed :: "('w localed, 'a) act \<Rightarrow> ('w local_world, 'a) act" where
  "on_localed m = (\<lambda>(p, s). case m s of (r, s') \<Rightarrow> (r, (p, s')))"

definition serve_local :: "'w local_env \<Rightarrow> sandbox_spec \<Rightarrow> string \<Rightarrow> ('w local_world, local_box) act" where
  "serve_local e spec dir = (if sx_services spec = []
     then ret \<lparr>lb_root = dir, lb_env = sx_env spec, lb_scrub = sx_scrub_env spec, lb_endpoint = None, lb_host = None\<rparr>
     else bnd (on_localed (start_local_host e spec dir)) (\<lambda>(ep, pid).
       let b = \<lparr>lb_root = dir, lb_env = sx_env spec, lb_scrub = sx_scrub_env spec, lb_endpoint = Some ep, lb_host = Some pid\<rparr> in
       thn (modifyS (\<lambda>(p, s). (p\<lparr>lv_live := dset dir b (lv_live p)\<rparr>, s))) (ret b)))"

definition runs_still :: "'w local_env \<Rightarrow> 'w \<Rightarrow> local_box \<Rightarrow> bool" where
  "runs_still e w b \<longleftrightarrow> (case lb_host b of None \<Rightarrow> False | Some pid \<Rightarrow> le_returncode e w pid = None)"

definition local_sandbox :: "'w local_env \<Rightarrow> sandbox_spec \<Rightarrow> string \<Rightarrow> ('w local_world, local_box) act" where
  "local_sandbox e spec path = bnd getS (\<lambda>(p, s). let dir = le_resolve e (lo_world s) path in
     case dget (lv_live p) dir of
       Some b \<Rightarrow> (if runs_still e (lo_world s) b then ret b else serve_local e spec dir)
     | None \<Rightarrow> serve_local e spec dir)"

definition local_open :: "'w local_env \<Rightarrow> sandbox_spec \<Rightarrow> string \<Rightarrow> ('w local_world, local_box) act" where
  "local_open e spec sandbox_id = bnd getS (\<lambda>(p, s).
     bnd (if or_else (sx_mount spec) [] \<noteq> [] then ret (or_else (sx_mount spec) [])
       else case lv_root p of Some r \<Rightarrow> ret r | None \<Rightarrow> on_localed (in_local (le_temp_dir e))) (\<lambda>base.
     let dir = join_root base sandbox_id in thn (on_localed (in_local (le_make_dir e dir))) (local_sandbox e spec dir)))"

definition local_attach :: "'w local_env \<Rightarrow> sandbox_spec \<Rightarrow> string \<Rightarrow> ('w local_world, local_box) act" where
  "local_attach e spec provider_id = bnd getS (\<lambda>(p, s). if \<not> le_is_dir e (lo_world s) provider_id then raise (KeyError provider_id)
     else local_sandbox e spec provider_id)"

section \<open>What runs, and what is left running\<close>

lemma local_path_inside: "local_path e b path w = Inr target \<Longrightarrow> target = lb_root b \<or> is_parent (lb_root b) target"
  by (auto simp: local_path_def Let_def split: if_splits)

lemma in_local_log [simp]: "lo_log (snd (in_local m s)) = lo_log s"
  by (simp add: in_local_def split: prod.split)

lemma signal_group_log: "lo_log (snd (signal_group e pid n s)) = lo_log s @ [LocalSignal pid n]"
proof -
  let ?s = "s\<lparr>lo_log := lo_log s @ [LocalSignal pid n]\<rparr>"
  have "snd (catch (in_local (le_signal e pid n)) (\<lambda>x. if lookup_gone x then ret () else raise x) ?s) = snd (in_local (le_signal e pid n) ?s)"
    by (rule catch_snd) (simp add: ret_def raise_def)
  then show ?thesis by (simp add: signal_group_def thn_def bnd_def note_local_def modifyS_def)
qed

text \<open>A command that returns a result has ended, or its whole process group was killed and the result says so.\<close>

lemma child_run_ends:
  assumes "child_run e argv cwd timeout env s = (Inr res, t)"
  shows "\<exists>pid. lo_log t = lo_log s @ LocalStarted pid # (if er_timed_out res then [LocalSignal pid sigkill] else [])"
proof -
  obtain pid u where u: "in_local (le_spawn e argv cwd env) s = (Inr pid, u)" "lo_log u = lo_log s"
  proof (cases "in_local (le_spawn e argv cwd env) s")
    case (Pair r u)
    then show ?thesis using that assms in_local_log [of "le_spawn e argv cwd env" s] by (cases r) (simp_all add: child_run_def bnd_def)
  qed
  let ?u = "u\<lparr>lo_log := lo_log u @ [LocalStarted pid]\<rparr>"
  obtain a v where v: "in_local (le_communicate e pid (Some timeout)) ?u = (a, v)" "lo_log v = lo_log s @ [LocalStarted pid]"
    using in_local_log [of "le_communicate e pid (Some timeout)" ?u] u by (metis localed.simps(3) localed.surjective localed.update_convs(3) prod.collapse)
  show ?thesis
  proof (cases a)
    case (Inr out)
    then show ?thesis using assms u v by (auto simp: child_run_def bnd_def thn_def note_local_def modifyS_def ended_result_def)
  next
    case (Inl x)
    then have "gave_up x" and run: "thn (signal_group e pid sigkill) (bnd (in_local (le_communicate e pid None)) (\<lambda>out. ret (killed_result out))) v = (Inr res, t)"
      using assms u v by (auto simp: child_run_def bnd_def thn_def note_local_def modifyS_def split: if_splits)
    from run obtain w out where w: "signal_group e pid sigkill v = (Inr (), w)" "in_local (le_communicate e pid None) w = (Inr out, t)" "res = killed_result out"
      by (auto simp: thn_def bnd_def ret_def split: prod.splits sum.splits)
    then show ?thesis using signal_group_log [of e pid sigkill v] in_local_log [of "le_communicate e pid None" w] v
      by (auto simp: killed_result_def)
  qed
qed

text \<open>A caller that is cancelled while its command runs is not told: the command is killed and the caller gets a result.\<close>

lemma cancel_becomes_result:
  assumes "le_spawn e argv cwd env w = (Inr pid, w1)" "le_communicate e pid (Some timeout) w1 = (Inl CancelledError, w2)"
    and "le_signal e pid sigkill w2 = (Inr (), w3)" "le_communicate e pid None w3 = (Inr out, w4)"
  shows "fst (child_run e argv cwd timeout env (s\<lparr>lo_world := w\<rparr>)) = Inr (killed_result out)"
  using assms by (simp add: child_run_def thn_def bnd_def in_local_def note_local_def modifyS_def gave_up_def signal_group_def catch_def ret_def)

text \<open>A cancellation while a service host starts leaves it running: nothing is sent to its process.\<close>

lemma cancelled_start_leaks:
  assumes "sx_services spec \<noteq> []" "le_token e w = (Inr token, w0)"
    and "\<And>argv env. le_spawn e argv dir env w0 = (Inr pid, w1)" "le_line e pid host_start_timeout_s w1 = (Inl CancelledError, w2)"
  shows "\<exists>t. start_local_host e spec dir (s\<lparr>lo_world := w\<rparr>) = (Inl CancelledError, t) \<and> lo_log t = lo_log s @ [LocalStarted pid]"
  using assms by (simp add: start_local_host_def thn_def bnd_def in_local_def note_local_def modifyS_def catch_def getS_def)

text \<open>A host that runs is used again: no process is started for its directory.\<close>

lemma live_host_reused:
  "le_is_dir e (lo_world s) i \<Longrightarrow> dget (lv_live p) (le_resolve e (lo_world s) i) = Some b \<Longrightarrow> runs_still e (lo_world s) b \<Longrightarrow>
     local_attach e spec i (p, s) = (Inr b, (p, s))"
  by (simp add: local_attach_def local_sandbox_def bnd_def getS_def ret_def Let_def)

end
