(* ===== verification/Thread_Events.thy ===== *)
theory Thread_Events
  imports Activity_Context
begin

text \<open>Events as a client of a thread reads them (\<open>actant/runtime/events/types.py\<close>), and the loop of \<open>ThreadHandle.events\<close>
  over the payloads \<open>handle_events\<close> (\<open>Commands\<close>) gives.\<close>

record thread_event =
  te_type :: string
  te_thread_id :: string
  te_data :: json_obj
  te_parent_thread_id :: "string option"
  te_parent_tool_call_id :: "string option"
  te_subagent :: "string option"

definition optional_string :: "json option \<Rightarrow> string option" where
  "optional_string j = (case j of Some (JStr s) \<Rightarrow> Some s | _ \<Rightarrow> None)"

definition thread_event_from_dict :: "json_obj \<Rightarrow> py_error + thread_event" where
  "thread_event_from_dict payload = (case dget payload ''type'' of
      Some (JStr kind) \<Rightarrow> (case dget payload ''thread_id'' of
          Some (JStr thread) \<Rightarrow> Inr \<lparr>te_type = kind, te_thread_id = thread,
            te_data = (case dget payload ''data'' of Some (JObj d) \<Rightarrow> d | _ \<Rightarrow> []),
            te_parent_thread_id = optional_string (dget payload ''parent_thread_id''),
            te_parent_tool_call_id = optional_string (dget payload ''parent_tool_call_id''),
            te_subagent = optional_string (dget payload ''subagent'')\<rparr>
        | _ \<Rightarrow> Inl (ValueError ''runtime event is missing a string `thread_id`''))
    | _ \<Rightarrow> Inl (ValueError ''runtime event is missing a string `type`''))"

definition event_text :: "thread_event \<Rightarrow> string option" where
  "event_text ev = (case dget (te_data ev) ''delta'' of Some (JStr s) \<Rightarrow> Some s | _ \<Rightarrow> optional_string (dget (te_data ev) ''content''))"

definition event_tool_call_id :: "thread_event \<Rightarrow> string option" where
  "event_tool_call_id ev = optional_string (dget (te_data ev) ''tool_call_id'')"

definition event_terminal :: "thread_event \<Rightarrow> bool" where
  "event_terminal ev \<longleftrightarrow> te_type ev \<in> {''complete'', ''error''}"

text \<open>The loop of \<open>ThreadHandle.events\<close>: the payloads are read one by one; the first that is no event ends the stream with its error.\<close>

fun read_events :: "json_obj list \<Rightarrow> thread_event list \<times> py_error option" where
  "read_events [] = ([], None)"
| "read_events (p # ps) = (case thread_event_from_dict p of
      Inl x \<Rightarrow> ([], Some x)
    | Inr ev \<Rightarrow> (case read_events ps of (evs, x) \<Rightarrow> (ev # evs, x)))"

section \<open>What is published is read\<close>

text \<open>An event of no payload model, published to a sink that takes it, is read by the thread's handle with its type, its thread
  and its data, over the identity of the activity it came from.\<close>

lemma published_event_read:
  assumes "x_event_sink x = Some (\<lambda>_ _. ret ())" "kind \<notin> set payload_kinds"
  shows "\<exists>payload. w_events (snd (emit x ev kind data w)) = w_events w @ [(''thread:'' @ re_thread_id ev, payload)]
    \<and> thread_event_from_dict payload = Inr \<lparr>te_type = kind, te_thread_id = re_thread_id ev, te_data = dmerge (re_identity ev) data,
        te_parent_thread_id = None, te_parent_tool_call_id = None, te_subagent = None\<rparr>"
  using assms by (simp add: emit_def scoped_publish_def Let_def catch_def thn_def bnd_def modifyS_def ret_def thread_event_from_dict_def optional_string_def)

lemma event_without_type: "dget payload ''type'' = Some JNull \<or> dget payload ''type'' = None \<Longrightarrow>
    read_events (payload # rest) = ([], Some (ValueError ''runtime event is missing a string `type`''))"
  by (auto simp: thread_event_from_dict_def)

end
