(* ===== verification/Spec2Isabelle.thy ===== *)
theory Spec2Isabelle
  imports Local_Runtime Sql_Refine Sql_Messages Sandbox_Registry Providers Host_Calls Host_Http Host_Workers
    Service_Client Built_In_Tools Function_Tools Storage_S3 Sandbox_Entry Inline_Images Host_Post
    Modal_Sandbox Local_Sandbox Thread_Events
begin

text \<open>
  \<^bold>\<open>Actant\<close> runs agents: a thread of messages, a model that answers them with text and tool calls, and tools that
  run in sandboxes. This development models the package \<open>actant\<close> (under \<open>src/actant\<close>), from the projection
  stores up to the workflow, and from the tools down to the host inside a sandbox.

  \<^bold>\<open>How the program fits together.\<close> A client (\<open>runtime.py\<close>, \<open>thread.py\<close>) signals a Temporal workflow, one per thread
  (\<open>workflow.py\<close>). The workflow keeps an inbox and a cancellation flag and calls activities (\<open>activities/*.py\<close>), which
  write the projection stores: start a run, make a model turn, admit, execute, resolve and close its tool calls,
  compact the context, finalize. A turn assembles the model's view of the transcript (\<open>compaction.py\<close>), places
  pictures (\<open>assets.py\<close>, \<open>storage\<close>) and calls a provider's adapter (\<open>llm/providers\<close>), which waits on a rate limit.
  Tools (\<open>tools\<close>) may delegate to threads of their own or call a service in a sandbox: the registry
  (\<open>sandbox/registry.py\<close>) finds or opens the sandbox, and its host (\<open>sandbox/host.py\<close>, \<open>processes.py\<close>) answers over HTTP.

  \<^bold>\<open>Theories.\<close> Each opens with what it models and takes for granted. Records and datatypes have the source's fields and
  constructors, with a short prefix per record; a method is a definition of its name (a suffix or prefix is
  added where a name is taken), and a loop or a long body may be split along the code's own blocks.

  \<^item> Shared: \<open>Prelude\<close> (exceptions, the state and exception monad, dictionaries, stable sorting, the contract of
    an action that moves the state along a preorder), \<open>Json\<close> and \<open>Json_Round_Trip\<close> (values, printing, parsing),
    \<open>Texts\<close>, \<open>Base64\<close>.
  \<^item> Data: \<open>Messages\<close> (\<open>llm/messages.py\<close>, \<open>blocks.py\<close>), \<open>Session\<close> (\<open>runtime/session.py\<close>), \<open>Tool_Types\<close> (\<open>tools/calls.py\<close>,
    \<open>tools/base.py\<close>, \<open>tools/admission.py\<close>), \<open>Thread_Events\<close> (\<open>runtime/events/types.py\<close>).
  \<^item> Stores: \<open>Stores\<close> (\<open>stores/in_memory.py\<close>), \<open>Sql_Rows\<close>, \<open>Sql_Stores\<close> (\<open>stores/postgres\<close>), \<open>Sql_Refine\<close> and
    \<open>Sql_Messages\<close> (the SQL stores against the in-memory ones).
  \<^item> Turns: \<open>Agents\<close> (\<open>agents.py\<close>, \<open>tools/registry.py\<close>), \<open>Compaction\<close> (\<open>runtime/compaction.py\<close>), \<open>Assets\<close> and
    \<open>Inline_Images\<close> (\<open>assets.py\<close>), \<open>Storage_S3\<close> (\<open>storage\<close>).
  \<^item> Activities: \<open>Activity_Context\<close> (\<open>activities/context.py\<close>, \<open>runtime/events\<close>), \<open>Tool_Activities\<close> (\<open>activities/tools.py\<close>),
    \<open>Cancellation\<close> (\<open>cancellation.py\<close>, \<open>activities/threads.py\<close>), \<open>Summaries\<close> and \<open>Run_Activities\<close> (\<open>activities/runs.py\<close>).
  \<^item> Threads: \<open>Tool_Group\<close> and \<open>Workflow\<close> (\<open>workflow.py\<close>), \<open>Commands\<close> (\<open>runtime.py\<close>, \<open>thread.py\<close>), \<open>Local_Runtime\<close>
    (\<open>runtime/local.py\<close>).
  \<^item> Models: \<open>Rate_Limit\<close> (\<open>llm/rate_limit.py\<close>), \<open>Provider_Shared\<close>, \<open>Provider_Stream\<close>, \<open>Anthropic\<close>, \<open>Openai\<close>, \<open>Qwen\<close>, \<open>Gemini\<close>
    (\<open>llm/providers\<close>), \<open>Providers\<close> (\<open>llm/routing.py\<close> and what the adapters have in common).
  \<^item> Tools: \<open>Function_Tools\<close> (\<open>tools/function.py\<close>), \<open>Built_In_Tools\<close> (\<open>tools/task.py\<close>, \<open>supervise.py\<close>, \<open>finish.py\<close>,
    \<open>recall.py\<close>), \<open>Service_Client\<close> (\<open>sandbox/service.py\<close>, \<open>tools/service.py\<close>).
  \<^item> Sandboxes: \<open>Sandbox_Access\<close> (\<open>access.py\<close>), \<open>Sandbox_Spec\<close> (\<open>base.py\<close>, \<open>store.py\<close>), \<open>Sandbox_Stores\<close>,
    \<open>Sandbox_Registry\<close> (\<open>registry.py\<close>), \<open>Sandbox_Entry\<close> (\<open>entry.py\<close>), \<open>Modal_Plan\<close> and \<open>Modal_Sandbox\<close> (\<open>modal.py\<close>),
    \<open>Local_Sandbox\<close> (\<open>local.py\<close>).
  \<^item> The service host: \<open>Host_Protocol\<close> (\<open>protocol.py\<close>, results), \<open>Host_Calls\<close> (calls, instances, pushes), \<open>Host_Http\<close>
    (bytes of a connection), \<open>Host_Post\<close> (the pooled client), \<open>Host_Workers\<close> (\<open>processes.py\<close>, \<open>worker.py\<close>).

  \<^bold>\<open>Conventions.\<close> An \<open>async\<close> method is an action \<open>'s \<Rightarrow> (py_error + 'a) \<times> 's\<close>; an exception keeps the state
  reached. Code that is not in the repository (Temporal, Modal, SQLAlchemy, the model SDKs, pydantic, Pillow, S3,
  \<open>http.client\<close>, the file system, processes, clocks) is an argument: mostly an arbitrary action on the state, so that
  what other tasks do while it is awaited is part of it. What a theorem needs of it is a named hypothesis.
  A string is a list of characters below 256. A float is its text, or a rational where it is computed
  with. Where tasks interleave, the order is a parameter (\<open>Tool_Group\<close>, \<open>Workflow\<close>: what \<open>temporal\<close> chooses at each
  await), a sequence of events of a machine (\<open>Host_Calls\<close>, \<open>Host_Workers\<close>), or, for coroutines gathered together
  (\<open>Local_Runtime\<close>, the registry), the order of the list. Fields that the code only casts are taken to have the
  type of their annotation, and pydantic's coercions between types are left out.

  \<^bold>\<open>What the theorems show.\<close>
  \<^item> Tool calls: admission and execution never fail and tell the truth of the stored call; a finished call never
    changes and a lost one is not run again; a group is closed once, when every call has settled, with one result
    per call in order; the first resolution wins.
  \<^item> Runs and threads: a thread that gets no more messages goes idle with an empty inbox; a run keeps to its turns; a
    rotated workflow opens as the old one stopped; turns only add to transcripts; finalizing and cancelling
    repair what was left open, a cancel reaches every descendant; the local loop does what the workflow does.
  \<^item> Stores: SQL and in-memory stores answer every sequence of operations alike.
  \<^item> Models: the view never shows a result before its call; every call in a request has its result; nothing
    unfinished becomes a message; a request is sent only when the window holds it.
  \<^item> Sandboxes: a resolve leaks no sandbox, racing workers agree on one; a partial seed is never served; a push
    sends only what is its own and is read by the shell as it was meant; a failed open ends what it made, and a
    close pushes before it ends.
  \<^item> Services: a call id runs once, a finished call is pushed, an abandoned call is cancelled; calls on a
    connection are told apart and only the token is heard; only pictures leave; each worker call is answered once.
  \<^item> Tools and storage: an approval gates its function; a delegation starts the child it names; signed URLs
    outlive the call they are for.

  \<^bold>\<open>Interfaces.\<close> Each is a locale, interpreted on the model's own definitions: \<open>step_contract\<close> (actions along a preorder) on
  the stores' steps, transcripts, sandbox set-ups, the registry and the entrypoint's log; \<open>event_contract\<close>,
  which adds that publishing respects it, on the same; \<open>tool_contract\<close>, \<open>workflow_contract\<close>, \<open>run_contract\<close> and \<open>thread_contract\<close>
  (what each level of the workflow asks of the one below) in \<open>Tool_Group\<close> and \<open>Workflow\<close>; \<open>mapping_like\<close> on
  dictionaries; \<open>store_refinement\<close> on the SQL stores; \<open>sandbox_store\<close> on both sandbox stores; \<open>tool_wire\<close> on the adapters
  that pair calls with results by id.

  \<^bold>\<open>Bounds.\<close> A loop that may not end takes fuel; running out is \<open>None\<close> or an error of its own.
  \<^item> \<open>thread_loop\<close> and \<open>wait_for_message\<close>: one unit per round and per await. If nothing arrives from the \<open>n\<close>-th await on, the
    awaits up to \<open>n\<close> are enough.
  \<^item> \<open>cancel_children\<close>: Python's recursion, one unit per generation; the rank of the thread and one more are enough.
  \<^item> The registry's \<open>resolve\<close>: one per lost race; an undisturbed one needs one (\<open>resolve_undisturbed\<close>).
  \<^item> The rate limit's \<open>acquire\<close>: two passes are enough for a caller whose request fits an empty window, and no
    number is for one that does not (\<open>acquire_ends_iff_it_fits\<close>).
  \<^item> \<open>json_loads\<close> and \<open>serve_stream\<close>: the length of the input; each turn consumes some of it.
  \<^item> \<open>post_loop\<close>: the idle connections and one more; \<open>wait_pull\<close>: the bound in steps of ten seconds and one more
    (\<open>wait_pull_ends\<close>); \<open>fit_loop\<close>: pictures shrink (\<open>fit_loop_ends\<close>), but one that never fits loops for ever
    (\<open>unmet_limit_loops\<close>).
  \<^item> \<open>attempts\<close> of a model call: as many as the adapter allows; \<open>resolve_refs\<close>: the depth of a schema, which a circular
    reference exceeds.

  \<^bold>\<open>Not modelled.\<close> The command line, the logging set-up, heartbeats, the database migrations and engine, re-exports and protocol
  classes without bodies; the wiring of Temporal's client and worker, timeouts and retry policies (part of the
  parameter \<open>temporal\<close>); sockets, signals and the start of the host and its workers (\<open>serve\<close>, \<open>main\<close>, \<open>run_bounded\<close>,
  \<open>load\<close>); \<open>parameters_model\<close>, whose body is pydantic's; callers that share one resolve or one picture's
  read in flight; what s5cmd does with the arguments it is given; the demo application under \<open>examples\<close>. They are
  other programs' code, or glue whose behaviour is that code's.
\<close>

end
